(* ===== verification/Prelude.thy ===== *)
theory Prelude
  imports "HOL-Library.Word" "HOL-Library.Code_Target_Nat"
begin

text \<open>
  Shared ground of the development: names for the C integer types, the model of raw
  memory blocks (\<^verbatim>\<open>malloc\<close>, \<^verbatim>\<open>memcpy\<close>, \<^verbatim>\<open>memmove\<close>), and the collections of
  rewrite rules the component theories pass to the simplifier.

  A block of memory is the list of its bytes. Every access goes through
  \<open>mem_read\<close> and \<open>mem_write\<close>, which return \<open>None\<close> as soon as one byte of the
  access lies outside the block: undefined behaviour of the C program is the value
  \<open>None\<close> of the model, so a theorem that an operation returns \<open>Some\<close> says that the
  operation stays inside its memory.
\<close>

unbundle bit_operations_syntax

section \<open>C types\<close>

type_synonym size_t = "64 word"
type_synonym uint64_t = "64 word"
type_synonym uint32_t = "32 word"
type_synonym uint16_t = "16 word"
type_synonym uint8_t = "8 word"
type_synonym bytes = "char list"

named_theorems mem_simps \<open>rules for accesses to memory blocks\<close>
named_theorems size_simps \<open>rules that move size_t arithmetic to natural numbers\<close>
named_theorems flag_simps \<open>rules for the flag bits of the HTTP parser\<close>
named_theorems wp_simps \<open>rules that push predicates through the macros of the HTTP parser\<close>

section \<open>Memory blocks\<close>

definition mem_read :: "nat \<Rightarrow> nat \<Rightarrow> 'a list \<Rightarrow> 'a list option" where
  "mem_read off n m = (if off + n \<le> length m then Some (take n (drop off m)) else None)"

definition mem_write :: "nat \<Rightarrow> 'a list \<Rightarrow> 'a list \<Rightarrow> 'a list option" where
  "mem_write off bs m =
     (if off + length bs \<le> length m
      then Some (take off m @ bs @ drop (off + length bs) m) else None)"

lemma mem_read_in [mem_simps]:
  "off + n \<le> length m \<Longrightarrow> mem_read off n m = Some (take n (drop off m))"
  by (simp add: mem_read_def)

lemma mem_write_in [mem_simps]:
  "off + length bs \<le> length m \<Longrightarrow>
   mem_write off bs m = Some (take off m @ bs @ drop (off + length bs) m)"
  by (simp add: mem_write_def)

lemma mem_write_length:
  "mem_write off bs m = Some m' \<Longrightarrow> length m' = length m"
  by (auto simp: mem_write_def split: if_splits)

lemma mem_read_length:
  "mem_read off n m = Some bs \<Longrightarrow> length bs = n"
  by (auto simp: mem_read_def split: if_splits)

text \<open>What was written is what is read back, and bytes outside the write are kept.\<close>

lemma mem_read_write_same [mem_simps]:
  "mem_write off bs m = Some m' \<Longrightarrow> mem_read off (length bs) m' = Some bs"
  by (auto simp: mem_write_def mem_read_def split: if_splits)

lemma mem_read_write_before [mem_simps]:
  "mem_write off bs m = Some m' \<Longrightarrow> i + n \<le> off \<Longrightarrow> mem_read i n m' = mem_read i n m"
  by (auto simp: mem_write_def mem_read_def take_drop min_def split: if_splits)

lemma mem_read_write_after [mem_simps]:
  "mem_write off bs m = Some m' \<Longrightarrow> off + length bs \<le> i \<Longrightarrow> mem_read i n m' = mem_read i n m"
  by (auto simp: mem_write_def mem_read_def drop_append split: if_splits)

lemma take_drop_append_slice:
  assumes "r \<le> w" "w \<le> length d"
  shows "take (w - r + length xs) (drop r (take w d @ xs @ ys)) = take (w - r) (drop r d) @ xs"
  using assms by (simp add: drop_take)

section \<open>Unsigned arithmetic on size values\<close>

lemma unat_diff_le [size_simps]: "b \<le> a \<Longrightarrow> unat (a - b) = unat a - unat (b :: 'a::len word)"
  by (rule unat_sub)

lemma unat_add_le [size_simps]:
  "unat a + unat b < 2 ^ LENGTH('a) \<Longrightarrow> unat (a + b) = unat a + unat (b :: 'a::len word)"
  by (simp add: unat_word_ariths)

lemma unat_le_iff: "(a \<le> b) = (unat a \<le> unat (b :: 'a::len word))"
  by (rule word_le_nat_alt)

lemma unat_less_iff: "(a < b) = (unat a < unat (b :: 'a::len word))"
  by (rule word_less_nat_alt)

lemma unat_of_nat_small [size_simps]:
  "n < 2 ^ LENGTH('a) \<Longrightarrow> unat (of_nat n :: 'a::len word) = n"
  by (simp add: unat_of_nat)

lemma unat_lt_size: "unat (a :: size_t) < 2 ^ 64"
  using unsigned_less [of a] by simp

section \<open>Signed sizes\<close>

text \<open>Sizes kept as \<^verbatim>\<open>int\<close>: the range, and the conversion to \<^verbatim>\<open>size_t\<close>.\<close>

definition int_ok :: "int \<Rightarrow> bool" where
  "int_ok x \<longleftrightarrow> - (2 ^ 31) \<le> x \<and> x < 2 ^ 31"

definition to_size :: "int \<Rightarrow> nat" where
  "to_size x = unat (of_int x :: size_t)"

lemma int_ok_int: "int_ok (int n) \<longleftrightarrow> n < 2 ^ 31"
  unfolding int_ok_def of_nat_less_numeral_power_cancel_iff by (simp add: order_trans [of _ 0])

lemma to_size_nat: "int_ok x \<Longrightarrow> 0 \<le> x \<Longrightarrow> to_size x = nat x"
  by (simp add: to_size_def int_ok_def unat_eq_nat_uint uint_word_of_int)

lemma to_size_int: "n < 2 ^ 31 \<Longrightarrow> to_size (int n) = n"
  by (simp add: to_size_nat int_ok_int del: of_nat_less_numeral_power_cancel_iff)

end
