(* ===== verification/Interfaces.thy ===== *)
theory Interfaces
  imports Prelude "HOL-Library.Multiset"
begin

text \<open>
  The contracts several components share, as locales: the operations a client calls are
  the parameters, the laws a provider promises are the assumptions, and what clients
  conclude from them is proved once here. Each component interprets its contract on
  its own definitions.
\<close>

section \<open>A bounded first-in first-out byte store\<close>

text \<open>
  A client of a byte store puts whole strings in and consumes bytes from the front.
  A trace of such operations is run by \<open>fifo_run\<close>, which collects the bytes accepted,
  the bytes handed out and the final store; \<open>None\<close> is an operation that left its memory.
\<close>

datatype fifo_op = Put bytes | Get nat

fun fifo_run ::
  "('s \<Rightarrow> bytes \<Rightarrow> (bool \<times> 's) option) \<Rightarrow> ('s \<Rightarrow> nat \<Rightarrow> 's) \<Rightarrow> ('s \<Rightarrow> bytes) \<Rightarrow>
   's \<Rightarrow> fifo_op list \<Rightarrow> (bytes \<times> bytes \<times> 's) option" where
  "fifo_run put consume contents s [] = Some ([], [], s)"
| "fifo_run put consume contents s (Put bs # ops) =
     (case put s bs of
        None \<Rightarrow> None
      | Some (ok, s') \<Rightarrow>
          (case fifo_run put consume contents s' ops of
             None \<Rightarrow> None
           | Some (acc, got, t) \<Rightarrow> Some ((if ok then bs else []) @ acc, got, t)))"
| "fifo_run put consume contents s (Get n # ops) =
     (let k = min n (length (contents s)) in
      case fifo_run put consume contents (consume s k) ops of
        None \<Rightarrow> None
      | Some (acc, got, t) \<Rightarrow> Some (acc, take k (contents s) @ got, t))"

fun fifo_op_small :: "fifo_op \<Rightarrow> bool" where
  "fifo_op_small (Put bs) \<longleftrightarrow> length bs < 2 ^ 64"
| "fifo_op_small (Get n) \<longleftrightarrow> True"

locale byte_fifo =
  fixes inv :: "'s \<Rightarrow> bool"
    and contents :: "'s \<Rightarrow> bytes"
    and capacity :: "'s \<Rightarrow> nat"
    and put :: "'s \<Rightarrow> bytes \<Rightarrow> (bool \<times> 's) option"
    and consume :: "'s \<Rightarrow> nat \<Rightarrow> 's"
  assumes put_room:
    "inv s \<Longrightarrow> length (contents s) + length bs \<le> capacity s \<Longrightarrow> length bs < 2 ^ 64 \<Longrightarrow>
     \<exists>s'. put s bs = Some (True, s') \<and> inv s' \<and> capacity s' = capacity s \<and>
          contents s' = contents s @ bs"
    and put_full:
    "inv s \<Longrightarrow> capacity s < length (contents s) + length bs \<Longrightarrow> length bs < 2 ^ 64 \<Longrightarrow>
     put s bs = Some (False, s)"
    and consume_law:
    "inv s \<Longrightarrow> n \<le> length (contents s) \<Longrightarrow>
     inv (consume s n) \<and> capacity (consume s n) = capacity s \<and>
     contents (consume s n) = drop n (contents s)"
    and contents_bounded: "inv s \<Longrightarrow> length (contents s) \<le> capacity s"
begin

lemma put_cases:
  assumes "inv s" "length bs < 2 ^ 64"
  shows "\<exists>ok s'. put s bs = Some (ok, s') \<and> inv s' \<and> capacity s' = capacity s \<and>
    ok = (length (contents s) + length bs \<le> capacity s) \<and>
    contents s' = contents s @ (if ok then bs else [])"
proof (cases "length (contents s) + length bs \<le> capacity s")
  case True
  then show ?thesis using put_room [OF assms(1) True assms(2)] by auto
next
  case False
  then show ?thesis using put_full [OF assms(1) _ assms(2)] assms(1) by auto
qed

text \<open>
  No byte is lost, duplicated or reordered by any interleaving of writes and reads, and
  no operation leaves the store's memory.
\<close>

lemma run_stream:
  assumes "inv s" "\<forall>op \<in> set ops. fifo_op_small op"
  shows "\<exists>acc got t. fifo_run put consume contents s ops = Some (acc, got, t) \<and> inv t \<and>
    capacity t = capacity s \<and> got @ contents t = contents s @ acc"
  using assms
proof (induction ops arbitrary: s)
  case Nil
  then show ?case by simp
next
  case (Cons op ops)
  show ?case
  proof (cases op)
    case (Put bs)
    with Cons.prems obtain ok s' where s': "put s bs = Some (ok, s')" "inv s'"
      "capacity s' = capacity s" "contents s' = contents s @ (if ok then bs else [])"
      using put_cases [of s bs] by auto
    then show ?thesis
      using Cons.IH [OF s'(2)] Cons.prems(2) Put by auto
  next
    case (Get n)
    define k where "k = min n (length (contents s))"
    have s': "inv (consume s k)" "capacity (consume s k) = capacity s"
      "contents (consume s k) = drop k (contents s)"
      using consume_law [OF Cons.prems(1), of k] by (auto simp: k_def)
    obtain acc got t where t: "fifo_run put consume contents (consume s k) ops = Some (acc, got, t)"
      "inv t" "capacity t = capacity s" "got @ contents t = drop k (contents s) @ acc"
      using Cons.IH [OF s'(1)] Cons.prems(2) s' by auto
    then have "take k (contents s) @ got @ contents t = contents s @ acc"
      by (metis append.assoc append_take_drop_id)
    then show ?thesis
      using t Get by (auto simp: Let_def k_def [symmetric])
  qed
qed

end

section \<open>Character automata with a trap state\<close>

text \<open>
  The URL automaton and the host automaton of the HTTP parser are step functions with a
  state that no byte leaves. Their callers stop at the trap; the lemmas say that stopping
  early loses nothing, and how a run of bytes of one class is absorbed.
\<close>

locale trap_automaton =
  fixes step :: "'q \<Rightarrow> char \<Rightarrow> 'q"
    and trap :: "'q"
  assumes trap_step: "step trap c = trap"
begin

lemma run_trap: "foldl step trap cs = trap"
  by (induction cs) (simp_all add: trap_step)

lemma run_prefix_alive: "foldl step q (xs @ ys) \<noteq> trap \<Longrightarrow> foldl step q xs \<noteq> trap"
  using run_trap [of ys] by auto

lemma run_step_alive: "foldl step q (c # cs) \<noteq> trap \<Longrightarrow> step q c \<noteq> trap"
  using run_trap [of cs] by auto

lemma run_stay: "\<forall>c \<in> set cs. step q c = q \<Longrightarrow> foldl step q cs = q"
  by (induction cs) auto

end

section \<open>A store of elements addressed by index\<close>

text \<open>
  The contract of an array of equal-sized elements: a store at a valid index changes that element and no
  other. A client that makes a sequence of stores reads, at every index, the value stored there last.
\<close>

fun stores_run :: "('s \<Rightarrow> nat \<Rightarrow> 'v \<Rightarrow> 's option) \<Rightarrow> 's \<Rightarrow> (nat \<times> 'v) list \<Rightarrow> 's option" where
  "stores_run put s [] = Some s"
| "stores_run put s ((i, v) # ops) = (case put s i v of None \<Rightarrow> None | Some s' \<Rightarrow> stores_run put s' ops)"

fun stores_spec :: "(nat \<Rightarrow> 'v) \<Rightarrow> (nat \<times> 'v) list \<Rightarrow> nat \<Rightarrow> 'v" where
  "stores_spec f [] = f"
| "stores_spec f ((i, v) # ops) = stores_spec (f(i := v)) ops"

lemma stores_spec_cong:
  "(\<And>j. j < n \<Longrightarrow> f j = g j) \<Longrightarrow> j < n \<Longrightarrow> stores_spec f ops j = stores_spec g ops j"
proof (induction ops arbitrary: f g)
  case (Cons op ops)
  obtain i v where op: "op = (i, v)" by (cases op)
  have "(f(i := v)) k = (g(i := v)) k" if "k < n" for k using Cons.prems(1) that by simp
  then show ?case unfolding op stores_spec.simps by (intro Cons.IH) (assumption | rule Cons.prems(2))+
qed simp

locale element_store =
  fixes inv :: "'s \<Rightarrow> bool"
    and len :: "'s \<Rightarrow> nat"
    and valid :: "'s \<Rightarrow> 'v \<Rightarrow> bool"
    and elem :: "'s \<Rightarrow> nat \<Rightarrow> 'v"
    and put :: "'s \<Rightarrow> nat \<Rightarrow> 'v \<Rightarrow> 's option"
  assumes put_law:
    "inv s \<Longrightarrow> i < len s \<Longrightarrow> valid s v \<Longrightarrow>
     \<exists>s'. put s i v = Some s' \<and> inv s' \<and> len s' = len s \<and> valid s' = valid s \<and>
       (\<forall>j < len s. elem s' j = (if j = i then v else elem s j))"
begin

lemma stores_last:
  assumes "inv s" "\<forall>(i, v) \<in> set ops. i < len s \<and> valid s v"
  shows "\<exists>t. stores_run put s ops = Some t \<and> inv t \<and> len t = len s \<and>
    (\<forall>j < len s. elem t j = stores_spec (elem s) ops j)"
  using assms
proof (induction ops arbitrary: s)
  case Nil
  then show ?case by simp
next
  case (Cons op ops)
  obtain i v where op: "op = (i, v)" by (cases op)
  obtain s' where s': "put s i v = Some s'" "inv s'" "len s' = len s" "valid s' = valid s"
    "\<And>j. j < len s \<Longrightarrow> elem s' j = ((elem s)(i := v)) j"
    using put_law [of s i v] Cons.prems op by auto
  obtain t where "stores_run put s' ops = Some t" "inv t" "len t = len s"
    "\<And>j. j < len s \<Longrightarrow> elem t j = stores_spec (elem s') ops j"
    using Cons.IH [OF s'(2)] Cons.prems(2) s'(3,4) by auto
  then show ?case
    using s'(1,5) op stores_spec_cong [of "len s" "elem s'" "(elem s)(i := v)" _ ops] by simp
qed

end

section \<open>A registry of watched descriptors\<close>

text \<open>
  The contract of a set of descriptors with the events watched on each: registering adds event bits to a
  descriptor, unregistering removes bits and forgets the descriptor when none is left. \<open>room s n\<close> says
  that the resources for \<open>n\<close> more registrations are there.
\<close>

datatype 'e registry_op = Watch int 'e | Unwatch int 'e

fun registry_spec ::
  "('e \<Rightarrow> 'b \<Rightarrow> 'b) \<Rightarrow> ('e \<Rightarrow> 'b \<Rightarrow> 'b option) \<Rightarrow> 'b \<Rightarrow> (int \<rightharpoonup> 'b) \<Rightarrow> 'e registry_op list \<Rightarrow> (int \<rightharpoonup> 'b)" where
  "registry_spec turn_on turn_off none m [] = m"
| "registry_spec turn_on turn_off none m (Watch fd e # ops) =
     registry_spec turn_on turn_off none
       (m(fd \<mapsto> turn_on e (case m fd of None \<Rightarrow> none | Some b \<Rightarrow> b))) ops"
| "registry_spec turn_on turn_off none m (Unwatch fd e # ops) =
     registry_spec turn_on turn_off none
       (case m fd of None \<Rightarrow> m | Some b \<Rightarrow> m(fd := turn_off e b)) ops"

fun registry_run ::
  "('s \<Rightarrow> int \<Rightarrow> 'e \<Rightarrow> 's option) \<Rightarrow> ('s \<Rightarrow> int \<Rightarrow> 'e \<Rightarrow> 's option) \<Rightarrow> 's \<Rightarrow> 'e registry_op list \<Rightarrow> 's option" where
  "registry_run add del s [] = Some s"
| "registry_run add del s (Watch fd e # ops) =
     (case add s fd e of None \<Rightarrow> None | Some s' \<Rightarrow> registry_run add del s' ops)"
| "registry_run add del s (Unwatch fd e # ops) =
     (case del s fd e of None \<Rightarrow> None | Some s' \<Rightarrow> registry_run add del s' ops)"

locale registry =
  fixes inv :: "'s \<Rightarrow> bool"
    and watched :: "'s \<Rightarrow> (int \<rightharpoonup> 'b)"
    and room :: "'s \<Rightarrow> nat \<Rightarrow> bool"
    and add del :: "'s \<Rightarrow> int \<Rightarrow> 'e \<Rightarrow> 's option"
    and turn_on :: "'e \<Rightarrow> 'b \<Rightarrow> 'b"
    and turn_off :: "'e \<Rightarrow> 'b \<Rightarrow> 'b option"
    and none :: "'b"
  assumes add_law:
    "inv s \<Longrightarrow> room s (Suc n) \<Longrightarrow>
     \<exists>s'. add s fd e = Some s' \<and> inv s' \<and> room s' n \<and>
       watched s' = (watched s)(fd \<mapsto> turn_on e (case watched s fd of None \<Rightarrow> none | Some b \<Rightarrow> b))"
    and del_law:
    "inv s \<Longrightarrow> room s (Suc n) \<Longrightarrow>
     \<exists>s'. del s fd e = Some s' \<and> inv s' \<and> room s' n \<and>
       watched s' = (case watched s fd of None \<Rightarrow> watched s | Some b \<Rightarrow> (watched s)(fd := turn_off e b))"
begin

lemma run_refines:
  assumes "inv s" "room s (length ops)"
  shows "\<exists>t. registry_run add del s ops = Some t \<and> inv t \<and>
    watched t = registry_spec turn_on turn_off none (watched s) ops"
  using assms
proof (induction ops arbitrary: s)
  case (Cons op ops)
  show ?case
  proof (cases op)
    case (Watch fd e)
    then show ?thesis using add_law [of s "length ops" fd e] Cons by fastforce
  next
    case (Unwatch fd e)
    then show ?thesis using del_law [of s "length ops" fd e] Cons by fastforce
  qed
qed simp

end

section \<open>Handing messages from one thread to another\<close>

text \<open>
  The contract of a queue between two threads, as a labelled step relation: a push appends to the content, a
  pop removes at the front (or, for the second kind of pop, some occurrence anywhere), every other step keeps
  the content. Over any interleaving nothing is lost or duplicated, and with pops at the front only the order
  is first in, first out.
\<close>

datatype 'm handoff_event = Pushed 'm | Popped 'm | Popped_Back 'm | Internal

inductive handoff_run :: "('s \<Rightarrow> 'm handoff_event \<Rightarrow> 's \<Rightarrow> bool) \<Rightarrow> 's \<Rightarrow> 'm handoff_event list \<Rightarrow> 's \<Rightarrow> bool"
  for step where
  run_nil: "handoff_run step s [] s"
| run_cons: "step s e s' \<Longrightarrow> handoff_run step s' es t \<Longrightarrow> handoff_run step s (e # es) t"

inductive_cases handoff_run_ConsE: "handoff_run step s (e # es) t"

lemma handoff_run_append:
  "handoff_run step s es t \<Longrightarrow> handoff_run step t fs u \<Longrightarrow> handoff_run step s (es @ fs) u"
  by (induction rule: handoff_run.induct) (auto intro: handoff_run.intros)

fun pushed :: "'m handoff_event list \<Rightarrow> 'm list" where
  "pushed [] = []"
| "pushed (Pushed m # es) = m # pushed es"
| "pushed (_ # es) = pushed es"

fun popped :: "'m handoff_event list \<Rightarrow> 'm list" where
  "popped [] = []"
| "popped (Popped m # es) = m # popped es"
| "popped (Popped_Back m # es) = m # popped es"
| "popped (_ # es) = popped es"

definition front_only :: "'m handoff_event list \<Rightarrow> bool" where
  "front_only es \<longleftrightarrow> (\<forall>m. Popped_Back m \<notin> set es)"

lemma front_only_simps [simp]:
  "front_only []" "front_only (Pushed m # es) = front_only es" "front_only (Popped m # es) = front_only es"
  "front_only (Internal # es) = front_only es" "\<not> front_only (Popped_Back m # es)"
  by (auto simp: front_only_def)

lemma pushed_append [simp]: "pushed (es @ fs) = pushed es @ pushed fs"
  by (induction es rule: pushed.induct) auto

lemma popped_append [simp]: "popped (es @ fs) = popped es @ popped fs"
  by (induction es rule: popped.induct) auto

lemma front_only_append [simp]: "front_only (es @ fs) \<longleftrightarrow> front_only es \<and> front_only fs"
  by (auto simp: front_only_def)

locale handoff =
  fixes step :: "'s \<Rightarrow> 'm handoff_event \<Rightarrow> 's \<Rightarrow> bool"
    and content :: "'s \<Rightarrow> 'm list"
  assumes push_law: "step s (Pushed m) s' \<Longrightarrow> content s' = content s @ [m]"
    and pop_law: "step s (Popped m) s' \<Longrightarrow> content s = m # content s'"
    and pop_back_law: "step s (Popped_Back m) s' \<Longrightarrow> mset (content s) = add_mset m (mset (content s'))"
    and internal_law: "step s Internal s' \<Longrightarrow> content s' = content s"
begin

lemma run_fifo:
  assumes "handoff_run step s es t" "front_only es"
  shows "content s @ pushed es = popped es @ content t"
  using assms
proof (induction rule: handoff_run.induct)
  case (run_cons s e s' es t)
  then show ?case
    by (cases e) (auto dest!: push_law pop_law internal_law)
qed simp

lemma run_conserves:
  assumes "handoff_run step s es t"
  shows "mset (content s) + mset (pushed es) = mset (popped es) + mset (content t)"
  using assms
proof (induction rule: handoff_run.induct)
  case (run_cons s e s' es t)
  then show ?case
    by (cases e) (auto dest!: push_law pop_law pop_back_law internal_law simp: ac_simps)
qed simp

end

section \<open>A sink of bytes\<close>

text \<open>
  The contract of a writer that appends to what it has written: a put that fits succeeds and appends exactly its
  bytes. A client that makes a sequence of puts writes their concatenation.
\<close>

fun sink_run :: "('s \<Rightarrow> 'b list \<Rightarrow> 's option) \<Rightarrow> 's \<Rightarrow> 'b list list \<Rightarrow> 's option" where
  "sink_run put s [] = Some s"
| "sink_run put s (d # ds) = (case put s d of None \<Rightarrow> None | Some s' \<Rightarrow> sink_run put s' ds)"

locale byte_sink =
  fixes inv :: "'s \<Rightarrow> bool"
    and written :: "'s \<Rightarrow> 'b list"
    and fits :: "'s \<Rightarrow> nat \<Rightarrow> bool"
    and put :: "'s \<Rightarrow> 'b list \<Rightarrow> 's option"
  assumes put_law:
    "inv s \<Longrightarrow> fits s (length d + n) \<Longrightarrow>
     \<exists>s'. put s d = Some s' \<and> inv s' \<and> written s' = written s @ d \<and> fits s' n"
begin

lemma run_writes:
  assumes "inv s" "fits s (length (concat ds) + n)"
  shows "\<exists>t. sink_run put s ds = Some t \<and> inv t \<and> written t = written s @ concat ds \<and> fits t n"
  using assms
proof (induction ds arbitrary: s)
  case (Cons d ds)
  obtain s' where s': "put s d = Some s'" "inv s'" "written s' = written s @ d" "fits s' (length (concat ds) + n)"
    using put_law [of s d "length (concat ds) + n"] Cons.prems by (auto simp: add.assoc)
  then show ?case using Cons.IH [OF s'(2,4)] by auto
qed simp

end

section \<open>A pool of names\<close>

text \<open>
  The contract of an allocator: \<open>live s\<close> is what is in use; a claim hands out something that is not, a release of
  something in use succeeds and frees it. A client that claims and releases never gets what it or another client
  still holds.
\<close>

datatype 'i pool_event = Claimed 'i | Released 'i

inductive pool_run ::
  "('s \<Rightarrow> ('i \<times> 's) option) \<Rightarrow> ('i \<Rightarrow> 's \<Rightarrow> 's option) \<Rightarrow> ('s \<Rightarrow> 'i set) \<Rightarrow> 's \<Rightarrow> 'i pool_event list \<Rightarrow> 's \<Rightarrow> bool"
  for claim release live where
  pool_nil: "pool_run claim release live s [] s"
| pool_claim:
    "claim s = Some (i, s') \<Longrightarrow> pool_run claim release live s' es t \<Longrightarrow> pool_run claim release live s (Claimed i # es) t"
| pool_release:
    "i \<in> live s \<Longrightarrow> release i s = Some s' \<Longrightarrow> pool_run claim release live s' es t \<Longrightarrow>
     pool_run claim release live s (Released i # es) t"

fun held_after :: "'i pool_event list \<Rightarrow> 'i set \<Rightarrow> 'i set option" where
  "held_after [] H = Some H"
| "held_after (Claimed i # es) H = (if i \<in> H then None else held_after es (insert i H))"
| "held_after (Released i # es) H = (if i \<in> H then held_after es (H - {i}) else None)"

locale id_pool =
  fixes inv :: "'s \<Rightarrow> bool"
    and live :: "'s \<Rightarrow> 'i set"
    and claim :: "'s \<Rightarrow> ('i \<times> 's) option"
    and release :: "'i \<Rightarrow> 's \<Rightarrow> 's option"
  assumes claim_law: "inv s \<Longrightarrow> claim s = Some (i, s') \<Longrightarrow> inv s' \<and> i \<notin> live s \<and> live s' = insert i (live s)"
    and release_law: "inv s \<Longrightarrow> i \<in> live s \<Longrightarrow> \<exists>s'. release i s = Some s' \<and> inv s' \<and> live s' = live s - {i}"
begin

lemma run_held: "pool_run claim release live s es t \<Longrightarrow> inv s \<Longrightarrow> held_after es (live s) = Some (live t)"
proof (induction rule: pool_run.induct)
  case (pool_claim s i s' es t)
  then show ?case using claim_law by auto
next
  case (pool_release i s s' es t)
  then show ?case using release_law [of s i] by auto
qed simp

lemma run_inv: "pool_run claim release live s es t \<Longrightarrow> inv s \<Longrightarrow> inv t"
proof (induction rule: pool_run.induct)
  case (pool_claim s i s' es t)
  then show ?case using claim_law by blast
next
  case (pool_release i s s' es t)
  then show ?case using release_law [of s i] by auto
qed

end

end
