(* ===== verification/Ox_Buffer.thy ===== *)
theory Ox_Buffer
  imports Interfaces
begin

text \<open>
  The byte buffer of \<^verbatim>\<open>src/utils/buffer.c\<close>: one block, a write position and a read
  position. \<^verbatim>\<open>size_t\<close> arithmetic is kept at 64 bits, so the unsigned subtractions of
  \<^verbatim>\<open>ox_buffer_getreadvalidcount\<close> and \<^verbatim>\<open>ox_buffer_getwritevalidcount\<close> wrap as they do
  in the code. \<open>malloc\<close> is an argument (which of the two calls succeed, and with what
  bytes), and the number of live blocks is threaded through construction and deletion.
\<close>

section \<open>State\<close>

record buffer_s =
  buf_data :: "bytes option"
  data_len :: size_t
  write_pos :: size_t
  read_pos :: size_t

section \<open>Operations\<close>

definition ox_buffer_delete :: "buffer_s option \<Rightarrow> nat \<Rightarrow> nat" where
  "ox_buffer_delete self live =
     (case self of
        None \<Rightarrow> live
      | Some s \<Rightarrow> (case buf_data s of None \<Rightarrow> live - 1 | Some _ \<Rightarrow> live - 1 - 1))"

definition ox_buffer_new :: "bool \<Rightarrow> (size_t \<Rightarrow> bytes option) \<Rightarrow> size_t \<Rightarrow> nat \<Rightarrow> buffer_s option \<times> nat" where
  "ox_buffer_new self_ok malloc buffer_size live =
     (if \<not> self_ok then (None, live)
      else case malloc buffer_size of
             Some d \<Rightarrow>
               (Some \<lparr>buf_data = Some d, data_len = buffer_size, write_pos = 0, read_pos = 0\<rparr>,
                live + 2)
           | None \<Rightarrow>
               (None, ox_buffer_delete
                  (Some \<lparr>buf_data = None, data_len = 0, write_pos = 0, read_pos = 0\<rparr>) (live + 1)))"

definition ox_buffer_getreadvalidcount :: "buffer_s \<Rightarrow> size_t" where
  "ox_buffer_getreadvalidcount self = write_pos self - read_pos self"

definition ox_buffer_getwritevalidcount :: "buffer_s \<Rightarrow> size_t" where
  "ox_buffer_getwritevalidcount self = data_len self - write_pos self"

definition ox_buffer_adjustto_head :: "buffer_s \<Rightarrow> buffer_s option" where
  "ox_buffer_adjustto_head self =
     (if read_pos self > 0 then
        let len = ox_buffer_getreadvalidcount self in
        if len > 0 then
          (case buf_data self of
             None \<Rightarrow> None
           | Some d \<Rightarrow>
               (case mem_read (unat (read_pos self)) (unat len) d of
                  None \<Rightarrow> None
                | Some bs \<Rightarrow>
                    (case mem_write 0 bs d of
                       None \<Rightarrow> None
                     | Some d' \<Rightarrow> Some (self\<lparr>buf_data := Some d', read_pos := 0, write_pos := len\<rparr>))))
        else Some (self\<lparr>read_pos := 0, write_pos := len\<rparr>)
      else Some self)"

definition ox_buffer_init :: "buffer_s \<Rightarrow> buffer_s" where
  "ox_buffer_init self = self\<lparr>read_pos := 0, write_pos := 0\<rparr>"

definition ox_buffer_getwritepos :: "buffer_s \<Rightarrow> size_t" where
  "ox_buffer_getwritepos self = write_pos self"

definition ox_buffer_getreadpos :: "buffer_s \<Rightarrow> size_t" where
  "ox_buffer_getreadpos self = read_pos self"

definition ox_buffer_addwritepos :: "buffer_s \<Rightarrow> size_t \<Rightarrow> buffer_s" where
  "ox_buffer_addwritepos self value =
     (let temp = write_pos self + value in
      if temp \<le> data_len self then self\<lparr>write_pos := temp\<rparr> else self)"

definition ox_buffer_addreadpos :: "buffer_s \<Rightarrow> size_t \<Rightarrow> buffer_s" where
  "ox_buffer_addreadpos self value =
     (let temp = read_pos self + value in
      if temp \<le> data_len self then self\<lparr>read_pos := temp\<rparr> else self)"

definition ox_buffer_getsize :: "buffer_s \<Rightarrow> size_t" where
  "ox_buffer_getsize self = data_len self"

text \<open>A pointer into the block is its offset; \<open>None\<close> is \<^verbatim>\<open>NULL\<close>.\<close>

definition ox_buffer_getwriteptr :: "buffer_s \<Rightarrow> nat option" where
  "ox_buffer_getwriteptr self =
     (if write_pos self < data_len self then Some (unat (write_pos self)) else None)"

definition ox_buffer_getreadptr :: "buffer_s \<Rightarrow> nat option" where
  "ox_buffer_getreadptr self =
     (if read_pos self < data_len self then Some (unat (read_pos self)) else None)"

text \<open>
  \<^verbatim>\<open>memcpy(ox_buffer_getwriteptr(self), data, len)\<close>. With a null destination the copy is
  accepted for \<open>len = 0\<close> only, which is the one way the code reaches it.
\<close>

definition buffer_memcpy_in :: "buffer_s \<Rightarrow> bytes \<Rightarrow> size_t \<Rightarrow> buffer_s option" where
  "buffer_memcpy_in self src len =
     (case mem_read 0 (unat len) src of
        None \<Rightarrow> None
      | Some bs \<Rightarrow>
          (case ox_buffer_getwriteptr self of
             None \<Rightarrow> if len = 0 then Some self else None
           | Some off \<Rightarrow>
               (case buf_data self of
                  None \<Rightarrow> None
                | Some d \<Rightarrow>
                    (case mem_write off bs d of
                       None \<Rightarrow> None
                     | Some d' \<Rightarrow> Some (self\<lparr>buf_data := Some d'\<rparr>)))))"

lemma adjustto_head_read_pos:
  "ox_buffer_adjustto_head self = Some s' \<Longrightarrow> read_pos s' = 0"
  by (auto simp: ox_buffer_adjustto_head_def Let_def word_gt_0 split: if_splits option.splits)

text \<open>
  The recursive call of \<^verbatim>\<open>ox_buffer_write\<close> happens after the unread bytes moved to the
  head, and only when the read position was not already there: it runs at most once.
\<close>

function ox_buffer_write :: "buffer_s \<Rightarrow> bytes \<Rightarrow> size_t \<Rightarrow> (bool \<times> buffer_s) option" where
  "ox_buffer_write self src len =
     (if ox_buffer_getwritevalidcount self \<ge> len then
        (case buffer_memcpy_in self src len of
           None \<Rightarrow> None
         | Some self' \<Rightarrow> Some (True, ox_buffer_addwritepos self' len))
      else
        let left_len = data_len self - ox_buffer_getreadvalidcount self in
        if left_len \<ge> len then
          (case ox_buffer_adjustto_head self of
             None \<Rightarrow> None
           | Some self' \<Rightarrow>
               (case ox_buffer_write self' src len of
                  None \<Rightarrow> None
                | Some (_, self'') \<Rightarrow> Some (True, self'')))
        else Some (False, self))"
  by pat_completeness auto
termination
proof (relation "measure (\<lambda>(self, src, len). unat (read_pos self))", goal_cases)
  case 1
  show ?case by simp
next
  case (2 self src len x x2)
  then have "read_pos self \<noteq> 0"
    by (auto simp: ox_buffer_getwritevalidcount_def ox_buffer_getreadvalidcount_def)
  moreover have "read_pos x2 = 0"
    using 2 by (auto dest: adjustto_head_read_pos)
  ultimately show ?case
    by (simp add: unat_gt_0)
qed

declare ox_buffer_write.simps [simp del]

section \<open>Invariant and contents\<close>

definition buffer_wf :: "buffer_s \<Rightarrow> bool" where
  "buffer_wf s \<longleftrightarrow>
     (case buf_data s of None \<Rightarrow> False | Some d \<Rightarrow> length d = unat (data_len s)) \<and>
     read_pos s \<le> write_pos s \<and> write_pos s \<le> data_len s"

text \<open>The bytes written and not yet consumed.\<close>

definition buffer_bytes :: "buffer_s \<Rightarrow> bytes" where
  "buffer_bytes s =
     (case buf_data s of
        None \<Rightarrow> []
      | Some d \<Rightarrow> take (unat (write_pos s) - unat (read_pos s)) (drop (unat (read_pos s)) d))"

definition buffer_put :: "buffer_s \<Rightarrow> bytes \<Rightarrow> (bool \<times> buffer_s) option" where
  "buffer_put s bs = ox_buffer_write s bs (of_nat (length bs))"

definition buffer_consume :: "buffer_s \<Rightarrow> nat \<Rightarrow> buffer_s" where
  "buffer_consume s n = ox_buffer_addreadpos s (of_nat n)"

definition buffer_capacity :: "buffer_s \<Rightarrow> nat" where
  "buffer_capacity s = unat (ox_buffer_getsize s)"

lemma buffer_wfE:
  assumes "buffer_wf s"
  obtains d where "buf_data s = Some d" "length d = unat (data_len s)"
    "unat (read_pos s) \<le> unat (write_pos s)" "unat (write_pos s) \<le> unat (data_len s)"
  using assms by (auto simp: buffer_wf_def unat_le_iff split: option.splits)

lemma buffer_wfI:
  "buf_data s = Some d \<Longrightarrow> length d = unat (data_len s) \<Longrightarrow>
   unat (read_pos s) \<le> unat (write_pos s) \<Longrightarrow> unat (write_pos s) \<le> unat (data_len s) \<Longrightarrow>
   buffer_wf s"
  by (simp add: buffer_wf_def unat_le_iff)

lemma readvalidcount_length:
  "buffer_wf s \<Longrightarrow> unat (ox_buffer_getreadvalidcount s) = length (buffer_bytes s)"
  by (erule buffer_wfE)
    (simp add: ox_buffer_getreadvalidcount_def buffer_bytes_def unat_diff_le unat_le_iff)

lemma writevalidcount_eq:
  "buffer_wf s \<Longrightarrow> unat (ox_buffer_getwritevalidcount s) = unat (data_len s) - unat (write_pos s)"
  by (erule buffer_wfE) (simp add: ox_buffer_getwritevalidcount_def unat_diff_le unat_le_iff)

lemma buffer_bytes_le_capacity:
  "buffer_wf s \<Longrightarrow> length (buffer_bytes s) \<le> buffer_capacity s"
  by (erule buffer_wfE) (simp add: buffer_bytes_def buffer_capacity_def ox_buffer_getsize_def)

text \<open>The direct write: enough room after the write position.\<close>

lemma memcpy_in_direct:
  assumes "buffer_wf s" "unat len \<le> unat (data_len s) - unat (write_pos s)" "length src \<ge> unat len"
  shows "\<exists>s'. buffer_memcpy_in s src len = Some s' \<and>
    buffer_wf (ox_buffer_addwritepos s' len) \<and>
    data_len (ox_buffer_addwritepos s' len) = data_len s \<and>
    buffer_bytes (ox_buffer_addwritepos s' len) = buffer_bytes s @ take (unat len) src"
proof -
  obtain d where d: "buf_data s = Some d" "length d = unat (data_len s)"
    "unat (read_pos s) \<le> unat (write_pos s)" "unat (write_pos s) \<le> unat (data_len s)"
    using assms(1) by (rule buffer_wfE)
  have add: "unat (write_pos s + len) = unat (write_pos s) + unat len"
    using assms(2) d(4) unat_lt_size [of "data_len s"] by (intro unat_add_le) simp
  show ?thesis
  proof (cases "write_pos s < data_len s")
    case True
    then show ?thesis
      using assms(2,3) d add
      by (auto simp: buffer_memcpy_in_def ox_buffer_getwriteptr_def mem_read_def mem_write_def
          ox_buffer_addwritepos_def Let_def unat_le_iff buffer_bytes_def drop_take
          intro!: buffer_wfI)
  next
    case False
    then have "len = 0"
      using assms(2) by (simp add: unat_less_iff unat_eq_zero)
    then show ?thesis
      using assms(1) d False
      by (auto simp: buffer_memcpy_in_def ox_buffer_getwriteptr_def mem_read_def
          ox_buffer_addwritepos_def Let_def unat_le_iff)
  qed
qed

lemma write_direct:
  assumes "buffer_wf s" "unat len \<le> unat (data_len s) - unat (write_pos s)" "length src \<ge> unat len"
  shows "\<exists>s'. ox_buffer_write s src len = Some (True, s') \<and> buffer_wf s' \<and>
    data_len s' = data_len s \<and> buffer_bytes s' = buffer_bytes s @ take (unat len) src"
  using memcpy_in_direct [OF assms] assms(1,2)
  by (auto simp: ox_buffer_write.simps [of s] writevalidcount_eq unat_le_iff)

text \<open>Moving the unread bytes to the head keeps them and frees the room before them.\<close>

lemma adjustto_head_keeps:
  assumes "buffer_wf s"
  shows "\<exists>s'. ox_buffer_adjustto_head s = Some s' \<and> buffer_wf s' \<and> data_len s' = data_len s \<and>
    buffer_bytes s' = buffer_bytes s \<and>
    (read_pos s \<noteq> 0 \<longrightarrow> unat (write_pos s') = length (buffer_bytes s))"
proof -
  obtain d where d: "buf_data s = Some d" "length d = unat (data_len s)"
    "unat (read_pos s) \<le> unat (write_pos s)" "unat (write_pos s) \<le> unat (data_len s)"
    using assms by (rule buffer_wfE)
  have len: "unat (ox_buffer_getreadvalidcount s) = unat (write_pos s) - unat (read_pos s)"
    using d(3) by (simp add: ox_buffer_getreadvalidcount_def unat_diff_le unat_le_iff)
  show ?thesis
    using assms d len
    by (auto simp: ox_buffer_adjustto_head_def Let_def mem_read_def mem_write_def buffer_bytes_def
        unat_less_iff word_gt_0 unat_eq_zero intro!: buffer_wfI)
qed

lemma write_room:
  assumes "buffer_wf s" "length (buffer_bytes s) + unat len \<le> unat (data_len s)" "length src \<ge> unat len"
  shows "\<exists>s'. ox_buffer_write s src len = Some (True, s') \<and> buffer_wf s' \<and>
    data_len s' = data_len s \<and> buffer_bytes s' = buffer_bytes s @ take (unat len) src"
proof (cases "unat len \<le> unat (data_len s) - unat (write_pos s)")
  case True
  then show ?thesis using assms by (intro write_direct)
next
  case False
  obtain s' where s': "ox_buffer_adjustto_head s = Some s'" "buffer_wf s'" "data_len s' = data_len s"
    "buffer_bytes s' = buffer_bytes s"
    "read_pos s \<noteq> 0 \<longrightarrow> unat (write_pos s') = length (buffer_bytes s)"
    using adjustto_head_keeps [OF assms(1)] by auto
  have "read_pos s \<noteq> 0"
    using False assms(1,2) readvalidcount_length [OF assms(1)]
    by (auto simp: ox_buffer_getreadvalidcount_def)
  with s' assms(2) have "unat len \<le> unat (data_len s') - unat (write_pos s')"
    by simp
  then obtain t where t: "ox_buffer_write s' src len = Some (True, t)" "buffer_wf t"
    "data_len t = data_len s" "buffer_bytes t = buffer_bytes s @ take (unat len) src"
    using write_direct [OF s'(2)] assms(3) s'(3,4) by metis
  have "len \<le> data_len s - ox_buffer_getreadvalidcount s"
    using assms(1,2) readvalidcount_length [OF assms(1)]
    by (simp add: unat_le_iff unat_diff_le)
  then show ?thesis
    using False s'(1) t assms(1)
    by (simp add: ox_buffer_write.simps [of s] writevalidcount_eq unat_le_iff)
qed

lemma write_full:
  assumes "buffer_wf s" "unat (data_len s) < length (buffer_bytes s) + unat len"
  shows "ox_buffer_write s src len = Some (False, s)"
proof -
  have "length (buffer_bytes s) \<le> unat (write_pos s)" "length (buffer_bytes s) \<le> unat (data_len s)"
    using assms(1) by (auto elim!: buffer_wfE simp: buffer_bytes_def)
  moreover have "unat (data_len s - ox_buffer_getreadvalidcount s) = unat (data_len s) - length (buffer_bytes s)"
    using readvalidcount_length [OF assms(1)] calculation(2) by (simp add: unat_le_iff unat_diff_le)
  ultimately show ?thesis
    using assms by (auto simp: ox_buffer_write.simps [of s] writevalidcount_eq unat_le_iff)
qed

lemma consume_keeps:
  assumes "buffer_wf s" "n \<le> length (buffer_bytes s)"
  shows "buffer_wf (buffer_consume s n) \<and> data_len (buffer_consume s n) = data_len s \<and>
    buffer_bytes (buffer_consume s n) = drop n (buffer_bytes s)"
proof -
  obtain d where d: "buf_data s = Some d" "length d = unat (data_len s)"
    "unat (read_pos s) \<le> unat (write_pos s)" "unat (write_pos s) \<le> unat (data_len s)"
    using assms(1) by (rule buffer_wfE)
  have n: "unat (read_pos s) + n \<le> unat (write_pos s)"
    using assms(2) d by (simp add: buffer_bytes_def)
  then have "n < 2 ^ 64"
    using unat_lt_size [of "write_pos s"] by linarith
  then have "unat (read_pos s + of_nat n) = unat (read_pos s) + n"
    using n unat_lt_size [of "write_pos s"] by (simp add: unat_add_le unat_of_nat_small)
  then show ?thesis
    using d n
    by (auto simp: buffer_consume_def ox_buffer_addreadpos_def Let_def unat_le_iff buffer_bytes_def
        drop_take add.commute intro!: buffer_wfI)
qed

section \<open>The buffer is a bounded byte store\<close>

interpretation buf: byte_fifo buffer_wf buffer_bytes buffer_capacity buffer_put buffer_consume
proof (unfold_locales, goal_cases)
  case (1 s bs)
  then show ?case
    using write_room [of s "of_nat (length bs)" bs]
    by (auto simp: buffer_put_def buffer_capacity_def ox_buffer_getsize_def unat_of_nat_small)
next
  case (2 s bs)
  then show ?case
    using write_full [of s "of_nat (length bs)" bs]
    by (simp add: buffer_put_def buffer_capacity_def ox_buffer_getsize_def unat_of_nat_small)
next
  case (3 s n)
  then show ?case
    using consume_keeps [of s n] by (simp add: buffer_capacity_def ox_buffer_getsize_def)
next
  case (4 s)
  then show ?case by (rule buffer_bytes_le_capacity)
qed

section \<open>Properties\<close>

definition buffer_demo :: buffer_s where
  "buffer_demo = \<lparr>buf_data = Some ''abcd'', data_len = 4, write_pos = 4, read_pos = 2\<rparr>"

lemma buffer_demo_wf: "buffer_wf buffer_demo" "buffer_bytes buffer_demo = ''cd''"
  by (simp_all add: buffer_demo_def buffer_wf_def buffer_bytes_def)

text \<open>
  C5. The buffer is a lossless byte stream. After any interleaving of writes and of reads of at most the
  available bytes, the bytes handed out followed by the bytes still inside are the bytes inside at the
  start followed by the bytes of the accepted writes, in order; no access leaves the block.
\<close>

theorem buffer_stream:
  assumes "buffer_wf s" "\<forall>op \<in> set ops. fifo_op_small op"
  shows "\<exists>acc got t. fifo_run buffer_put buffer_consume buffer_bytes s ops = Some (acc, got, t) \<and> buffer_wf t \<and>
    buffer_capacity t = buffer_capacity s \<and> got @ buffer_bytes t = buffer_bytes s @ acc"
  by (rule buf.run_stream [OF assms])

theorem buffer_stream_witness:
  "\<exists>acc got t. fifo_run buffer_put buffer_consume buffer_bytes buffer_demo [Put ''x'', Get 2, Put ''yz''] =
     Some (acc, got, t) \<and> got @ buffer_bytes t = ''cd'' @ acc"
  using buffer_stream [OF buffer_demo_wf(1), of "[Put ''x'', Get 2, Put ''yz'']"] buffer_demo_wf(2) by auto

text \<open>
  \<^verbatim>\<open>ox_buffer_write\<close> accepts a write exactly when the unread bytes and the new ones fit into the
  block, also when the free room is split between the front and the back; an accepted write appends the
  bytes, a refused one changes nothing, and neither leaves the block.
\<close>

theorem ox_buffer_write_exact:
  assumes "buffer_wf s" "unat len \<le> length src"
  shows "if length (buffer_bytes s) + unat len \<le> unat (data_len s)
    then \<exists>s'. ox_buffer_write s src len = Some (True, s') \<and> buffer_wf s' \<and> data_len s' = data_len s \<and>
      buffer_bytes s' = buffer_bytes s @ take (unat len) src
    else ox_buffer_write s src len = Some (False, s)"
  using write_room [OF assms(1) _ assms(2)] write_full [OF assms(1)] by simp

theorem ox_buffer_write_exact_witness:
  "\<exists>s'. ox_buffer_write buffer_demo ''xy'' 2 = Some (True, s') \<and> buffer_bytes s' = ''cdxy''"
  using ox_buffer_write_exact [OF buffer_demo_wf(1), of 2 "''xy''"] buffer_demo_wf(2)
  by (auto simp: buffer_demo_def)

text \<open>
  Construction and deletion balance. A successful \<^verbatim>\<open>ox_buffer_new\<close> gives an empty buffer of the requested
  size, and deleting it frees both blocks; when either allocation fails the result is null and nothing is
  left allocated. The hypothesis is what \<^verbatim>\<open>malloc\<close> promises: a block of the size asked for.
\<close>

theorem ox_buffer_new_delete:
  assumes "\<forall>n d. malloc n = Some d \<longrightarrow> length d = unat n"
  shows "case ox_buffer_new self_ok malloc n live of
      (None, live') \<Rightarrow> live' = live \<and> (\<not> self_ok \<or> malloc n = None)
    | (Some b, live') \<Rightarrow> buffer_wf b \<and> buffer_bytes b = [] \<and> buffer_capacity b = unat n \<and>
        ox_buffer_delete (Some b) live' = live"
  using assms
  by (auto simp: ox_buffer_new_def ox_buffer_delete_def buffer_wf_def buffer_bytes_def buffer_capacity_def
      ox_buffer_getsize_def split: option.split)

theorem ox_buffer_new_delete_witness:
  "case ox_buffer_new True (\<lambda>n. Some (replicate (unat n) (CHR ''?''))) 8 0 of
      (None, live') \<Rightarrow> False
    | (Some b, live') \<Rightarrow> buffer_wf b \<and> buffer_bytes b = [] \<and> ox_buffer_delete (Some b) live' = 0"
  using ox_buffer_new_delete [where malloc = "\<lambda>n. Some (replicate (unat n) (CHR ''?''))" and self_ok = True and n = 8 and live = 0]
  by (simp add: ox_buffer_new_def)

text \<open>
  \<^verbatim>\<open>ox_buffer_addreadpos\<close> checks the new read position against the size of the block and not against the
  write position: a well-formed buffer with nothing to read accepts it, and the count of readable bytes
  then wraps around to almost \<open>2 ^ 64\<close>.
\<close>

theorem ox_buffer_addreadpos_passes_write_pos:
  "\<exists>s v. buffer_wf s \<and> buffer_bytes s = [] \<and> \<not> buffer_wf (ox_buffer_addreadpos s v) \<and>
     unat (ox_buffer_getreadvalidcount (ox_buffer_addreadpos s v)) = 2 ^ 64 - 1"
  by (intro exI [of _ "\<lparr>buf_data = Some ''a'', data_len = 1, write_pos = 0, read_pos = 0\<rparr>"] exI [of _ 1])
    (simp add: buffer_wf_def buffer_bytes_def ox_buffer_addreadpos_def ox_buffer_getreadvalidcount_def
      unsigned_minus_1_eq_mask mask_eq_exp_minus_1)

end
