(* ===== verification/Http_Types.thy ===== *)
theory Http_Types
  imports Prelude
begin

text \<open>
  Data of the HTTP parser (\<^verbatim>\<open>src/net/http/http_parser.h\<close> and the head of
  \<^verbatim>\<open>http_parser.c\<close>): the enumerations, the parser structure with its bit-field widths,
  the callback settings, the character tables and the character-class macros, and the
  small functions that only read or reset the structure.

  A byte of the input is a \<^typ>\<open>char\<close>. The code compares plain \<^verbatim>\<open>char\<close> values with ASCII
  constants only; every ordered comparison (\<^verbatim>\<open>ch >= '0' && ch <= '9'\<close> and the like) is
  bounded on both sides inside ASCII, so reading the byte as signed or as unsigned gives the
  same answer. The build is the one the header selects by default,
  \<^verbatim>\<open>HTTP_PARSER_STRICT = 1\<close>.
\<close>

section \<open>Enumerations\<close>

datatype (plugins only: code size) state =
    s_dead | s_start_req_or_res | s_res_or_resp_H | s_start_res | s_res_H | s_res_HT
    | s_res_HTT | s_res_HTTP | s_res_first_http_major | s_res_http_major
    | s_res_first_http_minor | s_res_http_minor | s_res_first_status_code
    | s_res_status_code | s_res_status_start | s_res_status | s_res_line_almost_done
    | s_start_req | s_req_method | s_req_spaces_before_url | s_req_schema
    | s_req_schema_slash | s_req_schema_slash_slash | s_req_server_start
    | s_req_server | s_req_server_with_at | s_req_path | s_req_query_string_start
    | s_req_query_string | s_req_fragment_start | s_req_fragment | s_req_http_start
    | s_req_http_H | s_req_http_HT | s_req_http_HTT | s_req_http_HTTP
    | s_req_first_http_major | s_req_http_major | s_req_first_http_minor
    | s_req_http_minor | s_req_line_almost_done | s_header_field_start
    | s_header_field | s_header_value_discard_ws
    | s_header_value_discard_ws_almost_done | s_header_value_discard_lws
    | s_header_value_start | s_header_value | s_header_value_lws
    | s_header_almost_done | s_chunk_size_start | s_chunk_size | s_chunk_parameters
    | s_chunk_size_almost_done | s_headers_almost_done | s_headers_done | s_chunk_data
    | s_chunk_data_almost_done | s_chunk_data_done | s_body_identity
    | s_body_identity_eof | s_message_done

datatype (plugins only: code size) header_states =
    h_general | h_C | h_CO | h_CON | h_matching_connection
    | h_matching_proxy_connection | h_matching_content_length
    | h_matching_transfer_encoding | h_matching_upgrade | h_connection
    | h_content_length | h_transfer_encoding | h_upgrade
    | h_matching_transfer_encoding_chunked | h_matching_connection_token_start
    | h_matching_connection_keep_alive | h_matching_connection_close
    | h_matching_connection_upgrade | h_matching_connection_token
    | h_transfer_encoding_chunked | h_connection_keep_alive | h_connection_close
    | h_connection_upgrade

datatype (plugins only: code size) http_host_state =
    s_http_host_dead | s_http_userinfo_start | s_http_userinfo | s_http_host_start
    | s_http_host_v6_start | s_http_host | s_http_host_v6 | s_http_host_v6_end
    | s_http_host_v6_zone_start | s_http_host_v6_zone | s_http_host_port_start
    | s_http_host_port

datatype (plugins only: code size) http_method =
    HTTP_DELETE | HTTP_GET | HTTP_HEAD | HTTP_POST | HTTP_PUT | HTTP_CONNECT
    | HTTP_OPTIONS | HTTP_TRACE | HTTP_COPY | HTTP_LOCK | HTTP_MKCOL | HTTP_MOVE
    | HTTP_PROPFIND | HTTP_PROPPATCH | HTTP_SEARCH | HTTP_UNLOCK | HTTP_BIND
    | HTTP_REBIND | HTTP_UNBIND | HTTP_ACL | HTTP_REPORT | HTTP_MKACTIVITY
    | HTTP_CHECKOUT | HTTP_MERGE | HTTP_MSEARCH | HTTP_NOTIFY | HTTP_SUBSCRIBE
    | HTTP_UNSUBSCRIBE | HTTP_PATCH | HTTP_PURGE | HTTP_MKCALENDAR

datatype http_parser_type = HTTP_REQUEST | HTTP_RESPONSE | HTTP_BOTH

datatype (plugins only: code size) http_errno =
    HPE_OK | HPE_CB_message_begin | HPE_CB_url | HPE_CB_header_field
    | HPE_CB_header_value | HPE_CB_headers_complete | HPE_CB_body
    | HPE_CB_message_complete | HPE_CB_status | HPE_CB_chunk_header
    | HPE_CB_chunk_complete | HPE_INVALID_EOF_STATE | HPE_HEADER_OVERFLOW
    | HPE_CLOSED_CONNECTION | HPE_INVALID_VERSION | HPE_INVALID_STATUS
    | HPE_INVALID_METHOD | HPE_INVALID_URL | HPE_INVALID_HOST | HPE_INVALID_PORT
    | HPE_INVALID_PATH | HPE_INVALID_QUERY_STRING | HPE_INVALID_FRAGMENT
    | HPE_LF_EXPECTED | HPE_INVALID_HEADER_TOKEN | HPE_INVALID_CONTENT_LENGTH
    | HPE_INVALID_CHUNK_SIZE | HPE_INVALID_CONSTANT | HPE_INVALID_INTERNAL_STATE
    | HPE_STRICT | HPE_PAUSED | HPE_UNKNOWN

text \<open>The method names of \<^verbatim>\<open>HTTP_METHOD_MAP\<close>, as \<^verbatim>\<open>method_strings\<close> holds them.\<close>

primrec method_strings :: "http_method \<Rightarrow> string" where
  "method_strings HTTP_DELETE = ''DELETE''"
| "method_strings HTTP_GET = ''GET''"
| "method_strings HTTP_HEAD = ''HEAD''"
| "method_strings HTTP_POST = ''POST''"
| "method_strings HTTP_PUT = ''PUT''"
| "method_strings HTTP_CONNECT = ''CONNECT''"
| "method_strings HTTP_OPTIONS = ''OPTIONS''"
| "method_strings HTTP_TRACE = ''TRACE''"
| "method_strings HTTP_COPY = ''COPY''"
| "method_strings HTTP_LOCK = ''LOCK''"
| "method_strings HTTP_MKCOL = ''MKCOL''"
| "method_strings HTTP_MOVE = ''MOVE''"
| "method_strings HTTP_PROPFIND = ''PROPFIND''"
| "method_strings HTTP_PROPPATCH = ''PROPPATCH''"
| "method_strings HTTP_SEARCH = ''SEARCH''"
| "method_strings HTTP_UNLOCK = ''UNLOCK''"
| "method_strings HTTP_BIND = ''BIND''"
| "method_strings HTTP_REBIND = ''REBIND''"
| "method_strings HTTP_UNBIND = ''UNBIND''"
| "method_strings HTTP_ACL = ''ACL''"
| "method_strings HTTP_REPORT = ''REPORT''"
| "method_strings HTTP_MKACTIVITY = ''MKACTIVITY''"
| "method_strings HTTP_CHECKOUT = ''CHECKOUT''"
| "method_strings HTTP_MERGE = ''MERGE''"
| "method_strings HTTP_MSEARCH = ''M-SEARCH''"
| "method_strings HTTP_NOTIFY = ''NOTIFY''"
| "method_strings HTTP_SUBSCRIBE = ''SUBSCRIBE''"
| "method_strings HTTP_UNSUBSCRIBE = ''UNSUBSCRIBE''"
| "method_strings HTTP_PATCH = ''PATCH''"
| "method_strings HTTP_PURGE = ''PURGE''"
| "method_strings HTTP_MKCALENDAR = ''MKCALENDAR''"

text \<open>The two columns of \<^verbatim>\<open>HTTP_ERRNO_MAP\<close>.\<close>

primrec http_errno_name :: "http_errno \<Rightarrow> string" where
  "http_errno_name HPE_OK = ''HPE_OK''"
| "http_errno_name HPE_CB_message_begin = ''HPE_CB_message_begin''"
| "http_errno_name HPE_CB_url = ''HPE_CB_url''"
| "http_errno_name HPE_CB_header_field = ''HPE_CB_header_field''"
| "http_errno_name HPE_CB_header_value = ''HPE_CB_header_value''"
| "http_errno_name HPE_CB_headers_complete = ''HPE_CB_headers_complete''"
| "http_errno_name HPE_CB_body = ''HPE_CB_body''"
| "http_errno_name HPE_CB_message_complete = ''HPE_CB_message_complete''"
| "http_errno_name HPE_CB_status = ''HPE_CB_status''"
| "http_errno_name HPE_CB_chunk_header = ''HPE_CB_chunk_header''"
| "http_errno_name HPE_CB_chunk_complete = ''HPE_CB_chunk_complete''"
| "http_errno_name HPE_INVALID_EOF_STATE = ''HPE_INVALID_EOF_STATE''"
| "http_errno_name HPE_HEADER_OVERFLOW = ''HPE_HEADER_OVERFLOW''"
| "http_errno_name HPE_CLOSED_CONNECTION = ''HPE_CLOSED_CONNECTION''"
| "http_errno_name HPE_INVALID_VERSION = ''HPE_INVALID_VERSION''"
| "http_errno_name HPE_INVALID_STATUS = ''HPE_INVALID_STATUS''"
| "http_errno_name HPE_INVALID_METHOD = ''HPE_INVALID_METHOD''"
| "http_errno_name HPE_INVALID_URL = ''HPE_INVALID_URL''"
| "http_errno_name HPE_INVALID_HOST = ''HPE_INVALID_HOST''"
| "http_errno_name HPE_INVALID_PORT = ''HPE_INVALID_PORT''"
| "http_errno_name HPE_INVALID_PATH = ''HPE_INVALID_PATH''"
| "http_errno_name HPE_INVALID_QUERY_STRING = ''HPE_INVALID_QUERY_STRING''"
| "http_errno_name HPE_INVALID_FRAGMENT = ''HPE_INVALID_FRAGMENT''"
| "http_errno_name HPE_LF_EXPECTED = ''HPE_LF_EXPECTED''"
| "http_errno_name HPE_INVALID_HEADER_TOKEN = ''HPE_INVALID_HEADER_TOKEN''"
| "http_errno_name HPE_INVALID_CONTENT_LENGTH = ''HPE_INVALID_CONTENT_LENGTH''"
| "http_errno_name HPE_INVALID_CHUNK_SIZE = ''HPE_INVALID_CHUNK_SIZE''"
| "http_errno_name HPE_INVALID_CONSTANT = ''HPE_INVALID_CONSTANT''"
| "http_errno_name HPE_INVALID_INTERNAL_STATE = ''HPE_INVALID_INTERNAL_STATE''"
| "http_errno_name HPE_STRICT = ''HPE_STRICT''"
| "http_errno_name HPE_PAUSED = ''HPE_PAUSED''"
| "http_errno_name HPE_UNKNOWN = ''HPE_UNKNOWN''"

primrec http_errno_description :: "http_errno \<Rightarrow> string" where
  "http_errno_description HPE_OK = ''success''"
| "http_errno_description HPE_CB_message_begin = ''the on_message_begin callback failed''"
| "http_errno_description HPE_CB_url = ''the on_url callback failed''"
| "http_errno_description HPE_CB_header_field = ''the on_header_field callback failed''"
| "http_errno_description HPE_CB_header_value = ''the on_header_value callback failed''"
| "http_errno_description HPE_CB_headers_complete = ''the on_headers_complete callback failed''"
| "http_errno_description HPE_CB_body = ''the on_body callback failed''"
| "http_errno_description HPE_CB_message_complete = ''the on_message_complete callback failed''"
| "http_errno_description HPE_CB_status = ''the on_status callback failed''"
| "http_errno_description HPE_CB_chunk_header = ''the on_chunk_header callback failed''"
| "http_errno_description HPE_CB_chunk_complete = ''the on_chunk_complete callback failed''"
| "http_errno_description HPE_INVALID_EOF_STATE = ''stream ended at an unexpected time''"
| "http_errno_description HPE_HEADER_OVERFLOW = ''too many header bytes seen; overflow detected''"
| "http_errno_description HPE_CLOSED_CONNECTION = ''data received after completed connection: close message''"
| "http_errno_description HPE_INVALID_VERSION = ''invalid HTTP version''"
| "http_errno_description HPE_INVALID_STATUS = ''invalid HTTP status code''"
| "http_errno_description HPE_INVALID_METHOD = ''invalid HTTP method''"
| "http_errno_description HPE_INVALID_URL = ''invalid URL''"
| "http_errno_description HPE_INVALID_HOST = ''invalid host''"
| "http_errno_description HPE_INVALID_PORT = ''invalid port''"
| "http_errno_description HPE_INVALID_PATH = ''invalid path''"
| "http_errno_description HPE_INVALID_QUERY_STRING = ''invalid query string''"
| "http_errno_description HPE_INVALID_FRAGMENT = ''invalid fragment''"
| "http_errno_description HPE_LF_EXPECTED = ''LF character expected''"
| "http_errno_description HPE_INVALID_HEADER_TOKEN = ''invalid character in header''"
| "http_errno_description HPE_INVALID_CONTENT_LENGTH = ''invalid character in content-length header''"
| "http_errno_description HPE_INVALID_CHUNK_SIZE = ''invalid character in chunk size header''"
| "http_errno_description HPE_INVALID_CONSTANT = ''invalid constant string''"
| "http_errno_description HPE_INVALID_INTERNAL_STATE = ''encountered unexpected internal state''"
| "http_errno_description HPE_STRICT = ''strict mode assertion failed''"
| "http_errno_description HPE_PAUSED = ''parser is paused''"
| "http_errno_description HPE_UNKNOWN = ''an unknown error occurred''"

section \<open>Flags\<close>

definition F_CHUNKED :: "7 word" where "F_CHUNKED = push_bit 0 1"
definition F_CONNECTION_KEEP_ALIVE :: "7 word" where "F_CONNECTION_KEEP_ALIVE = push_bit 1 1"
definition F_CONNECTION_CLOSE :: "7 word" where "F_CONNECTION_CLOSE = push_bit 2 1"
definition F_CONNECTION_UPGRADE :: "7 word" where "F_CONNECTION_UPGRADE = push_bit 3 1"
definition F_TRAILING :: "7 word" where "F_TRAILING = push_bit 4 1"
definition F_UPGRADE :: "7 word" where "F_UPGRADE = push_bit 5 1"
definition F_SKIPBODY :: "7 word" where "F_SKIPBODY = push_bit 6 1"

section \<open>The parser structure and the settings\<close>

definition ULLONG_MAX :: uint64_t where
  "ULLONG_MAX = 0xFFFFFFFFFFFFFFFF"

definition HTTP_MAX_HEADER_SIZE :: nat where
  "HTTP_MAX_HEADER_SIZE = 80 * 1024"

text \<open>
  \<open>hp_data\<close> is the application's \<^verbatim>\<open>void *data\<close>: whatever the callbacks of one
  application read and write, hence a type parameter.
\<close>

record 'd http_parser =
  hp_type :: http_parser_type
  hp_flags :: "7 word"
  hp_state :: state
  hp_header_state :: header_states
  hp_index :: "8 word"
  hp_nread :: uint32_t
  hp_content_length :: uint64_t
  hp_http_major :: uint16_t
  hp_http_minor :: uint16_t
  hp_status_code :: uint16_t
  hp_method :: http_method
  hp_errno :: http_errno
  hp_upgrade :: bool
  hp_data :: 'd

text \<open>
  A callback receives the parser and may change it; its \<^verbatim>\<open>int\<close> result is the second
  component. A data callback also receives the bytes \<^verbatim>\<open>at[0 .. length)\<close>. A null function
  pointer is \<open>None\<close>.
\<close>

type_synonym 'd http_cb = "'d http_parser \<Rightarrow> 'd http_parser \<times> int"
type_synonym 'd http_data_cb = "'d http_parser \<Rightarrow> bytes \<Rightarrow> 'd http_parser \<times> int"

record 'd http_parser_settings =
  on_message_begin :: "'d http_cb option"
  on_url :: "'d http_data_cb option"
  on_status :: "'d http_data_cb option"
  on_header_field :: "'d http_data_cb option"
  on_header_value :: "'d http_data_cb option"
  on_headers_complete :: "'d http_cb option"
  on_body :: "'d http_data_cb option"
  on_message_complete :: "'d http_cb option"
  on_chunk_header :: "'d http_cb option"
  on_chunk_complete :: "'d http_cb option"

section \<open>Character tables and classes\<close>

text \<open>
  The three tables have 256, 256 and 32 entries in C; the initialisers give the first 128,
  128 and 16, and C fills the rest with zeros. In \<open>tokens\<close> a blank stands for a zero entry (the blank
  itself is no token).
\<close>

definition tokens :: "char list" where
  "tokens = map (\<lambda>c. if c = CHR '' '' then CHR 0x00 else c)
     (''        '' @ ''        '' @ ''        '' @ ''        '' @
      '' ! #$%&'' @ [CHR 0x27] @ ''  *+ -. '' @ ''01234567'' @ ''89      '' @
      '' abcdefg'' @ ''hijklmno'' @ ''pqrstuvw'' @ ''xyz   ^_'' @
      [CHR 0x60] @ ''abcdefg'' @ ''hijklmno'' @ ''pqrstuvw'' @ ''xyz | ~ '')"

definition unhex_table :: "int list" where
  "unhex_table = [
      -1, -1, -1, -1, -1, -1, -1, -1, -1, -1, -1, -1, -1, -1, -1, -1,
      -1, -1, -1, -1, -1, -1, -1, -1, -1, -1, -1, -1, -1, -1, -1, -1,
      -1, -1, -1, -1, -1, -1, -1, -1, -1, -1, -1, -1, -1, -1, -1, -1,
      0, 1, 2, 3, 4, 5, 6, 7, 8, 9, -1, -1, -1, -1, -1, -1,
      -1, 10, 11, 12, 13, 14, 15, -1, -1, -1, -1, -1, -1, -1, -1, -1,
      -1, -1, -1, -1, -1, -1, -1, -1, -1, -1, -1, -1, -1, -1, -1, -1,
      -1, 10, 11, 12, 13, 14, 15, -1, -1, -1, -1, -1, -1, -1, -1, -1,
      -1, -1, -1, -1, -1, -1, -1, -1, -1, -1, -1, -1, -1, -1, -1, -1]"

definition normal_url_char :: "uint8_t list" where
  "normal_url_char = [
      0 OR 0 OR 0 OR 0 OR 0 OR 0 OR 0 OR 0,
      0 OR 0 OR 0 OR 0 OR 0 OR 0 OR 0 OR 0,
      0 OR 0 OR 0 OR 0 OR 0 OR 0 OR 0 OR 0,
      0 OR 0 OR 0 OR 0 OR 0 OR 0 OR 0 OR 0,
      0 OR 2 OR 4 OR 0 OR 16 OR 32 OR 64 OR 128,
      1 OR 2 OR 4 OR 8 OR 16 OR 32 OR 64 OR 128,
      1 OR 2 OR 4 OR 8 OR 16 OR 32 OR 64 OR 128,
      1 OR 2 OR 4 OR 8 OR 16 OR 32 OR 64 OR 0,
      1 OR 2 OR 4 OR 8 OR 16 OR 32 OR 64 OR 128,
      1 OR 2 OR 4 OR 8 OR 16 OR 32 OR 64 OR 128,
      1 OR 2 OR 4 OR 8 OR 16 OR 32 OR 64 OR 128,
      1 OR 2 OR 4 OR 8 OR 16 OR 32 OR 64 OR 128,
      1 OR 2 OR 4 OR 8 OR 16 OR 32 OR 64 OR 128,
      1 OR 2 OR 4 OR 8 OR 16 OR 32 OR 64 OR 128,
      1 OR 2 OR 4 OR 8 OR 16 OR 32 OR 64 OR 128,
      1 OR 2 OR 4 OR 8 OR 16 OR 32 OR 64 OR 0]"

definition table_at :: "'a \<Rightarrow> 'a list \<Rightarrow> nat \<Rightarrow> 'a" where
  "table_at zero tab i = (if i < length tab then tab ! i else zero)"

abbreviation CR :: char where "CR \<equiv> CHR 0x0D"
abbreviation LF :: char where "LF \<equiv> CHR 0x0A"

text \<open>\<^verbatim>\<open>(unsigned char)(c | 0x20)\<close>: bit 5 is set, the other bits stay.\<close>

definition LOWER :: "char \<Rightarrow> char" where
  "LOWER c = Char (digit0 c) (digit1 c) (digit2 c) (digit3 c) (digit4 c) True (digit6 c) (digit7 c)"

definition char_between :: "char \<Rightarrow> char \<Rightarrow> char \<Rightarrow> bool" where
  "char_between lo hi c \<longleftrightarrow> (of_char lo :: nat) \<le> of_char c \<and> (of_char c :: nat) \<le> of_char hi"

definition IS_ALPHA :: "char \<Rightarrow> bool" where
  "IS_ALPHA c \<longleftrightarrow> char_between (CHR ''a'') (CHR ''z'') (LOWER c)"

definition IS_NUM :: "char \<Rightarrow> bool" where
  "IS_NUM c \<longleftrightarrow> char_between (CHR ''0'') (CHR ''9'') c"

definition IS_ALPHANUM :: "char \<Rightarrow> bool" where
  "IS_ALPHANUM c \<longleftrightarrow> IS_ALPHA c \<or> IS_NUM c"

definition IS_HEX :: "char \<Rightarrow> bool" where
  "IS_HEX c \<longleftrightarrow> IS_NUM c \<or> char_between (CHR ''a'') (CHR ''f'') (LOWER c)"

definition IS_MARK :: "char \<Rightarrow> bool" where
  "IS_MARK c \<longleftrightarrow> c = CHR ''-'' \<or> c = CHR ''_'' \<or> c = CHR ''.'' \<or>
     c = CHR ''!'' \<or> c = CHR ''~'' \<or> c = CHR ''*'' \<or> c = CHR 0x27 \<or> c = CHR ''('' \<or>
     c = CHR '')''"

definition IS_USERINFO_CHAR :: "char \<Rightarrow> bool" where
  "IS_USERINFO_CHAR c \<longleftrightarrow> IS_ALPHANUM c \<or> IS_MARK c \<or> c = CHR ''%'' \<or>
     c = CHR '';'' \<or> c = CHR '':'' \<or> c = CHR ''&'' \<or> c = CHR ''='' \<or> c = CHR ''+'' \<or>
     c = CHR ''$'' \<or> c = CHR '',''"

definition TOKEN :: "char \<Rightarrow> char" where
  "TOKEN c = table_at (CHR 0x00) tokens (of_char c)"

text \<open>In the strict build \<^verbatim>\<open>STRICT_TOKEN\<close> and \<^verbatim>\<open>TOKEN\<close> are the same lookup.\<close>

definition STRICT_TOKEN :: "char \<Rightarrow> char" where
  "STRICT_TOKEN c = table_at (CHR 0x00) tokens (of_char c)"

definition unhex :: "char \<Rightarrow> int" where
  "unhex c = table_at 0 unhex_table (of_char c)"

text \<open>\<^verbatim>\<open>BIT_AT(normal_url_char, c)\<close>.\<close>

definition IS_URL_CHAR :: "char \<Rightarrow> bool" where
  "IS_URL_CHAR c \<longleftrightarrow>
     (table_at 0 normal_url_char (drop_bit 3 (of_char c)) AND
      push_bit ((of_char c :: nat) AND 7) 1) \<noteq> 0"

definition IS_HOST_CHAR :: "char \<Rightarrow> bool" where
  "IS_HOST_CHAR c \<longleftrightarrow> IS_ALPHANUM c \<or> c = CHR ''.'' \<or> c = CHR ''-''"

text \<open>\<^verbatim>\<open>ch - '0'\<close>.\<close>

definition digit_val :: "char \<Rightarrow> nat" where
  "digit_val c = of_char c - of_char (CHR ''0'')"

section \<open>Functions that read, reset or pause the parser\<close>

definition http_message_needs_eof :: "'d http_parser \<Rightarrow> bool" where
  "http_message_needs_eof parser =
     (if hp_type parser = HTTP_REQUEST then False
      else if hp_status_code parser div 100 = 1 \<or> hp_status_code parser = 204 \<or>
        hp_status_code parser = 304 \<or> hp_flags parser AND F_SKIPBODY \<noteq> 0 then False
      else if hp_flags parser AND F_CHUNKED \<noteq> 0 \<or> hp_content_length parser \<noteq> ULLONG_MAX
        then False
      else True)"

definition http_should_keep_alive :: "'d http_parser \<Rightarrow> bool" where
  "http_should_keep_alive parser =
     (if hp_http_major parser > 0 \<and> hp_http_minor parser > 0 then
        (if hp_flags parser AND F_CONNECTION_CLOSE \<noteq> 0 then False
         else \<not> http_message_needs_eof parser)
      else
        (if \<not> (hp_flags parser AND F_CONNECTION_KEEP_ALIVE \<noteq> 0) then False
         else \<not> http_message_needs_eof parser))"

text \<open>
  \<^verbatim>\<open>memset\<close> zeroes every field but \<^verbatim>\<open>data\<close>: the zero of \<^verbatim>\<open>header_state\<close> is
  \<open>h_general\<close>, that of \<^verbatim>\<open>method\<close> is \<open>HTTP_DELETE\<close>, that of \<^verbatim>\<open>http_errno\<close> is \<open>HPE_OK\<close>.
\<close>

definition http_parser_init :: "'d http_parser \<Rightarrow> http_parser_type \<Rightarrow> 'd http_parser" where
  "http_parser_init parser t =
     \<lparr>hp_type = t, hp_flags = 0,
      hp_state = (if t = HTTP_REQUEST then s_start_req
                  else if t = HTTP_RESPONSE then s_start_res else s_start_req_or_res),
      hp_header_state = h_general, hp_index = 0, hp_nread = 0, hp_content_length = 0,
      hp_http_major = 0, hp_http_minor = 0, hp_status_code = 0, hp_method = HTTP_DELETE,
      hp_errno = HPE_OK, hp_upgrade = False, hp_data = hp_data parser\<rparr>"

definition http_parser_settings_init :: "'d http_parser_settings" where
  "http_parser_settings_init =
     \<lparr>on_message_begin = None, on_url = None, on_status = None, on_header_field = None,
      on_header_value = None, on_headers_complete = None, on_body = None,
      on_message_complete = None, on_chunk_header = None, on_chunk_complete = None\<rparr>"

text \<open>A failed assertion is \<open>None\<close>.\<close>

definition http_parser_pause :: "'d http_parser \<Rightarrow> bool \<Rightarrow> 'd http_parser option" where
  "http_parser_pause parser paused =
     (if hp_errno parser = HPE_OK \<or> hp_errno parser = HPE_PAUSED
      then Some (parser\<lparr>hp_errno := (if paused then HPE_PAUSED else HPE_OK)\<rparr>)
      else None)"

definition http_body_is_final :: "'d http_parser \<Rightarrow> bool" where
  "http_body_is_final parser \<longleftrightarrow> hp_state parser = s_message_done"

definition http_parser_version :: "64 word" where
  "http_parser_version = 2 * 0x10000 OR 5 * 0x00100 OR 0 * 0x00001"

definition http_method_str :: "http_method \<Rightarrow> string" where
  "http_method_str m = method_strings m"

text \<open>A structure as it may be before \<^verbatim>\<open>http_parser_init\<close>, for concrete runs.\<close>

definition raw_parser :: "'d \<Rightarrow> 'd http_parser" where
  "raw_parser d =
     \<lparr>hp_type = HTTP_BOTH, hp_flags = 0, hp_state = s_dead, hp_header_state = h_general, hp_index = 0,
      hp_nread = 0, hp_content_length = 0, hp_http_major = 0, hp_http_minor = 0, hp_status_code = 0,
      hp_method = HTTP_DELETE, hp_errno = HPE_OK, hp_upgrade = False, hp_data = d\<rparr>"

section \<open>Flag bits\<close>

lemma flag_tests [flag_simps]:
  "(x AND F_CHUNKED \<noteq> 0) = bit x 0"
  "(x AND F_CONNECTION_KEEP_ALIVE \<noteq> 0) = bit x 1"
  "(x AND F_CONNECTION_CLOSE \<noteq> 0) = bit x 2"
  "(x AND F_CONNECTION_UPGRADE \<noteq> 0) = bit x 3"
  "(x AND F_TRAILING \<noteq> 0) = bit x 4"
  "(x AND F_UPGRADE \<noteq> 0) = bit x 5"
  "(x AND F_SKIPBODY \<noteq> 0) = bit x 6"
  by (simp_all only: F_CHUNKED_def F_CONNECTION_KEEP_ALIVE_def F_CONNECTION_CLOSE_def
      F_CONNECTION_UPGRADE_def F_TRAILING_def F_UPGRADE_def F_SKIPBODY_def
      bit_iff_and_push_bit_not_eq_0)

lemma flag_tests_eq_0 [flag_simps]:
  "(x AND F_CHUNKED = 0) = (\<not> bit x 0)"
  "(x AND F_TRAILING = 0) = (\<not> bit x 4)"
  "(x AND F_SKIPBODY = 0) = (\<not> bit x 6)"
  using flag_tests [of x] by auto

lemma bit_push_1: "i < 7 \<Longrightarrow> bit (push_bit i 1 :: 7 word) n = (n = i)"
  by (auto simp: bit_simps)

lemma flag_bits [flag_simps]:
  "bit F_CHUNKED n = (n = 0)" "bit F_CONNECTION_KEEP_ALIVE n = (n = 1)"
  "bit F_CONNECTION_CLOSE n = (n = 2)" "bit F_CONNECTION_UPGRADE n = (n = 3)"
  "bit F_TRAILING n = (n = 4)" "bit F_UPGRADE n = (n = 5)" "bit F_SKIPBODY n = (n = 6)"
  by (simp_all only: F_CHUNKED_def F_CONNECTION_KEEP_ALIVE_def F_CONNECTION_CLOSE_def
      F_CONNECTION_UPGRADE_def F_TRAILING_def F_UPGRADE_def F_SKIPBODY_def bit_push_1)

lemmas flag_or [flag_simps] = bit_or_iff [where 'a = "7 word"]

end
