(* ===== verification/Http_Url.thy ===== *)
theory Http_Url
  imports Http_Types Interfaces
begin

text \<open>
  The URL parser of \<^verbatim>\<open>src/net/http/http_parser.c\<close>: the character automaton
  \<^verbatim>\<open>parse_url_char\<close> (shared with \<^verbatim>\<open>http_parser_execute\<close>), the host automaton, and
  \<^verbatim>\<open>http_parser_parse_url\<close>, which turns their transitions into field offsets. Offsets,
  lengths and the port are 16-bit values, as in \<^verbatim>\<open>struct http_parser_url\<close>; a failed
  assertion is \<open>None\<close>.
\<close>

section \<open>The URL automaton\<close>

text \<open>The three cases of the switch that share the server part of the URL.\<close>

definition parse_url_server :: "char \<Rightarrow> state" where
  "parse_url_server ch =
     (if ch = CHR ''/'' then s_req_path
      else if ch = CHR ''?'' then s_req_query_string_start
      else if ch = CHR ''@'' then s_req_server_with_at
      else if IS_USERINFO_CHAR ch \<or> ch = CHR ''['' \<or> ch = CHR '']'' then s_req_server
      else s_dead)"

definition parse_url_char :: "state \<Rightarrow> char \<Rightarrow> state" where
  "parse_url_char s ch =
     (if ch = CHR '' '' \<or> ch = CR \<or> ch = LF then s_dead
      else if ch = CHR 0x09 \<or> ch = CHR 0x0C then s_dead
      else case s of
        s_req_spaces_before_url \<Rightarrow>
          if ch = CHR ''/'' \<or> ch = CHR ''*'' then s_req_path
          else if IS_ALPHA ch then s_req_schema
          else s_dead
      | s_req_schema \<Rightarrow>
          if IS_ALPHA ch then s
          else if ch = CHR '':'' then s_req_schema_slash
          else s_dead
      | s_req_schema_slash \<Rightarrow>
          if ch = CHR ''/'' then s_req_schema_slash_slash else s_dead
      | s_req_schema_slash_slash \<Rightarrow>
          if ch = CHR ''/'' then s_req_server_start else s_dead
      | s_req_server_with_at \<Rightarrow>
          if ch = CHR ''@'' then s_dead else parse_url_server ch
      | s_req_server_start \<Rightarrow> parse_url_server ch
      | s_req_server \<Rightarrow> parse_url_server ch
      | s_req_path \<Rightarrow>
          if IS_URL_CHAR ch then s
          else if ch = CHR ''?'' then s_req_query_string_start
          else if ch = CHR ''#'' then s_req_fragment_start
          else s_dead
      | s_req_query_string_start \<Rightarrow>
          if IS_URL_CHAR ch then s_req_query_string
          else if ch = CHR ''?'' then s_req_query_string
          else if ch = CHR ''#'' then s_req_fragment_start
          else s_dead
      | s_req_query_string \<Rightarrow>
          if IS_URL_CHAR ch then s_req_query_string
          else if ch = CHR ''?'' then s_req_query_string
          else if ch = CHR ''#'' then s_req_fragment_start
          else s_dead
      | s_req_fragment_start \<Rightarrow>
          if IS_URL_CHAR ch then s_req_fragment
          else if ch = CHR ''?'' then s_req_fragment
          else if ch = CHR ''#'' then s
          else s_dead
      | s_req_fragment \<Rightarrow>
          if IS_URL_CHAR ch then s
          else if ch = CHR ''?'' \<or> ch = CHR ''#'' then s
          else s_dead
      | _ \<Rightarrow> s_dead)"

section \<open>The host automaton\<close>

definition http_parse_host_char :: "http_host_state \<Rightarrow> char \<Rightarrow> http_host_state" where
  "http_parse_host_char s ch =
     (case s of
        s_http_userinfo \<Rightarrow>
          if ch = CHR ''@'' then s_http_host_start
          else if IS_USERINFO_CHAR ch then s_http_userinfo
          else s_http_host_dead
      | s_http_userinfo_start \<Rightarrow>
          if ch = CHR ''@'' then s_http_host_start
          else if IS_USERINFO_CHAR ch then s_http_userinfo
          else s_http_host_dead
      | s_http_host_start \<Rightarrow>
          if ch = CHR ''['' then s_http_host_v6_start
          else if IS_HOST_CHAR ch then s_http_host
          else s_http_host_dead
      | s_http_host \<Rightarrow>
          if IS_HOST_CHAR ch then s_http_host
          else if ch = CHR '':'' then s_http_host_port_start
          else s_http_host_dead
      | s_http_host_v6_end \<Rightarrow>
          if ch = CHR '':'' then s_http_host_port_start else s_http_host_dead
      | s_http_host_v6 \<Rightarrow>
          if ch = CHR '']'' then s_http_host_v6_end
          else if IS_HEX ch \<or> ch = CHR '':'' \<or> ch = CHR ''.'' then s_http_host_v6
          else if ch = CHR ''%'' then s_http_host_v6_zone_start
          else s_http_host_dead
      | s_http_host_v6_start \<Rightarrow>
          if IS_HEX ch \<or> ch = CHR '':'' \<or> ch = CHR ''.'' then s_http_host_v6
          else s_http_host_dead
      | s_http_host_v6_zone \<Rightarrow>
          if ch = CHR '']'' then s_http_host_v6_end
          else if IS_ALPHANUM ch \<or> ch = CHR ''%'' \<or> ch = CHR ''.'' \<or> ch = CHR ''-'' \<or>
            ch = CHR ''_'' \<or> ch = CHR ''~'' then s_http_host_v6_zone
          else s_http_host_dead
      | s_http_host_v6_zone_start \<Rightarrow>
          if IS_ALPHANUM ch \<or> ch = CHR ''%'' \<or> ch = CHR ''.'' \<or> ch = CHR ''-'' \<or>
            ch = CHR ''_'' \<or> ch = CHR ''~'' then s_http_host_v6_zone
          else s_http_host_dead
      | s_http_host_port \<Rightarrow>
          if IS_NUM ch then s_http_host_port else s_http_host_dead
      | s_http_host_port_start \<Rightarrow>
          if IS_NUM ch then s_http_host_port else s_http_host_dead
      | s_http_host_dead \<Rightarrow> s_http_host_dead)"

section \<open>URL fields\<close>

datatype http_parser_url_fields =
    UF_SCHEMA | UF_HOST | UF_PORT | UF_PATH | UF_QUERY | UF_FRAGMENT | UF_USERINFO | UF_MAX

primrec uf_num :: "http_parser_url_fields \<Rightarrow> nat" where
  "uf_num UF_SCHEMA = 0"
| "uf_num UF_HOST = 1"
| "uf_num UF_PORT = 2"
| "uf_num UF_PATH = 3"
| "uf_num UF_QUERY = 4"
| "uf_num UF_FRAGMENT = 5"
| "uf_num UF_USERINFO = 6"
| "uf_num UF_MAX = 7"

record http_parser_url =
  field_set :: uint16_t
  url_port :: uint16_t
  field_off :: "http_parser_url_fields \<Rightarrow> uint16_t"
  field_len :: "http_parser_url_fields \<Rightarrow> uint16_t"

definition field_is_set :: "http_parser_url \<Rightarrow> http_parser_url_fields \<Rightarrow> bool" where
  "field_is_set u f \<longleftrightarrow> field_set u AND push_bit (uf_num f) 1 \<noteq> 0"

text \<open>\<^verbatim>\<open>u->field_data[f].off = off; .len = len;\<close> and \<^verbatim>\<open>u->field_set |= (1 << f)\<close>.\<close>

definition set_field :: "http_parser_url_fields \<Rightarrow> uint16_t \<Rightarrow> uint16_t \<Rightarrow> http_parser_url \<Rightarrow> http_parser_url" where
  "set_field f off len u =
     u\<lparr>field_off := (field_off u)(f := off), field_len := (field_len u)(f := len)\<rparr>"

definition mark_field :: "http_parser_url_fields \<Rightarrow> http_parser_url \<Rightarrow> http_parser_url" where
  "mark_field f u = u\<lparr>field_set := field_set u OR push_bit (uf_num f) 1\<rparr>"

definition inc_len :: "http_parser_url_fields \<Rightarrow> http_parser_url \<Rightarrow> http_parser_url" where
  "inc_len f u = u\<lparr>field_len := (field_len u)(f := field_len u f + 1)\<rparr>"

section \<open>Host parsing\<close>

text \<open>What one host transition from \<open>s\<close> to \<open>new_s\<close> at offset \<open>p\<close> records.\<close>

definition host_record :: "http_host_state \<Rightarrow> http_host_state \<Rightarrow> nat \<Rightarrow> http_parser_url \<Rightarrow> http_parser_url" where
  "host_record s new_s p u =
     (case new_s of
        s_http_host \<Rightarrow>
          inc_len UF_HOST
            (if s \<noteq> s_http_host then u\<lparr>field_off := (field_off u)(UF_HOST := of_nat p)\<rparr> else u)
      | s_http_host_v6 \<Rightarrow>
          inc_len UF_HOST
            (if s \<noteq> s_http_host_v6 then u\<lparr>field_off := (field_off u)(UF_HOST := of_nat p)\<rparr> else u)
      | s_http_host_v6_zone_start \<Rightarrow> inc_len UF_HOST u
      | s_http_host_v6_zone \<Rightarrow> inc_len UF_HOST u
      | s_http_host_port \<Rightarrow>
          inc_len UF_PORT
            (if s \<noteq> s_http_host_port then mark_field UF_PORT (set_field UF_PORT (of_nat p) 0 u) else u)
      | s_http_userinfo \<Rightarrow>
          inc_len UF_USERINFO
            (if s \<noteq> s_http_userinfo then mark_field UF_USERINFO (set_field UF_USERINFO (of_nat p) 0 u)
             else u)
      | _ \<Rightarrow> u)"

text \<open>
  The loop over the bytes \<open>cs\<close> of the host part, the first of which lies at offset \<open>p\<close>.
  The first component is true when a byte was refused.
\<close>

fun host_loop :: "http_host_state \<Rightarrow> nat \<Rightarrow> bytes \<Rightarrow> http_parser_url \<Rightarrow> bool \<times> http_host_state \<times> http_parser_url" where
  "host_loop s p [] u = (False, s, u)"
| "host_loop s p (c # cs) u =
     (let new_s = http_parse_host_char s c in
      if new_s = s_http_host_dead then (True, s, u)
      else host_loop new_s (Suc p) cs (host_record s new_s p u))"

definition host_bad_end :: "http_host_state \<Rightarrow> bool" where
  "host_bad_end s \<longleftrightarrow> s \<in> {s_http_host_start, s_http_host_v6_start, s_http_host_v6,
     s_http_host_v6_zone_start, s_http_host_v6_zone, s_http_host_port_start, s_http_userinfo,
     s_http_userinfo_start}"

definition http_parse_host :: "bytes \<Rightarrow> http_parser_url \<Rightarrow> bool \<Rightarrow> (int \<times> http_parser_url) option" where
  "http_parse_host buf u found_at =
     (if \<not> field_is_set u UF_HOST then None
      else
        let off = unat (field_off u UF_HOST);
            buflen = off + unat (field_len u UF_HOST);
            u = u\<lparr>field_len := (field_len u)(UF_HOST := 0)\<rparr>;
            s = (if found_at then s_http_userinfo_start else s_http_host_start)
        in case host_loop s off (take (buflen - off) (drop off buf)) u of
             (refused, s, u) \<Rightarrow>
               if refused then Some (1, u)
               else if host_bad_end s then Some (1, u)
               else Some (0, u))"

section \<open>URL parsing\<close>

text \<open>The field a state of the automaton belongs to; \<open>Inl\<close> is a delimiter, \<open>None\<close> no URL state.\<close>

definition url_field_of :: "state \<Rightarrow> (unit + http_parser_url_fields) option" where
  "url_field_of s =
     (case s of
        s_req_schema_slash \<Rightarrow> Some (Inl ())
      | s_req_schema_slash_slash \<Rightarrow> Some (Inl ())
      | s_req_server_start \<Rightarrow> Some (Inl ())
      | s_req_query_string_start \<Rightarrow> Some (Inl ())
      | s_req_fragment_start \<Rightarrow> Some (Inl ())
      | s_req_schema \<Rightarrow> Some (Inr UF_SCHEMA)
      | s_req_server_with_at \<Rightarrow> Some (Inr UF_HOST)
      | s_req_server \<Rightarrow> Some (Inr UF_HOST)
      | s_req_path \<Rightarrow> Some (Inr UF_PATH)
      | s_req_query_string \<Rightarrow> Some (Inr UF_QUERY)
      | s_req_fragment \<Rightarrow> Some (Inr UF_FRAGMENT)
      | _ \<Rightarrow> None)"

datatype url_result = Url_dead http_parser_url | Url_assert | Url_ok bool http_parser_url

fun url_loop ::
  "state \<Rightarrow> http_parser_url_fields \<Rightarrow> bool \<Rightarrow> nat \<Rightarrow> bytes \<Rightarrow> http_parser_url \<Rightarrow> url_result" where
  "url_loop s old_uf found_at p [] u = Url_ok found_at u"
| "url_loop s old_uf found_at p (c # cs) u =
     (let s = parse_url_char s c in
      if s = s_dead then Url_dead u
      else case url_field_of s of
        None \<Rightarrow> Url_assert
      | Some (Inl _) \<Rightarrow> url_loop s old_uf found_at (Suc p) cs u
      | Some (Inr uf) \<Rightarrow>
          let found_at = (found_at \<or> s = s_req_server_with_at) in
          if uf = old_uf then url_loop s old_uf found_at (Suc p) cs (inc_len uf u)
          else url_loop s uf found_at (Suc p) cs (mark_field uf (set_field uf (of_nat p) 1 u)))"

text \<open>
  \<^verbatim>\<open>strtoul(str, NULL, 10)\<close>: white space, an optional sign, then the longest run of digits,
  saturating at \<^verbatim>\<open>ULONG_MAX\<close>. The list holds the memory from \<^verbatim>\<open>str\<close> on; its end stands for
  the terminating null byte.
\<close>

definition is_space :: "char \<Rightarrow> bool" where
  "is_space c \<longleftrightarrow> c = CHR '' '' \<or> char_between (CHR 0x09) (CHR 0x0D) c"

definition digits_val :: "bytes \<Rightarrow> nat" where
  "digits_val cs = foldl (\<lambda>v c. 10 * v + digit_val c) 0 cs"

definition strtoul10 :: "bytes \<Rightarrow> nat" where
  "strtoul10 str =
     (let str = dropWhile is_space str;
          neg = (take 1 str = ''-'');
          str = (if take 1 str = ''-'' \<or> take 1 str = ''+'' then drop 1 str else str);
          v = digits_val (takeWhile IS_NUM str)
      in if v > 2 ^ 64 - 1 then 2 ^ 64 - 1 else if neg then (2 ^ 64 - v) mod 2 ^ 64 else v)"

definition parse_url_port :: "bytes \<Rightarrow> http_parser_url \<Rightarrow> int \<times> http_parser_url" where
  "parse_url_port buf u =
     (if field_is_set u UF_PORT then
        let v = strtoul10 (drop (unat (field_off u UF_PORT)) buf) in
        if v > 0xffff then (1, u) else (0, u\<lparr>url_port := of_nat v\<rparr>)
      else (0, u))"

definition http_parser_parse_url ::
  "bytes \<Rightarrow> nat \<Rightarrow> bool \<Rightarrow> http_parser_url \<Rightarrow> (int \<times> http_parser_url) option" where
  "http_parser_parse_url buf buflen is_connect u =
     (let u = u\<lparr>url_port := 0, field_set := 0\<rparr>;
          s = (if is_connect then s_req_server_start else s_req_spaces_before_url)
      in (case url_loop s UF_MAX False 0 (take buflen buf) u of
           Url_dead u \<Rightarrow> Some (1, u)
         | Url_assert \<Rightarrow> None
         | Url_ok found_at u \<Rightarrow>
             (if field_is_set u UF_SCHEMA \<and> \<not> field_is_set u UF_HOST then Some (1, u)
              else (case (if field_is_set u UF_HOST then http_parse_host buf u found_at else Some (0, u)) of
                      None \<Rightarrow> None
                    | Some (r, u) \<Rightarrow>
                        (if r \<noteq> 0 then Some (1, u)
                         else if is_connect \<and>
                           field_set u \<noteq> (push_bit (uf_num UF_HOST) 1 OR push_bit (uf_num UF_PORT) 1)
                           then Some (1, u)
                         else Some (parse_url_port buf u))))))"

end
