(* ===== verification/Http_Url_Props.thy ===== *)
theory Http_Url_Props
  imports Http_Url
begin

text \<open>
  Properties of the URL parser: it never fails an assertion, it refuses exactly the byte
  strings its automaton traps on, the fields it reports lie inside the buffer, the port
  it reports is the number its digits denote.
\<close>

section \<open>The automata have trap states\<close>

interpretation url: trap_automaton parse_url_char s_dead
  by unfold_locales (simp add: parse_url_char_def)

interpretation host: trap_automaton http_parse_host_char s_http_host_dead
  by unfold_locales (simp add: http_parse_host_char_def)

lemma url_field_of_simps [simp]:
  "url_field_of s_req_schema_slash = Some (Inl ())"
  "url_field_of s_req_schema_slash_slash = Some (Inl ())"
  "url_field_of s_req_server_start = Some (Inl ())"
  "url_field_of s_req_query_string_start = Some (Inl ())"
  "url_field_of s_req_fragment_start = Some (Inl ())"
  "url_field_of s_req_schema = Some (Inr UF_SCHEMA)"
  "url_field_of s_req_server_with_at = Some (Inr UF_HOST)"
  "url_field_of s_req_server = Some (Inr UF_HOST)"
  "url_field_of s_req_path = Some (Inr UF_PATH)"
  "url_field_of s_req_query_string = Some (Inr UF_QUERY)"
  "url_field_of s_req_fragment = Some (Inr UF_FRAGMENT)"
  by (simp_all add: url_field_of_def)

lemma parse_url_server_field:
  "parse_url_server c \<noteq> s_dead \<Longrightarrow> url_field_of (parse_url_server c) \<noteq> None"
  by (auto simp: parse_url_server_def)

lemma parse_url_char_field:
  "parse_url_char s c \<noteq> s_dead \<Longrightarrow> url_field_of (parse_url_char s c) \<noteq> None"
  using parse_url_server_field [of c]
  by (cases s) (auto simp: parse_url_char_def split: if_splits)

lemma url_field_of_not_max: "url_field_of s \<noteq> Some (Inr UF_MAX)"
  by (cases s) (auto simp: url_field_of_def)

text \<open>The loop stops at the trap exactly when the automaton run ends in it.\<close>

lemma url_loop_dead_iff:
  assumes "s \<noteq> s_dead"
  shows "(\<exists>v. url_loop s o_uf fa p cs u = Url_dead v) \<longleftrightarrow> foldl parse_url_char s cs = s_dead"
  using assms
proof (induction cs arbitrary: s o_uf fa p u)
  case Nil
  then show ?case by simp
next
  case (Cons c cs)
  show ?case
  proof (cases "parse_url_char s c = s_dead")
    case True
    then show ?thesis by (simp add: url.run_trap)
  next
    case False
    then show ?thesis
      using Cons.IH [OF False] parse_url_char_field [OF False]
      by (auto simp: Let_def split: option.splits sum.splits)
  qed
qed

lemma url_loop_no_assert: "url_loop s o_uf fa p cs u \<noteq> Url_assert"
proof (induction cs arbitrary: s o_uf fa p u)
  case Nil
  then show ?case by simp
next
  case (Cons c cs)
  then show ?case
    using parse_url_char_field [of s c]
    by (cases "parse_url_char s c = s_dead") (auto simp: Let_def split: option.splits sum.splits)
qed

section \<open>Field bits\<close>

lemma uf_num_inj: "uf_num f = uf_num g \<longleftrightarrow> f = g"
  by (cases f; cases g) simp_all

lemma uf_num_less: "uf_num f < 16"
  by (cases f) simp_all

lemma field_is_set_bit: "field_is_set u f = bit (field_set u) (uf_num f)"
  by (simp add: field_is_set_def bit_iff_and_push_bit_not_eq_0)

lemma mark_field_simps [simp]:
  "field_is_set (mark_field f u) g \<longleftrightarrow> f = g \<or> field_is_set u g"
  "field_off (mark_field f u) = field_off u"
  "field_len (mark_field f u) = field_len u"
  using uf_num_less [of f] uf_num_less [of g]
  by (auto simp: field_is_set_bit mark_field_def bit_simps uf_num_inj)

lemma set_field_simps [simp]:
  "field_is_set (set_field f off len u) g = field_is_set u g"
  "field_off (set_field f off len u) = (field_off u)(f := off)"
  "field_len (set_field f off len u) = (field_len u)(f := len)"
  by (simp_all add: set_field_def field_is_set_def)

lemma inc_len_simps [simp]:
  "field_is_set (inc_len f u) g = field_is_set u g"
  "field_off (inc_len f u) = field_off u"
  "field_len (inc_len f u) = (field_len u)(f := field_len u f + 1)"
  by (simp_all add: inc_len_def field_is_set_def)

lemma field_is_set_upd [simp]:
  "field_is_set (u\<lparr>field_off := a\<rparr>) f = field_is_set u f"
  "field_is_set (u\<lparr>field_len := b\<rparr>) f = field_is_set u f"
  "field_is_set (u\<lparr>url_port := q\<rparr>) f = field_is_set u f"
  by (simp_all add: field_is_set_def)

lemma field_is_set_none [simp]: "\<not> field_is_set (u\<lparr>field_set := 0\<rparr>) f"
  by (simp add: field_is_set_def)

section \<open>Fields stay inside the buffer\<close>

definition field_end :: "http_parser_url \<Rightarrow> http_parser_url_fields \<Rightarrow> nat" where
  "field_end u f = unat (field_off u f) + unat (field_len u f)"

lemma unat_inc16:
  "unat (x :: uint16_t) < 65535 \<Longrightarrow> unat (x + 1) = unat x + 1"
  by (simp add: unat_word_ariths)

lemma url_loop_step:
  assumes "url_loop s o_uf fa p (c # cs) u = Url_ok fa' u'"
  shows "\<exists>s' o' b v. url_loop s' o' b (Suc p) cs v = Url_ok fa' u' \<and>
    (v = u \<or> (\<exists>f. v = inc_len f u) \<or> (\<exists>f. v = mark_field f (set_field f (of_nat p) 1 u)))"
  using assms
  by (auto simp: Let_def split: if_splits option.splits sum.splits) blast+

lemma url_loop_bounds:
  assumes "url_loop s o_uf fa p cs u = Url_ok fa' u'"
    and "\<forall>f. field_is_set u f \<longrightarrow> field_end u f \<le> p" and "p + length cs < 65536"
  shows "\<forall>f. field_is_set u' f \<longrightarrow> field_end u' f \<le> p + length cs"
  using assms
proof (induction cs arbitrary: s o_uf fa p u)
  case Nil
  then show ?case by simp
next
  case (Cons c cs)
  obtain s' o' b v where v: "url_loop s' o' b (Suc p) cs v = Url_ok fa' u'"
    "v = u \<or> (\<exists>f. v = inc_len f u) \<or> (\<exists>f. v = mark_field f (set_field f (of_nat p) 1 u))"
    using url_loop_step [OF Cons.prems(1)] by blast
  have "unat (of_nat p :: uint16_t) = p"
    using Cons.prems(3) by (simp add: unat_of_nat_small)
  then have "\<forall>f. field_is_set v f \<longrightarrow> field_end v f \<le> Suc p"
    using v(2) Cons.prems(2,3) by (fastforce simp: field_end_def unat_inc16)
  then show ?case
    using Cons.IH [OF v(1)] Cons.prems(3) by fastforce
qed

text \<open>
  In the host loop the host field is empty until its first byte, and every field the loop
  touches ends at or before the current byte.
\<close>

definition host_fields_inv :: "http_host_state \<Rightarrow> nat \<Rightarrow> http_parser_url \<Rightarrow> bool" where
  "host_fields_inv s p u \<longleftrightarrow>
     field_end u UF_HOST \<le> p \<and>
     (s \<in> {s_http_userinfo_start, s_http_userinfo, s_http_host_start, s_http_host_v6_start} \<longrightarrow>
        field_len u UF_HOST = 0) \<and>
     (\<forall>f \<in> {UF_PORT, UF_USERINFO}. field_is_set u f \<longrightarrow> field_end u f \<le> p)"

lemma host_record_inv:
  assumes "host_fields_inv s p u" "http_parse_host_char s c = new_s" "new_s \<noteq> s_http_host_dead"
    "Suc p < 65536"
  shows "host_fields_inv new_s (Suc p) (host_record s new_s p u)"
proof -
  have "unat (of_nat p :: uint16_t) = p"
    using assms(4) by (simp add: unat_of_nat_small)
  then show ?thesis
    using assms
    by (cases s; cases new_s)
      (auto simp: host_fields_inv_def host_record_def field_end_def unat_inc16
        http_parse_host_char_def split: if_splits)
qed

lemma host_record_other:
  "f \<notin> {UF_HOST, UF_PORT, UF_USERINFO} \<Longrightarrow>
   field_is_set (host_record s new_s p u) f = field_is_set u f \<and>
   field_end (host_record s new_s p u) f = field_end u f"
  by (cases new_s) (auto simp: host_record_def field_end_def)

lemma host_loop_bounds:
  assumes "host_loop s p cs u = (b, s', u')" "host_fields_inv s p u" "p + length cs < 65536"
  shows "(\<forall>f \<in> {UF_PORT, UF_USERINFO}. field_is_set u' f \<longrightarrow> field_end u' f \<le> p + length cs) \<and>
    field_end u' UF_HOST \<le> p + length cs \<and>
    (\<forall>f. f \<notin> {UF_HOST, UF_PORT, UF_USERINFO} \<longrightarrow>
      field_is_set u' f = field_is_set u f \<and> field_end u' f = field_end u f)"
  using assms
proof (induction cs arbitrary: s p u)
  case Nil
  then show ?case by (simp add: host_fields_inv_def)
next
  case (Cons c cs)
  let ?n = "http_parse_host_char s c"
  show ?case
  proof (cases "?n = s_http_host_dead")
    case True
    then show ?thesis
      using Cons.prems by (fastforce simp: host_fields_inv_def)
  next
    case False
    then have "host_loop ?n (Suc p) cs (host_record s ?n p u) = (b, s', u')"
      using Cons.prems(1) by (simp add: Let_def)
    moreover have "host_fields_inv ?n (Suc p) (host_record s ?n p u)"
      using Cons.prems(2,3) False by (intro host_record_inv) auto
    ultimately show ?thesis
      using Cons.IH Cons.prems(3) host_record_other [of _ s ?n p u] by fastforce
  qed
qed

lemma parse_host_bounds:
  assumes "http_parse_host buf u fa = Some (r, u')" "\<forall>f. field_is_set u f \<longrightarrow> field_end u f \<le> n"
    and "\<not> field_is_set u UF_PORT" "\<not> field_is_set u UF_USERINFO" "n \<le> length buf" "n < 65536"
  shows "\<forall>f. field_is_set u' f \<longrightarrow> field_end u' f \<le> n"
proof -
  let ?off = "unat (field_off u UF_HOST)" and ?len = "unat (field_len u UF_HOST)"
  let ?u = "u\<lparr>field_len := (field_len u)(UF_HOST := 0)\<rparr>"
  let ?s = "if fa then s_http_userinfo_start else s_http_host_start"
  let ?cs = "take ?len (drop ?off buf)"
  have hs: "field_is_set u UF_HOST"
    using assms(1) by (auto simp: http_parse_host_def split: if_splits)
  then have le: "?off + ?len \<le> n"
    using assms(2) by (auto simp: field_end_def)
  obtain b s' where l: "host_loop ?s ?off ?cs ?u = (b, s', u')"
    using assms(1) hs by (auto simp: http_parse_host_def Let_def split: prod.splits if_splits)
  have "host_fields_inv ?s ?off ?u"
    using assms(3,4) by (auto simp: host_fields_inv_def field_end_def)
  moreover have "?off + length ?cs \<le> n"
    using le assms(5) by simp
  ultimately have "(\<forall>f \<in> {UF_PORT, UF_USERINFO}. field_is_set u' f \<longrightarrow> field_end u' f \<le> n) \<and>
    field_end u' UF_HOST \<le> n \<and>
    (\<forall>f. f \<notin> {UF_HOST, UF_PORT, UF_USERINFO} \<longrightarrow>
      field_is_set u' f = field_is_set u f \<and> field_end u' f = field_end u f)"
    using host_loop_bounds [OF l] assms(6) by (fastforce simp: field_end_def)
  then show ?thesis
    using assms(2) by (metis insert_iff)
qed

lemma url_loop_no_authority_fields:
  assumes "url_loop s o_uf fa p cs u = Url_ok fa' u'"
    and "\<not> field_is_set u UF_PORT" "\<not> field_is_set u UF_USERINFO"
  shows "\<not> field_is_set u' UF_PORT \<and> \<not> field_is_set u' UF_USERINFO"
  using assms
proof (induction cs arbitrary: s o_uf fa p u)
  case Nil
  then show ?case by simp
next
  case (Cons c cs)
  have "url_field_of (parse_url_char s c) \<noteq> Some (Inr f)" if "f \<in> {UF_PORT, UF_USERINFO}" for f
    using that by (cases "parse_url_char s c") (auto simp: url_field_of_def)
  then show ?case
    using Cons by (auto simp: Let_def split: if_splits option.splits sum.splits)
qed

section \<open>The port\<close>

text \<open>While the host automaton reads the port, the port field is the run of digits read so far.\<close>

definition host_port_inv :: "bytes \<Rightarrow> http_host_state \<Rightarrow> nat \<Rightarrow> http_parser_url \<Rightarrow> bool" where
  "host_port_inv buf s p u \<longleftrightarrow>
     (if s = s_http_host_port
      then field_is_set u UF_PORT \<and> unat (field_off u UF_PORT) < p \<and> field_end u UF_PORT = p \<and>
        (\<forall>i. unat (field_off u UF_PORT) \<le> i \<and> i < p \<longrightarrow> IS_NUM (buf ! i))
      else \<not> field_is_set u UF_PORT)"

lemma host_record_port_inv:
  assumes "host_port_inv buf s p u" "http_parse_host_char s (buf ! p) = new_s"
    "new_s \<noteq> s_http_host_dead" "Suc p < 65536"
  shows "host_port_inv buf new_s (Suc p) (host_record s new_s p u)"
proof -
  have "unat (of_nat p :: uint16_t) = p"
    using assms(4) by (simp add: unat_of_nat_small)
  then show ?thesis
    using assms
    by (cases s; cases new_s)
      (auto simp: host_port_inv_def host_record_def field_end_def unat_inc16 less_Suc_eq
        http_parse_host_char_def split: if_splits)
qed

lemma host_loop_port:
  assumes "host_loop s p (take k (drop p buf)) u = (False, s', u')" "host_port_inv buf s p u"
    "p + k \<le> length buf" "p + k < 65536"
  shows "host_port_inv buf s' (p + k) u'"
  using assms
proof (induction k arbitrary: s p u)
  case 0
  then show ?case by simp
next
  case (Suc k)
  let ?n = "http_parse_host_char s (buf ! p)"
  have d: "take (Suc k) (drop p buf) = buf ! p # take k (drop (Suc p) buf)"
    using Suc.prems(3) by (simp add: Cons_nth_drop_Suc [symmetric])
  then have "?n \<noteq> s_http_host_dead"
    and l: "host_loop ?n (Suc p) (take k (drop (Suc p) buf)) (host_record s ?n p u) = (False, s', u')"
    using Suc.prems(1) by (auto simp: Let_def split: if_splits)
  then have "host_port_inv buf ?n (Suc p) (host_record s ?n p u)"
    using Suc.prems(2,4) by (intro host_record_port_inv) auto
  then show ?case
    using Suc.IH [OF l] Suc.prems(3,4) by simp
qed

lemma parse_host_port:
  assumes "http_parse_host buf u fa = Some (0, u')" "field_end u UF_HOST \<le> n" "n \<le> length buf" "n < 65536"
    "\<not> field_is_set u UF_PORT" "field_is_set u' UF_PORT"
  shows "take (unat (field_len u' UF_PORT)) (drop (unat (field_off u' UF_PORT)) buf) \<noteq> [] \<and>
    field_end u' UF_PORT \<le> n \<and>
    (\<forall>i. unat (field_off u' UF_PORT) \<le> i \<and> i < field_end u' UF_PORT \<longrightarrow> IS_NUM (buf ! i))"
proof -
  let ?off = "unat (field_off u UF_HOST)" and ?len = "unat (field_len u UF_HOST)"
  obtain s' where "host_loop (if fa then s_http_userinfo_start else s_http_host_start) ?off
      (take ?len (drop ?off buf)) (u\<lparr>field_len := (field_len u)(UF_HOST := 0)\<rparr>) = (False, s', u')"
    using assms(1) by (auto simp: http_parse_host_def Let_def split: prod.splits if_splits)
  then have "host_port_inv buf s' (?off + ?len) u'"
    using assms(2-5) by (intro host_loop_port) (auto simp: host_port_inv_def field_end_def split: if_splits)
  then show ?thesis
    using assms(2-6) by (auto simp: host_port_inv_def field_end_def split: if_splits)
qed

lemma IS_NUM_not_special: "IS_NUM c \<Longrightarrow> \<not> is_space c \<and> c \<noteq> CHR ''-'' \<and> c \<noteq> CHR ''+''"
  by (auto simp: IS_NUM_def is_space_def char_between_def)

lemma takeWhile_digits:
  assumes "\<forall>i. off \<le> i \<and> i < e \<longrightarrow> IS_NUM (buf ! i)" "off \<le> e" "e \<le> length buf"
    "e < length buf \<longrightarrow> \<not> IS_NUM (buf ! e)"
  shows "takeWhile IS_NUM (drop off buf) = take (e - off) (drop off buf)"
  using assms by (intro takeWhile_eq_take_P_nth) auto

lemma strtoul10_digits:
  assumes "ds \<noteq> []" "\<forall>c \<in> set ds. IS_NUM c" "takeWhile IS_NUM str = ds"
  shows "strtoul10 str = min (digits_val ds) (2 ^ 64 - 1)"
proof -
  obtain c cs where str: "str = c # cs" and "IS_NUM c"
    using assms(1,3) by (cases str) (auto split: if_splits)
  then have "dropWhile is_space str = str" "take 1 str \<noteq> ''-''" "take 1 str \<noteq> ''+''"
    using IS_NUM_not_special [of c] by auto
  then show ?thesis
    using assms(3) by (simp add: strtoul10_def Let_def min_def)
qed

section \<open>Theorems\<close>

abbreviation url_run :: "bytes \<Rightarrow> nat \<Rightarrow> bool \<Rightarrow> http_parser_url \<Rightarrow> url_result" where
  "url_run buf n is_connect u \<equiv>
     url_loop (if is_connect then s_req_server_start else s_req_spaces_before_url)
       UF_MAX False 0 (take n buf) (u\<lparr>url_port := 0, field_set := 0\<rparr>)"

abbreviation host_stage :: "bytes \<Rightarrow> http_parser_url \<Rightarrow> bool \<Rightarrow> (int \<times> http_parser_url) option" where
  "host_stage buf v fa \<equiv> (if field_is_set v UF_HOST then http_parse_host buf v fa else Some (0, v))"

lemma host_stage_total: "\<exists>r w. host_stage buf v fa = Some (r, w)"
  by (auto simp: http_parse_host_def Let_def split: prod.splits)

lemma parse_url_port_result: "\<exists>r w. parse_url_port buf u = (r, w) \<and> (r = 0 \<or> r = 1)"
  by (auto simp: parse_url_port_def Let_def)

text \<open>What a successful call went through: the automaton, the host part, the port.\<close>

lemma parse_url_success:
  assumes "http_parser_parse_url buf n is_connect u = Some (0, u')"
  obtains fa v w where "url_run buf n is_connect u = Url_ok fa v"
    "host_stage buf v fa = Some (0, w)" "parse_url_port buf w = (0, u')"
proof (cases "url_run buf n is_connect u")
  case (Url_dead v)
  then show ?thesis using assms by (simp add: http_parser_parse_url_def Let_def)
next
  case Url_assert
  then show ?thesis using assms by (simp add: http_parser_parse_url_def Let_def)
next
  case (Url_ok fa v)
  obtain r w where "host_stage buf v fa = Some (r, w)"
    using host_stage_total by blast
  then show ?thesis
    using assms Url_ok that [OF Url_ok, of w]
    by (simp add: http_parser_parse_url_def Let_def split: if_splits)
qed

text \<open>A zeroed result structure, for concrete runs.\<close>

definition url0 :: http_parser_url where
  "url0 = \<lparr>field_set = 0, url_port = 0, field_off = (\<lambda>_. 0), field_len = (\<lambda>_. 0)\<rparr>"

text \<open>
  \<^verbatim>\<open>http_parser_parse_url\<close> fails no assertion on any input: it returns 0 or 1, whatever the
  bytes, the length and the previous contents of the result structure.
\<close>

theorem parse_url_total:
  "\<exists>r u'. http_parser_parse_url buf n is_connect u = Some (r, u') \<and> (r = 0 \<or> r = 1)"
proof (cases "url_run buf n is_connect u")
  case (Url_dead v)
  then show ?thesis by (simp add: http_parser_parse_url_def Let_def)
next
  case Url_assert
  then show ?thesis using url_loop_no_assert by blast
next
  case (Url_ok fa v)
  obtain r w where "host_stage buf v fa = Some (r, w)"
    using host_stage_total by blast
  then show ?thesis
    using Url_ok parse_url_port_result [of buf w]
    by (auto simp: http_parser_parse_url_def Let_def)
qed

text \<open>
  Every field that a successful \<^verbatim>\<open>http_parser_parse_url\<close> reports lies inside the bytes it was
  given: offset plus length never passes \<^verbatim>\<open>buflen\<close>. The 16-bit fields hold any offset of a buffer
  shorter than 65536 bytes, which is the hypothesis on the length.
\<close>

theorem parse_url_fields_in_buffer:
  assumes "http_parser_parse_url buf n is_connect u = Some (0, u')" "n \<le> length buf" "n < 65536"
    and "field_is_set u' f"
  shows "unat (field_off u' f) + unat (field_len u' f) \<le> n"
proof -
  obtain fa v w where l: "url_run buf n is_connect u = Url_ok fa v"
    and h: "host_stage buf v fa = Some (0, w)" and q: "parse_url_port buf w = (0, u')"
    using assms(1) by (rule parse_url_success)
  have "\<forall>f. field_is_set v f \<longrightarrow> field_end v f \<le> n"
    using url_loop_bounds [OF l] assms(2,3) by simp
  then have "\<forall>f. field_is_set w f \<longrightarrow> field_end w f \<le> n"
    using h parse_host_bounds [of buf v fa 0 w n] url_loop_no_authority_fields [OF l] assms(2,3)
    by (auto split: if_splits)
  then show ?thesis
    using q assms(4) by (auto simp: parse_url_port_def Let_def field_end_def split: if_splits)
qed

theorem parse_url_fields_in_buffer_witness:
  "\<exists>u'. http_parser_parse_url ''/a?b'' 4 False url0 = Some (0, u') \<and> field_is_set u' UF_QUERY \<and>
     unat (field_off u' UF_QUERY) + unat (field_len u' UF_QUERY) \<le> 4"
proof -
  have "case http_parser_parse_url ''/a?b'' 4 False url0 of
      None \<Rightarrow> False | Some (r, u') \<Rightarrow> r = 0 \<and> field_is_set u' UF_QUERY"
    by code_simp
  then obtain u' where "http_parser_parse_url ''/a?b'' 4 False url0 = Some (0, u')" "field_is_set u' UF_QUERY"
    by (auto split: option.splits)
  then show ?thesis using parse_url_fields_in_buffer [of "''/a?b''" 4 False url0 u' UF_QUERY] by auto
qed

text \<open>
  The port is the number its digits denote: when parsing succeeds with a port, the port field
  is a non-empty run of digits and \<^verbatim>\<open>port\<close> is its decimal value, provided the byte after the
  field (if there is one in memory) is not a digit.
\<close>

theorem parse_url_port_value:
  assumes "http_parser_parse_url buf n is_connect u = Some (0, u')" "n \<le> length buf" "n < 65536"
    and "field_is_set u' UF_PORT"
    and "ds = take (unat (field_len u' UF_PORT)) (drop (unat (field_off u' UF_PORT)) buf)"
    and "e = unat (field_off u' UF_PORT) + unat (field_len u' UF_PORT)"
    and "e < length buf \<longrightarrow> \<not> IS_NUM (buf ! e)"
  shows "ds \<noteq> [] \<and> (\<forall>c \<in> set ds. IS_NUM c) \<and> unat (url_port u') = digits_val ds"
proof -
  obtain fa v w where l: "url_run buf n is_connect u = Url_ok fa v"
    and h: "host_stage buf v fa = Some (0, w)" and q: "parse_url_port buf w = (0, u')"
    using assms(1) by (rule parse_url_success)
  have same: "field_off u' = field_off w" "field_len u' = field_len w" "field_is_set w UF_PORT"
    using q assms(4) by (auto simp: parse_url_port_def Let_def split: if_splits)
  have noport: "\<not> field_is_set v UF_PORT"
    using url_loop_no_authority_fields [OF l] by simp
  then have "field_is_set v UF_HOST" "http_parse_host buf v fa = Some (0, w)"
    using h same(3) by (auto split: if_splits)
  moreover have "field_end v UF_HOST \<le> n"
    using url_loop_bounds [OF l] assms(2,3) calculation(1) by simp
  ultimately have p: "ds \<noteq> []" "e \<le> n" "\<forall>i. unat (field_off w UF_PORT) \<le> i \<and> i < e \<longrightarrow> IS_NUM (buf ! i)"
    using parse_host_port [OF _ _ assms(2,3) noport same(3)] same assms(5,6) by (auto simp: field_end_def)
  then have ds: "\<forall>c \<in> set ds. IS_NUM c"
    using assms(2,5,6) same by (auto simp: in_set_conv_nth)
  have "takeWhile IS_NUM (drop (unat (field_off w UF_PORT)) buf) = ds"
    using takeWhile_digits [OF p(3)] p(2) assms(2,5,6,7) same by simp
  then have "strtoul10 (drop (unat (field_off w UF_PORT)) buf) = min (digits_val ds) (2 ^ 64 - 1)"
    using p(1) ds by (intro strtoul10_digits)
  then have "unat (url_port u') = digits_val ds"
    using q same(3) by (auto simp: parse_url_port_def Let_def unat_of_nat_small min_def split: if_splits)
  with p(1) ds show ?thesis by blast
qed

theorem parse_url_port_value_witness:
  "\<exists>u'. http_parser_parse_url ''a:80/'' 4 True url0 = Some (0, u') \<and> unat (url_port u') = digits_val ''80''"
proof -
  have "case http_parser_parse_url ''a:80/'' 4 True url0 of
      None \<Rightarrow> False
    | Some (r, u') \<Rightarrow> r = 0 \<and> field_is_set u' UF_PORT \<and> field_off u' UF_PORT = 2 \<and> field_len u' UF_PORT = 2"
    by code_simp
  then obtain u' where u': "http_parser_parse_url ''a:80/'' 4 True url0 = Some (0, u')"
    "field_is_set u' UF_PORT" "field_off u' UF_PORT = 2" "field_len u' UF_PORT = 2"
    by (auto split: option.splits)
  have "''80'' = take (unat (field_len u' UF_PORT)) (drop (unat (field_off u' UF_PORT)) ''a:80/'')"
    "(4::nat) = unat (field_off u' UF_PORT) + unat (field_len u' UF_PORT)"
    by (simp_all add: u'(3,4))
  moreover have "(4::nat) \<le> length ''a:80/''" "(4::nat) < 65536" "\<not> IS_NUM (''a:80/'' ! 4)"
    by code_simp+
  ultimately have "unat (url_port u') = digits_val ''80''"
    using parse_url_port_value [OF u'(1) _ _ u'(2), of "''80''" 4] by blast
  with u'(1) show ?thesis by blast
qed

text \<open>
  The port is not determined by the bytes the caller passed: \<^verbatim>\<open>strtoul\<close> reads on past \<^verbatim>\<open>buflen\<close>
  while it sees digits. The same four bytes \<^verbatim>\<open>a:80\<close> with the same length give port 80 or port 8099,
  depending on what follows them in memory.
\<close>

theorem parse_url_port_reads_past_buflen:
  "take 4 ''a:80/'' = take 4 ''a:8099'' \<and>
   (case http_parser_parse_url ''a:80/'' 4 True url0 of Some (r, u) \<Rightarrow> r = 0 \<and> url_port u = 80 | None \<Rightarrow> False) \<and>
   (case http_parser_parse_url ''a:8099'' 4 True url0 of Some (r, u) \<Rightarrow> r = 0 \<and> url_port u = 8099 | None \<Rightarrow> False)"
  by code_simp

end
