(* ===== verification/Http_Url_Roundtrip.thy ===== *)
theory Http_Url_Roundtrip
  imports Http_Url_Props
begin

text \<open>
  Round trip of the URL parser: a URL assembled from a scheme, a host, a port and a path is
  taken apart into exactly those pieces. The proof follows the automaton over each piece,
  which it absorbs without leaving the piece's state.
\<close>

section \<open>Runs inside one field\<close>

definition add_len :: "http_parser_url_fields \<Rightarrow> nat \<Rightarrow> http_parser_url \<Rightarrow> http_parser_url" where
  "add_len f k u = u\<lparr>field_len := (field_len u)(f := field_len u f + of_nat k)\<rparr>"

lemma add_len_0 [simp]: "add_len f 0 u = u"
  by (simp add: add_len_def)

lemma add_len_inc [simp]: "add_len f k (inc_len f u) = add_len f (Suc k) u"
  by (simp add: add_len_def inc_len_def add.assoc)

lemma add_len_simps [simp]:
  "field_set (add_len f k u) = field_set u"
  "field_off (add_len f k u) = field_off u"
  "field_len (add_len f k u) = (field_len u)(f := field_len u f + of_nat k)"
  by (simp_all add: add_len_def)

lemma inc_len_run:
  assumes "\<forall>c \<in> set cs. parse_url_char s c = s" "url_field_of s = Some (Inr f)" "s \<noteq> s_dead"
    "s \<noteq> s_req_server_with_at"
  shows "url_loop s f fa p (cs @ ds) u =
    url_loop s f fa (p + length cs) ds (add_len f (length cs) u)"
  using assms
proof (induction cs arbitrary: p u)
  case Nil
  then show ?case by simp
next
  case (Cons c cs)
  then show ?case
    by (simp add: Let_def)
qed

lemma url_char_not_special:
  "IS_URL_CHAR c \<Longrightarrow> c \<noteq> CHR '' '' \<and> c \<noteq> CR \<and> c \<noteq> LF \<and> c \<noteq> CHR 0x09 \<and> c \<noteq> CHR 0x0C"
proof -
  have "\<not> IS_URL_CHAR (CHR '' '')" "\<not> IS_URL_CHAR CR" "\<not> IS_URL_CHAR LF"
    "\<not> IS_URL_CHAR (CHR 0x09)" "\<not> IS_URL_CHAR (CHR 0x0C)"
    by code_simp+
  then show "IS_URL_CHAR c \<Longrightarrow> ?thesis" by metis
qed

lemma path_stay: "IS_URL_CHAR c \<Longrightarrow> parse_url_char s_req_path c = s_req_path"
  using url_char_not_special [of c] by (simp add: parse_url_char_def)

lemma alpha_not_special:
  "IS_ALPHA c \<Longrightarrow> c \<notin> {CHR '' '', CR, LF, CHR 0x09, CHR 0x0C, CHR ''/'', CHR ''*'', CHR ''?'', CHR ''@''}"
  by (auto simp: IS_ALPHA_def char_between_def LOWER_def)

lemma num_not_special:
  "IS_NUM c \<Longrightarrow> c \<notin> {CHR '' '', CR, LF, CHR 0x09, CHR 0x0C, CHR ''/'', CHR ''*'', CHR ''?'', CHR ''@'', CHR '':'', CHR ''.'', CHR ''-''}"
  by (auto simp: IS_NUM_def char_between_def)

lemma schema_start: "IS_ALPHA c \<Longrightarrow> parse_url_char s_req_spaces_before_url c = s_req_schema"
  using alpha_not_special [of c] by (auto simp: parse_url_char_def)

lemma schema_stay: "IS_ALPHA c \<Longrightarrow> parse_url_char s_req_schema c = s_req_schema"
  using alpha_not_special [of c] by (auto simp: parse_url_char_def)

lemma server_class:
  assumes "IS_HOST_CHAR c \<or> IS_NUM c \<or> c = CHR '':''"
  shows "IS_USERINFO_CHAR c \<and> c \<notin> {CHR '' '', CR, LF, CHR 0x09, CHR 0x0C, CHR ''/'', CHR ''?'', CHR ''@''}"
  using assms alpha_not_special [of c] num_not_special [of c]
  unfolding IS_USERINFO_CHAR_def IS_HOST_CHAR_def IS_ALPHANUM_def IS_MARK_def
  by (elim disjE) simp_all

lemma server_char:
  assumes "IS_HOST_CHAR c \<or> IS_NUM c \<or> c = CHR '':''" "s = s_req_server_start \<or> s = s_req_server"
  shows "parse_url_char s c = s_req_server"
proof -
  have "IS_USERINFO_CHAR c" "c \<noteq> CHR '' ''" "c \<noteq> CR" "c \<noteq> LF" "c \<noteq> CHR 0x09" "c \<noteq> CHR 0x0C"
    "c \<noteq> CHR ''/''" "c \<noteq> CHR ''?''" "c \<noteq> CHR ''@''"
    using server_class [OF assms(1)] by simp_all
  then show ?thesis
    using assms(2) by (elim disjE) (simp_all add: parse_url_char_def parse_url_server_def)
qed

lemma server_to_path: "parse_url_char s_req_server (CHR ''/'') = s_req_path"
  by (simp add: parse_url_char_def parse_url_server_def)

lemma schema_delims:
  "parse_url_char s_req_schema (CHR '':'') = s_req_schema_slash"
  "parse_url_char s_req_schema_slash (CHR ''/'') = s_req_schema_slash_slash"
  "parse_url_char s_req_schema_slash_slash (CHR ''/'') = s_req_server_start"
  by (simp_all add: parse_url_char_def IS_ALPHA_def char_between_def LOWER_def)

section \<open>The host part\<close>

lemma host_run:
  assumes "\<forall>c \<in> set cs. IS_HOST_CHAR c"
  shows "host_loop s_http_host p (cs @ ds) u =
    host_loop s_http_host (p + length cs) ds (add_len UF_HOST (length cs) u)"
  using assms
proof (induction cs arbitrary: p u)
  case Nil
  then show ?case by simp
next
  case (Cons c cs)
  then show ?case
    by (simp add: Let_def http_parse_host_char_def host_record_def)
qed

lemma port_run:
  assumes "\<forall>c \<in> set cs. IS_NUM c"
  shows "host_loop s_http_host_port p cs u =
    (False, s_http_host_port, add_len UF_PORT (length cs) u)"
  using assms
proof (induction cs arbitrary: p u)
  case Nil
  then show ?case by simp
next
  case (Cons c cs)
  then show ?case
    by (simp add: Let_def http_parse_host_char_def host_record_def)
qed

lemma colon_not_host: "\<not> IS_HOST_CHAR (CHR '':'')"
  by (simp add: IS_HOST_CHAR_def IS_ALPHANUM_def IS_ALPHA_def IS_NUM_def char_between_def LOWER_def)

lemma host_loop_host_port:
  assumes "h \<noteq> []" "\<forall>c \<in> set h. IS_HOST_CHAR c" "ds \<noteq> []" "\<forall>c \<in> set ds. IS_NUM c"
    "field_len u UF_HOST = 0"
  shows "\<exists>u'. host_loop s_http_host_start p (h @ CHR '':'' # ds) u = (False, s_http_host_port, u') \<and>
    field_set u' = field_set u OR push_bit (uf_num UF_PORT) 1 \<and>
    field_off u' = (field_off u)(UF_HOST := of_nat p, UF_PORT := of_nat (p + length h + 1)) \<and>
    field_len u' = (field_len u)(UF_HOST := of_nat (length h), UF_PORT := of_nat (length ds))"
proof -
  obtain c cs where h: "h = c # cs" using assms(1) by (cases h) auto
  obtain d es where d: "ds = d # es" using assms(3) by (cases ds) auto
  have "c \<noteq> CHR ''[''" if "IS_HOST_CHAR c"
    using that by (auto simp: IS_HOST_CHAR_def IS_ALPHANUM_def IS_ALPHA_def IS_NUM_def char_between_def LOWER_def)
  with assms(2) h have c: "http_parse_host_char s_http_host_start c = s_http_host"
    by (auto simp: http_parse_host_char_def)
  have ch: "http_parse_host_char s_http_host (CHR '':'') = s_http_host_port_start"
    "http_parse_host_char s_http_host_port_start d = s_http_host_port"
    using colon_not_host assms(4) d by (simp_all add: http_parse_host_char_def)
  let ?u = "inc_len UF_HOST (u\<lparr>field_off := (field_off u)(UF_HOST := of_nat p)\<rparr>)"
  let ?v = "add_len UF_HOST (length cs) ?u"
  have "host_loop s_http_host_start p (h @ CHR '':'' # ds) u =
      (False, s_http_host_port, add_len UF_PORT (length es)
        (inc_len UF_PORT (mark_field UF_PORT (set_field UF_PORT (of_nat (p + length h + 1)) 0 ?v))))"
    using assms(2,4) h d c ch by (simp add: Let_def host_run port_run host_record_def)
  then show ?thesis
    using assms(5) h d by (simp add: mark_field_def set_field_def inc_len_def fun_upd_twist)
qed

section \<open>Assembling and parsing\<close>

definition build_url :: "bytes \<Rightarrow> bytes \<Rightarrow> bytes \<Rightarrow> bytes \<Rightarrow> bytes" where
  "build_url sch h ds ps = sch @ ''://'' @ h @ '':'' @ ds @ ''/'' @ ps"

lemma url_loop_build:
  assumes "sch \<noteq> []" "\<forall>c \<in> set sch. IS_ALPHA c" "h \<noteq> []" "\<forall>c \<in> set h. IS_HOST_CHAR c"
    "\<forall>c \<in> set ds. IS_NUM c" "\<forall>c \<in> set ps. IS_URL_CHAR c" "field_set u = 0"
  shows "\<exists>v. url_loop s_req_spaces_before_url UF_MAX False 0 (build_url sch h ds ps) u = Url_ok False v \<and>
    field_set v = (push_bit 0 1 OR push_bit 1 1) OR push_bit 3 1 \<and>
    field_off v = (field_off u)(UF_SCHEMA := 0, UF_HOST := of_nat (length sch + 3),
      UF_PATH := of_nat (length sch + 3 + length h + 1 + length ds)) \<and>
    field_len v = (field_len u)(UF_SCHEMA := of_nat (length sch),
      UF_HOST := of_nat (length h + 1 + length ds), UF_PATH := of_nat (Suc (length ps)))"
proof -
  obtain c cs where sch: "sch = c # cs" using assms(1) by (cases sch) auto
  obtain k ks where h: "h = k # ks" using assms(3) by (cases h) auto
  let ?a = "add_len UF_SCHEMA (length cs) (mark_field UF_SCHEMA (set_field UF_SCHEMA 0 1 u))"
  let ?n = "length sch + 3"
  let ?b = "add_len UF_HOST (length (ks @ '':'' @ ds)) (mark_field UF_HOST (set_field UF_HOST (of_nat ?n) 1 ?a))"
  let ?m = "?n + length h + 1 + length ds"
  let ?v = "add_len UF_PATH (length ps) (mark_field UF_PATH (set_field UF_PATH (of_nat ?m) 1 ?b))"
  have 1: "url_loop s_req_spaces_before_url UF_MAX False 0 (sch @ ''://'' @ xs) u =
      url_loop s_req_server_start UF_SCHEMA False ?n xs ?a" for xs
    using assms(2) sch
    by (simp add: Let_def schema_start inc_len_run [of cs s_req_schema UF_SCHEMA] schema_stay schema_delims
        numeral_3_eq_3)
  have 2: "url_loop s_req_server_start UF_SCHEMA False ?n ((k # (ks @ '':'' @ ds)) @ xs) ?a =
      url_loop s_req_server UF_HOST False ?m xs ?b" for xs
  proof -
    have "\<forall>c \<in> set (ks @ '':'' @ ds). parse_url_char s_req_server c = s_req_server"
      using assms(4,5) h server_char by auto
    from inc_len_run [OF this, of UF_HOST False "4 + length sch" xs] show ?thesis
      using assms(4) h server_char [of k s_req_server_start] by (simp add: Let_def ac_simps)
  qed
  have 3: "url_loop s_req_server UF_HOST False ?m (CHR ''/'' # ps) ?b = Url_ok False ?v"
    using assms(6) inc_len_run [of ps s_req_path UF_PATH False _ "[]"]
    by (simp add: Let_def server_to_path path_stay)
  have "url_loop s_req_spaces_before_url UF_MAX False 0 (build_url sch h ds ps) u = Url_ok False ?v"
    using 1 [of "(k # (ks @ '':'' @ ds)) @ CHR ''/'' # ps"] 2 [of "CHR ''/'' # ps"] 3 h
    by (simp add: build_url_def)
  then show ?thesis
    using assms(7) sch h
    by (simp add: mark_field_def set_field_def fun_upd_twist)
qed

lemma mem_slice:
  "take (length ys) (drop (length xs) (xs @ ys @ zs)) = ys"
  by simp

lemma build_url_suffix: "drop (length sch + 3 + length h + 1) (build_url sch h ds ps) = ds @ CHR ''/'' # ps"
proof -
  have "drop (length (sch @ ''://'' @ h @ '':'')) ((sch @ ''://'' @ h @ '':'') @ ds @ CHR ''/'' # ps) =
      ds @ CHR ''/'' # ps"
    by (rule append_eq_conv_conj [THEN iffD1, THEN conjunct2, symmetric]) simp
  then show ?thesis by (simp add: build_url_def numeral_3_eq_3)
qed

lemma slash_not_num: "\<not> IS_NUM (CHR ''/'')"
  by (simp add: IS_NUM_def char_between_def)

lemma host_stage_build:
  assumes "h \<noteq> []" "\<forall>c \<in> set h. IS_HOST_CHAR c" "ds \<noteq> []" "\<forall>c \<in> set ds. IS_NUM c"
    and "field_is_set v UF_HOST" "unat (field_off v UF_HOST) = length sch + 3"
    and "unat (field_len v UF_HOST) = length h + 1 + length ds"
  obtains w where "host_stage (build_url sch h ds ps) v False = Some (0, w)"
    "field_set w = field_set v OR push_bit (uf_num UF_PORT) 1"
    "field_off w = (field_off v)(UF_HOST := of_nat (length sch + 3), UF_PORT := of_nat (length sch + 3 + length h + 1))"
    "field_len w = (field_len v)(UF_HOST := of_nat (length h), UF_PORT := of_nat (length ds))"
proof -
  have "take (length h + 1 + length ds) (drop (length sch + 3) (build_url sch h ds ps)) = h @ CHR '':'' # ds"
    using mem_slice [of "h @ '':'' @ ds" "sch @ ''://''" "''/'' @ ps"] by (simp add: build_url_def)
  then show ?thesis
    using that host_loop_host_port [OF assms(1-4), of "v\<lparr>field_len := (field_len v)(UF_HOST := 0)\<rparr>" "length sch + 3"]
      assms(5-7) by (auto simp: http_parse_host_def Let_def host_bad_end_def)
qed

lemma port_stage_build:
  assumes "ds \<noteq> []" "\<forall>c \<in> set ds. IS_NUM c" "digits_val ds \<le> 65535"
    and "field_is_set w UF_PORT" "unat (field_off w UF_PORT) = length sch + 3 + length h + 1"
  shows "parse_url_port (build_url sch h ds ps) w = (0, w\<lparr>url_port := of_nat (digits_val ds)\<rparr>)"
proof -
  have "takeWhile IS_NUM (ds @ CHR ''/'' # ps) = ds"
    using assms(2) slash_not_num by (simp add: takeWhile_append2)
  then have "strtoul10 (drop (unat (field_off w UF_PORT)) (build_url sch h ds ps)) = digits_val ds"
    using strtoul10_digits [OF assms(1,2)] assms(3,5) by (simp only: build_url_suffix) simp
  then show ?thesis
    using assms(3,4) by (simp add: parse_url_port_def)
qed

text \<open>
  C39. Round trip: a URL assembled from an alphabetic scheme, a host name, a port of at most 65535 and
  a path parses successfully, and the parser reports exactly those pieces: their offsets and
  lengths, the numeric port, and no other field.
\<close>

theorem parse_url_roundtrip:
  assumes "sch \<noteq> []" "\<forall>c \<in> set sch. IS_ALPHA c" "h \<noteq> []" "\<forall>c \<in> set h. IS_HOST_CHAR c"
    and "ds \<noteq> []" "\<forall>c \<in> set ds. IS_NUM c" "digits_val ds \<le> 65535" "\<forall>c \<in> set ps. IS_URL_CHAR c"
    and "buf = build_url sch h ds ps" "length buf < 65536"
  shows "\<exists>u'. http_parser_parse_url buf (length buf) False u = Some (0, u') \<and>
    unat (url_port u') = digits_val ds \<and>
    (\<forall>f. field_is_set u' f \<longleftrightarrow> f \<in> {UF_SCHEMA, UF_HOST, UF_PORT, UF_PATH}) \<and>
    unat (field_off u' UF_SCHEMA) = 0 \<and> unat (field_len u' UF_SCHEMA) = length sch \<and>
    unat (field_off u' UF_HOST) = length sch + 3 \<and> unat (field_len u' UF_HOST) = length h \<and>
    unat (field_off u' UF_PORT) = length sch + 3 + length h + 1 \<and>
    unat (field_len u' UF_PORT) = length ds \<and>
    unat (field_off u' UF_PATH) = length sch + 3 + length h + 1 + length ds \<and>
    unat (field_len u' UF_PATH) = length ps + 1"
proof -
  let ?n = "length sch + 3"
  have len: "length buf = ?n + length h + 1 + length ds + 1 + length ps"
    using assms(9) by (simp add: build_url_def)
  obtain v where v: "url_run buf (length buf) False u = Url_ok False v"
    and vs: "field_set v = (push_bit 0 1 OR push_bit 1 1) OR push_bit 3 1"
    and vo: "field_off v = (field_off u)(UF_SCHEMA := 0, UF_HOST := of_nat ?n,
      UF_PATH := of_nat (?n + length h + 1 + length ds))"
    and vl: "field_len v = (field_len u)(UF_SCHEMA := of_nat (length sch),
      UF_HOST := of_nat (length h + 1 + length ds), UF_PATH := of_nat (Suc (length ps)))"
    using url_loop_build [OF assms(1-4,6,8), of "u\<lparr>url_port := 0, field_set := 0\<rparr>"] assms(9)
    by auto
  have set_v: "field_is_set v f \<longleftrightarrow> f \<in> {UF_SCHEMA, UF_HOST, UF_PATH}" for f
    using vs by (cases f) (simp_all add: field_is_set_bit bit_simps)
  have off: "unat (field_off v UF_HOST) = ?n" "unat (field_len v UF_HOST) = length h + 1 + length ds"
    using vo vl len assms(10) by (simp_all add: unat_of_nat_small del: of_nat_add of_nat_Suc)
  obtain w where w: "host_stage buf v False = Some (0, w)"
    and ws: "field_set w = field_set v OR push_bit (uf_num UF_PORT) 1"
    and wo: "field_off w = (field_off v)(UF_HOST := of_nat ?n, UF_PORT := of_nat (?n + length h + 1))"
    and wl: "field_len w = (field_len v)(UF_HOST := of_nat (length h), UF_PORT := of_nat (length ds))"
    using host_stage_build [OF assms(3-6), of v sch ps] set_v off assms(9) by auto
  have set_w: "field_is_set w f \<longleftrightarrow> f \<in> {UF_SCHEMA, UF_HOST, UF_PORT, UF_PATH}" for f
    using ws vs by (cases f) (simp_all add: field_is_set_bit bit_simps)
  have "unat (field_off w UF_PORT) = ?n + length h + 1"
    using wo len assms(10) by (simp add: unat_of_nat_small del: of_nat_add of_nat_Suc)
  then have "parse_url_port buf w = (0, w\<lparr>url_port := of_nat (digits_val ds)\<rparr>)"
    using port_stage_build [OF assms(5-7)] set_w assms(9) by simp
  then have "http_parser_parse_url buf (length buf) False u = Some (0, w\<lparr>url_port := of_nat (digits_val ds)\<rparr>)"
    using v w set_v by (simp add: http_parser_parse_url_def Let_def)
  then show ?thesis
    using set_w wo wl vo vl len assms(7,10)
    by (simp add: unat_of_nat_small del: of_nat_add of_nat_Suc)
qed

theorem parse_url_roundtrip_witness:
  "\<exists>u'. http_parser_parse_url (build_url ''http'' ''a.b'' ''80'' ''x'') 15 False url0 = Some (0, u') \<and> unat (url_port u') = 80"
proof -
  have "\<forall>c \<in> set ''http''. IS_ALPHA c" "\<forall>c \<in> set ''a.b''. IS_HOST_CHAR c" "\<forall>c \<in> set ''80''. IS_NUM c"
    "digits_val ''80'' = 80" "\<forall>c \<in> set ''x''. IS_URL_CHAR c"
    "length (build_url ''http'' ''a.b'' ''80'' ''x'') = 15"
    by code_simp+
  then show ?thesis
    using parse_url_roundtrip [of "''http''" "''a.b''" "''80''" "''x''" "build_url ''http'' ''a.b'' ''80'' ''x''" url0] by auto
qed

end
