(* ===== verification/Http_Exec_Base.thy ===== *)
theory Http_Exec_Base
  imports Http_Url
begin

text \<open>
  The incremental parser \<^verbatim>\<open>http_parser_execute\<close> of \<^verbatim>\<open>src/net/http/http_parser.c\<close>:
  its local state, the outcomes of one pass through the switch, and the macros. The cases of
  the switch are in \<open>Http_Exec_Line\<close>, \<open>Http_Exec_Header\<close> and \<open>Http_Exec_Body\<close>, the loop in
  \<open>Http_Execute\<close>.

  The local variables of the C function are the record \<open>exec\<close>: the parser structure, the
  cached state \<^verbatim>\<open>p_state\<close>, the read position \<^verbatim>\<open>p\<close> as an offset from \<^verbatim>\<open>data\<close>, the byte
  \<^verbatim>\<open>ch\<close>, and the five marks (a mark is the offset it points to, \<open>None\<close> is the null
  pointer). One execution of the switch is a step; how it ends is an \<open>outcome\<close>:
  \<^item> \<open>Next\<close>: \<^verbatim>\<open>break\<close>, the loop advances \<^verbatim>\<open>p\<close>;
  \<^item> \<open>Reexecute\<close>: \<^verbatim>\<open>goto reexecute\<close>, the switch runs again on the same byte;
  \<^item> \<open>Error\<close>: \<^verbatim>\<open>goto error\<close>;
  \<^item> \<open>Return\<close>: a \<^verbatim>\<open>return\<close> or \<^verbatim>\<open>RETURN\<close>, with the parser and the value returned;
  \<^item> \<open>Fault\<close>: a failed \<^verbatim>\<open>assert\<close>, or a read past the end of a string constant
    or of the input;
  \<^item> \<open>Out_of_fuel\<close>: more reexecutions on one byte than the fuel allows.
  The macros that contain a \<^verbatim>\<open>return\<close> or a \<^verbatim>\<open>goto\<close> take the rest of the case as a
  continuation. There is one definition per case of the switch, or per run of cases with the
  same body.

  A callback is an arbitrary function on the parser, so it can rewrite \<^verbatim>\<open>parser->state\<close>
  and keep \<^verbatim>\<open>goto reexecute\<close> going forever. The chain of reexecutions on one byte therefore
  has fuel; \<open>reexec_fuel\<close> exceeds the longest chain of the parser itself, which
  \<open>Http_Safety\<close> proves enough for callbacks that leave the private fields alone.
\<close>

section \<open>Local state and outcomes\<close>

datatype data_cb = cb_header_field | cb_header_value | cb_url | cb_body | cb_status
datatype notify_cb = cb_message_begin | cb_message_complete | cb_chunk_header | cb_chunk_complete

record 'd exec =
  parser :: "'d http_parser"
  p_state :: state
  pos :: nat
  ch :: char
  marks :: "data_cb \<Rightarrow> nat option"

datatype 'd outcome =
    Next "'d exec"
  | Reexecute "'d exec"
  | Error "'d exec"
  | Return "'d http_parser" nat
  | Fault
  | Out_of_fuel

section \<open>The macros\<close>

definition upd_parser :: "('d http_parser \<Rightarrow> 'd http_parser) \<Rightarrow> 'd exec \<Rightarrow> 'd exec" where
  "upd_parser f e = e\<lparr>parser := f (parser e)\<rparr>"

definition UPDATE_STATE :: "state \<Rightarrow> 'd exec \<Rightarrow> 'd exec" where
  "UPDATE_STATE v e = e\<lparr>p_state := v\<rparr>"

definition SET_ERRNO :: "http_errno \<Rightarrow> 'd exec \<Rightarrow> 'd exec" where
  "SET_ERRNO v e = upd_parser (\<lambda>q. q\<lparr>hp_errno := v\<rparr>) e"

definition set_header_state :: "header_states \<Rightarrow> 'd exec \<Rightarrow> 'd exec" where
  "set_header_state h e = upd_parser (\<lambda>q. q\<lparr>hp_header_state := h\<rparr>) e"

definition set_index :: "8 word \<Rightarrow> 'd exec \<Rightarrow> 'd exec" where
  "set_index i e = upd_parser (\<lambda>q. q\<lparr>hp_index := i\<rparr>) e"

definition or_flags :: "7 word \<Rightarrow> 'd exec \<Rightarrow> 'd exec" where
  "or_flags f e = upd_parser (\<lambda>q. q\<lparr>hp_flags := hp_flags q OR f\<rparr>) e"

text \<open>\<^verbatim>\<open>SET_ERRNO(v); goto error;\<close>\<close>

definition error_with :: "http_errno \<Rightarrow> 'd exec \<Rightarrow> 'd outcome" where
  "error_with v e = Error (SET_ERRNO v e)"

definition STRICT_CHECK :: "bool \<Rightarrow> 'd exec \<Rightarrow> 'd outcome \<Rightarrow> 'd outcome" where
  "STRICT_CHECK cond e k = (if cond then error_with HPE_STRICT e else k)"

definition c_assert :: "bool \<Rightarrow> 'd outcome \<Rightarrow> 'd outcome" where
  "c_assert cond k = (if cond then k else Fault)"

text \<open>\<^verbatim>\<open>s[i]\<close> for a string constant: the byte after the last is the terminating zero.\<close>

definition c_str_at :: "string \<Rightarrow> nat \<Rightarrow> char option" where
  "c_str_at s i = (if i < length s then Some (s ! i) else if i = length s then Some (CHR 0x00) else None)"

definition RETURN :: "nat \<Rightarrow> 'd exec \<Rightarrow> 'd outcome" where
  "RETURN v e = Return ((parser e)\<lparr>hp_state := p_state e\<rparr>) v"

definition on_notify :: "'d http_parser_settings \<Rightarrow> notify_cb \<Rightarrow> 'd http_cb option" where
  "on_notify settings k =
     (case k of
        cb_message_begin \<Rightarrow> on_message_begin settings
      | cb_message_complete \<Rightarrow> on_message_complete settings
      | cb_chunk_header \<Rightarrow> on_chunk_header settings
      | cb_chunk_complete \<Rightarrow> on_chunk_complete settings)"

definition notify_errno :: "notify_cb \<Rightarrow> http_errno" where
  "notify_errno k =
     (case k of
        cb_message_begin \<Rightarrow> HPE_CB_message_begin
      | cb_message_complete \<Rightarrow> HPE_CB_message_complete
      | cb_chunk_header \<Rightarrow> HPE_CB_chunk_header
      | cb_chunk_complete \<Rightarrow> HPE_CB_chunk_complete)"

definition on_data :: "'d http_parser_settings \<Rightarrow> data_cb \<Rightarrow> 'd http_data_cb option" where
  "on_data settings k =
     (case k of
        cb_header_field \<Rightarrow> on_header_field settings
      | cb_header_value \<Rightarrow> on_header_value settings
      | cb_url \<Rightarrow> on_url settings
      | cb_body \<Rightarrow> on_body settings
      | cb_status \<Rightarrow> on_status settings)"

definition data_errno :: "data_cb \<Rightarrow> http_errno" where
  "data_errno k =
     (case k of
        cb_header_field \<Rightarrow> HPE_CB_header_field
      | cb_header_value \<Rightarrow> HPE_CB_header_value
      | cb_url \<Rightarrow> HPE_CB_url
      | cb_body \<Rightarrow> HPE_CB_body
      | cb_status \<Rightarrow> HPE_CB_status)"

text \<open>
  The part the two callback macros share: store the state, call, record a non-zero result,
  reload the state, and leave with \<open>er\<close> when the parser is no longer in order.
\<close>

definition after_callback ::
  "'d http_parser \<times> int \<Rightarrow> http_errno \<Rightarrow> nat \<Rightarrow> 'd exec \<Rightarrow> ('d exec \<Rightarrow> 'd outcome) \<Rightarrow> 'd outcome" where
  "after_callback res errno er e k =
     (let q = (if snd res \<noteq> 0 then (fst res)\<lparr>hp_errno := errno\<rparr> else fst res)
      in if hp_errno q \<noteq> HPE_OK then Return q er
         else k (e\<lparr>parser := q, p_state := hp_state q\<rparr>))"

definition CALLBACK_NOTIFY_er ::
  "'d http_parser_settings \<Rightarrow> notify_cb \<Rightarrow> nat \<Rightarrow> 'd exec \<Rightarrow> ('d exec \<Rightarrow> 'd outcome) \<Rightarrow> 'd outcome" where
  "CALLBACK_NOTIFY_er settings FOR er e k =
     c_assert (hp_errno (parser e) = HPE_OK)
       (case on_notify settings FOR of
          None \<Rightarrow> k e
        | Some f \<Rightarrow> after_callback (f ((parser e)\<lparr>hp_state := p_state e\<rparr>)) (notify_errno FOR) er e k)"

definition CALLBACK_NOTIFY ::
  "'d http_parser_settings \<Rightarrow> notify_cb \<Rightarrow> 'd exec \<Rightarrow> ('d exec \<Rightarrow> 'd outcome) \<Rightarrow> 'd outcome" where
  "CALLBACK_NOTIFY settings FOR e k = CALLBACK_NOTIFY_er settings FOR (pos e + 1) e k"

definition CALLBACK_NOTIFY_NOADVANCE ::
  "'d http_parser_settings \<Rightarrow> notify_cb \<Rightarrow> 'd exec \<Rightarrow> ('d exec \<Rightarrow> 'd outcome) \<Rightarrow> 'd outcome" where
  "CALLBACK_NOTIFY_NOADVANCE settings FOR e k = CALLBACK_NOTIFY_er settings FOR (pos e) e k"

text \<open>\<open>stop\<close> is the offset where the data ends: the length passed is \<open>stop\<close> minus the mark.\<close>

definition CALLBACK_DATA_er ::
  "'d http_parser_settings \<Rightarrow> bytes \<Rightarrow> data_cb \<Rightarrow> nat \<Rightarrow> nat \<Rightarrow> 'd exec \<Rightarrow> ('d exec \<Rightarrow> 'd outcome) \<Rightarrow> 'd outcome" where
  "CALLBACK_DATA_er settings data FOR stop er e k =
     c_assert (hp_errno (parser e) = HPE_OK)
       (case marks e FOR of
          None \<Rightarrow> k e
        | Some m \<Rightarrow>
            (case on_data settings FOR of
               None \<Rightarrow> k (e\<lparr>marks := (marks e)(FOR := None)\<rparr>)
             | Some f \<Rightarrow>
                 after_callback (f ((parser e)\<lparr>hp_state := p_state e\<rparr>) (take (stop - m) (drop m data)))
                   (data_errno FOR) er e (\<lambda>e. k (e\<lparr>marks := (marks e)(FOR := None)\<rparr>))))"

definition CALLBACK_DATA ::
  "'d http_parser_settings \<Rightarrow> bytes \<Rightarrow> data_cb \<Rightarrow> 'd exec \<Rightarrow> ('d exec \<Rightarrow> 'd outcome) \<Rightarrow> 'd outcome" where
  "CALLBACK_DATA settings data FOR e k = CALLBACK_DATA_er settings data FOR (pos e) (pos e + 1) e k"

definition CALLBACK_DATA_NOADVANCE ::
  "'d http_parser_settings \<Rightarrow> bytes \<Rightarrow> data_cb \<Rightarrow> 'd exec \<Rightarrow> ('d exec \<Rightarrow> 'd outcome) \<Rightarrow> 'd outcome" where
  "CALLBACK_DATA_NOADVANCE settings data FOR e k = CALLBACK_DATA_er settings data FOR (pos e) (pos e) e k"

definition MARK :: "data_cb \<Rightarrow> 'd exec \<Rightarrow> 'd exec" where
  "MARK FOR e = (case marks e FOR of None \<Rightarrow> e\<lparr>marks := (marks e)(FOR := Some (pos e))\<rparr> | Some _ \<Rightarrow> e)"

definition COUNT_HEADER_SIZE :: "nat \<Rightarrow> 'd exec \<Rightarrow> ('d exec \<Rightarrow> 'd outcome) \<Rightarrow> 'd outcome" where
  "COUNT_HEADER_SIZE v e k =
     (let e = upd_parser (\<lambda>q. q\<lparr>hp_nread := hp_nread q + of_nat v\<rparr>) e in
      if hp_nread (parser e) > of_nat HTTP_MAX_HEADER_SIZE then error_with HPE_HEADER_OVERFLOW e
      else k e)"

definition start_state :: "'d http_parser \<Rightarrow> state" where
  "start_state q = (if hp_type q = HTTP_REQUEST then s_start_req else s_start_res)"

definition NEW_MESSAGE :: "'d http_parser \<Rightarrow> state" where
  "NEW_MESSAGE q = (if http_should_keep_alive q then start_state q else s_dead)"

text \<open>\<^verbatim>\<open>PARSING_HEADER(state)\<close>: the states up to \<^verbatim>\<open>s_headers_done\<close> in the enumeration.\<close>

definition PARSING_HEADER :: "state \<Rightarrow> bool" where
  "PARSING_HEADER s \<longleftrightarrow> s \<notin> {s_chunk_data, s_chunk_data_almost_done, s_chunk_data_done,
     s_body_identity, s_body_identity_eof, s_message_done}"

section \<open>Predicates on outcomes\<close>

text \<open>
  \<open>outcome_wp N R E T F out\<close>: the predicate that belongs to the way \<open>out\<close> ends holds of it.
  The lemmas push it through the macros, so that a case of the switch is verified by rewriting.
\<close>

fun outcome_wp ::
  "('d exec \<Rightarrow> bool) \<Rightarrow> ('d exec \<Rightarrow> bool) \<Rightarrow> ('d exec \<Rightarrow> bool) \<Rightarrow> ('d http_parser \<Rightarrow> nat \<Rightarrow> bool) \<Rightarrow>
   bool \<Rightarrow> 'd outcome \<Rightarrow> bool" where
  "outcome_wp N R E T F (Next e) = N e"
| "outcome_wp N R E T F (Reexecute e) = R e"
| "outcome_wp N R E T F (Error e) = E e"
| "outcome_wp N R E T F (Return q n) = T q n"
| "outcome_wp N R E T F Fault = F"
| "outcome_wp N R E T F Out_of_fuel = F"

lemma wp_assert [wp_simps]:
  "outcome_wp N R E T F (c_assert b k) = (if b then outcome_wp N R E T F k else F)"
  by (simp add: c_assert_def)

lemma wp_error_with [wp_simps]: "outcome_wp N R E T F (error_with v e) = E (SET_ERRNO v e)"
  by (simp add: error_with_def)

lemma wp_STRICT_CHECK [wp_simps]:
  "outcome_wp N R E T F (STRICT_CHECK b e k) =
     (if b then E (SET_ERRNO HPE_STRICT e) else outcome_wp N R E T F k)"
  by (simp add: STRICT_CHECK_def wp_simps)

lemma wp_RETURN [wp_simps]:
  "outcome_wp N R E T F (RETURN v e) = T ((parser e)\<lparr>hp_state := p_state e\<rparr>) v"
  by (simp add: RETURN_def)

definition count_nread :: "nat \<Rightarrow> 'd exec \<Rightarrow> 'd exec" where
  "count_nread v e = upd_parser (\<lambda>q. q\<lparr>hp_nread := hp_nread q + of_nat v\<rparr>) e"

lemma wp_COUNT_HEADER_SIZE [wp_simps]:
  "outcome_wp N R E T F (COUNT_HEADER_SIZE v e k) =
     (if hp_nread (parser (count_nread v e)) > of_nat HTTP_MAX_HEADER_SIZE
      then E (SET_ERRNO HPE_HEADER_OVERFLOW (count_nread v e))
      else outcome_wp N R E T F (k (count_nread v e)))"
  by (simp add: COUNT_HEADER_SIZE_def Let_def wp_simps count_nread_def)

section \<open>What the assignments change\<close>

lemma exec_fields [simp]:
  "pos (UPDATE_STATE v e) = pos e" "ch (UPDATE_STATE v e) = ch e"
  "marks (UPDATE_STATE v e) = marks e" "parser (UPDATE_STATE v e) = parser e"
  "p_state (UPDATE_STATE v e) = v"
  "pos (upd_parser f e) = pos e" "ch (upd_parser f e) = ch e"
  "marks (upd_parser f e) = marks e" "parser (upd_parser f e) = f (parser e)"
  "p_state (upd_parser f e) = p_state e"
  by (simp_all add: UPDATE_STATE_def upd_parser_def)

lemma MARK_fields [simp]:
  "pos (MARK k e) = pos e" "ch (MARK k e) = ch e" "parser (MARK k e) = parser e"
  "p_state (MARK k e) = p_state e"
  by (simp_all add: MARK_def split: option.split)

lemma marks_MARK: "marks (MARK k e) j = (if j = k \<and> marks e k = None then Some (pos e) else marks e j)"
  by (auto simp: MARK_def split: option.split)

lemmas upd_defs [simp] = SET_ERRNO_def set_header_state_def set_index_def or_flags_def count_nread_def

end
