(* ===== verification/Http_Exec_Line.thy ===== *)
theory Http_Exec_Line
  imports Http_Exec_Base
begin

text \<open>
  The cases of the switch in \<^verbatim>\<open>http_parser_execute\<close> that read the status line of a response
  and the request line of a request (\<^verbatim>\<open>s_dead\<close> to \<^verbatim>\<open>s_req_line_almost_done\<close>). Each
  definition is one case, or one run of cases with a common body, and is named after the state.
\<close>

section \<open>Start of a message\<close>

definition exec_dead :: "'d exec \<Rightarrow> 'd outcome" where
  "exec_dead e = (if ch e = CR \<or> ch e = LF then Next e else error_with HPE_CLOSED_CONNECTION e)"

text \<open>\<^verbatim>\<open>parser->flags = 0; parser->content_length = ULLONG_MAX;\<close>\<close>

definition reset_message :: "'d exec \<Rightarrow> 'd exec" where
  "reset_message e = upd_parser (\<lambda>q. q\<lparr>hp_flags := 0, hp_content_length := ULLONG_MAX\<rparr>) e"

definition exec_start_req_or_res :: "'d http_parser_settings \<Rightarrow> 'd exec \<Rightarrow> 'd outcome" where
  "exec_start_req_or_res settings e =
     (if ch e = CR \<or> ch e = LF then Next e
      else
        let e = reset_message e in
        if ch e = CHR ''H'' then
          CALLBACK_NOTIFY settings cb_message_begin (UPDATE_STATE s_res_or_resp_H e) Next
        else
          Reexecute (UPDATE_STATE s_start_req (upd_parser (\<lambda>q. q\<lparr>hp_type := HTTP_REQUEST\<rparr>) e)))"

definition exec_res_or_resp_H :: "'d exec \<Rightarrow> 'd outcome" where
  "exec_res_or_resp_H e =
     (if ch e = CHR ''T'' then
        Next (UPDATE_STATE s_res_HT (upd_parser (\<lambda>q. q\<lparr>hp_type := HTTP_RESPONSE\<rparr>) e))
      else if ch e \<noteq> CHR ''E'' then error_with HPE_INVALID_CONSTANT e
      else
        Next (UPDATE_STATE s_req_method
          (upd_parser (\<lambda>q. q\<lparr>hp_type := HTTP_REQUEST, hp_method := HTTP_HEAD, hp_index := 2\<rparr>) e)))"

section \<open>The status line\<close>

definition exec_start_res :: "'d http_parser_settings \<Rightarrow> 'd exec \<Rightarrow> 'd outcome" where
  "exec_start_res settings e =
     (let e = reset_message e in
      if ch e = CHR ''H'' then CALLBACK_NOTIFY settings cb_message_begin (UPDATE_STATE s_res_H e) Next
      else if ch e = CR \<or> ch e = LF then CALLBACK_NOTIFY settings cb_message_begin e Next
      else error_with HPE_INVALID_CONSTANT e)"

text \<open>
  The letters of \<^verbatim>\<open>HTTP/\<close> in both lines: \<^verbatim>\<open>STRICT_CHECK(ch != want); UPDATE_STATE(next);\<close>,
  which also is the body of the cases that wait for a line feed.
\<close>

definition exec_expect :: "char \<Rightarrow> state \<Rightarrow> 'd exec \<Rightarrow> 'd outcome" where
  "exec_expect want nxt e = STRICT_CHECK (ch e \<noteq> want) e (Next (UPDATE_STATE nxt e))"

definition set_major :: "uint16_t \<Rightarrow> 'd exec \<Rightarrow> 'd exec" where
  "set_major v e = upd_parser (\<lambda>q. q\<lparr>hp_http_major := v\<rparr>) e"

definition set_minor :: "uint16_t \<Rightarrow> 'd exec \<Rightarrow> 'd exec" where
  "set_minor v e = upd_parser (\<lambda>q. q\<lparr>hp_http_minor := v\<rparr>) e"

definition set_status_code :: "uint16_t \<Rightarrow> 'd exec \<Rightarrow> 'd exec" where
  "set_status_code v e = upd_parser (\<lambda>q. q\<lparr>hp_status_code := v\<rparr>) e"

text \<open>\<^verbatim>\<open>x *= 10; x += ch - '0';\<close> on an \<^verbatim>\<open>unsigned short\<close>.\<close>

definition push_digit16 :: "uint16_t \<Rightarrow> char \<Rightarrow> uint16_t" where
  "push_digit16 x c = x * 10 + of_nat (digit_val c)"

definition exec_res_first_http_major :: "'d exec \<Rightarrow> 'd outcome" where
  "exec_res_first_http_major e =
     (if \<not> char_between (CHR ''0'') (CHR ''9'') (ch e) then error_with HPE_INVALID_VERSION e
      else Next (UPDATE_STATE s_res_http_major (set_major (of_nat (digit_val (ch e))) e)))"

text \<open>The next digits of a version number: the same code for requests and responses.\<close>

definition more_major :: "'d exec \<Rightarrow> 'd outcome" where
  "more_major e =
     (if \<not> IS_NUM (ch e) then error_with HPE_INVALID_VERSION e
      else
        let e = set_major (push_digit16 (hp_http_major (parser e)) (ch e)) e in
        if hp_http_major (parser e) > 999 then error_with HPE_INVALID_VERSION e else Next e)"

definition more_minor :: "'d exec \<Rightarrow> 'd outcome" where
  "more_minor e =
     (if \<not> IS_NUM (ch e) then error_with HPE_INVALID_VERSION e
      else
        let e = set_minor (push_digit16 (hp_http_minor (parser e)) (ch e)) e in
        if hp_http_minor (parser e) > 999 then error_with HPE_INVALID_VERSION e else Next e)"

definition exec_res_http_major :: "'d exec \<Rightarrow> 'd outcome" where
  "exec_res_http_major e =
     (if ch e = CHR ''.'' then Next (UPDATE_STATE s_res_first_http_minor e) else more_major e)"

definition exec_res_first_http_minor :: "'d exec \<Rightarrow> 'd outcome" where
  "exec_res_first_http_minor e =
     (if \<not> IS_NUM (ch e) then error_with HPE_INVALID_VERSION e
      else Next (UPDATE_STATE s_res_http_minor (set_minor (of_nat (digit_val (ch e))) e)))"

definition exec_res_http_minor :: "'d exec \<Rightarrow> 'd outcome" where
  "exec_res_http_minor e =
     (if ch e = CHR '' '' then Next (UPDATE_STATE s_res_first_status_code e) else more_minor e)"

definition exec_res_first_status_code :: "'d exec \<Rightarrow> 'd outcome" where
  "exec_res_first_status_code e =
     (if \<not> IS_NUM (ch e) then
        (if ch e = CHR '' '' then Next e else error_with HPE_INVALID_STATUS e)
      else Next (UPDATE_STATE s_res_status_code (set_status_code (of_nat (digit_val (ch e))) e)))"

definition exec_res_status_code :: "'d exec \<Rightarrow> 'd outcome" where
  "exec_res_status_code e =
     (if \<not> IS_NUM (ch e) then
        (if ch e = CHR '' '' then Next (UPDATE_STATE s_res_status_start e)
         else if ch e = CR then Next (UPDATE_STATE s_res_line_almost_done e)
         else if ch e = LF then Next (UPDATE_STATE s_header_field_start e)
         else error_with HPE_INVALID_STATUS e)
      else
        let e = set_status_code (push_digit16 (hp_status_code (parser e)) (ch e)) e in
        if hp_status_code (parser e) > 999 then error_with HPE_INVALID_STATUS e else Next e)"

definition exec_res_status_start :: "'d exec \<Rightarrow> 'd outcome" where
  "exec_res_status_start e =
     (if ch e = CR then Next (UPDATE_STATE s_res_line_almost_done e)
      else if ch e = LF then Next (UPDATE_STATE s_header_field_start e)
      else Next (set_index 0 (UPDATE_STATE s_res_status (MARK cb_status e))))"

definition exec_res_status :: "'d http_parser_settings \<Rightarrow> bytes \<Rightarrow> 'd exec \<Rightarrow> 'd outcome" where
  "exec_res_status settings data e =
     (if ch e = CR then
        CALLBACK_DATA settings data cb_status (UPDATE_STATE s_res_line_almost_done e) Next
      else if ch e = LF then
        CALLBACK_DATA settings data cb_status (UPDATE_STATE s_header_field_start e) Next
      else Next e)"

section \<open>The request line\<close>

text \<open>The first letter of a method; \<open>None\<close> is the \<^verbatim>\<open>default\<close> branch.\<close>

definition method_of_first :: "char \<Rightarrow> http_method option" where
  "method_of_first c =
     (if c = CHR ''A'' then Some HTTP_ACL
      else if c = CHR ''B'' then Some HTTP_BIND
      else if c = CHR ''C'' then Some HTTP_CONNECT
      else if c = CHR ''D'' then Some HTTP_DELETE
      else if c = CHR ''G'' then Some HTTP_GET
      else if c = CHR ''H'' then Some HTTP_HEAD
      else if c = CHR ''L'' then Some HTTP_LOCK
      else if c = CHR ''M'' then Some HTTP_MKCOL
      else if c = CHR ''N'' then Some HTTP_NOTIFY
      else if c = CHR ''O'' then Some HTTP_OPTIONS
      else if c = CHR ''P'' then Some HTTP_POST
      else if c = CHR ''R'' then Some HTTP_REPORT
      else if c = CHR ''S'' then Some HTTP_SUBSCRIBE
      else if c = CHR ''T'' then Some HTTP_TRACE
      else if c = CHR ''U'' then Some HTTP_UNLOCK
      else None)"

definition exec_start_req :: "'d http_parser_settings \<Rightarrow> 'd exec \<Rightarrow> 'd outcome" where
  "exec_start_req settings e =
     (if ch e = CR \<or> ch e = LF then Next e
      else
        let e = reset_message e in
        if \<not> IS_ALPHA (ch e) then error_with HPE_INVALID_METHOD e
        else
          let e = upd_parser (\<lambda>q. q\<lparr>hp_method := HTTP_DELETE, hp_index := 1\<rparr>) e in
          case method_of_first (ch e) of
            None \<Rightarrow> error_with HPE_INVALID_METHOD e
          | Some m \<Rightarrow>
              CALLBACK_NOTIFY settings cb_message_begin
                (UPDATE_STATE s_req_method (upd_parser (\<lambda>q. q\<lparr>hp_method := m\<rparr>) e)) Next)"

text \<open>
  The chain of \<^verbatim>\<open>else if\<close> in \<^verbatim>\<open>s_req_method\<close> that replaces the method tentatively chosen so
  far by another with the same beginning; \<open>None\<close> is \<^verbatim>\<open>HPE_INVALID_METHOD\<close>.
\<close>

definition method_switch :: "http_method \<Rightarrow> nat \<Rightarrow> char \<Rightarrow> http_method option" where
  "method_switch m i c =
     (if m = HTTP_CONNECT then
        (if i = 1 \<and> c = CHR ''H'' then Some HTTP_CHECKOUT
         else if i = 2 \<and> c = CHR ''P'' then Some HTTP_COPY
         else None)
      else if m = HTTP_MKCOL then
        (if i = 1 \<and> c = CHR ''O'' then Some HTTP_MOVE
         else if i = 1 \<and> c = CHR ''E'' then Some HTTP_MERGE
         else if i = 1 \<and> c = CHR ''-'' then Some HTTP_MSEARCH
         else if i = 2 \<and> c = CHR ''A'' then Some HTTP_MKACTIVITY
         else if i = 3 \<and> c = CHR ''A'' then Some HTTP_MKCALENDAR
         else None)
      else if m = HTTP_SUBSCRIBE then
        (if i = 1 \<and> c = CHR ''E'' then Some HTTP_SEARCH else None)
      else if m = HTTP_REPORT then
        (if i = 2 \<and> c = CHR ''B'' then Some HTTP_REBIND else None)
      else if i = 1 \<and> m = HTTP_POST then
        (if c = CHR ''R'' then Some HTTP_PROPFIND
         else if c = CHR ''U'' then Some HTTP_PUT
         else if c = CHR ''A'' then Some HTTP_PATCH
         else None)
      else if i = 2 then
        (if m = HTTP_PUT then (if c = CHR ''R'' then Some HTTP_PURGE else None)
         else if m = HTTP_UNLOCK then
           (if c = CHR ''S'' then Some HTTP_UNSUBSCRIBE
            else if c = CHR ''B'' then Some HTTP_UNBIND
            else None)
         else None)
      else if i = 4 \<and> m = HTTP_PROPFIND \<and> c = CHR ''P'' then Some HTTP_PROPPATCH
      else None)"

definition incr_index :: "'d exec \<Rightarrow> 'd exec" where
  "incr_index e = upd_parser (\<lambda>q. q\<lparr>hp_index := hp_index q + 1\<rparr>) e"

definition exec_req_method :: "'d exec \<Rightarrow> 'd outcome" where
  "exec_req_method e =
     (if ch e = CHR 0x00 then error_with HPE_INVALID_METHOD e
      else
        let m = hp_method (parser e); i = unat (hp_index (parser e)) in
        case c_str_at (method_strings m) i of
          None \<Rightarrow> Fault
        | Some want \<Rightarrow>
            if ch e = CHR '' '' \<and> want = CHR 0x00 then
              Next (incr_index (UPDATE_STATE s_req_spaces_before_url e))
            else if ch e = want then Next (incr_index e)
            else
              (case method_switch m i (ch e) of
                 None \<Rightarrow> error_with HPE_INVALID_METHOD e
               | Some m' \<Rightarrow> Next (incr_index (upd_parser (\<lambda>q. q\<lparr>hp_method := m'\<rparr>) e))))"

text \<open>\<^verbatim>\<open>UPDATE_STATE(parse_url_char(CURRENT_STATE(), ch))\<close> and the check for \<^verbatim>\<open>s_dead\<close>.\<close>

definition exec_url_char :: "'d exec \<Rightarrow> 'd outcome" where
  "exec_url_char e =
     (let e = UPDATE_STATE (parse_url_char (p_state e) (ch e)) e in
      if p_state e = s_dead then error_with HPE_INVALID_URL e else Next e)"

definition exec_req_spaces_before_url :: "'d exec \<Rightarrow> 'd outcome" where
  "exec_req_spaces_before_url e =
     (if ch e = CHR '' '' then Next e
      else
        let e = MARK cb_url e;
            e = (if hp_method (parser e) = HTTP_CONNECT then UPDATE_STATE s_req_server_start e else e)
        in exec_url_char e)"

definition exec_req_schema :: "'d exec \<Rightarrow> 'd outcome" where
  "exec_req_schema e =
     (if ch e = CHR '' '' \<or> ch e = CR \<or> ch e = LF then error_with HPE_INVALID_URL e
      else exec_url_char e)"

definition exec_req_url :: "'d http_parser_settings \<Rightarrow> bytes \<Rightarrow> 'd exec \<Rightarrow> 'd outcome" where
  "exec_req_url settings data e =
     (if ch e = CHR '' '' then CALLBACK_DATA settings data cb_url (UPDATE_STATE s_req_http_start e) Next
      else if ch e = CR \<or> ch e = LF then
        CALLBACK_DATA settings data cb_url
          (UPDATE_STATE (if ch e = CR then s_req_line_almost_done else s_header_field_start)
            (set_minor 9 (set_major 0 e))) Next
      else exec_url_char e)"

definition exec_req_http_start :: "'d exec \<Rightarrow> 'd outcome" where
  "exec_req_http_start e =
     (if ch e = CHR ''H'' then Next (UPDATE_STATE s_req_http_H e)
      else if ch e = CHR '' '' then Next e
      else error_with HPE_INVALID_CONSTANT e)"

definition exec_req_first_http_major :: "'d exec \<Rightarrow> 'd outcome" where
  "exec_req_first_http_major e =
     (if \<not> char_between (CHR ''1'') (CHR ''9'') (ch e) then error_with HPE_INVALID_VERSION e
      else Next (UPDATE_STATE s_req_http_major (set_major (of_nat (digit_val (ch e))) e)))"

definition exec_req_http_major :: "'d exec \<Rightarrow> 'd outcome" where
  "exec_req_http_major e =
     (if ch e = CHR ''.'' then Next (UPDATE_STATE s_req_first_http_minor e) else more_major e)"

definition exec_req_first_http_minor :: "'d exec \<Rightarrow> 'd outcome" where
  "exec_req_first_http_minor e =
     (if \<not> IS_NUM (ch e) then error_with HPE_INVALID_VERSION e
      else Next (UPDATE_STATE s_req_http_minor (set_minor (of_nat (digit_val (ch e))) e)))"

definition exec_req_http_minor :: "'d exec \<Rightarrow> 'd outcome" where
  "exec_req_http_minor e =
     (if ch e = CR then Next (UPDATE_STATE s_req_line_almost_done e)
      else if ch e = LF then Next (UPDATE_STATE s_header_field_start e)
      else more_minor e)"

definition exec_req_line_almost_done :: "'d exec \<Rightarrow> 'd outcome" where
  "exec_req_line_almost_done e =
     (if ch e \<noteq> LF then error_with HPE_LF_EXPECTED e
      else Next (UPDATE_STATE s_header_field_start e))"

lemmas line_defs = exec_dead_def reset_message_def exec_start_req_or_res_def
  exec_res_or_resp_H_def exec_start_res_def exec_expect_def set_major_def set_minor_def
  set_status_code_def exec_res_first_http_major_def more_major_def more_minor_def
  exec_res_http_major_def exec_res_first_http_minor_def exec_res_http_minor_def
  exec_res_first_status_code_def exec_res_status_code_def exec_res_status_start_def
  exec_res_status_def exec_start_req_def incr_index_def exec_req_method_def exec_url_char_def
  exec_req_spaces_before_url_def exec_req_schema_def exec_req_url_def exec_req_http_start_def
  exec_req_first_http_major_def exec_req_http_major_def exec_req_first_http_minor_def
  exec_req_http_minor_def exec_req_line_almost_done_def

section \<open>Lengths of method names\<close>

lemma method_of_first_length: "method_of_first c = Some m \<Longrightarrow> 1 \<le> length (method_strings m)"
  by (cases m) auto

lemma method_switch_length:
  "method_switch m i c = Some m' \<Longrightarrow> i < length (method_strings m')"
  by (auto simp: method_switch_def split: if_splits)

lemma method_strings_length: "length (method_strings m) \<le> 11"
  by (cases m) auto

lemma unat_incr_index: "unat (i :: 8 word) < 255 \<Longrightarrow> unat (i + 1) = unat i + 1"
  by (simp add: unat_word_ariths)

end
