(* ===== verification/Http_Exec_Header.thy ===== *)
theory Http_Exec_Header
  imports Http_Exec_Base
begin

text \<open>
  The cases of the switch in \<^verbatim>\<open>http_parser_execute\<close> that read header fields
  (\<^verbatim>\<open>s_header_field_start\<close> to \<^verbatim>\<open>s_header_value_discard_lws\<close>). The two inner loops over
  \<^verbatim>\<open>p\<close> are recursive functions on the bytes that are left.
\<close>

section \<open>Names the parser looks for\<close>

definition PROXY_CONNECTION :: string where "PROXY_CONNECTION = ''proxy-connection''"
definition CONNECTION :: string where "CONNECTION = ''connection''"
definition CONTENT_LENGTH :: string where "CONTENT_LENGTH = ''content-length''"
definition TRANSFER_ENCODING :: string where "TRANSFER_ENCODING = ''transfer-encoding''"
definition UPGRADE :: string where "UPGRADE = ''upgrade''"
definition CHUNKED :: string where "CHUNKED = ''chunked''"
definition KEEP_ALIVE :: string where "KEEP_ALIVE = ''keep-alive''"
definition CLOSE :: string where "CLOSE = ''close''"

text \<open>
  The test every matching state makes after \<^verbatim>\<open>parser->index++\<close>, where \<^verbatim>\<open>sizeof(NAME)\<close> counts
  the terminating zero: a mismatch goes to \<open>other\<close>, the last letter to \<open>found\<close>, and any
  other letter stays in \<open>cur\<close>.
\<close>

definition match_const ::
  "string \<Rightarrow> header_states \<Rightarrow> header_states \<Rightarrow> header_states \<Rightarrow> char \<Rightarrow> nat \<Rightarrow> header_states" where
  "match_const NAME cur found other c i =
     (if i > length NAME \<or> Some c \<noteq> c_str_at NAME i then other
      else if i = length NAME - 1 then found
      else cur)"

section \<open>Header names\<close>

definition first_header_state :: "char \<Rightarrow> header_states" where
  "first_header_state c =
     (if c = CHR ''c'' then h_C
      else if c = CHR ''p'' then h_matching_proxy_connection
      else if c = CHR ''t'' then h_matching_transfer_encoding
      else if c = CHR ''u'' then h_matching_upgrade
      else h_general)"

definition exec_header_field_start :: "'d exec \<Rightarrow> 'd outcome" where
  "exec_header_field_start e =
     (if ch e = CR then Next (UPDATE_STATE s_headers_almost_done e)
      else if ch e = LF then Reexecute (UPDATE_STATE s_headers_almost_done e)
      else
        let c = TOKEN (ch e) in
        if c = CHR 0x00 then error_with HPE_INVALID_HEADER_TOKEN e
        else
          Next (set_header_state (first_header_state c)
            (UPDATE_STATE s_header_field (set_index 0 (MARK cb_header_field e)))))"

text \<open>
  The \<^verbatim>\<open>switch (parser->header_state)\<close> in the loop of \<^verbatim>\<open>s_header_field\<close>; \<open>c\<close> is the token
  value of the byte \<open>b\<close>, and \<open>None\<close> is the \<^verbatim>\<open>assert(0)\<close> of the \<^verbatim>\<open>default\<close> branch.
\<close>

definition header_field_char :: "char \<Rightarrow> char \<Rightarrow> 'd http_parser \<Rightarrow> 'd http_parser option" where
  "header_field_char b c q =
     (let q1 = q\<lparr>hp_index := hp_index q + 1\<rparr>; i = unat (hp_index q1) in
      case hp_header_state q of
        h_general \<Rightarrow> Some q
      | h_C \<Rightarrow> Some (q1\<lparr>hp_header_state := (if c = CHR ''o'' then h_CO else h_general)\<rparr>)
      | h_CO \<Rightarrow> Some (q1\<lparr>hp_header_state := (if c = CHR ''n'' then h_CON else h_general)\<rparr>)
      | h_CON \<Rightarrow> Some (q1\<lparr>hp_header_state :=
          (if c = CHR ''n'' then h_matching_connection
           else if c = CHR ''t'' then h_matching_content_length
           else h_general)\<rparr>)
      | h_matching_connection \<Rightarrow> Some (q1\<lparr>hp_header_state :=
          match_const CONNECTION h_matching_connection h_connection h_general c i\<rparr>)
      | h_matching_proxy_connection \<Rightarrow> Some (q1\<lparr>hp_header_state :=
          match_const PROXY_CONNECTION h_matching_proxy_connection h_connection h_general c i\<rparr>)
      | h_matching_content_length \<Rightarrow> Some (q1\<lparr>hp_header_state :=
          match_const CONTENT_LENGTH h_matching_content_length h_content_length h_general c i\<rparr>)
      | h_matching_transfer_encoding \<Rightarrow> Some (q1\<lparr>hp_header_state :=
          match_const TRANSFER_ENCODING h_matching_transfer_encoding h_transfer_encoding h_general c i\<rparr>)
      | h_matching_upgrade \<Rightarrow> Some (q1\<lparr>hp_header_state :=
          match_const UPGRADE h_matching_upgrade h_upgrade h_general c i\<rparr>)
      | h_connection \<Rightarrow> Some (if b \<noteq> CHR '' '' then q\<lparr>hp_header_state := h_general\<rparr> else q)
      | h_content_length \<Rightarrow> Some (if b \<noteq> CHR '' '' then q\<lparr>hp_header_state := h_general\<rparr> else q)
      | h_transfer_encoding \<Rightarrow> Some (if b \<noteq> CHR '' '' then q\<lparr>hp_header_state := h_general\<rparr> else q)
      | h_upgrade \<Rightarrow> Some (if b \<noteq> CHR '' '' then q\<lparr>hp_header_state := h_general\<rparr> else q)
      | _ \<Rightarrow> None)"

fun header_field_loop :: "bytes \<Rightarrow> 'd exec \<Rightarrow> 'd exec option" where
  "header_field_loop [] e = Some e"
| "header_field_loop (b # bs) e =
     (let c = TOKEN b in
      if c = CHR 0x00 then Some (e\<lparr>ch := b\<rparr>)
      else
        case header_field_char b c (parser e) of
          None \<Rightarrow> None
        | Some q \<Rightarrow> header_field_loop bs (e\<lparr>ch := b, parser := q, pos := pos e + 1\<rparr>))"

definition exec_header_field :: "'d http_parser_settings \<Rightarrow> bytes \<Rightarrow> 'd exec \<Rightarrow> 'd outcome" where
  "exec_header_field settings data e =
     (let start = pos e in
      case header_field_loop (drop (pos e) data) e of
        None \<Rightarrow> Fault
      | Some e \<Rightarrow>
          COUNT_HEADER_SIZE (pos e - start) e
            (\<lambda>e. if pos e = length data then Next (e\<lparr>pos := pos e - 1\<rparr>)
                 else if ch e = CHR '':'' then
                   CALLBACK_DATA settings data cb_header_field (UPDATE_STATE s_header_value_discard_ws e) Next
                 else error_with HPE_INVALID_HEADER_TOKEN e))"

section \<open>Header values\<close>

definition exec_header_value_start :: "'d exec \<Rightarrow> 'd outcome" where
  "exec_header_value_start e =
     (let e = set_index 0 (UPDATE_STATE s_header_value (MARK cb_header_value e));
          c = LOWER (ch e)
      in case hp_header_state (parser e) of
           h_upgrade \<Rightarrow> Next (set_header_state h_general (or_flags F_UPGRADE e))
         | h_transfer_encoding \<Rightarrow>
             Next (set_header_state
               (if CHR ''c'' = c then h_matching_transfer_encoding_chunked else h_general) e)
         | h_content_length \<Rightarrow>
             (if \<not> IS_NUM (ch e) then error_with HPE_INVALID_CONTENT_LENGTH e
              else Next (upd_parser (\<lambda>q. q\<lparr>hp_content_length := of_nat (digit_val (ch e))\<rparr>) e))
         | h_connection \<Rightarrow>
             Next (set_header_state
               (if c = CHR ''k'' then h_matching_connection_keep_alive
                else if c = CHR ''c'' then h_matching_connection_close
                else if c = CHR ''u'' then h_matching_connection_upgrade
                else h_matching_connection_token) e)
         | h_matching_connection_token_start \<Rightarrow> Next e
         | _ \<Rightarrow> Next (set_header_state h_general e))"

definition exec_header_value_discard_ws :: "'d exec \<Rightarrow> 'd outcome" where
  "exec_header_value_discard_ws e =
     (if ch e = CHR '' '' \<or> ch e = CHR 0x09 then Next e
      else if ch e = CR then Next (UPDATE_STATE s_header_value_discard_ws_almost_done e)
      else if ch e = LF then Next (UPDATE_STATE s_header_value_discard_lws e)
      else exec_header_value_start e)"

text \<open>\<^verbatim>\<open>memchr(p, c, limit)\<close>, as an offset from \<^verbatim>\<open>p\<close>.\<close>

fun first_index :: "char \<Rightarrow> bytes \<Rightarrow> nat option" where
  "first_index c [] = None"
| "first_index c (b # bs) = (if b = c then Some 0 else map_option Suc (first_index c bs))"

definition memchr :: "bytes \<Rightarrow> char \<Rightarrow> nat \<Rightarrow> nat option" where
  "memchr bs c limit = first_index c (take limit bs)"

text \<open>
  The \<^verbatim>\<open>h_general\<close> branch of the loop over a header value: how far \<^verbatim>\<open>p\<close> moves, the
  \<^verbatim>\<open>--p\<close> and the \<^verbatim>\<open>p++\<close> of the loop together. \<open>bs\<close> are the bytes from \<^verbatim>\<open>p\<close> on.
\<close>

definition line_skip :: "bytes \<Rightarrow> nat" where
  "line_skip bs =
     (let limit = min (length bs) HTTP_MAX_HEADER_SIZE;
          p_cr = memchr bs CR limit;
          p_lf = memchr bs LF limit
      in case p_cr of
           Some cr \<Rightarrow> (case p_lf of Some lf \<Rightarrow> if cr \<ge> lf then lf else cr | None \<Rightarrow> cr)
         | None \<Rightarrow> (case p_lf of Some lf \<Rightarrow> lf | None \<Rightarrow> length bs))"

text \<open>
  The states of a token in a \<^verbatim>\<open>Connection\<close> value that are left by a comma or by any
  byte but a space.
\<close>

definition connection_token_end :: "7 word \<Rightarrow> header_states \<Rightarrow> 'd exec \<Rightarrow> 'd exec \<times> header_states" where
  "connection_token_end flag h e =
     (if ch e = CHR '','' then (set_index 0 (or_flags flag e), h_matching_connection_token_start)
      else if ch e \<noteq> CHR '' '' then (e, h_matching_connection_token)
      else (e, h))"

definition token_start_state :: "char \<Rightarrow> header_states" where
  "token_start_state c =
     (if c = CHR ''k'' then h_matching_connection_keep_alive
      else if c = CHR ''c'' then h_matching_connection_close
      else if c = CHR ''u'' then h_matching_connection_upgrade
      else if STRICT_TOKEN c \<noteq> CHR 0x00 then h_matching_connection_token
      else if c = CHR '' '' \<or> c = CHR 0x09 then h_matching_connection_token_start
      else h_general)"

text \<open>\<^verbatim>\<open>case h_content_length\<close> of the loop over a header value.\<close>

definition content_length_char :: "'d exec \<Rightarrow> 'd outcome + 'd exec \<times> header_states" where
  "content_length_char e =
     (if ch e = CHR '' '' then Inr (e, h_content_length)
      else if \<not> IS_NUM (ch e) then
        Inl (Error (set_header_state h_content_length (SET_ERRNO HPE_INVALID_CONTENT_LENGTH e)))
      else
        let t = hp_content_length (parser e) * 10 + of_nat (digit_val (ch e)) in
        if (ULLONG_MAX - 10) div 10 < hp_content_length (parser e) then
          Inl (Error (set_header_state h_content_length (SET_ERRNO HPE_INVALID_CONTENT_LENGTH e)))
        else Inr (upd_parser (\<lambda>q. q\<lparr>hp_content_length := t\<rparr>) e, h_content_length))"

text \<open>
  The \<^verbatim>\<open>switch (h_state)\<close> of that loop on the byte \<^verbatim>\<open>ch\<close>, \<^verbatim>\<open>h_general\<close> apart: either the
  whole case ends, or the loop goes on with a new \<^verbatim>\<open>h_state\<close>.
\<close>

definition header_value_char :: "'d exec \<Rightarrow> header_states \<Rightarrow> 'd outcome + 'd exec \<times> header_states" where
  "header_value_char e h =
     (let c = LOWER (ch e); e1 = upd_parser (\<lambda>q. q\<lparr>hp_index := hp_index q + 1\<rparr>) e;
          i = unat (hp_index (parser e1))
      in case h of
           h_connection \<Rightarrow> Inl Fault
         | h_transfer_encoding \<Rightarrow> Inl Fault
         | h_content_length \<Rightarrow> content_length_char e
         | h_matching_transfer_encoding_chunked \<Rightarrow>
             Inr (e1, match_const CHUNKED h h_transfer_encoding_chunked h_general c i)
         | h_matching_connection_token_start \<Rightarrow> Inr (e, token_start_state c)
         | h_matching_connection_keep_alive \<Rightarrow>
             Inr (e1, match_const KEEP_ALIVE h h_connection_keep_alive h_matching_connection_token c i)
         | h_matching_connection_close \<Rightarrow>
             Inr (e1, match_const CLOSE h h_connection_close h_matching_connection_token c i)
         | h_matching_connection_upgrade \<Rightarrow>
             Inr (e1, match_const UPGRADE h h_connection_upgrade h_matching_connection_token c i)
         | h_matching_connection_token \<Rightarrow>
             (if ch e = CHR '','' then Inr (set_index 0 e, h_matching_connection_token_start)
              else Inr (e, h))
         | h_transfer_encoding_chunked \<Rightarrow> Inr (e, if ch e \<noteq> CHR '' '' then h_general else h)
         | h_connection_keep_alive \<Rightarrow> Inr (connection_token_end F_CONNECTION_KEEP_ALIVE h e)
         | h_connection_close \<Rightarrow> Inr (connection_token_end F_CONNECTION_CLOSE h e)
         | h_connection_upgrade \<Rightarrow> Inr (connection_token_end F_CONNECTION_UPGRADE h e)
         | _ \<Rightarrow> Inr (UPDATE_STATE s_header_value e, h_general))"

text \<open>The statements after the loop.\<close>

definition header_value_end :: "bytes \<Rightarrow> nat \<Rightarrow> header_states \<Rightarrow> 'd exec \<Rightarrow> 'd outcome" where
  "header_value_end data start h e =
     COUNT_HEADER_SIZE (pos e - start) (set_header_state h e)
       (\<lambda>e. Next (if pos e = length data then e\<lparr>pos := pos e - 1\<rparr> else e))"

definition header_value_CR ::
  "'d http_parser_settings \<Rightarrow> bytes \<Rightarrow> nat \<Rightarrow> header_states \<Rightarrow> 'd exec \<Rightarrow> 'd outcome" where
  "header_value_CR settings data start h e =
     CALLBACK_DATA settings data cb_header_value
       (set_header_state h (UPDATE_STATE s_header_almost_done e)) (header_value_end data start h)"

definition header_value_LF ::
  "'d http_parser_settings \<Rightarrow> bytes \<Rightarrow> nat \<Rightarrow> header_states \<Rightarrow> 'd exec \<Rightarrow> 'd outcome" where
  "header_value_LF settings data start h e =
     COUNT_HEADER_SIZE (pos e - start) (UPDATE_STATE s_header_almost_done e)
       (\<lambda>e. CALLBACK_DATA_NOADVANCE settings data cb_header_value (set_header_state h e) Reexecute)"

lemma first_index_pos: "b \<noteq> c \<Longrightarrow> first_index c (take n (b # bs)) = Some k \<Longrightarrow> 0 < k"
  by (cases n) auto

lemma line_skip_pos: "b \<noteq> CR \<Longrightarrow> b \<noteq> LF \<Longrightarrow> 0 < line_skip (b # bs)"
  by (auto simp: line_skip_def Let_def memchr_def dest: first_index_pos split: option.split)

function (sequential) header_value_loop ::
  "'d http_parser_settings \<Rightarrow> bytes \<Rightarrow> nat \<Rightarrow> bytes \<Rightarrow> header_states \<Rightarrow> 'd exec \<Rightarrow> 'd outcome" where
  "header_value_loop settings data start [] h e = header_value_end data start h e"
| "header_value_loop settings data start (b # bs) h e =
     (if b = CR then header_value_CR settings data start h (e\<lparr>ch := b\<rparr>)
      else if b = LF then header_value_LF settings data start h (e\<lparr>ch := b\<rparr>)
      else if h = h_general then
        header_value_loop settings data start (drop (line_skip (b # bs)) (b # bs)) h
          (e\<lparr>ch := b, pos := pos e + line_skip (b # bs)\<rparr>)
      else
        case header_value_char (e\<lparr>ch := b\<rparr>) h of
          Inl out \<Rightarrow> out
        | Inr (e, h) \<Rightarrow> header_value_loop settings data start bs h (e\<lparr>pos := pos e + 1\<rparr>))"
  by pat_completeness auto
termination
proof (relation "measure (\<lambda>(_, _, _, bs, _, _). length bs)", goal_cases)
  case (2 settings data start b bs h e)
  then show ?case using line_skip_pos [of b bs] by simp
qed simp_all

definition exec_header_value :: "'d http_parser_settings \<Rightarrow> bytes \<Rightarrow> 'd exec \<Rightarrow> 'd outcome" where
  "exec_header_value settings data e =
     header_value_loop settings data (pos e) (drop (pos e) data) (hp_header_state (parser e)) e"

section \<open>End of a header\<close>

text \<open>The \<^verbatim>\<open>switch (parser->header_state)\<close> that turns a recognised value into a flag.\<close>

definition set_header_flag :: "'d exec \<Rightarrow> 'd exec" where
  "set_header_flag e =
     (case hp_header_state (parser e) of
        h_connection_keep_alive \<Rightarrow> or_flags F_CONNECTION_KEEP_ALIVE e
      | h_connection_close \<Rightarrow> or_flags F_CONNECTION_CLOSE e
      | h_transfer_encoding_chunked \<Rightarrow> or_flags F_CHUNKED e
      | h_connection_upgrade \<Rightarrow> or_flags F_CONNECTION_UPGRADE e
      | _ \<Rightarrow> e)"

definition exec_header_value_lws :: "'d exec \<Rightarrow> 'd outcome" where
  "exec_header_value_lws e =
     (if ch e = CHR '' '' \<or> ch e = CHR 0x09 then Reexecute (UPDATE_STATE s_header_value_start e)
      else Reexecute (UPDATE_STATE s_header_field_start (set_header_flag e)))"

definition exec_header_value_discard_lws ::
  "'d http_parser_settings \<Rightarrow> bytes \<Rightarrow> 'd exec \<Rightarrow> 'd outcome" where
  "exec_header_value_discard_lws settings data e =
     (if ch e = CHR '' '' \<or> ch e = CHR 0x09 then Next (UPDATE_STATE s_header_value_discard_ws e)
      else
        CALLBACK_DATA_NOADVANCE settings data cb_header_value
          (UPDATE_STATE s_header_field_start (MARK cb_header_value (set_header_flag e))) Reexecute)"

end
