(* ===== verification/Http_Exec_Body.thy ===== *)
theory Http_Exec_Body
  imports Http_Exec_Base
begin

text \<open>
  The cases of the switch in \<^verbatim>\<open>http_parser_execute\<close> from the end of the headers on: the blank
  line, the three kinds of body (by length, until the connection closes, chunked), and the end
  of a message.
\<close>

section \<open>End of the headers\<close>

definition set_nread :: "uint32_t \<Rightarrow> 'd exec \<Rightarrow> 'd exec" where
  "set_nread v e = upd_parser (\<lambda>q. q\<lparr>hp_nread := v\<rparr>) e"

definition set_content_length :: "uint64_t \<Rightarrow> 'd exec \<Rightarrow> 'd exec" where
  "set_content_length v e = upd_parser (\<lambda>q. q\<lparr>hp_content_length := v\<rparr>) e"

definition wants_upgrade :: "'d http_parser \<Rightarrow> bool" where
  "wants_upgrade q \<longleftrightarrow>
     hp_flags q AND (F_UPGRADE OR F_CONNECTION_UPGRADE) = (F_UPGRADE OR F_CONNECTION_UPGRADE) \<or>
     hp_method q = HTTP_CONNECT"

text \<open>
  \<^verbatim>\<open>on_headers_complete\<close> is called without the macro: \<^verbatim>\<open>parser->state\<close> is not stored before
  the call and not reloaded after it, and the result 1 asks to skip the body.
\<close>

definition exec_headers_almost_done :: "'d http_parser_settings \<Rightarrow> 'd exec \<Rightarrow> 'd outcome" where
  "exec_headers_almost_done settings e =
     STRICT_CHECK (ch e \<noteq> LF) e
       (if hp_flags (parser e) AND F_TRAILING \<noteq> 0 then
          CALLBACK_NOTIFY_NOADVANCE settings cb_chunk_complete (UPDATE_STATE s_message_done e) Reexecute
        else
          let e = UPDATE_STATE s_headers_done e;
              e = upd_parser (\<lambda>q. q\<lparr>hp_upgrade := wants_upgrade q\<rparr>) e;
              (e, r) =
                (case on_headers_complete settings of
                   None \<Rightarrow> (e, 0)
                 | Some f \<Rightarrow> (let (q, r) = f (parser e) in (e\<lparr>parser := q\<rparr>, r)))
          in
            if r \<noteq> 0 \<and> r \<noteq> 1 then RETURN (pos e) (SET_ERRNO HPE_CB_headers_complete e)
            else
              let e = (if r = 1 then or_flags F_SKIPBODY e else e) in
              if hp_errno (parser e) \<noteq> HPE_OK then RETURN (pos e) e else Reexecute e)"

definition hasBody :: "'d http_parser \<Rightarrow> bool" where
  "hasBody q \<longleftrightarrow> hp_flags q AND F_CHUNKED \<noteq> 0 \<or>
     (hp_content_length q > 0 \<and> hp_content_length q \<noteq> ULLONG_MAX)"

text \<open>\<^verbatim>\<open>UPDATE_STATE(NEW_MESSAGE()); CALLBACK_NOTIFY(message_complete);\<close>\<close>

definition message_complete ::
  "'d http_parser_settings \<Rightarrow> 'd exec \<Rightarrow> ('d exec \<Rightarrow> 'd outcome) \<Rightarrow> 'd outcome" where
  "message_complete settings e k =
     CALLBACK_NOTIFY settings cb_message_complete (UPDATE_STATE (NEW_MESSAGE (parser e)) e) k"

definition exec_headers_done :: "'d http_parser_settings \<Rightarrow> 'd exec \<Rightarrow> 'd outcome" where
  "exec_headers_done settings e =
     STRICT_CHECK (ch e \<noteq> LF) e
       (let e = set_nread 0 e; q = parser e in
        if hp_upgrade q \<and>
           (hp_method q = HTTP_CONNECT \<or> hp_flags q AND F_SKIPBODY \<noteq> 0 \<or> \<not> hasBody q) then
          message_complete settings e (\<lambda>e. RETURN (pos e + 1) e)
        else if hp_flags q AND F_SKIPBODY \<noteq> 0 then message_complete settings e Next
        else if hp_flags q AND F_CHUNKED \<noteq> 0 then Next (UPDATE_STATE s_chunk_size_start e)
        else if hp_content_length q = 0 then message_complete settings e Next
        else if hp_content_length q \<noteq> ULLONG_MAX then Next (UPDATE_STATE s_body_identity e)
        else if \<not> http_message_needs_eof q then message_complete settings e Next
        else Next (UPDATE_STATE s_body_identity_eof e))"

section \<open>Bodies\<close>

text \<open>
  \<^verbatim>\<open>MIN(parser->content_length, (uint64_t) ((data + len) - p))\<close>, and the statements that move
  the read position to the last byte of this portion.
\<close>

definition to_read :: "bytes \<Rightarrow> 'd exec \<Rightarrow> uint64_t" where
  "to_read data e = min (hp_content_length (parser e)) (of_nat (length data - pos e))"

definition take_body :: "uint64_t \<Rightarrow> 'd exec \<Rightarrow> 'd exec" where
  "take_body n e =
     (let e = set_content_length (hp_content_length (parser e) - n) e
      in e\<lparr>pos := pos e + (unat n - 1)\<rparr>)"

definition exec_body_identity :: "'d http_parser_settings \<Rightarrow> bytes \<Rightarrow> 'd exec \<Rightarrow> 'd outcome" where
  "exec_body_identity settings data e =
     c_assert (hp_content_length (parser e) \<noteq> 0 \<and> hp_content_length (parser e) \<noteq> ULLONG_MAX)
       (let e = take_body (to_read data e) (MARK cb_body e) in
        if hp_content_length (parser e) = 0 then
          CALLBACK_DATA_er settings data cb_body (pos e + 1) (pos e) (UPDATE_STATE s_message_done e) Reexecute
        else Next e)"

definition exec_body_identity_eof :: "bytes \<Rightarrow> 'd exec \<Rightarrow> 'd outcome" where
  "exec_body_identity_eof data e = (let e = MARK cb_body e in Next (e\<lparr>pos := length data - 1\<rparr>))"

definition exec_message_done :: "'d http_parser_settings \<Rightarrow> 'd exec \<Rightarrow> 'd outcome" where
  "exec_message_done settings e =
     message_complete settings e
       (\<lambda>e. if hp_upgrade (parser e) then RETURN (pos e + 1) e else Next e)"

section \<open>Chunked bodies\<close>

definition assert_chunked :: "'d exec \<Rightarrow> 'd outcome \<Rightarrow> 'd outcome" where
  "assert_chunked e k = c_assert (hp_flags (parser e) AND F_CHUNKED \<noteq> 0) k"

definition exec_chunk_size_start :: "'d exec \<Rightarrow> 'd outcome" where
  "exec_chunk_size_start e =
     c_assert (hp_nread (parser e) = 1)
       (assert_chunked e
          (let unhex_val = unhex (ch e) in
           if unhex_val = -1 then error_with HPE_INVALID_CHUNK_SIZE e
           else Next (UPDATE_STATE s_chunk_size (set_content_length (of_int unhex_val) e))))"

definition exec_chunk_size :: "'d exec \<Rightarrow> 'd outcome" where
  "exec_chunk_size e =
     assert_chunked e
       (if ch e = CR then Next (UPDATE_STATE s_chunk_size_almost_done e)
        else
          let unhex_val = unhex (ch e) in
          if unhex_val = -1 then
            (if ch e = CHR '';'' \<or> ch e = CHR '' '' then Next (UPDATE_STATE s_chunk_parameters e)
             else error_with HPE_INVALID_CHUNK_SIZE e)
          else
            let t = hp_content_length (parser e) * 16 + of_int unhex_val in
            if (ULLONG_MAX - 16) div 16 < hp_content_length (parser e)
            then error_with HPE_INVALID_CONTENT_LENGTH e
            else Next (set_content_length t e))"

definition exec_chunk_parameters :: "'d exec \<Rightarrow> 'd outcome" where
  "exec_chunk_parameters e =
     assert_chunked e
       (if ch e = CR then Next (UPDATE_STATE s_chunk_size_almost_done e) else Next e)"

definition exec_chunk_size_almost_done :: "'d http_parser_settings \<Rightarrow> 'd exec \<Rightarrow> 'd outcome" where
  "exec_chunk_size_almost_done settings e =
     assert_chunked e
       (STRICT_CHECK (ch e \<noteq> LF) e
          (let e = set_nread 0 e;
               e = (if hp_content_length (parser e) = 0
                    then UPDATE_STATE s_header_field_start (or_flags F_TRAILING e)
                    else UPDATE_STATE s_chunk_data e)
           in CALLBACK_NOTIFY settings cb_chunk_header e Next))"

definition exec_chunk_data :: "bytes \<Rightarrow> 'd exec \<Rightarrow> 'd outcome" where
  "exec_chunk_data data e =
     assert_chunked e
       (c_assert (hp_content_length (parser e) \<noteq> 0 \<and> hp_content_length (parser e) \<noteq> ULLONG_MAX)
          (let e = take_body (to_read data e) (MARK cb_body e) in
           if hp_content_length (parser e) = 0 then Next (UPDATE_STATE s_chunk_data_almost_done e)
           else Next e))"

definition exec_chunk_data_almost_done :: "'d http_parser_settings \<Rightarrow> bytes \<Rightarrow> 'd exec \<Rightarrow> 'd outcome" where
  "exec_chunk_data_almost_done settings data e =
     assert_chunked e
       (c_assert (hp_content_length (parser e) = 0)
          (STRICT_CHECK (ch e \<noteq> CR) e
             (CALLBACK_DATA settings data cb_body (UPDATE_STATE s_chunk_data_done e) Next)))"

definition exec_chunk_data_done :: "'d http_parser_settings \<Rightarrow> 'd exec \<Rightarrow> 'd outcome" where
  "exec_chunk_data_done settings e =
     assert_chunked e
       (STRICT_CHECK (ch e \<noteq> LF) e
          (CALLBACK_NOTIFY settings cb_chunk_complete (UPDATE_STATE s_chunk_size_start (set_nread 0 e)) Next))"

lemmas body_defs = set_nread_def set_content_length_def exec_headers_almost_done_def
  message_complete_def exec_headers_done_def take_body_def exec_body_identity_def
  exec_body_identity_eof_def exec_message_done_def assert_chunked_def exec_chunk_size_start_def
  exec_chunk_size_def exec_chunk_parameters_def exec_chunk_size_almost_done_def
  exec_chunk_data_def exec_chunk_data_almost_done_def exec_chunk_data_done_def

end
