(* ===== verification/Http_Execute.thy ===== *)
theory Http_Execute
  imports Http_Exec_Line Http_Exec_Header Http_Exec_Body
begin

text \<open>
  The whole of \<^verbatim>\<open>http_parser_execute\<close>: the switch, the chain of \<^verbatim>\<open>goto reexecute\<close> on one
  byte, the loop over the input, the callbacks for the marks left at the end, and the entry
  code. Feeding one buffer after another to the same parser is repeated application.
\<close>

section \<open>The switch\<close>

definition exec_switch :: "'d http_parser_settings \<Rightarrow> bytes \<Rightarrow> 'd exec \<Rightarrow> 'd outcome" where
  "exec_switch settings data e =
     (case p_state e of
        s_dead \<Rightarrow> exec_dead e
      | s_start_req_or_res \<Rightarrow> exec_start_req_or_res settings e
      | s_res_or_resp_H \<Rightarrow> exec_res_or_resp_H e
      | s_start_res \<Rightarrow> exec_start_res settings e
      | s_res_H \<Rightarrow> exec_expect (CHR ''T'') s_res_HT e
      | s_res_HT \<Rightarrow> exec_expect (CHR ''T'') s_res_HTT e
      | s_res_HTT \<Rightarrow> exec_expect (CHR ''P'') s_res_HTTP e
      | s_res_HTTP \<Rightarrow> exec_expect (CHR ''/'') s_res_first_http_major e
      | s_res_first_http_major \<Rightarrow> exec_res_first_http_major e
      | s_res_http_major \<Rightarrow> exec_res_http_major e
      | s_res_first_http_minor \<Rightarrow> exec_res_first_http_minor e
      | s_res_http_minor \<Rightarrow> exec_res_http_minor e
      | s_res_first_status_code \<Rightarrow> exec_res_first_status_code e
      | s_res_status_code \<Rightarrow> exec_res_status_code e
      | s_res_status_start \<Rightarrow> exec_res_status_start e
      | s_res_status \<Rightarrow> exec_res_status settings data e
      | s_res_line_almost_done \<Rightarrow> exec_expect LF s_header_field_start e
      | s_start_req \<Rightarrow> exec_start_req settings e
      | s_req_method \<Rightarrow> exec_req_method e
      | s_req_spaces_before_url \<Rightarrow> exec_req_spaces_before_url e
      | s_req_schema \<Rightarrow> exec_req_schema e
      | s_req_schema_slash \<Rightarrow> exec_req_schema e
      | s_req_schema_slash_slash \<Rightarrow> exec_req_schema e
      | s_req_server_start \<Rightarrow> exec_req_schema e
      | s_req_server \<Rightarrow> exec_req_url settings data e
      | s_req_server_with_at \<Rightarrow> exec_req_url settings data e
      | s_req_path \<Rightarrow> exec_req_url settings data e
      | s_req_query_string_start \<Rightarrow> exec_req_url settings data e
      | s_req_query_string \<Rightarrow> exec_req_url settings data e
      | s_req_fragment_start \<Rightarrow> exec_req_url settings data e
      | s_req_fragment \<Rightarrow> exec_req_url settings data e
      | s_req_http_start \<Rightarrow> exec_req_http_start e
      | s_req_http_H \<Rightarrow> exec_expect (CHR ''T'') s_req_http_HT e
      | s_req_http_HT \<Rightarrow> exec_expect (CHR ''T'') s_req_http_HTT e
      | s_req_http_HTT \<Rightarrow> exec_expect (CHR ''P'') s_req_http_HTTP e
      | s_req_http_HTTP \<Rightarrow> exec_expect (CHR ''/'') s_req_first_http_major e
      | s_req_first_http_major \<Rightarrow> exec_req_first_http_major e
      | s_req_http_major \<Rightarrow> exec_req_http_major e
      | s_req_first_http_minor \<Rightarrow> exec_req_first_http_minor e
      | s_req_http_minor \<Rightarrow> exec_req_http_minor e
      | s_req_line_almost_done \<Rightarrow> exec_req_line_almost_done e
      | s_header_field_start \<Rightarrow> exec_header_field_start e
      | s_header_field \<Rightarrow> exec_header_field settings data e
      | s_header_value_discard_ws \<Rightarrow> exec_header_value_discard_ws e
      | s_header_value_start \<Rightarrow> exec_header_value_start e
      | s_header_value \<Rightarrow> exec_header_value settings data e
      | s_header_almost_done \<Rightarrow> exec_expect LF s_header_value_lws e
      | s_header_value_lws \<Rightarrow> exec_header_value_lws e
      | s_header_value_discard_ws_almost_done \<Rightarrow> exec_expect LF s_header_value_discard_lws e
      | s_header_value_discard_lws \<Rightarrow> exec_header_value_discard_lws settings data e
      | s_headers_almost_done \<Rightarrow> exec_headers_almost_done settings e
      | s_headers_done \<Rightarrow> exec_headers_done settings e
      | s_body_identity \<Rightarrow> exec_body_identity settings data e
      | s_body_identity_eof \<Rightarrow> exec_body_identity_eof data e
      | s_message_done \<Rightarrow> exec_message_done settings e
      | s_chunk_size_start \<Rightarrow> exec_chunk_size_start e
      | s_chunk_size \<Rightarrow> exec_chunk_size e
      | s_chunk_parameters \<Rightarrow> exec_chunk_parameters e
      | s_chunk_size_almost_done \<Rightarrow> exec_chunk_size_almost_done settings e
      | s_chunk_data \<Rightarrow> exec_chunk_data data e
      | s_chunk_data_almost_done \<Rightarrow> exec_chunk_data_almost_done settings data e
      | s_chunk_data_done \<Rightarrow> exec_chunk_data_done settings e)"

text \<open>
  One byte: \<^verbatim>\<open>ch = *p\<close>, the header size count, and the switch until it no longer asks to be
  reexecuted.
\<close>

primrec reexecute :: "nat \<Rightarrow> 'd http_parser_settings \<Rightarrow> bytes \<Rightarrow> 'd exec \<Rightarrow> 'd outcome" where
  "reexecute 0 settings data e = Out_of_fuel"
| "reexecute (Suc fuel) settings data e =
     (case exec_switch settings data e of
        Reexecute e' \<Rightarrow> reexecute fuel settings data e'
      | out \<Rightarrow> out)"

definition reexec_fuel :: nat where
  "reexec_fuel = 8"

definition exec_byte :: "'d http_parser_settings \<Rightarrow> bytes \<Rightarrow> 'd exec \<Rightarrow> 'd outcome" where
  "exec_byte settings data e =
     (let e = e\<lparr>ch := data ! pos e\<rparr> in
      if PARSING_HEADER (p_state e)
      then COUNT_HEADER_SIZE 1 e (reexecute reexec_fuel settings data)
      else reexecute reexec_fuel settings data e)"

section \<open>The loop\<close>

text \<open>
  The read position never moves back over a byte and stays inside the input: this is what makes the loop end. It holds for
  arbitrary callbacks, since they cannot reach \<^verbatim>\<open>p\<close>.
\<close>

abbreviation advances :: "nat \<Rightarrow> bytes \<Rightarrow> 'd outcome \<Rightarrow> bool" where
  "advances n data \<equiv> outcome_wp (\<lambda>e. n \<le> pos e \<and> pos e < length data)
     (\<lambda>e. n \<le> pos e \<and> pos e < length data) (\<lambda>_. True) (\<lambda>_ _. True) True"

lemma advances_after_callback:
  "(\<And>e'. pos e' = pos e \<Longrightarrow> advances n data (k e')) \<Longrightarrow> advances n data (after_callback res errno er e k)"
  by (simp add: after_callback_def Let_def)

lemma advances_callbacks:
  assumes "\<And>e'. pos e' = pos e \<Longrightarrow> advances n data (k e')"
  shows "advances n data (CALLBACK_NOTIFY_er settings f er e k)"
    and "advances n data (CALLBACK_NOTIFY settings f e k)"
    and "advances n data (CALLBACK_NOTIFY_NOADVANCE settings f e k)"
    and "advances n data (CALLBACK_DATA_er settings data' g stop er e k)"
    and "advances n data (CALLBACK_DATA settings data' g e k)"
    and "advances n data (CALLBACK_DATA_NOADVANCE settings data' g e k)"
  using assms
  by (auto simp: CALLBACK_NOTIFY_er_def CALLBACK_NOTIFY_def CALLBACK_NOTIFY_NOADVANCE_def
      CALLBACK_DATA_er_def CALLBACK_DATA_def CALLBACK_DATA_NOADVANCE_def wp_simps
      split: option.split intro!: advances_after_callback)

lemma header_field_loop_pos: "header_field_loop bs e = Some e' \<Longrightarrow> pos e \<le> pos e'"
  by (induction bs e rule: header_field_loop.induct)
    (fastforce simp: Let_def split: if_splits option.splits)+

lemma header_field_loop_bound: "header_field_loop bs e = Some e' \<Longrightarrow> pos e' \<le> pos e + length bs"
  by (induction bs e rule: header_field_loop.induct)
    (fastforce simp: Let_def split: if_splits option.splits)+

lemma header_value_char_pos: "header_value_char e h = Inr (e', h') \<Longrightarrow> pos e' = pos e"
  by (cases h) (auto simp: header_value_char_def content_length_char_def connection_token_end_def Let_def
      split: if_splits)

lemma advances_header_value_char: "header_value_char e h = Inl out \<Longrightarrow> advances n data out"
  by (cases h) (auto simp: header_value_char_def content_length_char_def Let_def split: if_splits)

lemma advances_header_value_end:
  "n \<le> pos e \<Longrightarrow> n < length data \<Longrightarrow> pos e \<le> length data \<Longrightarrow>
     advances n data (header_value_end data start h e)"
  by (auto simp: header_value_end_def wp_simps)

lemma first_index_le: "first_index c bs = Some k \<Longrightarrow> k < length bs"
  by (induction bs arbitrary: k) (auto split: if_splits)

lemma line_skip_le: "line_skip bs \<le> length bs"
  by (auto simp: line_skip_def memchr_def Let_def less_imp_le dest!: first_index_le split: option.split)

lemma advances_header_value_loop:
  "n \<le> pos e \<Longrightarrow> n < length data \<Longrightarrow> pos e + length bs = length data \<Longrightarrow>
     advances n data (header_value_loop settings data start bs h e)"
proof (induction settings data start bs h e rule: header_value_loop.induct)
  case (1 settings data start h e)
  then show ?case by (simp add: advances_header_value_end)
next
  case (2 settings data start b bs h e)
  consider "b = CR" | "b = LF" | "b \<noteq> CR" "b \<noteq> LF" "h = h_general" | "b \<noteq> CR" "b \<noteq> LF" "h \<noteq> h_general"
    by blast
  then show ?case
  proof cases
    case 1
    with 2 show ?thesis
      by (simp add: header_value_CR_def advances_callbacks advances_header_value_end)
  next
    case 2
    with \<open>n \<le> pos e\<close> \<open>pos e + length (b # bs) = length data\<close> show ?thesis
      by (simp add: header_value_LF_def wp_simps advances_callbacks)
  next
    case 3
    with 2 show ?thesis using line_skip_le [of "b # bs"] by simp
  next
    case 4
    show ?thesis
    proof (cases "header_value_char (e\<lparr>ch := b\<rparr>) h")
      case (Inl out)
      with 4 show ?thesis by (simp add: advances_header_value_char)
    next
      case (Inr r)
      obtain e' h' where r: "r = (e', h')" by (cases r)
      have "pos e' = pos e" using header_value_char_pos Inr r by fastforce
      then have "advances n data (header_value_loop settings data start bs h' (e'\<lparr>pos := pos e' + 1\<rparr>))"
        using 2(3-) by (intro 2(2) [OF 4 Inr r [symmetric]]) simp_all
      then show ?thesis using 4 Inr r by simp
    qed
  qed
qed

lemma advances_line:
  assumes "pos e < length data"
  shows
  "advances (pos e) data (exec_dead e)" "advances (pos e) data (exec_start_req_or_res settings e)"
  "advances (pos e) data (exec_res_or_resp_H e)" "advances (pos e) data (exec_start_res settings e)"
  "advances (pos e) data (exec_expect c s e)" "advances (pos e) data (exec_res_first_http_major e)"
  "advances (pos e) data (exec_res_http_major e)" "advances (pos e) data (exec_res_first_http_minor e)"
  "advances (pos e) data (exec_res_http_minor e)" "advances (pos e) data (exec_res_first_status_code e)"
  "advances (pos e) data (exec_res_status_code e)" "advances (pos e) data (exec_res_status_start e)"
  "advances (pos e) data (exec_res_status settings data e)" "advances (pos e) data (exec_start_req settings e)"
  "advances (pos e) data (exec_req_method e)" "advances (pos e) data (exec_req_spaces_before_url e)"
  "advances (pos e) data (exec_req_schema e)" "advances (pos e) data (exec_req_url settings data e)"
  "advances (pos e) data (exec_req_http_start e)" "advances (pos e) data (exec_req_first_http_major e)"
  "advances (pos e) data (exec_req_http_major e)" "advances (pos e) data (exec_req_first_http_minor e)"
  "advances (pos e) data (exec_req_http_minor e)" "advances (pos e) data (exec_req_line_almost_done e)"
  using assms by (simp_all add: line_defs wp_simps Let_def advances_callbacks split: option.split)

lemma advances_header:
  assumes "pos e < length data"
  shows "advances (pos e) data (exec_header_field_start e)"
    and "advances (pos e) data (exec_header_field settings data e)"
    and "advances (pos e) data (exec_header_value_discard_ws e)"
    and "advances (pos e) data (exec_header_value_start e)"
    and "advances (pos e) data (exec_header_value settings data e)"
    and "advances (pos e) data (exec_header_value_lws e)"
    and "advances (pos e) data (exec_header_value_discard_lws settings data e)"
proof -
  show "advances (pos e) data (exec_header_field settings data e)"
    using assms header_field_loop_pos [of "drop (pos e) data" e]
      header_field_loop_bound [of "drop (pos e) data" e]
    by (auto simp: exec_header_field_def wp_simps advances_callbacks Let_def split: option.split)
  show "advances (pos e) data (exec_header_value settings data e)"
    using assms by (simp add: exec_header_value_def advances_header_value_loop)
qed (auto simp: exec_header_field_start_def exec_header_value_discard_ws_def exec_header_value_start_def
      exec_header_value_lws_def exec_header_value_discard_lws_def set_header_flag_def wp_simps Let_def
      advances_callbacks assms split: header_states.split)

lemma to_read_le: "unat (to_read data e) \<le> length data - pos e"
  by (simp add: to_read_def min_def word_le_nat_alt unat_of_nat)
    (meson mod_less_eq_dividend order_trans linorder_linear)

lemma advances_body:
  assumes "pos e < length data"
  shows "advances (pos e) data (exec_headers_almost_done settings e)"
    and "advances (pos e) data (exec_headers_done settings e)"
    and "advances (pos e) data (exec_body_identity settings data e)"
    and "advances (pos e) data (exec_body_identity_eof data e)"
    and "advances (pos e) data (exec_message_done settings e)"
    and "advances (pos e) data (exec_chunk_size_start e)"
    and "advances (pos e) data (exec_chunk_size e)"
    and "advances (pos e) data (exec_chunk_parameters e)"
    and "advances (pos e) data (exec_chunk_size_almost_done settings e)"
    and "advances (pos e) data (exec_chunk_data data e)"
    and "advances (pos e) data (exec_chunk_data_almost_done settings data e)"
    and "advances (pos e) data (exec_chunk_data_done settings e)"
  using assms to_read_le [of data e]
  by (auto simp: body_defs wp_simps Let_def advances_callbacks split: option.split prod.split)

lemma advances_switch: "pos e < length data \<Longrightarrow> advances (pos e) data (exec_switch settings data e)"
  unfolding exec_switch_def
  by (simp add: advances_line advances_header advances_body split: state.split)

lemma advances_mono: "advances n data out \<Longrightarrow> m \<le> n \<Longrightarrow> advances m data out"
  by (cases out) auto

lemma advances_reexecute:
  "pos e < length data \<Longrightarrow> reexecute fuel settings data e = Next e' \<Longrightarrow> pos e \<le> pos e'"
proof (induction fuel arbitrary: e)
  case (Suc fuel)
  then show ?case
    using advances_switch [of e data settings]
    by (cases "exec_switch settings data e") (auto intro: order_trans)
qed simp

lemma exec_byte_pos: "pos e < length data \<Longrightarrow> exec_byte settings data e = Next e' \<Longrightarrow> pos e \<le> pos e'"
  using advances_reexecute [of "e\<lparr>ch := data ! pos e\<rparr>" data reexec_fuel settings e']
    advances_reexecute [of "count_nread 1 (e\<lparr>ch := data ! pos e\<rparr>)" data reexec_fuel settings e']
  by (auto simp: exec_byte_def COUNT_HEADER_SIZE_def error_with_def Let_def split: if_splits)

text \<open>The statements after the loop: the marks that are left, then \<^verbatim>\<open>RETURN(len)\<close>.\<close>

definition mark_count :: "'d exec \<Rightarrow> nat" where
  "mark_count e =
     length (filter (\<lambda>k. marks e k \<noteq> None) [cb_header_field, cb_header_value, cb_url, cb_body, cb_status])"

definition exec_end :: "'d http_parser_settings \<Rightarrow> bytes \<Rightarrow> 'd exec \<Rightarrow> 'd outcome" where
  "exec_end settings data e =
     c_assert (mark_count e \<le> 1)
       (CALLBACK_DATA_NOADVANCE settings data cb_header_field e (\<lambda>e.
        CALLBACK_DATA_NOADVANCE settings data cb_header_value e (\<lambda>e.
        CALLBACK_DATA_NOADVANCE settings data cb_url e (\<lambda>e.
        CALLBACK_DATA_NOADVANCE settings data cb_body e (\<lambda>e.
        CALLBACK_DATA_NOADVANCE settings data cb_status e (\<lambda>e.
        RETURN (length data) e))))))"

function exec_loop :: "'d http_parser_settings \<Rightarrow> bytes \<Rightarrow> 'd exec \<Rightarrow> 'd outcome" where
  "exec_loop settings data e =
     (if pos e = length data then exec_end settings data e
      else if pos e > length data then Fault
      else
        case exec_byte settings data e of
          Next e' \<Rightarrow> exec_loop settings data (e'\<lparr>pos := pos e' + 1\<rparr>)
        | out \<Rightarrow> out)"
  by pat_completeness auto
termination
proof (relation "measure (\<lambda>(_, data, e). length data - pos e)", goal_cases)
  case (2 settings data e e')
  then show ?case using exec_byte_pos [of e data settings e'] by simp
qed simp

declare exec_loop.simps [simp del]

section \<open>Entry and exit\<close>

definition is_url_state :: "state \<Rightarrow> bool" where
  "is_url_state s \<longleftrightarrow> s \<in> {s_req_path, s_req_schema, s_req_schema_slash, s_req_schema_slash_slash,
     s_req_server_start, s_req_server, s_req_server_with_at, s_req_query_string_start,
     s_req_query_string, s_req_fragment_start, s_req_fragment}"

definition initial_marks :: "state \<Rightarrow> data_cb \<Rightarrow> nat option" where
  "initial_marks s =
     (let m = (\<lambda>_. None);
          m = (if s = s_header_field then m(cb_header_field := Some 0) else m);
          m = (if s = s_header_value then m(cb_header_value := Some 0) else m)
      in if is_url_state s then m(cb_url := Some 0)
         else if s = s_res_status then m(cb_status := Some 0) else m)"

text \<open>The state of the locals at the top of the loop; \<^verbatim>\<open>ch\<close> is not initialised in C.\<close>

definition exec_start :: "'d http_parser \<Rightarrow> 'd exec" where
  "exec_start q = \<lparr>parser = q, p_state = hp_state q, pos = 0, ch = CHR 0x00,
     marks = initial_marks (hp_state q)\<rparr>"

text \<open>The code at the label \<^verbatim>\<open>error\<close>, and the end of the function. \<open>None\<close> is undefined behaviour.\<close>

definition exec_error :: "'d exec \<Rightarrow> 'd http_parser \<times> nat" where
  "exec_error e =
     (let e = (if hp_errno (parser e) = HPE_OK then SET_ERRNO HPE_UNKNOWN e else e)
      in ((parser e)\<lparr>hp_state := p_state e\<rparr>, pos e))"

definition exec_result :: "'d outcome \<Rightarrow> ('d http_parser \<times> nat) option" where
  "exec_result out =
     (case out of
        Return q n \<Rightarrow> Some (q, n)
      | Error e \<Rightarrow> Some (exec_error e)
      | _ \<Rightarrow> None)"

text \<open>The call with \<^verbatim>\<open>len == 0\<close>, which tells the parser that the connection was closed.\<close>

definition exec_eof :: "'d http_parser_settings \<Rightarrow> 'd exec \<Rightarrow> 'd outcome" where
  "exec_eof settings e =
     (if p_state e = s_body_identity_eof then
        CALLBACK_NOTIFY_NOADVANCE settings cb_message_complete e (\<lambda>e. Return (parser e) 0)
      else if p_state e \<in> {s_dead, s_start_req_or_res, s_start_res, s_start_req} then Return (parser e) 0
      else Return (parser (SET_ERRNO HPE_INVALID_EOF_STATE e)) 1)"

definition http_parser_execute ::
  "'d http_parser \<Rightarrow> 'd http_parser_settings \<Rightarrow> bytes \<Rightarrow> ('d http_parser \<times> nat) option" where
  "http_parser_execute q settings data =
     (let e = exec_start q in
      if hp_errno q \<noteq> HPE_OK then Some (q, 0)
      else if length data = 0 then exec_result (exec_eof settings e)
      else exec_result (exec_loop settings data e))"

end
