(* ===== verification/Http_Client.thy ===== *)
theory Http_Client
  imports Http_Execute
begin

text \<open>
  The contract between \<^verbatim>\<open>http_parser_execute\<close> and the application that supplies the
  callbacks. \<^verbatim>\<open>http_parser.h\<close> marks most fields of the structure as private or read-only; a
  callback may change \<^verbatim>\<open>data\<close> (its own) and \<^verbatim>\<open>http_errno\<close> (through
  \<^verbatim>\<open>http_parser_pause\<close>). The locale \<open>parser_client\<close> states this, and everything about a run
  of the parser is proved inside it: the invariants, that no assertion fails, and that the
  fuel of the reexecution chain is never used up. \<open>Http_Class\<close> interprets it on the callbacks
  of the class \<^verbatim>\<open>HTTPParser\<close>.
\<close>

definition keeps_parser :: "'d http_parser \<Rightarrow> 'd http_parser \<Rightarrow> bool" where
  "keeps_parser q q' \<longleftrightarrow> q' = q\<lparr>hp_data := hp_data q', hp_errno := hp_errno q'\<rparr>"

locale parser_client =
  fixes settings :: "'d http_parser_settings"
  assumes notify_keeps: "on_notify settings k = Some f \<Longrightarrow> keeps_parser q (fst (f q))"
    and data_keeps: "on_data settings j = Some g \<Longrightarrow> keeps_parser q (fst (g q bs))"
    and headers_keeps: "on_headers_complete settings = Some f \<Longrightarrow> keeps_parser q (fst (f q))"

section \<open>The invariant of the parser structure\<close>

text \<open>
  What the asserts of the switch rely on, per state. The argument \<open>n\<close> is the value of
  \<^verbatim>\<open>nread\<close> expected in \<^verbatim>\<open>s_chunk_size_start\<close>: 0 between two bytes, 1 once the byte has been
  counted.
\<close>

definition field_states :: "header_states set" where
  "field_states = {h_general, h_C, h_CO, h_CON, h_matching_connection, h_matching_proxy_connection,
     h_matching_content_length, h_matching_transfer_encoding, h_matching_upgrade, h_connection,
     h_content_length, h_transfer_encoding, h_upgrade}"

definition state_inv :: "uint32_t \<Rightarrow> state \<Rightarrow> 'd http_parser \<Rightarrow> bool" where
  "state_inv n s q \<longleftrightarrow>
     (s = s_header_field \<longrightarrow> hp_header_state q \<in> field_states) \<and>
     (s = s_header_value \<longrightarrow> hp_header_state q \<noteq> h_connection \<and> hp_header_state q \<noteq> h_transfer_encoding) \<and>
     (s = s_req_method \<longrightarrow> unat (hp_index q) \<le> length (method_strings (hp_method q))) \<and>
     (s = s_body_identity \<or> s = s_chunk_data \<longrightarrow> hp_content_length q \<noteq> 0) \<and>
     (s = s_body_identity \<or> s = s_chunk_data \<or> s = s_chunk_size \<or> s = s_chunk_parameters \<or>
      s = s_chunk_size_almost_done \<longrightarrow> hp_content_length q \<noteq> ULLONG_MAX) \<and>
     (s = s_chunk_data_almost_done \<longrightarrow> hp_content_length q = 0) \<and>
     (s = s_chunk_size_start \<or> s = s_chunk_size \<or> s = s_chunk_parameters \<or> s = s_chunk_size_almost_done \<or>
      s = s_chunk_data \<or> s = s_chunk_data_almost_done \<or> s = s_chunk_data_done \<longrightarrow> bit (hp_flags q) 0) \<and>
     (s = s_chunk_size_start \<longrightarrow> hp_nread q = n)"

text \<open>Between two calls: a parser that stopped on an error is never run again.\<close>

definition parser_ok :: "'d http_parser \<Rightarrow> bool" where
  "parser_ok q \<longleftrightarrow> (hp_errno q = HPE_OK \<or> hp_errno q = HPE_PAUSED \<longrightarrow> state_inv 0 (hp_state q) q)"

text \<open>The mark a state may hold, and the marks during a run.\<close>

definition mark_of :: "state \<Rightarrow> data_cb option" where
  "mark_of s =
     (if s = s_header_field then Some cb_header_field
      else if s = s_header_value then Some cb_header_value
      else if is_url_state s then Some cb_url
      else if s = s_res_status then Some cb_status
      else if s = s_body_identity \<or> s = s_body_identity_eof \<or> s = s_chunk_data \<or>
        s = s_chunk_data_almost_done then Some cb_body
      else None)"

definition marks_inv :: "'d exec \<Rightarrow> bool" where
  "marks_inv e \<longleftrightarrow>
     (\<forall>k m. marks e k = Some m \<longrightarrow> mark_of (p_state e) = Some k \<and> m \<le> pos e) \<and>
     (\<forall>k. mark_of (p_state e) = Some k \<longrightarrow> k \<noteq> cb_body \<longrightarrow> marks e k \<noteq> None)"

text \<open>How many more times a state can be reexecuted on one byte.\<close>

definition reexec_rank :: "state \<Rightarrow> nat" where
  "reexec_rank s =
     (if s = s_header_value_lws \<or> s = s_header_value_discard_lws then 4
      else if s = s_header_field_start then 3
      else if s = s_headers_almost_done then 2
      else if s = s_headers_done \<or> s = s_message_done \<or> s = s_start_req \<or> s = s_header_almost_done \<or>
        s = s_header_value_start then 1
      else 5)"

definition byte_inv :: "uint32_t \<Rightarrow> bytes \<Rightarrow> 'd exec \<Rightarrow> bool" where
  "byte_inv n data e \<longleftrightarrow> pos e < length data \<and> hp_errno (parser e) = HPE_OK \<and>
     state_inv n (p_state e) (parser e) \<and> marks_inv e"

text \<open>What one pass through the switch in a state of rank \<open>r\<close> establishes.\<close>

definition reexec_ok :: "nat \<Rightarrow> bytes \<Rightarrow> 'd exec \<Rightarrow> bool" where
  "reexec_ok r data e \<longleftrightarrow> byte_inv 1 data e \<and> reexec_rank (p_state e) < r"

definition error_ok :: "bytes \<Rightarrow> 'd exec \<Rightarrow> bool" where
  "error_ok data e \<longleftrightarrow> hp_errno (parser e) \<noteq> HPE_OK \<and> hp_errno (parser e) \<noteq> HPE_PAUSED \<and> pos e \<le> length data"

definition return_ok :: "bytes \<Rightarrow> 'd http_parser \<Rightarrow> nat \<Rightarrow> bool" where
  "return_ok data q n \<longleftrightarrow> parser_ok q \<and> n \<le> length data \<and>
     (n = length data \<or> hp_errno q \<noteq> HPE_OK \<or> hp_upgrade q)"

abbreviation safe :: "nat \<Rightarrow> bytes \<Rightarrow> 'd outcome \<Rightarrow> bool" where
  "safe r data \<equiv> outcome_wp (byte_inv 0 data) (reexec_ok r data) (error_ok data) (return_ok data) False"

section \<open>Fields that do not matter\<close>

lemma state_inv_upd [simp]:
  "state_inv n s (q\<lparr>hp_data := d\<rparr>) = state_inv n s q"
  "state_inv n s (q\<lparr>hp_errno := x\<rparr>) = state_inv n s q"
  "state_inv n s (q\<lparr>hp_state := t\<rparr>) = state_inv n s q"
  "state_inv n s (q\<lparr>hp_type := ty\<rparr>) = state_inv n s q"
  "state_inv n s (q\<lparr>hp_upgrade := u\<rparr>) = state_inv n s q"
  "state_inv n s (q\<lparr>hp_http_major := w\<rparr>) = state_inv n s q"
  "state_inv n s (q\<lparr>hp_http_minor := w\<rparr>) = state_inv n s q"
  "state_inv n s (q\<lparr>hp_status_code := w\<rparr>) = state_inv n s q"
  by (simp_all add: state_inv_def)

lemma parser_ok_upd [simp]:
  "parser_ok (q\<lparr>hp_data := d\<rparr>) = parser_ok q"
  by (simp add: parser_ok_def)

lemma keeps_parserE:
  assumes "keeps_parser q q'"
  obtains d x where "q' = q\<lparr>hp_data := d, hp_errno := x\<rparr>"
  using assms by (auto simp: keeps_parser_def)

section \<open>Callbacks that keep the contract\<close>

text \<open>
  After a callback only \<^verbatim>\<open>data\<close> and the stored \<^verbatim>\<open>state\<close> of the structure can differ, or
  the run ends with an error number set.
\<close>

definition after_cb :: "'d \<Rightarrow> state \<Rightarrow> 'd exec \<Rightarrow> 'd exec" where
  "after_cb d s e = upd_parser (\<lambda>q. q\<lparr>hp_data := d, hp_state := s\<rparr>) e"

definition drop_mark :: "data_cb \<Rightarrow> 'd exec \<Rightarrow> 'd exec" where
  "drop_mark k e = e\<lparr>marks := (marks e)(k := None)\<rparr>"

definition stopped :: "'d \<Rightarrow> http_errno \<Rightarrow> 'd exec \<Rightarrow> 'd http_parser" where
  "stopped d x e = (parser e)\<lparr>hp_state := p_state e, hp_data := d, hp_errno := x\<rparr>"

lemma after_cb_fields [simp]:
  "pos (after_cb d s e) = pos e" "ch (after_cb d s e) = ch e" "p_state (after_cb d s e) = p_state e"
  "marks (after_cb d s e) = marks e"
  "parser (after_cb d s e) = (parser e)\<lparr>hp_data := d, hp_state := s\<rparr>"
  by (simp_all add: after_cb_def)

lemma after_cb_p_state [simp]: "(after_cb d s e)\<lparr>p_state := p_state e\<rparr> = after_cb d s e"
  by (cases e) (simp add: after_cb_def upd_parser_def)

lemma drop_mark_fields [simp]:
  "pos (drop_mark k e) = pos e" "ch (drop_mark k e) = ch e" "p_state (drop_mark k e) = p_state e"
  "parser (drop_mark k e) = parser e" "marks (drop_mark k e) = (marks e)(k := None)"
  by (simp_all add: drop_mark_def)

lemma wp_after_callback:
  assumes "keeps_parser ((parser e)\<lparr>hp_state := p_state e\<rparr>) (fst res)" "errno \<noteq> HPE_OK"
    "\<And>d. outcome_wp N R E T F (k (after_cb d (p_state e) e))"
    "\<And>d x. x \<noteq> HPE_OK \<Longrightarrow> T (stopped d x e) er" "hp_errno (parser e) = HPE_OK"
  shows "outcome_wp N R E T F (after_callback res errno er e k)"
proof -
  obtain d x where "fst res = (parser e)\<lparr>hp_state := p_state e, hp_data := d, hp_errno := x\<rparr>"
    using assms(1) by (elim keeps_parserE) auto
  moreover have "e\<lparr>parser := (parser e)\<lparr>hp_state := p_state e, hp_data := d, hp_errno := HPE_OK\<rparr>,
      p_state := p_state e\<rparr> = after_cb d (p_state e) e"
    using assms(5) by (cases e; cases "parser e") (auto simp: after_cb_def upd_parser_def)
  ultimately show ?thesis
    using assms(2-4) by (auto simp: after_callback_def Let_def stopped_def)
qed

lemma drop_mark_None: "marks e k = None \<Longrightarrow> drop_mark k e = e"
  by (cases e) (auto simp: drop_mark_def fun_upd_idem)

lemma after_cb_same: "after_cb (hp_data (parser e)) (hp_state (parser e)) e = e"
  by (cases e) (simp add: after_cb_def upd_parser_def)

context parser_client
begin

lemma wp_notify:
  assumes "hp_errno (parser e) = HPE_OK"
    and "\<And>d s. outcome_wp N R E T F (k (after_cb d s e))"
    and "\<And>d x. x \<noteq> HPE_OK \<Longrightarrow> T (stopped d x e) er"
  shows "outcome_wp N R E T F (CALLBACK_NOTIFY_er settings j er e k)"
proof (cases "on_notify settings j")
  case None
  then show ?thesis
    using assms(1) assms(2) [of "hp_data (parser e)" "hp_state (parser e)"]
    by (simp add: CALLBACK_NOTIFY_er_def wp_simps after_cb_same)
next
  case (Some f)
  have "notify_errno j \<noteq> HPE_OK" by (simp add: notify_errno_def split: notify_cb.split)
  with Some show ?thesis
    using assms notify_keeps [OF Some] by (auto simp: CALLBACK_NOTIFY_er_def wp_simps intro: wp_after_callback)
qed

lemma wp_data:
  assumes "hp_errno (parser e) = HPE_OK"
    and "\<And>d s. outcome_wp N R E T F (k (drop_mark j (after_cb d s e)))"
    and "\<And>d x. x \<noteq> HPE_OK \<Longrightarrow> T (stopped d x e) er"
  shows "outcome_wp N R E T F (CALLBACK_DATA_er settings data j stop er e k)"
proof -
  note same = assms(2) [of "hp_data (parser e)" "hp_state (parser e)", unfolded after_cb_same]
  consider "marks e j = None" | m where "marks e j = Some m" "on_data settings j = None"
    | m g where "marks e j = Some m" "on_data settings j = Some g"
    by (cases "marks e j"; cases "on_data settings j") auto
  then show ?thesis
  proof cases
    case 1
    then show ?thesis using same assms(1) by (simp add: CALLBACK_DATA_er_def wp_simps drop_mark_None)
  next
    case 2
    then show ?thesis using same assms(1) by (simp add: CALLBACK_DATA_er_def wp_simps drop_mark_def)
  next
    case 3
    have "data_errno j \<noteq> HPE_OK" by (simp add: data_errno_def split: data_cb.split)
    moreover have "(after_cb d s e)\<lparr>marks := (marks (after_cb d s e))(j := None)\<rparr> = drop_mark j (after_cb d s e)" for d s
      by (simp add: drop_mark_def)
    ultimately show ?thesis
      using 3 assms data_keeps [OF 3(2)]
      by (auto simp: CALLBACK_DATA_er_def wp_simps drop_mark_def intro!: wp_after_callback)
  qed
qed

lemmas wp_callbacks =
  wp_notify wp_data
  wp_notify [where er = "pos e + 1" and e = e for e, folded CALLBACK_NOTIFY_def]
  wp_notify [where er = "pos e" and e = e for e, folded CALLBACK_NOTIFY_NOADVANCE_def]
  wp_data [where er = "pos e + 1" and stop = "pos e" and e = e for e, folded CALLBACK_DATA_def]
  wp_data [where er = "pos e" and stop = "pos e" and e = e for e, folded CALLBACK_DATA_NOADVANCE_def]

end

end
