(* ===== verification/Http_Safety.thy ===== *)
theory Http_Safety
  imports Http_Client
begin

text \<open>
  Every case of the switch keeps the invariants of \<open>Http_Client\<close>; hence a run of the parser
  fails no assertion, reads only inside the input and ends.
\<close>

lemmas ok_defs = byte_inv_def reexec_ok_def error_ok_def return_ok_def parser_ok_def stopped_def

lemma mark_of_url [simp]: "is_url_state s \<Longrightarrow> mark_of s = Some cb_url"
  by (auto simp: mark_of_def is_url_state_def)

lemma marks_inv_no_mark: "mark_of (p_state e) = None \<Longrightarrow> marks_inv e = (\<forall>k. marks e k = None)"
  by (auto simp: marks_inv_def)

lemma marks_inv_mark:
  "mark_of (p_state e) = Some j \<Longrightarrow> j \<noteq> cb_body \<Longrightarrow>
   marks_inv e = ((\<forall>k. k \<noteq> j \<longrightarrow> marks e k = None) \<and> (\<exists>m \<le> pos e. marks e j = Some m))"
  unfolding marks_inv_def by simp (metis not_None_eq option.inject)

lemma marks_inv_body:
  "mark_of (p_state e) = Some cb_body \<Longrightarrow>
   marks_inv e = ((\<forall>k. k \<noteq> cb_body \<longrightarrow> marks e k = None) \<and> (\<forall>m. marks e cb_body = Some m \<longrightarrow> m \<le> pos e))"
  unfolding marks_inv_def by simp (metis not_None_eq)

lemmas marks_simps = marks_inv_no_mark marks_inv_mark marks_inv_body marks_MARK

lemma mark_of_simps [simp]:
  "mark_of s_dead = None" "mark_of s_start_req_or_res = None" "mark_of s_res_or_resp_H = None"
  "mark_of s_start_res = None" "mark_of s_res_H = None" "mark_of s_res_HT = None"
  "mark_of s_res_HTT = None" "mark_of s_res_HTTP = None" "mark_of s_res_first_http_major = None"
  "mark_of s_res_http_major = None" "mark_of s_res_first_http_minor = None"
  "mark_of s_res_http_minor = None" "mark_of s_res_first_status_code = None"
  "mark_of s_res_status_code = None" "mark_of s_res_status_start = None"
  "mark_of s_res_line_almost_done = None" "mark_of s_start_req = None" "mark_of s_req_method = None"
  "mark_of s_req_spaces_before_url = None" "mark_of s_req_http_start = None"
  "mark_of s_req_http_H = None" "mark_of s_req_http_HT = None" "mark_of s_req_http_HTT = None"
  "mark_of s_req_http_HTTP = None" "mark_of s_req_first_http_major = None"
  "mark_of s_req_http_major = None" "mark_of s_req_first_http_minor = None"
  "mark_of s_req_http_minor = None" "mark_of s_req_line_almost_done = None"
  "mark_of s_header_field_start = None" "mark_of s_header_value_discard_ws = None"
  "mark_of s_header_value_discard_ws_almost_done = None" "mark_of s_header_value_discard_lws = None"
  "mark_of s_header_value_start = None" "mark_of s_header_value_lws = None"
  "mark_of s_header_almost_done = None" "mark_of s_chunk_size_start = None"
  "mark_of s_chunk_size = None" "mark_of s_chunk_parameters = None"
  "mark_of s_chunk_size_almost_done = None" "mark_of s_headers_almost_done = None"
  "mark_of s_headers_done = None" "mark_of s_chunk_data_done = None" "mark_of s_message_done = None"
  "mark_of s_header_field = Some cb_header_field" "mark_of s_header_value = Some cb_header_value"
  "mark_of s_res_status = Some cb_status" "mark_of s_body_identity = Some cb_body"
  "mark_of s_body_identity_eof = Some cb_body" "mark_of s_chunk_data = Some cb_body"
  "mark_of s_chunk_data_almost_done = Some cb_body"
  by (simp_all add: mark_of_def is_url_state_def)

lemma is_url_state_simps [simp]:
  "is_url_state s_req_path" "is_url_state s_req_schema" "is_url_state s_req_schema_slash"
  "is_url_state s_req_schema_slash_slash" "is_url_state s_req_server_start"
  "is_url_state s_req_server" "is_url_state s_req_server_with_at"
  "is_url_state s_req_query_string_start" "is_url_state s_req_query_string"
  "is_url_state s_req_fragment_start" "is_url_state s_req_fragment"
  by (simp_all add: is_url_state_def)

text \<open>The URL automaton stays among the URL states until it rejects.\<close>

lemma url_state_step: "parse_url_char s c \<noteq> s_dead \<Longrightarrow> is_url_state (parse_url_char s c)"
  by (cases s) (simp_all add: parse_url_char_def parse_url_server_def is_url_state_def split: if_splits)

lemma url_state_not [simp]:
  "is_url_state s \<Longrightarrow> state_inv n s q"
  by (auto simp: is_url_state_def state_inv_def)

lemma state_inv_nread: "s \<noteq> s_chunk_size_start \<Longrightarrow> state_inv m s q = state_inv n s q"
  by (simp add: state_inv_def)

context parser_client
begin

lemma safe_line:
  assumes "byte_inv 1 data e"
  shows "p_state e = s_dead \<Longrightarrow> safe 5 data (exec_dead e)"
    and "p_state e = s_start_req_or_res \<Longrightarrow> safe 5 data (exec_start_req_or_res settings e)"
    and "p_state e = s_res_or_resp_H \<Longrightarrow> safe 5 data (exec_res_or_resp_H e)"
    and "p_state e = s_start_res \<Longrightarrow> safe 5 data (exec_start_res settings e)"
    and "p_state e = s_res_first_http_major \<Longrightarrow> safe 5 data (exec_res_first_http_major e)"
    and "p_state e = s_res_http_major \<Longrightarrow> safe 5 data (exec_res_http_major e)"
    and "p_state e = s_res_first_http_minor \<Longrightarrow> safe 5 data (exec_res_first_http_minor e)"
    and "p_state e = s_res_http_minor \<Longrightarrow> safe 5 data (exec_res_http_minor e)"
    and "p_state e = s_res_first_status_code \<Longrightarrow> safe 5 data (exec_res_first_status_code e)"
    and "p_state e = s_res_status_code \<Longrightarrow> safe 5 data (exec_res_status_code e)"
    and "p_state e = s_res_status_start \<Longrightarrow> safe 5 data (exec_res_status_start e)"
    and "p_state e = s_res_status \<Longrightarrow> safe 5 data (exec_res_status settings data e)"
    and "p_state e = s_req_http_start \<Longrightarrow> safe 5 data (exec_req_http_start e)"
    and "p_state e = s_req_first_http_major \<Longrightarrow> safe 5 data (exec_req_first_http_major e)"
    and "p_state e = s_req_http_major \<Longrightarrow> safe 5 data (exec_req_http_major e)"
    and "p_state e = s_req_first_http_minor \<Longrightarrow> safe 5 data (exec_req_first_http_minor e)"
    and "p_state e = s_req_http_minor \<Longrightarrow> safe 5 data (exec_req_http_minor e)"
    and "p_state e = s_req_line_almost_done \<Longrightarrow> safe 5 data (exec_req_line_almost_done e)"
  using assms
  by (simp_all add: line_defs wp_simps Let_def wp_callbacks ok_defs marks_simps state_inv_def reexec_rank_def)

lemma safe_expect:
  assumes "byte_inv 1 data e" "mark_of (p_state e) = None" "mark_of s = None"
    "state_inv 0 s (parser e)"
  shows "safe r data (exec_expect c s e)"
  using assms
  by (simp add: exec_expect_def wp_simps ok_defs marks_simps)

lemma safe_start_req:
  assumes "byte_inv 1 data e" "p_state e = s_start_req"
  shows "safe r data (exec_start_req settings e)"
  using assms method_of_first_length [of "ch e"]
  by (auto simp: exec_start_req_def reset_message_def wp_simps Let_def wp_callbacks ok_defs marks_simps state_inv_def split: option.split)

lemma safe_req_method:
  assumes "byte_inv 1 data e" "p_state e = s_req_method"
  shows "safe 5 data (exec_req_method e)"
proof -
  let ?m = "hp_method (parser e)" and ?i = "hp_index (parser e)"
  have le: "unat ?i \<le> length (method_strings ?m)"
    using assms by (simp add: byte_inv_def state_inv_def)
  then have "unat (?i + 1) = unat ?i + 1"
    using method_strings_length [of ?m] by (intro unat_incr_index) simp
  then show ?thesis
    using assms le method_switch_length [of ?m "unat ?i" "ch e"]
    by (auto simp: exec_req_method_def incr_index_def c_str_at_def wp_simps Let_def ok_defs marks_simps
        state_inv_def split: option.split)
qed

lemma safe_url_char:
  assumes "pos e < length data" "hp_errno (parser e) = HPE_OK" "marks e cb_url = Some m" "m \<le> pos e"
    "\<And>k. k \<noteq> cb_url \<Longrightarrow> marks e k = None"
  shows "safe r data (exec_url_char e)"
  using assms url_state_step [of "p_state e" "ch e"]
  by (cases "parse_url_char (p_state e) (ch e) = s_dead")
    (auto simp: exec_url_char_def wp_simps ok_defs marks_inv_mark Let_def)

lemma safe_url_states:
  assumes "byte_inv 1 data e" "is_url_state (p_state e)"
  shows "safe r data (exec_req_schema e)" "safe r data (exec_req_url settings data e)"
proof -
  obtain m where m: "pos e < length data" "hp_errno (parser e) = HPE_OK" "marks e cb_url = Some m"
    "m \<le> pos e" "\<And>k. k \<noteq> cb_url \<Longrightarrow> marks e k = None"
    using assms by (auto simp: byte_inv_def marks_inv_mark)
  show "safe r data (exec_req_schema e)"
    using m(1,2) safe_url_char [OF m] by (simp add: exec_req_schema_def wp_simps error_ok_def)
  show "safe r data (exec_req_url settings data e)"
    using m(1,2,5) safe_url_char [OF m]
    by (simp add: exec_req_url_def wp_simps wp_callbacks set_minor_def set_major_def ok_defs
        state_inv_def marks_simps)
qed

lemma safe_req_spaces:
  assumes "byte_inv 1 data e" "p_state e = s_req_spaces_before_url"
  shows "safe 5 data (exec_req_spaces_before_url e)"
  using assms
  by (simp add: exec_req_spaces_before_url_def wp_simps Let_def safe_url_char marks_MARK byte_inv_def
      marks_simps state_inv_def)

lemmas safe_request_line = safe_line safe_start_req safe_req_method safe_url_states safe_req_spaces

end

section \<open>Header fields\<close>

lemma match_const_cases: "match_const NAME cur found other c i \<in> {cur, found, other}"
  by (simp add: match_const_def)

lemma first_header_state_field: "first_header_state c \<in> field_states"
  by (simp add: first_header_state_def field_states_def)

lemma header_field_char_ok:
  assumes "hp_header_state q \<in> field_states"
  shows "\<exists>q'. header_field_char b c q = Some q' \<and> hp_header_state q' \<in> field_states \<and> hp_errno q' = hp_errno q"
  using assms
  by (cases "hp_header_state q")
    (simp_all add: header_field_char_def Let_def field_states_def match_const_def)

lemma header_field_loop_ok:
  "hp_header_state (parser e) \<in> field_states \<Longrightarrow>
   \<exists>e'. header_field_loop bs e = Some e' \<and> hp_header_state (parser e') \<in> field_states \<and>
     hp_errno (parser e') = hp_errno (parser e) \<and> p_state e' = p_state e \<and> marks e' = marks e \<and>
     pos e \<le> pos e' \<and> pos e' \<le> pos e + length bs"
proof (induction bs arbitrary: e)
  case (Cons b bs)
  obtain q where q: "header_field_char b (TOKEN b) (parser e) = Some q"
    "hp_header_state q \<in> field_states" "hp_errno q = hp_errno (parser e)"
    using header_field_char_ok [OF Cons.prems] by blast
  then show ?case
    using Cons.IH [of "e\<lparr>ch := b, parser := q, pos := pos e + 1\<rparr>"] Cons.prems
    by (auto simp: Let_def)
qed simp

definition value_state :: "header_states \<Rightarrow> bool" where
  "value_state h \<longleftrightarrow> h \<noteq> h_connection \<and> h \<noteq> h_transfer_encoding"

lemma match_const_value:
  "value_state cur \<Longrightarrow> value_state found \<Longrightarrow> value_state other \<Longrightarrow> value_state (match_const NAME cur found other c i)"
  using match_const_cases [of NAME cur found other c i] by auto

lemma header_value_char_ok:
  assumes "value_state h" "hp_errno (parser e) = HPE_OK" "pos e < length data"
  shows "header_value_char e h = Inl out \<Longrightarrow> \<exists>e'. out = Error e' \<and> error_ok data e'"
    and "header_value_char e h = Inr (e', h') \<Longrightarrow> p_state e = s_header_value \<Longrightarrow>
      value_state h' \<and> p_state e' = s_header_value \<and> hp_errno (parser e') = HPE_OK \<and> marks e' = marks e"
  using assms
  by (cases h; auto simp: header_value_char_def content_length_char_def connection_token_end_def
      token_start_state_def value_state_def error_ok_def Let_def match_const_value [unfolded value_state_def]
      split: if_splits)+

lemma safe_header_value_start:
  assumes "byte_inv 1 data e" "mark_of (p_state e) = None"
  shows "safe r data (exec_header_value_start e)"
  using assms
  by (cases "hp_header_state (parser e)")
    (simp_all add: exec_header_value_start_def wp_simps Let_def ok_defs marks_simps state_inv_def)

context parser_client
begin

lemma safe_header_field_start:
  assumes "byte_inv 1 data e" "p_state e = s_header_field_start"
  shows "safe 3 data (exec_header_field_start e)"
  using assms first_header_state_field [of "TOKEN (ch e)"]
  by (simp add: exec_header_field_start_def wp_simps Let_def ok_defs marks_simps state_inv_def reexec_rank_def)

lemma safe_header_field:
  assumes "byte_inv 1 data e" "p_state e = s_header_field"
  shows "safe r data (exec_header_field settings data e)"
proof -
  have "hp_header_state (parser e) \<in> field_states" using assms by (simp add: byte_inv_def state_inv_def)
  then obtain e' where e': "header_field_loop (drop (pos e) data) e = Some e'"
    "hp_header_state (parser e') \<in> field_states" "hp_errno (parser e') = hp_errno (parser e)"
    "p_state e' = p_state e" "marks e' = marks e" "pos e \<le> pos e'" "pos e' \<le> length data"
    using header_field_loop_ok [of e "drop (pos e) data"] assms(1) by (auto simp: byte_inv_def)
  with assms show ?thesis
    by (simp add: exec_header_field_def wp_simps wp_callbacks Let_def ok_defs marks_simps state_inv_def)
      (auto intro: order_trans)
qed

lemma safe_header_value_end:
  assumes "hp_errno (parser e) = HPE_OK" "pos e \<le> length data" "0 < length data" "value_state h"
    "(p_state e = s_header_value \<and> pos e = length data \<and> (\<exists>m < length data. marks e cb_header_value = Some m)) \<or>
     (p_state e = s_header_almost_done \<and> pos e < length data \<and> marks e cb_header_value = None)"
    "\<And>k. k \<noteq> cb_header_value \<Longrightarrow> marks e k = None"
  shows "safe r data (header_value_end data start h e)"
proof -
  have all: "p_state e = s_header_almost_done \<Longrightarrow> marks e k = None" for k
    using assms(5,6) by (cases "k = cb_header_value") auto
  show ?thesis
    using assms all
    by (auto simp: header_value_end_def wp_simps ok_defs marks_simps state_inv_def value_state_def)
qed

lemma safe_header_value_loop:
  "hp_errno (parser e) = HPE_OK \<Longrightarrow> value_state h \<Longrightarrow> p_state e = s_header_value \<Longrightarrow>
   marks e cb_header_value = Some m \<Longrightarrow> m < length data \<Longrightarrow> m \<le> pos e \<Longrightarrow>
   (\<And>k. k \<noteq> cb_header_value \<Longrightarrow> marks e k = None) \<Longrightarrow>
   pos e + length bs = length data \<Longrightarrow> safe 5 data (header_value_loop settings data start bs h e)"
proof (induction bs arbitrary: h e rule: length_induct)
  case (1 bs)
  show ?case
  proof (cases bs)
    case Nil
    with "1.prems" show ?thesis by (simp, intro safe_header_value_end) auto
  next
    case (Cons b cs)
    note prems = "1.prems" [unfolded Cons]
    consider "b = CR" | "b = LF" | "b \<noteq> CR" "b \<noteq> LF" "h = h_general" | "b \<noteq> CR" "b \<noteq> LF" "h \<noteq> h_general"
      by blast
    then show ?thesis
    proof cases
      case 1
      with prems Cons show ?thesis
        by (simp add: header_value_CR_def, intro wp_callbacks(5) safe_header_value_end)
          (auto simp: ok_defs state_inv_def)
    next
      case 2
      have "marks e k = None \<or> k = cb_header_value" for k using prems(7) by blast
      with 2 prems Cons show ?thesis
        by (simp add: header_value_LF_def wp_callbacks wp_simps ok_defs state_inv_def marks_simps reexec_rank_def)
    next
      case 3
      let ?n = "line_skip (b # cs)"
      have "length (drop ?n bs) < length bs" using line_skip_pos [of b cs] 3 Cons by simp
      with 3 prems Cons show ?thesis
        using "1.IH" [rule_format, of "drop ?n bs" "e\<lparr>ch := b, pos := pos e + ?n\<rparr>" h_general] line_skip_le [of "b # cs"]
        by simp
    next
      case 4
      show ?thesis
      proof (cases "header_value_char (e\<lparr>ch := b\<rparr>) h")
        case (Inl out)
        then show ?thesis
          using 4 prems header_value_char_ok(1) [of h "e\<lparr>ch := b\<rparr>" data out] by (auto simp: Cons)
      next
        case (Inr r)
        obtain e' h' where r: "r = (e', h')" by (cases r)
        have same: "value_state h'" "p_state e' = s_header_value" "hp_errno (parser e') = HPE_OK" "marks e' = marks e"
          using header_value_char_ok(2) [of h "e\<lparr>ch := b\<rparr>" data e' h'] Inr r prems by auto
        have "pos e' = pos e" using header_value_char_pos Inr r by fastforce
        with same prems show ?thesis
          using 4 Inr r "1.IH" [rule_format, of cs "e'\<lparr>pos := pos e' + 1\<rparr>" h'] by (simp add: Cons)
      qed
    qed
  qed
qed

lemma safe_header_value:
  assumes "byte_inv 1 data e" "p_state e = s_header_value"
  shows "safe 5 data (exec_header_value settings data e)"
  using assms unfolding exec_header_value_def
  by (auto simp: byte_inv_def state_inv_def marks_simps value_state_def intro!: safe_header_value_loop)

lemma set_header_flag_fields [simp]:
  "pos (set_header_flag e) = pos e" "p_state (set_header_flag e) = p_state e"
  "marks (set_header_flag e) = marks e" "ch (set_header_flag e) = ch e"
  "hp_errno (parser (set_header_flag e)) = hp_errno (parser e)"
  "hp_header_state (parser (set_header_flag e)) = hp_header_state (parser e)"
  by (simp_all add: set_header_flag_def split: header_states.split)

lemma safe_header_rest:
  assumes "byte_inv 1 data e"
  shows "p_state e = s_header_value_discard_ws \<Longrightarrow> safe 5 data (exec_header_value_discard_ws e)"
    and "p_state e = s_header_value_lws \<Longrightarrow> safe 4 data (exec_header_value_lws e)"
    and "p_state e = s_header_value_discard_lws \<Longrightarrow>
      safe 4 data (exec_header_value_discard_lws settings data e)"
proof -
  show "p_state e = s_header_value_discard_ws \<Longrightarrow> safe 5 data (exec_header_value_discard_ws e)"
    using assms safe_header_value_start [OF assms]
    by (simp add: exec_header_value_discard_ws_def) (simp add: ok_defs marks_simps state_inv_def)
qed (use assms in \<open>simp_all add: exec_header_value_lws_def exec_header_value_discard_lws_def wp_callbacks
      ok_defs marks_simps state_inv_def reexec_rank_def\<close>)

end

section \<open>Bodies\<close>

lemma NEW_MESSAGE_cases:
  "NEW_MESSAGE q = s_start_req \<or> NEW_MESSAGE q = s_start_res \<or> NEW_MESSAGE q = s_dead"
  by (simp add: NEW_MESSAGE_def start_state_def)

lemma NEW_MESSAGE_inv [simp]:
  "state_inv n (NEW_MESSAGE q) q'" "mark_of (NEW_MESSAGE q) = None"
  using NEW_MESSAGE_cases [of q] by (auto simp: state_inv_def)

lemma unhex_range: "unhex c \<noteq> -1 \<Longrightarrow> 0 \<le> unhex c \<and> unhex c \<le> 15"
proof -
  have "\<forall>x \<in> set unhex_table. x = -1 \<or> 0 \<le> x \<and> x \<le> 15" by (simp add: unhex_table_def)
  then show "unhex c \<noteq> -1 \<Longrightarrow> 0 \<le> unhex c \<and> unhex c \<le> 15"
    by (auto simp: unhex_def table_at_def)
qed

lemma unat_unhex: "unhex c \<noteq> -1 \<Longrightarrow> unat (of_int (unhex c) :: uint64_t) = nat (unhex c)"
  using unhex_range [of c] by (simp add: unat_eq_nat_uint word_of_int_eq_iff uint_word_of_int)

lemma unat_ULLONG_MAX: "unat ULLONG_MAX = 2 ^ 64 - 1"
  by (simp add: ULLONG_MAX_def)

text \<open>A hexadecimal digit pushed onto a length that passed the overflow test.\<close>

lemma chunk_push_digit:
  assumes "\<not> (ULLONG_MAX - 16) div 16 < x" "unhex c \<noteq> -1"
  shows "unat (x * 16 + of_int (unhex c)) = unat x * 16 + nat (unhex c)"
    and "x * 16 + of_int (unhex c) \<noteq> ULLONG_MAX"
proof -
  have "unat x \<le> (2 ^ 64 - 17) div 16"
    using assms(1) by (simp add: word_less_nat_alt unat_div ULLONG_MAX_def not_less)
  moreover have "nat (unhex c) \<le> 15" using unhex_range [OF assms(2)] by (simp add: nat_le_iff)
  ultimately have le: "unat x * 16 + nat (unhex c) < 2 ^ 64 - 1" by simp
  then show eq: "unat (x * 16 + of_int (unhex c)) = unat x * 16 + nat (unhex c)"
    using unat_unhex [OF assms(2)] by (simp add: unat_word_ariths)
  show "x * 16 + of_int (unhex c) \<noteq> ULLONG_MAX"
  proof
    assume "x * 16 + of_int (unhex c) = ULLONG_MAX"
    then show False using le eq unat_ULLONG_MAX by simp
  qed
qed

lemma unhex_not_max: "unhex c \<noteq> -1 \<Longrightarrow> (of_int (unhex c) :: uint64_t) \<noteq> ULLONG_MAX"
  using chunk_push_digit(2) [of 0 c] by simp

lemma take_body_fields [simp]:
  "p_state (take_body n e) = p_state e" "marks (take_body n e) = marks e" "ch (take_body n e) = ch e"
  "parser (take_body n e) = (parser e)\<lparr>hp_content_length := hp_content_length (parser e) - n\<rparr>"
  "pos (take_body n e) = pos e + (unat n - 1)"
  by (simp_all add: take_body_def set_content_length_def)

lemma body_left:
  assumes "hp_content_length (parser e) \<noteq> ULLONG_MAX"
  shows "hp_content_length (parser e) - to_read data e \<noteq> ULLONG_MAX"
proof -
  have "to_read data e \<le> hp_content_length (parser e)" by (simp add: to_read_def)
  then have "hp_content_length (parser e) - to_read data e \<le> hp_content_length (parser e)"
    by (metis word_sub_le)
  moreover have "x < ULLONG_MAX" if "x \<noteq> ULLONG_MAX" for x :: uint64_t
    using that unsigned_less [of x, where 'a = nat] by (auto simp: word_less_nat_alt unat_ULLONG_MAX word_unat_eq_iff)
  ultimately show ?thesis using assms by (metis leD)
qed

lemma body_pos: "pos e < length data \<Longrightarrow> pos e + (unat (to_read data e) - 1) < length data"
  using to_read_le [of data e] by simp

context parser_client
begin

lemma safe_message_complete:
  assumes "byte_inv 1 data e" "mark_of (p_state e) = None"
    "\<And>d s. safe r data (k (after_cb d s (UPDATE_STATE (NEW_MESSAGE (parser e)) e)))"
  shows "safe r data (message_complete settings e k)"
  using assms by (simp add: message_complete_def wp_callbacks ok_defs)

lemma safe_headers_almost_done:
  assumes "byte_inv 1 data e" "p_state e = s_headers_almost_done"
  shows "safe 2 data (exec_headers_almost_done settings e)"
proof (cases "on_headers_complete settings")
  case None
  with assms show ?thesis
    by (simp add: exec_headers_almost_done_def wp_simps wp_callbacks Let_def ok_defs marks_simps state_inv_def
        reexec_rank_def)
next
  case (Some f)
  have "\<exists>d x. fst (f q) = q\<lparr>hp_data := d, hp_errno := x\<rparr>" for q
    using headers_keeps [OF Some] by (blast elim: keeps_parserE)
  then obtain D X where f: "fst (f q) = q\<lparr>hp_data := D q, hp_errno := X q\<rparr>" for q by metis
  show ?thesis
    using assms Some
    by (simp add: exec_headers_almost_done_def wp_simps wp_callbacks Let_def ok_defs marks_simps state_inv_def
        reexec_rank_def case_prod_beta f)
qed

lemma safe_headers_done:
  assumes "byte_inv 1 data e" "p_state e = s_headers_done"
  shows "safe r data (exec_headers_done settings e)"
  using assms
  by (simp add: exec_headers_done_def message_complete_def wp_simps wp_callbacks Let_def set_nread_def ok_defs
      marks_simps state_inv_def [of _ s_chunk_size_start] state_inv_def [of _ s_body_identity]
      state_inv_def [of _ s_body_identity_eof] flag_simps)

lemma safe_message_done:
  assumes "byte_inv 1 data e" "p_state e = s_message_done"
  shows "safe r data (exec_message_done settings e)"
  using assms by (simp add: exec_message_done_def message_complete_def wp_simps wp_callbacks ok_defs marks_simps)

lemma safe_body_identity:
  assumes "byte_inv 1 data e" "p_state e = s_body_identity"
  shows "safe 5 data (exec_body_identity settings data e)"
  using assms body_left [of e data] body_pos [of e data]
  by (simp add: exec_body_identity_def wp_simps wp_callbacks Let_def ok_defs marks_simps state_inv_def reexec_rank_def)
    (auto intro: trans_le_add1)

lemma safe_body_identity_eof:
  assumes "byte_inv 1 data e" "p_state e = s_body_identity_eof"
  shows "safe 5 data (exec_body_identity_eof data e)"
  using assms
  by (auto simp: exec_body_identity_eof_def wp_simps Let_def ok_defs marks_simps state_inv_def)

lemma safe_chunk_size:
  assumes "byte_inv 1 data e"
  shows "p_state e = s_chunk_size_start \<Longrightarrow> safe 5 data (exec_chunk_size_start e)"
    and "p_state e = s_chunk_size \<Longrightarrow> safe 5 data (exec_chunk_size e)"
    and "p_state e = s_chunk_parameters \<Longrightarrow> safe 5 data (exec_chunk_parameters e)"
    and "p_state e = s_chunk_size_almost_done \<Longrightarrow> safe 5 data (exec_chunk_size_almost_done settings e)"
    and "p_state e = s_chunk_data_almost_done \<Longrightarrow> safe 5 data (exec_chunk_data_almost_done settings data e)"
    and "p_state e = s_chunk_data_done \<Longrightarrow> safe 5 data (exec_chunk_data_done settings e)"
  using assms chunk_push_digit(2) [of "hp_content_length (parser e)" "ch e"] unhex_not_max [of "ch e"]
  by (simp_all add: body_defs wp_simps wp_callbacks Let_def ok_defs marks_simps state_inv_def flag_simps)

lemma safe_chunk_data:
  assumes "byte_inv 1 data e" "p_state e = s_chunk_data"
  shows "safe 5 data (exec_chunk_data data e)"
  using assms body_left [of e data] body_pos [of e data]
  by (simp add: exec_chunk_data_def assert_chunked_def wp_simps wp_callbacks Let_def ok_defs marks_simps state_inv_def flag_simps)
    (auto intro: trans_le_add1)

section \<open>One byte\<close>

lemma safe_mono: "safe r data out \<Longrightarrow> r \<le> r' \<Longrightarrow> safe r' data out"
  by (cases out) (auto simp: reexec_ok_def)

lemmas safe_cases = safe_request_line safe_header_field_start safe_header_field safe_header_value
  safe_header_value_start safe_header_rest safe_headers_almost_done safe_headers_done safe_message_done
  safe_body_identity safe_body_identity_eof safe_chunk_size safe_chunk_data

lemma safe_switch:
  assumes "byte_inv 1 data e"
  shows "safe (reexec_rank (p_state e)) data (exec_switch settings data e)"
  using assms
  by (cases "p_state e")
    (simp_all add: exec_switch_def reexec_rank_def safe_cases safe_expect state_inv_def)

lemma safe_reexecute:
  "byte_inv 1 data e \<Longrightarrow> reexec_rank (p_state e) < fuel \<Longrightarrow> safe 0 data (reexecute fuel settings data e)"
proof (induction fuel arbitrary: e)
  case (Suc fuel)
  note switch = safe_switch [OF Suc.prems(1)]
  show ?case
  proof (cases "exec_switch settings data e")
    case (Reexecute e')
    with switch Suc.prems have "byte_inv 1 data e'" "reexec_rank (p_state e') < fuel"
      by (simp_all add: reexec_ok_def)
    with Reexecute show ?thesis by (simp add: Suc.IH)
  qed (use switch in simp_all)
qed simp

lemma reexec_rank_le: "reexec_rank s \<le> 5"
  by (simp add: reexec_rank_def)

lemma safe_byte:
  assumes "byte_inv 0 data e"
  shows "safe 0 data (exec_byte settings data e)"
proof -
  have rank: "reexec_rank s < reexec_fuel" for s
    using reexec_rank_le [of s] by (simp add: reexec_fuel_def)
  have inv: "byte_inv 1 data (count_nread 1 (e\<lparr>ch := c\<rparr>))" for c
    using assms by (auto simp: byte_inv_def state_inv_def marks_inv_def)
  have "\<not> PARSING_HEADER (p_state e) \<Longrightarrow> p_state e \<noteq> s_chunk_size_start"
    by (auto simp: PARSING_HEADER_def)
  then have inv': "\<not> PARSING_HEADER (p_state e) \<Longrightarrow> byte_inv 1 data (e\<lparr>ch := c\<rparr>)" for c
    using assms state_inv_nread [of "p_state e" 0 "parser e" 1] by (simp add: byte_inv_def marks_inv_def)
  show ?thesis
    using assms safe_reexecute [OF inv rank] safe_reexecute [OF inv' rank]
    by (simp add: exec_byte_def wp_simps Let_def) (simp add: byte_inv_def error_ok_def)
qed

section \<open>The loop\<close>

abbreviation final :: "bytes \<Rightarrow> 'd outcome \<Rightarrow> bool" where
  "final data \<equiv> outcome_wp (\<lambda>_. False) (\<lambda>_. False) (error_ok data) (return_ok data) False"

lemma mark_count_le: "marks_inv e \<Longrightarrow> mark_count e \<le> 1"
proof (cases "mark_of (p_state e)")
  case None
  then show "marks_inv e \<Longrightarrow> ?thesis" by (simp add: marks_inv_no_mark mark_count_def)
next
  case (Some j)
  then have "marks_inv e \<Longrightarrow> k \<noteq> j \<Longrightarrow> marks e k = None" for k
    by (metis marks_inv_body marks_inv_mark)
  then show "marks_inv e \<Longrightarrow> ?thesis" by (cases j) (simp_all add: mark_count_def)
qed

lemma safe_end:
  assumes "hp_errno (parser e) = HPE_OK" "state_inv 0 (p_state e) (parser e)" "marks_inv e" "pos e = length data"
  shows "final data (exec_end settings data e)"
  using assms mark_count_le [of e] unfolding exec_end_def wp_simps
  by (simp add: wp_callbacks wp_simps ok_defs)

lemma safe_loop:
  "hp_errno (parser e) = HPE_OK \<Longrightarrow> state_inv 0 (p_state e) (parser e) \<Longrightarrow> marks_inv e \<Longrightarrow>
   pos e \<le> length data \<Longrightarrow> final data (exec_loop settings data e)"
proof (induction "length data - pos e" arbitrary: e rule: less_induct)
  case less
  show ?case
  proof (cases "pos e = length data")
    case True
    with less.prems show ?thesis by (simp add: exec_loop.simps safe_end)
  next
    case False
    with less.prems have byte: "byte_inv 0 data e" by (simp add: byte_inv_def)
    show ?thesis
    proof (cases "exec_byte settings data e")
      case (Next e')
      then have e': "byte_inv 0 data e'" using safe_byte [OF byte] by simp
      moreover have "pos e \<le> pos e'" using exec_byte_pos [OF _ Next] byte by (simp add: byte_inv_def)
      moreover have "marks_inv (e'\<lparr>pos := pos e' + 1\<rparr>)"
        using e' by (force simp: byte_inv_def marks_inv_def)
      ultimately have "final data (exec_loop settings data (e'\<lparr>pos := pos e' + 1\<rparr>))"
        using False less.prems(4) by (intro less.hyps) (auto simp: byte_inv_def)
      then show ?thesis using False less.prems Next by (subst exec_loop.simps) simp
    qed (use safe_byte [OF byte] False less.prems in \<open>subst exec_loop.simps; simp add: reexec_ok_def\<close>)+
  qed
qed

lemma marks_inv_start: "marks_inv (exec_start q)"
  by (auto simp: marks_inv_def exec_start_def initial_marks_def mark_of_def is_url_state_def [of s_header_field]
      is_url_state_def [of s_header_value] Let_def)

lemma wp_notify_synced:
  assumes "hp_errno (parser e) = HPE_OK" "hp_state (parser e) = p_state e"
    and "\<And>d. outcome_wp N R E T F (k (after_cb d (p_state e) e))"
    and "\<And>d x. x \<noteq> HPE_OK \<Longrightarrow> T (stopped d x e) (pos e)"
  shows "outcome_wp N R E T F (CALLBACK_NOTIFY_NOADVANCE settings j e k)"
proof (cases "on_notify settings j")
  case None
  have "after_cb (hp_data (parser e)) (p_state e) e = e" using after_cb_same [of e] assms(2) by metis
  with None show ?thesis
    using assms(1) assms(3) [of "hp_data (parser e)"]
    by (simp add: CALLBACK_NOTIFY_NOADVANCE_def CALLBACK_NOTIFY_er_def wp_simps)
next
  case (Some f)
  have "notify_errno j \<noteq> HPE_OK" by (simp add: notify_errno_def split: notify_cb.split)
  with Some show ?thesis
    using assms notify_keeps [OF Some]
    by (auto simp: CALLBACK_NOTIFY_NOADVANCE_def CALLBACK_NOTIFY_er_def wp_simps intro: wp_after_callback)
qed

lemma execute_safe:
  assumes "parser_ok q"
  shows "\<exists>q' n. http_parser_execute q settings data = Some (q', n) \<and> parser_ok q' \<and> n \<le> max 1 (length data) \<and>
    (n = length data \<or> hp_errno q' \<noteq> HPE_OK \<or> hp_upgrade q')"
proof -
  have start: "hp_errno (parser (exec_start q)) = hp_errno q" "p_state (exec_start q) = hp_state q"
    "parser (exec_start q) = q" "pos (exec_start q) = 0"
    by (simp_all add: exec_start_def)
  consider "hp_errno q \<noteq> HPE_OK" | "hp_errno q = HPE_OK" "data = []" | "hp_errno q = HPE_OK" "data \<noteq> []"
    by blast
  then show ?thesis
  proof cases
    case 1
    with assms show ?thesis by (simp add: http_parser_execute_def Let_def)
  next
    case 2
    have "outcome_wp (\<lambda>_. False) (\<lambda>_. False) (\<lambda>_. False)
       (\<lambda>q' n. parser_ok q' \<and> n \<le> 1 \<and> (n = 0 \<or> hp_errno q' \<noteq> HPE_OK)) False (exec_eof settings (exec_start q))"
      using assms 2 start by (simp add: exec_eof_def wp_notify_synced parser_ok_def stopped_def
          state_inv_def [of _ s_body_identity_eof])
    then show ?thesis
      using 2 by (cases "exec_eof settings (exec_start q)") (auto simp: http_parser_execute_def exec_result_def Let_def)
  next
    case 3
    then have "final data (exec_loop settings data (exec_start q))"
      using assms start marks_inv_start [of q] by (intro safe_loop) (auto simp: parser_ok_def)
    then show ?thesis
      using 3 by (cases "exec_loop settings data (exec_start q)")
        (auto simp: http_parser_execute_def exec_result_def exec_error_def return_ok_def error_ok_def parser_ok_def
          Let_def)
  qed
qed

end

end
