(* ===== verification/Http_Header_Props.thy ===== *)
theory Http_Header_Props
  imports Http_Safety
begin

text \<open>
  Header values. The loop over an ordinary value jumps with \<^verbatim>\<open>memchr\<close>, bounded by the header
  limit; here it is compared with reading byte by byte to the end of the line. The loop over a
  \<^verbatim>\<open>Content-Length\<close> value is compared with the decimal value of its digits.
\<close>

section \<open>Skipping to the end of the line\<close>

definition value_length :: "bytes \<Rightarrow> nat" where
  "value_length bs = length (takeWhile (\<lambda>b. b \<noteq> CR \<and> b \<noteq> LF) bs)"

lemma length_takeWhile_take: "length (takeWhile P (take n bs)) = min n (length (takeWhile P bs))"
  by (induction bs arbitrary: n) (auto simp: take_Cons split: nat.split)

lemma length_takeWhile_conj:
  "length (takeWhile (\<lambda>b. P b \<and> Q b) bs) = min (length (takeWhile P bs)) (length (takeWhile Q bs))"
  by (induction bs) auto

lemma first_index_takeWhile:
  "first_index c bs =
     (if length (takeWhile (\<lambda>b. b \<noteq> c) bs) < length bs then Some (length (takeWhile (\<lambda>b. b \<noteq> c) bs)) else None)"
  by (induction bs) auto

lemma memchr_takeWhile:
  "memchr bs c (min (length bs) N) =
     (if length (takeWhile (\<lambda>b. b \<noteq> c) bs) < min (length bs) N
      then Some (length (takeWhile (\<lambda>b. b \<noteq> c) bs)) else None)"
  by (auto simp: memchr_def first_index_takeWhile length_takeWhile_take min_def)

lemma line_skip_exact:
  "line_skip bs = (if value_length bs < HTTP_MAX_HEADER_SIZE then value_length bs else length bs)"
proof -
  let ?cr = "length (takeWhile (\<lambda>b. b \<noteq> CR) bs)" and ?lf = "length (takeWhile (\<lambda>b. b \<noteq> LF) bs)"
  have "value_length bs = min ?cr ?lf"
    by (simp add: value_length_def length_takeWhile_conj)
  moreover have "?cr \<le> length bs" "?lf \<le> length bs" by (simp_all add: length_takeWhile_le)
  ultimately show ?thesis
    unfolding line_skip_def Let_def memchr_takeWhile by auto
qed

lemma header_value_end_overflow:
  assumes "start \<le> pos e" "HTTP_MAX_HEADER_SIZE < pos e - start"
    "unat (hp_nread (parser e)) \<le> HTTP_MAX_HEADER_SIZE" "pos e < 2 ^ 32 - HTTP_MAX_HEADER_SIZE"
  shows "\<exists>e'. header_value_end data start h e = Error e' \<and> hp_errno (parser e') = HPE_HEADER_OVERFLOW"
proof -
  have "unat (hp_nread (parser e) + of_nat (pos e - start)) = unat (hp_nread (parser e)) + (pos e - start)"
    using assms by (simp add: unat_word_ariths unat_of_nat HTTP_MAX_HEADER_SIZE_def del: of_nat_diff)
  then have "hp_nread (parser e) + of_nat (pos e - start) > of_nat HTTP_MAX_HEADER_SIZE"
    using assms(2) by (simp add: word_less_nat_alt HTTP_MAX_HEADER_SIZE_def del: of_nat_diff)
  then show ?thesis
    by (simp add: header_value_end_def COUNT_HEADER_SIZE_def Let_def error_with_def)
qed

text \<open>
  The bounded \<^verbatim>\<open>memchr\<close> jump never loses the end of a line. From a byte of an ordinary header
  value the loop continues exactly at the first carriage return or line feed, or at the end of the
  buffer; when that is beyond the header limit, the run ends with \<^verbatim>\<open>HPE_HEADER_OVERFLOW\<close>. (The size of
  the buffer is bounded because \<^verbatim>\<open>nread\<close> has 32 bits.)
\<close>

theorem header_value_skip_sound:
  assumes "b \<noteq> CR" "b \<noteq> LF" "start \<le> pos e" "pos e + length (b # bs) = length data"
    "unat (hp_nread (parser e)) \<le> HTTP_MAX_HEADER_SIZE" "length data < 2 ^ 32 - HTTP_MAX_HEADER_SIZE"
  shows "if value_length (b # bs) < HTTP_MAX_HEADER_SIZE \<or> value_length (b # bs) = length (b # bs)
    then header_value_loop settings data start (b # bs) h_general e =
      header_value_loop settings data start (drop (value_length (b # bs)) (b # bs)) h_general
        (e\<lparr>ch := b, pos := pos e + value_length (b # bs)\<rparr>)
    else \<exists>e'. header_value_loop settings data start (b # bs) h_general e = Error e' \<and>
      hp_errno (parser e') = HPE_HEADER_OVERFLOW"
proof (cases "value_length (b # bs) < HTTP_MAX_HEADER_SIZE \<or> value_length (b # bs) = length (b # bs)")
  case True
  then have "line_skip (b # bs) = value_length (b # bs)" by (auto simp: line_skip_exact)
  with True assms(1,2) show ?thesis by simp
next
  case False
  have "value_length (b # bs) \<le> length (b # bs)" by (simp only: value_length_def length_takeWhile_le)
  with False have big: "line_skip (b # bs) = length (b # bs)" "HTTP_MAX_HEADER_SIZE < length (b # bs)"
    by (auto simp: line_skip_exact)
  have "\<exists>e'. header_value_end data start h_general (e\<lparr>ch := b, pos := length data\<rparr>) = Error e' \<and>
      hp_errno (parser e') = HPE_HEADER_OVERFLOW"
    using assms(3-6) big(2) by (intro header_value_end_overflow) auto
  with False assms(1,2,4) big show ?thesis by simp
qed

section \<open>The value of Content-Length\<close>

definition dec_val :: "nat \<Rightarrow> bytes \<Rightarrow> nat" where
  "dec_val v ds = foldl (\<lambda>v c. v * 10 + digit_val c) v ds"

lemma dec_val_simps [simp]:
  "dec_val v [] = v" "dec_val v (c # cs) = dec_val (v * 10 + digit_val c) cs"
  by (simp_all add: dec_val_def)

lemma digit_val_le: "IS_NUM c \<Longrightarrow> digit_val c \<le> 9"
  by (auto simp: IS_NUM_def char_between_def digit_val_def)

definition length_limit :: nat where
  "length_limit = (2 ^ 64 - 11) div 10"

lemma content_length_digit:
  assumes "IS_NUM (ch e)" "ch e \<noteq> CHR '' ''"
  shows "if unat (hp_content_length (parser e)) \<le> length_limit
    then \<exists>e'. content_length_char e = Inr (e', h_content_length) \<and> pos e' = pos e \<and>
      unat (hp_content_length (parser e')) = unat (hp_content_length (parser e)) * 10 + digit_val (ch e)
    else \<exists>e'. content_length_char e = Inl (Error e') \<and> hp_errno (parser e') = HPE_INVALID_CONTENT_LENGTH"
proof -
  let ?x = "hp_content_length (parser e)" and ?d = "digit_val (ch e)"
  have limit: "((ULLONG_MAX - 10) div 10 < ?x) = (\<not> unat ?x \<le> length_limit)"
    by (simp add: word_less_nat_alt unat_div ULLONG_MAX_def length_limit_def not_le)
  have "unat (?x * 10 + of_nat ?d) = unat ?x * 10 + ?d" if "unat ?x \<le> length_limit"
    using that digit_val_le [OF assms(1)]
    by (simp add: unat_word_ariths unat_of_nat length_limit_def)
  then show ?thesis
    using assms by (auto simp: content_length_char_def Let_def limit)
qed

text \<open>
  C40. A \<^verbatim>\<open>Content-Length\<close> value is read as the decimal number its digits denote. As long as no prefix
  exceeds the overflow limit, the loop goes on behind the digits with exactly that number, without
  wrap-around; otherwise the run ends with \<^verbatim>\<open>HPE_INVALID_CONTENT_LENGTH\<close>.
\<close>

theorem content_length_exact:
  assumes "\<forall>c \<in> set ds. IS_NUM c"
  shows "if \<forall>k < length ds. dec_val (unat (hp_content_length (parser e))) (take k ds) \<le> length_limit
    then \<exists>e'. header_value_loop settings data start (ds @ bs) h_content_length e =
        header_value_loop settings data start bs h_content_length e' \<and> pos e' = pos e + length ds \<and>
        unat (hp_content_length (parser e')) = dec_val (unat (hp_content_length (parser e))) ds
    else \<exists>e'. header_value_loop settings data start (ds @ bs) h_content_length e = Error e' \<and>
        hp_errno (parser e') = HPE_INVALID_CONTENT_LENGTH"
  using assms
proof (induction ds arbitrary: e)
  case Nil
  show ?case by (auto intro: exI [of _ e])
next
  case (Cons d ds)
  let ?e = "e\<lparr>ch := d\<rparr>" and ?v = "unat (hp_content_length (parser e))"
  have d: "IS_NUM d" "d \<noteq> CR" "d \<noteq> LF" "d \<noteq> CHR '' ''"
    using Cons.prems by (auto simp: IS_NUM_def char_between_def)
  have loop: "header_value_loop settings data start ((d # ds) @ bs) h_content_length e =
    (case content_length_char ?e of Inl out \<Rightarrow> out
     | Inr (e1, h) \<Rightarrow> header_value_loop settings data start (ds @ bs) h (e1\<lparr>pos := pos e1 + 1\<rparr>))"
    using d by (simp add: header_value_char_def Let_def)
  have prefix: "(\<forall>k < length (d # ds). dec_val ?v (take k (d # ds)) \<le> length_limit) =
    (?v \<le> length_limit \<and> (\<forall>k < length ds. dec_val (?v * 10 + digit_val d) (take k ds) \<le> length_limit))"
    by (auto simp: less_Suc_eq_0_disj)
  show ?case
  proof (cases "?v \<le> length_limit")
    case True
    then obtain e1 where e1: "content_length_char ?e = Inr (e1, h_content_length)" "pos e1 = pos e"
      "unat (hp_content_length (parser e1)) = ?v * 10 + digit_val d"
      using content_length_digit [of ?e] d by auto
    have "header_value_loop settings data start ((d # ds) @ bs) h_content_length e =
        header_value_loop settings data start (ds @ bs) h_content_length (e1\<lparr>pos := pos e1 + 1\<rparr>)"
      unfolding loop e1(1) by simp
    then show ?thesis
      using Cons.IH [of "e1\<lparr>pos := pos e1 + 1\<rparr>"] Cons.prems True e1(2,3) unfolding prefix
      by (cases "\<forall>k < length ds. dec_val (?v * 10 + digit_val d) (take k ds) \<le> length_limit")
        (simp_all only: if_P if_not_P, auto simp del: header_value_loop.simps append_Cons)
  next
    case False
    then obtain e1 where "content_length_char ?e = Inl (Error e1)" "hp_errno (parser e1) = HPE_INVALID_CONTENT_LENGTH"
      using content_length_digit [of ?e] d by auto
    then show ?thesis using False unfolding prefix loop by simp
  qed
qed

theorem content_length_exact_witness:
  "\<exists>e'. header_value_loop http_parser_settings_init ''42'' 0 (''42'' @ []) h_content_length
       (exec_start ((raw_parser ())\<lparr>hp_state := s_header_value, hp_content_length := 1\<rparr>)) =
     header_value_loop http_parser_settings_init ''42'' 0 [] h_content_length e' \<and> pos e' = 2 \<and>
     unat (hp_content_length (parser e')) = 142"
proof -
  have "\<forall>c \<in> set ''42''. IS_NUM c" by code_simp
  moreover have "\<forall>k < length ''42''. dec_val 1 (take k ''42'') \<le> length_limit"
    by (auto simp: less_Suc_eq length_limit_def digit_val_def)
  moreover have "dec_val 1 ''42'' = 142" by code_simp
  moreover have "pos (exec_start ((raw_parser ())\<lparr>hp_state := s_header_value, hp_content_length := 1\<rparr>)) = 0"
    "unat (hp_content_length (parser (exec_start ((raw_parser ())\<lparr>hp_state := s_header_value, hp_content_length := 1\<rparr>)))) = 1"
    by (simp_all add: exec_start_def)
  ultimately show ?thesis
    using content_length_exact [of "''42''" "exec_start ((raw_parser ())\<lparr>hp_state := s_header_value, hp_content_length := 1\<rparr>)"
        http_parser_settings_init "''42''" 0 "[]"]
    by (simp del: header_value_loop.simps append_Cons add: digit_val_def numeral_2_eq_2)
qed

theorem header_value_skip_sound_witness:
  "header_value_loop http_parser_settings_init (''ab'' @ [CR, LF]) 0 (''ab'' @ [CR, LF]) h_general
       (exec_start ((raw_parser ())\<lparr>hp_state := s_header_value\<rparr>)) =
     header_value_loop http_parser_settings_init (''ab'' @ [CR, LF]) 0 [CR, LF] h_general
       ((exec_start ((raw_parser ())\<lparr>hp_state := s_header_value\<rparr>))\<lparr>ch := CHR ''a'', pos := length ''ab''\<rparr>)"
proof -
  have v: "value_length (CHR ''a'' # CHR ''b'' # [CR, LF]) = 2" by (simp add: value_length_def)
  have e: "pos (exec_start ((raw_parser ())\<lparr>hp_state := s_header_value\<rparr>)) = 0"
    "hp_nread (parser (exec_start ((raw_parser ())\<lparr>hp_state := s_header_value\<rparr>))) = 0"
    by (simp_all add: exec_start_def raw_parser_def)
  show ?thesis
    using header_value_skip_sound [of "CHR ''a''" 0 "exec_start ((raw_parser ())\<lparr>hp_state := s_header_value\<rparr>)"
        "CHR ''b'' # [CR, LF]" "''ab'' @ [CR, LF]" http_parser_settings_init] e v
    by (simp del: header_value_loop.simps add: HTTP_MAX_HEADER_SIZE_def)
qed

text \<open>
  The comment at the start of a token in a \<^verbatim>\<open>Connection\<close> list says that linear white space is
  skipped. A space is; a tab is not: the byte compared with \<^verbatim>\<open>'\t'\<close> has been lower-cased, which
  sets bit 5, so the comparison never succeeds and the rest of the list is ignored.
\<close>

theorem connection_token_tab_not_skipped:
  "token_start_state (LOWER (CHR '' '')) = h_matching_connection_token_start \<and>
   token_start_state (LOWER (CHR 0x09)) = h_general \<and> (\<forall>c. LOWER c \<noteq> CHR 0x09)"
proof (intro conjI allI)
  show "token_start_state (LOWER (CHR '' '')) = h_matching_connection_token_start" by code_simp
  show "token_start_state (LOWER (CHR 0x09)) = h_general" by code_simp
  show "LOWER c \<noteq> CHR 0x09" for c by (simp add: LOWER_def)
qed

end
