(* ===== verification/Http_Method.thy ===== *)
theory Http_Method
  imports Http_Execute
begin

text \<open>
  Request methods. \<^verbatim>\<open>s_start_req\<close> guesses a method from the first letter and \<^verbatim>\<open>s_req_method\<close>
  corrects the guess letter by letter. The reference is the table \<^verbatim>\<open>method_strings\<close>: a word
  followed by a space is accepted exactly when it is one of the names, and then the method is
  that name.
\<close>

section \<open>Steps of the loop\<close>

lemma exec_end_no_marks:
  "hp_errno (parser e) = HPE_OK \<Longrightarrow> (\<And>k. marks e k = None) \<Longrightarrow>
   exec_end settings data e = RETURN (length data) e"
  by (simp add: exec_end_def mark_count_def CALLBACK_DATA_NOADVANCE_def CALLBACK_DATA_er_def c_assert_def)

lemma reexecute_once:
  "exec_switch settings data e = out \<Longrightarrow> (\<And>e'. out \<noteq> Reexecute e') \<Longrightarrow> reexecute reexec_fuel settings data e = out"
  by (simp add: reexec_fuel_def numeral_eq_Suc split: outcome.split)

lemma header_limit: "(of_nat HTTP_MAX_HEADER_SIZE :: uint32_t) = 81920"
  by (simp add: HTTP_MAX_HEADER_SIZE_def)

lemma exec_byte_header:
  assumes "PARSING_HEADER (p_state e)" "unat (hp_nread (parser e)) < HTTP_MAX_HEADER_SIZE"
    "exec_switch settings data (count_nread 1 (e\<lparr>ch := data ! pos e\<rparr>)) = out" "\<And>e'. out \<noteq> Reexecute e'"
  shows "exec_byte settings data e = out"
proof -
  have "\<not> hp_nread (parser e) + 1 > of_nat HTTP_MAX_HEADER_SIZE"
    using assms(2) by (simp add: header_limit word_less_nat_alt unat_word_ariths HTTP_MAX_HEADER_SIZE_def)
  then show ?thesis
    using assms reexecute_once [OF assms(3,4)]
    by (simp add: exec_byte_def COUNT_HEADER_SIZE_def Let_def)
qed

lemma exec_loop_Next:
  "pos e < length data \<Longrightarrow> exec_byte settings data e = Next e' \<Longrightarrow>
   exec_loop settings data e = exec_loop settings data (e'\<lparr>pos := pos e' + 1\<rparr>)"
  by (subst exec_loop.simps) simp

lemma exec_loop_Error:
  "pos e < length data \<Longrightarrow> exec_byte settings data e = Error e' \<Longrightarrow> exec_loop settings data e = Error e'"
  by (subst exec_loop.simps) simp

lemma unat_nread_incr:
  "unat (x :: uint32_t) < HTTP_MAX_HEADER_SIZE \<Longrightarrow> unat (x + 1) = unat x + 1"
  by (simp add: unat_word_ariths HTTP_MAX_HEADER_SIZE_def)

section \<open>The reference\<close>

definition method_step :: "http_method \<Rightarrow> nat \<Rightarrow> char \<Rightarrow> http_method option" where
  "method_step m i c =
     (if c = CHR 0x00 then None
      else if i < length (method_strings m) \<and> method_strings m ! i = c then Some m
      else method_switch m i c)"

fun method_run :: "http_method \<Rightarrow> nat \<Rightarrow> bytes \<Rightarrow> http_method option" where
  "method_run m i [] = Some m"
| "method_run m i (c # cs) =
     (case method_step m i c of None \<Rightarrow> None | Some m' \<Rightarrow> method_run m' (Suc i) cs)"

lemma method_switch_prefix:
  "method_switch m i c = Some m' \<Longrightarrow>
   i < length (method_strings m') \<and> take (Suc i) (method_strings m') = take i (method_strings m) @ [c]"
  by (auto simp: method_switch_def numeral_eq_Suc split: if_splits)

lemma method_step_prefix:
  assumes "method_step m i c = Some m'"
  shows "i < length (method_strings m') \<and> take (Suc i) (method_strings m') = take i (method_strings m) @ [c]"
  using assms by (auto simp: method_step_def take_Suc_conv_app_nth dest: method_switch_prefix split: if_splits)

lemma method_run_prefix:
  "method_run m i cs = Some m' \<Longrightarrow> i \<le> length (method_strings m) \<Longrightarrow>
   i + length cs \<le> length (method_strings m') \<and>
   take (i + length cs) (method_strings m') = take i (method_strings m) @ cs"
proof (induction m i cs rule: method_run.induct)
  case (2 m i c cs)
  then obtain m1 where m1: "method_step m i c = Some m1" "method_run m1 (Suc i) cs = Some m'"
    by (auto split: option.splits)
  with 2 method_step_prefix [OF m1(1)] show ?case by simp
qed simp

lemma method_run_complete:
  "\<exists>m0. method_of_first (hd (method_strings m)) = Some m0 \<and> IS_ALPHA (hd (method_strings m)) \<and>
     method_run m0 1 (tl (method_strings m)) = Some m"
  by (cases m) (simp_all add: method_of_first_def method_step_def method_switch_def numeral_eq_Suc
      IS_ALPHA_def LOWER_def char_between_def)

lemma method_names: "c \<in> set (method_strings m) \<Longrightarrow> c \<noteq> CHR '' '' \<and> c \<noteq> CHR 0x00"
  by (cases m) auto

lemma method_switch_no_space: "method_switch m i (CHR '' '') = None"
  by (simp add: method_switch_def)

section \<open>The parser runs the reference\<close>

definition method_pre :: "bytes \<Rightarrow> bytes \<Rightarrow> 'd exec \<Rightarrow> bool" where
  "method_pre data bs e \<longleftrightarrow> p_state e = s_req_method \<and> drop (pos e) data = bs @ '' '' \<and>
     hp_errno (parser e) = HPE_OK \<and> (\<forall>k. marks e k = None) \<and>
     unat (hp_index (parser e)) \<le> length (method_strings (hp_method (parser e))) \<and>
     unat (hp_nread (parser e)) + length bs < HTTP_MAX_HEADER_SIZE"

definition method_accepted :: "'d exec \<Rightarrow> bytes \<Rightarrow> http_method \<Rightarrow> bool" where
  "method_accepted e bs m \<longleftrightarrow>
     method_run (hp_method (parser e)) (unat (hp_index (parser e))) bs = Some m \<and>
     unat (hp_index (parser e)) + length bs = length (method_strings m)"

lemma exec_req_method_step:
  assumes "unat (hp_index (parser e)) \<le> length (method_strings (hp_method (parser e)))" "ch e \<noteq> CHR '' ''"
  shows "exec_req_method e =
    (case method_step (hp_method (parser e)) (unat (hp_index (parser e))) (ch e) of
       None \<Rightarrow> error_with HPE_INVALID_METHOD e
     | Some m \<Rightarrow> Next (incr_index (upd_parser (\<lambda>q. q\<lparr>hp_method := m\<rparr>) e)))"
  using assms
  by (auto simp: exec_req_method_def method_step_def c_str_at_def Let_def incr_index_def upd_parser_def
      split: option.split)

lemma method_loop:
  assumes "method_pre data bs e" "CHR '' '' \<notin> set bs"
  shows "outcome_wp (\<lambda>_. False) (\<lambda>_. False)
     (\<lambda>e'. hp_errno (parser e') \<noteq> HPE_OK \<and> (\<forall>m. \<not> method_accepted e bs m))
     (\<lambda>q n. hp_errno q = HPE_OK \<and> hp_state q = s_req_spaces_before_url \<and> method_accepted e bs (hp_method q))
     False (exec_loop settings data e)"
  using assms
proof (induction bs arbitrary: e)
  case Nil
  let ?e = "count_nread 1 (e\<lparr>ch := data ! pos e\<rparr>)"
  have pos: "pos e < length data" "data ! pos e = CHR '' ''" "pos e + 1 = length data"
    using Nil by (auto simp: method_pre_def nth_via_drop dest: arg_cong [where f = length]) 
  have pre: "PARSING_HEADER (p_state e)" "unat (hp_nread (parser e)) < HTTP_MAX_HEADER_SIZE"
    using Nil by (auto simp: method_pre_def PARSING_HEADER_def)
  have switch: "exec_switch settings data ?e = exec_req_method ?e"
    using Nil by (simp add: exec_switch_def method_pre_def)
  show ?case
  proof (cases "unat (hp_index (parser e)) = length (method_strings (hp_method (parser e)))")
    case True
    then have "exec_req_method ?e = Next (incr_index (UPDATE_STATE s_req_spaces_before_url ?e))"
      using pos by (simp add: exec_req_method_def c_str_at_def Let_def)
    note byte = exec_byte_header [OF pre switch [unfolded this]]
    show ?thesis
      using exec_loop_Next [OF pos(1) byte] pos Nil True
      by (simp add: exec_loop.simps exec_end_no_marks method_pre_def incr_index_def wp_simps method_accepted_def)
  next
    case False
    then have "exec_req_method ?e = Error (SET_ERRNO HPE_INVALID_METHOD ?e)"
      using pos Nil method_names [of "method_strings (hp_method (parser e)) ! unat (hp_index (parser e))" "hp_method (parser e)"]
      by (auto simp: exec_req_method_def c_str_at_def Let_def method_pre_def method_switch_no_space error_with_def)
    note byte = exec_byte_header [OF pre switch [unfolded this]]
    show ?thesis
      using exec_loop_Error [OF pos(1) byte] False by (simp add: method_accepted_def)
  qed
next
  case (Cons c bs)
  let ?e = "count_nread 1 (e\<lparr>ch := data ! pos e\<rparr>)"
  have "drop (pos e) data = c # bs @ '' ''" using Cons.prems by (simp add: method_pre_def)
  then have pos: "pos e < length data" "data ! pos e = c"
    by (metis drop_all list.distinct(1) not_le, simp add: nth_via_drop)
  have pre: "PARSING_HEADER (p_state e)" "unat (hp_nread (parser e)) < HTTP_MAX_HEADER_SIZE"
    using Cons.prems by (auto simp: method_pre_def PARSING_HEADER_def)
  have switch: "exec_switch settings data ?e =
    (case method_step (hp_method (parser e)) (unat (hp_index (parser e))) c of
       None \<Rightarrow> error_with HPE_INVALID_METHOD ?e
     | Some m \<Rightarrow> Next (incr_index (upd_parser (\<lambda>q. q\<lparr>hp_method := m\<rparr>) ?e)))"
    using Cons.prems exec_req_method_step [of ?e] pos by (auto simp: exec_switch_def method_pre_def)
  show ?case
  proof (cases "method_step (hp_method (parser e)) (unat (hp_index (parser e))) c")
    case None
    then have "exec_byte settings data e = Error (SET_ERRNO HPE_INVALID_METHOD ?e)"
      using exec_byte_header [OF pre switch] by (simp add: error_with_def)
    with None show ?thesis using exec_loop_Error [OF pos(1)] by (simp add: method_accepted_def)
  next
    case (Some m)
    let ?e' = "incr_index (upd_parser (\<lambda>q. q\<lparr>hp_method := m\<rparr>) ?e)"
    have byte: "exec_byte settings data e = Next ?e'"
      using exec_byte_header [OF pre switch] Some by simp
    have index: "unat (hp_index (parser e) + 1) = unat (hp_index (parser e)) + 1"
      using Cons.prems method_strings_length [of "hp_method (parser e)"]
      by (intro unat_incr_index) (simp add: method_pre_def)
    have "drop (Suc (pos e)) data = bs @ '' ''"
      using Cons.prems by (metis append_Cons drop_Suc list.sel(3) method_pre_def tl_drop)
    then have "method_pre data bs (?e'\<lparr>pos := pos ?e' + 1\<rparr>)"
      using Cons.prems index unat_nread_incr [OF pre(2)] method_step_prefix [OF Some]
      by (simp add: method_pre_def incr_index_def Suc_le_eq)
    from Cons.IH [OF this] Cons.prems(2) show ?thesis
      using exec_loop_Next [OF pos(1) byte] Some index by (simp add: method_accepted_def incr_index_def)
  qed
qed

section \<open>Acceptance\<close>

definition after_first :: "char \<Rightarrow> http_method \<Rightarrow> 'd exec \<Rightarrow> 'd exec" where
  "after_first c m e = UPDATE_STATE s_req_method (upd_parser
     (\<lambda>q. q\<lparr>hp_nread := 1, hp_flags := 0, hp_content_length := ULLONG_MAX, hp_index := 1,
        hp_method := m\<rparr>) (e\<lparr>ch := c\<rparr>))"

lemma start_req_byte:
  assumes "on_message_begin settings = None" "c \<noteq> CR" "c \<noteq> LF"
    "p_state e = s_start_req" "data ! pos e = c" "hp_nread (parser e) = 0" "hp_errno (parser e) = HPE_OK"
  shows "exec_byte settings data e =
    (if IS_ALPHA c \<and> method_of_first c \<noteq> None then
       Next (after_first c (the (method_of_first c)) e)
     else Error (SET_ERRNO HPE_INVALID_METHOD (if IS_ALPHA c
       then upd_parser (\<lambda>q. q\<lparr>hp_nread := 1, hp_flags := 0, hp_content_length := ULLONG_MAX,
            hp_method := HTTP_DELETE, hp_index := 1\<rparr>) (e\<lparr>ch := c\<rparr>)
       else upd_parser (\<lambda>q. q\<lparr>hp_nread := 1, hp_flags := 0, hp_content_length := ULLONG_MAX\<rparr>) (e\<lparr>ch := c\<rparr>))))"
    (is "_ = ?out")
proof (rule exec_byte_header)
  show "exec_switch settings data (count_nread 1 (e\<lparr>ch := data ! pos e\<rparr>)) = ?out"
    using assms
    by (auto simp: exec_switch_def exec_start_req_def reset_message_def Let_def CALLBACK_NOTIFY_def
        CALLBACK_NOTIFY_er_def on_notify_def c_assert_def error_with_def upd_parser_def UPDATE_STATE_def after_first_def
        split: option.split)
qed (use assms in \<open>auto simp: PARSING_HEADER_def HTTP_MAX_HEADER_SIZE_def\<close>)

lemma method_of_first_prefix: "method_of_first c = Some m \<Longrightarrow> take 1 (method_strings m) = [c] \<and> 1 \<le> length (method_strings m)"
  by (auto simp: method_of_first_def split: if_splits)

lemma method_word:
  assumes "method_of_first c = Some m0"
  shows "(method_run m0 1 cs = Some m \<and> 1 + length cs = length (method_strings m)) = (c # cs = method_strings m)"
proof
  assume run: "method_run m0 1 cs = Some m \<and> 1 + length cs = length (method_strings m)"
  show "c # cs = method_strings m"
    using method_run_prefix [of m0 1 cs m] run method_of_first_prefix [OF assms] by simp
next
  assume "c # cs = method_strings m"
  then show "method_run m0 1 cs = Some m \<and> 1 + length cs = length (method_strings m)"
    using method_run_complete [of m] assms by (metis list.sel(1,3) length_Cons option.inject plus_1_eq_Suc)
qed

lemma start_req_method_pre:
  assumes "p_state e = s_start_req" "pos e = 0" "hp_errno (parser e) = HPE_OK" "marks e = (\<lambda>_. None)"
    "method_of_first c = Some m" "length (c # cs) < HTTP_MAX_HEADER_SIZE"
  shows "method_pre (c # cs @ '' '') cs ((after_first c m e)\<lparr>pos := pos (after_first c m e) + 1\<rparr>)"
    and "method_accepted ((after_first c m e)\<lparr>pos := pos (after_first c m e) + 1\<rparr>) cs m' =
      (c # cs = method_strings m')"
proof -
  show "method_pre (c # cs @ '' '') cs ((after_first c m e)\<lparr>pos := pos (after_first c m e) + 1\<rparr>)"
    using assms method_of_first_prefix [OF assms(5)] by (simp add: method_pre_def after_first_def)
  show "method_accepted ((after_first c m e)\<lparr>pos := pos (after_first c m e) + 1\<rparr>) cs m' =
      (c # cs = method_strings m')"
    using method_word [OF assms(5)] by (simp add: method_accepted_def after_first_def)
qed

text \<open>
  C4. A request starts with one of the methods of the table: fed a word and a space, a fresh request
  parser reaches the URL with method \<open>m\<close> if and only if the word is the name of \<open>m\<close>; any other
  word is an error.
\<close>

theorem request_method_exact:
  assumes "on_message_begin settings = None" "w \<noteq> []" "hd w \<noteq> CR" "hd w \<noteq> LF" "CHR '' '' \<notin> set w"
    "length w < HTTP_MAX_HEADER_SIZE"
  shows "\<exists>q' n. http_parser_execute (http_parser_init q HTTP_REQUEST) settings (w @ '' '') = Some (q', n) \<and>
    (if \<exists>m. w = method_strings m
     then hp_errno q' = HPE_OK \<and> hp_state q' = s_req_spaces_before_url \<and> method_strings (hp_method q') = w
     else hp_errno q' \<noteq> HPE_OK)"
proof -
  obtain c cs where w: "w = c # cs" using assms(2) by (cases w) auto
  let ?e = "exec_start (http_parser_init q HTTP_REQUEST)"
  have e: "p_state ?e = s_start_req" "pos ?e = 0" "hp_nread (parser ?e) = 0" "hp_errno (parser ?e) = HPE_OK"
    "marks ?e = (\<lambda>_. None)"
    by (simp_all add: exec_start_def http_parser_init_def initial_marks_def is_url_state_def)
  note byte = start_req_byte [of settings c ?e "c # cs @ '' ''"]
  have run: "http_parser_execute (http_parser_init q HTTP_REQUEST) settings (w @ '' '') =
      exec_result (exec_loop settings (w @ '' '') ?e)"
    by (simp add: http_parser_execute_def http_parser_init_def Let_def)
  have "outcome_wp (\<lambda>_. False) (\<lambda>_. False) (\<lambda>e'. hp_errno (parser e') \<noteq> HPE_OK \<and> (\<forall>m. w \<noteq> method_strings m))
     (\<lambda>q n. hp_errno q = HPE_OK \<and> hp_state q = s_req_spaces_before_url \<and> w = method_strings (hp_method q))
     False (exec_loop settings (c # cs @ '' '') ?e)"
  proof (cases "IS_ALPHA c \<and> method_of_first c \<noteq> None")
    case True
    then obtain m where m: "method_of_first c = Some m" by auto
    note loop = exec_loop_Next [of ?e "c # cs @ '' ''" settings, OF _ byte [unfolded if_P [OF True]]]
    show ?thesis
      using loop method_loop [OF start_req_method_pre(1) [OF e(1,2,4,5) m, of cs], of settings]
        start_req_method_pre(2) [OF e(1,2,4,5) m, of cs] assms w e m
      by simp
  next
    case False
    then have "w \<noteq> method_strings m" for m
      using method_run_complete [of m] w by (metis list.sel(1) option.distinct(1))
    then show ?thesis
      using exec_loop_Error [of ?e "c # cs @ '' ''" settings, OF _ byte [unfolded if_not_P [OF False]]] assms w e
      by simp
  qed
  then have "outcome_wp (\<lambda>_. False) (\<lambda>_. False) (\<lambda>e'. hp_errno (parser e') \<noteq> HPE_OK \<and> (\<forall>m. w \<noteq> method_strings m))
     (\<lambda>q n. hp_errno q = HPE_OK \<and> hp_state q = s_req_spaces_before_url \<and> w = method_strings (hp_method q))
     False (exec_loop settings (w @ '' '') ?e)"
    by (simp only: w append_Cons)
  then show ?thesis
    unfolding run
    by (cases "exec_loop settings (w @ '' '') ?e") (simp_all add: exec_result_def exec_error_def, metis)
qed

theorem request_method_exact_witness:
  "\<exists>q' n. http_parser_execute (http_parser_init (raw_parser ()) HTTP_REQUEST) http_parser_settings_init
       (''MKCALENDAR'' @ '' '') =
     Some (q', n) \<and> hp_state q' = s_req_spaces_before_url \<and> method_strings (hp_method q') = ''MKCALENDAR''"
proof -
  have "\<exists>m. ''MKCALENDAR'' = method_strings m" by (rule exI [of _ HTTP_MKCALENDAR]) simp
  moreover have "length ''MKCALENDAR'' < HTTP_MAX_HEADER_SIZE" by (simp add: HTTP_MAX_HEADER_SIZE_def)
  moreover have "on_message_begin http_parser_settings_init = None" by (simp add: http_parser_settings_init_def)
  ultimately show ?thesis
    using request_method_exact [of http_parser_settings_init "''MKCALENDAR''" "raw_parser ()"] by auto
qed

end
