(* ===== verification/Http_Body_Props.thy ===== *)
theory Http_Body_Props
  imports Http_Method Http_Safety
begin

text \<open>
  Bodies. What \<^verbatim>\<open>http_parser_execute\<close> hands to \<^verbatim>\<open>on_body\<close>, exactly, for a body with a
  \<^verbatim>\<open>Content-Length\<close> and for a chunk, and the numbers the parser reads from the text.
\<close>

section \<open>Steps\<close>

lemma exec_byte_body:
  assumes "\<not> PARSING_HEADER (p_state e)"
    "exec_switch settings data (e\<lparr>ch := data ! pos e\<rparr>) = out" "\<And>e'. out \<noteq> Reexecute e'"
  shows "exec_byte settings data e = out"
  using assms reexecute_once [OF assms(2,3)] by (simp add: exec_byte_def Let_def)

lemma exec_loop_end:
  "pos e = length data \<Longrightarrow> exec_loop settings data e = exec_end settings data e"
  by (subst exec_loop.simps) simp

lemma exec_loop_Return:
  "pos e < length data \<Longrightarrow> exec_byte settings data e = Return q n \<Longrightarrow> exec_loop settings data e = Return q n"
  by (subst exec_loop.simps) simp

section \<open>A body with a length\<close>

lemma to_read_all:
  "length data - pos e \<le> unat (hp_content_length (parser e)) \<Longrightarrow> to_read data e = of_nat (length data - pos e)"
  using unat_lt_size [of "hp_content_length (parser e)"]
  by (auto simp: to_read_def min_def word_le_nat_alt unat_of_nat_small word_unat_eq_iff)

text \<open>Only the body mark is set.\<close>

definition body_mark :: "'d exec \<Rightarrow> nat \<Rightarrow> bool" where
  "body_mark e m \<longleftrightarrow> marks e = (\<lambda>_. None)(cb_body := Some m)"

lemma exec_end_body:
  assumes "pos e = length data" "hp_errno (parser e) = HPE_OK" "body_mark e m" "on_body settings = Some f"
    "f ((parser e)\<lparr>hp_state := p_state e\<rparr>) (drop m data) = (q2, r)"
  shows "exec_end settings data e = Return (if r \<noteq> 0 then q2\<lparr>hp_errno := HPE_CB_body\<rparr> else q2) (length data)"
  using assms
  by (simp add: exec_end_def mark_count_def body_mark_def c_assert_def CALLBACK_DATA_NOADVANCE_def
      CALLBACK_DATA_er_def on_data_def data_errno_def after_callback_def RETURN_def)

lemma same_state: "hp_state q = s \<Longrightarrow> q\<lparr>hp_content_length := x, hp_state := s\<rparr> = q\<lparr>hp_content_length := x\<rparr>"
  by (cases q) simp

lemma body_byte_part:
  assumes "p_state e = s_body_identity" "hp_content_length (parser e) \<noteq> ULLONG_MAX" "marks e = (\<lambda>_. None)"
    "pos e < length data" "length data - pos e < unat (hp_content_length (parser e))"
  shows "\<exists>e1. exec_byte settings data e = Next e1 \<and> p_state e1 = s_body_identity \<and> pos e1 = length data - 1 \<and>
    body_mark e1 (pos e) \<and> parser e1 =
      (parser e)\<lparr>hp_content_length := hp_content_length (parser e) - of_nat (length data - pos e)\<rparr>"
proof -
  let ?e = "e\<lparr>ch := data ! pos e\<rparr>" and ?n = "of_nat (length data - pos e) :: uint64_t"
  have n: "to_read data ?e = ?n" "unat ?n = length data - pos e"
    using assms(5) to_read_all [of data ?e] unat_lt_size [of "hp_content_length (parser e)"]
    by (simp_all add: unat_of_nat_small)
  then have left: "hp_content_length (parser e) - ?n \<noteq> 0" "hp_content_length (parser e) \<noteq> 0"
    using assms(5) by auto
  have "exec_switch settings data ?e = Next (take_body ?n (MARK cb_body ?e))"
    using assms n left by (simp add: exec_switch_def exec_body_identity_def c_assert_def Let_def)
  from exec_byte_body [OF _ this] show ?thesis
    using assms n(2) by (auto simp: PARSING_HEADER_def body_mark_def marks_MARK)
qed

text \<open>
  A buffer that holds only part of the announced body goes to \<^verbatim>\<open>on_body\<close> as a whole; the
  parser stays in the body and expects that many bytes fewer. The result is what the callback left.
\<close>

theorem body_identity_part:
  assumes "hp_state q = s_body_identity" "hp_errno q = HPE_OK" "hp_content_length q \<noteq> ULLONG_MAX"
    "data \<noteq> []" "length data < unat (hp_content_length q)" "on_body settings = Some f"
    "f (q\<lparr>hp_content_length := hp_content_length q - of_nat (length data)\<rparr>) data = (q2, r)"
  shows "http_parser_execute q settings data =
    Some (if r \<noteq> 0 then q2\<lparr>hp_errno := HPE_CB_body\<rparr> else q2, length data)"
proof -
  have e: "p_state (exec_start q) = s_body_identity" "pos (exec_start q) = 0" "parser (exec_start q) = q"
    "marks (exec_start q) = (\<lambda>_. None)"
    using assms by (simp_all add: exec_start_def initial_marks_def is_url_state_def)
  obtain e1 where e1: "exec_byte settings data (exec_start q) = Next e1" "p_state e1 = s_body_identity"
    "pos e1 = length data - 1" "body_mark e1 0"
    "parser e1 = q\<lparr>hp_content_length := hp_content_length q - of_nat (length data)\<rparr>"
    using body_byte_part [of "exec_start q" data settings] assms e by auto
  have "exec_end settings data (e1\<lparr>pos := length data\<rparr>) =
      Return (if r \<noteq> 0 then q2\<lparr>hp_errno := HPE_CB_body\<rparr> else q2) (length data)"
    using assms e1 by (intro exec_end_body [of _ _ 0 settings f]) (simp_all add: body_mark_def same_state)
  then have "exec_loop settings data (exec_start q) =
      Return (if r \<noteq> 0 then q2\<lparr>hp_errno := HPE_CB_body\<rparr> else q2) (length data)"
    using assms e e1 exec_loop_Next [OF _ e1(1)] by (simp add: exec_loop_end)
  then show ?thesis using assms by (simp add: http_parser_execute_def exec_result_def Let_def)
qed

theorem body_identity_part_witness:
  "\<exists>q2. http_parser_execute ((raw_parser [])\<lparr>hp_state := s_body_identity, hp_content_length := 10\<rparr>)
      (http_parser_settings_init\<lparr>on_body := Some (\<lambda>q bs. (q\<lparr>hp_data := hp_data q @ bs\<rparr>, 0))\<rparr>) ''hello'' = Some (q2, 5) \<and>
    hp_data q2 = ''hello'' \<and> hp_content_length q2 = 5"
  using body_identity_part [of "(raw_parser [])\<lparr>hp_state := s_body_identity, hp_content_length := 10\<rparr>" "''hello''"
      "http_parser_settings_init\<lparr>on_body := Some (\<lambda>q bs. (q\<lparr>hp_data := hp_data q @ bs\<rparr>, 0))\<rparr>"
      "\<lambda>q bs. (q\<lparr>hp_data := hp_data q @ bs\<rparr>, 0)"]
  by (simp add: raw_parser_def ULLONG_MAX_def)

lemma marks_MARK_fresh: "marks e = (\<lambda>_. None) \<Longrightarrow> marks (MARK k e) = (\<lambda>_. None)(k := Some (pos e))"
  by (auto simp: marks_MARK)

lemma exec_loop_reexecuted:
  assumes "\<not> PARSING_HEADER (p_state e)" "pos e < length data"
    "exec_switch settings data (e\<lparr>ch := data ! pos e\<rparr>) = Reexecute e1"
    "exec_switch settings data e1 = out" "\<And>e'. out \<noteq> Reexecute e'"
  shows "exec_byte settings data e = out"
  using assms by (simp add: exec_byte_def Let_def reexec_fuel_def numeral_eq_Suc split: outcome.split)

text \<open>
  When the buffer holds the rest of the body, \<^verbatim>\<open>on_body\<close> gets exactly that rest, the message is
  complete, and the parser is ready for the next message on a persistent connection and dead
  otherwise.
\<close>

theorem body_identity_rest:
  assumes "hp_state q = s_body_identity" "hp_errno q = HPE_OK" "hp_content_length q \<noteq> ULLONG_MAX"
    "data \<noteq> []" "length data = unat (hp_content_length q)" "on_body settings = Some f"
    "on_message_complete settings = None"
    "f (q\<lparr>hp_content_length := 0, hp_state := s_message_done\<rparr>) data = (q2, 0)"
    "hp_errno q2 = HPE_OK" "hp_state q2 = s_message_done"
  shows "http_parser_execute q settings data = Some (q2\<lparr>hp_state := NEW_MESSAGE q2\<rparr>, length data)"
proof -
  let ?e = "(exec_start q)\<lparr>ch := data ! 0\<rparr>" and ?n = "hp_content_length q"
  have e: "p_state ?e = s_body_identity" "pos ?e = 0" "parser ?e = q" "marks ?e = (\<lambda>_. None)"
    "p_state (exec_start q) = s_body_identity" "pos (exec_start q) = 0"
    using assms by (simp_all add: exec_start_def initial_marks_def is_url_state_def)
  have n: "to_read data ?e = ?n" "?n \<noteq> 0"
    using assms(4,5) e to_read_all [of data ?e] by auto
  obtain e1 where sw: "exec_switch settings data ?e = Reexecute e1" and e1: "parser e1 = q2"
      "p_state e1 = s_message_done" "pos e1 = length data - 1" "marks e1 = (\<lambda>_. None)"
    using assms e n
    by (simp add: exec_switch_def exec_body_identity_def c_assert_def Let_def CALLBACK_DATA_er_def marks_MARK_fresh
        on_data_def after_callback_def)
  have last: "pos e1 + 1 = length data" using e1(3) assms(4) by simp
  have sw1: "exec_switch settings data e1 =
      (if hp_upgrade q2 then Return (q2\<lparr>hp_state := NEW_MESSAGE q2\<rparr>) (length data)
       else Next (UPDATE_STATE (NEW_MESSAGE q2) e1))"
    using e1 assms last
    by (simp add: exec_switch_def exec_message_done_def message_complete_def CALLBACK_NOTIFY_def
        CALLBACK_NOTIFY_er_def c_assert_def on_notify_def RETURN_def)
  have byte: "exec_byte settings data (exec_start q) =
      (if hp_upgrade q2 then Return (q2\<lparr>hp_state := NEW_MESSAGE q2\<rparr>) (length data)
       else Next (UPDATE_STATE (NEW_MESSAGE q2) e1))"
    using e assms(4) sw by (intro exec_loop_reexecuted [OF _ _ _ sw1]) (auto simp: PARSING_HEADER_def)
  have "exec_loop settings data (exec_start q) = Return (q2\<lparr>hp_state := NEW_MESSAGE q2\<rparr>) (length data)"
    using byte e e1 assms last
    by (subst exec_loop.simps) (simp add: exec_loop_end exec_end_no_marks RETURN_def)
  then show ?thesis using assms(2,4) by (simp add: http_parser_execute_def exec_result_def Let_def)
qed

theorem body_identity_rest_witness:
  "\<exists>q2. http_parser_execute ((raw_parser [])\<lparr>hp_state := s_body_identity, hp_content_length := 5\<rparr>)
      (http_parser_settings_init\<lparr>on_body := Some (\<lambda>q bs. (q\<lparr>hp_data := hp_data q @ bs\<rparr>, 0))\<rparr>) ''hello'' = Some (q2, 5) \<and>
    hp_data q2 = ''hello'' \<and> hp_state q2 = s_dead"
  using body_identity_rest [of "(raw_parser [])\<lparr>hp_state := s_body_identity, hp_content_length := 5\<rparr>" "''hello''"
      "http_parser_settings_init\<lparr>on_body := Some (\<lambda>q bs. (q\<lparr>hp_data := hp_data q @ bs\<rparr>, 0))\<rparr>"
      "\<lambda>q bs. (q\<lparr>hp_data := hp_data q @ bs\<rparr>, 0)"]
  by (simp add: raw_parser_def ULLONG_MAX_def http_parser_settings_init_def NEW_MESSAGE_def
      http_should_keep_alive_def)

section \<open>Chunks\<close>

text \<open>The value of a chunk size line, as the parser's table reads the digits.\<close>

definition hex_val :: "nat \<Rightarrow> bytes \<Rightarrow> nat" where
  "hex_val v hs = foldl (\<lambda>v c. v * 16 + nat (unhex c)) v hs"

lemma hex_val_simps [simp]:
  "hex_val v [] = v" "hex_val v (c # cs) = hex_val (v * 16 + nat (unhex c)) cs"
  by (simp_all add: hex_val_def)

lemma hex_val_mono: "v \<le> hex_val v hs"
proof (induction hs arbitrary: v)
  case (Cons c hs)
  have "v \<le> v * 16 + nat (unhex c)" by simp
  also have "\<dots> \<le> hex_val (v * 16 + nat (unhex c)) hs" by (rule Cons)
  finally show ?case by simp
qed simp

text \<open>The parser inside a chunked body, at a position with no mark set.\<close>

definition chunk_at :: "state \<Rightarrow> 'd exec \<Rightarrow> bool" where
  "chunk_at s e \<longleftrightarrow> p_state e = s \<and> bit (hp_flags (parser e)) 0 \<and> hp_errno (parser e) = HPE_OK \<and>
     marks e = (\<lambda>_. None)"

definition moved :: "'d http_parser \<Rightarrow> nat \<Rightarrow> 'd exec \<Rightarrow> 'd exec" where
  "moved q n e = e\<lparr>parser := q, pos := n\<rparr>"

lemma unhex_CR: "unhex CR = -1"
  by code_simp

lemma same_length: "q\<lparr>hp_nread := n\<rparr> = q\<lparr>hp_nread := n, hp_content_length := hp_content_length q\<rparr>"
  by (cases q) simp

lemma chunk_size_loop:
  assumes "chunk_at s_chunk_size e" "drop (pos e) data = hs @ CR # rest"
    "\<And>c. c \<in> set hs \<Longrightarrow> unhex c \<noteq> -1" "hex_val (unat (hp_content_length (parser e))) hs < 2 ^ 60"
    "unat (hp_nread (parser e)) + length hs < HTTP_MAX_HEADER_SIZE"
  shows "\<exists>e'. exec_loop settings data e = exec_loop settings data e' \<and> chunk_at s_chunk_size_almost_done e' \<and>
    pos e' = pos e + length hs + 1 \<and> (\<exists>n x. parser e' = (parser e)\<lparr>hp_nread := n,
      hp_content_length := x\<rparr> \<and> unat n = unat (hp_nread (parser e)) + length hs + 1 \<and>
      unat x = hex_val (unat (hp_content_length (parser e))) hs)"
  using assms
proof (induction hs arbitrary: e)
  case Nil
  have pos: "pos e < length data" "data ! pos e = CR"
    using Nil by (metis append_Nil drop_all list.distinct(1) not_le, simp add: nth_via_drop)
  let ?e = "count_nread 1 (e\<lparr>ch := data ! pos e\<rparr>)"
  have nread: "unat (hp_nread (parser e)) < HTTP_MAX_HEADER_SIZE" using Nil by simp
  have "exec_switch settings data ?e = Next (UPDATE_STATE s_chunk_size_almost_done ?e)"
    using Nil pos by (simp add: exec_switch_def exec_chunk_size_def assert_chunked_def c_assert_def chunk_at_def flag_simps)
  from exec_byte_header [OF _ nread this] have "exec_byte settings data e = Next (UPDATE_STATE s_chunk_size_almost_done ?e)"
    using Nil by (simp add: chunk_at_def PARSING_HEADER_def)
  from exec_loop_Next [OF pos(1) this] show ?case
    using Nil unat_nread_incr [OF nread]
    by (intro exI [of _ "(UPDATE_STATE s_chunk_size_almost_done ?e)\<lparr>pos := pos e + 1\<rparr>"])
      (auto simp: chunk_at_def intro!: exI [of _ "hp_nread (parser e) + 1"] exI [of _ "hp_content_length (parser e)"] same_length)
next
  case (Cons c hs)
  have pos: "pos e < length data" "data ! pos e = c"
    using Cons.prems(2) by (metis append_Cons drop_all list.distinct(1) not_le, simp add: nth_via_drop)
  let ?e = "count_nread 1 (e\<lparr>ch := data ! pos e\<rparr>)" and ?x = "hp_content_length (parser e)"
  have nread: "unat (hp_nread (parser e)) < HTTP_MAX_HEADER_SIZE" using Cons.prems(5) by simp
  have hex: "unhex c \<noteq> -1" using Cons.prems(3) by simp
  then have "c \<noteq> CR" using unhex_CR by auto
  have "unat ?x * 16 < 2 ^ 60"
    using Cons.prems(4) hex_val_mono [of "unat ?x * 16 + nat (unhex c)" hs] by simp
  then have small: "\<not> (ULLONG_MAX - 16) div 16 < ?x"
    by (simp add: word_less_nat_alt unat_div ULLONG_MAX_def)
  let ?e1 = "set_content_length (?x * 16 + of_int (unhex c)) ?e"
  have "exec_switch settings data ?e = Next ?e1"
    using Cons.prems(1) pos hex \<open>c \<noteq> CR\<close> small
    by (simp add: exec_switch_def exec_chunk_size_def assert_chunked_def c_assert_def chunk_at_def flag_simps)
  from exec_byte_header [OF _ nread this] have byte: "exec_byte settings data e = Next ?e1"
    using Cons.prems(1) by (simp add: chunk_at_def PARSING_HEADER_def)
  have "drop (Suc (pos e)) data = hs @ CR # rest"
    using Cons.prems(2) by (metis append_Cons drop_Suc list.sel(3) tl_drop)
  then show ?case
    using Cons.IH [of "?e1\<lparr>pos := pos ?e1 + 1\<rparr>"] Cons.prems chunk_push_digit(1) [OF small hex]
      unat_nread_incr [OF nread] exec_loop_Next [OF pos(1) byte]
    by (auto simp: chunk_at_def set_content_length_def)
qed

text \<open>The first digit, from \<^verbatim>\<open>s_chunk_size_start\<close>.\<close>

lemma chunk_first_digit:
  assumes "chunk_at s_chunk_size_start e" "hp_nread (parser e) = 0" "pos e < length data"
    "unhex (data ! pos e) \<noteq> -1"
  shows "\<exists>e'. exec_loop settings data e = exec_loop settings data e' \<and> chunk_at s_chunk_size e' \<and>
    pos e' = pos e + 1 \<and> parser e' = (parser e)\<lparr>hp_nread := 1, hp_content_length := of_int (unhex (data ! pos e))\<rparr>"
proof -
  let ?e = "count_nread 1 (e\<lparr>ch := data ! pos e\<rparr>)"
  let ?e1 = "UPDATE_STATE s_chunk_size (set_content_length (of_int (unhex (data ! pos e))) ?e)"
  have "exec_switch settings data ?e = Next ?e1"
    using assms by (simp add: exec_switch_def exec_chunk_size_start_def assert_chunked_def c_assert_def chunk_at_def flag_simps)
  from exec_byte_header [OF _ _ this] have "exec_byte settings data e = Next ?e1"
    using assms by (simp add: chunk_at_def PARSING_HEADER_def HTTP_MAX_HEADER_SIZE_def)
  from exec_loop_Next [OF assms(3) this] show ?thesis
    using assms by (intro exI [of _ "?e1\<lparr>pos := pos ?e1 + 1\<rparr>"]) (simp add: chunk_at_def set_content_length_def)
qed

text \<open>The line feed after the size of a chunk that is not the last.\<close>

lemma chunk_size_line_end:
  assumes "chunk_at s_chunk_size_almost_done e" "pos e < length data" "data ! pos e = LF"
    "unat (hp_nread (parser e)) < HTTP_MAX_HEADER_SIZE" "hp_content_length (parser e) \<noteq> 0"
    "on_chunk_header settings = None"
  shows "\<exists>e'. exec_loop settings data e = exec_loop settings data e' \<and> chunk_at s_chunk_data e' \<and>
    pos e' = pos e + 1 \<and> parser e' = (parser e)\<lparr>hp_nread := 0\<rparr>"
proof -
  let ?e = "count_nread 1 (e\<lparr>ch := data ! pos e\<rparr>)"
  let ?e1 = "UPDATE_STATE s_chunk_data (set_nread 0 ?e)"
  have "exec_switch settings data ?e = Next ?e1"
    using assms
    by (simp add: exec_switch_def exec_chunk_size_almost_done_def assert_chunked_def c_assert_def chunk_at_def
        flag_simps STRICT_CHECK_def set_nread_def CALLBACK_NOTIFY_def CALLBACK_NOTIFY_er_def on_notify_def)
  from exec_byte_header [OF _ assms(4) this] have "exec_byte settings data e = Next ?e1"
    using assms by (simp add: chunk_at_def PARSING_HEADER_def)
  from exec_loop_Next [OF assms(2) this] show ?thesis
    using assms by (intro exI [of _ "?e1\<lparr>pos := pos ?e1 + 1\<rparr>"]) (simp add: chunk_at_def set_nread_def)
qed

text \<open>The data of a chunk, when all of it and at least one more byte are in the buffer.\<close>

lemma to_read_enough:
  "unat (hp_content_length (parser e)) \<le> length data - pos e \<Longrightarrow> length data < 2 ^ 64 \<Longrightarrow>
   to_read data e = hp_content_length (parser e)"
  by (simp add: to_read_def min_def word_le_nat_alt unat_of_nat_small del: of_nat_diff)

lemma chunk_data_all:
  assumes "chunk_at s_chunk_data e" "pos e + n < length data" "unat (hp_content_length (parser e)) = n"
    "0 < n" "hp_content_length (parser e) \<noteq> ULLONG_MAX" "length data < 2 ^ 64"
  shows "\<exists>e'. exec_loop settings data e = exec_loop settings data e' \<and> p_state e' = s_chunk_data_almost_done \<and>
    pos e' = pos e + n \<and> body_mark e' (pos e) \<and> parser e' = (parser e)\<lparr>hp_content_length := 0\<rparr>"
proof -
  let ?e = "e\<lparr>ch := data ! pos e\<rparr>" and ?n = "hp_content_length (parser e)"
  let ?e1 = "UPDATE_STATE s_chunk_data_almost_done (take_body ?n (MARK cb_body ?e))"
  have "to_read data ?e = ?n" using assms by (intro to_read_enough [of ?e, simplified]) simp_all
  moreover have "?n \<noteq> 0" using assms(3,4) by auto
  ultimately have "exec_switch settings data ?e = Next ?e1"
    using assms by (simp add: exec_switch_def exec_chunk_data_def assert_chunked_def c_assert_def chunk_at_def flag_simps)
  from exec_byte_body [OF _ this] have "exec_byte settings data e = Next ?e1"
    using assms by (simp add: chunk_at_def PARSING_HEADER_def)
  from exec_loop_Next [OF _ this] show ?thesis
    using assms by (intro exI [of _ "?e1\<lparr>pos := pos ?e1 + 1\<rparr>"]) (simp add: chunk_at_def body_mark_def marks_MARK_fresh)
qed

text \<open>The two bytes after the data of a chunk.\<close>

lemma chunk_data_end:
  assumes "p_state e = s_chunk_data_almost_done" "bit (hp_flags (parser e)) 0" "hp_errno (parser e) = HPE_OK"
    "hp_content_length (parser e) = 0" "body_mark e m" "pos e + 2 = length data" "data ! pos e = CR"
    "data ! (pos e + 1) = LF" "on_body settings = Some f" "on_chunk_complete settings = None"
    "f ((parser e)\<lparr>hp_state := s_chunk_data_done\<rparr>) (take (pos e - m) (drop m data)) = (q2, 0)"
    "keeps_parser ((parser e)\<lparr>hp_state := s_chunk_data_done\<rparr>) q2" "hp_errno q2 = HPE_OK"
  shows "exec_loop settings data e = Return (q2\<lparr>hp_nread := 0, hp_state := s_chunk_size_start\<rparr>) (length data)"
proof -
  let ?e = "e\<lparr>ch := data ! pos e\<rparr>"
  have q2: "hp_state q2 = s_chunk_data_done" "bit (hp_flags q2) 0"
    using assms(2,12) by (auto elim!: keeps_parserE)
  obtain e1 where sw: "exec_switch settings data ?e = Next e1" and e1: "chunk_at s_chunk_data_done e1"
      "pos e1 = pos e" "parser e1 = q2"
    using assms q2
    by (simp add: exec_switch_def exec_chunk_data_almost_done_def assert_chunked_def c_assert_def flag_simps
        STRICT_CHECK_def CALLBACK_DATA_def CALLBACK_DATA_er_def body_mark_def on_data_def after_callback_def
        chunk_at_def)
  have step1: "exec_loop settings data e = exec_loop settings data (e1\<lparr>pos := pos e1 + 1\<rparr>)"
    using exec_loop_Next [OF _ exec_byte_body [OF _ sw]] assms by (simp add: PARSING_HEADER_def)
  let ?f = "e1\<lparr>pos := pos e1 + 1, ch := LF\<rparr>"
  let ?f1 = "UPDATE_STATE s_chunk_size_start (set_nread 0 ?f)"
  have "exec_switch settings data ?f = Next ?f1"
    using assms e1 q2
    by (simp add: exec_switch_def exec_chunk_data_done_def assert_chunked_def c_assert_def flag_simps chunk_at_def
        STRICT_CHECK_def CALLBACK_NOTIFY_def CALLBACK_NOTIFY_er_def on_notify_def set_nread_def)
  then have "exec_byte settings data (e1\<lparr>pos := pos e1 + 1\<rparr>) = Next ?f1"
    using e1 assms(8) by (intro exec_byte_body) (simp_all add: chunk_at_def PARSING_HEADER_def)
  from exec_loop_Next [OF _ this] show ?thesis
    using step1 e1 assms
    by (simp add: exec_loop_end exec_end_no_marks chunk_at_def set_nread_def RETURN_def)
qed

text \<open>
  C3. Decoding undoes the chunked transfer coding: fed one chunk (the size in hexadecimal digits, the
  data, with their line ends) the parser gives \<^verbatim>\<open>on_body\<close> exactly the data, consumes everything and
  is ready for the next chunk.
\<close>

theorem chunk_roundtrip:
  assumes "hp_state q = s_chunk_size_start" "hp_nread q = 0" "bit (hp_flags q) 0" "hp_errno q = HPE_OK"
    "hs \<noteq> []" "\<forall>c \<in> set hs. unhex c \<noteq> -1" "hex_val 0 hs = length body" "body \<noteq> []" "length body < 2 ^ 60"
    "length hs < 1000" "on_chunk_header settings = None" "on_chunk_complete settings = None"
    "on_body settings = Some f" "f (q\<lparr>hp_content_length := 0, hp_state := s_chunk_data_done\<rparr>) body = (q2, 0)"
    "keeps_parser (q\<lparr>hp_content_length := 0, hp_state := s_chunk_data_done\<rparr>) q2" "hp_errno q2 = HPE_OK"
  shows "http_parser_execute q settings (hs @ [CR, LF] @ body @ [CR, LF]) =
    Some (q2\<lparr>hp_state := s_chunk_size_start\<rparr>, length hs + length body + 4)"
proof -
  let ?data = "hs @ [CR, LF] @ body @ [CR, LF]"
  obtain h hs' where hs: "hs = h # hs'" using assms(5) by (cases hs) auto
  have e0: "chunk_at s_chunk_size_start (exec_start q)" "hp_nread (parser (exec_start q)) = 0"
    "pos (exec_start q) = 0" "parser (exec_start q) = q"
    using assms by (simp_all add: chunk_at_def exec_start_def initial_marks_def is_url_state_def)
  obtain e1 where e1: "exec_loop settings ?data (exec_start q) = exec_loop settings ?data e1"
    "chunk_at s_chunk_size e1" "pos e1 = 1" "parser e1 = q\<lparr>hp_nread := 1, hp_content_length := of_int (unhex h)\<rparr>"
    using chunk_first_digit [OF e0(1,2), of ?data settings] e0 hs assms(6) by auto
  have h: "unat (of_int (unhex h) :: uint64_t) = nat (unhex h)" using assms(6) hs by (intro unat_unhex) simp
  obtain e2 n x where e2: "exec_loop settings ?data e1 = exec_loop settings ?data e2"
    "chunk_at s_chunk_size_almost_done e2" "pos e2 = length hs + 1"
    "parser e2 = q\<lparr>hp_nread := n, hp_content_length := x\<rparr>" "unat n = length hs + 1" "unat x = length body"
    using chunk_size_loop [of e1 ?data hs' "LF # body @ [CR, LF]" settings] e1 hs h assms(6,7,9,10)
    by (auto simp: HTTP_MAX_HEADER_SIZE_def)
  have x: "x \<noteq> 0" "x \<noteq> ULLONG_MAX" using e2(6) assms(8,9) unat_ULLONG_MAX by auto
  obtain e3 where e3: "exec_loop settings ?data e2 = exec_loop settings ?data e3" "chunk_at s_chunk_data e3"
    "pos e3 = length hs + 2" "parser e3 = q\<lparr>hp_nread := 0, hp_content_length := x\<rparr>"
    using chunk_size_line_end [OF e2(2), of ?data settings] e2 x assms(10,11)
    by (auto simp: HTTP_MAX_HEADER_SIZE_def nth_append)
  obtain e4 where e4: "exec_loop settings ?data e3 = exec_loop settings ?data e4" "p_state e4 = s_chunk_data_almost_done"
    "pos e4 = length hs + 2 + length body" "body_mark e4 (length hs + 2)"
    "parser e4 = q\<lparr>hp_nread := 0, hp_content_length := 0\<rparr>"
    using chunk_data_all [OF e3(2), of "length body" ?data settings] e3 e2(6) x assms(8,9,10) by auto
  have q: "q\<lparr>hp_nread := 0, hp_content_length := 0\<rparr> = q\<lparr>hp_content_length := 0\<rparr>"
    using assms(2) by (cases q) simp
  have "exec_loop settings ?data e4 = Return (q2\<lparr>hp_nread := 0, hp_state := s_chunk_size_start\<rparr>) (length ?data)"
    using e4 assms q by (intro chunk_data_end [of _ "length hs + 2" _ _ f]) (simp_all add: nth_append)
  moreover have "hp_nread q2 = 0" using assms(2,15) by (auto elim!: keeps_parserE)
  then have "q2\<lparr>hp_nread := 0, hp_state := s_chunk_size_start\<rparr> = q2\<lparr>hp_state := s_chunk_size_start\<rparr>"
    by (cases q2) simp
  ultimately show ?thesis
    using e1(1) e2(1) e3(1) e4(1) assms(4) by (simp add: http_parser_execute_def exec_result_def Let_def)
qed

theorem chunk_roundtrip_witness:
  "\<exists>q2. http_parser_execute ((raw_parser [])\<lparr>hp_state := s_chunk_size_start, hp_flags := F_CHUNKED\<rparr>)
      (http_parser_settings_init\<lparr>on_body := Some (\<lambda>q bs. (q\<lparr>hp_data := hp_data q @ bs\<rparr>, 0))\<rparr>)
      (''B'' @ [CR, LF] @ ''hello world'' @ [CR, LF]) = Some (q2, 16) \<and> hp_data q2 = ''hello world''"
proof -
  have "unhex (CHR ''B'') = 11" by code_simp
  then show ?thesis
    using chunk_roundtrip [of "(raw_parser [])\<lparr>hp_state := s_chunk_size_start, hp_flags := F_CHUNKED\<rparr>" "''B''"
        "''hello world''" "http_parser_settings_init\<lparr>on_body := Some (\<lambda>q bs. (q\<lparr>hp_data := hp_data q @ bs\<rparr>, 0))\<rparr>"
        "\<lambda>q bs. (q\<lparr>hp_data := hp_data q @ bs\<rparr>, 0)"]
    by (simp add: raw_parser_def http_parser_settings_init_def keeps_parser_def flag_simps)
qed

text \<open>
  The size table accepts every byte above 127 as the digit zero: \<^verbatim>\<open>unhex\<close> has 256 entries and
  128 initialisers. In a chunk size such a byte multiplies the length by sixteen instead of being
  refused.
\<close>

theorem chunk_size_accepts_high_bytes:
  assumes "128 \<le> (of_char c :: nat)" "p_state e = s_chunk_size" "bit (hp_flags (parser e)) 0" "ch e = c"
    "unat (hp_content_length (parser e)) < 2 ^ 56"
  shows "exec_chunk_size e = Next (set_content_length (hp_content_length (parser e) * 16) e)"
proof -
  have "length unhex_table = 128" by (simp add: unhex_table_def)
  then have "unhex c = 0" using assms(1) by (simp add: unhex_def table_at_def)
  moreover have "c \<noteq> CR" using assms(1) by auto
  moreover have "\<not> (ULLONG_MAX - 16) div 16 < hp_content_length (parser e)"
    using assms(5) by (simp add: word_less_nat_alt unat_div ULLONG_MAX_def)
  ultimately show ?thesis
    using assms by (simp add: exec_chunk_size_def assert_chunked_def c_assert_def flag_simps)
qed

theorem chunk_size_accepts_high_bytes_witness:
  "\<exists>e. exec_chunk_size e = Next (set_content_length 80 e) \<and> ch e = CHR 0xE9 \<and> hp_content_length (parser e) = (5 :: uint64_t) \<and>
     hp_data (parser e) = ()"
  using chunk_size_accepts_high_bytes [of "CHR 0xE9" "\<lparr>parser = (raw_parser ())\<lparr>hp_flags := F_CHUNKED, hp_content_length := 5\<rparr>,
      p_state = s_chunk_size, pos = 0, ch = CHR 0xE9, marks = (\<lambda>_. None)\<rparr>"]
  by (intro exI [of _ "\<lparr>parser = (raw_parser ())\<lparr>hp_flags := F_CHUNKED, hp_content_length := 5\<rparr>,
      p_state = s_chunk_size, pos = 0, ch = CHR 0xE9, marks = (\<lambda>_. None)\<rparr>"])
    (simp add: flag_simps)

end
