(* ===== verification/Http_Class.thy ===== *)
theory Http_Class
  imports Http_Safety
begin

text \<open>
  The class \<^verbatim>\<open>HTTPParser\<close> of \<^verbatim>\<open>src/net/http/HttpParser.cpp\<close>: the callbacks it installs, its
  constructor, and its accessors. The object is what \<^verbatim>\<open>parser->data\<close> points to, so the
  members the callbacks touch are the type parameter of the parser structure. A pointer into
  the input together with a length (\<^verbatim>\<open>mTmpHeadStr\<close>, \<^verbatim>\<open>mTmpHeadLen\<close>) is the bytes it denotes.

  The callbacks satisfy the contract \<open>parser_client\<close>.
\<close>

record HTTPParser =
  mPath :: string
  mQuery :: string
  mHeadValues :: "string \<rightharpoonup> string"
  mStatus :: string
  mBody :: string
  mTmpHead :: string
  mIsWebSocket :: bool
  mIsKeepAlive :: bool
  mISCompleted :: bool

section \<open>Callbacks\<close>

definition sNothing :: "HTTPParser http_cb" where
  "sNothing hp = (hp, 0)"

definition url_slice :: "bytes \<Rightarrow> http_parser_url \<Rightarrow> http_parser_url_fields \<Rightarrow> bytes" where
  "url_slice url u f = take (unat (field_len u f)) (drop (unat (field_off u f)) url)"

text \<open>
  \<open>u0\<close> is the uninitialised local \<^verbatim>\<open>struct http_parser_url u\<close>. \<open>parse_url_total\<close> shows
  that the \<open>None\<close> branch, a failed assertion, does not occur. The message to \<^verbatim>\<open>stderr\<close> for a url without a path is not modelled; its \<^verbatim>\<open>%s\<close>
  reads past the slice of the url to the next null byte of the buffer.
\<close>

definition sUrlHandle :: "http_parser_url \<Rightarrow> HTTPParser http_data_cb" where
  "sUrlHandle u0 hp url =
     (case http_parser_parse_url url (length url) False u0 of
        None \<Rightarrow> (hp, -1)
      | Some (result, u) \<Rightarrow>
          if result \<noteq> 0 then (hp, -1)
          else if field_is_set u UF_PATH then
            let hp = hp\<lparr>hp_data := (hp_data hp)\<lparr>mPath := url_slice url u UF_PATH\<rparr>\<rparr> in
            if field_is_set u UF_QUERY
            then (hp\<lparr>hp_data := (hp_data hp)\<lparr>mQuery := url_slice url u UF_QUERY\<rparr>\<rparr>, 0)
            else (hp, 0)
          else (hp, -1))"

definition sHeadValue :: "HTTPParser http_data_cb" where
  "sHeadValue hp at =
     (hp\<lparr>hp_data := (hp_data hp)\<lparr>mHeadValues := (mHeadValues (hp_data hp))(mTmpHead (hp_data hp) \<mapsto> at)\<rparr>\<rparr>, 0)"

definition sHeadField :: "HTTPParser http_data_cb" where
  "sHeadField hp at = (hp\<lparr>hp_data := (hp_data hp)\<lparr>mTmpHead := at\<rparr>\<rparr>, 0)"

definition sStatusHandle :: "HTTPParser http_data_cb" where
  "sStatusHandle hp at = (hp\<lparr>hp_data := (hp_data hp)\<lparr>mStatus := at\<rparr>\<rparr>, 0)"

definition sBodyHandle :: "HTTPParser http_data_cb" where
  "sBodyHandle hp at = (hp\<lparr>hp_data := (hp_data hp)\<lparr>mBody := at\<rparr>\<rparr>, 0)"

section \<open>Constructor and accessors\<close>

definition mSettings :: "http_parser_url \<Rightarrow> HTTPParser http_parser_settings" where
  "mSettings u0 =
     \<lparr>on_message_begin = Some sNothing, on_url = Some (sUrlHandle u0), on_status = Some sStatusHandle,
      on_header_field = Some sHeadField, on_header_value = Some sHeadValue,
      on_headers_complete = Some sNothing, on_body = Some sBodyHandle,
      on_message_complete = Some sNothing, on_chunk_header = Some sNothing,
      on_chunk_complete = Some sNothing\<rparr>"

definition new_HTTPParser :: HTTPParser where
  "new_HTTPParser =
     \<lparr>mPath = [], mQuery = [], mHeadValues = Map.empty, mStatus = [], mBody = [], mTmpHead = [],
      mIsWebSocket = False, mIsKeepAlive = False, mISCompleted = False\<rparr>"

definition clearParse :: "HTTPParser \<Rightarrow> HTTPParser" where
  "clearParse h = h\<lparr>mISCompleted := False, mHeadValues := Map.empty, mPath := [], mQuery := []\<rparr>"

definition hasKey :: "HTTPParser \<Rightarrow> string \<Rightarrow> bool" where
  "hasKey h key \<longleftrightarrow> mHeadValues h key \<noteq> None"

definition getValue :: "HTTPParser \<Rightarrow> string \<Rightarrow> string" where
  "getValue h key = (case mHeadValues h key of Some v \<Rightarrow> v | None \<Rightarrow> [])"

section \<open>The contract holds\<close>

lemma keeps_parser_data: "keeps_parser q (q\<lparr>hp_data := d\<rparr>)" "keeps_parser q q"
  by (simp_all add: keeps_parser_def)

lemma sUrlHandle_keeps: "keeps_parser q (fst (sUrlHandle u0 q url))"
  by (auto simp: sUrlHandle_def Let_def keeps_parser_data split: option.split)

interpretation http_class: parser_client "mSettings u0" for u0
  by unfold_locales
    (auto simp: on_notify_def on_data_def mSettings_def sNothing_def sHeadValue_def sHeadField_def
      sStatusHandle_def sBodyHandle_def sUrlHandle_keeps keeps_parser_data
      split: notify_cb.splits data_cb.splits)

end
