(* ===== verification/Http_Parser_Props.thy ===== *)
theory Http_Parser_Props
  imports Http_Class Http_Url_Props
begin

text \<open>
  The parser as a whole: no sequence of calls of the interface reaches a failed assertion or a read
  outside the input, and what a call returns says how it ended.
\<close>

text \<open>
  C1. Whatever bytes arrive, \<^verbatim>\<open>http_parser_execute\<close> ends without a failed assertion and without reading
  outside its input, for every application whose callbacks leave the private fields of the parser
  alone. It consumes no more bytes than it was given (one, on a premature end of the stream), and it
  stops early only on an error, a pause or a switch to another protocol. The invariant of the parser
  is kept.
\<close>

theorem http_parser_execute_safe:
  assumes "parser_client settings" "parser_ok q"
  shows "\<exists>q' n. http_parser_execute q settings data = Some (q', n) \<and> parser_ok q' \<and>
    n \<le> max 1 (length data) \<and> (n = length data \<or> hp_errno q' \<noteq> HPE_OK \<or> hp_upgrade q')"
  by (rule parser_client.execute_safe [OF assms])

lemma parser_ok_init: "parser_ok (http_parser_init q t)"
  by (simp add: parser_ok_def http_parser_init_def state_inv_def)

lemma parser_ok_pause: "parser_ok q \<Longrightarrow> http_parser_pause q b = Some q' \<Longrightarrow> parser_ok q'"
  by (auto simp: parser_ok_def http_parser_pause_def split: if_splits)

theorem http_parser_execute_safe_witness:
  "\<exists>q' n. http_parser_execute (http_parser_init (raw_parser new_HTTPParser) HTTP_REQUEST) (mSettings url0)
      (''GET /a HTTP/1.1'' @ [CR, LF, CR, LF]) = Some (q', n) \<and> n \<le> 19"
  using http_parser_execute_safe [OF http_class.parser_client_axioms [of url0]
      parser_ok_init [of "raw_parser new_HTTPParser" HTTP_REQUEST], of "''GET /a HTTP/1.1'' @ [CR, LF, CR, LF]"]
  by (auto simp: max_def)

section \<open>Sequences of calls\<close>

text \<open>The parsers an application can have, by any sequence of calls of the interface.\<close>

inductive parser_reach :: "'d http_parser_settings \<Rightarrow> 'd http_parser \<Rightarrow> bool" for settings where
  reach_init: "parser_reach settings (http_parser_init q t)"
| reach_execute: "parser_reach settings q \<Longrightarrow> http_parser_execute q settings data = Some (q', n) \<Longrightarrow>
    parser_reach settings q'"
| reach_pause: "parser_reach settings q \<Longrightarrow> http_parser_pause q b = Some q' \<Longrightarrow> parser_reach settings q'"

inductive_cases reach_cases: "parser_reach settings q"

lemma parser_reach_ok: "parser_reach settings q \<Longrightarrow> parser_client settings \<Longrightarrow> parser_ok q"
proof (induction rule: parser_reach.induct)
  case (reach_init q t)
  then show ?case by (simp add: parser_ok_init)
next
  case (reach_execute q data q' n)
  then show ?case using parser_client.execute_safe [of settings q data] by auto
next
  case (reach_pause q b q')
  then show ?case by (auto intro: parser_ok_pause)
qed

text \<open>
  C2. No sequence of initialisations, runs on arbitrary buffers, pauses and resumptions leads to a
  parser that fails an assertion on its next input; and in every such parser that can still run, a
  body state has a length to wait for, and a chunk state belongs to a chunked message.
\<close>

theorem parser_reach_safe:
  assumes "parser_client settings" "parser_reach settings q"
  shows "http_parser_execute q settings data \<noteq> None \<and>
    (hp_errno q = HPE_OK \<longrightarrow>
      (hp_state q \<in> {s_body_identity, s_chunk_data} \<longrightarrow> hp_content_length q \<noteq> 0 \<and> hp_content_length q \<noteq> ULLONG_MAX) \<and>
      (hp_state q \<in> {s_chunk_size_start, s_chunk_size, s_chunk_parameters, s_chunk_size_almost_done,
        s_chunk_data, s_chunk_data_almost_done, s_chunk_data_done} \<longrightarrow> hp_flags q AND F_CHUNKED \<noteq> 0))"
proof -
  have ok: "parser_ok q" by (rule parser_reach_ok [OF assms(2,1)])
  have "http_parser_execute q settings data \<noteq> None"
    using parser_client.execute_safe [OF assms(1) ok, of data] by auto
  moreover have "hp_errno q = HPE_OK \<Longrightarrow> state_inv 0 (hp_state q) q" using ok by (simp add: parser_ok_def)
  ultimately show ?thesis by (auto simp: state_inv_def flag_simps)
qed

theorem parser_reach_safe_witness:
  "http_parser_execute (http_parser_init (raw_parser new_HTTPParser) HTTP_BOTH) (mSettings url0) ''x'' \<noteq> None"
  using parser_reach_safe [OF http_class.parser_client_axioms [of url0] reach_init] by blast

text \<open>
  Pausing is transparent. A parser in order can be paused; a paused parser consumes nothing and
  does not change; resuming it gives back the parser as it was. A parser that has stopped on an error
  cannot be revived this way: the assertion of \<^verbatim>\<open>http_parser_pause\<close> fails.
\<close>

theorem pause_resume:
  "(hp_errno q = HPE_OK \<longrightarrow>
     (\<exists>p. http_parser_pause q True = Some p \<and> http_parser_execute p settings data = Some (p, 0) \<and>
       http_parser_pause p False = Some q)) \<and>
   (hp_errno q \<noteq> HPE_OK \<and> hp_errno q \<noteq> HPE_PAUSED \<longrightarrow> http_parser_pause q b = None)"
  by (cases q) (auto simp: http_parser_pause_def http_parser_execute_def Let_def)

theorem pause_resume_witness:
  "\<exists>p. http_parser_pause (raw_parser ()) True = Some p \<and>
     http_parser_execute p http_parser_settings_init ''GET'' = Some (p, 0) \<and>
     http_parser_pause p False = Some (raw_parser ())"
  using pause_resume [of "raw_parser ()" http_parser_settings_init "''GET''" True] by (simp add: raw_parser_def)

section \<open>The class HTTPParser\<close>

text \<open>
  \<^verbatim>\<open>HTTPParser::sBodyHandle\<close> assigns the bytes it gets instead of appending them, so of a chunked
  body only the last chunk remains: after the chunks \<^verbatim>\<open>ab\<close> and \<^verbatim>\<open>cd\<close> the body is \<^verbatim>\<open>cd\<close>.
\<close>

theorem class_body_is_last_chunk:
  "case http_parser_execute
      ((raw_parser new_HTTPParser)\<lparr>hp_state := s_chunk_size_start, hp_flags := F_CHUNKED\<rparr>) (mSettings url0)
      (''2'' @ [CR, LF] @ ''ab'' @ [CR, LF] @ ''2'' @ [CR, LF] @ ''cd'' @ [CR, LF]) of
     Some (q, n) \<Rightarrow> hp_errno q = HPE_OK \<and> n = 14 \<and> mBody (hp_data q) = ''cd''
   | None \<Rightarrow> False"
  by code_simp

end
