(* ===== verification/Http_Complete.thy ===== *)
theory Http_Complete
  imports Http_Class Http_Url_Props
begin

text \<open>
  \<^verbatim>\<open>HTTPParser::checkCompleted\<close> and \<^verbatim>\<open>HTTPParser::tryParse\<close> of \<^verbatim>\<open>src/net/http/HttpParser.cpp\<close>: the test
  whether a buffer holds a whole message, by searching its text, and the parse that follows. A pointer into
  \<^verbatim>\<open>copyBuffer\<close> is its offset. \<open>None\<close> is undefined behaviour (a write behind \<^verbatim>\<open>temp\<close>, a number outside the
  range of its conversion) or a failed assertion.
\<close>

section \<open>The C library\<close>

text \<open>\<^verbatim>\<open>strstr(s + p, pat)\<close>: the first match before the next null character, as an offset in \<open>s\<close>.\<close>

fun find_sub :: "bytes \<Rightarrow> bytes \<Rightarrow> nat option" where
  "find_sub pat [] = (if pat = [] then Some 0 else None)"
| "find_sub pat (c # cs) =
     (if take (length pat) (c # cs) = pat then Some 0 else map_option Suc (find_sub pat cs))"

definition strstr :: "bytes \<Rightarrow> nat \<Rightarrow> bytes \<Rightarrow> nat option" where
  "strstr s p pat = map_option (\<lambda>i. p + i) (find_sub pat (takeWhile (\<lambda>c. c \<noteq> CHR 0x00) (drop p s)))"

definition is_space :: "char \<Rightarrow> bool" where
  "is_space c \<longleftrightarrow> c = CHR '' '' \<or> (9 \<le> (of_char c :: nat) \<and> (of_char c :: nat) \<le> 13)"

definition dec_value :: "bytes \<Rightarrow> nat" where
  "dec_value ds = foldl (\<lambda>n c. 10 * n + (of_char c - 48)) 0 ds"

definition is_dec :: "char \<Rightarrow> bool" where
  "is_dec c \<longleftrightarrow> 48 \<le> (of_char c :: nat) \<and> (of_char c :: nat) \<le> 57"

definition signed_text :: "bytes \<Rightarrow> bool \<times> bytes" where
  "signed_text s =
     (case dropWhile is_space s of
        [] \<Rightarrow> (False, [])
      | c # cs \<Rightarrow> if c = CHR ''-'' then (True, cs) else if c = CHR ''+'' then (False, cs) else (False, c # cs))"

definition atoi :: "bytes \<Rightarrow> int option" where
  "atoi s =
     (case signed_text (takeWhile (\<lambda>c. c \<noteq> CHR 0x00) s) of
        (neg, t) \<Rightarrow>
          let v = int (dec_value (takeWhile is_dec t)); r = if neg then - v else v
          in if int_ok r then Some r else None)"

definition is_hex :: "char \<Rightarrow> bool" where
  "is_hex c \<longleftrightarrow> (let n = (of_char c :: nat) in (48 \<le> n \<and> n \<le> 57) \<or> (65 \<le> n \<and> n \<le> 70) \<or> (97 \<le> n \<and> n \<le> 102))"

definition hex_digit :: "char \<Rightarrow> nat" where
  "hex_digit c = (let n = (of_char c :: nat) in if n \<le> 57 then n - 48 else if n \<le> 70 then n - 55 else n - 87)"

text \<open>\<^verbatim>\<open>sscanf(s, "%x", &v)\<close> with \<^verbatim>\<open>v = 0\<close>: without a digit nothing is stored.\<close>

definition sscanf_x :: "bytes \<Rightarrow> int option" where
  "sscanf_x s =
     (case signed_text (takeWhile (\<lambda>c. c \<noteq> CHR 0x00) s) of
        (neg, t) \<Rightarrow>
          let t' = if take 2 t \<in> {''0x'', ''0X''} then drop 2 t else t;
              v = foldl (\<lambda>n c. 16 * n + hex_digit c) 0 (takeWhile is_hex t')
          in if v < 2 ^ 32 then Some (sint (of_int (if neg then - int v else int v) :: 32 word)) else None)"

section \<open>checkCompleted\<close>

definition RL :: bytes where "RL = [CR, LF]"
definition DOUBLE_RL :: bytes where "DOUBLE_RL = [CR, LF, CR, LF]"
definition CONTENT_LENGTH_FLAG :: bytes where "CONTENT_LENGTH_FLAG = ''Content-Length: ''"
definition CHUNKED_FLAG :: bytes where "CHUNKED_FLAG = ''Transfer-Encoding: chunked''"

lemma find_sub_bound: "find_sub pat s = Some i \<Longrightarrow> i + length pat \<le> length s"
proof (induction s arbitrary: i)
  case (Cons c cs)
  show ?case
  proof (cases "take (length pat) (c # cs) = pat")
    case True
    then have "length pat \<le> length (c # cs)" by (metis length_take min.cobounded1)
    then show ?thesis using Cons.prems True by simp
  next
    case False
    then show ?thesis using Cons by auto
  qed
qed (auto split: if_splits)

lemma strstr_bound: "strstr s p pat = Some i \<Longrightarrow> pat \<noteq> [] \<Longrightarrow> p \<le> i \<and> i + length pat \<le> length s"
proof -
  assume i: "strstr s p pat = Some i" and pat: "pat \<noteq> []"
  then obtain j where j: "find_sub pat (takeWhile (\<lambda>c. c \<noteq> CHR 0x00) (drop p s)) = Some j" "i = p + j"
    by (auto simp: strstr_def)
  have "length (takeWhile (\<lambda>c. c \<noteq> CHR 0x00) (drop p s)) \<le> length (drop p s)" by (rule length_takeWhile_le)
  then have "j + length pat \<le> length s - p" using find_sub_bound [OF j(1)] by simp
  moreover have "0 < length pat" using pat by simp
  ultimately show ?thesis using j(2) by linarith
qed

text \<open>
  The loop over the chunks, entered with the line end \<open>len_flag\<close> of a size line that starts at \<open>tmp\<close>. The
  result is \<open>checkChunked\<close> and the final \<open>tmp\<close>.
\<close>

function chunk_scan :: "bytes \<Rightarrow> nat \<Rightarrow> nat \<Rightarrow> nat \<Rightarrow> (bool \<times> nat) option" where
  "chunk_scan cb len tmp len_flag =
     (case sscanf_x (take (len_flag - tmp) (drop tmp cb)) of
        None \<Rightarrow> None
      | Some nValude \<Rightarrow>
          let tmp1 = len_flag + length RL in
          if tmp1 \<ge> len then Some (False, tmp1)
          else if nValude > 0 then
            let tmp2 = tmp1 + nat nValude in
            if tmp2 \<ge> len then Some (False, tmp2)
            else
              (case strstr cb tmp2 RL of
                 None \<Rightarrow> Some (False, tmp2)
               | Some e \<Rightarrow>
                   let tmp3 = e + length RL in
                   (case strstr cb tmp3 RL of
                      None \<Rightarrow> Some (False, tmp3)
                    | Some next \<Rightarrow> chunk_scan cb len tmp3 next))
          else if nValude = 0 then Some (True, tmp1)
          else
            (case strstr cb tmp1 RL of
               None \<Rightarrow> Some (False, tmp1)
             | Some next \<Rightarrow> chunk_scan cb len tmp1 next))"
  by pat_completeness auto
termination
proof (relation "measure (\<lambda>(cb, len, tmp, len_flag). length cb - len_flag)")
qed (auto simp: RL_def dest!: strstr_bound)

definition length_complete :: "bytes \<Rightarrow> nat \<Rightarrow> nat \<Rightarrow> nat \<Rightarrow> bool option" where
  "length_complete cb len bodystart start =
     (let n = (case strstr cb start RL of None \<Rightarrow> 0 | Some e \<Rightarrow> e - start) in
      if n + 1 > 1024 then None
      else if n + 1 = 1 then Some False
      else
        (case atoi (take n (drop start cb) @ [CHR 0x00]) of
           None \<Rightarrow> None
         | Some datalen \<Rightarrow> if datalen \<ge> 0 then Some (len - bodystart \<ge> nat datalen) else None))"

definition chunks_complete :: "bytes \<Rightarrow> nat \<Rightarrow> nat \<Rightarrow> bool option" where
  "chunks_complete cb len bodystart =
     (case strstr cb bodystart RL of
        None \<Rightarrow> Some False
      | Some len_flag \<Rightarrow>
          (case chunk_scan cb len bodystart len_flag of
             None \<Rightarrow> None
           | Some (checkChunked, tmp) \<Rightarrow>
               if checkChunked then
                 if tmp < length cb then
                   if cb ! tmp = CR then Some (strstr cb tmp RL \<noteq> None)
                   else Some (strstr cb tmp DOUBLE_RL \<noteq> None)
                 else None
               else Some False))"

definition checkCompleted :: "bytes \<Rightarrow> bool option" where
  "checkCompleted buffer =
     (let len = length buffer; cb = buffer @ [CHR 0x00] in
      case strstr cb 0 DOUBLE_RL of
        None \<Rightarrow> Some False
      | Some headlineend \<Rightarrow>
          let bodystart = headlineend + length DOUBLE_RL in
          (case strstr cb 0 CONTENT_LENGTH_FLAG of
             Some cl \<Rightarrow> length_complete cb len bodystart (cl + length CONTENT_LENGTH_FLAG)
           | None \<Rightarrow>
               (case strstr cb 0 CHUNKED_FLAG of
                  Some _ \<Rightarrow> chunks_complete cb len bodystart
                | None \<Rightarrow> Some True)))"

section \<open>tryParse\<close>

text \<open>The parser structure carries the object as its user data. The result is the count returned and the parser.\<close>

definition tryParse ::
  "http_parser_url \<Rightarrow> http_parser_type \<Rightarrow> HTTPParser http_parser \<Rightarrow> bytes \<Rightarrow> (nat \<times> HTTPParser http_parser) option" where
  "tryParse u0 mParserType q buffer =
     (if mISCompleted (hp_data q) then Some (0, q)
      else
        (case checkCompleted buffer of
           None \<Rightarrow> None
         | Some False \<Rightarrow> Some (0, q)
         | Some True \<Rightarrow>
             (case http_parser_execute (q\<lparr>hp_data := (hp_data q)\<lparr>mISCompleted := True\<rparr>\<rparr>) (mSettings u0) buffer of
                None \<Rightarrow> None
              | Some (q1, nparsed) \<Rightarrow>
                  let q2 = http_parser_init q1 mParserType;
                      h = hp_data q2
                  in Some (length buffer,
                       q2\<lparr>hp_data := h\<lparr>mTmpHead := [], mIsWebSocket := (getValue h ''Upgrade'' = ''websocket''),
                                        mIsKeepAlive := (getValue h ''Keep-Alive'' \<noteq> [])\<rparr>\<rparr>))))"

section \<open>Searching a text without null characters\<close>

lemma takeWhile_all_but_last: "CHR 0x00 \<notin> set b \<Longrightarrow> p \<le> length b \<Longrightarrow>
  takeWhile (\<lambda>c. c \<noteq> CHR 0x00) (drop p (b @ [CHR 0x00])) = drop p b"
proof -
  assume "CHR 0x00 \<notin> set b" "p \<le> length b"
  then have "\<forall>c \<in> set (drop p b). c \<noteq> CHR 0x00" by (metis in_set_dropD)
  then show ?thesis using \<open>p \<le> length b\<close> by (simp add: takeWhile_append2)
qed

lemma strstr_text:
  "CHR 0x00 \<notin> set b \<Longrightarrow> p \<le> length b \<Longrightarrow>
   strstr (b @ [CHR 0x00]) p pat = map_option (\<lambda>i. p + i) (find_sub pat (drop p b))"
  unfolding strstr_def by (subst takeWhile_all_but_last) simp_all

lemma find_sub_char:
  assumes "c \<notin> set ds" "pat = c # cs"
  shows "find_sub pat (ds @ pat @ rest) = Some (length ds)"
  using assms(1)
proof (induction ds)
  case Nil
  then show ?case by (simp add: assms(2))
next
  case (Cons d ds)
  then show ?case by (auto simp: assms(2))
qed

lemma RL_Cons: "RL = CR # [LF]"
  by (simp add: RL_def)

text \<open>A decimal numeral.\<close>

lemma dec_text:
  assumes "ds \<noteq> []" "\<forall>c \<in> set ds. is_dec c"
  shows "signed_text ds = (False, ds)" "takeWhile is_dec ds = ds" "CHR 0x00 \<notin> set ds" "CR \<notin> set ds"
proof -
  have dec: "is_dec c \<Longrightarrow> \<not> is_space c \<and> c \<noteq> CHR ''-'' \<and> c \<noteq> CHR ''+'' \<and> c \<noteq> CHR 0x00 \<and> c \<noteq> CR" for c
    by (auto simp: is_dec_def is_space_def)
  show "signed_text ds = (False, ds)" using assms dec by (cases ds) (auto simp: signed_text_def)
  show "takeWhile is_dec ds = ds" using assms(2) by (simp add: takeWhile_eq_all_conv)
  show "CHR 0x00 \<notin> set ds" "CR \<notin> set ds" using assms(2) dec by blast+
qed

lemma atoi_dec:
  assumes "ds \<noteq> []" "\<forall>c \<in> set ds. is_dec c" "dec_value ds < 2 ^ 31"
  shows "atoi (ds @ [CHR 0x00]) = Some (int (dec_value ds))"
proof -
  have "takeWhile (\<lambda>c. c \<noteq> CHR 0x00) (ds @ [CHR 0x00]) = ds"
    using dec_text(3) [OF assms(1,2)] by (subst takeWhile_append2) auto
  then show ?thesis
    using assms(3) dec_text(1) [OF assms(1,2)] unfolding atoi_def by (simp add: dec_text(2) [OF assms(1,2)] Let_def int_ok_int)
qed

text \<open>The branch of a message with a content length whose value ends at the first line end.\<close>

lemma content_length_branch:
  assumes "CHR 0x00 \<notin> set buffer" "find_sub DOUBLE_RL buffer = Some h"
    "find_sub CONTENT_LENGTH_FLAG buffer = Some (length pre)"
    "buffer = pre @ CONTENT_LENGTH_FLAG @ ds @ RL @ rest" "CR \<notin> set ds"
  shows "checkCompleted buffer =
    (if length ds + 1 > 1024 then None
     else if length ds + 1 = 1 then Some False
     else (case atoi (ds @ [CHR 0x00]) of
             None \<Rightarrow> None
           | Some datalen \<Rightarrow> if datalen \<ge> 0 then Some (length buffer - (h + 4) \<ge> nat datalen) else None))"
proof -
  define start where "start = length pre + length CONTENT_LENGTH_FLAG"
  have after: "drop start buffer = ds @ RL @ rest" using assms(4) by (simp add: start_def)
  have "strstr (buffer @ [CHR 0x00]) start RL = Some (start + length ds)"
    using assms(1,4,5) after find_sub_char [OF assms(5) RL_Cons, of rest]
    by (subst strstr_text) (simp_all add: start_def)
  moreover have "take (length ds) (drop start (buffer @ [CHR 0x00])) = ds"
    using assms(4) by (simp add: start_def)
  moreover have "length_complete (buffer @ [CHR 0x00]) (length buffer) (h + 4) start =
    (let n = (case strstr (buffer @ [CHR 0x00]) start RL of None \<Rightarrow> 0 | Some e \<Rightarrow> e - start) in
      if n + 1 > 1024 then None
      else if n + 1 = 1 then Some False
      else
        (case atoi (take n (drop start (buffer @ [CHR 0x00])) @ [CHR 0x00]) of
           None \<Rightarrow> None
         | Some datalen \<Rightarrow> if datalen \<ge> 0 then Some (length buffer - (h + 4) \<ge> nat datalen) else None))"
    by (simp only: length_complete_def)
  moreover have "checkCompleted buffer = length_complete (buffer @ [CHR 0x00]) (length buffer) (h + 4) start"
    using assms(1-3) by (simp add: checkCompleted_def strstr_text Let_def start_def DOUBLE_RL_def numeral_eq_Suc)
  ultimately show ?thesis by (simp add: Let_def)
qed

section \<open>Properties\<close>

text \<open>
  For a message whose head is complete and whose first \<^verbatim>\<open>Content-Length\<close> field has a decimal value of
  at most 1023 digits that fits an \<^verbatim>\<open>int\<close>, \<open>checkCompleted\<close> says that the message is complete exactly when
  at least that many bytes follow the empty line.
\<close>

theorem check_completed_length:
  assumes "CHR 0x00 \<notin> set buffer" "find_sub DOUBLE_RL buffer = Some (length head)"
    "buffer = head @ DOUBLE_RL @ body"
    "find_sub CONTENT_LENGTH_FLAG buffer = Some (length pre)"
    "buffer = pre @ CONTENT_LENGTH_FLAG @ ds @ RL @ rest"
    "ds \<noteq> []" "\<forall>c \<in> set ds. is_dec c" "length ds \<le> 1023" "dec_value ds < 2 ^ 31"
  shows "checkCompleted buffer = Some (dec_value ds \<le> length body)"
proof -
  have "length buffer - (length head + 4) = length body" using assms(3) by (simp add: DOUBLE_RL_def)
  then show ?thesis
    using content_length_branch [OF assms(1,2,4,5) dec_text(4) [OF assms(6,7)]] atoi_dec [OF assms(6,7,9)] assms(6,8)
    by simp
qed

text \<open>
  A \<^verbatim>\<open>Content-Length\<close> value of 1024 bytes or more is copied past the end of the array \<^verbatim>\<open>temp\<close> on the
  stack: any client that sends such a field reaches undefined behaviour.
\<close>

theorem check_completed_overflow:
  assumes "CHR 0x00 \<notin> set buffer" "find_sub DOUBLE_RL buffer = Some h"
    "find_sub CONTENT_LENGTH_FLAG buffer = Some (length pre)"
    "buffer = pre @ CONTENT_LENGTH_FLAG @ ds @ RL @ rest" "CR \<notin> set ds" "1024 \<le> length ds"
  shows "checkCompleted buffer = None"
  using content_length_branch [OF assms(1-5)] assms(6) by simp

text \<open>
  When \<open>checkCompleted\<close> is defined, \<open>tryParse\<close> is: the parser it runs fails no assertion, and the object
  is left with a parser in order. It takes the whole buffer or nothing.
\<close>

theorem try_parse_safe:
  assumes "parser_ok q" "checkCompleted buffer = Some done"
  shows "\<exists>q' n. tryParse u0 t q buffer = Some (n, q') \<and> parser_ok q' \<and>
    n = (if done \<and> \<not> mISCompleted (hp_data q) then length buffer else 0)"
proof (cases "mISCompleted (hp_data q) \<or> \<not> done")
  case True
  then show ?thesis using assms by (cases "mISCompleted (hp_data q)") (simp_all add: tryParse_def)
next
  case False
  have "parser_ok (q\<lparr>hp_data := d\<rparr>)" for d using assms(1) by (simp add: parser_ok_def state_inv_def)
  then obtain q1 n where "http_parser_execute (q\<lparr>hp_data := (hp_data q)\<lparr>mISCompleted := True\<rparr>\<rparr>) (mSettings u0) buffer =
      Some (q1, n)"
    using http_class.execute_safe by blast
  then show ?thesis
    using False assms(2) by (simp add: tryParse_def Let_def parser_ok_def http_parser_init_def state_inv_def)
qed

text \<open>
  \<open>tryParse\<close> returns the length of the whole buffer although it stands for one message: of two requests
  that arrive together only the last one is left in the object, and both are taken from the buffer.
\<close>

theorem try_parse_pipelined:
  "case tryParse url0 HTTP_REQUEST (http_parser_init (raw_parser new_HTTPParser) HTTP_REQUEST)
      (''GET /a HTTP/1.1'' @ DOUBLE_RL @ ''GET /b HTTP/1.1'' @ DOUBLE_RL) of
     Some (n, q) \<Rightarrow> n = 38 \<and> mPath (hp_data q) = ''/b''
   | None \<Rightarrow> False"
  by code_simp

section \<open>Witnesses\<close>

theorem check_completed_length_witness:
  "checkCompleted (''PUT / HTTP/1.1'' @ RL @ ''Content-Length: 2'' @ DOUBLE_RL @ ''ok'') = Some True"
proof -
  have "find_sub DOUBLE_RL (''PUT / HTTP/1.1'' @ RL @ ''Content-Length: 2'' @ DOUBLE_RL @ ''ok'') =
      Some (length (''PUT / HTTP/1.1'' @ RL @ ''Content-Length: 2''))"
    "find_sub CONTENT_LENGTH_FLAG (''PUT / HTTP/1.1'' @ RL @ ''Content-Length: 2'' @ DOUBLE_RL @ ''ok'') =
      Some (length (''PUT / HTTP/1.1'' @ RL))"
    "dec_value ''2'' = 2" "is_dec (CHR ''2'')"
    by code_simp+
  then show ?thesis
    using check_completed_length [of "''PUT / HTTP/1.1'' @ RL @ ''Content-Length: 2'' @ DOUBLE_RL @ ''ok''"
        "''PUT / HTTP/1.1'' @ RL @ ''Content-Length: 2''" "''ok''" "''PUT / HTTP/1.1'' @ RL" "''2''" "RL @ ''ok''"]
    by (simp add: RL_def DOUBLE_RL_def CONTENT_LENGTH_FLAG_def)
qed

theorem check_completed_overflow_witness:
  "checkCompleted (CONTENT_LENGTH_FLAG @ replicate 1024 (CHR ''1'') @ RL @ RL) = None"
proof -
  have "find_sub DOUBLE_RL ((CONTENT_LENGTH_FLAG @ replicate 1024 (CHR ''1'')) @ DOUBLE_RL @ []) =
      Some (length (CONTENT_LENGTH_FLAG @ replicate 1024 (CHR ''1'')))"
    by (rule find_sub_char [of CR _ _ "[LF, CR, LF]"]) (auto simp: CONTENT_LENGTH_FLAG_def DOUBLE_RL_def)
  moreover have "find_sub CONTENT_LENGTH_FLAG (CONTENT_LENGTH_FLAG @ xs) = Some 0" for xs
    by (simp add: CONTENT_LENGTH_FLAG_def)
  ultimately show ?thesis
    using check_completed_overflow [of "CONTENT_LENGTH_FLAG @ replicate 1024 (CHR ''1'') @ RL @ RL" _ "[]"
        "replicate 1024 (CHR ''1'')" RL]
    by (simp add: RL_def DOUBLE_RL_def) (auto simp: CONTENT_LENGTH_FLAG_def)
qed

theorem try_parse_safe_witness:
  "\<exists>q' n. tryParse url0 HTTP_REQUEST (http_parser_init (raw_parser new_HTTPParser) HTTP_REQUEST)
      (''GET / HTTP/1.1'' @ DOUBLE_RL) = Some (n, q') \<and> n = 18"
proof -
  have "checkCompleted (''GET / HTTP/1.1'' @ DOUBLE_RL) = Some True" by code_simp
  moreover have "parser_ok (http_parser_init (raw_parser new_HTTPParser) HTTP_REQUEST)"
    by (simp add: parser_ok_def http_parser_init_def state_inv_def)
  ultimately show ?thesis
    using try_parse_safe [of "http_parser_init (raw_parser new_HTTPParser) HTTP_REQUEST" "''GET / HTTP/1.1'' @ DOUBLE_RL"
        True url0 HTTP_REQUEST]
    by (auto simp: http_parser_init_def raw_parser_def new_HTTPParser_def DOUBLE_RL_def)
qed

end
