(* ===== verification/Http_Format.thy ===== *)
theory Http_Format
  imports Http_Complete
begin

text \<open>
  The message builders of \<^verbatim>\<open>src/net/http/HttpFormat.h\<close>: query strings, requests and responses. The header
  fields are a map; the order in which \<^verbatim>\<open>std::unordered_map\<close> iterates over it is unspecified and is an
  argument, a list of the pairs of the map. \<open>None\<close> is a failed assertion.
\<close>

section \<open>Query parameters\<close>

definition query_add :: "string \<Rightarrow> string \<Rightarrow> string" where
  "query_add mParameter v = mParameter @ v"

definition query_add_pair :: "string \<Rightarrow> string \<Rightarrow> string \<Rightarrow> string" where
  "query_add_pair mParameter k v =
     (if length mParameter > 0 then mParameter @ ''&'' else mParameter) @ k @ ''='' @ v"

section \<open>Requests\<close>

datatype HTTP_METHOD =
  HTTP_METHOD_HEAD | HTTP_METHOD_GET | HTTP_METHOD_POST | HTTP_METHOD_PUT | HTTP_METHOD_DELETE | HTTP_METHOD_MAX

record HttpRequest =
  rq_url :: string
  rq_query :: string
  rq_body :: string
  rq_method :: HTTP_METHOD
  rq_head :: "string \<rightharpoonup> string"

text \<open>\<^verbatim>\<open>std::to_string\<close> of a size.\<close>

fun to_string :: "nat \<Rightarrow> string" where
  "to_string n = (if n < 10 then [char_of (48 + n)] else to_string (n div 10) @ [char_of (48 + n mod 10)])"

declare to_string.simps [simp del]

definition setMethod :: "HTTP_METHOD \<Rightarrow> HttpRequest \<Rightarrow> HttpRequest option" where
  "setMethod m r =
     (if m \<noteq> HTTP_METHOD_HEAD \<and> m \<noteq> HTTP_METHOD_MAX then Some (r\<lparr>rq_method := m\<rparr>) else None)"

definition request_addHeadValue :: "string \<Rightarrow> string \<Rightarrow> HttpRequest \<Rightarrow> HttpRequest" where
  "request_addHeadValue field v r = r\<lparr>rq_head := (rq_head r)(field \<mapsto> v)\<rparr>"

definition HttpRequest_new :: HttpRequest where
  "HttpRequest_new = \<lparr>rq_url = [], rq_query = [], rq_body = [], rq_method = HTTP_METHOD_GET, rq_head = Map.empty\<rparr>"

definition setHost :: "string \<Rightarrow> HttpRequest \<Rightarrow> HttpRequest" where
  "setHost host r = request_addHeadValue ''Host'' host r"

definition setUrl :: "string \<Rightarrow> HttpRequest \<Rightarrow> HttpRequest" where
  "setUrl url r = r\<lparr>rq_url := url\<rparr>"

definition setCookie :: "string \<Rightarrow> HttpRequest \<Rightarrow> HttpRequest" where
  "setCookie v r = request_addHeadValue ''Cookie'' v r"

definition request_setContentType :: "string \<Rightarrow> HttpRequest \<Rightarrow> HttpRequest" where
  "request_setContentType v r = request_addHeadValue ''Content-Type'' v r"

definition setQuery :: "string \<Rightarrow> HttpRequest \<Rightarrow> HttpRequest" where
  "setQuery q r = r\<lparr>rq_query := q\<rparr>"

definition request_setBody :: "string \<Rightarrow> HttpRequest \<Rightarrow> HttpRequest" where
  "request_setBody body r = request_addHeadValue ''Content-Length'' (to_string (length body)) (r\<lparr>rq_body := body\<rparr>)"

fun HttpMethodString :: "HTTP_METHOD \<Rightarrow> string" where
  "HttpMethodString HTTP_METHOD_HEAD = ''HEAD''"
| "HttpMethodString HTTP_METHOD_GET = ''GET''"
| "HttpMethodString HTTP_METHOD_POST = ''POST''"
| "HttpMethodString HTTP_METHOD_PUT = ''PUT''"
| "HttpMethodString HTTP_METHOD_DELETE = ''DELETE''"
| "HttpMethodString HTTP_METHOD_MAX = ''''"

fun head_lines :: "(string \<times> string) list \<Rightarrow> string" where
  "head_lines [] = []"
| "head_lines ((k, v) # kvs) = k @ '': '' @ v @ [CR, LF] @ head_lines kvs"

definition request_getResult :: "((string \<rightharpoonup> string) \<Rightarrow> (string \<times> string) list) \<Rightarrow> HttpRequest \<Rightarrow> string" where
  "request_getResult order r =
     HttpMethodString (rq_method r) @ '' '' @ rq_url r @
     (if rq_query r = [] then ''?'' @ rq_query r else []) @
     '' HTTP/1.1'' @ [CR, LF] @ head_lines (order (rq_head r)) @ [CR, LF] @
     (if rq_body r \<noteq> [] then rq_body r else [])"

section \<open>Responses\<close>

datatype HTTP_RESPONSE_STATUS = NONE | OK

fun status_number :: "HTTP_RESPONSE_STATUS \<Rightarrow> nat" where
  "status_number NONE = 0"
| "status_number OK = 200"

record HttpResponse =
  rs_status :: HTTP_RESPONSE_STATUS
  rs_head :: "string \<rightharpoonup> string"
  rs_body :: string

definition HttpResponse_new :: HttpResponse where
  "HttpResponse_new = \<lparr>rs_status = OK, rs_head = Map.empty, rs_body = []\<rparr>"

definition setStatus :: "HTTP_RESPONSE_STATUS \<Rightarrow> HttpResponse \<Rightarrow> HttpResponse" where
  "setStatus s r = r\<lparr>rs_status := s\<rparr>"

definition response_addHeadValue :: "string \<Rightarrow> string \<Rightarrow> HttpResponse \<Rightarrow> HttpResponse" where
  "response_addHeadValue field v r = r\<lparr>rs_head := (rs_head r)(field \<mapsto> v)\<rparr>"

definition response_setContentType :: "string \<Rightarrow> HttpResponse \<Rightarrow> HttpResponse" where
  "response_setContentType v r = response_addHeadValue ''Content-Type'' v r"

definition response_setBody :: "string \<Rightarrow> HttpResponse \<Rightarrow> HttpResponse" where
  "response_setBody body r = response_addHeadValue ''Content-Length'' (to_string (length body)) (r\<lparr>rs_body := body\<rparr>)"

text \<open>The case \<^verbatim>\<open>OK\<close> of the switch has no \<^verbatim>\<open>break\<close> and falls through to the default.\<close>

fun status_text :: "HTTP_RESPONSE_STATUS \<Rightarrow> string" where
  "status_text OK = '' OK'' @ ''UNKNOWN''"
| "status_text NONE = ''UNKNOWN''"

definition response_getResult :: "((string \<rightharpoonup> string) \<Rightarrow> (string \<times> string) list) \<Rightarrow> HttpResponse \<Rightarrow> string" where
  "response_getResult order r =
     ''HTTP/1.1 '' @ to_string (status_number (rs_status r)) @ status_text (rs_status r) @ [CR, LF] @
     head_lines (order (rs_head r)) @ [CR, LF] @ (if rs_body r \<noteq> [] then rs_body r else [])"

section \<open>Decimal numerals\<close>

lemma char_digit: "d < 10 \<Longrightarrow> of_char (char_of (48 + d :: nat)) = (48 + d :: nat)"
  by simp

lemma dec_value_snoc: "dec_value (ds @ [c]) = 10 * dec_value ds + (of_char c - 48)"
  by (simp add: dec_value_def)

lemma to_string_dec: "to_string n \<noteq> [] \<and> (\<forall>c \<in> set (to_string n). is_dec c) \<and> dec_value (to_string n) = n"
proof (induction n rule: to_string.induct)
  case (1 n)
  show ?case
  proof (cases "n < 10")
    case True
    then show ?thesis by (simp add: to_string.simps [of n] is_dec_def dec_value_def)
  next
    case False
    have "n mod 10 < 10" by simp
    then show ?thesis
      using 1 False by (subst (1 2 3) to_string.simps) (auto simp: is_dec_def dec_value_snoc)
  qed
qed

lemma to_string_length: "n < 10 ^ k \<Longrightarrow> 0 < k \<Longrightarrow> length (to_string n) \<le> k"
proof (induction n arbitrary: k rule: to_string.induct)
  case (1 n)
  show ?case
  proof (cases "n < 10")
    case False
    then obtain j where k: "k = Suc j" "0 < j" using 1(2,3) by (cases k; cases "k - 1") auto
    have "n div 10 < 10 ^ j" using 1(2) k(1) by (simp add: less_mult_imp_div_less mult.commute)
    then show ?thesis using 1(1) [OF False _ k(2)] False k(1) by (subst to_string.simps) simp
  qed (use 1(3) in \<open>simp add: to_string.simps [of n]\<close>)
qed

section \<open>The end of the head\<close>

lemma find_sub_skip: "take (length pat) (c # cs) \<noteq> pat \<Longrightarrow> find_sub pat (c # cs) = map_option Suc (find_sub pat cs)"
  by simp

lemma find_sub_shift:
  assumes "\<And>i. i < length xs \<Longrightarrow> take (length pat) (drop i (xs @ ys)) \<noteq> pat"
  shows "find_sub pat (xs @ ys) = map_option (\<lambda>i. length xs + i) (find_sub pat ys)"
  using assms
proof (induction xs)
  case Nil
  then show ?case by (simp add: option.map_id0 [unfolded id_def])
next
  case (Cons x xs)
  have "take (length pat) (x # xs @ ys) \<noteq> pat" using Cons.prems [of 0] by simp
  moreover have "take (length pat) (drop i (xs @ ys)) \<noteq> pat" if "i < length xs" for i
    using Cons.prems [of "Suc i"] that by simp
  ultimately show ?case using Cons.IH by (cases "find_sub pat ys") simp_all
qed

lemma find_sub_first:
  assumes "\<And>i. i < length xs \<Longrightarrow> take (length pat) (drop i (xs @ pat @ ys)) \<noteq> pat" "pat \<noteq> []"
  shows "find_sub pat (xs @ pat @ ys) = Some (length xs)"
proof -
  have "find_sub pat (pat @ ys) = Some 0" using assms(2) by (cases pat) simp_all
  then show ?thesis using find_sub_shift [of xs pat "pat @ ys"] assms(1) by simp
qed

text \<open>A line without carriage return, followed by a line that is not empty, does not contain the end of the head.\<close>

lemma skip_line:
  assumes "CR \<notin> set l" "c \<noteq> CR"
  shows "find_sub DOUBLE_RL (l @ [CR, LF] @ c # s) = map_option (\<lambda>i. length l + 2 + i) (find_sub DOUBLE_RL (c # s))"
proof -
  have no: "take (length DOUBLE_RL) (drop i ((l @ [CR, LF]) @ c # s)) \<noteq> DOUBLE_RL" if "i < length (l @ [CR, LF])" for i
  proof (cases "i < length l")
    case True
    then have "drop i ((l @ [CR, LF]) @ c # s) ! 0 = l ! i" by (simp add: nth_append)
    moreover have "l ! i \<noteq> CR" using assms(1) True nth_mem by metis
    ultimately show ?thesis using True by (cases "drop i ((l @ [CR, LF]) @ c # s)") (auto simp: DOUBLE_RL_def)
  next
    case False
    then have "i = length l \<or> i = Suc (length l)" using that by auto
    then show ?thesis using assms(2) by (auto simp: DOUBLE_RL_def numeral_eq_Suc)
  qed
  show ?thesis using find_sub_shift [of "l @ [CR, LF]" DOUBLE_RL "c # s", OF no] by (simp del: find_sub.simps)
qed

definition lines_text :: "string list \<Rightarrow> string" where
  "lines_text ls = concat (map (\<lambda>l. l @ [CR, LF]) ls)"

lemma head_end:
  assumes "\<forall>l \<in> set (l # ls). l \<noteq> [] \<and> CR \<notin> set l"
  shows "find_sub DOUBLE_RL (lines_text (l # ls) @ [CR, LF] @ rest) = Some (length (lines_text (l # ls)) - 2)"
  using assms
proof (induction ls arbitrary: l)
  case Nil
  have "find_sub DOUBLE_RL (l @ DOUBLE_RL @ rest) = Some (length l)"
    using Nil by (intro find_sub_char [of CR _ _ "[LF, CR, LF]"]) (auto simp: DOUBLE_RL_def)
  then show ?case by (simp add: lines_text_def DOUBLE_RL_def)
next
  case (Cons m ls)
  obtain c cs where m: "m = c # cs" "c \<noteq> CR" using Cons.prems by (cases m) auto
  have split: "lines_text (l # m # ls) @ [CR, LF] @ rest = l @ [CR, LF] @ c # (cs @ [CR, LF] @ lines_text ls @ [CR, LF] @ rest)"
    "lines_text (m # ls) @ [CR, LF] @ rest = c # (cs @ [CR, LF] @ lines_text ls @ [CR, LF] @ rest)"
    by (simp_all add: lines_text_def m)
  have "find_sub DOUBLE_RL (lines_text (m # ls) @ [CR, LF] @ rest) = Some (length (lines_text (m # ls)) - 2)"
    using Cons.IH [of m] Cons.prems by simp
  moreover have "2 \<le> length (lines_text (m # ls))" by (simp add: lines_text_def)
  ultimately show ?case
    using skip_line [of l c] Cons.prems m(2) unfolding split by (simp add: lines_text_def)
qed

lemma head_lines_text: "head_lines kvs = lines_text (map (\<lambda>(k, v). k @ '': '' @ v) kvs)"
  by (induction kvs rule: head_lines.induct) (simp_all add: lines_text_def)

section \<open>Built messages are recognised\<close>

text \<open>The text of a message: first line, fields, empty line, body.\<close>

definition plain :: "string \<Rightarrow> bool" where
  "plain s \<longleftrightarrow> CR \<notin> set s \<and> CHR 0x00 \<notin> set s"

lemma plain_to_string: "plain (to_string n)"
  using dec_text(3,4) [of "to_string n"] to_string_dec [of n] by (simp add: plain_def)

lemma message_complete_at_end:
  fixes body1 body2 first :: string and kvs1 kvs2 :: "(string \<times> string) list"
  defines "head \<equiv> first @ [CR, LF] @ head_lines (kvs1 @ (''Content-Length'', to_string (length (body1 @ body2))) # kvs2) @ [CR, LF]"
    and "pre \<equiv> first @ [CR, LF] @ head_lines kvs1"
  assumes fields: "first \<noteq> []" "plain first" "\<forall>(k, v) \<in> set (kvs1 @ kvs2). plain k \<and> plain v"
    and size: "length (body1 @ body2) < 2 ^ 31" "CHR 0x00 \<notin> set body1"
    and once: "\<And>i. i < length pre \<Longrightarrow> take 16 (drop i (head @ body1)) \<noteq> CONTENT_LENGTH_FLAG"
  shows "checkCompleted (head @ body1) = Some (body2 = [])"
proof -
  define n where "n = length (body1 @ body2)"
  define ls where "ls = map (\<lambda>(k, v). k @ '': '' @ v) (kvs1 @ (''Content-Length'', to_string n) # kvs2)"
  have ls: "\<forall>l \<in> set (first # ls). l \<noteq> [] \<and> CR \<notin> set l \<and> CHR 0x00 \<notin> set l"
  proof -
    have "plain k \<and> plain v" if "(k, v) \<in> set kvs1 \<union> set kvs2" for k v using fields(3) that by auto
    then show ?thesis using fields(1,2) plain_to_string [of n] by (fastforce simp: ls_def plain_def)
  qed
  have head: "head = lines_text (first # ls) @ [CR, LF]"
    by (simp add: head_def head_lines_text ls_def n_def) (simp add: lines_text_def)
  have "CHR 0x00 \<notin> set (lines_text ms)" if "\<forall>l \<in> set ms. CHR 0x00 \<notin> set l" for ms
    using that by (auto simp: lines_text_def)
  then have nul: "CHR 0x00 \<notin> set (head @ body1)" using ls size(2) by (auto simp: head)
  define hd where "hd = take (length (lines_text (first # ls)) - 2) (lines_text (first # ls))"
  have "\<exists>xs. lines_text (first # ls) = xs @ [CR, LF]"
    by (cases ls rule: rev_cases) (auto simp: lines_text_def)
  then have hd: "lines_text (first # ls) = hd @ [CR, LF]" by (auto simp: hd_def)
  then have whole: "head @ body1 = hd @ DOUBLE_RL @ body1" by (simp add: head DOUBLE_RL_def)
  have found: "find_sub DOUBLE_RL (head @ body1) = Some (length hd)"
    using head_end [of first ls body1] ls by (simp add: head hd)
  have cut: "head_lines (xs @ (k, v) # ys) = head_lines xs @ k @ '': '' @ v @ [CR, LF] @ head_lines ys" for xs k v ys
    by (induction xs rule: head_lines.induct) simp_all
  have field: "head @ body1 = pre @ CONTENT_LENGTH_FLAG @ to_string n @ RL @ (head_lines kvs2 @ [CR, LF] @ body1)"
    by (simp add: head_def pre_def cut n_def CONTENT_LENGTH_FLAG_def RL_def)
  have "find_sub CONTENT_LENGTH_FLAG (pre @ CONTENT_LENGTH_FLAG @ (to_string n @ RL @ (head_lines kvs2 @ [CR, LF] @ body1))) =
      Some (length pre)"
  proof (rule find_sub_first)
    have "length CONTENT_LENGTH_FLAG = 16" by (simp add: CONTENT_LENGTH_FLAG_def)
    then show "take (length CONTENT_LENGTH_FLAG)
        (drop i (pre @ CONTENT_LENGTH_FLAG @ (to_string n @ RL @ (head_lines kvs2 @ [CR, LF] @ body1)))) \<noteq> CONTENT_LENGTH_FLAG"
      if "i < length pre" for i using once [OF that] unfolding field by simp
    show "CONTENT_LENGTH_FLAG \<noteq> []" by (simp add: CONTENT_LENGTH_FLAG_def)
  qed
  then have "find_sub CONTENT_LENGTH_FLAG (head @ body1) = Some (length pre)" by (simp only: field)
  moreover have "length (to_string n) \<le> 10" using size(1) by (intro to_string_length) (simp_all add: n_def)
  ultimately have "checkCompleted (head @ body1) = Some (dec_value (to_string n) \<le> length body1)"
    using content_length_branch [OF nul found _ field] atoi_dec [of "to_string n"] to_string_dec [of n]
      dec_text(4) [of "to_string n"] size(1) whole
    by (simp add: n_def DOUBLE_RL_def nat_add_distrib)
  then show ?thesis using to_string_dec [of n] by (simp add: n_def)
qed

section \<open>Properties\<close>

text \<open>
  C32. A request with a body, built by \<open>HttpRequest\<close> and sent in any pieces, is recognised by
  \<open>checkCompleted\<close> exactly when its last byte has arrived: for every split of the body the head with the first
  part is complete if and only if nothing is missing. The fields may come in any order; the hypotheses say that
  texts contain no carriage return or null character and that the length field is the first text of its form.
\<close>

theorem request_complete_at_last_byte:
  assumes "rq = request_setBody (body1 @ body2) r" "\<And>b. msg b = request_getResult order (rq\<lparr>rq_body := b\<rparr>)"
    "order (rq_head rq) = kvs1 @ (''Content-Length'', to_string (length (body1 @ body2))) # kvs2"
    "plain (rq_url r)" "plain (rq_query r)" "\<forall>(k, v) \<in> set (kvs1 @ kvs2). plain k \<and> plain v"
    "length (body1 @ body2) < 2 ^ 31" "CHR 0x00 \<notin> set body1"
    "\<And>i. i + length (head_lines ((''Content-Length'', to_string (length (body1 @ body2))) # kvs2)) + 2 < length (msg []) \<Longrightarrow>
       take 16 (drop i (msg body1)) \<noteq> CONTENT_LENGTH_FLAG"
  shows "checkCompleted (msg body1) = Some (body2 = [])"
proof -
  define first where "first = HttpMethodString (rq_method r) @ '' '' @ rq_url r @
    (if rq_query r = [] then ''?'' @ rq_query r else []) @ '' HTTP/1.1''"
  have rq: "rq_url rq = rq_url r" "rq_query rq = rq_query r" "rq_method rq = rq_method r"
    by (simp_all add: assms(1) request_setBody_def request_addHeadValue_def)
  have msg: "msg b = (first @ [CR, LF] @ head_lines (kvs1 @ (''Content-Length'', to_string (length (body1 @ body2))) # kvs2) @
      [CR, LF]) @ b" for b
    using assms(3) by (simp add: assms(2) request_getResult_def rq first_def)
  have "plain (HttpMethodString m)" for m by (cases m) (simp_all add: plain_def)
  then have first: "first \<noteq> []" "plain first" using assms(4,5) by (auto simp: first_def plain_def)
  have cut: "length (head_lines (xs @ ys)) = length (head_lines xs) + length (head_lines ys)" for xs ys
    by (induction xs rule: head_lines.induct) simp_all
  have once: "take 16 (drop i (msg body1)) \<noteq> CONTENT_LENGTH_FLAG" if "i < length (first @ [CR, LF] @ head_lines kvs1)" for i
    using that by (intro assms(9)) (simp add: msg cut [of kvs1])
  show ?thesis
    using message_complete_at_end [OF first assms(6-8)] once unfolding msg by blast
qed

text \<open>
  \<open>HttpRequest::getResult\<close> tests \<^verbatim>\<open>mQuery.empty()\<close> the wrong way round: a query that was set does not
  appear in the text, and a request without a query gets a question mark.
\<close>

theorem request_query_dropped:
  "(q \<noteq> [] \<longrightarrow> request_getResult order (setQuery q r) =
      HttpMethodString (rq_method r) @ '' '' @ rq_url r @ '' HTTP/1.1'' @ [CR, LF] @ head_lines (order (rq_head r)) @
      [CR, LF] @ rq_body r) \<and>
   request_getResult order (setQuery [] r) =
      HttpMethodString (rq_method r) @ '' '' @ rq_url r @ ''? HTTP/1.1'' @ [CR, LF] @ head_lines (order (rq_head r)) @
      [CR, LF] @ rq_body r"
  by (simp add: request_getResult_def setQuery_def)

text \<open>
  The switch of \<open>HttpResponse::getResult\<close> falls through: every response with status 200 starts with the line
  \<^verbatim>\<open>HTTP/1.1 200 OKUNKNOWN\<close>.
\<close>

theorem response_status_line:
  "\<exists>t. response_getResult order (setStatus OK r) = ''HTTP/1.1 200 OKUNKNOWN'' @ [CR, LF] @ t"
proof -
  have "to_string 200 = ''200''" by code_simp
  then show ?thesis by (simp add: response_getResult_def setStatus_def)
qed

section \<open>Witnesses\<close>

definition demo_order :: "(string \<rightharpoonup> string) \<Rightarrow> (string \<times> string) list" where
  "demo_order m = List.map_filter (\<lambda>k. map_option (\<lambda>v. (k, v)) (m k)) [''Host'', ''Content-Length'']"

theorem request_complete_at_last_byte_witness:
  "checkCompleted (request_getResult demo_order
     ((request_setBody ''okay'' (setHost ''h'' (setUrl ''/'' HttpRequest_new)))\<lparr>rq_body := ''ok''\<rparr>)) = Some False"
proof -
  define r where "r = setHost ''h'' (setUrl ''/'' HttpRequest_new)"
  have four: "to_string (Suc (Suc (Suc (Suc 0)))) = ''4''" by code_simp
  have order: "demo_order (rq_head (request_setBody (''ok'' @ ''ay'') r)) =
      [(''Host'', ''h'')] @ (''Content-Length'', to_string (length (''ok'' @ ''ay''))) # []"
    by (simp add: r_def request_setBody_def request_addHeadValue_def setHost_def setUrl_def HttpRequest_new_def
        demo_order_def List.map_filter_def four)
  have msg: "request_getResult demo_order ((request_setBody (''ok'' @ ''ay'') r)\<lparr>rq_body := b\<rparr>) =
      ''GET /? HTTP/1.1'' @ [CR, LF] @ ''Host: h'' @ [CR, LF] @ ''Content-Length: 4'' @ [CR, LF, CR, LF] @ b" for b
    using order by (simp add: request_getResult_def r_def request_setBody_def request_addHeadValue_def setHost_def setUrl_def
        HttpRequest_new_def four)
  have "\<forall>i \<in> set [0..<26]. take 16 (drop i (''GET /? HTTP/1.1'' @ [CR, LF] @ ''Host: h'' @ [CR, LF] @ ''Content-Length: 4'' @
      [CR, LF, CR, LF] @ ''ok'')) \<noteq> CONTENT_LENGTH_FLAG"
    by code_simp
  then have once: "take 16 (drop i (request_getResult demo_order ((request_setBody (''ok'' @ ''ay'') r)\<lparr>rq_body := ''ok''\<rparr>))) \<noteq>
      CONTENT_LENGTH_FLAG" if "i < 26" for i using that unfolding msg by auto
  have "checkCompleted (request_getResult demo_order ((request_setBody (''ok'' @ ''ay'') r)\<lparr>rq_body := ''ok''\<rparr>)) =
      Some (''ay'' = [])"
  proof (rule request_complete_at_last_byte [where rq = "request_setBody (''ok'' @ ''ay'') r" and r = r
        and msg = "\<lambda>b. request_getResult demo_order ((request_setBody (''ok'' @ ''ay'') r)\<lparr>rq_body := b\<rparr>)",
        OF refl refl order])
    show "plain (rq_url r)" "plain (rq_query r)" "\<forall>(k, v) \<in> set ([(''Host'', ''h'')] @ []). plain k \<and> plain v"
      by (simp_all add: plain_def r_def setHost_def setUrl_def HttpRequest_new_def request_addHeadValue_def)
    show "length (''ok'' @ ''ay'') < 2 ^ 31" "CHR 0x00 \<notin> set ''ok''" by simp_all
    fix i
    assume "i + length (head_lines [(''Content-Length'', to_string (length (''ok'' @ ''ay'')))]) + 2
      < length (request_getResult demo_order ((request_setBody (''ok'' @ ''ay'') r)\<lparr>rq_body := []\<rparr>))"
    then have "i < 26" unfolding msg by (simp add: four)
    then show "take 16 (drop i (request_getResult demo_order ((request_setBody (''ok'' @ ''ay'') r)\<lparr>rq_body := ''ok''\<rparr>))) \<noteq>
      CONTENT_LENGTH_FLAG" by (rule once)
  qed
  then show ?thesis by (simp add: r_def)
qed

theorem request_query_dropped_witness:
  "request_getResult demo_order (setQuery ''a=1'' (setUrl ''/p'' HttpRequest_new)) =
     ''GET /p HTTP/1.1'' @ [CR, LF, CR, LF]"
  using request_query_dropped [of "''a=1''" demo_order "setUrl ''/p'' HttpRequest_new"]
  by (simp add: setUrl_def HttpRequest_new_def demo_order_def List.map_filter_def)

end
