(* ===== verification/Ox_Array.thy ===== *)
theory Ox_Array
  imports Interfaces
begin

text \<open>
  The array of fixed-size elements of \<^verbatim>\<open>src/utils/array.c\<close>. Sizes and indices are \<^verbatim>\<open>int\<close> in the
  code; the model computes them as integers and returns \<open>None\<close> where a signed operation overflows, where
  an assertion fails, and where an access leaves the block. \<open>malloc\<close> is an argument that says which
  sizes can be allocated; the number of live blocks is threaded through.
\<close>

section \<open>State\<close>

record array_s =
  arr_buffer :: "bytes option"
  buffer_size :: int
  element_size :: int
  element_num :: int

section \<open>Operations\<close>

definition ox_array_delete :: "array_s option \<Rightarrow> nat \<Rightarrow> nat" where
  "ox_array_delete self live =
     (case self of
        None \<Rightarrow> live
      | Some s \<Rightarrow> (case arr_buffer s of None \<Rightarrow> live - 1 | Some _ \<Rightarrow> live - 1 - 1))"

definition ox_array_new ::
  "bool \<Rightarrow> (nat \<Rightarrow> bool) \<Rightarrow> int \<Rightarrow> int \<Rightarrow> nat \<Rightarrow> (array_s option \<times> nat) option" where
  "ox_array_new self_ok malloc num esize live =
     (let bsize = num * esize in
      if \<not> int_ok bsize then None
      else if \<not> self_ok then Some (None, live)
      else if malloc (to_size bsize) then
        Some (Some \<lparr>arr_buffer = Some (replicate (to_size bsize) (CHR 0x00)), buffer_size = bsize,
          element_size = esize, element_num = num\<rparr>, live + 2)
      else
        Some (None, ox_array_delete
          (Some \<lparr>arr_buffer = None, buffer_size = 0, element_size = 0, element_num = 0\<rparr>) (live + 1)))"

text \<open>The pointer returned is the offset into the block.\<close>

definition ox_array_at :: "array_s \<Rightarrow> int \<Rightarrow> nat option" where
  "ox_array_at self index =
     (if index \<ge> 0 \<and> index < element_num self then
        (let off = index * element_size self in
         if int_ok off \<and> 0 \<le> off then Some (nat off) else None)
      else None)"

definition ox_array_set :: "array_s \<Rightarrow> int \<Rightarrow> bytes \<Rightarrow> (bool \<times> array_s) option" where
  "ox_array_set self index data =
     (case ox_array_at self index of
        None \<Rightarrow> None
      | Some off \<Rightarrow>
          (case (arr_buffer self, mem_read 0 (to_size (element_size self)) data) of
             (Some d, Some v) \<Rightarrow>
               (case mem_write off v d of
                  None \<Rightarrow> None
                | Some d' \<Rightarrow> Some (True, self\<lparr>arr_buffer := Some d'\<rparr>))
           | _ \<Rightarrow> None))"

definition ox_array_increase :: "(nat \<Rightarrow> bool) \<Rightarrow> array_s \<Rightarrow> int \<Rightarrow> (bool \<times> array_s) option" where
  "ox_array_increase malloc self increase_num =
     (if increase_num \<le> 0 then Some (False, self)
      else
        let more = increase_num * element_size self;
            new_buffer_size = buffer_size self + more
        in if \<not> int_ok more \<or> \<not> int_ok new_buffer_size then None
           else if malloc (to_size new_buffer_size) then
             (case arr_buffer self of
                None \<Rightarrow> None
              | Some d \<Rightarrow>
                  (case mem_read 0 (to_size (buffer_size self)) d of
                     None \<Rightarrow> None
                   | Some old \<Rightarrow>
                       (case mem_write 0 old (replicate (to_size new_buffer_size) (CHR 0x00)) of
                          None \<Rightarrow> None
                        | Some d' \<Rightarrow>
                            if int_ok (element_num self + increase_num) then
                              Some (True, self\<lparr>arr_buffer := Some d',
                                element_num := element_num self + increase_num,
                                buffer_size := new_buffer_size\<rparr>)
                            else None)))
           else None)"

definition ox_array_num :: "array_s \<Rightarrow> int" where
  "ox_array_num self = element_num self"

section \<open>Invariant and elements\<close>

definition array_wf :: "array_s \<Rightarrow> bool" where
  "array_wf s \<longleftrightarrow>
     (case arr_buffer s of None \<Rightarrow> False | Some d \<Rightarrow> length d = nat (buffer_size s)) \<and>
     0 \<le> element_num s \<and> 0 \<le> element_size s \<and> buffer_size s = element_num s * element_size s \<and>
     int_ok (buffer_size s) \<and> int_ok (element_num s) \<and> int_ok (element_size s)"

definition array_elem :: "array_s \<Rightarrow> nat \<Rightarrow> bytes" where
  "array_elem s i =
     (case arr_buffer s of
        None \<Rightarrow> []
      | Some d \<Rightarrow> take (nat (element_size s)) (drop (i * nat (element_size s)) d))"

definition array_len :: "array_s \<Rightarrow> nat" where
  "array_len s = nat (ox_array_num s)"

definition array_width :: "array_s \<Rightarrow> nat" where
  "array_width s = nat (element_size s)"

definition array_put :: "array_s \<Rightarrow> nat \<Rightarrow> bytes \<Rightarrow> array_s option" where
  "array_put s i v = map_option snd (ox_array_set s (int i) v)"

lemma array_wfE:
  assumes "array_wf s"
  obtains d n w where "arr_buffer s = Some d" "element_num s = int n" "element_size s = int w"
    "length d = n * w" "n * w < 2 ^ 31" "buffer_size s = int (n * w)" "n < 2 ^ 31" "w < 2 ^ 31"
proof -
  obtain d where d: "arr_buffer s = Some d" "length d = nat (buffer_size s)"
    using assms by (auto simp: array_wf_def split: option.splits)
  moreover have "element_num s = int (nat (element_num s))" "element_size s = int (nat (element_size s))"
    using assms by (simp_all add: array_wf_def)
  moreover have "buffer_size s = int (nat (element_num s) * nat (element_size s))"
    using assms by (simp add: array_wf_def)
  moreover have "int (nat (element_num s) * nat (element_size s)) < 2 ^ 31"
    using assms calculation(5) by (simp add: array_wf_def int_ok_def)
  then have "nat (element_num s) * nat (element_size s) < 2 ^ 31"
    by (simp only: of_nat_less_numeral_power_cancel_iff)
  moreover have "nat (element_num s) < 2 ^ 31" "nat (element_size s) < 2 ^ 31"
    using assms by (simp_all add: array_wf_def int_ok_def nat_less_iff)
  ultimately show thesis
    by (intro that [of d "nat (element_num s)" "nat (element_size s)"]) (simp_all only: nat_int)
qed

lemma block_bound: "i < n \<Longrightarrow> i * w + w \<le> n * (w :: nat)"
  by (metis add.commute mult_Suc mult_le_mono1 Suc_leI)

lemma blocks_apart: "i < j \<Longrightarrow> i * w + w \<le> j * (w :: nat)"
  by (rule block_bound)

lemma array_set_law:
  assumes "array_wf s" "i < array_len s" "length v = array_width s"
  shows "\<exists>s'. ox_array_set s (int i) v = Some (True, s') \<and> array_wf s' \<and> array_len s' = array_len s \<and>
    array_width s' = array_width s \<and>
    (\<forall>j < array_len s. array_elem s' j = (if j = i then v else array_elem s j))"
proof -
  obtain d n w where d: "arr_buffer s = Some d" "element_num s = int n" "element_size s = int w"
    "length d = n * w" "n * w < 2 ^ 31" "buffer_size s = int (n * w)" "n < 2 ^ 31" "w < 2 ^ 31"
    using assms(1) by (rule array_wfE)
  have i: "i < n" "length v = w" using assms(2,3) d by (simp_all add: array_len_def ox_array_num_def array_width_def)
  have fits: "i * w + length v \<le> length d" using block_bound [OF i(1), of w] i(2) d(4) by simp
  have "int_ok (int i * int w)" using fits d(4,5) by (simp add: int_ok_int flip: of_nat_mult)
  then have off: "ox_array_at s (int i) = Some (i * w)"
    using d i by (simp add: ox_array_at_def Let_def nat_mult_distrib)
  have size: "to_size (int w) = w" using d(8) by (subst to_size_nat) (simp_all add: int_ok_def)
  define d' where "d' = take (i * w) d @ v @ drop (i * w + length v) d"
  have wr: "mem_write (i * w) v d = Some d'" using fits by (simp add: mem_write_in d'_def)
  have res: "ox_array_set s (int i) v = Some (True, s\<lparr>arr_buffer := Some d'\<rparr>)"
    using off wr d(1,3) size i(2) by (simp add: ox_array_set_def mem_read_def)
  have len: "length d' = n * w" using mem_write_length [OF wr] d(4) by simp
  have rd: "mem_read (j * w) w d' = (if j = i then Some v else mem_read (j * w) w d)" for j
    using mem_read_write_same [OF wr] mem_read_write_before [OF wr] mem_read_write_after [OF wr]
      blocks_apart [of j i w] blocks_apart [of i j w] i(2) by (cases j i rule: linorder_cases) auto
  have "array_elem (s\<lparr>arr_buffer := Some d'\<rparr>) j = (if j = i then v else array_elem s j)" if "j < n" for j
    using rd [of j] block_bound [OF that, of w] block_bound [OF i(1), of w] d(1,3,4) len
    by (auto simp: array_elem_def mem_read_def split: if_splits)
  then show ?thesis
    using res assms(1) d len by (simp add: array_wf_def array_len_def ox_array_num_def array_width_def)
qed

interpretation arr: element_store array_wf array_len "\<lambda>s v. length v = array_width s" array_elem array_put
  using array_set_law by unfold_locales (fastforce simp: array_put_def)

section \<open>Growing the array\<close>

lemma array_increase_law:
  assumes "array_wf s" "0 < k" "malloc (nat ((element_num s + k) * element_size s))"
    "int_ok ((element_num s + k) * element_size s)" "int_ok (element_num s + k)"
  shows "\<exists>s'. ox_array_increase malloc s k = Some (True, s') \<and> array_wf s' \<and>
    array_len s' = array_len s + nat k \<and> array_width s' = array_width s \<and>
    arr_buffer s' = Some (the (arr_buffer s) @ replicate (nat k * array_width s) (CHR 0x00))"
proof -
  obtain d n w where d: "arr_buffer s = Some d" "element_num s = int n" "element_size s = int w"
    "length d = n * w" "n * w < 2 ^ 31" "buffer_size s = int (n * w)" "n < 2 ^ 31" "w < 2 ^ 31"
    using assms(1) by (rule array_wfE)
  obtain m where k: "k = int m" "0 < m" using assms(2) zero_less_imp_eq_int by blast
  have total: "(element_num s + k) * element_size s = int ((n + m) * w)" by (simp add: d k)
  have sizes: "(n + m) * w < 2 ^ 31" "n + m < 2 ^ 31"
    using assms(4,5) unfolding total by (simp_all only: int_ok_int d(2) k(1) flip: of_nat_add)
  have "m * w < 2 ^ 31" using sizes(1) by (simp add: add_mult_distrib)
  then have more: "k * element_size s = int (m * w)" "int_ok (int (m * w))"
    by (simp_all only: int_ok_int) (simp add: k d)
  have new: "buffer_size s + int (m * w) = int ((n + m) * w)" "int_ok (int ((n + m) * w))" "int_ok (int (n + m))"
    "element_num s + k = int (n + m)"
    using sizes by (simp_all only: int_ok_int) (simp_all add: d k algebra_simps)
  have size: "to_size (int x) = x" if "x < 2 ^ 31" for x
    using that by (subst to_size_nat) (simp_all only: int_ok_int nat_int of_nat_0_le_iff)
  have old: "mem_read 0 (to_size (buffer_size s)) d = Some d"
    using d by (simp add: mem_read_def size del: of_nat_mult)
  have wr: "mem_write 0 d (replicate ((n + m) * w) (CHR 0x00)) = Some (d @ replicate (m * w) (CHR 0x00))"
    using d(4) by (simp add: mem_write_def add_mult_distrib)
  have "malloc ((n + m) * w)" using assms(3) by (simp only: total nat_int)
  then have "ox_array_increase malloc s k = Some (True, s\<lparr>arr_buffer := Some (d @ replicate (m * w) (CHR 0x00)),
      element_num := int (n + m), buffer_size := int ((n + m) * w)\<rparr>)"
    using assms(2) unfolding ox_array_increase_def Let_def more(1) new(1,4)
    by (simp add: more(2) new(2,3) size [OF sizes(1)] old wr d(1) del: of_nat_mult of_nat_add)
  then show ?thesis
    using d k new(2,3)
    by (simp add: array_wf_def array_len_def ox_array_num_def array_width_def int_ok_int nat_add_distrib nat_mult_distrib
      algebra_simps)
qed

section \<open>Properties\<close>

text \<open>
  Any sequence of calls of \<open>ox_array_set\<close> at valid indices runs without an assertion, keeps the
  invariant and the number of elements, and leaves at every index the value stored there last.
\<close>

theorem array_stores_last:
  assumes "array_wf s" "\<forall>(i, v) \<in> set ops. i < array_len s \<and> length v = array_width s"
  shows "\<exists>t. stores_run (\<lambda>s i v. map_option snd (ox_array_set s (int i) v)) s ops = Some t \<and> array_wf t \<and>
    array_len t = array_len s \<and> (\<forall>j < array_len s. array_elem t j = stores_spec (array_elem s) ops j)"
  using arr.stores_last [OF assms] by (simp add: array_put_def [abs_def])

text \<open>
  \<open>ox_array_increase\<close>, when the memory is there and no \<^verbatim>\<open>int\<close> overflows, keeps every element and
  appends the requested number of elements, all zero.
\<close>

theorem ox_array_increase_exact:
  assumes "array_wf s" "0 < k" "malloc (nat ((element_num s + k) * element_size s))"
    "int_ok ((element_num s + k) * element_size s)" "int_ok (element_num s + k)"
  shows "\<exists>s'. ox_array_increase malloc s k = Some (True, s') \<and> array_wf s' \<and>
    array_len s' = array_len s + nat k \<and>
    (\<forall>j < array_len s'. array_elem s' j =
       (if j < array_len s then array_elem s j else replicate (array_width s) (CHR 0x00)))"
proof -
  obtain d n w where d: "arr_buffer s = Some d" "element_num s = int n" "element_size s = int w"
    "length d = n * w" using assms(1) by (rule array_wfE)
  obtain s' where s': "ox_array_increase malloc s k = Some (True, s')" "array_wf s'"
    "array_len s' = array_len s + nat k" "array_width s' = array_width s"
    "arr_buffer s' = Some (d @ replicate (nat k * w) (CHR 0x00))"
    using array_increase_law [of s k malloc] assms d(1,3) by (auto simp: array_width_def)
  have "array_elem s' j = (if j < array_len s then array_elem s j else replicate (array_width s) (CHR 0x00))"
    if j: "j < array_len s + nat k" for j
  proof (cases "j < n")
    case True
    then show ?thesis
      using s'(4,5) d block_bound [OF True, of w]
      by (simp add: array_elem_def array_width_def array_len_def ox_array_num_def)
  next
    case False
    then have "j * w = n * w + (j - n) * w" by (metis add_mult_distrib le_add_diff_inverse not_less)
    moreover have "j - n < nat k" using j False d(2) by (simp add: array_len_def ox_array_num_def)
    ultimately show ?thesis
      using s'(4,5) d False block_bound [of "j - n" "nat k" w]
      by (simp add: array_elem_def array_width_def array_len_def ox_array_num_def min_def)
  qed
  then show ?thesis using s' by simp
qed

text \<open>
  \<open>ox_array_new\<close> with sizes that fit an \<^verbatim>\<open>int\<close> returns a well-formed array of zero elements or the
  null pointer, and what it allocates \<open>ox_array_delete\<close> frees: no block is leaked on any path.
\<close>

theorem ox_array_new_delete:
  assumes "0 \<le> num" "0 \<le> esize" "int_ok num" "int_ok esize" "int_ok (num * esize)"
  shows "\<exists>r live'. ox_array_new self_ok malloc num esize live = Some (r, live') \<and>
    ox_array_delete r live' = live \<and>
    (r = None \<longleftrightarrow> \<not> (self_ok \<and> malloc (nat (num * esize)))) \<and>
    (\<forall>s. r = Some s \<longrightarrow> array_wf s \<and> ox_array_num s = num \<and>
      (\<forall>j < array_len s. array_elem s j = replicate (nat esize) (CHR 0x00)))"
proof -
  obtain n w where nw: "num = int n" "esize = int w" using assms(1,2) nonneg_int_cases by metis
  have size: "to_size (num * esize) = n * w" "nat (num * esize) = n * w"
    using assms by (simp_all add: to_size_nat nw flip: of_nat_mult)
  have bound: "j * w + w \<le> n * w" if "j < n" for j by (rule block_bound [OF that])
  have z: "array_elem \<lparr>arr_buffer = Some (replicate (n * w) (CHR 0x00)), buffer_size = num * esize,
      element_size = esize, element_num = num\<rparr> j = replicate w (CHR 0x00)" if "j < n" for j
    using bound [OF that] by (simp add: array_elem_def nw min_def)
  show ?thesis
    using assms z size
    by (auto simp: ox_array_new_def Let_def ox_array_delete_def array_wf_def array_len_def ox_array_num_def nw)
qed

text \<open>
  An index outside the array never reaches memory: \<open>ox_array_at\<close> and \<open>ox_array_set\<close> stop at the
  assertion exactly when the index is negative or not below the number of elements.
\<close>

theorem ox_array_index_checked:
  assumes "array_wf s" "length v = array_width s"
  shows "ox_array_set s i v = None \<longleftrightarrow> i < 0 \<or> ox_array_num s \<le> i"
proof (cases "i < 0 \<or> ox_array_num s \<le> i")
  case True
  then show ?thesis by (auto simp: ox_array_set_def ox_array_at_def ox_array_num_def)
next
  case False
  then have "i = int (nat i)" "nat i < array_len s" by (auto simp: array_len_def)
  then show ?thesis using array_set_law [OF assms(1) _ assms(2), of "nat i"] False by auto
qed

section \<open>Witnesses\<close>

definition demo_array :: array_s where
  "demo_array = \<lparr>arr_buffer = Some ''abcdef'', buffer_size = 6, element_size = 2, element_num = 3\<rparr>"

lemma demo_array_ok [simp]: "array_wf demo_array" "array_len demo_array = 3" "array_width demo_array = 2"
  by (simp_all add: demo_array_def array_wf_def array_len_def array_width_def ox_array_num_def int_ok_def)

theorem array_stores_last_witness:
  "\<exists>t. stores_run (\<lambda>s i v. map_option snd (ox_array_set s (int i) v)) demo_array
      [(1, ''XY''), (0, ''PQ''), (1, ''ZW'')] = Some t \<and>
    array_elem t 0 = ''PQ'' \<and> array_elem t 1 = ''ZW'' \<and> array_elem t 2 = ''ef''"
proof -
  have "array_elem demo_array 2 = ''ef''" by (simp add: array_elem_def demo_array_def)
  then show ?thesis
    using array_stores_last [of demo_array "[(1, ''XY''), (0, ''PQ''), (1, ''ZW'')]"] by auto
qed

theorem ox_array_increase_exact_witness:
  "\<exists>s'. ox_array_increase (\<lambda>_. True) demo_array 2 = Some (True, s') \<and> array_elem s' 2 = ''ef'' \<and>
    array_elem s' 4 = [CHR 0x00, CHR 0x00]"
proof -
  have e: "array_elem demo_array 2 = ''ef''" "replicate 2 (CHR 0x00) = [CHR 0x00, CHR 0x00]"
    by (simp_all add: array_elem_def demo_array_def numeral_2_eq_2)
  have "int_ok ((element_num demo_array + 2) * element_size demo_array)" "int_ok (element_num demo_array + 2)"
    by (simp_all add: demo_array_def int_ok_def)
  then show ?thesis
    using ox_array_increase_exact [of demo_array 2 "\<lambda>_. True"] e by auto
qed

theorem ox_array_new_delete_witness:
  "\<exists>r live'. ox_array_new True (\<lambda>n. n < 100) 3 4 0 = Some (r, live') \<and> r \<noteq> None \<and> ox_array_delete r live' = 0"
  using ox_array_new_delete [of 3 4 True "\<lambda>n. n < 100" 0] by (auto simp: int_ok_def)

theorem ox_array_index_checked_witness:
  "ox_array_set demo_array 3 ''xy'' = None \<and> ox_array_set demo_array 2 ''xy'' \<noteq> None"
proof -
  have "ox_array_num demo_array = 3" by (simp add: demo_array_def ox_array_num_def)
  then show ?thesis
    using ox_array_index_checked [of demo_array "''xy''" 3] ox_array_index_checked [of demo_array "''xy''" 2] by simp
qed

end
