(* ===== verification/Ox_FdSet.thy ===== *)
theory Ox_FdSet
  imports Interfaces
begin

text \<open>
  The descriptor set of \<^verbatim>\<open>src/utils/fdset.c\<close> over \<^verbatim>\<open>poll(2)\<close>, with the event masks of the Linux
  build. The block of \<^verbatim>\<open>struct pollfd\<close> is the list of its entries. \<open>malloc\<close> is two arguments: which numbers
  of entries can be allocated, and the unspecified content of a fresh entry. \<^verbatim>\<open>poll\<close> is an argument.
  \<open>None\<close> is undefined behaviour or a failed assertion.
\<close>

section \<open>State\<close>

record pollfd =
  pf_fd :: int
  events :: uint16_t
  revents :: uint16_t

record fdset_s =
  pollFds :: "pollfd list option"
  nfds :: int
  limitSize :: int

text \<open>The masks, from the values \<^verbatim>\<open>poll.h\<close> gives the event names on Linux.\<close>

definition CHECK_READ_FLAG :: uint16_t where
  "CHECK_READ_FLAG = 0x1 OR 0x40 OR 0x80 OR 0x2"

definition CHECK_WRITE_FLAG :: uint16_t where
  "CHECK_WRITE_FLAG = 0x4 OR 0x100 OR 0x200"

definition CHECK_ERROR_FLAG :: uint16_t where
  "CHECK_ERROR_FLAG = 0x8 OR 0x10"

text \<open>The bits of \<^verbatim>\<open>enum CheckType\<close>.\<close>

definition ReadCheck :: uint32_t where "ReadCheck = 0x1"
definition WriteCheck :: uint32_t where "WriteCheck = 0x2"
definition ErrorCheck :: uint32_t where "ErrorCheck = 0x4"

section \<open>Operations\<close>

definition fd_block :: "(nat \<Rightarrow> pollfd) \<Rightarrow> nat \<Rightarrow> pollfd list" where
  "fd_block junk n = map junk [0..<n]"

definition upstepPollfd :: "(nat \<Rightarrow> bool) \<Rightarrow> (nat \<Rightarrow> pollfd) \<Rightarrow> fdset_s \<Rightarrow> int \<Rightarrow> fdset_s option" where
  "upstepPollfd malloc junk self upSize =
     (if upSize > 0 then
        if \<not> int_ok (limitSize self + upSize) then None
        else if malloc (to_size (limitSize self + upSize)) then
          (let newPollfds = fd_block junk (to_size (limitSize self + upSize)) in
           case pollFds self of
             None \<Rightarrow> Some (self\<lparr>pollFds := Some newPollfds, limitSize := limitSize self + upSize\<rparr>)
           | Some old \<Rightarrow>
               (case mem_read 0 (to_size (nfds self)) old of
                  None \<Rightarrow> None
                | Some es \<Rightarrow>
                    (case mem_write 0 es newPollfds of
                       None \<Rightarrow> None
                     | Some d \<Rightarrow> Some (self\<lparr>pollFds := Some d, limitSize := limitSize self + upSize\<rparr>))))
        else Some self
      else Some self)"

text \<open>The search loop from position \<open>i\<close> over the next \<open>k\<close> entries.\<close>

fun find_from :: "pollfd list \<Rightarrow> int \<Rightarrow> nat \<Rightarrow> nat \<Rightarrow> nat option option" where
  "find_from pfs fd i 0 = Some None"
| "find_from pfs fd i (Suc k) =
     (if i < length pfs then
        if pf_fd (pfs ! i) = fd then Some (Some i) else find_from pfs fd (Suc i) k
      else None)"

definition fd_entries :: "fdset_s \<Rightarrow> pollfd list" where
  "fd_entries self = (case pollFds self of None \<Rightarrow> [] | Some d \<Rightarrow> d)"

definition findPollfd :: "fdset_s \<Rightarrow> int \<Rightarrow> nat option option" where
  "findPollfd self fd = find_from (fd_entries self) fd 0 (nat (nfds self))"

definition TryRemovePollFd :: "fdset_s \<Rightarrow> int \<Rightarrow> fdset_s option" where
  "TryRemovePollFd self fd =
     (case find_from (fd_entries self) fd 0 (nat (nfds self)) of
        None \<Rightarrow> None
      | Some None \<Rightarrow> Some self
      | Some (Some pos) \<Rightarrow>
          (case mem_read (pos + 1) (to_size (nfds self - int pos - 1)) (fd_entries self) of
             None \<Rightarrow> None
           | Some es \<Rightarrow>
               (case mem_write pos es (fd_entries self) of
                  None \<Rightarrow> None
                | Some d \<Rightarrow>
                    if nfds self - 1 \<ge> 0
                    then Some (self\<lparr>pollFds := Some d, nfds := nfds self - 1\<rparr>) else None)))"

definition ox_fdset_new ::
  "bool \<Rightarrow> (nat \<Rightarrow> bool) \<Rightarrow> (nat \<Rightarrow> pollfd) \<Rightarrow> fdset_s option option" where
  "ox_fdset_new self_ok malloc junk =
     (if self_ok then map_option Some (upstepPollfd malloc junk \<lparr>pollFds = None, nfds = 0, limitSize = 0\<rparr> 1024)
      else Some None)"

text \<open>The number of live blocks after the two calls of \<^verbatim>\<open>free\<close>; freeing the null pointer does nothing.\<close>

definition ox_fdset_delete :: "fdset_s \<Rightarrow> nat \<Rightarrow> nat" where
  "ox_fdset_delete self live = (case pollFds self of None \<Rightarrow> live | Some _ \<Rightarrow> live - 1) - 1"

definition on_flags :: "uint32_t \<Rightarrow> uint16_t \<Rightarrow> uint16_t" where
  "on_flags type e =
     (let e1 = if type AND ReadCheck \<noteq> 0 then e OR CHECK_READ_FLAG else e
      in if type AND WriteCheck \<noteq> 0 then e1 OR CHECK_WRITE_FLAG else e1)"

definition off_flags :: "uint32_t \<Rightarrow> uint16_t \<Rightarrow> uint16_t" where
  "off_flags type e =
     (let e1 = if type AND ReadCheck \<noteq> 0 then e AND NOT CHECK_READ_FLAG else e;
          e2 = if type AND WriteCheck \<noteq> 0 then e1 AND NOT CHECK_WRITE_FLAG else e1
      in if type AND ErrorCheck \<noteq> 0 then e2 AND NOT CHECK_ERROR_FLAG else e2)"

definition update_events :: "(uint16_t \<Rightarrow> uint16_t) \<Rightarrow> nat \<Rightarrow> fdset_s \<Rightarrow> fdset_s option" where
  "update_events f i self =
     (if i < length (fd_entries self) then
        let pf = fd_entries self ! i
        in Some (self\<lparr>pollFds := Some ((fd_entries self)[i := pf\<lparr>events := f (events pf)\<rparr>])\<rparr>)
      else None)"

definition real_add :: "fdset_s \<Rightarrow> int \<Rightarrow> fdset_s option" where
  "real_add self fd =
     (if nat (nfds self) < length (fd_entries self) then
        let i = nat (nfds self); pf = fd_entries self ! i
        in Some (self\<lparr>pollFds := Some ((fd_entries self)[i := pf\<lparr>events := 0, pf_fd := fd\<rparr>]),
                      nfds := nfds self + 1\<rparr>)
      else None)"

definition ox_fdset_add ::
  "(nat \<Rightarrow> bool) \<Rightarrow> (nat \<Rightarrow> pollfd) \<Rightarrow> fdset_s \<Rightarrow> int \<Rightarrow> uint32_t \<Rightarrow> fdset_s option" where
  "ox_fdset_add malloc junk self fd type =
     (case (if limitSize self = nfds self then upstepPollfd malloc junk self 128 else Some self) of
        None \<Rightarrow> None
      | Some s \<Rightarrow>
          if limitSize s > nfds s then
            (case findPollfd s fd of
               None \<Rightarrow> None
             | Some (Some i) \<Rightarrow> update_events (on_flags type) i s
             | Some None \<Rightarrow>
                 (case real_add s fd of
                    None \<Rightarrow> None
                  | Some s' \<Rightarrow> update_events (on_flags type) (nat (nfds s)) s'))
          else Some s)"

definition ox_fdset_del :: "fdset_s \<Rightarrow> int \<Rightarrow> uint32_t \<Rightarrow> fdset_s option" where
  "ox_fdset_del self fd type =
     (case findPollfd self fd of
        None \<Rightarrow> None
      | Some None \<Rightarrow> Some self
      | Some (Some i) \<Rightarrow>
          (case update_events (off_flags type) i self of
             None \<Rightarrow> None
           | Some s \<Rightarrow> if events (fd_entries s ! i) = 0 then TryRemovePollFd s fd else Some s))"

text \<open>
  \<^verbatim>\<open>poll\<close> takes the first \<open>nfds\<close> entries and the timeout as an \<^verbatim>\<open>int\<close>; it returns its result, the value
  of \<^verbatim>\<open>errno\<close> and the entries with their \<^verbatim>\<open>revents\<close> filled in.
\<close>

type_synonym poll_call = "pollfd list \<Rightarrow> int \<Rightarrow> int \<times> int \<times> pollfd list"

definition S_EINTR :: int where "S_EINTR = 4"

definition ox_fdset_poll :: "poll_call \<Rightarrow> fdset_s \<Rightarrow> int \<Rightarrow> (int \<times> fdset_s) option" where
  "ox_fdset_poll poll self overtime =
     (case mem_read 0 (nat (nfds self)) (fd_entries self) of
        None \<Rightarrow> None
      | Some es \<Rightarrow>
          (case poll es (sint (of_int overtime :: 32 word)) of
             (ret, errno, es') \<Rightarrow>
               (case mem_write 0 es' (fd_entries self) of
                  None \<Rightarrow> None
                | Some d \<Rightarrow>
                    Some (if ret = -1 then (if errno \<noteq> S_EINTR then -1 else 0) else ret,
                      self\<lparr>pollFds := map_option (\<lambda>_. d) (pollFds self)\<rparr>))))"

definition check_flags :: "uint32_t \<Rightarrow> uint16_t \<Rightarrow> bool" where
  "check_flags type r =
     (if type AND ReadCheck \<noteq> 0 \<and> r AND CHECK_READ_FLAG \<noteq> 0 then True
      else if type AND WriteCheck \<noteq> 0 \<and> r AND CHECK_WRITE_FLAG \<noteq> 0 then True
      else type AND ErrorCheck \<noteq> 0 \<and> r AND CHECK_ERROR_FLAG \<noteq> 0)"

definition ox_fdset_check :: "fdset_s \<Rightarrow> int \<Rightarrow> uint32_t \<Rightarrow> bool option" where
  "ox_fdset_check self fd type =
     (case find_from (fd_entries self) fd 0 (nat (nfds self)) of
        None \<Rightarrow> None
      | Some None \<Rightarrow> Some False
      | Some (Some i) \<Rightarrow> Some (check_flags type (revents (fd_entries self ! i))))"

section \<open>Invariant and the registry it implements\<close>

definition fd_live :: "fdset_s \<Rightarrow> pollfd list" where
  "fd_live s = take (nat (nfds s)) (fd_entries s)"

definition fdset_wf :: "fdset_s \<Rightarrow> bool" where
  "fdset_wf s \<longleftrightarrow> 0 \<le> nfds s \<and> nfds s \<le> limitSize s \<and> int_ok (limitSize s) \<and>
     length (fd_entries s) = nat (limitSize s) \<and> distinct (map pf_fd (fd_live s))"

definition fd_pair :: "pollfd \<Rightarrow> int \<times> uint16_t" where
  "fd_pair p = (pf_fd p, events p)"

definition fd_watched :: "fdset_s \<Rightarrow> int \<rightharpoonup> uint16_t" where
  "fd_watched s = map_of (map fd_pair (fd_live s))"

definition fd_room :: "(nat \<Rightarrow> bool) \<Rightarrow> fdset_s \<Rightarrow> nat \<Rightarrow> bool" where
  "fd_room malloc s n \<longleftrightarrow> int_ok (limitSize s + 128 * int n) \<and> (\<forall>k \<le> nat (limitSize s) + 128 * n. malloc k)"

definition off_or_drop :: "uint32_t \<Rightarrow> uint16_t \<Rightarrow> uint16_t option" where
  "off_or_drop type e = (if off_flags type e = 0 then None else Some (off_flags type e))"

lemma map_of_update:
  assumes "distinct (map fst kvs)" "i < length kvs" "fst (kvs ! i) = k"
  shows "map_of (kvs[i := (k, v)]) = (map_of kvs)(k \<mapsto> v)"
    and "map_of (take i kvs @ drop (Suc i) kvs) = (map_of kvs)(k := None)"
proof -
  obtain xs w ys where kvs: "kvs = xs @ (k, w) # ys" "i = length xs"
    using assms(2,3) id_take_nth_drop [OF assms(2)] by (metis length_take min.absorb4 prod.collapse)
  have "k \<notin> fst ` set xs" "k \<notin> fst ` set ys" using assms(1) kvs(1) by auto
  then have none: "map_of xs k = None" "map_of ys k = None" by (simp_all add: map_of_eq_None_iff)
  show "map_of (kvs[i := (k, v)]) = (map_of kvs)(k \<mapsto> v)"
    using none by (auto simp: kvs fun_eq_iff map_add_def split: option.splits)
  show "map_of (take i kvs @ drop (Suc i) kvs) = (map_of kvs)(k := None)"
    using none by (auto simp: kvs fun_eq_iff map_add_def split: option.splits)
qed

lemma map_of_snoc:
  assumes "k \<notin> fst ` set kvs"
  shows "map_of (kvs @ [(k, v)]) = (map_of kvs)(k \<mapsto> v)"
proof -
  have "map_of kvs k = None" using assms by (simp add: map_of_eq_None_iff)
  then show ?thesis by (auto simp: fun_eq_iff map_add_def split: option.splits)
qed

lemma fd_entries_update [simp]:
  "fd_entries (s\<lparr>pollFds := Some d\<rparr>) = d" "fd_entries (s\<lparr>nfds := n\<rparr>) = fd_entries s"
  "fd_entries (s\<lparr>limitSize := n\<rparr>) = fd_entries s"
  by (simp_all add: fd_entries_def)

lemma find_from_spec:
  assumes "i + k \<le> length pfs"
  shows "\<exists>r. find_from pfs fd i k = Some r \<and>
    (r = None \<longrightarrow> fd \<notin> pf_fd ` set (take k (drop i pfs))) \<and>
    (\<forall>j. r = Some j \<longrightarrow> i \<le> j \<and> j < i + k \<and> pf_fd (pfs ! j) = fd)"
  using assms
proof (induction k arbitrary: i)
  case (Suc k)
  have "take (Suc k) (drop i pfs) = pfs ! i # take k (drop (Suc i) pfs)"
    using Suc.prems by (simp add: Cons_nth_drop_Suc [symmetric])
  then show ?case using Suc.IH [of "Suc i"] Suc.prems by fastforce
qed simp

text \<open>A well-formed set, in natural numbers.\<close>

lemma fdset_wfE:
  assumes "fdset_wf s"
  obtains n l where "nfds s = int n" "limitSize s = int l" "length (fd_entries s) = l" "n \<le> l" "l < 2 ^ 31"
    "distinct (map pf_fd (take n (fd_entries s)))"
proof -
  have "nfds s = int (nat (nfds s))" "limitSize s = int (nat (limitSize s))"
    using assms by (auto simp: fdset_wf_def)
  moreover have "nat (limitSize s) < 2 ^ 31" using assms by (simp add: fdset_wf_def int_ok_def nat_less_iff)
  ultimately show thesis
    using assms that [of "nat (nfds s)" "nat (limitSize s)"]
    by (auto simp: fdset_wf_def fd_live_def)
qed

lemma fd_pair_simps [simp]: "fst (fd_pair p) = pf_fd p" "map (fst \<circ> fd_pair) es = map pf_fd es" "fst ` fd_pair ` A = pf_fd ` A"
  by (simp_all add: fd_pair_def image_image)

lemma find_cases:
  assumes "fdset_wf s"
  obtains (absent) "findPollfd s fd = Some None" "fd_watched s fd = None" "fd \<notin> pf_fd ` set (fd_live s)"
  | (present) i where "findPollfd s fd = Some (Some i)" "i < nat (nfds s)" "pf_fd (fd_entries s ! i) = fd"
      "fd_watched s fd = Some (events (fd_entries s ! i))"
proof -
  obtain n l where w: "nfds s = int n" "length (fd_entries s) = l" "n \<le> l"
    "distinct (map pf_fd (take n (fd_entries s)))" using assms by (rule fdset_wfE)
  obtain r where r: "find_from (fd_entries s) fd 0 n = Some r"
    "r = None \<Longrightarrow> fd \<notin> pf_fd ` set (take n (fd_entries s))" "\<And>j. r = Some j \<Longrightarrow> j < n \<and> pf_fd (fd_entries s ! j) = fd"
    using find_from_spec [of 0 n "fd_entries s" fd] w by auto
  show thesis
  proof (cases r)
    case None
    then show thesis
      using r w(1) absent by (auto simp: findPollfd_def fd_watched_def fd_live_def map_of_eq_None_iff image_iff)
  next
    case (Some i)
    moreover have "fd_watched s fd = Some (events (fd_entries s ! i))"
      unfolding fd_watched_def
    proof (rule map_of_is_SomeI)
      show "distinct (map fst (map fd_pair (fd_live s)))" using w by (simp add: fd_live_def)
      show "(fd, events (fd_entries s ! i)) \<in> set (map fd_pair (fd_live s))"
        using r(3) [OF Some] w by (auto simp: fd_live_def fd_pair_def in_set_conv_nth intro!: rev_image_eqI [of "fd_entries s ! i"] exI [of _ i])
    qed
    ultimately show thesis using r w(1) present by (simp add: findPollfd_def)
  qed
qed

lemma update_events_law:
  assumes "fdset_wf s" "i < nat (nfds s)"
  shows "\<exists>s'. update_events f i s = Some s' \<and> fdset_wf s' \<and> nfds s' = nfds s \<and> limitSize s' = limitSize s \<and>
    fd_entries s' ! i = (fd_entries s ! i)\<lparr>events := f (events (fd_entries s ! i))\<rparr> \<and>
    fd_watched s' = (fd_watched s)(pf_fd (fd_entries s ! i) \<mapsto> f (events (fd_entries s ! i)))"
proof -
  obtain n l where w: "nfds s = int n" "limitSize s = int l" "length (fd_entries s) = l" "n \<le> l" "l < 2 ^ 31"
    "distinct (map pf_fd (take n (fd_entries s)))" using assms(1) by (rule fdset_wfE)
  define p where "p = (fd_entries s ! i)\<lparr>events := f (events (fd_entries s ! i))\<rparr>"
  define s' where "s' = s\<lparr>pollFds := Some ((fd_entries s)[i := p])\<rparr>"
  have i: "i < n" using assms(2) w(1) by simp
  have e: "fd_entries s' = (fd_entries s)[i := p]" by (simp add: s'_def)
  have live: "fd_live s' = (fd_live s)[i := p]" using w(1) by (simp add: fd_live_def e s'_def take_update_swap)
  have at_i: "i < length (fd_live s)" "fd_live s ! i = fd_entries s ! i" using i w by (simp_all add: fd_live_def)
  then have same: "map pf_fd (fd_live s') = map pf_fd (fd_live s)"
    by (simp add: live map_update p_def list_update_same_conv)
  have "fd_watched s' = (fd_watched s)(pf_fd (fd_entries s ! i) \<mapsto> f (events (fd_entries s ! i)))"
    using map_of_update(1) [of "map fd_pair (fd_live s)" i "pf_fd (fd_entries s ! i)"] at_i assms(1)
    by (simp add: fd_watched_def live map_update fdset_wf_def p_def) (simp add: fd_pair_def)
  moreover have "fdset_wf s'" using assms(1) same by (simp add: fdset_wf_def e) (simp add: s'_def)
  ultimately show ?thesis
    using i w e by (auto simp: update_events_def Let_def p_def s'_def)
qed

lemma real_add_law:
  assumes "fdset_wf s" "nfds s < limitSize s" "fd \<notin> pf_fd ` set (fd_live s)"
  shows "\<exists>s'. real_add s fd = Some s' \<and> fdset_wf s' \<and> nfds s' = nfds s + 1 \<and> limitSize s' = limitSize s \<and>
    pf_fd (fd_entries s' ! nat (nfds s)) = fd \<and> events (fd_entries s' ! nat (nfds s)) = 0 \<and>
    fd_watched s' = (fd_watched s)(fd \<mapsto> 0)"
proof -
  obtain n l where w: "nfds s = int n" "limitSize s = int l" "length (fd_entries s) = l" "n \<le> l"
    using assms(1) by (rule fdset_wfE)
  have n: "n < length (fd_entries s)" using assms(2) w by simp
  define p where "p = (fd_entries s ! n)\<lparr>events := 0, pf_fd := fd\<rparr>"
  define s' where "s' = s\<lparr>pollFds := Some ((fd_entries s)[n := p]), nfds := nfds s + 1\<rparr>"
  have live: "fd_live s' = fd_live s @ [p]"
    using n w by (simp add: s'_def fd_live_def nat_add_distrib take_Suc_conv_app_nth)
  have "fd_watched s' = (fd_watched s)(fd \<mapsto> 0)"
    using map_of_snoc [of fd "map fd_pair (fd_live s)" 0] assms(3)
    by (simp add: fd_watched_def live p_def) (simp add: fd_pair_def)
  moreover have "fdset_wf s'"
    using assms n w by (auto simp: fdset_wf_def live) (auto simp: s'_def p_def)
  ultimately show ?thesis
    using n w by (auto simp: real_add_def Let_def s'_def p_def)
qed

lemma upstep_law:
  assumes "fdset_wf s" "0 < up" "int_ok (limitSize s + up)"
  shows "\<exists>s'. upstepPollfd malloc junk s up = Some s' \<and> fdset_wf s' \<and> nfds s' = nfds s \<and> fd_live s' = fd_live s \<and>
    limitSize s' = (if malloc (nat (limitSize s + up)) then limitSize s + up else limitSize s)"
proof (cases "malloc (nat (limitSize s + up))")
  case True
  obtain n l where w: "nfds s = int n" "limitSize s = int l" "length (fd_entries s) = l" "n \<le> l" "l < 2 ^ 31"
    using assms(1) by (rule fdset_wfE)
  have size: "to_size (limitSize s + up) = nat (limitSize s + up)" "to_size (nfds s) = n"
    using assms w by (simp_all add: to_size_nat to_size_int)
  define d where "d = fd_live s @ drop n (fd_block junk (nat (limitSize s + up)))"
  have len: "length (fd_block junk k) = k" for k by (simp add: fd_block_def)
  have lv: "length (fd_live s) = n" "n \<le> nat (limitSize s + up)" using w assms(2) by (simp_all add: fd_live_def)
  define s' where "s' = s\<lparr>pollFds := Some d, limitSize := limitSize s + up\<rparr>"
  have "upstepPollfd malloc junk s up = Some s'"
  proof (cases "pollFds s")
    case None
    then have "n = 0" "fd_live s = []" using w by (simp_all add: fd_entries_def fd_live_def)
    then show ?thesis using None True assms size by (simp add: upstepPollfd_def Let_def s'_def d_def)
  next
    case (Some old)
    then have "mem_read 0 n old = Some (fd_live s)" using w by (simp add: mem_read_def fd_entries_def fd_live_def)
    moreover have "mem_write 0 (fd_live s) (fd_block junk (nat (limitSize s + up))) = Some d"
      using lv len by (simp add: mem_write_def d_def)
    ultimately show ?thesis using Some True assms size by (simp add: upstepPollfd_def Let_def s'_def)
  qed
  moreover have "fd_live s' = fd_live s" using lv(1) w(1) unfolding fd_live_def [of s'] by (simp add: s'_def d_def)
  moreover have "length d = nat (limitSize s + up)" using lv len by (simp add: d_def)
  ultimately show ?thesis using assms True w by (simp add: fdset_wf_def s'_def)
next
  case False
  then show ?thesis
    using assms by (auto simp: upstepPollfd_def fdset_wf_def to_size_nat)
qed

lemma insert_existing:
  assumes "fdset_wf s" "nfds s < limitSize s"
  shows "\<exists>s'. (case findPollfd s fd of
               None \<Rightarrow> None
             | Some (Some i) \<Rightarrow> update_events (on_flags type) i s
             | Some None \<Rightarrow>
                 (case real_add s fd of
                    None \<Rightarrow> None
                  | Some s' \<Rightarrow> update_events (on_flags type) (nat (nfds s)) s')) = Some s' \<and>
    fdset_wf s' \<and> limitSize s' = limitSize s \<and>
    fd_watched s' = (fd_watched s)(fd \<mapsto> on_flags type (case fd_watched s fd of None \<Rightarrow> 0 | Some b \<Rightarrow> b))"
  using assms(1)
proof (cases rule: find_cases [where fd = fd])
  case absent
  obtain s1 where s1: "real_add s fd = Some s1" "fdset_wf s1" "nfds s1 = nfds s + 1" "limitSize s1 = limitSize s"
    "pf_fd (fd_entries s1 ! nat (nfds s)) = fd" "events (fd_entries s1 ! nat (nfds s)) = 0"
    "fd_watched s1 = (fd_watched s)(fd \<mapsto> 0)"
    using real_add_law [OF assms absent(3)] by blast
  have "nat (nfds s) < nat (nfds s1)" using assms(1) s1(3) by (simp add: fdset_wf_def)
  then show ?thesis
    using update_events_law [OF s1(2), of "nat (nfds s)" "on_flags type"] s1 absent by auto
next
  case (present i)
  then show ?thesis using update_events_law [OF assms(1), of i "on_flags type"] by auto
qed

lemma fdset_add_law:
  assumes "fdset_wf s" "int_ok (limitSize s + 128)"
  shows "\<exists>s'. ox_fdset_add malloc junk s fd type = Some s' \<and> fdset_wf s' \<and> limitSize s' \<le> limitSize s + 128 \<and>
    limitSize s \<le> limitSize s' \<and>
    fd_watched s' = (if limitSize s = nfds s \<and> \<not> malloc (nat (limitSize s + 128)) then fd_watched s
      else (fd_watched s)(fd \<mapsto> on_flags type (case fd_watched s fd of None \<Rightarrow> 0 | Some b \<Rightarrow> b)))"
proof -
  define grown where "grown = (if limitSize s = nfds s then upstepPollfd malloc junk s 128 else Some s)"
  obtain s1 where s1: "grown = Some s1" "fdset_wf s1" "nfds s1 = nfds s" "fd_live s1 = fd_live s"
    "limitSize s1 = (if limitSize s = nfds s \<and> malloc (nat (limitSize s + 128)) then limitSize s + 128 else limitSize s)"
    using upstep_law [OF assms(1) _ assms(2), of malloc junk] assms(1) unfolding grown_def
    by (cases "limitSize s = nfds s") auto
  have watched: "fd_watched s1 = fd_watched s" by (simp add: fd_watched_def s1(4))
  show ?thesis
  proof (cases "nfds s1 < limitSize s1")
    case True
    then have "\<not> (limitSize s = nfds s \<and> \<not> malloc (nat (limitSize s + 128)))" using s1(3,5) by (auto split: if_splits)
    then show ?thesis
      using insert_existing [OF s1(2) True, where fd = fd and type = type] s1(1,5) True
      by (auto simp: ox_fdset_add_def grown_def [symmetric] watched)
  next
    case False
    then have "limitSize s = nfds s \<and> \<not> malloc (nat (limitSize s + 128))"
      using s1(3,5) assms(1) by (auto simp: fdset_wf_def split: if_splits)
    then have "fd_watched s1 = (if limitSize s = nfds s \<and> \<not> malloc (nat (limitSize s + 128)) then fd_watched s
        else (fd_watched s)(fd \<mapsto> on_flags type (case fd_watched s fd of None \<Rightarrow> 0 | Some b \<Rightarrow> b)))"
      using watched by (subst if_P) assumption+
    moreover have "ox_fdset_add malloc junk s fd type = Some s1"
      using False s1(1) by (simp add: ox_fdset_add_def grown_def [symmetric])
    ultimately show ?thesis using s1(2,5) by auto
  qed
qed

lemma try_remove_law:
  assumes "fdset_wf s" "fd_watched s fd = Some e"
  shows "\<exists>s'. TryRemovePollFd s fd = Some s' \<and> fdset_wf s' \<and> limitSize s' = limitSize s \<and>
    fd_watched s' = (fd_watched s)(fd := None)"
  using assms(1)
proof (cases rule: find_cases [where fd = fd])
  case absent
  then show ?thesis using assms(2) by simp
next
  case (present i)
  obtain n l where w: "nfds s = int n" "limitSize s = int l" "length (fd_entries s) = l" "n \<le> l" "l < 2 ^ 31"
    using assms(1) by (rule fdset_wfE)
  define es where "es = fd_entries s"
  have i: "i < n" using present(2) w(1) by simp
  have size: "to_size (int n - int i - 1) = n - i - 1"
    using i w(4,5) to_size_int [of "n - i - 1"] by (simp add: of_nat_diff diff_diff_eq add.commute)
  define d where "d = take i es @ take (n - i - 1) (drop (Suc i) es) @ drop (n - 1) es"
  have rd: "mem_read (Suc i) (n - i - 1) es = Some (take (n - i - 1) (drop (Suc i) es))"
    using i w(3,4) by (simp add: mem_read_def es_def)
  have wr: "mem_write i (take (n - i - 1) (drop (Suc i) es)) es = Some d"
    using i w(3,4) by (simp add: mem_write_def es_def d_def min.absorb2)
  define s' where "s' = s\<lparr>pollFds := Some d, nfds := nfds s - 1\<rparr>"
  have res: "TryRemovePollFd s fd = Some s'"
    using present(1) i rd wr size w(1)
    by (simp add: TryRemovePollFd_def findPollfd_def s'_def es_def [symmetric])
  have live: "fd_live s' = take i (fd_live s) @ drop (Suc i) (fd_live s)"
    using i w by (cases "n = Suc i") (auto simp: fd_live_def s'_def d_def es_def drop_take nat_diff_distrib nat_add_distrib min_def)
  have at_i: "i < length (fd_live s)" "fd_live s ! i = fd_entries s ! i" using i w by (simp_all add: fd_live_def)
  have dist: "distinct (map pf_fd (fd_live s))" using assms(1) by (simp add: fdset_wf_def)
  have "distinct (map pf_fd (fd_live s'))"
    using dist unfolding live by (subst (asm) id_take_nth_drop [OF at_i(1)]) auto
  moreover have "fd_watched s' = (fd_watched s)(fd := None)"
    using map_of_update(2) [of "map fd_pair (fd_live s)" i fd] at_i dist present(3)
    by (simp add: fd_watched_def live take_map drop_map)
  ultimately show ?thesis
    using res assms(1) i w mem_write_length [OF wr] by (auto simp: fdset_wf_def s'_def es_def)
qed

lemma fdset_del_law:
  assumes "fdset_wf s"
  shows "\<exists>s'. ox_fdset_del s fd type = Some s' \<and> fdset_wf s' \<and> limitSize s' = limitSize s \<and>
    fd_watched s' = (case fd_watched s fd of None \<Rightarrow> fd_watched s
       | Some e \<Rightarrow> (fd_watched s)(fd := off_or_drop type e))"
  using assms
proof (cases rule: find_cases [where fd = fd])
  case absent
  then show ?thesis using assms by (simp add: ox_fdset_del_def)
next
  case (present i)
  obtain s1 where s1: "update_events (off_flags type) i s = Some s1" "fdset_wf s1" "limitSize s1 = limitSize s"
    "events (fd_entries s1 ! i) = off_flags type (events (fd_entries s ! i))"
    "fd_watched s1 = (fd_watched s)(fd \<mapsto> off_flags type (events (fd_entries s ! i)))"
    using update_events_law [OF assms present(2), of "off_flags type"] present(3) by auto
  then show ?thesis
    using try_remove_law [OF s1(2), of fd] present by (auto simp: ox_fdset_del_def off_or_drop_def)
qed

interpretation fds: registry fdset_wf fd_watched "fd_room malloc" "ox_fdset_add malloc junk" ox_fdset_del
  on_flags off_or_drop 0
proof unfold_locales
  fix s n fd type
  assume wf: "fdset_wf s" and room: "fd_room malloc s (Suc n)"
  have "int_ok (limitSize s + 128)" using wf room by (auto simp: fd_room_def fdset_wf_def int_ok_def)
  moreover have "malloc (nat (limitSize s + 128))" using wf room by (simp add: fd_room_def fdset_wf_def nat_add_distrib)
  ultimately obtain s' where s': "ox_fdset_add malloc junk s fd type = Some s'" "fdset_wf s'"
    "limitSize s' \<le> limitSize s + 128" "limitSize s \<le> limitSize s'"
    "fd_watched s' = (fd_watched s)(fd \<mapsto> on_flags type (case fd_watched s fd of None \<Rightarrow> 0 | Some b \<Rightarrow> b))"
    using fdset_add_law [OF wf, of malloc junk fd type] by auto
  moreover have "fd_room malloc s' n" using room s'(2-4) by (auto simp: fd_room_def int_ok_def fdset_wf_def)
  ultimately show "\<exists>s'. ox_fdset_add malloc junk s fd type = Some s' \<and> fdset_wf s' \<and> fd_room malloc s' n \<and>
      fd_watched s' = (fd_watched s)(fd \<mapsto> on_flags type (case fd_watched s fd of None \<Rightarrow> 0 | Some b \<Rightarrow> b))"
    by blast
  have "fd_room malloc t n" if "limitSize t = limitSize s" for t using wf room that by (auto simp: fd_room_def int_ok_def fdset_wf_def)
  then show "\<exists>s'. ox_fdset_del s fd type = Some s' \<and> fdset_wf s' \<and> fd_room malloc s' n \<and>
      fd_watched s' = (case fd_watched s fd of None \<Rightarrow> fd_watched s | Some b \<Rightarrow> (fd_watched s)(fd := off_or_drop type b))"
    using fdset_del_law [OF wf, of fd type] by blast
qed

section \<open>Properties\<close>

text \<open>
  C37. Any sequence of \<open>ox_fdset_add\<close> and \<open>ox_fdset_del\<close> calls on a well-formed set, with memory for the
  growth, runs inside its block, keeps the invariant (no descriptor twice, \<open>nfds \<le> limitSize\<close>) and computes the
  map from descriptors to watched events that the calls describe.
\<close>

theorem fdset_refines_registry:
  assumes "fdset_wf s" "fd_room malloc s (length ops)"
  shows "\<exists>t. registry_run (ox_fdset_add malloc junk) ox_fdset_del s ops = Some t \<and> fdset_wf t \<and>
    fd_watched t = registry_spec on_flags off_or_drop 0 (fd_watched s) ops"
  using assms by (rule fds.run_refines)

text \<open>
  When the set is full and cannot grow, \<open>ox_fdset_add\<close> returns normally and changes no watched event,
  also for a descriptor that is already in the set and needs no new entry; the caller is not told.
\<close>

theorem fdset_add_starved:
  assumes "fdset_wf s" "int_ok (limitSize s + 128)" "nfds s = limitSize s" "\<not> malloc (nat (limitSize s + 128))"
  shows "\<exists>s'. ox_fdset_add malloc junk s fd type = Some s' \<and> fd_watched s' = fd_watched s"
  using fdset_add_law [OF assms(1,2), of malloc junk fd type] assms(3,4) by auto

text \<open>
  After \<open>ox_fdset_poll\<close>, with a \<^verbatim>\<open>poll\<close> that keeps descriptor and events of every entry,
  \<open>ox_fdset_check\<close> answers for a registered descriptor exactly whether \<^verbatim>\<open>poll\<close> reported one of the
  events asked for, and for any other descriptor \<open>False\<close>; the set and the watched events are unchanged.
\<close>

theorem fdset_poll_check:
  assumes "fdset_wf s" "\<And>es t. map fd_pair (snd (snd (poll es t))) = map fd_pair es"
  shows "\<exists>r s'. ox_fdset_poll poll s overtime = Some (r, s') \<and> fdset_wf s' \<and> fd_watched s' = fd_watched s \<and>
    ox_fdset_check s' fd type =
      Some (\<exists>p \<in> set (snd (snd (poll (fd_live s) (sint (of_int overtime :: 32 word))))).
              pf_fd p = fd \<and> check_flags type (revents p))"
proof -
  obtain n l where w: "nfds s = int n" "limitSize s = int l" "length (fd_entries s) = l" "n \<le> l" "l < 2 ^ 31"
    using assms(1) by (rule fdset_wfE)
  obtain ret errno es where call: "poll (fd_live s) (sint (of_int overtime :: 32 word)) = (ret, errno, es)"
    using prod_cases3 by blast
  have es: "map fd_pair es = map fd_pair (fd_live s)" using assms(2) [of "fd_live s"] call by (metis snd_conv)
  then have len: "length es = n" using w by (metis fd_live_def length_map length_take min.absorb2 nat_int)
  have fds: "map pf_fd es = map pf_fd (fd_live s)" using es by (metis fd_pair_simps(2) map_map)
  define d where "d = es @ drop n (fd_entries s)"
  define s' where "s' = s\<lparr>pollFds := map_option (\<lambda>_. d) (pollFds s)\<rparr>"
  have d: "fd_entries s' = d"
    using len w by (cases "pollFds s") (auto simp: s'_def d_def fd_entries_def)
  have live: "fd_live s' = es" using len w by (simp add: fd_live_def d) (simp add: d_def s'_def)
  have wf: "fdset_wf s'" using assms(1) len w by (simp add: fdset_wf_def live d fds) (simp add: d_def s'_def)
  have "mem_read 0 n (fd_entries s) = Some (fd_live s)" "mem_write 0 es (fd_entries s) = Some d"
    using w len by (simp_all add: mem_read_def mem_write_def fd_live_def d_def)
  then obtain r where r: "ox_fdset_poll poll s overtime = Some (r, s')"
    using call w by (simp add: ox_fdset_poll_def s'_def)
  have "ox_fdset_check s' fd type = Some (\<exists>p \<in> set es. pf_fd p = fd \<and> check_flags type (revents p))"
    using wf
  proof (cases rule: find_cases [where fd = fd])
    case absent
    then show ?thesis by (auto simp: ox_fdset_check_def findPollfd_def live)
  next
    case (present i)
    have i: "i < length es" using present(2) len w by (simp add: s'_def)
    then have nth: "fd_entries s' ! i = es ! i" by (simp add: d d_def nth_append)
    have "p = es ! i" if "p \<in> set es" "pf_fd p = fd" for p
      using that present(3) i nth wf by (metis distinct_conv_nth fdset_wf_def in_set_conv_nth length_map live nth_map)
    then show ?thesis
      using present(1,3) i nth by (auto simp: ox_fdset_check_def findPollfd_def)
  qed
  then show ?thesis
    using r wf es call by (auto simp: fd_watched_def live)
qed

section \<open>Witnesses\<close>

definition zero_pfd :: pollfd where
  "zero_pfd = \<lparr>pf_fd = 0, events = 0, revents = 0\<rparr>"

definition demo_fdset :: fdset_s where
  "demo_fdset = \<lparr>pollFds = Some [\<lparr>pf_fd = 5, events = CHECK_READ_FLAG, revents = 0\<rparr>], nfds = 1, limitSize = 1\<rparr>"

lemma demo_fdset_ok: "fdset_wf demo_fdset" "fd_watched demo_fdset = [5 \<mapsto> CHECK_READ_FLAG]"
  "fd_live demo_fdset = [\<lparr>pf_fd = 5, events = CHECK_READ_FLAG, revents = 0\<rparr>]"
  by (simp_all add: demo_fdset_def fdset_wf_def fd_live_def fd_entries_def fd_watched_def fd_pair_def int_ok_def)

theorem fdset_refines_registry_witness:
  "\<exists>t. registry_run (ox_fdset_add (\<lambda>_. True) (\<lambda>_. zero_pfd)) ox_fdset_del demo_fdset
      [Watch 7 WriteCheck, Watch 5 WriteCheck, Unwatch 5 ReadCheck, Unwatch 7 WriteCheck] = Some t \<and>
    fd_watched t = [5 \<mapsto> CHECK_WRITE_FLAG]"
proof -
  have flags: "on_flags WriteCheck 0 = CHECK_WRITE_FLAG"
    "on_flags WriteCheck CHECK_READ_FLAG = CHECK_READ_FLAG OR CHECK_WRITE_FLAG"
    "off_or_drop ReadCheck (CHECK_READ_FLAG OR CHECK_WRITE_FLAG) = Some CHECK_WRITE_FLAG"
    "off_or_drop WriteCheck CHECK_WRITE_FLAG = None"
    by code_simp+
  have "fd_room (\<lambda>_. True) demo_fdset 4" by (simp add: fd_room_def demo_fdset_def int_ok_def)
  then show ?thesis
    using fdset_refines_registry [of demo_fdset "\<lambda>_. True"
        "[Watch 7 WriteCheck, Watch 5 WriteCheck, Unwatch 5 ReadCheck, Unwatch 7 WriteCheck]" "\<lambda>_. zero_pfd"]
      demo_fdset_ok(1) by (auto simp: demo_fdset_ok(2) flags fun_eq_iff numeral_eq_Suc)
qed

theorem fdset_add_starved_witness:
  "\<exists>s'. ox_fdset_add (\<lambda>n. n < 100) (\<lambda>_. zero_pfd) demo_fdset 5 WriteCheck = Some s' \<and>
    fd_watched s' = [5 \<mapsto> CHECK_READ_FLAG]"
proof -
  have "int_ok (limitSize demo_fdset + 128)" "nfds demo_fdset = limitSize demo_fdset"
    "\<not> nat (limitSize demo_fdset + 128) < 100" by (simp_all add: demo_fdset_def int_ok_def)
  then show ?thesis
    using fdset_add_starved [of demo_fdset "\<lambda>n. n < 100" "\<lambda>_. zero_pfd" 5 WriteCheck] demo_fdset_ok by simp
qed

theorem fdset_poll_check_witness:
  "\<exists>r s'. ox_fdset_poll (\<lambda>es t. (1, 0, map (\<lambda>p. p\<lparr>revents := events p AND 1\<rparr>) es)) demo_fdset 10 = Some (r, s') \<and>
    ox_fdset_check s' 5 ReadCheck = Some True"
proof -
  have "check_flags ReadCheck (CHECK_READ_FLAG AND 1)" by code_simp
  moreover have "map fd_pair (map (\<lambda>p. p\<lparr>revents := events p AND 1\<rparr>) es) = map fd_pair es" for es
    by (simp add: fd_pair_def)
  ultimately show ?thesis
    using fdset_poll_check [of demo_fdset "\<lambda>es t. (1, 0, map (\<lambda>p. p\<lparr>revents := events p AND 1\<rparr>) es)" 10 5 ReadCheck]
      demo_fdset_ok(1) by (auto simp: demo_fdset_ok(3))
qed

end
