(* ===== verification/Msg_Queue.thy ===== *)
theory Msg_Queue
  imports Interfaces
begin

text \<open>
  The message queue of \<^verbatim>\<open>src/utils/MsgQueue.h\<close>: one thread pushes into \<open>mWriteList\<close>, another pops from
  \<open>mReadList\<close>, and both exchange whole lists through \<open>mSharedList\<close> under the mutex. The first part is the
  member functions as a single thread runs them; the second part is the interleaving of one writer and one
  reader, with a step for every unlocked test and one for every section under the lock.
\<close>

section \<open>The object and its member functions\<close>

record 'm msg_queue =
  mWriteList :: "'m list"
  mSharedList :: "'m list"
  mReadList :: "'m list"

definition mq_new :: "'m msg_queue" where
  "mq_new = \<lparr>mWriteList = [], mSharedList = [], mReadList = []\<rparr>"

definition mq_clear :: "'m msg_queue \<Rightarrow> 'm msg_queue" where
  "mq_clear q = q\<lparr>mWriteList := [], mSharedList := [], mReadList := []\<rparr>"

definition mq_push :: "'m \<Rightarrow> 'm msg_queue \<Rightarrow> 'm msg_queue" where
  "mq_push t q = q\<lparr>mWriteList := mWriteList q @ [t]\<rparr>"

definition try_guard :: "'m msg_queue \<Rightarrow> bool" where
  "try_guard q \<longleftrightarrow> mWriteList q \<noteq> [] \<and> mSharedList q = []"

text \<open>The sections under the lock also say whether the condition variable is notified.\<close>

definition try_locked :: "'m msg_queue \<Rightarrow> bool \<times> 'm msg_queue" where
  "try_locked q =
     (if try_guard q then (True, q\<lparr>mWriteList := mSharedList q, mSharedList := mWriteList q\<rparr>) else (False, q))"

definition trySyncWrite :: "'m msg_queue \<Rightarrow> bool \<times> 'm msg_queue" where
  "trySyncWrite q = (if try_guard q then try_locked q else (False, q))"

text \<open>The loop that moves \<open>mSharedList\<close>, from its last element to its first, to the front of \<open>mWriteList\<close>.\<close>

fun push_fronts :: "'m list \<Rightarrow> 'm list \<Rightarrow> 'm list" where
  "push_fronts [] w = w"
| "push_fronts (x # xs) w = push_fronts xs (x # w)"

fun push_backs :: "'m list \<Rightarrow> 'm list \<Rightarrow> 'm list" where
  "push_backs [] s = s"
| "push_backs (x # xs) s = push_backs xs (s @ [x])"

definition force_locked :: "'m msg_queue \<Rightarrow> bool \<times> 'm msg_queue" where
  "force_locked q =
     (if mWriteList q \<noteq> [] then
        (True,
         if length (mWriteList q) > length (mSharedList q) then
           q\<lparr>mWriteList := [], mSharedList := push_fronts (rev (mSharedList q)) (mWriteList q)\<rparr>
         else
           q\<lparr>mWriteList := [], mSharedList := push_backs (mWriteList q) (mSharedList q)\<rparr>)
      else (False, q))"

definition forceSyncWrite :: "'m msg_queue \<Rightarrow> bool \<times> 'm msg_queue" where
  "forceSyncWrite q =
     (if mWriteList q \<noteq> [] then
        if mSharedList q = [] then trySyncWrite q else force_locked q
      else (False, q))"

definition popFront :: "'m msg_queue \<Rightarrow> 'm option \<times> 'm msg_queue" where
  "popFront q =
     (case mReadList q of [] \<Rightarrow> (None, q) | m # ms \<Rightarrow> (Some m, q\<lparr>mReadList := ms\<rparr>))"

definition popBack :: "'m msg_queue \<Rightarrow> 'm option \<times> 'm msg_queue" where
  "popBack q =
     (case mReadList q of [] \<Rightarrow> (None, q)
      | _ \<Rightarrow> (Some (last (mReadList q)), q\<lparr>mReadList := butlast (mReadList q)\<rparr>))"

definition read_locked :: "'m msg_queue \<Rightarrow> 'm msg_queue" where
  "read_locked q =
     (if mReadList q = [] \<and> mSharedList q \<noteq> []
      then q\<lparr>mSharedList := mReadList q, mReadList := mSharedList q\<rparr> else q)"

text \<open>
  \<open>syncRead\<close> run by a single thread; the first component says whether it waited on the condition
  variable, which ends at a notification or at the timeout and changes no list.
\<close>

definition syncRead :: "nat \<Rightarrow> 'm msg_queue \<Rightarrow> bool \<times> 'm msg_queue" where
  "syncRead waitMicroSecond q =
     (if mReadList q = [] then (waitMicroSecond > 0, read_locked q) else (False, q))"

definition sharedListSize :: "'m msg_queue \<Rightarrow> nat" where "sharedListSize q = length (mSharedList q)"
definition readListSize :: "'m msg_queue \<Rightarrow> nat" where "readListSize q = length (mReadList q)"
definition writeListSize :: "'m msg_queue \<Rightarrow> nat" where "writeListSize q = length (mWriteList q)"

section \<open>One writer and one reader\<close>

datatype writer_pc = W_Idle | W_TryCheck | W_TryLock | W_ForceLock
datatype reader_pc = R_Idle | R_Wait | R_Lock

record 'm mq_threads =
  queue :: "'m msg_queue"
  writer :: writer_pc
  reader :: reader_pc

inductive mq_step :: "'m mq_threads \<Rightarrow> 'm handoff_event \<Rightarrow> 'm mq_threads \<Rightarrow> bool" where
  step_push: "writer s = W_Idle \<Longrightarrow> mq_step s (Pushed m) (s\<lparr>queue := mq_push m (queue s)\<rparr>)"
| step_try: "writer s = W_Idle \<Longrightarrow> mq_step s Internal (s\<lparr>writer := W_TryCheck\<rparr>)"
| step_try_check: "writer s = W_TryCheck \<Longrightarrow>
     mq_step s Internal (s\<lparr>writer := if try_guard (queue s) then W_TryLock else W_Idle\<rparr>)"
| step_try_lock: "writer s = W_TryLock \<Longrightarrow>
     mq_step s Internal (s\<lparr>queue := snd (try_locked (queue s)), writer := W_Idle\<rparr>)"
| step_force: "writer s = W_Idle \<Longrightarrow> mWriteList (queue s) \<noteq> [] \<Longrightarrow>
     mq_step s Internal (s\<lparr>writer := if mSharedList (queue s) = [] then W_TryCheck else W_ForceLock\<rparr>)"
| step_force_lock: "writer s = W_ForceLock \<Longrightarrow>
     mq_step s Internal (s\<lparr>queue := snd (force_locked (queue s)), writer := W_Idle\<rparr>)"
| step_pop: "reader s = R_Idle \<Longrightarrow> popFront (queue s) = (Some m, q) \<Longrightarrow> mq_step s (Popped m) (s\<lparr>queue := q\<rparr>)"
| step_pop_back: "reader s = R_Idle \<Longrightarrow> popBack (queue s) = (Some m, q) \<Longrightarrow>
     mq_step s (Popped_Back m) (s\<lparr>queue := q\<rparr>)"
| step_sync: "reader s = R_Idle \<Longrightarrow> mReadList (queue s) = [] \<Longrightarrow> pc \<in> {R_Wait, R_Lock} \<Longrightarrow>
     mq_step s Internal (s\<lparr>reader := pc\<rparr>)"
| step_wait: "reader s = R_Wait \<Longrightarrow> mq_step s Internal (s\<lparr>reader := R_Lock\<rparr>)"
| step_read_lock: "reader s = R_Lock \<Longrightarrow>
     mq_step s Internal (s\<lparr>queue := read_locked (queue s), reader := R_Idle\<rparr>)"

inductive_cases mq_PushedE: "mq_step s (Pushed m) t"
inductive_cases mq_PoppedE: "mq_step s (Popped m) t"
inductive_cases mq_Popped_BackE: "mq_step s (Popped_Back m) t"
inductive_cases mq_InternalE: "mq_step s Internal t"

definition mq_idle :: "'m msg_queue \<Rightarrow> 'm mq_threads" where
  "mq_idle q = \<lparr>queue = q, writer = W_Idle, reader = R_Idle\<rparr>"

section \<open>The content is handed on in order\<close>

definition mq_content :: "'m msg_queue \<Rightarrow> 'm list" where
  "mq_content q = mReadList q @ mSharedList q @ mWriteList q"

lemma push_fronts_eq [simp]: "push_fronts xs w = rev xs @ w"
  by (induction xs arbitrary: w) auto

lemma push_backs_eq [simp]: "push_backs xs s = s @ xs"
  by (induction xs arbitrary: s) auto

lemma content_locked [simp]:
  "mq_content (snd (try_locked q)) = mq_content q"
  "mq_content (snd (force_locked q)) = mq_content q"
  "mq_content (read_locked q) = mq_content q"
  by (auto simp: mq_content_def try_locked_def try_guard_def force_locked_def read_locked_def)

lemma content_push [simp]: "mq_content (mq_push m q) = mq_content q @ [m]"
  by (simp add: mq_content_def mq_push_def)

lemma content_pop: "popFront q = (Some m, q') \<Longrightarrow> mq_content q = m # mq_content q'"
  by (auto simp: popFront_def mq_content_def split: list.splits)

lemma content_pop_back: "popBack q = (Some m, q') \<Longrightarrow> mset (mq_content q) = add_mset m (mset (mq_content q'))"
proof -
  assume pop: "popBack q = (Some m, q')"
  then have q: "mReadList q \<noteq> []" "m = last (mReadList q)" "q' = q\<lparr>mReadList := butlast (mReadList q)\<rparr>"
    by (auto simp: popBack_def split: list.splits)
  then obtain xs where "mReadList q = xs @ [m]" by (metis append_butlast_last_id)
  then show ?thesis using q(3) by (simp add: mq_content_def)
qed

interpretation mq: handoff mq_step "\<lambda>s. mq_content (queue s)"
proof unfold_locales
  fix s s' :: "'a mq_threads" and m
  show "mq_step s (Pushed m) s' \<Longrightarrow> mq_content (queue s') = mq_content (queue s) @ [m]"
    by (auto elim: mq_PushedE)
  show "mq_step s (Popped m) s' \<Longrightarrow> mq_content (queue s) = m # mq_content (queue s')"
    by (auto elim!: mq_PoppedE dest: content_pop)
  show "mq_step s (Popped_Back m) s' \<Longrightarrow>
      mset (mq_content (queue s)) = add_mset m (mset (mq_content (queue s')))"
    by (auto elim!: mq_Popped_BackE dest: content_pop_back)
  show "mq_step s Internal s' \<Longrightarrow> mq_content (queue s') = mq_content (queue s)"
    by (auto elim!: mq_InternalE)
qed

section \<open>Every message can be delivered\<close>

text \<open>Runs that only pop at the front and push nothing, and what they deliver.\<close>

definition mq_delivers :: "'m mq_threads \<Rightarrow> 'm list \<Rightarrow> 'm mq_threads \<Rightarrow> bool" where
  "mq_delivers s ms t \<longleftrightarrow> (\<exists>es. handoff_run mq_step s es t \<and> front_only es \<and> pushed es = [] \<and> popped es = ms)"

lemma delivers_trans: "mq_delivers s ms t \<Longrightarrow> mq_delivers t ns u \<Longrightarrow> mq_delivers s (ms @ ns) u"
proof -
  assume "mq_delivers s ms t" "mq_delivers t ns u"
  then obtain es fs where "handoff_run mq_step s es t" "front_only es" "pushed es = []" "popped es = ms"
    "handoff_run mq_step t fs u" "front_only fs" "pushed fs = []" "popped fs = ns"
    unfolding mq_delivers_def by blast
  then show ?thesis
    unfolding mq_delivers_def by (intro exI [of _ "es @ fs"]) (simp add: handoff_run_append)
qed

lemma delivers_internal: "mq_step s Internal t \<Longrightarrow> mq_delivers s [] t"
  unfolding mq_delivers_def by (intro exI [of _ "[Internal]"]) (auto intro: handoff_run.intros)

lemma delivers_refl: "mq_delivers s [] s"
  unfolding mq_delivers_def by (intro exI [of _ "[]"]) (auto intro: handoff_run.intros)

lemma delivers_pop:
  assumes "reader s = R_Idle" "mReadList (queue s) = m # ms"
  shows "mq_delivers s [m] (s\<lparr>queue := (queue s)\<lparr>mReadList := ms\<rparr>\<rparr>)"
proof -
  have "mq_step s (Popped m) (s\<lparr>queue := (queue s)\<lparr>mReadList := ms\<rparr>\<rparr>)"
    using assms by (intro step_pop) (simp_all add: popFront_def)
  then show ?thesis
    unfolding mq_delivers_def by (intro exI [of _ "[Popped m]"]) (auto intro: handoff_run.intros)
qed

lemma delivers_internals: "mq_delivers s [] t \<Longrightarrow> mq_delivers t ms u \<Longrightarrow> mq_delivers s ms u"
  using delivers_trans [of s "[]" t ms u] by simp

lemma drain_read:
  assumes "reader s = R_Idle"
  shows "mq_delivers s (mReadList (queue s)) (s\<lparr>queue := (queue s)\<lparr>mReadList := []\<rparr>\<rparr>)"
  using assms
proof (induction "mReadList (queue s)" arbitrary: s)
  case Nil
  have "s\<lparr>queue := (queue s)\<lparr>mReadList := []\<rparr>\<rparr> = s" using Nil.hyps by (simp)
  then show ?case using delivers_refl [of s] Nil.hyps by metis
next
  case (Cons m ms)
  define t where "t = s\<lparr>queue := (queue s)\<lparr>mReadList := ms\<rparr>\<rparr>"
  have "mq_delivers s [m] t" using delivers_pop Cons.prems Cons.hyps(2) by (metis t_def)
  moreover have "mq_delivers t ms (t\<lparr>queue := (queue t)\<lparr>mReadList := []\<rparr>\<rparr>)"
    using Cons.hyps(1) [of t] Cons.prems by (simp add: t_def)
  ultimately have "mq_delivers s ([m] @ ms) (t\<lparr>queue := (queue t)\<lparr>mReadList := []\<rparr>\<rparr>)" by (rule delivers_trans)
  then show ?case using Cons.hyps(2) by (simp add: t_def)
qed

text \<open>With the reader idle and its list empty, a synchronisation and a drain deliver the shared list.\<close>

lemma drain_shared:
  assumes "reader s = R_Idle" "mReadList (queue s) = []"
  shows "mq_delivers s (mSharedList (queue s)) (s\<lparr>queue := (queue s)\<lparr>mSharedList := []\<rparr>\<rparr>)"
proof -
  define s1 where "s1 = s\<lparr>reader := R_Lock\<rparr>"
  define s2 where "s2 = s1\<lparr>queue := read_locked (queue s1), reader := R_Idle\<rparr>"
  have "mq_delivers s [] s1" using assms by (auto intro: delivers_internal step_sync simp: s1_def)
  moreover have "mq_delivers s1 [] s2"
    unfolding s2_def by (intro delivers_internal step_read_lock) (simp add: s1_def)
  ultimately have "mq_delivers s [] s2" by (rule delivers_internals)
  moreover have "mReadList (queue s2) = mSharedList (queue s)"
    "s2\<lparr>queue := (queue s2)\<lparr>mReadList := []\<rparr>\<rparr> = s\<lparr>queue := (queue s)\<lparr>mSharedList := []\<rparr>\<rparr>"
    using assms by (cases s; cases "queue s"; simp add: s2_def s1_def read_locked_def)+
  moreover have "reader s2 = R_Idle" by (simp add: s2_def)
  ultimately show ?thesis using drain_read [of s2] delivers_internals by metis
qed

lemma writer_to_idle: "\<exists>t. mq_delivers s [] t \<and> writer t = W_Idle \<and> reader t = reader s"
proof (cases "writer s")
  case W_Idle
  then show ?thesis using delivers_refl by blast
next
  case W_TryLock
  then show ?thesis using delivers_internal [OF step_try_lock] by fastforce
next
  case W_ForceLock
  then show ?thesis using delivers_internal [OF step_force_lock] by fastforce
next
  case W_TryCheck
  show ?thesis
  proof (cases "try_guard (queue s)")
    case True
    then have "mq_delivers s [] (s\<lparr>writer := W_TryLock\<rparr>)" using delivers_internal [OF step_try_check [OF W_TryCheck]] by simp
    moreover have "mq_delivers (s\<lparr>writer := W_TryLock\<rparr>) []
        (s\<lparr>queue := snd (try_locked (queue s)), writer := W_Idle\<rparr>)"
      using delivers_internal [OF step_try_lock, of "s\<lparr>writer := W_TryLock\<rparr>"] by simp
    ultimately show ?thesis using delivers_internals by fastforce
  next
    case False
    then show ?thesis using delivers_internal [OF step_try_check [OF W_TryCheck]] by fastforce
  qed
qed

lemma reader_to_idle: "\<exists>t. mq_delivers s [] t \<and> reader t = R_Idle \<and> writer t = writer s"
proof -
  have lock: "\<exists>t. mq_delivers s [] t \<and> reader t = R_Idle \<and> writer t = writer s" if "reader s = R_Lock" for s :: "'a mq_threads"
    using delivers_internal [OF step_read_lock [OF that]] by fastforce
  show ?thesis
  proof (cases "reader s")
    case R_Wait
    then have "mq_delivers s [] (s\<lparr>reader := R_Lock\<rparr>)" by (intro delivers_internal step_wait)
    then show ?thesis using lock [of "s\<lparr>reader := R_Lock\<rparr>"] delivers_internals by fastforce
  qed (use lock delivers_refl in blast)+
qed

lemma publish_write:
  assumes "writer s = W_Idle" "mSharedList (queue s) = []"
  shows "mq_delivers s [] (s\<lparr>queue := (queue s)\<lparr>mWriteList := [], mSharedList := mWriteList (queue s)\<rparr>\<rparr>)"
proof (cases "mWriteList (queue s) = []")
  case True
  then have "s\<lparr>queue := (queue s)\<lparr>mWriteList := [], mSharedList := mWriteList (queue s)\<rparr>\<rparr> = s"
    using assms by (cases s; cases "queue s") simp
  then show ?thesis using delivers_refl by metis
next
  case False
  define s1 where "s1 = s\<lparr>writer := W_TryCheck\<rparr>"
  define s2 where "s2 = s1\<lparr>writer := W_TryLock\<rparr>"
  have g: "try_guard (queue s)" using False assms by (simp add: try_guard_def)
  have "mq_delivers s [] s1" using assms(1) by (auto intro: delivers_internal step_try simp: s1_def)
  moreover have "mq_delivers s1 [] s2"
    using delivers_internal [OF step_try_check, of s1] g by (simp add: s1_def s2_def)
  moreover have "mq_delivers s2 [] (s2\<lparr>queue := snd (try_locked (queue s2)), writer := W_Idle\<rparr>)"
    by (intro delivers_internal step_try_lock) (simp add: s2_def)
  moreover have "s2\<lparr>queue := snd (try_locked (queue s2)), writer := W_Idle\<rparr> =
      s\<lparr>queue := (queue s)\<lparr>mWriteList := [], mSharedList := mWriteList (queue s)\<rparr>\<rparr>"
    using g assms by (cases s; cases "queue s") (simp add: s1_def s2_def try_locked_def)
  ultimately show ?thesis using delivers_internals by metis
qed

lemma drain_all:
  assumes "writer s = W_Idle" "reader s = R_Idle"
  shows "\<exists>t. mq_delivers s (mq_content (queue s)) t \<and> mq_content (queue t) = []"
proof -
  define s1 where "s1 = s\<lparr>queue := (queue s)\<lparr>mReadList := []\<rparr>\<rparr>"
  define s2 where "s2 = s1\<lparr>queue := (queue s1)\<lparr>mSharedList := []\<rparr>\<rparr>"
  define s3 where "s3 = s2\<lparr>queue := (queue s2)\<lparr>mWriteList := [], mSharedList := mWriteList (queue s2)\<rparr>\<rparr>"
  define s4 where "s4 = s3\<lparr>queue := (queue s3)\<lparr>mSharedList := []\<rparr>\<rparr>"
  have "mq_delivers s (mReadList (queue s)) s1" using drain_read [OF assms(2)] by (simp add: s1_def)
  moreover have "mq_delivers s1 (mSharedList (queue s)) s2" using drain_shared [of s1] assms by (simp add: s1_def s2_def)
  moreover have "mq_delivers s2 (mWriteList (queue s)) s4"
  proof -
    have "mq_delivers s2 [] s3" using publish_write [of s2] assms by (simp add: s1_def s2_def s3_def)
    moreover have "mq_delivers s3 (mWriteList (queue s)) s4"
      using drain_shared [of s3] assms by (simp add: s1_def s2_def s3_def s4_def)
    ultimately show ?thesis by (rule delivers_internals)
  qed
  ultimately have "mq_delivers s (mReadList (queue s) @ mSharedList (queue s) @ mWriteList (queue s)) s4"
    by (intro delivers_trans)
  moreover have "mq_content (queue s4) = []" by (simp add: mq_content_def s4_def s3_def s2_def s1_def)
  ultimately show ?thesis by (auto simp: mq_content_def)
qed

section \<open>Properties\<close>

text \<open>
  C33. Over every interleaving of one writer and one reader that pops at the front, what the reader got is,
  in order and without loss or duplicate, what was in the queue followed by what the writer pushed, up to
  the messages still in the queue.
\<close>

theorem mq_interleaving_fifo:
  assumes "handoff_run mq_step (mq_idle q) es t" "front_only es"
  shows "mq_content q @ pushed es = popped es @ mq_content (queue t)"
  using mq.run_fifo [OF assms] by (simp add: mq_idle_def)

text \<open>
  With pops at both ends the order is free, but still no interleaving loses or duplicates a message.
\<close>

theorem mq_interleaving_conserves:
  assumes "handoff_run mq_step (mq_idle q) es t"
  shows "mset (mq_content q) + mset (pushed es) = mset (popped es) + mset (mq_content (queue t))"
  using mq.run_conserves [OF assms] by (simp add: mq_idle_def)

text \<open>
  No interleaving gets stuck with undelivered messages: from every state a run of the two threads, with
  no further push, delivers the whole content in order and leaves the queue empty.
\<close>

theorem mq_all_delivered:
  "\<exists>es t. handoff_run mq_step s es t \<and> pushed es = [] \<and> popped es = mq_content (queue s) \<and> mq_content (queue t) = []"
proof -
  obtain u where u: "mq_delivers s [] u" "writer u = W_Idle" using writer_to_idle by blast
  obtain v where v: "mq_delivers u [] v" "reader v = R_Idle" "writer v = W_Idle" using reader_to_idle [of u] u(2) by auto
  obtain t where t: "mq_delivers v (mq_content (queue v)) t" "mq_content (queue t) = []"
    using drain_all [OF v(3,2)] by blast
  have "mq_delivers s [] v" using u(1) v(1) by (rule delivers_internals)
  then have same: "mq_content (queue v) = mq_content (queue s)"
    unfolding mq_delivers_def using mq.run_fifo by fastforce
  have "mq_delivers s (mq_content (queue s)) t" using \<open>mq_delivers s [] v\<close> t(1) same delivers_internals by metis
  then show ?thesis using t(2) unfolding mq_delivers_def by blast
qed

text \<open>
  \<open>syncRead\<close> with a timeout waits on the condition variable whenever the read list is empty, also
  when messages already lie in the shared list and their notification is past; they reach the read list
  after the wait only.
\<close>

theorem syncRead_waits_with_messages:
  "mReadList q = [] \<Longrightarrow> mSharedList q \<noteq> [] \<Longrightarrow> 0 < waitMicroSecond \<Longrightarrow>
   syncRead waitMicroSecond q = (True, q\<lparr>mSharedList := [], mReadList := mSharedList q\<rparr>)"
  by (simp add: syncRead_def read_locked_def)

section \<open>Witnesses\<close>

definition mq_demo :: "nat msg_queue" where
  "mq_demo = \<lparr>mWriteList = [3], mSharedList = [2], mReadList = [1]\<rparr>"

lemma mq_demo_run:
  "handoff_run mq_step (mq_idle mq_demo) [Pushed 4, Popped 1] \<lparr>queue = \<lparr>mWriteList = [3, 4], mSharedList = [2], mReadList = []\<rparr>,
     writer = W_Idle, reader = R_Idle\<rparr>"
proof (rule run_cons, rule step_push)
  show "handoff_run mq_step (mq_idle mq_demo\<lparr>queue := mq_push 4 (queue (mq_idle mq_demo))\<rparr>) [Popped 1]
      \<lparr>queue = \<lparr>mWriteList = [3, 4], mSharedList = [2], mReadList = []\<rparr>, writer = W_Idle, reader = R_Idle\<rparr>"
    by (rule run_cons, rule step_pop [where q = "\<lparr>mWriteList = [3, 4], mSharedList = [2], mReadList = []\<rparr>"])
      (simp_all add: mq_idle_def mq_demo_def mq_push_def popFront_def run_nil)
qed (simp add: mq_idle_def)

theorem mq_interleaving_fifo_witness:
  "mq_content mq_demo @ pushed [Pushed 4, Popped 1] = popped [Pushed 4, Popped 1] @ [2, 3, 4 :: nat]"
  using mq_interleaving_fifo [OF mq_demo_run] by (simp add: mq_content_def)

theorem mq_interleaving_conserves_witness:
  "mset (mq_content mq_demo) + {#4#} = {#1#} + mset [2, 3, 4 :: nat]"
  using mq_interleaving_conserves [OF mq_demo_run] by (simp add: mq_content_def)

theorem syncRead_waits_with_messages_witness:
  "syncRead 10 (mq_demo\<lparr>mReadList := []\<rparr>) = (True, \<lparr>mWriteList = [3], mSharedList = [], mReadList = [2]\<rparr>)"
  using syncRead_waits_with_messages [of "mq_demo\<lparr>mReadList := []\<rparr>" 10] by (simp add: mq_demo_def)

end
