(* ===== verification/Rw_List.thy ===== *)
theory Rw_List
  imports Interfaces
begin

text \<open>
  The reader-writer list of \<^verbatim>\<open>src/utils/rwlist.c\<close>. Its three stacks come from \<^verbatim>\<open>stack.h\<close>, which is not
  part of the repository: the stack operations are the record \<open>stack_ops\<close>, an argument of every
  operation, and \<open>stack_ok\<close> states the behaviour the list relies on. A null pointer is \<open>None\<close>; an operation that
  dereferences one, or fails an assertion, is \<open>None\<close>. While \<^verbatim>\<open>ox_thread_cond_timewait\<close> waits the lock is
  released: \<open>other\<close> is what the other thread does to the list meanwhile.
\<close>

section \<open>State\<close>

record 'st stack_ops =
  ox_stack_push :: "'st \<Rightarrow> bytes \<Rightarrow> bool \<times> 'st"
  ox_stack_num :: "'st \<Rightarrow> int"
  ox_stack_front :: "'st \<Rightarrow> bytes option"
  ox_stack_popfront :: "'st \<Rightarrow> bytes option \<times> 'st"

text \<open>\<open>cond_signals\<close> counts the calls of \<^verbatim>\<open>ox_thread_cond_signal\<close>.\<close>

record 'st rwlist_s =
  rw_mutex :: bool
  local_write :: "'st option"
  shared :: "'st option"
  local_read :: "'st option"
  rw_cond :: bool
  max_pengding_num :: int
  cond_signals :: nat

section \<open>Operations\<close>

text \<open>The number of live objects after the list is deleted.\<close>

definition ox_rwlist_delete :: "'st rwlist_s option \<Rightarrow> nat \<Rightarrow> nat" where
  "ox_rwlist_delete self live =
     (case self of
        None \<Rightarrow> live
      | Some s \<Rightarrow>
          live - (if local_write s \<noteq> None then 1 else 0) - (if shared s \<noteq> None then 1 else 0)
            - (if local_read s \<noteq> None then 1 else 0) - (if rw_cond s then 1 else 0)
            - (if rw_mutex s then 1 else 0) - 1)"

text \<open>
  \<open>stack_new k\<close> is the result of the \<open>k\<close>-th call of \<^verbatim>\<open>ox_stack_new\<close>; the three flags say whether the
  structure, the mutex and the condition variable could be allocated.
\<close>

definition ox_rwlist_new ::
  "bool \<Rightarrow> (nat \<Rightarrow> int \<Rightarrow> int \<Rightarrow> 'st option) \<Rightarrow> bool \<Rightarrow> bool \<Rightarrow> int \<Rightarrow> int \<Rightarrow> int \<Rightarrow> nat \<Rightarrow>
   'st rwlist_s option \<times> nat" where
  "ox_rwlist_new self_ok stack_new mutex_ok cond_ok num element_size max_num live =
     (if self_ok then
        let ret = \<lparr>rw_mutex = mutex_ok, local_write = stack_new 0 num element_size,
                   shared = stack_new 1 num element_size, local_read = stack_new 2 num element_size,
                   rw_cond = cond_ok, max_pengding_num = max_num, cond_signals = 0\<rparr>;
            live' = live + 1 + (if local_write ret \<noteq> None then 1 else 0) + (if shared ret \<noteq> None then 1 else 0)
              + (if local_read ret \<noteq> None then 1 else 0) + (if mutex_ok then 1 else 0) + (if cond_ok then 1 else 0)
        in if local_write ret = None \<or> shared ret = None \<or> shared ret = None \<or> \<not> rw_mutex ret
           then (None, ox_rwlist_delete (Some ret) live')
           else (Some ret, live')
      else (None, live))"

text \<open>The test \<^verbatim>\<open>num(shared) <= 0 && num(local_read) <= 0\<close>, evaluated from the left.\<close>

definition both_empty :: "'st stack_ops \<Rightarrow> 'st rwlist_s \<Rightarrow> bool option" where
  "both_empty ops s =
     (case shared s of
        None \<Rightarrow> None
      | Some h \<Rightarrow>
          if ox_stack_num ops h \<le> 0 then
            (case local_read s of None \<Rightarrow> None | Some r \<Rightarrow> Some (ox_stack_num ops r \<le> 0))
          else Some False)"

definition rwlist_sync_write :: "'st stack_ops \<Rightarrow> 'st rwlist_s \<Rightarrow> 'st rwlist_s option" where
  "rwlist_sync_write ops s =
     (case both_empty ops s of
        None \<Rightarrow> None
      | Some b \<Rightarrow>
          Some (if b then s\<lparr>local_write := shared s, shared := local_write s, cond_signals := cond_signals s + 1\<rparr>
                else s))"

definition ox_rwlist_push :: "'st stack_ops \<Rightarrow> 'st rwlist_s \<Rightarrow> bytes \<Rightarrow> 'st rwlist_s option" where
  "ox_rwlist_push ops s data =
     (case local_write s of
        None \<Rightarrow> None
      | Some w \<Rightarrow>
          (case ox_stack_push ops w data of
             (push_ret, w') \<Rightarrow>
               let s' = s\<lparr>local_write := Some w'\<rparr>
               in if \<not> push_ret then None
                  else if ox_stack_num ops w' > max_pengding_num s' then
                    (case both_empty ops s' of
                       None \<Rightarrow> None
                     | Some b \<Rightarrow> if b then rwlist_sync_write ops s' else Some s')
                  else Some s'))"

definition swap_read :: "'st stack_ops \<Rightarrow> 'st rwlist_s \<Rightarrow> 'st rwlist_s option" where
  "swap_read ops s =
     (case shared s of
        None \<Rightarrow> None
      | Some h \<Rightarrow>
          if ox_stack_num ops h > 0 then Some (s\<lparr>shared := local_read s, local_read := shared s\<rparr>) else Some s)"

definition rwlist_sync_read ::
  "('st rwlist_s \<Rightarrow> 'st rwlist_s option) \<Rightarrow> 'st stack_ops \<Rightarrow> 'st rwlist_s \<Rightarrow> int \<Rightarrow> 'st rwlist_s option" where
  "rwlist_sync_read other ops s timeout =
     (case shared s of
        None \<Rightarrow> None
      | Some h \<Rightarrow>
          if timeout \<le> 0 \<and> ox_stack_num ops h \<le> 0 then Some s
          else if ox_stack_num ops h \<le> 0 \<and> timeout > 0 then
            (case other s of None \<Rightarrow> None | Some s' \<Rightarrow> swap_read ops s')
          else swap_read ops s)"

definition ox_rwlist_sync_read ::
  "('st rwlist_s \<Rightarrow> 'st rwlist_s option) \<Rightarrow> 'st stack_ops \<Rightarrow> 'st rwlist_s \<Rightarrow> int \<Rightarrow> 'st rwlist_s option" where
  "ox_rwlist_sync_read other ops s timeout =
     (case local_read s of
        None \<Rightarrow> None
      | Some r \<Rightarrow> if ox_stack_num ops r \<le> 0 then rwlist_sync_read other ops s timeout else Some s)"

definition ox_rwlist_once_front :: "'st stack_ops \<Rightarrow> 'st rwlist_s \<Rightarrow> (bytes option \<times> 'st rwlist_s) option" where
  "ox_rwlist_once_front ops s =
     (case local_read s of None \<Rightarrow> None | Some r \<Rightarrow> Some (ox_stack_front ops r, s))"

definition ox_rwlist_once_pop :: "'st stack_ops \<Rightarrow> 'st rwlist_s \<Rightarrow> (bytes option \<times> 'st rwlist_s) option" where
  "ox_rwlist_once_pop ops s =
     (case local_read s of
        None \<Rightarrow> None
      | Some r \<Rightarrow> (case ox_stack_popfront ops r of (d, r') \<Rightarrow> Some (d, s\<lparr>local_read := Some r'\<rparr>)))"

definition ox_rwlist_front ::
  "('st rwlist_s \<Rightarrow> 'st rwlist_s option) \<Rightarrow> 'st stack_ops \<Rightarrow> 'st rwlist_s \<Rightarrow> int \<Rightarrow>
   (bytes option \<times> 'st rwlist_s) option" where
  "ox_rwlist_front other ops s timeout =
     (case local_read s of
        None \<Rightarrow> None
      | Some r \<Rightarrow>
          (case (if ox_stack_num ops r \<le> 0 then rwlist_sync_read other ops s timeout else Some s) of
             None \<Rightarrow> None
           | Some s' \<Rightarrow>
               (case local_read s' of None \<Rightarrow> None | Some r' \<Rightarrow> Some (ox_stack_front ops r', s'))))"

definition ox_rwlist_pop ::
  "('st rwlist_s \<Rightarrow> 'st rwlist_s option) \<Rightarrow> 'st stack_ops \<Rightarrow> 'st rwlist_s \<Rightarrow> int \<Rightarrow>
   (bytes option \<times> 'st rwlist_s) option" where
  "ox_rwlist_pop other ops s timeout =
     (case local_read s of
        None \<Rightarrow> None
      | Some r \<Rightarrow>
          (case (if ox_stack_num ops r \<le> 0 then rwlist_sync_read other ops s timeout else Some s) of
             None \<Rightarrow> None
           | Some s' \<Rightarrow>
               (case local_read s' of
                  None \<Rightarrow> None
                | Some r' \<Rightarrow>
                    (case ox_stack_popfront ops r' of (d, r'') \<Rightarrow> Some (d, s'\<lparr>local_read := Some r''\<rparr>)))))"

definition ox_rwlist_flush :: "'st stack_ops \<Rightarrow> 'st rwlist_s \<Rightarrow> 'st rwlist_s option" where
  "ox_rwlist_flush ops s =
     (case local_write s of
        None \<Rightarrow> None
      | Some w \<Rightarrow> if ox_stack_num ops w > 0 then rwlist_sync_write ops s else Some s)"

text \<open>The loop of \<open>ox_rwlist_force_flush\<close>; it ends when the write stack gives no element.\<close>

partial_function (option) move_all :: "'st stack_ops \<Rightarrow> 'st \<Rightarrow> 'st \<Rightarrow> ('st \<times> 'st) option" where
  [code]: "move_all ops temp h =
     (case ox_stack_popfront ops temp of
        (None, temp') \<Rightarrow> Some (temp', h)
      | (Some d, temp') \<Rightarrow> move_all ops temp' (snd (ox_stack_push ops h d)))"

definition ox_rwlist_force_flush :: "'st stack_ops \<Rightarrow> 'st rwlist_s \<Rightarrow> 'st rwlist_s option" where
  "ox_rwlist_force_flush ops s =
     (case local_write s of
        None \<Rightarrow> None
      | Some w \<Rightarrow>
          if ox_stack_num ops w > 0 then
            (case shared s of
               None \<Rightarrow> None
             | Some h \<Rightarrow>
                 if ox_stack_num ops h \<le> 0 then Some (s\<lparr>local_write := shared s, shared := local_write s\<rparr>)
                 else
                   (case move_all ops w h of
                      None \<Rightarrow> None
                    | Some (w', h') \<Rightarrow> Some (s\<lparr>local_write := Some w', shared := Some h'\<rparr>)))
          else Some s)"

definition ox_rwlist_allempty :: "'st stack_ops \<Rightarrow> 'st rwlist_s \<Rightarrow> bool option" where
  "ox_rwlist_allempty ops s =
     (case (local_write s, shared s, local_read s) of
        (Some w, Some h, Some r) \<Rightarrow> Some (ox_stack_num ops w + ox_stack_num ops h + ox_stack_num ops r \<le> 0)
      | _ \<Rightarrow> None)"

section \<open>What the list relies on\<close>

text \<open>
  A stack holds a list of elements: \<^verbatim>\<open>ox_stack_push\<close> appends one, the front operations give and remove the
  oldest, \<^verbatim>\<open>ox_stack_num\<close> is the number of elements.
\<close>

definition stack_ok :: "'st stack_ops \<Rightarrow> ('st \<Rightarrow> bytes list) \<Rightarrow> bool" where
  "stack_ok ops els \<longleftrightarrow>
     (\<forall>k. ox_stack_num ops k = int (length (els k))) \<and>
     (\<forall>k d. fst (ox_stack_push ops k d) \<and> els (snd (ox_stack_push ops k d)) = els k @ [d]) \<and>
     (\<forall>k. ox_stack_front ops k = (if els k = [] then None else Some (hd (els k)))) \<and>
     (\<forall>k. fst (ox_stack_popfront ops k) = (if els k = [] then None else Some (hd (els k))) \<and>
          els (snd (ox_stack_popfront ops k)) = tl (els k))"

lemma stack_okD:
  assumes "stack_ok ops els"
  shows "ox_stack_num ops k = int (length (els k))"
    and "ox_stack_push ops k d = (True, snd (ox_stack_push ops k d))"
    and "els (snd (ox_stack_push ops k d)) = els k @ [d]"
    and "ox_stack_front ops k = (if els k = [] then None else Some (hd (els k)))"
    and "ox_stack_popfront ops k = (if els k = [] then None else Some (hd (els k)), snd (ox_stack_popfront ops k))"
    and "els (snd (ox_stack_popfront ops k)) = tl (els k)"
  using assms by (auto simp: stack_ok_def prod_eq_iff)

section \<open>Content\<close>

definition rw_wf :: "'st rwlist_s \<Rightarrow> bool" where
  "rw_wf s \<longleftrightarrow> local_write s \<noteq> None \<and> shared s \<noteq> None \<and> local_read s \<noteq> None"

definition rw_content :: "('st \<Rightarrow> bytes list) \<Rightarrow> 'st rwlist_s \<Rightarrow> bytes list" where
  "rw_content els s = els (the (local_read s)) @ els (the (shared s)) @ els (the (local_write s))"

lemma rw_wfE:
  assumes "rw_wf s"
  obtains w h r where "local_write s = Some w" "shared s = Some h" "local_read s = Some r"
  using assms by (auto simp: rw_wf_def)

lemmas rw_unfold = rw_wf_def rw_content_def both_empty_def rwlist_sync_write_def swap_read_def

lemma sync_write_law:
  assumes "stack_ok ops els" "rw_wf s"
  shows "\<exists>s'. rwlist_sync_write ops s = Some s' \<and> rw_wf s' \<and> rw_content els s' = rw_content els s"
  using assms(2) by (rule rw_wfE) (auto simp: rw_unfold stack_okD(1) [OF assms(1)])

lemma push_law:
  assumes ok: "stack_ok ops els" and "rw_wf s"
  shows "\<exists>s'. ox_rwlist_push ops s d = Some s' \<and> rw_wf s' \<and> rw_content els s' = rw_content els s @ [d]"
  using assms(2)
proof (rule rw_wfE)
  fix w h r
  assume s: "local_write s = Some w" "shared s = Some h" "local_read s = Some r"
  define w' where "w' = snd (ox_stack_push ops w d)"
  define s1 where "s1 = s\<lparr>local_write := Some w'\<rparr>"
  have s1: "rw_wf s1" "rw_content els s1 = rw_content els s @ [d]" "shared s1 = Some h" "local_read s1 = Some r"
    using s stack_okD(3) [OF ok] by (simp_all add: s1_def w'_def rw_wf_def rw_content_def)
  have "ox_stack_push ops w d = (True, w')" using stack_okD(2) [OF ok] by (simp add: w'_def)
  then have "ox_rwlist_push ops s d = Some s1 \<or> ox_rwlist_push ops s d = rwlist_sync_write ops s1"
    using s s1(3,4) by (auto simp: ox_rwlist_push_def Let_def s1_def both_empty_def)
  then show ?thesis using sync_write_law [OF ok s1(1)] s1(1,2) by auto
qed

lemma flush_law:
  assumes "stack_ok ops els" "rw_wf s"
  shows "\<exists>s'. ox_rwlist_flush ops s = Some s' \<and> rw_wf s' \<and> rw_content els s' = rw_content els s"
  using assms(2) sync_write_law [OF assms] by (auto simp: ox_rwlist_flush_def rw_wf_def)

lemma move_all_law:
  assumes "stack_ok ops els"
  shows "\<exists>t' h'. move_all ops t h = Some (t', h') \<and> els t' = [] \<and> els h' = els h @ els t"
proof (induction "els t" arbitrary: t h)
  case Nil
  define t' where "t' = snd (ox_stack_popfront ops t)"
  have "ox_stack_popfront ops t = (None, t')" "els t' = []"
    using stack_okD(5) [OF assms, of t] stack_okD(6) [OF assms, of t] Nil.hyps [symmetric] by (simp_all add: t'_def)
  then show ?case using Nil.hyps [symmetric] by (subst move_all.simps) simp
next
  case (Cons d ds)
  define t' where "t' = snd (ox_stack_popfront ops t)"
  have pop: "ox_stack_popfront ops t = (Some d, t')" "els t' = ds"
    using stack_okD(5) [OF assms, of t] stack_okD(6) [OF assms, of t] Cons.hyps(2) [symmetric]
    by (simp_all add: t'_def)
  show ?case
    using Cons.hyps(1) [of t' "snd (ox_stack_push ops h d)"] pop stack_okD(3) [OF assms] Cons.hyps(2) [symmetric]
    by (subst move_all.simps) simp
qed

lemma force_flush_law:
  assumes "stack_ok ops els" "rw_wf s"
  shows "\<exists>s'. ox_rwlist_force_flush ops s = Some s' \<and> rw_wf s' \<and> rw_content els s' = rw_content els s \<and>
    els (the (local_write s')) = [] \<and> els (the (local_read s')) = els (the (local_read s))"
  using assms(2)
proof (rule rw_wfE)
  fix w h r
  assume s: "local_write s = Some w" "shared s = Some h" "local_read s = Some r"
  obtain w' h' where "move_all ops w h = Some (w', h')" "els w' = []" "els h' = els h @ els w"
    using move_all_law [OF assms(1)] by blast
  then show ?thesis
    using s by (auto simp: ox_rwlist_force_flush_def rw_wf_def rw_content_def stack_okD(1) [OF assms(1)])
qed

section \<open>Runs\<close>

text \<open>What a writer does, also while the reader waits; what the two threads do in turn.\<close>

datatype writer_act = Wr_Push bytes | Wr_Flush | Wr_Force

fun writer_run :: "'st stack_ops \<Rightarrow> writer_act list \<Rightarrow> 'st rwlist_s \<Rightarrow> 'st rwlist_s option" where
  "writer_run ops [] s = Some s"
| "writer_run ops (Wr_Push d # as) s =
     (case ox_rwlist_push ops s d of None \<Rightarrow> None | Some s' \<Rightarrow> writer_run ops as s')"
| "writer_run ops (Wr_Flush # as) s =
     (case ox_rwlist_flush ops s of None \<Rightarrow> None | Some s' \<Rightarrow> writer_run ops as s')"
| "writer_run ops (Wr_Force # as) s =
     (case ox_rwlist_force_flush ops s of None \<Rightarrow> None | Some s' \<Rightarrow> writer_run ops as s')"

fun writer_pushes :: "writer_act list \<Rightarrow> bytes list" where
  "writer_pushes [] = []"
| "writer_pushes (Wr_Push d # as) = d # writer_pushes as"
| "writer_pushes (_ # as) = writer_pushes as"

text \<open>The second argument of the reader's actions is what the writer does if the reader waits.\<close>

datatype rw_act = Rw_Write writer_act | Rw_Pop int "writer_act list" | Rw_Once_Pop | Rw_Sync int "writer_act list"

definition rw_waits :: "'st stack_ops \<Rightarrow> 'st rwlist_s \<Rightarrow> int \<Rightarrow> bool" where
  "rw_waits ops s timeout \<longleftrightarrow> ox_stack_num ops (the (local_read s)) \<le> 0 \<and>
     ox_stack_num ops (the (shared s)) \<le> 0 \<and> timeout > 0"

fun rw_run ::
  "'st stack_ops \<Rightarrow> 'st rwlist_s \<Rightarrow> rw_act list \<Rightarrow> (bytes list \<times> bytes list \<times> 'st rwlist_s) option" where
  "rw_run ops s [] = Some ([], [], s)"
| "rw_run ops s (Rw_Write a # as) =
     (case writer_run ops [a] s of
        None \<Rightarrow> None
      | Some s' \<Rightarrow> map_option (\<lambda>(ins, outs, t). (writer_pushes [a] @ ins, outs, t)) (rw_run ops s' as))"
| "rw_run ops s (Rw_Pop timeout ws # as) =
     (case ox_rwlist_pop (writer_run ops ws) ops s timeout of
        None \<Rightarrow> None
      | Some (d, s') \<Rightarrow>
          map_option (\<lambda>(ins, outs, t).
            ((if rw_waits ops s timeout then writer_pushes ws else []) @ ins, (case d of None \<Rightarrow> [] | Some x \<Rightarrow> [x]) @ outs, t))
            (rw_run ops s' as))"
| "rw_run ops s (Rw_Once_Pop # as) =
     (case ox_rwlist_once_pop ops s of
        None \<Rightarrow> None
      | Some (d, s') \<Rightarrow>
          map_option (\<lambda>(ins, outs, t). (ins, (case d of None \<Rightarrow> [] | Some x \<Rightarrow> [x]) @ outs, t)) (rw_run ops s' as))"
| "rw_run ops s (Rw_Sync timeout ws # as) =
     (case ox_rwlist_sync_read (writer_run ops ws) ops s timeout of
        None \<Rightarrow> None
      | Some s' \<Rightarrow>
          map_option (\<lambda>(ins, outs, t). ((if rw_waits ops s timeout then writer_pushes ws else []) @ ins, outs, t))
            (rw_run ops s' as))"

lemma writer_run_law:
  assumes "stack_ok ops els" "rw_wf s"
  shows "\<exists>s'. writer_run ops ws s = Some s' \<and> rw_wf s' \<and> rw_content els s' = rw_content els s @ writer_pushes ws"
  using assms(2)
proof (induction ws arbitrary: s)
  case (Cons a ws)
  show ?case
  proof (cases a)
    case (Wr_Push d)
    then show ?thesis using push_law [OF assms(1) Cons.prems, of d] Cons.IH by fastforce
  next
    case Wr_Flush
    then show ?thesis using flush_law [OF assms(1) Cons.prems] Cons.IH by fastforce
  next
    case Wr_Force
    then show ?thesis using force_flush_law [OF assms(1) Cons.prems] Cons.IH by fastforce
  qed
qed simp

text \<open>A writer never touches the reader's stack.\<close>

lemma writer_keeps_read:
  "writer_run ops ws s = Some s' \<Longrightarrow> local_read s' = local_read s"
proof (induction ops ws s rule: writer_run.induct)
  case (2 ops d as s)
  have "local_read s1 = local_read s" if "ox_rwlist_push ops s d = Some s1" for s1
    using that by (auto simp: ox_rwlist_push_def Let_def both_empty_def rwlist_sync_write_def
        split: option.splits prod.splits if_splits)
  then show ?case using 2 by (auto split: option.splits)
next
  case (3 ops as s)
  have "local_read s1 = local_read s" if "ox_rwlist_flush ops s = Some s1" for s1
    using that by (auto simp: ox_rwlist_flush_def both_empty_def rwlist_sync_write_def
        split: option.splits if_splits)
  then show ?case using 3 by (auto split: option.splits)
next
  case (4 ops as s)
  have "local_read s1 = local_read s" if "ox_rwlist_force_flush ops s = Some s1" for s1
    using that by (auto simp: ox_rwlist_force_flush_def split: option.splits if_splits)
  then show ?case using 4 by (auto split: option.splits)
qed simp

lemma swap_read_law:
  assumes "stack_ok ops els" "rw_wf s" "els (the (local_read s)) = []"
  shows "\<exists>s'. swap_read ops s = Some s' \<and> rw_wf s' \<and> rw_content els s' = rw_content els s"
  using assms(2) by (rule rw_wfE) (use assms(3) in \<open>auto simp: rw_unfold stack_okD(1) [OF assms(1)]\<close>)

text \<open>The first half of every reader operation: fill the read stack when it is empty.\<close>

definition rw_refill :: "writer_act list \<Rightarrow> 'st stack_ops \<Rightarrow> 'st rwlist_s \<Rightarrow> int \<Rightarrow> 'st rwlist_s option" where
  "rw_refill ws ops s timeout =
     (if ox_stack_num ops (the (local_read s)) \<le> 0 then rwlist_sync_read (writer_run ops ws) ops s timeout else Some s)"

lemma refill_law:
  assumes "stack_ok ops els" "rw_wf s"
  shows "\<exists>s'. rw_refill ws ops s timeout = Some s' \<and> rw_wf s' \<and>
    rw_content els s' = rw_content els s @ (if rw_waits ops s timeout then writer_pushes ws else [])"
  using assms(2)
proof (rule rw_wfE)
  fix w h r
  assume s: "local_write s = Some w" "shared s = Some h" "local_read s = Some r"
  obtain s1 where s1: "writer_run ops ws s = Some s1" "rw_wf s1" "rw_content els s1 = rw_content els s @ writer_pushes ws"
    using writer_run_law [OF assms] by blast
  have read1: "local_read s1 = Some r" using writer_keeps_read [OF s1(1)] s(3) by simp
  show ?thesis
  proof (cases "els r = []")
    case True
    then show ?thesis
      using s s1(1,3) assms(2) swap_read_law [OF assms(1) s1(2)] swap_read_law [OF assms] read1
      by (auto simp: rw_refill_def rw_waits_def rwlist_sync_read_def stack_okD(1) [OF assms(1)])
  next
    case False
    then show ?thesis using s assms(2) by (simp add: rw_refill_def rw_waits_def stack_okD(1) [OF assms(1)])
  qed
qed

lemma once_pop_law:
  assumes "stack_ok ops els" "rw_wf s"
  shows "\<exists>d s'. ox_rwlist_once_pop ops s = Some (d, s') \<and> rw_wf s' \<and>
    rw_content els s = (case d of None \<Rightarrow> [] | Some x \<Rightarrow> [x]) @ rw_content els s'"
  using assms(2)
proof (rule rw_wfE)
  fix w h r
  assume s: "local_write s = Some w" "shared s = Some h" "local_read s = Some r"
  define r' where "r' = snd (ox_stack_popfront ops r)"
  have pop: "ox_stack_popfront ops r = (if els r = [] then None else Some (hd (els r)), r')" "els r' = tl (els r)"
    using stack_okD(5,6) [OF assms(1), of r] by (simp_all add: r'_def)
  then show ?thesis
    using s by (cases "els r") (auto simp: ox_rwlist_once_pop_def rw_wf_def rw_content_def)
qed

lemma pop_eq:
  "rw_wf s \<Longrightarrow> ox_rwlist_pop (writer_run ops ws) ops s timeout =
     (case rw_refill ws ops s timeout of None \<Rightarrow> None | Some s' \<Rightarrow> ox_rwlist_once_pop ops s')"
  by (auto simp: ox_rwlist_pop_def rw_refill_def ox_rwlist_once_pop_def split: option.splits elim!: rw_wfE)

lemma sync_eq:
  "rw_wf s \<Longrightarrow> ox_rwlist_sync_read (writer_run ops ws) ops s timeout = rw_refill ws ops s timeout"
  by (auto simp: ox_rwlist_sync_read_def rw_refill_def elim!: rw_wfE)

lemma rw_run_law:
  assumes "stack_ok ops els" "rw_wf s"
  shows "\<exists>ins outs t. rw_run ops s as = Some (ins, outs, t) \<and> rw_wf t \<and>
    rw_content els s @ ins = outs @ rw_content els t"
  using assms(2)
proof (induction as arbitrary: s)
  case (Cons a as)
  show ?case
  proof (cases a)
    case (Rw_Write w)
    then show ?thesis using writer_run_law [OF assms(1) Cons.prems, of "[w]"] Cons.IH by fastforce
  next
    case (Rw_Pop timeout ws)
    obtain s1 where s1: "rw_refill ws ops s timeout = Some s1" "rw_wf s1" "rw_content els s1 =
        rw_content els s @ (if rw_waits ops s timeout then writer_pushes ws else [])"
      using refill_law [OF assms(1) Cons.prems] by blast
    obtain d s2 where s2: "ox_rwlist_once_pop ops s1 = Some (d, s2)" "rw_wf s2"
      "rw_content els s1 = (case d of None \<Rightarrow> [] | Some x \<Rightarrow> [x]) @ rw_content els s2"
      using once_pop_law [OF assms(1) s1(2)] by blast
    obtain ins outs t where t: "rw_run ops s2 as = Some (ins, outs, t)" "rw_wf t"
      "rw_content els s2 @ ins = outs @ rw_content els t" using Cons.IH [OF s2(2)] by blast
    have "rw_content els s @ (if rw_waits ops s timeout then writer_pushes ws else []) @ ins =
        (case d of None \<Rightarrow> [] | Some x \<Rightarrow> [x]) @ outs @ rw_content els t"
      using s1(3) s2(3) t(3) by (metis append.assoc)
    then show ?thesis
      using Rw_Pop s1(1) s2(1) t(1,2) pop_eq [OF Cons.prems, of ops ws timeout] by simp
  next
    case Rw_Once_Pop
    then show ?thesis using once_pop_law [OF assms(1) Cons.prems] Cons.IH by fastforce
  next
    case (Rw_Sync timeout ws)
    then show ?thesis
      using refill_law [OF assms(1) Cons.prems, of ws timeout] Cons.IH sync_eq [OF Cons.prems, of ops ws timeout]
      by fastforce
  qed
qed simp

section \<open>Properties\<close>

text \<open>
  With stacks that keep their elements in order, every sequence of operations of the two threads,
  including what the writer does while the reader waits, runs without a null pointer or a failed assertion
  and delivers the pushed elements first in, first out, none lost and none twice.
\<close>

theorem rwlist_fifo:
  assumes "stack_ok ops els" "rw_wf s"
  shows "\<exists>ins outs t. rw_run ops s as = Some (ins, outs, t) \<and>
    rw_content els s @ ins = outs @ rw_content els t"
  using rw_run_law [OF assms] by blast

text \<open>
  \<open>ox_rwlist_force_flush\<close> terminates, leaves nothing in the write stack and keeps the order of the
  elements.
\<close>

theorem force_flush_terminates:
  assumes "stack_ok ops els" "rw_wf s"
  shows "\<exists>s'. ox_rwlist_force_flush ops s = Some s' \<and> els (the (local_write s')) = [] \<and>
    rw_content els s' = rw_content els s"
  using force_flush_law [OF assms] by blast

text \<open>
  \<open>ox_rwlist_new\<close> tests \<^verbatim>\<open>shared\<close> twice and \<^verbatim>\<open>local_read\<close> never: when only the third stack
  cannot be allocated it returns a list, and the first pop dereferences the null pointer.
\<close>

theorem rwlist_new_unchecked_read:
  assumes "stack_new 0 num esize = Some w" "stack_new 1 num esize = Some h" "stack_new 2 num esize = None"
  shows "\<exists>s live'. ox_rwlist_new True stack_new True cond_ok num esize m live = (Some s, live') \<and>
    ox_rwlist_pop other ops s timeout = None"
  using assms by (simp add: ox_rwlist_new_def Let_def ox_rwlist_pop_def)

section \<open>Witnesses\<close>

definition list_stack :: "bytes list stack_ops" where
  "list_stack = \<lparr>ox_stack_push = (\<lambda>k d. (True, k @ [d])), ox_stack_num = (\<lambda>k. int (length k)),
     ox_stack_front = (\<lambda>k. if k = [] then None else Some (hd k)),
     ox_stack_popfront = (\<lambda>k. (if k = [] then None else Some (hd k), tl k))\<rparr>"

lemma list_stack_ok: "stack_ok list_stack (\<lambda>k. k)"
  by (simp add: stack_ok_def list_stack_def)

definition demo_rw :: "bytes list rwlist_s" where
  "demo_rw = \<lparr>rw_mutex = True, local_write = Some [''c''], shared = Some [''b''], local_read = Some [''a''],
     rw_cond = True, max_pengding_num = 10, cond_signals = 0\<rparr>"

lemma demo_rw_ok: "rw_wf demo_rw" "rw_content (\<lambda>k. k) demo_rw = [''a'', ''b'', ''c'']"
  by (simp_all add: demo_rw_def rw_wf_def rw_content_def)

theorem rwlist_fifo_witness:
  "\<exists>ins outs t. rw_run list_stack demo_rw [Rw_Write (Wr_Push ''d''), Rw_Once_Pop, Rw_Pop 0 [], Rw_Write Wr_Force] =
      Some (ins, outs, t) \<and>
    [''a'', ''b'', ''c''] @ ins = outs @ rw_content (\<lambda>k. k) t"
  using rwlist_fifo [OF list_stack_ok demo_rw_ok(1), of "[Rw_Write (Wr_Push ''d''), Rw_Once_Pop, Rw_Pop 0 [], Rw_Write Wr_Force]"]
  unfolding demo_rw_ok(2) .

theorem force_flush_terminates_witness:
  "\<exists>s'. ox_rwlist_force_flush list_stack demo_rw = Some s' \<and> the (local_write s') = []"
  using force_flush_terminates [OF list_stack_ok demo_rw_ok(1)] by blast

theorem rwlist_new_unchecked_read_witness:
  "\<exists>s live'. ox_rwlist_new True (\<lambda>k n e. if k < 2 then Some [] else None) True True 8 4 10 0 = (Some s, live') \<and>
    ox_rwlist_pop Some list_stack s 0 = None"
  using rwlist_new_unchecked_read [of "\<lambda>k n e. if k < 2 then Some [] else None" 8 4 "[]" "[]" True 10 0 Some list_stack 0]
  by simp

end
