(* ===== verification/Bytes.thy ===== *)
theory Bytes
  imports Prelude
begin

text \<open>
  Integers as sequences of bytes: the representation of an object in memory on a little-endian host, the
  byte order conversions of \<^verbatim>\<open>endian.h\<close>, and the arithmetic facts the packet, WebSocket and Base64
  components share.
\<close>

section \<open>Memory representation\<close>

fun le_bytes :: "nat \<Rightarrow> nat \<Rightarrow> uint8_t list" where
  "le_bytes 0 n = []"
| "le_bytes (Suc k) n = of_nat n # le_bytes k (n div 256)"

fun le_value :: "uint8_t list \<Rightarrow> nat" where
  "le_value [] = 0"
| "le_value (b # bs) = unat b + 256 * le_value bs"

lemma le_bytes_length [simp]: "length (le_bytes k n) = k"
  by (induction k arbitrary: n) auto

lemma unat_of_nat_byte [simp]: "unat (of_nat n :: uint8_t) = n mod 256"
  by (simp add: unat_of_nat)

lemma le_value_bytes: "le_value (le_bytes k n) = n mod 256 ^ k"
proof (induction k arbitrary: n)
  case (Suc k)
  have "n mod (256 * 256 ^ k) = 256 * (n div 256 mod 256 ^ k) + n mod 256" by (rule mod_mult2_eq)
  then show ?case using Suc by simp
qed simp

lemma le_value_bound: "le_value bs < 256 ^ length bs"
proof (induction bs)
  case (Cons b bs)
  have "unat b < 256" using unsigned_less [of b] by simp
  then show ?case using Cons by simp
qed simp

lemma le_bytes_value: "length bs = k \<Longrightarrow> le_bytes k (le_value bs) = bs"
proof (induction bs arbitrary: k)
  case (Cons b bs)
  have "unat b < 256" using unsigned_less [of b] by simp
  then have "of_nat (unat b + 256 * le_value bs) = b" "(unat b + 256 * le_value bs) div 256 = le_value bs"
    by (simp_all add: word_unat_eq_iff del: of_nat_add of_nat_mult)
  then show ?case using Cons by auto
qed simp

lemma le_bytes_mod: "le_bytes k (n mod 256 ^ k) = le_bytes k n"
  using le_bytes_value [of "le_bytes k n" k] by (simp add: le_value_bytes)

text \<open>The object representation of an unsigned value and the value read back from it.\<close>

definition to_memory :: "'a::len word \<Rightarrow> uint8_t list" where
  "to_memory w = le_bytes (LENGTH('a) div 8) (unat w)"

definition from_memory :: "uint8_t list \<Rightarrow> 'a::len word" where
  "from_memory bs = of_nat (le_value bs)"

definition swap_bytes :: "'a::len word \<Rightarrow> 'a word" where
  "swap_bytes w = from_memory (rev (to_memory w))"

lemma to_memory_length [simp]: "length (to_memory (w :: 'a::len word)) = LENGTH('a) div 8"
  by (simp add: to_memory_def)

lemma from_to_memory:
  assumes "8 dvd LENGTH('a::len)"
  shows "from_memory (to_memory w) = (w :: 'a word)"
proof -
  have "(256 :: nat) ^ (LENGTH('a) div 8) = 2 ^ LENGTH('a)"
    using assms power_mult [of "2 :: nat" 8 "LENGTH('a) div 8"] by simp
  then show ?thesis by (simp add: from_memory_def to_memory_def le_value_bytes unsigned_less)
qed

lemma to_from_memory:
  assumes "8 dvd LENGTH('a::len)" "length bs = LENGTH('a) div 8"
  shows "to_memory (from_memory bs :: 'a word) = bs"
proof -
  have "(256 :: nat) ^ (LENGTH('a) div 8) = 2 ^ LENGTH('a)"
    using assms power_mult [of "2 :: nat" 8 "LENGTH('a) div 8"] by simp
  then have "unat (of_nat (le_value bs) :: 'a word) = le_value bs"
    using le_value_bound [of bs] assms(2) by (simp add: unat_of_nat)
  then show ?thesis using assms(2) by (simp add: from_memory_def to_memory_def le_bytes_value)
qed

lemma swap_swap:
  assumes "8 dvd LENGTH('a::len)"
  shows "swap_bytes (swap_bytes w) = (w :: 'a word)"
  by (simp add: swap_bytes_def to_from_memory from_to_memory assms)

lemma to_memory_swap:
  assumes "8 dvd LENGTH('a::len)"
  shows "to_memory (swap_bytes w) = rev (to_memory (w :: 'a word))"
  by (simp add: swap_bytes_def to_from_memory assms)

section \<open>Bytes of a size\<close>

lemma four_bytes:
  fixes n :: nat
  shows "n div 2 ^ 24 * 2 ^ 24 + n div 2 ^ 16 mod 256 * 2 ^ 16 + n div 2 ^ 8 mod 256 * 2 ^ 8 + n mod 256 = n"
proof -
  define a b c where "a = n div 256" and "b = a div 256" and "c = b div 256"
  have abc: "n div 2 ^ 8 = a" "n div 2 ^ 16 = b" "n div 2 ^ 24 = c"
    by (simp_all add: a_def b_def c_def flip: div_mult2_eq)
  have powers: "(2 :: nat) ^ 8 = 256" "(2 :: nat) ^ 16 = 65536" "(2 :: nat) ^ 24 = 16777216" by simp_all
  have "n = 256 * a + n mod 256" "a = 256 * b + a mod 256" "b = 256 * c + b mod 256"
    by (simp_all add: a_def b_def c_def)
  then show ?thesis unfolding abc unfolding powers by linarith
qed

end
