(* ===== verification/Packet.thy ===== *)
theory Packet
  imports Interfaces Bytes
begin

text \<open>
  The binary packets of \<^verbatim>\<open>src/utils/packet.h\<close>: writer and reader over a block of bytes, the length and
  operation header of \<^verbatim>\<open>Packet\<close>, and the packet classes derived from it. Signed values are the words
  of their two's complement. \<open>alloc\<close> stands for \<^verbatim>\<open>malloc\<close>: which sizes can be allocated, and the unspecified
  bytes of a fresh block. A failed assertion, an access outside the block and a byte that is no \<^verbatim>\<open>bool\<close>
  are values of \<open>packet_error\<close>.
\<close>

section \<open>Byte order\<close>

text \<open>The host is little endian; \<^verbatim>\<open>htonl\<close>, \<^verbatim>\<open>htobe32\<close> and their relatives reverse the bytes.\<close>

definition htonl :: "uint32_t \<Rightarrow> uint32_t" where "htonl = swap_bytes"
definition ntohl :: "uint32_t \<Rightarrow> uint32_t" where "ntohl = swap_bytes"

definition hl64ton :: "uint64_t \<Rightarrow> uint64_t" where
  "hl64ton host =
     (let low = htonl (ucast (host AND 0xFFFFFFFF));
          high = htonl (ucast (drop_bit 32 host AND 0xFFFFFFFF));
          ret = push_bit 32 (ucast low :: uint64_t)
      in ret OR ucast high)"

definition ntohl64 :: "uint64_t \<Rightarrow> uint64_t" where
  "ntohl64 host =
     (let low = ntohl (ucast (host AND 0xFFFFFFFF));
          high = ntohl (ucast (drop_bit 32 host AND 0xFFFFFFFF));
          ret = push_bit 32 (ucast low :: uint64_t)
      in ret OR ucast high)"

definition hostToNetwork64 :: "uint64_t \<Rightarrow> bool \<Rightarrow> uint64_t" where
  "hostToNetwork64 host64 convert = (if convert then swap_bytes host64 else host64)"
definition hostToNetwork32 :: "uint32_t \<Rightarrow> bool \<Rightarrow> uint32_t" where
  "hostToNetwork32 host32 convert = (if convert then swap_bytes host32 else host32)"
definition hostToNetwork16 :: "uint16_t \<Rightarrow> bool \<Rightarrow> uint16_t" where
  "hostToNetwork16 host16 convert = (if convert then swap_bytes host16 else host16)"
definition networkToHost64 :: "uint64_t \<Rightarrow> bool \<Rightarrow> uint64_t" where
  "networkToHost64 net64 convert = (if convert then swap_bytes net64 else net64)"
definition networkToHost32 :: "uint32_t \<Rightarrow> bool \<Rightarrow> uint32_t" where
  "networkToHost32 net32 convert = (if convert then swap_bytes net32 else net32)"
definition networkToHost16 :: "uint16_t \<Rightarrow> bool \<Rightarrow> uint16_t" where
  "networkToHost16 net16 convert = (if convert then swap_bytes net16 else net16)"

section \<open>The writer\<close>

datatype packet_error = AssertFails | OutOfBounds | NotABool

type_synonym alloc = "(nat \<Rightarrow> bool) \<times> (nat \<Rightarrow> uint8_t)"

definition alloc_block :: "alloc \<Rightarrow> nat \<Rightarrow> uint8_t list option" where
  "alloc_block a n = (if fst a n then Some (map (snd a) [0..<n]) else None)"

text \<open>\<open>mMallocBuffer\<close> says whether the block in use was allocated by the writer.\<close>

record packet_writer =
  mBigEndian :: bool
  mPos :: size_t
  mMaxLen :: size_t
  mBuffer :: "uint8_t list"
  mIsAutoMalloc :: bool
  mMallocBuffer :: bool

definition BasePacketWriter :: "uint8_t list \<Rightarrow> size_t \<Rightarrow> bool \<Rightarrow> bool \<Rightarrow> packet_writer" where
  "BasePacketWriter buffer len useBigEndian isAutoMalloc =
     \<lparr>mBigEndian = useBigEndian, mPos = 0, mMaxLen = len, mBuffer = buffer,
      mIsAutoMalloc = isAutoMalloc, mMallocBuffer = False\<rparr>"

definition writer_init :: "'a packet_writer_scheme \<Rightarrow> 'a packet_writer_scheme" where
  "writer_init w = w\<lparr>mPos := 0\<rparr>"

definition growBuffer :: "alloc \<Rightarrow> size_t \<Rightarrow> 'a packet_writer_scheme \<Rightarrow> packet_error + 'a packet_writer_scheme" where
  "growBuffer a len w =
     (if mIsAutoMalloc w \<and> mPos w + len > mMaxLen w then
        (case alloc_block a (unat (mMaxLen w + len)) of
           None \<Rightarrow> Inr w
         | Some newBuffer \<Rightarrow>
             (case mem_read 0 (unat (mPos w)) (mBuffer w) of
                None \<Rightarrow> Inl OutOfBounds
              | Some old \<Rightarrow>
                  (case mem_write 0 old newBuffer of
                     None \<Rightarrow> Inl OutOfBounds
                   | Some d \<Rightarrow> Inr (w\<lparr>mMaxLen := mMaxLen w + len, mBuffer := d, mMallocBuffer := True\<rparr>))))
      else Inr w)"

definition writeBuffer ::
  "alloc \<Rightarrow> uint8_t list \<Rightarrow> 'a packet_writer_scheme \<Rightarrow> packet_error + 'a packet_writer_scheme" where
  "writeBuffer a data w0 =
     (let len = of_nat (length data) in
      case growBuffer a len w0 of
        Inl e \<Rightarrow> Inl e
      | Inr w \<Rightarrow>
          if mPos w + len \<le> mMaxLen w then
            (case mem_write (unat (mPos w)) data (mBuffer w) of
               None \<Rightarrow> Inl OutOfBounds
             | Some d \<Rightarrow> Inr (w\<lparr>mPos := mPos w + len, mBuffer := d\<rparr>))
          else Inl AssertFails)"

definition writeBool :: "alloc \<Rightarrow> bool \<Rightarrow> 'a packet_writer_scheme \<Rightarrow> packet_error + 'a packet_writer_scheme" where
  "writeBool a v w = writeBuffer a [if v then 1 else 0] w"
definition writeINT8 :: "alloc \<Rightarrow> 8 word \<Rightarrow> 'a packet_writer_scheme \<Rightarrow> packet_error + 'a packet_writer_scheme" where
  "writeINT8 a v w = writeBuffer a (to_memory v) w"
definition writeUINT8 :: "alloc \<Rightarrow> uint8_t \<Rightarrow> 'a packet_writer_scheme \<Rightarrow> packet_error + 'a packet_writer_scheme" where
  "writeUINT8 a v w = writeBuffer a (to_memory v) w"
definition writeINT16 :: "alloc \<Rightarrow> 16 word \<Rightarrow> 'a packet_writer_scheme \<Rightarrow> packet_error + 'a packet_writer_scheme" where
  "writeINT16 a v w = writeBuffer a (to_memory (hostToNetwork16 v (mBigEndian w))) w"
definition writeUINT16 :: "alloc \<Rightarrow> uint16_t \<Rightarrow> 'a packet_writer_scheme \<Rightarrow> packet_error + 'a packet_writer_scheme" where
  "writeUINT16 a v w = writeBuffer a (to_memory (hostToNetwork16 v (mBigEndian w))) w"
definition writeINT32 :: "alloc \<Rightarrow> 32 word \<Rightarrow> 'a packet_writer_scheme \<Rightarrow> packet_error + 'a packet_writer_scheme" where
  "writeINT32 a v w = writeBuffer a (to_memory (hostToNetwork32 v (mBigEndian w))) w"
definition writeUINT32 :: "alloc \<Rightarrow> uint32_t \<Rightarrow> 'a packet_writer_scheme \<Rightarrow> packet_error + 'a packet_writer_scheme" where
  "writeUINT32 a v w = writeBuffer a (to_memory (hostToNetwork32 v (mBigEndian w))) w"
definition writeINT64 :: "alloc \<Rightarrow> 64 word \<Rightarrow> 'a packet_writer_scheme \<Rightarrow> packet_error + 'a packet_writer_scheme" where
  "writeINT64 a v w = writeBuffer a (to_memory (hostToNetwork64 v (mBigEndian w))) w"
definition writeUINT64 :: "alloc \<Rightarrow> uint64_t \<Rightarrow> 'a packet_writer_scheme \<Rightarrow> packet_error + 'a packet_writer_scheme" where
  "writeUINT64 a v w = writeBuffer a (to_memory (hostToNetwork64 v (mBigEndian w))) w"
definition base_writeBinary ::
  "alloc \<Rightarrow> uint8_t list \<Rightarrow> 'a packet_writer_scheme \<Rightarrow> packet_error + 'a packet_writer_scheme" where
  "base_writeBinary a binary w = writeBuffer a binary w"

text \<open>The values the overloads of \<^verbatim>\<open>operator <<\<close> take; \<open>FPod\<close> is the memory of an object of a plain class type.\<close>

datatype packet_value =
  FBool bool | FUINT8 uint8_t | FINT8 "8 word" | FINT16 "16 word" | FUINT16 uint16_t
| FINT32 "32 word" | FUINT32 uint32_t | FINT64 "64 word" | FUINT64 uint64_t
| FString "uint8_t list" | FPod "uint8_t list"

fun insert_value ::
  "alloc \<Rightarrow> packet_value \<Rightarrow> 'a packet_writer_scheme \<Rightarrow> packet_error + 'a packet_writer_scheme" where
  "insert_value a (FBool v) w = writeBool a v w"
| "insert_value a (FUINT8 v) w = writeUINT8 a v w"
| "insert_value a (FINT8 v) w = writeINT8 a v w"
| "insert_value a (FINT16 v) w = writeINT16 a v w"
| "insert_value a (FUINT16 v) w = writeUINT16 a v w"
| "insert_value a (FINT32 v) w = writeINT32 a v w"
| "insert_value a (FUINT32 v) w = writeUINT32 a v w"
| "insert_value a (FINT64 v) w = writeINT64 a v w"
| "insert_value a (FUINT64 v) w = writeUINT64 a v w"
| "insert_value a (FString v) w = base_writeBinary a v w"
| "insert_value a (FPod v) w = writeBuffer a v w"

fun writev ::
  "alloc \<Rightarrow> packet_value list \<Rightarrow> 'a packet_writer_scheme \<Rightarrow> packet_error + 'a packet_writer_scheme" where
  "writev a [] w = Inr w"
| "writev a (v # vs) w = (case insert_value a v w of Inl e \<Rightarrow> Inl e | Inr w' \<Rightarrow> writev a vs w')"

section \<open>Packets with a header\<close>

record packet = packet_writer +
  mIsFinish :: bool

definition PACKET_HEAD_LEN :: uint32_t where
  "PACKET_HEAD_LEN = 4 + 2"

definition Packet_new :: "uint8_t list \<Rightarrow> size_t \<Rightarrow> bool \<Rightarrow> bool \<Rightarrow> packet" where
  "Packet_new buffer len useBigEndian isAutoMalloc =
     packet_writer.extend (BasePacketWriter buffer len useBigEndian isAutoMalloc) \<lparr>mIsFinish = False\<rparr>"

definition packet_init :: "packet \<Rightarrow> packet" where
  "packet_init p = (writer_init p)\<lparr>mIsFinish := False\<rparr>"

definition setOP :: "alloc \<Rightarrow> uint16_t \<Rightarrow> packet \<Rightarrow> packet_error + packet" where
  "setOP a op p =
     (if mPos p = 0 then
        (case insert_value a (FUINT32 PACKET_HEAD_LEN) p of
           Inl e \<Rightarrow> Inl e
         | Inr p' \<Rightarrow> insert_value a (FUINT16 op) p')
      else Inl AssertFails)"

definition writeBinary :: "alloc \<Rightarrow> uint8_t list \<Rightarrow> packet \<Rightarrow> packet_error + packet" where
  "writeBinary a binary p =
     (case writeUINT32 a (of_nat (length binary)) p of
        Inl e \<Rightarrow> Inl e
      | Inr p' \<Rightarrow> writeBuffer a binary p')"

text \<open>The result is the offset of the claimed bytes in the block.\<close>

definition claimBinary :: "alloc \<Rightarrow> size_t \<Rightarrow> packet \<Rightarrow> packet_error + (size_t \<times> packet)" where
  "claimBinary a binaryLen p0 =
     (case growBuffer a (binaryLen + 4) p0 of
        Inl e \<Rightarrow> Inl e
      | Inr p \<Rightarrow>
          if mPos p + binaryLen + 4 \<le> mMaxLen p then
            (case writeUINT32 a (ucast binaryLen) p of
               Inl e \<Rightarrow> Inl e
             | Inr p' \<Rightarrow> Inr (mPos p', p'\<lparr>mPos := mPos p' + binaryLen\<rparr>))
          else Inl AssertFails)"

definition packet_end :: "packet \<Rightarrow> packet_error + packet" where
  "packet_end p =
     (if \<not> mIsFinish p then
        if (4 :: size_t) \<le> mMaxLen p then
          (case mem_write 0 (to_memory (hostToNetwork32 (ucast (mPos p)) True)) (mBuffer p) of
             None \<Rightarrow> Inl OutOfBounds
           | Some d \<Rightarrow> Inr (p\<lparr>mBuffer := d, mIsFinish := True\<rparr>))
        else Inl AssertFails
      else Inr p)"

definition getLen :: "packet \<Rightarrow> packet_error + (size_t \<times> packet)" where
  "getLen p = (case packet_end p of Inl e \<Rightarrow> Inl e | Inr p' \<Rightarrow> Inr (mPos p', p'))"

definition SendPacket ::
  "alloc \<Rightarrow> uint16_t \<Rightarrow> uint8_t list \<Rightarrow> size_t \<Rightarrow> bool \<Rightarrow> bool \<Rightarrow> packet_error + packet" where
  "SendPacket a op buffer len useBigEndian isAutoMalloc =
     setOP a op (Packet_new buffer len useBigEndian isAutoMalloc)"

text \<open>\<open>mData\<close> is the uninitialised member array of \<open>SIZE\<close> bytes.\<close>

definition FixedPacket :: "alloc \<Rightarrow> uint16_t \<Rightarrow> uint8_t list \<Rightarrow> packet_error + packet" where
  "FixedPacket a op mData = SendPacket a op mData (of_nat (length mData)) True False"

definition AutoMallocPacket :: "alloc \<Rightarrow> uint16_t \<Rightarrow> uint8_t list \<Rightarrow> packet_error + packet" where
  "AutoMallocPacket a op mData = SendPacket a op mData (of_nat (length mData)) True False"

section \<open>The reader\<close>

record packet_reader =
  rMaxLen :: size_t
  rBigEndian :: bool
  rPos :: size_t
  rBuffer :: "uint8_t list"

definition BasePacketReader :: "uint8_t list \<Rightarrow> size_t \<Rightarrow> bool \<Rightarrow> packet_reader" where
  "BasePacketReader buffer len useBigEndian =
     \<lparr>rMaxLen = len, rBigEndian = useBigEndian, rPos = 0, rBuffer = buffer\<rparr>"

definition skipAll :: "packet_reader \<Rightarrow> packet_reader" where
  "skipAll r = r\<lparr>rPos := rMaxLen r\<rparr>"

definition addPos :: "int \<Rightarrow> packet_reader \<Rightarrow> packet_reader" where
  "addPos value r =
     (let tmp = rPos r + of_int value in if 0 \<le> tmp \<and> tmp \<le> rMaxLen r then r\<lparr>rPos := tmp\<rparr> else r)"

text \<open>The destructor asserts that the whole packet was read.\<close>

definition reader_done :: "packet_reader \<Rightarrow> bool" where
  "reader_done r \<longleftrightarrow> rPos r = rMaxLen r"

text \<open>\<^verbatim>\<open>read<T>\<close> for an object of \<open>k\<close> bytes.\<close>

definition read_object :: "nat \<Rightarrow> packet_reader \<Rightarrow> packet_error + (uint8_t list \<times> packet_reader)" where
  "read_object k r =
     (if rPos r + of_nat k \<le> rMaxLen r then
        (case mem_read (unat (rPos r)) k (rBuffer r) of
           None \<Rightarrow> Inl OutOfBounds
         | Some bs \<Rightarrow> Inr (bs, r\<lparr>rPos := rPos r + of_nat k\<rparr>))
      else Inl AssertFails)"

definition readBool :: "packet_reader \<Rightarrow> packet_error + (bool \<times> packet_reader)" where
  "readBool r =
     (case read_object 1 r of
        Inl e \<Rightarrow> Inl e
      | Inr (bs, r') \<Rightarrow> if le_value bs \<le> 1 then Inr (le_value bs = 1, r') else Inl NotABool)"
definition readINT8 :: "packet_reader \<Rightarrow> packet_error + (8 word \<times> packet_reader)" where
  "readINT8 r = (case read_object 1 r of Inl e \<Rightarrow> Inl e | Inr (bs, r') \<Rightarrow> Inr (from_memory bs, r'))"
definition readUINT8 :: "packet_reader \<Rightarrow> packet_error + (uint8_t \<times> packet_reader)" where
  "readUINT8 r = (case read_object 1 r of Inl e \<Rightarrow> Inl e | Inr (bs, r') \<Rightarrow> Inr (from_memory bs, r'))"
definition readINT16 :: "packet_reader \<Rightarrow> packet_error + (16 word \<times> packet_reader)" where
  "readINT16 r = (case read_object 2 r of Inl e \<Rightarrow> Inl e
     | Inr (bs, r') \<Rightarrow> Inr (networkToHost16 (from_memory bs) (rBigEndian r), r'))"
definition readUINT16 :: "packet_reader \<Rightarrow> packet_error + (uint16_t \<times> packet_reader)" where
  "readUINT16 r = (case read_object 2 r of Inl e \<Rightarrow> Inl e
     | Inr (bs, r') \<Rightarrow> Inr (networkToHost16 (from_memory bs) (rBigEndian r), r'))"
definition readINT32 :: "packet_reader \<Rightarrow> packet_error + (32 word \<times> packet_reader)" where
  "readINT32 r = (case read_object 4 r of Inl e \<Rightarrow> Inl e
     | Inr (bs, r') \<Rightarrow> Inr (networkToHost32 (from_memory bs) (rBigEndian r), r'))"
definition readUINT32 :: "packet_reader \<Rightarrow> packet_error + (uint32_t \<times> packet_reader)" where
  "readUINT32 r = (case read_object 4 r of Inl e \<Rightarrow> Inl e
     | Inr (bs, r') \<Rightarrow> Inr (networkToHost32 (from_memory bs) (rBigEndian r), r'))"
definition readINT64 :: "packet_reader \<Rightarrow> packet_error + (64 word \<times> packet_reader)" where
  "readINT64 r = (case read_object 8 r of Inl e \<Rightarrow> Inl e
     | Inr (bs, r') \<Rightarrow> Inr (networkToHost64 (from_memory bs) (rBigEndian r), r'))"
definition readUINT64 :: "packet_reader \<Rightarrow> packet_error + (uint64_t \<times> packet_reader)" where
  "readUINT64 r = (case read_object 8 r of Inl e \<Rightarrow> Inl e
     | Inr (bs, r') \<Rightarrow> Inr (networkToHost64 (from_memory bs) (rBigEndian r), r'))"

definition readPacketLen :: "packet_reader \<Rightarrow> packet_error + (uint32_t \<times> packet_reader)" where
  "readPacketLen r = readUINT32 r"

definition readOP :: "packet_reader \<Rightarrow> packet_error + (uint16_t \<times> packet_reader)" where
  "readOP r = readUINT16 r"

definition readBinary :: "packet_reader \<Rightarrow> packet_error + (uint8_t list \<times> packet_reader)" where
  "readBinary r0 =
     (case readUINT32 r0 of
        Inl e \<Rightarrow> Inl e
      | Inr (n, r) \<Rightarrow>
          let len = ucast n :: size_t in
          if rPos r + len \<le> rMaxLen r then
            (case mem_read (unat (rPos r)) (unat len) (rBuffer r) of
               None \<Rightarrow> Inl OutOfBounds
             | Some bs \<Rightarrow> Inr (bs, r\<lparr>rPos := rPos r + len\<rparr>))
          else Inr ([], r))"

text \<open>The overload without a copy: the result, the offset of the bytes, and the length read.\<close>

definition readBinary_ref :: "packet_reader \<Rightarrow> packet_error + (bool \<times> size_t \<times> size_t \<times> packet_reader)" where
  "readBinary_ref r0 =
     (case readUINT32 r0 of
        Inl e \<Rightarrow> Inl e
      | Inr (n, r) \<Rightarrow>
          let len = ucast n :: size_t in
          if rPos r + len \<le> rMaxLen r \<and> len > 0 then Inr (True, rPos r, len, r\<lparr>rPos := rPos r + len\<rparr>)
          else Inr (False, 0, len, r))"

end
