(* ===== verification/Packet_Props.thy ===== *)
theory Packet_Props
  imports Packet
begin

text \<open>
  What the packets promise: a writer appends exactly the encoding of each value, a packet that is written,
  closed and read back gives its values, a reader stays inside any input, and where the code departs from
  its intent.
\<close>

section \<open>The writer appends\<close>

definition writer_wf :: "'a packet_writer_scheme \<Rightarrow> bool" where
  "writer_wf w \<longleftrightarrow> mPos w \<le> mMaxLen w \<and> unat (mMaxLen w) \<le> length (mBuffer w)"

definition written :: "'a packet_writer_scheme \<Rightarrow> uint8_t list" where
  "written w = take (unat (mPos w)) (mBuffer w)"

definition writer_inv :: "bool \<Rightarrow> 'a \<Rightarrow> 'a packet_writer_scheme \<Rightarrow> bool" where
  "writer_inv big m w \<longleftrightarrow> writer_wf w \<and> mBigEndian w = big \<and> packet_writer.more w = m"

definition writer_fits :: "alloc \<Rightarrow> 'a packet_writer_scheme \<Rightarrow> nat \<Rightarrow> bool" where
  "writer_fits a w n \<longleftrightarrow> unat (mMaxLen w) + n < 2 ^ 64 \<and>
     (unat (mPos w) + n \<le> unat (mMaxLen w) \<or>
      mIsAutoMalloc w \<and> (\<forall>k. unat (mMaxLen w) \<le> k \<and> k \<le> unat (mMaxLen w) + n \<longrightarrow> fst a k))"

definition writer_put :: "alloc \<Rightarrow> 'a packet_writer_scheme \<Rightarrow> uint8_t list \<Rightarrow> 'a packet_writer_scheme option" where
  "writer_put a w d = (case writeBuffer a d w of Inl _ \<Rightarrow> None | Inr w' \<Rightarrow> Some w')"

lemma written_length: "writer_wf w \<Longrightarrow> length (written w) = unat (mPos w)"
  by (simp add: writer_wf_def written_def unat_le_iff)

lemma growBuffer_law:
  assumes "writer_inv big m w" "writer_fits a w (k + n)"
  shows "\<exists>w'. growBuffer a (of_nat k) w = Inr w' \<and> writer_inv big m w' \<and> written w' = written w \<and>
    mPos w' = mPos w \<and> unat (mPos w) + k \<le> unat (mMaxLen w') \<and>
    unat (mMaxLen w') + n < 2 ^ 64 \<and> mIsAutoMalloc w' = mIsAutoMalloc w \<and>
    (unat (mPos w) + k + n \<le> unat (mMaxLen w') \<or>
     mIsAutoMalloc w \<and> (\<forall>j. unat (mMaxLen w') \<le> j \<and> j \<le> unat (mMaxLen w') + n \<longrightarrow> fst a j))"
proof -
  have wf: "unat (mPos w) \<le> unat (mMaxLen w)" "unat (mMaxLen w) \<le> length (mBuffer w)"
    using assms(1) by (simp_all add: writer_inv_def writer_wf_def unat_le_iff)
  have total: "unat (mMaxLen w) + (k + n) < 2 ^ 64" using assms(2) by (simp add: writer_fits_def)
  have k: "unat (of_nat k :: size_t) = k" using total by (simp add: unat_of_nat_small)
  have sums: "unat (mPos w + of_nat k) = unat (mPos w) + k" "unat (mMaxLen w + of_nat k) = unat (mMaxLen w) + k"
    using total wf(1) by (simp_all add: unat_add_le k)
  show ?thesis
  proof (cases "mIsAutoMalloc w \<and> mPos w + of_nat k > mMaxLen w")
    case True
    then have big: "unat (mMaxLen w) < unat (mPos w) + k" by (simp add: unat_less_iff sums)
    then have "fst a (unat (mMaxLen w) + k)" using assms(2) by (auto simp: writer_fits_def)
    define blk where "blk = map (snd a) [0..<unat (mMaxLen w) + k]"
    define d where "d = written w @ drop (unat (mPos w)) blk"
    define w' where "w' = w\<lparr>mMaxLen := mMaxLen w + of_nat k, mBuffer := d, mMallocBuffer := True\<rparr>"
    have len: "length (written w) = unat (mPos w)" using wf by (simp add: written_def)
    have "mem_read 0 (unat (mPos w)) (mBuffer w) = Some (written w)" using wf by (simp add: mem_read_def written_def)
    moreover have "mem_write 0 (written w) blk = Some d"
      using wf(1) len by (simp add: mem_write_def d_def blk_def)
    ultimately have "growBuffer a (of_nat k) w = Inr w'"
      using True \<open>fst a (unat (mMaxLen w) + k)\<close> by (simp add: growBuffer_def alloc_block_def sums blk_def w'_def)
    moreover have "written w' = written w" using len unfolding written_def [of w'] by (simp add: w'_def d_def)
    moreover have "writer_inv big m w'"
      using assms(1) len wf sums by (simp add: writer_inv_def writer_wf_def w'_def d_def blk_def unat_le_iff)
    ultimately show ?thesis
      using True big assms(2) wf sums by (auto simp: writer_fits_def w'_def)
  next
    case False
    then have "growBuffer a (of_nat k) w = Inr w" by (auto simp: growBuffer_def)
    moreover have "unat (mPos w) + k \<le> unat (mMaxLen w)"
      using False assms(2) by (auto simp: writer_fits_def unat_less_iff sums not_less)
    ultimately show ?thesis using assms by (auto simp: writer_fits_def)
  qed
qed

interpretation pk: byte_sink "writer_inv big m" written "writer_fits a" "writer_put a"
proof unfold_locales
  fix w :: "'a packet_writer_scheme" and d :: "uint8_t list" and n
  assume inv: "writer_inv big m w" and fits: "writer_fits a w (length d + n)"
  obtain w1 where w1: "growBuffer a (of_nat (length d)) w = Inr w1" "writer_inv big m w1" "written w1 = written w"
    "mPos w1 = mPos w" "unat (mPos w) + length d \<le> unat (mMaxLen w1)" "unat (mMaxLen w1) + n < 2 ^ 64"
    "mIsAutoMalloc w1 = mIsAutoMalloc w"
    "unat (mPos w) + length d + n \<le> unat (mMaxLen w1) \<or>
     mIsAutoMalloc w \<and> (\<forall>j. unat (mMaxLen w1) \<le> j \<and> j \<le> unat (mMaxLen w1) + n \<longrightarrow> fst a j)"
    using growBuffer_law [OF inv fits] by (elim exE conjE) (rule that)
  have buf: "unat (mMaxLen w1) \<le> length (mBuffer w1)" using w1(2) by (simp add: writer_inv_def writer_wf_def)
  have k: "unat (of_nat (length d) :: size_t) = length d"
    using w1(5) unat_lt_size [of "mMaxLen w1"] by (intro unat_of_nat_small) simp
  then have sum: "unat (mPos w1 + of_nat (length d)) = unat (mPos w1) + length d"
    using w1(4,5) unat_lt_size [of "mMaxLen w1"] by (simp add: unat_add_le)
  define d' where "d' = take (unat (mPos w1)) (mBuffer w1) @ d @ drop (unat (mPos w1) + length d) (mBuffer w1)"
  define w' where "w' = w1\<lparr>mPos := mPos w1 + of_nat (length d), mBuffer := d'\<rparr>"
  have put: "writer_put a w d = Some w'"
    using w1 sum buf by (simp add: writer_put_def writeBuffer_def Let_def mem_write_def unat_le_iff w'_def d'_def)
  moreover have "written w' = written w @ d"
  proof -
    have "d' = written w1 @ d @ drop (unat (mPos w1) + length d) (mBuffer w1)" by (simp add: d'_def written_def)
    moreover have "length (written w1) = unat (mPos w1)" using w1(2) by (intro written_length) (simp add: writer_inv_def)
    ultimately show ?thesis using w1(3) sum unfolding written_def [of w'] by (simp add: w'_def)
  qed
  moreover have "writer_inv big m w'"
    using w1(2,4,5) buf sum by (simp add: writer_inv_def writer_wf_def w'_def d'_def unat_le_iff)
  moreover have "writer_fits a w' n" using w1(4,6-8) sum by (auto simp: writer_fits_def w'_def)
  ultimately show "\<exists>w'. writer_put a w d = Some w' \<and> writer_inv big m w' \<and> written w' = written w @ d \<and> writer_fits a w' n"
    by blast
qed

text \<open>The bytes of a value, and insertion as a put of them.\<close>

fun encode_value :: "bool \<Rightarrow> packet_value \<Rightarrow> uint8_t list" where
  "encode_value b (FBool v) = [if v then 1 else 0]"
| "encode_value b (FUINT8 v) = to_memory v"
| "encode_value b (FINT8 v) = to_memory v"
| "encode_value b (FINT16 v) = to_memory (hostToNetwork16 v b)"
| "encode_value b (FUINT16 v) = to_memory (hostToNetwork16 v b)"
| "encode_value b (FINT32 v) = to_memory (hostToNetwork32 v b)"
| "encode_value b (FUINT32 v) = to_memory (hostToNetwork32 v b)"
| "encode_value b (FINT64 v) = to_memory (hostToNetwork64 v b)"
| "encode_value b (FUINT64 v) = to_memory (hostToNetwork64 v b)"
| "encode_value b (FString v) = v"
| "encode_value b (FPod v) = v"

lemma insert_value_eq: "insert_value a v w = writeBuffer a (encode_value (mBigEndian w) v) w"
  by (cases v) (simp_all add: writeBool_def writeINT8_def writeUINT8_def writeINT16_def writeUINT16_def
      writeINT32_def writeUINT32_def writeINT64_def writeUINT64_def base_writeBinary_def)

lemma put_Inr: "writer_put a w d = Some w' \<longleftrightarrow> writeBuffer a d w = Inr w'"
  by (auto simp: writer_put_def split: sum.splits)

lemma writeBuffer_law:
  assumes "writer_inv big m w" "writer_fits a w (length d + n)"
  shows "\<exists>w'. writeBuffer a d w = Inr w' \<and> writer_inv big m w' \<and> written w' = written w @ d \<and> writer_fits a w' n"
  using pk.put_law [OF assms] by (simp add: put_Inr)

section \<open>The reader consumes\<close>

definition reader_wf :: "packet_reader \<Rightarrow> bool" where
  "reader_wf r \<longleftrightarrow> rPos r \<le> rMaxLen r \<and> unat (rMaxLen r) = length (rBuffer r) \<and> length (rBuffer r) < 2 ^ 63"

definition remaining :: "packet_reader \<Rightarrow> uint8_t list" where
  "remaining r = drop (unat (rPos r)) (rBuffer r)"

text \<open>\<open>r'\<close> reads the same packet as \<open>r\<close>.\<close>

definition same_packet :: "packet_reader \<Rightarrow> packet_reader \<Rightarrow> bool" where
  "same_packet r r' \<longleftrightarrow> rMaxLen r' = rMaxLen r \<and> rBigEndian r' = rBigEndian r \<and> rBuffer r' = rBuffer r"

lemma reader_sum:
  assumes "reader_wf r" "k < 2 ^ 63"
  shows "unat (rPos r + of_nat k) = unat (rPos r) + k"
proof -
  have "unat (rPos r) + k < 2 ^ 64" using assms by (simp add: reader_wf_def unat_le_iff)
  moreover have "unat (of_nat k :: size_t) = k" using assms(2) by (simp add: unat_of_nat_small)
  ultimately show ?thesis by (simp add: unat_add_le)
qed

text \<open>The test the reader makes before it moves by \<open>k\<close> bytes, and the move.\<close>

lemma reader_fits:
  assumes "reader_wf r" "k < 2 ^ 63"
  shows "rPos r + of_nat k \<le> rMaxLen r \<longleftrightarrow> k \<le> length (remaining r)"
    and "k \<le> length (remaining r) \<Longrightarrow> mem_read (unat (rPos r)) k (rBuffer r) = Some (take k (remaining r))"
    and "k \<le> length (remaining r) \<Longrightarrow> reader_wf (r\<lparr>rPos := rPos r + of_nat k\<rparr>) \<and>
      remaining (r\<lparr>rPos := rPos r + of_nat k\<rparr>) = drop k (remaining r) \<and>
      same_packet r (r\<lparr>rPos := rPos r + of_nat k\<rparr>)"
  using assms reader_sum [OF assms]
  by (auto simp: reader_wf_def unat_le_iff remaining_def mem_read_def same_packet_def add.commute)

lemma read_object_law:
  assumes "reader_wf r" "k < 2 ^ 63"
  shows "read_object k r = (if k \<le> length (remaining r)
    then Inr (take k (remaining r), r\<lparr>rPos := rPos r + of_nat k\<rparr>) else Inl AssertFails)"
  using reader_fits [OF assms] by (simp add: read_object_def)

text \<open>Reading a value of the kind of a given one.\<close>

fun read_kind :: "packet_value \<Rightarrow> packet_reader \<Rightarrow> packet_error + (packet_value \<times> packet_reader)" where
  "read_kind (FBool _) r = map_sum id (map_prod FBool id) (readBool r)"
| "read_kind (FUINT8 _) r = map_sum id (map_prod FUINT8 id) (readUINT8 r)"
| "read_kind (FINT8 _) r = map_sum id (map_prod FINT8 id) (readINT8 r)"
| "read_kind (FINT16 _) r = map_sum id (map_prod FINT16 id) (readINT16 r)"
| "read_kind (FUINT16 _) r = map_sum id (map_prod FUINT16 id) (readUINT16 r)"
| "read_kind (FINT32 _) r = map_sum id (map_prod FINT32 id) (readINT32 r)"
| "read_kind (FUINT32 _) r = map_sum id (map_prod FUINT32 id) (readUINT32 r)"
| "read_kind (FINT64 _) r = map_sum id (map_prod FINT64 id) (readINT64 r)"
| "read_kind (FUINT64 _) r = map_sum id (map_prod FUINT64 id) (readUINT64 r)"
| "read_kind (FString _) r = map_sum id (map_prod FString id) (readBinary r)"
| "read_kind (FPod v) r = map_sum id (map_prod FPod id) (read_object (length v) r)"

lemmas read_defs = readBool_def readUINT8_def readINT8_def readINT16_def readUINT16_def readINT32_def
  readUINT32_def readINT64_def readUINT64_def

lemmas order_defs = hostToNetwork16_def hostToNetwork32_def hostToNetwork64_def networkToHost16_def
  networkToHost32_def networkToHost64_def

lemma order_roundtrip [simp]:
  "networkToHost16 (hostToNetwork16 v b) b = v" "networkToHost32 (hostToNetwork32 u b) b = u"
  "networkToHost64 (hostToNetwork64 t b) b = t"
  by (simp_all add: order_defs swap_swap)

lemma memory_roundtrip [simp]:
  "from_memory (to_memory (x :: 8 word)) = x" "from_memory (to_memory (y :: 16 word)) = y"
  "from_memory (to_memory (z :: 32 word)) = z" "from_memory (to_memory (t :: 64 word)) = t"
  by (simp_all add: from_to_memory)

text \<open>A value that is encoded at the front of the input is read back, and exactly its bytes are consumed.\<close>

lemma read_encoded:
  assumes "reader_wf r" "remaining r = encode_value (rBigEndian r) v @ rest" "\<And>s. v \<noteq> FString s"
  shows "\<exists>r'. read_kind v r = Inr (v, r') \<and> reader_wf r' \<and> remaining r' = rest \<and> same_packet r r'"
proof -
  define k where "k = length (encode_value (rBigEndian r) v)"
  have "length (remaining r) < 2 ^ 63" using assms(1) by (auto simp: reader_wf_def remaining_def)
  then have k: "k < 2 ^ 63" "k \<le> length (remaining r)" using assms(2) by (simp_all add: k_def)
  define r' where "r' = r\<lparr>rPos := rPos r + of_nat k\<rparr>"
  have obj: "read_object k r = Inr (encode_value (rBigEndian r) v, r')"
    using read_object_law [OF assms(1) k(1)] k(2) assms(2) by (simp add: r'_def k_def)
  have "reader_wf r' \<and> remaining r' = rest \<and> same_packet r r'"
    using reader_fits(3) [OF assms(1) k] assms(2) by (simp add: r'_def k_def)
  moreover have "read_kind v r = Inr (v, r')"
    using obj assms(3) by (cases v) (auto simp: k_def read_defs)
  ultimately show ?thesis by blast
qed

section \<open>Packets\<close>

text \<open>What a client puts into a packet: a value through \<^verbatim>\<open>operator <<\<close>, or a byte string with its length.\<close>

datatype packet_item = Value packet_value | Binary "uint8_t list"

fun write_item :: "alloc \<Rightarrow> packet_item \<Rightarrow> packet \<Rightarrow> packet_error + packet" where
  "write_item a (Value v) p = insert_value a v p"
| "write_item a (Binary b) p = writeBinary a b p"

fun write_items :: "alloc \<Rightarrow> packet_item list \<Rightarrow> packet \<Rightarrow> packet_error + packet" where
  "write_items a [] p = Inr p"
| "write_items a (i # is) p = (case write_item a i p of Inl e \<Rightarrow> Inl e | Inr p' \<Rightarrow> write_items a is p')"

fun encode_item :: "bool \<Rightarrow> packet_item \<Rightarrow> uint8_t list" where
  "encode_item b (Value v) = encode_value b v"
| "encode_item b (Binary d) = encode_value b (FUINT32 (of_nat (length d))) @ d"

definition encode_items :: "bool \<Rightarrow> packet_item list \<Rightarrow> uint8_t list" where
  "encode_items b is = concat (map (encode_item b) is)"

fun item_ok :: "packet_item \<Rightarrow> bool" where
  "item_ok (Value (FString _)) = False"
| "item_ok (Value v) = True"
| "item_ok (Binary d) = (length d < 2 ^ 32)"

fun read_item :: "packet_item \<Rightarrow> packet_reader \<Rightarrow> packet_error + (packet_item \<times> packet_reader)" where
  "read_item (Value v) r = map_sum id (map_prod Value id) (read_kind v r)"
| "read_item (Binary _) r = map_sum id (map_prod Binary id) (readBinary r)"

fun read_items :: "packet_item list \<Rightarrow> packet_reader \<Rightarrow> packet_error + (packet_item list \<times> packet_reader)" where
  "read_items [] r = Inr ([], r)"
| "read_items (i # is) r =
     (case read_item i r of
        Inl e \<Rightarrow> Inl e
      | Inr (i', r') \<Rightarrow> map_sum id (map_prod (Cons i') id) (read_items is r'))"

lemma write_item_law:
  assumes "writer_inv big m p" "writer_fits a p (length (encode_item big i) + n)"
  shows "\<exists>p'. write_item a i p = Inr p' \<and> writer_inv big m p' \<and> written p' = written p @ encode_item big i \<and>
    writer_fits a p' n"
proof (cases i)
  case (Value v)
  moreover have "mBigEndian p = big" using assms(1) by (simp add: writer_inv_def)
  ultimately show ?thesis using writeBuffer_law [of big m p a] assms by (simp add: insert_value_eq)
next
  case (Binary b)
  define hd where "hd = encode_value big (FUINT32 (of_nat (length b)))"
  have fits: "writer_fits a p (length hd + (length b + n))" using assms(2) Binary by (simp add: hd_def add.assoc)
  obtain p1 where p1: "writeBuffer a hd p = Inr p1" "writer_inv big m p1" "written p1 = written p @ hd"
    "writer_fits a p1 (length b + n)" using writeBuffer_law [OF assms(1) fits] by blast
  obtain p2 where p2: "writeBuffer a b p1 = Inr p2" "writer_inv big m p2" "written p2 = written p1 @ b"
    "writer_fits a p2 n" using writeBuffer_law [OF p1(2,4)] by blast
  have "mBigEndian p = big" using assms(1) by (simp add: writer_inv_def)
  then have "write_item a i p = Inr p2" using Binary p1(1) p2(1) by (simp add: writeBinary_def writeUINT32_def hd_def)
  then show ?thesis using p1 p2 Binary by (simp add: hd_def)
qed

lemma write_items_law:
  assumes "writer_inv big m p" "writer_fits a p (length (encode_items big is) + n)"
  shows "\<exists>p'. write_items a is p = Inr p' \<and> writer_inv big m p' \<and> written p' = written p @ encode_items big is \<and>
    writer_fits a p' n"
  using assms
proof (induction "is" arbitrary: p)
  case (Cons i js)
  have fits: "writer_fits a p (length (encode_item big i) + (length (encode_items big js) + n))"
    using Cons.prems(2) by (simp add: encode_items_def add.assoc)
  obtain p1 where p1: "write_item a i p = Inr p1" "writer_inv big m p1" "written p1 = written p @ encode_item big i"
    "writer_fits a p1 (length (encode_items big js) + n)" using write_item_law [OF Cons.prems(1) fits] by blast
  then show ?case using Cons.IH [OF p1(2,4)] by (auto simp: encode_items_def)
qed (simp add: encode_items_def)

lemma readBinary_law:
  assumes "reader_wf r" "remaining r = encode_item (rBigEndian r) (Binary d) @ rest" "length d < 2 ^ 32"
  shows "\<exists>r'. readBinary r = Inr (d, r') \<and> reader_wf r' \<and> remaining r' = rest \<and> same_packet r r'"
proof -
  obtain r1 where r1: "read_kind (FUINT32 (of_nat (length d))) r = Inr (FUINT32 (of_nat (length d)), r1)" "reader_wf r1"
    "remaining r1 = d @ rest" "same_packet r r1"
    using read_encoded [OF assms(1), of "FUINT32 (of_nat (length d))" "d @ rest"] assms(2) by auto
  then have u: "readUINT32 r = Inr (of_nat (length d), r1)" by (cases "readUINT32 r") auto
  have len: "unat (ucast (of_nat (length d) :: uint32_t) :: size_t) = length d"
    "(ucast (of_nat (length d) :: uint32_t) :: size_t) = of_nat (length d)"
    using assms(3) by (simp_all add: unsigned_ucast_eq take_bit_eq_mod unat_of_nat word_unat_eq_iff)
  have k: "length d < 2 ^ 63" "length d \<le> length (remaining r1)" using assms(3) r1(3) by simp_all
  show ?thesis
    using reader_fits [OF r1(2) k(1)] k(2) u r1(3,4) len
    by (auto simp: readBinary_def Let_def same_packet_def)
qed

lemma read_items_law:
  assumes "reader_wf r" "remaining r = encode_items (rBigEndian r) is @ rest" "\<forall>i \<in> set is. item_ok i"
  shows "\<exists>r'. read_items is r = Inr (is, r') \<and> reader_wf r' \<and> remaining r' = rest \<and> same_packet r r'"
  using assms
proof (induction "is" arbitrary: r)
  case (Cons i js)
  define rest' where "rest' = encode_items (rBigEndian r) js @ rest"
  have front: "remaining r = encode_item (rBigEndian r) i @ rest'" using Cons.prems(2) by (simp add: encode_items_def rest'_def)
  obtain r1 where r1: "read_item i r = Inr (i, r1)" "reader_wf r1" "remaining r1 = rest'" "same_packet r r1"
  proof (cases i)
    case (Value v)
    then have "\<And>s. v \<noteq> FString s" using Cons.prems(3) by auto
    then show thesis using read_encoded [OF Cons.prems(1), of v rest'] front Value that by auto
  next
    case (Binary d)
    then show thesis using readBinary_law [OF Cons.prems(1), of d rest'] front Cons.prems(3) that by auto
  qed
  have "remaining r1 = encode_items (rBigEndian r1) js @ rest" using r1(3,4) by (simp add: rest'_def same_packet_def)
  then show ?case
    using Cons.IH [OF r1(2)] Cons.prems(3) r1(1,4) by (fastforce simp: same_packet_def)
qed (simp add: encode_items_def same_packet_def)

text \<open>A fresh packet with its header written.\<close>

lemma SendPacket_law:
  assumes "length buffer < 2 ^ 63" "writer_fits a (Packet_new buffer (of_nat (length buffer)) big auto) (6 + n)"
  shows "\<exists>p. SendPacket a op buffer (of_nat (length buffer)) big auto = Inr p \<and> writer_inv big \<lparr>mIsFinish = False\<rparr> p \<and>
    written p = encode_value big (FUINT32 PACKET_HEAD_LEN) @ encode_value big (FUINT16 op) \<and> writer_fits a p n"
proof -
  define p0 where "p0 = Packet_new buffer (of_nat (length buffer)) big auto"
  have len: "unat (of_nat (length buffer) :: size_t) = length buffer" using assms(1) by (simp add: unat_of_nat_small)
  have p0: "writer_inv big \<lparr>mIsFinish = False\<rparr> p0" "written p0 = []" "mPos p0 = 0" "mBigEndian p0 = big"
    using len by (simp_all add: p0_def Packet_new_def BasePacketWriter_def packet_writer.extend_def writer_inv_def
        writer_wf_def written_def)
  have fits: "writer_fits a p0 (length (encode_value big (FUINT32 PACKET_HEAD_LEN)) + (2 + n))"
    using assms(2) by (simp add: p0_def)
  obtain p1 where p1: "writeBuffer a (encode_value big (FUINT32 PACKET_HEAD_LEN)) p0 = Inr p1"
    "writer_inv big \<lparr>mIsFinish = False\<rparr> p1" "written p1 = encode_value big (FUINT32 PACKET_HEAD_LEN)"
    "writer_fits a p1 (2 + n)" using writeBuffer_law [OF p0(1) fits] p0(2) by auto
  have fits1: "writer_fits a p1 (length (encode_value big (FUINT16 op)) + n)" using p1(4) by simp
  have "mBigEndian p1 = big" using p1(2) by (simp add: writer_inv_def)
  then show ?thesis
    using writeBuffer_law [OF p1(2) fits1] p1(1,3) p0(3,4)
    by (auto simp: SendPacket_def setOP_def insert_value_eq p0_def [symmetric])
qed

text \<open>Closing a packet replaces the first four bytes by the length, always most significant byte first.\<close>

lemma getLen_law:
  assumes "writer_inv big \<lparr>mIsFinish = False\<rparr> p" "written p = h @ d" "length h = 4"
  shows "\<exists>q. getLen p = Inr (mPos p, q) \<and> mPos q = mPos p \<and>
    written q = to_memory (hostToNetwork32 (ucast (mPos p)) True) @ d"
proof -
  have wf: "writer_wf p" "mIsFinish p = False"
    using assms(1) by (cases p; simp add: writer_inv_def)+
  have pos: "unat (mPos p) = 4 + length d" using written_length [OF wf(1)] assms(2,3) by simp
  have room: "4 \<le> mMaxLen p" "4 + length d \<le> length (mBuffer p)"
    using wf(1) pos by (simp_all add: writer_wf_def unat_le_iff)
  define l where "l = to_memory (hostToNetwork32 (ucast (mPos p)) True)"
  have l: "length l = 4" by (simp add: l_def)
  define q where "q = p\<lparr>mBuffer := l @ drop 4 (mBuffer p), mIsFinish := True\<rparr>"
  have "getLen p = Inr (mPos p, q)"
    using wf(2) room l by (simp add: getLen_def packet_end_def mem_write_def l_def q_def)
  moreover have "written q = l @ d"
  proof -
    have "take (length d) (drop 4 (mBuffer p)) = drop 4 (written p)" by (simp add: written_def pos drop_take)
    also have "\<dots> = d" using assms(2,3) by simp
    finally show ?thesis using l pos by (simp add: written_def q_def)
  qed
  ultimately show ?thesis by (simp add: l_def q_def)
qed

section \<open>Reading any input\<close>

datatype reader_op = Rd_Kind packet_value | Rd_Binary | Rd_Ref | Rd_Skip | Rd_Add int

fun reader_step :: "reader_op \<Rightarrow> packet_reader \<Rightarrow> packet_error + packet_reader" where
  "reader_step (Rd_Kind v) r = map_sum id snd (read_kind v r)"
| "reader_step Rd_Binary r = map_sum id snd (readBinary r)"
| "reader_step Rd_Ref r = map_sum id (snd \<circ> snd \<circ> snd) (readBinary_ref r)"
| "reader_step Rd_Skip r = Inr (skipAll r)"
| "reader_step (Rd_Add n) r = Inr (addPos n r)"

fun reader_run :: "reader_op list \<Rightarrow> packet_reader \<Rightarrow> packet_error + packet_reader" where
  "reader_run [] r = Inr r"
| "reader_run (op # ops) r = (case reader_step op r of Inl e \<Rightarrow> Inl e | Inr r' \<Rightarrow> reader_run ops r')"

text \<open>The result of a reader operation is inside the packet.\<close>

definition stays_inside :: "packet_error + packet_reader \<Rightarrow> bool" where
  "stays_inside x \<longleftrightarrow> (case x of Inl e \<Rightarrow> e \<noteq> OutOfBounds | Inr r \<Rightarrow> reader_wf r)"

lemma stays_inside_simps [simp]: "stays_inside (Inl e) = (e \<noteq> OutOfBounds)" "stays_inside (Inr r) = reader_wf r"
  by (simp_all add: stays_inside_def)

lemma read_object_inside:
  assumes "reader_wf r" "k < 2 ^ 63"
  obtains "read_object k r = Inl AssertFails"
  | bs r' where "read_object k r = Inr (bs, r')" "reader_wf r'" "same_packet r r'" "length bs = k"
  using read_object_law [OF assms] reader_fits(3) [OF assms] by (cases "k \<le> length (remaining r)") auto

lemma readUINT32_inside:
  assumes "reader_wf r"
  obtains "readUINT32 r = Inl AssertFails" | n r' where "readUINT32 r = Inr (n, r')" "reader_wf r'"
  using assms by (rule read_object_inside [where k = 4]) (auto simp: readUINT32_def)

lemma ucast_size: "of_nat (unat n) = (ucast (n :: uint32_t) :: size_t)" "unat n < 2 ^ 63"
  "unat (ucast n :: size_t) = unat n"
proof -
  have "unat n < 2 ^ 32" using unsigned_less [of n] by simp
  then show "unat n < 2 ^ 63" "of_nat (unat n) = (ucast n :: size_t)" "unat (ucast n :: size_t) = unat n"
    by (simp_all add: unsigned_ucast_eq take_bit_eq_mod)
qed

lemmas reader_fits32 = reader_fits [OF _ ucast_size(2), unfolded ucast_size(1)]

lemma readBinary_inside: "reader_wf r \<Longrightarrow> stays_inside (map_sum id snd (readBinary r))"
proof (erule readUINT32_inside)
  fix n r'
  assume r: "readUINT32 r = Inr (n, r')" "reader_wf r'"
  show ?thesis
    using reader_fits32 [OF r(2), of n] r by (auto simp: readBinary_def Let_def ucast_size(3))
qed (simp add: readBinary_def)

lemma readBinary_ref_inside: "reader_wf r \<Longrightarrow> stays_inside (map_sum id (snd \<circ> snd \<circ> snd) (readBinary_ref r))"
proof (erule readUINT32_inside)
  fix n r'
  assume r: "readUINT32 r = Inr (n, r')" "reader_wf r'"
  show ?thesis
    using reader_fits32 [OF r(2), of n] r by (auto simp: readBinary_ref_def Let_def)
qed (simp add: readBinary_ref_def)

lemma read_kind_inside:
  assumes "reader_wf r" "\<And>d. v = FPod d \<Longrightarrow> length d < 2 ^ 63"
  shows "stays_inside (map_sum id snd (read_kind v r))"
proof -
  have word: "stays_inside (map_sum id snd (map_sum id (map_prod f id) (case read_object k r of Inl e \<Rightarrow> Inl e | Inr (bs, r') \<Rightarrow> Inr (g bs, r'))))"
    if "k < 2 ^ 63" for f :: "'a \<Rightarrow> packet_value" and g k
    using assms(1) that by (rule read_object_inside) auto
  have bool: "stays_inside (map_sum id snd (map_sum id (map_prod FBool id) (readBool r)))"
    using assms(1) by (rule read_object_inside [where k = 1]) (auto simp: readBool_def)
  have pod: "stays_inside (map_sum id snd (map_sum id (map_prod FPod id) (read_object (length d) r)))"
    if "length d < 2 ^ 63" for d using assms(1) that by (rule read_object_inside) auto
  have str: "stays_inside (map_sum id snd (map_sum id (map_prod FString id) (readBinary r)))"
    using readBinary_inside [OF assms(1)] by (cases "readBinary r") (auto simp: map_prod_def split: prod.splits)
  show ?thesis
    using assms(2) bool str pod by (cases v) (simp_all add: read_defs(2-) word)
qed

lemma reader_step_inside:
  assumes "reader_wf r" "\<And>d. op = Rd_Kind (FPod d) \<Longrightarrow> length d < 2 ^ 63"
  shows "stays_inside (reader_step op r)"
proof (cases op)
  case (Rd_Kind v)
  then show ?thesis using read_kind_inside [OF assms(1), of v] assms(2) by simp
next
  case (Rd_Add n)
  then show ?thesis using assms(1) by (simp add: addPos_def Let_def reader_wf_def)
qed (use assms(1) readBinary_inside readBinary_ref_inside in \<open>simp_all add: skipAll_def reader_wf_def\<close>)

lemma reader_run_inside:
  assumes "reader_wf r" "\<forall>op \<in> set ops. \<forall>d. op = Rd_Kind (FPod d) \<longrightarrow> length d < 2 ^ 63"
  shows "stays_inside (reader_run ops r)"
  using assms
proof (induction ops arbitrary: r)
  case (Cons op ops)
  then show ?case using reader_step_inside [of r op] by (auto split: sum.splits)
qed simp

section \<open>Byte order on Windows and on POSIX\<close>

lemma le_bytes_append: "le_bytes (j + k) n = le_bytes j n @ le_bytes k (n div 256 ^ j)"
  by (induction j arbitrary: n) (simp_all add: div_mult2_eq)

lemma le_value_append: "le_value (xs @ ys) = le_value xs + 256 ^ length xs * le_value ys"
  by (induction xs) (simp_all add: algebra_simps)

lemma ucast_of_nat32: "n < 2 ^ 32 \<Longrightarrow> ucast (of_nat n :: uint32_t) = (of_nat n :: uint64_t)"
  by (simp add: word_unat_eq_iff unsigned_ucast_eq take_bit_eq_mod unat_of_nat)

lemma swap_halves:
  "swap_bytes (h :: uint64_t) =
     push_bit 32 (ucast (swap_bytes (ucast h :: uint32_t)) :: uint64_t) OR
     ucast (swap_bytes (ucast (drop_bit 32 h) :: uint32_t))"
proof -
  define lo hi where "lo = le_bytes 4 (unat h)" and "hi = le_bytes 4 (unat h div 2 ^ 32)"
  have bytes: "to_memory h = lo @ hi" using le_bytes_append [of 4 4 "unat h"] by (simp add: to_memory_def lo_def hi_def)
  have lo: "to_memory (ucast h :: uint32_t) = lo"
    using le_bytes_mod [of 4 "unat h"] by (simp add: to_memory_def lo_def unsigned_ucast_eq take_bit_eq_mod)
  have "unat (drop_bit 32 h) = unat h div 2 ^ 32" by (subst unat_drop_bit_eq) (simp add: drop_bit_eq_div)
  then have hi: "to_memory (ucast (drop_bit 32 h) :: uint32_t) = hi"
    using le_bytes_mod [of 4 "unat h div 2 ^ 32"]
    by (simp add: to_memory_def hi_def unsigned_ucast_eq take_bit_eq_mod)
  define x y where "x = le_value (rev lo)" and "y = le_value (rev hi)"
  have xy: "x < 2 ^ 32" "y < 2 ^ 32"
    using le_value_bound [of "rev lo"] le_value_bound [of "rev hi"] by (simp_all add: x_def y_def lo_def hi_def)
  have swaps: "swap_bytes (ucast h :: uint32_t) = of_nat x" "swap_bytes (ucast (drop_bit 32 h) :: uint32_t) = of_nat y"
    by (simp_all add: swap_bytes_def lo hi from_memory_def x_def y_def)
  have "swap_bytes h = of_nat (y + 2 ^ 32 * x)"
    by (simp add: swap_bytes_def bytes from_memory_def le_value_append x_def y_def hi_def)
  also have "\<dots> = push_bit 32 (of_nat x) + of_nat y" by (simp add: push_bit_eq_mult algebra_simps)
  also have "\<dots> = push_bit 32 (of_nat x) OR of_nat y"
  proof (rule disjunctive_add_eq_or)
    have "take_bit 32 y = y" using xy(2) by (simp add: take_bit_nat_eq_self)
    then have "take_bit 32 (of_nat y :: uint64_t) = of_nat y" by (metis take_bit_of_nat)
    moreover have "push_bit 32 v AND take_bit 32 u = 0" for v u :: uint64_t
      by (rule bit_word_eqI) (auto simp: bit_simps)
    ultimately show "push_bit 32 (of_nat x :: uint64_t) AND of_nat y = 0" by metis
  qed
  finally show ?thesis using xy by (simp add: swaps ucast_of_nat32)
qed

section \<open>Properties\<close>

text \<open>
  C29. A big-endian packet that is opened with its operation code, filled with any values and length-prefixed byte
  strings, and closed by \<open>getLen\<close>, is read back exactly: the length field is the number of bytes, then come
  the operation code and the values in order, and the reader ends at the end of the packet. This holds for a
  fixed block with enough room and for one that grows. In a little-endian packet the length is written and read in different
  orders (\<open>packet_length_ignores_order\<close>).
\<close>

theorem packet_roundtrip:
  assumes "\<forall>i \<in> set is. item_ok i" "length buffer < 2 ^ 63" "6 + length (encode_items True is) < 2 ^ 32"
    "writer_fits a (Packet_new buffer (of_nat (length buffer)) True auto) (6 + length (encode_items True is))"
  shows "\<exists>p0 p n q r1 r2 r3. SendPacket a op buffer (of_nat (length buffer)) True auto = Inr p0 \<and>
    write_items a is p0 = Inr p \<and> getLen p = Inr (n, q) \<and>
    readPacketLen (BasePacketReader (take (unat n) (mBuffer q)) n True) = Inr (ucast n, r1) \<and>
    readOP r1 = Inr (op, r2) \<and> read_items is r2 = Inr (is, r3) \<and> reader_done r3"
proof -
  define d where "d = encode_items True is"
  obtain p0 where p0: "SendPacket a op buffer (of_nat (length buffer)) True auto = Inr p0"
    "writer_inv True \<lparr>mIsFinish = False\<rparr> p0"
    "written p0 = encode_value True (FUINT32 PACKET_HEAD_LEN) @ encode_value True (FUINT16 op)"
    "writer_fits a p0 (length d)"
    using SendPacket_law [OF assms(2,4)] by (auto simp: d_def)
  obtain p where p: "write_items a is p0 = Inr p" "writer_inv True \<lparr>mIsFinish = False\<rparr> p"
    "written p = written p0 @ d"
    using write_items_law [OF p0(2), of a "is" 0] p0(4) by (auto simp: d_def)
  have hd: "written p = encode_value True (FUINT32 PACKET_HEAD_LEN) @ (encode_value True (FUINT16 op) @ d)"
    using p(3) p0(3) by simp
  obtain q where q: "getLen p = Inr (mPos p, q)" "mPos q = mPos p"
    "written q = encode_value True (FUINT32 (ucast (mPos p))) @ (encode_value True (FUINT16 op) @ d)"
    using getLen_law [OF p(2) hd] by auto
  have pos: "unat (mPos p) = 6 + length d" using written_length [of p] p(2) hd by (simp add: writer_inv_def)
  define r where "r = BasePacketReader (written q) (mPos p) True"
  have len: "length (written q) = 6 + length d" using q(3) by simp
  have r: "reader_wf r" "rBigEndian r = True" "remaining r = encode_value True (FUINT32 (ucast (mPos p))) @
      (encode_value True (FUINT16 op) @ d)"
    using pos len assms(3) q(3) by (simp_all add: r_def BasePacketReader_def reader_wf_def remaining_def d_def)
  obtain r1 where r1: "readUINT32 r = Inr (ucast (mPos p), r1)" "reader_wf r1"
    "remaining r1 = encode_value True (FUINT16 op) @ d" "same_packet r r1"
    using read_encoded [OF r(1), of "FUINT32 (ucast (mPos p))"] r(2,3) by (cases "readUINT32 r") auto
  obtain r2 where r2: "readUINT16 r1 = Inr (op, r2)" "reader_wf r2" "remaining r2 = d" "same_packet r1 r2"
    using read_encoded [OF r1(2), of "FUINT16 op"] r1(3,4) r(2) by (cases "readUINT16 r1") (auto simp: same_packet_def)
  obtain r3 where r3: "read_items is r2 = Inr (is, r3)" "reader_wf r3" "remaining r3 = []" "same_packet r2 r3"
    using read_items_law [OF r2(2), of "is" "[]"] r2(3,4) r1(4) r(2) assms(1) by (auto simp: same_packet_def d_def)
  have "reader_done r3"
    using r3(2,3) by (simp add: reader_done_def reader_wf_def remaining_def word_unat_eq_iff unat_le_iff)
  moreover have "readPacketLen (BasePacketReader (take (unat (mPos p)) (mBuffer q)) (mPos p) True) =
      Inr (ucast (mPos p), r1)"
    using q(2) r1(1) by (simp add: readPacketLen_def r_def written_def)
  ultimately show ?thesis using p0(1) p(1) q(1) r2(1) r3(1) unfolding readOP_def by blast
qed

text \<open>
  C31. Whatever bytes arrive and whatever sequence of operations a client runs on them, a packet reader
  reads inside the packet: it goes on, or stops at an assertion or at a byte that is no \<^verbatim>\<open>bool\<close>.
\<close>

theorem packet_reader_safe:
  assumes "length buffer < 2 ^ 63" "\<forall>op \<in> set ops. \<forall>d. op = Rd_Kind (FPod d) \<longrightarrow> length d < 2 ^ 63"
  shows "case reader_run ops (BasePacketReader buffer (of_nat (length buffer)) big) of
    Inl e \<Rightarrow> e \<noteq> OutOfBounds
  | Inr r \<Rightarrow> rPos r \<le> rMaxLen r \<and> unat (rMaxLen r) = length (rBuffer r)"
proof -
  have wf: "reader_wf (BasePacketReader buffer (of_nat (length buffer)) big)"
    using assms(1) by (simp add: reader_wf_def BasePacketReader_def unat_of_nat_small)
  show ?thesis
    using reader_run_inside [OF wf assms(2)] by (auto simp: stays_inside_def reader_wf_def split: sum.splits)
qed

text \<open>
  \<open>AutoMallocPacket\<close> hands its flag to the byte order parameter, so its block never grows: with any
  allocator it is the same packet as \<open>FixedPacket\<close>, and a write beyond its size stops at the assertion.
\<close>

theorem auto_malloc_packet_fixed:
  assumes "AutoMallocPacket a op mData = Inr p" "unat (mPos p) + length d < 2 ^ 64"
    "unat (mMaxLen p) < unat (mPos p) + length d"
  shows "writeBuffer a d p = Inl AssertFails"
proof -
  have keep: "mIsAutoMalloc w' = mIsAutoMalloc w" if "writeBuffer a b w = Inr w'" for b and w w' :: packet
    using that by (auto simp: writeBuffer_def growBuffer_def Let_def split: if_splits option.splits sum.splits)
  have "\<not> mIsAutoMalloc p"
    using assms(1) by (auto simp: AutoMallocPacket_def SendPacket_def setOP_def insert_value_eq Packet_new_def
        BasePacketWriter_def packet_writer.extend_def split: sum.splits if_splits dest!: keep)
  moreover have "unat (of_nat (length d) :: size_t) = length d" using assms(2) by (simp add: unat_of_nat_small)
  then have "\<not> mPos p + of_nat (length d) \<le> mMaxLen p" using assms(2,3) by (simp add: unat_le_iff unat_add_le)
  ultimately show ?thesis by (simp add: writeBuffer_def growBuffer_def Let_def)
qed

text \<open>
  Closing a packet writes the length most significant byte first whatever byte order the packet uses: a
  little-endian reader of a little-endian packet gets the length with its bytes reversed.
\<close>

theorem packet_length_ignores_order:
  assumes "writer_inv False \<lparr>mIsFinish = False\<rparr> p" "written p = h @ d" "length h = 4" "unat (mPos p) < 2 ^ 32"
  shows "\<exists>q r. getLen p = Inr (mPos p, q) \<and>
    readPacketLen (BasePacketReader (take (unat (mPos p)) (mBuffer q)) (mPos p) False) =
      Inr (swap_bytes (ucast (mPos p)), r)"
proof -
  obtain q where q: "getLen p = Inr (mPos p, q)" "mPos q = mPos p"
    "written q = to_memory (swap_bytes (ucast (mPos p) :: uint32_t)) @ d"
    using getLen_law [OF assms(1-3)] by (auto simp: hostToNetwork32_def)
  have pos: "unat (mPos p) = 4 + length d" using written_length [of p] assms(1-3) by (simp add: writer_inv_def)
  define r where "r = BasePacketReader (written q) (mPos p) False"
  have "length (written q) = 4 + length d" using q(3) by simp
  then have r: "reader_wf r" "remaining r = encode_value (rBigEndian r) (FUINT32 (swap_bytes (ucast (mPos p)))) @ d"
    using pos assms(4) q(3) by (simp_all add: r_def BasePacketReader_def reader_wf_def remaining_def hostToNetwork32_def)
  have "\<exists>r'. readUINT32 r = Inr (swap_bytes (ucast (mPos p)), r')"
    using read_encoded [OF r] by (cases "readUINT32 r") auto
  then show ?thesis using q(1,2) by (simp add: readPacketLen_def r_def written_def)
qed

text \<open>
  The 64-bit conversions the Windows build composes from two halves are the byte reversal the other
  builds take from \<^verbatim>\<open>endian.h\<close>.
\<close>

theorem hl64ton_reverses: "hl64ton h = hostToNetwork64 h True \<and> ntohl64 h = networkToHost64 h True"
proof -
  have mask: "ucast (v AND 0xFFFFFFFF) = (ucast v :: uint32_t)" for v :: uint64_t
  proof -
    have "(0xFFFFFFFF :: uint64_t) = mask 32" by (simp add: mask_eq_exp_minus_1)
    show ?thesis unfolding \<open>0xFFFFFFFF = mask 32\<close> by (rule bit_word_eqI) (simp add: bit_simps)
  qed
  show ?thesis
    unfolding hl64ton_def ntohl64_def hostToNetwork64_def networkToHost64_def htonl_def ntohl_def Let_def mask
    by (simp add: swap_halves [of h])
qed

section \<open>Witnesses\<close>

definition no_alloc :: alloc where "no_alloc = (\<lambda>_. False, \<lambda>_. 0)"

theorem packet_roundtrip_witness:
  "\<exists>p0 p n q r1 r2 r3. SendPacket no_alloc 7 (replicate 64 0) 64 True False = Inr p0 \<and>
    write_items no_alloc [Value (FINT32 (- 5)), Binary [1, 2, 3], Value (FBool True)] p0 = Inr p \<and>
    getLen p = Inr (n, q) \<and>
    readPacketLen (BasePacketReader (take (unat n) (mBuffer q)) n True) = Inr (ucast n, r1) \<and>
    readOP r1 = Inr (7, r2) \<and>
    read_items [Value (FINT32 (- 5)), Binary [1, 2, 3], Value (FBool True)] r2 =
      Inr ([Value (FINT32 (- 5)), Binary [1, 2, 3], Value (FBool True)], r3) \<and> reader_done r3"
proof -
  have len: "length (encode_items True [Value (FINT32 (- 5)), Binary [1, 2, 3], Value (FBool True)]) = 12"
    by (simp add: encode_items_def)
  show ?thesis
    using packet_roundtrip [of "[Value (FINT32 (- 5)), Binary [1, 2, 3], Value (FBool True)]" "replicate 64 0" no_alloc False 7]
    unfolding len by (simp add: writer_fits_def Packet_new_def BasePacketWriter_def packet_writer.extend_def)
qed

theorem packet_reader_safe_witness:
  "case reader_run [Rd_Binary, Rd_Add 3, Rd_Kind (FUINT16 0), Rd_Skip] (BasePacketReader [0, 0, 0, 1, 9, 9] 6 True) of
    Inl e \<Rightarrow> e \<noteq> OutOfBounds | Inr r \<Rightarrow> rPos r \<le> rMaxLen r \<and> unat (rMaxLen r) = length (rBuffer r)"
  using packet_reader_safe [of "[0, 0, 0, 1, 9, 9]" "[Rd_Binary, Rd_Add 3, Rd_Kind (FUINT16 0), Rd_Skip]" True]
  by simp

definition full_packet :: packet where
  "full_packet = \<lparr>mBigEndian = True, mPos = 6, mMaxLen = 8, mBuffer = [0, 0, 0, 6, 0, 1, 0, 0],
     mIsAutoMalloc = False, mMallocBuffer = False, mIsFinish = False\<rparr>"

theorem auto_malloc_packet_fixed_witness:
  "AutoMallocPacket (\<lambda>_. True, \<lambda>_. 0) 1 (replicate 8 0) = Inr full_packet \<and>
   writeBuffer (\<lambda>_. True, \<lambda>_. 0) [1, 2, 3] full_packet = Inl AssertFails"
proof -
  have new: "AutoMallocPacket (\<lambda>_. True, \<lambda>_. 0) 1 (replicate 8 0) = Inr full_packet" by code_simp
  then show ?thesis
    using auto_malloc_packet_fixed [OF new, of "[1, 2, 3]"] by (simp add: full_packet_def)
qed

definition small_packet :: packet where
  "small_packet = \<lparr>mBigEndian = False, mPos = 6, mMaxLen = 8, mBuffer = [6, 0, 0, 0, 1, 0, 0, 0],
     mIsAutoMalloc = False, mMallocBuffer = False, mIsFinish = False\<rparr>"

theorem packet_length_ignores_order_witness:
  "\<exists>q r. getLen small_packet = Inr (6, q) \<and>
    readPacketLen (BasePacketReader (take 6 (mBuffer q)) 6 False) = Inr (0x06000000, r)"
proof -
  have "writer_inv False \<lparr>mIsFinish = False\<rparr> small_packet" "written small_packet = [6, 0, 0, 0] @ [1, 0]"
    "mPos small_packet = 6"
    by (simp_all add: writer_inv_def writer_wf_def small_packet_def written_def)
  moreover have "swap_bytes (ucast (6 :: size_t) :: uint32_t) = 0x06000000" by code_simp
  ultimately show ?thesis using packet_length_ignores_order [of small_packet "[6, 0, 0, 0]" "[1, 0]"] by simp
qed

end
