(* ===== verification/Ws_Frame.thy ===== *)
theory Ws_Frame
  imports Bytes
begin

text \<open>
  WebSocket frames, \<^verbatim>\<open>src/net/http/WebSocketFormat.h\<close>: building a frame and extracting one from a
  buffer. Strings of bytes are lists of 8-bit words. The four random mask bytes are an argument. Every access
  to the input buffer is checked: outside it the result is \<open>None\<close>.
\<close>

section \<open>Building a frame\<close>

text \<open>The values of \<^verbatim>\<open>enum class WebSocketFrameType\<close>.\<close>

datatype WebSocketFrameType =
  ERROR_FRAME | CONTINUATION_FRAME | TEXT_FRAME | BINARY_FRAME | CLOSE_FRAME | PING_FRAME | PONG_FRAME

fun frame_code :: "WebSocketFrameType \<Rightarrow> uint8_t" where
  "frame_code ERROR_FRAME = 0xff"
| "frame_code CONTINUATION_FRAME = 0x00"
| "frame_code TEXT_FRAME = 0x01"
| "frame_code BINARY_FRAME = 0x02"
| "frame_code CLOSE_FRAME = 0x08"
| "frame_code PING_FRAME = 0x09"
| "frame_code PONG_FRAME = 0x0A"

definition frame_length_bytes :: "size_t \<Rightarrow> uint8_t list" where
  "frame_length_bytes payloadLen =
     (if payloadLen \<le> 125 then [ucast payloadLen]
      else if payloadLen \<le> 0xFFFF then
        [126, ucast (drop_bit 8 (payloadLen AND 0xFF00)), ucast (payloadLen AND 0x00FF)]
      else
        [127, 0x00, 0x00, 0x00, 0x00,
         ucast (drop_bit 24 (payloadLen AND 0xFF000000)),
         ucast (drop_bit 16 (payloadLen AND 0x00FF0000)),
         ucast (drop_bit 8 (payloadLen AND 0x0000FF00)),
         ucast (payloadLen AND 0x000000FF)])"

text \<open>The loop \<^verbatim>\<open>payload[i] ^ mask[i % 4]\<close>, from index \<open>i\<close>.\<close>

fun mask_from :: "nat \<Rightarrow> uint8_t list \<Rightarrow> uint8_t list \<Rightarrow> uint8_t list" where
  "mask_from i key [] = []"
| "mask_from i key (b # bs) = (b XOR key ! (i mod 4)) # mask_from (Suc i) key bs"

text \<open>\<open>masking\<close> is the list of the four mask bytes drawn from \<^verbatim>\<open>rand\<close>, or \<open>None\<close>.\<close>

definition wsFrameBuild :: "uint8_t list \<Rightarrow> WebSocketFrameType \<Rightarrow> bool \<Rightarrow> uint8_t list option \<Rightarrow> uint8_t list" where
  "wsFrameBuild payload frame_type isFin masking =
     (let head = frame_code frame_type OR (if isFin then 0x80 else 0x00);
          frame = head # frame_length_bytes (of_nat (length payload))
      in case masking of
           None \<Rightarrow> frame @ payload
         | Some key \<Rightarrow> frame[1 := frame ! 1 OR 0x80] @ key @ mask_from 0 key payload)"

section \<open>Extracting a frame\<close>

text \<open>The output parameters.\<close>

record ws_out =
  ws_payload :: "uint8_t list"
  outopcode :: uint8_t
  frameSize :: size_t
  outfin :: bool

text \<open>
  The length and the position after it. The outer \<open>None\<close> is a read outside the buffer, the inner one
  \<^verbatim>\<open>return false\<close>.
\<close>

definition buffer_at :: "uint8_t list \<Rightarrow> nat \<Rightarrow> uint8_t option" where
  "buffer_at buf i = (if i < length buf then Some (buf ! i) else None)"

definition ws_length :: "uint8_t list \<Rightarrow> uint8_t \<Rightarrow> (uint32_t \<times> uint32_t) option option" where
  "ws_length buf b1 =
     (let payloadlen = ucast (b1 AND 0x7F) :: uint32_t in
      if payloadlen = 126 then
        if length buf < 4 then Some None
        else
          (case (buffer_at buf 2, buffer_at buf 3) of
             (Some b2, Some b3) \<Rightarrow> Some (Some (push_bit 8 (ucast b2) + ucast b3, 4))
           | _ \<Rightarrow> None)
      else if payloadlen = 127 then
        if length buf < 10 then Some None
        else
          (case (mem_read 2 4 buf, buffer_at buf 6, buffer_at buf 7, buffer_at buf 8, buffer_at buf 9) of
             (Some high, Some b6, Some b7, Some b8, Some b9) \<Rightarrow>
               if high \<noteq> [0, 0, 0, 0] then Some None
               else if b6 AND 0x80 \<noteq> 0 then Some None
               else Some (Some (push_bit 24 (ucast b6) + push_bit 16 (ucast b7) + push_bit 8 (ucast b8) + ucast b9, 10))
           | _ \<Rightarrow> None)
      else Some (Some (payloadlen, 2)))"

definition ws_payload_at ::
  "uint8_t list \<Rightarrow> bool \<Rightarrow> uint32_t \<Rightarrow> uint32_t \<Rightarrow> ws_out \<Rightarrow> (bool \<times> ws_out) option" where
  "ws_payload_at buf isMasking payloadlen pos out =
     (let pos' = if isMasking then pos + 4 else pos in
      if isMasking \<and> length buf < unat pos' then Some (False, out)
      else
        (case mem_read (unat pos) (if isMasking then 4 else 0) buf of
           None \<Rightarrow> None
         | Some key \<Rightarrow>
             if length buf < unat (pos' + payloadlen) then Some (False, out)
             else
               (case mem_read (unat pos') (unat payloadlen) buf of
                  None \<Rightarrow> None
                | Some bs \<Rightarrow>
                    Some (True, out\<lparr>ws_payload := ws_payload out @ (if isMasking then mask_from 0 key bs else bs),
                                     frameSize := ucast (payloadlen + pos')\<rparr>))))"

definition wsFrameExtractBuffer :: "uint8_t list \<Rightarrow> ws_out \<Rightarrow> (bool \<times> ws_out) option" where
  "wsFrameExtractBuffer buf out =
     (if length buf < 2 then Some (False, out)
      else
        (case (buffer_at buf 0, buffer_at buf 1) of
           (Some b0, Some b1) \<Rightarrow>
             let out' = out\<lparr>outopcode := b0 AND 0x0F, outfin := (b0 AND 0x80 \<noteq> 0)\<rparr>
             in (case ws_length buf b1 of
                   None \<Rightarrow> None
                 | Some None \<Rightarrow> Some (False, out')
                 | Some (Some (payloadlen, pos)) \<Rightarrow> ws_payload_at buf (b1 AND 0x80 \<noteq> 0) payloadlen pos out')
         | _ \<Rightarrow> None))"

section \<open>Bytes of the length\<close>

lemma byte_of_size:
  fixes w :: size_t
  shows "ucast (drop_bit 8 (w AND 0xFF00)) = (ucast (drop_bit 8 w) :: uint8_t)"
    and "ucast (drop_bit 24 (w AND 0xFF000000)) = (ucast (drop_bit 24 w) :: uint8_t)"
    and "ucast (drop_bit 16 (w AND 0x00FF0000)) = (ucast (drop_bit 16 w) :: uint8_t)"
    and "ucast (w AND 0xFF) = (ucast w :: uint8_t)"
proof -
  have masks: "(0xFF00 :: size_t) = push_bit 8 (mask 8)" "(0xFF000000 :: size_t) = push_bit 24 (mask 8)"
    "(0x00FF0000 :: size_t) = push_bit 16 (mask 8)" "(0xFF :: size_t) = mask 8"
    by (simp_all add: mask_eq_exp_minus_1 push_bit_eq_mult)
  show "ucast (drop_bit 8 (w AND 0xFF00)) = (ucast (drop_bit 8 w) :: uint8_t)"
    unfolding masks by (rule bit_word_eqI) (auto simp: bit_simps)
  show "ucast (drop_bit 24 (w AND 0xFF000000)) = (ucast (drop_bit 24 w) :: uint8_t)"
    unfolding masks by (rule bit_word_eqI) (auto simp: bit_simps)
  show "ucast (drop_bit 16 (w AND 0x00FF0000)) = (ucast (drop_bit 16 w) :: uint8_t)"
    unfolding masks by (rule bit_word_eqI) (auto simp: bit_simps)
  show "ucast (w AND 0xFF) = (ucast w :: uint8_t)"
    unfolding masks by (rule bit_word_eqI) (auto simp: bit_simps)
qed

lemma unat_byte:
  fixes w :: size_t
  shows "unat (ucast (drop_bit k w) :: uint8_t) = unat w div 2 ^ k mod 256" "unat (ucast w :: uint8_t) = unat w mod 256"
proof -
  have "unat (drop_bit k w) = unat w div 2 ^ k" by (subst unat_drop_bit_eq) (simp add: drop_bit_eq_div)
  then show "unat (ucast (drop_bit k w) :: uint8_t) = unat w div 2 ^ k mod 256"
    by (simp add: unsigned_ucast_eq take_bit_eq_mod)
  show "unat (ucast w :: uint8_t) = unat w mod 256" by (simp add: unsigned_ucast_eq take_bit_eq_mod)
qed

lemma unat_shifted_byte:
  assumes "k \<le> 24"
  shows "unat (push_bit k (ucast (b :: uint8_t)) :: uint32_t) = unat b * 2 ^ k"
proof -
  have b: "unat b < 2 ^ 8" using unsigned_less [of b] by simp
  have "unat b * 2 ^ k < 2 ^ 8 * 2 ^ k" using b by simp
  also have "\<dots> = 2 ^ (8 + k)" by (simp add: power_add)
  also have "\<dots> \<le> (2 :: nat) ^ 32" using assms by (intro power_increasing) simp_all
  finally have "unat b * 2 ^ k < 2 ^ 32" .
  moreover have "unat (ucast b :: uint32_t) = unat b" using b by (simp add: unsigned_ucast_eq take_bit_eq_mod)
  ultimately show ?thesis by (subst unsigned_push_bit_eq) (simp add: push_bit_eq_mult take_bit_eq_mod)
qed

lemma unat_plain_byte: "unat (ucast (b :: uint8_t) :: uint32_t) = unat b"
  using unat_shifted_byte [of 0 b] by simp

lemma unat_byte_less: "unat (b :: uint8_t) < 256"
  using unsigned_less [of b] by simp

lemma unat_two_bytes: "unat (push_bit 8 (ucast a) + ucast b :: uint32_t) = unat (a :: uint8_t) * 2 ^ 8 + unat (b :: uint8_t)"
  using unat_byte_less [of a] unat_byte_less [of b]
  by (subst unat_add_le) (simp_all add: unat_shifted_byte unat_plain_byte)

lemma unat_four_bytes:
  "unat (push_bit 24 (ucast a) + push_bit 16 (ucast b) + push_bit 8 (ucast c) + ucast d :: uint32_t) =
     unat (a :: uint8_t) * 2 ^ 24 + unat (b :: uint8_t) * 2 ^ 16 + unat (c :: uint8_t) * 2 ^ 8 + unat (d :: uint8_t)"
  using unat_byte_less [of a] unat_byte_less [of b] unat_byte_less [of c] unat_byte_less [of d]
  by (subst unat_add_le, simp add: unat_shifted_byte unat_plain_byte unat_add_le)+
    (simp add: unat_shifted_byte unat_plain_byte)

text \<open>The top bit and the lower seven bits of a byte.\<close>

lemma byte_split: "unat (b AND 0x7F) = unat b mod 128" "(b AND 0x80 \<noteq> 0) \<longleftrightarrow> 128 \<le> unat (b :: uint8_t)"
proof -
  have "(0x7F :: uint8_t) = mask 7" by (simp add: mask_eq_exp_minus_1)
  then have "b AND 0x7F = take_bit 7 b" by (metis and.commute take_bit_eq_mask)
  then show "unat (b AND 0x7F) = unat b mod 128" by (simp add: unsigned_take_bit_eq) (simp add: take_bit_eq_mod)
  have "(b AND 0x80 \<noteq> 0) \<longleftrightarrow> bit b 7" using and_exp_eq_0_iff_not_bit [of b 7] by simp
  also have "\<dots> \<longleftrightarrow> bit (unat b) 7" by (simp add: bit_unsigned_iff)
  also have "\<dots> \<longleftrightarrow> 128 \<le> unat b"
  proof -
    have "unat b div 128 = (if unat b < 128 then 0 else 1)"
      using unat_byte_less [of b] by (auto intro: div_nat_eqI)
    then show ?thesis by (simp add: bit_iff_odd)
  qed
  finally show "(b AND 0x80 \<noteq> 0) \<longleftrightarrow> 128 \<le> unat b" .
qed

lemma or_80:
  assumes "unat (b :: uint8_t) < 128"
  shows "unat (b OR 0x80) = unat b + 128"
proof -
  have "b AND 0x80 = 0" using assms byte_split(2) [of b] by auto
  then have "b OR 0x80 = b + 0x80" by (simp add: disjunctive_add_eq_or)
  then show ?thesis using assms by (simp add: unat_add_le)
qed

lemma length_code: "(ucast (b AND 0x7F) :: uint32_t) = of_nat (unat (b :: uint8_t) mod 128)"
  by (simp add: word_unat_eq_iff unat_plain_byte byte_split unat_of_nat)

lemma length_code_eq:
  "(ucast (b AND 0x7F) = (126 :: uint32_t)) \<longleftrightarrow> unat (b :: uint8_t) mod 128 = 126"
  "(ucast (b AND 0x7F) = (127 :: uint32_t)) \<longleftrightarrow> unat (b :: uint8_t) mod 128 = 127"
  by (simp_all add: word_unat_eq_iff unat_plain_byte byte_split)

section \<open>Extraction stays inside the buffer\<close>

lemma ws_length_inside:
  assumes "2 \<le> length buf"
  obtains "ws_length buf b1 = Some None"
  | l p where "ws_length buf b1 = Some (Some (l, p))" "unat l < 2 ^ 31" "unat p \<le> 10" "unat p \<le> length buf"
proof -
  consider (short) "unat b1 mod 128 \<noteq> 126" "unat b1 mod 128 \<noteq> 127" | (two) "unat b1 mod 128 = 126" | (four) "unat b1 mod 128 = 127"
    by blast
  then show thesis
  proof cases
    case short
    then have "ws_length buf b1 = Some (Some (ucast (b1 AND 0x7F), 2))"
      by (simp add: ws_length_def Let_def length_code_eq)
    moreover have "unat (ucast (b1 AND 0x7F) :: uint32_t) < 2 ^ 31" by (simp add: unat_plain_byte byte_split)
    ultimately show thesis using that(2) assms by simp
  next
    case two
    have "unat (push_bit 8 (ucast (buf ! 2)) + ucast (buf ! 3) :: uint32_t) < 2 ^ 31"
      using unat_byte_less [of "buf ! 2"] unat_byte_less [of "buf ! 3"] by (simp add: unat_two_bytes)
    then show thesis
      using two that by (cases "length buf < 4") (simp_all add: ws_length_def Let_def length_code_eq buffer_at_def)
  next
    case four
    show thesis
    proof (cases "length buf < 10 \<or> take 4 (drop 2 buf) \<noteq> [0, 0, 0, 0] \<or> buf ! 6 AND 0x80 \<noteq> 0")
      case True
      then have "ws_length buf b1 = Some None"
        using four by (auto simp: ws_length_def Let_def length_code_eq buffer_at_def mem_read_def)
      then show thesis by (rule that(1))
    next
      case False
      define l :: uint32_t where "l = push_bit 24 (ucast (buf ! 6)) + push_bit 16 (ucast (buf ! 7)) + push_bit 8 (ucast (buf ! 8)) + ucast (buf ! 9)"
      have "unat (buf ! 6) < 128" using False byte_split(2) [of "buf ! 6"] by auto
      then have "unat l < 2 ^ 31"
        using unat_byte_less [of "buf ! 7"] unat_byte_less [of "buf ! 8"] unat_byte_less [of "buf ! 9"]
        by (simp add: l_def unat_four_bytes)
      moreover have "ws_length buf b1 = Some (Some (l, 10))"
        using False four by (simp add: ws_length_def Let_def length_code_eq buffer_at_def mem_read_def l_def)
      ultimately show thesis using that(2) False by simp
    qed
  qed
qed

lemma ws_payload_inside:
  assumes "unat l < 2 ^ 31" "unat p \<le> 10" "unat p \<le> length buf"
  shows "\<exists>ok out'. ws_payload_at buf m l p out = Some (ok, out') \<and> outopcode out' = outopcode out \<and> outfin out' = outfin out \<and>
    (ok \<longrightarrow> unat (frameSize out') \<le> length buf) \<and> (\<not> ok \<longrightarrow> ws_payload out' = ws_payload out)"
proof -
  define p' where "p' = (if m then p + 4 else p)"
  have p': "unat p' = (if m then unat p + 4 else unat p)" using assms(2) by (simp add: p'_def unat_add_le)
  have sum: "unat (p' + l) = unat p' + unat l" using assms(1,2) p' by (intro unat_add_le) simp
  then have sum': "unat (l + p') = unat p' + unat l" by (simp add: add.commute [of l p'])
  have "unat (ucast (l + p') :: size_t) = unat p' + unat l"
    using assms(1,2) p' by (simp add: unsigned_ucast_eq take_bit_eq_mod sum')
  then show ?thesis
    using p' sum assms unfolding ws_payload_at_def Let_def p'_def [symmetric]
    by (auto simp: mem_read_def)
qed

section \<open>Extraction undoes building\<close>

lemma mask_from_length [simp]: "length (mask_from i key bs) = length bs"
  by (induction bs arbitrary: i) auto

lemma mask_twice: "mask_from i key (mask_from i key bs) = bs"
  by (induction bs arbitrary: i) (simp_all add: xor.assoc)

text \<open>The length bytes, with the first one marked when the frame is masked.\<close>

definition marked :: "bool \<Rightarrow> uint8_t list \<Rightarrow> uint8_t list" where
  "marked m fl = (if m then (fl ! 0 OR 0x80) # tl fl else fl)"

lemma frame_length_cases:
  fixes n :: nat
  assumes "n < 2 ^ 31"
  defines "w \<equiv> of_nat n :: size_t"
  obtains (short) "n \<le> 125" "frame_length_bytes w = [of_nat n]"
  | (two) "frame_length_bytes w = [126, ucast (drop_bit 8 w), ucast w]" "n < 2 ^ 16"
  | (four) "frame_length_bytes w =
      [127, 0, 0, 0, 0, ucast (drop_bit 24 w), ucast (drop_bit 16 w), ucast (drop_bit 8 w), ucast w]"
proof -
  have w: "unat w = n" using assms(1) by (simp add: w_def unat_of_nat_small)
  have le: "(w \<le> 125) = (n \<le> 125)" "(w \<le> 0xFFFF) = (n < 2 ^ 16)" by (auto simp: unat_le_iff w)
  have "(ucast w :: uint8_t) = of_nat n" by (simp add: word_unat_eq_iff unat_byte(2) w)
  then show thesis
    using that by (cases "n \<le> 125"; cases "n < 2 ^ 16") (simp_all add: frame_length_bytes_def le byte_of_size)
qed

lemma marked_code:
  assumes "unat b < 128"
  obtains c where "marked m (b # bs) = c # bs" "unat c mod 128 = unat b" "(c AND 0x80 \<noteq> 0) = m"
  using assms or_80 [OF assms] by (cases m) (auto simp: marked_def byte_split(2))

lemma ws_length_two: "unat c mod 128 = 126 \<Longrightarrow>
  ws_length (h # (c # [x, y]) @ rest) c = Some (Some (push_bit 8 (ucast x) + ucast y, 4))"
  by (simp add: ws_length_def Let_def length_code_eq buffer_at_def)

lemma ws_length_four: "unat c mod 128 = 127 \<Longrightarrow> unat x < 128 \<Longrightarrow>
  ws_length (h # (c # [0, 0, 0, 0, x, y, z, t]) @ rest) c =
    Some (Some (push_bit 24 (ucast x) + push_bit 16 (ucast y) + push_bit 8 (ucast z) + ucast t, 10))"
  using byte_split(2) [of x] by (simp add: ws_length_def Let_def length_code_eq buffer_at_def mem_read_def)

lemma ws_length_built:
  assumes "n < 2 ^ 31"
  obtains c bs where "marked m (frame_length_bytes (of_nat n)) = c # bs" "length bs \<le> 8" "(c AND 0x80 \<noteq> 0) = m"
    "\<And>h rest. ws_length (h # (c # bs) @ rest) c = Some (Some (of_nat n, of_nat (2 + length bs)))"
proof -
  define w where "w = (of_nat n :: size_t)"
  have w: "unat w = n" using assms(1) by (simp add: w_def unat_of_nat_small)
  show thesis
    using assms(1)
  proof (cases rule: frame_length_cases)
    case short
    have n: "unat (of_nat n :: uint8_t) < 128" "unat (of_nat n :: uint8_t) = n" using short(1) by simp_all
    obtain c where c: "marked m [of_nat n] = [c]" "unat c mod 128 = n" "(c AND 0x80 \<noteq> 0) = m"
      using marked_code [OF n(1), of m "[]"] unfolding n(2) .
    then show thesis
      using that [of c "[]"] short by (simp add: ws_length_def Let_def length_code_eq) (simp add: length_code)
  next
    case two
    define x y :: uint8_t where "x = ucast (drop_bit 8 w)" and "y = ucast w"
    obtain c where c: "marked m (frame_length_bytes (of_nat n)) = c # [x, y]" "unat c mod 128 = 126" "(c AND 0x80 \<noteq> 0) = m"
      using marked_code [of 126 m "[x, y]"] two(1) by (auto simp: x_def y_def w_def)
    have "unat (push_bit 8 (ucast x) + ucast y :: uint32_t) = n"
      unfolding unat_two_bytes x_def y_def unat_byte(1) unfolding unat_byte(2) w using two(2) by simp
    then have "(push_bit 8 (ucast x) + ucast y :: uint32_t) = of_nat n"
      using two(2) by (simp add: word_unat_eq_iff unat_of_nat)
    then show thesis using that [OF c(1) _ c(3)] ws_length_two [OF c(2)] by simp
  next
    case four
    define x y z t :: uint8_t where "x = ucast (drop_bit 24 w)" and "y = ucast (drop_bit 16 w)"
      and "z = ucast (drop_bit 8 w)" and "t = ucast w"
    obtain c where c: "marked m (frame_length_bytes (of_nat n)) = c # [0, 0, 0, 0, x, y, z, t]"
      "unat c mod 128 = 127" "(c AND 0x80 \<noteq> 0) = m"
      using marked_code [of 127 m "[0, 0, 0, 0, x, y, z, t]"] four by (auto simp: x_def y_def z_def t_def w_def)
    have top: "n div 2 ^ 24 < 128" using assms(1) by (simp add: less_mult_imp_div_less)
    then have x: "unat x = n div 2 ^ 24" unfolding x_def unat_byte(1) w by simp
    have "unat (push_bit 24 (ucast x) + push_bit 16 (ucast y) + push_bit 8 (ucast z) + ucast t :: uint32_t) = n"
      unfolding unat_four_bytes x y_def z_def unat_byte(1) unfolding t_def unat_byte(2) w by (rule four_bytes)
    then have "(push_bit 24 (ucast x) + push_bit 16 (ucast y) + push_bit 8 (ucast z) + ucast t :: uint32_t) = of_nat n"
      using assms(1) by (simp add: word_unat_eq_iff unat_of_nat)
    then show thesis using that [OF c(1) _ c(3)] ws_length_four [OF c(2)] x top by simp
  qed
qed

lemma built_frame:
  assumes "masking = None \<or> (\<exists>key. masking = Some key \<and> length key = 4)"
  shows "wsFrameBuild payload ty fin masking =
    (frame_code ty OR (if fin then 0x80 else 0)) #
    marked (masking \<noteq> None) (frame_length_bytes (of_nat (length payload))) @
    (case masking of None \<Rightarrow> [] | Some key \<Rightarrow> key) @
    (case masking of None \<Rightarrow> payload | Some key \<Rightarrow> mask_from 0 key payload)"
proof -
  have "frame_length_bytes (of_nat (length payload)) \<noteq> []" by (simp add: frame_length_bytes_def)
  then obtain c bs where "frame_length_bytes (of_nat (length payload)) = c # bs" by (auto simp: neq_Nil_conv)
  then show ?thesis by (auto simp: wsFrameBuild_def Let_def marked_def split: option.splits)
qed

lemma head_byte:
  assumes "unat (c :: uint8_t) < 16"
  shows "(c OR (if fin then 0x80 else 0)) AND 0x0F = c" "((c OR (if fin then 0x80 else 0)) AND 0x80 \<noteq> 0) = fin"
proof -
  have low: "c AND 0x0F = c"
  proof -
    have "(0x0F :: uint8_t) = mask 4" by (simp add: mask_eq_exp_minus_1)
    then have "c AND 0x0F = take_bit 4 c" by (metis and.commute take_bit_eq_mask)
    moreover have "take_bit 4 c = c" using assms by (simp add: word_unat_eq_iff unsigned_take_bit_eq take_bit_nat_eq_self)
    ultimately show ?thesis by simp
  qed
  have "(c OR 0x80) AND 0x0F = (c AND 0x0F) OR (0x80 AND 0x0F)" by (simp add: bit.conj_disj_distrib2)
  then show "(c OR (if fin then 0x80 else 0)) AND 0x0F = c" using low by simp
  show "((c OR (if fin then 0x80 else 0)) AND 0x80 \<noteq> 0) = fin"
    using assms or_80 [of c] byte_split(2) [of c] byte_split(2) [of "c OR 0x80"] by simp
qed

lemma ws_payload_built:
  assumes "length payload < 2 ^ 31" "length pre = unat p" "unat p \<le> 10"
    "masking = None \<or> (\<exists>key. masking = Some key \<and> length key = 4)"
  defines "key \<equiv> (case masking of None \<Rightarrow> [] | Some key \<Rightarrow> key)"
    and "body \<equiv> (case masking of None \<Rightarrow> payload | Some key \<Rightarrow> mask_from 0 key payload)"
  shows "ws_payload_at (pre @ key @ body @ rest) (masking \<noteq> None) (of_nat (length payload)) p out =
    Some (True, out\<lparr>ws_payload := ws_payload out @ payload,
                     frameSize := of_nat (length pre + length key + length payload)\<rparr>)"
proof -
  define l :: uint32_t where "l = of_nat (length payload)"
  define p' where "p' = (if masking \<noteq> None then p + 4 else p)"
  have l: "unat l = length payload" using assms(1) by (simp add: l_def unat_of_nat_small)
  have key: "length key = (if masking \<noteq> None then 4 else 0)" using assms(4) by (auto simp: key_def)
  have body: "length body = length payload" by (simp add: body_def split: option.splits)
  have p': "unat p' = length pre + length key" using assms(2,3) key by (simp add: p'_def unat_add_le)
  have sum: "unat (p' + l) = length pre + length key + length payload"
    using assms(1-3) p' l key by (subst unat_add_le) auto
  define total where "total = length pre + length key + length payload"
  have "total < 2 ^ 32" using assms(1-3) key by (simp add: total_def)
  then have fs: "(ucast (l + p') :: size_t) = of_nat total"
    using sum by (simp add: word_unat_eq_iff unsigned_ucast_eq take_bit_eq_mod add.commute [of l p'] unat_of_nat total_def [symmetric])
  have "mem_read (unat p) (if masking \<noteq> None then 4 else 0) (pre @ key @ body @ rest) = Some key"
    using key assms(2) by (simp add: mem_read_def split: if_splits)
  moreover have "mem_read (unat p') (unat l) (pre @ key @ body @ rest) = Some body"
    using p' l body by (simp add: mem_read_def)
  moreover have "\<not> length (pre @ key @ body @ rest) < unat (p' + l)" using sum body by simp
  moreover have "\<not> length (pre @ key @ body @ rest) < unat p'" using p' by simp
  moreover have "(if masking \<noteq> None then mask_from 0 key body else body) = payload"
    by (simp add: key_def body_def mask_twice split: option.splits)
  ultimately show ?thesis
    unfolding total_def [symmetric] ws_payload_at_def Let_def p'_def [symmetric] l_def [symmetric] fs
    by (simp only: option.case if_False simp_thms)
qed

section \<open>Properties\<close>

lemma ws_frame_extract:
  assumes "length payload < 2 ^ 31" "ty \<noteq> ERROR_FRAME"
    "masking = None \<or> (\<exists>key. masking = Some key \<and> length key = 4)"
  shows "wsFrameExtractBuffer (wsFrameBuild payload ty fin masking @ rest) out =
    Some (True, out\<lparr>ws_payload := ws_payload out @ payload, outopcode := frame_code ty,
      frameSize := of_nat (length (wsFrameBuild payload ty fin masking)), outfin := fin\<rparr>)"
proof -
  define h where "h = frame_code ty OR (if fin then 0x80 else 0)"
  obtain c bs where c: "marked (masking \<noteq> None) (frame_length_bytes (of_nat (length payload))) = c # bs" "length bs \<le> 8"
    "(c AND 0x80 \<noteq> 0) = (masking \<noteq> None)"
    "\<And>h rest. ws_length (h # (c # bs) @ rest) c = Some (Some (of_nat (length payload), of_nat (2 + length bs)))"
    by (rule ws_length_built [OF assms(1), of "masking \<noteq> None"]) (rule that)
  define key where "key = (case masking of None \<Rightarrow> [] | Some key \<Rightarrow> key)"
  define body where "body = (case masking of None \<Rightarrow> payload | Some key \<Rightarrow> mask_from 0 key payload)"
  have frame: "wsFrameBuild payload ty fin masking = (h # c # bs) @ key @ body"
    using built_frame [OF assms(3)] c(1) by (simp add: h_def key_def body_def)
  have len: "length body = length payload" by (simp add: body_def split: option.splits)
  have code: "unat (frame_code ty) < 16" using assms(2) by (cases ty) simp_all
  have p: "length (h # c # bs) = unat (of_nat (2 + length bs) :: uint32_t)" "unat (of_nat (2 + length bs) :: uint32_t) \<le> 10"
    using c(2) unat_of_nat_small [of "2 + length bs", where 'a = 32] by (simp_all del: of_nat_add)
  have buf: "wsFrameBuild payload ty fin masking @ rest = (h # c # bs) @ key @ body @ rest"
    "wsFrameBuild payload ty fin masking @ rest = h # (c # bs) @ (key @ body @ rest)" by (simp_all add: frame)
  have "ws_length (wsFrameBuild payload ty fin masking @ rest) c =
      Some (Some (of_nat (length payload), of_nat (2 + length bs)))"
    unfolding buf(2) by (rule c(4))
  moreover have "ws_payload_at (wsFrameBuild payload ty fin masking @ rest) (masking \<noteq> None) (of_nat (length payload))
      (of_nat (2 + length bs)) out' = Some (True, out'\<lparr>ws_payload := ws_payload out' @ payload,
        frameSize := of_nat (length (wsFrameBuild payload ty fin masking))\<rparr>)" for out'
    using ws_payload_built [OF assms(1) p assms(3), of rest out'] len
    unfolding buf(1) key_def [symmetric] body_def [symmetric] by (simp add: frame add.assoc)
  moreover have "buffer_at (wsFrameBuild payload ty fin masking @ rest) 0 = Some h"
    "buffer_at (wsFrameBuild payload ty fin masking @ rest) 1 = Some c"
    "\<not> length (wsFrameBuild payload ty fin masking @ rest) < 2"
    by (simp_all add: buf(2) buffer_at_def)
  ultimately show ?thesis
    using head_byte [OF code, of fin] c(3) by (simp add: wsFrameExtractBuffer_def Let_def h_def)
qed

text \<open>
  C30. Extracting from a buffer that begins with a frame gives back what the frame was built from: the payload,
  the type, the final bit and the number of bytes of the frame, masked or not, for every payload below two
  gigabytes and whatever follows the frame.
\<close>

theorem ws_frame_roundtrip:
  assumes "length payload < 2 ^ 31" "ty \<noteq> ERROR_FRAME"
    "masking = None \<or> (\<exists>key. masking = Some key \<and> length key = 4)"
  shows "wsFrameExtractBuffer (wsFrameBuild payload ty fin masking @ rest) out =
    Some (True, out\<lparr>ws_payload := ws_payload out @ payload, outopcode := frame_code ty,
      frameSize := of_nat (length (wsFrameBuild payload ty fin masking)), outfin := fin\<rparr>)"
  by (rule ws_frame_extract [OF assms])

lemma ws_extract_inside:
  "\<exists>ok out'. wsFrameExtractBuffer buf out = Some (ok, out') \<and>
    (if ok then unat (frameSize out') \<le> length buf else ws_payload out' = ws_payload out)"
proof (cases "length buf < 2")
  case True
  then show ?thesis by (intro exI [of _ False] exI [of _ out]) (simp add: wsFrameExtractBuffer_def)
next
  case False
  define out1 where "out1 = out\<lparr>outopcode := buf ! 0 AND 0x0F, outfin := (buf ! 0 AND 0x80 \<noteq> 0)\<rparr>"
  have start: "wsFrameExtractBuffer buf out =
    (case ws_length buf (buf ! 1) of None \<Rightarrow> None | Some None \<Rightarrow> Some (False, out1)
     | Some (Some (l, p)) \<Rightarrow> ws_payload_at buf (buf ! 1 AND 0x80 \<noteq> 0) l p out1)"
    using False by (auto simp: wsFrameExtractBuffer_def buffer_at_def Let_def out1_def split: option.splits)
  have pay: "ws_payload out1 = ws_payload out" by (simp add: out1_def)
  from False have "2 \<le> length buf" by simp
  then consider "ws_length buf (buf ! 1) = Some None"
    | l p where "ws_length buf (buf ! 1) = Some (Some (l, p))" "unat l < 2 ^ 31" "unat p \<le> 10" "unat p \<le> length buf"
    by (rule ws_length_inside) blast+
  then show ?thesis
  proof cases
    case 1
    then show ?thesis using start pay by auto
  next
    case (2 l p)
    then show ?thesis
      using ws_payload_inside [OF 2(2-4), of "buf ! 1 AND 0x80 \<noteq> 0" out1] pay unfolding start 2(1) by fastforce
  qed
qed

text \<open>
  On any bytes \<open>wsFrameExtractBuffer\<close> reads only inside the buffer and its 32-bit sums do not wrap; a
  frame it accepts ends inside the buffer, and one it refuses leaves the payload string as it was.
\<close>

theorem ws_extract_safe:
  "\<exists>ok out'. wsFrameExtractBuffer buf out = Some (ok, out') \<and>
    (if ok then unat (frameSize out') \<le> length buf else ws_payload out' = ws_payload out)"
  by (rule ws_extract_inside)

section \<open>Witnesses\<close>

theorem ws_frame_roundtrip_witness:
  "wsFrameExtractBuffer (wsFrameBuild [104, 105] TEXT_FRAME True (Some [1, 2, 3, 4]) @ [9])
      \<lparr>ws_payload = [], outopcode = 0, frameSize = 0, outfin = False\<rparr> =
    Some (True, \<lparr>ws_payload = [104, 105], outopcode = 1, frameSize = 8, outfin = True\<rparr>)"
proof -
  have "length (wsFrameBuild [104, 105] TEXT_FRAME True (Some [1, 2, 3, 4])) = 8" by code_simp
  then show ?thesis
    using ws_frame_roundtrip [of "[104, 105]" TEXT_FRAME "Some [1, 2, 3, 4]" True "[9]"
        "\<lparr>ws_payload = [], outopcode = 0, frameSize = 0, outfin = False\<rparr>"] by simp
qed

end
