(* ===== verification/Base64.thy ===== *)
theory Base64
  imports Bytes "HOL-Library.Monad_Syntax"
begin

text \<open>
  \<^verbatim>\<open>src/utils/base64.cpp\<close>: encoding bytes as text and back. The loops that fill \<^verbatim>\<open>char_array_3\<close> and
  \<^verbatim>\<open>char_array_4\<close> are recursions whose accumulator is the filled part of the array. The lengths and the index have the
  widths of the code, 32 bits, without and with sign.
\<close>

section \<open>Encoding\<close>

definition base64_chars :: string where
  "base64_chars = map (\<lambda>n. char_of (n :: nat)) ([65..<91] @ [97..<123] @ [48..<58] @ [43, 47])"

text \<open>\<^verbatim>\<open>isalnum\<close> in the C locale.\<close>

definition is_base64 :: "char \<Rightarrow> bool" where
  "is_base64 c \<longleftrightarrow> (let n = (of_char c :: nat) in
     (48 \<le> n \<and> n \<le> 57) \<or> (65 \<le> n \<and> n \<le> 90) \<or> (97 \<le> n \<and> n \<le> 122)) \<or> c = CHR ''+'' \<or> c = CHR ''/''"

text \<open>The four 6-bit groups of three bytes.\<close>

definition encode_group :: "uint8_t \<Rightarrow> uint8_t \<Rightarrow> uint8_t \<Rightarrow> uint8_t list" where
  "encode_group a b c =
     [drop_bit 2 (a AND 0xfc),
      push_bit 4 (a AND 0x03) + drop_bit 4 (b AND 0xf0),
      push_bit 2 (b AND 0x0f) + drop_bit 6 (c AND 0xc0),
      c AND 0x3f]"

definition encode_char :: "uint8_t \<Rightarrow> char" where
  "encode_char v = base64_chars ! unat v"

text \<open>
  The loop counts \<^verbatim>\<open>in_len\<close> down, an \<^verbatim>\<open>unsigned int\<close>, and moves the pointer. \<open>None\<close> is a read past the end of the bytes.
\<close>

fun encode_loop :: "uint8_t list \<Rightarrow> uint32_t \<Rightarrow> uint8_t list \<Rightarrow> string \<Rightarrow> (uint8_t list \<times> string) option" where
  "encode_loop [] in_len arr ret = (if in_len = 0 then Some (arr, ret) else None)"
| "encode_loop (b # bs) in_len arr ret =
     (if in_len = 0 then Some (arr, ret)
      else (case arr @ [b] of
        [x, y, z] \<Rightarrow> encode_loop bs (in_len - 1) [] (ret @ map encode_char (encode_group x y z))
      | arr' \<Rightarrow> encode_loop bs (in_len - 1) arr' ret))"

definition encode_tail :: "uint8_t list \<Rightarrow> string" where
  "encode_tail arr =
     (if arr = [] then ''''
      else
        let i = length arr;
            full = arr @ replicate (3 - i) 0;
            group = encode_group (full ! 0) (full ! 1) (full ! 2)
        in map encode_char (take (i + 1) group) @ replicate (3 - i) (CHR ''=''))"

definition base64_encode :: "uint8_t list \<Rightarrow> uint32_t \<Rightarrow> string option" where
  "base64_encode bytes_to_encode in_len =
     do { (arr, ret) \<leftarrow> encode_loop bytes_to_encode in_len [] ''''; Some (ret @ encode_tail arr) }"

section \<open>Decoding\<close>

text \<open>\<^verbatim>\<open>base64_chars.find(c)\<close> stored in an \<^verbatim>\<open>unsigned char\<close>; \<^verbatim>\<open>npos\<close> becomes 255.\<close>

fun find_index :: "char \<Rightarrow> string \<Rightarrow> nat option" where
  "find_index c [] = None"
| "find_index c (x # xs) = (if x = c then Some 0 else map_option Suc (find_index c xs))"

definition find_char :: "char \<Rightarrow> uint8_t" where
  "find_char c = (case find_index c base64_chars of None \<Rightarrow> 255 | Some i \<Rightarrow> of_nat i)"

definition decode_group :: "uint8_t list \<Rightarrow> uint8_t list" where
  "decode_group q =
     [push_bit 2 (q ! 0) + drop_bit 4 (q ! 1 AND 0x30),
      push_bit 4 (q ! 1 AND 0xf) + drop_bit 2 (q ! 2 AND 0x3c),
      push_bit 6 (q ! 2 AND 0x3) + q ! 3]"

text \<open>
  \<^verbatim>\<open>encoded_string[in_]\<close>: the character after the last one is null, and a later one is not there. Both \<^verbatim>\<open>in_len\<close> and \<^verbatim>\<open>in_\<close> are
  \<^verbatim>\<open>int\<close>; \<open>None\<close> is an access outside the string, or an \<^verbatim>\<open>int\<close> that overflows.
\<close>

definition char_at :: "string \<Rightarrow> int \<Rightarrow> char option" where
  "char_at s i =
     (if 0 \<le> i \<and> i < int (length s) then Some (s ! nat i) else if i = int (length s) then Some (CHR 0x00) else None)"

lemma char_at_base64: "char_at s i = Some c \<Longrightarrow> is_base64 c \<Longrightarrow> i < int (length s)"
  by (auto simp: char_at_def is_base64_def split: if_splits)

function decode_loop :: "string \<Rightarrow> int \<Rightarrow> int \<Rightarrow> string \<Rightarrow> uint8_t list \<Rightarrow> (string \<times> uint8_t list) option" where
  "decode_loop s in_len in_pos arr ret =
     (if in_len = 0 then Some (arr, ret)
      else if \<not> int_ok (in_len - 1) then None
      else (case char_at s in_pos of
        None \<Rightarrow> None
      | Some c \<Rightarrow>
          if c \<noteq> CHR ''='' \<and> is_base64 c then
            if \<not> int_ok (in_pos + 1) then None
            else if length (arr @ [c]) = 4
            then decode_loop s (in_len - 1) (in_pos + 1) [] (ret @ decode_group (map find_char (arr @ [c])))
            else decode_loop s (in_len - 1) (in_pos + 1) (arr @ [c]) ret
          else Some (arr, ret)))"
  by pat_completeness auto
termination
  by (relation "measure (\<lambda>(s, in_len, in_pos, arr, ret). nat (int (length s) - in_pos))") (auto dest: char_at_base64)

declare decode_loop.simps [simp del]

definition decode_tail :: "string \<Rightarrow> uint8_t list" where
  "decode_tail arr =
     (if arr = [] then []
      else
        let i = length arr;
            q = map find_char (arr @ replicate (4 - i) (CHR 0x00))
        in take (i - 1) (decode_group q))"

definition base64_decode :: "string \<Rightarrow> uint8_t list option" where
  "base64_decode encoded_string =
     (let in_len = sint (of_nat (length encoded_string) :: uint32_t)
      in do { (arr, ret) \<leftarrow> decode_loop encoded_string in_len 0 [] []; Some (ret @ decode_tail arr) })"

section \<open>The groups in natural numbers\<close>

lemma unat_byte_bound: "unat (b :: uint8_t) < 256"
  using unsigned_less [of b] by simp

lemma and_masks:
  fixes b :: uint8_t
  shows "unat (drop_bit 2 (b AND 0xfc)) = unat b div 4" "unat (b AND 0x03) = unat b mod 4"
    "unat (drop_bit 4 (b AND 0xf0)) = unat b div 16" "unat (b AND 0x0f) = unat b mod 16"
    "unat (drop_bit 6 (b AND 0xc0)) = unat b div 64" "unat (b AND 0x3f) = unat b mod 64"
    "unat (drop_bit 4 (b AND 0x30)) = unat b div 16 mod 4" "unat (drop_bit 2 (b AND 0x3c)) = unat b div 4 mod 16"
proof -
  have masks: "(0xfc :: uint8_t) = push_bit 2 (mask 6)" "(0x03 :: uint8_t) = mask 2" "(0xf0 :: uint8_t) = push_bit 4 (mask 4)"
    "(0x0f :: uint8_t) = mask 4" "(0xc0 :: uint8_t) = push_bit 6 (mask 2)" "(0x3f :: uint8_t) = mask 6"
    "(0x30 :: uint8_t) = push_bit 4 (mask 2)" "(0x3c :: uint8_t) = push_bit 2 (mask 4)"
    by (simp_all add: mask_eq_exp_minus_1 push_bit_eq_mult)
  have field: "drop_bit k (b AND push_bit k (mask n)) = take_bit n (drop_bit k b)" for k n
    by (rule bit_word_eqI) (auto simp: bit_simps dest: bit_imp_le_length)
  have low: "b AND mask n = take_bit n b" for n by (simp add: take_bit_eq_mask)
  have d: "unat (drop_bit k b) = unat b div 2 ^ k" for k by (subst unat_drop_bit_eq) (simp add: drop_bit_eq_div)
  have t: "unat (take_bit n c) = unat c mod 2 ^ n" for n and c :: uint8_t
    by (subst unsigned_take_bit_eq) (simp add: take_bit_eq_mod)
  have "unat b div 4 < 64" "unat b div 16 < 16" "unat b div 64 < 4"
    using unat_byte_bound [of b] by (simp_all add: less_mult_imp_div_less)
  then show "unat (drop_bit 2 (b AND 0xfc)) = unat b div 4" "unat (b AND 0x03) = unat b mod 4"
    "unat (drop_bit 4 (b AND 0xf0)) = unat b div 16" "unat (b AND 0x0f) = unat b mod 16"
    "unat (drop_bit 6 (b AND 0xc0)) = unat b div 64" "unat (b AND 0x3f) = unat b mod 64"
    "unat (drop_bit 4 (b AND 0x30)) = unat b div 16 mod 4" "unat (drop_bit 2 (b AND 0x3c)) = unat b div 4 mod 16"
    unfolding masks field low t d by simp_all
qed

lemma unat_shift:
  assumes "unat (b :: uint8_t) * 2 ^ k < 256"
  shows "unat (push_bit k b) = unat b * 2 ^ k"
  using assms by (subst unsigned_push_bit_eq) (simp add: push_bit_eq_mult take_bit_eq_mod)

lemma shift_add:
  fixes p q :: uint8_t
  shows "unat p * 4 + unat q < 256 \<Longrightarrow> unat (push_bit 2 p + q) = unat p * 4 + unat q"
    and "unat p * 16 + unat q < 256 \<Longrightarrow> unat (push_bit 4 p + q) = unat p * 16 + unat q"
    and "unat p * 64 + unat q < 256 \<Longrightarrow> unat (push_bit 6 p + q) = unat p * 64 + unat q"
  by (subst unat_add_le; simp add: unat_shift)+

lemma encode_group_values:
  "map unat (encode_group a b c) =
     [unat a div 4, unat a mod 4 * 16 + unat b div 16, unat b mod 16 * 4 + unat c div 64, unat c mod 64]"
proof -
  have "unat a mod 4 < 4" "unat b mod 16 < 16" "unat b div 16 < 16" "unat c div 64 < 4"
    using unat_byte_bound [of b] unat_byte_bound [of c] by (simp_all add: less_mult_imp_div_less)
  then have fit: "unat a mod 4 * 16 + unat b div 16 < 256" "unat b mod 16 * 4 + unat c div 64 < 256" by linarith+
  show ?thesis
    unfolding encode_group_def list.map
    using shift_add(2) [of "a AND 0x03" "drop_bit 4 (b AND 0xf0)", unfolded and_masks, OF fit(1)]
      shift_add(1) [of "b AND 0x0f" "drop_bit 6 (c AND 0xc0)", unfolded and_masks, OF fit(2)]
    by (simp only: and_masks)
qed

lemma encode_group_bound: "v \<in> set (encode_group a b c) \<Longrightarrow> unat v < 64"
proof -
  assume "v \<in> set (encode_group a b c)"
  then have "unat v \<in> set (map unat (encode_group a b c))" by simp
  moreover have "unat a div 4 < 64" "unat a mod 4 < 4" "unat b mod 16 < 16" "unat b div 16 < 16" "unat c div 64 < 4"
    using unat_byte_bound [of a] unat_byte_bound [of b] unat_byte_bound [of c] by (simp_all add: less_mult_imp_div_less)
  ultimately show ?thesis unfolding encode_group_values by auto
qed

lemma decode_group_values:
  assumes "unat x < 64" "unat y < 64"
  shows "unat (decode_group [x, y, z, t] ! 0) = unat x * 4 + unat y div 16"
    and "unat (decode_group [x, y, z, t] ! 1) = unat y mod 16 * 16 + unat z div 4 mod 16"
    and "unat t < 64 \<Longrightarrow> unat (decode_group [x, y, z, t] ! 2) = unat z mod 4 * 64 + unat t"
proof -
  have "unat y div 16 < 4" "unat y mod 16 < 16" "unat z div 4 mod 16 < 16" "unat z mod 4 < 4"
    using assms(2) by (simp_all add: less_mult_imp_div_less)
  moreover have "unat y div 16 mod 4 = unat y div 16" using \<open>unat y div 16 < 4\<close> by simp
  ultimately have fit: "unat x * 4 + unat y div 16 mod 4 < 256" "unat y mod 16 * 16 + unat z div 4 mod 16 < 256"
    "unat t < 64 \<Longrightarrow> unat z mod 4 * 64 + unat t < 256" and y: "unat y div 16 mod 4 = unat y div 16"
    using assms(1) by linarith+
  show "unat (decode_group [x, y, z, t] ! 0) = unat x * 4 + unat y div 16"
    "unat (decode_group [x, y, z, t] ! 1) = unat y mod 16 * 16 + unat z div 4 mod 16"
    "unat t < 64 \<Longrightarrow> unat (decode_group [x, y, z, t] ! 2) = unat z mod 4 * 64 + unat t"
    using shift_add(1) [of x "drop_bit 4 (y AND 0x30)", unfolded and_masks, OF fit(1), unfolded y]
      shift_add(2) [of "y AND 0xf" "drop_bit 2 (z AND 0x3c)", unfolded and_masks, OF fit(2)]
      shift_add(3) [of "z AND 0x3" t, unfolded and_masks] fit(3)
    unfolding decode_group_def nth_Cons_0 nth_Cons_Suc One_nat_def numeral_2_eq_2 numeral_3_eq_3 by (simp_all only:)
qed

lemma encode_group_list:
  obtains x y z t where "encode_group a b c = [x, y, z, t]" "unat x = unat a div 4" "unat y = unat a mod 4 * 16 + unat b div 16"
    "unat z = unat b mod 16 * 4 + unat c div 64" "unat t = unat c mod 64"
    "unat x < 64" "unat y < 64" "unat z < 64" "unat t < 64"
proof -
  obtain x y z t where g: "encode_group a b c = [x, y, z, t]" by (simp add: encode_group_def)
  have "unat x < 64" "unat y < 64" "unat z < 64" "unat t < 64"
    using encode_group_bound [of _ a b c] g by simp_all
  then show thesis using that [OF g] encode_group_values [of a b c] g by simp
qed

text \<open>Dividing and recombining the bits of three bytes.\<close>

lemma regroup:
  fixes a b c :: nat
  assumes "b < 256" "c < 256"
  shows "a div 4 * 4 + (a mod 4 * 16 + b div 16) div 16 = a"
    and "(a mod 4 * 16 + b div 16) mod 16 * 16 + (b mod 16 * 4 + c div 64) div 4 mod 16 = b"
    and "(b mod 16 * 4 + c div 64) mod 4 * 64 + c mod 64 = c"
proof -
  have "b div 16 < 16" "c div 64 < 4" using assms by (simp_all add: less_mult_imp_div_less)
  then show "a div 4 * 4 + (a mod 4 * 16 + b div 16) div 16 = a"
    "(a mod 4 * 16 + b div 16) mod 16 * 16 + (b mod 16 * 4 + c div 64) div 4 mod 16 = b"
    "(b mod 16 * 4 + c div 64) mod 4 * 64 + c mod 64 = c"
    by simp_all
qed

lemma decode_encode_group: "decode_group (encode_group a b c) = [a, b, c]"
proof -
  obtain x y z t where g: "encode_group a b c = [x, y, z, t]" "unat x = unat a div 4" "unat y = unat a mod 4 * 16 + unat b div 16"
    "unat z = unat b mod 16 * 4 + unat c div 64" "unat t = unat c mod 64"
    "unat x < 64" "unat y < 64" "unat z < 64" "unat t < 64" by (rule encode_group_list)
  obtain u v w where d: "decode_group [x, y, z, t] = [u, v, w]" by (simp add: decode_group_def)
  note vals = decode_group_values [OF g(6,7), where z = z and t = t, unfolded d nth_Cons_0 nth_Cons_Suc One_nat_def numeral_2_eq_2, unfolded g(2-5)]
  have "unat u = unat a" "unat v = unat b"
    using vals(1,2) regroup(1,2) [OF unat_byte_bound unat_byte_bound] by (simp_all only:)
  moreover have "unat w = unat c"
    using vals(3) regroup(3) [OF unat_byte_bound unat_byte_bound, of b c] g(9) unfolding g(5) by (simp only:)
  ultimately have "unat u = unat a" "unat v = unat b" "unat w = unat c" by simp_all
  then show ?thesis by (simp add: g(1) d word_unat_eq_iff)
qed

section \<open>Characters\<close>

lemma base64_alphabet: "length base64_chars = 64" "distinct base64_chars" "list_all (\<lambda>c. is_base64 c \<and> c \<noteq> CHR ''='') base64_chars"
  by code_simp+

lemma find_index_nth: "distinct xs \<Longrightarrow> i < length xs \<Longrightarrow> find_index (xs ! i) xs = Some i"
proof (induction xs arbitrary: i)
  case (Cons x xs)
  then show ?case by (cases i) auto
qed simp

lemma char_facts:
  assumes "unat v < 64"
  shows "find_char (encode_char v) = v" "is_base64 (encode_char v)" "encode_char v \<noteq> CHR ''=''"
  using assms base64_alphabet find_index_nth [OF base64_alphabet(2), of "unat v"]
  by (auto simp: find_char_def encode_char_def list_all_length)

section \<open>Block by block\<close>

fun encode_blocks :: "uint8_t list \<Rightarrow> string" where
  "encode_blocks (x # y # z # bs) = map encode_char (encode_group x y z) @ encode_blocks bs"
| "encode_blocks bs = encode_tail bs"

lemma count_down: "unat w = Suc n \<Longrightarrow> w \<noteq> 0 \<and> unat (w - 1 :: uint32_t) = n"
  by (cases "w = 0") (simp_all add: unat_minus_one)

lemma encode_is_blocks:
  assumes "length bs < 2 ^ 32"
  shows "base64_encode bs (of_nat (length bs)) = Some (encode_blocks bs)"
proof -
  have "Option.bind (encode_loop bs w [] ret) (\<lambda>(arr, r). Some (r @ encode_tail arr)) = Some (ret @ encode_blocks bs)"
    if "unat w = length bs" for w ret
    using that
  proof (induction bs arbitrary: w ret rule: encode_blocks.induct [case_names three none one two])
    case (three x y z bs)
    have w: "w \<noteq> 0" "unat (w - 1) = Suc (Suc (length bs))" using count_down [of w] three(2) by simp_all
    have w1: "w - 1 \<noteq> 0" "unat (w - 1 - 1) = Suc (length bs)" using count_down [OF w(2)] by simp_all
    have w2: "w - 1 - 1 \<noteq> 0" "unat (w - 1 - 1 - 1) = length bs" using count_down [OF w1(2)] by simp_all
    show ?case using three(1) [OF w2(2), of "ret @ map encode_char (encode_group x y z)"] w(1) w1(1) w2(1)
      by (simp del: diff_diff_eq diff_diff_add)
  next
    case (one v)
    then show ?case using count_down [of w 0] by (auto simp: unat_eq_0)
  next
    case (two v va)
    have w: "w \<noteq> 0" "unat (w - 1) = Suc 0" using count_down [of w] two by simp_all
    then show ?case using count_down [OF w(2)] by (auto simp: unat_eq_0 simp del: diff_diff_eq diff_diff_add)
  qed (simp add: unat_eq_0)
  from this [of "of_nat (length bs)" "''''"] show ?thesis using assms by (simp add: base64_encode_def unat_of_nat)
qed

lemma encode_blocks_length: "length (encode_blocks bs) = 4 * ((length bs + 2) div 3)"
proof (induction bs rule: encode_blocks.induct)
  case (1 x y z bs)
  have "length (encode_group x y z) = 4" by (simp add: encode_group_def)
  moreover have "(5 + length bs) div 3 = Suc ((length bs + 2) div 3)" by presburger
  ultimately show ?case using 1 by simp
qed (simp_all add: encode_tail_def encode_group_def Let_def)

text \<open>The loop of the decoder on the rest of a string, when no counter overflows.\<close>

fun decode_rest :: "string \<Rightarrow> string \<Rightarrow> uint8_t list \<Rightarrow> string \<times> uint8_t list" where
  "decode_rest [] arr ret = (arr, ret)"
| "decode_rest (c # cs) arr ret =
     (if c \<noteq> CHR ''='' \<and> is_base64 c then
        if length (arr @ [c]) = 4
        then decode_rest cs [] (ret @ decode_group (map find_char (arr @ [c])))
        else decode_rest cs (arr @ [c]) ret
      else (arr, ret))"

lemma decode_loop_rest:
  assumes "length s < 2 ^ 31"
  shows "s = before @ cs \<Longrightarrow> decode_loop s (int (length cs)) (int (length before)) arr ret = Some (decode_rest cs arr ret)"
proof (induction cs arbitrary: before arr ret)
  case Nil
  then show ?case by (simp add: decode_loop.simps)
next
  case (Cons c cs)
  have "length before < 2 ^ 31 - 1" "length cs < 2 ^ 31" using assms Cons.prems by simp_all
  then have ok: "int_ok (int (length before) + 1)" "int_ok (int (length cs))" by (simp_all add: int_ok_def)
  have c: "char_at s (int (length before)) = Some c" using Cons.prems by (simp add: char_at_def)
  have IH: "decode_loop s (int (length cs)) (int (length before) + 1) arr ret = Some (decode_rest cs arr ret)" for arr ret
    using Cons.IH [of "before @ [c]" arr ret] Cons.prems by (simp add: add.commute)
  show ?case using IH ok c by (subst decode_loop.simps) simp
qed

lemma decode_is_rest:
  assumes "length s < 2 ^ 31"
  shows "base64_decode s = Some (case decode_rest s [] [] of (arr, r) \<Rightarrow> r @ decode_tail arr)"
proof -
  have "sint (of_nat (length s) :: uint32_t) = int (length s)"
    using assms by (simp add: sint_uint unat_of_nat uint_nat signed_take_bit_int_eq_self_iff)
  then show ?thesis using decode_loop_rest [OF assms, of "[]" s] by (simp add: base64_decode_def split: prod.splits)
qed

lemma decode_block:
  "decode_rest (map encode_char (encode_group a b c) @ cs) [] ret = decode_rest cs [] (ret @ [a, b, c])"
proof -
  obtain x y z t where g: "encode_group a b c = [x, y, z, t]" "unat x < 64" "unat y < 64" "unat z < 64" "unat t < 64"
    by (rule encode_group_list)
  have "decode_group [x, y, z, t] = [a, b, c]" using decode_encode_group [of a b c] g(1) by simp
  then show ?thesis using g by (simp add: char_facts)
qed

lemma decode_last:
  assumes "length bs < 3"
  shows "(case decode_rest (encode_tail bs) [] ret of (arr, r) \<Rightarrow> r @ decode_tail arr) = ret @ bs"
proof -
  consider "bs = []" | a where "bs = [a]" | a b where "bs = [a, b]"
    using assms by (cases bs rule: encode_blocks.cases) auto
  then show ?thesis
  proof cases
    case 1
    then show ?thesis by (simp add: encode_tail_def decode_tail_def)
  next
    case (2 a)
    obtain x y z t where g: "encode_group a 0 0 = [x, y, z, t]" "unat x = unat a div 4" "unat y = unat a mod 4 * 16"
      "unat x < 64" "unat y < 64" by (rule encode_group_list [of a 0 0]) simp
    define e where "e = find_char (CHR 0x00)"
    have "unat (decode_group [x, y, e, e] ! 0) = unat a"
      using decode_group_values(1) [OF g(4,5)] g(2,3) by simp
    then have "take 1 (decode_group [x, y, e, e]) = [a]" by (simp add: decode_group_def word_unat_eq_iff)
    then show ?thesis
      using 2 g(1,4,5) by (simp add: encode_tail_def decode_tail_def Let_def char_facts e_def numeral_2_eq_2)
  next
    case (3 a b)
    obtain x y z t where g: "encode_group a b 0 = [x, y, z, t]" "unat x = unat a div 4" "unat y = unat a mod 4 * 16 + unat b div 16"
      "unat z = unat b mod 16 * 4" "unat x < 64" "unat y < 64" "unat z < 64" by (rule encode_group_list [of a b 0]) simp
    define e where "e = find_char (CHR 0x00)"
    have "unat (decode_group [x, y, z, e] ! 0) = unat a" "unat (decode_group [x, y, z, e] ! 1) = unat b"
      using decode_group_values(1,2) [OF g(5,6)] g(2-4) regroup(1,2) [of "unat b" 0 "unat a"] unat_byte_bound [of b] by simp_all
    then have "take 2 (decode_group [x, y, z, e]) = [a, b]"
      by (simp add: decode_group_def word_unat_eq_iff numeral_2_eq_2)
    then show ?thesis
      using 3 g(1,5-7) by (simp add: encode_tail_def decode_tail_def Let_def char_facts e_def numeral_3_eq_3 numeral_2_eq_2)
  qed
qed

section \<open>Properties\<close>

text \<open>
  C38. Decoding an encoded byte sequence gives the sequence back, for every sequence whose encoding is shorter than the \<^verbatim>\<open>int\<close>s of
  the decoder can count: 1610612733 bytes at most.
\<close>

theorem base64_roundtrip:
  assumes "4 * ((length bs + 2) div 3) < 2 ^ 31"
  shows "\<exists>s. base64_encode bs (of_nat (length bs)) = Some s \<and> base64_decode s = Some bs"
proof -
  have "(case decode_rest (encode_blocks bs) [] ret of (arr, r) \<Rightarrow> r @ decode_tail arr) = ret @ bs" for ret
  proof (induction bs arbitrary: ret rule: encode_blocks.induct)
    case (1 x y z bs)
    then show ?case by (simp add: decode_block)
  qed (simp_all only: encode_blocks.simps decode_last list.size)
  moreover have "length bs < 2 ^ 32" using assms by simp
  ultimately show ?thesis using encode_is_blocks [of bs] decode_is_rest [of "encode_blocks bs"] encode_blocks_length [of bs] assms by simp
qed

theorem base64_roundtrip_witness:
  "\<exists>s. base64_encode [0, 255, 7, 128] 4 = Some s \<and> base64_decode s = Some [0, 255, 7, 128]"
  using base64_roundtrip [of "[0, 255, 7, 128]"] by simp

text \<open>
  Beyond the bound it does not. An encoding of \<open>2 ^ 31\<close> characters has the least \<^verbatim>\<open>int\<close> as its length, and counting it down overflows; one of
  \<open>2 ^ 32\<close> characters has the length 0 and decodes to nothing.
\<close>

lemma base64_length_wraps:
  assumes "length bs = 3 * 2 ^ k" "k = 29 \<or> k = 30"
  shows "\<exists>s. base64_encode bs (of_nat (length bs)) = Some s \<and> base64_decode s = (if k = 29 then None else Some [])"
proof -
  let ?s = "encode_blocks bs"
  have "length bs < 2 ^ 32" using assms by auto
  moreover have "base64_decode ?s = (if k = 29 then None else Some [])"
  proof (cases "k = 29")
    case True
    then have "sint (of_nat (length ?s) :: uint32_t) = - (2 ^ 31)" using assms(1) by (simp add: encode_blocks_length)
    then show ?thesis using True by (simp add: base64_decode_def decode_loop.simps int_ok_def)
  next
    case False
    then have "of_nat (length ?s) = (0 :: uint32_t)" using assms by (simp add: encode_blocks_length)
    then show ?thesis using False by (simp add: base64_decode_def decode_loop.simps decode_tail_def)
  qed
  ultimately show ?thesis using encode_is_blocks by blast
qed

end
