(* ===== verification/Timer_Mgr.thy ===== *)
theory Timer_Mgr
  imports Interfaces
begin

text \<open>
  The timers of \<^verbatim>\<open>src/timer/Timer.cpp\<close> and \<^verbatim>\<open>src/timer/Timer.h\<close>. A \<^verbatim>\<open>Timer\<close> object is an entry of
  \<open>timer_objs\<close>, and a pointer to it is its index. It lives as long as a \<^verbatim>\<open>shared_ptr\<close> to it exists: one in the
  priority queue \<open>mTimers\<close>, or a local variable (\<open>timer_refs\<close>). A \<^verbatim>\<open>weak_ptr\<close> is an index whose \<^verbatim>\<open>lock\<close>
  succeeds exactly then.

  A bound callback is a value of type \<open>'p\<close>; \<open>exec\<close> runs it on the state, which may be any extension of the record
  (the event loop, the socket). \<^verbatim>\<open>std::priority_queue\<close> leaves open which of several equal elements is on top: \<open>pick\<close>
  chooses among the end times in the queue, and \<open>pick_ok\<close> is what the container guarantees. The clock
  \<^verbatim>\<open>ox_getnowtime\<close> is the argument \<open>now\<close>. Times are unbounded integers.
\<close>

section \<open>State\<close>

record 'p timer =
  mActive :: bool
  mCallback :: 'p
  mEndTime :: int

record 'p timer_mgr =
  timer_objs :: "'p timer list"
  mTimers :: "nat list"
  timer_refs :: "nat list"

definition timer_at :: "('p, 'a) timer_mgr_scheme \<Rightarrow> nat \<Rightarrow> 'p timer" where
  "timer_at m t = timer_objs m ! t"

section \<open>Operations\<close>

definition getEndMs :: "'p timer \<Rightarrow> int" where
  "getEndMs t = mEndTime t"

definition weak_lock :: "('p, 'a) timer_mgr_scheme \<Rightarrow> nat option \<Rightarrow> nat option" where
  "weak_lock m w =
     (case w of
        None \<Rightarrow> None
      | Some t \<Rightarrow> if t \<in> set (mTimers m) \<or> t \<in> set (timer_refs m) then Some t else None)"

definition cancel :: "nat \<Rightarrow> ('p, 'a) timer_mgr_scheme \<Rightarrow> ('p, 'a) timer_mgr_scheme" where
  "cancel t m = m\<lparr>timer_objs := (timer_objs m)[t := (timer_at m t)\<lparr>mActive := False\<rparr>]\<rparr>"

text \<open>\<^verbatim>\<open>Timer::operator()\<close>.\<close>

definition timer_call ::
  "('p \<Rightarrow> ('p, 'a) timer_mgr_scheme \<Rightarrow> ('p, 'a) timer_mgr_scheme option) \<Rightarrow> nat \<Rightarrow>
   ('p, 'a) timer_mgr_scheme \<Rightarrow> ('p, 'a) timer_mgr_scheme option" where
  "timer_call exec t m = (if mActive (timer_at m t) then exec (mCallback (timer_at m t)) m else Some m)"

definition addTimer :: "int \<Rightarrow> int \<Rightarrow> 'p \<Rightarrow> ('p, 'a) timer_mgr_scheme \<Rightarrow> nat \<times> ('p, 'a) timer_mgr_scheme" where
  "addTimer now delayMs callback m =
     (length (timer_objs m),
      m\<lparr>timer_objs := timer_objs m @ [\<lparr>mActive = True, mCallback = callback, mEndTime = delayMs + now\<rparr>],
        mTimers := mTimers m @ [length (timer_objs m)]\<rparr>)"

definition timers_isEmpty :: "('p, 'a) timer_mgr_scheme \<Rightarrow> bool" where
  "timers_isEmpty m \<longleftrightarrow> mTimers m = []"

definition top_index :: "(int list \<Rightarrow> nat) \<Rightarrow> ('p, 'a) timer_mgr_scheme \<Rightarrow> nat" where
  "top_index pick m = pick (map (\<lambda>t. getEndMs (timer_at m t)) (mTimers m))"

definition remove_index :: "nat \<Rightarrow> 'b list \<Rightarrow> 'b list" where
  "remove_index i xs = take i xs @ drop (Suc i) xs"

text \<open>\<^verbatim>\<open>auto tmp = mTimers.top(); mTimers.pop();\<close>: the local variable keeps the object alive.\<close>

definition pop_top :: "nat \<Rightarrow> ('p, 'a) timer_mgr_scheme \<Rightarrow> ('p, 'a) timer_mgr_scheme" where
  "pop_top i m = m\<lparr>mTimers := remove_index i (mTimers m), timer_refs := mTimers m ! i # timer_refs m\<rparr>"

definition drop_ref :: "('p, 'a) timer_mgr_scheme \<Rightarrow> ('p, 'a) timer_mgr_scheme" where
  "drop_ref m = m\<lparr>timer_refs := tl (timer_refs m)\<rparr>"

definition nearEndMs :: "(int list \<Rightarrow> nat) \<Rightarrow> int \<Rightarrow> ('p, 'a) timer_mgr_scheme \<Rightarrow> int" where
  "nearEndMs pick now m =
     (if mTimers m = [] then 0
      else
        let tmp = getEndMs (timer_at m (mTimers m ! top_index pick m)) - now in
        if tmp < 0 then 0 else tmp)"

definition timers_clear :: "('p, 'a) timer_mgr_scheme \<Rightarrow> ('p, 'a) timer_mgr_scheme" where
  "timers_clear m = m\<lparr>mTimers := []\<rparr>"

text \<open>
  The callbacks may add timers, so the loop need not end: \<open>None\<close> when it does not, or when a callback
  fails. \<open>now\<close> reads the clock in the current state.
\<close>

partial_function (option) schedule ::
  "(int list \<Rightarrow> nat) \<Rightarrow> (('p, 'a) timer_mgr_scheme \<Rightarrow> int) \<Rightarrow>
   ('p \<Rightarrow> ('p, 'a) timer_mgr_scheme \<Rightarrow> ('p, 'a) timer_mgr_scheme option) \<Rightarrow>
   ('p, 'a) timer_mgr_scheme \<Rightarrow> ('p, 'a) timer_mgr_scheme option" where
  [code]: "schedule pick now exec m =
     (if mTimers m = [] then Some m
      else
        let i = top_index pick m; tmp = mTimers m ! i in
        if getEndMs (timer_at m tmp) < now m then
          (case timer_call exec tmp (pop_top i m) of
             None \<Rightarrow> None
           | Some m' \<Rightarrow> schedule pick now exec (drop_ref m'))
        else Some m)"

section \<open>The queue\<close>

definition pick_ok :: "(int list \<Rightarrow> nat) \<Rightarrow> bool" where
  "pick_ok pick \<longleftrightarrow> (\<forall>ts. ts \<noteq> [] \<longrightarrow> pick ts < length ts \<and> (\<forall>t \<in> set ts. ts ! pick ts \<le> t))"

text \<open>A choice the container may make: the first of the least elements.\<close>

fun first_least :: "int list \<Rightarrow> nat" where
  "first_least [] = 0"
| "first_least [t] = 0"
| "first_least (t # ts) = (if t \<le> ts ! first_least ts then 0 else Suc (first_least ts))"

lemma first_least_ok: "pick_ok first_least"
proof -
  have "first_least ts < length ts \<and> (\<forall>t \<in> set ts. ts ! first_least ts \<le> t)" if "ts \<noteq> []" for ts
    using that by (induction ts rule: first_least.induct) (auto split: if_splits)
  then show ?thesis by (simp add: pick_ok_def)
qed

definition end_time :: "('p, 'a) timer_mgr_scheme \<Rightarrow> nat \<Rightarrow> int" where
  "end_time m t = getEndMs (timer_at m t)"

lemma top_index_ok:
  assumes "pick_ok pick" "mTimers m \<noteq> []"
  shows "top_index pick m < length (mTimers m)"
    and "t \<in> set (mTimers m) \<Longrightarrow> end_time m (mTimers m ! top_index pick m) \<le> end_time m t"
proof -
  let ?ts = "map (\<lambda>t. getEndMs (timer_at m t)) (mTimers m)"
  have ok: "pick ?ts < length ?ts" "\<forall>t \<in> set ?ts. ?ts ! pick ?ts \<le> t"
    using assms unfolding pick_ok_def by auto
  then show "top_index pick m < length (mTimers m)" by (simp add: top_index_def)
  show "end_time m (mTimers m ! top_index pick m) \<le> end_time m t" if "t \<in> set (mTimers m)"
    using ok that by (auto simp: top_index_def end_time_def)
qed

lemma remove_index_length: "i < length xs \<Longrightarrow> length (remove_index i xs) < length xs"
  by (simp add: remove_index_def)

lemma remove_index_mset: "i < length xs \<Longrightarrow> mset xs = add_mset (xs ! i) (mset (remove_index i xs))"
proof -
  assume "i < length xs"
  then have "mset xs = mset (take i xs @ xs ! i # drop (Suc i) xs)" by (simp add: id_take_nth_drop [symmetric])
  then show ?thesis by (simp add: remove_index_def)
qed

lemma remove_index_set: "i < length xs \<Longrightarrow> set (remove_index i xs) \<subseteq> set xs"
  by (metis remove_index_mset set_mset_add_mset_insert set_mset_mset subset_insertI)

text \<open>
  The wait the event loop derives from \<^verbatim>\<open>nearEndMs\<close> never reaches past a pending timer, and it ends at the
  nearest one.
\<close>

lemma nearEndMs_bounds:
  assumes "pick_ok pick" "mTimers m \<noteq> []"
  shows "\<forall>t \<in> set (mTimers m). nearEndMs pick now m \<le> max 0 (end_time m t - now)"
    and "\<exists>t \<in> set (mTimers m). nearEndMs pick now m = max 0 (end_time m t - now)"
proof -
  have eq: "nearEndMs pick now m = max 0 (end_time m (mTimers m ! top_index pick m) - now)"
    using assms(2) by (simp add: nearEndMs_def Let_def end_time_def)
  then show "\<forall>t \<in> set (mTimers m). nearEndMs pick now m \<le> max 0 (end_time m t - now)"
    using top_index_ok(2) [OF assms] by fastforce
  show "\<exists>t \<in> set (mTimers m). nearEndMs pick now m = max 0 (end_time m t - now)"
    using eq top_index_ok(1) [OF assms] nth_mem by blast
qed

section \<open>Running the due timers\<close>

text \<open>
  Callbacks that leave the timers alone. \<open>seen\<close> is any record of the callbacks run that the state keeps outside the
  timers.
\<close>

definition quiet ::
  "('p \<Rightarrow> ('p, 'a) timer_mgr_scheme \<Rightarrow> ('p, 'a) timer_mgr_scheme option) \<Rightarrow>
   (('p, 'a) timer_mgr_scheme \<Rightarrow> 'p list) \<Rightarrow> bool" where
  "quiet exec seen \<longleftrightarrow>
     (\<forall>p m. \<exists>m'. exec p m = Some m' \<and> timer_objs m' = timer_objs m \<and> mTimers m' = mTimers m \<and>
        timer_refs m' = timer_refs m \<and> seen m' = seen m @ [p]) \<and>
     (\<forall>m ts rs. seen (m\<lparr>mTimers := ts, timer_refs := rs\<rparr>) = seen m)"

lemma quiet_call:
  fixes exec :: "'p \<Rightarrow> ('p, 'a) timer_mgr_scheme \<Rightarrow> ('p, 'a) timer_mgr_scheme option"
  assumes "quiet exec seen" "i < length (mTimers m)"
  shows "\<exists>m'. timer_call exec (mTimers m ! i) (pop_top i m) = Some m' \<and>
    timer_objs (drop_ref m') = timer_objs m \<and> mTimers (drop_ref m') = remove_index i (mTimers m) \<and>
    timer_refs (drop_ref m') = timer_refs m \<and>
    seen (drop_ref m') = seen m @ (if mActive (timer_at m (mTimers m ! i))
      then [mCallback (timer_at m (mTimers m ! i))] else [])"
proof -
  define p where "p = mCallback (timer_at m (mTimers m ! i))"
  have keep: "seen (m\<lparr>mTimers := ts, timer_refs := rs\<rparr>) = seen m" for m :: "('p, 'a) timer_mgr_scheme" and ts rs
    using assms(1) by (simp add: quiet_def)
  obtain m' where m': "exec p (pop_top i m) = Some m'" "timer_objs m' = timer_objs (pop_top i m)"
    "mTimers m' = mTimers (pop_top i m)" "timer_refs m' = timer_refs (pop_top i m)"
    "seen m' = seen (pop_top i m) @ [p]"
    using assms(1) unfolding quiet_def by blast
  have refs: "seen (drop_ref k) = seen k" for k :: "('p, 'a) timer_mgr_scheme"
    using keep [where m = k and ts = "mTimers k" and rs = "tl (timer_refs k)"] by (simp add: drop_ref_def)
  have pop: "seen (pop_top i m) = seen m" by (simp add: pop_top_def keep)
  show ?thesis
  proof (cases "mActive (timer_at m (mTimers m ! i))")
    case True
    then show ?thesis using m' refs pop
      by (simp add: timer_call_def p_def timer_at_def pop_top_def drop_ref_def)
  next
    case False
    then show ?thesis using refs pop
      by (simp add: timer_call_def timer_at_def) (simp add: pop_top_def drop_ref_def)
  qed
qed

text \<open>
  C36. \<^verbatim>\<open>TimerMgr::schedule\<close> ends, and it runs exactly the active timers whose end time lies before the present, in
  the order of their end times; every other timer stays queued. Stated for callbacks that do not touch the timers, for a clock that
  does not advance during the pass, and for every way the priority queue may order equal end times. A callback that arms a timer
  again, as the one that checks a connection may, can keep a pass going.
\<close>

theorem schedule_fires_due:
  fixes exec :: "'p \<Rightarrow> ('p, 'a) timer_mgr_scheme \<Rightarrow> ('p, 'a) timer_mgr_scheme option"
  assumes "pick_ok pick" "quiet exec seen" "\<forall>m. now m = n"
  shows "\<exists>m' ts. schedule pick now exec m = Some m' \<and>
    mset ts + mset (mTimers m') = mset (mTimers m) \<and> sorted (map (end_time m) ts) \<and>
    (\<forall>t \<in> set ts. end_time m t < n) \<and> (\<forall>t \<in> set (mTimers m'). n \<le> end_time m t) \<and>
    seen m' = seen m @ map (\<lambda>t. mCallback (timer_at m t)) (filter (\<lambda>t. mActive (timer_at m t)) ts)"
proof (induction "length (mTimers m)" arbitrary: m rule: less_induct)
  case less
  let ?i = "top_index pick m"
  let ?t = "mTimers m ! ?i"
  show ?case
  proof (cases "mTimers m = []")
    case True
    then show ?thesis by (subst schedule.simps) simp
  next
    case False
    note top = top_index_ok [OF assms(1) False]
    show ?thesis
    proof (cases "end_time m ?t < n")
      case due: True
      obtain m1 where m1: "timer_call exec ?t (pop_top ?i m) = Some m1"
        "timer_objs (drop_ref m1) = timer_objs m" "mTimers (drop_ref m1) = remove_index ?i (mTimers m)"
        "seen (drop_ref m1) = seen m @ (if mActive (timer_at m ?t) then [mCallback (timer_at m ?t)] else [])"
        using quiet_call [OF assms(2) top(1)] by blast
      have same: "timer_at (drop_ref m1) = timer_at m" "end_time (drop_ref m1) = end_time m"
        by (simp_all add: fun_eq_iff timer_at_def end_time_def m1(2))
      obtain m' ts where ih: "schedule pick now exec (drop_ref m1) = Some m'"
        "mset ts + mset (mTimers m') = mset (remove_index ?i (mTimers m))" "sorted (map (end_time m) ts)"
        "\<forall>t \<in> set ts. end_time m t < n" "\<forall>t \<in> set (mTimers m'). n \<le> end_time m t"
        "seen m' = seen (drop_ref m1) @ map (\<lambda>t. mCallback (timer_at m t)) (filter (\<lambda>t. mActive (timer_at m t)) ts)"
        using less [of "drop_ref m1"] remove_index_length [OF top(1)] unfolding same m1(3) by blast
      have "set ts \<subseteq> set (remove_index ?i (mTimers m))"
        using arg_cong [OF ih(2), of set_mset] by auto
      then have "\<forall>t \<in> set ts. end_time m ?t \<le> end_time m t"
        using top(2) remove_index_set [OF top(1)] by blast
      then have "sorted (map (end_time m) (?t # ts))" using ih(3) by simp
      moreover have "mset (?t # ts) + mset (mTimers m') = mset (mTimers m)"
        using ih(2) remove_index_mset [OF top(1)] by simp
      moreover have "schedule pick now exec m = Some m'"
        using False due ih(1) m1(1) assms(3) by (subst schedule.simps) (simp add: Let_def end_time_def)
      moreover have "\<forall>t \<in> set (?t # ts). end_time m t < n" using ih(4) due by simp
      ultimately show ?thesis using ih(5,6) m1(4) by (intro exI [of _ m'] exI [of _ "?t # ts"]) simp
    next
      case late: False
      then have "\<forall>t \<in> set (mTimers m). n \<le> end_time m t" using top(2) by fastforce
      moreover have "schedule pick now exec m = Some m"
        using False late assms(3) by (subst schedule.simps) (simp add: Let_def end_time_def)
      ultimately show ?thesis by (intro exI [of _ m] exI [of _ "[]"]) simp
    qed
  qed
qed

record 'p timer_log = "'p timer_mgr" +
  timer_fired :: "'p list"

lemma logging_quiet: "quiet (\<lambda>p m. Some (m\<lparr>timer_fired := timer_fired m @ [p]\<rparr>)) timer_fired"
  by (simp add: quiet_def)

definition sample_timers :: "char timer_log" where
  "sample_timers =
     \<lparr>timer_objs = [\<lparr>mActive = True, mCallback = CHR ''a'', mEndTime = 9\<rparr>,
                    \<lparr>mActive = True, mCallback = CHR ''b'', mEndTime = 3\<rparr>,
                    \<lparr>mActive = True, mCallback = CHR ''c'', mEndTime = 10\<rparr>],
      mTimers = [0, 1, 2], timer_refs = [], timer_fired = []\<rparr>"

theorem schedule_fires_due_witness:
  "(\<exists>m' ts. schedule first_least (\<lambda>_. 10) (\<lambda>p m. Some (m\<lparr>timer_fired := timer_fired m @ [p]\<rparr>)) sample_timers = Some m' \<and>
      mset ts + mset (mTimers m') = mset (mTimers sample_timers) \<and> sorted (map (end_time sample_timers) ts)) \<and>
   map_option timer_fired
     (schedule first_least (\<lambda>_. 10) (\<lambda>p m. Some (m\<lparr>timer_fired := timer_fired m @ [p]\<rparr>)) sample_timers) = Some ''ba''"
proof (rule conjI)
  show "\<exists>m' ts. schedule first_least (\<lambda>_. 10) (\<lambda>p m. Some (m\<lparr>timer_fired := timer_fired m @ [p]\<rparr>)) sample_timers = Some m' \<and>
      mset ts + mset (mTimers m') = mset (mTimers sample_timers) \<and> sorted (map (end_time sample_timers) ts)"
    using schedule_fires_due [OF first_least_ok logging_quiet, of "\<lambda>_. 10" 10 sample_timers] by blast
qed code_simp

end
