(* ===== verification/Event_Loop.thy ===== *)
theory Event_Loop
  imports Timer_Mgr "HOL-Library.Monad_Syntax"
begin

text \<open>
  The event loop of \<^verbatim>\<open>src/net/EventLoop.cpp\<close>, in its Linux build. A function object handed to the loop is a value
  of type \<open>'p\<close>, and \<open>exec\<close> runs one on the state, which may be any extension of the record. \<^verbatim>\<open>epoll_wait\<close> is an
  argument, as are the virtual methods of a channel. \<open>None\<close> is a failed assertion, a failing callback or a run that does not
  end.

  Threads other than the loop's share four variables with it: the queue \<^verbatim>\<open>mAsyncProcs\<close>, the two flags and the
  eventfd. Each access to them is one function here, and the step relation of the last sections interleaves these
  accesses freely.
\<close>

section \<open>State\<close>

text \<open>
  \<open>wakeup_edge\<close> holds when the eventfd was written after \<^verbatim>\<open>epoll_wait\<close> last reported it (it is registered
  edge-triggered).
\<close>

record 'p event_loop = "'p timer_mgr" +
  mEventEntriesNum :: nat
  mIsInBlock :: bool
  mIsAlreadyPostWakeup :: bool
  mAsyncProcs :: "'p list"
  mCopyAsyncProcs :: "'p list"
  mAfterLoopProcs :: "'p list"
  mCopyAfterLoopProcs :: "'p list"
  mIsInitThreadID :: bool
  mSelfThreadid :: int
  wakeup_edge :: bool

text \<open>The flags of a reported event that the loop tests.\<close>

record 'c epoll_event =
  ev_channel :: 'c
  ev_RDHUP :: bool
  ev_IN :: bool
  ev_OUT :: bool

record ('c, 'w) channel_ops =
  ch_canRecv :: "'c \<Rightarrow> 'w \<Rightarrow> 'w option"
  ch_canSend :: "'c \<Rightarrow> 'w \<Rightarrow> 'w option"
  ch_onClose :: "'c \<Rightarrow> 'w \<Rightarrow> 'w option"

type_synonym ('p, 'a) exec = "'p \<Rightarrow> ('p, 'a) event_loop_scheme \<Rightarrow> ('p, 'a) event_loop_scheme option"

section \<open>Thread identity and wake-up\<close>

definition isInLoopThread :: "('p, 'a) event_loop_scheme \<Rightarrow> int \<Rightarrow> bool" where
  "isInLoopThread l tid \<longleftrightarrow> mSelfThreadid l = tid"

definition tryInitThreadID :: "int \<Rightarrow> ('p, 'a) event_loop_scheme \<Rightarrow> ('p, 'a) event_loop_scheme" where
  "tryInitThreadID tid l =
     (if \<not> mIsInitThreadID l then l\<lparr>mIsInitThreadID := True, mSelfThreadid := tid\<rparr> else l)"

text \<open>\<^verbatim>\<open>mIsAlreadyPostWakeup.exchange(true)\<close>.\<close>

definition exchange_wakeup :: "('p, 'a) event_loop_scheme \<Rightarrow> bool \<times> ('p, 'a) event_loop_scheme" where
  "exchange_wakeup l = (mIsAlreadyPostWakeup l, l\<lparr>mIsAlreadyPostWakeup := True\<rparr>)"

text \<open>\<^verbatim>\<open>WakeupChannel::wakeup\<close>.\<close>

definition channel_wakeup :: "('p, 'a) event_loop_scheme \<Rightarrow> ('p, 'a) event_loop_scheme" where
  "channel_wakeup l = l\<lparr>wakeup_edge := True\<rparr>"

definition wakeup :: "int \<Rightarrow> ('p, 'a) event_loop_scheme \<Rightarrow> bool \<times> ('p, 'a) event_loop_scheme" where
  "wakeup tid l =
     (if \<not> isInLoopThread l tid \<and> mIsInBlock l then
        let (was, l') = exchange_wakeup l in if \<not> was then (True, channel_wakeup l') else (False, l')
      else (False, l))"

section \<open>Function objects\<close>

definition push_async :: "'p \<Rightarrow> ('p, 'a) event_loop_scheme \<Rightarrow> ('p, 'a) event_loop_scheme" where
  "push_async f l = l\<lparr>mAsyncProcs := mAsyncProcs l @ [f]\<rparr>"

definition pushAsyncProc ::
  "('p, 'a) exec \<Rightarrow> int \<Rightarrow> 'p \<Rightarrow> ('p, 'a) event_loop_scheme \<Rightarrow> ('p, 'a) event_loop_scheme option" where
  "pushAsyncProc exec tid f l =
     (if \<not> isInLoopThread l tid then Some (snd (wakeup tid (push_async f l))) else exec f l)"

definition pushAfterLoopProc ::
  "int \<Rightarrow> 'p \<Rightarrow> ('p, 'a) event_loop_scheme \<Rightarrow> ('p, 'a) event_loop_scheme option" where
  "pushAfterLoopProc tid f l =
     (if isInLoopThread l tid then Some (l\<lparr>mAfterLoopProcs := mAfterLoopProcs l @ [f]\<rparr>) else None)"

fun run_procs :: "('p \<Rightarrow> 'w \<Rightarrow> 'w option) \<Rightarrow> 'p list \<Rightarrow> 'w \<Rightarrow> 'w option" where
  "run_procs exec [] w = Some w"
| "run_procs exec (x # xs) w = (case exec x w of None \<Rightarrow> None | Some w' \<Rightarrow> run_procs exec xs w')"

definition processAfterLoopProcs ::
  "('p, 'a) exec \<Rightarrow> ('p, 'a) event_loop_scheme \<Rightarrow> ('p, 'a) event_loop_scheme option" where
  "processAfterLoopProcs exec l =
     (let l' = l\<lparr>mCopyAfterLoopProcs := mAfterLoopProcs l, mAfterLoopProcs := mCopyAfterLoopProcs l\<rparr> in
      do { l'' \<leftarrow> run_procs exec (mCopyAfterLoopProcs l') l'; Some (l''\<lparr>mCopyAfterLoopProcs := []\<rparr>) })"

text \<open>The exchange of the two vectors under the mutex.\<close>

definition swap_async :: "('p, 'a) event_loop_scheme \<Rightarrow> ('p, 'a) event_loop_scheme" where
  "swap_async l = l\<lparr>mCopyAsyncProcs := mAsyncProcs l, mAsyncProcs := mCopyAsyncProcs l\<rparr>"

definition clear_async :: "('p, 'a) event_loop_scheme \<Rightarrow> ('p, 'a) event_loop_scheme" where
  "clear_async l = l\<lparr>mCopyAsyncProcs := []\<rparr>"

definition processAsyncProcs ::
  "('p, 'a) exec \<Rightarrow> ('p, 'a) event_loop_scheme \<Rightarrow> ('p, 'a) event_loop_scheme option" where
  "processAsyncProcs exec l =
     (let l' = swap_async l in
      do { l'' \<leftarrow> run_procs exec (mCopyAsyncProcs l') l'; Some (clear_async l'') })"

section \<open>One iteration\<close>

definition dispatch_event :: "('c, 'w) channel_ops \<Rightarrow> 'c epoll_event \<Rightarrow> 'w \<Rightarrow> 'w option" where
  "dispatch_event ops ev w =
     (if ev_RDHUP ev then do { w' \<leftarrow> ch_canRecv ops (ev_channel ev) w; ch_onClose ops (ev_channel ev) w' }
      else do {
        w' \<leftarrow> (if ev_IN ev then ch_canRecv ops (ev_channel ev) w else Some w);
        (if ev_OUT ev then ch_canSend ops (ev_channel ev) w' else Some w') })"

definition leave_block :: "('p, 'a) event_loop_scheme \<Rightarrow> ('p, 'a) event_loop_scheme" where
  "leave_block l = l\<lparr>mIsInBlock := False\<rparr>"

definition reset_wakeup :: "('p, 'a) event_loop_scheme \<Rightarrow> ('p, 'a) event_loop_scheme" where
  "reset_wakeup l = l\<lparr>mIsAlreadyPostWakeup := False\<rparr>"

definition enter_block :: "('p, 'a) event_loop_scheme \<Rightarrow> ('p, 'a) event_loop_scheme" where
  "enter_block l = l\<lparr>mIsInBlock := True\<rparr>"

definition reallocEventSize :: "nat \<Rightarrow> ('p, 'a) event_loop_scheme \<Rightarrow> ('p, 'a) event_loop_scheme" where
  "reallocEventSize n l = l\<lparr>mEventEntriesNum := n\<rparr>"

text \<open>
  \<open>epoll_wait timeout maxevents\<close> gives the reported events and the state after the wait; a failing call reports
  none.
\<close>

definition loop ::
  "(int list \<Rightarrow> nat) \<Rightarrow> (('p, 'a) event_loop_scheme \<Rightarrow> int) \<Rightarrow> ('c, ('p, 'a) event_loop_scheme) channel_ops \<Rightarrow>
   ('p, 'a) exec \<Rightarrow>
   (int \<Rightarrow> nat \<Rightarrow> ('p, 'a) event_loop_scheme \<Rightarrow> 'c epoll_event list \<times> ('p, 'a) event_loop_scheme) \<Rightarrow>
   int \<Rightarrow> int \<Rightarrow> ('p, 'a) event_loop_scheme \<Rightarrow> ('p, 'a) event_loop_scheme option" where
  "loop pick now ops exec epoll_wait tid timeout l =
     (let l0 = tryInitThreadID tid l in
      if \<not> isInLoopThread l0 tid then None
      else
        let timeout' = (if mAfterLoopProcs l0 \<noteq> [] then 0 else timeout);
            (events, l1) = epoll_wait timeout' (mEventEntriesNum l0) l0
        in do {
          l2 \<leftarrow> run_procs (dispatch_event ops) events (leave_block l1);
          l3 \<leftarrow> processAsyncProcs exec (enter_block (reset_wakeup l2));
          l4 \<leftarrow> processAfterLoopProcs exec l3;
          schedule pick now exec
            (if length events = mEventEntriesNum l4 then reallocEventSize (mEventEntriesNum l4 + 128) l4 else l4) })"

definition new_event_loop :: "'p event_loop" where
  "new_event_loop =
     \<lparr>timer_objs = [], mTimers = [], timer_refs = [], mEventEntriesNum = 1024, mIsInBlock = True,
      mIsAlreadyPostWakeup = False, mAsyncProcs = [], mCopyAsyncProcs = [], mAfterLoopProcs = [],
      mCopyAfterLoopProcs = [], mIsInitThreadID = False, mSelfThreadid = -1, wakeup_edge = False\<rparr>"

section \<open>Interleaved threads\<close>

text \<open>
  The loop thread is before one of its accesses to the shared variables: waiting in \<^verbatim>\<open>epoll_wait\<close>, at one of the
  assignments to the flags, at the exchange of the vectors, or running the function objects it took. A producer
  calls \<^verbatim>\<open>pushAsyncProc\<close>: after the push it tests \<^verbatim>\<open>mIsInBlock\<close>, exchanges the other flag and writes the eventfd.
\<close>

datatype 'p loop_pc =
  Wait | Leave_Block | Dispatch | Reset_Wakeup | Enter_Block | Swap_Procs | Running "'p list"

datatype producer_pc = Idle | Test_Block | Exchange | Write_Event

record 'p shared_loop =
  evl :: "'p event_loop"
  loop_at :: "'p loop_pc"
  producer_at :: "nat \<Rightarrow> producer_pc"

text \<open>The function objects and channels that the loop runs leave the four shared variables alone.\<close>

definition same_shared :: "'p event_loop \<Rightarrow> 'p event_loop \<Rightarrow> bool" where
  "same_shared l l' \<longleftrightarrow>
     mAsyncProcs l' = mAsyncProcs l \<and> mIsInBlock l' = mIsInBlock l \<and>
     mIsAlreadyPostWakeup l' = mIsAlreadyPostWakeup l \<and> wakeup_edge l' = wakeup_edge l \<and>
     mCopyAsyncProcs l' = mCopyAsyncProcs l"

inductive loop_step :: "'p shared_loop \<Rightarrow> 'p handoff_event \<Rightarrow> 'p shared_loop \<Rightarrow> bool" where
  wait_returns:
    "loop_at s = Wait \<Longrightarrow> l' = (evl s)\<lparr>wakeup_edge := False\<rparr> \<or> l' = evl s \<Longrightarrow>
     loop_step s Internal (s\<lparr>evl := l', loop_at := Leave_Block\<rparr>)"
| leave: "loop_at s = Leave_Block \<Longrightarrow> loop_step s Internal (s\<lparr>evl := leave_block (evl s), loop_at := Dispatch\<rparr>)"
| dispatch:
    "loop_at s = Dispatch \<Longrightarrow> same_shared (evl s) l' \<Longrightarrow>
     loop_step s Internal (s\<lparr>evl := l', loop_at := Reset_Wakeup\<rparr>)"
| reset: "loop_at s = Reset_Wakeup \<Longrightarrow> loop_step s Internal (s\<lparr>evl := reset_wakeup (evl s), loop_at := Enter_Block\<rparr>)"
| enter: "loop_at s = Enter_Block \<Longrightarrow> loop_step s Internal (s\<lparr>evl := enter_block (evl s), loop_at := Swap_Procs\<rparr>)"
| swap:
    "loop_at s = Swap_Procs \<Longrightarrow>
     loop_step s Internal (s\<lparr>evl := swap_async (evl s), loop_at := Running (mAsyncProcs (evl s))\<rparr>)"
| run_one:
    "loop_at s = Running (p # ps) \<Longrightarrow> same_shared (evl s) l' \<Longrightarrow>
     loop_step s (Popped p) (s\<lparr>evl := l', loop_at := Running ps\<rparr>)"
| run_done:
    "loop_at s = Running [] \<Longrightarrow> same_shared (clear_async (evl s)) l' \<Longrightarrow>
     loop_step s Internal (s\<lparr>evl := l', loop_at := Wait\<rparr>)"
| push:
    "producer_at s i = Idle \<Longrightarrow>
     loop_step s (Pushed p) (s\<lparr>evl := push_async p (evl s), producer_at := (producer_at s)(i := Test_Block)\<rparr>)"
| test_block:
    "producer_at s i = Test_Block \<Longrightarrow>
     loop_step s Internal (s\<lparr>producer_at := (producer_at s)(i := if mIsInBlock (evl s) then Exchange else Idle)\<rparr>)"
| exchange:
    "producer_at s i = Exchange \<Longrightarrow> exchange_wakeup (evl s) = (was, l') \<Longrightarrow>
     loop_step s Internal (s\<lparr>evl := l', producer_at := (producer_at s)(i := if was then Idle else Write_Event)\<rparr>)"
| write_event:
    "producer_at s i = Write_Event \<Longrightarrow>
     loop_step s Internal (s\<lparr>evl := channel_wakeup (evl s), producer_at := (producer_at s)(i := Idle)\<rparr>)"

text \<open>The loop thread enters the relation when its thread first calls \<^verbatim>\<open>loop\<close>; no producer is in a call.\<close>

definition start_loop :: "'p shared_loop" where
  "start_loop = \<lparr>evl = new_event_loop, loop_at = Wait, producer_at = (\<lambda>_. Idle)\<rparr>"

text \<open>The function objects pushed and not yet run.\<close>

fun taken_procs :: "'p loop_pc \<Rightarrow> 'p list" where
  "taken_procs (Running ps) = ps"
| "taken_procs _ = []"

definition pending_procs :: "'p shared_loop \<Rightarrow> 'p list" where
  "pending_procs s = taken_procs (loop_at s) @ mAsyncProcs (evl s)"

definition copy_wf :: "'p shared_loop \<Rightarrow> bool" where
  "copy_wf s \<longleftrightarrow> (\<forall>ps. loop_at s \<noteq> Running ps) \<longrightarrow> mCopyAsyncProcs (evl s) = []"

lemma copy_wf_step:
  assumes "loop_step s e s'" "copy_wf s"
  shows "copy_wf s'"
  using assms
  by (cases rule: loop_step.cases)
    (auto simp: copy_wf_def leave_block_def reset_wakeup_def enter_block_def swap_async_def clear_async_def
      push_async_def exchange_wakeup_def channel_wakeup_def same_shared_def)

lemma copy_wf_start: "copy_wf start_loop"
  by (simp add: copy_wf_def start_loop_def new_event_loop_def)

definition wf_step :: "'p shared_loop \<Rightarrow> 'p handoff_event \<Rightarrow> 'p shared_loop \<Rightarrow> bool" where
  "wf_step s e s' \<longleftrightarrow> loop_step s e s' \<and> copy_wf s"

lemma wf_run: "handoff_run loop_step s es t \<Longrightarrow> copy_wf s \<Longrightarrow> handoff_run wf_step s es t"
proof (induction rule: handoff_run.induct)
  case (run_cons s e s' es t)
  have "wf_step s e s'" using run_cons by (simp add: wf_step_def)
  moreover have "handoff_run wf_step s' es t" using run_cons copy_wf_step by blast
  ultimately show ?case by (rule handoff_run.run_cons)
qed (rule handoff_run.run_nil)

lemmas shared_updates = leave_block_def reset_wakeup_def enter_block_def swap_async_def clear_async_def
  push_async_def exchange_wakeup_def channel_wakeup_def same_shared_def

interpretation evloop: handoff wf_step pending_procs
proof
  fix s s' :: "'p shared_loop" and m
  show "pending_procs s' = pending_procs s @ [m]" if "wf_step s (Pushed m) s'"
    using that unfolding wf_step_def by (auto elim!: loop_step.cases simp: pending_procs_def shared_updates)
  show "pending_procs s = m # pending_procs s'" if "wf_step s (Popped m) s'"
    using that unfolding wf_step_def by (auto elim!: loop_step.cases simp: pending_procs_def shared_updates)
  show "mset (pending_procs s) = add_mset m (mset (pending_procs s'))" if "wf_step s (Popped_Back m) s'"
    using that unfolding wf_step_def by (auto elim: loop_step.cases)
  show "pending_procs s' = pending_procs s" if "wf_step s Internal s'"
  proof -
    have "loop_step s Internal s'" "copy_wf s" using that by (simp_all add: wf_step_def)
    then show ?thesis
      by (cases rule: loop_step.cases) (auto simp: pending_procs_def shared_updates copy_wf_def)
  qed
qed

lemma loop_front_only: "handoff_run loop_step s es t \<Longrightarrow> front_only es"
proof (induction rule: handoff_run.induct)
  case (run_cons s e s' es t)
  have "e \<noteq> Popped_Back m" for m using run_cons(1) by (auto elim: loop_step.cases)
  then show ?case using run_cons(3) by (cases e) auto
qed simp

text \<open>
  C10. Over every interleaving of the loop thread with any number of threads that call \<^verbatim>\<open>pushAsyncProc\<close>, the function
  objects are run in the order in which they were pushed, each exactly once: what was pushed is what has run followed by what is
  still pending.
\<close>

theorem async_procs_fifo:
  assumes "handoff_run loop_step start_loop es s"
  shows "pushed es = popped es @ pending_procs s"
proof -
  have "pending_procs start_loop @ pushed es = popped es @ pending_procs s"
    by (rule evloop.run_fifo [OF wf_run [OF assms copy_wf_start] loop_front_only [OF assms]])
  then show ?thesis by (simp add: pending_procs_def start_loop_def new_event_loop_def)
qed

section \<open>No lost wake-up\<close>





definition some_producer :: "(nat \<Rightarrow> producer_pc) \<Rightarrow> producer_pc \<Rightarrow> bool" where
  "some_producer at_pc pc \<longleftrightarrow> (\<exists>i. at_pc i = pc)"

lemma some_producer_new [simp]: "some_producer (f(i := pc)) pc"
  by (auto simp: some_producer_def)








text \<open>A call of \<^verbatim>\<open>pushAsyncProc\<close> by another thread is the sequence of its steps.\<close>

lemma pushAsyncProc_steps:
  assumes "producer_at s i = Idle" "mSelfThreadid (evl s) \<noteq> tid" "pushAsyncProc exec tid p (evl s) = Some l"
  shows "\<exists>es. handoff_run loop_step s es (s\<lparr>evl := l\<rparr>) \<and> pushed es = [p] \<and> popped es = []"
proof -
  let ?at = "\<lambda>l pc. s\<lparr>evl := l, producer_at := (producer_at s)(i := pc)\<rparr>"
  let ?l = "push_async p (evl s)"
  have idle: "?at l' Idle = s\<lparr>evl := l'\<rparr>" for l' using assms(1) by (simp add: fun_upd_idem)
  have 1: "loop_step s (Pushed p) (?at ?l Test_Block)" using loop_step.push [OF assms(1)] .
  have 2: "loop_step (?at ?l Test_Block) Internal (?at ?l (if mIsInBlock ?l then Exchange else Idle))"
    using loop_step.test_block [of "?at ?l Test_Block" i] by simp
  have 3: "loop_step (?at k Exchange) Internal
      (?at (k\<lparr>mIsAlreadyPostWakeup := True\<rparr>) (if mIsAlreadyPostWakeup k then Idle else Write_Event))" for k
    using loop_step.exchange [of "?at k Exchange" i] by (simp add: exchange_wakeup_def)
  have 4: "loop_step (?at k Write_Event) Internal (?at (channel_wakeup k) Idle)" for k
    using loop_step.write_event [of "?at k Write_Event" i] by simp
  have self: "\<not> isInLoopThread (evl s) tid" "\<not> isInLoopThread ?l tid"
    using assms(2) by (simp_all add: isInLoopThread_def push_async_def)
  consider (a) "\<not> mIsInBlock ?l" | (b) "mIsInBlock ?l" "mIsAlreadyPostWakeup ?l"
    | (c) "mIsInBlock ?l" "\<not> mIsAlreadyPostWakeup ?l" by blast
  then show ?thesis
  proof cases
    case a
    then have "l = ?l" using assms(3) self by (simp add: pushAsyncProc_def wakeup_def)
    then have "handoff_run loop_step s [Pushed p, Internal] (s\<lparr>evl := l\<rparr>)"
      using 1 2 a idle by (auto intro!: handoff_run.intros)
    then show ?thesis by (intro exI [of _ "[Pushed p, Internal]"]) simp
  next
    case b
    then have "l = ?l\<lparr>mIsAlreadyPostWakeup := True\<rparr>"
      using assms(3) self by (simp add: pushAsyncProc_def wakeup_def exchange_wakeup_def)
    then have "handoff_run loop_step s [Pushed p, Internal, Internal] (s\<lparr>evl := l\<rparr>)"
      using 1 2 3 [of ?l] b idle by (auto intro!: handoff_run.intros)
    then show ?thesis by (intro exI [of _ "[Pushed p, Internal, Internal]"]) simp
  next
    case c
    then have "l = channel_wakeup (?l\<lparr>mIsAlreadyPostWakeup := True\<rparr>)"
      using assms(3) self by (simp add: pushAsyncProc_def wakeup_def exchange_wakeup_def)
    then have "handoff_run loop_step s [Pushed p, Internal, Internal, Internal] (s\<lparr>evl := l\<rparr>)"
      using 1 2 3 [of ?l] 4 [of "?l\<lparr>mIsAlreadyPostWakeup := True\<rparr>"] c idle by (auto intro!: handoff_run.intros)
    then show ?thesis by (intro exI [of _ "[Pushed p, Internal, Internal, Internal]"]) simp
  qed
qed

lemma one_push:
  "\<exists>es. handoff_run loop_step start_loop es (start_loop\<lparr>evl := channel_wakeup (push_async p new_event_loop\<lparr>mIsAlreadyPostWakeup := True\<rparr>)\<rparr>) \<and>
     pushed es = [p] \<and> popped es = []"
  by (rule pushAsyncProc_steps [where i = 0 and tid = 7 and exec = "\<lambda>_ _. None"])
    (simp_all add: start_loop_def new_event_loop_def pushAsyncProc_def wakeup_def exchange_wakeup_def isInLoopThread_def push_async_def)

theorem async_procs_fifo_witness:
  "\<exists>es. handoff_run loop_step start_loop es
      (start_loop\<lparr>evl := channel_wakeup (push_async True new_event_loop\<lparr>mIsAlreadyPostWakeup := True\<rparr>)\<rparr>) \<and>
    pushed es = popped es @ [True]"
proof -
  obtain es where es: "handoff_run loop_step start_loop es
      (start_loop\<lparr>evl := channel_wakeup (push_async True new_event_loop\<lparr>mIsAlreadyPostWakeup := True\<rparr>)\<rparr>)"
    using one_push [of True] by blast
  then show ?thesis using async_procs_fifo [OF es]
    by (auto simp: pending_procs_def start_loop_def new_event_loop_def channel_wakeup_def push_async_def)
qed


section \<open>Function objects at the end of an iteration\<close>

text \<open>
  The objects queued for the end of the iteration are run once, in order; those they queue in turn are left for the next
  iteration, so the pass ends even when an object queues itself again. \<open>spawn p\<close> is what \<open>p\<close> queues.
\<close>

lemma run_procs_batch:
  fixes exec :: "('p, 'a) exec"
  assumes "\<And>p l. \<exists>l'. exec p l = Some l' \<and> seen l' = seen l @ [p] \<and> mAfterLoopProcs l' = mAfterLoopProcs l @ spawn p"
  shows "\<exists>l'. run_procs exec ps l = Some l' \<and> seen l' = seen l @ ps \<and>
    mAfterLoopProcs l' = mAfterLoopProcs l @ concat (map spawn ps)"
proof (induction ps arbitrary: l)
  case (Cons p ps)
  obtain l1 where "exec p l = Some l1" "seen l1 = seen l @ [p]" "mAfterLoopProcs l1 = mAfterLoopProcs l @ spawn p"
    using assms by blast
  then show ?case using Cons [of l1] by auto
qed simp

theorem after_procs_once:
  fixes exec :: "('p, 'a) exec"
  assumes "\<And>p l. \<exists>l'. exec p l = Some l' \<and> seen l' = seen l @ [p] \<and> mAfterLoopProcs l' = mAfterLoopProcs l @ spawn p"
    and "\<And>l xs ys. seen (l\<lparr>mCopyAfterLoopProcs := ys, mAfterLoopProcs := xs\<rparr>) = seen l"
    and "mCopyAfterLoopProcs l = []"
  shows "\<exists>l'. processAfterLoopProcs exec l = Some l' \<and> seen l' = seen l @ mAfterLoopProcs l \<and>
    mAfterLoopProcs l' = concat (map spawn (mAfterLoopProcs l)) \<and> mCopyAfterLoopProcs l' = []"
proof -
  let ?l = "l\<lparr>mCopyAfterLoopProcs := mAfterLoopProcs l, mAfterLoopProcs := mCopyAfterLoopProcs l\<rparr>"
  obtain l1 where l1: "run_procs exec (mCopyAfterLoopProcs ?l) ?l = Some l1"
    "seen l1 = seen ?l @ mAfterLoopProcs l" "mAfterLoopProcs l1 = concat (map spawn (mAfterLoopProcs l))"
    using run_procs_batch [of exec seen spawn "mCopyAfterLoopProcs ?l" ?l, OF assms(1)] assms(3) by auto
  have "seen ?l = seen l"
    using assms(2) [where l = l and xs = "mCopyAfterLoopProcs l" and ys = "mAfterLoopProcs l"] by simp
  moreover have "seen (l1\<lparr>mCopyAfterLoopProcs := []\<rparr>) = seen l1"
    using assms(2) [where l = l1 and xs = "mAfterLoopProcs l1" and ys = "[]"] by simp
  ultimately show ?thesis using l1 by (simp add: processAfterLoopProcs_def Let_def)
qed

end
