(* ===== verification/Data_Socket.thy ===== *)
theory Data_Socket
  imports Event_Loop Ox_Buffer
begin

text \<open>
  A connection, \<^verbatim>\<open>src/net/DataSocket.cpp\<close>, in its Linux build; with \<^verbatim>\<open>mSSL\<close> null (\<open>False\<close>) it is also the build
  without OpenSSL. The state extends that of the event loop the socket belongs to, and the function objects the
  socket hands to its loop are the values of \<open>sock_proc\<close>.

  The kernel, the TLS library and the user's callbacks are the record \<open>sock_env\<close> over an abstract state \<open>'k\<close>. A
  callback that calls methods of the socket returns these calls; they are performed in order, in the callback's place.
  \<open>None\<close> is a failed assertion, a null pointer that is dereferenced, an access outside the receive buffer, an iterator that
  is used after it was invalidated, or a loop that does not end. A closed descriptor refuses every write.
\<close>

section \<open>State\<close>

datatype sock_proc =
    FlushProc
  | DisConnectProc
  | ShutdownProc
  | CloseProc
  | PostShutdownProc
  | SendProc bytes "nat option"
  | PingProc

text \<open>The public methods a callback or another thread calls.\<close>

datatype sock_call =
    Send bytes "nat option"
  | PostDisConnect
  | PostShutdown
  | SetCheckTime int
  | SetUserData int
  | SetDataCallback bool
  | SetDisConnectCallback bool

text \<open>What the outside observes: a packet taken over, a completion callback, the enter callback, the
  shutdown of the writing side, and the disconnect callback.\<close>

datatype sock_event = Accepted bytes "nat option" | Completed nat | Entered | ShutDown | Disconnected

record pending_packet =
  packet_data :: bytes
  packet_left :: nat
  mCompleteCallback :: "nat option"

text \<open>A callback is \<open>True\<close> when it is set; \<open>check_write\<close> says that \<^verbatim>\<open>EPOLLOUT\<close> is registered.\<close>

record 'k data_socket = "sock_proc event_loop" +
  mFD :: int
  mIsPostFinalClose :: bool
  mCanWrite :: bool
  mEventLoop :: bool
  mRecvBuffer :: "buffer_s option"
  mMaxRecvBufferSize :: size_t
  mSendList :: "pending_packet list"
  mEnterCallback :: bool
  mDataCallback :: bool
  mDisConnectCallback :: bool
  mIsPostFlush :: bool
  mUserData :: int
  mSSLCtx :: bool
  mSSL :: bool
  mIsHandsharked :: bool
  mRecvData :: bool
  mCheckTime :: int
  mTimer :: "nat option"
  check_write :: bool
  env_state :: 'k
  sock_trace :: "sock_event list"

text \<open>
  The calls out of the component. The boolean beside a length is the test of the error code: the operation would block
  (or, for TLS, wants to read or write).
\<close>

record 'k sock_env =
  sys_writev :: "bytes list \<Rightarrow> 'k \<Rightarrow> int \<times> bool \<times> 'k"
  sys_send :: "bytes \<Rightarrow> 'k \<Rightarrow> int \<times> bool \<times> 'k"
  sys_recv :: "nat \<Rightarrow> 'k \<Rightarrow> int \<times> bytes \<times> bool \<times> 'k"
  sys_link :: "'k \<Rightarrow> bool \<times> 'k"
  sys_handshake :: "bool \<Rightarrow> 'k \<Rightarrow> int \<times> bool \<times> 'k"
  sys_malloc :: "size_t \<Rightarrow> bytes option"
  sys_now :: "'k \<Rightarrow> int"
  on_data :: "bytes \<Rightarrow> 'k \<Rightarrow> size_t \<times> sock_call list \<times> 'k"
  on_enter :: "'k \<Rightarrow> sock_call list \<times> 'k"
  on_complete :: "nat \<Rightarrow> 'k \<Rightarrow> sock_call list \<times> 'k"

abbreviation SOCKET_ERROR :: int where "SOCKET_ERROR \<equiv> -1"

definition log_event :: "sock_event \<Rightarrow> 'k data_socket \<Rightarrow> 'k data_socket" where
  "log_event e s = s\<lparr>sock_trace := sock_trace s @ [e]\<rparr>"

section \<open>Closing\<close>

definition closeSocket :: "'k data_socket \<Rightarrow> 'k data_socket" where
  "closeSocket s = (if mFD s \<noteq> SOCKET_ERROR then s\<lparr>mCanWrite := False, mFD := SOCKET_ERROR\<rparr> else s)"

definition onClose :: "int \<Rightarrow> 'k data_socket \<Rightarrow> 'k data_socket option" where
  "onClose tid s =
     (if \<not> mIsPostFinalClose s then
        do { s' \<leftarrow> pushAfterLoopProc tid DisConnectProc s; Some ((closeSocket s')\<lparr>mIsPostFinalClose := True\<rparr>) }
      else Some s)"

definition procCloseInLoop :: "int \<Rightarrow> 'k data_socket \<Rightarrow> 'k data_socket option" where
  "procCloseInLoop tid s = (if mFD s \<noteq> SOCKET_ERROR then onClose tid s else Some s)"

definition procShutdownInLoop :: "'k data_socket \<Rightarrow> 'k data_socket" where
  "procShutdownInLoop s = (if mFD s \<noteq> SOCKET_ERROR then log_event ShutDown (s\<lparr>mCanWrite := False\<rparr>) else s)"

definition checkWrite :: "'k data_socket \<Rightarrow> bool \<times> 'k data_socket" where
  "checkWrite s = (True, if mFD s \<noteq> SOCKET_ERROR then s\<lparr>check_write := True\<rparr> else s)"

definition checkRead :: "'k data_socket \<Rightarrow> bool \<times> 'k data_socket" where
  "checkRead s = (True, s)"

definition removeCheckWrite :: "'k data_socket \<Rightarrow> 'k data_socket" where
  "removeCheckWrite s = (if mFD s \<noteq> SOCKET_ERROR then s\<lparr>check_write := False\<rparr> else s)"

section \<open>Sending\<close>

definition runAfterFlush :: "int \<Rightarrow> 'k data_socket \<Rightarrow> 'k data_socket option" where
  "runAfterFlush tid s =
     (if \<not> mIsPostFlush s \<and> mSendList s \<noteq> [] \<and> mFD s \<noteq> SOCKET_ERROR then
        do { s' \<leftarrow> pushAfterLoopProc tid FlushProc s; Some (s'\<lparr>mIsPostFlush := True\<rparr>) }
      else Some s)"

definition enqueue_packet :: "bytes \<Rightarrow> nat option \<Rightarrow> 'k data_socket \<Rightarrow> 'k data_socket" where
  "enqueue_packet packet callback s =
     log_event (Accepted packet callback)
       (s\<lparr>mSendList := mSendList s @
            [\<lparr>packet_data = packet, packet_left = length packet, mCompleteCallback = callback\<rparr>]\<rparr>)"

definition sendPacketInLoop :: "int \<Rightarrow> bytes \<Rightarrow> nat option \<Rightarrow> 'k data_socket \<Rightarrow> 'k data_socket option" where
  "sendPacketInLoop tid packet callback s =
     (if mEventLoop s \<and> isInLoopThread s tid then runAfterFlush tid (enqueue_packet packet callback s) else None)"

section \<open>The check of the connection by a timer\<close>

definition startPingCheckTimer :: "'k sock_env \<Rightarrow> int \<Rightarrow> 'k data_socket \<Rightarrow> 'k data_socket option" where
  "startPingCheckTimer env tid s =
     (if weak_lock s (mTimer s) = None \<and> mCheckTime s > 0 then
        (let s0 = tryInitThreadID tid s in
         if mEventLoop s \<and> isInLoopThread s0 tid then
           let (t, s') = addTimer (sys_now env (env_state s)) (mCheckTime s) PingProc s0
           in Some (s'\<lparr>mTimer := Some t\<rparr>)
         else None)
      else Some s)"

definition PingCheck :: "'k sock_env \<Rightarrow> int \<Rightarrow> 'k data_socket \<Rightarrow> 'k data_socket option" where
  "PingCheck env tid s =
     (if mRecvData s then startPingCheckTimer env tid (s\<lparr>mRecvData := False\<rparr>) else procCloseInLoop tid s)"

definition setCheckTime :: "'k sock_env \<Rightarrow> int \<Rightarrow> int \<Rightarrow> 'k data_socket \<Rightarrow> 'k data_socket option" where
  "setCheckTime env tid overtime s =
     (if mEventLoop s \<and> isInLoopThread s tid then
        if overtime > 0 then startPingCheckTimer env tid (s\<lparr>mCheckTime := overtime\<rparr>)
        else if overtime = -1 then
          Some ((case weak_lock s (mTimer s) of None \<Rightarrow> s | Some t \<Rightarrow> cancel t s)\<lparr>mCheckTime := -1\<rparr>)
        else Some s
      else None)"

section \<open>The public methods\<close>

text \<open>The function objects that the methods hand to the loop; in the loop thread they run at once.\<close>

definition posted_exec :: "int \<Rightarrow> sock_proc \<Rightarrow> 'k data_socket \<Rightarrow> 'k data_socket option" where
  "posted_exec tid p s =
     (case p of
        CloseProc \<Rightarrow> procCloseInLoop tid s
      | PostShutdownProc \<Rightarrow> if mFD s \<noteq> SOCKET_ERROR then pushAfterLoopProc tid ShutdownProc s else Some s
      | SendProc packet callback \<Rightarrow> runAfterFlush tid (enqueue_packet packet callback s)
      | _ \<Rightarrow> None)"

text \<open>\<^verbatim>\<open>send\<close> makes the packet and calls \<^verbatim>\<open>sendPacket\<close>.\<close>

definition sendPacket :: "int \<Rightarrow> bytes \<Rightarrow> nat option \<Rightarrow> 'k data_socket \<Rightarrow> 'k data_socket option" where
  "sendPacket tid packet callback s =
     (if mEventLoop s then pushAsyncProc (posted_exec tid) tid (SendProc packet callback) s else None)"

definition postDisConnect :: "int \<Rightarrow> 'k data_socket \<Rightarrow> 'k data_socket option" where
  "postDisConnect tid s =
     (if mEventLoop s then pushAsyncProc (posted_exec tid) tid CloseProc s else Some s)"

definition postShutdown :: "int \<Rightarrow> 'k data_socket \<Rightarrow> 'k data_socket option" where
  "postShutdown tid s =
     (if mEventLoop s then pushAsyncProc (posted_exec tid) tid PostShutdownProc s else Some s)"

definition perform :: "'k sock_env \<Rightarrow> int \<Rightarrow> sock_call \<Rightarrow> 'k data_socket \<Rightarrow> 'k data_socket option" where
  "perform env tid c s =
     (case c of
        Send packet callback \<Rightarrow> sendPacket tid packet callback s
      | PostDisConnect \<Rightarrow> postDisConnect tid s
      | PostShutdown \<Rightarrow> postShutdown tid s
      | SetCheckTime t \<Rightarrow> setCheckTime env tid t s
      | SetUserData v \<Rightarrow> Some (s\<lparr>mUserData := v\<rparr>)
      | SetDataCallback b \<Rightarrow> Some (s\<lparr>mDataCallback := b\<rparr>)
      | SetDisConnectCallback b \<Rightarrow> Some (s\<lparr>mDisConnectCallback := b\<rparr>))"

section \<open>Flushing\<close>

text \<open>The unsent rest of a packet.\<close>

definition left_bytes :: "pending_packet \<Rightarrow> bytes" where
  "left_bytes b = drop (length (packet_data b) - packet_left b) (packet_data b)"

text \<open>
  A completion callback runs in the loop over \<^verbatim>\<open>mSendList\<close>, with its packet still in the list.
\<close>

definition call_complete :: "'k sock_env \<Rightarrow> int \<Rightarrow> nat \<Rightarrow> 'k data_socket \<Rightarrow> 'k data_socket option" where
  "call_complete env tid c s =
     (case on_complete env c (env_state s) of
        (calls, k) \<Rightarrow> run_procs (perform env tid) calls (log_event (Completed c) (s\<lparr>env_state := k\<rparr>)))"

text \<open>
  The loop over \<^verbatim>\<open>mSendList\<close> after a successful write of \<open>tmp_len\<close> bytes. The list is a \<^verbatim>\<open>std::deque\<close>: a callback that
  sends on the connection appends to it, which invalidates the iterator of the loop.
\<close>

fun take_sent :: "'k sock_env \<Rightarrow> int \<Rightarrow> nat \<Rightarrow> pending_packet list \<Rightarrow> 'k data_socket \<Rightarrow> 'k data_socket option" where
  "take_sent env tid tmp_len [] s = Some s"
| "take_sent env tid tmp_len (b # bs) s =
     (if packet_left b \<le> tmp_len then
        do { s1 \<leftarrow> (case mCompleteCallback b of None \<Rightarrow> Some s | Some c \<Rightarrow> call_complete env tid c s);
             if mSendList s1 = mSendList s
             then take_sent env tid (tmp_len - packet_left b) bs (s1\<lparr>mSendList := bs\<rparr>) else None }
      else Some (s\<lparr>mSendList := b\<lparr>packet_left := packet_left b - tmp_len\<rparr> # bs\<rparr>))"

definition finish_sent :: "'k sock_env \<Rightarrow> int \<Rightarrow> nat \<Rightarrow> 'k data_socket \<Rightarrow> 'k data_socket option" where
  "finish_sent env tid send_len s = take_sent env tid send_len (mSendList s) s"

definition MAX_IOVEC :: nat where "MAX_IOVEC = 1024"

definition cannot_write :: "int \<Rightarrow> 'k data_socket \<Rightarrow> 'k data_socket option" where
  "cannot_write tid s =
     (let (ok, s') = checkWrite (s\<lparr>mCanWrite := False\<rparr>) in if \<not> ok then procCloseInLoop tid s' else Some s')"

text \<open>\<^verbatim>\<open>ready_send_len\<close> is an \<^verbatim>\<open>int\<close>: it wraps at 32 bits.\<close>

partial_function (option) quickFlush :: "'k sock_env \<Rightarrow> int \<Rightarrow> 'k data_socket \<Rightarrow> 'k data_socket option" where
  [code]: "quickFlush env tid s =
     (let batch = take MAX_IOVEC (mSendList s);
          ready_send_len = (of_nat (sum_list (map packet_left batch)) :: 32 word) in
      if batch \<noteq> [] then
        (case (if mFD s = SOCKET_ERROR then (-1, False, env_state s) else sys_writev env (map left_bytes batch) (env_state s)) of
           (send_len, would_block, k) \<Rightarrow>
             let s1 = s\<lparr>env_state := k\<rparr> in
             if send_len > 0 then
               (case finish_sent env tid (nat send_len) s1 of
                  None \<Rightarrow> None
                | Some s2 \<Rightarrow>
                    if word_of_int send_len = ready_send_len
                    then (if mSendList s2 \<noteq> [] then quickFlush env tid s2 else Some s2)
                    else cannot_write tid s2)
             else if would_block then cannot_write tid s1
             else procCloseInLoop tid s1)
      else Some s)"

definition SENDBUF_SIZE :: nat where "SENDBUF_SIZE = 1024 * 32"

fun merge_packets :: "nat \<Rightarrow> pending_packet list \<Rightarrow> bytes" where
  "merge_packets wait_send_size [] = []"
| "merge_packets wait_send_size (b # bs) =
     (if wait_send_size + packet_left b \<le> SENDBUF_SIZE
      then left_bytes b @ merge_packets (wait_send_size + packet_left b) bs else [])"

definition send_buffer :: "pending_packet list \<Rightarrow> bytes" where
  "send_buffer bs =
     (case bs of
        [] \<Rightarrow> []
      | b # _ \<Rightarrow> if packet_left b \<le> SENDBUF_SIZE then merge_packets 0 bs else left_bytes b)"

partial_function (option) normalFlush :: "'k sock_env \<Rightarrow> int \<Rightarrow> 'k data_socket \<Rightarrow> 'k data_socket option" where
  [code]: "normalFlush env tid s =
     (let sendptr = send_buffer (mSendList s); wait_send_size = length sendptr in
      if wait_send_size > 0 then
        (case (if mFD s = SOCKET_ERROR then (-1, False, env_state s) else sys_send env sendptr (env_state s)) of
           (send_retlen, would_block, k) \<Rightarrow>
             let s1 = s\<lparr>env_state := k\<rparr> in
             if send_retlen > 0 then
               (case finish_sent env tid (nat send_retlen) s1 of
                  None \<Rightarrow> None
                | Some s2 \<Rightarrow>
                    if send_retlen = int wait_send_size
                    then (if mSendList s2 \<noteq> [] then normalFlush env tid s2 else Some s2)
                    else cannot_write tid s2)
             else if would_block then cannot_write tid s1
             else procCloseInLoop tid s1)
      else Some s)"

definition flush :: "'k sock_env \<Rightarrow> int \<Rightarrow> 'k data_socket \<Rightarrow> 'k data_socket option" where
  "flush env tid s =
     (if mCanWrite s \<and> mFD s \<noteq> SOCKET_ERROR then
        (if mSSL s then normalFlush env tid s else quickFlush env tid s)
      else Some s)"

section \<open>The function objects\<close>

definition sock_exec :: "'k sock_env \<Rightarrow> int \<Rightarrow> sock_proc \<Rightarrow> 'k data_socket \<Rightarrow> 'k data_socket option" where
  "sock_exec env tid p s =
     (case p of
        FlushProc \<Rightarrow> flush env tid (s\<lparr>mIsPostFlush := False\<rparr>)
      | DisConnectProc \<Rightarrow> Some (if mDisConnectCallback s then log_event Disconnected s else s)
      | ShutdownProc \<Rightarrow> Some (procShutdownInLoop s)
      | PingProc \<Rightarrow> PingCheck env tid s
      | _ \<Rightarrow> posted_exec tid p s)"

section \<open>Receiving\<close>

definition GROW_BUFFER_SIZE :: size_t where "GROW_BUFFER_SIZE = 1024"

definition growRecvBuffer :: "'k sock_env \<Rightarrow> 'k data_socket \<Rightarrow> 'k data_socket option" where
  "growRecvBuffer env s =
     (case mRecvBuffer s of
        None \<Rightarrow> Some (s\<lparr>mRecvBuffer := fst (ox_buffer_new True (sys_malloc env) (16 * 1024 + GROW_BUFFER_SIZE) 0)\<rparr>)
      | Some b \<Rightarrow>
          if ox_buffer_getsize b + GROW_BUFFER_SIZE \<le> mMaxRecvBufferSize s then
            (case (fst (ox_buffer_new True (sys_malloc env) (ox_buffer_getsize b + GROW_BUFFER_SIZE) 0), buf_data b) of
               (Some nb, Some d) \<Rightarrow>
                 do { bs \<leftarrow> mem_read (unat (read_pos b)) (unat (ox_buffer_getreadvalidcount b)) d;
                      (_, nb') \<leftarrow> ox_buffer_write nb bs (ox_buffer_getreadvalidcount b);
                      Some (s\<lparr>mRecvBuffer := Some nb'\<rparr>) }
             | _ \<Rightarrow> None)
          else Some s)"

text \<open>The kernel stores the received bytes at the write position.\<close>

definition store_received :: "buffer_s \<Rightarrow> bytes \<Rightarrow> buffer_s option" where
  "store_received b bs =
     (case (ox_buffer_getwriteptr b, buf_data b) of
        (Some off, Some d) \<Rightarrow> do { d' \<leftarrow> mem_write off bs d; Some (b\<lparr>buf_data := Some d'\<rparr>) }
      | _ \<Rightarrow> None)"

definition deliver :: "'k sock_env \<Rightarrow> int \<Rightarrow> 'k data_socket \<Rightarrow> 'k data_socket option" where
  "deliver env tid s =
     (if mDataCallback s then
        do { b \<leftarrow> mRecvBuffer s;
             d \<leftarrow> buf_data b;
             bs \<leftarrow> mem_read (unat (read_pos b)) (unat (ox_buffer_getreadvalidcount b)) d;
             (case on_data env bs (env_state s) of
                (proclen, calls, k) \<Rightarrow>
                  do { s1 \<leftarrow> run_procs (perform env tid) calls (s\<lparr>mRecvData := True, env_state := k\<rparr>);
                       if proclen \<le> ox_buffer_getreadvalidcount b
                       then Some (s1\<lparr>mRecvBuffer := Some (ox_buffer_addreadpos b proclen)\<rparr>) else None }) }
      else Some s)"

definition adjust_buffer :: "'k data_socket \<Rightarrow> 'k data_socket option" where
  "adjust_buffer s =
     do { b \<leftarrow> mRecvBuffer s;
          if ox_buffer_getwritevalidcount b = 0 \<or> ox_buffer_getreadvalidcount b = 0
          then do { b' \<leftarrow> ox_buffer_adjustto_head b; Some (s\<lparr>mRecvBuffer := Some b'\<rparr>) }
          else Some s }"

text \<open>
  One round of the loop of \<^verbatim>\<open>recv\<close>, with the closing after the loop done where the loop ends; the flag says whether
  the loop goes on.
\<close>

definition recv_round :: "'k sock_env \<Rightarrow> int \<Rightarrow> 'k data_socket \<Rightarrow> (bool \<times> 'k data_socket) option" where
  "recv_round env tid s =
     (if mFD s = SOCKET_ERROR then Some (False, s)
      else
        (case mRecvBuffer s of
           None \<Rightarrow> None
         | Some b \<Rightarrow>
             let tryRecvLen = ox_buffer_getwritevalidcount b in
             if tryRecvLen = 0 then Some (False, s)
             else
               (case sys_recv env (unat tryRecvLen) (env_state s) of
                  (retlen, bs, would_block, k) \<Rightarrow>
                    let s1 = s\<lparr>env_state := k\<rparr> in
                    if retlen < 0 then
                      (if would_block then
                         (let (ok, s2) = checkRead s1 in
                          if \<not> ok then map_option (Pair False) (procCloseInLoop tid s2) else Some (False, s2))
                       else map_option (Pair False) (procCloseInLoop tid s1))
                    else if retlen = 0 then map_option (Pair False) (procCloseInLoop tid s1)
                    else
                      do { b1 \<leftarrow> store_received b bs;
                           let b2 = ox_buffer_addwritepos b1 (of_int retlen);
                           s2 \<leftarrow> (if ox_buffer_getreadvalidcount b2 = ox_buffer_getsize b2
                                  then growRecvBuffer env (s1\<lparr>mRecvBuffer := Some b2\<rparr>)
                                  else Some (s1\<lparr>mRecvBuffer := Some b2\<rparr>));
                           s3 \<leftarrow> deliver env tid s2;
                           s4 \<leftarrow> adjust_buffer s3;
                           Some (True, s4) })))"

partial_function (option) recv :: "'k sock_env \<Rightarrow> int \<Rightarrow> 'k data_socket \<Rightarrow> 'k data_socket option" where
  [code]: "recv env tid s =
     (case recv_round env tid s of
        None \<Rightarrow> None
      | Some (again, s') \<Rightarrow> if again then recv env tid s' else Some s')"

text \<open>How these operations can end, for the proofs about them.\<close>

lemma growRecvBuffer_cases:
  "growRecvBuffer env s = Some s' \<Longrightarrow> s' = s \<or> (\<exists>b. s' = s\<lparr>mRecvBuffer := b\<rparr>)"
  by (auto simp: growRecvBuffer_def Option.bind_eq_Some_conv simp del: ox_buffer_new_def
      split: option.split_asm if_split_asm)

lemma deliver_cases:
  assumes "deliver env tid s = Some s'" "mDataCallback s"
  obtains b d bs n calls k s1 where "mRecvBuffer s = Some b" "buf_data b = Some d"
    "mem_read (unat (read_pos b)) (unat (ox_buffer_getreadvalidcount b)) d = Some bs"
    "on_data env bs (env_state s) = (n, calls, k)"
    "run_procs (perform env tid) calls (s\<lparr>mRecvData := True, env_state := k\<rparr>) = Some s1"
    "n \<le> ox_buffer_getreadvalidcount b" "s' = s1\<lparr>mRecvBuffer := Some (ox_buffer_addreadpos b n)\<rparr>"
proof -
  obtain b d bs where b: "mRecvBuffer s = Some b" "buf_data b = Some d"
    "mem_read (unat (read_pos b)) (unat (ox_buffer_getreadvalidcount b)) d = Some bs"
    "(case on_data env bs (env_state s) of
        (proclen, calls, k) \<Rightarrow>
          do { s1 \<leftarrow> run_procs (perform env tid) calls (s\<lparr>mRecvData := True, env_state := k\<rparr>);
               if proclen \<le> ox_buffer_getreadvalidcount b
               then Some (s1\<lparr>mRecvBuffer := Some (ox_buffer_addreadpos b proclen)\<rparr>) else None }) = Some s'"
    using assms by (auto simp: deliver_def Option.bind_eq_Some_conv)
  obtain n calls k where d: "on_data env bs (env_state s) = (n, calls, k)" by (metis prod_cases3)
  then obtain s1 where "run_procs (perform env tid) calls (s\<lparr>mRecvData := True, env_state := k\<rparr>) = Some s1"
    "n \<le> ox_buffer_getreadvalidcount b" "s' = s1\<lparr>mRecvBuffer := Some (ox_buffer_addreadpos b n)\<rparr>"
    using b(4) by (auto simp: Option.bind_eq_Some_conv split: if_splits)
  then show thesis using that b(1-3) d by blast
qed

lemma adjust_buffer_cases:
  assumes "adjust_buffer s = Some s'"
  shows "s' = s \<or> (\<exists>b. s' = s\<lparr>mRecvBuffer := b\<rparr>)"
proof -
  obtain b where b: "mRecvBuffer s = Some b" using assms by (auto simp: adjust_buffer_def Option.bind_eq_Some_conv)
  show ?thesis
  proof (cases "ox_buffer_getwritevalidcount b = 0 \<or> ox_buffer_getreadvalidcount b = 0")
    case True
    then have eq: "Option.bind (ox_buffer_adjustto_head b) (\<lambda>b'. Some (s\<lparr>mRecvBuffer := Some b'\<rparr>)) = Some s'"
      using assms b by (simp add: adjust_buffer_def)
    obtain b' where "ox_buffer_adjustto_head b = Some b'" using eq by (cases "ox_buffer_adjustto_head b") simp_all
    then have "s' = s\<lparr>mRecvBuffer := Some b'\<rparr>" using eq by simp
    then show ?thesis by blast
  next
    case False
    then show ?thesis using assms b by (simp add: adjust_buffer_def)
  qed
qed

lemma recv_round_cases:
  assumes "recv_round env tid s = Some (again, s')"
  obtains (idle) "\<not> again" "s' = s"
  | (ended) b n d wb k where "\<not> again" "mRecvBuffer s = Some b"
      "sys_recv env (unat (ox_buffer_getwritevalidcount b)) (env_state s) = (n, d, wb, k)" "n \<le> 0"
      "s' = s\<lparr>env_state := k\<rparr> \<or> procCloseInLoop tid (s\<lparr>env_state := k\<rparr>) = Some s'"
  | (received) b n d wb k b1 s2 s3 where "again" "mFD s \<noteq> SOCKET_ERROR" "mRecvBuffer s = Some b"
      "ox_buffer_getwritevalidcount b \<noteq> 0"
      "sys_recv env (unat (ox_buffer_getwritevalidcount b)) (env_state s) = (n, d, wb, k)" "0 < n"
      "store_received b d = Some b1"
      "(let b2 = ox_buffer_addwritepos b1 (of_int n); s1 = s\<lparr>env_state := k, mRecvBuffer := Some b2\<rparr> in
        if ox_buffer_getreadvalidcount b2 = ox_buffer_getsize b2 then growRecvBuffer env s1 else Some s1) = Some s2"
      "deliver env tid s2 = Some s3" "adjust_buffer s3 = Some s'"
proof (cases "mFD s = SOCKET_ERROR")
  case True
  then show thesis using assms idle by (simp add: recv_round_def)
next
  case False
  then obtain b where b: "mRecvBuffer s = Some b" using assms by (auto simp: recv_round_def split: option.splits)
  obtain n d wb k where r: "sys_recv env (unat (ox_buffer_getwritevalidcount b)) (env_state s) = (n, d, wb, k)"
    by (metis prod_cases4)
  consider "ox_buffer_getwritevalidcount b = 0" | "ox_buffer_getwritevalidcount b \<noteq> 0" "n \<le> 0"
    | "ox_buffer_getwritevalidcount b \<noteq> 0" "0 < n" by linarith
  then show thesis
  proof cases
    case 1
    then show thesis using assms False b idle by (simp add: recv_round_def)
  next
    case 2
    then have "\<not> again \<and> (s' = s\<lparr>env_state := k\<rparr> \<or> procCloseInLoop tid (s\<lparr>env_state := k\<rparr>) = Some s')"
      using assms False b r by (auto simp: recv_round_def checkRead_def Let_def split: if_split_asm)
    then show thesis using ended b r 2(2) by blast
  next
    case 3
    then show thesis using assms False b r
      by (auto simp: recv_round_def Let_def Option.bind_eq_Some_conv intro: received)
  qed
qed

section \<open>Entering the loop and the events\<close>

definition call_enter :: "'k sock_env \<Rightarrow> int \<Rightarrow> 'k data_socket \<Rightarrow> 'k data_socket option" where
  "call_enter env tid s =
     (if mEnterCallback s then
        (case on_enter env (env_state s) of
           (calls, k) \<Rightarrow>
             do { s' \<leftarrow> run_procs (perform env tid) calls (log_event Entered (s\<lparr>env_state := k\<rparr>));
                  Some (s'\<lparr>mEnterCallback := False\<rparr>) })
      else Some s)"

definition processSSLHandshake :: "'k sock_env \<Rightarrow> int \<Rightarrow> 'k data_socket \<Rightarrow> 'k data_socket option" where
  "processSSLHandshake env tid s =
     (if mIsHandsharked s then Some s
      else
        (case sys_handshake env (mSSLCtx s) (env_state s) of
           (ret, want, k) \<Rightarrow>
             let s1 = s\<lparr>env_state := k\<rparr> in
             if ret = 1 then
               let (ok, s2) = checkRead (s1\<lparr>mIsHandsharked := True\<rparr>) in
               if ok then call_enter env tid s2
               else do { s3 \<leftarrow> call_enter env tid s2; procCloseInLoop tid s3 }
             else
               let mustClose = (if ret = 0 then True else if ret < 0 then \<not> (want \<and> fst (checkRead s1)) else False) in
               if mustClose then do { s3 \<leftarrow> call_enter env tid s1; procCloseInLoop tid s3 } else Some s1))"

definition onEnterEventLoop :: "'k sock_env \<Rightarrow> int \<Rightarrow> 'k data_socket \<Rightarrow> (bool \<times> 'k data_socket) option" where
  "onEnterEventLoop env tid s =
     (if \<not> isInLoopThread s tid \<or> mEventLoop s then None
      else
        (case sys_link env (env_state s) of
           (linked, k) \<Rightarrow>
             let s1 = s\<lparr>mEventLoop := True, env_state := k\<rparr> in
             if \<not> linked then Some (False, closeSocket s1)
             else if mSSL s1 then do { s2 \<leftarrow> processSSLHandshake env tid s1; Some (True, s2) }
             else
               let (ok, s2) = checkRead s1 in
               if ok then do { s3 \<leftarrow> call_enter env tid s2; Some (True, s3) }
               else Some (False, closeSocket s2)))"

definition canRecv :: "'k sock_env \<Rightarrow> int \<Rightarrow> 'k data_socket \<Rightarrow> 'k data_socket option" where
  "canRecv env tid s =
     (if \<not> mIsHandsharked s \<and> mSSL s then processSSLHandshake env tid s else recv env tid s)"

definition canSend :: "'k sock_env \<Rightarrow> int \<Rightarrow> 'k data_socket \<Rightarrow> 'k data_socket option" where
  "canSend env tid s =
     (let s1 = (removeCheckWrite s)\<lparr>mCanWrite := True\<rparr> in
      if \<not> mIsHandsharked s \<and> mSSL s then processSSLHandshake env tid s1 else runAfterFlush tid s1)"

definition setEnterCallback :: "bool \<Rightarrow> 'k data_socket \<Rightarrow> 'k data_socket" where
  "setEnterCallback cb s = s\<lparr>mEnterCallback := cb\<rparr>"

text \<open>A new socket, and the virtual methods the event loop calls.\<close>

definition new_data_socket :: "'k sock_env \<Rightarrow> sock_proc event_loop \<Rightarrow> int \<Rightarrow> size_t \<Rightarrow> bool \<Rightarrow> bool \<Rightarrow> 'k \<Rightarrow> 'k data_socket option" where
  "new_data_socket env l fd maxRecvBufferSize ssl client k =
     growRecvBuffer env
       (event_loop.extend l
          \<lparr>mFD = fd, mIsPostFinalClose = False, mCanWrite = True, mEventLoop = False, mRecvBuffer = None,
           mMaxRecvBufferSize = maxRecvBufferSize, mSendList = [], mEnterCallback = False, mDataCallback = False,
           mDisConnectCallback = False, mIsPostFlush = False, mUserData = -1, mSSLCtx = client, mSSL = ssl,
           mIsHandsharked = False, mRecvData = False, mCheckTime = -1, mTimer = None, check_write = False,
           env_state = k, sock_trace = []\<rparr>)"

definition sock_channel :: "'k sock_env \<Rightarrow> int \<Rightarrow> (unit, 'k data_socket) channel_ops" where
  "sock_channel env tid =
     \<lparr>ch_canRecv = (\<lambda>_. canRecv env tid), ch_canSend = (\<lambda>_. canSend env tid), ch_onClose = (\<lambda>_. onClose tid)\<rparr>"

end
