(* ===== verification/Data_Socket_Calls.thy ===== *)
theory Data_Socket_Calls
  imports Data_Socket
begin

text \<open>
  The calls that a callback makes on its connection: in the loop thread each succeeds, leaves the receiving side alone, and leaves the list
  of packets alone unless it sends.
\<close>

section \<open>Calls in the loop thread\<close>

text \<open>In the loop thread a call succeeds and leaves the receiving side alone.\<close>

definition in_loop :: "int \<Rightarrow> 'k data_socket \<Rightarrow> bool" where
  "in_loop tid s \<longleftrightarrow> mEventLoop s \<and> mSelfThreadid s = tid \<and> mIsInitThreadID s"

definition same_recv :: "'k data_socket \<Rightarrow> 'k data_socket \<Rightarrow> bool" where
  "same_recv s s' \<longleftrightarrow>
     mRecvBuffer s' = mRecvBuffer s \<and> mMaxRecvBufferSize s' = mMaxRecvBufferSize s \<and> env_state s' = env_state s \<and>
     mEventLoop s' = mEventLoop s \<and> mSelfThreadid s' = mSelfThreadid s \<and> mIsInitThreadID s' = mIsInitThreadID s"

lemma same_recv_trans: "same_recv s t \<Longrightarrow> same_recv t u \<Longrightarrow> same_recv s u"
  by (simp add: same_recv_def)

lemma in_loop_thread: "in_loop tid s \<Longrightarrow> isInLoopThread s tid"
  by (simp add: in_loop_def isInLoopThread_def)

lemma pushAfterLoopProc_recv: "in_loop tid s \<Longrightarrow> \<exists>s'. pushAfterLoopProc tid p s = Some s' \<and> same_recv s s'"
  by (simp add: in_loop_def pushAfterLoopProc_def isInLoopThread_def same_recv_def)

lemma procCloseInLoop_recv: "in_loop tid s \<Longrightarrow> \<exists>s'. procCloseInLoop tid s = Some s' \<and> same_recv s s'"
  by (simp add: in_loop_def procCloseInLoop_def onClose_def pushAfterLoopProc_def isInLoopThread_def closeSocket_def
      same_recv_def)

lemma runAfterFlush_recv: "in_loop tid s \<Longrightarrow> \<exists>s'. runAfterFlush tid (enqueue_packet d c s) = Some s' \<and> same_recv s s'"
  by (simp add: in_loop_def runAfterFlush_def enqueue_packet_def log_event_def pushAfterLoopProc_def isInLoopThread_def
      same_recv_def)

lemma startPingCheckTimer_recv: "in_loop tid s \<Longrightarrow> \<exists>s'. startPingCheckTimer env tid s = Some s' \<and> same_recv s s'"
  by (simp add: in_loop_def startPingCheckTimer_def tryInitThreadID_def isInLoopThread_def addTimer_def same_recv_def)

lemma setCheckTime_recv:
  assumes "in_loop tid s"
  shows "\<exists>s'. setCheckTime env tid t s = Some s' \<and> same_recv s s'"
proof (cases "0 < t")
  case True
  have "in_loop tid (s\<lparr>mCheckTime := t\<rparr>)" using assms by (simp add: in_loop_def)
  then show ?thesis using startPingCheckTimer_recv [of tid "s\<lparr>mCheckTime := t\<rparr>" env] assms True
    by (auto simp: setCheckTime_def in_loop_def isInLoopThread_def same_recv_def)
next
  case False
  then show ?thesis using assms
    by (cases "weak_lock s (mTimer s)")
      (simp_all add: setCheckTime_def in_loop_def isInLoopThread_def same_recv_def cancel_def)
qed

lemma perform_recv:
  assumes "in_loop tid s"
  shows "\<exists>s'. perform env tid c s = Some s' \<and> same_recv s s'"
proof (cases c)
  case (Send d cb)
  then show ?thesis using assms runAfterFlush_recv [OF assms]
    by (simp add: perform_def sendPacket_def pushAsyncProc_def posted_exec_def in_loop_def isInLoopThread_def)
next
  case PostDisConnect
  then show ?thesis using assms procCloseInLoop_recv [OF assms]
    by (simp add: perform_def postDisConnect_def pushAsyncProc_def posted_exec_def in_loop_def isInLoopThread_def)
next
  case PostShutdown
  then show ?thesis using assms pushAfterLoopProc_recv [OF assms, of ShutdownProc]
    by (simp add: perform_def postShutdown_def pushAsyncProc_def posted_exec_def in_loop_def isInLoopThread_def same_recv_def)
next
  case (SetCheckTime t)
  then show ?thesis using setCheckTime_recv [OF assms] by (simp add: perform_def)
qed (simp_all add: perform_def same_recv_def)

lemma same_recv_in_loop: "same_recv s s' \<Longrightarrow> in_loop tid s \<Longrightarrow> in_loop tid s'"
  by (simp add: same_recv_def in_loop_def)

lemma performs_recv: "in_loop tid s \<Longrightarrow> \<exists>s'. run_procs (perform env tid) cs s = Some s' \<and> same_recv s s'"
proof (induction cs arbitrary: s)
  case Nil
  then show ?case by (simp add: same_recv_def)
next
  case (Cons c cs)
  obtain s1 where s1: "perform env tid c s = Some s1" "same_recv s s1" using perform_recv [OF Cons.prems] by blast
  then show ?case using Cons.IH [of s1] Cons.prems same_recv_in_loop same_recv_trans by fastforce
qed

section \<open>The list of packets\<close>

fun sends :: "sock_call \<Rightarrow> bool" where
  "sends (Send packet callback) \<longleftrightarrow> True"
| "sends _ \<longleftrightarrow> False"

lemma procCloseInLoop_list: "procCloseInLoop tid s = Some s' \<Longrightarrow> mSendList s' = mSendList s"
  by (auto simp: procCloseInLoop_def onClose_def pushAfterLoopProc_def closeSocket_def split: if_splits)

lemma startPingCheckTimer_list: "startPingCheckTimer env tid s = Some s' \<Longrightarrow> mSendList s' = mSendList s"
  by (auto simp: startPingCheckTimer_def addTimer_def tryInitThreadID_def Let_def split: if_splits)

lemma setCheckTime_list: "setCheckTime env tid t s = Some s' \<Longrightarrow> mSendList s' = mSendList s"
  by (auto simp: setCheckTime_def cancel_def split: if_splits option.splits dest!: startPingCheckTimer_list)

lemma pushAsyncProc_list:
  assumes "pushAsyncProc (posted_exec tid) tid p s = Some s'" "p = CloseProc \<or> p = PostShutdownProc"
  shows "mSendList s' = mSendList s"
  using assms
  by (auto simp: pushAsyncProc_def posted_exec_def wakeup_def exchange_wakeup_def channel_wakeup_def push_async_def pushAfterLoopProc_def
      Let_def split: if_splits dest: procCloseInLoop_list)

lemma perform_list: "perform env tid c s = Some s' \<Longrightarrow> \<not> sends c \<Longrightarrow> mSendList s' = mSendList s"
  by (cases c) (auto simp: perform_def postDisConnect_def postShutdown_def split: if_splits dest: pushAsyncProc_list setCheckTime_list)

lemma performs_list: "run_procs (perform env tid) cs s = Some s' \<Longrightarrow> \<forall>c \<in> set cs. \<not> sends c \<Longrightarrow> mSendList s' = mSendList s"
proof (induction cs arbitrary: s)
  case (Cons c cs)
  then obtain s1 where s1: "perform env tid c s = Some s1" "run_procs (perform env tid) cs s1 = Some s'" by (auto split: option.splits)
  then show ?case using Cons.IH [OF s1(2)] perform_list [OF s1(1)] Cons.prems(2) by simp
qed simp

section \<open>Completion callbacks\<close>

text \<open>
  Completion callbacks that do not send on their connection. They may close it, shut it down, set its callbacks, its user data and
  its timer.
\<close>

definition completions_send_nothing :: "'k sock_env \<Rightarrow> bool" where
  "completions_send_nothing env \<longleftrightarrow> (\<forall>c k. \<forall>x \<in> set (fst (on_complete env c k)). \<not> sends x)"

lemma call_complete_some:
  assumes "in_loop tid s" "completions_send_nothing env"
  shows "\<exists>s'. call_complete env tid c s = Some s' \<and> mSendList s' = mSendList s \<and> in_loop tid s'"
proof -
  obtain calls k where k: "on_complete env c (env_state s) = (calls, k)" by fastforce
  let ?s = "log_event (Completed c) (s\<lparr>env_state := k\<rparr>)"
  have "in_loop tid ?s" using assms(1) by (simp add: in_loop_def log_event_def)
  then obtain s' where s': "run_procs (perform env tid) calls ?s = Some s'" "same_recv ?s s'" using performs_recv by blast
  have "\<forall>x \<in> set calls. \<not> sends x" using assms(2) k unfolding completions_send_nothing_def by (metis fst_conv)
  then have "mSendList s' = mSendList s" using performs_list [OF s'(1)] by (simp add: log_event_def)
  then show ?thesis using s' k same_recv_in_loop [OF s'(2) \<open>in_loop tid ?s\<close>] by (auto simp: call_complete_def)
qed

lemma take_sent_some:
  assumes "in_loop tid s" "completions_send_nothing env" "mSendList s = bs"
  shows "\<exists>s'. take_sent env tid n bs s = Some s' \<and> in_loop tid s'"
  using assms
proof (induction bs arbitrary: n s)
  case (Cons b bs)
  show ?case
  proof (cases "packet_left b \<le> n")
    case True
    obtain s1 where s1: "(case mCompleteCallback b of None \<Rightarrow> Some s | Some c \<Rightarrow> call_complete env tid c s) = Some s1"
      "mSendList s1 = mSendList s" "in_loop tid s1"
      using call_complete_some [OF Cons.prems(1,2)] Cons.prems(1) by (cases "mCompleteCallback b") auto
    have "in_loop tid (s1\<lparr>mSendList := bs\<rparr>)" using s1(3) by (simp add: in_loop_def)
    then show ?thesis using Cons.IH [of "s1\<lparr>mSendList := bs\<rparr>"] Cons.prems(2) s1(1,2) True by simp
  next
    case False
    then show ?thesis using Cons.prems(1) by (simp add: in_loop_def)
  qed
qed simp

text \<open>
  A completion callback that sends on its connection in the loop thread appends to the list that is walked: the iterator is invalid
  afterwards.
\<close>

lemma completion_send_invalidates:
  assumes "in_loop tid s" "on_complete env c (env_state s) = ([Send d cb], k)" "mCompleteCallback b = Some c" "packet_left b \<le> n"
    "mSendList s = b # bs"
  shows "finish_sent env tid n s = None"
proof -
  let ?s = "log_event (Completed c) (s\<lparr>env_state := k\<rparr>)"
  have "in_loop tid ?s" using assms(1) by (simp add: in_loop_def log_event_def)
  then have "mSendList s1 \<noteq> mSendList s" if "perform env tid (Send d cb) ?s = Some s1" for s1
    using that
    by (auto simp: perform_def sendPacket_def pushAsyncProc_def in_loop_def isInLoopThread_def posted_exec_def runAfterFlush_def
        enqueue_packet_def log_event_def pushAfterLoopProc_def split: if_splits)
  then show ?thesis using assms(2-5) by (auto simp: finish_sent_def call_complete_def split: option.splits)
qed

end
