(* ===== verification/Data_Socket_Close.thy ===== *)
theory Data_Socket_Close
  imports Data_Socket_Calls
begin

text \<open>
  The end of a connection: the disconnect callback, in which the owner deletes the socket, runs at most once, and of the function
  objects for the end of an iteration it is the last. What other threads handed to the loop may be left behind it.
\<close>

section \<open>What an operation does to the queue of the loop\<close>

text \<open>
  An operation appends function objects other than the final one, and at most one closing at the end; a closed
  socket appends nothing.
\<close>

definition close_rel :: "'k data_socket \<Rightarrow> 'k data_socket \<Rightarrow> bool" where
  "close_rel s s' \<longleftrightarrow>
     count_list (sock_trace s') Disconnected = count_list (sock_trace s) Disconnected \<and>
     (DisConnectProc \<notin> set (mAsyncProcs s) \<longrightarrow> DisConnectProc \<notin> set (mAsyncProcs s')) \<and>
     (if mIsPostFinalClose s
      then mFD s = SOCKET_ERROR \<longrightarrow>
        mIsPostFinalClose s' \<and> mFD s' = SOCKET_ERROR \<and> mAfterLoopProcs s' = mAfterLoopProcs s
      else \<exists>xs. DisConnectProc \<notin> set xs \<and>
        (if mIsPostFinalClose s'
         then mFD s' = SOCKET_ERROR \<and> mAfterLoopProcs s' = mAfterLoopProcs s @ xs @ [DisConnectProc]
         else mAfterLoopProcs s' = mAfterLoopProcs s @ xs))"

definition same_close :: "'k data_socket \<Rightarrow> 'k data_socket \<Rightarrow> bool" where
  "same_close s s' \<longleftrightarrow>
     count_list (sock_trace s') Disconnected = count_list (sock_trace s) Disconnected \<and>
     (DisConnectProc \<notin> set (mAsyncProcs s) \<longrightarrow> DisConnectProc \<notin> set (mAsyncProcs s')) \<and>
     mIsPostFinalClose s' = mIsPostFinalClose s \<and> mFD s' = mFD s \<and> mAfterLoopProcs s' = mAfterLoopProcs s"

lemma close_relI [intro]: "same_close s s' \<Longrightarrow> close_rel s s'"
  by (auto simp: close_rel_def same_close_def intro: exI [of _ "[]"])

lemma close_rel_refl [simp]: "close_rel s s"
  by (rule close_relI) (simp add: same_close_def)

lemma close_rel_trans [trans]:
  assumes "close_rel s t" "close_rel t u"
  shows "close_rel s u"
proof (cases "mIsPostFinalClose s")
  case True
  then show ?thesis using assms by (auto simp: close_rel_def)
next
  case open_s: False
  obtain xs where xs: "DisConnectProc \<notin> set xs"
    "if mIsPostFinalClose t then mFD t = SOCKET_ERROR \<and> mAfterLoopProcs t = mAfterLoopProcs s @ xs @ [DisConnectProc]
     else mAfterLoopProcs t = mAfterLoopProcs s @ xs"
    using assms(1) open_s by (auto simp: close_rel_def)
  show ?thesis
  proof (cases "mIsPostFinalClose t")
    case True
    then show ?thesis using assms xs open_s by (auto simp: close_rel_def)
  next
    case False
    obtain ys where ys: "DisConnectProc \<notin> set ys"
      "if mIsPostFinalClose u then mFD u = SOCKET_ERROR \<and> mAfterLoopProcs u = mAfterLoopProcs t @ ys @ [DisConnectProc]
       else mAfterLoopProcs u = mAfterLoopProcs t @ ys"
      using assms(2) False by (auto simp: close_rel_def)
    show ?thesis using assms xs ys open_s False unfolding close_rel_def
      by (auto intro!: exI [of _ "xs @ ys"])
  qed
qed

lemma same_close_then [trans]: "same_close s t \<Longrightarrow> close_rel t u \<Longrightarrow> close_rel s u"
  using close_rel_trans [OF close_relI] .

section \<open>The operations\<close>

lemma onClose_rel: "onClose tid s = Some s' \<Longrightarrow> close_rel s s'"
  by (auto simp: onClose_def pushAfterLoopProc_def closeSocket_def close_rel_def split: if_splits
      intro: exI [of _ "[]"])

lemma procCloseInLoop_rel: "procCloseInLoop tid s = Some s' \<Longrightarrow> close_rel s s'"
  by (auto simp: procCloseInLoop_def dest: onClose_rel split: if_splits)

lemma runAfterFlush_rel: "runAfterFlush tid s = Some s' \<Longrightarrow> close_rel s s'"
  by (auto simp: runAfterFlush_def pushAfterLoopProc_def close_rel_def split: if_splits)

lemma cannot_write_rel: "cannot_write tid s = Some s' \<Longrightarrow> close_rel s s'"
  by (auto simp: cannot_write_def checkWrite_def same_close_def)

lemma env_same [simp]: "same_close s (s\<lparr>env_state := k\<rparr>)"
  by (simp add: same_close_def)

lemma same_close_trans: "same_close s t \<Longrightarrow> same_close t u \<Longrightarrow> same_close s u"
  by (simp add: same_close_def)

lemma startPingCheckTimer_rel: "startPingCheckTimer env tid s = Some s' \<Longrightarrow> close_rel s s'"
  by (auto simp: startPingCheckTimer_def addTimer_def tryInitThreadID_def Let_def same_close_def split: if_splits)

lemma PingCheck_rel: "PingCheck env tid s = Some s' \<Longrightarrow> close_rel s s'"
  by (auto simp: PingCheck_def same_close_def split: if_splits
      dest!: startPingCheckTimer_rel procCloseInLoop_rel intro: same_close_then [of s "s\<lparr>mRecvData := False\<rparr>"])

lemma setCheckTime_rel: "setCheckTime env tid t s = Some s' \<Longrightarrow> close_rel s s'"
  by (auto simp: setCheckTime_def cancel_def same_close_def split: if_splits option.splits
      dest!: startPingCheckTimer_rel intro: same_close_then [of s "s\<lparr>mCheckTime := t\<rparr>"])

lemma enqueue_rel: "runAfterFlush tid (enqueue_packet p c s) = Some s' \<Longrightarrow> close_rel s s'"
  by (rule same_close_then [OF _ runAfterFlush_rel]) (auto simp: same_close_def enqueue_packet_def log_event_def)

lemma ShutdownProc_rel: "pushAfterLoopProc tid ShutdownProc s = Some s' \<Longrightarrow> mFD s \<noteq> SOCKET_ERROR \<Longrightarrow> close_rel s s'"
  by (auto simp: pushAfterLoopProc_def close_rel_def split: if_splits)

lemma wakeup_same: "same_close s (snd (wakeup tid s))"
  by (simp add: wakeup_def exchange_wakeup_def channel_wakeup_def same_close_def Let_def)

lemma posted_exec_rel: "posted_exec tid p s = Some s' \<Longrightarrow> close_rel s s'"
  by (cases p) (auto simp: posted_exec_def split: if_splits dest: procCloseInLoop_rel ShutdownProc_rel enqueue_rel)

lemma push_async_same: "p \<noteq> DisConnectProc \<Longrightarrow> same_close s (push_async p s)"
  by (simp add: push_async_def same_close_def)

lemma pushAsyncProc_rel:
  assumes "pushAsyncProc (posted_exec tid) tid p s = Some s'" "p \<noteq> DisConnectProc"
  shows "close_rel s s'"
proof (cases "isInLoopThread s tid")
  case True
  then show ?thesis using assms by (auto simp: pushAsyncProc_def intro: posted_exec_rel)
next
  case False
  then have "s' = snd (wakeup tid (push_async p s))" using assms by (simp add: pushAsyncProc_def)
  then show ?thesis using same_close_trans [OF push_async_same [OF assms(2)] wakeup_same] by blast
qed

lemma perform_rel: "perform env tid c s = Some s' \<Longrightarrow> close_rel s s'"
  by (cases c) (auto simp: perform_def sendPacket_def postDisConnect_def postShutdown_def same_close_def split: if_splits
      dest: pushAsyncProc_rel setCheckTime_rel)

lemma performs_rel: "run_procs (perform env tid) cs s = Some s' \<Longrightarrow> close_rel s s'"
proof (induction cs arbitrary: s)
  case (Cons c cs)
  then show ?case by (auto split: option.splits dest!: perform_rel intro: close_rel_trans)
qed simp

section \<open>Flushing\<close>

lemma env_then: "close_rel (s\<lparr>env_state := k\<rparr>) s' \<Longrightarrow> close_rel s s'"
  using same_close_then [OF env_same] .

lemma call_complete_rel:
  assumes "call_complete env tid c s = Some s'"
  shows "close_rel s s'"
proof -
  obtain calls k where k: "on_complete env c (env_state s) = (calls, k)" by fastforce
  then have "run_procs (perform env tid) calls (log_event (Completed c) (s\<lparr>env_state := k\<rparr>)) = Some s'"
    using assms by (simp add: call_complete_def)
  from same_close_then [OF _ performs_rel [OF this]] show ?thesis by (simp add: same_close_def log_event_def)
qed

lemma list_same [simp]: "same_close s (s\<lparr>mSendList := bs\<rparr>)"
  by (simp add: same_close_def)

lemma take_sent_rel: "take_sent env tid n bs s = Some s' \<Longrightarrow> close_rel s s'"
proof (induction bs arbitrary: n s)
  case (Cons b bs)
  show ?case
  proof (cases "packet_left b \<le> n")
    case True
    obtain s1 where s1: "(case mCompleteCallback b of None \<Rightarrow> Some s | Some c \<Rightarrow> call_complete env tid c s) = Some s1"
      "take_sent env tid (n - packet_left b) bs (s1\<lparr>mSendList := bs\<rparr>) = Some s'"
      using Cons.prems True by (auto simp: bind_eq_Some_conv split: if_splits)
    have "close_rel s s1" using s1(1) call_complete_rel by (cases "mCompleteCallback b") auto
    also have "close_rel s1 (s1\<lparr>mSendList := bs\<rparr>)" by (rule close_relI) simp
    also have "close_rel (s1\<lparr>mSendList := bs\<rparr>) s'" using Cons.IH [OF s1(2)] .
    finally show ?thesis .
  next
    case False
    then show ?thesis using Cons.prems by auto
  qed
qed simp

lemma sent_rel: "finish_sent env tid n (s\<lparr>env_state := k\<rparr>) = Some s' \<Longrightarrow> close_rel s s'"
  unfolding finish_sent_def by (rule env_then [OF take_sent_rel])

text \<open>What follows a write, in both ways of flushing.\<close>

lemma after_write_rel:
  assumes "(if 0 < n then (case finish_sent env tid m (s\<lparr>env_state := k\<rparr>) of None \<Rightarrow> None
        | Some s2 \<Rightarrow> if b then (if mSendList s2 \<noteq> [] then again s2 else Some s2) else cannot_write tid s2)
      else if wb then cannot_write tid (s\<lparr>env_state := k\<rparr>) else procCloseInLoop tid (s\<lparr>env_state := k\<rparr>)) = Some s'"
    and again: "\<And>s2. again s2 = Some s' \<Longrightarrow> close_rel s2 s'"
  shows "close_rel s s'"
proof (cases "0 < n")
  case True
  then obtain s2 where s2: "finish_sent env tid m (s\<lparr>env_state := k\<rparr>) = Some s2"
    "(if b then (if mSendList s2 \<noteq> [] then again s2 else Some s2) else cannot_write tid s2) = Some s'"
    using assms(1) by (auto split: option.splits)
  have "close_rel s2 s'" using s2(2) again cannot_write_rel by (auto split: if_splits)
  then show ?thesis using sent_rel [OF s2(1)] close_rel_trans by blast
next
  case False
  then show ?thesis using assms(1) cannot_write_rel procCloseInLoop_rel env_then by (metis (full_types))
qed

lemma quickFlush_rel: "quickFlush env tid s = Some s' \<Longrightarrow> close_rel s s'"
proof (induction rule: quickFlush.raw_induct [rotated, consumes 1, case_names step])
  case (step qf env tid s s')
  obtain n b k where w: "(if mFD s = SOCKET_ERROR then (-1, False, env_state s)
      else sys_writev env (map left_bytes (take MAX_IOVEC (mSendList s))) (env_state s)) = (n, b, k)"
    by (metis prod_cases3)
  show ?case
  proof (cases "take MAX_IOVEC (mSendList s) = []")
    case True
    then show ?thesis using step(2) by (simp add: Let_def)
  next
    case False
    then show ?thesis using step(2) unfolding Let_def w by (simp del: split_paired_Ex) (erule after_write_rel, rule step(1))
  qed
qed

lemma normalFlush_rel: "normalFlush env tid s = Some s' \<Longrightarrow> close_rel s s'"
proof (induction rule: normalFlush.raw_induct [rotated, consumes 1, case_names step])
  case (step nf env tid s s')
  obtain n b k where w: "(if mFD s = SOCKET_ERROR then (-1, False, env_state s)
      else sys_send env (send_buffer (mSendList s)) (env_state s)) = (n, b, k)"
    by (metis prod_cases3)
  show ?case
  proof (cases "send_buffer (mSendList s) = []")
    case True
    then show ?thesis using step(2) by (simp add: Let_def)
  next
    case False
    then show ?thesis using step(2) unfolding Let_def w by (simp del: split_paired_Ex) (erule after_write_rel, rule step(1))
  qed
qed

lemma flush_rel: "flush env tid s = Some s' \<Longrightarrow> close_rel s s'"
  by (auto simp: flush_def dest: quickFlush_rel normalFlush_rel split: if_splits)

lemma flush_reset_rel: "flush env tid (s\<lparr>mIsPostFlush := False\<rparr>) = Some s' \<Longrightarrow> close_rel s s'"
  by (rule same_close_then [OF _ flush_rel]) (auto simp: same_close_def)

text \<open>The final function object apart.\<close>

lemma sock_exec_rel:
  assumes "sock_exec env tid p s = Some s'" "p \<noteq> DisConnectProc"
  shows "close_rel s s'"
proof (cases p)
  case ShutdownProc
  then have "same_close s s'" using assms by (auto simp: sock_exec_def procShutdownInLoop_def log_event_def same_close_def split: if_splits)
  then show ?thesis by blast
qed (use assms in \<open>auto simp: sock_exec_def split: if_splits
    dest: flush_reset_rel posted_exec_rel PingCheck_rel\<close>)

section \<open>Receiving\<close>

lemma growRecvBuffer_same: "growRecvBuffer env s = Some s' \<Longrightarrow> same_close s s'"
  by (auto simp: same_close_def dest!: growRecvBuffer_cases)

lemma adjust_buffer_same: "adjust_buffer s = Some s' \<Longrightarrow> same_close s s'"
  by (auto simp: same_close_def dest!: adjust_buffer_cases)

lemma deliver_rel:
  assumes "deliver env tid s = Some s'"
  shows "close_rel s s'"
proof (cases "mDataCallback s")
  case True
  then show ?thesis
  proof (rule deliver_cases [OF assms])
    fix b n calls k s1
    assume s1: "run_procs (perform env tid) calls (s\<lparr>mRecvData := True, env_state := k\<rparr>) = Some s1"
      and s': "s' = s1\<lparr>mRecvBuffer := Some (ox_buffer_addreadpos b n)\<rparr>"
    have "same_close s (s\<lparr>mRecvData := True, env_state := k\<rparr>)" "same_close s1 s'"
      by (simp_all add: same_close_def s')
    then show ?thesis using performs_rel [OF s1] by (blast intro: close_rel_trans)
  qed
next
  case False
  then show ?thesis using assms by (simp add: deliver_def)
qed

lemma recv_round_rel: "recv_round env tid s = Some (again, s') \<Longrightarrow> close_rel s s'"
proof (erule recv_round_cases, goal_cases)
  case (3 b n d wb k b1 s2 s3)
  then have "same_close s s2"
    by (auto simp: Let_def same_close_def split: if_splits dest!: growRecvBuffer_same)
  also have "close_rel s2 s3" using deliver_rel 3 by blast
  finally show ?case using adjust_buffer_same 3 by (blast intro: close_rel_trans)
qed (auto dest: procCloseInLoop_rel intro: env_then)

lemma recv_rel: "recv env tid s = Some s' \<Longrightarrow> close_rel s s'"
proof (induction rule: recv.raw_induct [rotated, consumes 1, case_names step])
  case (step rc env tid s s')
  then show ?case
    by (auto split: option.splits prod.splits if_splits dest!: recv_round_rel intro: close_rel_trans)
qed

lemma call_enter_rel:
  assumes "call_enter env tid s = Some s'"
  shows "close_rel s s'"
proof (cases "mEnterCallback s")
  case True
  obtain calls k where k: "on_enter env (env_state s) = (calls, k)" by fastforce
  then obtain s1 where s1: "run_procs (perform env tid) calls (log_event Entered (s\<lparr>env_state := k\<rparr>)) = Some s1"
    "s' = s1\<lparr>mEnterCallback := False\<rparr>"
    using assms True by (auto simp: call_enter_def Option.bind_eq_Some_conv)
  have "same_close s (log_event Entered (s\<lparr>env_state := k\<rparr>))" "same_close s1 s'"
    using s1(2) by (simp_all add: same_close_def log_event_def)
  then show ?thesis using performs_rel [OF s1(1)] by (blast intro: close_rel_trans)
next
  case False
  then show ?thesis using assms by (simp add: call_enter_def)
qed

lemma enter_then_close_rel:
  assumes "Option.bind (call_enter env tid s) (procCloseInLoop tid) = Some s'"
  shows "close_rel s s'"
  using assms by (auto simp: Option.bind_eq_Some_conv dest!: call_enter_rel procCloseInLoop_rel intro: close_rel_trans)

lemma processSSLHandshake_rel:
  assumes "processSSLHandshake env tid s = Some s'"
  shows "close_rel s s'"
proof -
  obtain ret want k where r: "sys_handshake env (mSSLCtx s) (env_state s) = (ret, want, k)" by (metis prod_cases3)
  have hs: "same_close s (s\<lparr>env_state := k, mIsHandsharked := True\<rparr>)" by (simp add: same_close_def)
  show ?thesis using assms r
    by (auto simp: processSSLHandshake_def checkRead_def Let_def split: if_split_asm
        dest!: call_enter_rel enter_then_close_rel intro: env_then same_close_then [OF hs])
qed

lemma canRecv_rel: "canRecv env tid s = Some s' \<Longrightarrow> close_rel s s'"
  by (auto simp: canRecv_def dest: processSSLHandshake_rel recv_rel split: if_splits)

lemma canSend_rel:
  assumes "canSend env tid s = Some s'"
  shows "close_rel s s'"
proof -
  have "same_close s ((removeCheckWrite s)\<lparr>mCanWrite := True\<rparr>)" by (simp add: same_close_def removeCheckWrite_def)
  then show ?thesis using assms
    by (auto simp: canSend_def Let_def split: if_splits intro: same_close_then processSSLHandshake_rel runAfterFlush_rel)
qed

section \<open>Steps of the loop thread\<close>

text \<open>
  \<open>todo\<close> is the rest of the function objects the loop took, those for the end of the iteration or those of other threads. The kernel
  reports events only for an open descriptor. A call comes from the thread \<open>u\<close>; any but the loop's own leaves a function object in
  \<^verbatim>\<open>mAsyncProcs\<close>. In the disconnect callback the owner deletes the socket: afterwards nobody calls it, its destructor has cancelled
  the timer, and a function object that another thread left in \<^verbatim>\<open>mAsyncProcs\<close> has no socket to run on, so it has no step here.
\<close>

inductive sock_step ::
  "'k sock_env \<Rightarrow> int \<Rightarrow> sock_proc list \<times> 'k data_socket \<Rightarrow> sock_proc list \<times> 'k data_socket \<Rightarrow> bool"
  for env tid where
  event_in: "mFD s \<noteq> SOCKET_ERROR \<Longrightarrow> canRecv env tid s = Some s' \<Longrightarrow> sock_step env tid ([], s) ([], s')"
| event_out: "mFD s \<noteq> SOCKET_ERROR \<Longrightarrow> canSend env tid s = Some s' \<Longrightarrow> sock_step env tid ([], s) ([], s')"
| event_in_out:
    "mFD s \<noteq> SOCKET_ERROR \<Longrightarrow> canRecv env tid s = Some s1 \<Longrightarrow> canSend env tid s1 = Some s' \<Longrightarrow>
     sock_step env tid ([], s) ([], s')"
| event_hup:
    "mFD s \<noteq> SOCKET_ERROR \<Longrightarrow> canRecv env tid s = Some s1 \<Longrightarrow> onClose tid s1 = Some s' \<Longrightarrow>
     sock_step env tid ([], s) ([], s')"
| call: "Disconnected \<notin> set (sock_trace s) \<Longrightarrow> perform env u c s = Some s' \<Longrightarrow> sock_step env tid (todo, s) (todo, s')"
| ping: "Disconnected \<notin> set (sock_trace s) \<Longrightarrow> PingCheck env tid s = Some s' \<Longrightarrow> sock_step env tid ([], s) ([], s')"
| take_procs:
    "mCopyAfterLoopProcs s = [] \<Longrightarrow>
     sock_step env tid ([], s) (mAfterLoopProcs s, s\<lparr>mCopyAfterLoopProcs := mAfterLoopProcs s, mAfterLoopProcs := []\<rparr>)"
| take_async:
    "Disconnected \<notin> set (sock_trace s) \<Longrightarrow> mCopyAsyncProcs s = [] \<Longrightarrow> sock_step env tid ([], s) (mAsyncProcs s, swap_async s)"
| clear_async: "sock_step env tid ([], s) ([], clear_async s)"
| clear_procs: "sock_step env tid ([], s) ([], s\<lparr>mCopyAfterLoopProcs := []\<rparr>)"
| run_proc: "sock_exec env tid p s = Some s' \<Longrightarrow> sock_step env tid (p # todo, s) (todo, s')"

inductive sock_reach ::
  "'k sock_env \<Rightarrow> int \<Rightarrow> sock_proc list \<times> 'k data_socket \<Rightarrow> sock_proc list \<times> 'k data_socket \<Rightarrow> bool"
  for env tid c where
  here: "sock_reach env tid c c"
| further: "sock_reach env tid c d \<Longrightarrow> sock_step env tid d d' \<Longrightarrow> sock_reach env tid c d'"

text \<open>A socket that entered its loop and is not closed, with nothing of it queued.\<close>

definition fresh_socket :: "'k data_socket \<Rightarrow> bool" where
  "fresh_socket s \<longleftrightarrow>
     \<not> mIsPostFinalClose s \<and> mAfterLoopProcs s = [] \<and> mAsyncProcs s = [] \<and> mCopyAsyncProcs s = [] \<and> Disconnected \<notin> set (sock_trace s)"

definition close_inv :: "sock_proc list \<times> 'k data_socket \<Rightarrow> bool" where
  "close_inv c \<longleftrightarrow>
     (case c of (todo, s) \<Rightarrow>
        DisConnectProc \<notin> set (mAsyncProcs s) \<and>
        (if mIsPostFinalClose s
        then mFD s = SOCKET_ERROR \<and>
          (count_list (sock_trace s) Disconnected = 0 \<and>
             (\<exists>xs. todo @ mAfterLoopProcs s = xs @ [DisConnectProc] \<and> DisConnectProc \<notin> set xs) \<or>
           count_list (sock_trace s) Disconnected = 0 \<and> DisConnectProc \<notin> set (todo @ mAfterLoopProcs s) \<or>
           count_list (sock_trace s) Disconnected = 1 \<and> todo @ mAfterLoopProcs s = [])
        else count_list (sock_trace s) Disconnected = 0 \<and> DisConnectProc \<notin> set (todo @ mAfterLoopProcs s)))"

lemma close_inv_rel:
  assumes "close_inv (todo, s)" "close_rel s s'"
  shows "close_inv (todo, s')"
proof (cases "mIsPostFinalClose s")
  case True
  then show ?thesis using assms by (auto simp: close_inv_def close_rel_def)
next
  case False
  then obtain xs where "DisConnectProc \<notin> set xs"
    "if mIsPostFinalClose s' then mFD s' = SOCKET_ERROR \<and> mAfterLoopProcs s' = mAfterLoopProcs s @ xs @ [DisConnectProc]
     else mAfterLoopProcs s' = mAfterLoopProcs s @ xs"
    using assms(2) by (auto simp: close_rel_def)
  then show ?thesis using assms False
    by (auto simp: close_inv_def close_rel_def intro!: exI [of _ "todo @ mAfterLoopProcs s @ xs"])
qed

lemma close_inv_run:
  assumes "close_inv (p # todo, s)" "sock_exec env tid p s = Some s'"
  shows "close_inv (todo, s')"
proof (cases "p = DisConnectProc")
  case True
  then have s': "s' = (if mDisConnectCallback s then log_event Disconnected s else s)"
    using assms(2) by (simp add: sock_exec_def)
  have "todo @ mAfterLoopProcs s = [] \<and> mIsPostFinalClose s \<and> mFD s = SOCKET_ERROR \<and>
    count_list (sock_trace s) Disconnected = 0 \<and> DisConnectProc \<notin> set (mAsyncProcs s)"
    using assms(1) True by (auto simp: close_inv_def Cons_eq_append_conv split: if_splits)
  then show ?thesis by (simp add: s' close_inv_def log_event_def)
next
  case False
  have "close_inv (todo, s)" using assms(1) False
    by (auto simp: close_inv_def Cons_eq_append_conv split: if_splits)
  then show ?thesis using sock_exec_rel [OF assms(2) False] by (rule close_inv_rel)
qed

lemma close_inv_step: "sock_step env tid c d \<Longrightarrow> close_inv c \<Longrightarrow> close_inv d"
proof (induction rule: sock_step.induct)
  case (take_procs s)
  then show ?case by (simp add: close_inv_def split: if_split_asm)
next
  case (clear_procs s)
  then show ?case by (simp add: close_inv_def split: if_split_asm)
next
  case (take_async s)
  have "DisConnectProc \<notin> set (mAsyncProcs s)" using take_async(3) by (simp add: close_inv_def)
  then have "(\<exists>xs. mAsyncProcs s @ mAfterLoopProcs s = xs @ [DisConnectProc] \<and> DisConnectProc \<notin> set xs)"
    if "mAfterLoopProcs s = ys @ [DisConnectProc]" "DisConnectProc \<notin> set ys" for ys
    using that by (intro exI [of _ "mAsyncProcs s @ ys"]) simp
  moreover have "count_list (sock_trace s) Disconnected = 0" using take_async(1) by (simp add: count_list_0_iff)
  ultimately show ?case using take_async by (auto simp: close_inv_def swap_async_def split: if_split_asm)
next
  case (clear_async s)
  then show ?case by (simp add: close_inv_def clear_async_def split: if_split_asm)
qed (auto intro: close_inv_rel close_inv_run canRecv_rel canSend_rel onClose_rel perform_rel PingCheck_rel
    close_rel_trans)

lemma close_inv_reach: "sock_reach env tid c d \<Longrightarrow> close_inv c \<Longrightarrow> close_inv d"
  by (induction rule: sock_reach.induct) (auto intro: close_inv_step)

lemma fresh_close_inv: "fresh_socket s \<Longrightarrow> close_inv ([], s)"
  by (auto simp: fresh_socket_def close_inv_def count_list_0_iff)

text \<open>The pass of the event loop over its queue is a sequence of these steps.\<close>

lemma run_procs_reach:
  "run_procs (sock_exec env tid) ps s = Some s' \<Longrightarrow> sock_reach env tid c (ps, s) \<Longrightarrow> sock_reach env tid c ([], s')"
proof (induction ps arbitrary: s)
  case (Cons p ps)
  then obtain s1 where "sock_exec env tid p s = Some s1" "run_procs (sock_exec env tid) ps s1 = Some s'"
    by (auto split: option.splits)
  then show ?case using Cons.IH Cons.prems(2) by (blast intro: further run_proc)
qed simp

lemma after_pass_reach:
  assumes "processAfterLoopProcs (sock_exec env tid) s = Some s'" "mCopyAfterLoopProcs s = []" "sock_reach env tid c ([], s)"
  shows "sock_reach env tid c ([], s')"
proof -
  let ?s = "s\<lparr>mCopyAfterLoopProcs := mAfterLoopProcs s, mAfterLoopProcs := []\<rparr>"
  obtain s1 where "run_procs (sock_exec env tid) (mAfterLoopProcs s) ?s = Some s1" "s' = s1\<lparr>mCopyAfterLoopProcs := []\<rparr>"
    using assms(1,2) by (auto simp: processAfterLoopProcs_def Let_def Option.bind_eq_Some_conv)
  moreover have "sock_reach env tid c (mAfterLoopProcs s, ?s)"
    using further [OF assms(3) take_procs [OF assms(2)]] .
  ultimately show ?thesis using run_procs_reach further clear_procs by blast
qed

text \<open>
  C8. The disconnect callback of a connection runs at most once, over any events of the kernel, calls of any threads and timer checks; once it
  has run, none of the function objects that the connection runs at the end of an iteration is left, neither queued in \<^verbatim>\<open>mAfterLoopProcs\<close> nor
  taken, and the descriptor is closed. It says nothing of \<^verbatim>\<open>mAsyncProcs\<close>: a call of another thread may leave a function object there that outlives
  the connection (\<open>posted_outlives_socket\<close>). Nor of the timer of the connection, which the destructor cancels.
\<close>

theorem disconnect_is_last:
  assumes "fresh_socket s" "sock_reach env tid ([], s) (todo, t)"
  shows "count_list (sock_trace t) Disconnected \<le> 1 \<and>
    (Disconnected \<in> set (sock_trace t) \<longrightarrow> todo = [] \<and> mAfterLoopProcs t = [] \<and> mFD t = SOCKET_ERROR)"
proof -
  have "close_inv (todo, t)" using close_inv_reach [OF assms(2)] fresh_close_inv [OF assms(1)] by blast
  then show ?thesis by (auto simp: close_inv_def count_list_0_iff split: if_splits)
qed

text \<open>
  A connection that was closed is reported: while the disconnect callback waits, it waits once, as the last function
  object of the socket in the loop.
\<close>

theorem closed_is_reported:
  assumes "fresh_socket s" "sock_reach env tid ([], s) (todo, t)" "DisConnectProc \<in> set (todo @ mAfterLoopProcs t)"
  shows "mFD t = SOCKET_ERROR \<and> last (todo @ mAfterLoopProcs t) = DisConnectProc \<and>
    count_list (todo @ mAfterLoopProcs t) DisConnectProc = 1"
proof -
  have "close_inv (todo, t)" using close_inv_reach [OF assms(2)] fresh_close_inv [OF assms(1)] by blast
  then obtain xs where "mFD t = SOCKET_ERROR" "todo @ mAfterLoopProcs t = xs @ [DisConnectProc]" "DisConnectProc \<notin> set xs"
    using assms(3) by (auto simp: close_inv_def split: if_splits)
  then show ?thesis by (simp add: count_list_0_iff del: append_eq_append_conv2)
qed

section \<open>An echo server\<close>

text \<open>
  A concrete environment: the first component of its state is what was written to the connection, the second the
  blocks that will arrive, an empty block being the end of the stream. A write takes at most five bytes. The data
  callback consumes everything and sends it back.
\<close>

definition echo_env :: "(bytes \<times> bytes list) sock_env" where
  "echo_env =
     \<lparr>sys_writev = (\<lambda>iov (w, r). let d = take 5 (concat iov) in (int (length d), False, (w @ d, r))),
      sys_send = (\<lambda>d (w, r). (int (length (take 5 d)), False, (w @ take 5 d, r))),
      sys_recv = (\<lambda>n (w, r). case r of [] \<Rightarrow> (-1, [], True, (w, r))
                            | d # ds \<Rightarrow> (int (length (take n d)), take n d, False, (w, ds))),
      sys_link = (\<lambda>k. (True, k)), sys_handshake = (\<lambda>_ k. (1, False, k)),
      sys_malloc = (\<lambda>n. Some (replicate (unat n) CHR 0x00)), sys_now = (\<lambda>_. 0),
      on_data = (\<lambda>d k. (of_nat (length d), [Send d (Some 7)], k)),
      on_enter = (\<lambda>k. ([SetDataCallback True, SetDisConnectCallback True], k)),
      on_complete = (\<lambda>_ k. ([], k))\<rparr>"

definition echo_socket :: "bytes list \<Rightarrow> (bytes \<times> bytes list) data_socket" where
  "echo_socket incoming =
     event_loop.extend (new_event_loop\<lparr>mIsInitThreadID := True, mSelfThreadid := 1\<rparr>)
       \<lparr>mFD = 3, mIsPostFinalClose = False, mCanWrite = True, mEventLoop = True,
        mRecvBuffer = Some \<lparr>buf_data = Some (replicate 8 CHR 0x00), data_len = 8, write_pos = 0, read_pos = 0\<rparr>,
        mMaxRecvBufferSize = 8, mSendList = [], mEnterCallback = False, mDataCallback = True,
        mDisConnectCallback = True, mIsPostFlush = False, mUserData = -1, mSSLCtx = False, mSSL = False,
        mIsHandsharked = False, mRecvData = False, mCheckTime = -1, mTimer = None, check_write = False,
        env_state = ([], incoming), sock_trace = []\<rparr>"

lemma echo_fresh: "fresh_socket (echo_socket incoming)"
  by (simp add: fresh_socket_def echo_socket_def new_event_loop_def event_loop.defs)

text \<open>The loop reads what arrived, and runs its queue.\<close>

definition echo_run :: "bytes list \<Rightarrow> (bytes \<times> bytes list) data_socket option" where
  "echo_run incoming =
     do { s \<leftarrow> canRecv echo_env 1 (echo_socket incoming);
          (if mCopyAfterLoopProcs s = [] then processAfterLoopProcs (sock_exec echo_env 1) s else None) }"

lemma echo_run_reach:
  assumes "echo_run incoming = Some t"
  shows "sock_reach echo_env 1 ([], echo_socket incoming) ([], t)"
proof -
  obtain s where s: "canRecv echo_env 1 (echo_socket incoming) = Some s" "mCopyAfterLoopProcs s = []"
    "processAfterLoopProcs (sock_exec echo_env 1) s = Some t"
    using assms by (auto simp: echo_run_def Option.bind_eq_Some_conv split: if_splits)
  have "mFD (echo_socket incoming) \<noteq> SOCKET_ERROR" by (simp add: echo_socket_def event_loop.defs)
  then have "sock_reach echo_env 1 ([], echo_socket incoming) ([], s)"
    using s(1) by (blast intro: here further event_in)
  then show ?thesis using after_pass_reach s(2,3) by blast
qed

lemma echo_run_closed: "map_option (\<lambda>t. sock_trace t) (echo_run [[]]) = Some [Disconnected]"
  by code_simp

theorem disconnect_is_last_witness:
  "\<exists>t. sock_reach echo_env 1 ([], echo_socket [[]]) ([], t) \<and> sock_trace t = [Disconnected] \<and>
    mAfterLoopProcs t = [] \<and> mFD t = SOCKET_ERROR"
proof -
  obtain t where t: "echo_run [[]] = Some t" "sock_trace t = [Disconnected]" using echo_run_closed by auto
  then show ?thesis using disconnect_is_last [OF echo_fresh echo_run_reach [OF t(1)]] echo_run_reach [OF t(1)] by auto
qed

lemma echo_hangup:
  "map_option (\<lambda>t. (mIsPostFinalClose t, mAfterLoopProcs t)) (canRecv echo_env 1 (echo_socket [[]])) = Some (True, [DisConnectProc])"
  by code_simp

theorem closed_is_reported_witness:
  "\<exists>t. sock_reach echo_env 1 ([], echo_socket [[]]) ([], t) \<and> mIsPostFinalClose t \<and> mFD t = SOCKET_ERROR \<and>
    count_list (mAfterLoopProcs t) DisConnectProc = 1"
proof -
  obtain t where t: "canRecv echo_env 1 (echo_socket [[]]) = Some t" "mIsPostFinalClose t" "mAfterLoopProcs t = [DisConnectProc]"
    using echo_hangup by auto
  have "mFD (echo_socket [[]]) \<noteq> SOCKET_ERROR" by (simp add: echo_socket_def event_loop.defs)
  then have r: "sock_reach echo_env 1 ([], echo_socket [[]]) ([], t)"
    using t(1) by (blast intro: here further event_in)
  then show ?thesis using closed_is_reported [OF echo_fresh r] t(2,3) by auto
qed

text \<open>
  A function object that another thread has handed to the loop outlives the connection: thread 2 sends on the connection after the loop
  has read the end of the stream and before it runs the disconnect callback; the owner deletes the socket there, and the
  function object, which holds a pointer to it, is left.
\<close>

lemma posted_outlives_socket:
  "\<exists>t. sock_reach echo_env 1 ([], echo_socket [[]]) ([], t) \<and> Disconnected \<in> set (sock_trace t) \<and> mAsyncProcs t = [SendProc ''a'' None]"
proof -
  have end_read: "map_option (\<lambda>s. Disconnected \<notin> set (sock_trace s)) (canRecv echo_env 1 (echo_socket [[]])) = Some True"
    by code_simp
  have run: "map_option (\<lambda>t. (sock_trace t, mAsyncProcs t))
      (do { s \<leftarrow> canRecv echo_env 1 (echo_socket [[]]); s' \<leftarrow> perform echo_env 2 (Send ''a'' None) s;
            (if mCopyAfterLoopProcs s' = [] then processAfterLoopProcs (sock_exec echo_env 1) s' else None) }) =
      Some ([Disconnected], [SendProc ''a'' None])"
    by code_simp
  then obtain s s' t where s: "canRecv echo_env 1 (echo_socket [[]]) = Some s" and s': "perform echo_env 2 (Send ''a'' None) s = Some s'"
    and t: "mCopyAfterLoopProcs s' = []" "processAfterLoopProcs (sock_exec echo_env 1) s' = Some t"
      "sock_trace t = [Disconnected]" "mAsyncProcs t = [SendProc ''a'' None]"
    by (auto simp: bind_eq_Some_conv split: if_splits)
  have "mFD (echo_socket [[]]) \<noteq> SOCKET_ERROR" by (simp add: echo_socket_def event_loop.defs)
  then have "sock_reach echo_env 1 ([], echo_socket [[]]) ([], s)" using s by (blast intro: here further event_in)
  moreover have "Disconnected \<notin> set (sock_trace s)" using end_read s by simp
  ultimately have "sock_reach echo_env 1 ([], echo_socket [[]]) ([], s')" using s' by (blast intro: further call)
  then show ?thesis using after_pass_reach [OF t(2,1)] t(3,4) by (intro exI [of _ t]) simp
qed

end
