(* ===== verification/Data_Socket_Stream.thy ===== *)
theory Data_Socket_Stream
  imports Data_Socket_Close
begin

text \<open>
  The bytes a connection sends: whatever the kernel accepts of each write, the bytes on the wire followed by the
  unsent ones are the packets in the order they were handed over, and completion callbacks follow that order.
\<close>

section \<open>What was handed over\<close>

fun accepted :: "sock_event list \<Rightarrow> (bytes \<times> nat option) list" where
  "accepted [] = []"
| "accepted (Accepted d c # es) = (d, c) # accepted es"
| "accepted (_ # es) = accepted es"

fun completed :: "sock_event list \<Rightarrow> nat list" where
  "completed [] = []"
| "completed (Completed c # es) = c # completed es"
| "completed (_ # es) = completed es"

lemma accepted_append [simp]: "accepted (es @ fs) = accepted es @ accepted fs"
  by (induction es rule: accepted.induct) auto

lemma completed_append [simp]: "completed (es @ fs) = completed es @ completed fs"
  by (induction es rule: completed.induct) auto

lemma completed_events [simp]: "accepted (map Completed cs) = []" "completed (map Completed cs) = cs"
  by (induction cs) auto

fun callbacks :: "(bytes \<times> nat option) list \<Rightarrow> nat list" where
  "callbacks [] = []"
| "callbacks ((_, None) # ps) = callbacks ps"
| "callbacks ((_, Some c) # ps) = c # callbacks ps"

lemma callbacks_append [simp]: "callbacks (ps @ qs) = callbacks ps @ callbacks qs"
  by (induction ps rule: callbacks.induct) auto

definition as_accepted :: "pending_packet \<Rightarrow> bytes \<times> nat option" where
  "as_accepted b = (packet_data b, mCompleteCallback b)"

definition unsent :: "pending_packet list \<Rightarrow> bytes" where
  "unsent bs = concat (map left_bytes bs)"

definition packets_wf :: "pending_packet list \<Rightarrow> bool" where
  "packets_wf bs \<longleftrightarrow> (\<forall>b \<in> set bs. packet_left b \<le> length (packet_data b))"

lemma unsent_simps [simp]: "unsent [] = []" "unsent (b # bs) = left_bytes b @ unsent bs"
  "unsent (bs @ cs) = unsent bs @ unsent cs"
  by (simp_all add: unsent_def)

lemma packets_wf_simps [simp]: "packets_wf []"
  "packets_wf (b # bs) \<longleftrightarrow> packet_left b \<le> length (packet_data b) \<and> packets_wf bs"
  "packets_wf (bs @ cs) \<longleftrightarrow> packets_wf bs \<and> packets_wf cs"
  by (auto simp: packets_wf_def)

lemma left_bytes_length: "packet_left b \<le> length (packet_data b) \<Longrightarrow> length (left_bytes b) = packet_left b"
  by (simp add: left_bytes_def)

lemma unsent_length: "packets_wf bs \<Longrightarrow> length (unsent bs) = sum_list (map packet_left bs)"
  by (induction bs) (auto simp: left_bytes_length)

section \<open>The invariant\<close>

text \<open>What the environment guarantees: a write appends a prefix of what it was given; nothing else writes.\<close>

definition wire_ok :: "'k sock_env \<Rightarrow> ('k \<Rightarrow> bytes) \<Rightarrow> bool" where
  "wire_ok env wire \<longleftrightarrow>
     (\<forall>iov k n b k'. sys_writev env iov k = (n, b, k') \<longrightarrow>
        n \<le> int (length (concat iov)) \<and> wire k' = wire k @ take (nat n) (concat iov)) \<and>
     (\<forall>d k n b k'. sys_send env d k = (n, b, k') \<longrightarrow> n \<le> int (length d) \<and> wire k' = wire k @ take (nat n) d) \<and>
     (\<forall>m k n d b k'. sys_recv env m k = (n, d, b, k') \<longrightarrow> wire k' = wire k) \<and>
     (\<forall>c k n b k'. sys_handshake env c k = (n, b, k') \<longrightarrow> wire k' = wire k) \<and>
     (\<forall>d k n cs k'. on_data env d k = (n, cs, k') \<longrightarrow> wire k' = wire k) \<and>
     (\<forall>k cs k'. on_enter env k = (cs, k') \<longrightarrow> wire k' = wire k) \<and>
     (\<forall>c k cs k'. on_complete env c k = (cs, k') \<longrightarrow> wire k' = wire k)"

lemma wire_writev: "wire_ok env wire \<Longrightarrow> sys_writev env iov k = (n, b, k') \<Longrightarrow> n \<le> int (length (concat iov)) \<and> wire k' = wire k @ take (nat n) (concat iov)"
  by (drule wire_ok_def [THEN iffD1, THEN conjunct1, rule_format]) assumption

lemma wire_send: "wire_ok env wire \<Longrightarrow> sys_send env d k = (n, b, k') \<Longrightarrow> n \<le> int (length d) \<and> wire k' = wire k @ take (nat n) d"
  by (drule wire_ok_def [THEN iffD1, THEN conjunct2, THEN conjunct1, rule_format]) assumption

lemma wire_recv: "wire_ok env wire \<Longrightarrow> sys_recv env m k = (n, d, b, k') \<Longrightarrow> wire k' = wire k"
  by (drule wire_ok_def [THEN iffD1, THEN conjunct2, THEN conjunct2, THEN conjunct1, rule_format]) assumption

lemma wire_handshake: "wire_ok env wire \<Longrightarrow> sys_handshake env c k = (n, b, k') \<Longrightarrow> wire k' = wire k"
  by (drule wire_ok_def [THEN iffD1, THEN conjunct2, THEN conjunct2, THEN conjunct2, THEN conjunct1, rule_format]) assumption

lemma wire_data: "wire_ok env wire \<Longrightarrow> on_data env d k = (q, cs, k') \<Longrightarrow> wire k' = wire k"
  by (drule wire_ok_def [THEN iffD1, THEN conjunct2, THEN conjunct2, THEN conjunct2, THEN conjunct2, THEN conjunct1, rule_format]) assumption

lemma wire_enter: "wire_ok env wire \<Longrightarrow> on_enter env k = (cs, k') \<Longrightarrow> wire k' = wire k"
  by (drule wire_ok_def [THEN iffD1, THEN conjunct2, THEN conjunct2, THEN conjunct2, THEN conjunct2, THEN conjunct2, THEN conjunct1, rule_format]) assumption

lemma wire_complete: "wire_ok env wire \<Longrightarrow> on_complete env c k = (cs, k') \<Longrightarrow> wire k' = wire k"
  by (drule wire_ok_def [THEN iffD1, THEN conjunct2, THEN conjunct2, THEN conjunct2, THEN conjunct2, THEN conjunct2, THEN conjunct2, rule_format]) assumption

definition send_inv :: "('k \<Rightarrow> bytes) \<Rightarrow> 'k data_socket \<Rightarrow> bool" where
  "send_inv wire s \<longleftrightarrow>
     packets_wf (mSendList s) \<and>
     wire (env_state s) @ unsent (mSendList s) = concat (map fst (accepted (sock_trace s))) \<and>
     (\<exists>out. accepted (sock_trace s) = out @ map as_accepted (mSendList s) \<and>
        completed (sock_trace s) = callbacks out)"

text \<open>
  A flush that was posted is in the queue of the loop; a socket that cannot write has the event registered, or its
  writing side was shut down.
\<close>

definition base_inv :: "('k \<Rightarrow> bytes) \<Rightarrow> sock_proc list \<Rightarrow> 'k data_socket \<Rightarrow> bool" where
  "base_inv wire todo s \<longleftrightarrow>
     send_inv wire s \<and>
     (mIsPostFlush s \<longrightarrow> FlushProc \<in> set (todo @ mAfterLoopProcs s)) \<and>
     (mFD s \<noteq> SOCKET_ERROR \<and> \<not> mCanWrite s \<longrightarrow> check_write s \<or> ShutDown \<in> set (sock_trace s))"

definition flush_due :: "'k data_socket \<Rightarrow> bool" where
  "flush_due s \<longleftrightarrow> \<not> mSSL s \<and> mFD s \<noteq> SOCKET_ERROR \<and> mSendList s \<noteq> [] \<and> mCanWrite s"

definition sock_inv :: "('k \<Rightarrow> bytes) \<Rightarrow> sock_proc list \<Rightarrow> 'k data_socket \<Rightarrow> bool" where
  "sock_inv wire todo s \<longleftrightarrow> base_inv wire todo s \<and> (flush_due s \<longrightarrow> mIsPostFlush s)"

text \<open>Changes the invariant does not see.\<close>

definition same_send :: "('k \<Rightarrow> bytes) \<Rightarrow> 'k data_socket \<Rightarrow> 'k data_socket \<Rightarrow> bool" where
  "same_send wire s s' \<longleftrightarrow>
     mSendList s' = mSendList s \<and> wire (env_state s') = wire (env_state s) \<and> mSSL s' = mSSL s \<and>
     accepted (sock_trace s') = accepted (sock_trace s) \<and> completed (sock_trace s') = completed (sock_trace s) \<and>
     (ShutDown \<in> set (sock_trace s) \<longrightarrow> ShutDown \<in> set (sock_trace s')) \<and>
     (mFD s' \<noteq> SOCKET_ERROR \<longrightarrow>
        mFD s \<noteq> SOCKET_ERROR \<and> mCanWrite s' = mCanWrite s \<and> check_write s' = check_write s) \<and>
     mIsPostFlush s' = mIsPostFlush s \<and> set (mAfterLoopProcs s) \<subseteq> set (mAfterLoopProcs s')"

lemma same_send_refl [simp]: "same_send wire s s"
  by (simp add: same_send_def)

lemma same_send_base: "same_send wire s s' \<Longrightarrow> base_inv wire todo s \<Longrightarrow> base_inv wire todo s'"
  by (auto simp: base_inv_def send_inv_def same_send_def)

lemma same_send_inv: "same_send wire s s' \<Longrightarrow> sock_inv wire todo s \<Longrightarrow> sock_inv wire todo s'"
  by (auto simp: sock_inv_def flush_due_def same_send_def intro: same_send_base [unfolded same_send_def])

lemma same_send_trans: "same_send wire s t \<Longrightarrow> same_send wire t u \<Longrightarrow> same_send wire s u"
  by (auto simp: same_send_def)

section \<open>Closing and flushing\<close>

lemma onClose_same: "onClose tid s = Some s' \<Longrightarrow> same_send wire s s'"
  by (auto simp: onClose_def pushAfterLoopProc_def closeSocket_def same_send_def split: if_splits)

lemma procCloseInLoop_same: "procCloseInLoop tid s = Some s' \<Longrightarrow> same_send wire s s'"
  by (auto simp: procCloseInLoop_def split: if_splits intro: onClose_same)

lemma onClose_fd: "onClose tid s = Some s' \<Longrightarrow> \<not> mIsPostFinalClose s \<Longrightarrow> mFD s' = SOCKET_ERROR"
  by (auto simp: onClose_def pushAfterLoopProc_def closeSocket_def split: if_splits)

lemma procCloseInLoop_fd:
  "procCloseInLoop tid s = Some s' \<Longrightarrow> (mIsPostFinalClose s \<longrightarrow> mFD s = SOCKET_ERROR) \<Longrightarrow> mFD s' = SOCKET_ERROR"
  by (auto simp: procCloseInLoop_def dest: onClose_fd split: if_splits)

lemma startPingCheckTimer_same: "startPingCheckTimer env tid s = Some s' \<Longrightarrow> same_send wire s s'"
  by (auto simp: startPingCheckTimer_def addTimer_def tryInitThreadID_def Let_def same_send_def split: if_splits)

lemma PingCheck_same: "PingCheck env tid s = Some s' \<Longrightarrow> same_send wire s s'"
  by (auto simp: PingCheck_def split: if_splits dest!: startPingCheckTimer_same [where wire = wire]
      intro: procCloseInLoop_same) (simp add: same_send_def)

lemma setCheckTime_same:
  assumes "setCheckTime env tid t s = Some s'"
  shows "same_send wire s s'"
proof -
  have "mEventLoop s \<and> isInLoopThread s tid"
  proof (rule ccontr)
    assume n: "\<not> (mEventLoop s \<and> isInLoopThread s tid)"
    show False using assms unfolding setCheckTime_def if_not_P [OF n] by simp
  qed
  note eq = assms [unfolded setCheckTime_def if_P [OF this]]
  consider "0 < t" | "t = -1" | "\<not> 0 < t" "t \<noteq> -1" by blast
  then show ?thesis
  proof cases
    case 1
    then have "startPingCheckTimer env tid (s\<lparr>mCheckTime := t\<rparr>) = Some s'" using eq by simp
    then show ?thesis using startPingCheckTimer_same [of env tid "s\<lparr>mCheckTime := t\<rparr>" s' wire]
      by (simp add: same_send_def)
  next
    case 2
    then have "s' = (case weak_lock s (mTimer s) of None \<Rightarrow> s | Some t \<Rightarrow> cancel t s)\<lparr>mCheckTime := -1\<rparr>" using eq by simp
    then show ?thesis by (cases "weak_lock s (mTimer s)") (simp_all add: same_send_def cancel_def)
  next
    case 3
    then have "s' = s" using eq by simp
    then show ?thesis by (simp add: same_send_def)
  qed
qed

lemma ShutdownProc_same: "pushAfterLoopProc tid ShutdownProc s = Some s' \<Longrightarrow> same_send wire s s'"
  by (auto simp: pushAfterLoopProc_def same_send_def split: if_splits)

lemma DisConnectProc_same: "same_send wire s (log_event Disconnected s)"
  by (simp add: same_send_def log_event_def)

text \<open>What an operation of the loop thread keeps besides: a closed socket has posted its end.\<close>

definition closed_ok :: "'k data_socket \<Rightarrow> bool" where
  "closed_ok s \<longleftrightarrow> (mIsPostFinalClose s \<longrightarrow> mFD s = SOCKET_ERROR)"

lemma close_rel_ok: "close_rel s s' \<Longrightarrow> closed_ok s \<Longrightarrow> closed_ok s'"
  by (auto simp: close_rel_def closed_ok_def split: if_splits)

section \<open>Calls of a callback\<close>

text \<open>A call sends, and the list of packets grows, or the invariant does not see it.\<close>

lemma runAfterFlush_list: "runAfterFlush tid s = Some s' \<Longrightarrow> mSendList s' = mSendList s"
  by (auto simp: runAfterFlush_def pushAfterLoopProc_def split: if_splits)

lemma pushAsyncProc_grows:
  assumes "pushAsyncProc (posted_exec tid) tid p s = Some s'"
  shows "same_send wire s s' \<or> length (mSendList s) < length (mSendList s')"
proof (cases "isInLoopThread s tid")
  case True
  then have "posted_exec tid p s = Some s'" using assms by (simp add: pushAsyncProc_def)
  then show ?thesis
    by (cases p) (auto simp: posted_exec_def enqueue_packet_def log_event_def
        split: if_splits dest: runAfterFlush_list intro: procCloseInLoop_same ShutdownProc_same)
next
  case False
  then have s': "s' = snd (wakeup tid (push_async p s))" using assms by (simp add: pushAsyncProc_def)
  show ?thesis unfolding s'
    by (simp add: wakeup_def exchange_wakeup_def channel_wakeup_def push_async_def same_send_def Let_def)
qed

lemma perform_grows:
  assumes "perform env tid c s = Some s'"
  shows "same_send wire s s' \<or> length (mSendList s) < length (mSendList s')"
proof (cases c)
  case (SetCheckTime t)
  then show ?thesis using assms setCheckTime_same by (auto simp: perform_def)
next
  case (Send d cb)
  then show ?thesis using assms pushAsyncProc_grows by (simp add: perform_def sendPacket_def split: if_splits)
next
  case PostDisConnect
  then show ?thesis using assms pushAsyncProc_grows by (fastforce simp: perform_def postDisConnect_def split: if_splits)
next
  case PostShutdown
  then show ?thesis using assms pushAsyncProc_grows by (fastforce simp: perform_def postShutdown_def split: if_splits)
qed (use assms in \<open>auto simp: perform_def same_send_def\<close>)

lemma performs_grow:
  assumes "run_procs (perform env tid) cs s = Some s'"
  shows "same_send wire s s' \<or> length (mSendList s) < length (mSendList s')"
  using assms
proof (induction cs arbitrary: s)
  case (Cons c cs)
  then obtain s1 where s1: "perform env tid c s = Some s1" "run_procs (perform env tid) cs s1 = Some s'" by (auto split: option.splits)
  have len: "mSendList s' = mSendList s1" if "same_send wire s1 s'" using that by (simp add: same_send_def)
  have "mSendList s1 = mSendList s" if "same_send wire s s1" using that by (simp add: same_send_def)
  then show ?case using Cons.IH [OF s1(2)] perform_grows [OF s1(1), of wire] len by (auto intro: same_send_trans)
qed (simp add: same_send_def)

section \<open>What was written\<close>

text \<open>The invariant when the first \<open>n\<close> unsent bytes are already on the wire.\<close>

definition owed_inv :: "('k \<Rightarrow> bytes) \<Rightarrow> sock_proc list \<Rightarrow> nat \<Rightarrow> 'k data_socket \<Rightarrow> bool" where
  "owed_inv wire todo n s \<longleftrightarrow>
     packets_wf (mSendList s) \<and>
     wire (env_state s) @ drop n (unsent (mSendList s)) = concat (map fst (accepted (sock_trace s))) \<and>
     (\<exists>out. accepted (sock_trace s) = out @ map as_accepted (mSendList s) \<and> completed (sock_trace s) = callbacks out) \<and>
     (mIsPostFlush s \<longrightarrow> FlushProc \<in> set (todo @ mAfterLoopProcs s)) \<and>
     (mFD s \<noteq> SOCKET_ERROR \<and> \<not> mCanWrite s \<longrightarrow> check_write s \<or> ShutDown \<in> set (sock_trace s))"

lemma owed_nothing: "owed_inv wire todo 0 s \<longleftrightarrow> base_inv wire todo s"
  by (auto simp: owed_inv_def base_inv_def send_inv_def)

text \<open>A packet that was written in full leaves the list after its callback has run.\<close>

lemma completed_packet:
  assumes wire: "wire_ok env wire" and inv: "owed_inv wire todo n s" and list: "mSendList s = b # bs" and full: "packet_left b \<le> n"
    and s1: "(case mCompleteCallback b of None \<Rightarrow> Some s | Some c \<Rightarrow> call_complete env tid c s) = Some s1" "mSendList s1 = mSendList s"
  shows "owed_inv wire todo (n - packet_left b) (s1\<lparr>mSendList := bs\<rparr>) \<and> mSSL s1 = mSSL s"
proof -
  have len: "length (left_bytes b) = packet_left b" using inv list by (simp add: owed_inv_def left_bytes_length)
  then have rest: "drop n (unsent (mSendList s)) = drop (n - packet_left b) (unsent bs)" using full list by simp
  obtain out where out: "accepted (sock_trace s) = out @ as_accepted b # map as_accepted bs" "completed (sock_trace s) = callbacks out"
    using inv list by (auto simp: owed_inv_def)
  show ?thesis
  proof (cases "mCompleteCallback b")
    case None
    then have "callbacks (out @ [as_accepted b]) = callbacks out" by (simp add: as_accepted_def)
    then show ?thesis using None s1(1) inv list out rest
      by (auto simp: owed_inv_def intro!: exI [of _ "out @ [as_accepted b]"])
  next
    case (Some c)
    obtain calls k where k: "on_complete env c (env_state s) = (calls, k)" by fastforce
    let ?s = "log_event (Completed c) (s\<lparr>env_state := k\<rparr>)"
    have "run_procs (perform env tid) calls ?s = Some s1" using s1(1) Some k by (simp add: call_complete_def)
    then have same: "same_send wire ?s s1" using performs_grow s1(2) by (fastforce simp: log_event_def)
    have "callbacks (out @ [as_accepted b]) = callbacks out @ [c]" using Some by (simp add: as_accepted_def)
    then have "\<exists>out'. accepted (sock_trace s1) = out' @ map as_accepted bs \<and> completed (sock_trace s1) = callbacks out'"
      using same out by (intro exI [of _ "out @ [as_accepted b]"]) (simp add: same_send_def log_event_def)
    then show ?thesis using same inv rest list wire_complete [OF wire k]
      by (auto simp: owed_inv_def same_send_def log_event_def)
  qed
qed

lemma part_left:
  assumes "packet_left b \<le> length (packet_data b)" "n < packet_left b"
  shows "left_bytes (b\<lparr>packet_left := packet_left b - n\<rparr>) = drop n (left_bytes b)"
proof -
  have "length (packet_data b) - (packet_left b - n) = n + (length (packet_data b) - packet_left b)" using assms by simp
  then show ?thesis by (simp add: left_bytes_def)
qed

lemma take_sent_base:
  assumes "wire_ok env wire" "owed_inv wire todo n s" "mSendList s = bs" "n \<le> length (unsent bs)" "take_sent env tid n bs s = Some s'"
  shows "base_inv wire todo s' \<and> mSSL s' = mSSL s"
  using assms(2-5)
proof (induction bs arbitrary: n s)
  case Nil
  then show ?case using owed_nothing by auto
next
  case (Cons b bs)
  have wf: "packet_left b \<le> length (packet_data b)" using Cons.prems(1,2) by (simp add: owed_inv_def)
  note len = left_bytes_length [OF wf]
  show ?case
  proof (cases "packet_left b \<le> n")
    case True
    then obtain s1 where s1: "(case mCompleteCallback b of None \<Rightarrow> Some s | Some c \<Rightarrow> call_complete env tid c s) = Some s1"
      "mSendList s1 = mSendList s" "take_sent env tid (n - packet_left b) bs (s1\<lparr>mSendList := bs\<rparr>) = Some s'"
      using Cons.prems(4) by (auto simp: bind_eq_Some_conv split: if_splits)
    note inv = completed_packet [OF assms(1) Cons.prems(1,2) True s1(1,2)]
    have "n - packet_left b \<le> length (unsent bs)" using Cons.prems(3) len by simp
    then show ?thesis using Cons.IH [OF _ _ _ s1(3)] inv by simp
  next
    case False
    let ?b = "b\<lparr>packet_left := packet_left b - n\<rparr>"
    have s': "s' = s\<lparr>mSendList := ?b # bs\<rparr>" using Cons.prems(4) False by simp
    have "unsent (?b # bs) = drop n (unsent (b # bs))" using part_left [OF wf, of n] False len by simp
    moreover have "as_accepted ?b = as_accepted b" by (simp add: as_accepted_def)
    ultimately show ?thesis using Cons.prems(1,2) wf by (auto simp: s' owed_inv_def base_inv_def send_inv_def)
  qed
qed

lemma finish_sent_base:
  assumes "wire_ok env wire" "base_inv wire todo s" "nat n \<le> length (unsent (mSendList s))"
    "wire k = wire (env_state s) @ take (nat n) (unsent (mSendList s))" "finish_sent env tid (nat n) (s\<lparr>env_state := k\<rparr>) = Some s'"
  shows "base_inv wire todo s' \<and> mSSL s' = mSSL s"
proof -
  have "owed_inv wire todo (nat n) (s\<lparr>env_state := k\<rparr>)"
    using assms(2,4) by (auto simp: owed_inv_def base_inv_def send_inv_def)
  from take_sent_base [OF assms(1) this refl _ assms(5) [unfolded finish_sent_def]] assms(3) show ?thesis by simp
qed

section \<open>Flushing\<close>

lemma cannot_write_base:
  "cannot_write tid s = Some s' \<Longrightarrow> base_inv wire todo s \<Longrightarrow>
   base_inv wire todo s' \<and> \<not> mCanWrite s' \<and> mSSL s' = mSSL s"
  by (cases "mFD s = SOCKET_ERROR") (auto simp: cannot_write_def checkWrite_def base_inv_def send_inv_def)

lemma unsent_take:
  assumes "n \<le> length (unsent (take m bs))"
  shows "n \<le> length (unsent bs)" "take n (unsent bs) = take n (unsent (take m bs))"
proof -
  have "unsent bs = unsent (take m bs) @ unsent (drop m bs)"
    using unsent_simps(3) [of "take m bs" "drop m bs"] by simp
  then show "n \<le> length (unsent bs)" "take n (unsent bs) = take n (unsent (take m bs))"
    using assms by simp_all
qed

text \<open>A write to an open descriptor, and to a closed one, which fails.\<close>

definition guarded :: "'k data_socket \<Rightarrow> int \<times> bool \<times> 'k \<Rightarrow> int \<times> bool \<times> 'k" where
  "guarded s w = (if mFD s = SOCKET_ERROR then (-1, False, env_state s) else w)"

lemma written_base:
  assumes "wire_ok env wire" "base_inv wire todo s" "guarded s w = (n, b, k)" "unsent (mSendList s) = batch @ r"
    and "w = (n, b, k) \<Longrightarrow> n \<le> int (length batch) \<and> wire k = wire (env_state s) @ take (nat n) batch"
  shows "0 < n \<Longrightarrow> finish_sent env tid (nat n) (s\<lparr>env_state := k\<rparr>) = Some s2 \<Longrightarrow> base_inv wire todo s2 \<and> mSSL s2 = mSSL s"
    and "n \<le> 0 \<Longrightarrow> base_inv wire todo (s\<lparr>env_state := k\<rparr>)"
    and "0 < n \<Longrightarrow> nat n \<le> length (unsent (mSendList s))"
proof -
  have w: "nat n \<le> length batch" "wire k = wire (env_state s) @ take (nat n) batch"
    using assms(3,5) by (auto simp: guarded_def nat_le_iff split: if_splits)
  then show "base_inv wire todo s2 \<and> mSSL s2 = mSSL s" if "0 < n" "finish_sent env tid (nat n) (s\<lparr>env_state := k\<rparr>) = Some s2"
    using finish_sent_base [OF assms(1,2) _ _ that(2)] assms(4) by simp
  show "base_inv wire todo (s\<lparr>env_state := k\<rparr>)" if "n \<le> 0"
    using assms(2) w(2) that by (simp add: base_inv_def send_inv_def)
  show "nat n \<le> length (unsent (mSendList s))" using w(1) assms(4) by simp
qed

text \<open>What a connection does after a write, in both ways of flushing.\<close>

lemma after_write_base:
  assumes step: "(if 0 < n then (case finish_sent env tid (nat n) (s\<lparr>env_state := k\<rparr>) of None \<Rightarrow> None
        | Some s2 \<Rightarrow> if b then (if mSendList s2 \<noteq> [] then again s2 else Some s2) else cannot_write tid s2)
      else if wb then cannot_write tid (s\<lparr>env_state := k\<rparr>) else procCloseInLoop tid (s\<lparr>env_state := k\<rparr>)) = Some s'"
    and wrote: "\<And>s2. 0 < n \<Longrightarrow> finish_sent env tid (nat n) (s\<lparr>env_state := k\<rparr>) = Some s2 \<Longrightarrow> base_inv wire todo s2 \<and> mSSL s2 = mSSL s"
    and failed: "n \<le> 0 \<Longrightarrow> base_inv wire todo (s\<lparr>env_state := k\<rparr>)"
    and closed: "closed_ok s"
    and again: "\<And>s2. again s2 = Some s' \<Longrightarrow> base_inv wire todo s2 \<Longrightarrow> closed_ok s2 \<Longrightarrow>
      base_inv wire todo s' \<and> mSSL s' = mSSL s2 \<and> (rest s' \<or> mSendList s' = [] \<or> \<not> mCanWrite s' \<or> mFD s' = SOCKET_ERROR)"
  shows "base_inv wire todo s' \<and> mSSL s' = mSSL s \<and> (rest s' \<or> mSendList s' = [] \<or> \<not> mCanWrite s' \<or> mFD s' = SOCKET_ERROR)"
proof (cases "0 < n")
  case True
  then obtain s2 where s2: "finish_sent env tid (nat n) (s\<lparr>env_state := k\<rparr>) = Some s2"
    "(if b then (if mSendList s2 \<noteq> [] then again s2 else Some s2) else cannot_write tid s2) = Some s'"
    using step by (auto split: option.splits)
  have base: "base_inv wire todo s2" "mSSL s2 = mSSL s" using wrote [OF True s2(1)] by simp_all
  have "closed_ok s2" using sent_rel [OF s2(1)] closed close_rel_ok by blast
  then show ?thesis using s2(2) again [OF _ base(1)] cannot_write_base [OF _ base(1)] base by (auto split: if_splits)
next
  case False
  let ?s1 = "s\<lparr>env_state := k\<rparr>"
  have base: "base_inv wire todo ?s1" using failed False by simp
  have "cannot_write tid ?s1 = Some s' \<or> procCloseInLoop tid ?s1 = Some s'" using step False by (auto split: if_splits)
  then show ?thesis
  proof
    assume "cannot_write tid ?s1 = Some s'"
    then show ?thesis using cannot_write_base [OF _ base] by auto
  next
    assume c: "procCloseInLoop tid ?s1 = Some s'"
    then have "mFD s' = SOCKET_ERROR" using procCloseInLoop_fd closed by (fastforce simp: closed_ok_def)
    then show ?thesis using same_send_base [OF procCloseInLoop_same [OF c] base] procCloseInLoop_same [OF c, of wire]
      by (simp add: same_send_def)
  qed
qed

lemma quickFlush_base:
  "quickFlush env tid s = Some s' \<Longrightarrow> wire_ok env wire \<Longrightarrow> base_inv wire todo s \<Longrightarrow> closed_ok s \<Longrightarrow>
    base_inv wire todo s' \<and> mSSL s' = mSSL s \<and> (mSendList s' = [] \<or> \<not> mCanWrite s' \<or> mFD s' = SOCKET_ERROR)"
proof (induction rule: quickFlush.raw_induct [rotated, consumes 1, case_names step])
  case (step qf env tid s s')
  let ?w = "sys_writev env (map left_bytes (take MAX_IOVEC (mSendList s))) (env_state s)"
  obtain n b k where w: "guarded s ?w = (n, b, k)" by (metis prod_cases3)
  have r: "unsent (mSendList s) = concat (map left_bytes (take MAX_IOVEC (mSendList s))) @ unsent (drop MAX_IOVEC (mSendList s))"
    using unsent_simps(3) [of "take MAX_IOVEC (mSendList s)" "drop MAX_IOVEC (mSendList s)"] by (simp add: unsent_def)
  note wb = written_base [OF step(3,4) w r wire_writev [OF step(3)]]
  show ?case
  proof (cases "mSendList s = []")
    case True
    then show ?thesis using step(2,4) by simp
  next
    case False
    have "(if 0 < n then (case finish_sent env tid (nat n) (s\<lparr>env_state := k\<rparr>) of None \<Rightarrow> None
        | Some s2 \<Rightarrow> if word_of_int n = (of_nat (sum_list (map packet_left (take MAX_IOVEC (mSendList s)))) :: 32 word)
            then (if mSendList s2 \<noteq> [] then qf env tid s2 else Some s2) else cannot_write tid s2)
      else if b then cannot_write tid (s\<lparr>env_state := k\<rparr>) else procCloseInLoop tid (s\<lparr>env_state := k\<rparr>)) = Some s'"
      using step(2) w [unfolded guarded_def] False by (simp add: Let_def MAX_IOVEC_def split: if_split_asm option.split_asm)
    from after_write_base [OF this wb(1,2) step(5), where rest = "\<lambda>_. False"] step(1) [OF _ step(3)] show ?thesis by simp
  qed
qed

lemma merge_packets_prefix: "\<exists>r. unsent bs = merge_packets n bs @ r"
proof (induction bs arbitrary: n)
  case (Cons b bs)
  show ?case
  proof (cases "n + packet_left b \<le> SENDBUF_SIZE")
    case True
    then show ?thesis using Cons [of "n + packet_left b"] by auto
  qed simp
qed simp

lemma send_buffer_prefix: "\<exists>r. unsent bs = send_buffer bs @ r"
  using merge_packets_prefix [of bs 0] by (cases bs) (auto simp: send_buffer_def)

lemma normalFlush_base:
  "normalFlush env tid s = Some s' \<Longrightarrow> wire_ok env wire \<Longrightarrow> base_inv wire todo s \<Longrightarrow> closed_ok s \<Longrightarrow> base_inv wire todo s' \<and> mSSL s' = mSSL s"
proof (induction rule: normalFlush.raw_induct [rotated, consumes 1, case_names step])
  case (step nf env tid s s')
  obtain n b k where w: "guarded s (sys_send env (send_buffer (mSendList s)) (env_state s)) = (n, b, k)" by (metis prod_cases3)
  obtain r where r: "unsent (mSendList s) = send_buffer (mSendList s) @ r" using send_buffer_prefix by blast
  note wb = written_base [OF step(3,4) w r wire_send [OF step(3)]]
  show ?case
  proof (cases "send_buffer (mSendList s) = []")
    case True
    then show ?thesis using step(2,4) by simp
  next
    case False
    have "(if 0 < n then (case finish_sent env tid (nat n) (s\<lparr>env_state := k\<rparr>) of None \<Rightarrow> None
        | Some s2 \<Rightarrow> if n = int (length (send_buffer (mSendList s)))
            then (if mSendList s2 \<noteq> [] then nf env tid s2 else Some s2) else cannot_write tid s2)
      else if b then cannot_write tid (s\<lparr>env_state := k\<rparr>) else procCloseInLoop tid (s\<lparr>env_state := k\<rparr>)) = Some s'"
      using step(2) w [unfolded guarded_def] False by (simp add: Let_def split: if_split_asm option.split_asm)
    from after_write_base [OF this wb(1,2) step(5), where rest = "\<lambda>_. True"] step(1) [OF _ step(3)] show ?thesis by simp
  qed
qed

text \<open>After a flush nothing is left to do until the next event.\<close>

lemma flush_inv:
  assumes "flush env tid s = Some s'" "wire_ok env wire" "base_inv wire todo s" "closed_ok s"
  shows "sock_inv wire todo s'"
proof (cases "mCanWrite s \<and> mFD s \<noteq> SOCKET_ERROR")
  case True
  then show ?thesis
  proof (cases "mSSL s")
    case ssl: True
    then have "normalFlush env tid s = Some s'" using assms(1) True by (simp add: flush_def)
    then show ?thesis using normalFlush_base [OF _ assms(2-4)] ssl by (fastforce simp: sock_inv_def flush_due_def)
  next
    case False
    then have "quickFlush env tid s = Some s'" using assms(1) True by (simp add: flush_def)
    then show ?thesis using quickFlush_base [OF _ assms(2-4)] by (fastforce simp: sock_inv_def flush_due_def)
  qed
next
  case False
  then show ?thesis using assms(1,3) by (auto simp: flush_def sock_inv_def flush_due_def)
qed

section \<open>The other operations\<close>

lemma runAfterFlush_inv:
  "runAfterFlush tid s = Some s' \<Longrightarrow> base_inv wire todo s \<Longrightarrow> sock_inv wire todo s'"
  by (auto simp: runAfterFlush_def pushAfterLoopProc_def sock_inv_def base_inv_def send_inv_def flush_due_def split: if_splits)

lemma enqueue_base: "base_inv wire todo s \<Longrightarrow> base_inv wire todo (enqueue_packet d c s)"
  by (auto simp: base_inv_def send_inv_def enqueue_packet_def log_event_def as_accepted_def left_bytes_def)

lemma sock_invD: "sock_inv wire todo s \<Longrightarrow> base_inv wire todo s"
  by (simp add: sock_inv_def)

lemma sock_invI_ssl: "base_inv wire todo s \<Longrightarrow> mSSL s \<Longrightarrow> sock_inv wire todo s"
  by (simp add: sock_inv_def flush_due_def)

text \<open>A function object that the loop has taken, or one that runs in place.\<close>

lemma sock_exec_inv:
  assumes "sock_exec env tid p s = Some s'" "wire_ok env wire"
    "sock_inv wire (p # todo) s" "p \<noteq> FlushProc \<Longrightarrow> sock_inv wire todo s" "closed_ok s"
  shows "sock_inv wire todo s'"
proof (cases p)
  case FlushProc
  have "base_inv wire todo (s\<lparr>mIsPostFlush := False\<rparr>)"
    using sock_invD [OF assms(3)] by (auto simp: base_inv_def send_inv_def)
  then show ?thesis using assms FlushProc flush_inv [of env tid "s\<lparr>mIsPostFlush := False\<rparr>"]
    by (simp add: sock_exec_def closed_ok_def)
next
  case ShutdownProc
  then have "sock_inv wire todo s" "s' = procShutdownInLoop s" using assms by (simp_all add: sock_exec_def)
  then show ?thesis
    by (auto simp: procShutdownInLoop_def log_event_def sock_inv_def base_inv_def send_inv_def flush_due_def split: if_splits)
next
  case (SendProc d c)
  then show ?thesis using assms(1,4)
    by (auto simp: sock_exec_def posted_exec_def intro: runAfterFlush_inv enqueue_base sock_invD)
qed (use assms(1,4) in \<open>auto simp: sock_exec_def posted_exec_def split: if_splits
    intro: same_send_inv procCloseInLoop_same ShutdownProc_same PingCheck_same DisConnectProc_same
      same_send_inv [OF DisConnectProc_same]\<close>)

definition stream_inv :: "('k \<Rightarrow> bytes) \<Rightarrow> sock_proc list \<Rightarrow> 'k data_socket \<Rightarrow> bool" where
  "stream_inv wire todo s \<longleftrightarrow> sock_inv wire todo s \<and> closed_ok s"

lemma stream_same: "same_send wire s s' \<Longrightarrow> close_rel s s' \<Longrightarrow> stream_inv wire todo s \<Longrightarrow> stream_inv wire todo s'"
  by (simp add: stream_inv_def same_send_inv close_rel_ok)

text \<open>A call runs its function object in place, without taking one from the queue.\<close>

lemma posted_exec_call:
  assumes "posted_exec tid p s = Some s'" "stream_inv wire todo s"
  shows "stream_inv wire todo s'"
proof -
  have rel: "closed_ok s'" using posted_exec_rel [OF assms(1)] assms(2) close_rel_ok by (auto simp: stream_inv_def)
  show ?thesis
  proof (cases p)
    case (SendProc d c)
    then show ?thesis using assms rel by (auto simp: posted_exec_def stream_inv_def intro: runAfterFlush_inv enqueue_base sock_invD)
  qed (use assms rel in \<open>auto simp: posted_exec_def stream_inv_def split: if_splits
      intro: same_send_inv procCloseInLoop_same ShutdownProc_same\<close>)
qed

lemma pushAsyncProc_call:
  assumes "pushAsyncProc (posted_exec tid) tid p s = Some s'" "stream_inv wire todo s" "p \<noteq> DisConnectProc"
  shows "stream_inv wire todo s'"
proof (cases "isInLoopThread s tid")
  case True
  then show ?thesis using assms by (auto simp: pushAsyncProc_def intro: posted_exec_call)
next
  case False
  then have s': "s' = snd (wakeup tid (push_async p s))" using assms by (simp add: pushAsyncProc_def)
  have "same_send wire s s'" unfolding s'
    by (simp add: wakeup_def exchange_wakeup_def channel_wakeup_def push_async_def same_send_def Let_def)
  then show ?thesis using stream_same [OF _ pushAsyncProc_rel [OF assms(1,3)] assms(2)] by blast
qed

lemma perform_inv:
  assumes "perform env tid c s = Some s'" "stream_inv wire todo s"
  shows "stream_inv wire todo s'"
proof (cases c)
  case (SetCheckTime t)
  then show ?thesis using assms stream_same [OF setCheckTime_same setCheckTime_rel] by (simp add: perform_def)
next
  case (SetUserData v)
  then show ?thesis using assms stream_same [OF _ perform_rel [OF assms(1)] assms(2)]
    by (auto simp: perform_def same_send_def)
next
  case (SetDataCallback v)
  then show ?thesis using assms stream_same [OF _ perform_rel [OF assms(1)] assms(2)]
    by (auto simp: perform_def same_send_def)
next
  case (SetDisConnectCallback v)
  then show ?thesis using assms stream_same [OF _ perform_rel [OF assms(1)] assms(2)]
    by (auto simp: perform_def same_send_def)
qed (use assms in \<open>auto simp: perform_def sendPacket_def postDisConnect_def postShutdown_def split: if_splits
    intro: pushAsyncProc_call\<close>)

lemma performs_inv:
  "run_procs (perform env tid) cs s = Some s' \<Longrightarrow> stream_inv wire todo s \<Longrightarrow> stream_inv wire todo s'"
proof (induction cs arbitrary: s)
  case (Cons c cs)
  then show ?case by (auto split: option.splits dest: perform_inv)
qed simp

section \<open>Receiving\<close>

lemma same_close_send:
  "same_close s s' \<Longrightarrow> same_send wire s s' \<Longrightarrow> stream_inv wire todo s \<Longrightarrow> stream_inv wire todo s'"
  by (rule stream_same) auto

lemma buffer_update: "same_send wire s (s\<lparr>mRecvBuffer := b\<rparr>)" "close_rel s (s\<lparr>mRecvBuffer := b\<rparr>)"
  by (auto simp: same_send_def same_close_def)

lemma buffer_change:
  "s' = s \<or> (\<exists>b. s' = s\<lparr>mRecvBuffer := b\<rparr>) \<Longrightarrow> stream_inv wire todo s \<Longrightarrow> stream_inv wire todo s'"
  using stream_same [OF buffer_update] by blast

lemma deliver_inv:
  assumes "deliver env tid s = Some s'" "wire_ok env wire" "stream_inv wire todo s"
  shows "stream_inv wire todo s'"
proof (cases "mDataCallback s")
  case True
  then show ?thesis
  proof (rule deliver_cases [OF assms(1)])
    fix b bs n calls k s1
    assume d: "on_data env bs (env_state s) = (n, calls, k)"
      and s1: "run_procs (perform env tid) calls (s\<lparr>mRecvData := True, env_state := k\<rparr>) = Some s1"
      and s': "s' = s1\<lparr>mRecvBuffer := Some (ox_buffer_addreadpos b n)\<rparr>"
    have "stream_inv wire todo (s\<lparr>mRecvData := True, env_state := k\<rparr>)"
      by (rule same_close_send [OF _ _ assms(3)]) (simp_all add: same_close_def same_send_def wire_data [OF assms(2) d])
    then have "stream_inv wire todo s1" using performs_inv [OF s1] by blast
    then show ?thesis using s' by (blast intro: buffer_change)
  qed
next
  case False
  then show ?thesis using assms by (simp add: deliver_def)
qed

lemma procCloseInLoop_inv: "procCloseInLoop tid s = Some s' \<Longrightarrow> stream_inv wire todo s \<Longrightarrow> stream_inv wire todo s'"
  using stream_same [OF procCloseInLoop_same procCloseInLoop_rel] .

lemma env_inv: "stream_inv wire todo s \<Longrightarrow> wire k = wire (env_state s) \<Longrightarrow> stream_inv wire todo (s\<lparr>env_state := k\<rparr>)"
  by (rule same_close_send [OF env_same]) (simp_all add: same_send_def)

lemma recv_round_inv:
  assumes "recv_round env tid s = Some (again, s')" "wire_ok env wire" "stream_inv wire todo s"
  shows "stream_inv wire todo s'"
  using assms(1)
proof (cases rule: recv_round_cases)
  case idle
  then show ?thesis using assms(3) by simp
next
  case (ended b n d wb k)
  then show ?thesis using env_inv [OF assms(3) wire_recv [OF assms(2) ended(3)]] procCloseInLoop_inv by blast
next
  case (received b n d wb k b1 s2 s3)
  have "stream_inv wire todo (s\<lparr>env_state := k, mRecvBuffer := c\<rparr>)" for c
    by (rule stream_same [OF buffer_update env_inv [OF assms(3) wire_recv [OF assms(2) received(5)]]])
  then have "stream_inv wire todo s2" using received(8)
    unfolding Let_def by (metis buffer_change growRecvBuffer_cases option.inject)
  then have "stream_inv wire todo s3" using deliver_inv received(9) assms(2) by blast
  then show ?thesis using adjust_buffer_cases [OF received(10)] buffer_change by blast
qed

lemma recv_inv: "recv env tid s = Some s' \<Longrightarrow> wire_ok env wire \<Longrightarrow> stream_inv wire todo s \<Longrightarrow> stream_inv wire todo s'"
proof (induction rule: recv.raw_induct [rotated, consumes 1, case_names step])
  case (step rc env tid s s')
  then show ?case by (auto split: option.splits prod.splits if_splits dest: recv_round_inv)
qed

section \<open>Events\<close>

lemma call_enter_inv:
  assumes "call_enter env tid s = Some s'" "wire_ok env wire" "stream_inv wire todo s"
  shows "stream_inv wire todo s'"
proof (cases "mEnterCallback s")
  case True
  obtain calls k where k: "on_enter env (env_state s) = (calls, k)" by fastforce
  then obtain s1 where s1: "run_procs (perform env tid) calls (log_event Entered (s\<lparr>env_state := k\<rparr>)) = Some s1"
    "s' = s1\<lparr>mEnterCallback := False\<rparr>"
    using assms True by (auto simp: call_enter_def Option.bind_eq_Some_conv)
  have "stream_inv wire todo (log_event Entered (s\<lparr>env_state := k\<rparr>))"
    by (rule same_close_send [OF _ _ assms(3)])
      (simp_all add: same_close_def same_send_def log_event_def wire_enter [OF assms(2) k])
  then have "stream_inv wire todo s1" using performs_inv [OF s1(1)] by blast
  then show ?thesis
    using s1(2) same_close_send [of s1 s' wire todo] by (simp add: same_close_def same_send_def)
next
  case False
  then show ?thesis using assms by (simp add: call_enter_def)
qed

lemma enter_then_close_inv:
  assumes "Option.bind (call_enter env tid s) (procCloseInLoop tid) = Some s'" "wire_ok env wire" "stream_inv wire todo s"
  shows "stream_inv wire todo s'"
  using assms by (auto simp: Option.bind_eq_Some_conv intro: procCloseInLoop_inv call_enter_inv)

lemma processSSLHandshake_inv:
  assumes "processSSLHandshake env tid s = Some s'" "wire_ok env wire" "stream_inv wire todo s"
  shows "stream_inv wire todo s'"
proof -
  obtain ret want k where r: "sys_handshake env (mSSLCtx s) (env_state s) = (ret, want, k)" by (metis prod_cases3)
  have w: "wire k = wire (env_state s)" using wire_handshake [OF assms(2) r] .
  have "stream_inv wire todo (s\<lparr>env_state := k, mIsHandsharked := True\<rparr>)"
    by (rule same_close_send [OF _ _ assms(3)]) (simp_all add: same_close_def same_send_def w)
  then show ?thesis using assms r env_inv [OF assms(3) w]
    by (auto simp: processSSLHandshake_def checkRead_def Let_def split: if_split_asm
        intro: call_enter_inv enter_then_close_inv)
qed

lemma canRecv_inv:
  "canRecv env tid s = Some s' \<Longrightarrow> wire_ok env wire \<Longrightarrow> stream_inv wire todo s \<Longrightarrow> stream_inv wire todo s'"
  by (auto simp: canRecv_def split: if_splits intro: processSSLHandshake_inv recv_inv)

text \<open>With TLS and before the handshake \<^verbatim>\<open>canSend\<close> posts no flush; the invariant asks for none.\<close>

lemma canSend_inv:
  assumes "canSend env tid s = Some s'" "wire_ok env wire" "stream_inv wire todo s"
  shows "stream_inv wire todo s'"
proof -
  let ?s = "(removeCheckWrite s)\<lparr>mCanWrite := True\<rparr>"
  have base: "base_inv wire todo ?s" "closed_ok ?s" "mSSL ?s = mSSL s"
    using assms(3) by (auto simp: stream_inv_def sock_inv_def base_inv_def send_inv_def closed_ok_def removeCheckWrite_def)
  show ?thesis
  proof (cases "\<not> mIsHandsharked s \<and> mSSL s")
    case True
    then have "stream_inv wire todo ?s" using base sock_invI_ssl [OF base(1)] by (auto simp: stream_inv_def)
    then show ?thesis using assms(1,2) True by (auto simp: canSend_def Let_def intro: processSSLHandshake_inv)
  next
    case False
    then have "runAfterFlush tid ?s = Some s'" using assms(1) by (auto simp: canSend_def Let_def)
    then show ?thesis
      using runAfterFlush_inv base close_rel_ok runAfterFlush_rel by (fastforce simp: stream_inv_def)
  qed
qed

lemma onClose_inv: "onClose tid s = Some s' \<Longrightarrow> stream_inv wire todo s \<Longrightarrow> stream_inv wire todo s'"
  using stream_same [OF onClose_same onClose_rel] .

lemma run_proc_inv:
  assumes "sock_exec env tid p s = Some s'" "wire_ok env wire" "stream_inv wire (p # todo) s"
  shows "stream_inv wire todo s'"
proof (cases "p = DisConnectProc")
  case True
  then have "s' = (if mDisConnectCallback s then log_event Disconnected s else s)"
    using assms(1) by (simp add: sock_exec_def)
  moreover have "stream_inv wire todo s" using assms(3) True by (auto simp: stream_inv_def sock_inv_def base_inv_def)
  ultimately show ?thesis
    by (auto simp: stream_inv_def closed_ok_def log_event_def intro: same_send_inv [OF DisConnectProc_same, unfolded log_event_def])
next
  case False
  have "p \<noteq> FlushProc \<Longrightarrow> sock_inv wire todo s" using assms(3) by (auto simp: stream_inv_def sock_inv_def base_inv_def)
  then have "sock_inv wire todo s'"
    using sock_exec_inv [OF assms(1,2)] assms(3) by (auto simp: stream_inv_def closed_ok_def)
  then show ?thesis using sock_exec_rel [OF assms(1) False] close_rel_ok assms(3) by (auto simp: stream_inv_def)
qed

lemma stream_inv_step:
  "sock_step env tid c d \<Longrightarrow> wire_ok env wire \<Longrightarrow> stream_inv wire (fst c) (snd c) \<Longrightarrow> stream_inv wire (fst d) (snd d)"
proof (induction rule: sock_step.induct)
  case (take_procs s)
  then show ?case by (auto simp: stream_inv_def sock_inv_def base_inv_def send_inv_def flush_due_def closed_ok_def)
next
  case (clear_procs s)
  then show ?case by (auto simp: stream_inv_def sock_inv_def base_inv_def send_inv_def flush_due_def closed_ok_def)
next
  case (take_async s)
  then show ?case
    by (auto simp: swap_async_def stream_inv_def sock_inv_def base_inv_def send_inv_def flush_due_def closed_ok_def)
next
  case (clear_async s)
  then show ?case
    by (auto simp: clear_async_def stream_inv_def sock_inv_def base_inv_def send_inv_def flush_due_def closed_ok_def)
next
  case (ping s s')
  then show ?case using stream_same [OF PingCheck_same PingCheck_rel] by fastforce
qed (auto intro: canRecv_inv canSend_inv onClose_inv perform_inv run_proc_inv)

lemma stream_inv_reach:
  "sock_reach env tid c d \<Longrightarrow> wire_ok env wire \<Longrightarrow> stream_inv wire (fst c) (snd c) \<Longrightarrow> stream_inv wire (fst d) (snd d)"
  by (induction rule: sock_reach.induct) (auto dest: stream_inv_step)

text \<open>A connection on which nothing was sent yet.\<close>

definition unused_socket :: "('k \<Rightarrow> bytes) \<Rightarrow> 'k data_socket \<Rightarrow> bool" where
  "unused_socket wire s \<longleftrightarrow>
     mSendList s = [] \<and> sock_trace s = [] \<and> wire (env_state s) = [] \<and> mCanWrite s \<and>
     \<not> mIsPostFlush s \<and> \<not> mIsPostFinalClose s"

lemma unused_stream_inv: "unused_socket wire s \<Longrightarrow> stream_inv wire [] s"
  by (simp add: unused_socket_def stream_inv_def sock_inv_def base_inv_def send_inv_def flush_due_def closed_ok_def)

text \<open>
  C6. The stream of a connection: after any sequence of events, calls, timer checks and function objects, the bytes
  written to the kernel followed by the bytes still unsent are the packets in the order in which they were handed
  over, nothing lost, repeated or reordered, whatever part of each write the kernel accepts. The
  completion callbacks that have run are those of the packets written in full, once each, in that order. They run in the middle of the
  loop over the unsent packets and may call methods of the connection: close it, shut it down, set its timer. One that sends on its
  connection in the loop thread invalidates the iterator of that loop (\<open>completion_send_invalidates\<close>); a run in which it does is
  undefined and is not continued here.
\<close>

theorem send_stream_exact:
  assumes "wire_ok env wire" "unused_socket wire s" "sock_reach env tid ([], s) (todo, t)"
  shows "wire (env_state t) @ unsent (mSendList t) = concat (map fst (accepted (sock_trace t))) \<and>
    (\<exists>out. accepted (sock_trace t) = out @ map as_accepted (mSendList t) \<and> completed (sock_trace t) = callbacks out)"
  using stream_inv_reach [OF assms(3,1)] unused_stream_inv [OF assms(2)]
  by (simp add: stream_inv_def sock_inv_def base_inv_def send_inv_def)

text \<open>
  C34. Unsent data is never forgotten: while packets are waiting on an open connection without TLS, a flush is in the
  queue of the loop, or the kernel will report when the descriptor can be written, or the writing side was
  shut down. Completion callbacks run in their place in the flush, as above: they may close the connection or shut it down, and
  a run in which one sends on its connection is not continued.
\<close>

theorem unsent_is_pursued:
  assumes "wire_ok env wire" "unused_socket wire s" "sock_reach env tid ([], s) (todo, t)"
    "mSendList t \<noteq> []" "mFD t \<noteq> SOCKET_ERROR" "\<not> mSSL t"
  shows "FlushProc \<in> set (todo @ mAfterLoopProcs t) \<or> check_write t \<or> ShutDown \<in> set (sock_trace t)"
  using stream_inv_reach [OF assms(3,1)] unused_stream_inv [OF assms(2)] assms(4-6)
  by (auto simp: stream_inv_def sock_inv_def base_inv_def flush_due_def)

section \<open>Flushing ends\<close>

lemma procCloseInLoop_some: "in_loop tid s \<Longrightarrow> \<exists>s'. procCloseInLoop tid s = Some s'"
  using procCloseInLoop_recv by blast

lemma cannot_write_some: "\<exists>s'. cannot_write tid s = Some s'"
  by (simp add: cannot_write_def checkWrite_def)

text \<open>Each write that succeeds shortens what is unsent.\<close>

lemma take_sent_shorter:
  assumes "take_sent env tid n bs s = Some s'" "packets_wf bs" "mSendList s = bs" "n \<le> length (unsent bs)"
  shows "packets_wf (mSendList s') \<and> length (unsent (mSendList s')) = length (unsent bs) - n"
  using assms
proof (induction bs arbitrary: n s)
  case (Cons b bs)
  then have wf: "packet_left b \<le> length (packet_data b)" by simp
  show ?case
  proof (cases "packet_left b \<le> n")
    case True
    then obtain s1 where "take_sent env tid (n - packet_left b) bs (s1\<lparr>mSendList := bs\<rparr>) = Some s'"
      using Cons.prems(1) by (auto simp: bind_eq_Some_conv split: if_splits)
    then show ?thesis using Cons.IH Cons.prems(2,4) True left_bytes_length [OF wf] by auto
  next
    case False
    then show ?thesis using Cons.prems part_left [OF wf, of n] left_bytes_length [OF wf] by auto
  qed
qed simp

lemma finish_sent_shorter:
  assumes "in_loop tid s" "completions_send_nothing env" "packets_wf (mSendList s)" "0 < n" "nat n \<le> length (unsent (mSendList s))"
  obtains s2 where "finish_sent env tid (nat n) (s\<lparr>env_state := k\<rparr>) = Some s2" "in_loop tid s2" "packets_wf (mSendList s2)"
    "length (unsent (mSendList s2)) < length (unsent (mSendList s))"
proof -
  have "in_loop tid (s\<lparr>env_state := k\<rparr>)" using assms(1) by (simp add: in_loop_def)
  from take_sent_some [OF this assms(2) refl] obtain s2
    where s2: "finish_sent env tid (nat n) (s\<lparr>env_state := k\<rparr>) = Some s2" "in_loop tid s2" by (auto simp: finish_sent_def)
  show thesis using that s2 take_sent_shorter [OF s2(1) [unfolded finish_sent_def]] assms(3-5) by simp
qed

text \<open>What follows a write, in both ways of flushing.\<close>

lemma after_write_some:
  assumes "in_loop tid s" "completions_send_nothing env" "packets_wf (mSendList s)"
    "0 < n \<Longrightarrow> nat n \<le> length (unsent (mSendList s))"
    and again: "\<And>s2. length (unsent (mSendList s2)) < length (unsent (mSendList s)) \<Longrightarrow> in_loop tid s2 \<Longrightarrow>
      packets_wf (mSendList s2) \<Longrightarrow> \<exists>s'. again s2 = Some s'"
  shows "\<exists>s'. (if 0 < n then (case finish_sent env tid (nat n) (s\<lparr>env_state := k\<rparr>) of None \<Rightarrow> None
        | Some s2 \<Rightarrow> if b then (if mSendList s2 \<noteq> [] then again s2 else Some s2) else cannot_write tid s2)
      else if wb then cannot_write tid (s\<lparr>env_state := k\<rparr>) else procCloseInLoop tid (s\<lparr>env_state := k\<rparr>)) = Some s'"
proof (cases "0 < n")
  case True
  obtain s2 where "finish_sent env tid (nat n) (s\<lparr>env_state := k\<rparr>) = Some s2" "in_loop tid s2" "packets_wf (mSendList s2)"
    "length (unsent (mSendList s2)) < length (unsent (mSendList s))"
    using finish_sent_shorter [OF assms(1-3) True assms(4)] True by blast
  then show ?thesis using True again [of s2] by (simp add: cannot_write_some)
next
  case False
  have "in_loop tid (s\<lparr>env_state := k\<rparr>)" using assms(1) by (simp add: in_loop_def)
  then show ?thesis using False by (simp add: cannot_write_some procCloseInLoop_some)
qed

lemma guarded_length:
  assumes "guarded s w = (n, b, k)" "unsent (mSendList s) = batch @ r" "w = (n, b, k) \<Longrightarrow> n \<le> int (length batch)" "0 < n"
  shows "nat n \<le> length (unsent (mSendList s))"
  using assms by (auto simp: guarded_def nat_le_iff split: if_splits)

lemma quickFlush_some:
  assumes "wire_ok env wire" "completions_send_nothing env" "in_loop tid s" "packets_wf (mSendList s)"
  shows "\<exists>s'. quickFlush env tid s = Some s'"
  using assms(3,4)
proof (induction "length (unsent (mSendList s))" arbitrary: s rule: less_induct)
  case less
  let ?w = "sys_writev env (map left_bytes (take MAX_IOVEC (mSendList s))) (env_state s)"
  obtain n b k where w: "guarded s ?w = (n, b, k)" by (metis prod_cases3)
  have r: "unsent (mSendList s) = concat (map left_bytes (take MAX_IOVEC (mSendList s))) @ unsent (drop MAX_IOVEC (mSendList s))"
    using unsent_simps(3) [of "take MAX_IOVEC (mSendList s)" "drop MAX_IOVEC (mSendList s)"] by (simp add: unsent_def)
  have len: "0 < n \<Longrightarrow> nat n \<le> length (unsent (mSendList s))"
    using guarded_length [OF w r] wire_writev [OF assms(1)] by blast
  show ?case
  proof (cases "mSendList s = []")
    case True
    then show ?thesis by (subst quickFlush.simps) simp
  next
    case False
    note after = after_write_some [OF less(2) assms(2) less(3) len, where again = "quickFlush env tid" and k = k and wb = b
        and b = "word_of_int n = (of_nat (sum_list (map packet_left (take MAX_IOVEC (mSendList s)))) :: 32 word)"]
    have "\<exists>s'. (let (send_len, would_block, k) = guarded s ?w in
        if 0 < send_len then (case finish_sent env tid (nat send_len) (s\<lparr>env_state := k\<rparr>) of None \<Rightarrow> None
          | Some s2 \<Rightarrow> if word_of_int send_len = (of_nat (sum_list (map packet_left (take MAX_IOVEC (mSendList s)))) :: 32 word)
              then (if mSendList s2 \<noteq> [] then quickFlush env tid s2 else Some s2) else cannot_write tid s2)
        else if would_block then cannot_write tid (s\<lparr>env_state := k\<rparr>) else procCloseInLoop tid (s\<lparr>env_state := k\<rparr>)) = Some s'"
      unfolding w Let_def prod.case using after less(1) by blast
    moreover have "MAX_IOVEC \<noteq> 0" by (simp add: MAX_IOVEC_def)
    ultimately show ?thesis using False unfolding guarded_def by (subst quickFlush.simps) (simp add: Let_def cong: if_cong)
  qed
qed

lemma normalFlush_some:
  assumes "wire_ok env wire" "completions_send_nothing env" "in_loop tid s" "packets_wf (mSendList s)"
  shows "\<exists>s'. normalFlush env tid s = Some s'"
  using assms(3,4)
proof (induction "length (unsent (mSendList s))" arbitrary: s rule: less_induct)
  case less
  obtain n b k where w: "guarded s (sys_send env (send_buffer (mSendList s)) (env_state s)) = (n, b, k)" by (metis prod_cases3)
  obtain r where r: "unsent (mSendList s) = send_buffer (mSendList s) @ r" using send_buffer_prefix by blast
  have len: "0 < n \<Longrightarrow> nat n \<le> length (unsent (mSendList s))"
    using guarded_length [OF w r] wire_send [OF assms(1)] by blast
  show ?case
  proof (cases "send_buffer (mSendList s) = []")
    case True
    then show ?thesis by (subst normalFlush.simps) simp
  next
    case False
    note after = after_write_some [OF less(2) assms(2) less(3) len, where again = "normalFlush env tid" and k = k and wb = b
        and b = "n = int (length (send_buffer (mSendList s)))"]
    have "\<exists>s'. (let (send_len, would_block, k) = guarded s (sys_send env (send_buffer (mSendList s)) (env_state s)) in
        if 0 < send_len then (case finish_sent env tid (nat send_len) (s\<lparr>env_state := k\<rparr>) of None \<Rightarrow> None
          | Some s2 \<Rightarrow> if send_len = int (length (send_buffer (mSendList s)))
              then (if mSendList s2 \<noteq> [] then normalFlush env tid s2 else Some s2) else cannot_write tid s2)
        else if would_block then cannot_write tid (s\<lparr>env_state := k\<rparr>) else procCloseInLoop tid (s\<lparr>env_state := k\<rparr>)) = Some s'"
      unfolding w Let_def prod.case using after less(1) by blast
    then show ?thesis using False by (subst normalFlush.simps) (simp add: Let_def guarded_def cong: if_cong)
  qed
qed

text \<open>
  C35. A flush ends, whatever the kernel accepts of each write, with or without TLS, when no completion callback sends on its
  connection; the callbacks may close the connection, shut it down, and set its timer and its other callbacks. Without TLS it
  leaves nothing to do: everything is written, or the socket waits to be told that it can write, or it is closed.
\<close>

theorem flush_terminates:
  assumes "wire_ok env wire" "completions_send_nothing env" "in_loop tid s" "base_inv wire todo s" "closed_ok s"
  shows "\<exists>s'. flush env tid s = Some s' \<and>
    (mCanWrite s \<and> \<not> mSSL s \<longrightarrow> mSendList s' = [] \<or> \<not> mCanWrite s' \<or> mFD s' = SOCKET_ERROR)"
proof -
  have wf: "packets_wf (mSendList s)" using assms(4) by (simp add: base_inv_def send_inv_def)
  show ?thesis
  proof (cases "mCanWrite s \<and> mFD s \<noteq> SOCKET_ERROR \<and> \<not> mSSL s")
    case True
    obtain s' where s': "quickFlush env tid s = Some s'" using quickFlush_some [OF assms(1,2,3) wf] by blast
    then show ?thesis using True quickFlush_base [OF s' assms(1,4,5)] by (auto simp: flush_def)
  next
    case False
    then show ?thesis using normalFlush_some [OF assms(1,2,3) wf] by (auto simp: flush_def)
  qed
qed

section \<open>The echo server\<close>

lemma echo_wire: "wire_ok echo_env fst"
  by (auto simp: wire_ok_def echo_env_def Let_def min_def split: prod.splits list.splits)

lemma echo_unused: "unused_socket fst (echo_socket incoming)"
  by (simp add: unused_socket_def echo_socket_def new_event_loop_def event_loop.defs)

lemma echo_run_hello:
  "map_option (\<lambda>t. (env_state t, sock_trace t)) (echo_run [''hello'', ''world!'']) =
     Some ((''hello'', []), [Accepted ''hello'' (Some 7), Accepted ''world!'' (Some 7), Completed 7])"
  by code_simp

theorem send_stream_exact_witness:
  "\<exists>t. sock_reach echo_env 1 ([], echo_socket [''hello'', ''world!'']) ([], t) \<and> fst (env_state t) = ''hello'' \<and>
     ''hello'' @ unsent (mSendList t) = ''helloworld!'' \<and> completed (sock_trace t) = [7]"
proof -
  obtain t where t: "echo_run [''hello'', ''world!''] = Some t" "env_state t = (''hello'', [])"
    "sock_trace t = [Accepted ''hello'' (Some 7), Accepted ''world!'' (Some 7), Completed 7]"
    using echo_run_hello by auto
  note r = echo_run_reach [OF t(1)]
  show ?thesis using send_stream_exact [OF echo_wire echo_unused r] r t(2,3) by auto
qed

text \<open>Between reading and the end of the iteration.\<close>

lemma echo_pending:
  "map_option (\<lambda>t. (mSendList t, mFD t, mSSL t, mCanWrite t)) (canRecv echo_env 1 (echo_socket [''hello''])) =
     Some ([\<lparr>packet_data = ''hello'', packet_left = 5, mCompleteCallback = Some 7\<rparr>], 3, False, True)"
  by code_simp

lemma echo_received:
  obtains t where "sock_reach echo_env 1 ([], echo_socket [''hello'']) ([], t)"
    "mSendList t = [\<lparr>packet_data = ''hello'', packet_left = 5, mCompleteCallback = Some 7\<rparr>]" "mFD t = 3"
    "\<not> mSSL t" "mCanWrite t"
proof -
  obtain t where t: "canRecv echo_env 1 (echo_socket [''hello'']) = Some t"
    "(mSendList t, mFD t, mSSL t, mCanWrite t) =
       ([\<lparr>packet_data = ''hello'', packet_left = 5, mCompleteCallback = Some 7\<rparr>], 3, False, True)"
    using echo_pending by (cases "canRecv echo_env 1 (echo_socket [''hello''])") auto
  have "mFD (echo_socket [''hello'']) \<noteq> SOCKET_ERROR" by (simp add: echo_socket_def event_loop.defs)
  then have "sock_reach echo_env 1 ([], echo_socket [''hello'']) ([], t)"
    using t(1) by (blast intro: here further event_in)
  then show thesis using that t(2) by simp
qed

theorem unsent_is_pursued_witness:
  "\<exists>t. sock_reach echo_env 1 ([], echo_socket [''hello'']) ([], t) \<and> mSendList t \<noteq> [] \<and>
     (FlushProc \<in> set (mAfterLoopProcs t) \<or> check_write t \<or> ShutDown \<in> set (sock_trace t))"
proof (rule echo_received)
  fix t assume t: "sock_reach echo_env 1 ([], echo_socket [''hello'']) ([], t)"
    "mSendList t = [\<lparr>packet_data = ''hello'', packet_left = 5, mCompleteCallback = Some 7\<rparr>]" "mFD t = 3" "\<not> mSSL t"
  then show ?thesis using unsent_is_pursued [OF echo_wire echo_unused t(1)] by auto
qed

theorem flush_terminates_witness:
  "\<exists>s'. flush echo_env 1 (echo_socket []) = Some s' \<and> (mSendList s' = [] \<or> \<not> mCanWrite s' \<or> mFD s' = SOCKET_ERROR)"
proof -
  have "completions_send_nothing echo_env" by (simp add: completions_send_nothing_def echo_env_def)
  moreover have "in_loop 1 (echo_socket [])" by (simp add: in_loop_def echo_socket_def new_event_loop_def event_loop.defs)
  ultimately show ?thesis
    using flush_terminates [OF echo_wire, of 1 "echo_socket []" "[]"] unused_stream_inv [OF echo_unused, of "[]"]
    by (auto simp: stream_inv_def sock_inv_def echo_socket_def event_loop.defs)
qed

section \<open>Two surprises\<close>

text \<open>
  A packet without bytes closes the connection: a flush whose packets are all empty hands the kernel nothing,
  gets 0 back, and takes that for an error.
\<close>

theorem empty_packet_closes:
  assumes "wire_ok env wire" "isInLoopThread s tid" "mSendList s \<noteq> []" "\<forall>b \<in> set (mSendList s). packet_left b = 0"
    "mCanWrite s" "mFD s \<noteq> SOCKET_ERROR" "\<not> mSSL s" "\<not> mIsPostFinalClose s"
    "\<forall>iov k. \<not> fst (snd (sys_writev env iov k))"
  shows "\<exists>s'. flush env tid s = Some s' \<and> mFD s' = SOCKET_ERROR \<and> mIsPostFinalClose s' \<and> mSendList s' = mSendList s"
proof -
  obtain n b k where w: "sys_writev env (map left_bytes (take MAX_IOVEC (mSendList s))) (env_state s) = (n, b, k)"
    by (metis prod_cases3)
  have "b' \<in> set (take MAX_IOVEC (mSendList s)) \<Longrightarrow> left_bytes b' = []" for b'
    using assms(4) by (auto simp: left_bytes_def dest: in_set_takeD)
  then have empty: "concat (map left_bytes (take MAX_IOVEC (mSendList s))) = []" by simp
  have "n \<le> 0" using wire_writev [OF assms(1) w] unfolding empty by simp
  moreover have "\<not> b" using assms(9) w by (metis fst_conv snd_conv)
  ultimately have "quickFlush env tid s = procCloseInLoop tid (s\<lparr>env_state := k\<rparr>)"
    using w assms(3,6) by (subst quickFlush.simps) (simp add: Let_def MAX_IOVEC_def)
  then show ?thesis using assms(2,5-8)
    by (simp add: flush_def procCloseInLoop_def onClose_def pushAfterLoopProc_def isInLoopThread_def closeSocket_def)
qed

theorem empty_packet_closes_witness:
  "\<exists>s'. flush echo_env 1 (enqueue_packet [] None (echo_socket [])) = Some s' \<and> mFD s' = SOCKET_ERROR"
proof -
  let ?s = "enqueue_packet [] None (echo_socket [])"
  have "isInLoopThread ?s 1" "mSendList ?s \<noteq> []" "\<forall>b \<in> set (mSendList ?s). packet_left b = 0" "mCanWrite ?s"
    "mFD ?s \<noteq> SOCKET_ERROR" "\<not> mSSL ?s" "\<not> mIsPostFinalClose ?s"
    "\<forall>iov k. \<not> fst (snd (sys_writev echo_env iov k))"
    by (auto simp: enqueue_packet_def log_event_def echo_socket_def new_event_loop_def event_loop.defs isInLoopThread_def
        echo_env_def Let_def)
  from empty_packet_closes [OF echo_wire this] show ?thesis by blast
qed

text \<open>
  The check for idle connections runs once only on a connection that is alive. When its timer fires and data
  arrived meanwhile, \<^verbatim>\<open>PingCheck\<close> starts no new timer: \<^verbatim>\<open>TimerMgr::schedule\<close> still holds the timer that is
  firing, so that \<^verbatim>\<open>mTimer.lock()\<close> succeeds. From then on a dead peer is not noticed.
\<close>

theorem ping_check_runs_once:
  assumes "pick_ok pick" "mTimers s = [t]" "mTimer s = Some t" "end_time s t < sys_now env (env_state s)"
    "mActive (timer_at s t)" "mCallback (timer_at s t) = PingProc" "mRecvData s"
  shows "\<exists>s'. schedule pick (\<lambda>s. sys_now env (env_state s)) (sock_exec env tid) s = Some s' \<and>
    mTimers s' = [] \<and> mFD s' = mFD s \<and> mCheckTime s' = mCheckTime s \<and> \<not> mRecvData s'"
proof -
  have i: "top_index pick s = 0" using top_index_ok(1) [OF assms(1), of s] assms(2) by simp
  let ?s = "pop_top 0 s"
  have locked: "weak_lock (?s\<lparr>mRecvData := False\<rparr>) (mTimer ?s) = Some t"
    using assms(2,3) by (simp add: weak_lock_def pop_top_def)
  have "timer_call (sock_exec env tid) t ?s = Some (?s\<lparr>mRecvData := False\<rparr>)"
    using assms(2,3,5-7) locked
    by (simp add: timer_call_def sock_exec_def PingCheck_def startPingCheckTimer_def timer_at_def pop_top_def weak_lock_def)
  then show ?thesis using assms(2,4) i
    by (subst schedule.simps)
      (simp add: Let_def end_time_def, subst schedule.simps, simp add: drop_ref_def pop_top_def remove_index_def)
qed

definition checked_socket :: "(bytes \<times> bytes list) data_socket" where
  "checked_socket =
     (echo_socket [])\<lparr>timer_objs := [\<lparr>mActive = True, mCallback = PingProc, mEndTime = -5\<rparr>], mTimers := [0],
                       mTimer := Some 0, mCheckTime := 100, mRecvData := True\<rparr>"

theorem ping_check_runs_once_witness:
  "\<exists>s'. schedule first_least (\<lambda>s. sys_now echo_env (env_state s)) (sock_exec echo_env 1) checked_socket = Some s' \<and>
    mTimers s' = [] \<and> mFD s' = 3 \<and> mCheckTime s' = 100"
proof -
  have "mTimers checked_socket = [0]" "mTimer checked_socket = Some 0"
    "end_time checked_socket 0 < sys_now echo_env (env_state checked_socket)" "mActive (timer_at checked_socket 0)"
    "mCallback (timer_at checked_socket 0) = PingProc" "mRecvData checked_socket"
    and vals: "mFD checked_socket = 3" "mCheckTime checked_socket = 100"
    by (simp_all add: checked_socket_def echo_socket_def new_event_loop_def event_loop.defs end_time_def getEndMs_def
        timer_at_def echo_env_def)
  from ping_check_runs_once [OF first_least_ok this(1-6), of 1] show ?thesis unfolding vals by blast
qed

end
