(* ===== verification/Data_Socket_Recv.thy ===== *)
theory Data_Socket_Recv
  imports Data_Socket_Stream
begin

text \<open>
  The bytes a connection receives: \<^verbatim>\<open>recv\<close> reads as much as the kernel has, hands it to the data callback through the
  receive buffer of \<open>Ox_Buffer\<close>, and grows the buffer; no byte is lost, repeated or read outside the buffer.
\<close>

section \<open>The receive buffer\<close>

lemma store_received_appends:
  assumes "buffer_wf b" "0 < length d" "length d \<le> unat (ox_buffer_getwritevalidcount b)"
  shows "\<exists>b'. store_received b d = Some b' \<and> buffer_wf (ox_buffer_addwritepos b' (of_nat (length d))) \<and>
    data_len (ox_buffer_addwritepos b' (of_nat (length d))) = data_len b \<and>
    buffer_bytes (ox_buffer_addwritepos b' (of_nat (length d))) = buffer_bytes b @ d"
proof -
  have room: "length d \<le> unat (data_len b) - unat (write_pos b)"
    using assms(1,3) by (simp add: writevalidcount_eq)
  then have len: "unat (of_nat (length d) :: size_t) = length d"
    using unat_lt_size [of "data_len b"] by (intro unat_of_nat_small) simp
  obtain b' where b': "buffer_memcpy_in b d (of_nat (length d)) = Some b'"
    "buffer_wf (ox_buffer_addwritepos b' (of_nat (length d)))"
    "data_len (ox_buffer_addwritepos b' (of_nat (length d))) = data_len b"
    "buffer_bytes (ox_buffer_addwritepos b' (of_nat (length d))) = buffer_bytes b @ d"
    using memcpy_in_direct [OF assms(1), of "of_nat (length d)" d] room len by auto
  moreover have "0 < unat (data_len b) - unat (write_pos b)" using room assms(2) by linarith
  then have "write_pos b < data_len b" by (simp add: unat_less_iff)
  then have "buffer_memcpy_in b d (of_nat (length d)) = store_received b d"
    using assms(1) len
    by (auto simp: buffer_memcpy_in_def store_received_def ox_buffer_getwriteptr_def mem_read_def elim!: buffer_wfE
        split: option.splits)
  ultimately show ?thesis by auto
qed

lemma buffer_mem_read:
  assumes "buffer_wf b"
  shows "\<exists>d. buf_data b = Some d \<and>
    mem_read (unat (read_pos b)) (unat (ox_buffer_getreadvalidcount b)) d = Some (buffer_bytes b)"
proof -
  obtain d where d: "buf_data b = Some d" "length d = unat (data_len b)"
    "unat (read_pos b) \<le> unat (write_pos b)" "unat (write_pos b) \<le> unat (data_len b)"
    using assms by (rule buffer_wfE)
  then show ?thesis
    using readvalidcount_length [OF assms] by (simp add: buffer_bytes_def mem_read_def)
qed

definition malloc_ok :: "(size_t \<Rightarrow> bytes option) \<Rightarrow> bool" where
  "malloc_ok malloc \<longleftrightarrow> (\<forall>n. \<exists>d. malloc n = Some d \<and> length d = unat n)"

definition recv_wf :: "'k data_socket \<Rightarrow> bool" where
  "recv_wf s \<longleftrightarrow>
     (case mRecvBuffer s of
        None \<Rightarrow> False
      | Some b \<Rightarrow> buffer_wf b \<and> unat (data_len b) + 1024 < 2 ^ 64) \<and>
     unat (mMaxRecvBufferSize s) + 1024 < 2 ^ 64"

definition unread :: "'k data_socket \<Rightarrow> bytes" where
  "unread s = (case mRecvBuffer s of None \<Rightarrow> [] | Some b \<Rightarrow> buffer_bytes b)"

lemma growRecvBuffer_keeps:
  assumes "recv_wf s" "malloc_ok (sys_malloc env)"
  shows "\<exists>b. growRecvBuffer env s = Some (s\<lparr>mRecvBuffer := Some b\<rparr>) \<and> recv_wf (s\<lparr>mRecvBuffer := Some b\<rparr>) \<and>
    buffer_bytes b = unread s"
proof -
  obtain b where b: "mRecvBuffer s = Some b" "buffer_wf b" "unat (data_len b) + 1024 < 2 ^ 64"
    using assms(1) by (auto simp: recv_wf_def split: option.splits)
  show ?thesis
  proof (cases "ox_buffer_getsize b + GROW_BUFFER_SIZE \<le> mMaxRecvBufferSize s")
    case True
    let ?n = "data_len b + 1024"
    have n: "unat ?n = unat (data_len b) + 1024" using b(3) by (subst unat_add_le) simp_all
    obtain m where m: "sys_malloc env ?n = Some m" "length m = unat ?n" using assms(2) by (auto simp: malloc_ok_def)
    let ?nb = "\<lparr>buf_data = Some m, data_len = ?n, write_pos = 0, read_pos = 0\<rparr>"
    have nb: "buffer_wf ?nb" "buffer_bytes ?nb = []"
      using m(2) by (simp_all add: buffer_wf_def buffer_bytes_def)
    obtain d where d: "buf_data b = Some d"
      "mem_read (unat (read_pos b)) (unat (ox_buffer_getreadvalidcount b)) d = Some (buffer_bytes b)"
      using buffer_mem_read [OF b(2)] by blast
    have fits: "length (buffer_bytes b) \<le> unat (data_len b)"
      using buffer_bytes_le_capacity [OF b(2)] by (simp add: buffer_capacity_def ox_buffer_getsize_def)
    obtain nb' where nb': "ox_buffer_write ?nb (buffer_bytes b) (ox_buffer_getreadvalidcount b) = Some (True, nb')"
      "buffer_wf nb'" "data_len nb' = ?n" "buffer_bytes nb' = buffer_bytes b"
      using write_room [OF nb(1), of "ox_buffer_getreadvalidcount b" "buffer_bytes b"] nb(2) fits n
        readvalidcount_length [OF b(2)] by auto
    have "growRecvBuffer env s = Some (s\<lparr>mRecvBuffer := Some nb'\<rparr>)"
      using True b(1) m(1) d nb'(1)
      by (simp add: growRecvBuffer_def ox_buffer_new_def ox_buffer_getsize_def GROW_BUFFER_SIZE_def)
    moreover have "unat ?n \<le> unat (mMaxRecvBufferSize s)"
      using True by (simp add: unat_le_iff ox_buffer_getsize_def GROW_BUFFER_SIZE_def)
    ultimately show ?thesis
      using nb' b(1) assms(1) by (intro exI [of _ nb']) (simp add: recv_wf_def unread_def)
  next
    case False
    then have "growRecvBuffer env s = Some s" using b(1) by (simp add: growRecvBuffer_def)
    moreover have "s\<lparr>mRecvBuffer := mRecvBuffer s\<rparr> = s" by simp
    then have same: "s\<lparr>mRecvBuffer := Some b\<rparr> = s" unfolding b(1) .
    ultimately show ?thesis using b(1) assms(1) by (intro exI [of _ b]) (simp add: unread_def same)
  qed
qed

section \<open>The loop of recv\<close>

text \<open>
  What the environment guarantees: \<open>inc\<close> is what the kernel still has for this connection, \<open>eaten\<close> what the data
  callback has consumed. A successful read returns the next bytes, at most as many as asked for; the callback
  consumes at most what it is shown.
\<close>

definition recv_ok :: "'k sock_env \<Rightarrow> ('k \<Rightarrow> bytes) \<Rightarrow> ('k \<Rightarrow> bytes) \<Rightarrow> bool" where
  "recv_ok env inc eaten \<longleftrightarrow>
     malloc_ok (sys_malloc env) \<and>
     (\<forall>m k n d b k'. sys_recv env m k = (n, d, b, k') \<longrightarrow>
        eaten k' = eaten k \<and>
        (if 0 < n then n \<le> int m \<and> n = int (length d) \<and> inc k = d @ inc k' else inc k' = inc k)) \<and>
     (\<forall>d k n cs k'. on_data env d k = (n, cs, k') \<longrightarrow>
        unat n \<le> length d \<and> eaten k' = eaten k @ take (unat n) d \<and> inc k' = inc k)"

lemma recv_okD:
  assumes "recv_ok env inc eaten"
  shows "malloc_ok (sys_malloc env)"
    and "sys_recv env m k = (n, d, b, k') \<Longrightarrow> eaten k' = eaten k"
    and "sys_recv env m k = (n, d, b, k') \<Longrightarrow> 0 < n \<Longrightarrow> n \<le> int m \<and> n = int (length d) \<and> inc k = d @ inc k'"
    and "sys_recv env m k = (n, d, b, k') \<Longrightarrow> \<not> 0 < n \<Longrightarrow> inc k' = inc k"
    and "on_data env d k = (q, cs, k') \<Longrightarrow> unat q \<le> length d \<and> eaten k' = eaten k @ take (unat q) d \<and> inc k' = inc k"
proof -
  show "malloc_ok (sys_malloc env)" using assms by (simp add: recv_ok_def)
  have r: "eaten k' = eaten k \<and>
      (if 0 < n then n \<le> int m \<and> n = int (length d) \<and> inc k = d @ inc k' else inc k' = inc k)"
    if "sys_recv env m k = (n, d, b, k')"
    using assms [unfolded recv_ok_def, THEN conjunct2, THEN conjunct1, rule_format, OF that] .
  show "eaten k' = eaten k" if "sys_recv env m k = (n, d, b, k')" using r [OF that] by blast
  show "n \<le> int m \<and> n = int (length d) \<and> inc k = d @ inc k'" if "sys_recv env m k = (n, d, b, k')" "0 < n"
    using r [OF that(1)] that(2) by simp
  show "inc k' = inc k" if "sys_recv env m k = (n, d, b, k')" "\<not> 0 < n" using r [OF that(1)] that(2) by simp
  show "unat q \<le> length d \<and> eaten k' = eaten k @ take (unat q) d \<and> inc k' = inc k" if "on_data env d k = (q, cs, k')"
    using assms [unfolded recv_ok_def, THEN conjunct2, THEN conjunct2, rule_format, OF that] .
qed

text \<open>All bytes of the connection, wherever they are.\<close>

definition flow :: "('k \<Rightarrow> bytes) \<Rightarrow> ('k \<Rightarrow> bytes) \<Rightarrow> 'k data_socket \<Rightarrow> bytes" where
  "flow inc eaten s = eaten (env_state s) @ unread s @ inc (env_state s)"

lemma deliver_flow:
  assumes "recv_ok env inc eaten" "in_loop tid s" "recv_wf s"
  shows "\<exists>s'. deliver env tid s = Some s' \<and> in_loop tid s' \<and> recv_wf s' \<and>
    flow inc eaten s' = flow inc eaten s \<and> inc (env_state s') = inc (env_state s)"
proof (cases "mDataCallback s")
  case True
  obtain b where b: "mRecvBuffer s = Some b" "buffer_wf b" "unat (data_len b) + 1024 < 2 ^ 64"
    using assms(3) by (auto simp: recv_wf_def split: option.splits)
  obtain d where d: "buf_data b = Some d"
    "mem_read (unat (read_pos b)) (unat (ox_buffer_getreadvalidcount b)) d = Some (buffer_bytes b)"
    using buffer_mem_read [OF b(2)] by blast
  obtain n cs k where o: "on_data env (buffer_bytes b) (env_state s) = (n, cs, k)" by (metis prod_cases3)
  have n: "unat n \<le> length (buffer_bytes b)" "eaten k = eaten (env_state s) @ take (unat n) (buffer_bytes b)"
    "inc k = inc (env_state s)"
    using recv_okD(5) [OF assms(1) o] by simp_all
  let ?s = "s\<lparr>mRecvData := True, env_state := k\<rparr>"
  have "in_loop tid ?s" using assms(2) by (simp add: in_loop_def)
  then obtain s1 where s1: "run_procs (perform env tid) cs ?s = Some s1" "same_recv ?s s1"
    using performs_recv by blast
  have le: "n \<le> ox_buffer_getreadvalidcount b"
    using n(1) readvalidcount_length [OF b(2)] by (simp add: unat_le_iff)
  have consume: "buffer_wf (ox_buffer_addreadpos b n)" "data_len (ox_buffer_addreadpos b n) = data_len b"
    "buffer_bytes (ox_buffer_addreadpos b n) = drop (unat n) (buffer_bytes b)"
    using consume_keeps [OF b(2) n(1)] by (simp_all add: buffer_consume_def)
  let ?s' = "s1\<lparr>mRecvBuffer := Some (ox_buffer_addreadpos b n)\<rparr>"
  have "deliver env tid s = Some ?s'"
    using True b(1) d o s1(1) le by (simp add: deliver_def)
  moreover have "in_loop tid ?s'" using s1(2) assms(2) by (simp add: same_recv_def in_loop_def)
  moreover have "recv_wf ?s'" using s1(2) consume b(3) assms(3) by (simp add: same_recv_def recv_wf_def)
  moreover have "env_state s1 = k" using s1(2) by (simp add: same_recv_def)
  ultimately show ?thesis using b(1) n consume(3) by (intro exI [of _ ?s']) (simp add: flow_def unread_def)
next
  case False
  then show ?thesis using assms by (simp add: deliver_def)
qed

lemma adjust_flow:
  assumes "in_loop tid s" "recv_wf s"
  shows "\<exists>s'. adjust_buffer s = Some s' \<and> in_loop tid s' \<and> recv_wf s' \<and>
    flow inc eaten s' = flow inc eaten s \<and> env_state s' = env_state s"
proof -
  obtain b where b: "mRecvBuffer s = Some b" "buffer_wf b" "unat (data_len b) + 1024 < 2 ^ 64"
    using assms(2) by (auto simp: recv_wf_def split: option.splits)
  obtain b' where b': "ox_buffer_adjustto_head b = Some b'" "buffer_wf b'" "data_len b' = data_len b"
    "buffer_bytes b' = buffer_bytes b"
    using adjustto_head_keeps [OF b(2)] by blast
  show ?thesis
  proof (cases "ox_buffer_getwritevalidcount b = 0 \<or> ox_buffer_getreadvalidcount b = 0")
    case True
    then have "adjust_buffer s = Some (s\<lparr>mRecvBuffer := Some b'\<rparr>)" using b(1) b'(1) by (auto simp: adjust_buffer_def)
    then show ?thesis using assms b b' by (simp add: in_loop_def recv_wf_def flow_def unread_def)
  next
    case False
    then show ?thesis using assms b(1) by (simp add: adjust_buffer_def)
  qed
qed

text \<open>A round of the loop succeeds, keeps the flow, and goes on only after the kernel gave something.\<close>

lemma recv_round_flow:
  assumes "recv_ok env inc eaten" "in_loop tid s" "recv_wf s"
  shows "\<exists>again s'. recv_round env tid s = Some (again, s') \<and> in_loop tid s' \<and> recv_wf s' \<and>
    flow inc eaten s' = flow inc eaten s \<and> (again \<longrightarrow> length (inc (env_state s')) < length (inc (env_state s)))"
proof -
  obtain b where b: "mRecvBuffer s = Some b" "buffer_wf b" "unat (data_len b) + 1024 < 2 ^ 64"
    using assms(3) by (auto simp: recv_wf_def split: option.splits)
  obtain n d wb k where r: "sys_recv env (unat (ox_buffer_getwritevalidcount b)) (env_state s) = (n, d, wb, k)"
    by (metis prod_cases4)
  let ?s1 = "s\<lparr>env_state := k\<rparr>"
  have loop1: "in_loop tid ?s1" using assms(2) by (simp add: in_loop_def)
  have wf1: "recv_wf ?s1" using assms(3) by (simp add: recv_wf_def)
  show ?thesis
  proof (cases "mFD s = SOCKET_ERROR \<or> ox_buffer_getwritevalidcount b = 0")
    case True
    then show ?thesis using assms(2,3) b(1) by (auto simp: recv_round_def)
  next
    case open_s: False
    show ?thesis
    proof (cases "0 < n")
      case False
      have same: "flow inc eaten ?s1 = flow inc eaten s"
        using recv_okD(2,4) [OF assms(1) r] False by (simp add: flow_def unread_def)
      obtain s' where s': "procCloseInLoop tid ?s1 = Some s'" "same_recv ?s1 s'"
        using procCloseInLoop_recv [OF loop1] by blast
      have "in_loop tid s'" "recv_wf s'" "flow inc eaten s' = flow inc eaten s"
        using s'(2) loop1 wf1 same by (simp_all add: same_recv_def in_loop_def recv_wf_def flow_def unread_def)
      then show ?thesis using open_s b(1) r False s'(1) loop1 wf1 same
        by (auto simp: recv_round_def checkRead_def Let_def)
    next
      case True
      have n: "n \<le> int (unat (ox_buffer_getwritevalidcount b))" "n = int (length d)" "inc (env_state s) = d @ inc k"
        "eaten k = eaten (env_state s)"
        using recv_okD(2,3) [OF assms(1) r] True by simp_all
      obtain b1 where b1: "store_received b d = Some b1" "buffer_wf (ox_buffer_addwritepos b1 (of_nat (length d)))"
        "data_len (ox_buffer_addwritepos b1 (of_nat (length d))) = data_len b"
        "buffer_bytes (ox_buffer_addwritepos b1 (of_nat (length d))) = buffer_bytes b @ d"
        using store_received_appends [OF b(2), of d] n True by auto
      define b2 where "b2 = ox_buffer_addwritepos b1 (of_int n)"
      have b2: "buffer_wf b2" "data_len b2 = data_len b" "buffer_bytes b2 = buffer_bytes b @ d"
        using b1 n(2) by (simp_all add: b2_def)
      let ?s2 = "s\<lparr>env_state := k, mRecvBuffer := Some b2\<rparr>"
      have wf2: "recv_wf ?s2" using b2 b(3) assms(3) by (simp add: recv_wf_def)
      have "\<exists>c. (if ox_buffer_getreadvalidcount b2 = ox_buffer_getsize b2 then growRecvBuffer env ?s2 else Some ?s2) =
          Some (s\<lparr>env_state := k, mRecvBuffer := Some c\<rparr>) \<and>
        recv_wf (s\<lparr>env_state := k, mRecvBuffer := Some c\<rparr>) \<and> buffer_bytes c = buffer_bytes b2"
        using growRecvBuffer_keeps [OF wf2 recv_okD(1) [OF assms(1)]] wf2 by (auto simp: unread_def)
      then obtain c where c: "(if ox_buffer_getreadvalidcount b2 = ox_buffer_getsize b2 then growRecvBuffer env ?s2 else Some ?s2) =
          Some (s\<lparr>env_state := k, mRecvBuffer := Some c\<rparr>)"
        "recv_wf (s\<lparr>env_state := k, mRecvBuffer := Some c\<rparr>)" "buffer_bytes c = buffer_bytes b @ d"
        using b2(3) by auto
      let ?s3 = "s\<lparr>env_state := k, mRecvBuffer := Some c\<rparr>"
      have loop3: "in_loop tid ?s3" using assms(2) by (simp add: in_loop_def)
      obtain s4 where s4: "deliver env tid ?s3 = Some s4" "in_loop tid s4" "recv_wf s4"
        "flow inc eaten s4 = flow inc eaten ?s3" "inc (env_state s4) = inc k"
        using deliver_flow [OF assms(1) loop3 c(2)] by auto
      obtain s5 where s5: "adjust_buffer s4 = Some s5" "in_loop tid s5" "recv_wf s5"
        "flow inc eaten s5 = flow inc eaten s4" "env_state s5 = env_state s4"
        using adjust_flow [OF s4(2,3)] by blast
      have "recv_round env tid s = Some (True, s5)"
        using open_s b(1) r True b1(1) c(1) [unfolded b2_def] s4(1) s5(1)
        by (simp add: recv_round_def Let_def split del: if_split)
      moreover have "flow inc eaten ?s3 = flow inc eaten s"
        using n(3,4) c(3) b(1) by (simp add: flow_def unread_def)
      moreover have "length (inc k) < length (inc (env_state s))" using n(2,3) True by simp
      ultimately show ?thesis using s4 s5 by auto
    qed
  qed
qed

text \<open>
  C7. Receiving ends and loses nothing: in the loop thread \<^verbatim>\<open>recv\<close> returns, fails no assertion and stays inside its buffer,
  and the bytes the data callback consumed, followed by those in the buffer, followed by those the kernel still has,
  are the same sequence before and after, however the kernel cuts it and whatever part the callback consumes,
  also when the buffer grows and when the callback calls methods of the connection.
\<close>

theorem recv_stream_exact:
  assumes "recv_ok env inc eaten" "in_loop tid s" "recv_wf s"
  shows "\<exists>s'. recv env tid s = Some s' \<and> recv_wf s' \<and>
    eaten (env_state s') @ unread s' @ inc (env_state s') = eaten (env_state s) @ unread s @ inc (env_state s)"
proof -
  have "\<exists>s'. recv env tid s = Some s' \<and> recv_wf s' \<and> flow inc eaten s' = flow inc eaten s"
    using assms(2,3)
  proof (induction "length (inc (env_state s))" arbitrary: s rule: less_induct)
    case less
    obtain again s1 where r: "recv_round env tid s = Some (again, s1)" "in_loop tid s1" "recv_wf s1"
      "flow inc eaten s1 = flow inc eaten s" "again \<longrightarrow> length (inc (env_state s1)) < length (inc (env_state s))"
      using recv_round_flow [OF assms(1) less(2,3)] by blast
    then show ?case using less(1) [of s1] by (cases again) (subst recv.simps, simp)+
  qed
  then show ?thesis by (simp add: flow_def)
qed

section \<open>A slow reader\<close>

text \<open>A callback that takes at most three bytes each time; the kernel delivers the blocks in pieces that fit.\<close>

definition reader_env :: "(bytes \<times> bytes list) sock_env" where
  "reader_env =
     echo_env\<lparr>on_data := (\<lambda>d (e, r). (of_nat (length (take 3 d)), [], (e @ take 3 d, r))),
              sys_recv := (\<lambda>n (e, r). case r of [] \<Rightarrow> (-1, [], True, (e, r))
                            | d # ds \<Rightarrow> (int (length (take n d)), take n d, False,
                                         (e, if length d \<le> n then ds else drop n d # ds)))\<rparr>"

lemma reader_ok: "recv_ok reader_env (\<lambda>k. concat (snd k)) fst"
proof -
  have "unat (of_nat (min (length d) 3) :: size_t) = min (length d) 3" for d :: bytes
    by (rule unat_of_nat_small) simp
  moreover have "take (min (length d) 3) d = take 3 d" for d :: bytes by (simp add: min_def)
  ultimately show ?thesis
    by (auto simp: recv_ok_def reader_env_def echo_env_def malloc_ok_def split: list.splits if_splits)
qed

theorem recv_stream_exact_witness:
  "\<exists>s'. recv reader_env 1 (echo_socket [''hello'', ''wor'']) = Some s' \<and>
    fst (env_state s') @ unread s' @ concat (snd (env_state s')) = ''hellowor''"
proof -
  let ?s = "echo_socket [''hello'', ''wor'']"
  have "in_loop 1 ?s" "recv_wf ?s" "unread ?s = []" "env_state ?s = ([], [''hello'', ''wor''])"
    by (simp_all add: in_loop_def recv_wf_def unread_def echo_socket_def new_event_loop_def event_loop.defs
        buffer_wf_def buffer_bytes_def)
  then show ?thesis using recv_stream_exact [OF reader_ok, of 1 ?s] by auto
qed

end
