(* ===== verification/Type_Ids.thy ===== *)
theory Type_Ids
  imports Interfaces
begin

text \<open>
  The id table of \<^verbatim>\<open>src/utils/Typeids.h\<close>: a vector of values and a vector of free ids, which grow by a hundred. The
  values are pointers, \<open>None\<close> being null. A failed assertion is \<open>None\<close>.
\<close>

section \<open>The table\<close>

record 'v type_ids =
  mValues :: "'v option list"
  mIds :: "nat list"

definition ids_NUM :: nat where "ids_NUM = 100"

definition ids_increase :: "'v type_ids \<Rightarrow> 'v type_ids" where
  "ids_increase t =
     (let oldsize = length (mValues t)
      in \<lparr>mValues = mValues t @ replicate ids_NUM None, mIds = mIds t @ map (\<lambda>i. oldsize + i) [0..<ids_NUM]\<rparr>)"

definition claimID :: "'v type_ids \<Rightarrow> nat \<times> 'v type_ids" where
  "claimID t =
     (let t' = (if mIds t = [] then ids_increase t else t)
      in (mIds t' ! (length (mIds t') - 1), t'\<lparr>mIds := butlast (mIds t')\<rparr>))"

definition reclaimID :: "nat \<Rightarrow> 'v type_ids \<Rightarrow> 'v type_ids option" where
  "reclaimID i t =
     (if i < length (mValues t) \<and> i \<notin> set (mIds t) then Some (t\<lparr>mIds := mIds t @ [i]\<rparr>) else None)"

definition ids_set :: "'v option \<Rightarrow> nat \<Rightarrow> 'v type_ids \<Rightarrow> (bool \<times> 'v type_ids) option" where
  "ids_set v i t =
     (if i < length (mValues t) then Some (True, t\<lparr>mValues := (mValues t)[i := v]\<rparr>) else None)"

text \<open>The value is moved out of the table; for a pointer that is a copy.\<close>

definition ids_get :: "nat \<Rightarrow> 'v type_ids \<Rightarrow> 'v option option" where
  "ids_get i t = (if i < length (mValues t) then Some (mValues t ! i) else None)"

definition new_type_ids :: "'v type_ids" where "new_type_ids = \<lparr>mValues = [], mIds = []\<rparr>"

section \<open>Claiming and reclaiming\<close>

definition ids_wf :: "'v type_ids \<Rightarrow> bool" where
  "ids_wf t \<longleftrightarrow> distinct (mIds t) \<and> (\<forall>i \<in> set (mIds t). i < length (mValues t))"

text \<open>The ids in use.\<close>

definition ids_used :: "'v type_ids \<Rightarrow> nat set" where
  "ids_used t = {i. i < length (mValues t) \<and> i \<notin> set (mIds t)}"

lemma new_type_ids_wf: "ids_wf new_type_ids" "ids_used new_type_ids = {}"
  by (simp_all add: ids_wf_def ids_used_def new_type_ids_def)

lemma ids_increase_wf:
  assumes "ids_wf t"
  shows "ids_wf (ids_increase t)" "ids_used (ids_increase t) = ids_used t" "mIds (ids_increase t) \<noteq> []"
  using assms by (auto simp: ids_wf_def ids_used_def ids_increase_def Let_def distinct_map ids_NUM_def)

lemma claimID_wf:
  assumes "ids_wf t" "claimID t = (i, t')"
  shows "ids_wf t'" "i \<notin> ids_used t" "ids_used t' = insert i (ids_used t)" "i < length (mValues t')"
    "length (mValues t) \<le> length (mValues t')" "\<And>j. j < length (mValues t) \<Longrightarrow> mValues t' ! j = mValues t ! j"
proof -
  define u where "u = (if mIds t = [] then ids_increase t else t)"
  have u: "ids_wf u" "ids_used u = ids_used t" "mIds u \<noteq> []"
    using assms(1) ids_increase_wf [OF assms(1)] by (auto simp: u_def)
  have t': "i = last (mIds u)" "t' = u\<lparr>mIds := butlast (mIds u)\<rparr>"
    using assms(2) u(3) by (auto simp: claimID_def u_def [symmetric] Let_def last_conv_nth)
  have split: "mIds u = butlast (mIds u) @ [i]" using u(3) t'(1) by simp
  have d: "distinct (butlast (mIds u) @ [i])" "\<forall>j \<in> set (butlast (mIds u) @ [i]). j < length (mValues u)"
    using u(1) split by (simp_all add: ids_wf_def)
  show "ids_wf t'" using d by (simp add: t'(2) ids_wf_def)
  have iu: "i \<in> set (mIds u)" using split by (metis in_set_conv_decomp)
  then show "i \<notin> ids_used t" using u(2) by (auto simp: ids_used_def)
  have "ids_used t' = insert i (ids_used u)"
  proof -
    have "set (mIds u) = insert i (set (butlast (mIds u)))" using split by (metis Un_insert_right set_append list.simps(15) list.set(1) sup_bot_right)
    then show ?thesis using d by (auto simp: ids_used_def t'(2))
  qed
  then show "ids_used t' = insert i (ids_used t)" using u(2) by simp
  show "i < length (mValues t')" using d by (simp add: t'(2))
  show "length (mValues t) \<le> length (mValues t')" by (simp add: t'(2) u_def ids_increase_def Let_def)
  show "mValues t' ! j = mValues t ! j" if "j < length (mValues t)" for j
    using that by (simp add: t'(2) u_def ids_increase_def Let_def nth_append)
qed

lemma reclaimID_wf:
  assumes "ids_wf t" "i \<in> ids_used t"
  shows "\<exists>t'. reclaimID i t = Some t' \<and> ids_wf t' \<and> ids_used t' = ids_used t - {i} \<and> mValues t' = mValues t"
  using assms by (auto simp: reclaimID_def ids_wf_def ids_used_def)

interpretation tids: id_pool ids_wf ids_used "\<lambda>t. Some (claimID t)" reclaimID
proof (unfold_locales, goal_cases)
  case (1 s i s')
  then have "claimID s = (i, s')" by simp
  then show ?case using claimID_wf [OF 1(1)] by blast
next
  case (2 s i)
  then show ?case using reclaimID_wf by blast
qed

text \<open>
  Whatever the order in which ids are claimed and given back, \<^verbatim>\<open>claimID\<close> never hands out an id that is still in
  use, and no assertion of \<^verbatim>\<open>reclaimID\<close> fails for an id in use.
\<close>

theorem type_ids_exclusive:
  assumes "pool_run (\<lambda>t. Some (claimID t)) reclaimID ids_used new_type_ids es t"
  shows "held_after es {} = Some (ids_used t)"
  using tids.run_held [OF assms new_type_ids_wf(1)] by (simp add: new_type_ids_wf(2))

theorem type_ids_exclusive_witness:
  "\<exists>t :: nat type_ids.
     pool_run (\<lambda>t. Some (claimID t)) reclaimID ids_used new_type_ids [Claimed 99, Claimed 98, Released 99, Claimed 99] t \<and>
     ids_used t = {98, 99}"
proof -
  define t1 t2 t3 t4 :: "nat type_ids" where
    d: "t1 = \<lparr>mValues = replicate 100 None, mIds = [0..<99]\<rparr>" "t2 = \<lparr>mValues = replicate 100 None, mIds = [0..<98]\<rparr>"
    "t3 = \<lparr>mValues = replicate 100 None, mIds = [0..<98] @ [99]\<rparr>" "t4 = t2"
  have steps: "claimID new_type_ids = (99, t1)" "claimID t1 = (98, t2)" "reclaimID 99 t2 = Some t3" "claimID t3 = (99, t4)"
    by (simp_all add: d claimID_def reclaimID_def new_type_ids_def ids_increase_def ids_NUM_def butlast_conv_take nth_append take_map map_idI
        del: upt_rec_numeral)
  have wf: "ids_wf t1" "ids_used t1 = {99}" using claimID_wf(1,3) [OF _ steps(1)] new_type_ids_wf by auto
  then have "99 \<in> ids_used t2" using claimID_wf(3) [OF _ steps(2)] by simp
  then have r: "pool_run (\<lambda>t. Some (claimID t)) reclaimID ids_used new_type_ids
      [Claimed 99, Claimed 98, Released 99, Claimed 99] t4"
    using steps by (auto intro!: pool_run.intros)
  have "held_after [Claimed 99, Claimed 98, Released 99, Claimed (99 :: nat)] {} = Some {98, 99}"
    by (simp add: insert_commute insert_Diff_if)
  then show ?thesis using type_ids_exclusive [OF r] r by auto
qed

end
