(* ===== verification/Tcp_Service.thy ===== *)
theory Tcp_Service
  imports Type_Ids Bytes Data_Socket
begin

text \<open>
  The TCP service of \<^verbatim>\<open>src/net/TCPService.cpp\<close>: a number of loop threads, each with a table of its connections, and
  session ids by which other threads name a connection. The loops are those of \<open>Event_Loop\<close>; the connections are
  addresses of an explicit heap, of which this component uses the user data, the loop and the captured ids. The methods it calls on a
  connection are the calls of \<open>Data_Socket\<close> and are collected in \<open>sock_calls\<close>.

  \<open>None\<close> is a failed assertion, a null or dangling pointer, an index outside an array, or the overflow of the counter.
\<close>

section \<open>Session ids\<close>

record session_data =
  sid_loopIndex :: uint16_t
  sid_index :: uint16_t
  sid_iid :: uint32_t

type_synonym session_id = uint64_t

text \<open>The two members of the union share eight bytes.\<close>

definition sid_id :: "session_data \<Rightarrow> session_id" where
  "sid_id d = from_memory (to_memory (sid_loopIndex d) @ to_memory (sid_index d) @ to_memory (sid_iid d))"

definition sid_data :: "session_id \<Rightarrow> session_data" where
  "sid_data i =
     (let bs = to_memory i
      in \<lparr>sid_loopIndex = from_memory (take 2 bs), sid_index = from_memory (take 2 (drop 2 bs)),
          sid_iid = from_memory (drop 4 bs)\<rparr>)"

abbreviation loop_of :: "session_id \<Rightarrow> nat" where "loop_of i \<equiv> unat (sid_loopIndex (sid_data i))"
abbreviation slot_of :: "session_id \<Rightarrow> nat" where "slot_of i \<equiv> unat (sid_index (sid_data i))"
abbreviation iid_of :: "session_id \<Rightarrow> nat" where "iid_of i \<equiv> unat (sid_iid (sid_data i))"

lemma sid_data_id [simp]: "sid_data (sid_id d) = d"
  by (simp add: sid_id_def sid_data_def Let_def to_from_memory from_to_memory)

lemma sid_id_data [simp]: "sid_id (sid_data i) = i"
proof -
  have "take 2 bs @ take 2 (drop 2 bs) @ drop 4 bs = bs" for bs :: "uint8_t list"
    using append_take_drop_id [of 2 "drop 2 bs"] by simp
  then show ?thesis by (simp add: sid_id_def sid_data_def Let_def to_from_memory from_to_memory)
qed

section \<open>State\<close>

type_synonym sock_ptr = nat

text \<open>The function objects the service hands to its loops.\<close>

datatype tcp_proc =
    SessionSend session_id bytes "nat option"
  | SessionCall session_id sock_call
  | CachedSends "(session_id \<times> bytes \<times> nat option) list"
  | EnterLoop sock_ptr nat

text \<open>
  \<open>ds_loop\<close> is \<^verbatim>\<open>mEventLoop\<close>, \<open>ds_enter\<close> the loop index the enter callback captured while that callback is set, and
  \<open>ds_session\<close> the id captured by the data and disconnect callbacks once these are set.
\<close>

record tcp_socket =
  ds_user :: session_id
  ds_loop :: "nat option"
  ds_enter :: "nat option"
  ds_session :: "session_id option"

text \<open>The user's callbacks, as they are called.\<close>

datatype session_event = SessionEnter session_id sock_ptr | SessionLeave session_id

record tcp_service =
  mLoops :: "tcp_proc event_loop list option"
  mIOThreads :: bool
  mLoopNum :: nat
  mRunIOLoop :: bool
  mDataSockets :: "sock_ptr type_ids list option"
  mIncIds :: "int list option"
  mCachePacketList :: "(session_id \<times> bytes \<times> nat option) list list option"
  heap :: "sock_ptr \<Rightarrow> tcp_socket option"
  sock_calls :: "(sock_ptr \<times> sock_call) list"
  session_log :: "session_event list"

definition new_tcp_service :: tcp_service where
  "new_tcp_service =
     \<lparr>mLoops = None, mIOThreads = False, mLoopNum = 0, mRunIOLoop = False, mDataSockets = None, mIncIds = None,
      mCachePacketList = None, heap = (\<lambda>_. None), sock_calls = [], session_log = []\<rparr>"

text \<open>An access to an array through a pointer that may be null.\<close>

definition elem :: "'a list option \<Rightarrow> nat \<Rightarrow> 'a option" where
  "elem p i = (case p of None \<Rightarrow> None | Some xs \<Rightarrow> if i < length xs then Some (xs ! i) else None)"

definition put :: "'a list option \<Rightarrow> nat \<Rightarrow> 'a \<Rightarrow> 'a list option" where
  "put p i x = map_option (\<lambda>xs. xs[i := x]) p"

lemma elem_Some [simp]: "elem (Some xs) i = (if i < length xs then Some (xs ! i) else None)"
  by (simp add: elem_def)

lemma elem_put [simp]: "i < length xs \<Longrightarrow> elem (put (Some xs) i x) j = (if j = i then Some x else elem (Some xs) j)"
  by (simp add: put_def)

section \<open>Calls on a session, in its loop\<close>

definition call_socket :: "sock_ptr \<Rightarrow> sock_call \<Rightarrow> tcp_service \<Rightarrow> tcp_service" where
  "call_socket p c sv = sv\<lparr>sock_calls := sock_calls sv @ [(p, c)]\<rparr>"

text \<open>The lookup: the table gives a pointer that is not null and whose user data is the id.\<close>

definition find_session :: "session_id \<Rightarrow> tcp_service \<Rightarrow> sock_ptr option option" where
  "find_session i sv =
     do {
       t \<leftarrow> elem (mDataSockets sv) (loop_of i);
       v \<leftarrow> ids_get (slot_of i) t;
       (case v of
          None \<Rightarrow> Some None
        | Some p \<Rightarrow> do { ds \<leftarrow> heap sv p; Some (if ds_user ds = i then Some p else None) })
     }"

definition call_session :: "session_id \<Rightarrow> sock_call \<Rightarrow> tcp_service \<Rightarrow> tcp_service option" where
  "call_session i c sv =
     do {
       found \<leftarrow> find_session i sv;
       Some (case found of None \<Rightarrow> sv | Some p \<Rightarrow> call_socket p c sv)
     }"

fun send_cached :: "(session_id \<times> bytes \<times> nat option) list \<Rightarrow> tcp_service \<Rightarrow> tcp_service option" where
  "send_cached [] sv = Some sv"
| "send_cached ((i, packet, callback) # vs) sv =
     do { sv' \<leftarrow> call_session i (Send packet callback) sv; send_cached vs sv' }"

section \<open>Connections enter and leave\<close>

definition MakeID :: "nat \<Rightarrow> tcp_service \<Rightarrow> (session_id \<times> tcp_service) option" where
  "MakeID loopIndex sv =
     do {
       t \<leftarrow> elem (mDataSockets sv) loopIndex;
       n \<leftarrow> elem (mIncIds sv) loopIndex;
       let (i, t') = claimID t;
       if int_ok (n + 1)
       then Some (sid_id \<lparr>sid_loopIndex = of_nat loopIndex, sid_index = of_nat i, sid_iid = of_int n\<rparr>,
              sv\<lparr>mDataSockets := put (mDataSockets sv) loopIndex t', mIncIds := put (mIncIds sv) loopIndex (n + 1)\<rparr>)
       else None
     }"

definition set_socket :: "nat \<Rightarrow> nat \<Rightarrow> sock_ptr option \<Rightarrow> tcp_service \<Rightarrow> tcp_service option" where
  "set_socket loopIndex index v sv =
     do {
       t \<leftarrow> elem (mDataSockets sv) loopIndex;
       (_, t') \<leftarrow> ids_set v index t;
       Some (sv\<lparr>mDataSockets := put (mDataSockets sv) loopIndex t'\<rparr>)
     }"

text \<open>The enter callback that \<^verbatim>\<open>helpAddChannel\<close> gives to the connection; afterwards the connection drops it.\<close>

definition on_channel_enter :: "sock_ptr \<Rightarrow> tcp_service \<Rightarrow> tcp_service option" where
  "on_channel_enter p sv =
     do {
       ds \<leftarrow> heap sv p;
       (case ds_enter ds of
          None \<Rightarrow> Some sv
        | Some loopIndex \<Rightarrow>
            do {
              (i, sv1) \<leftarrow> MakeID loopIndex sv;
              sv2 \<leftarrow> set_socket loopIndex (slot_of i) (Some p) sv1;
              Some (sv2\<lparr>heap := (heap sv2)(p \<mapsto> ds\<lparr>ds_user := i, ds_session := Some i, ds_enter := None\<rparr>),
                        session_log := session_log sv2 @ [SessionEnter i p]\<rparr>)
            })
     }"

definition procDataSocketClose :: "sock_ptr \<Rightarrow> tcp_service \<Rightarrow> tcp_service option" where
  "procDataSocketClose p sv =
     do {
       ds \<leftarrow> heap sv p;
       sv1 \<leftarrow> set_socket (loop_of (ds_user ds)) (slot_of (ds_user ds)) None sv;
       t \<leftarrow> elem (mDataSockets sv1) (loop_of (ds_user ds));
       t' \<leftarrow> reclaimID (slot_of (ds_user ds)) t;
       Some (sv1\<lparr>mDataSockets := put (mDataSockets sv1) (loop_of (ds_user ds)) t'\<rparr>)
     }"

text \<open>The disconnect callback, which a connection has only after it entered.\<close>

definition on_channel_close :: "sock_ptr \<Rightarrow> tcp_service \<Rightarrow> tcp_service option" where
  "on_channel_close p sv =
     do {
       ds \<leftarrow> heap sv p;
       (case ds_session ds of
          None \<Rightarrow> Some sv
        | Some i \<Rightarrow>
            do {
              sv1 \<leftarrow> procDataSocketClose p sv;
              Some (sv1\<lparr>heap := (heap sv1)(p := None), session_log := session_log sv1 @ [SessionLeave i]\<rparr>)
            })
     }"

text \<open>
  \<^verbatim>\<open>delete\<close> of a connection. Its destructor asserts that the descriptor was closed before; \<open>open\<close> is whether the connection still
  has one.
\<close>

definition delete_channel :: "bool \<Rightarrow> sock_ptr \<Rightarrow> tcp_service \<Rightarrow> tcp_service option" where [simp]:
  "delete_channel open p sv = (if open then None else Some (sv\<lparr>heap := (heap sv)(p := None)\<rparr>))"

text \<open>
  \<^verbatim>\<open>onEnterEventLoop\<close> of a connection: the kernel refuses it, and it closes the descriptor and the service deletes it; or it is linked and enters,
  at once without TLS and otherwise when the handshake is over.
\<close>

datatype link_result = Refused | Linked_Plain | Linked_TLS

definition enter_event_loop :: "link_result \<Rightarrow> sock_ptr \<Rightarrow> nat \<Rightarrow> tcp_service \<Rightarrow> tcp_service option" where
  "enter_event_loop r p loopIndex sv =
     do {
       ds \<leftarrow> heap sv p;
       if ds_loop ds \<noteq> None then None
       else (case r of
          Refused \<Rightarrow> delete_channel False p sv
        | Linked_Plain \<Rightarrow> on_channel_enter p (sv\<lparr>heap := (heap sv)(p \<mapsto> ds\<lparr>ds_loop := Some loopIndex\<rparr>)\<rparr>)
        | Linked_TLS \<Rightarrow> Some (sv\<lparr>heap := (heap sv)(p \<mapsto> ds\<lparr>ds_loop := Some loopIndex\<rparr>)\<rparr>))
     }"

fun tcp_exec :: "link_result \<Rightarrow> tcp_proc \<Rightarrow> tcp_service \<Rightarrow> tcp_service option" where
  "tcp_exec r (SessionSend i packet callback) sv = call_session i (Send packet callback) sv"
| "tcp_exec r (SessionCall i c) sv = call_session i c sv"
| "tcp_exec r (CachedSends vs) sv = send_cached vs sv"
| "tcp_exec r (EnterLoop p loopIndex) sv = enter_event_loop r p loopIndex sv"

section \<open>Operations for any thread\<close>

text \<open>\<^verbatim>\<open>pushAsyncProc\<close> of a loop of the service.\<close>

definition post_proc :: "link_result \<Rightarrow> int \<Rightarrow> nat \<Rightarrow> tcp_proc \<Rightarrow> tcp_service \<Rightarrow> tcp_service option" where
  "post_proc r tid k f sv =
     do {
       l \<leftarrow> elem (mLoops sv) k;
       if \<not> isInLoopThread l tid
       then Some (sv\<lparr>mLoops := put (mLoops sv) k (snd (wakeup tid (push_async f l)))\<rparr>)
       else tcp_exec r f sv
     }"

text \<open>Both branches of \<^verbatim>\<open>send\<close> look the session up in its loop thread, at once or later.\<close>

definition send :: "int \<Rightarrow> session_id \<Rightarrow> bytes \<Rightarrow> nat option \<Rightarrow> tcp_service \<Rightarrow> tcp_service option" where
  "send tid i packet callback sv =
     (if loop_of i < mLoopNum sv then
        do {
          l \<leftarrow> elem (mLoops sv) (loop_of i);
          if isInLoopThread l tid then call_session i (Send packet callback) sv
          else post_proc Refused tid (loop_of i) (SessionSend i packet callback) sv
        }
      else None)"

definition cacheSend :: "session_id \<Rightarrow> bytes \<Rightarrow> nat option \<Rightarrow> tcp_service \<Rightarrow> tcp_service option" where
  "cacheSend i packet callback sv =
     (if loop_of i < mLoopNum sv then
        do {
          vs \<leftarrow> elem (mCachePacketList sv) (loop_of i);
          Some (sv\<lparr>mCachePacketList := put (mCachePacketList sv) (loop_of i) (vs @ [(i, packet, callback)])\<rparr>)
        }
      else None)"

definition flush_cache_at :: "int \<Rightarrow> nat \<Rightarrow> tcp_service \<Rightarrow> tcp_service option" where
  "flush_cache_at tid k sv =
     do {
       vs \<leftarrow> elem (mCachePacketList sv) k;
       if vs = [] then Some sv
       else do {
         sv' \<leftarrow> post_proc Refused tid k (CachedSends vs) sv;
         Some (sv'\<lparr>mCachePacketList := put (mCachePacketList sv') k []\<rparr>)
       }
     }"

definition flushCachePackectList :: "int \<Rightarrow> tcp_service \<Rightarrow> tcp_service option" where
  "flushCachePackectList tid sv = run_procs (flush_cache_at tid) [0..<mLoopNum sv] sv"

definition postSessionAsyncProc :: "int \<Rightarrow> session_id \<Rightarrow> sock_call \<Rightarrow> tcp_service \<Rightarrow> tcp_service option" where
  "postSessionAsyncProc tid i c sv =
     (if loop_of i < mLoopNum sv then post_proc Refused tid (loop_of i) (SessionCall i c) sv else None)"

definition shutdown :: "int \<Rightarrow> session_id \<Rightarrow> tcp_service \<Rightarrow> tcp_service option" where
  "shutdown tid i sv = postSessionAsyncProc tid i PostShutdown sv"

definition disConnect :: "int \<Rightarrow> session_id \<Rightarrow> tcp_service \<Rightarrow> tcp_service option" where
  "disConnect tid i sv = postSessionAsyncProc tid i PostDisConnect sv"

definition setPingCheckTime :: "int \<Rightarrow> session_id \<Rightarrow> int \<Rightarrow> tcp_service \<Rightarrow> tcp_service option" where
  "setPingCheckTime tid i checktime sv = postSessionAsyncProc tid i (SetCheckTime checktime) sv"

definition wakeup_at :: "int \<Rightarrow> nat \<Rightarrow> tcp_service \<Rightarrow> tcp_service option" where
  "wakeup_at tid k sv =
     do { l \<leftarrow> elem (mLoops sv) k; Some (sv\<lparr>mLoops := put (mLoops sv) k (snd (wakeup tid l))\<rparr>) }"

definition wakeup_session :: "int \<Rightarrow> session_id \<Rightarrow> tcp_service \<Rightarrow> tcp_service option" where
  "wakeup_session tid i sv = (if loop_of i < mLoopNum sv then wakeup_at tid (loop_of i) sv else None)"

definition wakeupAll :: "int \<Rightarrow> tcp_service \<Rightarrow> tcp_service option" where
  "wakeupAll tid sv = run_procs (wakeup_at tid) [0..<mLoopNum sv] sv"

definition getRandomEventLoop :: "nat \<Rightarrow> tcp_service \<Rightarrow> nat option" where
  "getRandomEventLoop rand sv = (if mLoopNum sv > 0 then Some (rand mod mLoopNum sv) else None)"

definition getEventLoopBySocketID :: "session_id \<Rightarrow> tcp_service \<Rightarrow> nat option" where
  "getEventLoopBySocketID i sv = (if loop_of i < mLoopNum sv then Some (loop_of i) else None)"

text \<open>The loop whose thread is the caller, if there is one.\<close>

definition own_loop :: "int \<Rightarrow> tcp_service \<Rightarrow> nat option" where
  "own_loop tid sv =
     List.find (\<lambda>k. case elem (mLoops sv) k of Some l \<Rightarrow> isInLoopThread l tid | None \<Rightarrow> False) [0..<mLoopNum sv]"

definition helpAddChannel ::
  "link_result \<Rightarrow> nat \<Rightarrow> int \<Rightarrow> bool \<Rightarrow> sock_ptr \<Rightarrow> tcp_service \<Rightarrow> (bool \<times> tcp_service) option" where
  "helpAddChannel r rand tid forceSameThreadLoop channel sv =
     (if mLoopNum sv = 0 then Some (False, sv)
      else
        case (if forceSameThreadLoop then own_loop tid sv else Some (rand mod mLoopNum sv)) of
          None \<Rightarrow> Some (False, sv)
        | Some loopIndex \<Rightarrow>
            do {
              ds \<leftarrow> heap sv channel;
              sv' \<leftarrow> post_proc r tid loopIndex (EnterLoop channel loopIndex)
                       (sv\<lparr>heap := (heap sv)(channel \<mapsto> ds\<lparr>ds_enter := Some loopIndex\<rparr>)\<rparr>);
              Some (True, sv')
            })"

definition new_socket :: tcp_socket where
  "new_socket = \<lparr>ds_user = -1, ds_loop = None, ds_enter = None, ds_session = None\<rparr>"

text \<open>
  \<open>channel\<close> is the address \<^verbatim>\<open>new\<close> returns and \<open>ssl_ok\<close> the result of \<^verbatim>\<open>initConnectSSL\<close>; the descriptor is open. In the build without
  OpenSSL a request for TLS creates no connection and closes the descriptor. A connection that cannot be added is deleted with its
  descriptor still open.
\<close>

definition addDataSocket ::
  "bool \<Rightarrow> bool \<Rightarrow> link_result \<Rightarrow> nat \<Rightarrow> int \<Rightarrow> bool \<Rightarrow> bool \<Rightarrow> sock_ptr \<Rightarrow> tcp_service \<Rightarrow> (bool \<times> tcp_service) option" where
  "addDataSocket use_openssl ssl_ok r rand tid isUseSSL forceSameThreadLoop channel sv =
     (if \<not> use_openssl \<and> isUseSSL then Some (False, sv)
      else
        let sv1 = sv\<lparr>heap := (heap sv)(channel \<mapsto> new_socket)\<rparr>
        in do {
          (ret, sv2) \<leftarrow> (if isUseSSL \<and> \<not> ssl_ok then Some (False, sv1)
                         else helpAddChannel r rand tid forceSameThreadLoop channel sv1);
          if ret then Some (ret, sv2) else do { sv3 \<leftarrow> delete_channel True channel sv2; Some (ret, sv3) }
        })"

section \<open>Starting and closing\<close>

definition startWorkerThread :: "nat \<Rightarrow> tcp_service \<Rightarrow> tcp_service" where
  "startWorkerThread threadNum sv =
     (if mLoops sv = None then
        sv\<lparr>mRunIOLoop := True, mCachePacketList := Some (replicate threadNum []),
           mLoops := Some (replicate threadNum new_event_loop), mIOThreads := True, mLoopNum := threadNum,
           mDataSockets := Some (replicate threadNum new_type_ids), mIncIds := Some (replicate threadNum 0)\<rparr>
      else sv)"

text \<open>The threads are woken and joined.\<close>

definition stopWorkerThread :: "int \<Rightarrow> tcp_service \<Rightarrow> tcp_service option" where
  "stopWorkerThread tid sv =
     do {
       sv' \<leftarrow> (if mLoops sv \<noteq> None then run_procs (wakeup_at tid) [0..<mLoopNum sv] (sv\<lparr>mRunIOLoop := False\<rparr>)
               else Some sv);
       Some (sv'\<lparr>mIOThreads := False\<rparr>)
     }"

definition closeWorkerThread :: "int \<Rightarrow> tcp_service \<Rightarrow> tcp_service option" where
  "closeWorkerThread tid sv =
     do {
       sv' \<leftarrow> stopWorkerThread tid sv;
       Some (sv'\<lparr>mLoops := None, mIncIds := None, mDataSockets := None, mCachePacketList := None\<rparr>)
     }"

end
