(* ===== verification/Tcp_Sessions.thy ===== *)
theory Tcp_Sessions
  imports Tcp_Service
begin

text \<open>
  What the session ids of the TCP service promise. The abstract state is the map from ids to connections that the
  enter and disconnect callbacks describe; the theorems say that over all operations of all threads the lookup of an
  id computes this map, that no id is given out twice, and that no step fails an assertion or follows a dangling
  pointer.
\<close>

section \<open>The sessions of a log\<close>

fun session_step :: "session_event \<Rightarrow> (session_id \<Rightarrow> sock_ptr option) \<Rightarrow> session_id \<Rightarrow> sock_ptr option" where
  "session_step (SessionEnter i p) m = m(i \<mapsto> p)"
| "session_step (SessionLeave i) m = m(i := None)"

definition session_of :: "session_event list \<Rightarrow> session_id \<Rightarrow> sock_ptr option" where
  "session_of es = fold session_step es (\<lambda>_. None)"

fun entered_id :: "session_event \<Rightarrow> session_id list" where
  "entered_id (SessionEnter i p) = [i]"
| "entered_id (SessionLeave i) = []"

definition entered :: "session_event list \<Rightarrow> session_id list" where
  "entered es = concat (map entered_id es)"

lemma session_of_simps [simp]: "session_of [] = (\<lambda>_. None)" "session_of (es @ [e]) = session_step e (session_of es)"
  by (simp_all add: session_of_def)

lemma entered_simps [simp]: "entered [] = []" "entered (es @ [e]) = entered es @ entered_id e"
  by (simp_all add: entered_def)

lemma session_entered: "session_of es i = Some p \<Longrightarrow> i \<in> set (entered es)"
proof (induction es rule: rev_induct)
  case (snoc e es)
  then show ?case by (cases e) (auto split: if_splits)
qed simp

section \<open>The invariant of the tables\<close>

definition tables_ok :: "nat \<Rightarrow> sock_ptr type_ids list \<Rightarrow> int list \<Rightarrow> bool" where
  "tables_ok n ts ns \<longleftrightarrow>
     length ts = n \<and> length ns = n \<and> n \<le> 65536 \<and>
     (\<forall>k < n. ids_wf (ts ! k) \<and> 100 dvd length (mValues (ts ! k)) \<and> length (mValues (ts ! k)) \<le> 65500 \<and>
        0 \<le> ns ! k \<and> ns ! k < 2 ^ 31)"

definition named_ok ::
  "nat \<Rightarrow> sock_ptr type_ids list \<Rightarrow> (sock_ptr \<Rightarrow> tcp_socket option) \<Rightarrow> (session_id \<Rightarrow> sock_ptr option) \<Rightarrow> bool" where
  "named_ok n ts h S \<longleftrightarrow>
     (\<forall>i p. S i = Some p \<longrightarrow> loop_of i < n \<and> slot_of i \<in> ids_used (ts ! loop_of i) \<and>
        mValues (ts ! loop_of i) ! slot_of i = Some p \<and>
        (\<exists>ds. h p = Some ds \<and> ds_user ds = i \<and> ds_session ds = Some i \<and> ds_enter ds = None))"

definition slots_ok :: "nat \<Rightarrow> sock_ptr type_ids list \<Rightarrow> (session_id \<Rightarrow> sock_ptr option) \<Rightarrow> bool" where
  "slots_ok n ts S \<longleftrightarrow>
     (\<forall>k < n. \<forall>j < length (mValues (ts ! k)).
        (j \<in> ids_used (ts ! k) \<longrightarrow> (\<exists>i p. S i = Some p \<and> loop_of i = k \<and> slot_of i = j)) \<and>
        (j \<notin> ids_used (ts ! k) \<longrightarrow> mValues (ts ! k) ! j = None))"

definition heap_ok :: "nat \<Rightarrow> (sock_ptr \<Rightarrow> tcp_socket option) \<Rightarrow> (session_id \<Rightarrow> sock_ptr option) \<Rightarrow> bool" where
  "heap_ok n h S \<longleftrightarrow>
     (\<forall>p ds. h p = Some ds \<longrightarrow> (\<forall>i. ds_session ds = Some i \<longrightarrow> S i = Some p) \<and>
        (\<forall>k. ds_enter ds = Some k \<longrightarrow> k < n \<and> ds_session ds = None))"

definition issued_ok :: "nat \<Rightarrow> sock_ptr type_ids list \<Rightarrow> int list \<Rightarrow> session_id list \<Rightarrow> bool" where
  "issued_ok n ts ns E \<longleftrightarrow> distinct E \<and>
     (\<forall>i \<in> set E. loop_of i < n \<and> slot_of i < length (mValues (ts ! loop_of i)) \<and> int (iid_of i) < ns ! loop_of i)"

definition core_ok ::
  "nat \<Rightarrow> sock_ptr type_ids list \<Rightarrow> int list \<Rightarrow> (sock_ptr \<Rightarrow> tcp_socket option) \<Rightarrow> session_event list \<Rightarrow> bool" where
  "core_ok n ts ns h es \<longleftrightarrow>
     tables_ok n ts ns \<and> named_ok n ts h (session_of es) \<and> slots_ok n ts (session_of es) \<and>
     heap_ok n h (session_of es) \<and> issued_ok n ts ns (entered es)"

lemma ids_used_less: "j \<in> ids_used t \<Longrightarrow> j < length (mValues t)"
  by (simp add: ids_used_def)

text \<open>The lookup of an id that was given out.\<close>

lemma find_session_core:
  assumes core: "core_ok n ts ns (heap sv) es" and ts: "mDataSockets sv = Some ts" and i: "i \<in> set (entered es)"
  shows "find_session i sv = Some (session_of es i)"
proof -
  let ?k = "loop_of i" and ?j = "slot_of i"
  have bounds: "?k < n" "?j < length (mValues (ts ! ?k))" "length ts = n"
    using core i by (auto simp: core_ok_def issued_ok_def tables_ok_def)
  have named: "\<And>i' p. session_of es i' = Some p \<Longrightarrow> mValues (ts ! loop_of i') ! slot_of i' = Some p \<and>
      (\<exists>ds. heap sv p = Some ds \<and> ds_user ds = i')"
    using core by (auto simp: core_ok_def named_ok_def)
  have slots: "?j \<in> ids_used (ts ! ?k) \<Longrightarrow> \<exists>i' p. session_of es i' = Some p \<and> loop_of i' = ?k \<and> slot_of i' = ?j"
    "?j \<notin> ids_used (ts ! ?k) \<Longrightarrow> mValues (ts ! ?k) ! ?j = None"
    using core bounds(1,2) unfolding core_ok_def slots_ok_def by blast+
  show ?thesis
  proof (cases "mValues (ts ! ?k) ! ?j")
    case None
    then have "session_of es i = None" using named [of i] by (cases "session_of es i") auto
    then show ?thesis using None bounds by (simp add: find_session_def ts ids_get_def)
  next
    case (Some p)
    then obtain i' p' where i': "session_of es i' = Some p'" "loop_of i' = ?k" "slot_of i' = ?j" using slots by fastforce
    then obtain ds where ds: "p' = p" "heap sv p = Some ds" "ds_user ds = i'" using named [OF i'(1)] Some by auto
    have "session_of es i = None" if "i \<noteq> i'"
      using named [of i] Some ds that by (cases "session_of es i") auto
    then show ?thesis using Some bounds ds i' by (auto simp: find_session_def ts ids_get_def)
  qed
qed

section \<open>Entering\<close>

text \<open>What a claim does to a table below its limit.\<close>

lemma claim_table:
  assumes wf: "ids_wf t" and c: "claimID t = (j, t')" and l: "100 dvd length (mValues t)" "length (mValues t) \<le> 65500"
    and room: "card (ids_used t) < 65500"
  shows "100 dvd length (mValues t')" "length (mValues t') \<le> 65500"
    "\<And>x. length (mValues t) \<le> x \<Longrightarrow> x < length (mValues t') \<Longrightarrow> mValues t' ! x = None"
proof -
  have full: "length (mValues t) \<le> 65400" if "mIds t = []"
  proof -
    have "ids_used t = {..<length (mValues t)}" using that by (auto simp: ids_used_def)
    then have "length (mValues t) < 65500" using room by simp
    moreover obtain q where "length (mValues t) = 100 * q" using l(1) by blast
    ultimately show ?thesis by simp
  qed
  have t': "mValues t' = mValues t \<or> mIds t = [] \<and> mValues t' = mValues t @ replicate 100 None"
    using c by (auto simp: claimID_def ids_increase_def ids_NUM_def Let_def split: if_split_asm)
  show "100 dvd length (mValues t')" "length (mValues t') \<le> 65500" using t' l full by auto
  show "mValues t' ! x = None" if "length (mValues t) \<le> x" "x < length (mValues t')" for x
    using t' that by (auto simp: nth_append)
qed

lemma sid_fields:
  assumes "k < 65536" "j < 65536" "0 \<le> m" "m < 2 ^ 31"
  defines "i \<equiv> sid_id \<lparr>sid_loopIndex = of_nat k, sid_index = of_nat j, sid_iid = of_int m\<rparr>"
  shows "loop_of i = k" "slot_of i = j" "int (iid_of i) = m"
proof -
  show "loop_of i = k" "slot_of i = j" using assms(1,2) by (simp_all add: i_def unat_of_nat_small)
  have "uint (of_int m :: uint32_t) = m" using assms(3,4) by (simp add: uint_word_of_int)
  then show "int (iid_of i) = m" by (simp add: i_def)
qed


lemma ids_put [simp]:
  "length v = length (mValues t) \<Longrightarrow> ids_wf (t\<lparr>mValues := v\<rparr>) = ids_wf t"
  "length v = length (mValues t) \<Longrightarrow> ids_used (t\<lparr>mValues := v\<rparr>) = ids_used t"
  by (simp_all add: ids_wf_def ids_used_def)

lemma core_enter:
  assumes core: "core_ok n ts ns h es" and k: "k < n" and h: "h p = Some ds" "ds_session ds = None" "ds_enter ds = Some k"
    and room: "card (ids_used (ts ! k)) < 65500" and count: "int_ok (ns ! k + 1)"
    and claim: "claimID (ts ! k) = (j, t')"
    and i: "i = sid_id \<lparr>sid_loopIndex = of_nat k, sid_index = of_nat j, sid_iid = of_int (ns ! k)\<rparr>"
  shows "core_ok n (ts[k := t'\<lparr>mValues := (mValues t')[j := Some p]\<rparr>]) (ns[k := ns ! k + 1])
      (h(p \<mapsto> ds\<lparr>ds_user := i, ds_session := Some i, ds_enter := None\<rparr>)) (es @ [SessionEnter i p])"
    and "loop_of i = k" "slot_of i = j" "j < length (mValues t')"
proof -
  let ?S = "session_of es" and ?t = "ts ! k" and ?t' = "t'\<lparr>mValues := (mValues t')[j := Some p]\<rparr>"
  have parts: "tables_ok n ts ns" "named_ok n ts h ?S" "slots_ok n ts ?S" "heap_ok n h ?S" "issued_ok n ts ns (entered es)"
    using core by (simp_all add: core_ok_def)
  have t: "ids_wf ?t" "100 dvd length (mValues ?t)" "length (mValues ?t) \<le> 65500" "0 \<le> ns ! k" "ns ! k < 2 ^ 31"
    "length ts = n" "length ns = n" "n \<le> 65536"
    using parts(1) k by (auto simp: tables_ok_def)
  note c = claimID_wf [OF t(1) claim] and g = claim_table [OF t(1) claim t(2,3) room]
  show j: "j < length (mValues t')" by (rule c(4))
  have fields: "loop_of i = k" "slot_of i = j" "int (iid_of i) = ns ! k"
    using sid_fields [of k j "ns ! k"] k t j g(2) unfolding i by simp_all
  show "loop_of i = k" "slot_of i = j" by (fact fields)+
  have fresh: "i \<notin> set (entered es)" using parts(5) fields by (auto simp: issued_ok_def)
  then have new: "?S i = None" using session_entered [of es i] by (cases "?S i") auto
  have unnamed: "\<And>i'. ?S i' \<noteq> Some p" using parts(2) h by (fastforce simp: named_ok_def)
  have "tables_ok n (ts[k := ?t']) (ns[k := ns ! k + 1])"
    using parts(1) c(1) g(1,2) k t count by (auto simp: tables_ok_def nth_list_update int_ok_def)
  moreover have "named_ok n (ts[k := ?t']) (h(p \<mapsto> ds\<lparr>ds_user := i, ds_session := Some i, ds_enter := None\<rparr>)) (?S(i \<mapsto> p))"
    unfolding named_ok_def
  proof (intro allI impI, goal_cases)
    case (1 i' q)
    show ?case
    proof (cases "i' = i")
      case True
      then show ?thesis using 1 fields k t j c(3) by auto
    next
      case False
      then have q: "?S i' = Some q" using 1 by simp
      then have *: "loop_of i' < n" "slot_of i' \<in> ids_used (ts ! loop_of i')" "mValues (ts ! loop_of i') ! slot_of i' = Some q"
        "\<exists>ds. h q = Some ds \<and> ds_user ds = i' \<and> ds_session ds = Some i' \<and> ds_enter ds = None" "q \<noteq> p"
        using parts(2) unnamed by (auto simp: named_ok_def)
      show ?thesis
      proof (cases "loop_of i' = k")
        case True
        then have "slot_of i' \<noteq> j" "slot_of i' < length (mValues ?t)" using * c(2) ids_used_less by auto
        then show ?thesis using * True t c(3,6) by auto
      qed (use * in auto)
    qed
  qed
  moreover have "slots_ok n (ts[k := ?t']) (?S(i \<mapsto> p))"
    unfolding slots_ok_def
  proof (intro allI impI, goal_cases)
    case (1 k' x)
    have old: "k' < n \<Longrightarrow> x < length (mValues (ts ! k')) \<Longrightarrow>
        (x \<in> ids_used (ts ! k') \<longrightarrow> (\<exists>i' q. (?S(i \<mapsto> p)) i' = Some q \<and> loop_of i' = k' \<and> slot_of i' = x)) \<and>
        (x \<notin> ids_used (ts ! k') \<longrightarrow> mValues (ts ! k') ! x = None)"
      using parts(3) new unfolding slots_ok_def by (metis fun_upd_other option.distinct(1))
    show ?case
    proof (cases "k' = k")
      case False
      then show ?thesis using old 1 by simp
    next
      case True
      show ?thesis
      proof (cases "x = j")
        case True
        have "\<exists>i' q. (?S(i \<mapsto> p)) i' = Some q \<and> loop_of i' = k' \<and> slot_of i' = x"
          using True \<open>k' = k\<close> fields by (intro exI [of _ i]) auto
        then show ?thesis using True \<open>k' = k\<close> c(3) j k t by simp
      next
        case False
        have "x \<in> ids_used t' \<longleftrightarrow> x \<in> ids_used ?t" using False c(3) by simp
        moreover have "length (mValues ?t) \<le> x \<Longrightarrow> x \<notin> ids_used ?t \<and> mValues t' ! x = None"
          using g(3) 1 True t ids_used_less by (fastforce simp: not_less)
        ultimately show ?thesis using old 1 True False c(6) t by (cases "x < length (mValues ?t)") auto
      qed
    qed
  qed
  moreover have "heap_ok n (h(p \<mapsto> ds\<lparr>ds_user := i, ds_session := Some i, ds_enter := None\<rparr>)) (?S(i \<mapsto> p))"
    using parts(4) new by (fastforce simp: heap_ok_def)
  moreover have "issued_ok n (ts[k := ?t']) (ns[k := ns ! k + 1]) (entered es @ [i])"
    using parts(5) fresh fields k j t c(5) unfolding issued_ok_def by (auto simp: nth_list_update)
  ultimately show "core_ok n (ts[k := ?t']) (ns[k := ns ! k + 1])
      (h(p \<mapsto> ds\<lparr>ds_user := i, ds_session := Some i, ds_enter := None\<rparr>)) (es @ [SessionEnter i p])"
    by (simp add: core_ok_def)
qed


section \<open>Leaving\<close>

lemma core_leave:
  assumes core: "core_ok n ts ns h es" and h: "h p = Some ds" "ds_session ds = Some i"
  defines "t \<equiv> ts ! loop_of i"
  shows "ds_user ds = i" "loop_of i < length ts" "slot_of i < length (mValues t)" "slot_of i \<notin> set (mIds t)"
    "core_ok n (ts[loop_of i := t\<lparr>mValues := (mValues t)[slot_of i := None], mIds := mIds t @ [slot_of i]\<rparr>]) ns
       (h(p := None)) (es @ [SessionLeave i])"
proof -
  let ?S = "session_of es" and ?k = "loop_of i" and ?j = "slot_of i"
  let ?t' = "t\<lparr>mValues := (mValues t)[?j := None], mIds := mIds t @ [?j]\<rparr>"
  have parts: "tables_ok n ts ns" "named_ok n ts h ?S" "slots_ok n ts ?S" "heap_ok n h ?S" "issued_ok n ts ns (entered es)"
    using core by (simp_all add: core_ok_def)
  have S: "?S i = Some p" using parts(4) h by (auto simp: heap_ok_def)
  have named: "?k < n \<and> ?j \<in> ids_used t \<and> (\<exists>ds. h p = Some ds \<and> ds_user ds = i)"
    using parts(2) S unfolding named_ok_def t_def by blast
  then have nm: "?k < n" "?j \<in> ids_used t" "ds_user ds = i" using h by auto
  have len: "length ts = n" "ids_wf t" using parts(1) nm(1) by (auto simp: tables_ok_def t_def)
  show "ds_user ds = i" "?k < length ts" using nm len by simp_all
  show bounds: "?j < length (mValues t)" "?j \<notin> set (mIds t)" using nm(2) by (auto simp: ids_used_def)
  have wf': "ids_wf ?t'" "ids_used ?t' = ids_used t - {?j}"
    using len(2) bounds by (auto simp: ids_wf_def ids_used_def)
  have "tables_ok n (ts[?k := ?t']) ns"
    using parts(1) wf' nm(1) by (auto simp: tables_ok_def nth_list_update t_def)
  moreover have "named_ok n (ts[?k := ?t']) (h(p := None)) (?S(i := None))"
    unfolding named_ok_def
  proof (intro allI impI, goal_cases)
    case (1 i' q)
    then have i': "i' \<noteq> i" "?S i' = Some q" by (auto split: if_split_asm)
    then have *: "loop_of i' < n" "slot_of i' \<in> ids_used (ts ! loop_of i')" "mValues (ts ! loop_of i') ! slot_of i' = Some q"
      "\<exists>ds. h q = Some ds \<and> ds_user ds = i' \<and> ds_session ds = Some i' \<and> ds_enter ds = None"
      using parts(2) by (auto simp: named_ok_def)
    then have "q \<noteq> p" using h i'(1) by auto
    moreover have "slot_of i' \<noteq> ?j" if "loop_of i' = ?k"
    proof
      assume "slot_of i' = ?j"
      then have "mValues t ! ?j = Some q" using * that by (simp add: t_def)
      moreover have "mValues t ! ?j = Some p" using parts(2) S by (auto simp: named_ok_def t_def)
      ultimately show False using \<open>q \<noteq> p\<close> by simp
    qed
    ultimately show ?case using * wf'(2) len by (cases "loop_of i' = ?k") (auto simp: t_def)
  qed
  moreover have "slots_ok n (ts[?k := ?t']) (?S(i := None))"
    unfolding slots_ok_def
  proof (intro allI impI, goal_cases)
    case (1 k' x)
    have old: "k' < n \<Longrightarrow> x < length (mValues (ts ! k')) \<Longrightarrow>
        (x \<in> ids_used (ts ! k') \<longrightarrow> (\<exists>i' q. ?S i' = Some q \<and> loop_of i' = k' \<and> slot_of i' = x)) \<and>
        (x \<notin> ids_used (ts ! k') \<longrightarrow> mValues (ts ! k') ! x = None)"
      using parts(3) unfolding slots_ok_def by blast
    show ?case
    proof (cases "k' = ?k \<and> x = ?j")
      case True
      then show ?thesis using wf'(2) len bounds nm by simp
    next
      case False
      then have "(\<exists>i' q. ?S i' = Some q \<and> loop_of i' = k' \<and> slot_of i' = x) \<Longrightarrow>
          \<exists>i' q. (?S(i := None)) i' = Some q \<and> loop_of i' = k' \<and> slot_of i' = x"
        by (metis fun_upd_apply)
      moreover have "k' = ?k \<Longrightarrow> x \<noteq> ?j" using False by simp
      ultimately show ?thesis using old 1 wf'(2) len by (cases "k' = ?k") (simp_all add: t_def)
    qed
  qed
  moreover have "heap_ok n (h(p := None)) (?S(i := None))" using parts(4) S by (auto simp: heap_ok_def split: if_split_asm)
  moreover have "issued_ok n (ts[?k := ?t']) ns (entered es)"
    using parts(5) len nm(1) unfolding issued_ok_def by (auto simp: nth_list_update t_def)
  ultimately show "core_ok n (ts[?k := ?t']) ns (h(p := None)) (es @ [SessionLeave i])"
    by (simp add: core_ok_def)
qed

text \<open>Connections without a session may come, change and go.\<close>

lemma core_heap:
  assumes "core_ok n ts ns h es" "\<And>ds. h p = Some ds \<Longrightarrow> ds_session ds = None"
    "\<And>ds. v = Some ds \<Longrightarrow> ds_session ds = None \<and> (\<forall>k. ds_enter ds = Some k \<longrightarrow> k < n)"
  shows "core_ok n ts ns (h(p := v)) es"
proof -
  have "named_ok n ts h (session_of es)" using assms(1) by (simp add: core_ok_def)
  then have "named_ok n ts (h(p := v)) (session_of es)"
    using assms(2) unfolding named_ok_def by (metis fun_upd_other option.distinct(1))
  moreover have "heap_ok n (h(p := v)) (session_of es)"
    using assms unfolding core_ok_def heap_ok_def by (metis fun_upd_apply option.distinct(1))
  ultimately show ?thesis using assms(1) by (simp add: core_ok_def)
qed


section \<open>The invariant of the service\<close>

fun enter_ptrs :: "tcp_proc list \<Rightarrow> sock_ptr list" where
  "enter_ptrs [] = []"
| "enter_ptrs (EnterLoop p k # fs) = p # enter_ptrs fs"
| "enter_ptrs (f # fs) = enter_ptrs fs"

text \<open>A queued function object: its ids were given out, a connection it enters is alive and in no loop yet.\<close>

fun proc_ok :: "nat \<Rightarrow> (sock_ptr \<Rightarrow> tcp_socket option) \<Rightarrow> session_id set \<Rightarrow> tcp_proc \<Rightarrow> bool" where
  "proc_ok k h E (SessionSend i packet callback) \<longleftrightarrow> i \<in> E"
| "proc_ok k h E (SessionCall i c) \<longleftrightarrow> i \<in> E"
| "proc_ok k h E (CachedSends vs) \<longleftrightarrow> fst ` set vs \<subseteq> E"
| "proc_ok k h E (EnterLoop p k') \<longleftrightarrow> k' = k \<and> (\<exists>ds. h p = Some ds \<and> ds_loop ds = None \<and> ds_enter ds = Some k)"

definition queue_ok :: "nat \<Rightarrow> (sock_ptr \<Rightarrow> tcp_socket option) \<Rightarrow> session_id set \<Rightarrow> tcp_proc list \<Rightarrow> bool" where
  "queue_ok k h E q \<longleftrightarrow> distinct (enter_ptrs q) \<and> (\<forall>f \<in> set q. proc_ok k h E f)"

definition queues_ok :: "(sock_ptr \<Rightarrow> tcp_socket option) \<Rightarrow> session_id set \<Rightarrow> tcp_proc event_loop list \<Rightarrow> bool" where
  "queues_ok h E ls \<longleftrightarrow> (\<forall>k < length ls. queue_ok k h E (mAsyncProcs (ls ! k)))"

definition cache_ok :: "session_id set \<Rightarrow> (session_id \<times> bytes \<times> nat option) list list \<Rightarrow> bool" where
  "cache_ok E cs \<longleftrightarrow> (\<forall>vs \<in> set cs. fst ` set vs \<subseteq> E)"

definition tcp_inv :: "tcp_service \<Rightarrow> bool" where
  "tcp_inv sv \<longleftrightarrow>
     (\<exists>ls ts ns cs. mLoops sv = Some ls \<and> mDataSockets sv = Some ts \<and> mIncIds sv = Some ns \<and> mCachePacketList sv = Some cs \<and>
        length ls = mLoopNum sv \<and> length cs = mLoopNum sv \<and>
        core_ok (mLoopNum sv) ts ns (heap sv) (session_log sv) \<and>
        queues_ok (heap sv) (set (entered (session_log sv))) ls \<and> cache_ok (set (entered (session_log sv))) cs)"

abbreviation issued :: "tcp_service \<Rightarrow> session_id set" where "issued sv \<equiv> set (entered (session_log sv))"

text \<open>There is room for one more connection in every table, and the counters may advance.\<close>

definition tcp_room :: "tcp_service \<Rightarrow> bool" where
  "tcp_room sv \<longleftrightarrow>
     (\<forall>t \<in> set (the (mDataSockets sv)). card (ids_used t) < 65500) \<and> (\<forall>n \<in> set (the (mIncIds sv)). int_ok (n + 1))"

lemma enter_ptrs_append [simp]: "enter_ptrs (q @ q') = enter_ptrs q @ enter_ptrs q'"
proof (induction q)
  case (Cons f q)
  then show ?case by (cases f) auto
qed simp

lemma in_enter_ptrs: "p \<in> set (enter_ptrs q) \<longleftrightarrow> (\<exists>k. EnterLoop p k \<in> set q)"
proof (induction q)
  case (Cons f q)
  then show ?case by (cases f) auto
qed simp

lemma proc_ok_mono: "proc_ok k h E f \<Longrightarrow> E \<subseteq> E' \<Longrightarrow> proc_ok k h E' f"
  by (cases f) auto

lemma proc_ok_heap: "proc_ok k h E f \<Longrightarrow> p \<notin> set (enter_ptrs [f]) \<Longrightarrow> proc_ok k (h(p := v)) E f"
  by (cases f) auto

text \<open>The queues after a connection changed that none of them enters.\<close>

lemma queues_ok_update:
  assumes "queues_ok h E ls" "E \<subseteq> E'" "\<And>k. k < length ls \<Longrightarrow> p \<notin> set (enter_ptrs (mAsyncProcs (ls ! k)))"
  shows "queues_ok (h(p := v)) E' ls"
  unfolding queues_ok_def queue_ok_def
proof (intro allI impI conjI ballI, goal_cases)
  case (1 k)
  then show ?case using assms(1) by (simp add: queues_ok_def queue_ok_def)
next
  case (2 k f)
  then have "p \<notin> set (enter_ptrs [f])" using assms(3) by (cases f) (auto simp: in_enter_ptrs)
  moreover have "proc_ok k h E f" using assms(1) 2 by (simp add: queues_ok_def queue_ok_def)
  ultimately show ?case using assms(2) proc_ok_mono proc_ok_heap by blast
qed

text \<open>A connection outside the state before entering is in no queue.\<close>

lemma not_queued:
  assumes "queues_ok h E ls" "\<And>ds. h p = Some ds \<Longrightarrow> ds_loop ds \<noteq> None \<or> ds_enter ds = None" "k < length ls"
  shows "p \<notin> set (enter_ptrs (mAsyncProcs (ls ! k)))"
proof
  assume "p \<in> set (enter_ptrs (mAsyncProcs (ls ! k)))"
  then obtain k' where "EnterLoop p k' \<in> set (mAsyncProcs (ls ! k))" by (auto simp: in_enter_ptrs)
  then have "proc_ok k h E (EnterLoop p k')" using assms(1,3) unfolding queues_ok_def queue_ok_def by blast
  then show False using assms(2) by auto
qed

lemma cache_ok_mono: "cache_ok E cs \<Longrightarrow> E \<subseteq> E' \<Longrightarrow> cache_ok E' cs"
  by (fastforce simp: cache_ok_def)

section \<open>Every action is defined and keeps the invariant\<close>

lemma call_socket_inv [simp]: "tcp_inv (call_socket p c sv) = tcp_inv sv" "issued (call_socket p c sv) = issued sv"
  by (simp_all add: tcp_inv_def call_socket_def)

lemma call_session_exact:
  assumes "tcp_inv sv" "i \<in> issued sv"
  shows "call_session i c sv = Some (case session_of (session_log sv) i of None \<Rightarrow> sv | Some p \<Rightarrow> call_socket p c sv)"
proof -
  obtain ts ns where "mDataSockets sv = Some ts" "core_ok (mLoopNum sv) ts ns (heap sv) (session_log sv)"
    using assms(1) by (auto simp: tcp_inv_def)
  then show ?thesis using find_session_core assms(2) by (simp add: call_session_def)
qed

lemma call_session_inv:
  assumes "tcp_inv sv" "i \<in> issued sv"
  shows "\<exists>sv'. call_session i c sv = Some sv' \<and> tcp_inv sv' \<and> issued sv' = issued sv"
  using call_session_exact [OF assms, of c] assms by (auto split: option.split)

lemma send_cached_inv:
  "tcp_inv sv \<Longrightarrow> fst ` set vs \<subseteq> issued sv \<Longrightarrow> \<exists>sv'. send_cached vs sv = Some sv' \<and> tcp_inv sv'"
proof (induction vs arbitrary: sv)
  case (Cons v vs)
  obtain i packet callback where v: "v = (i, packet, callback)" by (cases v)
  obtain sv' where "call_session i (Send packet callback) sv = Some sv'" "tcp_inv sv'" "issued sv' = issued sv"
    using call_session_inv Cons.prems v by (metis fst_conv image_subset_iff list.set_intros(1))
  then show ?case using Cons v by simp
qed simp

text \<open>The enter callback of a connection that waits for it.\<close>

lemma on_channel_enter_inv:
  assumes inv: "tcp_inv sv" and room: "tcp_room sv" and h: "heap sv p = Some ds" "ds_loop ds \<noteq> None"
  shows "\<exists>sv'. on_channel_enter p sv = Some sv' \<and> tcp_inv sv'"
proof (cases "ds_enter ds")
  case None
  then show ?thesis using inv h by (simp add: on_channel_enter_def)
next
  case (Some k)
  obtain ls ts ns cs where st: "mLoops sv = Some ls" "mDataSockets sv = Some ts" "mIncIds sv = Some ns"
    "mCachePacketList sv = Some cs" "length ls = mLoopNum sv" "length cs = mLoopNum sv"
    and core: "core_ok (mLoopNum sv) ts ns (heap sv) (session_log sv)"
    and qs: "queues_ok (heap sv) (issued sv) ls" and cs: "cache_ok (issued sv) cs"
    using inv by (auto simp: tcp_inv_def)
  have k: "k < mLoopNum sv" "ds_session ds = None" "length ts = mLoopNum sv" "length ns = mLoopNum sv"
    using core h Some by (auto simp: core_ok_def heap_ok_def tables_ok_def)
  then have room': "card (ids_used (ts ! k)) < 65500" "int_ok (ns ! k + 1)"
    using room st by (auto simp: tcp_room_def)
  obtain j t' where claim: "claimID (ts ! k) = (j, t')" by fastforce
  define i where "i = sid_id \<lparr>sid_loopIndex = of_nat k, sid_index = of_nat j, sid_iid = of_int (ns ! k)\<rparr>"
  note new = core_enter [OF core k(1) h(1) k(2) Some room' claim i_def]
  have "queues_ok ((heap sv)(p \<mapsto> ds\<lparr>ds_user := i, ds_session := Some i, ds_enter := None\<rparr>)) (insert i (issued sv)) ls"
    using queues_ok_update [OF qs] not_queued [OF qs] h by (metis option.inject subset_insertI)
  moreover have "cache_ok (insert i (issued sv)) cs" using cache_ok_mono [OF cs] by blast
  ultimately show ?thesis
    using st k h Some claim room' new
    by (simp add: on_channel_enter_def MakeID_def set_socket_def ids_set_def tcp_inv_def put_def Let_def flip: i_def)
qed

lemma on_channel_close_inv:
  assumes inv: "tcp_inv sv" and h: "heap sv p = Some ds"
  shows "\<exists>sv'. on_channel_close p sv = Some sv' \<and> tcp_inv sv'"
proof (cases "ds_session ds")
  case None
  then show ?thesis using inv h by (simp add: on_channel_close_def)
next
  case (Some i)
  obtain ls ts ns cs where st: "mLoops sv = Some ls" "mDataSockets sv = Some ts" "mIncIds sv = Some ns"
    "mCachePacketList sv = Some cs" "length ls = mLoopNum sv" "length cs = mLoopNum sv"
    and core: "core_ok (mLoopNum sv) ts ns (heap sv) (session_log sv)"
    and qs: "queues_ok (heap sv) (issued sv) ls" and cs: "cache_ok (issued sv) cs"
    using inv by (auto simp: tcp_inv_def)
  have "ds_enter ds = None" using core h Some by (cases "ds_enter ds") (auto simp: core_ok_def heap_ok_def)
  then have "queues_ok ((heap sv)(p := None)) (issued sv) ls"
    using queues_ok_update [OF qs] not_queued [OF qs] h by (metis option.inject subset_refl)
  then show ?thesis
    using st core_leave [OF core h Some] h Some cs
    by (simp add: on_channel_close_def procDataSocketClose_def set_socket_def ids_set_def reclaimID_def tcp_inv_def put_def)
qed


text \<open>A function object whose connection no queue enters.\<close>

definition fresh_proc :: "tcp_service \<Rightarrow> tcp_proc \<Rightarrow> bool" where
  "fresh_proc sv f \<longleftrightarrow>
     (\<forall>l \<in> set (the (mLoops sv)). set (enter_ptrs [f]) \<inter> set (enter_ptrs (mAsyncProcs l)) = {})"

lemma set_heap_inv:
  assumes inv: "tcp_inv sv" and p: "\<And>ds. heap sv p = Some ds \<Longrightarrow> ds_session ds = None"
    "\<And>l. l \<in> set (the (mLoops sv)) \<Longrightarrow> p \<notin> set (enter_ptrs (mAsyncProcs l))"
    and v: "\<And>ds. v = Some ds \<Longrightarrow> ds_session ds = None \<and> (\<forall>k. ds_enter ds = Some k \<longrightarrow> k < mLoopNum sv)"
  shows "tcp_inv (sv\<lparr>heap := (heap sv)(p := v)\<rparr>)"
proof -
  obtain ls ts ns cs where st: "mLoops sv = Some ls" "mDataSockets sv = Some ts" "mIncIds sv = Some ns"
    "mCachePacketList sv = Some cs" "length ls = mLoopNum sv" "length cs = mLoopNum sv"
    and core: "core_ok (mLoopNum sv) ts ns (heap sv) (session_log sv)"
    and qs: "queues_ok (heap sv) (issued sv) ls" and cs: "cache_ok (issued sv) cs"
    using inv by (auto simp: tcp_inv_def)
  have "queues_ok ((heap sv)(p := v)) (issued sv) ls"
    by (rule queues_ok_update [OF qs subset_refl]) (use p(2) st in auto)
  then show ?thesis using st core_heap [OF core p(1) v] cs by (simp add: tcp_inv_def)
qed

lemma session_before_enter: "tcp_inv sv \<Longrightarrow> heap sv p = Some ds \<Longrightarrow> ds_enter ds = Some k \<Longrightarrow> ds_session ds = None \<and> k < mLoopNum sv"
  by (auto simp: tcp_inv_def core_ok_def heap_ok_def)

lemma enter_event_loop_inv:
  assumes inv: "tcp_inv sv" and room: "tcp_room sv" and h: "heap sv p = Some ds" "ds_loop ds = None" "ds_enter ds = Some k"
    and fresh: "fresh_proc sv (EnterLoop p k)"
  shows "\<exists>sv'. enter_event_loop r p k sv = Some sv' \<and> tcp_inv sv'"
proof -
  have p: "\<And>ds. heap sv p = Some ds \<Longrightarrow> ds_session ds = None"
    "\<And>l. l \<in> set (the (mLoops sv)) \<Longrightarrow> p \<notin> set (enter_ptrs (mAsyncProcs l))"
    using session_before_enter [OF inv] h fresh by (auto simp: fresh_proc_def)
  let ?linked = "sv\<lparr>heap := (heap sv)(p \<mapsto> ds\<lparr>ds_loop := Some k\<rparr>)\<rparr>"
  have linked: "tcp_inv ?linked" "tcp_room ?linked"
    using set_heap_inv [OF inv p, of "Some (ds\<lparr>ds_loop := Some k\<rparr>)"] session_before_enter [OF inv h(1,3)] h room
    by (auto simp: tcp_room_def)
  show ?thesis
  proof (cases r)
    case Refused
    then show ?thesis using set_heap_inv [OF inv p, of None] h by (simp add: enter_event_loop_def)
  next
    case Linked_Plain
    then show ?thesis using on_channel_enter_inv [OF linked] h by (simp add: enter_event_loop_def)
  next
    case Linked_TLS
    then show ?thesis using linked h by (simp add: enter_event_loop_def)
  qed
qed

lemma tcp_exec_inv:
  assumes "tcp_inv sv" "tcp_room sv" "proc_ok k (heap sv) (issued sv) f" "fresh_proc sv f"
  shows "\<exists>sv'. tcp_exec r f sv = Some sv' \<and> tcp_inv sv'"
proof (cases f)
  case (SessionSend i packet callback)
  then show ?thesis using call_session_inv [OF assms(1)] assms(3) by fastforce
next
  case (SessionCall i c)
  then show ?thesis using call_session_inv [OF assms(1)] assms(3) by fastforce
next
  case (CachedSends vs)
  then show ?thesis using send_cached_inv assms(1,3) by simp
next
  case (EnterLoop p k')
  then show ?thesis using enter_event_loop_inv [OF assms(1,2)] assms(3,4) by auto
qed

lemma wakeup_async [simp]: "mAsyncProcs (snd (wakeup tid l)) = mAsyncProcs l"
  by (simp add: wakeup_def exchange_wakeup_def channel_wakeup_def)

text \<open>A change of the loops, given by what happens to their queues.\<close>

lemma set_loop_inv:
  assumes inv: "tcp_inv sv" and k: "elem (mLoops sv) k = Some l"
    and q: "queue_ok k (heap sv) (issued sv) (mAsyncProcs l) \<Longrightarrow> queue_ok k (heap sv) (issued sv) (mAsyncProcs l')"
  shows "tcp_inv (sv\<lparr>mLoops := put (mLoops sv) k l'\<rparr>)"
proof -
  obtain ls where ls: "mLoops sv = Some ls" "length ls = mLoopNum sv" "queues_ok (heap sv) (issued sv) ls"
    using inv by (auto simp: tcp_inv_def)
  then have "queues_ok (heap sv) (issued sv) (ls[k := l'])"
    using k q by (auto simp: queues_ok_def nth_list_update split: if_split_asm)
  then show ?thesis using inv ls by (auto simp: tcp_inv_def put_def)
qed

lemma post_proc_inv:
  assumes inv: "tcp_inv sv" "tcp_room sv" and f: "proc_ok k (heap sv) (issued sv) f" "fresh_proc sv f" and k: "k < mLoopNum sv"
  shows "\<exists>sv'. post_proc r tid k f sv = Some sv' \<and> tcp_inv sv'"
proof -
  obtain ls where ls: "mLoops sv = Some ls" "length ls = mLoopNum sv" using inv(1) by (auto simp: tcp_inv_def)
  have l: "elem (mLoops sv) k = Some (ls ! k)" using ls k by simp
  have "set (enter_ptrs [f]) \<inter> set (enter_ptrs (mAsyncProcs (ls ! k))) = {}" "distinct (enter_ptrs [f])"
    using f(2) ls k by (simp add: fresh_proc_def, cases f, simp_all)
  then have "tcp_inv (sv\<lparr>mLoops := put (mLoops sv) k (snd (wakeup tid (push_async f (ls ! k))))\<rparr>)"
    by (intro set_loop_inv [OF inv(1) l]) (use f(1) in \<open>auto simp: queue_ok_def push_async_def\<close>)
  then show ?thesis using tcp_exec_inv [OF inv f] l by (simp add: post_proc_def)
qed

text \<open>Without a connection to enter, the ids and the heap stay as they are.\<close>

lemma call_session_same:
  "call_session i c sv = Some sv' \<Longrightarrow>
   mLoops sv' = mLoops sv \<and> mLoopNum sv' = mLoopNum sv \<and> mCachePacketList sv' = mCachePacketList sv \<and>
   mDataSockets sv' = mDataSockets sv \<and> mIncIds sv' = mIncIds sv \<and> session_log sv' = session_log sv \<and> heap sv' = heap sv"
  by (auto simp: call_session_def call_socket_def bind_eq_Some_conv split: option.splits)

lemma send_cached_same:
  "send_cached vs sv = Some sv' \<Longrightarrow>
   mLoops sv' = mLoops sv \<and> mLoopNum sv' = mLoopNum sv \<and> mCachePacketList sv' = mCachePacketList sv \<and>
   mDataSockets sv' = mDataSockets sv \<and> mIncIds sv' = mIncIds sv \<and> session_log sv' = session_log sv \<and> heap sv' = heap sv"
proof (induction vs arbitrary: sv)
  case (Cons v vs)
  then show ?case by (cases v) (auto simp: bind_eq_Some_conv dest: call_session_same)
qed simp


fun enters :: "tcp_proc \<Rightarrow> bool" where
  "enters (EnterLoop p k) \<longleftrightarrow> True"
| "enters f \<longleftrightarrow> False"

lemma post_proc_same:
  assumes "post_proc r tid k f sv = Some sv'" "\<not> enters f"
  shows "mLoopNum sv' = mLoopNum sv \<and> mCachePacketList sv' = mCachePacketList sv \<and>
   mDataSockets sv' = mDataSockets sv \<and> mIncIds sv' = mIncIds sv \<and> session_log sv' = session_log sv \<and> heap sv' = heap sv"
proof -
  have "tcp_exec r f sv = Some sv' \<Longrightarrow> ?thesis"
    using assms(2) by (cases f) (auto dest: call_session_same send_cached_same)
  then show ?thesis using assms(1) by (auto simp: post_proc_def bind_eq_Some_conv split: if_split_asm)
qed

lemma run_procs_total:
  assumes "\<And>x w. x \<in> set xs \<Longrightarrow> P w \<Longrightarrow> \<exists>w'. f x w = Some w' \<and> P w'" "P w"
  shows "\<exists>w'. run_procs f xs w = Some w' \<and> P w'"
  using assms
proof (induction xs arbitrary: w)
  case (Cons x xs)
  then obtain w' where w': "f x w = Some w'" "P w'" by (meson list.set_intros(1))
  then show ?case using Cons.IH [OF _ w'(2)] Cons.prems(1) by auto
qed simp

lemma flush_cache_at_inv:
  assumes inv: "tcp_inv sv" "tcp_room sv" and k: "k < mLoopNum sv"
  shows "\<exists>sv'. flush_cache_at tid k sv = Some sv' \<and> tcp_inv sv' \<and> tcp_room sv' \<and> mLoopNum sv' = mLoopNum sv"
proof -
  obtain cs where cs: "mCachePacketList sv = Some cs" "length cs = mLoopNum sv" "cache_ok (issued sv) cs"
    using inv(1) by (auto simp: tcp_inv_def)
  have "proc_ok k (heap sv) (issued sv) (CachedSends (cs ! k))" using cs k by (simp add: cache_ok_def)
  then obtain sv' where sv': "post_proc Refused tid k (CachedSends (cs ! k)) sv = Some sv'" "tcp_inv sv'"
    using post_proc_inv [OF inv _ _ k] by (fastforce simp: fresh_proc_def)
  have same: "mLoopNum sv' = mLoopNum sv" "mCachePacketList sv' = Some cs" "mDataSockets sv' = mDataSockets sv"
    "mIncIds sv' = mIncIds sv" "session_log sv' = session_log sv"
    using post_proc_same [OF sv'(1)] cs by simp_all
  have "cache_ok (issued sv) (cs[k := []])" using cs(3) set_update_subset_insert [of cs k "[]"] unfolding cache_ok_def by fastforce
  then have "tcp_inv (sv'\<lparr>mCachePacketList := put (mCachePacketList sv') k []\<rparr>)"
    using sv'(2) same by (auto simp: tcp_inv_def put_def)
  then show ?thesis using sv'(1) same inv cs k by (simp add: flush_cache_at_def tcp_room_def)
qed

section \<open>All threads\<close>

text \<open>
  What any thread may call. \<open>Add_Socket\<close> has the results of the calls out of the program as arguments: TLS
  initialisation, the kernel, \<^verbatim>\<open>rand\<close> and \<^verbatim>\<open>new\<close>.
\<close>

datatype tcp_call =
    Call_Send session_id bytes "nat option"
  | Call_CacheSend session_id bytes "nat option"
  | Call_Flush
  | Call_Shutdown session_id
  | Call_DisConnect session_id
  | Call_PingCheckTime session_id int
  | Call_Wakeup session_id
  | Call_WakeupAll
  | Add_Socket bool bool link_result nat bool bool sock_ptr

fun tcp_api :: "int \<Rightarrow> tcp_call \<Rightarrow> tcp_service \<Rightarrow> tcp_service option" where
  "tcp_api tid (Call_Send i packet callback) sv = send tid i packet callback sv"
| "tcp_api tid (Call_CacheSend i packet callback) sv = cacheSend i packet callback sv"
| "tcp_api tid Call_Flush sv = flushCachePackectList tid sv"
| "tcp_api tid (Call_Shutdown i) sv = shutdown tid i sv"
| "tcp_api tid (Call_DisConnect i) sv = disConnect tid i sv"
| "tcp_api tid (Call_PingCheckTime i checktime) sv = setPingCheckTime tid i checktime sv"
| "tcp_api tid (Call_Wakeup i) sv = wakeup_session tid i sv"
| "tcp_api tid Call_WakeupAll sv = wakeupAll tid sv"
| "tcp_api tid (Add_Socket use_openssl ssl_ok r rand isUseSSL force channel) sv =
     map_option snd (addDataSocket use_openssl ssl_ok r rand tid isUseSSL force channel sv)"

text \<open>An id comes from an enter callback; \<^verbatim>\<open>new\<close> returns an address that is not in use.\<close>

fun tcp_legal :: "tcp_service \<Rightarrow> tcp_call \<Rightarrow> bool" where
  "tcp_legal sv (Call_Send i packet callback) \<longleftrightarrow> i \<in> issued sv"
| "tcp_legal sv (Call_CacheSend i packet callback) \<longleftrightarrow> i \<in> issued sv"
| "tcp_legal sv Call_Flush \<longleftrightarrow> True"
| "tcp_legal sv (Call_Shutdown i) \<longleftrightarrow> i \<in> issued sv"
| "tcp_legal sv (Call_DisConnect i) \<longleftrightarrow> i \<in> issued sv"
| "tcp_legal sv (Call_PingCheckTime i checktime) \<longleftrightarrow> i \<in> issued sv"
| "tcp_legal sv (Call_Wakeup i) \<longleftrightarrow> i \<in> issued sv"
| "tcp_legal sv Call_WakeupAll \<longleftrightarrow> True"
| "tcp_legal sv (Add_Socket use_openssl ssl_ok r rand isUseSSL force channel) \<longleftrightarrow> heap sv channel = None"

text \<open>A loop runs the next function object of its queue; \<open>async_procs_fifo\<close> justifies the single queue.\<close>

definition run_next :: "link_result \<Rightarrow> nat \<Rightarrow> tcp_service \<Rightarrow> tcp_service option" where
  "run_next r k sv =
     do {
       l \<leftarrow> elem (mLoops sv) k;
       (case mAsyncProcs l of
          [] \<Rightarrow> None
        | f # fs \<Rightarrow> tcp_exec r f (sv\<lparr>mLoops := put (mLoops sv) k (l\<lparr>mAsyncProcs := fs\<rparr>)\<rparr>))
     }"

text \<open>
  The steps of the service: a call of any thread, a loop thread that starts, the next function object, the end of a
  handshake, and the end of a connection, which \<open>disconnect_is_last\<close> allows once.
\<close>

inductive tcp_step :: "tcp_service \<Rightarrow> tcp_service \<Rightarrow> bool" where
  call_step: "tcp_legal sv c \<Longrightarrow> tcp_api tid c sv = Some sv' \<Longrightarrow> tcp_step sv sv'"
| thread_step:
    "elem (mLoops sv) k = Some l \<Longrightarrow> tcp_step sv (sv\<lparr>mLoops := put (mLoops sv) k (tryInitThreadID tid l)\<rparr>)"
| proc_step: "run_next r k sv = Some sv' \<Longrightarrow> tcp_step sv sv'"
| handshake_step:
    "heap sv p = Some ds \<Longrightarrow> ds_loop ds \<noteq> None \<Longrightarrow> on_channel_enter p sv = Some sv' \<Longrightarrow> tcp_step sv sv'"
| close_step: "heap sv p = Some ds \<Longrightarrow> on_channel_close p sv = Some sv' \<Longrightarrow> tcp_step sv sv'"

inductive tcp_reach :: "tcp_service \<Rightarrow> bool" where
  tcp_start: "n \<le> 65536 \<Longrightarrow> tcp_reach (startWorkerThread n new_tcp_service)"
| tcp_next: "tcp_reach sv \<Longrightarrow> tcp_room sv \<Longrightarrow> tcp_step sv sv' \<Longrightarrow> tcp_reach sv'"


lemma issued_loop: "tcp_inv sv \<Longrightarrow> i \<in> issued sv \<Longrightarrow> loop_of i < mLoopNum sv"
  by (auto simp: tcp_inv_def core_ok_def issued_ok_def)

lemma post_session_inv:
  assumes "tcp_inv sv" "tcp_room sv" "i \<in> issued sv"
  shows "\<exists>sv'. postSessionAsyncProc tid i c sv = Some sv' \<and> tcp_inv sv'"
  using post_proc_inv [OF assms(1,2), of "loop_of i" "SessionCall i c"] issued_loop [OF assms(1,3)] assms(3)
  by (simp add: postSessionAsyncProc_def fresh_proc_def)

lemma wakeup_at_inv:
  assumes "tcp_inv sv" "k < mLoopNum sv"
  shows "\<exists>sv'. wakeup_at tid k sv = Some sv' \<and> tcp_inv sv' \<and> mLoopNum sv' = mLoopNum sv"
proof -
  obtain l where "elem (mLoops sv) k = Some l" using assms by (auto simp: tcp_inv_def)
  then show ?thesis using set_loop_inv [OF assms(1), of k l] by (simp add: wakeup_at_def)
qed

lemma own_loop_less: "own_loop tid sv = Some k \<Longrightarrow> k < mLoopNum sv"
  by (auto simp: own_loop_def find_Some_iff)

lemma helpAddChannel_inv:
  assumes inv: "tcp_inv sv" "tcp_room sv" and h: "heap sv p = Some ds" "ds_loop ds = None" "ds_session ds = None"
    and p: "\<And>l. l \<in> set (the (mLoops sv)) \<Longrightarrow> p \<notin> set (enter_ptrs (mAsyncProcs l))"
  shows "\<exists>b sv'. helpAddChannel r rand tid force p sv = Some (b, sv') \<and> tcp_inv sv' \<and>
    (b \<longleftrightarrow> mLoopNum sv \<noteq> 0 \<and> \<not> (force \<and> own_loop tid sv = None))"
proof -
  let ?k = "if force then own_loop tid sv else Some (rand mod mLoopNum sv)"
  show ?thesis
  proof (cases "mLoopNum sv = 0 \<or> ?k = None")
    case True
    then show ?thesis using inv by (auto simp: helpAddChannel_def split: if_splits)
  next
    case False
    then obtain k where k: "?k = Some k" "k < mLoopNum sv" using own_loop_less [of tid sv] by (auto split: if_split_asm)
    let ?sv = "sv\<lparr>heap := (heap sv)(p \<mapsto> ds\<lparr>ds_enter := Some k\<rparr>)\<rparr>"
    have "tcp_inv ?sv" using set_heap_inv [OF inv(1), of p "Some (ds\<lparr>ds_enter := Some k\<rparr>)"] h p k by simp
    moreover have "tcp_room ?sv" using inv(2) by (simp add: tcp_room_def)
    ultimately obtain sv' where "post_proc r tid k (EnterLoop p k) ?sv = Some sv'" "tcp_inv sv'"
      using post_proc_inv [of ?sv k "EnterLoop p k" r tid] h p k by (auto simp: fresh_proc_def)
    then show ?thesis using False k h by (intro exI [of _ True]) (auto simp: helpAddChannel_def)
  qed
qed

text \<open>
  When a connection cannot be added: its side of TLS was not set up, the service has no loops, or it has to stay in the caller's loop and the
  caller is none. Then the code deletes the connection with its descriptor open.
\<close>

fun add_refused :: "int \<Rightarrow> tcp_service \<Rightarrow> tcp_call \<Rightarrow> bool" where
  "add_refused tid sv (Add_Socket use_openssl ssl_ok r rand isUseSSL force channel) \<longleftrightarrow>
     \<not> (\<not> use_openssl \<and> isUseSSL) \<and>
     (isUseSSL \<and> \<not> ssl_ok \<or> mLoopNum sv = 0 \<or> force \<and> own_loop tid sv = None)"
| "add_refused tid sv _ \<longleftrightarrow> False"

lemma addDataSocket_inv:
  assumes inv: "tcp_inv sv" "tcp_room sv" and h: "heap sv p = None"
  shows "if add_refused tid sv (Add_Socket use_openssl ssl_ok r rand isUseSSL force p)
    then addDataSocket use_openssl ssl_ok r rand tid isUseSSL force p sv = None
    else \<exists>b sv'. addDataSocket use_openssl ssl_ok r rand tid isUseSSL force p sv = Some (b, sv') \<and> tcp_inv sv'"
proof -
  obtain ls where ls: "mLoops sv = Some ls" "queues_ok (heap sv) (issued sv) ls" using inv(1) by (auto simp: tcp_inv_def)
  have p: "p \<notin> set (enter_ptrs (mAsyncProcs l))" if l: "l \<in> set (the (mLoops sv))" for l
  proof -
    obtain k where "k < length ls" "ls ! k = l" using l ls(1) in_set_conv_nth [of l ls] by auto
    then show ?thesis using not_queued [OF ls(2), of p k] h by auto
  qed
  let ?sv = "sv\<lparr>heap := (heap sv)(p \<mapsto> new_socket)\<rparr>"
  have sv1: "tcp_inv ?sv" by (rule set_heap_inv [OF inv(1)]) (use h p in \<open>auto simp: new_socket_def\<close>)
  have sv2: "tcp_room ?sv" using inv(2) by (simp add: tcp_room_def)
  have own: "own_loop tid ?sv = own_loop tid sv" by (simp add: own_loop_def)
  obtain b sv' where sv': "helpAddChannel r rand tid force p ?sv = Some (b, sv')" "tcp_inv sv'"
    "b \<longleftrightarrow> mLoopNum sv \<noteq> 0 \<and> \<not> (force \<and> own_loop tid sv = None)"
    using helpAddChannel_inv [OF sv1 sv2, of p new_socket r rand tid force] p own by (auto simp: new_socket_def)
  show ?thesis
  proof (cases "isUseSSL \<and> (\<not> use_openssl \<or> \<not> ssl_ok)")
    case True
    then show ?thesis using inv(1) by (auto simp: addDataSocket_def Let_def)
  next
    case False
    then show ?thesis using sv' by (cases b) (auto simp: addDataSocket_def Let_def)
  qed
qed

lemma tcp_api_inv:
  assumes inv: "tcp_inv sv" "tcp_room sv" and legal: "tcp_legal sv c"
  shows "if add_refused tid sv c then tcp_api tid c sv = None else \<exists>sv'. tcp_api tid c sv = Some sv' \<and> tcp_inv sv'"
proof (cases c)
  case (Call_Send i packet callback)
  then have i: "i \<in> issued sv" "loop_of i < mLoopNum sv" using legal issued_loop [OF inv(1)] by simp_all
  then obtain l where "elem (mLoops sv) (loop_of i) = Some l" using inv(1) by (auto simp: tcp_inv_def)
  then show ?thesis
    using Call_Send i call_session_inv [OF inv(1) i(1), of "Send packet callback"]
      post_proc_inv [OF inv, of "loop_of i" "SessionSend i packet callback"]
    by (auto simp: send_def fresh_proc_def)
next
  case (Call_CacheSend i packet callback)
  then have i: "i \<in> issued sv" "loop_of i < mLoopNum sv" using legal issued_loop [OF inv(1)] by simp_all
  obtain cs where cs: "mCachePacketList sv = Some cs" "length cs = mLoopNum sv" "cache_ok (issued sv) cs"
    using inv(1) by (auto simp: tcp_inv_def)
  have "cache_ok (issued sv) (cs[loop_of i := cs ! loop_of i @ [(i, packet, callback)]])"
    using cs i unfolding cache_ok_def
    by (intro ballI, elim set_update_subset_insert [THEN subsetD, THEN insertE]) (auto simp: nth_mem)
  then have "tcp_inv (sv\<lparr>mCachePacketList := put (mCachePacketList sv) (loop_of i) (cs ! loop_of i @ [(i, packet, callback)])\<rparr>)"
    using inv(1) cs by (auto simp: tcp_inv_def put_def)
  then show ?thesis using Call_CacheSend i cs by (simp add: cacheSend_def)
next
  case Call_Flush
  have "\<exists>sv'. run_procs (flush_cache_at tid) [0..<mLoopNum sv] sv = Some sv' \<and>
      tcp_inv sv' \<and> tcp_room sv' \<and> mLoopNum sv' = mLoopNum sv"
  proof (rule run_procs_total, goal_cases)
    case (1 k w)
    then show ?case using flush_cache_at_inv [of w k tid] by simp
  qed (use inv in simp)
  then show ?thesis using Call_Flush by (auto simp: flushCachePackectList_def)
next
  case Call_WakeupAll
  have "\<exists>sv'. run_procs (wakeup_at tid) [0..<mLoopNum sv] sv = Some sv' \<and> tcp_inv sv' \<and> mLoopNum sv' = mLoopNum sv"
  proof (rule run_procs_total, goal_cases)
    case (1 k w)
    then show ?case using wakeup_at_inv [of w k tid] by simp
  qed (use inv in simp)
  then show ?thesis using Call_WakeupAll by (auto simp: wakeupAll_def)
next
  case (Call_Wakeup i)
  then show ?thesis using wakeup_at_inv [OF inv(1)] issued_loop [OF inv(1)] legal by (fastforce simp: wakeup_session_def)
next
  case (Add_Socket use_openssl ssl_ok r rand isUseSSL force p)
  then show ?thesis using addDataSocket_inv [OF inv, of p tid use_openssl ssl_ok r rand isUseSSL force] legal
    by (auto split: if_splits)
qed (use post_session_inv [OF inv] legal in \<open>auto simp: shutdown_def disConnect_def setPingCheckTime_def\<close>)

text \<open>The queues only enter connections that have not entered.\<close>

lemma queued_fresh:
  assumes inv: "tcp_inv sv" and l: "elem (mLoops sv) k = Some l" "mAsyncProcs l = f # fs"
  defines "sv1 \<equiv> sv\<lparr>mLoops := put (mLoops sv) k (l\<lparr>mAsyncProcs := fs\<rparr>)\<rparr>"
  shows "tcp_inv sv1" "fresh_proc sv1 f" "f = EnterLoop p k' \<Longrightarrow> \<exists>ds. heap sv p = Some ds \<and> ds_enter ds = Some k'"
    and "proc_ok k (heap sv1) (issued sv1) f"
proof -
  obtain ls where ls: "mLoops sv = Some ls" "queues_ok (heap sv) (issued sv) ls" "k < length ls" "ls ! k = l"
    using inv l(1) by (auto simp: tcp_inv_def split: if_split_asm)
  have qok: "queue_ok k' (heap sv) (issued sv) (mAsyncProcs (ls ! k'))" if "k' < length ls" for k'
    using ls(2) that by (simp add: queues_ok_def)
  have f: "distinct (enter_ptrs fs)" "set (enter_ptrs [f]) \<inter> set (enter_ptrs fs) = {}" "proc_ok k (heap sv) (issued sv) f"
    "\<forall>f \<in> set fs. proc_ok k (heap sv) (issued sv) f"
    using qok [OF ls(3)] ls(4) l(2) by (cases f; auto simp: queue_ok_def)+
  show "tcp_inv sv1" unfolding sv1_def by (rule set_loop_inv [OF inv l(1)]) (simp add: queue_ok_def f)
  show "f = EnterLoop p k' \<Longrightarrow> \<exists>ds. heap sv p = Some ds \<and> ds_enter ds = Some k'" using f(3) by auto
  show "proc_ok k (heap sv1) (issued sv1) f" using f(3) by (simp add: sv1_def)
  show "fresh_proc sv1 f"
    unfolding fresh_proc_def
  proof
    fix l' assume "l' \<in> set (the (mLoops sv1))"
    then obtain k' where k': "k' < length ls" "l' = ls[k := l\<lparr>mAsyncProcs := fs\<rparr>] ! k'"
      using ls(1) by (auto simp: put_def in_set_conv_nth sv1_def)
    show "set (enter_ptrs [f]) \<inter> set (enter_ptrs (mAsyncProcs l')) = {}"
    proof (cases "k' = k")
      case True
      then show ?thesis using k' f(2) by simp
    next
      case False
      have "proc_ok k' (heap sv) (issued sv) g" if "g \<in> set (mAsyncProcs l')" for g
        using qok [OF k'(1)] k' False that by (simp add: queue_ok_def)
      then show ?thesis using f(3) False by (cases f) (fastforce simp: in_enter_ptrs)+
    qed
  qed
qed


lemma run_next_inv:
  assumes inv: "tcp_inv sv" "tcp_room sv" and l: "elem (mLoops sv) k = Some l" "mAsyncProcs l \<noteq> []"
  shows "\<exists>sv'. run_next r k sv = Some sv' \<and> tcp_inv sv'"
proof -
  obtain f fs where q: "mAsyncProcs l = f # fs" using l(2) by (cases "mAsyncProcs l") auto
  let ?sv = "sv\<lparr>mLoops := put (mLoops sv) k (l\<lparr>mAsyncProcs := fs\<rparr>)\<rparr>"
  note n = queued_fresh [OF inv(1) l(1) q]
  have "tcp_room ?sv" using inv(2) by (simp add: tcp_room_def)
  then show ?thesis using tcp_exec_inv [OF n(1) _ n(4) n(2), of r] l(1) q by (simp add: run_next_def)
qed

lemma queue_ok_nil [simp]: "queue_ok k h E []"
  by (simp add: queue_ok_def)

lemma tcp_start_inv:
  assumes "n \<le> 65536"
  shows "tcp_inv (startWorkerThread n new_tcp_service)"
proof -
  have "ids_wf (new_type_ids :: sock_ptr type_ids)" by (rule new_type_ids_wf)
  then have "core_ok n (replicate n new_type_ids) (replicate n 0) (\<lambda>_. None) []"
    using assms by (simp add: core_ok_def tables_ok_def named_ok_def slots_ok_def heap_ok_def issued_ok_def new_type_ids_def)
  moreover have "queues_ok (\<lambda>_. None) {} (replicate n new_event_loop)" by (simp add: queues_ok_def new_event_loop_def)
  ultimately show ?thesis by (simp add: tcp_inv_def startWorkerThread_def new_tcp_service_def cache_ok_def)
qed

lemma tcp_step_inv:
  assumes "tcp_step sv sv'" "tcp_inv sv" "tcp_room sv"
  shows "tcp_inv sv'"
  using assms
proof (induction rule: tcp_step.induct)
  case (call_step sv c tid sv')
  then show ?case using tcp_api_inv [of sv c tid] by (auto split: if_split_asm)
next
  case (thread_step sv k l tid)
  then show ?case using set_loop_inv [of sv k l "tryInitThreadID tid l"] by (simp add: tryInitThreadID_def)
next
  case (proc_step r k sv sv')
  then obtain l where "elem (mLoops sv) k = Some l" "mAsyncProcs l \<noteq> []"
    by (cases "elem (mLoops sv) k") (auto simp: run_next_def split: list.splits)
  then show ?case using run_next_inv [of sv k l r] proc_step by auto
next
  case (handshake_step sv p ds sv')
  then show ?case using on_channel_enter_inv [of sv p ds] by auto
next
  case (close_step sv p ds sv')
  then show ?case using on_channel_close_inv [of sv p ds] by auto
qed

lemma tcp_reach_inv: "tcp_reach sv \<Longrightarrow> tcp_inv sv"
  by (induction rule: tcp_reach.induct) (auto intro: tcp_start_inv tcp_step_inv)

end
