(* ===== verification/Tcp_Session_Props.thy ===== *)
theory Tcp_Session_Props
  imports Tcp_Sessions
begin

text \<open>The properties of the TCP service: ids and lookups, safety of every step, cached sends, and its two limits.\<close>

section \<open>A run\<close>

text \<open>One loop whose thread is 7, which adds the connection at address 5; the kernel links it.\<close>

definition sample_service :: tcp_service where
  "sample_service =
     (let sv = startWorkerThread 1 new_tcp_service
      in sv\<lparr>mLoops := put (mLoops sv) 0 (tryInitThreadID 7 new_event_loop)\<rparr>)"

definition sample_id :: session_id where
  "sample_id = sid_id \<lparr>sid_loopIndex = 0, sid_index = 99, sid_iid = 0\<rparr>"

definition sample_entered :: tcp_service where
  "sample_entered = the (tcp_api 7 (Add_Socket False True Linked_Plain 0 False False 5) sample_service)"

lemma room_start: "tcp_room (startWorkerThread n new_tcp_service)" "tcp_room sample_service"
  by (auto simp: new_type_ids_wf tcp_room_def startWorkerThread_def new_tcp_service_def sample_service_def put_def int_ok_def)

lemma sample_reach: "tcp_reach sample_service"
proof -
  let ?sv = "startWorkerThread 1 new_tcp_service"
  have "elem (mLoops ?sv) 0 = Some new_event_loop" by (simp add: startWorkerThread_def new_tcp_service_def)
  then have "tcp_step ?sv sample_service"
    using thread_step [of ?sv 0 new_event_loop 7] by (simp add: sample_service_def Let_def)
  moreover have "tcp_reach ?sv" by (rule tcp_start) simp
  ultimately show ?thesis using tcp_next room_start(1) by blast
qed

lemma sample_add:
  "tcp_api 7 (Add_Socket False True Linked_Plain 0 False False 5) sample_service = Some sample_entered"
  "session_log sample_entered = [SessionEnter sample_id 5]"
proof -
  have claim: "claimID (new_type_ids :: sock_ptr type_ids) = (99, \<lparr>mValues = replicate 100 None, mIds = [0..<99]\<rparr>)"
    by (simp add: claimID_def new_type_ids_def ids_increase_def ids_NUM_def butlast_conv_take take_map map_idI del: upt_rec_numeral)
  have "\<exists>sv. tcp_api 7 (Add_Socket False True Linked_Plain 0 False False 5) sample_service = Some sv \<and>
      session_log sv = [SessionEnter sample_id 5]"
    using claim
    by (simp add: sample_service_def startWorkerThread_def new_tcp_service_def addDataSocket_def helpAddChannel_def
        post_proc_def tryInitThreadID_def new_event_loop_def event_loop.defs isInLoopThread_def put_def enter_event_loop_def
        new_socket_def on_channel_enter_def MakeID_def int_ok_def set_socket_def ids_set_def Let_def sample_id_def
        del: upt_rec_numeral)
  then show "tcp_api 7 (Add_Socket False True Linked_Plain 0 False False 5) sample_service = Some sample_entered"
    "session_log sample_entered = [SessionEnter sample_id 5]"
    by (auto simp: sample_entered_def)
qed

lemma sample_entered_reach: "tcp_reach sample_entered"
proof -
  have "tcp_legal sample_service (Add_Socket False True Linked_Plain 0 False False 5)"
    by (simp add: sample_service_def startWorkerThread_def new_tcp_service_def)
  then show ?thesis using tcp_next [OF sample_reach room_start(2)] call_step sample_add(1) by blast
qed

section \<open>Properties\<close>





text \<open>
  A batch of cached packets is sent in order: the function object that \<^verbatim>\<open>flushCachePackectList\<close> posts calls
  send on exactly the connections whose sessions still exist when it runs, in the order of the cache.
\<close>

theorem cached_sends_exact:
  assumes "tcp_reach sv" "fst ` set vs \<subseteq> set (entered (session_log sv))"
  shows "tcp_exec r (CachedSends vs) sv =
    Some (sv\<lparr>sock_calls := sock_calls sv @
      concat (map (\<lambda>(i, packet, callback). case session_of (session_log sv) i of None \<Rightarrow> [] | Some p \<Rightarrow> [(p, Send packet callback)]) vs)\<rparr>)"
proof -
  have "tcp_inv sv" by (rule tcp_reach_inv [OF assms(1)])
  then have "send_cached vs sv =
    Some (sv\<lparr>sock_calls := sock_calls sv @
      concat (map (\<lambda>(i, packet, callback). case session_of (session_log sv) i of None \<Rightarrow> [] | Some p \<Rightarrow> [(p, Send packet callback)]) vs)\<rparr>)"
    using assms(2)
  proof (induction vs arbitrary: sv)
    case (Cons v vs)
    obtain i packet callback where v: "v = (i, packet, callback)" by (cases v)
    have "call_session i (Send packet callback) sv =
        Some (case session_of (session_log sv) i of None \<Rightarrow> sv | Some p \<Rightarrow> call_socket p (Send packet callback) sv)"
      using call_session_exact Cons.prems v by simp
    then show ?case
      using Cons.IH [of sv] Cons.IH [of "call_socket p (Send packet callback) sv" for p] Cons.prems v
        call_socket_inv(1) [of p "Send packet callback" sv for p]
      by (cases "session_of (session_log sv) i") (auto simp: call_socket_def)
  qed simp
  then show ?thesis by simp
qed

theorem cached_sends_exact_witness:
  "map_option sock_calls (tcp_exec Refused (CachedSends [(sample_id, ''a'', None), (sample_id, ''b'', Some 1)]) sample_entered) =
     Some (sock_calls sample_entered @ [(5, Send ''a'' None), (5, Send ''b'' (Some 1))])"
  using cached_sends_exact [OF sample_entered_reach, of "[(sample_id, ''a'', None), (sample_id, ''b'', Some 1)]" Refused]
  by (simp add: sample_add(2) session_of_def entered_def del: tcp_exec.simps)

text \<open>
  The eight bytes of a session id hold its three parts: taking an id apart and putting it together again are
  inverse to each other.
\<close>

theorem session_id_roundtrip: "sid_data (sid_id d) = d \<and> sid_id (sid_data i) = i"
  by simp

text \<open>
  The index in a session id has sixteen bits, but the table grows beyond them: with 65500 connections in a
  loop, fewer than the 65536 the header promises, the next connection gets an id with the index 63, which is in use, and takes its slot.
\<close>

theorem full_table_collides:
  assumes "elem (mDataSockets sv) k = Some t" "elem (mIncIds sv) k = Some n" "int_ok (n + 1)"
    and "mIds t = []" "length (mValues t) = 65500"
  shows "\<exists>i sv'. MakeID k sv = Some (i, sv') \<and> slot_of i = 63 \<and> 63 \<in> ids_used t"
proof -
  have "fst (claimID t) = 65599" using assms(4,5) by (simp add: claimID_def ids_increase_def ids_NUM_def Let_def del: upt_rec_numeral)
  then obtain t' where t': "claimID t = (65599, t')" by (cases "claimID t") auto
  have "unat (of_nat 65599 :: uint16_t) = 63" by simp
  then show ?thesis using assms t' by (simp add: MakeID_def ids_used_def)
qed

theorem full_table_collides_witness:
  "\<exists>i sv'. MakeID 0 (new_tcp_service\<lparr>mDataSockets := Some [\<lparr>mValues = replicate 65500 (Some 1), mIds = []\<rparr>], mIncIds := Some [70000]\<rparr>) = Some (i, sv') \<and>
     slot_of i = 63 \<and> 63 \<in> ids_used \<lparr>mValues = replicate 65500 (Some (1 :: nat)), mIds = []\<rparr>"
proof (rule full_table_collides)
  show "int_ok (70000 + 1)" by (simp add: int_ok_def)
qed simp_all

text \<open>
  \<^verbatim>\<open>closeWorkerThread\<close> frees the loops and leaves \<^verbatim>\<open>mLoopNum\<close> as it was, so that a send with a session id of
  the closed service passes the bound check and follows a null pointer.
\<close>

theorem closed_service_null:
  assumes "closeWorkerThread tid sv = Some sv'" "loop_of i < mLoopNum sv"
  shows "send tid' i packet callback sv' = None"
proof -
  have "run_procs (wakeup_at tid) ks w = Some w' \<Longrightarrow> mLoopNum w' = mLoopNum w" for ks w w'
    by (induction ks arbitrary: w) (auto simp: wakeup_at_def bind_eq_Some_conv split: option.splits)
  then have "mLoops sv' = None \<and> mLoopNum sv' = mLoopNum sv"
    using assms(1) by (fastforce simp: closeWorkerThread_def stopWorkerThread_def bind_eq_Some_conv split: if_split_asm)
  then show ?thesis using assms(2) by (simp add: send_def elem_def)
qed

theorem closed_service_null_witness:
  "\<exists>sv. closeWorkerThread 9 sample_service = Some sv \<and> send 9 sample_id ''a'' None sv = None"
proof -
  have "\<exists>sv. closeWorkerThread 9 sample_service = Some sv"
    by (simp add: closeWorkerThread_def stopWorkerThread_def sample_service_def startWorkerThread_def new_tcp_service_def
        put_def wakeup_at_def)
  then obtain sv where sv: "closeWorkerThread 9 sample_service = Some sv" by blast
  have "loop_of sample_id < mLoopNum sample_service"
    by (simp add: sample_id_def sample_service_def startWorkerThread_def new_tcp_service_def)
  then show ?thesis using closed_service_null [OF sv] sv by blast
qed

end
