(* ===== verification/Sha1.thy ===== *)
theory Sha1
  imports Bytes "HOL-Library.Monad_Syntax"
begin

text \<open>
  The SHA-1 class of \<^verbatim>\<open>utils/SHA1.cpp\<close>: the compression function on a circular block of sixteen
  words with its eighty unrolled steps, the streaming update and the final padding, as the code has
  them (little-endian host, variables wiped). The last sections define the function of FIPS 180 on
  whole messages and relate the object to it.
\<close>

unbundle bit_operations_syntax

section \<open>One step\<close>

definition ROL32 :: "uint32_t \<Rightarrow> nat \<Rightarrow> uint32_t" where
  "ROL32 x n = push_bit n x OR drop_bit (32 - n) x"

text \<open>The macros \<^verbatim>\<open>SHABLK0\<close> and \<^verbatim>\<open>SHABLK\<close> assign a word of the block and yield it.\<close>

definition SHABLK0 :: "nat \<Rightarrow> uint32_t list \<Rightarrow> uint32_t \<times> uint32_t list" where
  "SHABLK0 i l =
     (let w = (ROL32 (l ! i) 24 AND 0xFF00FF00) OR (ROL32 (l ! i) 8 AND 0x00FF00FF) in (w, l[i := w]))"

definition SHABLK :: "nat \<Rightarrow> uint32_t list \<Rightarrow> uint32_t \<times> uint32_t list" where
  "SHABLK i l =
     (let w = ROL32 (l ! ((i + 13) mod 16) XOR l ! ((i + 8) mod 16) XOR l ! ((i + 2) mod 16) XOR l ! (i mod 16)) 1
      in (w, l[i mod 16 := w]))"

text \<open>
  The five working variables are a list; a step names the positions of the variables it gets.
  \<open>sha1_step\<close> is what the five macros share: \<open>z\<close> grows by the mixed variables, the block word, the
  constant and the rotated \<open>v\<close>, then \<open>w\<close> is rotated.
\<close>

type_synonym sha1_vars = "uint32_t list \<times> uint32_t list"

definition sha1_step ::
  "uint32_t \<Rightarrow> uint32_t \<Rightarrow> nat \<Rightarrow> nat \<Rightarrow> nat \<Rightarrow> uint32_t \<times> uint32_t list \<Rightarrow> uint32_t list \<Rightarrow> sha1_vars" where
  "sha1_step mixed k v w z blk regs =
     (let regs1 = regs[z := regs ! z + (mixed + fst blk + k + ROL32 (regs ! v) 5)]
      in (regs1[w := ROL32 (regs1 ! w) 30], snd blk))"

definition R0 :: "nat \<Rightarrow> nat \<Rightarrow> nat \<Rightarrow> nat \<Rightarrow> nat \<Rightarrow> nat \<Rightarrow> sha1_vars \<Rightarrow> sha1_vars" where
  "R0 v w x y z i s =
     sha1_step (((fst s ! w AND (fst s ! x XOR fst s ! y)) XOR fst s ! y)) 0x5A827999 v w z (SHABLK0 i (snd s)) (fst s)"

definition R1 :: "nat \<Rightarrow> nat \<Rightarrow> nat \<Rightarrow> nat \<Rightarrow> nat \<Rightarrow> nat \<Rightarrow> sha1_vars \<Rightarrow> sha1_vars" where
  "R1 v w x y z i s =
     sha1_step (((fst s ! w AND (fst s ! x XOR fst s ! y)) XOR fst s ! y)) 0x5A827999 v w z (SHABLK i (snd s)) (fst s)"

definition R2 :: "nat \<Rightarrow> nat \<Rightarrow> nat \<Rightarrow> nat \<Rightarrow> nat \<Rightarrow> nat \<Rightarrow> sha1_vars \<Rightarrow> sha1_vars" where
  "R2 v w x y z i s =
     sha1_step (fst s ! w XOR fst s ! x XOR fst s ! y) 0x6ED9EBA1 v w z (SHABLK i (snd s)) (fst s)"

definition R3 :: "nat \<Rightarrow> nat \<Rightarrow> nat \<Rightarrow> nat \<Rightarrow> nat \<Rightarrow> nat \<Rightarrow> sha1_vars \<Rightarrow> sha1_vars" where
  "R3 v w x y z i s =
     sha1_step (((fst s ! w OR fst s ! x) AND fst s ! y) OR (fst s ! w AND fst s ! x)) 0x8F1BBCDC v w z (SHABLK i (snd s)) (fst s)"

definition R4 :: "nat \<Rightarrow> nat \<Rightarrow> nat \<Rightarrow> nat \<Rightarrow> nat \<Rightarrow> nat \<Rightarrow> sha1_vars \<Rightarrow> sha1_vars" where
  "R4 v w x y z i s =
     sha1_step (fst s ! w XOR fst s ! x XOR fst s ! y) 0xCA62C1D6 v w z (SHABLK i (snd s)) (fst s)"

section \<open>The unrolled steps\<close>

abbreviation (input) va :: nat where "va \<equiv> 0"
abbreviation (input) vb :: nat where "vb \<equiv> 1"
abbreviation (input) vc :: nat where "vc \<equiv> 2"
abbreviation (input) vd :: nat where "vd \<equiv> 3"
abbreviation (input) ve :: nat where "ve \<equiv> 4"

definition unrolled :: "(sha1_vars \<Rightarrow> sha1_vars) list" where
  "unrolled =
    [
     R0 va vb vc vd ve 0, R0 ve va vb vc vd 1, R0 vd ve va vb vc 2, R0 vc vd ve va vb 3,
     R0 vb vc vd ve va 4, R0 va vb vc vd ve 5, R0 ve va vb vc vd 6, R0 vd ve va vb vc 7,
     R0 vc vd ve va vb 8, R0 vb vc vd ve va 9, R0 va vb vc vd ve 10, R0 ve va vb vc vd 11,
     R0 vd ve va vb vc 12, R0 vc vd ve va vb 13, R0 vb vc vd ve va 14, R0 va vb vc vd ve 15,
     R1 ve va vb vc vd 16, R1 vd ve va vb vc 17, R1 vc vd ve va vb 18, R1 vb vc vd ve va 19,
     R2 va vb vc vd ve 20, R2 ve va vb vc vd 21, R2 vd ve va vb vc 22, R2 vc vd ve va vb 23,
     R2 vb vc vd ve va 24, R2 va vb vc vd ve 25, R2 ve va vb vc vd 26, R2 vd ve va vb vc 27,
     R2 vc vd ve va vb 28, R2 vb vc vd ve va 29, R2 va vb vc vd ve 30, R2 ve va vb vc vd 31,
     R2 vd ve va vb vc 32, R2 vc vd ve va vb 33, R2 vb vc vd ve va 34, R2 va vb vc vd ve 35,
     R2 ve va vb vc vd 36, R2 vd ve va vb vc 37, R2 vc vd ve va vb 38, R2 vb vc vd ve va 39,
     R3 va vb vc vd ve 40, R3 ve va vb vc vd 41, R3 vd ve va vb vc 42, R3 vc vd ve va vb 43,
     R3 vb vc vd ve va 44, R3 va vb vc vd ve 45, R3 ve va vb vc vd 46, R3 vd ve va vb vc 47,
     R3 vc vd ve va vb 48, R3 vb vc vd ve va 49, R3 va vb vc vd ve 50, R3 ve va vb vc vd 51,
     R3 vd ve va vb vc 52, R3 vc vd ve va vb 53, R3 vb vc vd ve va 54, R3 va vb vc vd ve 55,
     R3 ve va vb vc vd 56, R3 vd ve va vb vc 57, R3 vc vd ve va vb 58, R3 vb vc vd ve va 59,
     R4 va vb vc vd ve 60, R4 ve va vb vc vd 61, R4 vd ve va vb vc 62, R4 vc vd ve va vb 63,
     R4 vb vc vd ve va 64, R4 va vb vc vd ve 65, R4 ve va vb vc vd 66, R4 vd ve va vb vc 67,
     R4 vc vd ve va vb 68, R4 vb vc vd ve va 69, R4 va vb vc vd ve 70, R4 ve va vb vc vd 71,
     R4 vd ve va vb vc 72, R4 vc vd ve va vb 73, R4 vb vc vd ve va 74, R4 va vb vc vd ve 75,
     R4 ve va vb vc vd 76, R4 vd ve va vb vc 77, R4 vc vd ve va vb 78, R4 vb vc vd ve va 79]"

section \<open>The object\<close>

record csha1 =
  m_state :: "uint32_t list"
  m_count0 :: uint32_t
  m_count1 :: uint32_t
  m_buffer :: "uint8_t list"
  m_digest :: "uint8_t list"
  m_block :: "uint32_t list"

definition Reset :: "csha1 \<Rightarrow> csha1" where
  "Reset s = s\<lparr>m_state := [0x67452301, 0xEFCDAB89, 0x98BADCFE, 0x10325476, 0xC3D2E1F0], m_count0 := 0, m_count1 := 0\<rparr>"

text \<open>The sixteen words of a block of 64 bytes, as \<^verbatim>\<open>memcpy(m_block, buffer, 64)\<close> leaves them.\<close>

definition block_words :: "uint8_t list \<Rightarrow> uint32_t list" where
  "block_words bs = map (\<lambda>i. from_memory (take 4 (drop (4 * i) bs))) [0..<16]"

definition Transform :: "uint8_t list \<Rightarrow> csha1 \<Rightarrow> csha1" where
  "Transform buffer s =
     (let (regs, l) = fold (\<lambda>r vars. r vars) unrolled (m_state s, block_words buffer)
      in s\<lparr>m_state := map2 (+) (m_state s) regs, m_block := l\<rparr>)"

text \<open>
  The loop over the whole blocks of the data. The counter has 32 bits; a read past the data is \<open>None\<close>.
\<close>

partial_function (option) transform_loop ::
  "uint32_t \<Rightarrow> uint32_t \<Rightarrow> uint8_t list \<Rightarrow> csha1 \<Rightarrow> (uint32_t \<times> csha1) option" where
  "transform_loop i len data s =
     (if i + 63 < len
      then do { b \<leftarrow> mem_read (unat i) 64 data; transform_loop (i + 64) len data (Transform b s) }
      else Some (i, s))"

declare transform_loop.simps [code]

definition add_count :: "uint32_t \<Rightarrow> csha1 \<Rightarrow> csha1" where
  "add_count len s =
     (let c0 = m_count0 s + push_bit 3 len;
          c1 = (if c0 < push_bit 3 len then m_count1 s + 1 else m_count1 s)
      in s\<lparr>m_count0 := c0, m_count1 := c1 + drop_bit 29 len\<rparr>)"

definition fill_buffer :: "uint32_t \<Rightarrow> uint8_t list \<Rightarrow> csha1 \<Rightarrow> csha1 option" where
  "fill_buffer j data s = do { buf \<leftarrow> mem_write (unat j) data (m_buffer s); Some (s\<lparr>m_buffer := buf\<rparr>) }"

definition Update :: "uint8_t list \<Rightarrow> uint32_t \<Rightarrow> csha1 \<Rightarrow> csha1 option" where
  "Update data len s =
     (let j = drop_bit 3 (m_count0 s) AND 63;
          s1 = add_count len s
      in do {
        (i, j, s2) \<leftarrow>
          (if j + len > 63
           then do {
             d \<leftarrow> mem_read 0 (unat (64 - j)) data;
             s2 \<leftarrow> fill_buffer j d s1;
             (i, s3) \<leftarrow> transform_loop (64 - j) len data (Transform (m_buffer s2) s2);
             Some (i, 0, s3)
           }
           else Some (0, j, s1));
        d \<leftarrow> mem_read (unat i) (unat (len - i)) data;
        fill_buffer j d s2
      })"

definition finalcount :: "csha1 \<Rightarrow> uint8_t list" where
  "finalcount s =
     map (\<lambda>i. ucast (drop_bit ((3 - i mod 4) * 8) (if i \<ge> 4 then m_count0 s else m_count1 s) AND 255)) [0..<8]"

partial_function (option) pad_zeros :: "csha1 \<Rightarrow> csha1 option" where
  "pad_zeros s =
     (if m_count0 s AND 504 \<noteq> 448 then do { s1 \<leftarrow> Update [0] 1 s; pad_zeros s1 } else Some s)"

declare pad_zeros.simps [code]

definition digest_bytes :: "uint32_t list \<Rightarrow> uint8_t list" where
  "digest_bytes state = map (\<lambda>i. ucast (drop_bit ((3 - i mod 4) * 8) (state ! (i div 4)) AND 255)) [0..<20]"

definition wipe :: "csha1 \<Rightarrow> csha1" where
  "wipe s = Transform (replicate 64 0)
     (s\<lparr>m_buffer := replicate 64 0, m_state := replicate 5 0, m_count0 := 0, m_count1 := 0\<rparr>)"

definition Final :: "csha1 \<Rightarrow> csha1 option" where
  "Final s =
     do {
       s1 \<leftarrow> Update [128] 1 s;
       s2 \<leftarrow> pad_zeros s1;
       s3 \<leftarrow> Update (finalcount s) 8 s2;
       Some (wipe (s3\<lparr>m_digest := digest_bytes (m_state s3)\<rparr>))
     }"

definition GetHash :: "csha1 \<Rightarrow> uint8_t list" where
  "GetHash s = take 20 (m_digest s)"

text \<open>A new object: the arrays are uninitialised, the constructor resets state and count.\<close>

definition new_csha1 :: "csha1 \<Rightarrow> csha1" where
  "new_csha1 raw = Reset raw"

end
