(* ===== verification/Http_Server.thy ===== *)
theory Http_Server
  imports Ws_Frame Base64 Sha1 Http_Complete
begin

text \<open>
  The connection handler of \<^verbatim>\<open>src/net/http/HttpServer.cpp\<close>: the data callback that \<^verbatim>\<open>handleHttp\<close> installs, with the
  loop over WebSocket frames and the branch for requests, and the handshake of \<^verbatim>\<open>WebSocketFormat.h\<close>. The
  calls of the user's callbacks and the bytes sent are the list \<open>http_out\<close>. The result of the data callback is the number
  of bytes it consumed; the connection keeps the others. \<open>None\<close> is a failed assertion.
\<close>

section \<open>State\<close>

datatype http_output =
    WsMessage uint8_t "uint8_t list"
  | HttpMessage HTTPParser
  | WsConnected HTTPParser
  | SendBytes string

text \<open>
  The object that the user data of the session points to, and the callbacks of the \<^verbatim>\<open>HttpSession\<close> (\<open>True\<close> when set).
\<close>

record http_conn =
  conn_parser :: "HTTPParser http_parser"
  mWSCacheFrame :: "uint8_t list"
  mParsePayload :: "uint8_t list"
  mHttpRequestCallback :: bool
  mWSCallback :: bool
  mWSConnectedCallback :: bool
  http_out :: "http_output list"

definition http_log :: "http_output \<Rightarrow> http_conn \<Rightarrow> http_conn" where
  "http_log e c = c\<lparr>http_out := http_out c @ [e]\<rparr>"

section \<open>Extraction of a prefix\<close>

lemma mem_read_append: "mem_read i n m = Some x \<Longrightarrow> mem_read i n (m @ r) = Some x"
  by (auto simp: mem_read_def split: if_split_asm)

lemma buffer_at_append: "buffer_at m i = Some x \<Longrightarrow> buffer_at (m @ r) i = Some x"
  by (auto simp: buffer_at_def nth_append split: if_split_asm)

lemma ws_length_append:
  assumes "ws_length buf b1 = Some (Some r)"
  shows "ws_length (buf @ rest) b1 = Some (Some r)"
  using assms
  by (auto simp: ws_length_def Let_def buffer_at_append mem_read_append split: if_split_asm option.splits)

lemma ws_payload_at_append:
  assumes "ws_payload_at buf m l p out = Some (True, out')"
  shows "ws_payload_at (buf @ rest) m l p out = Some (True, out')"
  using assms
  by (auto simp: ws_payload_at_def Let_def mem_read_append split: if_split_asm option.splits)

text \<open>More bytes after a frame do not change what is extracted.\<close>

lemma ws_extract_append:
  assumes "wsFrameExtractBuffer buf out = Some (True, out')"
  shows "wsFrameExtractBuffer (buf @ rest) out = Some (True, out')"
  using assms
  by (auto simp: wsFrameExtractBuffer_def Let_def buffer_at_append ws_length_append ws_payload_at_append
      split: if_split_asm option.splits)

text \<open>An accepted frame has at least two bytes.\<close>

lemma ws_extract_size:
  assumes "wsFrameExtractBuffer buf out = Some (True, out')"
  shows "0 < unat (frameSize out')" "unat (frameSize out') \<le> length buf"
proof -
  show "unat (frameSize out') \<le> length buf" using ws_extract_inside [of buf out] assms by auto
  have "frameSize out' \<noteq> 0"
  proof
    assume z: "frameSize out' = 0"
    have "\<not> length buf < 2" using assms by (auto simp: wsFrameExtractBuffer_def)
    then have "2 \<le> length buf" by simp
    then consider "ws_length buf (buf ! 1) = Some None"
      | l p where "ws_length buf (buf ! 1) = Some (Some (l, p))" "unat l < 2 ^ 31" "unat p \<le> 10" "2 \<le> unat p"
    proof (rule ws_length_inside [of buf "buf ! 1"], goal_cases)
      case (2 l p)
      have "2 \<le> unat p" using 2(3) by (auto simp: ws_length_def Let_def split: if_split_asm option.splits)
      then show ?case using 2 by blast
    qed
    then show False
    proof cases
      case 1
      then show ?thesis using assms by (auto simp: wsFrameExtractBuffer_def buffer_at_def Let_def split: if_split_asm)
    next
      case (2 l p)
      define p' where "p' = (if buf ! 1 AND 0x80 \<noteq> 0 then p + 4 else p)"
      have p': "2 \<le> unat p'" "unat p' \<le> 14" using 2(3,4) by (auto simp: unat_add_le p'_def)
      then have sum: "unat (l + p') = unat l + unat p'" using 2(2) by (intro unat_add_le) simp
      have "frameSize out' = ucast (l + p')"
        using assms 2(1)
        by (auto simp: wsFrameExtractBuffer_def buffer_at_def Let_def ws_payload_at_def p'_def split: if_split_asm option.splits)
      then have "unat (frameSize out') = unat l + unat p'"
        using 2(2) p' by (simp add: unsigned_ucast_eq take_bit_eq_mod sum del: unat_0)
      then show False using z p' by simp
    qed
  qed
  then show "0 < unat (frameSize out')" by (simp add: unat_gt_0)
qed

section \<open>WebSocket frames\<close>

definition ws_dispatch :: "ws_out \<Rightarrow> http_conn \<Rightarrow> http_conn option" where
  "ws_dispatch out c =
     (let opcode = outopcode out in
      if outfin out \<and> (opcode = frame_code TEXT_FRAME \<or> opcode = frame_code BINARY_FRAME) then
        let c1 = (if mWSCacheFrame c \<noteq> []
                  then c\<lparr>mParsePayload := mWSCacheFrame c @ mParsePayload c, mWSCacheFrame := []\<rparr> else c)
        in Some (if mWSCallback c1 then http_log (WsMessage opcode (mParsePayload c1)) c1 else c1)
      else if opcode = frame_code CONTINUATION_FRAME then
        Some (c\<lparr>mWSCacheFrame := mWSCacheFrame c @ mParsePayload c, mParsePayload := []\<rparr>)
      else if opcode = frame_code PING_FRAME \<or> opcode = frame_code PONG_FRAME \<or> opcode = frame_code CLOSE_FRAME then
        Some (if mWSCallback c then http_log (WsMessage opcode (mParsePayload c)) c else c)
      else None)"

definition no_frame :: ws_out where
  "no_frame = \<lparr>ws_payload = [], outopcode = frame_code ERROR_FRAME, frameSize = 0, outfin = False\<rparr>"

text \<open>The loop; \<open>retlen\<close> counts what was consumed. Every round takes a frame off the buffer.\<close>

function ws_frames :: "uint8_t list \<Rightarrow> nat \<Rightarrow> http_conn \<Rightarrow> (nat \<times> http_conn) option" where
  "ws_frames buf retlen c =
     (if buf = [] then Some (retlen, c)
      else
        (case wsFrameExtractBuffer buf no_frame of
           None \<Rightarrow> None
         | Some (ok, out) \<Rightarrow>
             if \<not> ok then Some (retlen, c\<lparr>mParsePayload := ws_payload out\<rparr>)
             else
               (case ws_dispatch out (c\<lparr>mParsePayload := ws_payload out\<rparr>) of
                  None \<Rightarrow> None
                | Some c' \<Rightarrow> ws_frames (drop (unat (frameSize out)) buf) (retlen + unat (frameSize out)) c')))"
  by pat_completeness auto
termination
proof (relation "measure (\<lambda>(buf, retlen, c). length buf)", simp, goal_cases)
  case (1 buf retlen c r ok out c')
  then show ?case using ws_extract_size [of buf no_frame out] by simp
qed

declare ws_frames.simps [simp del]

section \<open>Requests\<close>

text \<open>\<open>raw\<close> is the uninitialised hash object on the stack.\<close>

definition wsHandshake :: "csha1 \<Rightarrow> string \<Rightarrow> string option" where
  "wsHandshake raw secKey =
     do {
       let key = secKey @ ''258EAFA5-E914-47DA-95CA-C5AB0DC85B11'';
       s1 \<leftarrow> Update (map of_char key) (of_nat (length key)) (new_csha1 raw);
       s2 \<leftarrow> Final s1;
       base64Str \<leftarrow> base64_encode (GetHash s2) 20;
       Some (''HTTP/1.1 101 Switching Protocols'' @ RL @ ''Upgrade: websocket'' @ RL @ ''Connection: Upgrade'' @ RL @
             ''Sec-WebSocket-Accept: '' @ base64Str @ RL @ RL)
     }"

definition http_complete :: "csha1 \<Rightarrow> http_conn \<Rightarrow> http_conn option" where
  "http_complete raw c =
     (let h = hp_data (conn_parser c) in
      if mIsWebSocket h then
        do {
          c1 \<leftarrow> (if hasKey h ''Sec-WebSocket-Key''
                then do {
                  response \<leftarrow> wsHandshake raw (getValue h ''Sec-WebSocket-Key'');
                  Some (http_log (SendBytes response) c)
                }
                else Some c);
          Some (if mWSConnectedCallback c1 then http_log (WsConnected h) c1 else c1)
        }
      else
        let c1 = (if mHttpRequestCallback c then http_log (HttpMessage h) c else c)
        in Some (if mIsKeepAlive h
                 then c1\<lparr>conn_parser := (conn_parser c1)\<lparr>hp_data := clearParse (hp_data (conn_parser c1))\<rparr>\<rparr> else c1))"

text \<open>The data callback. \<open>u0\<close> is the uninitialised local of the URL handler.\<close>

definition http_on_data ::
  "http_parser_url \<Rightarrow> csha1 \<Rightarrow> bytes \<Rightarrow> http_conn \<Rightarrow> (nat \<times> http_conn) option" where
  "http_on_data u0 raw buffer c =
     (if mIsWebSocket (hp_data (conn_parser c)) then ws_frames (map of_char buffer) 0 c
      else
        (case tryParse u0 HTTP_BOTH (conn_parser c) buffer of
           None \<Rightarrow> None
         | Some (retlen, q) \<Rightarrow>
             let c1 = c\<lparr>conn_parser := q\<rparr>
             in map_option (Pair retlen) (if mISCompleted (hp_data q) then http_complete raw c1 else Some c1)))"

definition new_http_conn :: http_conn where
  "new_http_conn =
     \<lparr>conn_parser = http_parser_init (raw_parser new_HTTPParser) HTTP_BOTH, mWSCacheFrame = [], mParsePayload = [],
      mHttpRequestCallback = True, mWSCallback = True, mWSConnectedCallback = True, http_out = []\<rparr>"

end
