(* ===== verification/Sha1_Block.thy ===== *)
theory Sha1_Block
  imports Sha1
begin

text \<open>
  The compression function of FIPS 180 and the proof that the eighty unrolled steps of
  \<^verbatim>\<open>CSHA1::Transform\<close> compute it: the circular block of sixteen words holds the message schedule, and the
  positions of the working variables rotate once every five steps.
\<close>

section \<open>The compression function of the standard\<close>

definition big_word :: "uint8_t list \<Rightarrow> uint32_t" where
  "big_word bs = from_memory (rev bs)"

fun message_schedule :: "(nat \<Rightarrow> uint32_t) \<Rightarrow> nat \<Rightarrow> uint32_t" where
  "message_schedule m t =
     (if t < 16 then m t
      else word_rotl 1 (message_schedule m (t - 3) XOR message_schedule m (t - 8) XOR
                        message_schedule m (t - 14) XOR message_schedule m (t - 16)))"

declare message_schedule.simps [simp del]

definition fips_f :: "nat \<Rightarrow> uint32_t \<Rightarrow> uint32_t \<Rightarrow> uint32_t \<Rightarrow> uint32_t" where
  "fips_f t x y z =
     (if t < 20 then (x AND y) XOR (NOT x AND z)
      else if t < 40 then x XOR y XOR z
      else if t < 60 then (x AND y) XOR (x AND z) XOR (y AND z)
      else x XOR y XOR z)"

definition fips_k :: "nat \<Rightarrow> uint32_t" where
  "fips_k t = (if t < 20 then 0x5A827999 else if t < 40 then 0x6ED9EBA1 else if t < 60 then 0x8F1BBCDC else 0xCA62C1D6)"

type_synonym five_words = "uint32_t \<times> uint32_t \<times> uint32_t \<times> uint32_t \<times> uint32_t"

definition fips_round :: "(nat \<Rightarrow> uint32_t) \<Rightarrow> nat \<Rightarrow> five_words \<Rightarrow> five_words" where
  "fips_round m t = (\<lambda>(a, b, c, d, e).
     (word_rotl 5 a + fips_f t b c d + e + fips_k t + message_schedule m t, a, word_rotl 30 b, c, d))"

fun five :: "uint32_t list \<Rightarrow> five_words" where
  "five [a, b, c, d, e] = (a, b, c, d, e)"
| "five _ = (0, 0, 0, 0, 0)"

fun unfive :: "five_words \<Rightarrow> uint32_t list" where
  "unfive (a, b, c, d, e) = [a, b, c, d, e]"

definition fips_rounds :: "(nat \<Rightarrow> uint32_t) \<Rightarrow> nat \<Rightarrow> uint32_t list \<Rightarrow> five_words" where
  "fips_rounds m n h = fold (fips_round m) [0..<n] (five h)"

definition message_word :: "uint8_t list \<Rightarrow> nat \<Rightarrow> uint32_t" where
  "message_word block t = big_word (take 4 (drop (4 * t) block))"

definition fips_compress :: "uint8_t list \<Rightarrow> uint32_t list \<Rightarrow> uint32_t list" where
  "fips_compress block h = map2 (+) h (unfive (fips_rounds (message_word block) 80 h))"

section \<open>Word operations\<close>

lemma bit_rotl32: "bit (word_rotl n (w :: uint32_t)) k \<longleftrightarrow> k < 32 \<and> bit w ((k + (32 - n mod 32)) mod 32)"
  by (simp add: word_rotl_eq_word_rotr bit_word_rotr_iff)

lemma ROL32_rotl:
  assumes "0 < n" "n < 32"
  shows "ROL32 x n = word_rotl n x"
proof (rule bit_word_eqI)
  fix k assume k: "k < LENGTH(32)"
  show "bit (ROL32 x n) k = bit (word_rotl n x) k"
  proof (cases "k < n")
    case True
    then have "(k + (32 - n)) mod 32 = 32 - n + k" using assms by simp
    then show ?thesis using k True assms
      by (auto simp: ROL32_def bit_or_iff bit_push_bit_iff bit_drop_bit_eq bit_rotl32)
  next
    case False
    then have "(k + (32 - n)) mod 32 = k - n" using assms k by (simp add: mod_if)
    then show ?thesis using k False assms
      by (auto simp: ROL32_def bit_or_iff bit_push_bit_iff bit_drop_bit_eq bit_rotl32 dest: bit_imp_le_length)
  qed
qed

lemma choose_form: "((x AND (y XOR z)) XOR z) = (x AND y) XOR (NOT x AND (z :: uint32_t))"
  by (rule bit_word_eqI) (auto simp: bit_and_iff bit_xor_iff bit_not_iff)

lemma majority_form: "((x OR y) AND z) OR (x AND y) = (x AND y) XOR (x AND z) XOR (y AND (z :: uint32_t))"
  by (rule bit_word_eqI) (auto simp: bit_and_iff bit_xor_iff bit_or_iff)

section \<open>Bytes and words\<close>

lemma bit_byte_add: "bit (unat (b :: uint8_t) + 256 * n) k = (if k < 8 then bit b k else bit n (k - 8))"
proof (cases "k < 8")
  case True
  then have "(2 :: nat) ^ k * 2 ^ (7 - k) = 128" by (simp flip: power_add)
  then have split: "(256 :: nat) * n = 2 ^ k * (2 * (2 ^ (7 - k) * n))" by simp
  have "(unat b + 256 * n) div 2 ^ k = 2 * (2 ^ (7 - k) * n) + unat b div 2 ^ k"
    unfolding split by (rule div_mult_self2) simp
  then have "bit (unat b + 256 * n) k = bit (unat b) k" by (simp add: bit_iff_odd)
  then show ?thesis using True by (simp add: bit_unsigned_iff)
next
  case False
  have "unat b < 256" using unsigned_less [of b] by simp
  then have "(unat b + 256 * n) div 2 ^ 8 = n" by simp
  moreover have "(2 :: nat) ^ k = 2 ^ 8 * 2 ^ (k - 8)" using False by (simp only: flip: power_add) simp
  ultimately show ?thesis using False by (simp add: bit_iff_odd div_mult2_eq)
qed

lemma bit_le_value: "bit (le_value bs) k \<longleftrightarrow> k div 8 < length bs \<and> bit (bs ! (k div 8)) (k mod 8)"
proof (induction bs arbitrary: k)
  case (Cons b bs)
  show ?case
  proof (cases "k < 8")
    case False
    then have "k div 8 = Suc ((k - 8) div 8)" "(k - 8) mod 8 = k mod 8" by (simp_all add: le_div_geq le_mod_geq)
    then show ?thesis using False by (simp add: bit_byte_add Cons.IH)
  qed (simp add: bit_byte_add)
qed simp

lemma bit_from_memory:
  "bit (from_memory bs :: uint32_t) k \<longleftrightarrow> k < 32 \<and> k div 8 < length bs \<and> bit (bs ! (k div 8)) (k mod 8)"
  by (simp add: from_memory_def bit_of_nat_iff bit_le_value)

lemma below_32: "(k :: nat) < 32 \<Longrightarrow>
    k \<in> {0, 1, 2, 3, 4, 5, 6, 7, 8, 9, 10, 11, 12, 13, 14, 15, 16, 17, 18, 19, 20, 21, 22, 23, 24, 25, 26, 27, 28, 29, 30, 31}"
  by (auto simp: numeral_eq_Suc less_Suc_eq)

lemma swap_masks:
  assumes "length bs = 4"
  shows "(ROL32 (from_memory bs) 24 AND 0xFF00FF00) OR (ROL32 (from_memory bs) 8 AND 0x00FF00FF) = big_word bs"
proof (rule bit_word_eqI)
  fix k assume "k < LENGTH(32)"
  then have "k < 32" by simp
  then show "bit ((ROL32 (from_memory bs) 24 AND 0xFF00FF00) OR (ROL32 (from_memory bs) 8 AND 0x00FF00FF)) k = bit (big_word bs) k"
    using below_32 [of k] assms
    by - (drule (1) meta_mp, elim insertE emptyE; simp add: ROL32_rotl bit_rotl32 bit_or_iff bit_and_iff bit_from_memory big_word_def rev_nth)
qed


section \<open>The steps\<close>

text \<open>The macro and the positions of the step with number \<open>t\<close>.\<close>

definition var_at :: "nat \<Rightarrow> nat \<Rightarrow> nat" where
  "var_at k t = (k + 4 * t) mod 5"

definition code_round :: "nat \<Rightarrow> sha1_vars \<Rightarrow> sha1_vars" where
  "code_round t =
     (if t < 16 then R0 else if t < 20 then R1 else if t < 40 then R2 else if t < 60 then R3 else R4)
       (var_at 0 t) (var_at 1 t) (var_at 2 t) (var_at 3 t) (var_at 4 t) t"

lemma unrolled_rounds: "unrolled = map code_round [0..<80]"
proof -
  have "[0..<80] = 0 # 1 # [2..<80]" by (simp add: upt_conv_Cons [of 0 80] upt_conv_Cons [of "Suc 0" 80] flip: numeral_2_eq_2)
  then show ?thesis by (simp add: unrolled_def code_round_def var_at_def)
qed

text \<open>The working variables in the order of the standard before step \<open>t\<close>.\<close>

definition view :: "nat \<Rightarrow> uint32_t list \<Rightarrow> five_words" where
  "view t regs = (regs ! var_at 0 t, regs ! var_at 1 t, regs ! var_at 2 t, regs ! var_at 3 t, regs ! var_at 4 t)"

definition block_word :: "nat \<Rightarrow> uint32_t list \<Rightarrow> uint32_t \<times> uint32_t list" where
  "block_word t l = (if t < 16 then SHABLK0 t l else SHABLK t l)"

lemma var_at_rotates: "var_at k t = (k + 4 * (t mod 5)) mod 5"
  unfolding var_at_def by (metis mod_add_right_eq mod_mult_right_eq)

lemma mod_5_cases: "(t :: nat) mod 5 = 0 \<or> t mod 5 = 1 \<or> t mod 5 = 2 \<or> t mod 5 = 3 \<or> t mod 5 = 4"
  using mod_less_divisor [of 5 t] by linarith

lemma var_at_next:
  "var_at 0 (Suc t) = var_at 4 t" "var_at 1 (Suc t) = var_at 0 t" "var_at 2 (Suc t) = var_at 1 t"
  "var_at 3 (Suc t) = var_at 2 t" "var_at 4 (Suc t) = var_at 3 t"
  using mod_5_cases [of t] by (auto simp: var_at_rotates mod_Suc)

lemma var_at_distinct: "distinct [var_at 0 t, var_at 1 t, var_at 2 t, var_at 3 t, var_at 4 t]"
  using mod_5_cases [of t] by (auto simp: var_at_rotates)

lemma var_at_bound: "var_at k t < 5"
  by (simp add: var_at_def)

lemma code_round_view:
  assumes "length regs = 5" "fst (block_word t l) = message_schedule m t"
  shows "view (Suc t) (fst (code_round t (regs, l))) = fips_round m t (view t regs)"
    and "snd (code_round t (regs, l)) = snd (block_word t l)"
    and "length (fst (code_round t (regs, l))) = 5"
proof -
  define v w x y z where "v = var_at 0 t" and "w = var_at 1 t" and "x = var_at 2 t" and "y = var_at 3 t" and "z = var_at 4 t"
  have d: "distinct [v, w, x, y, z]" and b: "v < 5" "w < 5" "x < 5" "y < 5" "z < 5"
    using var_at_distinct [of t] by (simp_all add: v_def w_def x_def y_def z_def var_at_bound)
  have d': "distinct [z, y, x, w, v]" using d by auto
  have code: "code_round t (regs, l) = sha1_step (fips_f t (regs ! w) (regs ! x) (regs ! y)) (fips_k t) v w z (block_word t l) regs"
    by (simp add: code_round_def R0_def R1_def R2_def R3_def R4_def fips_f_def fips_k_def block_word_def
        choose_form majority_form v_def w_def x_def y_def z_def)
  show "view (Suc t) (fst (code_round t (regs, l))) = fips_round m t (view t regs)"
    using assms d d' b
    by (simp add: code sha1_step_def view_def fips_round_def var_at_next ROL32_rotl Let_def
        del: One_nat_def flip: v_def w_def x_def y_def z_def)
  show "snd (code_round t (regs, l)) = snd (block_word t l)" by (simp add: code sha1_step_def Let_def)
  show "length (fst (code_round t (regs, l))) = 5" using assms by (simp add: code sha1_step_def Let_def)
qed

section \<open>The circular block\<close>

text \<open>Before step \<open>t\<close> the block holds the last sixteen words of the schedule and the words not yet converted.\<close>

definition block_inv :: "uint8_t list \<Rightarrow> nat \<Rightarrow> uint32_t list \<Rightarrow> bool" where
  "block_inv block t l \<longleftrightarrow>
     length l = 16 \<and>
     (\<forall>s. s < t \<and> t \<le> s + 16 \<longrightarrow> l ! (s mod 16) = message_schedule (message_word block) s) \<and>
     (\<forall>j. t \<le> j \<and> j < 16 \<longrightarrow> l ! j = from_memory (take 4 (drop (4 * j) block)))"

lemma block_inv_start: "block_inv block 0 (block_words block)"
  by (simp add: block_inv_def block_words_def)

lemma block_inv_raw: "block_inv block t l \<Longrightarrow> t < 16 \<Longrightarrow> l ! t = from_memory (take 4 (drop (4 * t) block))"
  by (simp add: block_inv_def)

lemma block_inv_back:
  assumes "block_inv block t l" "16 \<le> t" "0 < n" "n \<le> 16"
  shows "l ! ((t + (16 - n)) mod 16) = message_schedule (message_word block) (t - n)"
proof -
  have "(t + (16 - n)) mod 16 = (t - n) mod 16"
    using assms(2-) by (metis Nat.add_diff_assoc Nat.diff_add_assoc2 mod_add_self2 le_trans)
  then show ?thesis using assms by (simp add: block_inv_def)
qed

lemma block_inv_store:
  assumes "block_inv block t l" "w = message_schedule (message_word block) t"
  shows "block_inv block (Suc t) (l[t mod 16 := w])"
proof -
  have "l[t mod 16 := w] ! (s mod 16) = message_schedule (message_word block) s" if s: "s < Suc t" "Suc t \<le> s + 16" for s
  proof (cases "s = t")
    case False
    then have "s < t" "\<not> 16 dvd (t - s)" using s by (auto dest: dvd_imp_le)
    then have "s mod 16 \<noteq> t mod 16" by (metis less_imp_le mod_eq_dvd_iff_nat)
    then show ?thesis using assms(1) s False by (simp add: block_inv_def)
  qed (use assms in \<open>simp add: block_inv_def\<close>)
  moreover have "l[t mod 16 := w] ! j = from_memory (take 4 (drop (4 * j) block))" if "Suc t \<le> j" "j < 16" for j
    using that assms(1) by (simp add: block_inv_def)
  ultimately show ?thesis using assms(1) by (simp add: block_inv_def)
qed

lemma block_word_step:
  assumes inv: "block_inv block t l" and len: "length block = 64"
  shows "fst (block_word t l) = message_schedule (message_word block) t"
    and "block_inv block (Suc t) (snd (block_word t l))"
proof -
  have word: "fst (block_word t l) = message_schedule (message_word block) t"
  proof (cases "t < 16")
    case True
    then have "length (take 4 (drop (4 * t) block)) = 4" using len by simp
    from swap_masks [OF this] show ?thesis
      using True by (simp add: block_word_def SHABLK0_def Let_def block_inv_raw [OF inv]
          message_schedule.simps [of _ t] message_word_def)
  next
    case False
    then show ?thesis
      using block_inv_back [OF inv, of 3] block_inv_back [OF inv, of 8] block_inv_back [OF inv, of 14] block_inv_back [OF inv, of 16]
      by (simp add: block_word_def SHABLK_def Let_def ROL32_rotl message_schedule.simps [of _ t])
  qed
  then show "fst (block_word t l) = message_schedule (message_word block) t" .
  have "snd (block_word t l) = l[t mod 16 := fst (block_word t l)]"
    by (simp add: block_word_def SHABLK0_def SHABLK_def Let_def)
  then show "block_inv block (Suc t) (snd (block_word t l))" using block_inv_store [OF inv word] by simp
qed

lemma code_rounds:
  assumes "length block = 64" "length h = 5"
  shows "length (fst (fold code_round [0..<n] (h, block_words block))) = 5 \<and>
         view n (fst (fold code_round [0..<n] (h, block_words block))) = fips_rounds (message_word block) n h \<and>
         block_inv block n (snd (fold code_round [0..<n] (h, block_words block)))"
proof (induction n)
  case 0
  obtain a b c d e where "h = [a, b, c, d, e]" using assms(2) by (auto simp: length_Suc_conv numeral_eq_Suc)
  then show ?case by (simp add: block_inv_start fips_rounds_def view_def var_at_def)
next
  case (Suc n)
  obtain regs l where f: "fold code_round [0..<n] (h, block_words block) = (regs, l)" by fastforce
  then have "length regs = 5" "view n regs = fips_rounds (message_word block) n h" and inv: "block_inv block n l"
    using Suc by simp_all
  then show ?case
    using code_round_view [of regs n l] block_word_step [OF inv assms(1)]
    by (simp add: f fips_rounds_def)
qed

lemma Transform_compress:
  assumes "length block = 64" "length (m_state s) = 5"
  shows "m_state (Transform block s) = fips_compress block (m_state s)"
proof -
  obtain regs l where f: "fold code_round [0..<80] (m_state s, block_words block) = (regs, l)" by fastforce
  then have "length regs = 5" and v: "view 80 regs = fips_rounds (message_word block) 80 (m_state s)"
    using code_rounds [OF assms, of 80] by simp_all
  then obtain a b c d e where r: "regs = [a, b, c, d, e]" by (auto simp: length_Suc_conv numeral_eq_Suc)
  have "fold (\<lambda>r vars. r vars) unrolled (m_state s, block_words block) = (regs, l)"
    using f by (simp add: unrolled_rounds fold_map comp_def)
  moreover have "unfive (fips_rounds (message_word block) 80 (m_state s)) = regs"
    using v by (simp add: r view_def var_at_def flip: v)
  ultimately show ?thesis by (simp add: Transform_def fips_compress_def)
qed

end
