(* ===== verification/Sha1_Stream.thy ===== *)
theory Sha1_Stream
  imports Sha1_Block
begin

text \<open>
  The object computes the hash of the standard: however a message is split into calls of \<^verbatim>\<open>Update\<close>,
  the state is the compression of its whole blocks, the buffer holds the rest and the counter its length in
  bits; \<^verbatim>\<open>Final\<close> pads it as FIPS 180 says.
\<close>

section \<open>The hash of a message\<close>

function compress_blocks :: "uint32_t list \<Rightarrow> uint8_t list \<Rightarrow> uint32_t list" where
  "compress_blocks h msg =
     (if length msg < 64 then h else compress_blocks (fips_compress (take 64 msg) h) (drop 64 msg))"
  by pat_completeness auto
termination by (relation "measure (length \<circ> snd)") auto

declare compress_blocks.simps [simp del]

definition sha1_start :: "uint32_t list" where
  "sha1_start = [0x67452301, 0xEFCDAB89, 0x98BADCFE, 0x10325476, 0xC3D2E1F0]"

text \<open>The padding: one bit, zeros up to eight bytes below a multiple of 64, the length in bits on 64 bits.\<close>

definition big_bytes :: "'a::len word \<Rightarrow> uint8_t list" where
  "big_bytes w = rev (to_memory w)"

definition sha1_padding :: "nat \<Rightarrow> uint8_t list" where
  "sha1_padding n = 128 # replicate ((119 - n mod 64) mod 64) 0 @ big_bytes (of_nat (8 * n) :: 64 word)"

definition sha1_hash :: "uint8_t list \<Rightarrow> uint8_t list" where
  "sha1_hash msg = concat (map big_bytes (compress_blocks sha1_start (msg @ sha1_padding (length msg))))"

lemma compress_length: "length h = 5 \<Longrightarrow> length (fips_compress b h) = 5"
proof -
  obtain a b' c d e where "fips_rounds (message_word b) 80 h = (a, b', c, d, e)" by (metis prod_cases5)
  then show "length h = 5 \<Longrightarrow> length (fips_compress b h) = 5" by (simp add: fips_compress_def)
qed

lemma compress_blocks_length: "length h = 5 \<Longrightarrow> length (compress_blocks h msg) = 5"
proof (induction h msg rule: compress_blocks.induct)
  case (1 h msg)
  then show ?case by (subst compress_blocks.simps) (simp add: compress_length)
qed

lemma compress_short: "length msg < 64 \<Longrightarrow> compress_blocks h msg = h"
  by (simp add: compress_blocks.simps)

lemma compress_one: "length b = 64 \<Longrightarrow> compress_blocks h (b @ rest) = compress_blocks (fips_compress b h) rest"
  by (simp add: compress_blocks.simps [of _ "b @ rest"])

lemma compress_append: "length a = 64 * q \<Longrightarrow> compress_blocks h (a @ b) = compress_blocks (compress_blocks h a) b"
proof (induction q arbitrary: a h)
  case (Suc q)
  then have "length (take 64 a) = 64" and rest: "length (drop 64 a) = 64 * q" by simp_all
  from compress_one [OF this(1)] have "compress_blocks h (take 64 a @ r) = compress_blocks (fips_compress (take 64 a) h) r" for r .
  from this [of "drop 64 a @ b"] this [of "drop 64 a"] Suc.IH [OF rest, of "fips_compress (take 64 a) h"]
  show ?case by (simp flip: append_assoc)
qed (simp add: compress_short)

section \<open>The state between two calls\<close>

text \<open>The tail of the message that does not fill a block.\<close>

definition tail_of :: "uint8_t list \<Rightarrow> uint8_t list" where
  "tail_of msg = drop (64 * (length msg div 64)) msg"

definition full_of :: "uint8_t list \<Rightarrow> uint8_t list" where
  "full_of msg = take (64 * (length msg div 64)) msg"

lemma full_tail: "full_of msg @ tail_of msg = msg"
  by (simp add: full_of_def tail_of_def)

lemma tail_length [simp]: "length (tail_of msg) = length msg mod 64"
  by (simp add: tail_of_def minus_mult_div_eq_mod)

lemma full_length: "length (full_of msg) = 64 * (length msg div 64)"
  by (simp add: full_of_def)

definition sha1_after :: "uint8_t list \<Rightarrow> csha1 \<Rightarrow> bool" where
  "sha1_after msg s \<longleftrightarrow>
     m_state s = compress_blocks sha1_start msg \<and>
     length (m_buffer s) = 64 \<and> take (length msg mod 64) (m_buffer s) = tail_of msg \<and>
     m_count0 s = of_nat (8 * length msg) \<and> m_count1 s = of_nat (8 * length msg div 2 ^ 32)"

lemma compress_full: "compress_blocks h msg = compress_blocks h (full_of msg)"
  using compress_append [OF full_length, of h msg "tail_of msg"] compress_short [of "tail_of msg"]
  by (simp add: full_tail)

lemma append_full: "msg @ data = full_of msg @ (tail_of msg @ data)"
  by (simp add: full_tail flip: append_assoc)

lemma compress_extend: "compress_blocks h (msg @ data) = compress_blocks (compress_blocks h msg) (tail_of msg @ data)"
  unfolding append_full [of msg data] compress_append [OF full_length] by (simp flip: compress_full)

lemma tail_append: "length a = 64 * q \<Longrightarrow> tail_of (a @ b) = tail_of b"
proof -
  assume a: "length a = 64 * q"
  then have "64 * (length (a @ b) div 64) = length a + 64 * (length b div 64)" by simp
  then show ?thesis by (simp only: tail_of_def drop_append) simp
qed

lemma tail_extend: "tail_of (msg @ data) = tail_of (tail_of msg @ data)"
  unfolding append_full [of msg data] tail_append [OF full_length] ..

section \<open>The counter\<close>

lemma unat_drop_word: "unat (drop_bit n (w :: 'a::len word)) = unat w div 2 ^ n"
  by (simp add: unsigned_drop_bit_eq drop_bit_eq_div [where 'a = nat] take_bit_nat_eq_self unsigned_less)

lemma unat_take_word: "n \<le> LENGTH('a) \<Longrightarrow> unat (take_bit n (w :: 'a::len word)) = unat w mod 2 ^ n"
  by (simp add: unsigned_take_bit_eq take_bit_eq_mod [where 'a = nat])

lemma unat_word_index: "unat (drop_bit 3 (w :: uint32_t) AND 63) = unat w div 8 mod 64"
proof -
  have "(63 :: uint32_t) = mask 6" by (simp add: mask_eq_exp_minus_1)
  then have "drop_bit 3 w AND 63 = take_bit 6 (drop_bit 3 w)" by (simp add: take_bit_eq_mask)
  then show ?thesis by (simp add: unat_take_word unat_drop_word)
qed

lemma count_index: "unat (drop_bit 3 (of_nat (8 * n) :: uint32_t) AND 63) = n mod 64"
proof -
  have "unat (drop_bit 3 (of_nat (8 * n) :: uint32_t) AND 63) = 8 * n mod 2 ^ 32 div 8 mod 64"
    unfolding unat_word_index unat_of_nat by simp
  also have "8 * n mod 2 ^ 32 = 8 * (n mod 2 ^ 29)" using mult_mod_right [of 8 n "2 ^ 29"] by simp
  also have "8 * (n mod 2 ^ 29) div 8 mod 64 = n mod 64" by (simp add: mod_mod_cancel)
  finally show ?thesis .
qed

lemma carry_div:
  fixes x y :: nat
  shows "(x + y) div M = x div M + y div M + (if (x + y) mod M < y mod M then 1 else 0)"
proof (cases "M = 0")
  case False
  define a b where "a = x mod M" and "b = y mod M"
  have bounds: "a < M" "b < M" using False by (simp_all add: a_def b_def)
  have "(x + y) div M = x div M + y div M + (a + b) div M" "(x + y) mod M = (a + b) mod M"
    by (simp_all add: a_def b_def div_add1_eq [of x y] mod_simps)
  moreover have "(a + b) div M = (if (a + b) mod M < b then 1 else 0)"
    using bounds by (cases "a + b < M") (simp_all add: le_div_geq le_mod_geq)
  ultimately show ?thesis by (simp add: b_def)
qed simp

lemma add_count_length:
  assumes "m_count0 s = of_nat (8 * n)" "m_count1 s = of_nat (8 * n div 2 ^ 32)" "k < 2 ^ 32"
  shows "m_count0 (add_count (of_nat k) s) = of_nat (8 * (n + k))"
    and "m_count1 (add_count (of_nat k) s) = of_nat (8 * (n + k) div 2 ^ 32)"
proof -
  have shift: "push_bit 3 (of_nat k :: uint32_t) = of_nat (8 * k)" by (simp add: push_bit_eq_mult)
  show c0: "m_count0 (add_count (of_nat k) s) = of_nat (8 * (n + k))"
    using assms(1) by (simp add: add_count_def Let_def shift distrib_left del: of_nat_mult)
  have "drop_bit 29 (of_nat k :: uint32_t) = of_nat (8 * k div 2 ^ 32)"
    using assms(3) by (simp add: word_unat_eq_iff unat_drop_word unat_of_nat)
  moreover have "m_count0 s + push_bit 3 (of_nat k) < push_bit 3 (of_nat k) \<longleftrightarrow> (8 * n + 8 * k) mod 2 ^ 32 < 8 * k mod 2 ^ 32"
    unfolding shift assms(1) of_nat_add [symmetric] unat_less_iff unat_of_nat by simp
  ultimately show "m_count1 (add_count (of_nat k) s) = of_nat (8 * (n + k) div 2 ^ 32)"
    unfolding distrib_left carry_div [of "8 * n" "8 * k"]
    by (simp add: add_count_def Let_def assms(2))
qed

lemma add_count_fields [simp]:
  "m_state (add_count len s) = m_state s" "m_buffer (add_count len s) = m_buffer s" "m_digest (add_count len s) = m_digest s"
  by (simp_all add: add_count_def Let_def)

lemma Transform_fields [simp]:
  "m_buffer (Transform b s) = m_buffer s" "m_count0 (Transform b s) = m_count0 s" "m_count1 (Transform b s) = m_count1 s"
  "m_digest (Transform b s) = m_digest s"
  by (simp_all add: Transform_def split: prod.splits)

section \<open>Update\<close>

lemma transform_loop_blocks:
  assumes "unat i + 64 * q + r = length data" "r < 64" "length data + 64 \<le> 2 ^ 32" "length (m_state s) = 5"
  shows "\<exists>s'. transform_loop i (of_nat (length data)) data s = Some (of_nat (unat i + 64 * q), s') \<and>
           m_state s' = compress_blocks (m_state s) (drop (unat i) data) \<and>
           m_buffer s' = m_buffer s \<and> m_count0 s' = m_count0 s \<and> m_count1 s' = m_count1 s"
  using assms
proof (induction q arbitrary: i s)
  case 0
  then have "unat (i + 63) = unat i + 63" by (subst unat_add_le) simp_all
  moreover have "unat (of_nat (length data) :: uint32_t) = length data" using 0 by (simp add: unat_of_nat_small)
  ultimately have "\<not> i + 63 < of_nat (length data)" using 0 by (simp add: unat_less_iff)
  then show ?case using 0 by (subst transform_loop.simps) (simp add: compress_short)
next
  case (Suc q)
  have i: "unat (i + 63) = unat i + 63" "unat (i + 64) = unat i + 64"
    using Suc.prems by (subst unat_add_le; simp)+
  moreover have "unat (of_nat (length data) :: uint32_t) = length data" using Suc.prems by (simp add: unat_of_nat_small)
  ultimately have more: "i + 63 < of_nat (length data)" using Suc.prems by (simp add: unat_less_iff)
  define b where "b = take 64 (drop (unat i) data)"
  have b: "mem_read (unat i) 64 data = Some b" "length b = 64"
    using Suc.prems by (simp_all add: b_def mem_read_in)
  have "drop (unat i) data = b @ drop (unat (i + 64)) data"
    unfolding b_def i by (simp only: add.commute [of _ 64] drop_drop [symmetric] append_take_drop_id)
  then have "compress_blocks (m_state s) (drop (unat i) data) = compress_blocks (m_state (Transform b s)) (drop (unat (i + 64)) data)"
    using compress_one [OF b(2)] Transform_compress [OF b(2)] Suc.prems by simp
  moreover have "length (m_state (Transform b s)) = 5"
    using Transform_compress [OF b(2)] Suc.prems by (simp add: compress_length)
  ultimately show ?case
    using Suc.IH [of "i + 64" "Transform b s"] Suc.prems more b(1) i
    by (subst transform_loop.simps) (simp add: add.commute add.left_commute)
qed

lemma tail_short: "length msg < 64 \<Longrightarrow> tail_of msg = msg"
  by (simp add: tail_of_def)

lemma fill_front:
  assumes "unat j + length d \<le> length (m_buffer s)"
  shows "fill_buffer j d s = Some (s\<lparr>m_buffer := take (unat j) (m_buffer s) @ d @ drop (unat j + length d) (m_buffer s)\<rparr>)"
  using assms by (simp add: fill_buffer_def mem_write_in)

lemma update_short:
  assumes after: "sha1_after msg s" and short: "length msg mod 64 + length data < 64"
  shows "\<exists>s'. Update data (of_nat (length data)) s = Some s' \<and> sha1_after (msg @ data) s'"
proof -
  define r where "r = length msg mod 64"
  define j where "j = drop_bit 3 (m_count0 s) AND 63"
  define s1 where "s1 = add_count (of_nat (length data)) s"
  have j: "unat j = r" using after by (simp add: j_def r_def sha1_after_def count_index del: of_nat_mult)
  have w: "unat (of_nat (length data) :: uint32_t) = length data" using short by (simp add: unat_of_nat_small)
  have "unat (j + of_nat (length data)) = r + length data"
    using short j w by (subst unat_add_le) (simp_all add: r_def)
  then have small: "\<not> j + of_nat (length data) > 63" using short by (simp add: unat_less_iff r_def)
  have "Update data (of_nat (length data)) s = fill_buffer j data s1"
    using small w by (simp add: Update_def mem_read_in flip: j_def s1_def)
  also have "\<dots> = Some (s1\<lparr>m_buffer := take r (m_buffer s) @ data @ drop (r + length data) (m_buffer s)\<rparr>)"
    using short after j by (subst fill_front) (simp_all add: s1_def sha1_after_def r_def)
  finally have run: "Update data (of_nat (length data)) s = \<dots>" .
  have tail: "tail_of (msg @ data) = tail_of msg @ data" using short by (simp add: tail_extend [of msg] tail_short)
  have "length (msg @ data) mod 64 = r + length data" using short arg_cong [OF tail, of length] by (simp add: r_def)
  then show ?thesis
    using run after short tail add_count_length [of s "length msg" "length data"]
    by (simp add: sha1_after_def s1_def r_def compress_extend [of _ msg] compress_short distrib_left)
qed

lemma update_long:
  assumes after: "sha1_after msg s" and len: "length data + 64 \<le> 2 ^ 32" and long: "64 \<le> length msg mod 64 + length data"
  shows "\<exists>s'. Update data (of_nat (length data)) s = Some s' \<and> sha1_after (msg @ data) s'"
proof -
  define r where "r = length msg mod 64"
  define j where "j = drop_bit 3 (m_count0 s) AND 63"
  define s1 where "s1 = add_count (of_nat (length data)) s"
  define q rest where "q = (length data - (64 - r)) div 64" and "rest = (length data - (64 - r)) mod 64"
  define blk where "blk = tail_of msg @ take (64 - r) data"
  have r: "r < 64" by (simp add: r_def)
  have j: "unat j = r" using after by (simp add: j_def r_def sha1_after_def count_index del: of_nat_mult)
  have w: "unat (of_nat (length data) :: uint32_t) = length data" using len by (simp add: unat_of_nat_small)
  have "unat (j + of_nat (length data)) = r + length data"
    using len r j w by (subst unat_add_le) simp_all
  then have big: "j + of_nat (length data) > 63" using long by (simp add: unat_less_iff r_def)
  have i: "unat (64 - j) = 64 - r" using r j by (subst unat_diff_le) (simp_all add: unat_le_iff)
  have parts: "64 - r + 64 * q + rest = length data" "rest < 64"
    using long r by (simp_all add: q_def rest_def r_def)
  have blk: "length blk = 64" using long r by (simp add: blk_def r_def)
  have buf: "take r (m_buffer s) @ take (64 - r) data = blk" using after by (simp add: blk_def sha1_after_def r_def)
  define s2 where "s2 = s1\<lparr>m_buffer := blk\<rparr>"
  have fill: "fill_buffer j (take (64 - r) data) s1 = Some s2"
    using after j r long buf by (subst fill_front) (simp_all add: s1_def s2_def sha1_after_def r_def)
  have state: "m_state s1 = compress_blocks sha1_start msg" using after by (simp add: s1_def sha1_after_def)
  have five: "length (m_state (Transform blk s2)) = 5"
    using blk state by (simp add: Transform_compress s2_def compress_length compress_blocks_length sha1_start_def)
  from transform_loop_blocks [of "64 - j" q rest data, OF _ parts(2) len five]
  obtain s3 where loop: "transform_loop (64 - j) (of_nat (length data)) data (Transform blk s2) = Some (of_nat (64 - r + 64 * q), s3)"
    and s3: "m_state s3 = compress_blocks (m_state (Transform blk s2)) (drop (64 - r) data)" "m_buffer s3 = blk"
      "m_count0 s3 = m_count0 s1" "m_count1 s3 = m_count1 s1"
    using parts(1) i by (auto simp: s2_def)
  have i': "unat (of_nat (64 - r + 64 * q) :: uint32_t) = 64 - r + 64 * q"
    using parts len by (intro unat_of_nat_small) simp
  have left: "unat (of_nat (length data) - of_nat (64 - r + 64 * q) :: uint32_t) = rest"
    using parts i' w by (subst unat_diff_le) (simp_all add: unat_le_iff)
  have "mem_read (64 - r + 64 * q) rest data = Some (drop (64 - r + 64 * q) data)"
    using parts by (simp add: mem_read_in)
  moreover have "mem_read 0 (64 - r) data = Some (take (64 - r) data)" using parts by (simp add: mem_read_in)
  ultimately have run: "Update data (of_nat (length data)) s = fill_buffer 0 (drop (64 - r + 64 * q) data) s3"
    using big fill loop i i' left
    by (simp add: Update_def s2_def flip: j_def s1_def del: of_nat_add of_nat_mult of_nat_diff)
  have split: "tail_of msg @ data = blk @ drop (64 - r) data" by (simp add: blk_def)
  have "tail_of (msg @ data) = tail_of (drop (64 - r) data)"
    using tail_append [of blk 1] blk by (simp add: tail_extend [of msg] split)
  also have "\<dots> = drop (64 - r + 64 * q) data"
    using parts by (simp add: tail_of_def q_def add.commute)
  finally have tail: "tail_of (msg @ data) = drop (64 - r + 64 * q) data" .
  have "length (tail_of (msg @ data)) = rest" unfolding tail using parts by simp
  then have rest: "length (msg @ data) mod 64 = rest" by (simp only: tail_length)
  have "m_state s3 = compress_blocks sha1_start (msg @ data)"
    using s3(1) state Transform_compress [OF blk, of s2] compress_one [OF blk]
    by (simp add: compress_extend [of _ msg] split s2_def compress_blocks_length sha1_start_def)
  then show ?thesis
    using run tail rest s3 parts blk after add_count_length [of s "length msg" "length data"] len
    by (simp add: fill_front sha1_after_def s1_def distrib_left)
qed

lemma update_after:
  assumes "sha1_after msg s" "length data + 64 \<le> 2 ^ 32"
  shows "\<exists>s'. Update data (of_nat (length data)) s = Some s' \<and> sha1_after (msg @ data) s'"
  using assms update_short update_long by (meson not_less)

section \<open>Padding\<close>

lemma and_push_bit: "(w :: uint32_t) AND push_bit 3 m = push_bit 3 (drop_bit 3 w AND m)"
  by (rule bit_word_eqI) (auto simp: bit_and_iff bit_push_bit_iff bit_drop_bit_eq)

lemma padded_iff: "(of_nat (8 * n) :: uint32_t) AND 504 = 448 \<longleftrightarrow> n mod 64 = 56"
proof -
  define w :: uint32_t where "w = drop_bit 3 (of_nat (8 * n)) AND 63"
  have w: "unat w = n mod 64" unfolding w_def by (rule count_index)
  have "(of_nat (8 * n) :: uint32_t) AND 504 = push_bit 3 w"
    using and_push_bit [of "of_nat (8 * n)" 63] by (simp add: w_def)
  also have "\<dots> = 8 * w" by (simp add: push_bit_eq_mult)
  finally have masked: "(of_nat (8 * n) :: uint32_t) AND 504 = 8 * w" .
  have "unat w < 64" by (simp add: w)
  then have "unat (8 * w) = 8 * unat w" using unat_mult_lem [of 8 w] by simp
  then have "8 * w = 448 \<longleftrightarrow> unat w = 56" by (simp add: word_unat_eq_iff)
  then show ?thesis unfolding masked w .
qed

lemma pad_zeros_after:
  assumes "sha1_after msg s" "(length msg + z) mod 64 = 56" "z < 64"
  shows "\<exists>s'. pad_zeros s = Some s' \<and> sha1_after (msg @ replicate z 0) s'"
  using assms
proof (induction z arbitrary: msg s)
  case 0
  then have "m_count0 s AND 504 = 448" by (simp add: sha1_after_def padded_iff del: of_nat_mult)
  then show ?case using 0 by (subst pad_zeros.simps) simp
next
  case (Suc z)
  have "length msg mod 64 \<noteq> 56"
  proof
    assume "length msg mod 64 = 56"
    then have "(56 + Suc z) mod 64 = 56" using Suc.prems(2) by (metis mod_add_left_eq)
    then show False using Suc.prems(3) by (cases "z < 7") (simp_all add: le_mod_geq)
  qed
  then have "m_count0 s AND 504 \<noteq> 448" using Suc.prems(1) by (simp add: sha1_after_def padded_iff del: of_nat_mult)
  moreover obtain s1 where "Update [0] 1 s = Some s1" "sha1_after (msg @ [0]) s1"
    using update_after [OF Suc.prems(1), of "[0]"] by auto
  moreover have "\<exists>s'. pad_zeros s1 = Some s' \<and> sha1_after ((msg @ [0]) @ replicate z 0) s'"
    using Suc.IH [of "msg @ [0]" s1] Suc.prems calculation by simp
  ultimately show ?case by (subst pad_zeros.simps) simp
qed

section \<open>Big-endian bytes\<close>

lemma le_bytes_add: "le_bytes (a + b) n = le_bytes a n @ le_bytes b (n div 256 ^ a)"
  by (induction a arbitrary: n) (simp_all add: div_mult2_eq)

lemma byte_of_word: "ucast (drop_bit k (w :: uint32_t) AND 255) = (of_nat (unat w div 2 ^ k) :: uint8_t)"
proof -
  have "(255 :: uint32_t) = mask 8" by (simp add: mask_eq_exp_minus_1)
  then have "drop_bit k w AND 255 = take_bit 8 (drop_bit k w)" by (simp add: take_bit_eq_mask)
  then have "unat (drop_bit k w AND 255) = unat w div 2 ^ k mod 256"
    by (simp add: unat_take_word unat_drop_word)
  moreover have conv: "ucast v = (of_nat (unat v) :: uint8_t)" for v :: uint32_t by simp
  ultimately show ?thesis unfolding conv by (simp only: word_unat_eq_iff unat_of_nat) simp
qed

lemma le_bytes_4: "le_bytes 4 n = [of_nat n, of_nat (n div 2 ^ 8), of_nat (n div 2 ^ 16), of_nat (n div 2 ^ 24)]"
proof -
  have "le_bytes (Suc (Suc (Suc (Suc 0)))) n = [of_nat n, of_nat (n div 2 ^ 8), of_nat (n div 2 ^ 16), of_nat (n div 2 ^ 24)]"
    by (simp flip: div_mult2_eq)
  moreover have "4 = Suc (Suc (Suc (Suc 0)))" by simp
  ultimately show ?thesis by (simp only:)
qed

lemma big_bytes_32:
  "big_bytes (w :: uint32_t) = [of_nat (unat w div 2 ^ 24), of_nat (unat w div 2 ^ 16), of_nat (unat w div 2 ^ 8), of_nat (unat w)]"
  by (simp add: big_bytes_def to_memory_def le_bytes_4)

lemma big_bytes_64: "big_bytes (of_nat n :: 64 word) = big_bytes (of_nat (n div 2 ^ 32) :: uint32_t) @ big_bytes (of_nat n :: uint32_t)"
proof -
  have "le_bytes 8 (n mod 2 ^ 64) = le_bytes 8 n" using le_bytes_mod [of 8 n] by simp
  also have "\<dots> = le_bytes 4 n @ le_bytes 4 (n div 2 ^ 32)" using le_bytes_add [of 4 4 n] by simp
  also have "\<dots> = le_bytes 4 (n mod 2 ^ 32) @ le_bytes 4 (n div 2 ^ 32 mod 2 ^ 32)"
    using le_bytes_mod [of 4 n] le_bytes_mod [of 4 "n div 2 ^ 32"] by simp
  finally show ?thesis by (simp add: big_bytes_def to_memory_def unat_of_nat)
qed

lemma finalcount_length:
  assumes "sha1_after msg s"
  shows "finalcount s = big_bytes (of_nat (8 * length msg) :: 64 word)"
  using assms unfolding big_bytes_64
  by (simp add: finalcount_def sha1_after_def upt_rec big_bytes_32 byte_of_word del: of_nat_mult)

lemma digest_bytes_concat:
  assumes "length state = 5"
  shows "digest_bytes state = concat (map big_bytes state)"
proof -
  obtain a b c d e where "state = [a, b, c, d, e]" using assms by (auto simp: length_Suc_conv numeral_eq_Suc)
  then show ?thesis by (simp add: digest_bytes_def upt_rec big_bytes_32 byte_of_word)
qed

section \<open>The digest\<close>

lemma final_after:
  assumes "sha1_after msg s"
  shows "\<exists>s'. Final s = Some s' \<and> GetHash s' = sha1_hash msg"
proof -
  obtain s1 where s1: "Update [128] 1 s = Some s1" "sha1_after (msg @ [128]) s1"
    using update_after [OF assms, of "[128]"] by auto
  have "(length (msg @ [128]) + (119 - length msg mod 64) mod 64) mod 64 = 56"
  proof (cases "length msg mod 64 < 56")
    case True
    have "(length msg + (1 + (119 - length msg mod 64) mod 64)) mod 64 = (length msg mod 64 + (1 + (119 - length msg mod 64) mod 64)) mod 64"
      by (simp only: mod_add_left_eq)
    then show ?thesis using True by (simp add: le_mod_geq)
  next
    case False
    have "(length msg + (1 + (119 - length msg mod 64) mod 64)) mod 64 = (length msg mod 64 + (1 + (119 - length msg mod 64) mod 64)) mod 64"
      by (simp only: mod_add_left_eq)
    moreover have "length msg mod 64 \<le> 63" using mod_less_divisor [of 64 "length msg"] by linarith
    ultimately show ?thesis using False by simp
  qed
  from pad_zeros_after [OF s1(2) this] obtain s2 where s2: "pad_zeros s1 = Some s2"
    "sha1_after ((msg @ [128]) @ replicate ((119 - length msg mod 64) mod 64) 0) s2" by auto
  have eight: "length (finalcount s) = 8" by (simp add: finalcount_def)
  then obtain s3 where s3: "Update (finalcount s) 8 s2 = Some s3"
    "sha1_after (((msg @ [128]) @ replicate ((119 - length msg mod 64) mod 64) 0) @ finalcount s) s3"
    using update_after [OF s2(2), of "finalcount s"] by auto
  have state: "m_state s3 = compress_blocks sha1_start (msg @ sha1_padding (length msg))"
    using s3(2) finalcount_length [OF assms] by (simp add: sha1_after_def sha1_padding_def)
  then have "digest_bytes (m_state s3) = sha1_hash msg"
    by (simp add: sha1_hash_def digest_bytes_concat compress_blocks_length sha1_start_def)
  moreover have "length (digest_bytes (m_state s3)) = 20" by (simp add: digest_bytes_def)
  ultimately show ?thesis using s1(1) s2(1) s3(1) by (simp add: Final_def wipe_def GetHash_def)
qed

lemma new_after: "length (m_buffer raw) = 64 \<Longrightarrow> sha1_after [] (new_csha1 raw)"
  by (simp add: sha1_after_def new_csha1_def Reset_def compress_short sha1_start_def tail_of_def)

section \<open>The property\<close>

fun feed :: "uint8_t list list \<Rightarrow> csha1 \<Rightarrow> csha1 option" where
  "feed [] s = Some s"
| "feed (data # rest) s = do { s' \<leftarrow> Update data (of_nat (length data)) s; feed rest s' }"

lemma feed_after:
  "sha1_after msg s \<Longrightarrow> \<forall>data \<in> set parts. length data + 64 \<le> 2 ^ 32 \<Longrightarrow>
   \<exists>s'. feed parts s = Some s' \<and> sha1_after (msg @ concat parts) s'"
proof (induction parts arbitrary: msg s)
  case (Cons data parts)
  obtain s1 where "Update data (of_nat (length data)) s = Some s1" "sha1_after (msg @ data) s1"
    using update_after [OF Cons.prems(1), of data] Cons.prems(2) by auto
  then show ?case using Cons.IH [of "msg @ data" s1] Cons.prems(2) by simp
qed simp

text \<open>
  C16. Whatever the uninitialised object holds and however the message is split into calls of \<^verbatim>\<open>Update\<close>, each
  below 4 GB less 64 bytes, the object reads and writes only inside its arrays, \<^verbatim>\<open>Final\<close> returns, and
  \<^verbatim>\<open>GetHash\<close> is the SHA-1 of FIPS 180 of the whole message.
\<close>

theorem sha1_stream_exact:
  assumes "length (m_buffer raw) = 64" "\<forall>data \<in> set parts. length data + 64 \<le> 2 ^ 32"
  shows "\<exists>s1 s2. feed parts (new_csha1 raw) = Some s1 \<and> Final s1 = Some s2 \<and> GetHash s2 = sha1_hash (concat parts)"
  using feed_after [OF new_after [OF assms(1)] assms(2)] final_after by fastforce

lemma hash_run:
  assumes "length (m_buffer raw) = 64" "length data + 64 \<le> 2 ^ 32"
  shows "\<exists>s1 s2. Update data (of_nat (length data)) (new_csha1 raw) = Some s1 \<and> Final s1 = Some s2 \<and> GetHash s2 = sha1_hash data"
  using update_after [OF new_after [OF assms(1)] assms(2)] final_after by fastforce

text \<open>
  The bound is needed: with one byte in the buffer, a call with the largest length wraps \<^verbatim>\<open>j + len\<close> to 0 and copies
  the whole data into the buffer of 64 bytes.
\<close>

lemma update_overflow:
  assumes "sha1_after [b] s" "length data = 2 ^ 32 - 1"
  shows "Update data (of_nat (length data)) s = None"
proof -
  have "drop_bit 3 (m_count0 s) AND 63 = 1"
    using assms(1) by (simp add: sha1_after_def word_unat_eq_iff unat_word_index)
  then show ?thesis
    using assms by (simp add: Update_def mem_read_in fill_buffer_def mem_write_def sha1_after_def)
qed

definition raw_sha1 :: csha1 where
  "raw_sha1 = \<lparr>m_state = [], m_count0 = 7, m_count1 = 7, m_buffer = replicate 64 1, m_digest = [], m_block = []\<rparr>"

theorem sha1_stream_exact_witness:
  "\<exists>s1 s2. feed [[97], [], [98, 99]] (new_csha1 raw_sha1) = Some s1 \<and> Final s1 = Some s2 \<and> GetHash s2 = sha1_hash [97, 98, 99]"
  using sha1_stream_exact [of raw_sha1 "[[97], [], [98, 99]]"] by (simp add: raw_sha1_def)

end
