(* ===== verification/Http_Server_Props.thy ===== *)
theory Http_Server_Props
  imports Http_Server Sha1_Stream
begin

text \<open>
  The properties of the connection handler: WebSocket messages survive any cutting of the byte stream, and what goes wrong
  with fragmented messages and with requests after the first.
\<close>

section \<open>A stream of frames\<close>

text \<open>A message: payload, type and masking key. Frames are final; the handler takes no others (see below).\<close>

type_synonym ws_message = "uint8_t list \<times> WebSocketFrameType \<times> uint8_t list option"

definition message_ok :: "ws_message \<Rightarrow> bool" where
  "message_ok m \<longleftrightarrow>
     (case m of (payload, ty, masking) \<Rightarrow>
        length payload < 2 ^ 31 \<and> ty \<in> {TEXT_FRAME, BINARY_FRAME, PING_FRAME, PONG_FRAME, CLOSE_FRAME} \<and>
        (masking = None \<or> (\<exists>key. masking = Some key \<and> length key = 4)))"

definition message_frame :: "ws_message \<Rightarrow> uint8_t list" where
  "message_frame m = (case m of (payload, ty, masking) \<Rightarrow> wsFrameBuild payload ty True masking)"

definition message_event :: "ws_message \<Rightarrow> http_output" where
  "message_event m = (case m of (payload, ty, masking) \<Rightarrow> WsMessage (frame_code ty) payload)"

definition message_out :: "ws_message \<Rightarrow> ws_out" where
  "message_out m =
     (case m of (payload, ty, masking) \<Rightarrow>
        \<lparr>ws_payload = payload, outopcode = frame_code ty, frameSize = of_nat (length (message_frame m)), outfin = True\<rparr>)"

lemma extract_message:
  assumes "message_ok m"
  shows "wsFrameExtractBuffer (message_frame m @ rest) no_frame = Some (True, message_out m)"
proof -
  obtain payload ty masking where m: "m = (payload, ty, masking)" by (cases m)
  then have "length payload < 2 ^ 31" "ty \<noteq> ERROR_FRAME" "masking = None \<or> (\<exists>key. masking = Some key \<and> length key = 4)"
    using assms by (auto simp: message_ok_def)
  from ws_frame_extract [OF this, of True rest no_frame] show ?thesis
    by (simp add: m message_frame_def message_out_def no_frame_def)
qed

lemma message_size:
  assumes "message_ok m"
  shows "unat (frameSize (message_out m)) = length (message_frame m)" "message_frame m \<noteq> []"
proof -
  show "message_frame m \<noteq> []"
    using ws_extract_size [OF extract_message [OF assms, of "[]"]] by auto
  obtain payload ty masking where m: "m = (payload, ty, masking)" by (cases m)
  have ok: "length payload < 2 ^ 31" "masking = None \<or> (\<exists>key. masking = Some key \<and> length key = 4)"
    using assms m by (auto simp: message_ok_def)
  obtain c bs where c: "marked (masking \<noteq> None) (frame_length_bytes (of_nat (length payload))) = c # bs" "length bs \<le> 8"
    by (rule ws_length_built [OF ok(1), of "masking \<noteq> None"])
  have "length (case masking of None \<Rightarrow> [] | Some key \<Rightarrow> key) \<le> 4" "length (case masking of None \<Rightarrow> payload | Some key \<Rightarrow> mask_from 0 key payload) = length payload"
    using ok(2) by (auto split: option.splits)
  then have "length (message_frame m) < 2 ^ 64"
    using built_frame [OF ok(2), of payload ty True] c ok(1) by (simp add: m message_frame_def)
  then show "unat (frameSize (message_out m)) = length (message_frame m)"
    by (simp add: m message_out_def unat_of_nat_small)
qed

text \<open>A frame of which bytes are missing waits.\<close>

lemma extract_partial:
  assumes "message_ok m" "n < length (message_frame m)"
  shows "\<exists>out. wsFrameExtractBuffer (take n (message_frame m)) no_frame = Some (False, out)"
proof -
  obtain ok out where e: "wsFrameExtractBuffer (take n (message_frame m)) no_frame = Some (ok, out)"
    using ws_extract_inside by blast
  have "\<not> ok"
  proof
    assume ok
    then have "out = message_out m"
      using ws_extract_append [of "take n (message_frame m)" no_frame out "drop n (message_frame m)"]
        extract_message [OF assms(1), of "[]"] e by auto
    then show False using ws_extract_size(2) [of _ no_frame out] e \<open>ok\<close> message_size [OF assms(1)] assms(2) by fastforce
  qed
  then show ?thesis using e by simp
qed

definition partial_frame :: "uint8_t list \<Rightarrow> bool" where
  "partial_frame rest \<longleftrightarrow>
     rest = [] \<or> (\<exists>m n. message_ok m \<and> rest = take n (message_frame m) \<and> n < length (message_frame m))"

lemma partial_frame_waits:
  assumes "partial_frame rest" "rest \<noteq> []"
  shows "\<exists>out. wsFrameExtractBuffer rest no_frame = Some (False, out)"
  using assms extract_partial unfolding partial_frame_def by blast

text \<open>A message goes to the callback as it is while no fragment is cached.\<close>

lemma dispatch_message:
  assumes "message_ok m" "mWSCacheFrame c = []" "mWSCallback c"
  shows "\<exists>c'. ws_dispatch (message_out m) (c\<lparr>mParsePayload := ws_payload (message_out m)\<rparr>) = Some c' \<and>
    http_out c' = http_out c @ [message_event m] \<and> mWSCacheFrame c' = [] \<and> mWSCallback c' \<and> conn_parser c' = conn_parser c"
  using assms
  by (auto simp: message_ok_def message_out_def message_event_def ws_dispatch_def http_log_def)

text \<open>Whole frames followed by a part of another one.\<close>

lemma ws_frames_run:
  assumes "\<forall>m \<in> set ms. message_ok m" "mWSCacheFrame c = []" "mWSCallback c"
    "partial_frame rest"
  shows "\<exists>c'. ws_frames (concat (map message_frame ms) @ rest) k c = Some (k + length (concat (map message_frame ms)), c') \<and>
    http_out c' = http_out c @ map message_event ms \<and> mWSCacheFrame c' = [] \<and> mWSCallback c' \<and> conn_parser c' = conn_parser c"
  using assms
proof (induction ms arbitrary: k c)
  case Nil
  show ?case
  proof (cases "rest = []")
    case True
    then show ?thesis using Nil by (simp add: ws_frames.simps)
  next
    case False
    then obtain out where "wsFrameExtractBuffer rest no_frame = Some (False, out)" using Nil partial_frame_waits by blast
    then show ?thesis using False Nil by (simp add: ws_frames.simps [of rest])
  qed
next
  case (Cons m ms)
  have m: "message_ok m" using Cons by simp
  obtain c1 where c1: "ws_dispatch (message_out m) (c\<lparr>mParsePayload := ws_payload (message_out m)\<rparr>) = Some c1"
    "http_out c1 = http_out c @ [message_event m]" "mWSCacheFrame c1 = []" "mWSCallback c1" "conn_parser c1 = conn_parser c"
    using dispatch_message [OF m] Cons.prems by blast
  have "ws_frames (message_frame m @ concat (map message_frame ms) @ rest) k c =
      ws_frames (concat (map message_frame ms) @ rest) (k + length (message_frame m)) c1"
    using c1(1) extract_message [OF m] message_size [OF m] by (subst ws_frames.simps) simp
  then show ?case using Cons.IH [of c1 "k + length (message_frame m)"] Cons.prems c1 by (simp add: add.assoc)
qed

text \<open>
  The connection keeps the bytes that the data callback did not consume and hands them over again with the next ones.
\<close>

fun deliver_blocks ::
  "http_parser_url \<Rightarrow> csha1 \<Rightarrow> bytes \<Rightarrow> bytes list \<Rightarrow> http_conn \<Rightarrow> (bytes \<times> http_conn) option" where
  "deliver_blocks u0 raw kept [] c = Some (kept, c)"
| "deliver_blocks u0 raw kept (b # bs) c =
     (case http_on_data u0 raw (kept @ b) c of
        None \<Rightarrow> None
      | Some (n, c') \<Rightarrow> deliver_blocks u0 raw (drop n (kept @ b)) bs c')"

text \<open>Any prefix of a stream of frames is whole frames and a part of one.\<close>

lemma cut_stream:
  assumes "\<forall>m \<in> set ms. message_ok m" "xs @ ys = concat (map message_frame ms)"
  obtains ms1 ms2 rest where "ms = ms1 @ ms2" "xs = concat (map message_frame ms1) @ rest"
    "rest @ ys = concat (map message_frame ms2)"
    "partial_frame rest"
proof -
  have "\<exists>ms1 ms2 rest. ms = ms1 @ ms2 \<and> xs = concat (map message_frame ms1) @ rest \<and>
      rest @ ys = concat (map message_frame ms2) \<and>
      partial_frame rest"
    using assms
  proof (induction ms arbitrary: xs)
    case Nil
    then show ?case by (simp add: partial_frame_def)
  next
    case (Cons m ms)
    show ?case
    proof (cases "length xs < length (message_frame m)")
      case True
      then have "xs = take (length xs) (message_frame m)"
        using Cons.prems(2) append_eq_conv_conj [of xs ys "message_frame m @ concat (map message_frame ms)"] by simp
      then have "partial_frame xs" using Cons.prems(1) True unfolding partial_frame_def by (metis list.set_intros(1))
      then show ?thesis using Cons.prems by (intro exI [of _ "[]"] exI [of _ "m # ms"] exI [of _ xs]) simp
    next
      case False
      define xs' where "xs' = drop (length (message_frame m)) xs"
      have "take (length (message_frame m)) xs = message_frame m"
        using arg_cong [OF Cons.prems(2), of "take (length (message_frame m))"] False by simp
      then have xs': "xs = message_frame m @ xs'" by (metis append_take_drop_id xs'_def)
      then have ys: "xs' @ ys = concat (map message_frame ms)" using Cons.prems(2) by simp
      obtain ms1 ms2 rest where "ms = ms1 @ ms2" "xs' = concat (map message_frame ms1) @ rest"
        "rest @ ys = concat (map message_frame ms2)"
        "partial_frame rest"
        using Cons.IH [of xs'] Cons.prems(1) ys by auto
      then show ?thesis using xs' by (intro exI [of _ "m # ms1"] exI [of _ ms2] exI [of _ rest]) simp
    qed
  qed
  then show thesis using that by blast
qed

lemma deliver_frames:
  assumes "\<forall>m \<in> set ms. message_ok m" "mIsWebSocket (hp_data (conn_parser c))" "mWSCacheFrame c = []" "mWSCallback c"
    "map of_char (kept @ concat blocks) = concat (map message_frame ms)"
  shows "\<exists>c'. deliver_blocks u0 raw kept blocks c = Some ([], c') \<and> http_out c' = http_out c @ map message_event ms
    \<or> blocks = []"
  using assms
proof (induction blocks arbitrary: kept ms c)
  case (Cons b blocks)
  obtain ms1 ms2 rest where cut: "ms = ms1 @ ms2" "map of_char (kept @ b) = concat (map message_frame ms1) @ rest"
    "rest @ map of_char (concat blocks) = concat (map message_frame ms2)"
    "partial_frame rest"
    by (rule cut_stream [OF Cons.prems(1), of "map of_char (kept @ b)" "map of_char (concat blocks)"])
      (use Cons.prems(5) in auto)
  let ?n = "length (concat (map message_frame ms1))"
  obtain c1 where c1: "http_on_data u0 raw (kept @ b) c = Some (?n, c1)" "http_out c1 = http_out c @ map message_event ms1"
    "mWSCacheFrame c1 = []" "mWSCallback c1" "conn_parser c1 = conn_parser c"
    using ws_frames_run [of ms1 c rest 0] cut Cons.prems by (auto simp: http_on_data_def)
  have rest: "map of_char (drop ?n (kept @ b)) = rest"
    using cut(2) by (simp only: drop_map [symmetric]) simp
  show ?case
  proof (cases blocks)
    case Nil
    then have "rest = [] \<and> ms2 = []"
    proof -
      have eq: "rest = concat (map message_frame ms2)" using cut(3) Nil by simp
      have "ms2 = []"
      proof (rule ccontr)
        assume "ms2 \<noteq> []"
        then obtain m ms3 where ms3: "ms2 = m # ms3" "message_ok m" using cut(1) Cons.prems(1) by (cases ms2) auto
        then have "rest \<noteq> []" using eq message_size by auto
        then obtain out where "wsFrameExtractBuffer rest no_frame = Some (False, out)"
          using cut(4) partial_frame_waits by blast
        then show False using extract_message [OF ms3(2), of "concat (map message_frame ms3)"] eq ms3(1) by simp
      qed
      then show ?thesis using eq by simp
    qed
    then show ?thesis using c1 rest cut(1) Nil by simp
  next
    case (Cons b' bs')
    have "\<exists>c'. deliver_blocks u0 raw (drop ?n (kept @ b)) blocks c1 = Some ([], c') \<and>
        http_out c' = http_out c1 @ map message_event ms2 \<or> blocks = []"
    proof (rule Cons.IH)
      show "map of_char (drop ?n (kept @ b) @ concat blocks) = concat (map message_frame ms2)"
        by (simp only: map_append rest cut(3))
    qed (use cut(1) Cons.prems c1 in auto)
    then show ?thesis using c1 cut(1) Cons by auto
  qed
qed simp

text \<open>
  C15. WebSocket messages survive the network: however the stream of the frames of any messages is cut into blocks, masked or
  not, the handler calls the callback with exactly these messages, in order, and consumes every byte. Each message is one final frame of text,
  binary, ping, pong or close data that is shorter than two gigabytes; a message in several frames fails an assertion (\<open>ws_fragment_asserts\<close>).
\<close>

theorem ws_stream_delivered:
  assumes "\<forall>m \<in> set ms. message_ok m" "mIsWebSocket (hp_data (conn_parser c))" "mWSCacheFrame c = []" "mWSCallback c"
    "map of_char (concat blocks) = concat (map message_frame ms)"
  shows "\<exists>kept c'. deliver_blocks u0 raw [] blocks c = Some (kept, c') \<and> kept = [] \<and>
    http_out c' = http_out c @ map message_event ms"
proof (cases "blocks = []")
  case True
  then have "ms = []" using assms(1,5) message_size(2) by (cases ms) auto
  then show ?thesis using True by simp
next
  case False
  then show ?thesis using deliver_frames [of ms c "[]" blocks u0 raw] assms by auto
qed


section \<open>What goes wrong\<close>

text \<open>
  A fragmented message ends the process: the first frame of a fragmented text or binary message, which is not
  final, reaches the failing assertion of the handler, whatever follows it.
\<close>

theorem ws_fragment_asserts:
  assumes "length payload < 2 ^ 31" "ty \<in> {TEXT_FRAME, BINARY_FRAME}"
    "masking = None \<or> (\<exists>key. masking = Some key \<and> length key = 4)"
    "mIsWebSocket (hp_data (conn_parser c))" "map of_char buffer = wsFrameBuild payload ty False masking @ rest"
  shows "http_on_data u0 raw buffer c = None"
proof -
  have "ty \<noteq> ERROR_FRAME" using assms(2) by auto
  note e = ws_frame_extract [OF assms(1) this assms(3), of False rest no_frame]
  have "wsFrameBuild payload ty False masking \<noteq> []" by (auto simp: wsFrameBuild_def Let_def split: option.splits)
  then show ?thesis
    using e assms(2,4,5)
    by (auto simp: http_on_data_def ws_dispatch_def ws_frames.simps [of "wsFrameBuild payload ty False masking @ rest"])
qed

text \<open>
  After a complete request without a \<^verbatim>\<open>Keep-Alive\<close> header field the connection stays open but is never ready for
  another one: every further block is left in the buffer, and the callback is called with the old request again.
\<close>

theorem completed_request_replayed:
  assumes "mISCompleted (hp_data (conn_parser c))" "\<not> mIsWebSocket (hp_data (conn_parser c))"
    "\<not> mIsKeepAlive (hp_data (conn_parser c))" "mHttpRequestCallback c"
  shows "http_on_data u0 raw buffer c = Some (0, http_log (HttpMessage (hp_data (conn_parser c))) c)"
  using assms by (simp add: http_on_data_def tryParse_def http_complete_def http_log_def)

section \<open>The handshake\<close>

text \<open>The answer, with the Base64 form of the hash in its definition by blocks of three bytes.\<close>

definition handshake_answer :: "string \<Rightarrow> string" where
  "handshake_answer key =
     ''HTTP/1.1 101 Switching Protocols'' @ RL @ ''Upgrade: websocket'' @ RL @ ''Connection: Upgrade'' @ RL @
     ''Sec-WebSocket-Accept: '' @
     encode_blocks (sha1_hash (map of_char (key @ ''258EAFA5-E914-47DA-95CA-C5AB0DC85B11''))) @ RL @ RL"

lemma sha1_hash_length: "length (sha1_hash msg) = 20"
proof -
  have "length (concat (map big_bytes ws)) = 4 * length ws" for ws :: "uint32_t list" by (induction ws) (auto simp: big_bytes_def)
  then show ?thesis by (simp add: sha1_hash_def compress_blocks_length sha1_start_def)
qed

lemma handshake_run:
  assumes "length (m_buffer raw) = 64" "length key + 100 \<le> 2 ^ 32"
  shows "wsHandshake raw key = Some (handshake_answer key)"
proof -
  define whole where "whole = key @ ''258EAFA5-E914-47DA-95CA-C5AB0DC85B11''"
  have "length (map of_char whole :: uint8_t list) + 64 \<le> 2 ^ 32" using assms(2) by (simp add: whole_def)
  from hash_run [OF assms(1) this] obtain s1 s2 where
    "Update (map of_char whole) (of_nat (length whole)) (new_csha1 raw) = Some s1" "Final s1 = Some s2"
    "GetHash s2 = sha1_hash (map of_char whole)" by auto
  moreover have "base64_encode (sha1_hash (map of_char whole)) 20 = Some (encode_blocks (sha1_hash (map of_char whole)))"
    using encode_is_blocks [of "sha1_hash (map of_char whole)"] by (simp add: sha1_hash_length)
  ultimately show ?thesis by (simp add: wsHandshake_def handshake_answer_def Let_def flip: whole_def)
qed

text \<open>
  C17. The request that upgrades a connection is answered as RFC 6455 demands: the handler sends the switching
  response whose \<^verbatim>\<open>Sec-WebSocket-Accept\<close> is the Base64 form of the SHA-1 of the key and the fixed identifier, then it calls
  the callback for the new connection; the handler consumes what the parser consumed.
\<close>

theorem upgrade_answered:
  assumes "length (m_buffer raw) = 64" "\<not> mIsWebSocket (hp_data (conn_parser c))"
    "tryParse u0 HTTP_BOTH (conn_parser c) buffer = Some (n, q)" "mISCompleted (hp_data q)" "mIsWebSocket (hp_data q)"
    "hasKey (hp_data q) ''Sec-WebSocket-Key''" "length (getValue (hp_data q) ''Sec-WebSocket-Key'') + 100 \<le> 2 ^ 32"
    "mWSConnectedCallback c"
  shows "http_on_data u0 raw buffer c =
     Some (n, c\<lparr>conn_parser := q, http_out := http_out c @
       [SendBytes (handshake_answer (getValue (hp_data q) ''Sec-WebSocket-Key'')), WsConnected (hp_data q)]\<rparr>)"
  using assms by (simp add: http_on_data_def http_complete_def http_log_def handshake_run Let_def)

section \<open>Witnesses\<close>

definition get_request :: bytes where
  "get_request = ''GET /a HTTP/1.1'' @ RL @ ''Connection: keep-alive'' @ RL @ RL"

lemma first_request:
  "case http_on_data url0 raw_sha1 get_request new_http_conn of
     Some (n, c) \<Rightarrow> n = length get_request \<and> mISCompleted (hp_data (conn_parser c)) \<and> \<not> mIsWebSocket (hp_data (conn_parser c)) \<and>
       \<not> mIsKeepAlive (hp_data (conn_parser c)) \<and> mHttpRequestCallback c \<and> length (http_out c) = 1
   | None \<Rightarrow> False"
  by code_simp

theorem completed_request_replayed_witness:
  "case http_on_data url0 raw_sha1 get_request new_http_conn of
     Some (n, c) \<Rightarrow> http_on_data url0 raw_sha1 ''GET /b HTTP/1.1'' c = Some (0, http_log (HttpMessage (hp_data (conn_parser c))) c)
   | None \<Rightarrow> False"
  using first_request completed_request_replayed [of _ url0 raw_sha1 "''GET /b HTTP/1.1''"]
  by (auto split: option.splits)

definition ws_conn :: http_conn where
  "ws_conn = new_http_conn\<lparr>conn_parser := (conn_parser new_http_conn)\<lparr>hp_data := new_HTTPParser\<lparr>mIsWebSocket := True\<rparr>\<rparr>\<rparr>"

theorem ws_fragment_asserts_witness: "http_on_data url0 raw_sha1 [CHR 0x01, CHR 0x01, CHR ''a''] ws_conn = None"
proof (rule ws_fragment_asserts)
  show "map of_char [CHR 0x01, CHR 0x01, CHR ''a''] = wsFrameBuild [97] TEXT_FRAME False None @ []" by code_simp
qed (simp_all add: ws_conn_def)

theorem ws_stream_delivered_witness:
  "\<exists>c'. deliver_blocks url0 raw_sha1 [] [[CHR 0x81], [CHR 0x01, CHR ''a'', CHR 0x89], [CHR 0x00]] ws_conn = Some ([], c') \<and>
     http_out c' = [WsMessage 1 [97], WsMessage 9 []]"
proof -
  have "map of_char (concat [[CHR 0x81], [CHR 0x01, CHR ''a'', CHR 0x89], [CHR 0x00]]) =
      concat (map message_frame [([97], TEXT_FRAME, None), ([], PING_FRAME, None)])"
    by code_simp
  from ws_stream_delivered [OF _ _ _ _ this, of ws_conn url0 raw_sha1] show ?thesis
    by (simp add: message_ok_def ws_conn_def new_http_conn_def message_event_def)
qed

definition upgrade_request :: bytes where
  "upgrade_request = ''GET / HTTP/1.1'' @ RL @ ''Upgrade: websocket'' @ RL @ ''Sec-WebSocket-Key: k'' @ RL @ RL"

lemma upgrade_parsed:
  "case tryParse url0 HTTP_BOTH (conn_parser new_http_conn) upgrade_request of
     Some (n, q) \<Rightarrow> n = length upgrade_request \<and> mISCompleted (hp_data q) \<and> mIsWebSocket (hp_data q) \<and>
       hasKey (hp_data q) ''Sec-WebSocket-Key'' \<and> getValue (hp_data q) ''Sec-WebSocket-Key'' = ''k''
   | None \<Rightarrow> False"
  by code_simp

theorem upgrade_answered_witness:
  "\<exists>q. http_on_data url0 raw_sha1 upgrade_request new_http_conn =
     Some (length upgrade_request, new_http_conn\<lparr>conn_parser := q, http_out :=
       [SendBytes (handshake_answer ''k''), WsConnected (hp_data q)]\<rparr>)"
proof -
  have "\<not> mIsWebSocket (hp_data (conn_parser new_http_conn))" by code_simp
  moreover obtain n q where "tryParse url0 HTTP_BOTH (conn_parser new_http_conn) upgrade_request = Some (n, q)"
    using upgrade_parsed by (auto split: option.splits)
  ultimately show ?thesis
    using upgrade_parsed upgrade_answered [of raw_sha1 new_http_conn url0 upgrade_request n q]
    by (auto simp: raw_sha1_def new_http_conn_def)
qed

end
