(* ===== verification/Connector.thy ===== *)
theory Connector
  imports Ox_FdSet Msg_Queue "HOL-Library.Monad_Syntax" "HOL-Library.Multiset"
begin

text \<open>
  Asynchronous connecting, \<^verbatim>\<open>src/net/Connector.cpp\<close>: a thread takes requests from the queue of \<open>Msg_Queue\<close>, watches the
  connecting descriptors with the set of \<open>Ox_FdSet\<close>, and reports every request to a callback. The kernel is the
  record \<open>conn_env\<close> over an abstract state; \<open>completed\<close> collects the calls of the callback. \<open>None\<close> is a null
  pointer, an access outside the descriptor set or an overflow of its size.
\<close>

section \<open>State\<close>

record connect_addr =
  mIP :: string
  mPort :: int
  mTimeout :: int
  mUid :: int

record connecting_info =
  startConnectTime :: int
  ci_timeout :: int
  ci_uid :: int

text \<open>\<^verbatim>\<open>std::map\<close> and \<^verbatim>\<open>std::set\<close> as lists in ascending order of their keys.\<close>

fun cmap_set :: "int \<Rightarrow> 'v \<Rightarrow> (int \<times> 'v) list \<Rightarrow> (int \<times> 'v) list" where
  "cmap_set k v [] = [(k, v)]"
| "cmap_set k v ((k', v') # m) =
     (if k < k' then (k, v) # (k', v') # m else if k = k' then (k, v) # m else (k', v') # cmap_set k v m)"

definition cmap_erase :: "int \<Rightarrow> (int \<times> 'v) list \<Rightarrow> (int \<times> 'v) list" where
  "cmap_erase k m = filter (\<lambda>(k', v). k' \<noteq> k) m"

fun cset_insert :: "int \<Rightarrow> int list \<Rightarrow> int list" where
  "cset_insert k [] = [k]"
| "cset_insert k (k' # s) = (if k < k' then k # k' # s else if k = k' then k' # s else k' # cset_insert k s)"

definition cset_erase :: "int \<Rightarrow> int list \<Rightarrow> int list" where
  "cset_erase k s = filter (\<lambda>k'. k' \<noteq> k) s"

record 'k connector =
  mConnectingInfos :: "(int \<times> connecting_info) list"
  mConnectingFds :: "int list"
  mFDSet :: "fdset_s option"
  conn_kernel :: 'k
  completed :: "(int \<times> int) list"

text \<open>
  \<open>ce_connect\<close> gives the result of \<^verbatim>\<open>connect\<close> and whether the error is \<^verbatim>\<open>EINPROGRESS\<close>; \<open>ce_sockopt\<close> whether
  \<^verbatim>\<open>getsockopt\<close> succeeded and the pending error; \<open>ce_done\<close> what the callback does to the kernel.
\<close>

record 'k conn_env =
  ce_socket :: "'k \<Rightarrow> int \<times> 'k"
  ce_connect :: "int \<Rightarrow> connect_addr \<Rightarrow> 'k \<Rightarrow> int \<times> bool \<times> 'k"
  ce_sockopt :: "int \<Rightarrow> 'k \<Rightarrow> bool \<times> int \<times> 'k"
  ce_close :: "int \<Rightarrow> 'k \<Rightarrow> 'k"
  ce_poll :: "'k \<Rightarrow> poll_call"
  ce_polled :: "'k \<Rightarrow> 'k"
  ce_now :: "'k \<Rightarrow> int"
  ce_done :: "int \<Rightarrow> int \<Rightarrow> 'k \<Rightarrow> 'k"
  ce_malloc :: "nat \<Rightarrow> bool"
  ce_junk :: "nat \<Rightarrow> pollfd"

abbreviation NO_SOCK :: int where "NO_SOCK \<equiv> -1"

definition close_fd :: "'k conn_env \<Rightarrow> int \<Rightarrow> 'k connector \<Rightarrow> 'k connector" where
  "close_fd env fd c = c\<lparr>conn_kernel := ce_close env fd (conn_kernel c)\<rparr>"

definition mCallback :: "'k conn_env \<Rightarrow> int \<Rightarrow> int \<Rightarrow> 'k connector \<Rightarrow> 'k connector" where
  "mCallback env fd uid c =
     c\<lparr>completed := completed c @ [(fd, uid)], conn_kernel := ce_done env fd uid (conn_kernel c)\<rparr>"

section \<open>The worker\<close>

definition isConnectSuccess :: "'k conn_env \<Rightarrow> int \<Rightarrow> 'k connector \<Rightarrow> (bool \<times> 'k connector) option" where
  "isConnectSuccess env clientfd c =
     do {
       s \<leftarrow> mFDSet c;
       w \<leftarrow> ox_fdset_check s clientfd WriteCheck;
       Some (if w then
               (case ce_sockopt env clientfd (conn_kernel c) of
                  (ok, error, k) \<Rightarrow> (ok \<and> error = 0, c\<lparr>conn_kernel := k\<rparr>))
             else (False, c))
     }"

text \<open>The first loop; the result is the two sets and the state.\<close>

fun collect_fds ::
  "'k conn_env \<Rightarrow> int list \<Rightarrow> int list \<Rightarrow> int list \<Rightarrow> 'k connector \<Rightarrow> (int list \<times> int list \<times> 'k connector) option" where
  "collect_fds env [] complete_fds failed_fds c = Some (complete_fds, failed_fds, c)"
| "collect_fds env (v # vs) complete_fds failed_fds c =
     do {
       s \<leftarrow> mFDSet c;
       e \<leftarrow> ox_fdset_check s v ErrorCheck;
       if e then collect_fds env vs (cset_insert v complete_fds) (cset_insert v failed_fds) c
       else do {
         w \<leftarrow> ox_fdset_check s v WriteCheck;
         if w then do {
           (ok, c') \<leftarrow> isConnectSuccess env v c;
           collect_fds env vs (cset_insert v complete_fds) (if ok then failed_fds else cset_insert v failed_fds) c'
         }
         else collect_fds env vs complete_fds failed_fds c
       }
     }"

definition unwatch :: "int \<Rightarrow> 'k connector \<Rightarrow> 'k connector option" where
  "unwatch fd c =
     do { s \<leftarrow> mFDSet c; s' \<leftarrow> ox_fdset_del s fd (WriteCheck OR ErrorCheck); Some (c\<lparr>mFDSet := Some s'\<rparr>) }"

definition complete_fd :: "'k conn_env \<Rightarrow> int list \<Rightarrow> int \<Rightarrow> 'k connector \<Rightarrow> 'k connector option" where
  "complete_fd env failed_fds fd c =
     do {
       c1 \<leftarrow> unwatch fd c;
       let c2 = (case map_of (mConnectingInfos c1) fd of
                   None \<Rightarrow> c1
                 | Some it \<Rightarrow>
                     let c' = (if fd \<in> set failed_fds then mCallback env NO_SOCK (ci_uid it) (close_fd env fd c1)
                               else mCallback env fd (ci_uid it) c1)
                     in c'\<lparr>mConnectingInfos := cmap_erase fd (mConnectingInfos c')\<rparr>);
       Some (c2\<lparr>mConnectingFds := cset_erase fd (mConnectingFds c2)\<rparr>)
     }"

fun complete_all :: "'k conn_env \<Rightarrow> int list \<Rightarrow> int list \<Rightarrow> 'k connector \<Rightarrow> 'k connector option" where
  "complete_all env failed_fds [] c = Some c"
| "complete_all env failed_fds (fd # fds) c =
     do { c' \<leftarrow> complete_fd env failed_fds fd c; complete_all env failed_fds fds c' }"

definition checkConnectStatus :: "'k conn_env \<Rightarrow> int \<Rightarrow> 'k connector \<Rightarrow> 'k connector option" where
  "checkConnectStatus env timeout c =
     do {
       s \<leftarrow> mFDSet c;
       (r, s') \<leftarrow> ox_fdset_poll (ce_poll env (conn_kernel c)) s timeout;
       let c' = c\<lparr>mFDSet := Some s', conn_kernel := ce_polled env (conn_kernel c)\<rparr>;
       if r \<le> 0 then Some c'
       else do {
         (complete_fds, failed_fds, c'') \<leftarrow> collect_fds env (mConnectingFds c') [] [] c';
         complete_all env failed_fds complete_fds c''
       }
     }"

text \<open>The iterator goes over the map as it was; only entries it has passed are erased.\<close>

fun timeout_loop :: "'k conn_env \<Rightarrow> int \<Rightarrow> (int \<times> connecting_info) list \<Rightarrow> 'k connector \<Rightarrow> 'k connector option" where
  "timeout_loop env now_time [] c = Some c"
| "timeout_loop env now_time ((fd, it) # rest) c =
     (if now_time - startConnectTime it \<ge> ci_timeout it then
        do {
          c1 \<leftarrow> unwatch fd c;
          let c2 = c1\<lparr>mConnectingFds := cset_erase fd (mConnectingFds c1),
                      mConnectingInfos := cmap_erase fd (mConnectingInfos c1)\<rparr>;
          timeout_loop env now_time rest (mCallback env NO_SOCK (ci_uid it) (close_fd env fd c2))
        }
      else timeout_loop env now_time rest c)"

definition checkTimeout :: "'k conn_env \<Rightarrow> 'k connector \<Rightarrow> 'k connector option" where
  "checkTimeout env c = timeout_loop env (ce_now env (conn_kernel c)) (mConnectingInfos c) c"

definition start_connect :: "'k conn_env \<Rightarrow> connect_addr \<Rightarrow> 'k connector \<Rightarrow> 'k connector option" where
  "start_connect env addr c =
     (case ce_socket env (conn_kernel c) of
        (clientfd, k1) \<Rightarrow>
          if clientfd = NO_SOCK then Some (mCallback env NO_SOCK (mUid addr) (c\<lparr>conn_kernel := k1\<rparr>))
          else
            (case ce_connect env clientfd addr k1 of
               (n, in_progress, k2) \<Rightarrow>
                 let c1 = c\<lparr>conn_kernel := k2\<rparr>
                 in if n < 0 then
                      if \<not> in_progress then Some (mCallback env NO_SOCK (mUid addr) (close_fd env clientfd c1))
                      else
                        let ci = \<lparr>startConnectTime = ce_now env (conn_kernel c1), ci_timeout = mTimeout addr,
                                  ci_uid = mUid addr\<rparr>
                        in do {
                             s \<leftarrow> mFDSet c1;
                             s' \<leftarrow> ox_fdset_add (ce_malloc env) (ce_junk env) s clientfd (WriteCheck OR ErrorCheck);
                             Some (c1\<lparr>mConnectingInfos := cmap_set clientfd ci (mConnectingInfos c1),
                                      mConnectingFds := cset_insert clientfd (mConnectingFds c1), mFDSet := Some s'\<rparr>)
                           }
                    else if n = 0 then Some (mCallback env clientfd (mUid addr) c1)
                    else Some (mCallback env NO_SOCK (mUid addr) c1)))"

text \<open>The loop over the queue, given by the number of messages it holds.\<close>

function pollConnectRequest ::
  "'k conn_env \<Rightarrow> connect_addr msg_queue \<Rightarrow> 'k connector \<Rightarrow> (connect_addr msg_queue \<times> 'k connector) option" where
  "pollConnectRequest env q c =
     (case popBack q of
        (None, q') \<Rightarrow> Some (q', c)
      | (Some addr, q') \<Rightarrow> do { c' \<leftarrow> start_connect env addr c; pollConnectRequest env q' c' })"
  by pat_completeness auto
termination
  by (relation "measure (\<lambda>(env, q, c). length (mReadList q))", simp)
    (auto simp: popBack_def split: list.splits if_split_asm)

declare pollConnectRequest.simps [simp del]

definition new_connector :: "fdset_s option \<Rightarrow> 'k \<Rightarrow> 'k connector" where
  "new_connector s k =
     \<lparr>mConnectingInfos = [], mConnectingFds = [], mFDSet = s, conn_kernel = k, completed = []\<rparr>"

section \<open>The thread\<close>

text \<open>\<open>Dangling\<close> is a pointer to a deleted thread object.\<close>

datatype thread_ptr = No_Thread | Running_Thread | Dangling

record 'k thread_connector =
  mConnectRequests :: "connect_addr msg_queue"
  mThread :: thread_ptr
  mIsRun :: bool
  conn_worker :: "'k connector"

definition startThread :: "'k thread_connector \<Rightarrow> 'k thread_connector" where
  "startThread tc = (if mThread tc = No_Thread then tc\<lparr>mIsRun := True, mThread := Running_Thread\<rparr> else tc)"

definition destroy :: "'k thread_connector \<Rightarrow> 'k thread_connector option" where
  "destroy tc =
     (case mThread tc of
        No_Thread \<Rightarrow> Some tc
      | Running_Thread \<Rightarrow> Some (tc\<lparr>mIsRun := False, mThread := Dangling\<rparr>)
      | Dangling \<Rightarrow> None)"

definition asyncConnect :: "connect_addr \<Rightarrow> 'k thread_connector \<Rightarrow> 'k thread_connector" where
  "asyncConnect addr tc = tc\<lparr>mConnectRequests := snd (forceSyncWrite (mq_push addr (mConnectRequests tc)))\<rparr>"

text \<open>One iteration of \<^verbatim>\<open>run\<close>, after the wait in the event loop.\<close>

definition run_iteration :: "'k conn_env \<Rightarrow> 'k thread_connector \<Rightarrow> 'k thread_connector option" where
  "run_iteration env tc =
     do {
       c1 \<leftarrow> checkConnectStatus env 0 (conn_worker tc);
       (q, c2) \<leftarrow> pollConnectRequest env (snd (syncRead 0 (mConnectRequests tc))) c1;
       c3 \<leftarrow> checkTimeout env c2;
       Some (tc\<lparr>conn_worker := c3, mConnectRequests := q\<rparr>)
     }"

end
