(* ===== verification/Connector_Props.thy ===== *)
theory Connector_Props
  imports Connector
begin

text \<open>
  Every request to connect is reported exactly once: over all iterations of the thread and all answers of the kernel
  the requests are those reported, those connecting and those in the queue.
\<close>

section \<open>The kernel\<close>

text \<open>
  What the descriptors rely on. \<open>opened\<close> are the open descriptors: \<^verbatim>\<open>socket\<close> returns one that was not open, \<^verbatim>\<open>close\<close>
  closes its argument, \<^verbatim>\<open>poll\<close> changes only \<^verbatim>\<open>revents\<close>, and the callback closes at most the descriptor it is given.
\<close>

definition kernel_ok :: "'k conn_env \<Rightarrow> ('k \<Rightarrow> int set) \<Rightarrow> bool" where
  "kernel_ok env opened \<longleftrightarrow>
     (\<forall>k. let (fd, k') = ce_socket env k
          in if fd = NO_SOCK then opened k' = opened k else fd \<notin> opened k \<and> opened k' = insert fd (opened k)) \<and>
     (\<forall>fd addr k. opened (snd (snd (ce_connect env fd addr k))) = opened k) \<and>
     (\<forall>fd k. opened (snd (snd (ce_sockopt env fd k))) = opened k) \<and>
     (\<forall>fd k. opened (ce_close env fd k) = opened k - {fd}) \<and>
     (\<forall>k. opened (ce_polled env k) = opened k) \<and>
     (\<forall>fd uid k. opened k - {fd} \<subseteq> opened (ce_done env fd uid k)) \<and>
     (\<forall>k es t. map fd_pair (snd (snd (ce_poll env k es t))) = map fd_pair es)"

lemma kernel_okD:
  assumes "kernel_ok env opened"
  shows "ce_socket env k = (NO_SOCK, k') \<Longrightarrow> opened k' = opened k"
    "ce_socket env k = (fd, k') \<Longrightarrow> fd \<noteq> NO_SOCK \<Longrightarrow> fd \<notin> opened k \<and> opened k' = insert fd (opened k)"
    "ce_connect env fd addr k = (n, b, k') \<Longrightarrow> opened k' = opened k"
    "ce_sockopt env fd k = (ok, error, k') \<Longrightarrow> opened k' = opened k"
    "opened (ce_close env fd k) = opened k - {fd}" "opened (ce_polled env k) = opened k"
    "opened k - {fd} \<subseteq> opened (ce_done env fd uid k)"
    "map fd_pair (snd (snd (ce_poll env k es t))) = map fd_pair es"
proof -
  note a = assms [unfolded kernel_ok_def]
  show "ce_socket env k = (NO_SOCK, k') \<Longrightarrow> opened k' = opened k"
    using a [THEN conjunct1, rule_format, of k] by simp
  show "ce_socket env k = (fd, k') \<Longrightarrow> fd \<noteq> NO_SOCK \<Longrightarrow> fd \<notin> opened k \<and> opened k' = insert fd (opened k)"
    using a [THEN conjunct1, rule_format, of k] by simp
  show "ce_connect env fd addr k = (n, b, k') \<Longrightarrow> opened k' = opened k"
    using a [THEN conjunct2, THEN conjunct1, rule_format, of fd addr k] by simp
  show "ce_sockopt env fd k = (ok, error, k') \<Longrightarrow> opened k' = opened k"
    using a [THEN conjunct2, THEN conjunct2, THEN conjunct1, rule_format, of fd k] by simp
qed (use assms in \<open>simp_all add: kernel_ok_def\<close>)

section \<open>The invariant\<close>

definition conn_inv :: "('k \<Rightarrow> int set) \<Rightarrow> 'k connector \<Rightarrow> bool" where
  "conn_inv opened c \<longleftrightarrow>
     (\<exists>s. mFDSet c = Some s \<and> fdset_wf s) \<and> map fst (mConnectingInfos c) = mConnectingFds c \<and>
     distinct (mConnectingFds c) \<and> set (mConnectingFds c) \<subseteq> opened (conn_kernel c) - {NO_SOCK}"

text \<open>The size of the descriptor set leaves room for \<open>n\<close> more growths.\<close>

definition conn_room :: "nat \<Rightarrow> 'k connector \<Rightarrow> bool" where
  "conn_room n c \<longleftrightarrow> (\<forall>s. mFDSet c = Some s \<longrightarrow> int_ok (limitSize s + 128 * int n))"

definition account :: "'k connector \<Rightarrow> int multiset" where
  "account c = mset (map snd (completed c)) + mset (map (\<lambda>(fd, it). ci_uid it) (mConnectingInfos c))"

lemma cset_insert_set [simp]: "set (cset_insert k s) = insert k (set s)"
  by (induction s) auto

lemma cset_insert_distinct: "k \<notin> set s \<Longrightarrow> distinct s \<Longrightarrow> distinct (cset_insert k s)"
  by (induction s) auto

lemma cmap_set_keys: "map fst (cmap_set k v m) = cset_insert k (map fst m)"
  by (induction m) auto

lemma cmap_set_mset: "k \<notin> set (map fst m) \<Longrightarrow> mset (cmap_set k v m) = add_mset (k, v) (mset m)"
  by (induction m) auto

lemma cmap_erase_keys: "map fst (cmap_erase k m) = cset_erase k (map fst m)"
  by (induction m) (auto simp: cmap_erase_def cset_erase_def)

lemma cset_erase_facts [simp]: "set (cset_erase k s) = set s - {k}" "distinct s \<Longrightarrow> distinct (cset_erase k s)"
  by (auto simp: cset_erase_def)

lemma cmap_erase_mset:
  assumes "distinct (map fst m)" "map_of m k = Some v"
  shows "mset m = add_mset (k, v) (mset (cmap_erase k m))"
  using assms
proof (induction m)
  case (Cons p m)
  show ?case
  proof (cases "fst p = k")
    case True
    then have "\<forall>p' \<in> set m. fst p' \<noteq> k" using Cons.prems(1) by (metis distinct.simps(2) image_eqI list.set_map list.simps(9))
    then have "cmap_erase k m = m" by (auto simp: cmap_erase_def filter_id_conv)
    then show ?thesis using True Cons.prems by (cases p) (auto simp: cmap_erase_def)
  next
    case False
    then show ?thesis using Cons by (cases p) (auto simp: cmap_erase_def)
  qed
qed simp

lemma room_mono: "conn_room n c \<Longrightarrow> m \<le> n \<Longrightarrow> conn_inv opened c \<Longrightarrow> conn_room m c"
  by (auto simp: conn_room_def conn_inv_def int_ok_def fdset_wf_def)

lemma no_sock: "conn_inv opened c \<Longrightarrow> NO_SOCK \<notin> set (mConnectingFds c)"
  by (auto simp: conn_inv_def)

lemma callback_inv:
  assumes "kernel_ok env opened" "conn_inv opened c" "fd \<notin> set (mConnectingFds c)"
  shows "conn_inv opened (mCallback env fd uid c)"
    and "account (mCallback env fd uid c) = add_mset uid (account c)" and "conn_room n (mCallback env fd uid c) = conn_room n c"
proof -
  have "set (mConnectingFds c) \<subseteq> opened (conn_kernel c) - {fd} - {NO_SOCK}" using assms(2,3) by (auto simp: conn_inv_def)
  then show "conn_inv opened (mCallback env fd uid c)"
    using assms(2) kernel_okD(7) [OF assms(1), of "conn_kernel c" fd uid] by (auto simp: conn_inv_def mCallback_def)
qed (simp_all add: mCallback_def account_def conn_room_def)

lemma close_inv:
  assumes "kernel_ok env opened" "conn_inv opened c" "fd \<notin> set (mConnectingFds c)"
  shows "conn_inv opened (close_fd env fd c)" "account (close_fd env fd c) = account c"
    "conn_room n (close_fd env fd c) = conn_room n c" "mConnectingFds (close_fd env fd c) = mConnectingFds c"
  using assms kernel_okD(5) [OF assms(1)] by (auto simp: conn_inv_def close_fd_def account_def conn_room_def)

lemma kernel_inv:
  assumes "conn_inv opened c" "opened (conn_kernel c) \<subseteq> opened k"
  shows "conn_inv opened (c\<lparr>conn_kernel := k\<rparr>)" "account (c\<lparr>conn_kernel := k\<rparr>) = account c"
    "conn_room n (c\<lparr>conn_kernel := k\<rparr>) = conn_room n c"
  using assms by (auto simp: conn_inv_def account_def conn_room_def)

section \<open>Requests\<close>

text \<open>Starting one request accounts for it.\<close>

lemma start_connect_inv:
  assumes env: "kernel_ok env opened" and inv: "conn_inv opened c" and room: "conn_room (Suc n) c"
  shows "\<exists>c'. start_connect env addr c = Some c' \<and> conn_inv opened c' \<and> conn_room n c' \<and>
    account c' = add_mset (mUid addr) (account c)"
proof -
  have room0: "conn_room n c" using room_mono [OF room _ inv] by simp
  obtain fd k1 where sk: "ce_socket env (conn_kernel c) = (fd, k1)" by (cases "ce_socket env (conn_kernel c)")
  have refused: "\<exists>c'. c' = mCallback env f (mUid addr) d \<and> conn_inv opened c' \<and> conn_room n c' \<and> account c' = add_mset (mUid addr) (account c)"
    if "conn_inv opened d" "conn_room n d" "account d = account c" "f \<notin> set (mConnectingFds d)" for d f
    using callback_inv [OF env that(1,4), where uid = "mUid addr"] that by simp
  show ?thesis
  proof (cases "fd = NO_SOCK")
    case True
    have "opened k1 = opened (conn_kernel c)" using kernel_okD(1) [OF env] sk True by simp
    then have d: "conn_inv opened (c\<lparr>conn_kernel := k1\<rparr>)" "conn_room n (c\<lparr>conn_kernel := k1\<rparr>)"
      "account (c\<lparr>conn_kernel := k1\<rparr>) = account c"
      using kernel_inv [OF inv, of k1] room0 by simp_all
    then show ?thesis using refused [OF d no_sock [OF d(1)]] sk True by (simp add: start_connect_def)
  next
    case False
    have fd: "fd \<notin> opened (conn_kernel c)" "opened k1 = insert fd (opened (conn_kernel c))"
      using kernel_okD(2) [OF env sk False] by simp_all
    then have fresh: "fd \<notin> set (mConnectingFds c)" using inv by (auto simp: conn_inv_def)
    obtain n' b k2 where ck: "ce_connect env fd addr k1 = (n', b, k2)" by (cases "ce_connect env fd addr k1")
    have k2: "opened k2 = insert fd (opened (conn_kernel c))" using kernel_okD(3) [OF env ck] fd by simp
    define c1 where "c1 = c\<lparr>conn_kernel := k2\<rparr>"
    have c1: "conn_inv opened c1" "account c1 = account c" "conn_room (Suc n) c1" "conn_room n c1" "fd \<notin> set (mConnectingFds c1)"
      using kernel_inv [OF inv, of k2] room room0 k2 fresh by (auto simp: c1_def)
    note minus = no_sock [OF c1(1)]
    consider (fail) "n' < 0" "\<not> b" | (wait) "n' < 0" b | (ok) "n' = 0" | (odd) "n' > 0" by linarith
    then show ?thesis
    proof cases
      case fail
      have "conn_inv opened (close_fd env fd c1)" "conn_room n (close_fd env fd c1)" "account (close_fd env fd c1) = account c"
        using close_inv [OF env c1(1,5)] c1 by simp_all
      then show ?thesis
        using refused [of "close_fd env fd c1" NO_SOCK] minus sk False ck fail close_inv(4) [OF env c1(1,5)]
        by (simp add: start_connect_def flip: c1_def)
    next
      case ok
      then show ?thesis using refused [OF c1(1,4,2,5)] sk False ck by (simp add: start_connect_def flip: c1_def)
    next
      case odd
      then show ?thesis using refused [OF c1(1,4,2) minus] sk False ck by (simp add: start_connect_def flip: c1_def)
    next
      case wait
      obtain s where s: "mFDSet c1 = Some s" "fdset_wf s" using c1(1) by (auto simp: conn_inv_def)
      have big: "int_ok (limitSize s + 128 * int (Suc n))" using c1(3) s by (auto simp: conn_room_def)
      have lim: "0 \<le> limitSize s" using s(2) by (auto simp: fdset_wf_def)
      obtain s' where s': "ox_fdset_add (ce_malloc env) (ce_junk env) s fd (WriteCheck OR ErrorCheck) = Some s'" "fdset_wf s'"
        "limitSize s' \<le> limitSize s + 128" "limitSize s \<le> limitSize s'"
        using fdset_add_law [OF s(2), of "ce_malloc env" "ce_junk env" fd "WriteCheck OR ErrorCheck"] big lim
        by (auto simp: int_ok_def)
      define ci where "ci = \<lparr>startConnectTime = ce_now env (conn_kernel c1), ci_timeout = mTimeout addr, ci_uid = mUid addr\<rparr>"
      define c2 where "c2 = c1\<lparr>mConnectingInfos := cmap_set fd ci (mConnectingInfos c1),
        mConnectingFds := cset_insert fd (mConnectingFds c1), mFDSet := Some s'\<rparr>"
      have keys: "map fst (mConnectingInfos c1) = mConnectingFds c1" using c1(1) by (simp add: conn_inv_def)
      have "conn_inv opened c2"
        using c1(1,5) s'(2) keys k2 False cset_insert_distinct [OF c1(5)]
        by (auto simp: c2_def conn_inv_def cmap_set_keys c1_def)
      moreover have "account c2 = add_mset (mUid addr) (account c)"
        using cmap_set_mset [of fd "mConnectingInfos c1" ci] c1(2,5) keys by (simp add: c2_def account_def ci_def)
      moreover have "conn_room n c2" using big s'(3,4) lim by (simp add: c2_def conn_room_def int_ok_def)
      moreover have "mFDSet c = Some s" using s(1) by (simp add: c1_def)
      then have "start_connect env addr c = Some c2"
        using sk False ck wait s'(1) by (simp add: start_connect_def Let_def c2_def ci_def c1_def)
      ultimately show ?thesis by blast
    qed
  qed
qed

text \<open>The loop over the queue: \<open>n\<close> bounds the requests it takes.\<close>

lemma popBack_content:
  "popBack q = (Some m, q') \<Longrightarrow> mset (mq_content q) = add_mset m (mset (mq_content q')) \<and> length (mReadList q) = Suc (length (mReadList q'))"
proof -
  assume a: "popBack q = (Some m, q')"
  then have ne: "mReadList q \<noteq> []" and m: "m = last (mReadList q)" "q' = q\<lparr>mReadList := butlast (mReadList q)\<rparr>"
    by (auto simp: popBack_def split: list.splits)
  have "mset (mReadList q) = add_mset (last (mReadList q)) (mset (butlast (mReadList q)))"
    using ne by (metis append_butlast_last_id mset_append mset_single_iff add.commute add_mset_add_single mset.simps)
  then show ?thesis using ne m by (simp add: mq_content_def)
qed

lemma pollConnectRequest_inv:
  assumes "kernel_ok env opened" "conn_inv opened c" "conn_room (length (mReadList q) + n) c"
  shows "\<exists>q' c'. pollConnectRequest env q c = Some (q', c') \<and> conn_inv opened c' \<and> conn_room n c' \<and>
    account c' + mset (map mUid (mq_content q')) = account c + mset (map mUid (mq_content q)) \<and> mReadList q' = []"
  using assms(2,3)
proof (induction "length (mReadList q)" arbitrary: q c)
  case 0
  then show ?case by (simp add: pollConnectRequest.simps popBack_def)
next
  case (Suc k)
  then obtain m q' where p: "popBack q = (Some m, q')" by (cases "mReadList q") (auto simp: popBack_def)
  note pc = popBack_content [OF p]
  have r: "conn_room (Suc (length (mReadList q') + n)) c" using Suc.prems(2) pc by simp
  obtain c1 where c1: "start_connect env m c = Some c1" "conn_inv opened c1" "conn_room (length (mReadList q') + n) c1"
    "account c1 = add_mset (mUid m) (account c)"
    using start_connect_inv [OF assms(1) Suc.prems(1) r] by blast
  obtain q2 c2 where c2: "pollConnectRequest env q' c1 = Some (q2, c2)" "conn_inv opened c2" "conn_room n c2"
    "account c2 + mset (map mUid (mq_content q2)) = account c1 + mset (map mUid (mq_content q'))" "mReadList q2 = []"
    using Suc.hyps(1) [of q' c1] Suc.hyps(2) pc c1(2,3) by auto
  have "mset (map mUid (mq_content q)) = add_mset (mUid m) (mset (map mUid (mq_content q')))"
    using pc by (simp only: mset_map) simp
  then have "account c2 + mset (map mUid (mq_content q2)) = account c + mset (map mUid (mq_content q))"
    using c2(4) c1(4) by simp
  then show ?case using p c1(1) c2 by (simp add: pollConnectRequest.simps [of env q])
qed


section \<open>Completions and timeouts\<close>

lemma unwatch_inv:
  assumes "conn_inv opened c"
  shows "\<exists>c'. unwatch fd c = Some c' \<and> conn_inv opened c' \<and> account c' = account c \<and> conn_room n c' = conn_room n c \<and>
    mConnectingFds c' = mConnectingFds c \<and> mConnectingInfos c' = mConnectingInfos c \<and> completed c' = completed c \<and>
    conn_kernel c' = conn_kernel c"
proof -
  obtain s where s: "mFDSet c = Some s" "fdset_wf s" using assms by (auto simp: conn_inv_def)
  obtain s' where "ox_fdset_del s fd (WriteCheck OR ErrorCheck) = Some s'" "fdset_wf s'" "limitSize s' = limitSize s"
    using fdset_del_law [OF s(2)] by blast
  then show ?thesis using s assms by (simp add: unwatch_def conn_inv_def account_def conn_room_def)
qed

text \<open>Forgetting a descriptor whose request is reported next.\<close>

definition forget :: "int \<Rightarrow> 'k connector \<Rightarrow> 'k connector" where
  "forget fd c = c\<lparr>mConnectingFds := cset_erase fd (mConnectingFds c), mConnectingInfos := cmap_erase fd (mConnectingInfos c)\<rparr>"

lemma forget_inv:
  assumes "conn_inv opened c" "map_of (mConnectingInfos c) fd = Some it"
  shows "conn_inv opened (forget fd c)" "account c = add_mset (ci_uid it) (account (forget fd c))"
    "fd \<notin> set (mConnectingFds (forget fd c))" "conn_room n (forget fd c) = conn_room n c"
proof -
  have d: "distinct (map fst (mConnectingInfos c))" using assms(1) by (simp add: conn_inv_def)
  show "account c = add_mset (ci_uid it) (account (forget fd c))"
    using cmap_erase_mset [OF d assms(2)] by (simp add: account_def forget_def)
qed (use assms in \<open>auto simp: conn_inv_def forget_def cmap_erase_keys conn_room_def\<close>)

lemma account_kernel: "account (c\<lparr>conn_kernel := k\<rparr>) = account c"
  by (simp add: account_def)

lemma complete_fd_inv:
  assumes env: "kernel_ok env opened" and inv: "conn_inv opened c" and fd: "fd \<in> set (mConnectingFds c)" and room: "conn_room n c"
  shows "\<exists>c'. complete_fd env failed fd c = Some c' \<and> conn_inv opened c' \<and> conn_room n c' \<and> account c' = account c \<and>
    mConnectingFds c' = cset_erase fd (mConnectingFds c)"
proof -
  obtain c1 where c1: "unwatch fd c = Some c1" "conn_inv opened c1" "account c1 = account c" "conn_room n c1"
    "mConnectingFds c1 = mConnectingFds c"
    using unwatch_inv [OF inv] room by metis
  have "map fst (mConnectingInfos c1) = mConnectingFds c1" using c1(2) by (simp add: conn_inv_def)
  then have "fd \<in> set (map fst (mConnectingInfos c1))" using fd c1(5) by simp
  then obtain it where it: "map_of (mConnectingInfos c1) fd = Some it" by (metis map_of_eq_None_iff not_None_eq set_map)
  note fg = forget_inv [OF c1(2) it]
  define d where "d = (if fd \<in> set failed then mCallback env NO_SOCK (ci_uid it) (close_fd env fd (forget fd c1))
    else mCallback env fd (ci_uid it) (forget fd c1))"
  have cl: "conn_inv opened (close_fd env fd (forget fd c1))" "account (close_fd env fd (forget fd c1)) = account (forget fd c1)"
    "conn_room n (close_fd env fd (forget fd c1)) = conn_room n c1"
    using close_inv [OF env fg(1,3)] fg(4) by simp_all
  have d: "conn_inv opened d" "account d = account c" "conn_room n d" "mConnectingFds d = cset_erase fd (mConnectingFds c)"
    using callback_inv [OF env cl(1) no_sock [OF cl(1)], where uid = "ci_uid it"]
      callback_inv [OF env fg(1,3), where uid = "ci_uid it"] cl(2,3) fg(2,4) c1(3-5)
    by (auto simp: d_def mCallback_def close_fd_def forget_def)
  have "complete_fd env failed fd c = Some d"
    using c1(1) it by (simp add: complete_fd_def d_def mCallback_def close_fd_def forget_def Let_def)
  then show ?thesis using d by blast
qed

lemma complete_all_inv:
  assumes env: "kernel_ok env opened"
  shows "conn_inv opened c \<Longrightarrow> conn_room n c \<Longrightarrow> distinct fds \<Longrightarrow> set fds \<subseteq> set (mConnectingFds c) \<Longrightarrow>
    \<exists>c'. complete_all env failed fds c = Some c' \<and> conn_inv opened c' \<and> conn_room n c' \<and> account c' = account c"
proof (induction fds arbitrary: c)
  case (Cons fd fds)
  obtain c1 where c1: "complete_fd env failed fd c = Some c1" "conn_inv opened c1" "conn_room n c1" "account c1 = account c"
    "mConnectingFds c1 = cset_erase fd (mConnectingFds c)"
    using complete_fd_inv [OF env Cons.prems(1) _ Cons.prems(2)] Cons.prems(4) by force
  have "set fds \<subseteq> set (mConnectingFds c1)" using Cons.prems(3,4) c1(5) by auto
  then show ?case using Cons.IH [OF c1(2,3)] Cons.prems(3) c1 by auto
qed simp

lemma fdset_check_total: "fdset_wf s \<Longrightarrow> \<exists>b. ox_fdset_check s fd type = Some b"
proof -
  assume "fdset_wf s"
  then have "0 + nat (nfds s) \<le> length (fd_entries s)" by (auto simp: fdset_wf_def intro: nat_mono)
  then obtain r where "find_from (fd_entries s) fd 0 (nat (nfds s)) = Some r" using find_from_spec by blast
  then show ?thesis by (cases r) (auto simp: ox_fdset_check_def)
qed

lemma isConnectSuccess_inv:
  assumes "kernel_ok env opened" "mFDSet c = Some s" "fdset_wf s"
  shows "\<exists>ok k. isConnectSuccess env fd c = Some (ok, c\<lparr>conn_kernel := k\<rparr>) \<and> opened k = opened (conn_kernel c)"
proof -
  obtain w where w: "ox_fdset_check s fd WriteCheck = Some w" using fdset_check_total [OF assms(3)] by blast
  obtain ok e k where k: "ce_sockopt env fd (conn_kernel c) = (ok, e, k)" by (cases "ce_sockopt env fd (conn_kernel c)") auto
  show ?thesis
  proof (cases w)
    case True
    then show ?thesis using kernel_okD(4) [OF assms(1) k] assms(2) w k by (auto simp: isConnectSuccess_def)
  next
    case False
    then have "isConnectSuccess env fd c = Some (False, c\<lparr>conn_kernel := conn_kernel c\<rparr>)"
      using assms(2) w by (simp add: isConnectSuccess_def)
    then show ?thesis by blast
  qed
qed

lemma collect_fds_inv:
  assumes env: "kernel_ok env opened" and s: "mFDSet c = Some s" "fdset_wf s"
    and vs: "distinct vs" "set vs \<inter> set complete_fds = {}" "distinct complete_fds"
  shows "\<exists>complete' failed' k. collect_fds env vs complete_fds failed_fds c = Some (complete', failed', c\<lparr>conn_kernel := k\<rparr>) \<and>
    opened k = opened (conn_kernel c) \<and> distinct complete' \<and> set complete' \<subseteq> set vs \<union> set complete_fds"
  using s vs
proof (induction vs arbitrary: complete_fds failed_fds c)
  case Nil
  have "c = c\<lparr>conn_kernel := conn_kernel c\<rparr>" by simp
  then show ?case using Nil by (metis collect_fds.simps(1) sup.cobounded2)
next
  case (Cons v vs)
  obtain e w where ew: "ox_fdset_check s v ErrorCheck = Some e" "ox_fdset_check s v WriteCheck = Some w"
    using fdset_check_total [OF Cons.prems(2)] by meson
  have d: "distinct vs" "distinct (cset_insert v complete_fds)" "set vs \<inter> set (cset_insert v complete_fds) = {}"
    using Cons.prems(3-5) cset_insert_distinct by auto
  obtain ok k1 where k1: "isConnectSuccess env v c = Some (ok, c\<lparr>conn_kernel := k1\<rparr>)" "opened k1 = opened (conn_kernel c)"
    using isConnectSuccess_inv [OF env Cons.prems(1,2)] by blast
  consider (error) e | (ready) "\<not> e" w | (none) "\<not> e" "\<not> w" by blast
  then show ?case
  proof cases
    case error
    obtain complete' failed' k where "collect_fds env vs (cset_insert v complete_fds) (cset_insert v failed_fds) c =
        Some (complete', failed', c\<lparr>conn_kernel := k\<rparr>)" "opened k = opened (conn_kernel c)" "distinct complete'"
        "set complete' \<subseteq> set vs \<union> set (cset_insert v complete_fds)"
      using Cons.IH [OF Cons.prems(1,2) d(1,3,2)] by blast
    then show ?thesis using Cons.prems(1) ew error by auto
  next
    case ready
    obtain complete' failed' k where "collect_fds env vs (cset_insert v complete_fds)
        (if ok then failed_fds else cset_insert v failed_fds) (c\<lparr>conn_kernel := k1\<rparr>) =
        Some (complete', failed', c\<lparr>conn_kernel := k1\<rparr>\<lparr>conn_kernel := k\<rparr>)" "opened k = opened k1" "distinct complete'"
        "set complete' \<subseteq> set vs \<union> set (cset_insert v complete_fds)"
      using Cons.IH [of "c\<lparr>conn_kernel := k1\<rparr>", OF _ Cons.prems(2) d(1,3,2)] Cons.prems(1) by force
    then show ?thesis using Cons.prems(1) ew ready k1 by auto
  next
    case none
    obtain complete' failed' k where "collect_fds env vs complete_fds failed_fds c =
        Some (complete', failed', c\<lparr>conn_kernel := k\<rparr>)" "opened k = opened (conn_kernel c)" "distinct complete'"
        "set complete' \<subseteq> set vs \<union> set complete_fds"
      using Cons.IH [OF Cons.prems(1,2) d(1) _ Cons.prems(5)] Cons.prems(4) by force
    then show ?thesis using Cons.prems(1) ew none by auto
  qed
qed

lemma checkConnectStatus_inv:
  assumes env: "kernel_ok env opened" and inv: "conn_inv opened c" and room: "conn_room n c"
  shows "\<exists>c'. checkConnectStatus env timeout c = Some c' \<and> conn_inv opened c' \<and> conn_room n c' \<and> account c' = account c"
proof -
  obtain s where s: "mFDSet c = Some s" "fdset_wf s" using inv by (auto simp: conn_inv_def)
  obtain r s' where p: "ox_fdset_poll (ce_poll env (conn_kernel c)) s timeout = Some (r, s')" "fdset_wf s'"
    using fdset_poll_check [OF s(2), of "ce_poll env (conn_kernel c)"] kernel_okD(8) [OF env] by blast
  have lim: "limitSize s' = limitSize s" using p(1) by (auto simp: ox_fdset_poll_def split: option.splits prod.splits)
  define c1 where "c1 = c\<lparr>mFDSet := Some s', conn_kernel := ce_polled env (conn_kernel c)\<rparr>"
  have c1: "conn_inv opened c1" "conn_room n c1" "account c1 = account c"
    using inv room p(2) lim s kernel_okD(6) [OF env] by (auto simp: c1_def conn_inv_def conn_room_def account_def)
  have "distinct (mConnectingFds c1)" using c1(1) by (simp add: conn_inv_def)
  moreover have "mFDSet c1 = Some s'" by (simp add: c1_def)
  ultimately obtain complete' failed' k where col: "collect_fds env (mConnectingFds c1) [] [] c1 =
      Some (complete', failed', c1\<lparr>conn_kernel := k\<rparr>)" "opened k = opened (conn_kernel c1)" "distinct complete'"
      "set complete' \<subseteq> set (mConnectingFds c1)"
    using collect_fds_inv [OF env _ p(2), of c1 "mConnectingFds c1" "[]" "[]"] by auto
  have c2: "conn_inv opened (c1\<lparr>conn_kernel := k\<rparr>)" "account (c1\<lparr>conn_kernel := k\<rparr>) = account c"
    "conn_room n (c1\<lparr>conn_kernel := k\<rparr>)"
    using kernel_inv [OF c1(1), of k] col(2) c1 by simp_all
  obtain c3 where "complete_all env failed' complete' (c1\<lparr>conn_kernel := k\<rparr>) = Some c3" "conn_inv opened c3" "conn_room n c3"
    "account c3 = account c"
    using complete_all_inv [OF env c2(1,3) col(3), of failed'] col(4) c2(2) by auto
  moreover have "checkConnectStatus env timeout c = (if r \<le> 0 then Some c1 else
      do { (complete_fds, failed_fds, c'') \<leftarrow> collect_fds env (mConnectingFds c1) [] [] c1; complete_all env failed_fds complete_fds c'' })"
    using s(1) p(1) by (simp add: checkConnectStatus_def Let_def c1_def)
  ultimately show ?thesis using c1 col(1) by simp
qed


text \<open>The requests that are due at a time.\<close>

definition is_due :: "int \<Rightarrow> int \<times> connecting_info \<Rightarrow> bool" where
  "is_due now_time p \<longleftrightarrow> now_time - startConnectTime (snd p) \<ge> ci_timeout (snd p)"

lemma cmap_erase_other: "fd \<noteq> k \<Longrightarrow> map_of (cmap_erase k m) fd = map_of m fd"
  by (induction m) (auto simp: cmap_erase_def)

lemma timeout_loop_inv:
  assumes env: "kernel_ok env opened"
  shows "conn_inv opened c \<Longrightarrow> conn_room n c \<Longrightarrow> distinct (map fst rest) \<Longrightarrow>
    (\<forall>p \<in> set rest. map_of (mConnectingInfos c) (fst p) = Some (snd p)) \<Longrightarrow>
    \<exists>c'. timeout_loop env now_time rest c = Some c' \<and> conn_inv opened c' \<and> conn_room n c' \<and> account c' = account c \<and>
      completed c' = completed c @ map (\<lambda>(fd, it). (NO_SOCK, ci_uid it)) (filter (is_due now_time) rest) \<and>
      mConnectingInfos c' = filter (\<lambda>p. fst p \<notin> fst ` set (filter (is_due now_time) rest)) (mConnectingInfos c)"
proof (induction rest arbitrary: c)
  case Nil
  then show ?case by simp
next
  case (Cons p rest)
  obtain fd it where p: "p = (fd, it)" by (cases p)
  show ?case
  proof (cases "is_due now_time p")
    case False
    then show ?thesis using Cons p by (simp add: is_due_def)
  next
    case True
    obtain c1 where c1: "unwatch fd c = Some c1" "conn_inv opened c1" "account c1 = account c" "conn_room n c1"
      "mConnectingFds c1 = mConnectingFds c" "mConnectingInfos c1 = mConnectingInfos c" "completed c1 = completed c"
      using unwatch_inv [OF Cons.prems(1)] Cons.prems(2) by metis
    have it: "map_of (mConnectingInfos c1) fd = Some it" using Cons.prems(4) p c1(6) by simp
    note fg = forget_inv [OF c1(2) it]
    note cl = close_inv [OF env fg(1,3)]
    define d where "d = mCallback env NO_SOCK (ci_uid it) (close_fd env fd (forget fd c1))"
    have d: "conn_inv opened d" "account d = account c" "conn_room n d"
      using callback_inv [OF env cl(1) no_sock [OF cl(1)], where uid = "ci_uid it"] cl(2,3) fg(2,4) c1(3,4) by (simp_all add: d_def)
    have infos: "mConnectingInfos d = cmap_erase fd (mConnectingInfos c)" "completed d = completed c @ [(NO_SOCK, ci_uid it)]"
      using c1(6,7) by (simp_all add: d_def mCallback_def close_fd_def forget_def)
    have "\<forall>p \<in> set rest. map_of (mConnectingInfos d) (fst p) = Some (snd p)"
    proof
      fix q assume q: "q \<in> set rest"
      then have "fst q \<noteq> fd" using Cons.prems(3) p by force
      then show "map_of (mConnectingInfos d) (fst q) = Some (snd q)" using Cons.prems(4) q infos by (simp add: cmap_erase_other)
    qed
    then obtain c' where c': "timeout_loop env now_time rest d = Some c'" "conn_inv opened c'" "conn_room n c'" "account c' = account d"
      "completed c' = completed d @ map (\<lambda>(fd, it). (NO_SOCK, ci_uid it)) (filter (is_due now_time) rest)"
      "mConnectingInfos c' = filter (\<lambda>p. fst p \<notin> fst ` set (filter (is_due now_time) rest)) (mConnectingInfos d)"
      using Cons.IH [OF d(1,3)] Cons.prems(3) p by auto
    have "timeout_loop env now_time (p # rest) c = timeout_loop env now_time rest d"
      using True c1(1) p by (simp add: is_due_def d_def forget_def)
    moreover have "mConnectingInfos c' = filter (\<lambda>p'. fst p' \<notin> fst ` set (filter (is_due now_time) (p # rest))) (mConnectingInfos c)"
      unfolding c'(6) infos(1) cmap_erase_def filter_filter by (rule filter_cong) (use True p in \<open>auto split: prod.splits\<close>)
    ultimately show ?thesis using c' d(2) infos(2) True p by simp
  qed
qed

lemma checkTimeout_inv:
  assumes "kernel_ok env opened" "conn_inv opened c" "conn_room n c"
  shows "\<exists>c'. checkTimeout env c = Some c' \<and> conn_inv opened c' \<and> conn_room n c' \<and> account c' = account c \<and>
    completed c' = completed c @ map (\<lambda>(fd, it). (NO_SOCK, ci_uid it)) (filter (is_due (ce_now env (conn_kernel c))) (mConnectingInfos c)) \<and>
    mConnectingInfos c' = filter (\<lambda>p. \<not> is_due (ce_now env (conn_kernel c)) p) (mConnectingInfos c)"
proof -
  have d: "distinct (map fst (mConnectingInfos c))" using assms(2) by (simp add: conn_inv_def)
  then have "\<forall>p \<in> set (mConnectingInfos c). map_of (mConnectingInfos c) (fst p) = Some (snd p)" by simp
  moreover have "filter (\<lambda>p. fst p \<notin> fst ` set (filter P (mConnectingInfos c))) (mConnectingInfos c) =
      filter (\<lambda>p. \<not> P p) (mConnectingInfos c)" for P
    by (rule filter_cong) (use d in \<open>auto simp: distinct_map inj_on_def\<close>)
  ultimately show ?thesis using timeout_loop_inv [OF assms d] by (simp add: checkTimeout_def)
qed

section \<open>The thread\<close>

text \<open>There is room for all requests of the queue.\<close>

definition queue_room :: "nat \<Rightarrow> 'k thread_connector \<Rightarrow> bool" where
  "queue_room n tc \<longleftrightarrow> conn_room (length (mq_content (mConnectRequests tc)) + n) (conn_worker tc)"

text \<open>Requests arrive from other threads between the iterations; \<open>reqs\<close> are all of them.\<close>

inductive conn_run :: "'k conn_env \<Rightarrow> 'k thread_connector \<Rightarrow> connect_addr list \<Rightarrow> 'k thread_connector \<Rightarrow> bool" for env where
  conn_idle: "conn_run env tc [] tc"
| conn_request: "conn_run env tc reqs tc' \<Longrightarrow> conn_run env tc (reqs @ [addr]) (asyncConnect addr tc')"
| conn_iterate:
    "conn_run env tc reqs tc' \<Longrightarrow> queue_room 0 tc' \<Longrightarrow> run_iteration env tc' = Some tc'' \<Longrightarrow> conn_run env tc reqs tc''"

lemma syncRead_content: "mset (mq_content (snd (syncRead w q))) = mset (mq_content q)"
  "length (mq_content (snd (syncRead w q))) = length (mq_content q)"
  by (auto simp: syncRead_def read_locked_def mq_content_def)

lemma run_iteration_inv:
  assumes env: "kernel_ok env opened" and inv: "conn_inv opened (conn_worker tc)" and room: "queue_room n tc"
  shows "\<exists>tc'. run_iteration env tc = Some tc' \<and> conn_inv opened (conn_worker tc') \<and>
    account (conn_worker tc') + mset (map mUid (mq_content (mConnectRequests tc'))) =
    account (conn_worker tc) + mset (map mUid (mq_content (mConnectRequests tc)))"
proof -
  let ?q = "snd (syncRead 0 (mConnectRequests tc))"
  have "length (mReadList ?q) \<le> length (mq_content ?q)" by (simp add: mq_content_def)
  then have r: "length (mReadList ?q) \<le> length (mq_content (mConnectRequests tc))" by (simp only: syncRead_content(2))
  obtain c1 where c1: "checkConnectStatus env 0 (conn_worker tc) = Some c1" "conn_inv opened c1"
    "conn_room (length (mq_content (mConnectRequests tc)) + n) c1" "account c1 = account (conn_worker tc)"
    using checkConnectStatus_inv [OF env inv room [unfolded queue_room_def]] by blast
  have r': "conn_room (length (mReadList ?q) + n) c1" by (rule room_mono [OF c1(3) _ c1(2)]) (use r in linarith)
  obtain q' c2 where c2: "pollConnectRequest env ?q c1 = Some (q', c2)" "conn_inv opened c2" "conn_room n c2"
    "account c2 + mset (map mUid (mq_content q')) = account c1 + mset (map mUid (mq_content ?q))"
    using pollConnectRequest_inv [OF env c1(2) r'] by blast
  obtain c3 where c3: "checkTimeout env c2 = Some c3" "conn_inv opened c3" "account c3 = account c2"
    using checkTimeout_inv [OF env c2(2,3)] by blast
  have "mset (map mUid (mq_content ?q)) = mset (map mUid (mq_content (mConnectRequests tc)))"
    by (simp only: mset_map syncRead_content(1))
  then show ?thesis using c1(1,4) c2 c3 by (simp add: run_iteration_def)
qed

lemma asyncConnect_inv: "conn_worker (asyncConnect addr tc) = conn_worker tc"
  "mset (map mUid (mq_content (mConnectRequests (asyncConnect addr tc)))) =
    add_mset (mUid addr) (mset (map mUid (mq_content (mConnectRequests tc))))"
  by (auto simp: asyncConnect_def forceSyncWrite_def trySyncWrite_def try_locked_def force_locked_def mq_push_def mq_content_def)


definition start_connector :: "fdset_s \<Rightarrow> 'k \<Rightarrow> 'k thread_connector" where
  "start_connector s k =
     \<lparr>mConnectRequests = mq_new, mThread = Running_Thread, mIsRun = True, conn_worker = new_connector (Some s) k\<rparr>"

lemma start_connector_inv: "fdset_wf s \<Longrightarrow> conn_inv opened (conn_worker (start_connector s k))"
  by (simp add: start_connector_def new_connector_def conn_inv_def)

lemma conn_run_inv:
  assumes "conn_run env tc reqs tc'" "kernel_ok env opened" "conn_inv opened (conn_worker tc)"
  shows "conn_inv opened (conn_worker tc') \<and>
    account (conn_worker tc') + mset (map mUid (mq_content (mConnectRequests tc'))) =
    account (conn_worker tc) + mset (map mUid (mq_content (mConnectRequests tc))) + mset (map mUid reqs)"
  using assms(1,3)
proof (induction rule: conn_run.induct)
  case (conn_idle tc)
  then show ?case by simp
next
  case (conn_request tc reqs tc' addr)
  then show ?case using asyncConnect_inv(2) [of addr tc'] by (simp add: asyncConnect_inv(1) del: mset_map)
next
  case (conn_iterate tc reqs tc' tc'')
  then show ?case using run_iteration_inv [OF assms(2), of tc' 0] by auto
qed

text \<open>
  C18. Every request to connect is reported exactly once: over any iterations of the thread, requests of other threads and answers
  of the kernel, the requests made so far are exactly those reported to the callback, those connecting and those still queued, and
  the next iteration runs without failing.
\<close>

theorem connect_reported_once:
  assumes "kernel_ok env opened" "fdset_wf s" "conn_run env (start_connector s k) reqs tc"
  shows "mset (map mUid reqs) =
      mset (map snd (completed (conn_worker tc))) + mset (map (\<lambda>(fd, it). ci_uid it) (mConnectingInfos (conn_worker tc))) +
      mset (map mUid (mq_content (mConnectRequests tc))) \<and>
    (queue_room 0 tc \<longrightarrow> run_iteration env tc \<noteq> None)"
proof -
  have r: "conn_inv opened (conn_worker tc)"
    "account (conn_worker tc) + mset (map mUid (mq_content (mConnectRequests tc))) = mset (map mUid reqs)"
    using conn_run_inv [OF assms(3,1) start_connector_inv [OF assms(2)]]
    by (simp_all add: start_connector_def new_connector_def account_def mq_new_def mq_content_def)
  have "queue_room 0 tc \<Longrightarrow> run_iteration env tc \<noteq> None" using run_iteration_inv [OF assms(1) r(1)] by fastforce
  then show ?thesis using r(2) by (simp add: account_def)
qed

text \<open>
  A check for timeouts reports exactly the connecting requests whose time is over, each with the invalid descriptor, in the
  order of the descriptors, and keeps exactly the others.
\<close>

theorem check_timeout_exact:
  assumes "kernel_ok env opened" "conn_inv opened c" "conn_room 0 c"
  shows "\<exists>c'. checkTimeout env c = Some c' \<and> conn_inv opened c' \<and>
    completed c' = completed c @ map (\<lambda>(fd, it). (NO_SOCK, ci_uid it)) (filter (is_due (ce_now env (conn_kernel c))) (mConnectingInfos c)) \<and>
    mConnectingInfos c' = filter (\<lambda>p. \<not> is_due (ce_now env (conn_kernel c)) p) (mConnectingInfos c)"
  using checkTimeout_inv [OF assms] by blast

text \<open>
  \<^verbatim>\<open>destroy\<close> deletes the thread object and keeps the pointer, so that destroying a started connector and then
  letting its destructor run uses freed memory.
\<close>

theorem destroy_twice_dangling:
  "mThread tc = No_Thread \<Longrightarrow> \<exists>tc'. destroy (startThread tc) = Some tc' \<and> destroy tc' = None"
  by (simp add: startThread_def destroy_def)

section \<open>Witnesses\<close>

text \<open>A kernel whose state is the list of open descriptors; connecting takes for ever and the clock stands still.\<close>

definition slow_kernel :: "int list conn_env" where
  "slow_kernel =
     \<lparr>ce_socket = (\<lambda>k. (fold max k 0 + 1, (fold max k 0 + 1) # k)), ce_connect = (\<lambda>fd addr k. (-1, True, k)),
      ce_sockopt = (\<lambda>fd k. (False, 0, k)), ce_close = (\<lambda>fd k. filter (\<lambda>x. x \<noteq> fd) k), ce_poll = (\<lambda>k es t. (0, 0, es)),
      ce_polled = (\<lambda>k. k), ce_now = (\<lambda>k. 0), ce_done = (\<lambda>fd uid k. k), ce_malloc = (\<lambda>n. True),
      ce_junk = (\<lambda>n. \<lparr>pf_fd = -1, events = 0, revents = 0\<rparr>)\<rparr>"

lemma fold_max_bound: "x \<in> set k \<Longrightarrow> x \<le> fold max k a" "a \<le> fold max k a" for x a :: int
  unfolding Max.set_eq_fold [symmetric] by (rule Max_ge; simp)+

lemma slow_kernel_ok: "kernel_ok slow_kernel set"
proof -
  have "fold max k 0 + 1 \<notin> set k" "fold max k 0 + 1 \<noteq> NO_SOCK" for k :: "int list"
    using fold_max_bound(1) [of "fold max k 0 + 1" k 0] fold_max_bound(2) [of 0 k] by auto
  then show ?thesis by (auto simp: kernel_ok_def slow_kernel_def)
qed

definition small_fdset :: fdset_s where
  "small_fdset = \<lparr>pollFds = Some (replicate 2 \<lparr>pf_fd = -1, events = 0, revents = 0\<rparr>), nfds = 0, limitSize = 2\<rparr>"

lemma small_fdset_wf: "fdset_wf small_fdset"
  by (simp add: fdset_wf_def small_fdset_def int_ok_def fd_live_def fd_entries_def)

definition one_request :: connect_addr where
  "one_request = \<lparr>mIP = ''10.0.0.1'', mPort = 80, mTimeout = 5, mUid = 7\<rparr>"

theorem connect_reported_once_witness:
  "\<exists>tc. run_iteration slow_kernel (asyncConnect one_request (start_connector small_fdset [])) = Some tc \<and>
    {#7#} = mset (map snd (completed (conn_worker tc))) +
      mset (map (\<lambda>(fd, it). ci_uid it) (mConnectingInfos (conn_worker tc))) + mset (map mUid (mq_content (mConnectRequests tc)))"
proof -
  let ?tc = "asyncConnect one_request (start_connector small_fdset [])"
  have run: "conn_run slow_kernel (start_connector small_fdset []) [one_request] ?tc"
    using conn_request [OF conn_idle, of slow_kernel "start_connector small_fdset []" one_request] by simp
  have room: "queue_room 0 ?tc"
    by (simp add: queue_room_def conn_room_def asyncConnect_def start_connector_def new_connector_def small_fdset_def mq_new_def
        mq_push_def forceSyncWrite_def trySyncWrite_def try_locked_def try_guard_def mq_content_def int_ok_def)
  obtain tc where tc: "run_iteration slow_kernel ?tc = Some tc"
    using connect_reported_once [OF slow_kernel_ok small_fdset_wf run] room by auto
  show ?thesis
    using connect_reported_once [OF slow_kernel_ok small_fdset_wf conn_iterate [OF run room tc]] tc by (simp add: one_request_def)
qed

theorem check_timeout_exact_witness:
  "\<exists>c'. checkTimeout slow_kernel (new_connector (Some small_fdset) [3]
      \<lparr>mConnectingInfos := [(3, \<lparr>startConnectTime = -9, ci_timeout = 5, ci_uid = 7\<rparr>)], mConnectingFds := [3]\<rparr>) = Some c' \<and>
    completed c' = [(NO_SOCK, 7)] \<and> mConnectingInfos c' = []"
proof -
  let ?c = "new_connector (Some small_fdset) [3]
      \<lparr>mConnectingInfos := [(3, \<lparr>startConnectTime = -9, ci_timeout = 5, ci_uid = 7\<rparr>)], mConnectingFds := [3]\<rparr>"
  have "conn_inv set ?c" "conn_room 0 ?c"
    by (simp_all add: conn_inv_def new_connector_def small_fdset_wf conn_room_def) (simp add: small_fdset_def int_ok_def)
  from check_timeout_exact [OF slow_kernel_ok this] show ?thesis
    by (auto simp: new_connector_def slow_kernel_def is_due_def)
qed

theorem destroy_twice_dangling_witness:
  "\<exists>tc'. destroy (startThread ((start_connector small_fdset ())\<lparr>mThread := No_Thread\<rparr>)) = Some tc' \<and> destroy tc' = None"
  by (rule destroy_twice_dangling) simp

end
