(* ===== verification/Type_Pool.thy ===== *)
theory Type_Pool
  imports Ox_Array Bytes "HOL-Library.Monad_Syntax"
begin

text \<open>
  The pool of equal elements of \<^verbatim>\<open>src/utils/typepool.c\<close>. A pool is a chain of nodes; a node owns an array of
  elements and a stack of pointers to its free ones, and every element starts with the address of its
  node. The nodes in memory are a list, the address of a node is its position, a pointer into the elements is a node and
  an offset into its array. The stack comes from \<^verbatim>\<open>stack.h\<close>, which is not part of the repository: its operations are
  an argument, as is what the allocator grants. \<open>None\<close> is a null or wild dereference or a failed assertion.
\<close>

section \<open>State\<close>

type_synonym elem_ptr = "nat \<times> nat"

record 'st ptr_stack_ops =
  ptr_push :: "'st \<Rightarrow> elem_ptr \<Rightarrow> bool \<times> 'st"
  ptr_popback :: "'st \<Rightarrow> elem_ptr option \<times> 'st"

text \<open>What one round of allocations grants: the structures, the stack, the block of the array.\<close>

record 'st pool_alloc =
  struct_granted :: bool
  new_stack :: "int \<Rightarrow> int \<Rightarrow> 'st option"
  array_granted :: bool
  block_granted :: "nat \<Rightarrow> bool"

record 'st type_pool_node_s =
  data_array :: "array_s option"
  ptr_stack :: "'st option"
  node_next :: "nat option"

record 'st type_pool_s =
  base_num :: int
  pool_element_size :: int
  free_node :: "nat option"
  pool_head :: "nat option"
  pool_tail :: "nat option"
  nodenum :: int
  pool_nodes :: "'st type_pool_node_s list"

text \<open>The address of a node as the eight bytes at the front of its elements.\<close>

definition node_bytes :: "nat \<Rightarrow> bytes" where
  "node_bytes k = map (\<lambda>b. char_of (unat b)) (to_memory (of_nat k :: uint64_t))"

definition bytes_node :: "bytes \<Rightarrow> nat" where
  "bytes_node bs = unat (from_memory (map of_char bs) :: uint64_t)"

text \<open>A null pointer has no node behind it; \<open>node_at\<close> is the dereference of a node pointer.\<close>

definition node_at :: "'st type_pool_s \<Rightarrow> nat \<Rightarrow> 'st type_pool_node_s option" where
  "node_at p k = (if k < length (pool_nodes p) then Some (pool_nodes p ! k) else None)"

definition put_node :: "nat \<Rightarrow> 'st type_pool_node_s \<Rightarrow> 'st type_pool_s \<Rightarrow> 'st type_pool_s" where
  "put_node k nd p = p\<lparr>pool_nodes := (pool_nodes p)[k := nd]\<rparr>"

section \<open>Nodes\<close>

definition type_pool_node_delete :: "'st type_pool_node_s option \<Rightarrow> nat \<Rightarrow> nat" where
  "type_pool_node_delete self live =
     (case self of
        None \<Rightarrow> live
      | Some nd \<Rightarrow> ox_array_delete (data_array nd) live - (if ptr_stack nd = None then 0 else 1) - 1)"

definition init_element ::
  "'st ptr_stack_ops \<Rightarrow> nat \<Rightarrow> int \<Rightarrow> nat \<Rightarrow> array_s \<times> 'st \<Rightarrow> (array_s \<times> 'st) option" where
  "init_element ops addr esize i = (\<lambda>(arr, st).
     do {
       off \<leftarrow> ox_array_at arr (int i);
       d \<leftarrow> arr_buffer arr;
       d1 \<leftarrow> mem_write off (replicate (to_size esize) (CHR 0x00)) d;
       d2 \<leftarrow> mem_write off (node_bytes addr) d1;
       Some (arr\<lparr>arr_buffer := Some d2\<rparr>, snd (ptr_push ops st (addr, off)))
     })"

fun init_elements ::
  "'st ptr_stack_ops \<Rightarrow> nat \<Rightarrow> int \<Rightarrow> nat list \<Rightarrow> array_s \<times> 'st \<Rightarrow> (array_s \<times> 'st) option" where
  "init_elements ops addr esize [] s = Some s"
| "init_elements ops addr esize (i # is) s = do { s' \<leftarrow> init_element ops addr esize i s; init_elements ops addr esize is s' }"

text \<open>
  The new node gets the address \<open>addr\<close>, which must fit a pointer. The stack is created before the array; when either fails
  the node is deleted.
\<close>

definition type_pool_node_new ::
  "'st ptr_stack_ops \<Rightarrow> 'st pool_alloc \<Rightarrow> nat \<Rightarrow> int \<Rightarrow> int \<Rightarrow> nat \<Rightarrow> ('st type_pool_node_s option \<times> nat) option" where
  "type_pool_node_new ops al addr num esize live =
     (if struct_granted al \<and> addr < 2 ^ 64 then
        (case new_stack al num 8 of
           None \<Rightarrow> Some (None, type_pool_node_delete (Some \<lparr>data_array = None, ptr_stack = (None :: 'st option), node_next = None\<rparr>) (live + 1))
         | Some st \<Rightarrow>
             do {
               (arr, live1) \<leftarrow> ox_array_new (array_granted al) (block_granted al) num esize (live + 2);
               case arr of
                 None \<Rightarrow> Some (None, type_pool_node_delete (Some \<lparr>data_array = None, ptr_stack = Some st, node_next = None\<rparr>) live1)
               | Some a \<Rightarrow>
                   do {
                     (a', st') \<leftarrow> init_elements ops addr esize [0..<to_size num] (a, st);
                     Some (Some \<lparr>data_array = Some a', ptr_stack = Some st', node_next = None\<rparr>, live1)
                   }
             })
      else Some (None, live))"

section \<open>The pool\<close>

text \<open>The chain is walked from the head; a node is freed after its successor was read.\<close>

partial_function (option) delete_chain :: "nat option \<Rightarrow> 'st type_pool_s \<Rightarrow> nat \<Rightarrow> nat option" where
  "delete_chain node p live =
     (case node of
        None \<Rightarrow> Some live
      | Some k \<Rightarrow> do { nd \<leftarrow> node_at p k; delete_chain (node_next nd) p (type_pool_node_delete (Some nd) live) })"

declare delete_chain.simps [code]

definition ox_type_pool_delete :: "'st type_pool_s option \<Rightarrow> nat \<Rightarrow> nat option" where
  "ox_type_pool_delete self live =
     (case self of
        None \<Rightarrow> Some live
      | Some p \<Rightarrow> do { live1 \<leftarrow> delete_chain (pool_head p) p live; Some (live1 - 1) })"

text \<open>\<^verbatim>\<open>element_size + sizeof(pointer)\<close> as an \<^verbatim>\<open>int\<close> argument; a sum the parameter cannot hold is \<open>None\<close>.\<close>

definition with_header :: "int \<Rightarrow> int option" where
  "with_header esize = (if int_ok (esize + 8) then Some (esize + 8) else None)"

definition ox_type_pool_new ::
  "'st ptr_stack_ops \<Rightarrow> 'st pool_alloc \<Rightarrow> bool \<Rightarrow> int \<Rightarrow> int \<Rightarrow> nat \<Rightarrow> ('st type_pool_s option \<times> nat) option" where
  "ox_type_pool_new ops al self_ok num esize live =
     (if self_ok then
        do {
          w \<leftarrow> with_header esize;
          (nd, live1) \<leftarrow> type_pool_node_new ops al 0 num w (live + 1);
          let p = \<lparr>base_num = 0, pool_element_size = 0, free_node = None, pool_head = None, pool_tail = None,
                   nodenum = 1, pool_nodes = []\<rparr>;
          case nd of
            None \<Rightarrow> do { live2 \<leftarrow> ox_type_pool_delete (Some p) live1; Some (None, live2) }
          | Some n \<Rightarrow> Some (Some (p\<lparr>pool_nodes := [n], pool_head := Some 0, free_node := Some 0, pool_tail := Some 0,
                               pool_element_size := esize, base_num := num\<rparr>), live1)
        }
      else Some (None, live))"

definition ox_type_pool_increase ::
  "'st ptr_stack_ops \<Rightarrow> 'st pool_alloc \<Rightarrow> 'st type_pool_s \<Rightarrow> int \<Rightarrow> nat \<Rightarrow> ('st type_pool_s \<times> nat) option" where
  "ox_type_pool_increase ops al p increase_num live =
     do {
       w \<leftarrow> with_header (pool_element_size p);
       (nd, live1) \<leftarrow> type_pool_node_new ops al (length (pool_nodes p)) increase_num w live;
       case nd of
         None \<Rightarrow> Some (p, live1)
       | Some n \<Rightarrow>
           do {
             t \<leftarrow> pool_tail p;
             tn \<leftarrow> node_at p t;
             let k = length (pool_nodes p);
             Some (p\<lparr>pool_nodes := (pool_nodes p)[t := tn\<lparr>node_next := Some k\<rparr>] @ [n], pool_tail := Some k, free_node := Some k\<rparr>, live1)
           }
     }"

section \<open>Claim and reclaim\<close>

definition node_pop :: "'st ptr_stack_ops \<Rightarrow> nat \<Rightarrow> 'st type_pool_s \<Rightarrow> (elem_ptr option \<times> 'st type_pool_s) option" where
  "node_pop ops k p =
     do {
       nd \<leftarrow> node_at p k;
       st \<leftarrow> ptr_stack nd;
       let (r, st') = ptr_popback ops st;
       Some (r, put_node k (nd\<lparr>ptr_stack := Some st'\<rparr>) p)
     }"

text \<open>The loop over the chain: \<^verbatim>\<open>node\<close> already stands on the successor when it ends with an element.\<close>

partial_function (option) scan_nodes ::
  "'st ptr_stack_ops \<Rightarrow> nat option \<Rightarrow> 'st type_pool_s \<Rightarrow> (elem_ptr option \<times> nat option \<times> 'st type_pool_s) option" where
  "scan_nodes ops node p =
     (case node of
        None \<Rightarrow> Some (None, None, p)
      | Some k \<Rightarrow>
          do {
            (r, p') \<leftarrow> node_pop ops k p;
            nd \<leftarrow> node_at p' k;
            case r of
              Some x \<Rightarrow> Some (Some x, node_next nd, p')
            | None \<Rightarrow> scan_nodes ops (node_next nd) p'
          })"

declare scan_nodes.simps [code]

definition type_pool_claim_help ::
  "'st ptr_stack_ops \<Rightarrow> 'st type_pool_s \<Rightarrow> (elem_ptr option \<times> 'st type_pool_s) option" where
  "type_pool_claim_help ops p =
     do {
       (r, node, p1) \<leftarrow>
         (case free_node p of
            Some k \<Rightarrow> do { (r, p') \<leftarrow> node_pop ops k p; Some (r, Some k, p') }
          | None \<Rightarrow> Some (None, None, p));
       (r, node, p2) \<leftarrow> (if r = None then scan_nodes ops (pool_head p1) p1 else Some (r, node, p1));
       case r of
         None \<Rightarrow> Some (None, p2)
       | Some (n, off) \<Rightarrow> Some (Some (n, off + 8), p2\<lparr>free_node := node\<rparr>)
     }"

definition ox_type_pool_claim ::
  "'st ptr_stack_ops \<Rightarrow> 'st pool_alloc \<Rightarrow> 'st type_pool_s \<Rightarrow> nat \<Rightarrow> (elem_ptr option \<times> 'st type_pool_s \<times> nat) option" where
  "ox_type_pool_claim ops al p live =
     do {
       (r, p1) \<leftarrow> type_pool_claim_help ops p;
       case r of
         Some x \<Rightarrow> Some (Some x, p1, live)
       | None \<Rightarrow>
           do {
             (p2, live1) \<leftarrow> ox_type_pool_increase ops al p1 (base_num p1) live;
             let p3 = p2\<lparr>nodenum := nodenum p2 + 1\<rparr>;
             (r, p4) \<leftarrow> type_pool_claim_help ops p3;
             Some (r, p4, live1)
           }
     }"

text \<open>The memory of the elements: reads and writes through a pointer.\<close>

definition elem_read :: "'st type_pool_s \<Rightarrow> elem_ptr \<Rightarrow> nat \<Rightarrow> bytes option" where
  "elem_read p x n =
     do { nd \<leftarrow> node_at p (fst x); arr \<leftarrow> data_array nd; d \<leftarrow> arr_buffer arr; mem_read (snd x) n d }"

definition elem_write :: "'st type_pool_s \<Rightarrow> elem_ptr \<Rightarrow> bytes \<Rightarrow> 'st type_pool_s option" where
  "elem_write p x bs =
     do {
       nd \<leftarrow> node_at p (fst x);
       arr \<leftarrow> data_array nd;
       d \<leftarrow> arr_buffer arr;
       d' \<leftarrow> mem_write (snd x) bs d;
       Some (put_node (fst x) (nd\<lparr>data_array := Some (arr\<lparr>arr_buffer := Some d'\<rparr>)\<rparr>) p)
     }"

definition ox_type_pool_reclaim ::
  "'st ptr_stack_ops \<Rightarrow> 'st type_pool_s \<Rightarrow> elem_ptr \<Rightarrow> 'st type_pool_s option" where
  "ox_type_pool_reclaim ops p data =
     do {
       let x = (fst data, snd data - 8);
       h \<leftarrow> (if snd data < 8 then None else elem_read p x 8);
       nd \<leftarrow> node_at p (bytes_node h);
       st \<leftarrow> ptr_stack nd;
       Some ((put_node (bytes_node h) (nd\<lparr>ptr_stack := Some (snd (ptr_push ops st x))\<rparr>) p)\<lparr>free_node := Some (bytes_node h)\<rparr>)
     }"

definition ox_type_pool_nodenum :: "'st type_pool_s \<Rightarrow> int" where
  "ox_type_pool_nodenum p = nodenum p"

end
