(* ===== verification/Type_Pool_Inv.thy ===== *)
theory Type_Pool_Inv
  imports Type_Pool
begin

text \<open>
  The invariant of the pool and what every operation does to it: the chain reaches all nodes, every
  element carries the address of its node, and the stack of a node holds distinct elements of it. The elements on no stack
  are in use.
\<close>

section \<open>What is assumed of the parameters\<close>

text \<open>
  A stack created for \<open>num\<close> pointers keeps that many, first out what came last in; \<open>stk\<close> is its content
  and \<open>cap\<close> its capacity. A stack that was just created is empty.
\<close>

definition ptr_stack_ok :: "'st ptr_stack_ops \<Rightarrow> ('st \<Rightarrow> elem_ptr list) \<Rightarrow> ('st \<Rightarrow> nat) \<Rightarrow> bool" where
  "ptr_stack_ok ops stk cap \<longleftrightarrow>
     (\<forall>s x. length (stk s) < cap s \<longrightarrow> stk (snd (ptr_push ops s x)) = stk s @ [x] \<and> cap (snd (ptr_push ops s x)) = cap s) \<and>
     (\<forall>s. stk s = [] \<longrightarrow> ptr_popback ops s = (None, s)) \<and>
     (\<forall>s. stk s \<noteq> [] \<longrightarrow> (\<exists>s'. ptr_popback ops s = (Some (last (stk s)), s') \<and> stk s' = butlast (stk s) \<and> cap s' = cap s))"

definition alloc_ok :: "('st \<Rightarrow> elem_ptr list) \<Rightarrow> ('st \<Rightarrow> nat) \<Rightarrow> 'st pool_alloc \<Rightarrow> bool" where
  "alloc_ok stk cap al \<longleftrightarrow> (\<forall>num st. new_stack al num 8 = Some st \<longrightarrow> stk st = [] \<and> cap st = to_size num)"

lemma ptr_stack_okD:
  assumes "ptr_stack_ok ops stk cap"
  shows "length (stk s) < cap s \<Longrightarrow> stk (snd (ptr_push ops s x)) = stk s @ [x]"
    and "length (stk s) < cap s \<Longrightarrow> cap (snd (ptr_push ops s x)) = cap s"
    and "stk s = [] \<Longrightarrow> ptr_popback ops s = (None, s)"
    and "stk s \<noteq> [] \<Longrightarrow> \<exists>s'. ptr_popback ops s = (Some (last (stk s)), s') \<and> stk s' = butlast (stk s) \<and> cap s' = cap s"
  using assms by (simp_all add: ptr_stack_ok_def del: split_paired_All)

lemma set_butlast: "distinct xs \<Longrightarrow> xs \<noteq> [] \<Longrightarrow> set (butlast xs) = set xs - {last xs}"
  by (cases xs rule: rev_cases) auto

section \<open>The invariant\<close>

definition elem_starts :: "nat \<Rightarrow> nat \<Rightarrow> nat \<Rightarrow> elem_ptr set" where
  "elem_starts w k n = (\<lambda>i. (k, i * w)) ` {..<n}"

definition node_wf :: "('st \<Rightarrow> elem_ptr list) \<Rightarrow> ('st \<Rightarrow> nat) \<Rightarrow> nat \<Rightarrow> nat \<Rightarrow> 'st type_pool_node_s \<Rightarrow> bool" where
  "node_wf stk cap w k nd \<longleftrightarrow>
     (\<exists>arr st. data_array nd = Some arr \<and> ptr_stack nd = Some st \<and> array_wf arr \<and> array_width arr = w \<and>
        cap st = array_len arr \<and> distinct (stk st) \<and> set (stk st) \<subseteq> elem_starts w k (array_len arr) \<and>
        (\<forall>i < array_len arr. take 8 (array_elem arr i) = node_bytes k))"

definition pool_width :: "'st type_pool_s \<Rightarrow> nat" where
  "pool_width p = nat (pool_element_size p + 8)"

definition pool_size :: "'st type_pool_s \<Rightarrow> nat" where
  "pool_size p = length (pool_nodes p)"

definition pool_wf :: "('st \<Rightarrow> elem_ptr list) \<Rightarrow> ('st \<Rightarrow> nat) \<Rightarrow> 'st type_pool_s \<Rightarrow> bool" where
  "pool_wf stk cap p \<longleftrightarrow>
     0 \<le> pool_element_size p \<and> int_ok (pool_element_size p + 8) \<and>
     0 < pool_size p \<and> pool_size p \<le> 2 ^ 64 \<and> pool_head p = Some 0 \<and> pool_tail p = Some (pool_size p - 1) \<and>
     (\<forall>k. free_node p = Some k \<longrightarrow> k < pool_size p) \<and>
     (\<forall>k < pool_size p. node_next (pool_nodes p ! k) = (if Suc k < pool_size p then Some (Suc k) else None) \<and>
        node_wf stk cap (pool_width p) k (pool_nodes p ! k))"

definition stack_of :: "('st \<Rightarrow> elem_ptr list) \<Rightarrow> 'st type_pool_s \<Rightarrow> nat \<Rightarrow> elem_ptr list" where
  "stack_of stk p k = stk (the (ptr_stack (pool_nodes p ! k)))"

definition array_of :: "'st type_pool_s \<Rightarrow> nat \<Rightarrow> array_s" where
  "array_of p k = the (data_array (pool_nodes p ! k))"

definition pool_elems :: "'st type_pool_s \<Rightarrow> elem_ptr set" where
  "pool_elems p = (\<Union>k < pool_size p. elem_starts (pool_width p) k (array_len (array_of p k)))"

definition pool_free :: "('st \<Rightarrow> elem_ptr list) \<Rightarrow> 'st type_pool_s \<Rightarrow> elem_ptr set" where
  "pool_free stk p = (\<Union>k < pool_size p. set (stack_of stk p k))"

definition payload :: "elem_ptr \<Rightarrow> elem_ptr" where
  "payload x = (fst x, snd x + 8)"

definition pool_live :: "('st \<Rightarrow> elem_ptr list) \<Rightarrow> 'st type_pool_s \<Rightarrow> elem_ptr set" where
  "pool_live stk p = payload ` (pool_elems p - pool_free stk p)"

lemma payload_inj [simp]: "payload x = payload y \<longleftrightarrow> x = y"
  by (auto simp: payload_def prod_eq_iff)

lemma elem_startsE: "x \<in> elem_starts w k n \<Longrightarrow> (\<And>i. i < n \<Longrightarrow> x = (k, i * w) \<Longrightarrow> R) \<Longrightarrow> R"
  by (auto simp: elem_starts_def)

lemma elem_starts_empty: "elem_starts w k n = {} \<longleftrightarrow> n = 0"
  by (cases n) (auto simp: elem_starts_def lessThan_Suc)

lemma fst_elem_starts: "x \<in> elem_starts w k n \<Longrightarrow> fst x = k"
  by (auto simp: elem_starts_def)

lemma pool_node:
  assumes "pool_wf stk cap p" "k < pool_size p"
  obtains nd arr st where "node_at p k = Some nd" "pool_nodes p ! k = nd" "data_array nd = Some arr" "array_of p k = arr"
    "ptr_stack nd = Some st" "stack_of stk p k = stk st" "array_wf arr" "array_width arr = pool_width p" "cap st = array_len arr"
    "distinct (stk st)" "set (stk st) \<subseteq> elem_starts (pool_width p) k (array_len arr)"
    "\<And>i. i < array_len arr \<Longrightarrow> take 8 (array_elem arr i) = node_bytes k"
    "node_next nd = (if Suc k < pool_size p then Some (Suc k) else None)"
proof -
  have wf: "node_wf stk cap (pool_width p) k (pool_nodes p ! k)"
    and nx: "node_next (pool_nodes p ! k) = (if Suc k < pool_size p then Some (Suc k) else None)"
    using assms by (auto simp: pool_wf_def)
  then obtain arr st where "data_array (pool_nodes p ! k) = Some arr" "ptr_stack (pool_nodes p ! k) = Some st" "array_wf arr"
    "array_width arr = pool_width p" "cap st = array_len arr" "distinct (stk st)"
    "set (stk st) \<subseteq> elem_starts (pool_width p) k (array_len arr)" "\<forall>i < array_len arr. take 8 (array_elem arr i) = node_bytes k"
    by (auto simp: node_wf_def)
  then show ?thesis
    using assms(2) nx that [of "pool_nodes p ! k" arr st] by (simp add: node_at_def pool_size_def array_of_def stack_of_def)
qed

lemma width_facts:
  assumes "pool_wf stk cap p"
  shows "8 \<le> pool_width p" "int (pool_width p) = pool_element_size p + 8" "with_header (pool_element_size p) = Some (int (pool_width p))"
  using assms by (auto simp: pool_wf_def pool_width_def with_header_def)

lemma free_in_elems: "pool_wf stk cap p \<Longrightarrow> pool_free stk p \<subseteq> pool_elems p"
proof
  fix x assume wf: "pool_wf stk cap p" and "x \<in> pool_free stk p"
  then obtain k where k: "k < pool_size p" "x \<in> set (stack_of stk p k)" by (auto simp: pool_free_def)
  from wf k(1) show "x \<in> pool_elems p"
    by (rule pool_node) (use k in \<open>auto simp: pool_elems_def\<close>)
qed

lemma stack_nodes: "pool_wf stk cap p \<Longrightarrow> k < pool_size p \<Longrightarrow> x \<in> set (stack_of stk p k) \<Longrightarrow> fst x = k"
  by (erule (1) pool_node) (auto dest: fst_elem_starts)

section \<open>Changing the stack of a node\<close>

lemma put_stack:
  assumes wf: "pool_wf stk cap p" and k: "k < pool_size p" and nd: "pool_nodes p ! k = nd"
    and st: "cap st' = array_len (array_of p k)" "distinct (stk st')"
      "set (stk st') \<subseteq> elem_starts (pool_width p) k (array_len (array_of p k))"
  defines "p' \<equiv> put_node k (nd\<lparr>ptr_stack := Some st'\<rparr>) p"
  shows "pool_wf stk cap p'" "pool_size p' = pool_size p" "array_of p' j = array_of p j" "pool_elems p' = pool_elems p" "pool_element_size p' = pool_element_size p"
    "stack_of stk p' j = (if j = k then stk st' else stack_of stk p j)" "base_num p' = base_num p" "free_node p' = free_node p"
    "nodenum p' = nodenum p" "pool_head p' = pool_head p"
    "pool_free stk p' = (pool_free stk p - set (stack_of stk p k)) \<union> set (stk st')"
proof -
  have kl: "k < length (pool_nodes p)" using k by (simp add: pool_size_def)
  show size: "pool_size p' = pool_size p" by (simp add: p'_def put_node_def pool_size_def)
  have width: "pool_width p' = pool_width p" by (simp add: p'_def put_node_def pool_width_def)
  show arr: "array_of p' j = array_of p j" for j
    using kl nd by (cases "j = k") (simp_all add: p'_def put_node_def array_of_def)
  show stack: "stack_of stk p' j = (if j = k then stk st' else stack_of stk p j)" for j
    using kl by (simp add: p'_def put_node_def stack_of_def nth_list_update)
  show "pool_elems p' = pool_elems p" by (simp add: pool_elems_def size width arr)
  show "base_num p' = base_num p" "pool_element_size p' = pool_element_size p" "free_node p' = free_node p" "nodenum p' = nodenum p" "pool_head p' = pool_head p"
    by (simp_all add: p'_def put_node_def)
  have nodes: "node_next (pool_nodes p' ! j) = (if Suc j < pool_size p then Some (Suc j) else None) \<and>
      node_wf stk cap (pool_width p) j (pool_nodes p' ! j)" if "j < pool_size p" for j
  proof (cases "j = k")
    case True
    obtain arr where "data_array nd = Some arr" "array_of p k = arr" "array_wf arr" "array_width arr = pool_width p"
      "\<And>i. i < array_len arr \<Longrightarrow> take 8 (array_elem arr i) = node_bytes k"
      "node_next nd = (if Suc k < pool_size p then Some (Suc k) else None)"
      using wf k by (rule pool_node) (use nd in auto)
    then show ?thesis using True kl st by (simp add: p'_def put_node_def node_wf_def)
  next
    case False
    then show ?thesis using wf that kl by (simp add: p'_def put_node_def pool_wf_def)
  qed
  then show "pool_wf stk cap p'" using wf size width by (simp add: pool_wf_def p'_def put_node_def)
  have apart: "y \<notin> set (stack_of stk p k)" if "y \<in> set (stack_of stk p j)" "j < pool_size p" "j \<noteq> k" for j y
    using stack_nodes [OF wf that(2,1)] stack_nodes [OF wf k] that(3) by blast
  then show "pool_free stk p' = (pool_free stk p - set (stack_of stk p k)) \<union> set (stk st')"
    using k by (auto simp: pool_free_def size stack split: if_splits dest: apart)
qed

section \<open>Taking an element\<close>

text \<open>What a step does that takes the pointer \<open>x\<close> off a stack.\<close>

definition taken ::
  "('st \<Rightarrow> elem_ptr list) \<Rightarrow> ('st \<Rightarrow> nat) \<Rightarrow> elem_ptr \<Rightarrow> 'st type_pool_s \<Rightarrow> 'st type_pool_s \<Rightarrow> bool" where
  "taken stk cap x p p' \<longleftrightarrow>
     pool_wf stk cap p' \<and> pool_size p' = pool_size p \<and> pool_elems p' = pool_elems p \<and> base_num p' = base_num p \<and>
     pool_element_size p' = pool_element_size p \<and> nodenum p' = nodenum p \<and> (\<forall>j. array_of p' j = array_of p j) \<and>
     x \<in> pool_free stk p \<and> pool_free stk p' = pool_free stk p - {x}"

lemma node_pop_law:
  assumes ops: "ptr_stack_ok ops stk cap" and wf: "pool_wf stk cap p" and k: "k < pool_size p"
  shows "stack_of stk p k = [] \<and> node_pop ops k p = Some (None, p) \<or>
    (\<exists>x p'. node_pop ops k p = Some (Some x, p') \<and> taken stk cap x p p')"
proof -
  obtain nd arr st where nd: "node_at p k = Some nd" "pool_nodes p ! k = nd" "array_of p k = arr" "ptr_stack nd = Some st"
    "stack_of stk p k = stk st" "cap st = array_len arr" "distinct (stk st)"
    "set (stk st) \<subseteq> elem_starts (pool_width p) k (array_len arr)"
    using wf k by (rule pool_node)
  show ?thesis
  proof (cases "stk st = []")
    case True
    have "put_node k nd p = p" using nd(2) by (auto simp: put_node_def)
    moreover have same: "nd\<lparr>ptr_stack := Some st\<rparr> = nd" using nd(4) by simp
    ultimately show ?thesis using True nd ptr_stack_okD(3) [OF ops True] by (simp add: node_pop_def same)
  next
    case False
    obtain st' where st': "ptr_popback ops st = (Some (last (stk st)), st')" "stk st' = butlast (stk st)" "cap st' = cap st"
      using ptr_stack_okD(4) [OF ops False] by auto
    define p' where "p' = put_node k (nd\<lparr>ptr_stack := Some st'\<rparr>) p"
    have "distinct (butlast (stk st))" "set (butlast (stk st)) = set (stk st) - {last (stk st)}"
      using nd(7) False by (simp_all add: distinct_butlast set_butlast)
    then have "cap st' = array_len (array_of p k)" "distinct (stk st')"
      "set (stk st') \<subseteq> elem_starts (pool_width p) k (array_len (array_of p k))"
      using st' nd by auto
    note put = put_stack [OF wf k nd(2) this, folded p'_def]
    have "set (stack_of stk p k) \<subseteq> pool_free stk p" using k unfolding pool_free_def by blast
    then have "last (stk st) \<in> pool_free stk p" "set (stk st) \<subseteq> pool_free stk p"
      using False nd(5) by auto
    then have "taken stk cap (last (stk st)) p p'"
      using put \<open>set (butlast (stk st)) = set (stk st) - {last (stk st)}\<close> st'(2) nd(5) False
      by (auto simp: taken_def)
    then show ?thesis using nd st' by (auto simp: node_pop_def p'_def)
  qed
qed

lemma scan_law:
  assumes ops: "ptr_stack_ok ops stk cap" and wf: "pool_wf stk cap p" and k: "k \<le> pool_size p"
  shows "\<exists>r node p'. scan_nodes ops (if k < pool_size p then Some k else None) p = Some (r, node, p') \<and>
    (\<forall>j. node = Some j \<longrightarrow> j < pool_size p) \<and>
    (r = None \<longrightarrow> p' = p \<and> (\<forall>j. k \<le> j \<and> j < pool_size p \<longrightarrow> stack_of stk p j = [])) \<and> (\<forall>x. r = Some x \<longrightarrow> taken stk cap x p p')"
  using k
proof (induction "pool_size p - k" arbitrary: k)
  case 0
  then show ?case by (subst scan_nodes.simps) auto
next
  case (Suc n)
  then have k: "k < pool_size p" by simp
  consider "stack_of stk p k = []" "node_pop ops k p = Some (None, p)"
    | x p' where "node_pop ops k p = Some (Some x, p')" "taken stk cap x p p'"
    using node_pop_law [OF ops wf k] by auto
  then show ?case
  proof cases
    case 1
    obtain nd where nd: "node_at p k = Some nd" "node_next nd = (if Suc k < pool_size p then Some (Suc k) else None)"
      using wf k by (rule pool_node)
    have "n = pool_size p - Suc k" "Suc k \<le> pool_size p" using Suc.hyps(2) k by simp_all
    from Suc.hyps(1) [OF this] obtain r node p' where
      nx: "scan_nodes ops (if Suc k < pool_size p then Some (Suc k) else None) p = Some (r, node, p')"
      and rest: "\<forall>j. node = Some j \<longrightarrow> j < pool_size p"
        "r = None \<longrightarrow> p' = p \<and> (\<forall>j. Suc k \<le> j \<and> j < pool_size p \<longrightarrow> stack_of stk p j = [])" "\<forall>x. r = Some x \<longrightarrow> taken stk cap x p p'"
      by blast
    have "scan_nodes ops (Some k) p = Some (r, node, p')"
      using 1(2) nd nx by (subst scan_nodes.simps) simp
    moreover have "stack_of stk p j = []" if "r = None" "k \<le> j" "j < pool_size p" for j
      using that rest(2) 1(1) by (cases "j = k") auto
    ultimately show ?thesis using k rest by auto
  next
    case 2
    then have wf': "pool_wf stk cap p'" and "k < pool_size p'" using k by (auto simp: taken_def)
    then obtain nd where "node_at p' k = Some nd" "node_next nd = (if Suc k < pool_size p' then Some (Suc k) else None)"
      by (rule pool_node)
    then show ?thesis using 2 k by (subst scan_nodes.simps) (auto simp: taken_def)
  qed
qed

lemma free_node_irrelevant:
  assumes "pool_wf stk cap p" "\<forall>j. node = Some j \<longrightarrow> j < pool_size p"
  shows "pool_wf stk cap (p\<lparr>free_node := node\<rparr>)"
  using assms by (simp add: pool_wf_def pool_size_def pool_width_def)

lemma free_node_fields [simp]:
  "pool_size (p\<lparr>free_node := node\<rparr>) = pool_size p" "array_of (p\<lparr>free_node := node\<rparr>) j = array_of p j"
  "pool_elems (p\<lparr>free_node := node\<rparr>) = pool_elems p" "pool_free stk (p\<lparr>free_node := node\<rparr>) = pool_free stk p"
  by (simp_all add: pool_size_def array_of_def pool_elems_def pool_free_def stack_of_def pool_width_def)

lemma nodenum_fields [simp]:
  "pool_wf stk cap (p\<lparr>nodenum := m\<rparr>) = pool_wf stk cap p"
  "pool_size (p\<lparr>nodenum := m\<rparr>) = pool_size p" "array_of (p\<lparr>nodenum := m\<rparr>) j = array_of p j"
  "pool_elems (p\<lparr>nodenum := m\<rparr>) = pool_elems p" "pool_free stk (p\<lparr>nodenum := m\<rparr>) = pool_free stk p"
  by (simp_all add: pool_wf_def pool_size_def array_of_def pool_elems_def pool_free_def stack_of_def pool_width_def)

lemma taken_free_node:
  "taken stk cap x p p' \<Longrightarrow> \<forall>j. node = Some j \<longrightarrow> j < pool_size p \<Longrightarrow> taken stk cap x p (p'\<lparr>free_node := node\<rparr>)"
  by (simp add: taken_def free_node_irrelevant)

lemma claim_help_law:
  assumes ops: "ptr_stack_ok ops stk cap" and wf: "pool_wf stk cap p"
  shows "type_pool_claim_help ops p = Some (None, p) \<and> pool_free stk p = {} \<or>
    (\<exists>x p'. type_pool_claim_help ops p = Some (Some (payload x), p') \<and> taken stk cap x p p')"
proof -
  have start: "0 < pool_size p" "pool_head p = Some 0" using wf by (simp_all add: pool_wf_def)
  have "\<exists>r node p'. scan_nodes ops (pool_head p) p = Some (r, node, p') \<and> (\<forall>j. node = Some j \<longrightarrow> j < pool_size p) \<and>
    (r = None \<longrightarrow> p' = p \<and> (\<forall>j. j < pool_size p \<longrightarrow> stack_of stk p j = [])) \<and> (\<forall>x. r = Some x \<longrightarrow> taken stk cap x p p')"
    using scan_law [OF ops wf, of 0] start by simp
  then obtain r node p' where scan: "scan_nodes ops (pool_head p) p = Some (r, node, p')" "\<forall>j. node = Some j \<longrightarrow> j < pool_size p"
    "r = None \<longrightarrow> p' = p \<and> (\<forall>j. j < pool_size p \<longrightarrow> stack_of stk p j = [])" "\<forall>x. r = Some x \<longrightarrow> taken stk cap x p p'"
    by blast
  have scanned: ?thesis
    if "type_pool_claim_help ops p = do {
          (r, node, p2) \<leftarrow> scan_nodes ops (pool_head p) p;
          case r of None \<Rightarrow> Some (None, p2) | Some (n, off) \<Rightarrow> Some (Some (n, off + 8), p2\<lparr>free_node := node\<rparr>) }"
  proof (cases r)
    case None
    then show ?thesis using that scan by (auto simp: pool_free_def)
  next
    case (Some x)
    then have "type_pool_claim_help ops p = Some (Some (payload x), p'\<lparr>free_node := node\<rparr>)"
      using that scan(1) by (simp add: payload_def split: prod.split)
    then show ?thesis using taken_free_node scan(2,4) Some by blast
  qed
  show ?thesis
  proof (cases "free_node p")
    case None
    then show ?thesis by (intro scanned) (simp add: type_pool_claim_help_def)
  next
    case (Some k)
    then have k: "k < pool_size p" using wf by (simp add: pool_wf_def)
    from node_pop_law [OF ops wf k] show ?thesis
    proof
      assume "stack_of stk p k = [] \<and> node_pop ops k p = Some (None, p)"
      then show ?thesis using Some by (intro scanned) (simp add: type_pool_claim_help_def)
    next
      assume "\<exists>x p'. node_pop ops k p = Some (Some x, p') \<and> taken stk cap x p p'"
      then obtain x p' where x: "node_pop ops k p = Some (Some x, p')" "taken stk cap x p p'" by blast
      then have "type_pool_claim_help ops p = Some (Some (payload x), p'\<lparr>free_node := Some k\<rparr>)"
        using Some by (simp add: type_pool_claim_help_def payload_def split: prod.split)
      moreover have "taken stk cap x p (p'\<lparr>free_node := Some k\<rparr>)"
        using x(2) k by (simp add: taken_free_node)
      ultimately show ?thesis by blast
    qed
  qed
qed

section \<open>A new node\<close>

text \<open>
  \<open>filled\<close>: the first \<open>m\<close> elements carry the address of the node and lie on the stack.
\<close>

definition filled ::
  "('st \<Rightarrow> elem_ptr list) \<Rightarrow> ('st \<Rightarrow> nat) \<Rightarrow> nat \<Rightarrow> nat \<Rightarrow> nat \<Rightarrow> nat \<Rightarrow> array_s \<times> 'st \<Rightarrow> bool" where
  "filled stk cap addr w n m s \<longleftrightarrow>
     array_wf (fst s) \<and> array_width (fst s) = w \<and> array_len (fst s) = n \<and> cap (snd s) = n \<and>
     stk (snd s) = map (\<lambda>i. (addr, i * w)) [0..<m] \<and> (\<forall>i < m. take 8 (array_elem (fst s) i) = node_bytes addr)"

lemma node_bytes_length [simp]: "length (node_bytes k) = 8"
  by (simp add: node_bytes_def)

lemma bytes_node_bytes: "k < 2 ^ 64 \<Longrightarrow> bytes_node (node_bytes k) = k"
proof -
  assume k: "k < 2 ^ 64"
  have "of_char (char_of (unat b)) = (b :: uint8_t)" for b
  proof -
    have "of_char (char_of (unat b)) = (of_nat (of_char (char_of (unat b))) :: uint8_t)" by (simp only: of_nat_of_char)
    also have "\<dots> = of_nat (unat b mod 256)" by (simp only: of_char_of)
    finally have "of_char (char_of (unat b)) = (of_nat (unat b mod 256) :: uint8_t)" .
    moreover have "unat b < 256" using unsigned_less [of b] by simp
    ultimately show ?thesis by simp
  qed
  then have "map of_char (node_bytes k) = to_memory (of_nat k :: uint64_t)"
    by (simp add: node_bytes_def comp_def)
  then show ?thesis using k by (simp add: bytes_node_def from_to_memory unat_of_nat)
qed

lemma init_element_law:
  assumes ops: "ptr_stack_ok ops stk cap" and f: "filled stk cap addr w n m s" and m: "m < n" and w: "8 \<le> w" "w < 2 ^ 31"
  shows "\<exists>s'. init_element ops addr (int w) m s = Some s' \<and> filled stk cap addr w n (Suc m) s'"
proof -
  obtain arr st where s: "s = (arr, st)" by (cases s)
  have wf: "array_wf arr" "array_width arr = w" "array_len arr = n" "cap st = n"
    "stk st = map (\<lambda>i. (addr, i * w)) [0..<m]" "\<And>i. i < m \<Longrightarrow> take 8 (array_elem arr i) = node_bytes addr"
    using f by (auto simp: filled_def s)
  define v where "v = node_bytes addr @ replicate (w - 8) (CHR 0x00)"
  have v: "length v = array_width arr" using w by (simp add: v_def wf(2))
  obtain arr' where set: "ox_array_set arr (int m) v = Some (True, arr')" and arr': "array_wf arr'" "array_len arr' = n"
    "array_width arr' = w" "\<And>j. j < n \<Longrightarrow> array_elem arr' j = (if j = m then v else array_elem arr j)"
    using array_set_law [OF wf(1) _ v, of m] m wf by auto
  from wf(1) show ?thesis
  proof (rule array_wfE)
    fix d n' w' assume d: "arr_buffer arr = Some d" "element_num arr = int n'" "element_size arr = int w'" "length d = n' * w'"
      "n' * w' < 2 ^ 31" "buffer_size arr = int (n' * w')" "n' < 2 ^ 31" "w' < 2 ^ 31"
    have nw: "n' = n" "w' = w" using d wf by (simp_all add: array_len_def array_width_def ox_array_num_def)
    have fits: "m * w + w \<le> length d" using block_bound [OF m, of w] d(4) nw by simp
    have off: "ox_array_at arr (int m) = Some (m * w)"
      using d m fits nw by (simp add: ox_array_at_def Let_def nat_mult_distrib int_ok_int flip: of_nat_mult)
    have size: "to_size (int w) = w" using w(2) by (simp add: to_size_int)
    define d1 where "d1 = take (m * w) d @ replicate w (CHR 0x00) @ drop (m * w + w) d"
    have "mem_write (m * w) (replicate (to_size (int w)) (CHR 0x00)) d = Some d1"
      using fits by (simp add: size mem_write_in d1_def)
    moreover have "mem_write (m * w) (node_bytes addr) d1 = mem_write (m * w) v d"
      using fits w(1) by (simp add: mem_write_def d1_def v_def)
    moreover obtain d2 where d2: "mem_write (m * w) v d = Some d2" using fits v wf(2) by (simp add: mem_write_in)
    moreover have "arr' = arr\<lparr>arr_buffer := Some d2\<rparr>"
      using set off d(1) d2 v wf(2) size nw d(3) by (simp add: ox_array_set_def mem_read_def)
    ultimately have run: "init_element ops addr (int w) m s = Some (arr', snd (ptr_push ops st (addr, m * w)))"
      using off d(1) by (simp add: init_element_def s)
    have "stk (snd (ptr_push ops st (addr, m * w))) = stk st @ [(addr, m * w)]" "cap (snd (ptr_push ops st (addr, m * w))) = n"
      using ptr_stack_okD(1,2) [OF ops, of st] m wf by auto
    then have "filled stk cap addr w n (Suc m) (arr', snd (ptr_push ops st (addr, m * w)))"
      using arr' wf m v wf(2) w by (auto simp: filled_def less_Suc_eq v_def)
    then show ?thesis using run by blast
  qed
qed

lemma init_elements_law:
  assumes "ptr_stack_ok ops stk cap" "filled stk cap addr w n m s" "m \<le> n" "8 \<le> w" "w < 2 ^ 31"
  shows "\<exists>s'. init_elements ops addr (int w) [m..<n] s = Some s' \<and> filled stk cap addr w n n s'"
  using assms(2,3)
proof (induction "n - m" arbitrary: m s)
  case (Suc k)
  then have m: "m < n" by simp
  obtain s' where "init_element ops addr (int w) m s = Some s'" "filled stk cap addr w n (Suc m) s'"
    using init_element_law [OF assms(1) Suc.prems(1) m assms(4,5)] by blast
  then show ?case using Suc.hyps(1) [of "Suc m" s'] Suc.hyps(2) m by (simp add: upt_conv_Cons)
qed simp

lemma node_new_law:
  assumes ops: "ptr_stack_ok ops stk cap" and al: "alloc_ok stk cap al"
    and num: "0 \<le> num" "int_ok num" "int_ok (num * int w)" and w: "8 \<le> w" "w < 2 ^ 31"
  shows "type_pool_node_new ops al addr num (int w) live = Some (None, live) \<or>
    (\<exists>nd. type_pool_node_new ops al addr num (int w) live = Some (Some nd, live + 4) \<and> addr < 2 ^ 64 \<and>
       node_wf stk cap w addr nd \<and> node_next nd = None \<and> array_len (the (data_array nd)) = nat num \<and>
       stk (the (ptr_stack nd)) = map (\<lambda>i. (addr, i * w)) [0..<nat num])"
proof (cases "struct_granted al \<and> addr < 2 ^ 64")
  case False
  then show ?thesis by (simp add: type_pool_node_new_def del: de_Morgan_conj)
next
  case granted: True
  show ?thesis
  proof (cases "new_stack al num 8")
    case None
    then show ?thesis using granted by (simp add: type_pool_node_new_def type_pool_node_delete_def ox_array_delete_def)
  next
    case (Some st)
    have st: "stk st = []" "cap st = nat num" using al Some num by (auto simp: alloc_ok_def to_size_nat)
    define n where "n = nat num"
    have n: "num = int n" "to_size num = n" "n < 2 ^ 31" using num by (simp_all add: n_def to_size_nat int_ok_def)
    have iw: "int_ok (int w)" using w by (simp add: int_ok_int)
    note arr = ox_array_new_delete [of num "int w" "array_granted al" "block_granted al" "live + 2", OF num(1) _ num(2) iw num(3)]
    have "int (n * w) = num * int w" by (simp add: n)
    have size: "to_size (num * int w) = n * w" using num by (simp add: n to_size_nat flip: of_nat_mult)
    show ?thesis
    proof (cases "array_granted al \<and> block_granted al (n * w)")
      case False
      then have "ox_array_new (array_granted al) (block_granted al) num (int w) (live + 2) = Some (None, live + 2)"
        using num size by (auto simp: ox_array_new_def Let_def ox_array_delete_def)
      then show ?thesis
        using granted Some by (simp add: type_pool_node_new_def type_pool_node_delete_def ox_array_delete_def)
    next
      case True
      define a where "a = \<lparr>arr_buffer = Some (replicate (n * w) (CHR 0x00)), buffer_size = num * int w,
        element_size = int w, element_num = num\<rparr>"
      have new: "ox_array_new (array_granted al) (block_granted al) num (int w) (live + 2) = Some (Some a, live + 4)"
        using True num size by (simp add: ox_array_new_def Let_def a_def)
      have "array_wf a" "array_width a = w" "array_len a = n"
        using num iw by (simp_all add: a_def array_wf_def array_width_def array_len_def ox_array_num_def n nat_mult_distrib)
      then have "filled stk cap addr w n 0 (a, st)" using st n by (simp add: filled_def)
      from init_elements_law [OF ops this _ w] obtain a' st' where
        init: "init_elements ops addr (int w) [0..<n] (a, st) = Some (a', st')" and f: "filled stk cap addr w n n (a', st')"
        by auto
      define nd where "nd = \<lparr>data_array = Some a', ptr_stack = Some st', node_next = None\<rparr>"
      have "type_pool_node_new ops al addr num (int w) live = Some (Some nd, live + 4)"
        using granted Some new init n by (simp add: type_pool_node_new_def nd_def)
      moreover have "node_wf stk cap w addr nd"
        using f w by (auto simp: filled_def node_wf_def nd_def elem_starts_def distinct_map inj_on_def)
      moreover have "array_len (the (data_array nd)) = nat num" "stk (the (ptr_stack nd)) = map (\<lambda>i. (addr, i * w)) [0..<nat num]"
        using f by (auto simp: filled_def nd_def n_def)
      ultimately show ?thesis using granted by (auto simp: nd_def)
    qed
  qed
qed

section \<open>A larger pool\<close>

text \<open>
  The later pool \<open>p'\<close> is well formed, has the nodes of \<open>p\<close>, and their arrays are untouched.
\<close>

definition pool_ext :: "('st \<Rightarrow> elem_ptr list) \<Rightarrow> ('st \<Rightarrow> nat) \<Rightarrow> 'st type_pool_s \<Rightarrow> 'st type_pool_s \<Rightarrow> bool" where
  "pool_ext stk cap p p' \<longleftrightarrow>
     pool_wf stk cap p' \<and> base_num p' = base_num p \<and> pool_element_size p' = pool_element_size p \<and>
     pool_size p \<le> pool_size p' \<and> (\<forall>j < pool_size p. array_of p' j = array_of p j)"

lemma pool_ext_trans: "pool_ext stk cap p q \<Longrightarrow> pool_ext stk cap q r \<Longrightarrow> pool_ext stk cap p r"
  by (auto simp: pool_ext_def)

lemma taken_ext: "taken stk cap x p p' \<Longrightarrow> pool_ext stk cap p p'"
  by (simp add: taken_def pool_ext_def)

definition increase_ok :: "'st type_pool_s \<Rightarrow> int \<Rightarrow> bool" where
  "increase_ok p num \<longleftrightarrow> 0 \<le> num \<and> int_ok num \<and> int_ok (num * int (pool_width p))"

lemma pool_node_array:
  assumes "pool_wf stk cap p" "j < pool_size p"
  shows "array_wf (array_of p j)" "array_width (array_of p j) = pool_width p" "data_array (pool_nodes p ! j) = Some (array_of p j)"
  using assms by (auto elim: pool_node)

lemma increase_law:
  assumes ops: "ptr_stack_ok ops stk cap" and al: "alloc_ok stk cap al" and wf: "pool_wf stk cap p"
    and num: "increase_ok p num"
  shows "ox_type_pool_increase ops al p num live = Some (p, live) \<or>
    (\<exists>p'. ox_type_pool_increase ops al p num live = Some (p', live + 4) \<and> pool_ext stk cap p p' \<and> pool_live stk p' = pool_live stk p \<and>
       nodenum p' = nodenum p \<and> pool_size p' = Suc (pool_size p) \<and>
       pool_free stk p' = pool_free stk p \<union> elem_starts (pool_width p) (pool_size p) (nat num))"
proof -
  have w: "8 \<le> pool_width p" "pool_width p < 2 ^ 31" "with_header (pool_element_size p) = Some (int (pool_width p))"
    using width_facts [OF wf] wf by (auto simp: pool_wf_def pool_width_def int_ok_def)
  have n: "0 \<le> num" "int_ok num" "int_ok (num * int (pool_width p))" using num by (simp_all add: increase_ok_def)
  from node_new_law [OF ops al n w(1,2), of "pool_size p" live] show ?thesis
  proof (elim disjE exE conjE)
    assume "type_pool_node_new ops al (pool_size p) num (int (pool_width p)) live = Some (None, live)"
    then show ?thesis using w(3) by (simp add: ox_type_pool_increase_def pool_size_def)
  next
    fix nd
    assume new: "type_pool_node_new ops al (pool_size p) num (int (pool_width p)) live = Some (Some nd, live + 4)"
      and nd: "pool_size p < 2 ^ 64" "node_wf stk cap (pool_width p) (pool_size p) nd" "node_next nd = None"
        "array_len (the (data_array nd)) = nat num" "stk (the (ptr_stack nd)) = map (\<lambda>i. (pool_size p, i * pool_width p)) [0..<nat num]"
    define t where "t = pool_size p - 1"
    have t: "t < pool_size p" "pool_tail p = Some t" using wf by (auto simp: pool_wf_def t_def)
    define p' where "p' = p\<lparr>pool_nodes := (pool_nodes p)[t := (pool_nodes p ! t)\<lparr>node_next := Some (pool_size p)\<rparr>] @ [nd],
      pool_tail := Some (pool_size p), free_node := Some (pool_size p)\<rparr>"
    have run: "ox_type_pool_increase ops al p num live = Some (p', live + 4)"
      using new w(3) t by (simp add: ox_type_pool_increase_def p'_def node_at_def Let_def flip: pool_size_def)
    have size: "pool_size p' = Suc (pool_size p)" by (simp add: p'_def pool_size_def)
    have width: "pool_width p' = pool_width p" by (simp add: p'_def pool_width_def)
    have old: "pool_nodes p' ! j = (if j = t then (pool_nodes p ! t)\<lparr>node_next := Some (pool_size p)\<rparr> else pool_nodes p ! j)"
      if "j < pool_size p" for j
      using that t by (simp add: p'_def pool_size_def nth_append)
    have last: "pool_nodes p' ! pool_size p = nd" by (simp add: p'_def pool_size_def nth_append)
    have arrays: "array_of p' j = array_of p j" if "j < pool_size p" for j using old [OF that] by (simp add: array_of_def)
    have stacks: "stack_of stk p' j = stack_of stk p j" if "j < pool_size p" for j using old [OF that] by (simp add: stack_of_def)
    have nodes: "node_next (pool_nodes p' ! j) = (if Suc j < pool_size p' then Some (Suc j) else None) \<and>
        node_wf stk cap (pool_width p') j (pool_nodes p' ! j)" if "j < pool_size p'" for j
    proof (cases "j = pool_size p")
      case True
      then show ?thesis using nd last size width by simp
    next
      case False
      then have j: "j < pool_size p" using that size by simp
      then have "node_wf stk cap (pool_width p) j (pool_nodes p ! j)"
        "node_next (pool_nodes p ! j) = (if Suc j < pool_size p then Some (Suc j) else None)"
        using wf by (simp_all add: pool_wf_def)
      then show ?thesis using old [OF j] size width j by (auto simp: t_def node_wf_def)
    qed
    have wf': "pool_wf stk cap p'"
      using wf nodes size width nd(1) by (simp add: pool_wf_def p'_def)
    have free: "pool_free stk p' = pool_free stk p \<union> elem_starts (pool_width p) (pool_size p) (nat num)"
    proof -
      have "set (stack_of stk p' (pool_size p)) = elem_starts (pool_width p) (pool_size p) (nat num)"
        using nd(5) by (simp add: stack_of_def last elem_starts_def atLeast0LessThan)
      then show ?thesis using stacks by (auto simp: pool_free_def size lessThan_Suc)
    qed
    have elems: "pool_elems p' = pool_elems p \<union> elem_starts (pool_width p) (pool_size p) (nat num)"
      using arrays nd(4) by (auto simp: pool_elems_def size width lessThan_Suc array_of_def [of _ "pool_size p"] last)
    have "pool_elems p \<inter> elem_starts (pool_width p) (pool_size p) (nat num) = {}"
      by (auto simp: pool_elems_def elem_starts_def)
    then have "pool_elems p' - pool_free stk p' = pool_elems p - pool_free stk p"
      unfolding elems free by blast
    then have "pool_ext stk cap p p'" "pool_live stk p' = pool_live stk p"
      using wf' size arrays by (simp_all add: pool_ext_def pool_live_def) (simp_all add: p'_def)
    then show ?thesis using run free size by (auto simp: p'_def)
  qed
qed

section \<open>Claim, reclaim and stores\<close>

lemma taken_live:
  assumes "taken stk cap x p p'" "pool_wf stk cap p"
  shows "pool_live stk p' = insert (payload x) (pool_live stk p)" "payload x \<notin> pool_live stk p"
proof -
  have "x \<in> pool_elems p" "x \<in> pool_free stk p" using assms free_in_elems [OF assms(2)] by (auto simp: taken_def)
  then show "pool_live stk p' = insert (payload x) (pool_live stk p)" "payload x \<notin> pool_live stk p"
    using assms(1) by (auto simp: taken_def pool_live_def)
qed

lemma ext_nodenum: "pool_ext stk cap p p' \<Longrightarrow> pool_ext stk cap p (p'\<lparr>nodenum := m\<rparr>)"
  by (simp add: pool_ext_def)

lemma nodenum_live [simp]: "pool_live stk (p\<lparr>nodenum := m\<rparr>) = pool_live stk p"
  by (simp add: pool_live_def)

lemma ext_refl: "pool_wf stk cap p \<Longrightarrow> pool_ext stk cap p p"
  by (simp add: pool_ext_def)

text \<open>
  A claim yields an element that was not in use. It yields the null pointer only when no element was free and no
  element could be added.
\<close>

lemma claim_law:
  assumes ops: "ptr_stack_ok ops stk cap" and al: "alloc_ok stk cap al" and wf: "pool_wf stk cap p"
    and num: "increase_ok p (base_num p)"
  shows "\<exists>r p' live'. ox_type_pool_claim ops al p live = Some (r, p', live') \<and> pool_ext stk cap p p' \<and>
    (\<forall>y. r = Some y \<longrightarrow> y \<notin> pool_live stk p \<and> pool_live stk p' = insert y (pool_live stk p)) \<and>
    (r = None \<longrightarrow> pool_live stk p' = pool_live stk p \<and> pool_free stk p = {} \<and> (pool_size p' = pool_size p \<or> base_num p = 0))"
proof -
  from claim_help_law [OF ops wf] show ?thesis
  proof (elim disjE exE conjE)
    fix x p' assume x: "type_pool_claim_help ops p = Some (Some (payload x), p')" "taken stk cap x p p'"
    then show ?thesis using taken_live [OF x(2) wf] taken_ext [OF x(2)] by (auto simp: ox_type_pool_claim_def)
  next
    assume none: "type_pool_claim_help ops p = Some (None, p)" "pool_free stk p = {}"
    define q where "q = (\<lambda>p2. p2\<lparr>nodenum := nodenum p2 + 1 :: int\<rparr> :: 'a type_pool_s)"
    have q: "pool_wf stk cap (q p2) = pool_wf stk cap p2" "pool_free stk (q p2) = pool_free stk p2"
      "pool_live stk (q p2) = pool_live stk p2" "pool_ext stk cap p p2 \<Longrightarrow> pool_ext stk cap p (q p2)"
      "pool_size (q p2) = pool_size p2" for p2
      by (simp_all add: q_def ext_nodenum)
    obtain p2 live2 where inc: "ox_type_pool_increase ops al p (base_num p) live = Some (p2, live2)"
      and p2: "pool_ext stk cap p p2" "pool_live stk p2 = pool_live stk p"
        "pool_free stk p2 = {} \<longrightarrow> pool_size p2 = pool_size p \<or> base_num p = 0"
      using increase_law [OF ops al wf num, of live] none(2) ext_refl [OF wf] num
      by (auto simp: elem_starts_empty increase_ok_def)
    have wf2: "pool_wf stk cap (q p2)" using p2(1) by (simp add: q pool_ext_def)
    have claim: "ox_type_pool_claim ops al p live = do { (r, p4) \<leftarrow> type_pool_claim_help ops (q p2); Some (r, p4, live2) }"
      using none(1) inc by (simp add: ox_type_pool_claim_def q_def Let_def)
    from claim_help_law [OF ops wf2] show ?thesis
    proof (elim disjE exE conjE)
      assume "type_pool_claim_help ops (q p2) = Some (None, q p2)" "pool_free stk (q p2) = {}"
      then show ?thesis using claim p2 none(2) q by simp
    next
      fix x p' assume x: "type_pool_claim_help ops (q p2) = Some (Some (payload x), p')" "taken stk cap x (q p2) p'"
      then show ?thesis
        using claim taken_live [OF x(2) wf2] pool_ext_trans [OF q(4) [OF p2(1)] taken_ext [OF x(2)]] p2(2) q(3) by auto
    qed
  qed
qed

text \<open>The place of an element in use.\<close>

lemma live_place:
  assumes wf: "pool_wf stk cap p" and y: "y \<in> pool_live stk p"
  obtains k i arr d where "y = (k, i * pool_width p + 8)" "k < pool_size p" "array_of p k = arr" "i < array_len arr"
    "data_array (pool_nodes p ! k) = Some arr" "array_wf arr" "array_width arr = pool_width p" "arr_buffer arr = Some d"
    "length d = array_len arr * pool_width p" "i * pool_width p + pool_width p \<le> length d" "(k, i * pool_width p) \<notin> pool_free stk p"
proof -
  obtain k i where k: "k < pool_size p" "i < array_len (array_of p k)" "y = (k, i * pool_width p + 8)"
    "(k, i * pool_width p) \<notin> pool_free stk p"
    using y by (auto simp: pool_live_def pool_elems_def elem_starts_def payload_def)
  note arr = pool_node_array [OF wf k(1)]
  from arr(1) show ?thesis
  proof (rule array_wfE)
    fix d n w assume d: "arr_buffer (array_of p k) = Some d" "element_num (array_of p k) = int n" "element_size (array_of p k) = int w"
      "length d = n * w"
    have "n = array_len (array_of p k)" "w = pool_width p"
      using d(2,3) arr(2) by (simp_all add: array_len_def ox_array_num_def array_width_def)
    then show ?thesis using k arr d block_bound [OF k(2), of "pool_width p"] by (intro that [of k i "array_of p k" d]) auto
  qed
qed

lemma elem_read_at:
  assumes "k < pool_size p" "data_array (pool_nodes p ! k) = Some arr" "arr_buffer arr = Some d"
  shows "elem_read p (k, off) n = mem_read off n d"
  using assms by (simp add: elem_read_def node_at_def pool_size_def)

lemma header_read:
  assumes wf: "pool_wf stk cap p" and k: "k < pool_size p" "i < array_len (array_of p k)"
  shows "elem_read p (k, i * pool_width p) 8 = Some (node_bytes k)"
proof -
  obtain arr where arr: "array_of p k = arr" "data_array (pool_nodes p ! k) = Some arr" "array_wf arr" "array_width arr = pool_width p"
    "take 8 (array_elem arr i) = node_bytes k"
    using wf k(1) by (rule pool_node) (use k in auto)
  from arr(3) show ?thesis
  proof (rule array_wfE)
    fix d n w assume d: "arr_buffer arr = Some d" "element_num arr = int n" "element_size arr = int w" "length d = n * w"
    have n: "n = array_len arr" "w = pool_width p"
      using d(2,3) arr by (simp_all add: array_len_def ox_array_num_def array_width_def)
    have "i * w + w \<le> length d" using block_bound [of i n w] k(2) arr(1) n d(4) by simp
    moreover have "8 \<le> w" using width_facts(1) [OF wf] n by simp
    moreover have "take 8 (array_elem arr i) = take 8 (drop (i * w) d)"
      using d(1,3) calculation(2) by (simp add: array_elem_def min_def)
    ultimately show ?thesis using arr d n elem_read_at [OF k(1) arr(2) d(1)] by (simp add: mem_read_def)
  qed
qed

lemma reclaim_law:
  assumes ops: "ptr_stack_ok ops stk cap" and wf: "pool_wf stk cap p" and y: "y \<in> pool_live stk p"
  shows "\<exists>p'. ox_type_pool_reclaim ops p y = Some p' \<and> pool_ext stk cap p p' \<and> pool_size p' = pool_size p \<and>
    pool_live stk p' = pool_live stk p - {y}"
  using wf y
proof (rule live_place)
  fix k i arr d
  assume a: "y = (k, i * pool_width p + 8)" "k < pool_size p" "array_of p k = arr" "i < array_len arr"
    "(k, i * pool_width p) \<notin> pool_free stk p"
  define x where "x = (k, i * pool_width p)"
  have x: "x \<in> elem_starts (pool_width p) k (array_len arr)" "x \<notin> pool_free stk p" "y = payload x"
    using a by (auto simp: x_def elem_starts_def payload_def)
  obtain nd st where nd: "node_at p k = Some nd" "pool_nodes p ! k = nd" "ptr_stack nd = Some st" "stack_of stk p k = stk st"
    "cap st = array_len arr" "distinct (stk st)" "set (stk st) \<subseteq> elem_starts (pool_width p) k (array_len arr)"
    using wf a(2) by (rule pool_node) (use a in auto)
  have stack: "set (stk st) \<subseteq> pool_free stk p" using a(2) nd(4) unfolding pool_free_def by (metis UN_upper lessThan_iff)
  then have fresh: "x \<notin> set (stk st)" using x(2) by blast
  have "set (stk st) \<subset> elem_starts (pool_width p) k (array_len arr)" using nd(7) x(1) fresh by blast
  then have "card (set (stk st)) < card (elem_starts (pool_width p) k (array_len arr))"
    by (intro psubset_card_mono) (simp_all add: elem_starts_def)
  also have "\<dots> \<le> array_len arr" using card_image_le [of "{..<array_len arr}"] by (simp add: elem_starts_def)
  finally have room: "length (stk st) < cap st" using nd(5,6) by (simp add: distinct_card)
  define st' where "st' = snd (ptr_push ops st x)"
  have st': "stk st' = stk st @ [x]" "cap st' = array_len (array_of p k)"
    using ptr_stack_okD(1,2) [OF ops room] nd(5) a(3) by (simp_all add: st'_def)
  define p' where "p' = put_node k (nd\<lparr>ptr_stack := Some st'\<rparr>) p"
  have "distinct (stk st')" "set (stk st') \<subseteq> elem_starts (pool_width p) k (array_len (array_of p k))"
    using st' nd(6,7) fresh x(1) a(3) by auto
  note put = put_stack [OF wf a(2) nd(2) st'(2) this, folded p'_def]
  have "k < 2 ^ 64" using wf a(2) by (simp add: pool_wf_def)
  then have "ox_type_pool_reclaim ops p y = Some (p'\<lparr>free_node := Some k\<rparr>)"
    using header_read [OF wf a(2), of i] a nd(1,3)
    by (simp add: ox_type_pool_reclaim_def bytes_node_bytes p'_def st'_def x_def)
  moreover have "pool_ext stk cap p (p'\<lparr>free_node := Some k\<rparr>)"
    using put a(2) by (simp add: pool_ext_def free_node_irrelevant)
  moreover have "pool_live stk (p'\<lparr>free_node := Some k\<rparr>) = pool_live stk p - {y}"
  proof -
    have "pool_free stk p' = insert x (pool_free stk p)" using put(11) st'(1) nd(4) stack by auto
    then show ?thesis using x put(4) by (auto simp: pool_live_def)
  qed
  ultimately show ?thesis using put(2) by auto
qed

section \<open>Stores\<close>

lemma put_array:
  assumes wf: "pool_wf stk cap p" and k: "k < pool_size p" and nd: "pool_nodes p ! k = nd"
    and arr: "array_wf arr'" "array_width arr' = pool_width p" "array_len arr' = array_len (array_of p k)"
      "\<And>i. i < array_len arr' \<Longrightarrow> take 8 (array_elem arr' i) = node_bytes k"
  defines "p' \<equiv> put_node k (nd\<lparr>data_array := Some arr'\<rparr>) p"
  shows "pool_wf stk cap p'" "pool_size p' = pool_size p" "pool_width p' = pool_width p" "pool_live stk p' = pool_live stk p"
    "array_of p' j = (if j = k then arr' else array_of p j)" "base_num p' = base_num p" "pool_element_size p' = pool_element_size p"
proof -
  have kl: "k < length (pool_nodes p)" using k by (simp add: pool_size_def)
  show size: "pool_size p' = pool_size p" by (simp add: p'_def put_node_def pool_size_def)
  show width: "pool_width p' = pool_width p" by (simp add: p'_def put_node_def pool_width_def)
  show "base_num p' = base_num p" "pool_element_size p' = pool_element_size p" by (simp_all add: p'_def put_node_def)
  show arrays: "array_of p' j = (if j = k then arr' else array_of p j)" for j
    using kl by (simp add: p'_def put_node_def array_of_def)
  have stack: "stack_of stk p' j = stack_of stk p j" for j
    using kl nd by (cases "j = k") (simp_all add: p'_def put_node_def stack_of_def)
  have "array_len (array_of p' j) = array_len (array_of p j)" for j using arrays arr(3) by simp
  then show "pool_live stk p' = pool_live stk p" by (simp add: pool_live_def pool_elems_def pool_free_def size width stack)
  have "node_next (pool_nodes p' ! j) = (if Suc j < pool_size p then Some (Suc j) else None) \<and>
      node_wf stk cap (pool_width p) j (pool_nodes p' ! j)" if "j < pool_size p" for j
  proof (cases "j = k")
    case True
    obtain st where "ptr_stack nd = Some st" "cap st = array_len arr'" "distinct (stk st)"
      "set (stk st) \<subseteq> elem_starts (pool_width p) k (array_len arr')" "node_next nd = (if Suc k < pool_size p then Some (Suc k) else None)"
      using wf k by (rule pool_node) (use nd arr(3) in auto)
    then show ?thesis using True kl arr by (simp add: p'_def put_node_def node_wf_def)
  next
    case False
    then show ?thesis using wf that kl by (simp add: p'_def put_node_def pool_wf_def)
  qed
  then show "pool_wf stk cap p'" using wf size width by (simp add: pool_wf_def p'_def put_node_def)
qed

text \<open>A store at the distance \<open>m\<close> from the start of an element in use.\<close>

lemma store_at_law:
  assumes wf: "pool_wf stk cap p" and y: "y \<in> pool_live stk p" and fits: "int (m + length bs) \<le> pool_element_size p"
  shows "\<exists>p'. elem_write p (fst y, snd y + m) bs = Some p' \<and> pool_wf stk cap p' \<and> pool_live stk p' = pool_live stk p \<and>
    pool_size p' = pool_size p \<and> base_num p' = base_num p \<and> pool_element_size p' = pool_element_size p \<and>
    elem_read p' (fst y, snd y + m) (length bs) = Some bs \<and>
    (\<forall>n \<le> m. elem_read p' y n = elem_read p y n) \<and>
    (\<forall>z \<in> pool_live stk p. z \<noteq> y \<longrightarrow> (\<forall>n. int n \<le> pool_element_size p \<longrightarrow> elem_read p' z n = elem_read p z n))"
  using wf y
proof (rule live_place)
  fix k i arr d
  define w where "w = pool_width p"
  assume "y = (k, i * pool_width p + 8)" "k < pool_size p" "array_of p k = arr" "i < array_len arr"
    "data_array (pool_nodes p ! k) = Some arr" "array_wf arr" "array_width arr = pool_width p" "arr_buffer arr = Some d"
    "length d = array_len arr * pool_width p" "i * pool_width p + pool_width p \<le> length d"
  then have a: "y = (k, i * w + 8)" "k < pool_size p" "array_of p k = arr" "i < array_len arr"
    "data_array (pool_nodes p ! k) = Some arr" "array_wf arr" "array_width arr = w" "arr_buffer arr = Some d"
    "length d = array_len arr * w" "i * w + w \<le> length d"
    by (simp_all add: w_def)
  have w: "8 \<le> w" "m + length bs + 8 \<le> w" using width_facts(1,2) [OF wf] fits by (simp_all add: w_def)
  define d' where "d' = take (i * w + 8 + m) d @ bs @ drop (i * w + 8 + m + length bs) d"
  have wr: "mem_write (i * w + 8 + m) bs d = Some d'" using a(10) w by (simp add: mem_write_in d'_def)
  have len: "length d' = length d" using mem_write_length [OF wr] .
  define arr' where "arr' = arr\<lparr>arr_buffer := Some d'\<rparr>"
  define p' where "p' = put_node k ((pool_nodes p ! k)\<lparr>data_array := Some arr'\<rparr>) p"
  have run: "elem_write p (fst y, snd y + m) bs = Some p'"
    using a wr by (simp add: elem_write_def node_at_def p'_def arr'_def pool_size_def)
  have arr': "array_wf arr'" "array_width arr' = pool_width p" "array_len arr' = array_len (array_of p k)"
    using a(3,6,7,8) len by (auto simp: arr'_def array_wf_def array_width_def array_len_def ox_array_num_def w_def)
  have other: "mem_read (j * w + l) n d' = mem_read (j * w + l) n d" if "j \<noteq> i" "l + n \<le> w" for j l n
  proof (cases "j < i")
    case True
    then have "j * w + w \<le> i * w" by (rule blocks_apart)
    then show ?thesis using mem_read_write_before [OF wr] that by simp
  next
    case False
    then have "i * w + w \<le> j * w" using that(1) by (intro blocks_apart) simp
    then show ?thesis using mem_read_write_after [OF wr] that w by simp
  qed
  have head: "mem_read (j * w) 8 d' = mem_read (j * w) 8 d" for j
    using other [of j 0 8] w mem_read_write_before [OF wr, of "i * w" 8] by (cases "j = i") simp_all
  have "take 8 (array_elem arr' j) = node_bytes k" if j: "j < array_len arr'" for j
  proof -
    have j': "j < array_len arr" using j arr'(3) a(3) by simp
    have "mem_read (j * w) 8 d = Some (node_bytes k)"
      using header_read [OF wf a(2), of j] j' a(3) elem_read_at [OF a(2,5,8)] by (simp add: w_def)
    then have "mem_read (j * w) 8 d' = Some (node_bytes k)" using head by simp
    moreover have "array_elem arr' j = take w (drop (j * w) d')"
      using a(7) by (simp add: array_elem_def arr'_def array_width_def)
    ultimately show ?thesis using w by (auto simp: mem_read_def min_def split: if_splits)
  qed
  note put = put_array [OF wf a(2) refl arr' this, folded p'_def]
  have node: "data_array (pool_nodes p' ! k) = Some arr'" using a(2) by (simp add: p'_def put_node_def pool_size_def)
  have rd: "elem_read p' (k, off) n = mem_read off n d'" for off n
    using elem_read_at [of k p' arr' d'] node put(2) a(2) by (simp add: arr'_def)
  have "elem_read p' (fst y, snd y + m) (length bs) = Some bs" using rd mem_read_write_same [OF wr] a(1) by simp
  moreover have "elem_read p' y n = elem_read p y n" if "n \<le> m" for n
    using rd elem_read_at [OF a(2,5,8)] mem_read_write_before [OF wr, of "i * w + 8" n] that a(1) by simp
  moreover have "elem_read p' z n = elem_read p z n" if z: "z \<in> pool_live stk p" "z \<noteq> y" and n: "int n \<le> pool_element_size p" for z n
  proof -
    obtain l j where zl: "z = (l, j * w + 8)" "l < pool_size p"
      using live_place [OF wf z(1)] unfolding w_def by blast
    show ?thesis
    proof (cases "l = k")
      case True
      then have "j \<noteq> i" using z(2) zl(1) a(1) by auto
      moreover have "8 + n \<le> w" using n width_facts(2) [OF wf] by (simp add: w_def)
      ultimately have "mem_read (j * w + 8) n d' = mem_read (j * w + 8) n d" by (intro other)
      then show ?thesis using True zl rd elem_read_at [OF a(2,5,8)] by simp
    next
      case False
      then have "pool_nodes p' ! l = pool_nodes p ! l" by (simp add: p'_def put_node_def)
      then show ?thesis using zl put(2) by (simp add: elem_read_def node_at_def pool_size_def)
    qed
  qed
  ultimately show ?thesis using run put by auto
qed

lemma store_law:
  assumes "pool_wf stk cap p" "y \<in> pool_live stk p" "int (length bs) \<le> pool_element_size p"
  shows "\<exists>p'. elem_write p y bs = Some p' \<and> pool_wf stk cap p' \<and> pool_live stk p' = pool_live stk p \<and>
    pool_size p' = pool_size p \<and> base_num p' = base_num p \<and> pool_element_size p' = pool_element_size p \<and>
    elem_read p' y (length bs) = Some bs \<and>
    (\<forall>z \<in> pool_live stk p. z \<noteq> y \<longrightarrow> (\<forall>n. int n \<le> pool_element_size p \<longrightarrow> elem_read p' z n = elem_read p z n))"
  using store_at_law [of stk cap p y 0 bs] assms by auto

end
