(* ===== verification/Type_Pool_Props.thy ===== *)
theory Type_Pool_Props
  imports Type_Pool_Inv
begin

text \<open>
  The properties of the element pool: no element is handed out twice, what its holder stored stays, no operation
  of a holder meets a bad pointer, and deleting the pool frees what was allocated.
\<close>

declare split_paired_All [simp del] split_paired_Ex [simp del]

section \<open>The contract of a pool\<close>

definition pool_claim :: "'st ptr_stack_ops \<Rightarrow> 'st pool_alloc \<Rightarrow> 'st type_pool_s \<Rightarrow> (elem_ptr \<times> 'st type_pool_s) option" where
  "pool_claim ops al p = (case ox_type_pool_claim ops al p 0 of Some (Some y, p', _) \<Rightarrow> Some (y, p') | _ \<Rightarrow> None)"

definition pool_inv ::
  "'st ptr_stack_ops \<Rightarrow> 'st pool_alloc \<Rightarrow> ('st \<Rightarrow> elem_ptr list) \<Rightarrow> ('st \<Rightarrow> nat) \<Rightarrow> 'st type_pool_s \<Rightarrow> bool" where
  "pool_inv ops al stk cap p \<longleftrightarrow>
     ptr_stack_ok ops stk cap \<and> alloc_ok stk cap al \<and> pool_wf stk cap p \<and> increase_ok p (base_num p)"

lemma ext_increase_ok: "pool_ext stk cap p p' \<Longrightarrow> increase_ok p' (base_num p') = increase_ok p (base_num p)"
  by (simp add: pool_ext_def increase_ok_def pool_width_def)

interpretation elems: id_pool "pool_inv ops al stk cap" "pool_live stk" "pool_claim ops al" "\<lambda>y p. ox_type_pool_reclaim ops p y"
  for ops al stk cap
proof (unfold_locales, goal_cases)
  case (1 p y p')
  then have law: "ptr_stack_ok ops stk cap" "alloc_ok stk cap al" "pool_wf stk cap p" "increase_ok p (base_num p)"
    by (simp_all add: pool_inv_def)
  from claim_law [OF law, of 0] obtain r q n where claim: "ox_type_pool_claim ops al p 0 = Some (r, q, n)"
    and q: "pool_ext stk cap p q" "\<And>z. r = Some z \<Longrightarrow> z \<notin> pool_live stk p \<and> pool_live stk q = insert z (pool_live stk p)"
    by blast
  then have "r = Some y" "q = p'" using 1(2) by (auto simp: pool_claim_def split: option.splits)
  then show ?case using q law ext_increase_ok [OF q(1)] by (auto simp: pool_inv_def pool_ext_def)
next
  case (2 p y)
  then have law: "ptr_stack_ok ops stk cap" "pool_wf stk cap p" by (simp_all add: pool_inv_def)
  from reclaim_law [OF law 2(2)] obtain q where q: "ox_type_pool_reclaim ops p y = Some q" "pool_ext stk cap p q"
    "pool_live stk q = pool_live stk p - {y}" by blast
  then show ?case using 2(1) ext_increase_ok [OF q(2)] by (auto simp: pool_inv_def pool_ext_def)
qed

section \<open>Use of a pool\<close>

text \<open>
  The states a pool can get into: the pool, what the holders of elements stored in them last, and the number of
  live objects of the heap; \<open>base\<close> is that number before the pool was created. Claims may fail, a holder may store up
  to the size of an element and may give the element back.
\<close>

inductive pool_reach ::
  "'st ptr_stack_ops \<Rightarrow> ('st \<Rightarrow> elem_ptr list) \<Rightarrow> ('st \<Rightarrow> nat) \<Rightarrow> nat \<Rightarrow> 'st type_pool_s \<Rightarrow> (elem_ptr \<Rightarrow> bytes option) \<Rightarrow> nat \<Rightarrow> bool"
  for ops stk cap base where
  reach_new:
    "alloc_ok stk cap al \<Longrightarrow> 0 \<le> num \<Longrightarrow> int_ok num \<Longrightarrow> 0 \<le> esize \<Longrightarrow> int_ok (num * (esize + 8)) \<Longrightarrow>
     ox_type_pool_new ops al self_ok num esize base = Some (Some p, live) \<Longrightarrow> pool_reach ops stk cap base p (\<lambda>y. None) live"
| reach_claim:
    "pool_reach ops stk cap base p m live \<Longrightarrow> alloc_ok stk cap al \<Longrightarrow>
     ox_type_pool_claim ops al p live = Some (r, p', live') \<Longrightarrow>
     pool_reach ops stk cap base p' (case r of None \<Rightarrow> m | Some y \<Rightarrow> m(y := None)) live'"
| reach_reclaim:
    "pool_reach ops stk cap base p m live \<Longrightarrow> y \<in> pool_live stk p \<Longrightarrow> ox_type_pool_reclaim ops p y = Some p' \<Longrightarrow>
     pool_reach ops stk cap base p' (m(y := None)) live"
| reach_store:
    "pool_reach ops stk cap base p m live \<Longrightarrow> y \<in> pool_live stk p \<Longrightarrow> int (length bs) \<le> pool_element_size p \<Longrightarrow>
     elem_write p y bs = Some p' \<Longrightarrow> pool_reach ops stk cap base p' (m(y \<mapsto> bs)) live"

definition pool_good ::
  "('st \<Rightarrow> elem_ptr list) \<Rightarrow> ('st \<Rightarrow> nat) \<Rightarrow> nat \<Rightarrow> 'st type_pool_s \<Rightarrow> (elem_ptr \<Rightarrow> bytes option) \<Rightarrow> nat \<Rightarrow> bool" where
  "pool_good stk cap base p m live \<longleftrightarrow>
     pool_wf stk cap p \<and> increase_ok p (base_num p) \<and> live = base + 1 + 4 * pool_size p \<and>
     (\<forall>y bs. m y = Some bs \<longrightarrow> y \<in> pool_live stk p \<and> int (length bs) \<le> pool_element_size p \<and> elem_read p y (length bs) = Some bs)"

lemma ext_read:
  assumes wf: "pool_wf stk cap p" and ext: "pool_ext stk cap p p'" and y: "y \<in> pool_live stk p"
  shows "elem_read p' y n = elem_read p y n"
proof -
  obtain k i where y: "y = (k, i * pool_width p + 8)" "k < pool_size p" using live_place [OF wf y] .
  have "pool_wf stk cap p'" "k < pool_size p'" "array_of p' k = array_of p k" using ext y by (auto simp: pool_ext_def)
  then have "data_array (pool_nodes p' ! k) = data_array (pool_nodes p ! k)"
    using pool_node_array(3) [OF wf y(2)] pool_node_array(3) by metis
  then show ?thesis using y \<open>k < pool_size p'\<close> by (simp add: elem_read_def node_at_def pool_size_def)
qed

lemma ext_good:
  assumes good: "pool_good stk cap base p m live" and ext: "pool_ext stk cap p p'"
    and live: "pool_live stk p \<subseteq> pool_live stk p' \<union> {y. m' y = None}" "\<And>y. m' y = m y \<or> m' y = None"
    and count: "live' = base + 1 + 4 * pool_size p'"
  shows "pool_good stk cap base p' m' live'"
proof -
  have wf: "pool_wf stk cap p" using good by (simp add: pool_good_def)
  have "y \<in> pool_live stk p' \<and> int (length bs) \<le> pool_element_size p' \<and> elem_read p' y (length bs) = Some bs"
    if m: "m' y = Some bs" for y bs
  proof -
    have "m y = Some bs" using live(2) [of y] m by auto
    then have y: "y \<in> pool_live stk p" "int (length bs) \<le> pool_element_size p" "elem_read p y (length bs) = Some bs"
      using good by (auto simp: pool_good_def)
    then show ?thesis using ext_read [OF wf ext y(1)] live(1) m ext by (auto simp: pool_ext_def)
  qed
  then show ?thesis using good ext count ext_increase_ok [OF ext] by (auto simp: pool_good_def pool_ext_def)
qed

lemma increase_count:
  assumes "ptr_stack_ok ops stk cap" "alloc_ok stk cap al" "pool_wf stk cap p" "increase_ok p num"
    and "ox_type_pool_increase ops al p num live = Some (p', live')"
  shows "live' = live + 4 * (pool_size p' - pool_size p) \<and> pool_size p \<le> pool_size p'"
  using increase_law [OF assms(1-4), of live] assms(5) by auto

lemma claim_count:
  assumes "ptr_stack_ok ops stk cap" "alloc_ok stk cap al" "pool_wf stk cap p" "increase_ok p (base_num p)"
    and claim: "ox_type_pool_claim ops al p live = Some (r, p', live')"
  shows "live' = live + 4 * (pool_size p' - pool_size p)"
proof -
  from claim_help_law [OF assms(1,3)] show ?thesis
  proof (elim disjE exE conjE)
    fix x q assume "type_pool_claim_help ops p = Some (Some (payload x), q)" "taken stk cap x p q"
    then show ?thesis using claim by (auto simp: ox_type_pool_claim_def taken_def)
  next
    assume none: "type_pool_claim_help ops p = Some (None, p)"
    obtain p2 live2 where inc: "ox_type_pool_increase ops al p (base_num p) live = Some (p2, live2)" and wf2: "pool_wf stk cap p2"
      using increase_law [OF assms(1-4), of live] assms(3) by (auto simp: pool_ext_def)
    have "pool_wf stk cap (p2\<lparr>nodenum := nodenum p2 + 1\<rparr>)" using wf2 by simp
    from claim_help_law [OF assms(1) this] have "pool_size p' = pool_size p2" "live' = live2"
      using claim none inc by (auto simp: ox_type_pool_claim_def Let_def taken_def)
    then show ?thesis using increase_count [OF assms(1-4) inc] by simp
  qed
qed

lemma new_law:
  assumes "ptr_stack_ok ops stk cap" "alloc_ok stk cap al" "0 \<le> num" "int_ok num" "0 \<le> esize" "int_ok (num * (esize + 8))"
    and new: "ox_type_pool_new ops al self_ok num esize base = Some (Some p, live)"
  shows "pool_good stk cap base p (\<lambda>y. None) live \<and> pool_element_size p = esize \<and> pool_live stk p = {}"
proof -
  obtain w where w: "with_header esize = Some w" using new by (auto simp: ox_type_pool_new_def split: if_splits Option.bind_splits)
  then have we: "w = int (nat (esize + 8))" "int_ok (esize + 8)" "8 \<le> nat (esize + 8)" "nat (esize + 8) < 2 ^ 31"
    using assms(5) by (auto simp: with_header_def int_ok_def split: if_splits)
  have "int_ok (num * int (nat (esize + 8)))" using assms(5,6) by simp
  from node_new_law [OF assms(1-4) this we(3,4), of 0 "base + 1"] show ?thesis
  proof (elim disjE exE conjE)
    assume "type_pool_node_new ops al 0 num (int (nat (esize + 8))) (base + 1) = Some (None, base + 1)"
    then show ?thesis using new w we(1)
      by (auto simp: ox_type_pool_new_def Let_def split: if_splits Option.bind_splits)
  next
    fix nd
    assume node: "type_pool_node_new ops al 0 num (int (nat (esize + 8))) (base + 1) = Some (Some nd, base + 1 + 4)"
      and nd: "node_wf stk cap (nat (esize + 8)) 0 nd" "node_next nd = None"
      and full: "array_len (the (data_array nd)) = nat num" "stk (the (ptr_stack nd)) = map (\<lambda>i. (0, i * nat (esize + 8))) [0..<nat num]"
    have p: "p = \<lparr>base_num = num, pool_element_size = esize, free_node = Some 0, pool_head = Some 0, pool_tail = Some 0,
        nodenum = 1, pool_nodes = [nd]\<rparr>" "live = base + 5"
      using new w we(1) node by (auto simp: ox_type_pool_new_def Let_def split: if_splits)
    moreover from this have "pool_good stk cap base p (\<lambda>y. None) live"
      using nd assms(3-6) we by (simp add: pool_good_def pool_wf_def pool_size_def pool_width_def increase_ok_def)
    moreover have "pool_free stk p = pool_elems p"
      using p(1) full we(1) w by (simp add: pool_free_def pool_elems_def pool_size_def stack_of_def array_of_def pool_width_def elem_starts_def atLeast0LessThan)
    ultimately show ?thesis by (simp add: pool_live_def)
  qed
qed

lemmas new_good = new_law [THEN conjunct1]

lemma reach_good:
  assumes ops: "ptr_stack_ok ops stk cap" and reach: "pool_reach ops stk cap base p m live"
  shows "pool_good stk cap base p m live"
  using reach
proof induction
  case (reach_new al num esize self_ok p live)
  then show ?case using new_good [OF ops] by blast
next
  case (reach_claim p m live al r p' live')
  then have wf: "pool_wf stk cap p" "increase_ok p (base_num p)" and count: "live = base + 1 + 4 * pool_size p"
    by (simp_all add: pool_good_def)
  note c = claim_count [OF ops reach_claim(2) wf reach_claim(3)]
  from claim_law [OF ops reach_claim(2) wf, of live] have q: "pool_ext stk cap p p'"
    "\<And>z. r = Some z \<Longrightarrow> pool_live stk p' = insert z (pool_live stk p)" "r = None \<Longrightarrow> pool_live stk p' = pool_live stk p"
    using reach_claim(3) by auto
  then have "pool_size p \<le> pool_size p'" by (simp add: pool_ext_def)
  then have "live' = base + 1 + 4 * pool_size p'" using c count by simp
  then show ?case using q by (intro ext_good [OF reach_claim.IH q(1)]) (auto split: option.splits)
next
  case (reach_reclaim p m live y p')
  then have wf: "pool_wf stk cap p" and count: "live = base + 1 + 4 * pool_size p" by (simp_all add: pool_good_def)
  from reclaim_law [OF ops wf reach_reclaim(2)] have "pool_ext stk cap p p'" "pool_size p' = pool_size p"
    "pool_live stk p' = pool_live stk p - {y}" using reach_reclaim(3) by auto
  then show ?case using count by (intro ext_good [OF reach_reclaim.IH]) auto
next
  case (reach_store p m live y bs p')
  then have wf: "pool_wf stk cap p" by (simp add: pool_good_def)
  from store_law [OF wf reach_store(2,3)] have "pool_wf stk cap p'" "pool_live stk p' = pool_live stk p" "pool_size p' = pool_size p"
    "base_num p' = base_num p" "pool_element_size p' = pool_element_size p" "elem_read p' y (length bs) = Some bs"
    "\<forall>z \<in> pool_live stk p. z \<noteq> y \<longrightarrow> (\<forall>n. int n \<le> pool_element_size p \<longrightarrow> elem_read p' z n = elem_read p z n)"
    using reach_store(4) by auto
  then show ?case
    using reach_store.IH reach_store(2,3) by (simp add: pool_good_def increase_ok_def pool_width_def)
qed

section \<open>Deleting a pool\<close>

lemma delete_chain_law:
  assumes wf: "pool_wf stk cap p" and k: "k \<le> pool_size p"
  shows "delete_chain (if k < pool_size p then Some k else None) p (n + 4 * (pool_size p - k)) = Some n"
  using k
proof (induction "pool_size p - k" arbitrary: k n)
  case 0
  then show ?case by (subst delete_chain.simps) simp
next
  case (Suc m)
  then have k: "k < pool_size p" by simp
  obtain nd arr st where nd: "node_at p k = Some nd" "data_array nd = Some arr" "ptr_stack nd = Some st" "array_wf arr"
    "node_next nd = (if Suc k < pool_size p then Some (Suc k) else None)"
    using wf k by (rule pool_node)
  from nd(4) obtain d where "arr_buffer arr = Some d" by (auto simp: array_wf_def split: option.splits)
  then have "type_pool_node_delete (Some nd) (n + 4 * (pool_size p - k)) = n + 4 * (pool_size p - Suc k)"
    using nd k by (simp add: type_pool_node_delete_def ox_array_delete_def)
  moreover have "delete_chain (if Suc k < pool_size p then Some (Suc k) else None) p (n + 4 * (pool_size p - Suc k)) = Some n"
    using Suc.hyps(2) k by (intro Suc.hyps(1)) simp_all
  ultimately show ?case using nd k by (subst delete_chain.simps) simp
qed

lemma delete_wf:
  assumes wf: "pool_wf stk cap p"
  shows "ox_type_pool_delete (Some p) (n + 1 + 4 * pool_size p) = Some n"
proof -
  have "0 < pool_size p" "pool_head p = Some 0" using wf by (simp_all add: pool_wf_def)
  then show ?thesis using delete_chain_law [OF wf, of 0 "n + 1"] by (simp add: ox_type_pool_delete_def)
qed

lemma delete_law: "pool_good stk cap base p m live \<Longrightarrow> ox_type_pool_delete (Some p) live = Some base"
  using delete_wf [of stk cap p base] by (simp add: pool_good_def)

section \<open>Properties\<close>

text \<open>
  Whatever sequence of claims, reclaims and stores the holders perform, and whichever allocations fail, every
  element in use keeps what its holder stored in it last, it is still in use, and deleting the pool frees
  exactly what was allocated since its creation.
\<close>

theorem type_pool_keeps_contents:
  assumes "ptr_stack_ok ops stk cap" "pool_reach ops stk cap base p contents live"
  shows "(\<forall>y bs. contents y = Some bs \<longrightarrow> y \<in> pool_live stk p \<and> elem_read p y (length bs) = Some bs) \<and>
    ox_type_pool_delete (Some p) live = Some base"
  using reach_good [OF assms] delete_law [OF reach_good [OF assms]] by (auto simp: pool_good_def)

text \<open>
  In every state of a pool a claim, a reclaim and a store by a holder meet no null or wild pointer and no failed
  assertion. A claim yields an element that nobody holds, or the null pointer when nothing is free and
  the pool could not grow.
\<close>

theorem type_pool_operations_total:
  assumes "ptr_stack_ok ops stk cap" "pool_reach ops stk cap base p contents live" "alloc_ok stk cap al"
  shows "(\<exists>r p' live'. ox_type_pool_claim ops al p live = Some (r, p', live') \<and>
      (\<forall>y. r = Some y \<longrightarrow> y \<notin> pool_live stk p \<and> pool_live stk p' = insert y (pool_live stk p)) \<and>
      (r = None \<longrightarrow> pool_free stk p = {} \<and> (pool_size p' = pool_size p \<or> base_num p = 0))) \<and>
    (\<forall>y \<in> pool_live stk p.
      (\<exists>p'. ox_type_pool_reclaim ops p y = Some p' \<and> pool_live stk p' = pool_live stk p - {y}) \<and>
      (\<forall>bs. int (length bs) \<le> pool_element_size p \<longrightarrow> (\<exists>p'. elem_write p y bs = Some p')))"
proof -
  have wf: "pool_wf stk cap p" "increase_ok p (base_num p)" using reach_good [OF assms(1,2)] by (simp_all add: pool_good_def)
  have "\<exists>p'. ox_type_pool_reclaim ops p y = Some p' \<and> pool_live stk p' = pool_live stk p - {y}" if "y \<in> pool_live stk p" for y
    using reclaim_law [OF assms(1) wf(1) that] by blast
  moreover have "\<exists>p'. elem_write p y bs = Some p'" if "y \<in> pool_live stk p" "int (length bs) \<le> pool_element_size p" for y bs
    using store_law [OF wf(1) that] by blast
  moreover note claim_law [OF assms(1,3) wf, of live]
  ultimately show ?thesis by (intro conjI) (blast | metis)+
qed

text \<open>
  Among claims and reclaims in any order no element is claimed while it is held, and what is held at the end is what
  the pool has in use.
\<close>

theorem type_pool_exclusive:
  assumes "pool_inv ops al stk cap p"
    and "pool_run (pool_claim ops al) (\<lambda>y p. ox_type_pool_reclaim ops p y) (pool_live stk) p events p'"
  shows "held_after events (pool_live stk p) = Some (pool_live stk p')"
  using elems.run_held assms by blast

text \<open>The counter of nodes is incremented also when the pool could not grow.\<close>

lemma nodenum_counts_failures:
  assumes "pool_free stk p = {}" "ptr_stack_ok ops stk cap" "pool_wf stk cap p"
    "ox_type_pool_increase ops al p (base_num p) live = Some (p, live)"
  shows "ox_type_pool_claim ops al p live = Some (None, p\<lparr>nodenum := nodenum p + 1\<rparr>, live)"
proof -
  have "type_pool_claim_help ops p = Some (None, p)"
    using claim_help_law [OF assms(2,3)] assms(1) by (auto simp: taken_def)
  moreover have "pool_wf stk cap (p\<lparr>nodenum := nodenum p + 1\<rparr>)" "pool_free stk (p\<lparr>nodenum := nodenum p + 1\<rparr>) = {}"
    using assms(1,3) by simp_all
  then have "type_pool_claim_help ops (p\<lparr>nodenum := nodenum p + 1\<rparr>) = Some (None, p\<lparr>nodenum := nodenum p + 1\<rparr>)"
    using claim_help_law [OF assms(2)] by (fastforce simp: taken_def)
  ultimately show ?thesis using assms(4) by (simp add: ox_type_pool_claim_def Let_def)
qed

section \<open>Witnesses\<close>

text \<open>A stack that is a bounded list, and an allocator that grants everything.\<close>

definition list_ptr_stack :: "(elem_ptr list \<times> nat) ptr_stack_ops" where
  "list_ptr_stack =
     \<lparr>ptr_push = (\<lambda>(xs, n) x. if length xs < n then (True, (xs @ [x], n)) else (False, (xs, n))),
      ptr_popback = (\<lambda>(xs, n). if xs = [] then (None, (xs, n)) else (Some (last xs), (butlast xs, n)))\<rparr>"

definition plain_alloc :: "(elem_ptr list \<times> nat) pool_alloc" where
  "plain_alloc = \<lparr>struct_granted = True, new_stack = (\<lambda>num size. Some ([], to_size num)), array_granted = True, block_granted = (\<lambda>n. True)\<rparr>"

lemma list_ptr_stack_ok: "ptr_stack_ok list_ptr_stack fst snd" "alloc_ok fst snd plain_alloc"
  by (auto simp: ptr_stack_ok_def list_ptr_stack_def alloc_ok_def plain_alloc_def)

definition demo_pool :: "(elem_ptr list \<times> nat) type_pool_s" where
  "demo_pool = (case ox_type_pool_new list_ptr_stack plain_alloc True 2 3 0 of Some (Some p, _) \<Rightarrow> p)"

lemma demo_new: "ox_type_pool_new list_ptr_stack plain_alloc True 2 3 0 = Some (Some demo_pool, 5)"
  by code_simp

definition demo_claimed :: "(elem_ptr list \<times> nat) type_pool_s" where
  "demo_claimed = (case ox_type_pool_claim list_ptr_stack plain_alloc demo_pool 5 of Some (_, p, _) \<Rightarrow> p)"

lemma demo_claim: "ox_type_pool_claim list_ptr_stack plain_alloc demo_pool 5 = Some (Some (0, 19), demo_claimed, 5)"
  by code_simp

definition demo_stored :: "(elem_ptr list \<times> nat) type_pool_s" where
  "demo_stored = (case elem_write demo_claimed (0, 19) ''abc'' of Some q \<Rightarrow> q)"

lemma demo_store: "elem_write demo_claimed (0, 19) ''abc'' = Some demo_stored"
  by code_simp

lemma demo_size: "pool_element_size demo_claimed = 3"
  by code_simp

lemma demo_reach:
  "pool_reach list_ptr_stack fst snd 0 demo_stored ((\<lambda>y. None)((0, 19) \<mapsto> ''abc'')) 5" "(0, 19) \<in> pool_live fst demo_claimed"
proof -
  have new: "pool_reach list_ptr_stack fst snd 0 demo_pool (\<lambda>y. None) 5"
    by (rule reach_new [OF list_ptr_stack_ok(2) _ _ _ _ demo_new]) (simp_all add: int_ok_def)
  from reach_claim [OF new list_ptr_stack_ok(2) demo_claim]
  have claimed: "pool_reach list_ptr_stack fst snd 0 demo_claimed (\<lambda>y. None) 5" by (simp add: fun_upd_def)
  have "pool_wf fst snd demo_pool" "increase_ok demo_pool (base_num demo_pool)"
    using reach_good [OF list_ptr_stack_ok(1) new] by (simp_all add: pool_good_def)
  from claim_law [OF list_ptr_stack_ok this, of 5] show live: "(0, 19) \<in> pool_live fst demo_claimed" using demo_claim by auto
  show "pool_reach list_ptr_stack fst snd 0 demo_stored ((\<lambda>y. None)((0, 19) \<mapsto> ''abc'')) 5"
    using reach_store [OF claimed live _ demo_store] by (simp add: demo_size)
qed

theorem type_pool_keeps_contents_witness:
  "elem_read demo_stored (0, 19) 3 = Some ''abc'' \<and> ox_type_pool_delete (Some demo_stored) 5 = Some 0"
proof -
  note facts = type_pool_keeps_contents [OF list_ptr_stack_ok(1) demo_reach(1)]
  have "((\<lambda>y. None)((0, 19) \<mapsto> ''abc'')) (0, 19) = Some ''abc''" by simp
  then have "elem_read demo_stored (0, 19) (length ''abc'') = Some ''abc''" using facts by blast
  then show ?thesis using facts by (simp add: numeral_3_eq_3)
qed

theorem type_pool_operations_total_witness:
  "(\<exists>r p' live'. ox_type_pool_claim list_ptr_stack plain_alloc demo_stored 5 = Some (r, p', live')) \<and>
   (\<forall>y \<in> pool_live fst demo_stored. \<exists>p'. ox_type_pool_reclaim list_ptr_stack demo_stored y = Some p')"
  using type_pool_operations_total [OF list_ptr_stack_ok(1) demo_reach(1) list_ptr_stack_ok(2)] by blast

end
