(* ===== verification/Multi_Pool.thy ===== *)
theory Multi_Pool
  imports Type_Pool_Props
begin

text \<open>
  The pool of messages of several sizes of \<^verbatim>\<open>src/utils/multipool.c\<close>: one element pool per size, and a byte in front
  of every message that names the pool it came from. A message pointer is the number of the pool whose memory it lies in and a
  pointer into it. \<^verbatim>\<open>char\<close> is signed, as on the supported hosts. The allocations of the pool itself are unchecked
  in the code: where one fails the model is \<open>None\<close>.
\<close>

section \<open>State and operations\<close>

type_synonym msg_ptr = "nat \<times> elem_ptr"

record 'st multi_pool_s =
  msg_pools :: "'st type_pool_s option list"
  mp_max :: int
  mp_lens :: "int list"

definition signed_char :: "char \<Rightarrow> int" where
  "signed_char c = sint (of_char c :: 8 word)"

text \<open>The byte \<^verbatim>\<open>pool_index\<close> in front of a message; storing an \<^verbatim>\<open>int\<close> in it keeps its low eight bits.\<close>

definition index_char :: "int \<Rightarrow> char" where
  "index_char i = char_of (nat (i mod 256))"

definition pool_at :: "'st multi_pool_s \<Rightarrow> int \<Rightarrow> 'st type_pool_s option" where
  "pool_at self i = (if 0 \<le> i \<and> i < int (length (msg_pools self)) then msg_pools self ! nat i else None)"

fun new_pools ::
  "'st ptr_stack_ops \<Rightarrow> (nat \<Rightarrow> 'st pool_alloc \<times> bool) \<Rightarrow> nat \<Rightarrow> (int \<times> int) list \<Rightarrow> nat \<Rightarrow>
   ('st type_pool_s option list \<times> nat) option" where
  "new_pools ops al i [] live = Some ([], live)"
| "new_pools ops al i ((num, len) # rest) live =
     (if int_ok (len + 1)
      then do {
        (p, live1) \<leftarrow> ox_type_pool_new ops (fst (al i)) (snd (al i)) num (len + 1) live;
        (ps, live2) \<leftarrow> new_pools ops al (Suc i) rest live1;
        Some (p # ps, live2)
      }
      else None)"

definition ox_multi_pool_new ::
  "'st ptr_stack_ops \<Rightarrow> (nat \<Rightarrow> 'st pool_alloc \<times> bool) \<Rightarrow> bool \<Rightarrow> int list \<Rightarrow> int list \<Rightarrow> int \<Rightarrow> int \<Rightarrow> nat \<Rightarrow>
   ('st multi_pool_s \<times> nat) option" where
  "ox_multi_pool_new ops al granted nums lens num_pools add live =
     (if granted \<and> to_size num_pools \<le> length lens \<and> to_size num_pools \<le> length nums then
        let sums = map (\<lambda>l. l + add) (take (to_size num_pools) lens)
        in if list_all int_ok sums
           then do {
             (ps, live1) \<leftarrow> new_pools ops al 0 (zip (take (to_size num_pools) nums) sums) (live + 3);
             Some (\<lparr>msg_pools = ps, mp_max = num_pools, mp_lens = sums\<rparr>, live1)
           }
           else None
      else None)"

fun delete_pools :: "'st type_pool_s option list \<Rightarrow> nat \<Rightarrow> nat option" where
  "delete_pools [] live = Some live"
| "delete_pools (p # ps) live = do { live1 \<leftarrow> ox_type_pool_delete p live; delete_pools ps live1 }"

definition ox_multi_pool_delete :: "'st multi_pool_s \<Rightarrow> nat \<Rightarrow> nat option" where
  "ox_multi_pool_delete self live = do { live1 \<leftarrow> delete_pools (msg_pools self) live; Some (live1 - 3) }"

definition put_pool :: "int \<Rightarrow> 'st type_pool_s \<Rightarrow> 'st multi_pool_s \<Rightarrow> 'st multi_pool_s" where
  "put_pool i p self = self\<lparr>msg_pools := (msg_pools self)[nat i := Some p]\<rparr>"

text \<open>What both claims do once the pool is chosen.\<close>

definition claim_from ::
  "'st ptr_stack_ops \<Rightarrow> 'st pool_alloc \<Rightarrow> 'st multi_pool_s \<Rightarrow> int \<Rightarrow> nat \<Rightarrow> (msg_ptr option \<times> 'st multi_pool_s \<times> nat) option" where
  "claim_from ops al self pool_index live =
     do {
       p \<leftarrow> pool_at self pool_index;
       (ret, p1, live1) \<leftarrow> ox_type_pool_claim ops al p live;
       case ret of
         None \<Rightarrow> Some (None, put_pool pool_index p1 self, live1)
       | Some y \<Rightarrow>
           do {
             p2 \<leftarrow> elem_write p1 y [index_char pool_index];
             Some (Some (nat pool_index, fst y, snd y + 1), put_pool pool_index p2 self, live1)
           }
     }"

definition ox_multi_pool_claim ::
  "'st ptr_stack_ops \<Rightarrow> 'st pool_alloc \<Rightarrow> 'st multi_pool_s \<Rightarrow> int \<Rightarrow> nat \<Rightarrow> (msg_ptr option \<times> 'st multi_pool_s \<times> nat) option" where
  "ox_multi_pool_claim ops al self pool_index live =
     (if 0 \<le> pool_index \<and> pool_index < mp_max self then claim_from ops al self pool_index live else None)"

text \<open>The search for the first size that is large enough; \<open>n\<close> is the bound after its conversion to \<^verbatim>\<open>char\<close>.\<close>

function first_len :: "int list \<Rightarrow> int \<Rightarrow> int \<Rightarrow> nat \<Rightarrow> nat option" where
  "first_len lens n len i =
     (if int i < n
      then if i < length lens then if lens ! i \<ge> len then Some i else first_len lens n len (Suc i) else None
      else Some i)"
  by pat_completeness auto
termination by (relation "measure (\<lambda>(lens, n, len, i). length lens - i)") auto

declare first_len.simps [simp del]

definition ox_multi_pool_lenclaim ::
  "'st ptr_stack_ops \<Rightarrow> 'st pool_alloc \<Rightarrow> 'st multi_pool_s \<Rightarrow> int \<Rightarrow> nat \<Rightarrow> (msg_ptr option \<times> 'st multi_pool_s \<times> nat) option" where
  "ox_multi_pool_lenclaim ops al self len live =
     (let packet_pool_max = sint (of_int (mp_max self) :: 8 word)
      in do {
        i \<leftarrow> first_len (mp_lens self) packet_pool_max len 0;
        if int i < packet_pool_max then claim_from ops al self (int i) live else Some (None, self, live)
      })"

definition base_msg :: "msg_ptr \<Rightarrow> elem_ptr" where
  "base_msg msg = (fst (snd msg), snd (snd msg) - 1)"

definition msg_index :: "'st multi_pool_s \<Rightarrow> msg_ptr \<Rightarrow> int option" where
  "msg_index self msg =
     (if snd (snd msg) = 0 then None
      else do { p \<leftarrow> pool_at self (int (fst msg)); c \<leftarrow> elem_read p (base_msg msg) 1; Some (signed_char (hd c)) })"

text \<open>A message handed to a pool other than the one its memory lies in would be pushed there: not modelled, \<open>None\<close>.\<close>

definition ox_multi_pool_reclaim :: "'st ptr_stack_ops \<Rightarrow> 'st multi_pool_s \<Rightarrow> msg_ptr \<Rightarrow> 'st multi_pool_s option" where
  "ox_multi_pool_reclaim ops self msg =
     do {
       i \<leftarrow> msg_index self msg;
       p \<leftarrow> pool_at self i;
       if i = int (fst msg) then do { p' \<leftarrow> ox_type_pool_reclaim ops p (base_msg msg); Some (put_pool i p' self) } else None
     }"

definition ox_multi_pool_config_len :: "'st multi_pool_s \<Rightarrow> msg_ptr \<Rightarrow> int option" where
  "ox_multi_pool_config_len self msg =
     do {
       i \<leftarrow> msg_index self msg;
       if 0 \<le> i \<and> i < mp_max self \<and> nat i < length (mp_lens self) then Some (mp_lens self ! nat i) else None
     }"

definition ox_multi_pool_typelen :: "'st multi_pool_s \<Rightarrow> int \<Rightarrow> int" where
  "ox_multi_pool_typelen self i = (if 0 \<le> i \<and> i < mp_max self then mp_lens self ! nat i else 0)"

definition ox_multi_pool_nodenum :: "'st multi_pool_s \<Rightarrow> int option" where
  "ox_multi_pool_nodenum self =
     foldr (\<lambda>p acc. do { q \<leftarrow> p; n \<leftarrow> acc; Some (ox_type_pool_nodenum q + n) }) (msg_pools self) (Some 0)"

text \<open>The holder of a message reads and writes its memory.\<close>

definition msg_read :: "'st multi_pool_s \<Rightarrow> msg_ptr \<Rightarrow> nat \<Rightarrow> bytes option" where
  "msg_read self msg n = do { p \<leftarrow> pool_at self (int (fst msg)); elem_read p (snd msg) n }"

definition msg_write :: "'st multi_pool_s \<Rightarrow> msg_ptr \<Rightarrow> bytes \<Rightarrow> 'st multi_pool_s option" where
  "msg_write self msg bs =
     do { p \<leftarrow> pool_at self (int (fst msg)); p' \<leftarrow> elem_write p (snd msg) bs; Some (put_pool (int (fst msg)) p' self) }"

end
