(* ===== verification/Multi_Pool_Props.thy ===== *)
theory Multi_Pool_Props
  imports Multi_Pool
begin

text \<open>
  The properties of the message pool, on top of those of the element pools: a message comes from the first pool whose
  size suffices and goes back to it, its holder's bytes stay, and what the signed byte in front of it costs.
\<close>

section \<open>Parts of an element\<close>

lemma elem_read_sub:
  assumes "elem_read p z (k + n) = Some bs"
  shows "elem_read p (fst z, snd z + k) n = Some (drop k bs)"
  using assms by (auto simp: elem_read_def mem_read_def add.commute drop_take split: Option.bind_splits if_splits)

lemma ext_read_at:
  assumes wf: "pool_wf stk cap p" and ext: "pool_ext stk cap p p'" and y: "y \<in> pool_live stk p"
  shows "elem_read p' (fst y, off) n = elem_read p (fst y, off) n"
proof -
  obtain k i where y: "y = (k, i * pool_width p + 8)" "k < pool_size p" using live_place [OF wf y] .
  have "pool_wf stk cap p'" "k < pool_size p'" "array_of p' k = array_of p k" using ext y by (auto simp: pool_ext_def)
  then have "data_array (pool_nodes p' ! k) = data_array (pool_nodes p ! k)"
    using pool_node_array(3) [OF wf y(2)] pool_node_array(3) by metis
  then show ?thesis using y \<open>k < pool_size p'\<close> by (simp add: elem_read_def node_at_def pool_size_def)
qed

text \<open>An element in use is readable in its whole size.\<close>

lemma live_readable:
  assumes wf: "pool_wf stk cap p" and y: "y \<in> pool_live stk p" and n: "int n \<le> pool_element_size p"
  shows "\<exists>bs. elem_read p y n = Some bs"
  using wf y
proof (rule live_place)
  fix k i arr d
  assume a: "y = (k, i * pool_width p + 8)" "k < pool_size p" "data_array (pool_nodes p ! k) = Some arr" "arr_buffer arr = Some d"
    "i * pool_width p + pool_width p \<le> length d"
  have "8 + n \<le> pool_width p" using width_facts(1,2) [OF wf] n by linarith
  then show ?thesis using elem_read_at [OF a(2,3,4)] a(1,5) by (simp add: mem_read_def)
qed

section \<open>The invariant\<close>

definition pool_msgs :: "('st \<Rightarrow> elem_ptr list) \<Rightarrow> nat \<Rightarrow> 'st type_pool_s \<Rightarrow> msg_ptr set" where
  "pool_msgs stk i p = (\<lambda>y. (i, fst y, snd y + 1)) ` pool_live stk p"

definition sub_pool :: "'st multi_pool_s \<Rightarrow> nat \<Rightarrow> 'st type_pool_s" where
  "sub_pool M i = the (msg_pools M ! i)"

definition sub_wf :: "('st \<Rightarrow> elem_ptr list) \<Rightarrow> ('st \<Rightarrow> nat) \<Rightarrow> int \<Rightarrow> nat \<Rightarrow> 'st type_pool_s \<Rightarrow> bool" where
  "sub_wf stk cap len i p \<longleftrightarrow>
     pool_wf stk cap p \<and> increase_ok p (base_num p) \<and> 0 \<le> len \<and> pool_element_size p = len + 1 \<and>
     (\<forall>y \<in> pool_live stk p. elem_read p y 1 = Some [index_char (int i)])"

definition multi_wf :: "('st \<Rightarrow> elem_ptr list) \<Rightarrow> ('st \<Rightarrow> nat) \<Rightarrow> 'st multi_pool_s \<Rightarrow> bool" where
  "multi_wf stk cap M \<longleftrightarrow>
     mp_max M = int (length (msg_pools M)) \<and> length (mp_lens M) = length (msg_pools M) \<and> length (msg_pools M) \<le> 127 \<and>
     (\<forall>i < length (msg_pools M). msg_pools M ! i \<noteq> None \<and> sub_wf stk cap (mp_lens M ! i) i (sub_pool M i))"

definition msg_live :: "('st \<Rightarrow> elem_ptr list) \<Rightarrow> 'st multi_pool_s \<Rightarrow> msg_ptr set" where
  "msg_live stk M = (\<Union>i < length (msg_pools M). pool_msgs stk i (sub_pool M i))"

definition multi_count :: "'st multi_pool_s \<Rightarrow> nat" where
  "multi_count M = sum_list (map (\<lambda>p. 1 + 4 * pool_size (the p)) (msg_pools M))"

lemma multi_pool_at: "multi_wf stk cap M \<Longrightarrow> i < length (msg_pools M) \<Longrightarrow> pool_at M (int i) = Some (sub_pool M i)"
  by (auto simp: pool_at_def multi_wf_def sub_pool_def)

lemma multi_sub: "multi_wf stk cap M \<Longrightarrow> i < length (msg_pools M) \<Longrightarrow> sub_wf stk cap (mp_lens M ! i) i (sub_pool M i)"
  by (simp add: multi_wf_def)

lemma index_char_sign: "i \<le> 127 \<Longrightarrow> signed_char (index_char (int i)) = int i"
proof -
  assume i: "i \<le> 127"
  have "nat (int i mod 256) = i" using i by simp
  then have "(of_char (index_char (int i)) :: 8 word) = of_nat (of_char (char_of i :: char))"
    by (simp only: index_char_def of_nat_of_char)
  also have "\<dots> = of_nat (i mod 256)" by (simp only: of_char_of)
  finally have "(of_char (index_char (int i)) :: 8 word) = of_nat i" using i by simp
  then show ?thesis using i by (simp add: signed_char_def signed_of_nat signed_take_bit_int_eq_self)
qed

lemma put_sub:
  assumes wf: "multi_wf stk cap M" and i: "i < length (msg_pools M)" and p: "sub_wf stk cap (mp_lens M ! i) i p"
  shows "multi_wf stk cap (put_pool (int i) p M)" "mp_lens (put_pool (int i) p M) = mp_lens M" "mp_max (put_pool (int i) p M) = mp_max M"
    "length (msg_pools (put_pool (int i) p M)) = length (msg_pools M)"
    "sub_pool (put_pool (int i) p M) j = (if j = i then p else sub_pool M j)"
    "msg_live stk (put_pool (int i) p M) = (msg_live stk M - pool_msgs stk i (sub_pool M i)) \<union> pool_msgs stk i p"
    "multi_count (put_pool (int i) p M) + 4 * pool_size (sub_pool M i) = multi_count M + 4 * pool_size p"
proof -
  show len: "length (msg_pools (put_pool (int i) p M)) = length (msg_pools M)" by (simp add: put_pool_def)
  show "mp_lens (put_pool (int i) p M) = mp_lens M" "mp_max (put_pool (int i) p M) = mp_max M" by (simp_all add: put_pool_def)
  show sub: "sub_pool (put_pool (int i) p M) j = (if j = i then p else sub_pool M j)" for j
    using i by (simp add: put_pool_def sub_pool_def)
  show "multi_wf stk cap (put_pool (int i) p M)"
    using wf p len sub by (simp add: multi_wf_def) (simp add: put_pool_def nth_list_update)
  have "x \<notin> pool_msgs stk i (sub_pool M i)" if "x \<in> pool_msgs stk j (sub_pool M j)" "j \<noteq> i" for x j
    using that by (auto simp: pool_msgs_def)
  then show "msg_live stk (put_pool (int i) p M) = (msg_live stk M - pool_msgs stk i (sub_pool M i)) \<union> pool_msgs stk i p"
    using i by (auto simp: msg_live_def len sub split: if_splits)
  define f where "f = map (\<lambda>p. 1 + 4 * pool_size (the p)) (msg_pools M)"
  have f: "i < length f" "f ! i = 1 + 4 * pool_size (sub_pool M i)" using i by (simp_all add: f_def sub_pool_def)
  have "sum_list (f[i := v]) + f ! i = sum_list f + v" for v
    using f(1) sum_list_update [OF f(1), of v] elem_le_sum_list [OF f(1)] by simp
  from this [of "1 + 4 * pool_size p"]
  show "multi_count (put_pool (int i) p M) + 4 * pool_size (sub_pool M i) = multi_count M + 4 * pool_size p"
    using f(2) by (simp add: multi_count_def put_pool_def map_update f_def)
qed

section \<open>The operations\<close>

text \<open>The later pool \<open>M'\<close> keeps the bytes of the messages in \<open>keep\<close>.\<close>

definition msgs_kept :: "'st multi_pool_s \<Rightarrow> msg_ptr set \<Rightarrow> 'st multi_pool_s \<Rightarrow> bool" where
  "msgs_kept M keep M' \<longleftrightarrow>
     mp_lens M' = mp_lens M \<and> mp_max M' = mp_max M \<and> length (msg_pools M') = length (msg_pools M) \<and>
     (\<forall>m \<in> keep. \<forall>n. int n \<le> mp_lens M ! fst m \<longrightarrow> msg_read M' m n = msg_read M m n)"

lemma msg_liveE:
  assumes "m \<in> msg_live stk M"
  obtains i y where "i < length (msg_pools M)" "y \<in> pool_live stk (sub_pool M i)" "m = (i, fst y, snd y + 1)"
  using assms by (auto simp: msg_live_def pool_msgs_def)

lemma msg_read_at:
  "multi_wf stk cap M \<Longrightarrow> i < length (msg_pools M) \<Longrightarrow> msg_read M (i, x) n = elem_read (sub_pool M i) x n"
  by (simp add: msg_read_def multi_pool_at)

text \<open>Messages of one pool are kept when its elements in use keep their bytes.\<close>

lemma put_kept:
  assumes wf: "multi_wf stk cap M" and i: "i < length (msg_pools M)" and p: "sub_wf stk cap (mp_lens M ! i) i p"
    and reads: "\<And>y n. y \<in> Y \<Longrightarrow> int n \<le> mp_lens M ! i + 1 \<Longrightarrow> elem_read p y n = elem_read (sub_pool M i) y n"
    and Y: "Y \<subseteq> pool_live stk (sub_pool M i)"
  shows "msgs_kept M {m \<in> msg_live stk M. fst m = i \<longrightarrow> m \<in> (\<lambda>y. (i, fst y, snd y + 1)) ` Y} (put_pool (int i) p M)"
proof -
  note put = put_sub [OF wf i p]
  have "msg_read (put_pool (int i) p M) m n = msg_read M m n"
    if m: "m \<in> msg_live stk M" "fst m = i \<longrightarrow> m \<in> (\<lambda>y. (i, fst y, snd y + 1)) ` Y" and n: "int n \<le> mp_lens M ! fst m" for m n
  proof (cases "fst m = i")
    case True
    then obtain y where y: "y \<in> Y" "m = (i, fst y, snd y + 1)" using m(2) by blast
    have size: "int (1 + n) \<le> pool_element_size (sub_pool M i)" "int (1 + n) \<le> mp_lens M ! i + 1"
      using n True multi_sub [OF wf i] by (simp_all add: sub_wf_def)
    have "pool_wf stk cap (sub_pool M i)" using multi_sub [OF wf i] by (simp add: sub_wf_def)
    from live_readable [OF this _ size(1), of y] obtain bs where bs: "elem_read (sub_pool M i) y (1 + n) = Some bs" using y Y by blast
    then have "elem_read p y (1 + n) = Some bs" using reads [OF y(1) size(2)] by simp
    from elem_read_sub [OF this] elem_read_sub [OF bs] show ?thesis
      using y(2) i put(1,4,5) wf by (simp add: msg_read_at [of stk cap])
  next
    case False
    obtain j x where j: "m = (j, x)" "j < length (msg_pools M)" using m(1) by (rule msg_liveE) auto
    then show ?thesis using False put(1,4,5) wf by (simp add: msg_read_at [of stk cap])
  qed
  then show ?thesis using put(2,3,4) by (simp add: msgs_kept_def)
qed

lemma claim_from_law:
  assumes ops: "ptr_stack_ok ops stk cap" and al: "alloc_ok stk cap al" and wf: "multi_wf stk cap M"
    and i: "i < length (msg_pools M)" and count: "live = base + multi_count M"
  shows "\<exists>r M' live'. claim_from ops al M (int i) live = Some (r, M', live') \<and> multi_wf stk cap M' \<and> live' = base + multi_count M' \<and>
    msgs_kept M (msg_live stk M) M' \<and>
    (r = None \<longrightarrow> msg_live stk M' = msg_live stk M) \<and>
    (\<forall>m. r = Some m \<longrightarrow> fst m = i \<and> m \<notin> msg_live stk M \<and> msg_live stk M' = insert m (msg_live stk M))"
proof -
  define p where "p = sub_pool M i"
  have sub: "pool_wf stk cap p" "increase_ok p (base_num p)" "0 \<le> mp_lens M ! i" "pool_element_size p = mp_lens M ! i + 1"
    "\<And>y. y \<in> pool_live stk p \<Longrightarrow> elem_read p y 1 = Some [index_char (int i)]"
    using multi_sub [OF wf i] by (simp_all add: sub_wf_def p_def)
  obtain r p1 live1 where claim: "ox_type_pool_claim ops al p live = Some (r, p1, live1)" and ext: "pool_ext stk cap p p1"
    and r: "\<And>y. r = Some y \<Longrightarrow> y \<notin> pool_live stk p \<and> pool_live stk p1 = insert y (pool_live stk p)"
      "r = None \<Longrightarrow> pool_live stk p1 = pool_live stk p"
    using claim_law [OF ops al sub(1,2), of live] by blast
  have size: "live1 = live + 4 * (pool_size p1 - pool_size p)" "pool_size p \<le> pool_size p1"
    using claim_count [OF ops al sub(1,2) claim] ext by (simp_all add: pool_ext_def)
  have p1: "pool_wf stk cap p1" "increase_ok p1 (base_num p1)" "pool_element_size p1 = mp_lens M ! i + 1"
    using ext sub ext_increase_ok [OF ext] by (simp_all add: pool_ext_def)
  have old: "elem_read p1 y n = elem_read p y n" if "y \<in> pool_live stk p" for y n using ext_read [OF sub(1) ext that] .
  have here: "pool_at M (int i) = Some p" using multi_pool_at [OF wf i] by (simp add: p_def)
  show ?thesis
  proof (cases r)
    case None
    have p1': "sub_wf stk cap (mp_lens M ! i) i p1" using p1 sub(3,5) old r(2) None by (simp add: sub_wf_def)
    note put = put_sub [OF wf i p1']
    have "{m \<in> msg_live stk M. fst m = i \<longrightarrow> m \<in> (\<lambda>y. (i, fst y, snd y + 1)) ` pool_live stk p} = msg_live stk M"
      by (auto simp: msg_live_def pool_msgs_def p_def)
    moreover have "pool_msgs stk i (sub_pool M i) \<subseteq> msg_live stk M" using i by (auto simp: msg_live_def)
    ultimately show ?thesis
      using put_kept [OF wf i p1', of "pool_live stk p"] old claim here None put size count r(2) [OF None]
      by (auto simp: claim_from_def p_def pool_msgs_def)
  next
    case (Some y)
    then have y: "y \<notin> pool_live stk p" "pool_live stk p1 = insert y (pool_live stk p)" using r(1) by simp_all
    have one: "int (length [index_char (int i)]) \<le> pool_element_size p1" using p1(3) sub(3) by simp
    obtain p2 where wr: "elem_write p1 y [index_char (int i)] = Some p2" and p2: "pool_wf stk cap p2"
      "pool_live stk p2 = pool_live stk p1" "pool_size p2 = pool_size p1" "base_num p2 = base_num p1"
      "pool_element_size p2 = pool_element_size p1" "elem_read p2 y 1 = Some [index_char (int i)]"
      "\<And>z n. z \<in> pool_live stk p1 \<Longrightarrow> z \<noteq> y \<Longrightarrow> int n \<le> pool_element_size p1 \<Longrightarrow> elem_read p2 z n = elem_read p1 z n"
      using store_law [OF p1(1) _ one, of y] y(2) by auto
    have kept: "elem_read p2 z n = elem_read p z n" if "z \<in> pool_live stk p" "int n \<le> mp_lens M ! i + 1" for z n
      using p2(7) [of z n] old [OF that(1)] that y p1(3) by auto
    have "increase_ok p2 (base_num p2)" using p1(2) p2(4,5) by (simp add: increase_ok_def pool_width_def)
    then have p2': "sub_wf stk cap (mp_lens M ! i) i p2"
      using p2 p1(3) sub(3,5) kept y by (auto simp: sub_wf_def)
    note put = put_sub [OF wf i p2']
    define m where "m = (i, fst y, snd y + 1)"
    have all: "{m \<in> msg_live stk M. fst m = i \<longrightarrow> m \<in> (\<lambda>y. (i, fst y, snd y + 1)) ` pool_live stk p} = msg_live stk M"
      by (auto simp: msg_live_def pool_msgs_def p_def)
    have "pool_msgs stk i p2 = insert m (pool_msgs stk i p)" using p2(2) y(2) by (simp add: pool_msgs_def m_def)
    moreover have "pool_msgs stk i p \<subseteq> msg_live stk M" using i by (auto simp: msg_live_def p_def)
    ultimately have live': "msg_live stk (put_pool (int i) p2 M) = insert m (msg_live stk M)" using put(6) p_def by auto
    have fresh: "m \<notin> msg_live stk M"
    proof
      assume "m \<in> msg_live stk M"
      then obtain z where z: "z \<in> pool_live stk p" "fst z = fst y" "snd z = snd y"
        by (rule msg_liveE) (auto simp: m_def p_def)
      then have "z = y" by (simp add: prod_eq_iff)
      then show False using y(1) z(1) by simp
    qed
    have "claim_from ops al M (int i) live = Some (Some m, put_pool (int i) p2 M, live1)"
      using claim here Some wr by (simp add: claim_from_def m_def)
    moreover have "msgs_kept M (msg_live stk M) (put_pool (int i) p2 M)"
      using put_kept [OF wf i p2', of "pool_live stk p"] kept all by (simp add: p_def)
    moreover have "live1 = base + multi_count (put_pool (int i) p2 M)"
      using put(7) size count p2(3) by (simp add: p_def)
    ultimately show ?thesis using put(1) live' fresh by (auto simp: m_def)
  qed
qed

lemma msg_index_live:
  assumes wf: "multi_wf stk cap M" and m: "m \<in> msg_live stk M"
  shows "msg_index M m = Some (int (fst m))" "fst m < length (msg_pools M)" "base_msg m \<in> pool_live stk (sub_pool M (fst m))"
    "snd m = (fst (base_msg m), snd (base_msg m) + 1)"
proof -
  obtain i y where i: "i < length (msg_pools M)" "y \<in> pool_live stk (sub_pool M i)" "m = (i, fst y, snd y + 1)"
    using m by (rule msg_liveE)
  then show "fst m < length (msg_pools M)" "base_msg m \<in> pool_live stk (sub_pool M (fst m))"
    "snd m = (fst (base_msg m), snd (base_msg m) + 1)" by (simp_all add: base_msg_def)
  have "elem_read (sub_pool M i) y 1 = Some [index_char (int i)]" using multi_sub [OF wf i(1)] i(2) by (simp add: sub_wf_def)
  moreover have "i \<le> 127" using wf i(1) by (simp add: multi_wf_def)
  ultimately show "msg_index M m = Some (int (fst m))"
    using i multi_pool_at [OF wf i(1)] by (simp add: msg_index_def base_msg_def index_char_sign)
qed

lemma reclaim_msg_law:
  assumes ops: "ptr_stack_ok ops stk cap" and wf: "multi_wf stk cap M" and m: "m \<in> msg_live stk M"
  shows "\<exists>M'. ox_multi_pool_reclaim ops M m = Some M' \<and> multi_wf stk cap M' \<and> multi_count M' = multi_count M \<and>
    msgs_kept M (msg_live stk M - {m}) M' \<and> msg_live stk M' = msg_live stk M - {m}"
proof -
  define i where "i = fst m"
  define p where "p = sub_pool M i"
  note idx = msg_index_live [OF wf m, folded i_def, folded p_def]
  have sub: "pool_wf stk cap p" "increase_ok p (base_num p)" "0 \<le> mp_lens M ! i" "pool_element_size p = mp_lens M ! i + 1"
    "\<And>y. y \<in> pool_live stk p \<Longrightarrow> elem_read p y 1 = Some [index_char (int i)]"
    using multi_sub [OF wf idx(2)] by (simp_all add: sub_wf_def p_def)
  obtain p1 where p1: "ox_type_pool_reclaim ops p (base_msg m) = Some p1" "pool_ext stk cap p p1" "pool_size p1 = pool_size p"
    "pool_live stk p1 = pool_live stk p - {base_msg m}"
    using reclaim_law [OF ops sub(1) idx(3)] by blast
  have old: "elem_read p1 y n = elem_read p y n" if "y \<in> pool_live stk p" for y n using ext_read [OF sub(1) p1(2) that] .
  have p1': "sub_wf stk cap (mp_lens M ! i) i p1"
    using p1 sub old ext_increase_ok [OF p1(2)] by (simp add: sub_wf_def pool_ext_def)
  note put = put_sub [OF wf idx(2) p1']
  have run: "ox_multi_pool_reclaim ops M m = Some (put_pool (int i) p1 M)"
    using idx p1(1) multi_pool_at [OF wf idx(2)] by (simp add: ox_multi_pool_reclaim_def p_def i_def)
  have mm: "m = (i, fst (base_msg m), snd (base_msg m) + 1)" using idx(4) i_def by (metis prod.collapse)
  have "pool_msgs stk i p1 = pool_msgs stk i p - {m}"
  proof -
    have "(i, fst y, snd y + 1) = m \<longleftrightarrow> y = base_msg m" for y by (subst mm) (auto simp: prod_eq_iff)
    then show ?thesis using p1(4) by (auto simp: pool_msgs_def)
  qed
  moreover have "pool_msgs stk i p \<subseteq> msg_live stk M" "m \<in> pool_msgs stk i p"
    using idx(2,3) mm by (auto simp: msg_live_def p_def pool_msgs_def)
  ultimately have live': "msg_live stk (put_pool (int i) p1 M) = msg_live stk M - {m}" using put(6) by (auto simp: p_def)
  have "{m' \<in> msg_live stk M. fst m' = i \<longrightarrow> m' \<in> (\<lambda>y. (i, fst y, snd y + 1)) ` pool_live stk p} = msg_live stk M"
    by (auto simp: msg_live_def pool_msgs_def p_def)
  then have "msgs_kept M (msg_live stk M) (put_pool (int i) p1 M)"
    using put_kept [OF wf idx(2) p1', of "pool_live stk p"] old by (simp add: p_def)
  then have "msgs_kept M (msg_live stk M - {m}) (put_pool (int i) p1 M)" by (auto simp: msgs_kept_def)
  then show ?thesis using run put(1,7) p1(3) live' by (auto simp: p_def)
qed

lemma store_msg_law:
  assumes wf: "multi_wf stk cap M" and m: "m \<in> msg_live stk M" and fits: "int (length bs) \<le> mp_lens M ! fst m"
  shows "\<exists>M'. msg_write M m bs = Some M' \<and> multi_wf stk cap M' \<and> multi_count M' = multi_count M \<and>
    msgs_kept M (msg_live stk M - {m}) M' \<and> msg_live stk M' = msg_live stk M \<and> msg_read M' m (length bs) = Some bs"
proof -
  define i where "i = fst m"
  define p where "p = sub_pool M i"
  define y where "y = base_msg m"
  note idx = msg_index_live [OF wf m, folded i_def, folded p_def y_def]
  have sub: "pool_wf stk cap p" "increase_ok p (base_num p)" "0 \<le> mp_lens M ! i" "pool_element_size p = mp_lens M ! i + 1"
    "\<And>y. y \<in> pool_live stk p \<Longrightarrow> elem_read p y 1 = Some [index_char (int i)]"
    using multi_sub [OF wf idx(2)] by (simp_all add: sub_wf_def p_def)
  have size: "int (1 + length bs) \<le> pool_element_size p" using fits sub(4) by (simp add: i_def)
  obtain p1 where p1: "elem_write p (fst y, snd y + 1) bs = Some p1" "pool_wf stk cap p1" "pool_live stk p1 = pool_live stk p"
    "pool_size p1 = pool_size p" "base_num p1 = base_num p" "pool_element_size p1 = pool_element_size p"
    "elem_read p1 (fst y, snd y + 1) (length bs) = Some bs" "elem_read p1 y 1 = elem_read p y 1"
    "\<And>z n. z \<in> pool_live stk p \<Longrightarrow> z \<noteq> y \<Longrightarrow> int n \<le> pool_element_size p \<Longrightarrow> elem_read p1 z n = elem_read p z n"
    using store_at_law [OF sub(1) idx(3) size] by auto
  have "elem_read p1 z 1 = elem_read p z 1" if "z \<in> pool_live stk p" for z
    using p1(8) p1(9) [OF that, of 1] sub(3,4) by (cases "z = y") simp_all
  then have p1': "sub_wf stk cap (mp_lens M ! i) i p1"
    using p1 sub by (simp add: sub_wf_def increase_ok_def pool_width_def)
  note put = put_sub [OF wf idx(2) p1']
  have mm: "m = (i, fst y, snd y + 1)" using idx(4) i_def by (metis prod.collapse)
  have run: "msg_write M m bs = Some (put_pool (int i) p1 M)"
    using p1(1) multi_pool_at [OF wf idx(2)] idx(4) by (simp add: msg_write_def p_def i_def)
  have live': "msg_live stk (put_pool (int i) p1 M) = msg_live stk M"
    using put(6) p1(3) idx(2) by (auto simp: pool_msgs_def msg_live_def p_def)
  have "msg_read (put_pool (int i) p1 M) m (length bs) = Some bs"
    using p1(7) put(1,4,5) idx(2) by (subst mm) (simp add: msg_read_at [of stk cap])
  moreover have "msgs_kept M (msg_live stk M - {m}) (put_pool (int i) p1 M)"
  proof -
    have "msgs_kept M {m' \<in> msg_live stk M. fst m' = i \<longrightarrow> m' \<in> (\<lambda>y. (i, fst y, snd y + 1)) ` (pool_live stk p - {y})} (put_pool (int i) p1 M)"
      using p1(9) sub(4) by (intro put_kept [OF wf idx(2) p1']) (auto simp: p_def)
    moreover have "msg_live stk M - {m} \<subseteq> {m' \<in> msg_live stk M. fst m' = i \<longrightarrow> m' \<in> (\<lambda>y. (i, fst y, snd y + 1)) ` (pool_live stk p - {y})}"
      using mm by (auto simp: msg_live_def pool_msgs_def p_def)
    ultimately show ?thesis unfolding msgs_kept_def by blast
  qed
  ultimately show ?thesis using run put(1,7) p1(4) live' by (auto simp: p_def)
qed

lemma first_len_law:
  assumes "i \<le> n" "n \<le> length lens"
  shows "\<exists>j. first_len lens (int n) len i = Some j \<and> i \<le> j \<and> j \<le> n \<and> (\<forall>k. i \<le> k \<and> k < j \<longrightarrow> lens ! k < len) \<and> (j < n \<longrightarrow> len \<le> lens ! j)"
  using assms(1)
proof (induction "n - i" arbitrary: i)
  case 0
  then show ?case by (subst first_len.simps) auto
next
  case (Suc d)
  then have i: "i < n" "i < length lens" using assms(2) by simp_all
  show ?case
  proof (cases "lens ! i \<ge> len")
    case True
    then show ?thesis using i by (subst first_len.simps) auto
  next
    case False
    have "d = n - Suc i" "Suc i \<le> n" using Suc.hyps(2) i by simp_all
    from Suc.hyps(1) [OF this] obtain j where j: "first_len lens (int n) len (Suc i) = Some j" "Suc i \<le> j" "j \<le> n"
      "\<forall>k. Suc i \<le> k \<and> k < j \<longrightarrow> lens ! k < len" "j < n \<longrightarrow> len \<le> lens ! j" by blast
    have "lens ! k < len" if "i \<le> k" "k < j" for k using that j(4) False by (cases "k = i") auto
    then show ?thesis using i False j by (subst first_len.simps) auto
  qed
qed

lemma small_char: "n \<le> 127 \<Longrightarrow> sint (of_int (int n) :: 8 word) = int n"
  by (simp add: signed_of_nat signed_take_bit_int_eq_self)

lemma lenclaim_law:
  assumes ops: "ptr_stack_ok ops stk cap" and al: "alloc_ok stk cap al" and wf: "multi_wf stk cap M" and count: "live = base + multi_count M"
  shows "\<exists>r M' live'. ox_multi_pool_lenclaim ops al M len live = Some (r, M', live') \<and> multi_wf stk cap M' \<and> live' = base + multi_count M' \<and>
    msgs_kept M (msg_live stk M) M' \<and> (r = None \<longrightarrow> msg_live stk M' = msg_live stk M) \<and>
    (\<forall>m. r = Some m \<longrightarrow> m \<notin> msg_live stk M \<and> msg_live stk M' = insert m (msg_live stk M) \<and>
       len \<le> mp_lens M ! fst m \<and> (\<forall>k < fst m. mp_lens M ! k < len))"
proof -
  define n where "n = length (msg_pools M)"
  have n: "mp_max M = int n" "length (mp_lens M) = n" "n \<le> 127" using wf by (simp_all add: multi_wf_def n_def)
  obtain j where j: "first_len (mp_lens M) (int n) len 0 = Some j" "j \<le> n" "\<forall>k < j. mp_lens M ! k < len" "j < n \<longrightarrow> len \<le> mp_lens M ! j"
    using first_len_law [of 0 n "mp_lens M" len] n(2) by auto
  have run: "ox_multi_pool_lenclaim ops al M len live = (if j < n then claim_from ops al M (int j) live else Some (None, M, live))"
    using j(1) n small_char [OF n(3)] by (simp add: ox_multi_pool_lenclaim_def)
  show ?thesis
  proof (cases "j < n")
    case True
    from claim_from_law [OF ops al wf _ count, of j] obtain r M' live' where
      claim: "claim_from ops al M (int j) live = Some (r, M', live')" "multi_wf stk cap M'" "live' = base + multi_count M'"
        "msgs_kept M (msg_live stk M) M'" "r = None \<longrightarrow> msg_live stk M' = msg_live stk M"
        "\<forall>m. r = Some m \<longrightarrow> fst m = j \<and> m \<notin> msg_live stk M \<and> msg_live stk M' = insert m (msg_live stk M)"
      using True by (auto simp: n_def)
    then show ?thesis using run True j(3,4) by auto
  next
    case False
    then show ?thesis using run wf count by (simp add: msgs_kept_def)
  qed
qed

section \<open>Use of a message pool\<close>

text \<open>
  The states a message pool gets into after every element pool was created, with what the holders of messages stored in
  them last and the number of live objects of the heap. \<open>multi_sizes\<close> are the sizes the code can represent.
\<close>

definition multi_sizes :: "int list \<Rightarrow> int list \<Rightarrow> int \<Rightarrow> int \<Rightarrow> bool" where
  "multi_sizes nums lens n add \<longleftrightarrow>
     0 \<le> n \<and> n \<le> 127 \<and>
     (\<forall>i < nat n. 0 \<le> nums ! i \<and> int_ok (nums ! i) \<and> 0 \<le> lens ! i + add \<and> int_ok (nums ! i * (lens ! i + add + 9)))"

inductive multi_reach ::
  "'st ptr_stack_ops \<Rightarrow> ('st \<Rightarrow> elem_ptr list) \<Rightarrow> ('st \<Rightarrow> nat) \<Rightarrow> nat \<Rightarrow> 'st multi_pool_s \<Rightarrow> (msg_ptr \<Rightarrow> bytes option) \<Rightarrow> nat \<Rightarrow> bool"
  for ops stk cap base where
  multi_new:
    "(\<And>i. alloc_ok stk cap (fst (al i))) \<Longrightarrow> multi_sizes nums lens n add \<Longrightarrow>
     ox_multi_pool_new ops al granted nums lens n add base = Some (M, live) \<Longrightarrow> \<forall>p \<in> set (msg_pools M). p \<noteq> None \<Longrightarrow>
     multi_reach ops stk cap base M (\<lambda>m. None) live"
| multi_claim:
    "multi_reach ops stk cap base M c live \<Longrightarrow> alloc_ok stk cap al \<Longrightarrow>
     ox_multi_pool_claim ops al M i live = Some (r, M', live') \<Longrightarrow>
     multi_reach ops stk cap base M' (case r of None \<Rightarrow> c | Some m \<Rightarrow> c(m := None)) live'"
| multi_lenclaim:
    "multi_reach ops stk cap base M c live \<Longrightarrow> alloc_ok stk cap al \<Longrightarrow>
     ox_multi_pool_lenclaim ops al M len live = Some (r, M', live') \<Longrightarrow>
     multi_reach ops stk cap base M' (case r of None \<Rightarrow> c | Some m \<Rightarrow> c(m := None)) live'"
| multi_reclaim:
    "multi_reach ops stk cap base M c live \<Longrightarrow> m \<in> msg_live stk M \<Longrightarrow> ox_multi_pool_reclaim ops M m = Some M' \<Longrightarrow>
     multi_reach ops stk cap base M' (c(m := None)) live"
| multi_store:
    "multi_reach ops stk cap base M c live \<Longrightarrow> m \<in> msg_live stk M \<Longrightarrow> int (length bs) \<le> mp_lens M ! fst m \<Longrightarrow>
     msg_write M m bs = Some M' \<Longrightarrow> multi_reach ops stk cap base M' (c(m \<mapsto> bs)) live"

definition multi_good ::
  "('st \<Rightarrow> elem_ptr list) \<Rightarrow> ('st \<Rightarrow> nat) \<Rightarrow> nat \<Rightarrow> 'st multi_pool_s \<Rightarrow> (msg_ptr \<Rightarrow> bytes option) \<Rightarrow> nat \<Rightarrow> bool" where
  "multi_good stk cap base M c live \<longleftrightarrow>
     multi_wf stk cap M \<and> live = base + 3 + multi_count M \<and>
     (\<forall>m bs. c m = Some bs \<longrightarrow> m \<in> msg_live stk M \<and> int (length bs) \<le> mp_lens M ! fst m \<and> msg_read M m (length bs) = Some bs)"

lemma kept_good:
  assumes good: "multi_good stk cap base M c live" and wf: "multi_wf stk cap M'" and count: "live' = base + 3 + multi_count M'"
    and kept: "msgs_kept M keep M'" and c: "\<And>m bs. c' m = Some bs \<Longrightarrow> c m = Some bs \<and> m \<in> keep \<and> m \<in> msg_live stk M'"
  shows "multi_good stk cap base M' c' live'"
proof -
  have "m \<in> msg_live stk M' \<and> int (length bs) \<le> mp_lens M' ! fst m \<and> msg_read M' m (length bs) = Some bs" if "c' m = Some bs" for m bs
  proof -
    have "c m = Some bs" "m \<in> keep" "m \<in> msg_live stk M'" using c that by simp_all
    then show ?thesis using good kept by (auto simp: multi_good_def msgs_kept_def)
  qed
  then show ?thesis using wf count by (simp add: multi_good_def)
qed

lemma new_pools_law:
  assumes "ptr_stack_ok ops stk cap" "\<And>i. alloc_ok stk cap (fst (al i))"
    and "\<forall>(num, len) \<in> set sizes. 0 \<le> num \<and> int_ok num \<and> 0 \<le> len \<and> int_ok (num * (len + 9))"
    and "new_pools ops al i sizes live = Some (ps, live')" "\<forall>p \<in> set ps. p \<noteq> None"
  shows "length ps = length sizes \<and> live' = live + sum_list (map (\<lambda>p. 1 + 4 * pool_size (the p)) ps) \<and>
    (\<forall>j < length ps. sub_wf stk cap (snd (sizes ! j)) (i + j) (the (ps ! j)))"
  using assms(3-5)
proof (induction sizes arbitrary: i live ps)
  case (Cons size rest)
  obtain num len where size: "size = (num, len)" by (cases size)
  obtain p live1 ps' where p: "ox_type_pool_new ops (fst (al i)) (snd (al i)) num (len + 1) live = Some (Some p, live1)"
    and rest: "new_pools ops al (Suc i) rest live1 = Some (ps', live')" and ps: "ps = Some p # ps'"
    using Cons.prems(2,3) unfolding size by (auto split: if_splits Option.bind_splits)
  have new: "pool_good stk cap live p (\<lambda>y. None) live1" and fields: "pool_element_size p = len + 1" "pool_live stk p = {}"
    using new_law [OF assms(1,2), of num "len + 1" i "snd (al i)" live p live1] p Cons.prems(1) by (simp_all add: size add.assoc)
  from new have good: "pool_wf stk cap p" "increase_ok p (base_num p)" "live1 = live + 1 + 4 * pool_size p" by (simp_all add: pool_good_def)
  have "length ps' = length rest \<and> live' = live1 + sum_list (map (\<lambda>p. 1 + 4 * pool_size (the p)) ps') \<and>
    (\<forall>j < length ps'. sub_wf stk cap (snd (rest ! j)) (Suc i + j) (the (ps' ! j)))"
    using Cons.prems(1,3) ps by (intro Cons.IH [OF _ rest]) auto
  moreover have "sub_wf stk cap len i p" using good fields Cons.prems(1) by (simp add: sub_wf_def size)
  ultimately show ?case using ps good(3) size by (auto simp: nth_Cons' less_Suc_eq_0_disj)
qed simp


lemma reach_multi_good:
  assumes ops: "ptr_stack_ok ops stk cap" and reach: "multi_reach ops stk cap base M c live"
  shows "multi_good stk cap base M c live"
  using reach
proof induction
  case (multi_new al nums lens n add granted M live)
  define k where "k = nat n"
  define sums where "sums = map (\<lambda>l. l + add) (take k lens)"
  have n: "n = int k" "k \<le> 127" using multi_new(2) by (simp_all add: multi_sizes_def k_def nat_le_iff)
  then have nk: "to_size n = k" by (simp add: to_size_nat int_ok_def)
  have len: "k \<le> length nums" "k \<le> length lens" using multi_new(3) nk by (auto simp: ox_multi_pool_new_def split: if_splits)
  obtain ps where ps: "new_pools ops al 0 (zip (take k nums) sums) (base + 3) = Some (ps, live)"
    and M: "M = \<lparr>msg_pools = ps, mp_max = n, mp_lens = sums\<rparr>"
    using multi_new(3) nk by (auto simp: ox_multi_pool_new_def Let_def sums_def split: if_splits Option.bind_splits)
  have sizes: "\<forall>(num, l) \<in> set (zip (take k nums) sums). 0 \<le> num \<and> int_ok num \<and> 0 \<le> l \<and> int_ok (num * (l + 9))"
    using multi_new(2) len by (auto simp: multi_sizes_def sums_def set_zip k_def)
  have k: "length sums = k" "length (zip (take k nums) sums) = k" using len by (simp_all add: sums_def)
  from new_pools_law [OF ops multi_new(1) sizes ps] multi_new(4) M
  have law: "length ps = k" "live = base + 3 + sum_list (map (\<lambda>p. 1 + 4 * pool_size (the p)) ps)"
    "\<And>j. j < k \<Longrightarrow> sub_wf stk cap (sums ! j) j (the (ps ! j))" using k by auto
  then show ?case using multi_new(4) M n k by (auto simp: multi_good_def multi_wf_def multi_count_def sub_pool_def)
next
  case (multi_claim M c live al i r M' live')
  then have wf: "multi_wf stk cap M" and count: "live = (base + 3) + multi_count M" by (simp_all add: multi_good_def)
  have run: "claim_from ops al M i live = Some (r, M', live')" "0 \<le> i" "i < mp_max M"
    using multi_claim(3) by (auto simp: ox_multi_pool_claim_def split: if_splits)
  then have i: "nat i < length (msg_pools M)" "int (nat i) = i" using wf by (simp_all add: multi_wf_def)
  from claim_from_law [OF ops multi_claim(2) wf i(1) count] run(1) i(2)
  have "multi_wf stk cap M'" "live' = (base + 3) + multi_count M'" "msgs_kept M (msg_live stk M) M'"
    "msg_live stk M \<subseteq> msg_live stk M'" by (cases r; auto)+
  then show ?case using multi_claim.IH
    by (intro kept_good [OF multi_claim.IH, of _ _ "msg_live stk M"]) (auto simp: multi_good_def split: option.splits if_splits)
next
  case (multi_lenclaim M c live al len r M' live')
  then have wf: "multi_wf stk cap M" and count: "live = (base + 3) + multi_count M" by (simp_all add: multi_good_def)
  from lenclaim_law [OF ops multi_lenclaim(2) wf count, of len] multi_lenclaim(3)
  have "multi_wf stk cap M'" "live' = (base + 3) + multi_count M'" "msgs_kept M (msg_live stk M) M'"
    "msg_live stk M \<subseteq> msg_live stk M'" by (cases r; auto)+
  then show ?case using multi_lenclaim.IH
    by (intro kept_good [OF multi_lenclaim.IH, of _ _ "msg_live stk M"]) (auto simp: multi_good_def split: option.splits if_splits)
next
  case (multi_reclaim M c live m M')
  then have wf: "multi_wf stk cap M" and count: "live = base + 3 + multi_count M" by (simp_all add: multi_good_def)
  from reclaim_msg_law [OF ops wf multi_reclaim(2)] multi_reclaim(3)
  have "multi_wf stk cap M'" "multi_count M' = multi_count M" "msgs_kept M (msg_live stk M - {m}) M'"
    "msg_live stk M' = msg_live stk M - {m}" by auto
  then show ?case using multi_reclaim.IH count
    by (intro kept_good [OF multi_reclaim.IH, of _ _ "msg_live stk M - {m}"]) (auto simp: multi_good_def split: if_splits)
next
  case (multi_store M c live m bs M')
  then have wf: "multi_wf stk cap M" and count: "live = base + 3 + multi_count M" by (simp_all add: multi_good_def)
  from store_msg_law [OF wf multi_store(2,3)] multi_store(4)
  have store: "multi_wf stk cap M'" "multi_count M' = multi_count M" "msgs_kept M (msg_live stk M - {m}) M'"
    "msg_live stk M' = msg_live stk M" "msg_read M' m (length bs) = Some bs" by auto
  have "multi_good stk cap base M' (c(m := None)) live"
    using store multi_store.IH count
    by (intro kept_good [OF multi_store.IH, of _ _ "msg_live stk M - {m}"]) (auto simp: multi_good_def split: if_splits)
  have "x \<in> msg_live stk M' \<and> int (length b) \<le> mp_lens M' ! fst x \<and> msg_read M' x (length b) = Some b"
    if "(c(m \<mapsto> bs)) x = Some b" for x b
  proof (cases "x = m")
    case True
    then show ?thesis using that store multi_store(2,3) by (simp add: msgs_kept_def)
  next
    case False
    then have "(c(m := None)) x = Some b" using that by simp
    then show ?thesis using \<open>multi_good stk cap base M' (c(m := None)) live\<close> unfolding multi_good_def by blast
  qed
  then show ?case using store(1,2) count by (simp add: multi_good_def)
qed

lemma delete_pools_law:
  assumes "\<forall>p \<in> set ps. p \<noteq> None \<and> pool_wf stk cap (the p)"
  shows "delete_pools ps (n + sum_list (map (\<lambda>p. 1 + 4 * pool_size (the p)) ps)) = Some n"
  using assms
proof (induction ps)
  case (Cons p ps)
  then obtain q where q: "p = Some q" "pool_wf stk cap q" by auto
  define m where "m = n + sum_list (map (\<lambda>p. 1 + 4 * pool_size (the p)) ps)"
  have "ox_type_pool_delete (Some q) (m + (1 + 4 * pool_size q)) = Some m"
    using delete_wf [OF q(2), of m] by (simp add: add.assoc)
  then show ?case using Cons q(1) by (simp add: m_def algebra_simps)
qed simp

lemma multi_delete_law:
  assumes "multi_wf stk cap M"
  shows "ox_multi_pool_delete M (base + 3 + multi_count M) = Some base"
proof -
  have "\<forall>p \<in> set (msg_pools M). p \<noteq> None \<and> pool_wf stk cap (the p)"
    using assms by (auto simp: multi_wf_def sub_wf_def sub_pool_def in_set_conv_nth)
  from delete_pools_law [OF this, of "base + 3"] show ?thesis by (simp add: ox_multi_pool_delete_def multi_count_def)
qed

section \<open>Properties\<close>

text \<open>
  C25. Whatever sequence of claims by pool or by length, reclaims and stores the holders of messages perform, and
  whichever allocations fail while the pools grow, every message in use keeps what its holder stored in it last,
  the pool still knows the size it was made for, and deleting the pool frees exactly what its creation and growth allocated. The pool
  has at most 127 sizes, and its creation succeeded.
\<close>

theorem multi_pool_keeps_messages:
  assumes "ptr_stack_ok ops stk cap" "multi_reach ops stk cap base M contents live"
  shows "(\<forall>m bs. contents m = Some bs \<longrightarrow> m \<in> msg_live stk M \<and> msg_read M m (length bs) = Some bs) \<and>
    (\<forall>m \<in> msg_live stk M. ox_multi_pool_config_len M m = Some (mp_lens M ! fst m)) \<and>
    ox_multi_pool_delete M live = Some base"
proof -
  have good: "multi_wf stk cap M" "live = base + 3 + multi_count M"
    "\<forall>m bs. contents m = Some bs \<longrightarrow> m \<in> msg_live stk M \<and> msg_read M m (length bs) = Some bs"
    using reach_multi_good [OF assms] by (auto simp: multi_good_def)
  have "ox_multi_pool_config_len M m = Some (mp_lens M ! fst m)" if "m \<in> msg_live stk M" for m
    using msg_index_live(1,2) [OF good(1) that] good(1) by (simp add: ox_multi_pool_config_len_def multi_wf_def)
  then show ?thesis using good multi_delete_law [OF good(1)] by simp
qed

text \<open>
  In every state of a pool of at most 127 sizes a claim by length meets no bad pointer, and the message it returns is
  held by nobody and comes from the first size that is large enough. Handing back a message in use works and takes exactly
  that message out of use.
\<close>

theorem multi_pool_lenclaim_fits:
  assumes "ptr_stack_ok ops stk cap" "multi_reach ops stk cap base M contents live" "alloc_ok stk cap al"
  shows "(\<exists>r M' live'. ox_multi_pool_lenclaim ops al M len live = Some (r, M', live') \<and>
      (\<forall>m. r = Some m \<longrightarrow> m \<notin> msg_live stk M \<and> msg_live stk M' = insert m (msg_live stk M) \<and>
         len \<le> mp_lens M ! fst m \<and> (\<forall>k < fst m. mp_lens M ! k < len))) \<and>
    (\<forall>m \<in> msg_live stk M. \<exists>M'. ox_multi_pool_reclaim ops M m = Some M' \<and> msg_live stk M' = msg_live stk M - {m})"
proof -
  have good: "multi_wf stk cap M" "live = (base + 3) + multi_count M" using reach_multi_good [OF assms(1,2)] by (simp_all add: multi_good_def)
  have "\<exists>M'. ox_multi_pool_reclaim ops M m = Some M' \<and> msg_live stk M' = msg_live stk M - {m}" if "m \<in> msg_live stk M" for m
    using reclaim_msg_law [OF assms(1) good(1) that] by blast
  moreover note lenclaim_law [OF assms(1,3) good, of len]
  ultimately show ?thesis by (intro conjI) blast+
qed

text \<open>
  Converting the number of sizes to \<^verbatim>\<open>char\<close> makes it negative from 128 sizes on: such a pool never finds a size.
\<close>

lemma lenclaim_wide_null:
  assumes "128 \<le> mp_max M" "mp_max M \<le> 255"
  shows "ox_multi_pool_lenclaim ops al M len live = Some (None, M, live)"
proof -
  have "mp_max M div 128 = 1" using assms by linarith
  then have "sint (of_int (mp_max M) :: 8 word) = mp_max M - 256"
    using assms by (simp add: signed_of_int signed_take_bit_eq_take_bit_minus take_bit_eq_mod bit_iff_odd)
  then show ?thesis using assms by (simp add: ox_multi_pool_lenclaim_def first_len.simps [of _ _ _ 0])
qed


section \<open>Witnesses\<close>

text \<open>A pool of one message of two bytes and one of four, on the stack and the allocator of the element pool's example.\<close>

definition demo_multi :: "(elem_ptr list \<times> nat) multi_pool_s" where
  "demo_multi = (case ox_multi_pool_new list_ptr_stack (\<lambda>i. (plain_alloc, True)) True [1, 1] [2, 4] 2 0 0 of Some (p, _) \<Rightarrow> p)"

lemma demo_multi_new:
  "ox_multi_pool_new list_ptr_stack (\<lambda>i. (plain_alloc, True)) True [1, 1] [2, 4] 2 0 0 = Some (demo_multi, 13) \<and>
   list_all (\<lambda>p. p \<noteq> None) (msg_pools demo_multi)"
  by code_simp

definition demo_message :: "(elem_ptr list \<times> nat) multi_pool_s" where
  "demo_message = (case ox_multi_pool_lenclaim list_ptr_stack plain_alloc demo_multi 3 13 of Some (_, p, _) \<Rightarrow> p)"

lemma demo_message_claim: "ox_multi_pool_lenclaim list_ptr_stack plain_alloc demo_multi 3 13 = Some (Some (1, 0, 9), demo_message, 13)"
  by code_simp

definition demo_sent :: "(elem_ptr list \<times> nat) multi_pool_s" where
  "demo_sent = (case msg_write demo_message (1, 0, 9) ''abc'' of Some q \<Rightarrow> q)"

lemma demo_message_store: "msg_write demo_message (1, 0, 9) ''abc'' = Some demo_sent \<and> mp_lens demo_message ! 1 = 4"
  by code_simp

lemma demo_multi_reach:
  "multi_reach list_ptr_stack fst snd 0 demo_sent ((\<lambda>m. None)((1, 0, 9) \<mapsto> ''abc'')) 13"
proof -
  have "multi_sizes [1, 1] [2, 4] 2 0"
    by (auto simp: multi_sizes_def int_ok_def less_Suc_eq numeral_2_eq_2)
  from multi_new [OF _ this conjunct1 [OF demo_multi_new]]
  have new: "multi_reach list_ptr_stack fst snd 0 demo_multi (\<lambda>m. None) 13"
    using list_ptr_stack_ok(2) demo_multi_new by (simp add: list_all_iff)
  from multi_lenclaim [OF new list_ptr_stack_ok(2) demo_message_claim]
  have claimed: "multi_reach list_ptr_stack fst snd 0 demo_message (\<lambda>m. None) 13" by (simp add: fun_upd_def)
  have "multi_wf fst snd demo_multi" "13 = 3 + multi_count demo_multi"
    using reach_multi_good [OF list_ptr_stack_ok(1) new] by (simp_all add: multi_good_def)
  from lenclaim_law [OF list_ptr_stack_ok this, of 3] have "(1, 0, 9) \<in> msg_live fst demo_message" using demo_message_claim by auto
  from multi_store [OF claimed this _ conjunct1 [OF demo_message_store]] show ?thesis using demo_message_store by simp
qed

theorem multi_pool_keeps_messages_witness:
  "msg_read demo_sent (1, 0, 9) 3 = Some ''abc'' \<and> ox_multi_pool_delete demo_sent 13 = Some 0"
proof -
  note facts = multi_pool_keeps_messages [OF list_ptr_stack_ok(1) demo_multi_reach]
  have "((\<lambda>m. None)((1, 0, 9) \<mapsto> ''abc'')) (1, 0, 9) = Some ''abc''" by simp
  then have "msg_read demo_sent (1, 0, 9) (length ''abc'') = Some ''abc''" using facts by blast
  then show ?thesis using facts by (simp add: numeral_3_eq_3)
qed

theorem multi_pool_lenclaim_fits_witness:
  "(\<exists>r M' live'. ox_multi_pool_lenclaim list_ptr_stack plain_alloc demo_sent 2 13 = Some (r, M', live')) \<and>
   (\<exists>M'. ox_multi_pool_reclaim list_ptr_stack demo_sent (1, 0, 9) = Some M')"
proof -
  note facts = multi_pool_lenclaim_fits [OF list_ptr_stack_ok(1) demo_multi_reach list_ptr_stack_ok(2), of 2]
  have "(1, 0, 9) \<in> msg_live fst demo_sent"
    using reach_multi_good [OF list_ptr_stack_ok(1) demo_multi_reach] by (simp add: multi_good_def)
  then show ?thesis using facts by blast
qed

end
