(* ===== verification/Rpc_Values.thy ===== *)
theory Rpc_Values
  imports Http_Format "HOL-Library.Product_Lexorder" "HOL-Library.List_Lexorder" "HOL-Library.Char_ord"
begin

text \<open>
  The values the remote procedure calls of \<^verbatim>\<open>src/rpc\<close> carry, with the C++ types they are read into: numbers and strings,
  vectors, maps and tuples of such values, and protobuf messages, whose library is a parameter. \<open>clear_value\<close> is what
  \<^verbatim>\<open>RpcCommon.h\<close> does to the last value of an argument before the next is read. A \<^verbatim>\<open>std::map\<close> is the list of its entries in
  the order of its keys.
\<close>

section \<open>Atoms and their order\<close>

datatype atom = AInt int | AStr string

text \<open>\<open>KInt w\<close> is the signed integer type of \<open>w\<close> bits, \<open>KStr\<close> is \<^verbatim>\<open>std::string\<close>.\<close>

datatype kind = KInt nat | KStr

fun has_kind :: "kind \<Rightarrow> atom \<Rightarrow> bool" where
  "has_kind (KInt w) (AInt i) \<longleftrightarrow> - (2 ^ (w - 1)) \<le> i \<and> i < 2 ^ (w - 1)"
| "has_kind KStr (AStr s) \<longleftrightarrow> True"
| "has_kind _ _ \<longleftrightarrow> False"

definition atom_key :: "atom \<Rightarrow> nat \<times> int \<times> string" where
  "atom_key a = (case a of AInt i \<Rightarrow> (0, i, []) | AStr s \<Rightarrow> (1, 0, s))"

lemma atom_key_inj: "atom_key a = atom_key b \<longleftrightarrow> a = b"
  by (simp add: atom_key_def split: atom.splits)

text \<open>The keys of one map are of one kind: numbers in their order, strings as byte sequences.\<close>

instantiation atom :: linorder
begin

definition less_eq_atom :: "atom \<Rightarrow> atom \<Rightarrow> bool" where
  "less_eq_atom a b \<longleftrightarrow> atom_key a \<le> atom_key b"

definition less_atom :: "atom \<Rightarrow> atom \<Rightarrow> bool" where
  "less_atom a b \<longleftrightarrow> atom_key a < atom_key b"

instance
  by standard (auto simp: less_eq_atom_def less_atom_def atom_key_inj simp flip: atom_key_inj)

end

lemma atom_order [simp]:
  "AInt i < AInt j \<longleftrightarrow> i < j" "AStr s < AStr t \<longleftrightarrow> s < t" "AInt i \<le> AInt j \<longleftrightarrow> i \<le> j" "AStr s \<le> AStr t \<longleftrightarrow> s \<le> t"
  by (auto simp: less_atom_def less_eq_atom_def atom_key_def)

section \<open>Values and types\<close>

datatype val = VAtom atom | VVec "val list" | VMap "(atom \<times> val) list" | VTup "val list"

datatype ty = TAtom kind | TVec ty | TMap kind ty | TTup "ty list"

text \<open>\<open>shape_ok t v\<close>: \<open>v\<close> has the constructors of the type, as every object of the type has. \<open>has_type\<close> also bounds the numbers.\<close>

fun shape_ok :: "ty \<Rightarrow> val \<Rightarrow> bool" and shapes_ok :: "ty list \<Rightarrow> val list \<Rightarrow> bool" where
  "shape_ok (TAtom k) v \<longleftrightarrow> (\<exists>a. v = VAtom a)"
| "shape_ok (TVec t) v \<longleftrightarrow> (\<exists>vs. v = VVec vs)"
| "shape_ok (TMap k t) v \<longleftrightarrow> (\<exists>m. v = VMap m)"
| "shape_ok (TTup ts) v \<longleftrightarrow> (\<exists>vs. v = VTup vs \<and> shapes_ok ts vs)"
| "shapes_ok [] vs \<longleftrightarrow> vs = []"
| "shapes_ok (t # ts) vs \<longleftrightarrow> (\<exists>w ws. vs = w # ws \<and> shape_ok t w \<and> shapes_ok ts ws)"

fun has_type :: "ty \<Rightarrow> val \<Rightarrow> bool" and have_types :: "ty list \<Rightarrow> val list \<Rightarrow> bool" where
  "has_type (TAtom k) v \<longleftrightarrow> (\<exists>a. v = VAtom a \<and> has_kind k a)"
| "has_type (TVec t) v \<longleftrightarrow> (\<exists>vs. v = VVec vs \<and> (\<forall>x \<in> set vs. has_type t x))"
| "has_type (TMap k t) v \<longleftrightarrow> (\<exists>m. v = VMap m \<and> sorted_wrt (<) (map fst m) \<and> (\<forall>p \<in> set m. has_kind k (fst p) \<and> has_type t (snd p)))"
| "has_type (TTup ts) v \<longleftrightarrow> (\<exists>vs. v = VTup vs \<and> have_types ts vs)"
| "have_types [] vs \<longleftrightarrow> vs = []"
| "have_types (t # ts) vs \<longleftrightarrow> (\<exists>w ws. vs = w # ws \<and> has_type t w \<and> have_types ts ws)"

text \<open>A new object of a type; the value of a new number is arbitrary in the code, here zero.\<close>

fun new_value :: "ty \<Rightarrow> val" where
  "new_value (TAtom (KInt w)) = VAtom (AInt 0)"
| "new_value (TAtom KStr) = VAtom (AStr [])"
| "new_value (TVec t) = VVec []"
| "new_value (TMap k t) = VMap []"
| "new_value (TTup ts) = VTup (map new_value ts)"

text \<open>
  The overloads of \<^verbatim>\<open>clear\<close>: vectors, tuples by component, and maps whose key is an \<^verbatim>\<open>int\<close> or a string; any
  other value is left as it is.
\<close>

fun clear_value :: "ty \<Rightarrow> val \<Rightarrow> val" and clear_values :: "ty list \<Rightarrow> val list \<Rightarrow> val list" where
  "clear_value (TMap k t) (VMap m) = (if k = KInt 32 \<or> k = KStr then VMap [] else VMap m)"
| "clear_value (TVec t) (VVec vs) = VVec []"
| "clear_value (TTup ts) (VTup vs) = VTup (clear_values ts vs)"
| "clear_value t v = v"
| "clear_values (t # ts) (v # vs) = clear_value t v # clear_values ts vs"
| "clear_values ts vs = vs"

text \<open>\<^verbatim>\<open>map::insert\<close>, which keeps an entry that is there, and \<^verbatim>\<open>map[key] = value\<close>, which replaces it.\<close>

definition place_entry :: "atom \<Rightarrow> val \<Rightarrow> (atom \<times> val) list \<Rightarrow> (atom \<times> val) list" where
  "place_entry k v m = takeWhile (\<lambda>p. fst p < k) m @ (k, v) # dropWhile (\<lambda>p. fst p \<le> k) m"

definition map_insert :: "atom \<Rightarrow> val \<Rightarrow> (atom \<times> val) list \<Rightarrow> (atom \<times> val) list" where
  "map_insert k v m = (if k \<in> set (map fst m) then m else place_entry k v m)"

definition map_assign :: "atom \<Rightarrow> val \<Rightarrow> (atom \<times> val) list \<Rightarrow> (atom \<times> val) list" where
  "map_assign k v m = place_entry k v m"

section \<open>Arguments\<close>

text \<open>
  A parameter of a function is a value, a protobuf message or \<^verbatim>\<open>RpcRequestInfo\<close>, which no argument of the call stands for.
\<close>

datatype 'm rpc_arg = ArgVal val | ArgMsg 'm | ArgInfo int

datatype param_type = PVal ty | PMsg | PInfo

fun arg_shape :: "param_type \<Rightarrow> 'm rpc_arg \<Rightarrow> bool" where
  "arg_shape (PVal t) a \<longleftrightarrow> (\<exists>v. a = ArgVal v \<and> shape_ok t v)"
| "arg_shape PMsg a \<longleftrightarrow> (\<exists>m. a = ArgMsg m)"
| "arg_shape PInfo a \<longleftrightarrow> (\<exists>i. a = ArgInfo i)"

fun arg_type :: "param_type \<Rightarrow> 'm rpc_arg \<Rightarrow> bool" where
  "arg_type (PVal t) a \<longleftrightarrow> (\<exists>v. a = ArgVal v \<and> has_type t v)"
| "arg_type PMsg a \<longleftrightarrow> (\<exists>m. a = ArgMsg m)"
| "arg_type PInfo a \<longleftrightarrow> (\<exists>i. a = ArgInfo i)"

fun new_arg :: "'m \<Rightarrow> param_type \<Rightarrow> 'm rpc_arg" where
  "new_arg m (PVal t) = ArgVal (new_value t)"
| "new_arg m PMsg = ArgMsg m"
| "new_arg m PInfo = ArgInfo (- 1)"

fun clear_arg :: "param_type \<Rightarrow> 'm rpc_arg \<Rightarrow> 'm rpc_arg" where
  "clear_arg (PVal t) (ArgVal v) = ArgVal (clear_value t v)"
| "clear_arg p a = a"

section \<open>Lemmas\<close>

text \<open>The types whose every map is cleared.\<close>

fun clearable :: "ty \<Rightarrow> bool" where
  "clearable (TMap k t) \<longleftrightarrow> k = KInt 32 \<or> k = KStr"
| "clearable (TTup ts) \<longleftrightarrow> (\<forall>t \<in> set ts. clearable t)"
| "clearable t \<longleftrightarrow> True"

text \<open>Reading starts from an empty container: \<open>empty_at t v\<close> for \<open>v\<close> just cleared or new.\<close>

fun empty_at :: "ty \<Rightarrow> val \<Rightarrow> bool" and empties :: "ty list \<Rightarrow> val list \<Rightarrow> bool" where
  "empty_at (TAtom k) v \<longleftrightarrow> (\<exists>a. v = VAtom a)"
| "empty_at (TVec t) v \<longleftrightarrow> v = VVec []"
| "empty_at (TMap k t) v \<longleftrightarrow> v = VMap []"
| "empty_at (TTup ts) v \<longleftrightarrow> (\<exists>vs. v = VTup vs \<and> empties ts vs)"
| "empties [] vs \<longleftrightarrow> vs = []"
| "empties (t # ts) vs \<longleftrightarrow> (\<exists>w ws. vs = w # ws \<and> empty_at t w \<and> empties ts ws)"

lemma lists_pointwise:
  "shapes_ok ts vs \<longleftrightarrow> list_all2 shape_ok ts vs" "have_types ts vs \<longleftrightarrow> list_all2 has_type ts vs" "empties ts vs \<longleftrightarrow> list_all2 empty_at ts vs"
  by (induction ts arbitrary: vs; auto simp: list_all2_Cons1)+

lemma empty_new: "empty_at t (new_value t)"
  by (induction t rule: new_value.induct) (auto simp: lists_pointwise list_all2_map2 list_all2_same)

lemma empty_shape: "empty_at t v \<Longrightarrow> shape_ok t v"
  by (induction t arbitrary: v) (auto simp: lists_pointwise list_all2_conv_all_nth)

lemma type_shape: "has_type t v \<Longrightarrow> shape_ok t v"
  by (induction t arbitrary: v) (auto simp: lists_pointwise list_all2_conv_all_nth)

lemma empty_clear: "shape_ok t v \<Longrightarrow> clearable t \<Longrightarrow> empty_at t (clear_value t v)"
  and "shapes_ok ts vs \<Longrightarrow> \<forall>t \<in> set ts. clearable t \<Longrightarrow> empties ts (clear_values ts vs)"
proof (induction t v and ts vs rule: clear_value_clear_values.induct)
qed (auto elim: shape_ok.elims clearable.elims shapes_ok.elims)

lemma shape_clear: "shape_ok t v \<Longrightarrow> shape_ok t (clear_value t v)"
  and "shapes_ok ts vs \<Longrightarrow> shapes_ok ts (clear_values ts vs)"
  by (induction t v and ts vs rule: clear_value_clear_values.induct) auto

lemma shape_new_arg: "arg_shape p (new_arg m p)"
  by (cases p) (auto simp: empty_shape empty_new)

text \<open>Entries that arrive in the order of their keys end up in that order.\<close>

lemma place_last: "\<forall>p \<in> set m. fst p < k \<Longrightarrow> place_entry k v m = m @ [(k, v)]"
proof -
  assume less: "\<forall>p \<in> set m. fst p < k"
  then have "takeWhile (\<lambda>p. fst p < k) m = m" "dropWhile (\<lambda>p. fst p \<le> k) m = []"
    by (auto simp: takeWhile_eq_all_conv dropWhile_eq_Nil_conv)
  then show ?thesis by (simp add: place_entry_def)
qed

lemma map_insert_last: "\<forall>p \<in> set m. fst p < k \<Longrightarrow> map_insert k v m = m @ [(k, v)]"
  by (auto simp: map_insert_def place_last)

lemma map_assign_last: "\<forall>p \<in> set m. fst p < k \<Longrightarrow> map_assign k v m = m @ [(k, v)]"
  by (simp add: map_assign_def place_last)

end
