(* ===== verification/Rpc_Service.thy ===== *)
theory Rpc_Service
  imports Rpc_Values "HOL-Library.Monad_Syntax"
begin

text \<open>
  The function tables of \<^verbatim>\<open>src/rpc/RpcCommon.h\<close> and the service of \<^verbatim>\<open>RpcService.h\<close>, for any protocol: what differs
  between the two protocols is a record of how a message is opened, how one argument is read from it, and how a message is
  written. The registered function objects live on an explicit heap, so that a freed or null pointer is visible.
  \<open>None\<close> is a failed assertion, undefined behaviour or an overflow. The functions a program registers are a parameter; they do not
  call back into the service while it runs them.
\<close>

section \<open>Function objects and their tables\<close>

record ('c, 'm) VariadicArgFunctor =
  fn_object :: 'c
  fn_tuple :: "'m rpc_arg list"
  fn_request :: int
  fn_params :: "param_type list"

text \<open>\<^verbatim>\<open>mWrapFunctions\<close> and \<^verbatim>\<open>mDestroyFunctions\<close> hold instances of templates for a list of parameter types; the list stands for them.\<close>

record ('c, 'm) functor_mgr =
  mWrapFunctions :: "string \<Rightarrow> param_type list option"
  mRealFunctionPtr :: "string \<Rightarrow> nat option"
  mDestroyFunctions :: "string \<Rightarrow> param_type list option"
  mRequestID :: int
  fm_heap :: "nat \<Rightarrow> ('c, 'm) VariadicArgFunctor option"
  fm_next :: nat

definition functor_mgr_new :: "('c, 'm) functor_mgr" where
  "functor_mgr_new = \<lparr>mWrapFunctions = Map.empty, mRealFunctionPtr = Map.empty, mDestroyFunctions = Map.empty, mRequestID = - 1,
     fm_heap = Map.empty, fm_next = 0\<rparr>"

definition insertFunction :: "'m \<Rightarrow> string \<Rightarrow> 'c \<Rightarrow> param_type list \<Rightarrow> ('c, 'm) functor_mgr \<Rightarrow> ('c, 'm) functor_mgr option" where
  "insertFunction blank name f ps m =
     (let pbase = fm_next m;
          m1 = m\<lparr>fm_heap := (fm_heap m)(pbase \<mapsto> \<lparr>fn_object = f, fn_tuple = map (new_arg blank) ps, fn_request = - 1, fn_params = ps\<rparr>),
                 fm_next := pbase + 1\<rparr>
      in if mWrapFunctions m1 name = None
         then Some (m1\<lparr>mWrapFunctions := (mWrapFunctions m1)(name \<mapsto> ps), mDestroyFunctions := (mDestroyFunctions m1)(name \<mapsto> ps),
                       mRealFunctionPtr := (mRealFunctionPtr m1)(name \<mapsto> pbase)\<rparr>)
         else None)"

text \<open>\<^verbatim>\<open>delete\<close> through the type the destroy function was made for.\<close>

definition destroy_functor :: "param_type list \<Rightarrow> nat \<Rightarrow> ('c, 'm) functor_mgr \<Rightarrow> ('c, 'm) functor_mgr option" where
  "destroy_functor ps p m =
     (case fm_heap m p of
        None \<Rightarrow> None
      | Some f \<Rightarrow> if fn_params f = ps then Some (m\<lparr>fm_heap := (fm_heap m)(p := None)\<rparr>) else None)"

text \<open>Erasing the end iterator is undefined behaviour: \<open>None\<close> where the name is not in both tables.\<close>

definition mgr_del :: "string \<Rightarrow> ('c, 'm) functor_mgr \<Rightarrow> ('c, 'm) functor_mgr option" where
  "mgr_del name m =
     (case (mRealFunctionPtr m name, mDestroyFunctions m name) of
        (Some p, Some ps) \<Rightarrow>
          do {
            m1 \<leftarrow> destroy_functor ps p m;
            Some (m1\<lparr>mWrapFunctions := (mWrapFunctions m1)(name := None), mRealFunctionPtr := (mRealFunctionPtr m1)(name := None),
                     mDestroyFunctions := (mDestroyFunctions m1)(name := None)\<rparr>)
          }
      | _ \<Rightarrow> None)"

text \<open>The destructor deletes every entry of a copy of the table; \<open>names\<close> is the order in which it meets them.\<close>

fun mgr_destroy :: "string list \<Rightarrow> ('c, 'm) functor_mgr \<Rightarrow> ('c, 'm) functor_mgr option" where
  "mgr_destroy [] m = Some m"
| "mgr_destroy (name # names) m = do { m1 \<leftarrow> mgr_del name m; mgr_destroy names m1 }"

section \<open>A protocol\<close>

text \<open>
  Reading may throw, which the first protocol catches, or run into an assertion of the library it uses. An opened
  message yields the request id, the name of the function and the state the arguments are read from; a thrown one yields
  the id if it was read.
\<close>

datatype 's reading = Done 's | Thrown | Broken

datatype 's opened = Opened int string 's | OpenThrown "int option" | OpenBroken

record ('m, 's) rpc_protocol =
  pr_open :: "bytes \<Rightarrow> 's opened"
  pr_read :: "param_type \<Rightarrow> 'm rpc_arg \<Rightarrow> 's \<Rightarrow> 'm rpc_arg \<times> 's reading"
  pr_message :: "int \<Rightarrow> string \<Rightarrow> 'm rpc_arg list \<Rightarrow> bytes"
  pr_blank :: 'm

text \<open>
  \<^verbatim>\<open>Eval\<close>: each argument is cleared and read into the tuple of the function object; request information is made from
  its id. The first result is the tuple that remains, the second the arguments the function is called with.
\<close>

fun eval_args ::
  "('m, 's) rpc_protocol \<Rightarrow> param_type list \<Rightarrow> 'm rpc_arg list \<Rightarrow> int \<Rightarrow> 's \<Rightarrow> 'm rpc_arg list \<times> 'm rpc_arg list reading" where
  "eval_args pr [] tup rid s = (tup, Done [])"
| "eval_args pr (PInfo # ps) (a # tup) rid s =
     (case eval_args pr ps tup rid s of (tup', r) \<Rightarrow> (a # tup', map_reading ((#) (ArgInfo rid)) r))"
| "eval_args pr (p # ps) (a # tup) rid s =
     (case pr_read pr p (clear_arg p a) s of
        (a', Done s') \<Rightarrow> (case eval_args pr ps tup rid s' of (tup', r) \<Rightarrow> (a' # tup', map_reading ((#) a') r))
      | (a', Thrown) \<Rightarrow> (a' # tup, Thrown)
      | (a', Broken) \<Rightarrow> (a' # tup, Broken))"
| "eval_args pr (p # ps) [] rid s = ([], Broken)"

text \<open>\<open>app\<close> runs a function object on its arguments; an unregistered name fails the assertion.\<close>

definition invoke ::
  "('m, 's) rpc_protocol \<Rightarrow> ('c \<Rightarrow> 'm rpc_arg list \<Rightarrow> 'st \<Rightarrow> 'st option) \<Rightarrow> param_type list \<Rightarrow> nat \<Rightarrow> 's \<Rightarrow>
   ('c, 'm) functor_mgr \<Rightarrow> 'st \<Rightarrow> (('c, 'm) functor_mgr \<times> 'st) option" where
  "invoke pr app ps p s m st =
     do {
       f \<leftarrow> fm_heap m p;
       if fn_params f = ps then
         (case eval_args pr ps (fn_tuple f) (mRequestID m) s of
            (tup, r) \<Rightarrow>
              let m1 = m\<lparr>fm_heap := (fm_heap m)(p \<mapsto> f\<lparr>fn_request := mRequestID m, fn_tuple := tup\<rparr>)\<rparr>
              in (case r of
                    Done args \<Rightarrow> do { st1 \<leftarrow> app (fn_object f) args st; Some (m1, st1) }
                  | Thrown \<Rightarrow> Some (m1, st)
                  | Broken \<Rightarrow> None))
       else None
     }"

definition execute ::
  "('m, 's) rpc_protocol \<Rightarrow> ('c \<Rightarrow> 'm rpc_arg list \<Rightarrow> 'st \<Rightarrow> 'st option) \<Rightarrow> ('c, 'm) functor_mgr \<Rightarrow> bytes \<Rightarrow> 'st \<Rightarrow>
   (('c, 'm) functor_mgr \<times> 'st) option" where
  "execute pr app m str st =
     (case pr_open pr str of
        OpenBroken \<Rightarrow> None
      | OpenThrown None \<Rightarrow> Some (m, st)
      | OpenThrown (Some rid) \<Rightarrow> Some (m\<lparr>mRequestID := rid\<rparr>, st)
      | Opened rid name s \<Rightarrow>
          do {
            ps \<leftarrow> mWrapFunctions m name;
            p \<leftarrow> mRealFunctionPtr m name;
            invoke pr app ps p s (m\<lparr>mRequestID := rid\<rparr>) st
          })"

section \<open>The service\<close>

definition c_str :: "string \<Rightarrow> string" where
  "c_str s = takeWhile (\<lambda>c. c \<noteq> CHR 0x00) s"

definition to_string_int :: "int \<Rightarrow> string" where
  "to_string_int i = (if i < 0 then CHR ''-'' # to_string (nat (- i)) else to_string (nat i))"

datatype 'f rpc_fun = RpcReply | User 'f

record ('f, 'm) rpc_service =
  mResponseCallbacks :: "('f, 'm) functor_mgr"
  mRpcFunctions :: "('f rpc_fun, 'm) functor_mgr"
  mNextID :: int

definition RPC_REPLY_STR :: string where
  "RPC_REPLY_STR = ''rpc_reply''"

definition rpc_def :: "('m, 's) rpc_protocol \<Rightarrow> string \<Rightarrow> 'f rpc_fun \<Rightarrow> param_type list \<Rightarrow> ('f, 'm) rpc_service \<Rightarrow> ('f, 'm) rpc_service option" where
  "rpc_def pr funname f ps sv =
     do { m \<leftarrow> insertFunction (pr_blank pr) (c_str funname) f ps (mRpcFunctions sv); Some (sv\<lparr>mRpcFunctions := m\<rparr>) }"

definition rpc_service_new :: "('m, 's) rpc_protocol \<Rightarrow> ('f, 'm) rpc_service option" where
  "rpc_service_new pr =
     rpc_def pr RPC_REPLY_STR RpcReply [PVal (TAtom (KInt 32)), PVal (TAtom KStr)]
       \<lparr>mResponseCallbacks = functor_mgr_new, mRpcFunctions = functor_mgr_new, mNextID = 0\<rparr>"

definition makeNextID :: "('f, 'm) rpc_service \<Rightarrow> (int \<times> ('f, 'm) rpc_service) option" where
  "makeNextID sv = (if int_ok (mNextID sv + 1) then Some (mNextID sv + 1, sv\<lparr>mNextID := mNextID sv + 1\<rparr>) else None)"

text \<open>\<^verbatim>\<open>call\<close>: only the last argument may be a callback, here \<open>cb\<close>; its id takes the place of -1 in the message.\<close>

definition rpc_call ::
  "('m, 's) rpc_protocol \<Rightarrow> string \<Rightarrow> 'm rpc_arg list \<Rightarrow> ('f \<times> param_type list) option \<Rightarrow> ('f, 'm) rpc_service \<Rightarrow>
   (bytes \<times> ('f, 'm) rpc_service) option" where
  "rpc_call pr funname args cb sv =
     (case cb of
        None \<Rightarrow> Some (pr_message pr (- 1) (c_str funname) args, sv)
      | Some (f, ps) \<Rightarrow>
          do {
            (rid, sv1) \<leftarrow> makeNextID sv;
            m \<leftarrow> insertFunction (pr_blank pr) (to_string_int rid) f ps (mResponseCallbacks sv1);
            Some (pr_message pr rid (c_str funname) args, sv1\<lparr>mResponseCallbacks := m\<rparr>)
          })"

definition rpc_reply ::
  "('m, 's) rpc_protocol \<Rightarrow> int \<Rightarrow> 'm rpc_arg list \<Rightarrow> ('f \<times> param_type list) option \<Rightarrow> ('f, 'm) rpc_service \<Rightarrow>
   (bytes \<times> ('f, 'm) rpc_service) option" where
  "rpc_reply pr reqid args cb sv =
     do {
       (response, sv1) \<leftarrow> rpc_call pr (to_string_int reqid) args cb sv;
       rpc_call pr RPC_REPLY_STR [ArgVal (VAtom (AInt reqid)), ArgVal (VAtom (AStr response))] None sv1
     }"

definition handleResponse ::
  "('m, 's) rpc_protocol \<Rightarrow> ('f \<Rightarrow> 'm rpc_arg list \<Rightarrow> 'u \<Rightarrow> 'u) \<Rightarrow> ('f, 'm) functor_mgr \<Rightarrow> bytes \<Rightarrow> 'u \<Rightarrow>
   (('f, 'm) functor_mgr \<times> 'u) option" where
  "handleResponse pr user callbacks str u = execute pr (\<lambda>f args u. Some (user f args u)) callbacks str u"

text \<open>What the functions of the service do: the one of the constructor handles a reply and forgets its callback.\<close>

fun run_rpc_fun ::
  "('m, 's) rpc_protocol \<Rightarrow> ('f \<Rightarrow> 'm rpc_arg list \<Rightarrow> 'u \<Rightarrow> 'u) \<Rightarrow> 'f rpc_fun \<Rightarrow> 'm rpc_arg list \<Rightarrow>
   ('f, 'm) functor_mgr \<times> 'u \<Rightarrow> (('f, 'm) functor_mgr \<times> 'u) option" where
  "run_rpc_fun pr user (User f) args (callbacks, u) = Some (callbacks, user f args u)"
| "run_rpc_fun pr user RpcReply args (callbacks, u) =
     (case args of
        [ArgVal (VAtom (AInt req_id)), ArgVal (VAtom (AStr response))] \<Rightarrow>
          do {
            (callbacks1, u1) \<leftarrow> handleResponse pr user callbacks response u;
            callbacks2 \<leftarrow> mgr_del (to_string_int req_id) callbacks1;
            Some (callbacks2, u1)
          }
      | _ \<Rightarrow> None)"

definition handleRpc ::
  "('m, 's) rpc_protocol \<Rightarrow> ('f \<Rightarrow> 'm rpc_arg list \<Rightarrow> 'u \<Rightarrow> 'u) \<Rightarrow> ('f, 'm) rpc_service \<Rightarrow> bytes \<Rightarrow> 'u \<Rightarrow>
   (('f, 'm) rpc_service \<times> 'u) option" where
  "handleRpc pr user sv str u =
     do {
       (m, callbacks, u1) \<leftarrow> execute pr (run_rpc_fun pr user) (mRpcFunctions sv) str (mResponseCallbacks sv, u);
       Some (sv\<lparr>mRpcFunctions := m, mResponseCallbacks := callbacks\<rparr>, u1)
     }"


section \<open>Services of member functions\<close>

text \<open>
  \<^verbatim>\<open>MemberRpcService\<close> of \<^verbatim>\<open>MembeRrpc.h\<close>: a registered member function runs on the object that was set last and clears it; without
  an object the call is dropped. \<open>run\<close> is the member function on its object.
\<close>

definition setObject :: "'o \<Rightarrow> 'o option \<times> 'w \<Rightarrow> 'o option \<times> 'w" where
  "setObject p u = (Some p, snd u)"

definition member_call ::
  "('g \<Rightarrow> 'o \<Rightarrow> 'm rpc_arg list \<Rightarrow> 'w \<Rightarrow> 'w) \<Rightarrow> 'g \<Rightarrow> 'm rpc_arg list \<Rightarrow> 'o option \<times> 'w \<Rightarrow> 'o option \<times> 'w" where
  "member_call run callback args u =
     (case fst u of
        None \<Rightarrow> (None, snd u)
      | Some p \<Rightarrow> (None, run callback p args (snd u)))"

definition registerHandle ::
  "('m, 's) rpc_protocol \<Rightarrow> string \<Rightarrow> 'g \<Rightarrow> param_type list \<Rightarrow> ('g, 'm) rpc_service \<Rightarrow> ('g, 'm) rpc_service option" where
  "registerHandle pr name callback ps sv = rpc_def pr name (User callback) ps sv"

end
