(* ===== verification/Rpc_Contract.thy ===== *)
theory Rpc_Contract
  imports Rpc_Service
begin

text \<open>
  What the service of the remote procedure calls guarantees whatever protocol it uses. The tables of a
  manager refine a finite map from names to functions; \<open>rpc_codec\<close> is the contract a protocol has to keep: a message
  that was written opens with its name and id, and its arguments are read back one after the other.
\<close>

section \<open>The function tables as a map\<close>

definition fm_wf :: "('c, 'm) functor_mgr \<Rightarrow> bool" where
  "fm_wf m \<longleftrightarrow>
     mDestroyFunctions m = mWrapFunctions m \<and> dom (mWrapFunctions m) = dom (mRealFunctionPtr m) \<and>
     inj_on (mRealFunctionPtr m) (dom (mRealFunctionPtr m)) \<and> dom (fm_heap m) = ran (mRealFunctionPtr m) \<and>
     (\<forall>p \<in> dom (fm_heap m). p < fm_next m) \<and>
     (\<forall>name p. mRealFunctionPtr m name = Some p \<longrightarrow>
        (\<exists>f. fm_heap m p = Some f \<and> mWrapFunctions m name = Some (fn_params f) \<and> list_all2 arg_shape (fn_params f) (fn_tuple f)))"

definition fm_abs :: "('c, 'm) functor_mgr \<Rightarrow> string \<Rightarrow> ('c \<times> param_type list) option" where
  "fm_abs m name = do { p \<leftarrow> mRealFunctionPtr m name; f \<leftarrow> fm_heap m p; Some (fn_object f, fn_params f) }"

lemma fm_new: "fm_wf functor_mgr_new" "fm_abs functor_mgr_new = Map.empty"
  by (auto simp: fm_wf_def functor_mgr_new_def fm_abs_def)

lemma fm_request [simp]: "fm_wf (m\<lparr>mRequestID := i\<rparr>) = fm_wf m" "fm_abs (m\<lparr>mRequestID := i\<rparr>) = fm_abs m"
  by (auto simp: fm_wf_def fm_abs_def)

lemma fm_entry:
  assumes "fm_wf m" "fm_abs m name = Some (f, ps)"
  obtains p fn where "mRealFunctionPtr m name = Some p" "fm_heap m p = Some fn" "fn_object fn = f" "fn_params fn = ps"
    "mWrapFunctions m name = Some ps" "mDestroyFunctions m name = Some ps" "list_all2 arg_shape ps (fn_tuple fn)"
proof -
  obtain p fn where a: "mRealFunctionPtr m name = Some p" "fm_heap m p = Some fn" "fn_object fn = f" "fn_params fn = ps"
    using assms(2) by (auto simp: fm_abs_def split: Option.bind_splits)
  moreover have "mWrapFunctions m name = Some (fn_params fn)" "list_all2 arg_shape (fn_params fn) (fn_tuple fn)"
    using assms(1) a by (fastforce simp: fm_wf_def)+
  moreover have "mDestroyFunctions m name = mWrapFunctions m name" using assms(1) by (simp add: fm_wf_def)
  ultimately show ?thesis using that by simp
qed

lemma fm_missing:
  assumes "fm_wf m" "fm_abs m name = None"
  shows "mRealFunctionPtr m name = None" "mWrapFunctions m name = None" "mDestroyFunctions m name = None"
proof -
  show r: "mRealFunctionPtr m name = None"
  proof (rule ccontr)
    assume "mRealFunctionPtr m name \<noteq> None"
    then obtain p where "mRealFunctionPtr m name = Some p" by auto
    moreover from this obtain f where "fm_heap m p = Some f" using assms(1) by (fastforce simp: fm_wf_def)
    ultimately show False using assms(2) by (simp add: fm_abs_def)
  qed
  have d: "dom (mWrapFunctions m) = dom (mRealFunctionPtr m)" "mDestroyFunctions m = mWrapFunctions m" using assms(1) by (simp_all add: fm_wf_def)
  then show "mWrapFunctions m name = None" "mDestroyFunctions m name = None" using r by (auto simp: domIff)
qed

lemma insert_law:
  assumes wf: "fm_wf m"
  shows "fm_abs m name \<noteq> None \<Longrightarrow> insertFunction b name f ps m = None"
    and "fm_abs m name = None \<Longrightarrow> \<exists>m'. insertFunction b name f ps m = Some m' \<and> fm_wf m' \<and> fm_abs m' = (fm_abs m)(name \<mapsto> (f, ps))"
proof -
  assume "fm_abs m name \<noteq> None"
  then obtain f' ps' where "fm_abs m name = Some (f', ps')" by auto
  from fm_entry [OF wf this] have "mWrapFunctions m name = Some ps'" by metis
  then show "insertFunction b name f ps m = None" by (simp add: insertFunction_def Let_def)
next
  assume none: "fm_abs m name = None"
  note missing = fm_missing [OF wf none]
  define fn where "fn = \<lparr>fn_object = f, fn_tuple = map (new_arg b) ps, fn_request = - 1, fn_params = ps\<rparr>"
  define m' where "m' = m\<lparr>fm_heap := (fm_heap m)(fm_next m \<mapsto> fn), fm_next := fm_next m + 1,
    mWrapFunctions := (mWrapFunctions m)(name \<mapsto> ps), mDestroyFunctions := (mDestroyFunctions m)(name \<mapsto> ps),
    mRealFunctionPtr := (mRealFunctionPtr m)(name \<mapsto> fm_next m)\<rparr>"
  have run: "insertFunction b name f ps m = Some m'" using missing by (simp add: insertFunction_def Let_def m'_def fn_def)
  have fresh: "fm_next m \<notin> dom (fm_heap m)" using wf by (auto simp: fm_wf_def)
  have old: "p \<noteq> fm_next m" if "mRealFunctionPtr m n = Some p" for n p
    using wf fresh that by (auto simp: fm_wf_def ran_def)
  have shape: "list_all2 arg_shape ps (map (new_arg b) ps)" by (simp add: list_all2_conv_all_nth shape_new_arg)
  have "inj_on (mRealFunctionPtr m') (dom (mRealFunctionPtr m'))"
    using wf old by (auto simp: fm_wf_def m'_def inj_on_def split: if_splits dest: old)
  moreover have "dom (fm_heap m') = ran (mRealFunctionPtr m')" using wf missing(1) by (auto simp: fm_wf_def m'_def)
  ultimately have "fm_wf m'"
    using wf missing shape old unfolding fm_wf_def by (auto simp: m'_def fn_def less_Suc_eq split: if_splits)
  moreover have "fm_abs m' = (fm_abs m)(name \<mapsto> (f, ps))"
    using old by (auto simp: fm_abs_def m'_def fn_def fun_eq_iff split: Option.bind_splits)
  ultimately show "\<exists>m'. insertFunction b name f ps m = Some m' \<and> fm_wf m' \<and> fm_abs m' = (fm_abs m)(name \<mapsto> (f, ps))" using run by blast
qed

lemma del_law:
  assumes wf: "fm_wf m"
  shows "fm_abs m name = None \<Longrightarrow> mgr_del name m = None"
    and "fm_abs m name \<noteq> None \<Longrightarrow> \<exists>m'. mgr_del name m = Some m' \<and> fm_wf m' \<and> fm_abs m' = (fm_abs m)(name := None)"
proof -
  assume "fm_abs m name = None"
  from fm_missing [OF wf this] show "mgr_del name m = None" by (simp add: mgr_del_def)
next
  assume "fm_abs m name \<noteq> None"
  then obtain f ps where "fm_abs m name = Some (f, ps)" by auto
  from fm_entry [OF wf this] obtain p fn where e: "mRealFunctionPtr m name = Some p" "fm_heap m p = Some fn" "fn_params fn = ps"
    "mWrapFunctions m name = Some ps" "mDestroyFunctions m name = Some ps" by metis
  define m' where "m' = m\<lparr>fm_heap := (fm_heap m)(p := None), mWrapFunctions := (mWrapFunctions m)(name := None),
    mRealFunctionPtr := (mRealFunctionPtr m)(name := None), mDestroyFunctions := (mDestroyFunctions m)(name := None)\<rparr>"
  have run: "mgr_del name m = Some m'" using e by (simp add: mgr_del_def destroy_functor_def m'_def)
  have inj: "inj_on (mRealFunctionPtr m) (dom (mRealFunctionPtr m))" using wf by (simp add: fm_wf_def)
  have other: "q \<noteq> p" if "mRealFunctionPtr m n = Some q" "n \<noteq> name" for n q
    using inj_onD [OF inj, of n name] e(1) that by auto
  have "dom (fm_heap m') = ran (mRealFunctionPtr m')"
    using wf e(1) other by (auto simp: fm_wf_def m'_def ran_def) (metis (mono_tags, lifting) domI mem_Collect_eq option.inject)
  moreover have "inj_on (mRealFunctionPtr m') (dom (mRealFunctionPtr m'))" using inj by (auto simp: m'_def inj_on_def)
  ultimately have "fm_wf m'"
    using wf other e(1) unfolding fm_wf_def by (auto simp: m'_def ran_def split: if_splits)
  moreover have "fm_abs m' = (fm_abs m)(name := None)"
    using other by (auto simp: fm_abs_def m'_def fun_eq_iff split: Option.bind_splits)
  ultimately show "\<exists>m'. mgr_del name m = Some m' \<and> fm_wf m' \<and> fm_abs m' = (fm_abs m)(name := None)" using run by blast
qed

lemma destroy_law:
  assumes "fm_wf m" "distinct names" "set names = dom (fm_abs m)"
  shows "\<exists>m'. mgr_destroy names m = Some m' \<and> fm_wf m' \<and> fm_heap m' = Map.empty"
  using assms
proof (induction names arbitrary: m)
  case Nil
  have "mRealFunctionPtr m name = None" for name
  proof (rule fm_missing(1) [OF Nil.prems(1)])
    show "fm_abs m name = None" using Nil.prems(3) by (auto simp: domIff)
  qed
  then have "ran (mRealFunctionPtr m) = {}" by (simp add: ran_def)
  then have "dom (fm_heap m) = {}" using Nil.prems(1) by (simp add: fm_wf_def)
  then show ?case using Nil.prems(1) by simp
next
  case (Cons name names)
  have "name \<in> dom (fm_abs m)" using Cons.prems(3) by (metis list.set_intros(1))
  then have "fm_abs m name \<noteq> None" by blast
  from del_law(2) [OF Cons.prems(1) this] obtain m1 where m1: "mgr_del name m = Some m1" "fm_wf m1" "fm_abs m1 = (fm_abs m)(name := None)"
    by blast
  have "set names = dom (fm_abs m1)" using Cons.prems(2,3) m1(3) by auto
  from Cons.IH [OF m1(2) _ this] show ?case using Cons.prems(2) m1(1) by auto
qed

text \<open>Running a registered function leaves the tables and changes the tuple of its object only.\<close>

lemma put_tuple:
  assumes wf: "fm_wf m" and p: "mRealFunctionPtr m name = Some p" "fm_heap m p = Some fn" and shape: "list_all2 arg_shape (fn_params fn) tup"
  shows "fm_wf (m\<lparr>fm_heap := (fm_heap m)(p \<mapsto> fn\<lparr>fn_request := i, fn_tuple := tup\<rparr>)\<rparr>)"
    and "fm_abs (m\<lparr>fm_heap := (fm_heap m)(p \<mapsto> fn\<lparr>fn_request := i, fn_tuple := tup\<rparr>)\<rparr>) = fm_abs m"
proof -
  have inj: "inj_on (mRealFunctionPtr m) (dom (mRealFunctionPtr m))" using wf by (simp add: fm_wf_def)
  have only: "n = name" if "mRealFunctionPtr m n = Some p" for n using inj_onD [OF inj, of n name] p(1) that by auto
  have w: "mWrapFunctions m name = Some (fn_params fn)" using wf p by (fastforce simp: fm_wf_def)
  have "p \<in> dom (fm_heap m)" using p(2) by blast
  then show "fm_wf (m\<lparr>fm_heap := (fm_heap m)(p \<mapsto> fn\<lparr>fn_request := i, fn_tuple := tup\<rparr>)\<rparr>)"
    using wf shape only w unfolding fm_wf_def by (auto split: if_splits)
  show "fm_abs (m\<lparr>fm_heap := (fm_heap m)(p \<mapsto> fn\<lparr>fn_request := i, fn_tuple := tup\<rparr>)\<rparr>) = fm_abs m"
    using p by (auto simp: fm_abs_def fun_eq_iff split: Option.bind_splits)
qed


section \<open>Matching arguments\<close>

fun args_match :: "param_type list \<Rightarrow> 'm rpc_arg list \<Rightarrow> bool" where
  "args_match [] args \<longleftrightarrow> args = []"
| "args_match (PInfo # ps) args \<longleftrightarrow> args_match ps args"
| "args_match (p # ps) args \<longleftrightarrow> (\<exists>a as. args = a # as \<and> arg_type p a \<and> args_match ps as)"

text \<open>What a function with the parameters \<open>ps\<close> gets for the arguments of a call.\<close>

fun with_info :: "int \<Rightarrow> param_type list \<Rightarrow> 'm rpc_arg list \<Rightarrow> 'm rpc_arg list" where
  "with_info rid (PInfo # ps) args = ArgInfo rid # with_info rid ps args"
| "with_info rid (p # ps) (a # as) = a # with_info rid ps as"
| "with_info rid _ _ = []"

fun param_clear :: "param_type \<Rightarrow> bool" where
  "param_clear (PVal t) \<longleftrightarrow> clearable t"
| "param_clear p \<longleftrightarrow> True"

lemma clear_arg_shape: "arg_shape p a \<Longrightarrow> arg_shape p (clear_arg p a)"
  by (cases p) (auto simp: shape_clear)

section \<open>The contract of a protocol\<close>

text \<open>
  \<open>carries s args\<close>: the reading state \<open>s\<close> stands before the encoding of \<open>args\<close>. \<open>sendable\<close> are the arguments whose sizes
  the encoding can represent, \<open>named\<close> the names.
\<close>

locale rpc_reader =
  fixes pr :: "('m, 's) rpc_protocol"
  assumes read_shape: "arg_shape p a \<Longrightarrow> arg_shape p (fst (pr_read pr p a s))"
begin

lemma eval_shape: "list_all2 arg_shape ps tup \<Longrightarrow> list_all2 arg_shape ps (fst (eval_args pr ps tup rid s))"
proof (induction ps arbitrary: tup s)
  case (Cons p ps)
  then obtain a tup' where tup: "tup = a # tup'" "arg_shape p a" "list_all2 arg_shape ps tup'" by (auto simp: list_all2_Cons1)
  obtain a' r where rd: "pr_read pr p (clear_arg p a) s = (a', r)" by (cases "pr_read pr p (clear_arg p a) s")
  have "arg_shape p a'" using read_shape [OF clear_arg_shape [OF tup(2)], of s] rd by simp
  moreover have "list_all2 arg_shape ps (fst (eval_args pr ps tup' rid s'))" for s' using Cons.IH [OF tup(3)] .
  ultimately show ?case using tup rd by (cases p; cases r) (auto simp: case_prod_unfold)
qed simp

lemma execute_tables:
  assumes "fm_wf m" "execute pr app m str st = Some (m', st')"
  shows "fm_wf m'" "fm_abs m' = fm_abs m"
proof -
  have "fm_wf m' \<and> fm_abs m' = fm_abs m"
  proof (cases "pr_open pr str")
    case (Opened rid name s)
    then obtain ps p fn where e: "mRealFunctionPtr m name = Some p" "fm_heap m p = Some fn" "fn_params fn = ps"
      and run: "invoke pr app ps p s (m\<lparr>mRequestID := rid\<rparr>) st = Some (m', st')"
      using assms(2) by (auto simp: execute_def invoke_def split: Option.bind_splits if_splits)
    have "list_all2 arg_shape ps (fn_tuple fn)" using assms(1) e by (fastforce simp: fm_wf_def)
    from eval_shape [OF this] obtain tup r where eval: "eval_args pr ps (fn_tuple fn) rid s = (tup, r)" and tup: "list_all2 arg_shape ps tup"
      by (metis fst_conv surj_pair)
    have "m' = m\<lparr>mRequestID := rid, fm_heap := (fm_heap m)(p \<mapsto> fn\<lparr>fn_request := rid, fn_tuple := tup\<rparr>)\<rparr>"
      using run e eval by (auto simp: invoke_def Let_def split: reading.splits Option.bind_splits)
    then show ?thesis using put_tuple [of "m\<lparr>mRequestID := rid\<rparr>" name p fn tup rid] assms(1) e tup by simp
  qed (use assms in \<open>auto simp: execute_def split: option.splits\<close>)
  then show "fm_wf m'" "fm_abs m' = fm_abs m" by simp_all
qed

end

locale rpc_codec = rpc_reader +
  fixes carries :: "'b \<Rightarrow> 'a rpc_arg list \<Rightarrow> bool" and sendable :: "'a rpc_arg \<Rightarrow> bool" and named :: "string \<Rightarrow> bool"
    and readable :: "param_type \<Rightarrow> bool"
  assumes open_message:
    "int_ok rid \<Longrightarrow> named name \<Longrightarrow> list_all sendable args \<Longrightarrow>
     \<exists>s. pr_open pr (pr_message pr rid name args) = Opened rid name s \<and> carries s args"
    and read_arg:
    "carries s (a # args) \<Longrightarrow> arg_type p a \<Longrightarrow> p \<noteq> PInfo \<Longrightarrow> readable p \<Longrightarrow> arg_shape p old \<Longrightarrow>
     \<exists>s'. pr_read pr p (clear_arg p old) s = (a, Done s') \<and> carries s' args"
    and read_reply: "readable (PVal (TAtom (KInt 32)))" "readable (PVal (TAtom KStr))"
begin

lemma eval_delivers:
  assumes "carries s args" "args_match ps args" "list_all readable ps" "list_all2 arg_shape ps tup"
  shows "\<exists>tup'. eval_args pr ps tup rid s = (tup', Done (with_info rid ps args))"
  using assms
proof (induction ps arbitrary: s args tup)
  case Nil
  then show ?case by simp
next
  case (Cons p ps)
  then obtain b tup' where tup: "tup = b # tup'" "arg_shape p b" "list_all2 arg_shape ps tup'" by (auto simp: list_all2_Cons1)
  show ?case
  proof (cases "p = PInfo")
    case True
    then obtain tup2 where "eval_args pr ps tup' rid s = (tup2, Done (with_info rid ps args))" using Cons tup(3) by fastforce
    then show ?thesis using True tup(1) by simp
  next
    case False
    then obtain a as where args: "args = a # as" "arg_type p a" "args_match ps as" using Cons.prems(2) by (cases p) auto
    have clear: "readable p" "list_all readable ps" using Cons.prems(3) by simp_all
    have "carries s (a # as)" using Cons.prems(1) args(1) by simp
    from read_arg [OF this args(2) False clear(1) tup(2)] obtain s' where s': "pr_read pr p (clear_arg p b) s = (a, Done s')" "carries s' as"
      by blast
    obtain tup2 where "eval_args pr ps tup' rid s' = (tup2, Done (with_info rid ps as))" using Cons.IH [OF s'(2) args(3) clear(2) tup(3)] by blast
    then show ?thesis using False tup(1) args(1) s'(1) by (cases p) simp_all
  qed
qed

lemma execute_delivers:
  assumes wf: "fm_wf m" and f: "fm_abs m name = Some (f, ps)" and msg: "int_ok rid" "named name" "list_all sendable args"
    and match: "args_match ps args" "list_all readable ps"
  shows "\<exists>m'. execute pr app m (pr_message pr rid name args) st = map_option (Pair m') (app f (with_info rid ps args) st) \<and>
    fm_wf m' \<and> fm_abs m' = fm_abs m"
proof -
  obtain s where s: "pr_open pr (pr_message pr rid name args) = Opened rid name s" "carries s args" using open_message [OF msg] by blast
  obtain p fn where e: "mRealFunctionPtr m name = Some p" "fm_heap m p = Some fn" "fn_object fn = f" "fn_params fn = ps"
    "mWrapFunctions m name = Some ps" "list_all2 arg_shape ps (fn_tuple fn)" using fm_entry [OF wf f] by metis
  obtain tup where eval: "eval_args pr ps (fn_tuple fn) rid s = (tup, Done (with_info rid ps args))"
    using eval_delivers [OF s(2) match e(6)] by blast
  then have tup: "list_all2 arg_shape ps tup" using eval_shape [OF e(6), of rid s] by simp
  define m' where "m' = m\<lparr>mRequestID := rid, fm_heap := (fm_heap m)(p \<mapsto> fn\<lparr>fn_request := rid, fn_tuple := tup\<rparr>)\<rparr>"
  have "execute pr app m (pr_message pr rid name args) st = map_option (Pair m') (app f (with_info rid ps args) st)"
    using s(1) e eval by (cases "app f (with_info rid ps args) st") (simp_all add: execute_def invoke_def Let_def m'_def)
  moreover have "fm_wf m' \<and> fm_abs m' = fm_abs m"
    using put_tuple [of "m\<lparr>mRequestID := rid\<rparr>" name p fn tup rid] wf e(1,2,4) tup by (simp add: m'_def)
  ultimately show ?thesis by blast
qed

end


section \<open>Names\<close>

lemma to_string_int_inj: "to_string_int i = to_string_int j \<longleftrightarrow> i = j"
proof
  assume eq: "to_string_int i = to_string_int j"
  have digits: "to_string n \<noteq> []" "hd (to_string n) \<noteq> CHR ''-''" "dec_value (to_string n) = n" for n
  proof -
    have a: "to_string n \<noteq> []" "\<forall>c \<in> set (to_string n). is_dec c" "dec_value (to_string n) = n" using to_string_dec by auto
    then have "is_dec (hd (to_string n))" by simp
    then have "hd (to_string n) \<noteq> CHR ''-''" by (auto simp: is_dec_def)
    then show "to_string n \<noteq> []" "hd (to_string n) \<noteq> CHR ''-''" "dec_value (to_string n) = n" using a by simp_all
  qed
  have inj: "to_string m = to_string n \<Longrightarrow> m = n" for m n using digits(3) by metis
  have minus: "to_string m \<noteq> CHR ''-'' # x" for m x using digits(2) [of m] by auto
  show "i = j" using eq by (auto simp: to_string_int_def minus minus [THEN not_sym] split: if_splits dest!: inj)
qed simp

lemma to_string_int_no_nul: "CHR 0x00 \<notin> set (to_string_int i)"
proof -
  have "is_dec c \<Longrightarrow> c \<noteq> CHR 0x00" for c by (auto simp: is_dec_def)
  then have "CHR 0x00 \<notin> set (to_string n)" for n using to_string_dec [of n] by blast
  then show ?thesis by (simp add: to_string_int_def)
qed

lemma c_str_same: "CHR 0x00 \<notin> set s \<Longrightarrow> c_str s = s"
  by (auto simp: c_str_def takeWhile_eq_all_conv)

section \<open>The service\<close>

definition reply_params :: "param_type list" where
  "reply_params = [PVal (TAtom (KInt 32)), PVal (TAtom KStr)]"

definition svc_wf :: "('f, 'm) rpc_service \<Rightarrow> bool" where
  "svc_wf sv \<longleftrightarrow>
     fm_wf (mResponseCallbacks sv) \<and> fm_wf (mRpcFunctions sv) \<and> 0 \<le> mNextID sv \<and> int_ok (mNextID sv) \<and>
     (\<forall>name. fm_abs (mResponseCallbacks sv) name \<noteq> None \<longrightarrow> (\<exists>i. 0 < i \<and> i \<le> mNextID sv \<and> name = to_string_int i)) \<and>
     fm_abs (mRpcFunctions sv) RPC_REPLY_STR = Some (RpcReply, reply_params) \<and>
     (\<forall>name ps. fm_abs (mRpcFunctions sv) name = Some (RpcReply, ps) \<longrightarrow> name = RPC_REPLY_STR)"

text \<open>The callbacks a service waits to run, by the id of their call, and the functions it offers.\<close>

definition pending :: "('f, 'm) rpc_service \<Rightarrow> int \<Rightarrow> ('f \<times> param_type list) option" where
  "pending sv i = fm_abs (mResponseCallbacks sv) (to_string_int i)"

definition offered :: "('f, 'm) rpc_service \<Rightarrow> string \<Rightarrow> ('f rpc_fun \<times> param_type list) option" where
  "offered sv = fm_abs (mRpcFunctions sv)"

lemma pending_id: "svc_wf sv \<Longrightarrow> pending sv i \<noteq> None \<Longrightarrow> 0 < i \<and> i \<le> mNextID sv"
  unfolding pending_def svc_wf_def using to_string_int_inj by metis

lemma new_service: "\<exists>sv :: ('f, 'm) rpc_service. rpc_service_new pr = Some sv \<and> svc_wf sv \<and> pending sv = Map.empty"
proof -
  have nul: "c_str RPC_REPLY_STR = RPC_REPLY_STR" by (simp add: c_str_same RPC_REPLY_STR_def)
  from insert_law(2) [OF fm_new(1), of RPC_REPLY_STR "pr_blank pr" "RpcReply :: 'f rpc_fun" reply_params] obtain m where
    m: "insertFunction (pr_blank pr) RPC_REPLY_STR (RpcReply :: 'f rpc_fun) reply_params functor_mgr_new = Some m" "fm_wf m"
      "fm_abs m = [RPC_REPLY_STR \<mapsto> (RpcReply, reply_params)]" by (auto simp: fm_new(2))
  then show ?thesis
    using nul by (auto simp: fm_new rpc_service_new_def rpc_def_def reply_params_def svc_wf_def pending_def int_ok_def fun_eq_iff split: if_splits)
qed

lemma def_law:
  assumes wf: "svc_wf sv" and free: "offered sv (c_str name) = None"
  shows "\<exists>sv'. rpc_def pr name (User f) ps sv = Some sv' \<and> svc_wf sv' \<and> pending sv' = pending sv \<and>
    mNextID sv' = mNextID sv \<and> offered sv' = (offered sv)(c_str name \<mapsto> (User f, ps))"
proof -
  have "fm_wf (mRpcFunctions sv)" using wf by (simp add: svc_wf_def)
  from insert_law(2) [OF this, of "c_str name" "pr_blank pr" "User f" ps] free obtain m where
    m: "insertFunction (pr_blank pr) (c_str name) (User f) ps (mRpcFunctions sv) = Some m" "fm_wf m"
      "fm_abs m = (offered sv)(c_str name \<mapsto> (User f, ps))" by (auto simp: offered_def)
  moreover have "c_str name \<noteq> RPC_REPLY_STR" using wf free by (auto simp: svc_wf_def offered_def)
  ultimately show ?thesis using wf by (auto simp: rpc_def_def svc_wf_def pending_def offered_def fun_eq_iff)
qed

text \<open>A call with a callback gets an id no waiting callback has, so the assertion that the name is new holds.\<close>

lemma call_law:
  assumes wf: "svc_wf sv" and fresh: "int_ok (mNextID sv + 1)"
  shows "\<exists>sv'. rpc_call pr name args (Some (f, ps)) sv = Some (pr_message pr (mNextID sv + 1) (c_str name) args, sv') \<and> svc_wf sv' \<and>
    mNextID sv' = mNextID sv + 1 \<and> pending sv (mNextID sv + 1) = None \<and>
    pending sv' = (pending sv)(mNextID sv + 1 \<mapsto> (f, ps)) \<and> offered sv' = offered sv"
proof -
  define i where "i = mNextID sv + 1"
  have none: "pending sv i = None"
  proof (rule ccontr)
    assume "pending sv i \<noteq> None"
    from pending_id [OF wf this] show False by (simp add: i_def)
  qed
  have "fm_wf (mResponseCallbacks sv)" using wf by (simp add: svc_wf_def)
  from insert_law(2) [OF this, of "to_string_int i" "pr_blank pr" f ps] none obtain m where
    m: "insertFunction (pr_blank pr) (to_string_int i) f ps (mResponseCallbacks sv) = Some m" "fm_wf m"
      "fm_abs m = (fm_abs (mResponseCallbacks sv))(to_string_int i \<mapsto> (f, ps))" by (auto simp: pending_def)
  define sv' where "sv' = sv\<lparr>mNextID := i, mResponseCallbacks := m\<rparr>"
  have run: "rpc_call pr name args (Some (f, ps)) sv = Some (pr_message pr i (c_str name) args, sv')"
    using fresh m(1) by (simp add: rpc_call_def makeNextID_def i_def sv'_def)
  have "\<exists>j. 0 < j \<and> j \<le> i \<and> n = to_string_int j" if "fm_abs m n \<noteq> None" for n
  proof (cases "n = to_string_int i")
    case True
    then show ?thesis using wf by (auto simp: svc_wf_def i_def intro!: exI [of _ i])
  next
    case False
    then have "fm_abs (mResponseCallbacks sv) n \<noteq> None" using that m(3) by simp
    then obtain j where "0 < j" "j \<le> mNextID sv" "n = to_string_int j" using wf unfolding svc_wf_def by blast
    then show ?thesis by (auto simp: i_def intro!: exI [of _ j])
  qed
  then have "svc_wf sv'" using wf m(2) fresh by (simp add: svc_wf_def sv'_def i_def)
  moreover have "pending sv' = (pending sv)(i \<mapsto> (f, ps))"
    using m(3) by (auto simp: pending_def sv'_def fun_eq_iff to_string_int_inj)
  ultimately show ?thesis using run none by (auto simp: sv'_def i_def offered_def)
qed

context rpc_reader
begin

lemma reply_tables:
  assumes "fm_wf cbs" "run_rpc_fun pr user g args (cbs, u) = Some (cbs', u')"
  shows "fm_wf cbs'" "fm_abs cbs' name \<noteq> None \<Longrightarrow> fm_abs cbs name \<noteq> None"
proof -
  have "fm_wf cbs' \<and> (fm_abs cbs' name \<noteq> None \<longrightarrow> fm_abs cbs name \<noteq> None)"
  proof (cases g)
    case RpcReply
    then obtain i r cbs1 where r: "handleResponse pr user cbs r u = Some (cbs1, u')" "mgr_del (to_string_int i) cbs1 = Some cbs'"
      using assms(2) by (auto split: list.splits rpc_arg.splits val.splits atom.splits Option.bind_splits)
    have c: "fm_wf cbs1" "fm_abs cbs1 = fm_abs cbs" using execute_tables [OF assms(1)] r(1) by (auto simp: handleResponse_def)
    show ?thesis using del_law [OF c(1), of "to_string_int i"] r(2) c(2) by (cases "fm_abs cbs1 (to_string_int i)") (auto split: if_splits)
  qed (use assms in auto)
  then show "fm_wf cbs'" "fm_abs cbs' name \<noteq> None \<Longrightarrow> fm_abs cbs name \<noteq> None" by simp_all
qed

text \<open>Whatever a message does, it keeps the tables in order.\<close>

lemma execute_state:
  assumes "execute pr app m str st = Some (m', st')"
  shows "st' = st \<or> (\<exists>f args. app f args st = Some st')"
  using assms
  by (auto simp: execute_def invoke_def Let_def split: opened.splits option.splits Option.bind_splits if_splits prod.splits reading.splits)

lemma handle_wf:
  assumes wf: "svc_wf sv" and run: "handleRpc pr user sv str u = Some (sv', u')"
  shows "svc_wf sv'" "mNextID sv' = mNextID sv" "offered sv' = offered sv" "pending sv' i \<noteq> None \<Longrightarrow> pending sv i \<noteq> None"
proof -
  obtain m cbs where ex: "execute pr (run_rpc_fun pr user) (mRpcFunctions sv) str (mResponseCallbacks sv, u) = Some (m, cbs, u')"
    and sv': "sv' = sv\<lparr>mRpcFunctions := m, mResponseCallbacks := cbs\<rparr>" using run by (auto simp: handleRpc_def split: Option.bind_splits)
  have wfs: "fm_wf (mResponseCallbacks sv)" "fm_wf (mRpcFunctions sv)" using wf by (simp_all add: svc_wf_def)
  have m: "fm_wf m" "fm_abs m = fm_abs (mRpcFunctions sv)" using execute_tables [OF wfs(2) ex] by simp_all
  have "fm_wf cbs \<and> (\<forall>name. fm_abs cbs name \<noteq> None \<longrightarrow> fm_abs (mResponseCallbacks sv) name \<noteq> None)"
    using execute_state [OF ex]
  proof (elim disjE exE)
    fix f args
    assume r: "run_rpc_fun pr user f args (mResponseCallbacks sv, u) = Some (cbs, u')"
    show ?thesis using reply_tables [OF wfs(1) r] by simp
  qed (use wfs(1) in simp)
  then have cbs: "fm_wf cbs" "fm_abs cbs name \<noteq> None \<Longrightarrow> fm_abs (mResponseCallbacks sv) name \<noteq> None" for name by simp_all
  show "svc_wf sv'" using wf m cbs unfolding svc_wf_def sv' by simp
  show "mNextID sv' = mNextID sv" "offered sv' = offered sv" using m(2) by (simp_all add: sv' offered_def)
  show "pending sv' i \<noteq> None \<Longrightarrow> pending sv i \<noteq> None" using cbs(2) by (simp add: pending_def sv')
qed

end

context rpc_codec
begin

lemma handle_call:
  assumes wf: "svc_wf sv" and f: "offered sv name = Some (User f, ps)" and msg: "int_ok rid" "named name" "list_all sendable args"
    and match: "args_match ps args" "list_all readable ps"
  shows "\<exists>sv'. handleRpc pr user sv (pr_message pr rid name args) u = Some (sv', user f (with_info rid ps args) u) \<and>
    svc_wf sv' \<and> mNextID sv' = mNextID sv \<and> pending sv' = pending sv \<and> offered sv' = offered sv"
proof -
  have "fm_wf (mRpcFunctions sv)" using wf by (simp add: svc_wf_def)
  from execute_delivers [OF this f [unfolded offered_def] msg match, of "run_rpc_fun pr user" "(mResponseCallbacks sv, u)"] obtain m where
    "execute pr (run_rpc_fun pr user) (mRpcFunctions sv) (pr_message pr rid name args) (mResponseCallbacks sv, u) =
       Some (m, mResponseCallbacks sv, user f (with_info rid ps args) u)" by auto
  then have run: "handleRpc pr user sv (pr_message pr rid name args) u =
      Some (sv\<lparr>mRpcFunctions := m\<rparr>, user f (with_info rid ps args) u)" by (simp add: handleRpc_def)
  then show ?thesis using handle_wf [OF wf run] by (auto simp: pending_def fun_eq_iff)
qed

end

definition reply_message :: "('m, 's) rpc_protocol \<Rightarrow> int \<Rightarrow> 'm rpc_arg list \<Rightarrow> bytes" where
  "reply_message pr i results =
     pr_message pr (- 1) RPC_REPLY_STR [ArgVal (VAtom (AInt i)), ArgVal (VAtom (AStr (pr_message pr (- 1) (to_string_int i) results)))]"

lemma reply_law: "rpc_reply pr i results None sv = Some (reply_message pr i results, sv)"
  by (simp add: rpc_reply_def rpc_call_def reply_message_def c_str_same to_string_int_no_nul) (simp add: c_str_same RPC_REPLY_STR_def)

context rpc_codec
begin

text \<open>A reply reaches the function of the constructor, which opens the message inside.\<close>

lemma reply_opens:
  assumes wf: "svc_wf sv" and i: "int_ok i" and named: "named RPC_REPLY_STR"
    and send: "sendable (ArgVal (VAtom (AInt i)))" "sendable (ArgVal (VAtom (AStr (pr_message pr (- 1) (to_string_int i) results))))"
  shows "\<exists>m. handleRpc pr user sv (reply_message pr i results) u =
      map_option (\<lambda>(cbs, u'). (sv\<lparr>mRpcFunctions := m, mResponseCallbacks := cbs\<rparr>, u'))
        (run_rpc_fun pr user RpcReply [ArgVal (VAtom (AInt i)), ArgVal (VAtom (AStr (pr_message pr (- 1) (to_string_int i) results)))]
          (mResponseCallbacks sv, u))"
proof -
  define args where "args = [ArgVal (VAtom (AInt i)), ArgVal (VAtom (AStr (pr_message pr (- 1) (to_string_int i) results))) :: 'a rpc_arg]"
  have "fm_wf (mRpcFunctions sv)" "fm_abs (mRpcFunctions sv) RPC_REPLY_STR = Some (RpcReply, reply_params)" using wf by (simp_all add: svc_wf_def)
  moreover have "int_ok (- 1)" by (simp add: int_ok_def)
  moreover have "list_all sendable args" using send by (simp add: args_def)
  moreover have "args_match reply_params args" using i by (simp add: args_def reply_params_def int_ok_def)
  moreover have "list_all readable reply_params" by (simp add: reply_params_def read_reply)
  ultimately obtain m where "execute pr (run_rpc_fun pr user) (mRpcFunctions sv) (pr_message pr (- 1) RPC_REPLY_STR args) (mResponseCallbacks sv, u) =
      map_option (Pair m) (run_rpc_fun pr user RpcReply (with_info (- 1) reply_params args) (mResponseCallbacks sv, u))"
    using execute_delivers named by metis
  moreover have "with_info (- 1) reply_params args = args" by (simp add: args_def reply_params_def)
  ultimately show ?thesis
    by (auto simp: handleRpc_def reply_message_def args_def map_option_case split: option.splits intro!: exI [of _ m])
qed

lemma handle_reply:
  assumes wf: "svc_wf sv" and i: "int_ok i" and named: "named RPC_REPLY_STR" "named (to_string_int i)"
    and send: "sendable (ArgVal (VAtom (AInt i)))" "sendable (ArgVal (VAtom (AStr (pr_message pr (- 1) (to_string_int i) results))))"
      "list_all sendable results"
  shows "pending sv i = Some (f, ps) \<Longrightarrow> args_match ps results \<Longrightarrow> list_all readable ps \<Longrightarrow>
    \<exists>sv'. handleRpc pr user sv (reply_message pr i results) u = Some (sv', user f (with_info (- 1) ps results) u) \<and>
      svc_wf sv' \<and> mNextID sv' = mNextID sv \<and> pending sv' = (pending sv)(i := None) \<and> offered sv' = offered sv"
    and "pending sv i = None \<Longrightarrow> handleRpc pr user sv (reply_message pr i results) u = None"
proof -
  define cbs where "cbs = mResponseCallbacks sv"
  define inner where "inner = pr_message pr (- 1) (to_string_int i) results"
  have wfc: "fm_wf cbs" using wf by (simp add: svc_wf_def cbs_def)
  obtain m where run: "handleRpc pr user sv (reply_message pr i results) u =
      map_option (\<lambda>(cbs, u'). (sv\<lparr>mRpcFunctions := m, mResponseCallbacks := cbs\<rparr>, u'))
        (run_rpc_fun pr user RpcReply [ArgVal (VAtom (AInt i)), ArgVal (VAtom (AStr inner))] (cbs, u))"
    using reply_opens [OF wf i named(1) send(1,2), where user = user and u = u, folded inner_def cbs_def] by blast
  have one: "int_ok (- 1)" by (simp add: int_ok_def)
  {
    assume none: "pending sv i = None"
    obtain s where "pr_open pr inner = Opened (- 1) (to_string_int i) s" using open_message [OF one named(2) send(3)] by (auto simp: inner_def)
    moreover have "mWrapFunctions cbs (to_string_int i) = None" using fm_missing(2) [OF wfc] none by (simp add: pending_def cbs_def)
    ultimately show "handleRpc pr user sv (reply_message pr i results) u = None"
      using run by (simp add: handleResponse_def execute_def)
  }
  assume f: "pending sv i = Some (f, ps)" and match: "args_match ps results" "list_all readable ps"
  from execute_delivers [OF wfc f [unfolded pending_def, folded cbs_def] one named(2) send(3) match, of "\<lambda>f args u. Some (user f args u)" u]
  obtain cbs1 where c1: "handleResponse pr user cbs inner u = Some (cbs1, user f (with_info (- 1) ps results) u)"
    "fm_wf cbs1" "fm_abs cbs1 = fm_abs cbs" by (auto simp: handleResponse_def inner_def)
  then have "fm_abs cbs1 (to_string_int i) \<noteq> None" using f by (simp add: pending_def cbs_def)
  from del_law(2) [OF c1(2) this] obtain cbs2 where c2: "mgr_del (to_string_int i) cbs1 = Some cbs2" "fm_abs cbs2 = (fm_abs cbs)(to_string_int i := None)"
    using c1(3) by auto
  define sv' where "sv' = sv\<lparr>mRpcFunctions := m, mResponseCallbacks := cbs2\<rparr>"
  have run': "handleRpc pr user sv (reply_message pr i results) u = Some (sv', user f (with_info (- 1) ps results) u)"
    using run c1(1) c2(1) by (simp add: sv'_def)
  have "pending sv' = (pending sv)(i := None)"
    using c2(2) by (auto simp: pending_def sv'_def cbs_def fun_eq_iff to_string_int_inj)
  then show "\<exists>sv'. handleRpc pr user sv (reply_message pr i results) u = Some (sv', user f (with_info (- 1) ps results) u) \<and>
      svc_wf sv' \<and> mNextID sv' = mNextID sv \<and> pending sv' = (pending sv)(i := None) \<and> offered sv' = offered sv"
    using run' handle_wf [OF wf run'] by blast
qed

end


section \<open>Reachable services\<close>

inductive svc_reach ::
  "('m, 's) rpc_protocol \<Rightarrow> ('f \<Rightarrow> 'm rpc_arg list \<Rightarrow> 'u \<Rightarrow> 'u) \<Rightarrow> ('f, 'm) rpc_service \<Rightarrow> bool"
  for pr user where
  svc_new: "rpc_service_new pr = Some sv \<Longrightarrow> svc_reach pr user sv"
| svc_def: "svc_reach pr user sv \<Longrightarrow> rpc_def pr name (User f) ps sv = Some sv' \<Longrightarrow> svc_reach pr user sv'"
| svc_call: "svc_reach pr user sv \<Longrightarrow> rpc_call pr name args cb sv = Some (msg, sv') \<Longrightarrow> svc_reach pr user sv'"
| svc_handle: "svc_reach pr user sv \<Longrightarrow> handleRpc pr user sv str u = Some (sv', u') \<Longrightarrow> svc_reach pr user sv'"

context rpc_reader
begin

lemma reach_wf: "svc_reach pr user sv \<Longrightarrow> svc_wf sv"
proof (induction rule: svc_reach.induct)
  case (svc_new sv)
  then show ?case using new_service by (metis option.inject)
next
  case (svc_def sv name f ps sv')
  have "fm_wf (mRpcFunctions sv)" using svc_def.IH by (simp add: svc_wf_def)
  then have "offered sv (c_str name) = None"
    using svc_def(2) insert_law(1) [of "mRpcFunctions sv" "c_str name"]
    by (cases "fm_abs (mRpcFunctions sv) (c_str name)") (auto simp: rpc_def_def offered_def)
  from def_law [OF svc_def.IH this] show ?case using svc_def(2) by (metis option.inject)
next
  case (svc_call sv name args cb msg sv')
  show ?case
  proof (cases cb)
    case None
    then show ?thesis using svc_call by (simp add: rpc_call_def)
  next
    case (Some c)
    then have "int_ok (mNextID sv + 1)" using svc_call(2) by (auto simp: rpc_call_def makeNextID_def split: prod.splits if_splits)
    from call_law [OF svc_call.IH this, of pr name args "fst c" "snd c"] show ?thesis using svc_call(2) Some by auto
  qed
next
  case (svc_handle sv str u sv' u')
  show ?case by (rule handle_wf(1) [OF svc_handle.IH svc_handle(2)])
qed

end

end
