(* ===== verification/Json_Rpc.thy ===== *)
theory Json_Rpc
  imports Rpc_Contract
begin

text \<open>
  The protocol of \<^verbatim>\<open>src/rpc/JsonRpc.h\<close>: a call is the text of one JSON object with the members \<^verbatim>\<open>name\<close>, \<^verbatim>\<open>parm\<close> and
  \<^verbatim>\<open>req_id\<close>, and the arguments are the members \<^verbatim>\<open>"0"\<close>, \<^verbatim>\<open>"1"\<close> and so on of \<^verbatim>\<open>parm\<close>. The library that parses and prints documents is a
  parameter; a document is a value of \<open>json\<close>. An accessor of the library that is used on a value of another type fails an
  assertion, and a member that is not there is read through the end iterator: both are \<open>None\<close>.
\<close>

section \<open>Documents\<close>

datatype json = JInt int | JStr string | JArr "json list" | JObj "(string \<times> json) list" | JOther string

record json_lib =
  json_parse :: "string \<Rightarrow> json option"
  json_print :: "json \<Rightarrow> string"

definition GetInt :: "json \<Rightarrow> int option" where
  "GetInt j = (case j of JInt i \<Rightarrow> if has_kind (KInt 32) (AInt i) then Some i else None | _ \<Rightarrow> None)"

definition GetInt64 :: "json \<Rightarrow> int option" where
  "GetInt64 j = (case j of JInt i \<Rightarrow> if has_kind (KInt 64) (AInt i) then Some i else None | _ \<Rightarrow> None)"

definition GetString :: "json \<Rightarrow> string option" where
  "GetString j = (case j of JStr s \<Rightarrow> Some (c_str s) | _ \<Rightarrow> None)"

text \<open>\<^verbatim>\<open>FindMember\<close> finds the first member of that name.\<close>

definition FindMember :: "json \<Rightarrow> string \<Rightarrow> json option" where
  "FindMember j name = (case j of JObj ms \<Rightarrow> map_of ms name | _ \<Rightarrow> None)"

section \<open>Reading\<close>

text \<open>Storing a number in a narrower type keeps its low bits.\<close>

definition narrow :: "nat \<Rightarrow> int \<Rightarrow> int" where
  "narrow w i = signed_take_bit (w - 1) i"

definition atom_read :: "kind \<Rightarrow> json \<Rightarrow> atom option" where
  "atom_read k msg =
     (case k of
        KStr \<Rightarrow> map_option AStr (GetString msg)
      | KInt w \<Rightarrow>
          if w = 8 \<or> w = 64 then map_option (\<lambda>i. AInt (narrow w i)) (GetInt64 msg)
          else if w = 16 \<or> w = 32 then map_option (\<lambda>i. AInt (narrow w i)) (GetInt msg)
          else None)"

text \<open>The key of an entry is made from the name of a member; \<^verbatim>\<open>atoi\<close> of a name whose number no \<^verbatim>\<open>int\<close> holds is undefined.\<close>

definition key_read :: "kind \<Rightarrow> string \<Rightarrow> atom option" where
  "key_read k name =
     (if k = KStr then Some (AStr (c_str name))
      else if k = KInt 32 then map_option AInt (atoi (c_str name @ [CHR 0x00]))
      else None)"

fun read_elements :: "(json \<Rightarrow> val option) \<Rightarrow> val list \<Rightarrow> json list \<Rightarrow> val list option" where
  "read_elements rd vs [] = Some vs"
| "read_elements rd vs (j # js) = do { tmp \<leftarrow> rd j; read_elements rd (vs @ [tmp]) js }"

fun read_members :: "(json \<Rightarrow> val option) \<Rightarrow> kind \<Rightarrow> (atom \<times> val) list \<Rightarrow> (string \<times> json) list \<Rightarrow> (atom \<times> val) list option" where
  "read_members rd k m [] = Some m"
| "read_members rd k m ((name, j) # ms) =
     do { tmp \<leftarrow> rd j; key \<leftarrow> key_read k name; read_members rd k (map_assign key tmp m) ms }"

text \<open>A tuple is read from the members of an object; any other value leaves it as it is.\<close>

fun readJson :: "ty \<Rightarrow> val \<Rightarrow> json \<Rightarrow> val option" and readTuple :: "nat \<Rightarrow> ty list \<Rightarrow> val list \<Rightarrow> json \<Rightarrow> val list option" where
  "readJson (TAtom k) v msg = map_option VAtom (atom_read k msg)"
| "readJson (TVec t) v msg =
     (case (v, msg) of
        (VVec vs, JArr js) \<Rightarrow> map_option VVec (read_elements (\<lambda>j. readJson t (new_value t) j) vs js)
      | _ \<Rightarrow> None)"
| "readJson (TMap k t) v msg =
     (case (v, msg) of
        (VMap m, JObj ms) \<Rightarrow> map_option VMap (read_members (\<lambda>j. readJson t (new_value t) j) k m ms)
      | _ \<Rightarrow> None)"
| "readJson (TTup ts) v msg =
     (case (v, msg) of
        (VTup vs, JObj ms) \<Rightarrow> map_option VTup (readTuple 0 ts vs msg)
      | (VTup vs, _) \<Rightarrow> Some v
      | _ \<Rightarrow> None)"
| "readTuple n (t # ts) (v # vs) msg =
     do {
       j \<leftarrow> FindMember msg (to_string n);
       v' \<leftarrow> readJson t v j;
       vs' \<leftarrow> readTuple (Suc n) ts vs msg;
       Some (v' # vs')
     }"
| "readTuple n ts vs msg = Some vs"

text \<open>The state while the arguments are read: the index of the next parameter and the object of all of them.\<close>

definition json_read :: "param_type \<Rightarrow> 'm rpc_arg \<Rightarrow> nat \<times> json \<Rightarrow> 'm rpc_arg \<times> (nat \<times> json) reading" where
  "json_read p a s =
     (case (p, a) of
        (PVal t, ArgVal v) \<Rightarrow>
          (case do { element \<leftarrow> FindMember (snd s) (to_string (fst s)); readJson t v element } of
             None \<Rightarrow> (a, Broken)
           | Some v' \<Rightarrow> (ArgVal v', Done (fst s + 1, snd s)))
      | _ \<Rightarrow> (a, Broken))"

definition json_open :: "json_lib \<Rightarrow> bytes \<Rightarrow> (nat \<times> json) opened" where
  "json_open lib str =
     (case do {
        mDoc \<leftarrow> json_parse lib (c_str str);
        name \<leftarrow> Option.bind (FindMember mDoc ''name'') GetString;
        req_id \<leftarrow> Option.bind (FindMember mDoc ''req_id'') GetInt;
        parm \<leftarrow> FindMember mDoc ''parm'';
        Some (req_id, name, parm)
      } of
        None \<Rightarrow> OpenBroken
      | Some (req_id, name, parm) \<Rightarrow> Opened req_id name (0, parm))"

section \<open>Writing\<close>

fun atom_write :: "atom \<Rightarrow> json" where
  "atom_write (AInt i) = JInt i"
| "atom_write (AStr s) = JStr (c_str s)"

fun key_write :: "atom \<Rightarrow> string" where
  "key_write (AInt i) = c_str (to_string_int i)"
| "key_write (AStr s) = c_str s"

text \<open>The members that carry a list by index, for the components of a tuple and for the parameters of a call.\<close>

definition indexed :: "nat \<Rightarrow> json list \<Rightarrow> (string \<times> json) list" where
  "indexed n js = map (\<lambda>(i, j). (to_string i, j)) (zip [n..<n + length js] js)"

fun writeJson :: "val \<Rightarrow> json" where
  "writeJson (VAtom a) = atom_write a"
| "writeJson (VVec vs) = JArr (map writeJson vs)"
| "writeJson (VMap m) = JObj (map (\<lambda>p. (key_write (fst p), writeJson (snd p))) m)"
| "writeJson (VTup vs) = JObj (indexed 0 (map writeJson vs))"

fun arg_json :: "'m rpc_arg \<Rightarrow> json" where
  "arg_json (ArgVal v) = writeJson v"
| "arg_json a = JOther []"

definition json_message :: "json_lib \<Rightarrow> int \<Rightarrow> string \<Rightarrow> 'm rpc_arg list \<Rightarrow> bytes" where
  "json_message lib rid funname args =
     c_str (json_print lib (JObj [(''name'', JStr funname), (''parm'', JObj (indexed 0 (map arg_json args))), (''req_id'', JInt rid)]))"

definition json_protocol :: "json_lib \<Rightarrow> (unit, nat \<times> json) rpc_protocol" where
  "json_protocol lib = \<lparr>pr_open = json_open lib, pr_read = json_read, pr_message = json_message lib, pr_blank = ()\<rparr>"

end
