(* ===== verification/Msgpack_Rpc.thy ===== *)
theory Msgpack_Rpc
  imports Rpc_Contract
begin

text \<open>
  The protocol of \<^verbatim>\<open>src/rpc/MsgpackRpc.h\<close>: the request id, the name and the arguments of a call one after the other in the
  MessagePack encoding. The two libraries are parameters, how they pack and unpack one number or string and what bytes a
  protobuf message has. A read takes the bytes from its offset on and returns the value it leaves, with the bytes that follow
  or \<open>None\<close> where the library throws.
\<close>

section \<open>The libraries\<close>

record 'm msgpack_ops =
  mp_pack_int :: "int \<Rightarrow> bytes"
  mp_pack_str :: "string \<Rightarrow> bytes"
  mp_str_head :: "nat \<Rightarrow> bytes"
  mp_int :: "nat \<Rightarrow> bytes \<Rightarrow> (int \<times> bytes) option"
  mp_str :: "bytes \<Rightarrow> (string \<times> bytes) option"
  pb_bytes :: "'m \<Rightarrow> bytes"
  pb_parse :: "bytes \<Rightarrow> 'm"
  pb_new :: 'm

fun pack_atom :: "'m msgpack_ops \<Rightarrow> atom \<Rightarrow> bytes" where
  "pack_atom ops (AInt i) = mp_pack_int ops i"
| "pack_atom ops (AStr s) = mp_pack_str ops s"

fun unpack_atom :: "'m msgpack_ops \<Rightarrow> kind \<Rightarrow> bytes \<Rightarrow> (atom \<times> bytes) option" where
  "unpack_atom ops (KInt w) bs = map_option (\<lambda>(i, r). (AInt i, r)) (mp_int ops w bs)"
| "unpack_atom ops KStr bs = map_option (\<lambda>(s, r). (AStr s, r)) (mp_str ops bs)"

section \<open>Reading\<close>

text \<open>The loops over a vector and a map end when the buffer is used up, whatever the length says.\<close>

fun read_items :: "(bytes \<Rightarrow> val \<times> bytes option) \<Rightarrow> nat \<Rightarrow> val list \<Rightarrow> bytes \<Rightarrow> val list \<times> bytes option" where
  "read_items rd 0 vs bs = (vs, Some bs)"
| "read_items rd (Suc len) vs bs =
     (if bs = [] then (vs, Some bs)
      else (case rd bs of
              (v, None) \<Rightarrow> (vs, None)
            | (v, Some r) \<Rightarrow> read_items rd len (vs @ [v]) r))"

fun read_pairs ::
  "(bytes \<Rightarrow> (atom \<times> bytes) option) \<Rightarrow> (bytes \<Rightarrow> val \<times> bytes option) \<Rightarrow> nat \<Rightarrow> (atom \<times> val) list \<Rightarrow> bytes \<Rightarrow>
   (atom \<times> val) list \<times> bytes option" where
  "read_pairs rk rd 0 m bs = (m, Some bs)"
| "read_pairs rk rd (Suc len) m bs =
     (if bs = [] then (m, Some bs)
      else (case rk bs of
              None \<Rightarrow> (m, None)
            | Some (k, r) \<Rightarrow>
                (case rd r of
                   (v, None) \<Rightarrow> (m, None)
                 | (v, Some r') \<Rightarrow> read_pairs rk rd len (map_insert k v m) r')))"

fun value_read :: "'m msgpack_ops \<Rightarrow> ty \<Rightarrow> val \<Rightarrow> bytes \<Rightarrow> val \<times> bytes option"
  and tuple_read :: "'m msgpack_ops \<Rightarrow> ty list \<Rightarrow> val list \<Rightarrow> bytes \<Rightarrow> val list \<times> bytes option" where
  "value_read ops (TAtom k) v bs =
     (case unpack_atom ops k bs of None \<Rightarrow> (v, None) | Some (a, r) \<Rightarrow> (VAtom a, Some r))"
| "value_read ops (TVec t) v bs =
     (case v of
        VVec vs \<Rightarrow>
          (case mp_int ops 32 bs of
             None \<Rightarrow> (v, None)
           | Some (len, r) \<Rightarrow> apfst VVec (read_items (\<lambda>bs. value_read ops t (new_value t) bs) (nat len) vs r))
      | _ \<Rightarrow> (v, None))"
| "value_read ops (TMap k t) v bs =
     (case v of
        VMap m \<Rightarrow>
          (case mp_int ops 32 bs of
             None \<Rightarrow> (v, None)
           | Some (len, r) \<Rightarrow> apfst VMap (read_pairs (unpack_atom ops k) (\<lambda>bs. value_read ops t (new_value t) bs) (nat len) m r))
      | _ \<Rightarrow> (v, None))"
| "value_read ops (TTup ts) v bs =
     (case v of VTup vs \<Rightarrow> apfst VTup (tuple_read ops ts vs bs) | _ \<Rightarrow> (v, None))"
| "tuple_read ops (t # ts) (v # vs) bs =
     (case value_read ops t v bs of
        (v', None) \<Rightarrow> (v' # vs, None)
      | (v', Some r) \<Rightarrow> apfst ((#) v') (tuple_read ops ts vs r))"
| "tuple_read ops ts vs bs = (vs, Some bs)"

text \<open>A protobuf message is read as a string and parsed; the result of the parser is not looked at.\<close>

definition msg_read_pb :: "'m msgpack_ops \<Rightarrow> 'm \<Rightarrow> bytes \<Rightarrow> 'm \<times> bytes option" where
  "msg_read_pb ops m bs = (case mp_str ops bs of None \<Rightarrow> (m, None) | Some (s, r) \<Rightarrow> (pb_parse ops s, Some r))"

definition thrown_or :: "bytes option \<Rightarrow> bytes reading" where
  "thrown_or r = (case r of None \<Rightarrow> Thrown | Some bs \<Rightarrow> Done bs)"

fun msgpack_read :: "'m msgpack_ops \<Rightarrow> param_type \<Rightarrow> 'm rpc_arg \<Rightarrow> bytes \<Rightarrow> 'm rpc_arg \<times> bytes reading" where
  "msgpack_read ops (PVal t) (ArgVal v) bs = map_prod ArgVal thrown_or (value_read ops t v bs)"
| "msgpack_read ops PMsg (ArgMsg m) bs = map_prod ArgMsg thrown_or (msg_read_pb ops m bs)"
| "msgpack_read ops p a bs = (a, Thrown)"

definition msgpack_open :: "'m msgpack_ops \<Rightarrow> bytes \<Rightarrow> bytes opened" where
  "msgpack_open ops str =
     (case mp_int ops 32 str of
        None \<Rightarrow> OpenThrown None
      | Some (req_id, r) \<Rightarrow>
          (case mp_str ops r of
             None \<Rightarrow> OpenThrown (Some req_id)
           | Some (name, r') \<Rightarrow> Opened req_id name r'))"

section \<open>Writing\<close>

definition int32_of :: "nat \<Rightarrow> int" where
  "int32_of n = sint (of_nat n :: 32 word)"

fun value_write :: "'m msgpack_ops \<Rightarrow> val \<Rightarrow> bytes" where
  "value_write ops (VAtom a) = pack_atom ops a"
| "value_write ops (VVec vs) = mp_pack_int ops (int32_of (length vs)) @ concat (map (value_write ops) vs)"
| "value_write ops (VMap m) =
     mp_pack_int ops (int32_of (length m)) @ concat (map (\<lambda>p. pack_atom ops (fst p) @ value_write ops (snd p)) m)"
| "value_write ops (VTup vs) = concat (map (value_write ops) vs)"

text \<open>A message of at most 1024 bytes is serialised on the stack, a longer one in a string.\<close>

definition msg_write_pb :: "'m msgpack_ops \<Rightarrow> 'm \<Rightarrow> bytes" where
  "msg_write_pb ops m =
     (let pbByteSize = length (pb_bytes ops m)
      in if pbByteSize \<le> 1024 then mp_str_head ops pbByteSize @ pb_bytes ops m
         else (let str = pb_bytes ops m in mp_str_head ops (length str) @ str))"

fun arg_write :: "'m msgpack_ops \<Rightarrow> 'm rpc_arg \<Rightarrow> bytes" where
  "arg_write ops (ArgVal v) = value_write ops v"
| "arg_write ops (ArgMsg m) = msg_write_pb ops m"
| "arg_write ops (ArgInfo i) = []"

definition msgpack_message :: "'m msgpack_ops \<Rightarrow> int \<Rightarrow> string \<Rightarrow> 'm rpc_arg list \<Rightarrow> bytes" where
  "msgpack_message ops rid funname args =
     (let lambdabuf = mp_pack_int ops rid;
          sbuf = mp_pack_str ops funname @ concat (map (arg_write ops) args)
      in lambdabuf @ sbuf)"

definition msgpack_protocol :: "'m msgpack_ops \<Rightarrow> ('m, bytes) rpc_protocol" where
  "msgpack_protocol ops =
     \<lparr>pr_open = msgpack_open ops, pr_read = msgpack_read ops, pr_message = msgpack_message ops, pr_blank = pb_new ops\<rparr>"

section \<open>The contract\<close>

text \<open>What the MessagePack and the protobuf library document: a packed atom unpacks to itself and ends where it ends.\<close>

definition msgpack_laws :: "'m msgpack_ops \<Rightarrow> bool" where
  "msgpack_laws ops \<longleftrightarrow>
     (\<forall>w i r. has_kind (KInt w) (AInt i) \<and> has_kind (KInt 64) (AInt i) \<longrightarrow> mp_int ops w (mp_pack_int ops i @ r) = Some (i, r)) \<and>
     (\<forall>s r. length s < 2 ^ 32 \<longrightarrow> mp_str ops (mp_pack_str ops s @ r) = Some (s, r)) \<and>
     (\<forall>i. mp_pack_int ops i \<noteq> []) \<and> (\<forall>s. mp_pack_str ops s \<noteq> []) \<and>
     (\<forall>s. length s < 2 ^ 32 \<longrightarrow> mp_str_head ops (length s) @ s = mp_pack_str ops s) \<and>
     (\<forall>m. pb_parse ops (pb_bytes ops m) = m)"

fun fits :: "val \<Rightarrow> bool" where
  "fits (VAtom (AInt i)) \<longleftrightarrow> has_kind (KInt 64) (AInt i)"
| "fits (VAtom (AStr s)) \<longleftrightarrow> length s < 2 ^ 32"
| "fits (VVec vs) \<longleftrightarrow> length vs < 2 ^ 31 \<and> (\<forall>v \<in> set vs. fits v)"
| "fits (VMap m) \<longleftrightarrow> length m < 2 ^ 31 \<and> (\<forall>p \<in> set m. fits (VAtom (fst p)) \<and> fits (snd p))"
| "fits (VTup vs) \<longleftrightarrow> vs \<noteq> [] \<and> (\<forall>v \<in> set vs. fits v)"

fun arg_fits :: "'m msgpack_ops \<Rightarrow> 'm rpc_arg \<Rightarrow> bool" where
  "arg_fits ops (ArgVal v) \<longleftrightarrow> fits v"
| "arg_fits ops (ArgMsg m) \<longleftrightarrow> length (pb_bytes ops m) < 2 ^ 31"
| "arg_fits ops (ArgInfo i) \<longleftrightarrow> False"


lemma value_read_shape: "shape_ok t v \<Longrightarrow> shape_ok t (fst (value_read ops t v bs))"
  and tuple_read_shape: "shapes_ok ts vs \<Longrightarrow> shapes_ok ts (fst (tuple_read ops ts vs bs))"
proof (induction ops t v bs and ops ts vs bs rule: value_read_tuple_read.induct)
  case (5 ops t ts v vs bs)
  obtain v' r where v': "value_read ops t v bs = (v', r)" by (cases "value_read ops t v bs")
  show ?case
  proof (cases r)
    case None
    then show ?thesis using 5 v' by auto
  next
    case (Some bs')
    obtain vs' r' where t: "tuple_read ops ts vs bs' = (vs', r')" by (cases "tuple_read ops ts vs bs'")
    show ?thesis using 5 v' Some t by auto
  qed
qed (auto split: option.splits)

lemma msgpack_read_shape: "arg_shape p a \<Longrightarrow> arg_shape p (fst (pr_read (msgpack_protocol ops) p a s))"
proof (cases p)
  case (PVal t)
  assume "arg_shape p a"
  then obtain v where v: "a = ArgVal v" "shape_ok t v" using PVal by auto
  then show ?thesis using value_read_shape [OF v(2), of ops s] PVal
    by (cases "value_read ops t v s") (simp add: msgpack_protocol_def)
qed (auto simp: msgpack_protocol_def msg_read_pb_def split: option.splits)

interpretation mpr: rpc_reader "msgpack_protocol ops" for ops
  by unfold_locales (rule msgpack_read_shape)

subsection \<open>Round trip of one value\<close>

lemma int32_of_small: "n < 2 ^ 31 \<Longrightarrow> int32_of n = int n"
  by (simp add: int32_of_def signed_of_nat signed_take_bit_int_eq_self)

lemma size_law:
  assumes "msgpack_laws ops" "n < 2 ^ 31"
  shows "mp_int ops 32 (mp_pack_int ops (int32_of n) @ r) = Some (int n, r)"
proof -
  have "has_kind (KInt 32) (AInt (int n))" "has_kind (KInt 64) (AInt (int n))" using assms(2) by simp_all
  then show ?thesis using assms by (simp add: msgpack_laws_def int32_of_small del: has_kind.simps)
qed

lemma atom_law:
  assumes "msgpack_laws ops" "has_kind k a" "fits (VAtom a)"
  shows "unpack_atom ops k (pack_atom ops a @ r) = Some (a, r)"
  using assms by (cases a; cases k) (auto simp: msgpack_laws_def)

lemma write_nonempty: "msgpack_laws ops \<Longrightarrow> fits v \<Longrightarrow> value_write ops v \<noteq> []"
proof (induction v rule: fits.induct)
  case (5 vs)
  then obtain v ws where "vs = v # ws" "fits v" by (cases vs) auto
  then show ?case using 5 by auto
qed (auto simp: msgpack_laws_def)

lemma items_law:
  assumes "\<And>v r. v \<in> set vs \<Longrightarrow> rd (w v @ r) = (v, Some r)" "\<And>v. v \<in> set vs \<Longrightarrow> w v \<noteq> []"
  shows "read_items rd (length vs) acc (concat (map w vs) @ rest) = (acc @ vs, Some rest)"
  using assms
proof (induction vs arbitrary: acc)
  case (Cons v vs)
  have "rd (w v @ concat (map w vs) @ rest) = (v, Some (concat (map w vs) @ rest))" using Cons.prems(1) by simp
  moreover have "w v \<noteq> []" using Cons.prems(2) by simp
  moreover have "read_items rd (length vs) (acc @ [v]) (concat (map w vs) @ rest) = ((acc @ [v]) @ vs, Some rest)"
    using Cons.prems by (intro Cons.IH) simp_all
  ultimately show ?case by simp
qed simp

lemma pairs_law:
  assumes "\<And>p r. p \<in> set m \<Longrightarrow> rk (wk (fst p) @ r) = Some (fst p, r)" "\<And>p r. p \<in> set m \<Longrightarrow> rd (w (snd p) @ r) = (snd p, Some r)"
    and "\<And>p. p \<in> set m \<Longrightarrow> wk (fst p) \<noteq> []" "sorted_wrt (<) (map fst (acc @ m))"
  shows "read_pairs rk rd (length m) acc (concat (map (\<lambda>p. wk (fst p) @ w (snd p)) m) @ rest) = (acc @ m, Some rest)"
  using assms
proof (induction m arbitrary: acc)
  case (Cons p m)
  define tail where "tail = concat (map (\<lambda>p. wk (fst p) @ w (snd p)) m) @ rest"
  have rd: "rk (wk (fst p) @ w (snd p) @ tail) = Some (fst p, w (snd p) @ tail)" "rd (w (snd p) @ tail) = (snd p, Some tail)"
    using Cons.prems(1,2) by simp_all
  have "\<forall>q \<in> set acc. fst q < fst p" using Cons.prems(4) by (auto simp: sorted_wrt_append)
  then have ins: "map_insert (fst p) (snd p) acc = acc @ [p]" by (simp add: map_insert_last)
  have "read_pairs rk rd (length m) (acc @ [p]) tail = ((acc @ [p]) @ m, Some rest)"
    unfolding tail_def using Cons.prems by (intro Cons.IH) simp_all
  then show ?case using rd ins Cons.prems(3) by (simp add: tail_def)
qed simp

lemma value_law:
  assumes laws: "msgpack_laws ops"
  shows "has_type t v \<Longrightarrow> fits v \<Longrightarrow> empty_at t old \<Longrightarrow> value_read ops t old (value_write ops v @ rest) = (v, Some rest)"
proof (induction t arbitrary: v old rest)
  case (TAtom k)
  then show ?case using atom_law [OF laws] by auto
next
  case (TVec t)
  then obtain vs where v: "v = VVec vs" "\<forall>x \<in> set vs. has_type t x" "length vs < 2 ^ 31" "\<forall>x \<in> set vs. fits x" by auto
  have "read_items (\<lambda>bs. value_read ops t (new_value t) bs) (length vs) [] (concat (map (value_write ops) vs) @ rest) = ([] @ vs, Some rest)"
    using v TVec.IH [OF _ _ empty_new] write_nonempty [OF laws] by (intro items_law) auto
  then show ?case using v TVec.prems(3) size_law [OF laws v(3)] by simp
next
  case (TMap k t)
  then obtain m where v: "v = VMap m" "sorted_wrt (<) (map fst m)" "\<forall>p \<in> set m. has_kind k (fst p) \<and> has_type t (snd p)" "length m < 2 ^ 31"
    "\<forall>p \<in> set m. fits (VAtom (fst p)) \<and> fits (snd p)" by auto
  have "pack_atom ops a \<noteq> []" for a using laws by (cases a) (simp_all add: msgpack_laws_def)
  then have "read_pairs (unpack_atom ops k) (\<lambda>bs. value_read ops t (new_value t) bs) (length m) []
      (concat (map (\<lambda>p. pack_atom ops (fst p) @ value_write ops (snd p)) m) @ rest) = ([] @ m, Some rest)"
    using v TMap.IH [OF _ _ empty_new] atom_law [OF laws] by (intro pairs_law) auto
  then show ?case using v TMap.prems(3) size_law [OF laws v(4)] by simp
next
  case (TTup ts)
  then obtain vs olds where v: "v = VTup vs" "list_all2 has_type ts vs" "\<forall>x \<in> set vs. fits x" "old = VTup olds" "list_all2 empty_at ts olds"
    by (auto simp: lists_pointwise)
  have "tuple_read ops ts olds (concat (map (value_write ops) vs) @ rest) = (vs, Some rest)"
    using TTup.IH v(2,3,5)
  proof (induction ts arbitrary: vs olds)
    case (Cons t ts)
    then obtain w ws e es where l: "vs = w # ws" "has_type t w" "list_all2 has_type ts ws" "olds = e # es" "empty_at t e" "list_all2 empty_at ts es"
      by (auto simp: list_all2_Cons1)
    have "value_read ops t e (value_write ops w @ concat (map (value_write ops) ws) @ rest) = (w, Some (concat (map (value_write ops) ws) @ rest))"
      using Cons.prems(1,3) l by simp
    moreover have "tuple_read ops ts es (concat (map (value_write ops) ws) @ rest) = (ws, Some rest)"
      using Cons.prems(1,3) l by (intro Cons.IH) simp_all
    ultimately show ?case using l by simp
  qed simp
  then show ?case using v(1,4) by simp
qed

end
