(* ===== verification/Msgpack_Props.thy ===== *)
theory Msgpack_Props
  imports Msgpack_Rpc Bytes
begin

text \<open>
  The MessagePack protocol keeps the contract of a protocol, so that calls arrive with exactly their arguments and replies run
  exactly the callback they answer; which messages bring the service down, and two cases in which the arguments a function gets
  are not those of its message.
\<close>

section \<open>The codec\<close>

definition mp_carries :: "'m msgpack_ops \<Rightarrow> bytes \<Rightarrow> 'm rpc_arg list \<Rightarrow> bool" where
  "mp_carries ops s args \<longleftrightarrow> msgpack_laws ops \<and> list_all (arg_fits ops) args \<and> s = concat (map (arg_write ops) args)"

definition mp_sendable :: "'m msgpack_ops \<Rightarrow> 'm rpc_arg \<Rightarrow> bool" where
  "mp_sendable ops a \<longleftrightarrow> msgpack_laws ops \<and> arg_fits ops a"

definition mp_named :: "'m msgpack_ops \<Rightarrow> string \<Rightarrow> bool" where
  "mp_named ops name \<longleftrightarrow> msgpack_laws ops \<and> length name < 2 ^ 32"

lemma pb_law:
  assumes "msgpack_laws ops" "length (pb_bytes ops m) < 2 ^ 31"
  shows "msg_read_pb ops old (msg_write_pb ops m @ rest) = (m, Some rest)"
proof -
  have "msg_write_pb ops m = mp_str_head ops (length (pb_bytes ops m)) @ pb_bytes ops m" by (simp add: msg_write_pb_def Let_def)
  also have "\<dots> = mp_pack_str ops (pb_bytes ops m)" using assms by (simp add: msgpack_laws_def)
  finally show ?thesis using assms by (simp add: msg_read_pb_def msgpack_laws_def)
qed

lemma mp_open:
  assumes "int_ok rid" "mp_named ops name" "list_all (mp_sendable ops) args"
  shows "\<exists>s. pr_open (msgpack_protocol ops) (pr_message (msgpack_protocol ops) rid name args) = Opened rid name s \<and> mp_carries ops s args"
proof -
  have laws: "msgpack_laws ops" "length name < 2 ^ 32" using assms(2) by (simp_all add: mp_named_def)
  have "has_kind (KInt 32) (AInt rid)" "has_kind (KInt 64) (AInt rid)" using assms(1) by (simp_all add: int_ok_def)
  then have "mp_int ops 32 (mp_pack_int ops rid @ r) = Some (rid, r)" for r
    using laws(1) by (simp add: msgpack_laws_def del: has_kind.simps)
  moreover have "mp_str ops (mp_pack_str ops name @ r) = Some (name, r)" for r using laws by (simp add: msgpack_laws_def)
  moreover have "list_all (arg_fits ops) args" using assms(3) by (auto simp: mp_sendable_def list_all_iff)
  ultimately show ?thesis
    using laws(1) by (simp add: msgpack_protocol_def msgpack_open_def msgpack_message_def mp_carries_def)
qed

lemma mp_read:
  assumes c: "mp_carries ops s (a # args)" and p: "arg_type p a" "p \<noteq> PInfo" "param_clear p" "arg_shape p old"
  shows "\<exists>s'. pr_read (msgpack_protocol ops) p (clear_arg p old) s = (a, Done s') \<and> mp_carries ops s' args"
proof -
  define s' where "s' = concat (map (arg_write ops) args)"
  have laws: "msgpack_laws ops" "arg_fits ops a" "s = arg_write ops a @ s'" "mp_carries ops s' args"
    using c by (simp_all add: mp_carries_def s'_def)
  have "pr_read (msgpack_protocol ops) p (clear_arg p old) s = (a, Done s')"
  proof (cases p)
    case (PVal t)
    then obtain v w where v: "a = ArgVal v" "has_type t v" "old = ArgVal w" "shape_ok t w" "clearable t" using p by auto
    have "value_read ops t (clear_value t w) (value_write ops v @ s') = (v, Some s')"
      using value_law [OF laws(1) v(2)] laws(2) v(1) empty_clear(1) [OF v(4,5)] by simp
    then show ?thesis using PVal v laws(3) by (simp add: msgpack_protocol_def thrown_or_def)
  next
    case PMsg
    then show ?thesis using p laws pb_law by (fastforce simp: msgpack_protocol_def thrown_or_def)
  qed (use p in simp)
  then show ?thesis using laws(4) by blast
qed

interpretation mp: rpc_codec "msgpack_protocol ops" "mp_carries ops" "mp_sendable ops" "mp_named ops" param_clear for ops
  by unfold_locales (use mp_open mp_read in \<open>blast | simp\<close>)+

lemma int_name_short: "int_ok i \<Longrightarrow> length (to_string_int i) < 2 ^ 32"
proof -
  assume "int_ok i"
  then have "nat i < 10 ^ 10" "nat (- i) < 10 ^ 10" by (auto simp: int_ok_def)
  then have "length (to_string (nat i)) \<le> 10" "length (to_string (nat (- i))) \<le> 10" using to_string_length [of _ 10] by simp_all
  then have "length (to_string_int i) \<le> 11" by (simp add: to_string_int_def)
  also have "(11 :: nat) < 2 ^ 32" by simp
  finally show ?thesis .
qed

section \<open>Properties\<close>

text \<open>
  C19. A call with a callback reaches the function of its name, which runs once with exactly the arguments of the call and the
  id of the call. Whatever the client did in between, an answer to that id runs the callback once with exactly the
  results and forgets it, and no other waiting callback is touched. The parameters of both functions hold nothing from earlier calls
  that reading keeps (\<open>param_clear\<close>: no map with keys in it); a map parameter that still has keys of an earlier call delivers them
  again (\<open>stale_map_entries\<close>).
\<close>

theorem rpc_exchange:
  assumes laws: "msgpack_laws ops" and wf: "svc_reach (msgpack_protocol ops) user client" "svc_reach (msgpack_protocol ops) user server"
    and call: "rpc_call (msgpack_protocol ops) name args (Some (f, qs)) client = Some (msg, client')"
    and fn: "offered server (c_str name) = Some (User g, ps)" "length name < 2 ^ 32"
    and args: "list_all (arg_fits ops) args" "args_match ps args" "list_all param_clear ps"
    and later: "svc_reach (msgpack_protocol ops) user later" "pending later (mNextID client') = Some (f, qs)"
    and results: "list_all (arg_fits ops) results" "args_match qs results" "list_all param_clear qs"
    and short: "length (pr_message (msgpack_protocol ops) (- 1) (to_string_int (mNextID client')) results) < 2 ^ 32"
  shows "pending client (mNextID client') = None \<and> pending client' = (pending client)(mNextID client' \<mapsto> (f, qs)) \<and>
    (\<exists>server'. handleRpc (msgpack_protocol ops) user server msg u = Some (server', user g (with_info (mNextID client') ps args) u) \<and>
      offered server' = offered server) \<and>
    (\<exists>answer later'. rpc_reply (msgpack_protocol ops) (mNextID client') results None server = Some (answer, server) \<and>
      handleRpc (msgpack_protocol ops) user later answer u = Some (later', user f (with_info (- 1) qs results) u) \<and>
      pending later' = (pending later)(mNextID client' := None))"
proof -
  define i where "i = mNextID client'"
  have wfs: "svc_wf client" "svc_wf server" "svc_wf later" using mpr.reach_wf wf later(1) by blast+
  have "int_ok (mNextID client + 1)" using call by (auto simp: rpc_call_def makeNextID_def split: if_splits)
  from call_law [OF wfs(1) this, of "msgpack_protocol ops" name args f qs] call
  have c: "msg = pr_message (msgpack_protocol ops) i (c_str name) args" "svc_wf client'" "pending client i = None"
    "pending client' = (pending client)(i \<mapsto> (f, qs))" by (auto simp: i_def)
  have i: "int_ok i" using c(2) by (simp add: svc_wf_def i_def)
  have send: "list_all (mp_sendable ops) args" "list_all (mp_sendable ops) results" using laws args results by (auto simp: mp_sendable_def list_all_iff)
  have "length (c_str name) \<le> length name" by (simp add: c_str_def length_takeWhile_le)
  then have named: "mp_named ops (c_str name)" "mp_named ops (to_string_int i)" "mp_named ops RPC_REPLY_STR"
    using laws fn(2) int_name_short [OF i] by (simp_all add: mp_named_def RPC_REPLY_STR_def)
  have reply: "mp_sendable ops (ArgVal (VAtom (AInt i)))"
    "mp_sendable ops (ArgVal (VAtom (AStr (pr_message (msgpack_protocol ops) (- 1) (to_string_int i) results))))"
    using laws i short by (simp_all add: mp_sendable_def int_ok_def i_def)
  note mp.handle_reply(1) [OF wfs(3) i named(3,2) reply send(2) later(2) [folded i_def] results(2,3), where user = user and u = u]
  moreover note mp.handle_call [OF wfs(2) fn(1) i named(1) send(1) args(2,3), where user = user and u = u]
  ultimately show ?thesis using c reply_law unfolding i_def by blast
qed

section \<open>Which messages a service does not survive\<close>

lemma map_reading_broken: "map_reading f r = Broken \<longleftrightarrow> r = Broken"
  by (cases r) simp_all

lemma mp_not_broken: "list_all2 arg_shape ps tup \<Longrightarrow> snd (eval_args (msgpack_protocol ops) ps tup rid s) \<noteq> Broken"
proof (induction ps arbitrary: tup s)
  case (Cons p ps)
  then obtain a tup' where tup: "tup = a # tup'" "arg_shape p a" "list_all2 arg_shape ps tup'" by (auto simp: list_all2_Cons1)
  obtain a' r where rd: "msgpack_read ops p (clear_arg p a) s = (a', r)" by (cases "msgpack_read ops p (clear_arg p a) s")
  then have "r \<noteq> Broken" using tup(2)
    by (cases p) (auto simp: map_prod_def thrown_or_def split: prod.splits option.splits)
  moreover have "snd (eval_args (msgpack_protocol ops) ps tup' rid s') \<noteq> Broken" for s' using Cons.IH [OF tup(3)] .
  ultimately show ?case using tup(1) rd
    by (cases p; cases r) (auto simp: msgpack_protocol_def case_prod_unfold map_reading_broken)
qed simp

lemma mp_open_not_broken [simp]: "msgpack_open ops str \<noteq> OpenBroken"
  by (auto simp: msgpack_open_def split: option.splits)

text \<open>A message the service fails on: it names a function nobody registered, or answers an id nobody waits for.\<close>

definition rpc_fault :: "'m msgpack_ops \<Rightarrow> ('f, 'm) rpc_service \<Rightarrow> bytes \<Rightarrow> bool" where
  "rpc_fault ops sv str \<longleftrightarrow>
     (\<exists>rid name s. msgpack_open ops str = Opened rid name s \<and>
        (offered sv name = None \<or>
         name = RPC_REPLY_STR \<and>
         (\<exists>i s1 response s2. mp_int ops 32 s = Some (i, s1) \<and> mp_str ops s1 = Some (response, s2) \<and>
            (pending sv i = None \<or>
             (\<exists>rid' name' s'. msgpack_open ops response = Opened rid' name' s' \<and> fm_abs (mResponseCallbacks sv) name' = None)))))"

lemma execute_none:
  assumes "fm_wf m"
  shows "execute (msgpack_protocol ops) app m str st = None \<longleftrightarrow>
    (\<exists>rid name s. msgpack_open ops str = Opened rid name s \<and>
      (fm_abs m name = None \<or>
       (\<exists>f ps tup args. fm_abs m name = Some (f, ps) \<and> list_all2 arg_shape ps tup \<and>
          snd (eval_args (msgpack_protocol ops) ps tup rid s) = Done args \<and> app f args st = None \<and>
          (\<exists>p fn. mRealFunctionPtr m name = Some p \<and> fm_heap m p = Some fn \<and> fn_tuple fn = tup))))"
proof (cases "msgpack_open ops str")
  case (Opened rid name s)
  show ?thesis
  proof (cases "fm_abs m name")
    case None
    then show ?thesis using Opened fm_missing [OF assms None] by (simp add: execute_def msgpack_protocol_def)
  next
    case (Some fp)
    obtain f ps where fp: "fp = (f, ps)" by (cases fp)
    obtain p fn where e: "mRealFunctionPtr m name = Some p" "fm_heap m p = Some fn" "fn_object fn = f" "fn_params fn = ps"
      "mWrapFunctions m name = Some ps" "list_all2 arg_shape ps (fn_tuple fn)" using fm_entry [OF assms Some [unfolded fp]] by metis
    obtain tup r where ev: "eval_args (msgpack_protocol ops) ps (fn_tuple fn) rid s = (tup, r)" by (cases "eval_args (msgpack_protocol ops) ps (fn_tuple fn) rid s")
    have "r \<noteq> Broken" using mp_not_broken [OF e(6), of ops rid s] ev by simp
    moreover have "pr_open (msgpack_protocol ops) str = Opened rid name s" using Opened by (simp add: msgpack_protocol_def)
    ultimately have "execute (msgpack_protocol ops) app m str st = None \<longleftrightarrow> (\<exists>args. r = Done args \<and> app f args st = None)"
      using e ev by (cases r) (auto simp: execute_def invoke_def Let_def split: Option.bind_splits)
    then show ?thesis using Opened Some fp e ev by auto
  qed
qed (auto simp: execute_def msgpack_protocol_def split: option.splits dest: mp_open_not_broken [THEN notE])

lemma eval_reply:
  assumes "list_all2 arg_shape reply_params tup"
  shows "snd (eval_args (msgpack_protocol ops) reply_params tup rid s) = Done args \<longleftrightarrow>
    (\<exists>i s1 r s2. mp_int ops 32 s = Some (i, s1) \<and> mp_str ops s1 = Some (r, s2) \<and> args = [ArgVal (VAtom (AInt i)), ArgVal (VAtom (AStr r))])"
proof -
  obtain a b where "tup = [ArgVal (VAtom a), ArgVal (VAtom b)]" using assms by (auto simp: reply_params_def list_all2_Cons1)
  then show ?thesis
    by (auto simp: reply_params_def msgpack_protocol_def thrown_or_def split: option.splits)
qed

lemma handle_fault:
  assumes wf: "svc_wf sv"
  shows "handleRpc (msgpack_protocol ops) user sv str u = None \<longleftrightarrow> rpc_fault ops sv str"
proof -
  define cbs where "cbs = mResponseCallbacks sv"
  have wfs: "fm_wf cbs" "fm_wf (mRpcFunctions sv)" using wf by (simp_all add: svc_wf_def cbs_def)
  have reply: "run_rpc_fun (msgpack_protocol ops) user RpcReply [ArgVal (VAtom (AInt i)), ArgVal (VAtom (AStr r))] (cbs, u) = None \<longleftrightarrow>
      pending sv i = None \<or> (\<exists>rid' name' s'. msgpack_open ops r = Opened rid' name' s' \<and> fm_abs cbs name' = None)" for i r
  proof -
    have inner: "handleResponse (msgpack_protocol ops) user cbs r u = None \<longleftrightarrow>
        (\<exists>rid' name' s'. msgpack_open ops r = Opened rid' name' s' \<and> fm_abs cbs name' = None)"
      by (simp add: handleResponse_def execute_none [OF wfs(1)])
    show ?thesis
    proof (cases "handleResponse (msgpack_protocol ops) user cbs r u")
      case None
      then show ?thesis using inner by simp
    next
      case (Some res)
      obtain cbs1 u1 where res: "res = (cbs1, u1)" by (cases res)
      have c: "fm_wf cbs1" "fm_abs cbs1 = fm_abs cbs" using mpr.execute_tables [OF wfs(1)] Some res by (auto simp: handleResponse_def)
      have "mgr_del (to_string_int i) cbs1 = None \<longleftrightarrow> fm_abs cbs (to_string_int i) = None"
        using del_law [OF c(1), of "to_string_int i"] c(2) by (cases "fm_abs cbs (to_string_int i)") auto
      then show ?thesis using Some res inner by (auto simp: pending_def cbs_def split: Option.bind_splits)
    qed
  qed
  have rpc: "fm_abs (mRpcFunctions sv) name = Some (RpcReply, ps) \<longleftrightarrow> name = RPC_REPLY_STR \<and> ps = reply_params" for name ps
    using wf by (auto simp: svc_wf_def)
  obtain tup where tup: "list_all2 arg_shape reply_params tup"
    "\<exists>p fn. mRealFunctionPtr (mRpcFunctions sv) RPC_REPLY_STR = Some p \<and> fm_heap (mRpcFunctions sv) p = Some fn \<and> fn_tuple fn = tup"
    using fm_entry [OF wfs(2), of RPC_REPLY_STR RpcReply reply_params] rpc by metis
  have "handleRpc (msgpack_protocol ops) user sv str u = None \<longleftrightarrow>
      execute (msgpack_protocol ops) (run_rpc_fun (msgpack_protocol ops) user) (mRpcFunctions sv) str (cbs, u) = None"
    by (auto simp: handleRpc_def cbs_def split: Option.bind_splits)
  also have "\<dots> \<longleftrightarrow> (\<exists>rid name s. msgpack_open ops str = Opened rid name s \<and>
      (offered sv name = None \<or> name = RPC_REPLY_STR \<and> (\<exists>args. snd (eval_args (msgpack_protocol ops) reply_params tup rid s) = Done args \<and>
         run_rpc_fun (msgpack_protocol ops) user RpcReply args (cbs, u) = None)))"
  proof -
    have "(\<exists>f ps tup' args. fm_abs (mRpcFunctions sv) name = Some (f, ps) \<and> list_all2 arg_shape ps tup' \<and>
        snd (eval_args (msgpack_protocol ops) ps tup' rid s) = Done args \<and> run_rpc_fun (msgpack_protocol ops) user f args (cbs, u) = None \<and>
        (\<exists>p fn. mRealFunctionPtr (mRpcFunctions sv) name = Some p \<and> fm_heap (mRpcFunctions sv) p = Some fn \<and> fn_tuple fn = tup')) \<longleftrightarrow>
      name = RPC_REPLY_STR \<and> (\<exists>args. snd (eval_args (msgpack_protocol ops) reply_params tup rid s) = Done args \<and>
        run_rpc_fun (msgpack_protocol ops) user RpcReply args (cbs, u) = None)" (is "?l \<longleftrightarrow> ?r") for name rid s
    proof
      assume ?l
      then obtain f ps tup' args where l: "fm_abs (mRpcFunctions sv) name = Some (f, ps)" "snd (eval_args (msgpack_protocol ops) ps tup' rid s) = Done args"
        "run_rpc_fun (msgpack_protocol ops) user f args (cbs, u) = None"
        "\<exists>p fn. mRealFunctionPtr (mRpcFunctions sv) name = Some p \<and> fm_heap (mRpcFunctions sv) p = Some fn \<and> fn_tuple fn = tup'" by blast
      then have "f = RpcReply" by (cases f) simp_all
      then have "name = RPC_REPLY_STR" "ps = reply_params" using l(1) rpc by simp_all
      moreover from this have "tup' = tup" using l(4) tup(2) by auto
      ultimately show ?r using l \<open>f = RpcReply\<close> by blast
    next
      assume ?r
      moreover have "fm_abs (mRpcFunctions sv) RPC_REPLY_STR = Some (RpcReply, reply_params)" using rpc by simp
      ultimately show ?l using tup by blast
    qed
    then show ?thesis unfolding execute_none [OF wfs(2)] offered_def by simp
  qed
  also have "\<dots> \<longleftrightarrow> rpc_fault ops sv str"
    unfolding rpc_fault_def eval_reply [OF tup(1)] cbs_def [symmetric] by (auto simp: reply simp del: run_rpc_fun.simps)
  finally show ?thesis .
qed


text \<open>
  C21. In every state a service over the MessagePack protocol gets into by registering functions, calling, and handling whatever bytes arrive, no freed or null
  function object is used: handling a message fails exactly when it names a function nobody registered or is
  an answer to an id nobody waits for. (Over JSON arbitrary bytes may also fail an assertion of the library, \<open>json_garbage_fails\<close>.) Both tables can be destroyed at any time, in any order, and every function object is freed.
\<close>

theorem rpc_service_robust:
  assumes "svc_reach (msgpack_protocol ops) user sv"
  shows "(handleRpc (msgpack_protocol ops) user sv str u = None \<longleftrightarrow> rpc_fault ops sv str) \<and>
    (distinct names \<and> set names = dom (fm_abs (mResponseCallbacks sv)) \<longrightarrow>
       (\<exists>m. mgr_destroy names (mResponseCallbacks sv) = Some m \<and> fm_heap m = Map.empty)) \<and>
    (distinct names \<and> set names = dom (offered sv) \<longrightarrow>
       (\<exists>m. mgr_destroy names (mRpcFunctions sv) = Some m \<and> fm_heap m = Map.empty))"
proof -
  have wf: "svc_wf sv" using mpr.reach_wf [OF assms] .
  then have "fm_wf (mResponseCallbacks sv)" "fm_wf (mRpcFunctions sv)" by (simp_all add: svc_wf_def)
  then show ?thesis using handle_fault [OF wf] destroy_law unfolding offered_def by meson
qed

section \<open>Arguments that are not those of the message\<close>

text \<open>
  The loop over a vector ends at the end of the buffer: a message that was cut off between two elements is accepted, and the
  function gets a shorter vector.
\<close>

lemma truncated_vector_accepted:
  assumes laws: "msgpack_laws ops" and vs: "\<forall>x \<in> set vs. has_type t x \<and> fits x" "length vs < 2 ^ 31" and n: "n \<le> length vs"
  shows "value_read ops (TVec t) (VVec []) (mp_pack_int ops (int32_of (length vs)) @ concat (map (value_write ops) (take n vs))) =
    (VVec (take n vs), Some [])"
proof -
  have more: "read_items rd (k + d) acc bs = (xs, Some [])" if "read_items rd k acc bs = (xs, Some [])" for rd k d acc bs xs
    using that by (induction rd k acc bs rule: read_items.induct) (cases d; auto split: prod.splits option.splits if_splits)+
  have "read_items (\<lambda>bs. value_read ops t (new_value t) bs) (length (take n vs)) [] (concat (map (value_write ops) (take n vs)) @ []) =
      ([] @ take n vs, Some [])"
    using vs(1) value_law [OF laws _ _ empty_new] write_nonempty [OF laws] in_set_takeD by (intro items_law) (fastforce dest: in_set_takeD)+
  then have "read_items (\<lambda>bs. value_read ops t (new_value t) bs) (length (take n vs) + (length vs - n)) []
      (concat (map (value_write ops) (take n vs))) = (take n vs, Some [])" by (intro more) simp
  moreover have "length (take n vs) + (length vs - n) = length vs" using n by simp
  ultimately show ?thesis using size_law [OF laws vs(2)] by simp
qed

text \<open>
  A map whose key is neither \<^verbatim>\<open>int\<close> nor a string is not cleared between two calls: entries of an earlier call stay, and win
  over those of the message, because \<^verbatim>\<open>insert\<close> keeps an entry that is there.
\<close>

lemma stale_map_entries:
  assumes laws: "msgpack_laws ops" and k: "has_kind (KInt 64) k" and v: "has_type t v" "fits v"
  shows "msgpack_read ops (PVal (TMap (KInt 64) t)) (clear_arg (PVal (TMap (KInt 64) t)) (ArgVal (VMap [(k, old)])))
      (arg_write ops (ArgVal (VMap [(k, v)]))) = (ArgVal (VMap [(k, old)]), Done [])"
proof -
  have "fits (VAtom k)" using k by (cases k) simp_all
  then have "unpack_atom ops (KInt 64) (pack_atom ops k @ value_write ops v) = Some (k, value_write ops v)" "pack_atom ops k \<noteq> []"
    using atom_law [OF laws k] laws by (simp_all del: unpack_atom.simps) (cases k; simp add: msgpack_laws_def)
  moreover have "value_read ops t (new_value t) (value_write ops v) = (v, Some [])"
    using value_law [OF laws v empty_new, of "[]"] by simp
  moreover have "mp_int ops 32 (mp_pack_int ops (int32_of 1) @ r) = Some (1, r)" for r using size_law [OF laws, of 1 r] by simp
  ultimately show ?thesis by (simp add: thrown_or_def map_insert_def del: unpack_atom.simps)
qed


section \<open>Witnesses\<close>

text \<open>A codec that keeps the laws: every number in the 64-bit format of MessagePack, every string with a 32-bit length.\<close>

definition be_chars :: "nat \<Rightarrow> nat \<Rightarrow> bytes" where
  "be_chars k n = map (\<lambda>b. char_of (unat b)) (rev (le_bytes k n))"

definition be_nat :: "bytes \<Rightarrow> nat" where
  "be_nat bs = le_value (rev (map (\<lambda>c. of_nat (of_char c)) bs))"

definition demo_int :: "nat \<Rightarrow> bytes \<Rightarrow> (int \<times> bytes) option" where
  "demo_int w bs =
     (if length bs \<ge> 9 \<and> hd bs = CHR 0xd3 then
        let n = be_nat (take 8 (drop 1 bs)); i = (if n < 2 ^ 63 then int n else int n - 2 ^ 64)
        in if has_kind (KInt w) (AInt i) then Some (i, drop 9 bs) else None
      else None)"

definition demo_str :: "bytes \<Rightarrow> (string \<times> bytes) option" where
  "demo_str bs =
     (if length bs \<ge> 5 \<and> hd bs = CHR 0xdb then
        let n = be_nat (take 4 (drop 1 bs))
        in if n \<le> length bs - 5 then Some (take n (drop 5 bs), drop (5 + n) bs) else None
      else None)"

definition demo_codec :: "('m \<Rightarrow> bytes) \<Rightarrow> (bytes \<Rightarrow> 'm) \<Rightarrow> 'm \<Rightarrow> 'm msgpack_ops" where
  "demo_codec serialise parse blank =
     \<lparr>mp_pack_int = (\<lambda>i. CHR 0xd3 # be_chars 8 (nat (i mod 2 ^ 64))), mp_pack_str = (\<lambda>s. CHR 0xdb # be_chars 4 (length s) @ s),
      mp_str_head = (\<lambda>n. CHR 0xdb # be_chars 4 n), mp_int = demo_int, mp_str = demo_str,
      pb_bytes = serialise, pb_parse = parse, pb_new = blank\<rparr>"

definition demo_ops :: "string msgpack_ops" where
  "demo_ops = demo_codec (\<lambda>m. m) (\<lambda>bs. bs) []"

lemma be_chars_length [simp]: "length (be_chars k n) = k"
  by (simp add: be_chars_def)

lemma be_nat_chars: "be_nat (be_chars k n) = n mod 256 ^ k"
proof -
  have "of_nat (of_char (char_of (unat b))) = (b :: uint8_t)" for b
  proof -
    have "unat b < 256" using unsigned_less [of b] by simp
    then show ?thesis by simp
  qed
  then show ?thesis by (simp add: be_nat_def be_chars_def rev_map le_value_bytes comp_def)
qed

lemma demo_codec_laws: "(\<And>m. parse (serialise m) = m) \<Longrightarrow> msgpack_laws (demo_codec serialise parse blank)"
proof -
  have int: "demo_int w (CHR 0xd3 # be_chars 8 (nat (i mod 2 ^ 64)) @ r) = Some (i, r)"
    if "has_kind (KInt w) (AInt i)" "has_kind (KInt 64) (AInt i)" for w i r
  proof -
    have b: "- (2 ^ 63) \<le> i" "i < 2 ^ 63" using that(2) by simp_all
    define z where "z = nat (i mod 2 ^ 64)"
    have n: "be_nat (be_chars 8 z) = z" by (simp add: be_nat_chars nat_less_iff z_def)
    have "(if z < 2 ^ 63 then int z else int z - 2 ^ 64) = i"
    proof (cases "0 \<le> i")
      case True
      then have "i mod 2 ^ 64 = i" using b by (intro mod_pos_pos_trivial) simp_all
      then show ?thesis using True b by (simp add: nat_less_iff z_def)
    next
      case False
      then have "i mod 2 ^ 64 = i + 2 ^ 64" using b by (subst mod_add_self2 [symmetric]) (intro mod_pos_pos_trivial; simp)
      then show ?thesis using False b by (simp add: nat_less_iff z_def)
    qed
    then show ?thesis unfolding z_def [symmetric] using that(1) n by (simp add: demo_int_def Let_def del: has_kind.simps split: if_splits)
  qed
  have str: "demo_str (CHR 0xdb # be_chars 4 (length s) @ s @ r) = Some (s, r)" if "length s < 2 ^ 32" for s r
  proof -
    have "drop (5 + length s) (CHR 0xdb # be_chars 4 (length s) @ s @ r) = drop (length s) (drop 5 (CHR 0xdb # be_chars 4 (length s) @ s @ r))"
      by (simp only: drop_drop add.commute)
    also have "\<dots> = r" by simp
    finally show ?thesis using that by (simp add: demo_str_def Let_def be_nat_chars)
  qed
  show "(\<And>m. parse (serialise m) = m) \<Longrightarrow> msgpack_laws (demo_codec serialise parse blank)"
    using int str by (simp add: msgpack_laws_def demo_codec_def del: has_kind.simps)
qed

lemma demo_laws: "msgpack_laws demo_ops"
  unfolding demo_ops_def by (rule demo_codec_laws) simp


text \<open>
  A client calls \<^verbatim>\<open>add\<close> with a number and a vector and waits with callback 7; the server offers it as function 3. What
  runs is collected with its arguments.
\<close>

abbreviation demo_protocol :: "(string, bytes) rpc_protocol" where
  "demo_protocol \<equiv> msgpack_protocol demo_ops"

definition collect :: "nat \<Rightarrow> string rpc_arg list \<Rightarrow> (nat \<times> string rpc_arg list) list \<Rightarrow> (nat \<times> string rpc_arg list) list" where
  "collect f args log = log @ [(f, args)]"

definition demo_service :: "(nat, string) rpc_service" where
  "demo_service = the (rpc_service_new demo_protocol)"

definition demo_params :: "param_type list" where
  "demo_params = [PVal (TAtom (KInt 32)), PInfo, PVal (TVec (TAtom KStr))]"

definition demo_args :: "string rpc_arg list" where
  "demo_args = [ArgVal (VAtom (AInt 2)), ArgVal (VVec [VAtom (AStr ''a'')])]"

definition demo_server :: "(nat, string) rpc_service" where
  "demo_server = the (rpc_def demo_protocol ''add'' (User 3) demo_params demo_service)"

definition demo_client :: "(nat, string) rpc_service" where
  "demo_client = snd (the (rpc_call demo_protocol ''add'' demo_args (Some (7, [PVal (TAtom KStr)])) demo_service))"

lemma demo_services:
  "rpc_service_new demo_protocol = Some demo_service" "svc_wf demo_service" "pending demo_service = Map.empty"
  "mNextID demo_service = 0" "name \<noteq> ''rpc_reply'' \<Longrightarrow> offered demo_service name = None"
proof -
  obtain sv :: "(nat, string) rpc_service" where sv: "rpc_service_new demo_protocol = Some sv" "svc_wf sv" "pending sv = Map.empty"
    using new_service by blast
  have demo: "demo_service = sv" using sv(1) by (simp add: demo_service_def)
  show "rpc_service_new demo_protocol = Some demo_service" "svc_wf demo_service" "pending demo_service = Map.empty"
    using sv by (simp_all add: demo)
  have "c_str RPC_REPLY_STR = RPC_REPLY_STR" by (simp add: c_str_def RPC_REPLY_STR_def)
  then have "mNextID sv = 0 \<and> mRealFunctionPtr (mRpcFunctions sv) = [''rpc_reply'' \<mapsto> 0]"
    using sv(1) by (auto simp: rpc_service_new_def rpc_def_def insertFunction_def Let_def functor_mgr_new_def RPC_REPLY_STR_def)
  then show "mNextID demo_service = 0" "name \<noteq> ''rpc_reply'' \<Longrightarrow> offered demo_service name = None"
    by (simp_all add: demo offered_def fm_abs_def)
qed

lemma demo_server_facts:
  "svc_reach demo_protocol collect demo_service" "svc_reach demo_protocol collect demo_server" "offered demo_server ''add'' = Some (User 3, demo_params)"
  "offered demo_server ''sub'' = None"
proof -
  show reach: "svc_reach demo_protocol collect demo_service" by (rule svc_new) (rule demo_services)
  have "c_str ''add'' = ''add''" by (simp add: c_str_def)
  then obtain sv where sv: "rpc_def demo_protocol ''add'' (User 3) demo_params demo_service = Some sv" "offered sv ''add'' = Some (User 3, demo_params)"
      "offered sv ''sub'' = None"
    using def_law [OF demo_services(2), of "''add''" demo_protocol 3 demo_params] demo_services(5) [of "''add''"] demo_services(5) [of "''sub''"] by auto
  then have "demo_server = sv" by (simp add: demo_server_def)
  then show "svc_reach demo_protocol collect demo_server" "offered demo_server ''add'' = Some (User 3, demo_params)"
    "offered demo_server ''sub'' = None" using svc_def [OF reach] sv by simp_all
qed

lemma demo_client_facts:
  "rpc_call demo_protocol ''add'' demo_args (Some (7, [PVal (TAtom KStr)])) demo_service =
     Some (pr_message demo_protocol 1 ''add'' demo_args, demo_client)"
  "mNextID demo_client = 1" "pending demo_client 1 = Some (7, [PVal (TAtom KStr)])" "svc_reach demo_protocol collect demo_client"
proof -
  have "int_ok (mNextID demo_service + 1)" "c_str ''add'' = ''add''" by (simp_all add: demo_services int_ok_def c_str_def)
  then obtain sv where sv: "rpc_call demo_protocol ''add'' demo_args (Some (7, [PVal (TAtom KStr)])) demo_service =
      Some (pr_message demo_protocol 1 ''add'' demo_args, sv)" "mNextID sv = 1" "pending sv 1 = Some (7, [PVal (TAtom KStr)])"
    using call_law [OF demo_services(2), of demo_protocol "''add''" demo_args 7 "[PVal (TAtom KStr)]"] by (auto simp: demo_services(4))
  then have "demo_client = sv" by (simp add: demo_client_def)
  then show "rpc_call demo_protocol ''add'' demo_args (Some (7, [PVal (TAtom KStr)])) demo_service =
      Some (pr_message demo_protocol 1 ''add'' demo_args, demo_client)" "mNextID demo_client = 1"
    "pending demo_client 1 = Some (7, [PVal (TAtom KStr)])" "svc_reach demo_protocol collect demo_client"
    using sv svc_call [OF demo_server_facts(1) sv(1)] by simp_all
qed

theorem rpc_exchange_witness:
  "(\<exists>server'. handleRpc demo_protocol collect demo_server (pr_message demo_protocol 1 ''add'' demo_args) [] =
      Some (server', [(3, [ArgVal (VAtom (AInt 2)), ArgInfo 1, ArgVal (VVec [VAtom (AStr ''a'')])])])) \<and>
   (\<exists>answer later'. rpc_reply demo_protocol 1 [ArgVal (VAtom (AStr ''ok''))] None demo_server = Some (answer, demo_server) \<and>
      handleRpc demo_protocol collect demo_client answer [] = Some (later', [(7, [ArgVal (VAtom (AStr ''ok''))])]))"
proof -
  have c: "c_str ''add'' = ''add''" "to_string_int 1 = ''1''" by code_simp+
  have args: "list_all (arg_fits demo_ops) demo_args" "args_match demo_params demo_args" "list_all param_clear demo_params"
    by (simp_all add: demo_args_def demo_params_def)
  have res: "list_all (arg_fits demo_ops) [ArgVal (VAtom (AStr ''ok''))]" "args_match [PVal (TAtom KStr)] [ArgVal (VAtom (AStr ''ok'')) :: string rpc_arg]"
    "list_all param_clear [PVal (TAtom KStr)]" by simp_all
  have short: "length (pr_message demo_protocol (- 1) ''1'' [ArgVal (VAtom (AStr ''ok''))]) < 2 ^ 32"
    by (simp add: msgpack_protocol_def msgpack_message_def Let_def demo_ops_def demo_codec_def)
  have with_args: "with_info 1 demo_params demo_args = [ArgVal (VAtom (AInt 2)), ArgInfo 1, ArgVal (VVec [VAtom (AStr ''a'')])]"
    by (simp add: demo_args_def demo_params_def)
  note rpc_exchange [OF demo_laws demo_server_facts(1,2) demo_client_facts(1), unfolded c demo_client_facts(2),
      OF demo_server_facts(3) _ args demo_client_facts(4,3) res short, of "[]"]
  then show ?thesis using with_args by (auto simp: collect_def)
qed

theorem rpc_service_robust_witness:
  "handleRpc demo_protocol collect demo_server [] [] \<noteq> None \<and>
   handleRpc demo_protocol collect demo_server (pr_message demo_protocol 1 ''sub'' demo_args) [] = None"
proof -
  have "\<not> rpc_fault demo_ops demo_server []" by (simp add: rpc_fault_def msgpack_open_def demo_ops_def demo_codec_def demo_int_def)
  moreover have "rpc_fault demo_ops demo_server (pr_message demo_protocol 1 ''sub'' demo_args)"
  proof -
    have "int_ok 1" "mp_named demo_ops ''sub''" "list_all (mp_sendable demo_ops) demo_args"
      using demo_laws by (simp_all add: int_ok_def mp_named_def mp_sendable_def demo_args_def)
    then obtain s where "msgpack_open demo_ops (pr_message demo_protocol 1 ''sub'' demo_args) = Opened 1 ''sub'' s"
      using mp_open [of 1 demo_ops "''sub''" demo_args] by (auto simp: msgpack_protocol_def)
    then show ?thesis using demo_server_facts(4) by (simp add: rpc_fault_def)
  qed
  ultimately show ?thesis using rpc_service_robust [OF demo_server_facts(2)] by blast
qed

end
