(* ===== verification/Json_Props.thy ===== *)
theory Json_Props
  imports Json_Rpc Msgpack_Props
begin

text \<open>
  The JSON protocol keeps the same contract, for the types its overloads cover, so that the two protocols deliver the same
  arguments; and what it costs that its documents are not checked.
\<close>

section \<open>Documents and values\<close>

text \<open>The numbers and strings of a document; a string may not hold the null byte, which \<^verbatim>\<open>GetString\<close> would cut at.\<close>

fun json_ok :: "json \<Rightarrow> bool" where
  "json_ok (JInt i) \<longleftrightarrow> has_kind (KInt 64) (AInt i)"
| "json_ok (JStr s) \<longleftrightarrow> CHR 0x00 \<notin> set s"
| "json_ok (JArr js) \<longleftrightarrow> (\<forall>j \<in> set js. json_ok j)"
| "json_ok (JObj ms) \<longleftrightarrow> (\<forall>p \<in> set ms. CHR 0x00 \<notin> set (fst p) \<and> json_ok (snd p))"
| "json_ok (JOther s) \<longleftrightarrow> False"

text \<open>What the JSON library documents: the text of a document is parsed to that document.\<close>

definition json_laws :: "json_lib \<Rightarrow> bool" where
  "json_laws lib \<longleftrightarrow>
     (\<forall>j. json_ok j \<longrightarrow> json_parse lib (json_print lib j) = Some j \<and> CHR 0x00 \<notin> set (json_print lib j))"

text \<open>The types the overloads of \<^verbatim>\<open>readJson\<close> and \<^verbatim>\<open>writeJson\<close> cover.\<close>

fun kind_ok :: "kind \<Rightarrow> bool" where
  "kind_ok (KInt w) \<longleftrightarrow> w = 8 \<or> w = 16 \<or> w = 32 \<or> w = 64"
| "kind_ok KStr \<longleftrightarrow> True"

fun ty_ok :: "ty \<Rightarrow> bool" where
  "ty_ok (TAtom k) \<longleftrightarrow> kind_ok k"
| "ty_ok (TVec t) \<longleftrightarrow> ty_ok t"
| "ty_ok (TMap k t) \<longleftrightarrow> (k = KInt 32 \<or> k = KStr) \<and> ty_ok t"
| "ty_ok (TTup ts) \<longleftrightarrow> (\<forall>t \<in> set ts. ty_ok t)"

fun no_nul :: "atom \<Rightarrow> bool" where
  "no_nul (AInt i) \<longleftrightarrow> has_kind (KInt 64) (AInt i)"
| "no_nul (AStr s) \<longleftrightarrow> CHR 0x00 \<notin> set s"

fun printable :: "val \<Rightarrow> bool" where
  "printable (VAtom a) \<longleftrightarrow> no_nul a"
| "printable (VVec vs) \<longleftrightarrow> (\<forall>v \<in> set vs. printable v)"
| "printable (VMap m) \<longleftrightarrow> (\<forall>p \<in> set m. no_nul (fst p) \<and> printable (snd p))"
| "printable (VTup vs) \<longleftrightarrow> (\<forall>v \<in> set vs. printable v)"

section \<open>Indexed members\<close>

lemma to_string_inj: "to_string m = to_string n \<longleftrightarrow> m = n"
  using to_string_dec by metis

lemma to_string_no_nul: "CHR 0x00 \<notin> set (to_string n)"
  using to_string_int_no_nul [of "int n"] by (simp add: to_string_int_def)

lemma indexed_simps: "indexed n [] = []" "indexed n (j # js) = (to_string n, j) # indexed (Suc n) js"
proof -
  have "[n..<n + length (j # js)] = n # [Suc n..<Suc n + length js]" by (subst upt_conv_Cons) simp_all
  then show "indexed n (j # js) = (to_string n, j) # indexed (Suc n) js" by (simp only: indexed_def zip_Cons_Cons list.map prod.case)
qed (simp add: indexed_def)

lemma indexed_member: "i < length js \<Longrightarrow> map_of (indexed n js) (to_string (n + i)) = Some (js ! i)"
proof (induction js arbitrary: n i)
  case (Cons j js)
  show ?case
  proof (cases i)
    case (Suc k)
    then show ?thesis using Cons.IH [of k "Suc n"] Cons.prems by (simp add: indexed_simps to_string_inj)
  qed (simp add: indexed_simps)
qed simp

lemma indexed_ok: "(\<forall>p \<in> set (indexed n js). CHR 0x00 \<notin> set (fst p) \<and> json_ok (snd p)) \<longleftrightarrow> (\<forall>j \<in> set js. json_ok j)"
  by (induction js arbitrary: n) (auto simp: indexed_simps to_string_no_nul)

section \<open>Round trip of one value\<close>

lemma narrow_id: "has_kind (KInt w) (AInt i) \<Longrightarrow> narrow w i = i"
  by (simp add: narrow_def signed_take_bit_int_eq_self)

lemma kind_wider: "has_kind (KInt w) (AInt i) \<Longrightarrow> kind_ok (KInt w) \<Longrightarrow> has_kind (KInt 64) (AInt i) \<and> (w \<le> 32 \<longrightarrow> has_kind (KInt 32) (AInt i))"
  by auto

lemma jatom_law:
  assumes "has_kind k a" "kind_ok k" "no_nul a"
  shows "atom_read k (atom_write a) = Some a"
proof (cases k)
  case (KInt w)
  then obtain i where i: "a = AInt i" "has_kind (KInt w) (AInt i)" using assms(1) by (cases a) auto
  then have "has_kind (KInt 64) (AInt i)" "w \<le> 32 \<longrightarrow> has_kind (KInt 32) (AInt i)" using kind_wider assms(2) KInt by blast+
  then show ?thesis using i KInt assms(2) narrow_id [OF i(2)]
    by (auto simp: atom_read_def GetInt64_def GetInt_def simp del: has_kind.simps)
next
  case KStr
  then show ?thesis using assms by (cases a) (simp_all add: atom_read_def GetString_def c_str_same)
qed

lemma atoi_to_string_int: "int_ok i \<Longrightarrow> atoi (to_string_int i @ [CHR 0x00]) = Some i"
proof (cases "i < 0")
  case False
  assume "int_ok i"
  then show ?thesis using False atoi_dec [of "to_string (nat i)"] to_string_dec [of "nat i"]
    by (simp add: to_string_int_def int_ok_def nat_less_iff)
next
  case True
  assume i: "int_ok i"
  define ds where "ds = to_string (nat (- i))"
  have ds: "ds \<noteq> []" "\<forall>c \<in> set ds. is_dec c" "dec_value ds = nat (- i)" using to_string_dec [of "nat (- i)"] by (simp_all add: ds_def)
  have "takeWhile (\<lambda>c. c \<noteq> CHR 0x00) (ds @ [CHR 0x00]) = ds"
    using dec_text(3) [OF ds(1,2)] by (subst takeWhile_append2) auto
  moreover have "signed_text (CHR ''-'' # ds) = (True, ds)" by (simp add: signed_text_def is_space_def)
  ultimately show ?thesis
    using True i ds(3) by (simp add: to_string_int_def atoi_def Let_def dec_text(2) [OF ds(1,2)] flip: ds_def)
qed

lemma key_law:
  assumes "has_kind k a" "k = KInt 32 \<or> k = KStr" "no_nul a"
  shows "key_read k (key_write a) = Some a"
proof (cases a)
  case (AInt i)
  then have "int_ok i" "k = KInt 32" using assms by (auto simp: int_ok_def)
  then show ?thesis using AInt atoi_to_string_int [of i]
    by (simp add: key_read_def c_str_same to_string_int_no_nul)
next
  case (AStr s)
  then show ?thesis using assms by (cases k) (simp_all add: key_read_def c_str_same)
qed

lemma elements_law:
  assumes "\<And>v. v \<in> set vs \<Longrightarrow> rd (w v) = Some v"
  shows "read_elements rd acc (map w vs) = Some (acc @ vs)"
  using assms by (induction vs arbitrary: acc) auto

lemma members_law:
  assumes "\<And>p. p \<in> set m \<Longrightarrow> rd (w (snd p)) = Some (snd p)" "\<And>p. p \<in> set m \<Longrightarrow> key_read k (key_write (fst p)) = Some (fst p)"
    and "sorted_wrt (<) (map fst (acc @ m))"
  shows "read_members rd k acc (map (\<lambda>p. (key_write (fst p), w (snd p))) m) = Some (acc @ m)"
  using assms
proof (induction m arbitrary: acc)
  case (Cons p m)
  have "\<forall>q \<in> set acc. fst q < fst p" using Cons.prems(3) by (auto simp: sorted_wrt_append)
  then have "map_assign (fst p) (snd p) acc = acc @ [p]" by (simp add: map_assign_last)
  moreover have "read_members rd k (acc @ [p]) (map (\<lambda>p. (key_write (fst p), w (snd p))) m) = Some ((acc @ [p]) @ m)"
    using Cons.prems by (intro Cons.IH) simp_all
  ultimately show ?case using Cons.prems(1,2) by simp
qed simp

lemma tuple_law:
  assumes "\<And>t v e. t \<in> set ts \<Longrightarrow> v \<in> set vs \<Longrightarrow> has_type t v \<Longrightarrow> empty_at t e \<Longrightarrow> readJson t e (writeJson v) = Some v"
    and "list_all2 has_type ts vs" "list_all2 empty_at ts es" "\<And>i. i < length vs \<Longrightarrow> FindMember msg (to_string (n + i)) = Some (writeJson (vs ! i))"
  shows "readTuple n ts es msg = Some vs"
  using assms
proof (induction ts arbitrary: vs es n)
  case (Cons t ts)
  then obtain v ws e es' where l: "vs = v # ws" "has_type t v" "list_all2 has_type ts ws" "es = e # es'" "empty_at t e" "list_all2 empty_at ts es'"
    by (auto simp: list_all2_Cons1)
  have "FindMember msg (to_string n) = Some (writeJson v)" using Cons.prems(4) [of 0] l(1) by simp
  moreover have "readJson t e (writeJson v) = Some v" using Cons.prems(1) l by simp
  moreover have "readTuple (Suc n) ts es' msg = Some ws"
  proof (rule Cons.IH [OF _ l(3,6)])
    show "FindMember msg (to_string (Suc n + i)) = Some (writeJson (ws ! i))" if "i < length ws" for i
      using Cons.prems(4) [of "Suc i"] l(1) that by simp
  qed (use Cons.prems(1) l(1) in auto)
  ultimately show ?case using l(1,4) by simp
qed simp

lemma jvalue_law: "ty_ok t \<Longrightarrow> has_type t v \<Longrightarrow> printable v \<Longrightarrow> empty_at t old \<Longrightarrow> readJson t old (writeJson v) = Some v"
proof (induction t arbitrary: v old)
  case (TAtom k)
  then show ?case using jatom_law by auto
next
  case (TVec t)
  then obtain vs where v: "v = VVec vs" "\<forall>x \<in> set vs. has_type t x" "\<forall>x \<in> set vs. printable x" by auto
  have "read_elements (\<lambda>j. readJson t (new_value t) j) [] (map writeJson vs) = Some ([] @ vs)"
    using v TVec.IH [OF _ _ _ empty_new] TVec.prems(1) by (intro elements_law) auto
  then show ?case using v(1) TVec.prems(4) by simp
next
  case (TMap k t)
  then obtain m where v: "v = VMap m" "sorted_wrt (<) (map fst m)" "\<forall>p \<in> set m. has_kind k (fst p) \<and> has_type t (snd p)"
    "\<forall>p \<in> set m. no_nul (fst p) \<and> printable (snd p)" by auto
  have "read_members (\<lambda>j. readJson t (new_value t) j) k [] (map (\<lambda>p. (key_write (fst p), writeJson (snd p))) m) = Some ([] @ m)"
    using v TMap.IH [OF _ _ _ empty_new] TMap.prems(1) key_law by (intro members_law) auto
  then show ?case using v(1) TMap.prems(4) by simp
next
  case (TTup ts)
  then obtain vs es where v: "v = VTup vs" "list_all2 has_type ts vs" "\<forall>x \<in> set vs. printable x" "old = VTup es" "list_all2 empty_at ts es"
    by (auto simp: lists_pointwise)
  have "readTuple 0 ts es (JObj (indexed 0 (map writeJson vs))) = Some vs"
  proof (rule tuple_law [OF _ v(2,5)])
    show "FindMember (JObj (indexed 0 (map writeJson vs))) (to_string (0 + i)) = Some (writeJson (vs ! i))" if "i < length vs" for i
      using indexed_member [of i "map writeJson vs" 0] that by (simp add: FindMember_def)
  qed (use TTup.IH TTup.prems(1) v(3) in auto)
  then show ?case using v(1,4) by simp
qed

lemma write_ok: "printable v \<Longrightarrow> json_ok (writeJson v)"
proof (induction v)
  case (VAtom a)
  then show ?case by (cases a) (simp_all add: c_str_same)
next
  case (VMap m)
  have "CHR 0x00 \<notin> set (c_str s)" for s by (auto simp: c_str_def dest: set_takeWhileD)
  then have "CHR 0x00 \<notin> set (key_write a)" for a by (cases a) simp_all
  then show ?case using VMap by (auto simp: snds.simps)
next
  case (VTup vs)
  then show ?case by (simp add: indexed_ok)
qed simp

section \<open>The codec\<close>

definition arg_printable :: "unit rpc_arg \<Rightarrow> bool" where
  "arg_printable a \<longleftrightarrow> (\<exists>v. a = ArgVal v \<and> printable v)"

definition js_carries :: "nat \<times> json \<Rightarrow> unit rpc_arg list \<Rightarrow> bool" where
  "js_carries s args \<longleftrightarrow> list_all arg_printable args \<and>
     (\<forall>i < length args. FindMember (snd s) (to_string (fst s + i)) = Some (arg_json (args ! i)))"

definition js_named :: "json_lib \<Rightarrow> string \<Rightarrow> bool" where
  "js_named lib name \<longleftrightarrow> json_laws lib \<and> CHR 0x00 \<notin> set name"

fun js_readable :: "param_type \<Rightarrow> bool" where
  "js_readable (PVal t) \<longleftrightarrow> clearable t \<and> ty_ok t"
| "js_readable p \<longleftrightarrow> True"

lemma js_open:
  assumes "int_ok rid" "js_named lib name" "list_all arg_printable args"
  shows "\<exists>s. pr_open (json_protocol lib) (pr_message (json_protocol lib) rid name args) = Opened rid name s \<and> js_carries s args"
proof -
  define parm where "parm = JObj (indexed 0 (map arg_json args))"
  define doc where "doc = JObj [(''name'', JStr name), (''parm'', parm), (''req_id'', JInt rid)]"
  have n: "json_laws lib" "CHR 0x00 \<notin> set name" using assms(2) by (simp_all add: js_named_def)
  have rid: "has_kind (KInt 32) (AInt rid)" "has_kind (KInt 64) (AInt rid)" using assms(1) by (simp_all add: int_ok_def)
  have "json_ok (arg_json a)" if "a \<in> set args" for a
    using that assms(3) write_ok by (auto simp: list_all_iff arg_printable_def)
  then have "json_ok parm" by (simp add: parm_def indexed_ok)
  then have "json_ok doc" using n(2) rid(2) by (simp add: doc_def del: has_kind.simps)
  then have "json_parse lib (json_print lib doc) = Some doc" "c_str (json_print lib doc) = json_print lib doc"
    using n(1) by (simp_all add: json_laws_def c_str_same)
  then have "pr_open (json_protocol lib) (pr_message (json_protocol lib) rid name args) = Opened rid name (0, parm)"
    using n(2) rid(1)
    by (simp add: json_protocol_def json_open_def json_message_def FindMember_def GetString_def GetInt_def c_str_same
        del: has_kind.simps flip: parm_def doc_def) (simp add: doc_def c_str_same del: has_kind.simps)
  moreover have "FindMember parm (to_string i) = Some (arg_json (args ! i))" if "i < length args" for i
    using indexed_member [of i "map arg_json args" 0] that by (simp add: FindMember_def parm_def)
  then have "js_carries (0, parm) args" using assms(3) by (simp add: js_carries_def)
  ultimately show ?thesis by blast
qed

lemma js_read:
  assumes c: "js_carries s (a # args)" and p: "arg_type p a" "p \<noteq> PInfo" "js_readable p" "arg_shape p old"
  shows "\<exists>s'. pr_read (json_protocol lib) p (clear_arg p old) s = (a, Done s') \<and> js_carries s' args"
proof -
  obtain v where v: "a = ArgVal v" "printable v" using c by (auto simp: js_carries_def arg_printable_def)
  obtain t w where t: "p = PVal t" "has_type t v" "old = ArgVal w" "shape_ok t w" "clearable t" "ty_ok t"
    using p v(1) by (cases p) auto
  have "FindMember (snd s) (to_string (fst s)) = Some (writeJson v)" using c v(1) by (auto simp: js_carries_def)
  moreover have "readJson t (clear_value t w) (writeJson v) = Some v"
    using jvalue_law [OF t(6,2) v(2)] empty_clear(1) [OF t(4,5)] by simp
  moreover have "FindMember (snd s) (to_string (Suc (fst s) + i)) = Some (arg_json (args ! i))" if "i < length args" for i
  proof -
    have "Suc i < length (a # args)" using that by simp
    then have "FindMember (snd s) (to_string (fst s + Suc i)) = Some (arg_json ((a # args) ! Suc i))" using c unfolding js_carries_def by blast
    then show ?thesis by simp
  qed
  then have "js_carries (Suc (fst s), snd s) args" using c by (simp add: js_carries_def)
  ultimately show ?thesis using t(1,3) v(1) by (simp add: json_protocol_def json_read_def)
qed

lemma readJson_shape: "shape_ok t v \<Longrightarrow> readJson t v msg = Some v' \<Longrightarrow> shape_ok t v'"
  and readTuple_shape: "shapes_ok ts vs \<Longrightarrow> readTuple n ts vs msg = Some vs' \<Longrightarrow> shapes_ok ts vs'"
proof (induction t v msg and n ts vs msg arbitrary: v' and vs' rule: readJson_readTuple.induct)
  case (4 ts v msg)
  then show ?case by (cases msg) auto
qed (auto split: json.splits Option.bind_splits)

lemma js_shape: "arg_shape p a \<Longrightarrow> arg_shape p (fst (pr_read (json_protocol lib) p a s))"
  using readJson_shape
  by (cases p; cases a) (auto simp: json_protocol_def json_read_def split: option.splits Option.bind_splits)

interpretation js: rpc_codec "json_protocol lib" js_carries arg_printable "js_named lib" js_readable for lib
  by unfold_locales (use js_shape js_open js_read in \<open>blast | simp\<close>)+

end
