(* ===== verification/Json_Text.thy ===== *)
theory Json_Text
  imports Json_Props
begin

text \<open>
  The properties of the two protocols together, and a concrete JSON library for their witness: the compact text that the
  code's library prints, with the escapes for the quote and the backslash, and a parser for it.
\<close>

section \<open>Text\<close>

definition esc :: "char \<Rightarrow> string" where
  "esc c = (if c = CHR 0x22 \<or> c = CHR 0x5C then [CHR 0x5C, c] else [c])"

definition print_str :: "string \<Rightarrow> string" where
  "print_str s = CHR 0x22 # concat (map esc s) @ [CHR 0x22]"

fun join :: "string list \<Rightarrow> string" where
  "join [] = []"
| "join [x] = x"
| "join (x # y # xs) = x @ CHR '','' # join (y # xs)"

fun demo_print :: "json \<Rightarrow> string" where
  "demo_print (JInt i) = to_string_int i"
| "demo_print (JStr s) = print_str s"
| "demo_print (JArr js) = CHR ''['' # join (map demo_print js) @ '']''"
| "demo_print (JObj ms) = CHR ''{'' # join (map (\<lambda>p. print_str (fst p) @ CHR '':'' # demo_print (snd p)) ms) @ ''}''"
| "demo_print (JOther s) = s"

fun parse_str :: "string \<Rightarrow> (string \<times> string) option" where
  "parse_str [] = None"
| "parse_str (c # cs) =
     (if c = CHR 0x22 then Some ([], cs)
      else if c = CHR 0x5C then (case cs of [] \<Rightarrow> None | d # ds \<Rightarrow> map_option (apfst ((#) d)) (parse_str ds))
      else map_option (apfst ((#) c)) (parse_str cs))"

definition num_char :: "char \<Rightarrow> bool" where
  "num_char c \<longleftrightarrow> is_dec c \<or> c = CHR ''-''"

definition num_value :: "string \<Rightarrow> int" where
  "num_value t = (if t \<noteq> [] \<and> hd t = CHR ''-'' then - int (dec_value (tl t)) else int (dec_value t))"

fun parse :: "nat \<Rightarrow> string \<Rightarrow> (json \<times> string) option"
  and parse_vals :: "nat \<Rightarrow> string \<Rightarrow> (json list \<times> string) option"
  and parse_mems :: "nat \<Rightarrow> string \<Rightarrow> ((string \<times> json) list \<times> string) option" where
  "parse 0 s = None"
| "parse (Suc f) s =
     (case s of
        [] \<Rightarrow> None
      | c # r \<Rightarrow>
          if c = CHR 0x22 then map_option (apfst JStr) (parse_str r)
          else if c = CHR ''['' then
            (if r \<noteq> [] \<and> hd r = CHR '']'' then Some (JArr [], tl r) else map_option (apfst JArr) (parse_vals f r))
          else if c = CHR ''{'' then
            (if r \<noteq> [] \<and> hd r = CHR ''}'' then Some (JObj [], tl r) else map_option (apfst JObj) (parse_mems f r))
          else if num_char c then Some (JInt (num_value (takeWhile num_char s)), dropWhile num_char s)
          else None)"
| "parse_vals 0 s = None"
| "parse_vals (Suc f) s =
     (case parse f s of
        Some (j, c # r) \<Rightarrow>
          if c = CHR '','' then map_option (apfst ((#) j)) (parse_vals f r)
          else if c = CHR '']'' then Some ([j], r)
          else None
      | _ \<Rightarrow> None)"
| "parse_mems 0 s = None"
| "parse_mems (Suc f) s =
     (case parse_str (drop 1 s) of
        Some (n, d # r1) \<Rightarrow>
          if d = CHR '':'' then
            (case parse f r1 of
               Some (j, c # r) \<Rightarrow>
                 if c = CHR '','' then map_option (apfst ((#) (n, j))) (parse_mems f r)
                 else if c = CHR ''}'' then Some ([(n, j)], r)
                 else None
             | _ \<Rightarrow> None)
          else None
      | _ \<Rightarrow> None)"

definition demo_lib :: json_lib where
  "demo_lib = \<lparr>json_parse = (\<lambda>s. case parse (Suc (length s)) s of Some (j, []) \<Rightarrow> Some j | _ \<Rightarrow> None), json_print = demo_print\<rparr>"

section \<open>The parser undoes the printer\<close>

lemma parse_print_str: "parse_str (concat (map esc s) @ CHR 0x22 # rest) = Some (s, rest)"
  by (induction s) (auto simp: esc_def)

lemma parse_quoted: "parse_str (drop 1 (print_str s @ rest)) = Some (s, rest)"
  using parse_print_str [of s rest] by (simp add: print_str_def)

lemma int_text:
  "to_string_int i \<noteq> []" "\<forall>c \<in> set (to_string_int i). num_char c" "num_value (to_string_int i) = i"
proof -
  have d: "to_string n \<noteq> []" "\<forall>c \<in> set (to_string n). is_dec c" "dec_value (to_string n) = n" for n using to_string_dec by auto
  have "hd (to_string n) \<noteq> CHR ''-''" for n
  proof -
    have "is_dec (hd (to_string n))" using d(1,2) [of n] by simp
    then show ?thesis by (auto simp: is_dec_def)
  qed
  then show "to_string_int i \<noteq> []" "\<forall>c \<in> set (to_string_int i). num_char c" "num_value (to_string_int i) = i"
    using d by (auto simp: to_string_int_def num_value_def num_char_def)
qed

text \<open>What may follow a number.\<close>

definition stops :: "string \<Rightarrow> bool" where
  "stops rest \<longleftrightarrow> rest = [] \<or> \<not> num_char (hd rest)"

lemma not_num: "\<not> num_char (CHR 0x22)" "\<not> num_char (CHR '','')" "\<not> num_char (CHR '']'')" "\<not> num_char (CHR ''}'')" "\<not> num_char (CHR ''['')" "\<not> num_char (CHR ''{'')"
  by (simp_all add: num_char_def is_dec_def)

lemma print_head: "json_ok j \<Longrightarrow> demo_print j \<noteq> [] \<and> hd (demo_print j) \<noteq> CHR '']''"
proof (cases j)
  case (JInt i)
  have "num_char (hd (to_string_int i))" using int_text(1,2) [of i] by (meson hd_in_set)
  then have "num_char (hd (demo_print j))" using JInt by simp
  then show ?thesis using JInt int_text(1) not_num by auto
qed (auto simp: print_str_def)

lemma parse_demo: "json_ok j \<Longrightarrow> stops rest \<Longrightarrow> length (demo_print j) < f \<Longrightarrow> parse f (demo_print j @ rest) = Some (j, rest)"
proof (induction j arbitrary: f rest)
  case (JInt i)
  then obtain g where f: "f = Suc g" by (cases f) auto
  define t where "t = to_string_int i"
  obtain c r where t: "t = c # r" "\<forall>c \<in> set t. num_char c" "num_value t = i" using int_text [of i] by (cases t) (auto simp: t_def)
  have "takeWhile num_char (t @ rest) = t" "dropWhile num_char (t @ rest) = rest"
    using t(2) JInt(2) by (cases rest; simp add: stops_def takeWhile_append dropWhile_append)+
  moreover have "c \<noteq> CHR 0x22" "c \<noteq> CHR ''[''" "c \<noteq> CHR ''{''" "num_char c" using t(1,2) not_num by auto
  ultimately show ?case using f t(1,3) by (simp flip: t_def)
next
  case (JStr s)
  then obtain g where "f = Suc g" by (cases f) auto
  then show ?case using parse_print_str [of s rest] by (simp add: print_str_def)
next
  case (JArr js)
  have vals: "parse_vals f (join (map demo_print js) @ CHR '']'' # rest) = Some (js, rest)"
    if "js \<noteq> []" "\<forall>j \<in> set js. json_ok j" "length (join (map demo_print js)) + 1 < f"
      "\<And>j f rest. j \<in> set js \<Longrightarrow> json_ok j \<Longrightarrow> stops rest \<Longrightarrow> length (demo_print j) < f \<Longrightarrow> parse f (demo_print j @ rest) = Some (j, rest)" for js f
    using that
  proof (induction js arbitrary: f)
    case (Cons j js)
    then obtain g where f: "f = Suc g" by (cases f) auto
    show ?case
    proof (cases js)
      case Nil
      have "parse g (demo_print j @ CHR '']'' # rest) = Some (j, CHR '']'' # rest)"
        using Cons.prems Nil f by (intro Cons.prems(4)) (auto simp: stops_def not_num)
      then show ?thesis using Nil f by simp
    next
      case (Cons k ks)
      have "parse g (demo_print j @ CHR '','' # join (map demo_print js) @ CHR '']'' # rest) =
          Some (j, CHR '','' # join (map demo_print js) @ CHR '']'' # rest)"
        using Cons.prems Cons f by (intro Cons.prems(4)) (auto simp: stops_def not_num)
      moreover have "parse_vals g (join (map demo_print js) @ CHR '']'' # rest) = Some (js, rest)"
        using Cons.prems Cons f by (intro Cons.IH) auto
      ultimately show ?thesis using Cons f by simp
    qed
  qed simp
  obtain g where f: "f = Suc g" using JArr(4) by (cases f) auto
  show ?case
  proof (cases js)
    case Nil
    then show ?thesis using f by simp
  next
    case (Cons k ks)
    have "hd (join (map demo_print js) @ CHR '']'' # rest) \<noteq> CHR '']''"
      using print_head [of k] JArr(2) Cons by (cases ks) auto
    moreover have "parse_vals g (join (map demo_print js) @ CHR '']'' # rest) = Some (js, rest)"
      using JArr Cons f by (intro vals) auto
    ultimately show ?thesis using f by simp
  qed
next
  case (JObj ms)
  let ?p = "\<lambda>p. print_str (fst p) @ CHR '':'' # demo_print (snd p)"
  have mems: "parse_mems f (join (map ?p ms) @ CHR ''}'' # rest) = Some (ms, rest)"
    if "ms \<noteq> []" "\<forall>p \<in> set ms. json_ok (snd p)" "length (join (map ?p ms)) + 1 < f"
      "\<And>p f rest. p \<in> set ms \<Longrightarrow> json_ok (snd p) \<Longrightarrow> stops rest \<Longrightarrow> length (demo_print (snd p)) < f \<Longrightarrow>
         parse f (demo_print (snd p) @ rest) = Some (snd p, rest)" for ms f
    using that
  proof (induction ms arbitrary: f)
    case (Cons p ms)
    then obtain g where f: "f = Suc g" by (cases f) auto
    show ?case
    proof (cases ms)
      case Nil
      have "parse g (demo_print (snd p) @ CHR ''}'' # rest) = Some (snd p, CHR ''}'' # rest)"
        using Cons.prems Nil f by (intro Cons.prems(4)) (auto simp: stops_def not_num)
      then show ?thesis using Nil f parse_quoted [of "fst p" "CHR '':'' # demo_print (snd p) @ CHR ''}'' # rest"] by simp
    next
      case (Cons q qs)
      define tail where "tail = join (map ?p ms) @ CHR ''}'' # rest"
      have "parse g (demo_print (snd p) @ CHR '','' # tail) = Some (snd p, CHR '','' # tail)"
        using Cons.prems Cons f by (intro Cons.prems(4)) (auto simp: stops_def not_num)
      moreover have "parse_mems g tail = Some (ms, rest)"
        unfolding tail_def using Cons.prems Cons f by (intro Cons.IH) auto
      moreover have "join (map ?p (p # ms)) @ CHR ''}'' # rest = print_str (fst p) @ CHR '':'' # demo_print (snd p) @ CHR '','' # tail"
        using Cons by (simp add: tail_def)
      ultimately show ?thesis using f parse_quoted [of "fst p" "CHR '':'' # demo_print (snd p) @ CHR '','' # tail"] by simp
    qed
  qed simp
  obtain g where f: "f = Suc g" using JObj(4) by (cases f) auto
  show ?case
  proof (cases ms)
    case Nil
    then show ?thesis using f by simp
  next
    case (Cons q qs)
    have "hd (join (map ?p ms) @ CHR ''}'' # rest) \<noteq> CHR ''}''" using Cons by (cases qs) (auto simp: print_str_def)
    moreover have "parse_mems g (join (map ?p ms) @ CHR ''}'' # rest) = Some (ms, rest)"
      using JObj Cons f by (intro mems) (auto simp: snds.simps)
    ultimately show ?thesis using f by simp
  qed
qed simp


lemma print_no_nul: "json_ok j \<Longrightarrow> CHR 0x00 \<notin> set (demo_print j)"
proof (induction j)
  case (JInt i)
  then show ?case by (simp add: to_string_int_no_nul)
next
  case (JStr s)
  then show ?case by (auto simp: print_str_def esc_def)
next
  case (JArr js)
  have "set (join xs) \<subseteq> insert (CHR '','') (\<Union>x \<in> set xs. set x)" for xs by (induction xs rule: join.induct) auto
  then show ?case using JArr by fastforce
next
  case (JObj ms)
  have "set (join xs) \<subseteq> insert (CHR '','') (\<Union>x \<in> set xs. set x)" for xs by (induction xs rule: join.induct) auto
  moreover have "CHR 0x00 \<notin> set (print_str (fst p) @ CHR '':'' # demo_print (snd p))" if "p \<in> set ms" for p
    using JObj that by (cases p) (auto simp: print_str_def esc_def)
  ultimately show ?case by fastforce
qed simp

lemma demo_lib_laws: "json_laws demo_lib"
proof -
  have "parse (Suc (length (demo_print j))) (demo_print j) = Some (j, [])" if "json_ok j" for j
    using parse_demo [OF that, of "[]" "Suc (length (demo_print j))"] by (simp add: stops_def del: parse.simps)
  then show ?thesis using print_no_nul by (simp add: json_laws_def demo_lib_def del: parse.simps)
qed

section \<open>Properties\<close>

text \<open>
  C20. A call of the same function with the same arguments over the two protocols runs the function with the same arguments
  and the same request id, exactly once, whatever the two services did before. The name and the strings among the arguments have no null
  byte (\<open>arg_printable\<close>), where JSON would cut them, and the parameters are of the kinds that JSON can read (\<open>js_readable\<close>).
\<close>

theorem protocols_agree:
  assumes "msgpack_laws ops" "json_laws lib"
    and "svc_reach (msgpack_protocol ops) user sv1" "svc_reach (json_protocol lib) user sv2"
    and "offered sv1 name = Some (User f, ps)" "offered sv2 name = Some (User f, ps)"
    and "int_ok rid" "CHR 0x00 \<notin> set name" "length name < 2 ^ 32"
    and "args_match ps args" "list_all js_readable ps" "list_all arg_printable args" "list_all (arg_fits ops) args"
  shows "\<exists>sv1' sv2'.
    handleRpc (msgpack_protocol ops) user sv1 (pr_message (msgpack_protocol ops) rid name args) u = Some (sv1', user f (with_info rid ps args) u) \<and>
    handleRpc (json_protocol lib) user sv2 (pr_message (json_protocol lib) rid name args) u = Some (sv2', user f (with_info rid ps args) u)"
proof -
  have wf: "svc_wf sv1" "svc_wf sv2" using mpr.reach_wf assms(3) js.reach_wf assms(4) by blast+
  have named: "mp_named ops name" "js_named lib name" using assms(1,2,8,9) by (simp_all add: mp_named_def js_named_def)
  have send: "list_all (mp_sendable ops) args" using assms(1,13) by (auto simp: mp_sendable_def list_all_iff)
  have "js_readable p \<Longrightarrow> param_clear p" for p by (cases p) simp_all
  then have clear: "list_all param_clear ps" using assms(11) by (auto simp: list_all_iff)
  show ?thesis
    using mp.handle_call [OF wf(1) assms(5,7) named(1) send assms(10) clear, where user = user and u = u]
      js.handle_call [OF wf(2) assms(6,7) named(2) assms(12,10,11), where user = user and u = u] by blast
qed

text \<open>The answer of a JSON service runs the callback it is for, as with the other protocol.\<close>

lemma json_reply:
  assumes "json_laws lib" "svc_reach (json_protocol lib) user sv" "pending sv i = Some (f, ps)"
    and "args_match ps results" "list_all js_readable ps" "list_all arg_printable results"
  shows "\<exists>sv'. handleRpc (json_protocol lib) user sv (reply_message (json_protocol lib) i results) u =
      Some (sv', user f (with_info (- 1) ps results) u) \<and> pending sv' = (pending sv)(i := None)"
proof -
  have wf: "svc_wf sv" using js.reach_wf assms(2) .
  have i: "int_ok i" using pending_id [OF wf, of i] assms(3) wf by (auto simp: svc_wf_def int_ok_def)
  have named: "js_named lib RPC_REPLY_STR" "js_named lib (to_string_int i)"
    using assms(1) to_string_int_no_nul by (simp_all add: js_named_def RPC_REPLY_STR_def)
  have "CHR 0x00 \<notin> set (pr_message (json_protocol lib) (- 1) (to_string_int i) results)"
    by (auto simp: json_protocol_def json_message_def c_str_def dest: set_takeWhileD)
  then have send: "arg_printable (ArgVal (VAtom (AInt i)))"
    "arg_printable (ArgVal (VAtom (AStr (pr_message (json_protocol lib) (- 1) (to_string_int i) results))))"
    using i by (simp_all add: arg_printable_def int_ok_def)
  show ?thesis using js.handle_reply(1) [OF wf i named send assms(6,3,4,5), where user = user and u = u] by blast
qed

text \<open>A text that is not JSON fails an assertion of the library instead of being refused.\<close>

lemma json_garbage_fails: "json_parse lib (c_str str) = None \<Longrightarrow> handleRpc (json_protocol lib) user sv str u = None"
  by (simp add: handleRpc_def execute_def json_protocol_def json_open_def)

section \<open>Witness\<close>

definition unit_ops :: "unit msgpack_ops" where
  "unit_ops = demo_codec (\<lambda>m. []) (\<lambda>bs. ()) ()"

definition log_call :: "nat \<Rightarrow> unit rpc_arg list \<Rightarrow> (nat \<times> unit rpc_arg list) list \<Rightarrow> (nat \<times> unit rpc_arg list) list" where
  "log_call f args log = log @ [(f, args)]"

lemma demo_offer:
  fixes pr :: "('m, 's) rpc_protocol" and user :: "nat \<Rightarrow> 'm rpc_arg list \<Rightarrow> 'u \<Rightarrow> 'u"
  obtains sv0 sv where "rpc_service_new pr = Some sv0" "rpc_def pr ''put'' (User 5) ps sv0 = Some sv" "svc_reach pr user sv"
    "offered sv ''put'' = Some (User 5, ps)"
proof -
  obtain sv0 :: "(nat, 'm) rpc_service" where sv0: "rpc_service_new pr = Some sv0" "svc_wf sv0" using new_service by blast
  have "offered sv0 ''put'' = None"
    using sv0(1) by (auto simp: rpc_service_new_def rpc_def_def insertFunction_def Let_def functor_mgr_new_def RPC_REPLY_STR_def
        offered_def fm_abs_def c_str_def)
  then obtain sv where "rpc_def pr ''put'' (User 5) ps sv0 = Some sv" "offered sv ''put'' = Some (User 5, ps)"
    using def_law [OF sv0(2), of "''put''" pr 5 ps] by (auto simp: c_str_def)
  then show ?thesis using that sv0(1) svc_new svc_def by metis
qed

theorem protocols_agree_witness:
  "\<exists>sv1 sv2 sv1' sv2'.
    rpc_def (msgpack_protocol unit_ops) ''put'' (User 5) [PVal (TMap KStr (TVec (TAtom (KInt 16)))), PInfo] (the (rpc_service_new (msgpack_protocol unit_ops))) = Some sv1 \<and>
    rpc_def (json_protocol demo_lib) ''put'' (User 5) [PVal (TMap KStr (TVec (TAtom (KInt 16)))), PInfo] (the (rpc_service_new (json_protocol demo_lib))) = Some sv2 \<and>
    handleRpc (msgpack_protocol unit_ops) log_call sv1
      (pr_message (msgpack_protocol unit_ops) 9 ''put'' [ArgVal (VMap [(AStr ''a'', VVec [VAtom (AInt (- 3))])])]) [] =
      Some (sv1', [(5, [ArgVal (VMap [(AStr ''a'', VVec [VAtom (AInt (- 3))])]), ArgInfo 9])]) \<and>
    handleRpc (json_protocol demo_lib) log_call sv2
      (pr_message (json_protocol demo_lib) 9 ''put'' [ArgVal (VMap [(AStr ''a'', VVec [VAtom (AInt (- 3))])])]) [] =
      Some (sv2', [(5, [ArgVal (VMap [(AStr ''a'', VVec [VAtom (AInt (- 3))])]), ArgInfo 9])])"
proof -
  define ps where "ps = [PVal (TMap KStr (TVec (TAtom (KInt 16)))), PInfo]"
  define args where "args = [ArgVal (VMap [(AStr ''a'', VVec [VAtom (AInt (- 3))])]) :: unit rpc_arg]"
  have laws: "msgpack_laws unit_ops" unfolding unit_ops_def by (rule demo_codec_laws) simp
  obtain sv0 sv1 where s1: "rpc_service_new (msgpack_protocol unit_ops) = Some sv0" "rpc_def (msgpack_protocol unit_ops) ''put'' (User 5) ps sv0 = Some sv1"
    "svc_reach (msgpack_protocol unit_ops) log_call sv1" "offered sv1 ''put'' = Some (User 5, ps)" by (rule demo_offer)
  obtain tv0 sv2 where s2: "rpc_service_new (json_protocol demo_lib) = Some tv0" "rpc_def (json_protocol demo_lib) ''put'' (User 5) ps tv0 = Some sv2"
    "svc_reach (json_protocol demo_lib) log_call sv2" "offered sv2 ''put'' = Some (User 5, ps)" by (rule demo_offer)
  have args: "int_ok 9" "CHR 0x00 \<notin> set ''put''" "length ''put'' < 2 ^ 32" "args_match ps args" "list_all js_readable ps" "list_all arg_printable args"
    "list_all (arg_fits unit_ops) args" by (simp_all add: ps_def args_def int_ok_def arg_printable_def)
  have "with_info 9 ps args = [ArgVal (VMap [(AStr ''a'', VVec [VAtom (AInt (- 3))])]), ArgInfo 9]" by (simp add: ps_def args_def)
  then show ?thesis
    using protocols_agree [OF laws demo_lib_laws s1(3) s2(3) s1(4) s2(4) args, of "[]"] s1(1,2) s2(1,2)
    unfolding ps_def args_def by (auto simp: log_call_def)
qed

end
