(* ===== verification/Timeaction.thy ===== *)
theory Timeaction
  imports Interfaces "HOL-Library.Monad_Syntax"
begin

text \<open>
  The timer manager in C of \<^verbatim>\<open>src/utils/timeaction.c\<close>: an array of nodes, a stack of the numbers of the free ones, and a
  heap of the numbers of those in use, ordered by their times. The stack and the heap are libraries that are not in the
  repository: their operations are the record \<open>timer_lib\<close>, what one round of allocations grants is \<open>timer_alloc\<close>. The
  heap gets the times its comparator reads from the nodes as an argument. \<open>live\<close> counts the objects on the heap of the process.
  \<open>None\<close> is a null pointer used, an access outside the array or an overflow, or a loop that does not end.
\<close>

section \<open>State\<close>

record ('st, 'h) timer_lib =
  id_push :: "'st \<Rightarrow> int \<Rightarrow> 'st"
  id_popback :: "'st \<Rightarrow> int option \<times> 'st"
  heap_top :: "'h \<Rightarrow> int option"
  heap_pop :: "(int \<Rightarrow> int) \<Rightarrow> 'h \<Rightarrow> 'h"
  heap_insert :: "(int \<Rightarrow> int) \<Rightarrow> 'h \<Rightarrow> int \<Rightarrow> 'h"
  heap_increase :: "'h \<Rightarrow> int \<Rightarrow> bool \<times> 'h"

record ('st, 'h) timer_alloc =
  heap_new :: "int \<Rightarrow> 'h option"
  nodes_granted :: bool
  ids_new :: "int \<Rightarrow> 'st option"

record ('c, 'a) timeaction_node_s =
  node_index :: int
  left_time :: int
  node_arg :: "'a option"
  node_callback :: "'c option"

record ('c, 'a, 'st, 'h) timer_mgr_s =
  node_num :: int
  free_node_ids :: "'st option"
  node_array :: "('c, 'a) timeaction_node_s list option"
  compositor_heap :: "'h option"

definition i64_ok :: "int \<Rightarrow> bool" where
  "i64_ok x \<longleftrightarrow> - (2 ^ 63) \<le> x \<and> x < 2 ^ 63"

definition node_of :: "('c, 'a, 'st, 'h) timer_mgr_s \<Rightarrow> int \<Rightarrow> ('c, 'a) timeaction_node_s option" where
  "node_of self i =
     do { arr \<leftarrow> node_array self; if 0 \<le> i \<and> i < int (length arr) then Some (arr ! nat i) else None }"

definition put_timer_node :: "int \<Rightarrow> ('c, 'a) timeaction_node_s \<Rightarrow> ('c, 'a, 'st, 'h) timer_mgr_s \<Rightarrow> ('c, 'a, 'st, 'h) timer_mgr_s" where
  "put_timer_node i nd self = self\<lparr>node_array := map_option (\<lambda>arr. arr[nat i := nd]) (node_array self)\<rparr>"

text \<open>What \<^verbatim>\<open>compare_timer\<close> compares.\<close>

definition timer_key :: "('c, 'a, 'st, 'h) timer_mgr_s \<Rightarrow> int \<Rightarrow> int" where
  "timer_key self i = (case node_of self i of None \<Rightarrow> 0 | Some nd \<Rightarrow> left_time nd)"

section \<open>Creation and growth\<close>

definition timeaction_node_init :: "int \<Rightarrow> ('c, 'a) timeaction_node_s" where
  "timeaction_node_init i = \<lparr>node_index = i, left_time = 0, node_arg = None, node_callback = None\<rparr>"

definition count_some :: "'x option \<Rightarrow> nat" where
  "count_some p = (if p = None then 0 else 1)"

definition timer_objects :: "('c, 'a, 'st, 'h) timer_mgr_s \<Rightarrow> nat" where
  "timer_objects self = count_some (free_node_ids self) + count_some (node_array self) + count_some (compositor_heap self)"

definition timeaction_mgr_destroy :: "('c, 'a, 'st, 'h) timer_mgr_s \<Rightarrow> nat \<Rightarrow> ('c, 'a, 'st, 'h) timer_mgr_s \<times> nat" where
  "timeaction_mgr_destroy self live =
     (self\<lparr>free_node_ids := None, node_array := None, compositor_heap := None\<rparr>, live - timer_objects self)"

partial_function (option) move_ids :: "('st, 'h) timer_lib \<Rightarrow> 'st \<Rightarrow> 'st \<Rightarrow> 'st option" where
  "move_ids lib old_ids new_ids =
     (case id_popback lib old_ids of
        (None, s) \<Rightarrow> Some new_ids
      | (Some i, s) \<Rightarrow> move_ids lib s (id_push lib new_ids i))"

declare move_ids.simps [code]

definition timeaction_mgr_init ::
  "('st, 'h) timer_lib \<Rightarrow> ('st, 'h) timer_alloc \<Rightarrow> int \<Rightarrow> ('c, 'a, 'st, 'h) timer_mgr_s \<Rightarrow> nat \<Rightarrow>
   (bool \<times> ('c, 'a, 'st, 'h) timer_mgr_s \<times> nat) option" where
  "timeaction_mgr_init lib al num self live =
     (case (case compositor_heap self of
              None \<Rightarrow> (True, heap_new al num)
            | Some h \<Rightarrow> (case heap_increase lib h num of (ok, h') \<Rightarrow> (ok, Some h'))) of
        (False, h) \<Rightarrow> Some (False, self\<lparr>compositor_heap := h\<rparr>, live)
      | (True, h) \<Rightarrow>
          let self1 = self\<lparr>compositor_heap := h\<rparr>;
              live1 = live + count_some h - count_some (compositor_heap self)
          in (case (nodes_granted al, ids_new al num) of
                (True, Some new_ids) \<Rightarrow>
                  if node_num self \<le> num then
                    do {
                      ids1 \<leftarrow> (case free_node_ids self1 of None \<Rightarrow> Some new_ids | Some old \<Rightarrow> move_ids lib old new_ids);
                      let fresh = [node_num self..num - 1];
                      let nodes = (case node_array self1 of None \<Rightarrow> [] | Some arr \<Rightarrow> arr) @ map timeaction_node_init fresh;
                      Some (True,
                            self1\<lparr>node_array := Some nodes, free_node_ids := Some (foldl (id_push lib) ids1 fresh), node_num := num\<rparr>,
                            live1 + 2 - count_some (free_node_ids self1) - count_some (node_array self1))
                    }
                  else None
              | _ \<Rightarrow> Some (False, self1, live1)))"

definition ox_timer_mgr_delete :: "('c, 'a, 'st, 'h) timer_mgr_s option \<Rightarrow> nat \<Rightarrow> nat" where
  "ox_timer_mgr_delete self live =
     (case self of None \<Rightarrow> live | Some m \<Rightarrow> snd (timeaction_mgr_destroy m live) - 1)"

definition ox_timer_mgr_new ::
  "('st, 'h) timer_lib \<Rightarrow> ('st, 'h) timer_alloc \<Rightarrow> bool \<Rightarrow> int \<Rightarrow> nat \<Rightarrow> (('c, 'a, 'st, 'h) timer_mgr_s option \<times> nat) option" where
  "ox_timer_mgr_new lib al granted num live =
     (if granted then
        do {
          (ok, m, live1) \<leftarrow> timeaction_mgr_init lib al num
            \<lparr>node_num = 0, free_node_ids = None, node_array = None, compositor_heap = None\<rparr> (live + 1);
          if ok then Some (Some m, live1) else Some (None, ox_timer_mgr_delete (Some m) live1)
        }
      else Some (None, live))"

section \<open>Timers\<close>

text \<open>\<open>now\<close> is what the clock shows. A manager that cannot grow returns -1.\<close>

definition timer_set ::
  "('st, 'h) timer_lib \<Rightarrow> ('c, 'a, 'st, 'h) timer_mgr_s \<Rightarrow> 'c \<Rightarrow> int \<Rightarrow> int \<Rightarrow> 'a option \<Rightarrow> int \<Rightarrow> ('c, 'a, 'st, 'h) timer_mgr_s option" where
  "timer_set lib self callback now delay arg i =
     do {
       nd \<leftarrow> node_of self i;
       if i64_ok (- delay) \<and> i64_ok (delay + now) then
         (let self1 = put_timer_node i (nd\<lparr>node_callback := Some callback, node_arg := arg,
                        left_time := (if delay > 0 then delay + now else now - (- delay))\<rparr>) self
          in case compositor_heap self1 of
               None \<Rightarrow> None
             | Some h \<Rightarrow> Some (self1\<lparr>compositor_heap := Some (heap_insert lib (timer_key self1) h (node_index nd))\<rparr>))
       else None
     }"

definition pop_free :: "('st, 'h) timer_lib \<Rightarrow> ('c, 'a, 'st, 'h) timer_mgr_s \<Rightarrow> (int option \<times> ('c, 'a, 'st, 'h) timer_mgr_s) option" where
  "pop_free lib self =
     (case free_node_ids self of
        None \<Rightarrow> None
      | Some s \<Rightarrow> (case id_popback lib s of (i, s') \<Rightarrow> Some (i, self\<lparr>free_node_ids := Some s'\<rparr>)))"

definition ox_timer_mgr_add ::
  "('st, 'h) timer_lib \<Rightarrow> ('st, 'h) timer_alloc \<Rightarrow> ('c, 'a, 'st, 'h) timer_mgr_s \<Rightarrow> 'c option \<Rightarrow> int \<Rightarrow> int \<Rightarrow> 'a option \<Rightarrow> nat \<Rightarrow>
   (int \<times> ('c, 'a, 'st, 'h) timer_mgr_s \<times> nat) option" where
  "ox_timer_mgr_add lib al self callback now delay arg live =
     (case callback of
        None \<Rightarrow> Some (- 1, self, live)
      | Some c \<Rightarrow>
          do {
            (free_id, self1) \<leftarrow> pop_free lib self;
            (free_id2, self2, live2) \<leftarrow>
              (case free_id of
                 Some i \<Rightarrow> Some (Some i, self1, live)
               | None \<Rightarrow>
                   if int_ok (2 * node_num self1) then
                     do {
                       (ok, self', live') \<leftarrow> timeaction_mgr_init lib al (2 * node_num self1) self1 live;
                       (i, self'') \<leftarrow> pop_free lib self';
                       Some (i, self'', live')
                     }
                   else None);
            case free_id2 of
              None \<Rightarrow> Some (- 1, self2, live2)
            | Some i \<Rightarrow> do { self3 \<leftarrow> timer_set lib self2 c now delay arg i; Some (i, self3, live2) }
          })"

definition ox_timer_mgr_del :: "('c, 'a, 'st, 'h) timer_mgr_s \<Rightarrow> int \<Rightarrow> ('c, 'a, 'st, 'h) timer_mgr_s option" where
  "ox_timer_mgr_del self i =
     (if 0 \<le> i \<and> i < node_num self
      then do { nd \<leftarrow> node_of self i; Some (put_timer_node i (nd\<lparr>node_callback := None\<rparr>) self) }
      else Some self)"

definition ox_timer_mgr_getarg :: "('c, 'a, 'st, 'h) timer_mgr_s \<Rightarrow> int \<Rightarrow> 'a option option" where
  "ox_timer_mgr_getarg self i =
     (if 0 \<le> i \<and> i < node_num self then map_option node_arg (node_of self i) else Some None)"

text \<open>The top of the heap leaves it and its number becomes free, before its callback runs.\<close>

definition take_top :: "('st, 'h) timer_lib \<Rightarrow> ('c, 'a) timeaction_node_s \<Rightarrow> ('c, 'a, 'st, 'h) timer_mgr_s \<Rightarrow> ('c, 'a, 'st, 'h) timer_mgr_s option" where
  "take_top lib nd self =
     do {
       h \<leftarrow> compositor_heap self;
       s \<leftarrow> free_node_ids self;
       Some (self\<lparr>compositor_heap := Some (heap_pop lib (timer_key self) h), free_node_ids := Some (id_push lib s (node_index nd))\<rparr>)
     }"

text \<open>\<open>run\<close> is what a callback does with its argument; it may add and delete timers.\<close>

partial_function (option) ox_timer_mgr_schedule ::
  "('st, 'h) timer_lib \<Rightarrow> ('c \<Rightarrow> 'a option \<Rightarrow> ('c, 'a, 'st, 'h) timer_mgr_s \<times> 'w \<Rightarrow> (('c, 'a, 'st, 'h) timer_mgr_s \<times> 'w) option) \<Rightarrow> int \<Rightarrow>
   ('c, 'a, 'st, 'h) timer_mgr_s \<times> 'w \<Rightarrow> (('c, 'a, 'st, 'h) timer_mgr_s \<times> 'w) option" where
  "ox_timer_mgr_schedule lib run now s =
     do {
       h \<leftarrow> compositor_heap (fst s);
       case heap_top lib h of
         None \<Rightarrow> Some s
       | Some i \<Rightarrow>
           do {
             nd \<leftarrow> node_of (fst s) i;
             case node_callback nd of
               None \<Rightarrow> do { m1 \<leftarrow> take_top lib nd (fst s); ox_timer_mgr_schedule lib run now (m1, snd s) }
             | Some callback \<Rightarrow>
                 if left_time nd > now then Some s
                 else do {
                   m1 \<leftarrow> take_top lib nd (fst s);
                   s2 \<leftarrow> run callback (node_arg nd) (m1, snd s);
                   ox_timer_mgr_schedule lib run now s2
                 }
           }
     }"

declare ox_timer_mgr_schedule.simps [code]

end
