(* ===== verification/Timeaction_Inv.thy ===== *)
theory Timeaction_Inv
  imports Timeaction
begin

text \<open>
  The invariant of the timer manager in C, under the contract of its stack and its heap: every number of a node is
  either free or in the heap, never both and never twice.
\<close>

section \<open>The contract of the two libraries\<close>

text \<open>
  \<open>stk\<close> and \<open>hset\<close> are what a stack and a heap hold, \<open>cap\<close> and \<open>hcap\<close> what they have room for, \<open>hok key h\<close> says that the heap is in the
  order of \<open>key\<close>. That order only depends on the keys of its elements.
\<close>

definition id_stack_ok :: "('st, 'h) timer_lib \<Rightarrow> ('st \<Rightarrow> int list) \<Rightarrow> ('st \<Rightarrow> int) \<Rightarrow> bool" where
  "id_stack_ok lib stk cap \<longleftrightarrow>
     (\<forall>s i. int (length (stk s)) < cap s \<longrightarrow> stk (id_push lib s i) = stk s @ [i] \<and> cap (id_push lib s i) = cap s) \<and>
     (\<forall>s. stk s = [] \<longrightarrow> fst (id_popback lib s) = None) \<and>
     (\<forall>s. stk s \<noteq> [] \<longrightarrow> fst (id_popback lib s) = Some (last (stk s))) \<and>
     (\<forall>s. stk (snd (id_popback lib s)) = butlast (stk s) \<and> cap (snd (id_popback lib s)) = cap s)"

definition timer_heap_ok ::
  "('st, 'h) timer_lib \<Rightarrow> ('h \<Rightarrow> int multiset) \<Rightarrow> ('h \<Rightarrow> int) \<Rightarrow> ((int \<Rightarrow> int) \<Rightarrow> 'h \<Rightarrow> bool) \<Rightarrow> bool" where
  "timer_heap_ok lib hset hcap hok \<longleftrightarrow>
     (\<forall>h. heap_top lib h = None \<longleftrightarrow> hset h = {#}) \<and>
     (\<forall>key h i. hok key h \<and> heap_top lib h = Some i \<longrightarrow> i \<in># hset h \<and> (\<forall>j \<in># hset h. key i \<le> key j) \<and>
        hset (heap_pop lib key h) = hset h - {#i#} \<and> hok key (heap_pop lib key h) \<and> hcap (heap_pop lib key h) = hcap h) \<and>
     (\<forall>key h i. hok key h \<and> int (size (hset h)) < hcap h \<longrightarrow>
        hset (heap_insert lib key h i) = add_mset i (hset h) \<and> hok key (heap_insert lib key h i) \<and> hcap (heap_insert lib key h i) = hcap h) \<and>
     (\<forall>key h n. hok key h \<longrightarrow> hset (snd (heap_increase lib h n)) = hset h \<and> hok key (snd (heap_increase lib h n)) \<and>
        hcap h \<le> hcap (snd (heap_increase lib h n)) \<and> (fst (heap_increase lib h n) \<longrightarrow> n \<le> hcap (snd (heap_increase lib h n)))) \<and>
     (\<forall>key key' h. hok key h \<and> (\<forall>i \<in># hset h. key' i = key i) \<longrightarrow> hok key' h)"

definition timer_alloc_ok ::
  "('st, 'h) timer_alloc \<Rightarrow> ('st \<Rightarrow> int list) \<Rightarrow> ('st \<Rightarrow> int) \<Rightarrow> ('h \<Rightarrow> int multiset) \<Rightarrow> ('h \<Rightarrow> int) \<Rightarrow> ((int \<Rightarrow> int) \<Rightarrow> 'h \<Rightarrow> bool) \<Rightarrow> bool" where
  "timer_alloc_ok al stk cap hset hcap hok \<longleftrightarrow>
     (\<forall>n s. ids_new al n = Some s \<longrightarrow> stk s = [] \<and> cap s = n) \<and>
     (\<forall>n h key. heap_new al n = Some h \<longrightarrow> hset h = {#} \<and> n \<le> hcap h \<and> hok key h)"

text \<open>The libraries and their meaning in one record, so that the lemmas stay readable.\<close>

record ('st, 'h) timer_sem =
  t_stk :: "'st \<Rightarrow> int list"
  t_cap :: "'st \<Rightarrow> int"
  t_hset :: "'h \<Rightarrow> int multiset"
  t_hcap :: "'h \<Rightarrow> int"
  t_hok :: "(int \<Rightarrow> int) \<Rightarrow> 'h \<Rightarrow> bool"

definition lib_ok :: "('st, 'h) timer_lib \<Rightarrow> ('st, 'h) timer_sem \<Rightarrow> bool" where
  "lib_ok lib d \<longleftrightarrow> id_stack_ok lib (t_stk d) (t_cap d) \<and> timer_heap_ok lib (t_hset d) (t_hcap d) (t_hok d)"

definition grants_ok :: "('st, 'h) timer_alloc \<Rightarrow> ('st, 'h) timer_sem \<Rightarrow> bool" where
  "grants_ok al d \<longleftrightarrow> timer_alloc_ok al (t_stk d) (t_cap d) (t_hset d) (t_hcap d) (t_hok d)"

lemma stack_laws:
  assumes "lib_ok lib d"
  shows "int (length (t_stk d s)) < t_cap d s \<Longrightarrow> t_stk d (id_push lib s i) = t_stk d s @ [i]"
    "int (length (t_stk d s)) < t_cap d s \<Longrightarrow> t_cap d (id_push lib s i) = t_cap d s"
    "id_popback lib s = (r, s') \<Longrightarrow> t_stk d s' = butlast (t_stk d s)"
    "id_popback lib s = (r, s') \<Longrightarrow> t_cap d s' = t_cap d s"
    "id_popback lib s = (r, s') \<Longrightarrow> r = (if t_stk d s = [] then None else Some (last (t_stk d s)))"
proof -
  have ok: "id_stack_ok lib (t_stk d) (t_cap d)" using assms by (simp add: lib_ok_def)
  note ok = ok [unfolded id_stack_ok_def]
  show "int (length (t_stk d s)) < t_cap d s \<Longrightarrow> t_stk d (id_push lib s i) = t_stk d s @ [i]"
    "int (length (t_stk d s)) < t_cap d s \<Longrightarrow> t_cap d (id_push lib s i) = t_cap d s" using ok by blast+
  assume "id_popback lib s = (r, s')"
  then have "fst (id_popback lib s) = r" "snd (id_popback lib s) = s'" by simp_all
  then show "t_stk d s' = butlast (t_stk d s)" "t_cap d s' = t_cap d s" "r = (if t_stk d s = [] then None else Some (last (t_stk d s)))"
    using ok by auto
qed

lemma heap_laws:
  assumes "lib_ok lib d"
  shows "heap_top lib h = None \<longleftrightarrow> t_hset d h = {#}"
    "t_hok d key h \<Longrightarrow> heap_top lib h = Some i \<Longrightarrow> i \<in># t_hset d h"
    "t_hok d key h \<Longrightarrow> heap_top lib h = Some i \<Longrightarrow> j \<in># t_hset d h \<Longrightarrow> key i \<le> key j"
    "t_hok d key h \<Longrightarrow> heap_top lib h = Some i \<Longrightarrow> t_hset d (heap_pop lib key h) = t_hset d h - {#i#}"
    "t_hok d key h \<Longrightarrow> heap_top lib h = Some i \<Longrightarrow> t_hok d key (heap_pop lib key h)"
    "t_hok d key h \<Longrightarrow> heap_top lib h = Some i \<Longrightarrow> t_hcap d (heap_pop lib key h) = t_hcap d h"
    "t_hok d key h \<Longrightarrow> int (size (t_hset d h)) < t_hcap d h \<Longrightarrow> t_hset d (heap_insert lib key h i) = add_mset i (t_hset d h)"
    "t_hok d key h \<Longrightarrow> int (size (t_hset d h)) < t_hcap d h \<Longrightarrow> t_hok d key (heap_insert lib key h i)"
    "t_hok d key h \<Longrightarrow> int (size (t_hset d h)) < t_hcap d h \<Longrightarrow> t_hcap d (heap_insert lib key h i) = t_hcap d h"
    "t_hok d key h \<Longrightarrow> heap_increase lib h n = (ok, h') \<Longrightarrow> t_hset d h' = t_hset d h"
    "t_hok d key h \<Longrightarrow> heap_increase lib h n = (ok, h') \<Longrightarrow> t_hok d key h'"
    "t_hok d key h \<Longrightarrow> heap_increase lib h n = (ok, h') \<Longrightarrow> t_hcap d h \<le> t_hcap d h'"
    "t_hok d key h \<Longrightarrow> heap_increase lib h n = (True, h') \<Longrightarrow> n \<le> t_hcap d h'"
    "t_hok d key h \<Longrightarrow> (\<And>i. i \<in># t_hset d h \<Longrightarrow> key' i = key i) \<Longrightarrow> t_hok d key' h"
  using assms unfolding lib_ok_def timer_heap_ok_def by (metis (no_types, lifting) fst_conv snd_conv)+

section \<open>The invariant\<close>

definition ids :: "('st, 'h) timer_sem \<Rightarrow> ('c, 'a, 'st, 'h) timer_mgr_s \<Rightarrow> int list" where
  "ids d m = t_stk d (the (free_node_ids m))"

definition queued :: "('st, 'h) timer_sem \<Rightarrow> ('c, 'a, 'st, 'h) timer_mgr_s \<Rightarrow> int multiset" where
  "queued d m = t_hset d (the (compositor_heap m))"

definition tm_wf :: "('st, 'h) timer_sem \<Rightarrow> ('c, 'a, 'st, 'h) timer_mgr_s \<Rightarrow> bool" where
  "tm_wf d m \<longleftrightarrow>
     (\<exists>s arr h. free_node_ids m = Some s \<and> node_array m = Some arr \<and> compositor_heap m = Some h \<and>
        node_num m = int (length arr) \<and> int_ok (node_num m) \<and> (\<forall>i < length arr. node_index (arr ! i) = int i) \<and>
        mset (t_stk d s) + t_hset d h = mset (map int [0..<length arr]) \<and> t_cap d s = node_num m \<and> node_num m \<le> t_hcap d h \<and>
        t_hok d (timer_key m) h)"

lemma tm_parts:
  assumes "tm_wf d m"
  obtains s arr h where "free_node_ids m = Some s" "node_array m = Some arr" "compositor_heap m = Some h"
    "node_num m = int (length arr)" "int_ok (node_num m)" "\<forall>i < length arr. node_index (arr ! i) = int i"
    "mset (t_stk d s) + t_hset d h = mset (map int [0..<length arr])" "t_cap d s = node_num m" "node_num m \<le> t_hcap d h"
    "t_hok d (timer_key m) h"
  using assms by (auto simp: tm_wf_def)

lemma count_ids: "count (mset (map int [0..<n])) i \<le> 1"
proof -
  have "distinct (map int [0..<n])" by (simp add: distinct_map inj_on_def)
  then show ?thesis by (simp add: distinct_count_atmost_1 del: mset_map) 
qed

lemma tm_ids:
  assumes "tm_wf d m"
  shows "distinct (ids d m)" "set (ids d m) \<inter> set_mset (queued d m) = {}" "set (ids d m) \<union> set_mset (queued d m) = {0..<node_num m}"
    "count (queued d m) i \<le> 1" "int (length (ids d m)) + int (size (queued d m)) = node_num m"
proof -
  obtain s arr h where a: "free_node_ids m = Some s" "node_array m = Some arr" "compositor_heap m = Some h"
    "node_num m = int (length arr)" "int_ok (node_num m)" "\<forall>i < length arr. node_index (arr ! i) = int i"
    "mset (t_stk d s) + t_hset d h = mset (map int [0..<length arr])" "t_cap d s = node_num m" "node_num m \<le> t_hcap d h"
    "t_hok d (timer_key m) h" using assms by (rule tm_parts)
  note m = a(1,3,4,7)
  have sum: "mset (ids d m) + queued d m = mset (map int [0..<length arr])" using m by (simp add: ids_def queued_def)
  have c: "count (mset (ids d m)) j + count (queued d m) j \<le> 1" for j
    using count_ids [of "length arr" j] arg_cong [OF sum, of "\<lambda>x. count x j"] by simp
  have le: "count (mset (ids d m)) j \<le> 1" "count (queued d m) j \<le> 1" for j using c [of j] by linarith+
  then show "count (queued d m) i \<le> 1" by blast
  show "distinct (ids d m)"
    using le(1) by (simp add: distinct_count_atmost_1) (metis One_nat_def count_eq_zero_iff le_antisym less_one not_le set_mset_mset)
  show "set (ids d m) \<inter> set_mset (queued d m) = {}"
  proof (rule equals0I)
    fix j assume "j \<in> set (ids d m) \<inter> set_mset (queued d m)"
    then have "0 < count (mset (ids d m)) j" "0 < count (queued d m) j" by (simp_all add: count_greater_zero_iff)
    then show False using c [of j] by linarith
  qed
  have "set (ids d m) \<union> set_mset (queued d m) = set_mset (mset (map int [0..<length arr]))" using arg_cong [OF sum, of set_mset] by simp
  also have "\<dots> = {0..<node_num m}" using m(3) by (auto simp: image_int_atLeastLessThan)
  finally show "set (ids d m) \<union> set_mset (queued d m) = {0..<node_num m}" .
  show "int (length (ids d m)) + int (size (queued d m)) = node_num m"
    using arg_cong [OF sum, of size] m(3) by simp
qed

lemma tm_node:
  assumes "tm_wf d m" "0 \<le> i" "i < node_num m"
  obtains nd where "node_of m i = Some nd" "node_index nd = i"
  using assms(1)
proof (rule tm_parts)
  fix arr
  assume "node_array m = Some arr" "node_num m = int (length arr)" "\<forall>i < length arr. node_index (arr ! i) = int i"
  then show thesis using that [of "arr ! nat i"] assms(2,3) by (simp add: node_of_def)
qed

lemma node_put:
  assumes "tm_wf d m" "0 \<le> i" "i < node_num m"
  shows "node_of (put_timer_node i nd m) j = (if j = i then Some nd else node_of m j)"
  using assms(1)
proof (rule tm_parts)
  fix arr
  assume "node_array m = Some arr" "node_num m = int (length arr)"
  then show ?thesis using assms(2,3) by (auto simp: node_of_def put_timer_node_def nth_list_update eq_nat_nat_iff)
qed

lemma put_fields [simp]:
  "free_node_ids (put_timer_node i nd m) = free_node_ids m" "compositor_heap (put_timer_node i nd m) = compositor_heap m"
  "node_num (put_timer_node i nd m) = node_num m" "ids d (put_timer_node i nd m) = ids d m" "queued d (put_timer_node i nd m) = queued d m"
  by (simp_all add: put_timer_node_def ids_def queued_def)

text \<open>Changing a node keeps the invariant when it is free or keeps its time.\<close>

lemma put_wf:
  assumes lib: "lib_ok lib d" and wf: "tm_wf d m" and i: "0 \<le> i" "i < node_num m" and nd: "node_index nd = i"
    and keep: "i \<in># queued d m \<Longrightarrow> left_time nd = timer_key m i"
  shows "tm_wf d (put_timer_node i nd m)"
proof -
  obtain s arr h where m: "free_node_ids m = Some s" "node_array m = Some arr" "compositor_heap m = Some h"
    "node_num m = int (length arr)" "int_ok (node_num m)" "\<forall>i < length arr. node_index (arr ! i) = int i"
    "mset (t_stk d s) + t_hset d h = mset (map int [0..<length arr])" "t_cap d s = node_num m" "node_num m \<le> t_hcap d h"
    "t_hok d (timer_key m) h" using wf by (rule tm_parts)
  have "timer_key (put_timer_node i nd m) j = timer_key m j" if "j \<in># t_hset d h" for j
    using that keep m(3) by (auto simp: timer_key_def node_put [OF wf i] queued_def)
  then have "t_hok d (timer_key (put_timer_node i nd m)) h" using heap_laws(14) [OF lib m(10)] by blast
  moreover have "node_index (arr[nat i := nd] ! j) = int j" if "j < length arr" for j
    using m(6) nd i that by (cases "j = nat i") simp_all
  ultimately show ?thesis using m by (simp add: tm_wf_def) (simp add: put_timer_node_def)
qed


section \<open>Operations\<close>

text \<open>Taking a number off the stack of free ones; the state in between has one number that is neither free nor queued.\<close>

lemma pop_free_law:
  assumes lib: "lib_ok lib d" and wf: "tm_wf d m"
  shows "ids d m = [] \<Longrightarrow> \<exists>m'. pop_free lib m = Some (None, m') \<and> tm_wf d m' \<and> ids d m' = [] \<and> queued d m' = queued d m \<and>
      node_of m' = node_of m \<and> node_num m' = node_num m \<and> timer_objects m' = timer_objects m"
    and "ids d m \<noteq> [] \<Longrightarrow> \<exists>s'. pop_free lib m = Some (Some (last (ids d m)), m\<lparr>free_node_ids := Some s'\<rparr>) \<and>
      t_stk d s' = butlast (ids d m) \<and> t_cap d s' = node_num m"
proof -
  obtain s arr h where m: "free_node_ids m = Some s" "node_array m = Some arr" "compositor_heap m = Some h"
    "node_num m = int (length arr)" "int_ok (node_num m)" "\<forall>i < length arr. node_index (arr ! i) = int i"
    "mset (t_stk d s) + t_hset d h = mset (map int [0..<length arr])" "t_cap d s = node_num m" "node_num m \<le> t_hcap d h"
    "t_hok d (timer_key m) h" using wf by (rule tm_parts)
  obtain r s' where pop: "id_popback lib s = (r, s')" by (cases "id_popback lib s")
  note laws = stack_laws(3-5) [OF lib pop]
  have ids: "ids d m = t_stk d s" using m(1) by (simp add: ids_def)
  have run: "pop_free lib m = Some (r, m\<lparr>free_node_ids := Some s'\<rparr>)" using m(1) pop by (simp add: pop_free_def)
  show "ids d m \<noteq> [] \<Longrightarrow> \<exists>s'. pop_free lib m = Some (Some (last (ids d m)), m\<lparr>free_node_ids := Some s'\<rparr>) \<and>
      t_stk d s' = butlast (ids d m) \<and> t_cap d s' = node_num m"
    using run laws ids m(8) by (intro exI [of _ s']) simp
  assume none: "ids d m = []"
  have same: "node_of (m\<lparr>free_node_ids := Some s'\<rparr>) = node_of m" by (simp add: fun_eq_iff node_of_def)
  then have "timer_key (m\<lparr>free_node_ids := Some s'\<rparr>) = timer_key m" by (simp add: fun_eq_iff timer_key_def)
  then have "tm_wf d (m\<lparr>free_node_ids := Some s'\<rparr>)" using m laws none ids by (simp add: tm_wf_def)
  then show "\<exists>m'. pop_free lib m = Some (None, m') \<and> tm_wf d m' \<and> ids d m' = [] \<and> queued d m' = queued d m \<and>
      node_of m' = node_of m \<and> node_num m' = node_num m \<and> timer_objects m' = timer_objects m"
    using run laws none ids same m(1) by (intro exI [of _ "m\<lparr>free_node_ids := Some s'\<rparr>"]) (simp add: ids_def queued_def timer_objects_def count_some_def)
qed

text \<open>
  A free number is taken, its node filled and the number queued: \<open>m1\<close> is the manager after the number was popped.
\<close>

lemma timer_set_law:
  assumes lib: "lib_ok lib d" and wf: "tm_wf d m" and free: "ids d m \<noteq> []"
    and m1: "m1 = m\<lparr>free_node_ids := Some s'\<rparr>" "t_stk d s' = butlast (ids d m)" "t_cap d s' = node_num m"
    and time: "i64_ok (- delay)" "i64_ok (delay + now)"
  shows "\<exists>m'. timer_set lib m1 c now delay arg (last (ids d m)) = Some m' \<and> tm_wf d m' \<and> ids d m' = butlast (ids d m) \<and>
    queued d m' = add_mset (last (ids d m)) (queued d m) \<and> node_num m' = node_num m \<and> timer_objects m' = timer_objects m \<and>
    node_of m' = (node_of m)(last (ids d m) \<mapsto>
      \<lparr>node_index = last (ids d m), left_time = delay + now, node_arg = arg, node_callback = Some c\<rparr>)"
proof -
  obtain s arr h where m: "free_node_ids m = Some s" "node_array m = Some arr" "compositor_heap m = Some h"
    "node_num m = int (length arr)" "int_ok (node_num m)" "\<forall>i < length arr. node_index (arr ! i) = int i"
    "mset (t_stk d s) + t_hset d h = mset (map int [0..<length arr])" "t_cap d s = node_num m" "node_num m \<le> t_hcap d h"
    "t_hok d (timer_key m) h" using wf by (rule tm_parts)
  define i where "i = last (ids d m)"
  note sets = tm_ids [OF wf]
  have i: "i \<in> set (ids d m)" "0 \<le> i" "i < node_num m" using free sets(3) by (auto simp: i_def)
  then have notq: "i \<notin># queued d m" using sets(2) by auto
  obtain nd where nd: "node_of m i = Some nd" "node_index nd = i" using tm_node [OF wf i(2,3)] by metis
  define nd' where "nd' = nd\<lparr>node_callback := Some c, node_arg := arg, left_time := delay + now\<rparr>"
  define m2 where "m2 = put_timer_node i nd' m"
  have wf2: "tm_wf d m2" unfolding m2_def using notq nd(2) by (intro put_wf [OF lib wf i(2,3)]) (simp_all add: nd'_def)
  have node2: "node_of m2 = (node_of m)(i \<mapsto> nd')" by (simp add: fun_eq_iff m2_def node_put [OF wf i(2,3)])
  have hok: "t_hok d (timer_key m2) h" using wf2 m(3) by (auto simp: tm_wf_def m2_def)
  have size: "int (size (t_hset d h)) < t_hcap d h"
  proof -
    have "0 < length (ids d m)" using free by simp
    then have "int (size (queued d m)) < node_num m" using sets(5) by linarith
    then show ?thesis using m(3,9) by (simp add: queued_def)
  qed
  define h' where "h' = heap_insert lib (timer_key m2) h i"
  note ins = heap_laws(7-9) [OF lib hok size, of i, folded h'_def]
  define m' where "m' = m2\<lparr>free_node_ids := Some s', compositor_heap := Some h'\<rparr>"
  have keys: "timer_key m' = timer_key m2" "node_of m' = node_of m2"
    "timer_key (put_timer_node i nd' m1) = timer_key m2" "node_of m1 = node_of m"
    by (simp_all add: fun_eq_iff timer_key_def node_of_def m'_def m2_def m1(1) put_timer_node_def)
  have "(if delay > 0 then delay + now else now - (- delay)) = delay + now" by simp
  then have run: "timer_set lib m1 c now delay arg i = Some m'"
    using nd time m(3) keys by (simp add: timer_set_def m1(1) Let_def flip: nd'_def) (simp add: m'_def m2_def h'_def put_timer_node_def nd'_def nd(2))
  have "butlast (ids d m) @ [i] = ids d m" using free by (simp add: i_def)
  then have eq: "mset (butlast (ids d m)) + {#i#} = mset (ids d m)" by (metis mset.simps(1,2) mset_append)
  have "mset (t_stk d s') + t_hset d h' = (mset (butlast (ids d m)) + {#i#}) + t_hset d h" using ins(1) m1(2) by simp
  also have "\<dots> = mset (map int [0..<length arr])" unfolding eq using m(1,7) by (simp only: ids_def option.sel)
  finally have "mset (t_stk d s') + t_hset d h' = mset (map int [0..<length arr])" .
  moreover have "node_array m' = Some (arr[nat i := nd'])" using m(2) by (simp add: m'_def m2_def put_timer_node_def)
  moreover have "\<forall>j < length arr. node_index (arr[nat i := nd'] ! j) = int j"
  proof (intro allI impI)
    fix j assume "j < length arr"
    then show "node_index (arr[nat i := nd'] ! j) = int j" using m(6) nd(2) i(2) by (cases "j = nat i") (simp_all add: nd'_def)
  qed
  ultimately have "tm_wf d m'"
    using m ins keys m1(3) by (simp add: tm_wf_def) (simp add: m'_def m2_def)
  moreover have "nd' = \<lparr>node_index = i, left_time = delay + now, node_arg = arg, node_callback = Some c\<rparr>" using nd(2) by (simp add: nd'_def)
  ultimately show ?thesis
    using run keys node2 ins(1) m(1,2,3) m1(2) unfolding i_def [symmetric]
    by (intro exI [of _ m']) (simp add: m'_def m2_def ids_def queued_def timer_objects_def count_some_def put_timer_node_def)
qed


text \<open>Moving the free numbers to the larger stack.\<close>

lemma move_ids_law:
  assumes lib: "lib_ok lib d" and room: "int (length (t_stk d old) + length (t_stk d new)) \<le> t_cap d new"
  shows "\<exists>s. move_ids lib old new = Some s \<and> t_stk d s = t_stk d new @ rev (t_stk d old) \<and> t_cap d s = t_cap d new"
  using room
proof (induction "length (t_stk d old)" arbitrary: old new)
  case 0
  then have "t_stk d old = []" by simp
  moreover obtain r s where pop: "id_popback lib old = (r, s)" by (cases "id_popback lib old")
  ultimately show ?case using stack_laws(5) [OF lib pop] by (subst move_ids.simps) simp
next
  case (Suc n)
  then have ne: "t_stk d old \<noteq> []" by auto
  obtain r s where pop: "id_popback lib old = (r, s)" by (cases "id_popback lib old")
  note laws = stack_laws(3-5) [OF lib pop]
  have "int (length (t_stk d new)) < t_cap d new" using Suc.hyps(2) Suc.prems by simp
  note push = stack_laws(1,2) [OF lib this, of "last (t_stk d old)"]
  have "n = length (t_stk d s)" using Suc.hyps(2) laws(1) by simp
  moreover have "int (length (t_stk d s) + length (t_stk d (id_push lib new (last (t_stk d old))))) \<le> t_cap d (id_push lib new (last (t_stk d old)))"
    using Suc.hyps(2) Suc.prems laws(1) push by simp
  ultimately obtain s' where s': "move_ids lib s (id_push lib new (last (t_stk d old))) = Some s'"
    "t_stk d s' = (t_stk d new @ [last (t_stk d old)]) @ rev (butlast (t_stk d old))" "t_cap d s' = t_cap d new"
    using Suc.hyps(1) [of s "id_push lib new (last (t_stk d old))"] push laws(1) by auto
  have "t_stk d s' = t_stk d new @ rev (butlast (t_stk d old) @ [last (t_stk d old)])" using s'(2) by simp
  then have "t_stk d s' = t_stk d new @ rev (t_stk d old)" unfolding append_butlast_last_id [OF ne] .
  moreover have "move_ids lib old new = Some s'" using pop laws(3) ne s'(1) by (subst move_ids.simps) simp
  ultimately show ?case using s'(3) by simp
qed

lemma push_all_law:
  assumes "lib_ok lib d" "int (length (t_stk d s) + length xs) \<le> t_cap d s"
  shows "t_stk d (foldl (id_push lib) s xs) = t_stk d s @ xs \<and> t_cap d (foldl (id_push lib) s xs) = t_cap d s"
  using assms(2)
proof (induction xs arbitrary: s)
  case (Cons x xs)
  have "int (length (t_stk d s)) < t_cap d s" using Cons.prems by simp
  from stack_laws(1,2) [OF assms(1) this, of x] Cons.IH [of "id_push lib s x"] Cons.prems show ?case by simp
qed simp

lemma range_ids: "a \<le> b \<Longrightarrow> [int a..int b - 1] = map int [a..<b]"
proof (induction b)
  case (Suc b)
  show ?case
  proof (cases "a = Suc b")
    case False
    then have "[int a..int (Suc b) - 1] = [int a..int b - 1] @ [int b]" using Suc.prems upto_rec2 [of "int a" "int b"] by simp
    then show ?thesis using Suc False by simp
  qed simp
qed simp

lemma grown_ids: "a \<le> b \<Longrightarrow> mset (map int [0..<a]) + mset (map int [a..<b]) = mset (map int [0..<b])"
  by (metis bot_nat_0.extremum map_append mset_append upt_add_eq_append le_add_diff_inverse add_0)

text \<open>
  Growth: either nothing changes in meaning, or the new numbers are free. It is stated for a manager that has room for no more,
  with all the old numbers that are not queued on the stack.
\<close>

lemma init_law:
  assumes lib: "lib_ok lib d" and al: "grants_ok al d" and wf: "tm_wf d m" and num: "node_num m \<le> num" "int_ok num"
  shows "\<exists>ok m' live'. timeaction_mgr_init lib al num m live = Some (ok, m', live') \<and> tm_wf d m' \<and> queued d m' = queued d m \<and>
    live' + timer_objects m = live + timer_objects m' \<and> timer_objects m' = timer_objects m \<and>
    (\<forall>i. 0 \<le> i \<and> i < node_num m \<longrightarrow> node_of m' i = node_of m i) \<and>
    (if ok then node_num m' = num else node_num m' = node_num m \<and> ids d m' = ids d m)"
proof -
  obtain s arr h where m: "free_node_ids m = Some s" "node_array m = Some arr" "compositor_heap m = Some h"
    "node_num m = int (length arr)" "int_ok (node_num m)" "\<forall>i < length arr. node_index (arr ! i) = int i"
    "mset (t_stk d s) + t_hset d h = mset (map int [0..<length arr])" "t_cap d s = node_num m" "node_num m \<le> t_hcap d h"
    "t_hok d (timer_key m) h" using wf by (rule tm_parts)
  obtain okh h' where inc: "heap_increase lib h num = (okh, h')" by (cases "heap_increase lib h num")
  note incs = heap_laws(10-12) [OF lib m(10) inc]
  define m1 where "m1 = m\<lparr>compositor_heap := Some h'\<rparr>"
  have key1: "node_of m1 = node_of m" "timer_key m1 = timer_key m" by (simp_all add: fun_eq_iff node_of_def timer_key_def m1_def)
  have wf1: "tm_wf d m1" using m incs key1 by (simp add: tm_wf_def) (simp add: m1_def)
  have same: "queued d m1 = queued d m" "ids d m1 = ids d m" "node_num m1 = node_num m" "timer_objects m1 = timer_objects m"
    using m(3) incs by (simp_all add: m1_def queued_def ids_def timer_objects_def count_some_def)
  consider "\<not> okh \<or> \<not> nodes_granted al \<or> ids_new al num = None" | new_ids where "okh" "nodes_granted al" "ids_new al num = Some new_ids" by blast
  then show ?thesis
  proof cases
    case 1
    then have "timeaction_mgr_init lib al num m live = Some (False, m1, live)"
      using m(3) inc by (cases okh; cases "nodes_granted al"; cases "ids_new al num")
        (simp_all add: timeaction_mgr_init_def Let_def m1_def count_some_def)
    then show ?thesis using wf1 same key1 by (intro exI [of _ False]) simp
  next
    case 2
    have new: "t_stk d new_ids = []" "t_cap d new_ids = num" using al 2(3) by (auto simp: grants_ok_def timer_alloc_ok_def)
    have len: "length (t_stk d s) \<le> length arr"
      using arg_cong [OF m(7), of size] by simp
    have "int (length (t_stk d s) + length (t_stk d new_ids)) \<le> t_cap d new_ids" using new len num(1) m(4) by simp
    from move_ids_law [OF lib this] obtain s1 where s1: "move_ids lib s new_ids = Some s1" "t_stk d s1 = rev (t_stk d s)" "t_cap d s1 = num"
      using new by auto
    define k where "k = nat num"
    have k: "num = int k" "length arr \<le> k" using num m(4) by (simp_all add: k_def)
    have fresh: "[node_num m..num - 1] = map int [length arr..<k]" using range_ids [OF k(2)] m(4) k(1) by simp
    define s2 where "s2 = foldl (id_push lib) s1 (map int [length arr..<k])"
    have "int (length (t_stk d s1) + length (map int [length arr..<k])) \<le> t_cap d s1" using s1 len k by simp
    from push_all_law [OF lib this] have s2: "t_stk d s2 = rev (t_stk d s) @ map int [length arr..<k]" "t_cap d s2 = num"
      using s1 by (simp_all add: s2_def)
    define nodes where "nodes = arr @ map timeaction_node_init (map int [length arr..<k])"
    define m2 where "m2 = m1\<lparr>node_array := Some nodes, free_node_ids := Some s2, node_num := num\<rparr>"
    have run: "timeaction_mgr_init lib al num m live = Some (True, m2, live)"
      using 2 inc m(1,2,3) num(1) s1(1) fresh
      by (simp add: timeaction_mgr_init_def Let_def m2_def m1_def nodes_def s2_def count_some_def)
    have nodes: "length nodes = k" "\<forall>i < k. node_index (nodes ! i) = int i"
      using m(6) k(2) by (auto simp: nodes_def nth_append timeaction_node_init_def)
    have old: "node_of m2 i = node_of m i" if "0 \<le> i" "i < node_num m" for i
      using that m(2,4) k(2) by (simp add: node_of_def m2_def nodes_def nth_append)
    have q: "queued d m2 = t_hset d h" using incs by (simp add: queued_def m2_def m1_def)
    have inrange: "\<And>i. i \<in># t_hset d h \<Longrightarrow> 0 \<le> i \<and> i < node_num m"
      using tm_ids(3) [OF wf] m(3) by (auto simp: queued_def)
    have "timer_key m2 i = timer_key m i" if "i \<in># t_hset d h'" for i
      using old inrange [of i] that incs(1) by (simp add: timer_key_def)
    then have "t_hok d (timer_key m2) h'" using heap_laws(14) [OF lib incs(2)] by blast
    moreover have "mset (t_stk d s2) + t_hset d h' = mset (map int [0..<k])"
    proof -
      have "mset (t_stk d s2) + t_hset d h' = (mset (t_stk d s) + t_hset d h) + mset (map int [length arr..<k])"
        using s2(1) incs(1) by simp
      also have "\<dots> = mset (map int [0..<k])" unfolding m(7) by (rule grown_ids [OF k(2)])
      finally show ?thesis .
    qed
    moreover have "num \<le> t_hcap d h'" using heap_laws(13) [OF lib m(10)] inc 2(1) by simp
    ultimately have "tm_wf d m2" using nodes s2 k(1) num(2) by (simp add: tm_wf_def m2_def m1_def)
    moreover have "timer_objects m2 = timer_objects m" using m(1-3) by (simp add: m2_def m1_def timer_objects_def count_some_def)
    ultimately show ?thesis using run old q m(3) by (auto simp: m2_def queued_def)
  qed
qed

end
