(* ===== verification/Timeaction_Props.thy ===== *)
theory Timeaction_Props
  imports Timeaction_Inv
begin

text \<open>
  The timer manager in C implements a finite map from timer numbers to what is armed under them: what each operation does to
  that map, that the due timers run in the order of their times, and that no number is lost.
\<close>

section \<open>The map of armed timers\<close>

definition armed :: "('st, 'h) timer_sem \<Rightarrow> ('c, 'a, 'st, 'h) timer_mgr_s \<Rightarrow> int \<Rightarrow> (int \<times> 'c \<times> 'a option) option" where
  "armed d m i =
     (if i \<in># queued d m then do { nd \<leftarrow> node_of m i; c \<leftarrow> node_callback nd; Some (left_time nd, c, node_arg nd) } else None)"

lemma armed_eqI:
  "(\<And>i. i \<in># queued d m' \<longleftrightarrow> i \<in># queued d m) \<Longrightarrow> (\<And>i. i \<in># queued d m \<Longrightarrow> node_of m' i = node_of m i) \<Longrightarrow> armed d m' = armed d m"
  by (simp add: fun_eq_iff armed_def)

lemma queued_range: "tm_wf d m \<Longrightarrow> i \<in># queued d m \<Longrightarrow> 0 \<le> i \<and> i < node_num m"
  using tm_ids(3) by fastforce

lemma free_range: "tm_wf d m \<Longrightarrow> i \<in> set (ids d m) \<Longrightarrow> 0 \<le> i \<and> i < node_num m"
  using tm_ids(3) by fastforce

lemma armed_set:
  assumes wf: "tm_wf d m" and i: "i \<in> set (ids d m)" and q: "queued d m' = add_mset i (queued d m)"
    and n: "node_of m' = (node_of m)(i \<mapsto> \<lparr>node_index = i, left_time = t, node_arg = a, node_callback = Some c\<rparr>)"
  shows "armed d m' = (armed d m)(i \<mapsto> (t, c, a))" "armed d m i = None"
proof -
  have "i \<notin># queued d m" using tm_ids(2) [OF wf] i by auto
  then show "armed d m i = None" by (simp add: armed_def)
  show "armed d m' = (armed d m)(i \<mapsto> (t, c, a))" using q n by (auto simp: fun_eq_iff armed_def)
qed

lemma add_law:
  assumes lib: "lib_ok lib d" and al: "grants_ok al d" and wf: "tm_wf d m"
    and time: "i64_ok (- delay)" "i64_ok (delay + now)" and num: "int_ok (2 * node_num m)"
  shows "\<exists>i m'. ox_timer_mgr_add lib al m (Some c) now delay arg live = Some (i, m', live) \<and> tm_wf d m' \<and>
    timer_objects m' = timer_objects m \<and>
    (if i = - 1 then armed d m' = armed d m else armed d m i = None \<and> armed d m' = (armed d m)(i \<mapsto> (delay + now, c, arg)))"
proof (cases "ids d m = []")
  case False
  obtain s' where pop: "pop_free lib m = Some (Some (last (ids d m)), m\<lparr>free_node_ids := Some s'\<rparr>)" "t_stk d s' = butlast (ids d m)"
    "t_cap d s' = node_num m" using pop_free_law(2) [OF lib wf False] by blast
  from timer_set_law [OF lib wf False refl pop(2,3) time, of c arg] obtain m' where
    m': "timer_set lib (m\<lparr>free_node_ids := Some s'\<rparr>) c now delay arg (last (ids d m)) = Some m'" "tm_wf d m'"
      "queued d m' = add_mset (last (ids d m)) (queued d m)" "timer_objects m' = timer_objects m"
      "node_of m' = (node_of m)(last (ids d m) \<mapsto> \<lparr>node_index = last (ids d m), left_time = delay + now, node_arg = arg, node_callback = Some c\<rparr>)"
    by blast
  have mem: "last (ids d m) \<in> set (ids d m)" using False by simp
  then have "last (ids d m) \<noteq> - 1" using free_range [OF wf] by fastforce
  then show ?thesis using pop(1) m' armed_set [OF wf mem m'(3,5)] by (simp add: ox_timer_mgr_add_def)
next
  case True
  obtain m1 where pop: "pop_free lib m = Some (None, m1)" "tm_wf d m1" "ids d m1 = []" "queued d m1 = queued d m"
    "node_of m1 = node_of m" "node_num m1 = node_num m" "timer_objects m1 = timer_objects m" using pop_free_law(1) [OF lib wf True] by blast
  have "0 \<le> node_num m" using wf by (auto simp: tm_wf_def)
  then have n: "node_num m1 \<le> 2 * node_num m1" "int_ok (2 * node_num m1)" using pop(6) num by simp_all
  obtain ok m2 live2 where init: "timeaction_mgr_init lib al (2 * node_num m1) m1 live = Some (ok, m2, live2)" "tm_wf d m2"
    "queued d m2 = queued d m1" "live2 + timer_objects m1 = live + timer_objects m2" "timer_objects m2 = timer_objects m1"
    "\<And>i. 0 \<le> i \<Longrightarrow> i < node_num m1 \<Longrightarrow> node_of m2 i = node_of m1 i"
    using init_law [OF lib al pop(2) n, of live] by blast
  have live: "live2 = live" using init(4,5) by simp
  have armed2: "armed d m2 = armed d m"
    using init(3,6) pop(4,5,6) queued_range [OF wf] by (intro armed_eqI) auto
  show ?thesis
  proof (cases "ids d m2 = []")
    case none: True
    obtain m3 where p3: "pop_free lib m2 = Some (None, m3)" "tm_wf d m3" "queued d m3 = queued d m2" "node_of m3 = node_of m2"
      "timer_objects m3 = timer_objects m2" using pop_free_law(1) [OF lib init(2) none] by blast
    then have "armed d m3 = armed d m" using armed2 by (metis armed_eqI)
    then show ?thesis using pop(1) n(2) init(1) live p3 init(5) pop(7) by (simp add: ox_timer_mgr_add_def)
  next
    case False
    obtain s' where p: "pop_free lib m2 = Some (Some (last (ids d m2)), m2\<lparr>free_node_ids := Some s'\<rparr>)" "t_stk d s' = butlast (ids d m2)"
      "t_cap d s' = node_num m2" using pop_free_law(2) [OF lib init(2) False] by blast
    from timer_set_law [OF lib init(2) False refl p(2,3) time, of c arg] obtain m' where
      m': "timer_set lib (m2\<lparr>free_node_ids := Some s'\<rparr>) c now delay arg (last (ids d m2)) = Some m'" "tm_wf d m'"
        "queued d m' = add_mset (last (ids d m2)) (queued d m2)" "timer_objects m' = timer_objects m2"
        "node_of m' = (node_of m2)(last (ids d m2) \<mapsto> \<lparr>node_index = last (ids d m2), left_time = delay + now, node_arg = arg, node_callback = Some c\<rparr>)"
      by blast
    have mem: "last (ids d m2) \<in> set (ids d m2)" using False by simp
    then have "last (ids d m2) \<noteq> - 1" using free_range [OF init(2)] by fastforce
    then show ?thesis using pop(1,7) n(2) init(1,5) live p(1) m' armed_set [OF init(2) mem m'(3,5)] armed2 by (simp add: ox_timer_mgr_add_def)
  qed
qed

lemma timer_del_law:
  assumes lib: "lib_ok lib d" and wf: "tm_wf d m"
  shows "\<exists>m'. ox_timer_mgr_del m i = Some m' \<and> tm_wf d m' \<and> timer_objects m' = timer_objects m \<and> node_num m' = node_num m \<and>
    armed d m' = (armed d m)(i := None)"
proof (cases "0 \<le> i \<and> i < node_num m")
  case True
  then obtain nd where nd: "node_of m i = Some nd" "node_index nd = i" using tm_node [OF wf] by metis
  define m' where "m' = put_timer_node i (nd\<lparr>node_callback := None\<rparr>) m"
  have "tm_wf d m'" unfolding m'_def using nd True by (intro put_wf [OF lib wf]) (simp_all add: timer_key_def)
  moreover have "armed d m' = (armed d m)(i := None)"
    using True by (auto simp: fun_eq_iff armed_def m'_def node_put [OF wf])
  moreover have "timer_objects m' = timer_objects m" "node_num m' = node_num m"
    by (simp_all add: m'_def timer_objects_def count_some_def put_timer_node_def)
  ultimately show ?thesis using True nd(1) by (simp add: ox_timer_mgr_del_def m'_def)
next
  case False
  then have "armed d m i = None" using queued_range [OF wf, of i] by (auto simp: armed_def)
  then show ?thesis using False wf by (auto simp: ox_timer_mgr_del_def fun_upd_idem)
qed

lemma take_top_law:
  assumes lib: "lib_ok lib d" and wf: "tm_wf d m" and top: "compositor_heap m = Some h" "heap_top lib h = Some i"
  shows "\<exists>nd m1. node_of m i = Some nd \<and> node_index nd = i \<and> take_top lib nd m = Some m1 \<and> tm_wf d m1 \<and>
    node_of m1 = node_of m \<and> queued d m1 = queued d m - {#i#} \<and> i \<in># queued d m \<and> (\<forall>j \<in># queued d m. left_time nd \<le> timer_key m j) \<and>
    timer_objects m1 = timer_objects m \<and> node_num m1 = node_num m \<and> armed d m1 = (armed d m)(i := None)"
proof -
  obtain s arr h' where a: "free_node_ids m = Some s" "node_array m = Some arr" "compositor_heap m = Some h'"
    "node_num m = int (length arr)" "int_ok (node_num m)" "\<forall>i < length arr. node_index (arr ! i) = int i"
    "mset (t_stk d s) + t_hset d h' = mset (map int [0..<length arr])" "t_cap d s = node_num m" "node_num m \<le> t_hcap d h'"
    "t_hok d (timer_key m) h'" using wf by (rule tm_parts)
  have h: "h' = h" using a(3) top(1) by simp
  note laws = heap_laws(2-6) [OF lib a(10) [unfolded h] top(2)]
  have q: "i \<in># queued d m" using laws(1) top(1) by (simp add: queued_def)
  then have i: "0 \<le> i" "i < node_num m" using queued_range [OF wf] by blast+
  obtain nd where nd: "node_of m i = Some nd" "node_index nd = i" using tm_node [OF wf i] by metis
  define h1 where "h1 = heap_pop lib (timer_key m) h"
  define m1 where "m1 = m\<lparr>compositor_heap := Some h1, free_node_ids := Some (id_push lib s i)\<rparr>"
  have run: "take_top lib nd m = Some m1" using top(1) a(1) nd(2) by (simp add: take_top_def m1_def h1_def)
  have "0 < size (queued d m)" using q by (metis size_eq_0_iff_empty empty_not_add_mset gr0I multi_member_split)
  then have "int (length (t_stk d s)) < t_cap d s" using tm_ids(5) [OF wf] a(1,8) by (simp add: ids_def)
  note push = stack_laws(1,2) [OF lib this, of i]
  have node1: "node_of m1 = node_of m" "timer_key m1 = timer_key m" by (simp_all add: fun_eq_iff node_of_def timer_key_def m1_def)
  have "mset (t_stk d (id_push lib s i)) + t_hset d h1 = mset (t_stk d s) + t_hset d h"
    using push(1) laws(1,3) by (simp add: h1_def)
  then have "mset (t_stk d (id_push lib s i)) + t_hset d h1 = mset (map int [0..<length arr])" using a(7) h by simp
  then have "tm_wf d m1"
    using a push laws(4,5) node1 h by (simp add: tm_wf_def) (simp add: m1_def h1_def)
  moreover have q1: "queued d m1 = queued d m - {#i#}" using laws(3) top(1) by (simp add: queued_def m1_def h1_def)
  moreover have "i \<notin># queued d m1"
  proof
    assume "i \<in># queued d m1"
    then have "0 < count (queued d m) i - 1" using q1 by (simp add: in_diff_count)
    then show False using tm_ids(4) [OF wf, of i] by simp
  qed
  then have "j \<in># queued d m1 \<longleftrightarrow> j \<noteq> i \<and> j \<in># queued d m" for j
    using q1 by (cases "j = i") (simp_all add: in_diff_count count_greater_zero_iff)
  then have "armed d m1 = (armed d m)(i := None)"
    using node1(1) by (simp add: fun_eq_iff armed_def)
  moreover have "\<forall>j \<in># queued d m. left_time nd \<le> timer_key m j" using laws(2) top(1) nd(1) by (auto simp: queued_def timer_key_def)
  ultimately show ?thesis using run nd q node1(1) top(1) a(1) by (simp add: m1_def timer_objects_def count_some_def)
qed


section \<open>Running the due timers\<close>

text \<open>\<open>due_timers\<close> are the numbers of the timers whose time has come.\<close>

definition due_timers :: "('st, 'h) timer_sem \<Rightarrow> ('c, 'a, 'st, 'h) timer_mgr_s \<Rightarrow> int \<Rightarrow> int set" where
  "due_timers d m now = {i. \<exists>t e. armed d m i = Some (t, e) \<and> t \<le> now}"

definition logged :: "'c \<Rightarrow> 'a option \<Rightarrow> ('c, 'a, 'st, 'h) timer_mgr_s \<times> ('c \<times> 'a option) list \<Rightarrow>
   (('c, 'a, 'st, 'h) timer_mgr_s \<times> ('c \<times> 'a option) list) option" where
  "logged c a s = Some (fst s, snd s @ [(c, a)])"

definition fired :: "('st, 'h) timer_sem \<Rightarrow> ('c, 'a, 'st, 'h) timer_mgr_s \<Rightarrow> int list \<Rightarrow> ('c \<times> 'a option) list" where
  "fired d m is = map (\<lambda>i. snd (the (armed d m i))) is"

definition in_time_order :: "('st, 'h) timer_sem \<Rightarrow> ('c, 'a, 'st, 'h) timer_mgr_s \<Rightarrow> int list \<Rightarrow> bool" where
  "in_time_order d m is \<longleftrightarrow> distinct is \<and> sorted (map (\<lambda>i. fst (the (armed d m i))) is)"

lemma armed_cases:
  "armed d m i = Some (t, e) \<Longrightarrow> i \<in># queued d m \<and> timer_key m i = t"
  by (auto simp: armed_def timer_key_def split: if_splits bind_splits)

lemma size_pop: "i \<in># q \<Longrightarrow> size q = Suc (size (q - {#i#}))"
  by (simp add: size_Suc_Diff1)

lemma fired_upd: "i \<notin> set is \<Longrightarrow> armed d m1 = (armed d m)(i := None) \<Longrightarrow>
   fired d m1 is = fired d m is \<and> map (\<lambda>i. fst (the (armed d m1 i))) is = map (\<lambda>i. fst (the (armed d m i))) is"
  by (auto simp: fired_def)

lemma schedule_quiet:
  assumes lib: "lib_ok lib d" and wf: "tm_wf d m"
  shows "\<exists>m' is. ox_timer_mgr_schedule lib logged now (m, w) = Some (m', w @ fired d m is) \<and> tm_wf d m' \<and>
    timer_objects m' = timer_objects m \<and> set is = due_timers d m now \<and> in_time_order d m is \<and>
    armed d m' = (\<lambda>i. if i \<in> set is then None else armed d m i)"
  using wf
proof (induction "size (queued d m)" arbitrary: m w rule: less_induct)
  case (less m w)
  obtain h where h: "compositor_heap m = Some h" using less.prems by (auto simp: tm_wf_def)
  show ?case
  proof (cases "heap_top lib h")
    case None
    then have "queued d m = {#}" using heap_laws(1) [OF lib, of h] h by (simp add: queued_def)
    then have "armed d m = (\<lambda>_. None)" by (simp add: fun_eq_iff armed_def)
    then show ?thesis using h None less.prems
      by (subst ox_timer_mgr_schedule.simps) (intro exI [of _ m] exI [of _ "[]"], simp add: due_timers_def in_time_order_def fired_def)
  next
    case (Some i)
    from take_top_law [OF lib less.prems h Some] obtain nd m1 where
      top: "node_of m i = Some nd" "node_index nd = i" "take_top lib nd m = Some m1" "tm_wf d m1" "node_of m1 = node_of m"
      "queued d m1 = queued d m - {#i#}" "i \<in># queued d m" "\<forall>j \<in># queued d m. left_time nd \<le> timer_key m j"
      "timer_objects m1 = timer_objects m" "armed d m1 = (armed d m)(i := None)" by blast
    have small: "size (queued d m1) < size (queued d m)" using size_pop [OF top(7)] top(6) by simp
    show ?thesis
    proof (cases "node_callback nd")
      case None
      then have none: "armed d m i = None" using top(1) by (simp add: armed_def)
      then have same: "armed d m1 = armed d m" using top(10) by (simp add: fun_upd_idem)
      from less.hyps [OF small top(4), of w] obtain m' "is" where
        "ox_timer_mgr_schedule lib logged now (m1, w) = Some (m', w @ fired d m1 is)" "tm_wf d m'" "timer_objects m' = timer_objects m1"
        "set is = due_timers d m1 now" "in_time_order d m1 is" "armed d m' = (\<lambda>i. if i \<in> set is then None else armed d m1 i)" by blast
      moreover have "fired d m1 is = fired d m is" "due_timers d m1 now = due_timers d m now" "in_time_order d m1 is = in_time_order d m is"
        by (simp_all add: same fired_def due_timers_def in_time_order_def)
      ultimately show ?thesis using h Some None top(1,3,9) unfolding same
        by (subst ox_timer_mgr_schedule.simps) (intro exI [of _ m'] exI [of _ "is"], simp)
    next
      case call: (Some c)
      have entry: "armed d m i = Some (left_time nd, c, node_arg nd)" using top(1,7) call by (simp add: armed_def)
      show ?thesis
      proof (cases "left_time nd > now")
        case True
        then have "due_timers d m now = {}" using top(8) armed_cases by (fastforce simp: due_timers_def)
        then show ?thesis using h Some call True top(1) less.prems
          by (subst ox_timer_mgr_schedule.simps) (intro exI [of _ m] exI [of _ "[]"], simp add: in_time_order_def fired_def)
      next
        case False
        from less.hyps [OF small top(4), of "w @ [(c, node_arg nd)]"] obtain m' "is" where
          rest: "ox_timer_mgr_schedule lib logged now (m1, w @ [(c, node_arg nd)]) = Some (m', (w @ [(c, node_arg nd)]) @ fired d m1 is)"
          "tm_wf d m'" "timer_objects m' = timer_objects m1"
          "set is = due_timers d m1 now" "in_time_order d m1 is" "armed d m' = (\<lambda>i. if i \<in> set is then None else armed d m1 i)" by blast
        have new: "i \<notin> set is" using rest(4) top(10) by (simp add: due_timers_def)
        have due: "due_timers d m now = insert i (due_timers d m1 now)" using entry False top(10) by (auto simp: due_timers_def)
        note upd = fired_upd [OF new top(10)]
        have "left_time nd \<le> fst (the (armed d m j))" if "j \<in> set is" for j
          using that rest(4) top(8,10) armed_cases by (fastforce simp: due_timers_def split: if_splits)
        then have "in_time_order d m (i # is)" using rest(5) new upd entry by (simp add: in_time_order_def)
        then show ?thesis using h Some call False top(1,3,9,10) rest due upd entry
          by (subst ox_timer_mgr_schedule.simps)
            (intro exI [of _ m'] exI [of _ "i # is"], simp add: logged_def fired_def fun_eq_iff)
      qed
    qed
  qed
qed

section \<open>Callbacks that use the manager\<close>

text \<open>
  A callback that cancels any timers and arms at most one: \<open>script\<close> gives the numbers it cancels and the timer it arms.
\<close>

definition cancel_all :: "int list \<Rightarrow> ('c, 'a, 'st, 'h) timer_mgr_s \<Rightarrow> ('c, 'a, 'st, 'h) timer_mgr_s option" where
  "cancel_all dels m = foldl (\<lambda>r i. do { m \<leftarrow> r; ox_timer_mgr_del m i }) (Some m) dels"

definition timer_reply ::
  "('st, 'h) timer_lib \<Rightarrow> ('st, 'h) timer_alloc \<Rightarrow> ('c \<Rightarrow> 'a option \<Rightarrow> int list \<times> ('c \<times> int \<times> int \<times> 'a option) option) \<Rightarrow>
   'c \<Rightarrow> 'a option \<Rightarrow> ('c, 'a, 'st, 'h) timer_mgr_s \<times> ('c \<times> 'a option) list \<Rightarrow>
   (('c, 'a, 'st, 'h) timer_mgr_s \<times> ('c \<times> 'a option) list) option" where
  "timer_reply lib al script c a s =
     do {
       m1 \<leftarrow> cancel_all (fst (script c a)) (fst s);
       m2 \<leftarrow> (case snd (script c a) of
                None \<Rightarrow> Some m1
              | Some (c', now', delay, a') \<Rightarrow> map_option (\<lambda>r. fst (snd r)) (ox_timer_mgr_add lib al m1 (Some c') now' delay a' 0));
       Some (m2, snd s @ [(c, a)])
     }"

text \<open>The numbers in the heap with a time that has come, cancelled ones too.\<close>

definition due_keys :: "('st, 'h) timer_sem \<Rightarrow> ('c, 'a, 'st, 'h) timer_mgr_s \<Rightarrow> int \<Rightarrow> int multiset" where
  "due_keys d m now = filter_mset (\<lambda>i. timer_key m i \<le> now) (queued d m)"

lemma del_quiet:
  assumes "lib_ok lib d" "tm_wf d m"
  shows "\<exists>m'. ox_timer_mgr_del m i = Some m' \<and> tm_wf d m' \<and> timer_objects m' = timer_objects m \<and> node_num m' = node_num m \<and>
    ids d m' = ids d m \<and> queued d m' = queued d m \<and> due_keys d m' now = due_keys d m now"
proof (cases "0 \<le> i \<and> i < node_num m")
  case True
  then obtain nd where nd: "node_of m i = Some nd" "node_index nd = i" using tm_node [OF assms(2)] by metis
  define m' where "m' = put_timer_node i (nd\<lparr>node_callback := None\<rparr>) m"
  have "tm_wf d m'" unfolding m'_def using nd True by (intro put_wf [OF assms]) (simp_all add: timer_key_def)
  moreover have "timer_key m' = timer_key m"
    using True nd(1) by (simp add: fun_eq_iff timer_key_def m'_def node_put [OF assms(2)])
  moreover have "timer_objects m' = timer_objects m" by (simp add: m'_def timer_objects_def count_some_def put_timer_node_def)
  ultimately show ?thesis using True nd(1) by (simp add: ox_timer_mgr_del_def due_keys_def m'_def)
next
  case False
  then show ?thesis using assms(2) by (auto simp: ox_timer_mgr_del_def)
qed

lemma cancel_quiet:
  assumes "lib_ok lib d" "tm_wf d m"
  shows "\<exists>m'. cancel_all dels m = Some m' \<and> tm_wf d m' \<and> timer_objects m' = timer_objects m \<and> node_num m' = node_num m \<and>
    ids d m' = ids d m \<and> queued d m' = queued d m \<and> due_keys d m' now = due_keys d m now"
proof (induction dels rule: rev_induct)
  case Nil
  then show ?case using assms(2) by (simp add: cancel_all_def)
next
  case (snoc i dels)
  then obtain m1 where m1: "cancel_all dels m = Some m1" "tm_wf d m1" "timer_objects m1 = timer_objects m" "node_num m1 = node_num m"
    "ids d m1 = ids d m" "queued d m1 = queued d m" "due_keys d m1 now = due_keys d m now" by blast
  then show ?case using del_quiet [OF assms(1) m1(2), of i now] by (auto simp: cancel_all_def)
qed

lemma add_free_law:
  assumes lib: "lib_ok lib d" and wf: "tm_wf d m" and free: "ids d m \<noteq> []"
    and time: "i64_ok (- delay)" "i64_ok (delay + now')" "now < delay + now'"
  shows "\<exists>i m'. ox_timer_mgr_add lib al m (Some c) now' delay arg live = Some (i, m', live) \<and> tm_wf d m' \<and>
    timer_objects m' = timer_objects m \<and> node_num m' = node_num m \<and> due_keys d m' now = due_keys d m now \<and>
    size (queued d m') \<le> Suc (size (queued d m))"
proof -
  define i where "i = last (ids d m)"
  obtain s' where pop: "pop_free lib m = Some (Some i, m\<lparr>free_node_ids := Some s'\<rparr>)" "t_stk d s' = butlast (ids d m)"
    "t_cap d s' = node_num m" using pop_free_law(2) [OF lib wf free] by (auto simp: i_def)
  from timer_set_law [OF lib wf free refl pop(2,3) time(1,2), of c arg] obtain m' where
    m': "timer_set lib (m\<lparr>free_node_ids := Some s'\<rparr>) c now' delay arg i = Some m'" "tm_wf d m'"
      "queued d m' = add_mset i (queued d m)" "node_num m' = node_num m" "timer_objects m' = timer_objects m"
      "node_of m' = (node_of m)(i \<mapsto> \<lparr>node_index = i, left_time = delay + now', node_arg = arg, node_callback = Some c\<rparr>)"
    by (auto simp: i_def)
  have "i \<in> set (ids d m)" using free by (simp add: i_def)
  then have "i \<notin># queued d m" using tm_ids(2) [OF wf] by auto
  then have "filter_mset (\<lambda>j. timer_key m' j \<le> now) (queued d m) = filter_mset (\<lambda>j. timer_key m j \<le> now) (queued d m)"
    using m'(6) by (intro filter_mset_cong) (auto simp: timer_key_def)
  then have "due_keys d m' now = due_keys d m now" using time(3) m'(3,6) by (simp add: due_keys_def timer_key_def)
  then show ?thesis using pop(1) m' by (simp add: ox_timer_mgr_add_def)
qed

definition script_ok :: "int \<Rightarrow> ('c \<Rightarrow> 'a option \<Rightarrow> int list \<times> ('c \<times> int \<times> int \<times> 'a option) option) \<Rightarrow> bool" where
  "script_ok now script \<longleftrightarrow> (\<forall>c a c' now' delay a'. snd (script c a) = Some (c', now', delay, a') \<longrightarrow>
     now \<le> now' \<and> 0 < delay \<and> i64_ok (- delay) \<and> i64_ok (delay + now'))"

lemma timer_reply_law:
  assumes lib: "lib_ok lib d" and wf: "tm_wf d m" and free: "ids d m \<noteq> []" and script: "script_ok now script"
  shows "\<exists>m'. timer_reply lib al script c a (m, w) = Some (m', w @ [(c, a)]) \<and> tm_wf d m' \<and>
    timer_objects m' = timer_objects m \<and> node_num m' = node_num m \<and> due_keys d m' now = due_keys d m now \<and>
    size (queued d m') \<le> Suc (size (queued d m))"
proof -
  from cancel_quiet [OF lib wf, of "fst (script c a)" now] obtain m1 where
    m1: "cancel_all (fst (script c a)) m = Some m1" "tm_wf d m1" "timer_objects m1 = timer_objects m" "node_num m1 = node_num m"
    "ids d m1 = ids d m" "queued d m1 = queued d m" "due_keys d m1 now = due_keys d m now" by blast
  show ?thesis
  proof (cases "snd (script c a)")
    case None
    then show ?thesis using m1 by (simp add: timer_reply_def)
  next
    case (Some r)
    obtain c' now' delay a' where r: "r = (c', now', delay, a')" by (cases r)
    have t: "now \<le> now'" "0 < delay" "i64_ok (- delay)" "i64_ok (delay + now')"
      using script Some r unfolding script_ok_def by blast+
    then have "now < delay + now'" "ids d m1 \<noteq> []" using free m1(5) by simp_all
    from add_free_law [OF lib m1(2) this(2) t(3,4) this(1), of al c' a' 0] show ?thesis
      using m1 Some r by (auto simp: timer_reply_def)
  qed
qed

text \<open>
  The time of a callback's new timer lies after the pass, so each round leaves fewer numbers in the heap, or as many with
  fewer that are due.
\<close>

lemma due_pop:
  assumes "queued d m1 = queued d m - {#i#}" "i \<in># queued d m" "node_of m1 = node_of m"
  shows "size (due_keys d m1 now) + (if timer_key m i \<le> now then 1 else 0) = size (due_keys d m now)"
    and "Suc (size (queued d m1)) = size (queued d m)"
proof -
  have q: "queued d m = add_mset i (queued d m1)" using assms(1,2) by simp
  moreover have "timer_key m1 = timer_key m" using assms(3) by (simp add: fun_eq_iff timer_key_def)
  ultimately show "size (due_keys d m1 now) + (if timer_key m i \<le> now then 1 else 0) = size (due_keys d m now)"
    by (simp add: due_keys_def)
  show "Suc (size (queued d m1)) = size (queued d m)" unfolding q by simp
qed

lemma schedule_ends:
  assumes lib: "lib_ok lib d" and script: "script_ok now script" and wf: "tm_wf d m"
  shows "\<exists>m' w'. ox_timer_mgr_schedule lib (timer_reply lib al script) now (m, w) = Some (m', w @ w') \<and> tm_wf d m' \<and>
    timer_objects m' = timer_objects m \<and> node_num m' = node_num m \<and> due_timers d m' now = {}"
  using wf
proof (induction "size (due_keys d m now) + size (queued d m)" arbitrary: m w rule: less_induct)
  case (less m w)
  obtain h where h: "compositor_heap m = Some h" using less.prems by (auto simp: tm_wf_def)
  show ?case
  proof (cases "heap_top lib h")
    case None
    then have "queued d m = {#}" using heap_laws(1) [OF lib, of h] h by (simp add: queued_def)
    then have "due_timers d m now = {}" by (simp add: due_timers_def armed_def)
    then show ?thesis using h None less.prems by (subst ox_timer_mgr_schedule.simps) simp
  next
    case (Some i)
    from take_top_law [OF lib less.prems h Some] obtain nd m1 where
      top: "node_of m i = Some nd" "node_index nd = i" "take_top lib nd m = Some m1" "tm_wf d m1" "node_of m1 = node_of m"
      "queued d m1 = queued d m - {#i#}" "i \<in># queued d m" "\<forall>j \<in># queued d m. left_time nd \<le> timer_key m j"
      "timer_objects m1 = timer_objects m" "node_num m1 = node_num m" by blast
    note pop = due_pop(1) [OF top(6,7,5), of now] due_pop(2) [OF top(6,7,5)]
    have key: "timer_key m i = left_time nd" using top(1) by (simp add: timer_key_def)
    show ?thesis
    proof (cases "node_callback nd")
      case None
      have "size (due_keys d m1 now) + size (queued d m1) < size (due_keys d m now) + size (queued d m)"
        using pop by (simp split: if_splits)
      from less.hyps [OF this top(4), of w] show ?thesis using h Some None top(1,3,9,10)
        by (subst ox_timer_mgr_schedule.simps) simp
    next
      case call: (Some c)
      show ?thesis
      proof (cases "left_time nd > now")
        case True
        then have "due_timers d m now = {}" using top(8) armed_cases by (fastforce simp: due_timers_def)
        then show ?thesis using h Some call True top(1) less.prems by (subst ox_timer_mgr_schedule.simps) simp
      next
        case False
        have "int (length (ids d m1)) + int (size (queued d m1)) = int (length (ids d m)) + int (size (queued d m))"
          using tm_ids(5) [OF top(4)] tm_ids(5) [OF less.prems] top(10) by simp
        then have free: "ids d m1 \<noteq> []" using pop(2) by auto
        from timer_reply_law [OF lib top(4) free script, of al c "node_arg nd" w] obtain m2 where
          m2: "timer_reply lib al script c (node_arg nd) (m1, w) = Some (m2, w @ [(c, node_arg nd)])" "tm_wf d m2"
            "timer_objects m2 = timer_objects m1" "node_num m2 = node_num m1" "due_keys d m2 now = due_keys d m1 now"
            "size (queued d m2) \<le> Suc (size (queued d m1))" by blast
        have "size (due_keys d m2 now) + size (queued d m2) < size (due_keys d m now) + size (queued d m)"
          using pop m2(5,6) key False by simp
        from less.hyps [OF this m2(2), of "w @ [(c, node_arg nd)]"] show ?thesis
          using h Some call False top(1,3,9,10) m2(1,3,4) by (subst ox_timer_mgr_schedule.simps) auto
      qed
    qed
  qed
qed


section \<open>Histories\<close>

text \<open>A new manager: every number is free. The heap is assumed to have been granted; the code does not test it.\<close>

lemma timer_new_law:
  assumes lib: "lib_ok lib d" and al: "grants_ok al d" and heap: "heap_new al num \<noteq> None" and num: "0 \<le> num" "int_ok num"
    and run: "ox_timer_mgr_new lib al granted num live = Some (Some m, live')"
  shows "tm_wf d m \<and> armed d m = (\<lambda>_. None) \<and> timer_objects m = 3 \<and> live' = live + 4 \<and> node_num m = num"
proof -
  obtain h where h: "heap_new al num = Some h" using heap by blast
  then have hs: "t_hset d h = {#}" "num \<le> t_hcap d h" "\<And>key. t_hok d key h" using al by (auto simp: grants_ok_def timer_alloc_ok_def)
  have g: "granted" "nodes_granted al" "\<exists>s. ids_new al num = Some s"
    using run h num by (auto simp: ox_timer_mgr_new_def timeaction_mgr_init_def Let_def split: if_splits bool.splits option.splits)
  then obtain s where s: "ids_new al num = Some s" by blast
  then have new: "t_stk d s = []" "t_cap d s = num" using al by (auto simp: grants_ok_def timer_alloc_ok_def)
  define k where "k = nat num"
  have k: "num = int k" using num by (simp add: k_def)
  have fresh: "[0..num - 1] = map int [0..<k]" using range_ids [of 0 k] k by simp
  define s2 where "s2 = foldl (id_push lib) s (map int [0..<k])"
  have s2: "t_stk d s2 = map int [0..<k]" "t_cap d s2 = num"
    using push_all_law [OF lib, of s "map int [0..<k]"] new k by (simp_all add: s2_def)
  have m: "m = \<lparr>node_num = num, free_node_ids = Some s2, node_array = Some (map timeaction_node_init (map int [0..<k])), compositor_heap = Some h\<rparr>"
    "live' = live + 4"
    using run g(1,2) h s num fresh by (simp_all add: ox_timer_mgr_new_def timeaction_mgr_init_def Let_def count_some_def s2_def)
  have "tm_wf d m" using s2 k num hs by (simp add: tm_wf_def m(1) timeaction_node_init_def)
  moreover have "armed d m = (\<lambda>_. None)" using hs(1) by (simp add: fun_eq_iff m(1) armed_def queued_def)
  ultimately show ?thesis using m by (simp add: timer_objects_def count_some_def)
qed

text \<open>
  What a program does with a manager, beside the map it has in mind: \<open>als\<close> are the rounds of allocations that can happen,
  \<open>live\<close> the number of live objects, \<open>base\<close> that number before the manager was made.
\<close>

inductive timer_run ::
  "('st, 'h) timer_lib \<Rightarrow> (('st, 'h) timer_alloc \<Rightarrow> bool) \<Rightarrow> nat \<Rightarrow> (int \<Rightarrow> (int \<times> 'c \<times> 'a option) option) \<Rightarrow>
   ('c, 'a, 'st, 'h) timer_mgr_s \<Rightarrow> nat \<Rightarrow> bool" for lib als base where
  start: "als al \<Longrightarrow> heap_new al num \<noteq> None \<Longrightarrow> 0 \<le> num \<Longrightarrow> int_ok num \<Longrightarrow>
    ox_timer_mgr_new lib al granted num base = Some (Some m, live) \<Longrightarrow> timer_run lib als base (\<lambda>_. None) m live"
| arm: "timer_run lib als base g m live \<Longrightarrow> als al \<Longrightarrow> i64_ok (- delay) \<Longrightarrow> i64_ok (delay + now) \<Longrightarrow> int_ok (2 * node_num m) \<Longrightarrow>
    ox_timer_mgr_add lib al m (Some c) now delay arg live = Some (i, m', live') \<Longrightarrow>
    timer_run lib als base (if i = - 1 then g else g(i \<mapsto> (delay + now, c, arg))) m' live'"
| cancel: "timer_run lib als base g m live \<Longrightarrow> ox_timer_mgr_del m i = Some m' \<Longrightarrow> timer_run lib als base (g(i := None)) m' live"
| pass: "timer_run lib als base g m live \<Longrightarrow> ox_timer_mgr_schedule lib logged now (m, []) = Some (m', out) \<Longrightarrow>
    timer_run lib als base (\<lambda>i. case g i of None \<Rightarrow> None | Some (t, e) \<Rightarrow> if t \<le> now then None else Some (t, e)) m' live"

lemma run_invariant:
  assumes "timer_run lib als base g m live" "lib_ok lib d" "\<forall>al. als al \<longrightarrow> grants_ok al d"
  shows "tm_wf d m \<and> armed d m = g \<and> timer_objects m = 3 \<and> live = base + 4"
  using assms
proof (induction rule: timer_run.induct)
  case (start al num granted m live)
  then show ?case using timer_new_law [of lib d al num granted base m live] by simp
next
  case (arm g m live al delay now c arg i m' live')
  then show ?case using add_law [of lib d al m delay now c arg live] by (fastforce split: if_splits)
next
  case (cancel g m live i m')
  then show ?case using timer_del_law [of lib d m i] by auto
next
  case (pass g m live now m' out)
  have wf: "tm_wf d m" "armed d m = g" "timer_objects m = 3" "live = base + 4" using pass by blast+
  from schedule_quiet [OF pass.prems(1) wf(1), of now "[]"] pass.hyps(2) obtain "is" where
    "tm_wf d m'" "timer_objects m' = timer_objects m" "set is = due_timers d m now"
    "armed d m' = (\<lambda>i. if i \<in> set is then None else armed d m i)" by auto
  then show ?case using wf by (auto simp: due_timers_def fun_eq_iff split: option.splits)
qed

section \<open>Properties\<close>

text \<open>C26. The manager is the map the program has in mind: after any history of arming, cancelling and passes the armed timers are those
  of the map, a number handed out is never that of another armed timer, and deleting the manager frees exactly what it took. The callbacks of the
  passes do not use the manager.\<close>

theorem timer_c_refines_map:
  assumes "timer_run lib als base g m live" "lib_ok lib d" "\<forall>al. als al \<longrightarrow> grants_ok al d"
    "als al" "i64_ok (- delay)" "i64_ok (delay + now)" "int_ok (2 * node_num m)"
  shows "armed d m = g \<and> ox_timer_mgr_delete (Some m) live = base \<and>
    (\<exists>i m'. ox_timer_mgr_add lib al m (Some c) now delay arg live = Some (i, m', live) \<and>
       (if i = - 1 then armed d m' = g else g i = None \<and> armed d m' = g(i \<mapsto> (delay + now, c, arg))))"
proof -
  note inv = run_invariant [OF assms(1-3)]
  have "grants_ok al d" using assms(3,4) by blast
  from add_law [OF assms(2) this _ assms(5-7), of c arg live] inv have
    "\<exists>i m'. ox_timer_mgr_add lib al m (Some c) now delay arg live = Some (i, m', live) \<and>
       (if i = - 1 then armed d m' = g else g i = None \<and> armed d m' = g(i \<mapsto> (delay + now, c, arg)))" by metis
  then show ?thesis using inv by (simp add: ox_timer_mgr_delete_def timeaction_mgr_destroy_def)
qed

text \<open>C27. A pass whose callbacks do not use the manager runs exactly the armed timers whose time has come, in the order of their times and
  each once, and leaves the others armed. (A callback may also cancel or arm timers: \<open>timer_c_pass_ends\<close> is about those.)\<close>

theorem timer_c_fires_due:
  assumes "lib_ok lib d" "tm_wf d m"
  shows "\<exists>m' is. ox_timer_mgr_schedule lib logged now (m, w) = Some (m', w @ fired d m is) \<and> tm_wf d m' \<and>
    set is = due_timers d m now \<and> in_time_order d m is \<and> armed d m' = (\<lambda>i. if i \<in> set is then None else armed d m i)"
  using schedule_quiet [OF assms, of now w] by blast

text \<open>C28. A pass ends whatever its callbacks cancel, when each arms at most one timer with a positive delay: no timer that is due stays
  armed, and the manager does not grow, since the number of the timer that runs is free before its callback is called.\<close>

theorem timer_c_pass_ends:
  assumes "lib_ok lib d" "tm_wf d m" "script_ok now script"
  shows "\<exists>m' out. ox_timer_mgr_schedule lib (timer_reply lib al script) now (m, w) = Some (m', w @ out) \<and> tm_wf d m' \<and>
    node_num m' = node_num m \<and> due_timers d m' now = {}"
  using schedule_ends [OF assms(1,3,2), of al w] by blast

section \<open>An instance of the libraries\<close>

text \<open>Stacks that stay within their capacity, and a heap that is an unordered list with a search for the least time.\<close>

definition list_stack_push :: "int list \<times> int \<Rightarrow> int \<Rightarrow> int list \<times> int" where
  "list_stack_push s i = (if int (length (fst s)) < snd s then (fst s @ [i], snd s) else s)"

definition list_lib :: "(int list \<times> int, int list \<times> int) timer_lib" where
  "list_lib = \<lparr>id_push = list_stack_push,
     id_popback = (\<lambda>s. if fst s = [] then (None, s) else (Some (last (fst s)), (butlast (fst s), snd s))),
     heap_top = (\<lambda>h. case fst h of [] \<Rightarrow> None | i # _ \<Rightarrow> Some i),
     heap_pop = (\<lambda>key h. (sort_key key (tl (fst h)), snd h)),
     heap_insert = (\<lambda>key h i. (insort_key key i (fst h), snd h)),
     heap_increase = (\<lambda>h n. (True, (fst h, max n (snd h))))\<rparr>"

definition list_sem :: "(int list \<times> int, int list \<times> int) timer_sem" where
  "list_sem = \<lparr>t_stk = fst, t_cap = snd, t_hset = (\<lambda>h. mset (fst h)), t_hcap = snd, t_hok = (\<lambda>key h. sorted (map key (fst h)))\<rparr>"

definition list_alloc :: "(int list \<times> int, int list \<times> int) timer_alloc" where
  "list_alloc = \<lparr>heap_new = (\<lambda>n. Some ([], n)), nodes_granted = True, ids_new = (\<lambda>n. Some ([], n))\<rparr>"

lemma list_lib_ok: "lib_ok list_lib list_sem"
proof -
  have stack: "id_stack_ok list_lib (t_stk list_sem) (t_cap list_sem)"
    by (simp add: id_stack_ok_def list_lib_def list_sem_def list_stack_push_def)
  have "sorted (map key' l)" if "sorted (map key l)" "\<forall>i\<in>set l. key' i = key i" for key key' :: "int \<Rightarrow> int" and l
  proof -
    have "map key' l = map key l" using that(2) by simp
    then show ?thesis using that(1) by (simp only:)
  qed
  then have "timer_heap_ok list_lib (t_hset list_sem) (t_hcap list_sem) (t_hok list_sem)"
    by (auto simp: timer_heap_ok_def list_lib_def list_sem_def sorted_insort_key split: list.splits)
  then show ?thesis using stack by (simp add: lib_ok_def)
qed

lemma list_alloc_ok: "grants_ok list_alloc list_sem"
  by (simp add: grants_ok_def timer_alloc_ok_def list_alloc_def list_sem_def)

text \<open>Two timers with a free number left.\<close>

definition two_timers :: "(nat, nat, int list \<times> int, int list \<times> int) timer_mgr_s" where
  "two_timers = \<lparr>node_num = 3, free_node_ids = Some ([0], 3),
     node_array = Some [timeaction_node_init 0, \<lparr>node_index = 1, left_time = 7, node_arg = None, node_callback = Some 4\<rparr>,
       \<lparr>node_index = 2, left_time = 5, node_arg = Some 9, node_callback = Some 3\<rparr>],
     compositor_heap = Some ([2, 1], 3)\<rparr>"

lemma two_timers_wf: "tm_wf list_sem two_timers"
proof -
  have "mset (map int [0..<3]) = {#0, 1, 2#}" by code_simp
  moreover have "\<forall>i < Suc (Suc (Suc 0)). node_index ([timeaction_node_init 0, \<lparr>node_index = 1, left_time = 7, node_arg = None, node_callback = Some 4\<rparr>,
       \<lparr>node_index = 2, left_time = 5, node_arg = Some (9::nat), node_callback = Some (3::nat)\<rparr>] ! i) = int i"
    by (auto simp: less_Suc_eq timeaction_node_init_def)
  ultimately show ?thesis
    by (simp add: tm_wf_def two_timers_def list_sem_def timer_key_def node_of_def int_ok_def del: mset_map mset_upt)
qed


text \<open>When only the heap is not granted, a manager without one is made, and the first timer meets the null pointer.\<close>

lemma null_heap_unnoticed:
  "case ox_timer_mgr_new list_lib (list_alloc\<lparr>heap_new := \<lambda>_. None\<rparr>) True 1 0 of
     Some (Some m, live) \<Rightarrow> compositor_heap m = None \<and> ox_timer_mgr_add list_lib list_alloc m (Some (3::nat)) 10 5 (Some (7::nat)) live = None
   | _ \<Rightarrow> False"
  by code_simp

lemma timer_c_fires_due_witness:
  "(\<exists>m' is. ox_timer_mgr_schedule list_lib logged 6 (two_timers, []) = Some (m', [] @ fired list_sem two_timers is) \<and> tm_wf list_sem m' \<and>
     set is = due_timers list_sem two_timers 6 \<and> in_time_order list_sem two_timers is \<and>
     armed list_sem m' = (\<lambda>i. if i \<in> set is then None else armed list_sem two_timers i)) \<and>
   map_option snd (ox_timer_mgr_schedule list_lib logged 6 (two_timers, [])) = Some [(3, Some 9)] \<and>
   map_option snd (ox_timer_mgr_schedule list_lib logged 7 (two_timers, [])) = Some [(3, Some 9), (4, None)]"
proof (intro conjI)
  show "\<exists>m' is. ox_timer_mgr_schedule list_lib logged 6 (two_timers, []) = Some (m', [] @ fired list_sem two_timers is) \<and> tm_wf list_sem m' \<and>
     set is = due_timers list_sem two_timers 6 \<and> in_time_order list_sem two_timers is \<and>
     armed list_sem m' = (\<lambda>i. if i \<in> set is then None else armed list_sem two_timers i)"
    by (rule timer_c_fires_due [OF list_lib_ok two_timers_wf])
qed code_simp+

text \<open>A callback that cancels timer 1 and arms itself again.\<close>

definition again :: "nat \<Rightarrow> nat option \<Rightarrow> int list \<times> (nat \<times> int \<times> int \<times> nat option) option" where
  "again c a = ([1], Some (c, 8, 2, a))"

lemma timer_c_pass_ends_witness:
  "(\<exists>m' out. ox_timer_mgr_schedule list_lib (timer_reply list_lib list_alloc again) 7 (two_timers, []) = Some (m', [] @ out) \<and>
     tm_wf list_sem m' \<and> node_num m' = node_num two_timers \<and> due_timers list_sem m' 7 = {}) \<and>
   map_option snd (ox_timer_mgr_schedule list_lib (timer_reply list_lib list_alloc again) 7 (two_timers, [])) = Some [(3, Some 9)]"
proof (intro conjI)
  have "script_ok 7 again" by (simp add: script_ok_def again_def i64_ok_def)
  from timer_c_pass_ends [OF list_lib_ok two_timers_wf this]
  show "\<exists>m' out. ox_timer_mgr_schedule list_lib (timer_reply list_lib list_alloc again) 7 (two_timers, []) = Some (m', [] @ out) \<and>
     tm_wf list_sem m' \<and> node_num m' = node_num two_timers \<and> due_timers list_sem m' 7 = {}" .
qed code_simp

definition fresh_timers :: "(nat, nat, int list \<times> int, int list \<times> int) timer_mgr_s" where
  "fresh_timers = \<lparr>node_num = 1, free_node_ids = Some ([0], 1), node_array = Some [timeaction_node_init 0], compositor_heap = Some ([], 1)\<rparr>"

lemma fresh_timers_run: "timer_run list_lib (\<lambda>al. al = list_alloc) 0 (\<lambda>_. None) fresh_timers 4"
proof (rule timer_run.start [where al = list_alloc and num = 1 and granted = True])
  show "ox_timer_mgr_new list_lib list_alloc True 1 0 = Some (Some fresh_timers, 4)" by code_simp
qed (simp_all add: list_alloc_def int_ok_def)

lemma timer_c_refines_map_witness:
  "armed list_sem fresh_timers = (\<lambda>_. None) \<and> ox_timer_mgr_delete (Some fresh_timers) 4 = 0 \<and>
   (\<exists>i m'. ox_timer_mgr_add list_lib list_alloc fresh_timers (Some 3) 10 5 (Some 7) 4 = Some (i, m', 4) \<and>
      (if i = - 1 then armed list_sem m' = (\<lambda>_. None) else (\<lambda>_. None) i = (None :: (int \<times> nat \<times> nat option) option) \<and>
         armed list_sem m' = (\<lambda>_. None)(i \<mapsto> (5 + 10, 3, Some 7)))) \<and>
   map_option fst (ox_timer_mgr_add list_lib list_alloc fresh_timers (Some 3) 10 5 (Some 7) 4) = Some 0"
proof -
  have "\<forall>al. al = list_alloc \<longrightarrow> grants_ok al list_sem" by (simp add: list_alloc_ok)
  moreover have "i64_ok (- 5)" "i64_ok (5 + 10)" "int_ok (2 * node_num fresh_timers)" by (simp_all add: i64_ok_def int_ok_def fresh_timers_def)
  moreover have "map_option fst (ox_timer_mgr_add list_lib list_alloc fresh_timers (Some 3) 10 5 (Some 7) 4) = Some 0" by code_simp
  ultimately show ?thesis
    using timer_c_refines_map [OF fresh_timers_run list_lib_ok, of list_alloc 5 10 3 "Some 7"] by simp
qed

end
