(* ===== verification/Wrap_Service.thy ===== *)
theory Wrap_Service
  imports Http_Server Tcp_Sessions
begin

text \<open>
  Sessions: \<^verbatim>\<open>src/net/WrapTCPService.cpp\<close>, \<^verbatim>\<open>NetSession.cpp\<close> and the part of \<^verbatim>\<open>http/HttpServer.cpp\<close> that sets connections up. A
  \<^verbatim>\<open>TCPSession\<close> stands for a connection of a \<open>Tcp_Service\<close>; what runs on it is either the handler of \<open>Http_Server\<close> or a
  \<^verbatim>\<open>BaseNetSession\<close> of the user. Objects are addresses of explicit heaps; a function object is the constructor of its lambda with
  the values it captures. The calls of the user's code are the list \<open>sw_log\<close>. Shared pointers keep their objects alive; only the
  \<^verbatim>\<open>HTTPParser\<close>, which is deleted by hand, leaves its heap. \<open>None\<close> is a null or dangling pointer, an object deleted twice, or a failed
  assertion below.
\<close>

section \<open>State\<close>

type_synonym obj = nat

text \<open>Which callbacks of an \<^verbatim>\<open>HttpSession\<close> are set.\<close>

record http_callbacks =
  cb_http :: bool
  cb_ws :: bool
  cb_close :: bool
  cb_connected :: bool

text \<open>
  The lambdas of \<^verbatim>\<open>addConnection\<close> and \<^verbatim>\<open>startListen\<close> (whether there is an enter callback, and the callbacks that are set once
  it has run), and of \<^verbatim>\<open>WrapAddNetSession\<close>.
\<close>

datatype enter_closure = HttpEnter bool http_callbacks | NetEnter obj int

datatype close_closure = HttpClosed obj | NetClosed obj

datatype data_closure = HttpData obj | NetData obj

record tcp_session =
  ts_service :: bool
  ts_socket_id :: session_id
  ts_ip :: string
  ts_user :: int
  ts_close :: "close_closure option"
  ts_data :: "data_closure option"

record http_session =
  hs_session :: obj
  hs_user :: int
  hs_callbacks :: http_callbacks

record net_session =
  ns_server :: bool
  ns_socket_id :: session_id
  ns_ip :: string

text \<open>The user's code: the enter and close callbacks with the session, and the virtual functions of a \<^verbatim>\<open>BaseNetSession\<close>.\<close>

datatype user_event =
    UserEnter obj
  | UserClose obj
  | NetOnEnter obj
  | NetOnClose obj
  | NetOnMsg obj bytes

text \<open>\<open>sw_captured\<close> is what the callbacks of a connection captured: the session, the address of the peer and the user's enter callback.\<close>

record server_world =
  sw_tcp :: tcp_service
  sw_captured :: "sock_ptr \<Rightarrow> (obj \<times> string \<times> enter_closure) option"
  sw_sessions :: "obj \<Rightarrow> tcp_session option"
  sw_https :: "obj \<Rightarrow> http_session option"
  sw_parsers :: "obj \<Rightarrow> http_conn option"
  sw_nets :: "obj \<Rightarrow> net_session option"
  sw_fresh :: obj
  sw_log :: "user_event list"

definition log_user :: "user_event \<Rightarrow> server_world \<Rightarrow> server_world" where
  "log_user e w = w\<lparr>sw_log := sw_log w @ [e]\<rparr>"

section \<open>TCPSession\<close>

definition new_tcp_session :: tcp_session where
  "new_tcp_session =
     \<lparr>ts_service = False, ts_socket_id = -1, ts_ip = [], ts_user = -1, ts_close = None, ts_data = None\<rparr>"

definition setService :: "tcp_session \<Rightarrow> tcp_session" where
  "setService ss = ss\<lparr>ts_service := True\<rparr>"

definition setSocketID :: "session_id \<Rightarrow> tcp_session \<Rightarrow> tcp_session" where
  "setSocketID i ss = ss\<lparr>ts_socket_id := i\<rparr>"

definition setIP :: "string \<Rightarrow> tcp_session \<Rightarrow> tcp_session" where
  "setIP ip ss = ss\<lparr>ts_ip := ip\<rparr>"

definition setUD :: "int \<Rightarrow> tcp_session \<Rightarrow> tcp_session" where
  "setUD ud ss = ss\<lparr>ts_user := ud\<rparr>"

definition setCloseCallback :: "close_closure \<Rightarrow> tcp_session \<Rightarrow> tcp_session" where
  "setCloseCallback f ss = ss\<lparr>ts_close := Some f\<rparr>"

definition setDataCallback :: "data_closure \<Rightarrow> tcp_session \<Rightarrow> tcp_session" where
  "setDataCallback f ss = ss\<lparr>ts_data := Some f\<rparr>"

definition on_session :: "obj \<Rightarrow> (tcp_session \<Rightarrow> tcp_session) \<Rightarrow> server_world \<Rightarrow> server_world option" where
  "on_session s f w =
     do { ss \<leftarrow> sw_sessions w s; Some (w\<lparr>sw_sessions := (sw_sessions w)(s \<mapsto> f ss)\<rparr>) }"

text \<open>A call of the service: it raises no event of a session, since none of these calls enters a connection.\<close>

definition on_service :: "(tcp_service \<Rightarrow> tcp_service option) \<Rightarrow> server_world \<Rightarrow> server_world option" where
  "on_service f w = do { sv \<leftarrow> f (sw_tcp w); Some (w\<lparr>sw_tcp := sv\<rparr>) }"

definition session_send :: "int \<Rightarrow> obj \<Rightarrow> bytes \<Rightarrow> nat option \<Rightarrow> server_world \<Rightarrow> server_world option" where
  "session_send tid s packet callback w =
     do { ss \<leftarrow> sw_sessions w s; if ts_service ss then on_service (send tid (ts_socket_id ss) packet callback) w else None }"

definition session_postShutdown :: "int \<Rightarrow> obj \<Rightarrow> server_world \<Rightarrow> server_world option" where
  "session_postShutdown tid s w =
     do { ss \<leftarrow> sw_sessions w s; if ts_service ss then on_service (shutdown tid (ts_socket_id ss)) w else None }"

definition session_postClose :: "int \<Rightarrow> obj \<Rightarrow> server_world \<Rightarrow> server_world option" where
  "session_postClose tid s w =
     do { ss \<leftarrow> sw_sessions w s; if ts_service ss then on_service (disConnect tid (ts_socket_id ss)) w else None }"

section \<open>HTTP connections\<close>

text \<open>\<^verbatim>\<open>handleHttp\<close> up to the lambdas it installs: a parser, whose address becomes the user data of the session.\<close>

definition handleHttp :: "obj \<Rightarrow> server_world \<Rightarrow> server_world option" where
  "handleHttp h w =
     do {
       hs \<leftarrow> sw_https w h;
       let s = hs_session hs;
       let prs = sw_fresh w;
       let w1 = w\<lparr>sw_fresh := Suc prs, sw_parsers := (sw_parsers w)(prs \<mapsto> new_http_conn)\<rparr>;
       w2 \<leftarrow> on_session s (setUD (int prs)) w1;
       w3 \<leftarrow> on_session s (setCloseCallback (HttpClosed h)) w2;
       on_session s (setDataCallback (HttpData h)) w3
     }"

text \<open>The lambda of \<^verbatim>\<open>addConnection\<close>, or that of \<^verbatim>\<open>startListen\<close>: a session object, the user's enter callback, the handler.\<close>

definition http_enter :: "bool \<Rightarrow> http_callbacks \<Rightarrow> obj \<Rightarrow> server_world \<Rightarrow> server_world option" where
  "http_enter notify cbs s w =
     (let h = sw_fresh w;
          w1 = w\<lparr>sw_fresh := Suc h, sw_https := (sw_https w)(h \<mapsto> \<lparr>hs_session = s, hs_user = -1, hs_callbacks = cbs\<rparr>)\<rparr>
      in handleHttp h (if notify then log_user (UserEnter h) w1 else w1))"

text \<open>The close lambda deletes the parser that the user data points to.\<close>

definition http_closed :: "obj \<Rightarrow> obj \<Rightarrow> server_world \<Rightarrow> server_world option" where
  "http_closed h s w =
     do {
       ss \<leftarrow> sw_sessions w s;
       c \<leftarrow> sw_parsers w (nat (ts_user ss));
       let w1 = w\<lparr>sw_parsers := (sw_parsers w)(nat (ts_user ss) := None)\<rparr>;
       hs \<leftarrow> sw_https w1 h;
       Some (if cb_close (hs_callbacks hs) then log_user (UserClose h) w1 else w1)
     }"

definition with_callbacks :: "http_callbacks \<Rightarrow> http_conn \<Rightarrow> http_conn" where
  "with_callbacks cbs c =
     c\<lparr>mHttpRequestCallback := cb_http cbs, mWSCallback := cb_ws cbs, mWSConnectedCallback := cb_connected cbs\<rparr>"

text \<open>What the handler sends through the session.\<close>

fun sent_by :: "http_output list \<Rightarrow> bytes list" where
  "sent_by [] = []"
| "sent_by (SendBytes b # es) = b # sent_by es"
| "sent_by (e # es) = sent_by es"

text \<open>The data lambda: the handler of \<open>Http_Server\<close> on the parser of the session, with the callbacks set at that time.\<close>

definition http_data ::
  "http_parser_url \<Rightarrow> csha1 \<Rightarrow> int \<Rightarrow> obj \<Rightarrow> obj \<Rightarrow> bytes \<Rightarrow> server_world \<Rightarrow> (nat \<times> server_world) option" where
  "http_data u0 raw tid h s buffer w =
     do {
       ss \<leftarrow> sw_sessions w s;
       c \<leftarrow> sw_parsers w (nat (ts_user ss));
       hs \<leftarrow> sw_https w h;
       (retlen, c') \<leftarrow> http_on_data u0 raw buffer (with_callbacks (hs_callbacks hs) c);
       w' \<leftarrow> run_procs (\<lambda>b. session_send tid (hs_session hs) b None)
               (sent_by (drop (length (http_out c)) (http_out c')))
               (w\<lparr>sw_parsers := (sw_parsers w)(nat (ts_user ss) \<mapsto> c')\<rparr>);
       Some (retlen, w')
     }"

section \<open>BaseNetSession\<close>

definition on_net :: "obj \<Rightarrow> (net_session \<Rightarrow> net_session) \<Rightarrow> server_world \<Rightarrow> server_world option" where
  "on_net n f w = do { ns \<leftarrow> sw_nets w n; Some (w\<lparr>sw_nets := (sw_nets w)(n \<mapsto> f ns)\<rparr>) }"

definition setSession :: "session_id \<Rightarrow> string \<Rightarrow> net_session \<Rightarrow> net_session" where
  "setSession i ip ns = ns\<lparr>ns_server := True, ns_socket_id := i, ns_ip := ip\<rparr>"

definition net_postClose :: "int \<Rightarrow> obj \<Rightarrow> server_world \<Rightarrow> server_world option" where
  "net_postClose tid n w =
     do { ns \<leftarrow> sw_nets w n; if ns_server ns then on_service (disConnect tid (ns_socket_id ns)) w else None }"

definition net_sendPacket :: "int \<Rightarrow> obj \<Rightarrow> bytes \<Rightarrow> nat option \<Rightarrow> server_world \<Rightarrow> server_world option" where
  "net_sendPacket tid n packet callback w =
     do { ns \<leftarrow> sw_nets w n; if ns_server ns then on_service (send tid (ns_socket_id ns) packet callback) w else None }"

text \<open>The loop of the session; its index, where the code has the pointer.\<close>

definition net_getEventLoop :: "obj \<Rightarrow> server_world \<Rightarrow> nat option" where
  "net_getEventLoop n w =
     do { ns \<leftarrow> sw_nets w n; if ns_server ns then getEventLoopBySocketID (ns_socket_id ns) (sw_tcp w) else None }"

text \<open>The lambda of \<^verbatim>\<open>WrapAddNetSession\<close>.\<close>

definition net_enter :: "int \<Rightarrow> obj \<Rightarrow> int \<Rightarrow> obj \<Rightarrow> server_world \<Rightarrow> server_world option" where
  "net_enter tid n pingCheckTime s w =
     do {
       ss \<leftarrow> sw_sessions w s;
       w1 \<leftarrow> on_net n (setSession (ts_socket_id ss) (ts_ip ss)) w;
       w2 \<leftarrow> on_service (setPingCheckTime tid (ts_socket_id ss) pingCheckTime) (log_user (NetOnEnter n) w1);
       w3 \<leftarrow> on_session s (setCloseCallback (NetClosed n)) w2;
       on_session s (setDataCallback (NetData n)) w3
     }"

section \<open>WrapServer\<close>

text \<open>The enter lambda of \<^verbatim>\<open>addSession\<close>, given to the service with the connection.\<close>

definition enterCallback :: "int \<Rightarrow> session_id \<Rightarrow> sock_ptr \<Rightarrow> server_world \<Rightarrow> server_world option" where
  "enterCallback tid i p w =
     (case sw_captured w p of
        None \<Rightarrow> Some w
      | Some (s, ip, enter) \<Rightarrow>
          do {
            w1 \<leftarrow> on_session s (setIP ip \<circ> setSocketID i) w;
            (case enter of HttpEnter notify cbs \<Rightarrow> http_enter notify cbs s w1 | NetEnter n pingCheckTime \<Rightarrow> net_enter tid n pingCheckTime s w1)
          })"

definition closeCallback :: "sock_ptr \<Rightarrow> server_world \<Rightarrow> server_world option" where
  "closeCallback p w =
     (case sw_captured w p of
        None \<Rightarrow> Some w
      | Some (s, ip, enter) \<Rightarrow>
          do {
            ss \<leftarrow> sw_sessions w s;
            (case ts_close ss of
               None \<Rightarrow> Some w
             | Some (HttpClosed h) \<Rightarrow> http_closed h s w
             | Some (NetClosed n) \<Rightarrow> Some (log_user (NetOnClose n) w))
          })"

text \<open>\<open>taken\<close> is the answer of the user's \<^verbatim>\<open>onMsg\<close>.\<close>

definition msgCallback ::
  "http_parser_url \<Rightarrow> csha1 \<Rightarrow> int \<Rightarrow> nat \<Rightarrow> sock_ptr \<Rightarrow> bytes \<Rightarrow> server_world \<Rightarrow> (nat \<times> server_world) option" where
  "msgCallback u0 raw tid taken p buffer w =
     (case sw_captured w p of
        None \<Rightarrow> Some (0, w)
      | Some (s, ip, enter) \<Rightarrow>
          do {
            ss \<leftarrow> sw_sessions w s;
            (case ts_data ss of
               None \<Rightarrow> Some (0, w)
             | Some (HttpData h) \<Rightarrow> http_data u0 raw tid h s buffer w
             | Some (NetData n) \<Rightarrow> Some (taken, log_user (NetOnMsg n buffer) w))
          })"

text \<open>
  The service in its new state \<open>sv\<close>: the event it raised runs the lambda of its connection. A step of the service raises at most one;
  a disconnect is one of the connection that had entered under the id.
\<close>

definition absorb :: "int \<Rightarrow> tcp_service \<Rightarrow> server_world \<Rightarrow> server_world option" where
  "absorb tid sv w =
     (let before = session_log (sw_tcp w); w1 = w\<lparr>sw_tcp := sv\<rparr>
      in case drop (length before) (session_log sv) of
           [] \<Rightarrow> Some w1
         | SessionEnter i p # es \<Rightarrow> enterCallback tid i p w1
         | SessionLeave i # es \<Rightarrow> (case session_of before i of None \<Rightarrow> Some w1 | Some p \<Rightarrow> closeCallback p w1))"

text \<open>\<open>ip\<close> is what \<^verbatim>\<open>ox_socket_getipoffd\<close> returns; the other arguments are those of \<open>addDataSocket\<close>.\<close>

definition addSession ::
  "bool \<Rightarrow> bool \<Rightarrow> link_result \<Rightarrow> nat \<Rightarrow> int \<Rightarrow> enter_closure \<Rightarrow> bool \<Rightarrow> bool \<Rightarrow> sock_ptr \<Rightarrow> string \<Rightarrow> server_world \<Rightarrow> server_world option" where
  "addSession use_openssl ssl_ok r rand tid enter isUseSSL force channel ip w =
     (let s = sw_fresh w;
          w1 = w\<lparr>sw_fresh := Suc s, sw_sessions := (sw_sessions w)(s \<mapsto> setService new_tcp_session),
                 sw_captured := (sw_captured w)(channel \<mapsto> (s, ip, enter))\<rparr>
      in do {
           (ret, sv) \<leftarrow> addDataSocket use_openssl ssl_ok r rand tid isUseSSL force channel (sw_tcp w1);
           absorb tid sv w1
         })"

definition addConnection ::
  "link_result \<Rightarrow> nat \<Rightarrow> int \<Rightarrow> http_callbacks \<Rightarrow> sock_ptr \<Rightarrow> string \<Rightarrow> server_world \<Rightarrow> server_world option" where
  "addConnection r rand tid cbs channel ip w = addSession True True r rand tid (HttpEnter True cbs) False False channel ip w"

text \<open>What \<^verbatim>\<open>startListen\<close> does with an accepted descriptor; \<open>onEnter\<close> is the user's enter callback, if set.\<close>

definition acceptHttp ::
  "link_result \<Rightarrow> nat \<Rightarrow> int \<Rightarrow> http_callbacks option \<Rightarrow> sock_ptr \<Rightarrow> string \<Rightarrow> server_world \<Rightarrow> server_world option" where
  "acceptHttp r rand tid onEnter channel ip w =
     addSession True True r rand tid
       (case onEnter of
          None \<Rightarrow> HttpEnter False \<lparr>cb_http = False, cb_ws = False, cb_close = False, cb_connected = False\<rparr>
        | Some cbs \<Rightarrow> HttpEnter True cbs)
       False False channel ip w"

definition WrapAddNetSession ::
  "link_result \<Rightarrow> nat \<Rightarrow> int \<Rightarrow> obj \<Rightarrow> int \<Rightarrow> sock_ptr \<Rightarrow> string \<Rightarrow> server_world \<Rightarrow> server_world option" where
  "WrapAddNetSession r rand tid n pingCheckTime channel ip w =
     addSession True True r rand tid (NetEnter n pingCheckTime) False False channel ip w"

definition startWorkThread :: "nat \<Rightarrow> server_world \<Rightarrow> server_world" where
  "startWorkThread threadNum w = w\<lparr>sw_tcp := startWorkerThread threadNum (sw_tcp w)\<rparr>"

definition new_server_world :: server_world where
  "new_server_world =
     \<lparr>sw_tcp = new_tcp_service, sw_captured = (\<lambda>_. None), sw_sessions = (\<lambda>_. None), sw_https = (\<lambda>_. None), sw_parsers = (\<lambda>_. None),
      sw_nets = (\<lambda>_. None), sw_fresh = 0, sw_log = []\<rparr>"

text \<open>The user's setters of an \<^verbatim>\<open>HttpSession\<close>.\<close>

definition set_http_callbacks :: "obj \<Rightarrow> http_callbacks \<Rightarrow> server_world \<Rightarrow> server_world option" where
  "set_http_callbacks h cbs w =
     do { hs \<leftarrow> sw_https w h; Some (w\<lparr>sw_https := (sw_https w)(h \<mapsto> hs\<lparr>hs_callbacks := cbs\<rparr>)\<rparr>) }"

end
