(* ===== verification/Wrap_Sessions.thy ===== *)
theory Wrap_Sessions
  imports Wrap_Service
begin

text \<open>
  Every session has its own handler: over all steps of all threads, an HTTP session that is in has exactly one parser, which has
  seen exactly the blocks of that session, and no parser outlives its session.
\<close>

section \<open>What a step of the service does to its connections\<close>

text \<open>At most one event, and no connection appears; one that enters had not entered, one that leaves is in.\<close>

definition calm :: "tcp_service \<Rightarrow> tcp_service \<Rightarrow> bool" where
  "calm sv sv' \<longleftrightarrow>
     (\<exists>es. session_log sv' = session_log sv @ es \<and>
        (es = [] \<or> (\<exists>i p ds. es = [SessionEnter i p] \<and> heap sv p = Some ds \<and> ds_session ds = None) \<or>
         (\<exists>i p ds. es = [SessionLeave i] \<and> heap sv p = Some ds \<and> ds_session ds = Some i))) \<and>
     (\<forall>p ds'. heap sv' p = Some ds' \<longrightarrow> (\<exists>ds. heap sv p = Some ds \<and> (ds_session ds' = None \<longrightarrow> ds_session ds = None)))"

lemma calm_same: "session_log sv' = session_log sv \<Longrightarrow> heap sv' = heap sv \<Longrightarrow> calm sv sv'"
  by (auto simp: calm_def)

lemma calm_pre:
  assumes "calm sv1 sv'" "session_log sv1 = session_log sv"
    "\<And>p ds'. heap sv1 p = Some ds' \<Longrightarrow> \<exists>ds. heap sv p = Some ds \<and> ds_session ds = ds_session ds'"
  shows "calm sv sv'"
proof -
  obtain es where es: "session_log sv' = session_log sv1 @ es"
    "es = [] \<or> (\<exists>i p ds. es = [SessionEnter i p] \<and> heap sv1 p = Some ds \<and> ds_session ds = None) \<or>
     (\<exists>i p ds. es = [SessionLeave i] \<and> heap sv1 p = Some ds \<and> ds_session ds = Some i)"
    "\<forall>p ds'. heap sv' p = Some ds' \<longrightarrow> (\<exists>ds. heap sv1 p = Some ds \<and> (ds_session ds' = None \<longrightarrow> ds_session ds = None))"
    using assms(1) unfolding calm_def by blast
  have "es = [] \<or> (\<exists>i p ds. es = [SessionEnter i p] \<and> heap sv p = Some ds \<and> ds_session ds = None) \<or>
     (\<exists>i p ds. es = [SessionLeave i] \<and> heap sv p = Some ds \<and> ds_session ds = Some i)"
    using es(2)
  proof (elim disjE exE conjE)
    fix i p ds assume "es = [SessionEnter i p]" "heap sv1 p = Some ds" "ds_session ds = None"
    then show ?thesis using assms(3) [of p ds] by auto
  next
    fix i p ds assume "es = [SessionLeave i]" "heap sv1 p = Some ds" "ds_session ds = Some i"
    then show ?thesis using assms(3) [of p ds] by auto
  qed simp
  moreover have "\<exists>ds. heap sv p = Some ds \<and> (ds_session ds' = None \<longrightarrow> ds_session ds = None)" if "heap sv' p = Some ds'" for p ds'
    using es(3) that assms(3) by metis
  ultimately show ?thesis using es(1) assms(2) by (auto simp: calm_def)
qed

lemma MakeID_same: "MakeID k sv = Some (i, sv') \<Longrightarrow> session_log sv' = session_log sv \<and> heap sv' = heap sv"
  by (auto simp: MakeID_def Let_def bind_eq_Some_conv case_prod_unfold split: if_splits)

lemma set_socket_same: "set_socket k j v sv = Some sv' \<Longrightarrow> session_log sv' = session_log sv \<and> heap sv' = heap sv"
  by (auto simp: set_socket_def bind_eq_Some_conv)

lemma enter_calm:
  assumes inv: "tcp_inv sv" and run: "on_channel_enter p sv = Some sv'"
  shows "calm sv sv'"
proof -
  obtain ds where ds: "heap sv p = Some ds" using run by (auto simp: on_channel_enter_def bind_eq_Some_conv)
  show ?thesis
  proof (cases "ds_enter ds")
    case None
    then show ?thesis using run ds by (auto simp: on_channel_enter_def intro: calm_same)
  next
    case (Some k)
    then obtain i sv1 sv2 where r: "MakeID k sv = Some (i, sv1)" "set_socket k (slot_of i) (Some p) sv1 = Some sv2"
      "sv' = sv2\<lparr>heap := (heap sv2)(p \<mapsto> ds\<lparr>ds_user := i, ds_session := Some i, ds_enter := None\<rparr>), session_log := session_log sv2 @ [SessionEnter i p]\<rparr>"
      using run ds by (auto simp: on_channel_enter_def bind_eq_Some_conv)
    have "ds_session ds = None" using session_before_enter [OF inv ds Some] by simp
    then show ?thesis using r MakeID_same [OF r(1)] set_socket_same [OF r(2)] ds by (auto simp: calm_def)
  qed
qed

lemma close_calm:
  assumes run: "on_channel_close p sv = Some sv'"
  shows "calm sv sv'"
proof -
  obtain ds where ds: "heap sv p = Some ds" using run by (auto simp: on_channel_close_def bind_eq_Some_conv)
  show ?thesis
  proof (cases "ds_session ds")
    case None
    then show ?thesis using run ds by (auto simp: on_channel_close_def intro: calm_same)
  next
    case (Some i)
    then obtain sv1 where r: "procDataSocketClose p sv = Some sv1"
      "sv' = sv1\<lparr>heap := (heap sv1)(p := None), session_log := session_log sv1 @ [SessionLeave i]\<rparr>"
      using run ds by (auto simp: on_channel_close_def bind_eq_Some_conv)
    have "session_log sv1 = session_log sv \<and> heap sv1 = heap sv"
      using r(1) by (auto simp: procDataSocketClose_def bind_eq_Some_conv dest!: set_socket_same)
    then show ?thesis using r(2) ds Some by (auto simp: calm_def)
  qed
qed

lemma enter_loop_calm:
  assumes inv: "tcp_inv sv" and fresh: "fresh_proc sv (EnterLoop p k)" and run: "enter_event_loop r p k sv = Some sv'"
    and ds: "heap sv p = Some ds" "ds_session ds = None" "\<forall>k. ds_enter ds = Some k \<longrightarrow> k < mLoopNum sv"
  shows "calm sv sv'"
proof (cases r)
  case Refused
  then show ?thesis using run ds(1) by (auto simp: enter_event_loop_def bind_eq_Some_conv calm_def split: if_splits)
next
  case Linked_TLS
  then show ?thesis using run ds(1) by (auto simp: enter_event_loop_def bind_eq_Some_conv calm_def split: if_splits)
next
  case Linked_Plain
  let ?sv = "sv\<lparr>heap := (heap sv)(p \<mapsto> ds\<lparr>ds_loop := Some k\<rparr>)\<rparr>"
  have enter: "on_channel_enter p ?sv = Some sv'"
    using run ds(1) Linked_Plain by (auto simp: enter_event_loop_def bind_eq_Some_conv split: if_splits)
  have "tcp_inv ?sv" using set_heap_inv [OF inv, of p "Some (ds\<lparr>ds_loop := Some k\<rparr>)"] ds fresh by (auto simp: fresh_proc_def)
  from enter_calm [OF this enter] show ?thesis by (rule calm_pre) (use ds(1) in \<open>auto split: if_splits\<close>)
qed

lemma run_next_calm:
  assumes inv: "tcp_inv sv" and run: "run_next r k sv = Some sv'"
  shows "calm sv sv'"
proof -
  obtain l where k: "elem (mLoops sv) k = Some l" using run by (auto simp: run_next_def bind_eq_Some_conv)
  then obtain f fs where l: "elem (mLoops sv) k = Some l" "mAsyncProcs l = f # fs" using run by (cases "mAsyncProcs l") (auto simp: run_next_def)
  define sv1 where "sv1 = sv\<lparr>mLoops := put (mLoops sv) k (l\<lparr>mAsyncProcs := fs\<rparr>)\<rparr>"
  have exec: "tcp_exec r f sv1 = Some sv'" using run l by (simp add: run_next_def sv1_def)
  have same: "session_log sv1 = session_log sv" "heap sv1 = heap sv" "mLoopNum sv1 = mLoopNum sv" by (simp_all add: sv1_def)
  note q = queued_fresh [OF inv l, folded sv1_def]
  show ?thesis
  proof (cases f)
    case (SessionSend i packet callback)
    then show ?thesis using exec same by (intro calm_same) (auto dest: call_session_same)
  next
    case (SessionCall i c)
    then show ?thesis using exec same by (intro calm_same) (auto dest: call_session_same)
  next
    case (CachedSends vs)
    then show ?thesis using exec same by (intro calm_same) (auto dest: send_cached_same)
  next
    case (EnterLoop p k')
    then obtain ds where ds: "heap sv p = Some ds" "ds_enter ds = Some k'" using q(3) by blast
    have "calm sv1 sv'"
      using session_before_enter [OF inv ds] ds exec EnterLoop q(2) same by (intro enter_loop_calm [OF q(1)]) auto
    then show ?thesis by (rule calm_pre) (use same in auto)
  qed
qed

fun adds :: "tcp_call \<Rightarrow> bool" where
  "adds (Add_Socket use_openssl ssl_ok r rand isUseSSL force channel) \<longleftrightarrow> True"
| "adds c \<longleftrightarrow> False"

lemma flush_at_same:
  "flush_cache_at tid k sv = Some sv' \<Longrightarrow> session_log sv' = session_log sv \<and> heap sv' = heap sv"
  using post_proc_same by (fastforce simp: flush_cache_at_def bind_eq_Some_conv split: if_splits)

lemma wakeup_at_same: "wakeup_at tid k sv = Some sv' \<Longrightarrow> session_log sv' = session_log sv \<and> heap sv' = heap sv"
  by (auto simp: wakeup_at_def bind_eq_Some_conv)

lemma run_same:
  assumes "\<And>x w w'. f x w = Some w' \<Longrightarrow> session_log w' = session_log w \<and> heap w' = heap w" "run_procs f xs sv = Some sv'"
  shows "session_log sv' = session_log sv \<and> heap sv' = heap sv"
  using assms(2)
proof (induction xs arbitrary: sv)
  case (Cons x xs)
  then show ?case using assms(1) by (fastforce split: option.splits)
qed simp

lemma api_same:
  assumes "tcp_api tid c sv = Some sv'" "\<not> adds c"
  shows "session_log sv' = session_log sv \<and> heap sv' = heap sv"
proof (cases c)
  case (Call_Send i packet callback)
  then show ?thesis using assms post_proc_same [of Refused tid "loop_of i" "SessionSend i packet callback" sv sv'] call_session_same
    by (fastforce simp: send_def bind_eq_Some_conv split: if_splits)
next
  case (Call_CacheSend i packet callback)
  then show ?thesis using assms by (auto simp: cacheSend_def bind_eq_Some_conv split: if_splits)
next
  case Call_Flush
  then have "run_procs (flush_cache_at tid) [0..<mLoopNum sv] sv = Some sv'" using assms by (simp add: flushCachePackectList_def)
  then show ?thesis by (rule run_same [rotated]) (rule flush_at_same)
next
  case Call_WakeupAll
  then have "run_procs (wakeup_at tid) [0..<mLoopNum sv] sv = Some sv'" using assms by (simp add: wakeupAll_def)
  then show ?thesis by (rule run_same [rotated]) (rule wakeup_at_same)
next
  case (Call_Wakeup i)
  then show ?thesis using assms wakeup_at_same by (auto simp: wakeup_session_def split: if_splits)
qed (use assms post_proc_same in \<open>fastforce simp: shutdown_def disConnect_def setPingCheckTime_def postSessionAsyncProc_def split: if_splits\<close>)+

text \<open>The steps of the service that add no connection.\<close>

inductive service_step :: "tcp_service \<Rightarrow> tcp_service \<Rightarrow> bool" where
  "tcp_legal sv c \<Longrightarrow> \<not> adds c \<Longrightarrow> tcp_api tid c sv = Some sv' \<Longrightarrow> service_step sv sv'"
| "elem (mLoops sv) k = Some l \<Longrightarrow> service_step sv (sv\<lparr>mLoops := put (mLoops sv) k (tryInitThreadID tid l)\<rparr>)"
| "run_next r k sv = Some sv' \<Longrightarrow> service_step sv sv'"
| "heap sv p = Some ds \<Longrightarrow> ds_loop ds \<noteq> None \<Longrightarrow> on_channel_enter p sv = Some sv' \<Longrightarrow> service_step sv sv'"
| "heap sv p = Some ds \<Longrightarrow> on_channel_close p sv = Some sv' \<Longrightarrow> service_step sv sv'"

lemma service_step_tcp: "service_step sv sv' \<Longrightarrow> tcp_step sv sv'"
  by (induction rule: service_step.induct) (auto intro: tcp_step.intros)

lemma service_step_calm:
  assumes "service_step sv sv'" "tcp_inv sv"
  shows "calm sv sv'"
  using assms
proof (induction rule: service_step.induct)
  case (1 sv c tid sv')
  then show ?case using api_same by (blast intro: calm_same)
next
  case (2 sv k l tid)
  then show ?case by (intro calm_same) simp_all
qed (auto intro: run_next_calm enter_calm close_calm)

text \<open>Adding a connection: the service has it in its heap, and then takes a step.\<close>

lemma add_calm:
  assumes inv: "tcp_inv sv" and p: "heap sv p = None"
    and run: "addDataSocket use_openssl ssl_ok r rand tid isUseSSL force p sv = Some (ret, sv')"
  shows "\<exists>ds. ds_session ds = None \<and> tcp_inv (sv\<lparr>heap := (heap sv)(p \<mapsto> ds)\<rparr>) \<and> calm (sv\<lparr>heap := (heap sv)(p \<mapsto> ds)\<rparr>) sv'"
proof -
  obtain ls where ls: "mLoops sv = Some ls" "queues_ok (heap sv) (issued sv) ls" using inv by (auto simp: tcp_inv_def)
  have q: "p \<notin> set (enter_ptrs (mAsyncProcs l))" if l: "l \<in> set (the (mLoops sv))" for l
  proof -
    obtain k where "k < length ls" "ls ! k = l" using l ls(1) in_set_conv_nth [of l ls] by auto
    then show ?thesis using not_queued [OF ls(2), of p k] p by auto
  qed
  have fresh: "tcp_inv (sv\<lparr>heap := (heap sv)(p \<mapsto> ds)\<rparr>)" if "ds_session ds = None" "\<forall>k. ds_enter ds = Some k \<longrightarrow> k < mLoopNum sv" for ds
    by (rule set_heap_inv [OF inv]) (use that p q in auto)
  have new: "tcp_inv (sv\<lparr>heap := (heap sv)(p \<mapsto> new_socket)\<rparr>)" by (rule fresh) (simp_all add: new_socket_def)
  let ?k = "if force then own_loop tid sv else Some (rand mod mLoopNum sv)"
  show ?thesis
  proof (cases "\<not> use_openssl \<and> isUseSSL \<or> isUseSSL \<and> \<not> ssl_ok \<or> mLoopNum sv = 0 \<or> ?k = None")
    case True
    have "own_loop tid (sv\<lparr>heap := (heap sv)(p \<mapsto> new_socket)\<rparr>) = own_loop tid sv" by (simp add: own_loop_def)
    then have "sv' = sv"
      using run True by (auto simp: addDataSocket_def helpAddChannel_def Let_def bind_eq_Some_conv split: if_splits)
    then show ?thesis using new by (intro exI [of _ new_socket]) (auto simp: new_socket_def calm_def)
  next
    case False
    then obtain k where k: "?k = Some k" "k < mLoopNum sv" using own_loop_less [of tid sv] by (auto split: if_split_asm)
    define ds where "ds = new_socket\<lparr>ds_enter := Some k\<rparr>"
    let ?sv = "sv\<lparr>heap := (heap sv)(p \<mapsto> ds)\<rparr>"
    have "own_loop tid (sv\<lparr>heap := (heap sv)(p \<mapsto> new_socket)\<rparr>) = own_loop tid sv" by (simp add: own_loop_def)
    then have post: "post_proc r tid k (EnterLoop p k) ?sv = Some sv'"
      using run False k by (auto simp: addDataSocket_def helpAddChannel_def Let_def ds_def bind_eq_Some_conv split: if_splits)
    have sv1: "tcp_inv ?sv" by (rule fresh) (simp_all add: ds_def new_socket_def k)
    have "calm ?sv sv'"
    proof (cases "\<exists>l. elem (mLoops sv) k = Some l \<and> \<not> isInLoopThread l tid")
      case True
      then show ?thesis using post by (intro calm_same) (auto simp: post_proc_def)
    next
      case False
      then have "enter_event_loop r p k ?sv = Some sv'" using post by (auto simp: post_proc_def bind_eq_Some_conv split: if_splits)
      then show ?thesis
        using q by (intro enter_loop_calm [OF sv1, where ds = ds]) (auto simp: fresh_proc_def ds_def new_socket_def k)
    qed
    then show ?thesis using sv1 by (intro exI [of _ ds]) (simp add: ds_def new_socket_def)
  qed
qed


section \<open>Histories\<close>

text \<open>What the handler of one connection does alone, over the blocks it is given and the callbacks set at the time of each.\<close>

definition serve :: "http_parser_url \<Rightarrow> csha1 \<Rightarrow> http_callbacks \<times> bytes \<Rightarrow> http_conn \<Rightarrow> http_conn option" where
  "serve u0 raw x c = map_option snd (http_on_data u0 raw (snd x) (with_callbacks (fst x) c))"

definition served :: "http_parser_url \<Rightarrow> csha1 \<Rightarrow> (http_callbacks \<times> bytes) list \<Rightarrow> http_conn option" where
  "served u0 raw xs = foldl (\<lambda>r x. Option.bind r (serve u0 raw x)) (Some new_http_conn) xs"

lemma served_simps [simp]:
  "served u0 raw [] = Some new_http_conn" "served u0 raw (xs @ [x]) = Option.bind (served u0 raw xs) (serve u0 raw x)"
  by (simp_all add: served_def)

definition sessions_in :: "server_world \<Rightarrow> session_id \<Rightarrow> sock_ptr option" where
  "sessions_in w = session_of (session_log (sw_tcp w))"

text \<open>The parser of a session that is in.\<close>

definition parser_at :: "server_world \<Rightarrow> session_id \<Rightarrow> obj option" where
  "parser_at w i =
     do {
       p \<leftarrow> sessions_in w i;
       (s, ip, enter) \<leftarrow> sw_captured w p;
       (case enter of HttpEnter notify cbs \<Rightarrow> map_option (\<lambda>ss. nat (ts_user ss)) (sw_sessions w s) | NetEnter n t \<Rightarrow> None)
     }"

definition callbacks_at :: "server_world \<Rightarrow> sock_ptr \<Rightarrow> http_callbacks" where
  "callbacks_at w p =
     (case sw_captured w p of
        Some (s, ip, enter) \<Rightarrow> (case Option.bind (sw_sessions w s) ts_data of Some (HttpData h) \<Rightarrow> hs_callbacks (the (sw_https w h)) | _ \<Rightarrow> undefined)
      | None \<Rightarrow> undefined)"

text \<open>The user gives a \<^verbatim>\<open>BaseNetSession\<close> that exists.\<close>

fun closure_ok :: "server_world \<Rightarrow> enter_closure \<Rightarrow> bool" where
  "closure_ok w (HttpEnter notify cbs) \<longleftrightarrow> True"
| "closure_ok w (NetEnter n t) \<longleftrightarrow> sw_nets w n \<noteq> None"

text \<open>
  A server and what its threads do, with the blocks each session got: steps of the service, new connections, data of a connection
  that is in, and what the user does with the sessions it was given.
\<close>

inductive server_run ::
  "http_parser_url \<Rightarrow> csha1 \<Rightarrow> (session_id \<Rightarrow> (http_callbacks \<times> bytes) list) \<Rightarrow> server_world \<Rightarrow> bool" for u0 raw where
  start: "n \<le> 65536 \<Longrightarrow> server_run u0 raw (\<lambda>_. []) (startWorkThread n new_server_world)"
| service: "server_run u0 raw H w \<Longrightarrow> tcp_room (sw_tcp w) \<Longrightarrow> service_step (sw_tcp w) sv \<Longrightarrow> absorb tid sv w = Some w' \<Longrightarrow>
    server_run u0 raw H w'"
| add: "server_run u0 raw H w \<Longrightarrow> tcp_room (sw_tcp w) \<Longrightarrow> heap (sw_tcp w) channel = None \<Longrightarrow> closure_ok w enter \<Longrightarrow>
    addSession use_openssl ssl_ok r rand tid enter isUseSSL force channel ip w = Some w' \<Longrightarrow> server_run u0 raw H w'"
| data: "server_run u0 raw H w \<Longrightarrow> heap (sw_tcp w) p = Some ds \<Longrightarrow> ds_session ds = Some i \<Longrightarrow>
    msgCallback u0 raw tid taken p buffer w = Some (k, w') \<Longrightarrow>
    server_run u0 raw (H(i := H i @ [(callbacks_at w p, buffer)])) w'"
| callbacks: "server_run u0 raw H w \<Longrightarrow> set_http_callbacks h cbs w = Some w' \<Longrightarrow> server_run u0 raw H w'"
| http_call: "server_run u0 raw H w \<Longrightarrow> sw_https w h = Some hs \<Longrightarrow>
    session_send tid (hs_session hs) b callback w = Some w' \<or> session_postShutdown tid (hs_session hs) w = Some w' \<or>
    session_postClose tid (hs_session hs) w = Some w' \<Longrightarrow> server_run u0 raw H w'"
| net_new: "server_run u0 raw H w \<Longrightarrow> sw_nets w n = None \<Longrightarrow>
    server_run u0 raw H (w\<lparr>sw_nets := (sw_nets w)(n \<mapsto> \<lparr>ns_server = False, ns_socket_id = i, ns_ip = ip\<rparr>)\<rparr>)"
| net_call: "server_run u0 raw H w \<Longrightarrow> net_sendPacket tid n b callback w = Some w' \<or> net_postClose tid n w = Some w' \<Longrightarrow>
    server_run u0 raw H w'"

section \<open>The invariant\<close>

fun runs_handler ::
  "http_parser_url \<Rightarrow> csha1 \<Rightarrow> (http_callbacks \<times> bytes) list \<Rightarrow> server_world \<Rightarrow> obj \<Rightarrow> tcp_session \<Rightarrow> enter_closure \<Rightarrow> bool" where
  "runs_handler u0 raw xs w s ss (HttpEnter notify cbs) \<longleftrightarrow>
     (\<exists>h hs prs c. ts_close ss = Some (HttpClosed h) \<and> ts_data ss = Some (HttpData h) \<and> sw_https w h = Some hs \<and> hs_session hs = s \<and>
        ts_user ss = int prs \<and> sw_parsers w prs = Some c \<and> served u0 raw xs = Some c)"
| "runs_handler u0 raw xs w s ss (NetEnter n t) \<longleftrightarrow> ts_close ss = Some (NetClosed n) \<and> ts_data ss = Some (NetData n)"

text \<open>The session of a connection in the heap, before and after it entered.\<close>

definition session_ok ::
  "http_parser_url \<Rightarrow> csha1 \<Rightarrow> (session_id \<Rightarrow> (http_callbacks \<times> bytes) list) \<Rightarrow> server_world \<Rightarrow> sock_ptr \<Rightarrow> bool" where
  "session_ok u0 raw H w p \<longleftrightarrow>
     (\<exists>s ip enter ss. sw_captured w p = Some (s, ip, enter) \<and> s < sw_fresh w \<and> sw_sessions w s = Some ss \<and> ts_service ss \<and>
        closure_ok w enter \<and>
        (\<forall>ds. heap (sw_tcp w) p = Some ds \<and> ds_session ds = None \<longrightarrow> ts_close ss = None \<and> ts_data ss = None) \<and>
        (\<forall>i. sessions_in w i = Some p \<longrightarrow> ts_socket_id ss = i \<and> runs_handler u0 raw (H i) w s ss enter))"

definition holders_ok :: "server_world \<Rightarrow> bool" where
  "holders_ok w \<longleftrightarrow>
     (\<forall>h hs. sw_https w h = Some hs \<longrightarrow> h < sw_fresh w \<and> hs_session hs < sw_fresh w \<and>
        (\<exists>ss. sw_sessions w (hs_session hs) = Some ss \<and> ts_service ss \<and> ts_socket_id ss \<in> issued (sw_tcp w))) \<and>
     (\<forall>n ns. sw_nets w n = Some ns \<and> ns_server ns \<longrightarrow> ns_socket_id ns \<in> issued (sw_tcp w))"

definition parsers_ok :: "server_world \<Rightarrow> bool" where
  "parsers_ok w \<longleftrightarrow>
     (\<forall>i j prs. parser_at w i = Some prs \<and> parser_at w j = Some prs \<longrightarrow> i = j) \<and>
     dom (sw_parsers w) = {prs. \<exists>i. parser_at w i = Some prs} \<and> (\<forall>prs. sw_parsers w prs \<noteq> None \<longrightarrow> prs < sw_fresh w)"

definition server_inv ::
  "http_parser_url \<Rightarrow> csha1 \<Rightarrow> (session_id \<Rightarrow> (http_callbacks \<times> bytes) list) \<Rightarrow> server_world \<Rightarrow> bool" where
  "server_inv u0 raw H w \<longleftrightarrow>
     tcp_inv (sw_tcp w) \<and> holders_ok w \<and> parsers_ok w \<and>
     (\<forall>p. heap (sw_tcp w) p \<noteq> None \<longrightarrow> session_ok u0 raw H w p) \<and>
     (\<forall>p q s ip e ip' e'. heap (sw_tcp w) p \<noteq> None \<and> heap (sw_tcp w) q \<noteq> None \<and> sw_captured w p = Some (s, ip, e) \<and>
        sw_captured w q = Some (s, ip', e') \<longrightarrow> p = q) \<and>
     (\<forall>i. i \<notin> issued (sw_tcp w) \<longrightarrow> H i = [])"

text \<open>The sessions that are in are connections of the heap that have entered under their id.\<close>

lemma in_heap:
  assumes "tcp_inv (sw_tcp w)"
  shows "sessions_in w i = Some p \<longleftrightarrow> (\<exists>ds. heap (sw_tcp w) p = Some ds \<and> ds_session ds = Some i)"
    and "sessions_in w i = Some p \<Longrightarrow> i \<in> issued (sw_tcp w)"
proof -
  obtain ts ns where core: "core_ok (mLoopNum (sw_tcp w)) ts ns (heap (sw_tcp w)) (session_log (sw_tcp w))"
    using assms by (auto simp: tcp_inv_def)
  show "sessions_in w i = Some p \<longleftrightarrow> (\<exists>ds. heap (sw_tcp w) p = Some ds \<and> ds_session ds = Some i)"
    using core unfolding core_ok_def named_ok_def heap_ok_def sessions_in_def by blast
  show "sessions_in w i = Some p \<Longrightarrow> i \<in> issued (sw_tcp w)" by (simp add: sessions_in_def session_entered)
qed

lemma in_inj: "tcp_inv (sw_tcp w) \<Longrightarrow> sessions_in w i = Some p \<Longrightarrow> sessions_in w j = Some p \<Longrightarrow> i = j"
  by (auto simp: in_heap)

text \<open>Changes that the sessions do not see.\<close>

lemma parser_at_cong:
  assumes "sessions_in w' i = sessions_in w i" "sw_captured w' = sw_captured w"
    "\<And>p s ip e. sessions_in w i = Some p \<Longrightarrow> sw_captured w p = Some (s, ip, e) \<Longrightarrow> map_option ts_user (sw_sessions w' s) = map_option ts_user (sw_sessions w s)"
  shows "parser_at w' i = parser_at w i"
proof (cases "sessions_in w i")
  case (Some p)
  show ?thesis
  proof (cases "sw_captured w p")
    case (Some x)
    obtain s ip e where x: "x = (s, ip, e)" by (cases x)
    have "map_option ts_user (sw_sessions w' s) = map_option ts_user (sw_sessions w s)" using assms(3) \<open>sessions_in w i = Some p\<close> Some x by blast
    then have "map_option (\<lambda>ss. nat (ts_user ss)) (sw_sessions w' s) = map_option (\<lambda>ss. nat (ts_user ss)) (sw_sessions w s)"
      by (cases "sw_sessions w' s"; cases "sw_sessions w s") simp_all
    then show ?thesis using assms(1,2) \<open>sessions_in w i = Some p\<close> Some x by (simp add: parser_at_def split: enter_closure.split)
  qed (use assms(1,2) Some in \<open>simp add: parser_at_def\<close>)
qed (use assms(1) in \<open>simp add: parser_at_def\<close>)


lemma holder_https:
  "holders_ok w \<Longrightarrow> sw_https w h = Some hs \<Longrightarrow> h < sw_fresh w \<and> hs_session hs < sw_fresh w \<and>
     (\<exists>ss. sw_sessions w (hs_session hs) = Some ss \<and> ts_service ss \<and> ts_socket_id ss \<in> issued (sw_tcp w))"
  unfolding holders_ok_def by blast

lemma holder_nets: "holders_ok w \<Longrightarrow> sw_nets w n = Some ns \<Longrightarrow> ns_server ns \<Longrightarrow> ns_socket_id ns \<in> issued (sw_tcp w)"
  unfolding holders_ok_def by blast

lemma holders_okI:
  "(\<And>h hs. sw_https w h = Some hs \<Longrightarrow> h < sw_fresh w \<and> hs_session hs < sw_fresh w \<and>
     (\<exists>ss. sw_sessions w (hs_session hs) = Some ss \<and> ts_service ss \<and> ts_socket_id ss \<in> issued (sw_tcp w))) \<Longrightarrow>
   (\<And>n ns. sw_nets w n = Some ns \<Longrightarrow> ns_server ns \<Longrightarrow> ns_socket_id ns \<in> issued (sw_tcp w)) \<Longrightarrow> holders_ok w"
  unfolding holders_ok_def by blast

lemma server_invI:
  assumes "tcp_inv (sw_tcp w)" "holders_ok w" "parsers_ok w" "\<And>p. heap (sw_tcp w) p \<noteq> None \<Longrightarrow> session_ok u0 raw H w p"
    "\<And>p q s ip e ip' e'. heap (sw_tcp w) p \<noteq> None \<Longrightarrow> heap (sw_tcp w) q \<noteq> None \<Longrightarrow> sw_captured w p = Some (s, ip, e) \<Longrightarrow>
       sw_captured w q = Some (s, ip', e') \<Longrightarrow> p = q"
    "\<And>i. i \<notin> issued (sw_tcp w) \<Longrightarrow> H i = []"
  shows "server_inv u0 raw H w"
  unfolding server_inv_def using assms(1-4,6)
  by (intro conjI) (assumption, assumption, assumption, blast, intro allI impI, elim conjE, rule assms(5), assumption+, blast)

lemma absorb_cong:
  "session_log (sw_tcp w1) = session_log (sw_tcp w2) \<Longrightarrow> w1\<lparr>sw_tcp := sv\<rparr> = w2\<lparr>sw_tcp := sv\<rparr> \<Longrightarrow> absorb tid sv w1 = absorb tid sv w2"
  by (simp add: absorb_def Let_def)

lemma runs_handler_mono:
  assumes "runs_handler u0 raw xs w s ss e" "\<forall>h hs. sw_https w h = Some hs \<longrightarrow> (\<exists>hs'. sw_https w' h = Some hs' \<and> hs_session hs' = hs_session hs)"
    "\<forall>prs c notify cbs. e = HttpEnter notify cbs \<and> ts_user ss = int prs \<and> sw_parsers w prs = Some c \<longrightarrow> sw_parsers w' prs = Some c"
  shows "runs_handler u0 raw xs w' s ss e"
proof (cases e)
  case (HttpEnter notify cbs)
  then obtain h hs prs c where r: "ts_close ss = Some (HttpClosed h)" "ts_data ss = Some (HttpData h)" "sw_https w h = Some hs" "hs_session hs = s"
    "ts_user ss = int prs" "sw_parsers w prs = Some c" "served u0 raw xs = Some c" using assms(1) by auto
  moreover obtain hs' where "sw_https w' h = Some hs'" "hs_session hs' = s" using assms(2) r(3,4) by metis
  moreover have "sw_parsers w' prs = Some c" using assms(3) HttpEnter r(5,6) by blast
  ultimately show ?thesis using HttpEnter by auto
qed (use assms(1) in simp)

lemma session_parts:
  assumes "server_inv u0 raw H w" "heap (sw_tcp w) p \<noteq> None"
  obtains s ip enter ss where "sw_captured w p = Some (s, ip, enter)" "s < sw_fresh w" "sw_sessions w s = Some ss" "ts_service ss"
    "closure_ok w enter" "\<forall>ds. heap (sw_tcp w) p = Some ds \<and> ds_session ds = None \<longrightarrow> ts_close ss = None \<and> ts_data ss = None"
    "\<forall>i. sessions_in w i = Some p \<longrightarrow> ts_socket_id ss = i \<and> runs_handler u0 raw (H i) w s ss enter"
proof -
  have "session_ok u0 raw H w p" using assms by (simp add: server_inv_def)
  then show thesis unfolding session_ok_def by (elim exE conjE) (rule that)
qed

lemma session_unique:
  assumes "server_inv u0 raw H w" "heap (sw_tcp w) p \<noteq> None" "heap (sw_tcp w) q \<noteq> None"
    "sw_captured w p = Some (s, ip, e)" "sw_captured w q = Some (s, ip', e')"
  shows "p = q"
  using assms unfolding server_inv_def by blast

text \<open>Steps without an event, for the sessions as they are.\<close>

lemma same_frame:
  assumes inv: "server_inv u0 raw H w" and tcp: "tcp_inv (sw_tcp w')" "session_log (sw_tcp w') = session_log (sw_tcp w)"
    and heap: "\<And>p ds'. heap (sw_tcp w') p = Some ds' \<Longrightarrow> \<exists>ds. heap (sw_tcp w) p = Some ds \<and> (ds_session ds' = None \<longrightarrow> ds_session ds = None)"
    and same: "sw_captured w' = sw_captured w" "sw_sessions w' = sw_sessions w" "sw_fresh w' = sw_fresh w" "sw_parsers w' = sw_parsers w"
    and https: "\<And>h hs. sw_https w h = Some hs \<Longrightarrow> \<exists>hs'. sw_https w' h = Some hs' \<and> hs_session hs' = hs_session hs"
    and nets: "\<And>n. sw_nets w n \<noteq> None \<Longrightarrow> sw_nets w' n \<noteq> None" and holders: "holders_ok w'"
  shows "server_inv u0 raw H w'"
proof -
  have ins: "sessions_in w' = sessions_in w" using tcp(2) by (simp add: sessions_in_def fun_eq_iff)
  have "parser_at w' i = parser_at w i" for i by (rule parser_at_cong) (simp_all add: ins same)
  then have "parsers_ok w'" using inv same by (simp add: server_inv_def parsers_ok_def)
  moreover have "session_ok u0 raw H w' p" if q: "heap (sw_tcp w') p \<noteq> None" for p
  proof -
    obtain ds where ds: "heap (sw_tcp w) p = Some ds" using heap q by blast
    then have "heap (sw_tcp w) p \<noteq> None" by simp
    from session_parts [OF inv this] obtain s ip enter ss where *: "sw_captured w p = Some (s, ip, enter)" "s < sw_fresh w"
      "sw_sessions w s = Some ss" "ts_service ss" "closure_ok w enter"
      "\<forall>ds. heap (sw_tcp w) p = Some ds \<and> ds_session ds = None \<longrightarrow> ts_close ss = None \<and> ts_data ss = None"
      "\<forall>i. sessions_in w i = Some p \<longrightarrow> ts_socket_id ss = i \<and> runs_handler u0 raw (H i) w s ss enter" by blast
    have "closure_ok w' enter" using *(5) nets by (cases enter) auto
    moreover have "runs_handler u0 raw (H i) w' s ss enter" if "sessions_in w i = Some p" for i
      by (rule runs_handler_mono [where w = w]) (use *(7) that https same in auto)
    moreover have "ts_close ss = None \<and> ts_data ss = None" if "heap (sw_tcp w') p = Some ds'" "ds_session ds' = None" for ds'
      using heap [OF that(1)] that(2) *(6) by blast
    ultimately show ?thesis using *(1-4) *(7) ins same unfolding session_ok_def by auto
  qed
  moreover have "\<And>p. heap (sw_tcp w') p \<noteq> None \<Longrightarrow> heap (sw_tcp w) p \<noteq> None" using heap by fastforce
  moreover have "\<And>i. i \<notin> issued (sw_tcp w') \<Longrightarrow> H i = []" using inv tcp(2) by (simp add: server_inv_def)
  ultimately show ?thesis using tcp(1) holders session_unique [OF inv] same(1) unfolding server_inv_def by metis
qed

text \<open>A connection enters.\<close>

lemma enter_frame:
  assumes inv: "server_inv u0 raw H w" and tcp: "tcp_inv (sw_tcp w')" "session_log (sw_tcp w') = session_log (sw_tcp w) @ [SessionEnter i p]"
    and heap: "\<And>p ds'. heap (sw_tcp w') p = Some ds' \<Longrightarrow> \<exists>ds. heap (sw_tcp w) p = Some ds \<and> (ds_session ds' = None \<longrightarrow> ds_session ds = None)"
    and p: "heap (sw_tcp w) p = Some ds" "ds_session ds = None" "sw_captured w p = Some (s, ip, e)"
    and sessions: "sw_captured w' = sw_captured w" "sw_sessions w' = (sw_sessions w)(s \<mapsto> ss')" "ts_service ss'" "ts_socket_id ss' = i"
      "runs_handler u0 raw [] w' s ss' e" "sw_fresh w \<le> sw_fresh w'"
    and https: "\<And>h hs. sw_https w h = Some hs \<Longrightarrow> sw_https w' h = Some hs"
    and nets: "\<And>n. sw_nets w n \<noteq> None \<Longrightarrow> sw_nets w' n \<noteq> None" and holders: "holders_ok w'"
    and parsers: "\<And>prs c. sw_parsers w prs = Some c \<Longrightarrow> sw_parsers w' prs = Some c"
      "dom (sw_parsers w') = dom (sw_parsers w) \<union> {prs. \<exists>notify cbs. e = HttpEnter notify cbs \<and> prs = nat (ts_user ss')}"
      "\<And>notify cbs. e = HttpEnter notify cbs \<Longrightarrow> sw_parsers w (nat (ts_user ss')) = None \<and> nat (ts_user ss') < sw_fresh w'"
  shows "server_inv u0 raw H w'"
proof -
  have inv': "tcp_inv (sw_tcp w)" using inv by (simp add: server_inv_def)
  have ins: "sessions_in w' = (sessions_in w)(i \<mapsto> p)" using tcp(2) by (simp add: sessions_in_def fun_eq_iff)
  have "distinct (entered (session_log (sw_tcp w')))" using tcp(1) by (auto simp: tcp_inv_def core_ok_def issued_ok_def)
  then have new: "i \<notin> issued (sw_tcp w)" using tcp(2) by simp
  have notin: "sessions_in w j \<noteq> Some p" for j using in_heap(1) [OF inv', of j p] p by auto
  have notin_i: "sessions_in w i = None" using in_heap(2) [OF inv', of i] new by (cases "sessions_in w i") auto
  have other: "s' \<noteq> s" if "heap (sw_tcp w) q \<noteq> None" "q \<noteq> p" "sw_captured w q = Some (s', ip', e')" for q s' ip' e'
    using session_unique [OF inv, of q p] that p by auto
  have live: "sessions_in w j = Some q \<Longrightarrow> heap (sw_tcp w) q \<noteq> None \<and> q \<noteq> p" for j q
    using in_heap(1) [OF inv', of j q] notin by auto
  have at: "parser_at w' j = parser_at w j" if "j \<noteq> i" for j
  proof (rule parser_at_cong)
    fix q s' ip' e' assume "sessions_in w j = Some q" "sw_captured w q = Some (s', ip', e')"
    then have "s' \<noteq> s" using live other by blast
    then show "map_option ts_user (sw_sessions w' s') = map_option ts_user (sw_sessions w s')" using sessions(2) by simp
  qed (use that ins sessions in auto)
  have at_i: "parser_at w' i = (case e of HttpEnter notify cbs \<Rightarrow> Some (nat (ts_user ss')) | NetEnter n t \<Rightarrow> None)"
    using ins sessions(1,2) p(3) by (simp add: parser_at_def split: enter_closure.split)
  have at_i0: "parser_at w i = None" using notin_i by (simp add: parser_at_def)
  have old: "(\<forall>j k prs. parser_at w j = Some prs \<and> parser_at w k = Some prs \<longrightarrow> j = k)" "dom (sw_parsers w) = {prs. \<exists>j. parser_at w j = Some prs}"
    "(\<forall>prs. sw_parsers w prs \<noteq> None \<longrightarrow> prs < sw_fresh w)" using inv by (simp_all add: server_inv_def parsers_ok_def)
  have fresh_at: "parser_at w j \<noteq> Some (nat (ts_user ss'))" if "e = HttpEnter notify cbs" for j notify cbs
    using parsers(3) [OF that] old(2) by (metis (mono_tags, lifting) domIff mem_Collect_eq)
  have "parsers_ok w'"
    unfolding parsers_ok_def
  proof (intro conjI allI impI)
    fix j k prs assume *: "parser_at w' j = Some prs \<and> parser_at w' k = Some prs"
    show "j = k"
    proof (cases "j = i \<or> k = i")
      case True
      then show ?thesis using * at at_i fresh_at by (cases e) (auto, metis+)
    qed (use * at old(1) in auto)
  next
    have "{prs. \<exists>j. parser_at w' j = Some prs} = {prs. \<exists>j. parser_at w j = Some prs} \<union> {prs. parser_at w' i = Some prs}"
      using at at_i0 by (auto simp: set_eq_iff) (metis option.distinct(1))+
    then show "dom (sw_parsers w') = {prs. \<exists>j. parser_at w' j = Some prs}" unfolding parsers(2) old(2) using at_i by (cases e) auto
  next
    fix prs assume "sw_parsers w' prs \<noteq> None"
    then have "prs \<in> dom (sw_parsers w')" by auto
    then consider "sw_parsers w prs \<noteq> None" | notify cbs where "e = HttpEnter notify cbs" "prs = nat (ts_user ss')"
      unfolding parsers(2) by blast
    then show "prs < sw_fresh w'"
    proof cases
      case 1
      then have "prs < sw_fresh w" using old(3) by blast
      then show ?thesis using sessions(6) by simp
    next
      case 2
      then show ?thesis using parsers(3) by blast
    qed
  qed
  moreover have "session_ok u0 raw H w' q" if q: "heap (sw_tcp w') q \<noteq> None" for q
  proof -
    obtain dsq where dsq: "heap (sw_tcp w) q = Some dsq" using heap q by blast
    then have "heap (sw_tcp w) q \<noteq> None" by simp
    from session_parts [OF inv this] obtain s1 ip1 e1 ss1 where *: "sw_captured w q = Some (s1, ip1, e1)" "s1 < sw_fresh w"
      "sw_sessions w s1 = Some ss1" "ts_service ss1" "closure_ok w e1"
      "\<forall>ds. heap (sw_tcp w) q = Some ds \<and> ds_session ds = None \<longrightarrow> ts_close ss1 = None \<and> ts_data ss1 = None"
      "\<forall>j. sessions_in w j = Some q \<longrightarrow> ts_socket_id ss1 = j \<and> runs_handler u0 raw (H j) w s1 ss1 e1" by blast
    have clo: "closure_ok w' e1" using *(5) nets by (cases e1) auto
    show ?thesis
    proof (cases "q = p")
      case True
      then have e1: "s1 = s" "e1 = e" "ip1 = ip" using *(1) p(3) by simp_all
      have "heap (sw_tcp w') p = Some dsp \<Longrightarrow> ds_session dsp \<noteq> None" for dsp
        using in_heap(1) [OF tcp(1), of i p] ins by auto
      moreover have "sessions_in w' j = Some p \<Longrightarrow> j = i" for j using notin ins by (auto split: if_splits)
      moreover have "H i = []" using inv new by (simp add: server_inv_def)
      ultimately show ?thesis using * e1 True sessions clo p(3) unfolding session_ok_def by auto
    next
      case False
      have s1: "s1 \<noteq> s" using other [of q] dsq False *(1) by auto
      have handler: "runs_handler u0 raw (H j) w' s1 ss1 e1" if "sessions_in w j = Some q" for j
        by (rule runs_handler_mono [where w = w]) (use *(7) that https parsers(1) in auto)
      have "ts_close ss1 = None \<and> ts_data ss1 = None" if "heap (sw_tcp w') q = Some ds'" "ds_session ds' = None" for ds'
        using heap [OF that(1)] that(2) *(6) by blast
      moreover have "sessions_in w' j = Some q \<Longrightarrow> sessions_in w j = Some q" for j using ins False by (auto split: if_splits)
      ultimately show ?thesis using * s1 sessions clo handler unfolding session_ok_def by auto
    qed
  qed
  moreover have "\<And>p. heap (sw_tcp w') p \<noteq> None \<Longrightarrow> heap (sw_tcp w) p \<noteq> None" using heap by fastforce
  moreover have "\<And>j. j \<notin> issued (sw_tcp w') \<Longrightarrow> H j = []" using inv tcp(2) by (simp add: server_inv_def)
  ultimately show ?thesis using tcp(1) holders session_unique [OF inv] sessions(1) unfolding server_inv_def by metis
qed

text \<open>A connection leaves; \<open>gone\<close> is the parser that is deleted with it.\<close>

lemma leave_frame:
  assumes inv: "server_inv u0 raw H w" and tcp: "tcp_inv (sw_tcp w')" "session_log (sw_tcp w') = session_log (sw_tcp w) @ [SessionLeave i]"
    and heap: "\<And>p ds'. heap (sw_tcp w') p = Some ds' \<Longrightarrow> \<exists>ds. heap (sw_tcp w) p = Some ds \<and> (ds_session ds' = None \<longrightarrow> ds_session ds = None)"
    and same: "sw_captured w' = sw_captured w" "sw_sessions w' = sw_sessions w" "sw_fresh w' = sw_fresh w" "sw_https w' = sw_https w"
      "sw_nets w' = sw_nets w"
    and parsers: "sw_parsers w' = (sw_parsers w) |` (- {prs. parser_at w i = Some prs})"
  shows "server_inv u0 raw H w'"
proof -
  have ins: "sessions_in w' = (sessions_in w)(i := None)" using tcp(2) by (simp add: sessions_in_def fun_eq_iff)
  have issued: "issued (sw_tcp w') = issued (sw_tcp w)" using tcp(2) by simp
  have at: "parser_at w' j = parser_at w j" if "j \<noteq> i" for j by (rule parser_at_cong) (use that ins same in auto)
  have at_i: "parser_at w' i = None" using ins by (simp add: parser_at_def)
  have old: "(\<forall>j k prs. parser_at w j = Some prs \<and> parser_at w k = Some prs \<longrightarrow> j = k)" "dom (sw_parsers w) = {prs. \<exists>j. parser_at w j = Some prs}"
    "(\<forall>prs. sw_parsers w prs \<noteq> None \<longrightarrow> prs < sw_fresh w)" using inv by (simp_all add: server_inv_def parsers_ok_def)
  have keep: "sw_parsers w' prs = sw_parsers w prs" if "parser_at w j = Some prs" "j \<noteq> i" for j prs
    using old(1) that parsers by (auto simp: restrict_map_def)
  have "{prs. \<exists>j. parser_at w' j = Some prs} = {prs. \<exists>j. parser_at w j = Some prs} - {prs. parser_at w i = Some prs}"
    using at at_i old(1) by (auto simp: set_eq_iff) (metis option.discI)+
  then have "dom (sw_parsers w') = {prs. \<exists>j. parser_at w' j = Some prs}" unfolding parsers using old(2) by auto
  moreover have "\<forall>j k prs. parser_at w' j = Some prs \<and> parser_at w' k = Some prs \<longrightarrow> j = k" using old(1) at at_i by (metis option.discI)
  moreover have "\<forall>prs. sw_parsers w' prs \<noteq> None \<longrightarrow> prs < sw_fresh w'" using old(3) parsers same by (auto simp: restrict_map_def)
  ultimately have "parsers_ok w'" unfolding parsers_ok_def by blast
  moreover have "holders_ok w'" using inv unfolding server_inv_def holders_ok_def issued same by blast
  moreover have "session_ok u0 raw H w' q" if q: "heap (sw_tcp w') q \<noteq> None" for q
  proof -
    obtain dsq where dsq: "heap (sw_tcp w) q = Some dsq" using heap q by blast
    then have "heap (sw_tcp w) q \<noteq> None" by simp
    from session_parts [OF inv this] obtain s1 ip1 e1 ss1 where *: "sw_captured w q = Some (s1, ip1, e1)" "s1 < sw_fresh w"
      "sw_sessions w s1 = Some ss1" "ts_service ss1" "closure_ok w e1"
      "\<forall>ds. heap (sw_tcp w) q = Some ds \<and> ds_session ds = None \<longrightarrow> ts_close ss1 = None \<and> ts_data ss1 = None"
      "\<forall>j. sessions_in w j = Some q \<longrightarrow> ts_socket_id ss1 = j \<and> runs_handler u0 raw (H j) w s1 ss1 e1" by blast
    have clo: "closure_ok w' e1" using *(5) same by (cases e1) auto
    have handler: "ts_socket_id ss1 = j \<and> runs_handler u0 raw (H j) w' s1 ss1 e1" if j: "sessions_in w' j = Some q" for j
    proof -
      have j': "j \<noteq> i" "sessions_in w j = Some q" using j ins by (auto split: if_splits)
      note h = *(7) [rule_format, OF j'(2)]
      show ?thesis
      proof (cases e1)
        case (HttpEnter notify cbs)
        then obtain prs where prs: "ts_user ss1 = int prs" using h by auto
        then have "parser_at w j = Some prs" using j'(2) *(1,3) HttpEnter by (simp add: parser_at_def)
        then show ?thesis using h HttpEnter same prs keep [OF _ j'(1)] by auto
      qed (use h in auto)
    qed
    have "ts_close ss1 = None \<and> ts_data ss1 = None" if "heap (sw_tcp w') q = Some ds'" "ds_session ds' = None" for ds'
      using heap [OF that(1)] that(2) *(6) by blast
    then show ?thesis using * same clo handler unfolding session_ok_def by auto
  qed
  moreover have "\<And>p. heap (sw_tcp w') p \<noteq> None \<Longrightarrow> heap (sw_tcp w) p \<noteq> None" using heap by fastforce
  moreover have "\<And>j. j \<notin> issued (sw_tcp w') \<Longrightarrow> H j = []" using inv issued by (simp add: server_inv_def)
  ultimately show ?thesis using tcp(1) session_unique [OF inv] same(1) unfolding server_inv_def by metis
qed


section \<open>The lambdas of the server\<close>

text \<open>A call on an id that was given out: no event, and it is defined also when the connection is gone or the tables are full.\<close>

lemma post_quiet:
  assumes inv: "tcp_inv sv" and i: "i \<in> issued sv" and f: "f = SessionSend i b callback \<or> f = SessionCall i c"
  shows "\<exists>sv'. post_proc r tid (loop_of i) f sv = Some sv' \<and> tcp_inv sv' \<and> session_log sv' = session_log sv \<and> heap sv' = heap sv"
proof -
  have k: "loop_of i < mLoopNum sv" using issued_loop [OF inv i] .
  obtain ls where ls: "mLoops sv = Some ls" "length ls = mLoopNum sv" using inv by (auto simp: tcp_inv_def)
  then have l: "elem (mLoops sv) (loop_of i) = Some (ls ! loop_of i)" using k by simp
  have "proc_ok k' (heap sv) (issued sv) f" for k' using f i by auto
  moreover have "enter_ptrs [f] = []" using f by auto
  ultimately have push: "tcp_inv (sv\<lparr>mLoops := put (mLoops sv) (loop_of i) (snd (wakeup tid (push_async f (ls ! loop_of i))))\<rparr>)"
    by (intro set_loop_inv [OF inv l]) (auto simp: queue_ok_def push_async_def)
  obtain sv1 where "tcp_exec r f sv = Some sv1" "tcp_inv sv1"
    using f call_session_inv [OF inv i, of "Send b callback"] call_session_inv [OF inv i, of c] by auto
  with push l have "\<exists>sv'. post_proc r tid (loop_of i) f sv = Some sv' \<and> tcp_inv sv'" by (simp add: post_proc_def)
  moreover have "\<not> enters f" using f by auto
  ultimately show ?thesis using post_proc_same by blast
qed

lemma call_quiet:
  assumes "tcp_inv sv" "i \<in> issued sv"
  shows "\<exists>sv'. postSessionAsyncProc tid i c sv = Some sv' \<and> tcp_inv sv' \<and> session_log sv' = session_log sv \<and> heap sv' = heap sv"
  using post_quiet [OF assms, of "SessionCall i c"] issued_loop [OF assms] by (auto simp: postSessionAsyncProc_def)

lemma send_quiet:
  assumes inv: "tcp_inv sv" and i: "i \<in> issued sv"
  shows "\<exists>sv'. send tid i b callback sv = Some sv' \<and> tcp_inv sv' \<and> session_log sv' = session_log sv \<and> heap sv' = heap sv"
proof -
  have k: "loop_of i < mLoopNum sv" using issued_loop [OF inv i] .
  obtain ls where ls: "mLoops sv = Some ls" "length ls = mLoopNum sv" using inv by (auto simp: tcp_inv_def)
  then have l: "elem (mLoops sv) (loop_of i) = Some (ls ! loop_of i)" using k by simp
  obtain sv1 where sv1: "call_session i (Send b callback) sv = Some sv1" "tcp_inv sv1" using call_session_inv [OF inv i] by blast
  then have "session_log sv1 = session_log sv \<and> heap sv1 = heap sv" using call_session_same by blast
  then show ?thesis using k l sv1 post_quiet [OF inv i, of "SessionSend i b callback" b callback _ Refused tid] by (auto simp: send_def)
qed

lemma enter_lambda:
  assumes inv: "server_inv u0 raw H w" and tcp: "tcp_inv sv" "session_log sv = session_log (sw_tcp w) @ [SessionEnter i p]"
    and heap: "\<And>p ds'. heap sv p = Some ds' \<Longrightarrow> \<exists>ds. heap (sw_tcp w) p = Some ds \<and> (ds_session ds' = None \<longrightarrow> ds_session ds = None)"
    and p: "heap (sw_tcp w) p = Some ds" "ds_session ds = None"
  shows "\<exists>w'. enterCallback tid i p (w\<lparr>sw_tcp := sv\<rparr>) = Some w' \<and> server_inv u0 raw H w'"
proof -
  have "heap (sw_tcp w) p \<noteq> None" using p by simp
  from session_parts [OF inv this] obtain s ip e ss where s: "sw_captured w p = Some (s, ip, e)" "s < sw_fresh w"
    "sw_sessions w s = Some ss" "ts_service ss" "closure_ok w e" by metis
  have holders: "holders_ok w" and parsers: "parsers_ok w" using inv by (simp_all add: server_inv_def)
  have new: "i \<in> issued sv" and old: "issued (sw_tcp w) \<subseteq> issued sv" using tcp(2) by auto
  show ?thesis
  proof (cases e)
    case (HttpEnter notify cbs)
    define h where "h = sw_fresh w"
    define prs where "prs = Suc h"
    define ss' where "ss' = ss\<lparr>ts_socket_id := i, ts_ip := ip, ts_user := int prs, ts_close := Some (HttpClosed h), ts_data := Some (HttpData h)\<rparr>"
    define hs where "hs = \<lparr>hs_session = s, hs_user = -1, hs_callbacks = cbs\<rparr>"
    define w' where "w' = w\<lparr>sw_tcp := sv, sw_sessions := (sw_sessions w)(s \<mapsto> ss'), sw_https := (sw_https w)(h \<mapsto> hs),
      sw_parsers := (sw_parsers w)(prs \<mapsto> new_http_conn), sw_fresh := Suc prs, sw_log := sw_log w @ (if notify then [UserEnter h] else [])\<rparr>"
    have run: "enterCallback tid i p (w\<lparr>sw_tcp := sv\<rparr>) = Some w'"
      using s(1,3) HttpEnter
      by (simp add: enterCallback_def on_session_def http_enter_def handleHttp_def Let_def log_user_def setIP_def setSocketID_def setUD_def
          setCloseCallback_def setDataCallback_def w'_def ss'_def hs_def h_def prs_def)
    have fresh: "sw_parsers w prs = None" "sw_https w h = None"
      using holders parsers unfolding parsers_ok_def holders_ok_def h_def prs_def by (metis not_less_eq lessI less_SucI, metis less_irrefl option.exhaust)
    have le: "sw_fresh w \<le> Suc prs" by (simp add: prs_def h_def)
    have "server_inv u0 raw H w'"
    proof (rule enter_frame [where w' = w' and ss' = ss', OF inv _ _ _ p s(1)])
      show "holders_ok w'"
        unfolding holders_ok_def
      proof (intro conjI allI impI)
        fix h1 hs1 assume *: "sw_https w' h1 = Some hs1"
        have "h1 = h \<and> hs1 = hs \<or> h1 < sw_fresh w \<and> hs_session hs1 < sw_fresh w \<and>
            (\<exists>ss. sw_sessions w (hs_session hs1) = Some ss \<and> ts_service ss \<and> ts_socket_id ss \<in> issued (sw_tcp w))"
          using * holders unfolding holders_ok_def by (auto simp: w'_def split: if_splits)
        then show "h1 < sw_fresh w'" "hs_session hs1 < sw_fresh w'"
          "\<exists>ss. sw_sessions w' (hs_session hs1) = Some ss \<and> ts_service ss \<and> ts_socket_id ss \<in> issued (sw_tcp w')"
          using s(2,4) new old by (auto simp: w'_def h_def prs_def hs_def ss'_def)
      next
        fix n ns assume "sw_nets w' n = Some ns \<and> ns_server ns"
        then show "ns_socket_id ns \<in> issued (sw_tcp w')" using holders old unfolding holders_ok_def by (auto simp: w'_def)
      qed
    qed (use tcp heap s(4) HttpEnter fresh le in \<open>auto simp: w'_def ss'_def hs_def split: if_splits\<close>)
    then show ?thesis using run by blast
  next
    case (NetEnter n t)
    then obtain ns where ns: "sw_nets w n = Some ns" using s(5) by auto
    from call_quiet [OF tcp(1) new, of tid "SetCheckTime t"] obtain sv1 where sv1: "setPingCheckTime tid i t sv = Some sv1" "tcp_inv sv1"
      "session_log sv1 = session_log sv" "heap sv1 = heap sv" by (auto simp: setPingCheckTime_def)
    define ss' where "ss' = ss\<lparr>ts_socket_id := i, ts_ip := ip, ts_close := Some (NetClosed n), ts_data := Some (NetData n)\<rparr>"
    define w' where "w' = w\<lparr>sw_tcp := sv1, sw_sessions := (sw_sessions w)(s \<mapsto> ss'), sw_nets := (sw_nets w)(n \<mapsto> setSession i ip ns),
      sw_log := sw_log w @ [NetOnEnter n]\<rparr>"
    have run: "enterCallback tid i p (w\<lparr>sw_tcp := sv\<rparr>) = Some w'"
      using s(1,3) NetEnter ns sv1(1)
      by (simp add: enterCallback_def on_session_def net_enter_def on_net_def on_service_def log_user_def setIP_def setSocketID_def
          setCloseCallback_def setDataCallback_def w'_def ss'_def)
    have "server_inv u0 raw H w'"
    proof (rule enter_frame [where w' = w' and ss' = ss', OF inv _ _ _ p s(1)])
      show "holders_ok w'"
        unfolding holders_ok_def
      proof (intro conjI allI impI)
        fix h1 hs1 assume *: "sw_https w' h1 = Some hs1"
        have "h1 < sw_fresh w \<and> hs_session hs1 < sw_fresh w \<and>
            (\<exists>ss. sw_sessions w (hs_session hs1) = Some ss \<and> ts_service ss \<and> ts_socket_id ss \<in> issued (sw_tcp w))"
          using * holders unfolding holders_ok_def by (auto simp: w'_def)
        then show "h1 < sw_fresh w'" "hs_session hs1 < sw_fresh w'"
          "\<exists>ss. sw_sessions w' (hs_session hs1) = Some ss \<and> ts_service ss \<and> ts_socket_id ss \<in> issued (sw_tcp w')"
          using s(2,4) new old sv1(3) by (auto simp: w'_def ss'_def)
      next
        fix n1 ns1 assume "sw_nets w' n1 = Some ns1 \<and> ns_server ns1"
        then show "ns_socket_id ns1 \<in> issued (sw_tcp w')"
          using holders new old sv1(3) unfolding holders_ok_def by (auto simp: w'_def setSession_def split: if_splits)
      qed
    qed (use tcp heap s(4) NetEnter sv1 in \<open>auto simp: w'_def ss'_def split: if_splits\<close>)
    then show ?thesis using run by blast
  qed
qed

lemma close_lambda:
  assumes inv: "server_inv u0 raw H w" and tcp: "tcp_inv sv" "session_log sv = session_log (sw_tcp w) @ [SessionLeave i]"
    and heap: "\<And>p ds'. heap sv p = Some ds' \<Longrightarrow> \<exists>ds. heap (sw_tcp w) p = Some ds \<and> (ds_session ds' = None \<longrightarrow> ds_session ds = None)"
    and p: "sessions_in w i = Some p"
  shows "\<exists>w'. closeCallback p (w\<lparr>sw_tcp := sv\<rparr>) = Some w' \<and> server_inv u0 raw H w'"
proof -
  have inv': "tcp_inv (sw_tcp w)" using inv by (simp add: server_inv_def)
  have "heap (sw_tcp w) p \<noteq> None" using in_heap(1) [OF inv'] p by auto
  from session_parts [OF inv this] obtain s ip e ss where s: "sw_captured w p = Some (s, ip, e)" "sw_sessions w s = Some ss"
    "runs_handler u0 raw (H i) w s ss e" using p by metis
  show ?thesis
  proof (cases e)
    case (HttpEnter notify cbs)
    then obtain h hs prs c where r: "ts_close ss = Some (HttpClosed h)" "sw_https w h = Some hs" "ts_user ss = int prs" "sw_parsers w prs = Some c"
      using s(3) by auto
    define w' where "w' = w\<lparr>sw_tcp := sv, sw_parsers := (sw_parsers w)(prs := None),
      sw_log := sw_log w @ (if cb_close (hs_callbacks hs) then [UserClose h] else [])\<rparr>"
    have run: "closeCallback p (w\<lparr>sw_tcp := sv\<rparr>) = Some w'"
      using s(1,2) r by (simp add: closeCallback_def http_closed_def log_user_def Let_def w'_def)
    have "parser_at w i = Some prs" using p s(1,2) HttpEnter r(3) by (simp add: parser_at_def)
    then have "sw_parsers w' = sw_parsers w |` (- {prs. parser_at w i = Some prs})" by (auto simp: w'_def restrict_map_def fun_eq_iff)
    then have "server_inv u0 raw H w'" using tcp heap by (intro leave_frame [OF inv]) (auto simp: w'_def)
    then show ?thesis using run by blast
  next
    case (NetEnter n t)
    define w' where "w' = w\<lparr>sw_tcp := sv, sw_log := sw_log w @ [NetOnClose n]\<rparr>"
    have run: "closeCallback p (w\<lparr>sw_tcp := sv\<rparr>) = Some w'"
      using s NetEnter by (simp add: closeCallback_def log_user_def w'_def)
    have "parser_at w i = None" using p s(1,2) NetEnter by (simp add: parser_at_def)
    then have "sw_parsers w' = sw_parsers w |` (- {prs. parser_at w i = Some prs})" by (simp add: w'_def restrict_map_def)
    then have "server_inv u0 raw H w'" using tcp heap by (intro leave_frame [OF inv]) (auto simp: w'_def)
    then show ?thesis using run by blast
  qed
qed

lemma absorb_inv:
  assumes inv: "server_inv u0 raw H w" and calm: "calm (sw_tcp w) sv" and tcp: "tcp_inv sv"
  shows "\<exists>w'. absorb tid sv w = Some w' \<and> server_inv u0 raw H w'"
proof -
  have inv': "tcp_inv (sw_tcp w)" using inv by (simp add: server_inv_def)
  obtain es where es: "session_log sv = session_log (sw_tcp w) @ es"
    and heap: "\<And>p ds'. heap sv p = Some ds' \<Longrightarrow> \<exists>ds. heap (sw_tcp w) p = Some ds \<and> (ds_session ds' = None \<longrightarrow> ds_session ds = None)"
    and cases: "es = [] \<or> (\<exists>i p ds. es = [SessionEnter i p] \<and> heap (sw_tcp w) p = Some ds \<and> ds_session ds = None) \<or>
      (\<exists>i p ds. es = [SessionLeave i] \<and> heap (sw_tcp w) p = Some ds \<and> ds_session ds = Some i)"
    using calm unfolding calm_def by blast
  from cases show ?thesis
  proof (elim disjE exE conjE)
    assume "es = []"
    then have "server_inv u0 raw H (w\<lparr>sw_tcp := sv\<rparr>)"
      using es inv heap by (intro same_frame [OF inv]) (auto simp: tcp server_inv_def holders_ok_def)
    then show ?thesis using es \<open>es = []\<close> by (simp add: absorb_def)
  next
    fix i p ds assume "es = [SessionEnter i p]" "heap (sw_tcp w) p = Some ds" "ds_session ds = None"
    then show ?thesis using enter_lambda [OF inv tcp _ heap, of i p ds tid] es by (simp add: absorb_def)
  next
    fix i p ds assume *: "es = [SessionLeave i]" "heap (sw_tcp w) p = Some ds" "ds_session ds = Some i"
    then have "sessions_in w i = Some p" using in_heap(1) [OF inv'] by blast
    then show ?thesis using close_lambda [OF inv tcp _ heap, of i p] es * by (simp add: absorb_def sessions_in_def)
  qed
qed


section \<open>Every step keeps the invariant\<close>

lemma add_frame:
  assumes inv: "server_inv u0 raw H w" and p: "heap (sw_tcp w) p = None" and e: "closure_ok w e" and ds: "ds_session ds = None"
    and tcp: "tcp_inv (sw_tcp w\<lparr>heap := (heap (sw_tcp w))(p \<mapsto> ds)\<rparr>)"
  shows "server_inv u0 raw H (w\<lparr>sw_tcp := sw_tcp w\<lparr>heap := (heap (sw_tcp w))(p \<mapsto> ds)\<rparr>, sw_fresh := Suc (sw_fresh w),
    sw_sessions := (sw_sessions w)(sw_fresh w \<mapsto> setService new_tcp_session), sw_captured := (sw_captured w)(p \<mapsto> (sw_fresh w, ip, e))\<rparr>)"
    (is "server_inv u0 raw H ?w'")
proof -
  have inv': "tcp_inv (sw_tcp w)" using inv by (simp add: server_inv_def)
  have ins: "sessions_in ?w' = sessions_in w" by (simp add: sessions_in_def fun_eq_iff)
  have live: "sessions_in w j = Some q \<Longrightarrow> heap (sw_tcp w) q \<noteq> None \<and> q \<noteq> p" for j q using in_heap(1) [OF inv', of j q] p by auto
  have old: "s < sw_fresh w" if "heap (sw_tcp w) q \<noteq> None" "sw_captured w q = Some (s, ip', e')" for q s ip' e'
    using session_parts [OF inv that(1)] that(2) by (metis option.inject prod.inject)
  have at: "parser_at ?w' j = parser_at w j" for j
  proof (cases "sessions_in w j")
    case None
    then show ?thesis using ins by (simp add: parser_at_def)
  next
    case (Some q)
    note q = live [OF Some]
    then have "heap (sw_tcp w) q \<noteq> None" by blast
    from session_parts [OF inv this] obtain s ip' e' ss where s: "sw_captured w q = Some (s, ip', e')" "s < sw_fresh w" by metis
    then show ?thesis using Some q ins by (simp add: parser_at_def split: enter_closure.split)
  qed
  have "parsers_ok w" using inv by (simp add: server_inv_def)
  then have pk: "parsers_ok ?w'" unfolding parsers_ok_def at using less_SucI by auto
  have hold: "holders_ok w" using inv by (simp add: server_inv_def)
  have hk: "holders_ok ?w'"
  proof (rule holders_okI)
    fix h hs assume "sw_https ?w' h = Some hs"
    then have "sw_https w h = Some hs" by simp
    from holder_https [OF hold this] show "h < sw_fresh ?w' \<and> hs_session hs < sw_fresh ?w' \<and>
      (\<exists>ss. sw_sessions ?w' (hs_session hs) = Some ss \<and> ts_service ss \<and> ts_socket_id ss \<in> issued (sw_tcp ?w'))" by auto
  qed (use holder_nets [OF hold] in auto)
  have sk: "session_ok u0 raw H ?w' q" if q: "heap (sw_tcp ?w') q \<noteq> None" for q
  proof (cases "q = p")
    case True
    have "closure_ok ?w' e" using e by (cases e) auto
    moreover have "sessions_in w i \<noteq> Some p" for i using live by blast
    ultimately show ?thesis using True ins by (simp add: session_ok_def setService_def new_tcp_session_def)
  next
    case False
    then have "heap (sw_tcp w) q \<noteq> None" using q by simp
    from session_parts [OF inv this] obtain s1 ip1 e1 ss1 where *: "sw_captured w q = Some (s1, ip1, e1)" "s1 < sw_fresh w"
      "sw_sessions w s1 = Some ss1" "ts_service ss1" "closure_ok w e1"
      "\<forall>ds. heap (sw_tcp w) q = Some ds \<and> ds_session ds = None \<longrightarrow> ts_close ss1 = None \<and> ts_data ss1 = None"
      "\<forall>j. sessions_in w j = Some q \<longrightarrow> ts_socket_id ss1 = j \<and> runs_handler u0 raw (H j) w s1 ss1 e1" by blast
    have "closure_ok ?w' e1" using *(5) by (cases e1) auto
    moreover have "runs_handler u0 raw (H j) ?w' s1 ss1 e1" if "sessions_in w j = Some q" for j
      by (rule runs_handler_mono [where w = w]) (use *(7) that in auto)
    ultimately show ?thesis using * False ins unfolding session_ok_def by auto
  qed
  have uk: "q = r" if h: "heap (sw_tcp ?w') q \<noteq> None" "heap (sw_tcp ?w') r \<noteq> None" "sw_captured ?w' q = Some (s, ip1, e1)"
    "sw_captured ?w' r = Some (s, ip2, e2)" for q r s ip1 e1 ip2 e2
    using h session_unique [OF inv, of q r s ip1 e1 ip2 e2] old [of q s] old [of r s] by (auto split: if_splits)
  have tk: "tcp_inv (sw_tcp ?w')" using tcp by simp
  have Hk: "H i = []" if "i \<notin> issued (sw_tcp ?w')" for i using inv that by (simp add: server_inv_def)
  show ?thesis by (rule server_invI; fact tk hk pk sk uk Hk)
qed

lemma addSession_inv:
  assumes inv: "server_inv u0 raw H w" and room: "tcp_room (sw_tcp w)" and p: "heap (sw_tcp w) p = None" and e: "closure_ok w e"
    and run: "addSession use_openssl ssl_ok r rand tid e isUseSSL force p ip w = Some w1"
  shows "server_inv u0 raw H w1"
proof -
  have inv': "tcp_inv (sw_tcp w)" using inv by (simp add: server_inv_def)
  obtain ret sv where sv1: "addDataSocket use_openssl ssl_ok r rand tid isUseSSL force p (sw_tcp w) = Some (ret, sv)"
    using run by (auto simp: addSession_def Let_def bind_eq_Some_conv)
  then have sv: "addDataSocket use_openssl ssl_ok r rand tid isUseSSL force p (sw_tcp w) = Some (ret, sv)" "tcp_inv sv"
    using addDataSocket_inv [OF inv' room p, of tid use_openssl ssl_ok r rand isUseSSL force] by (auto split: if_split_asm)
  from add_calm [OF inv' p sv(1)] obtain ds where ds: "ds_session ds = None" "tcp_inv (sw_tcp w\<lparr>heap := (heap (sw_tcp w))(p \<mapsto> ds)\<rparr>)"
    "calm (sw_tcp w\<lparr>heap := (heap (sw_tcp w))(p \<mapsto> ds)\<rparr>) sv" by blast
  define w2 where "w2 = w\<lparr>sw_tcp := sw_tcp w\<lparr>heap := (heap (sw_tcp w))(p \<mapsto> ds)\<rparr>, sw_fresh := Suc (sw_fresh w),
    sw_sessions := (sw_sessions w)(sw_fresh w \<mapsto> setService new_tcp_session), sw_captured := (sw_captured w)(p \<mapsto> (sw_fresh w, ip, e))\<rparr>"
  have "server_inv u0 raw H w2" unfolding w2_def by (rule add_frame [OF inv p e ds(1,2)])
  from absorb_inv [OF this _ sv(2)] ds(3) obtain w' where w': "absorb tid sv w2 = Some w'" "server_inv u0 raw H w'" by (auto simp: w2_def)
  have "addSession use_openssl ssl_ok r rand tid e isUseSSL force p ip w = absorb tid sv w2"
    using sv(1) by (simp add: addSession_def Let_def) (rule absorb_cong; simp add: w2_def)
  then show ?thesis using w' run by simp
qed

lemma sends_quiet:
  assumes "tcp_inv (sw_tcp w)" "sw_sessions w s = Some ss" "ts_service ss" "ts_socket_id ss \<in> issued (sw_tcp w)"
  shows "\<exists>sv. run_procs (\<lambda>b. session_send tid s b None) bs w = Some (w\<lparr>sw_tcp := sv\<rparr>) \<and> tcp_inv sv \<and>
    session_log sv = session_log (sw_tcp w) \<and> heap sv = heap (sw_tcp w)"
  using assms
proof (induction bs arbitrary: w)
  case (Cons b bs)
  from send_quiet [OF Cons.prems(1,4), of tid b None] obtain sv where
    sv: "send tid (ts_socket_id ss) b None (sw_tcp w) = Some sv" "tcp_inv sv" "session_log sv = session_log (sw_tcp w)" "heap sv = heap (sw_tcp w)" by blast
  have "session_send tid s b None w = Some (w\<lparr>sw_tcp := sv\<rparr>)" using Cons.prems(2,3) sv(1) by (simp add: session_send_def on_service_def)
  then show ?case using Cons.IH [of "w\<lparr>sw_tcp := sv\<rparr>"] Cons.prems sv by auto
next
  case Nil
  then show ?case by (intro exI [of _ "sw_tcp w"]) simp
qed

lemma data_frame:
  assumes inv: "server_inv u0 raw H w" and at: "parser_at w i = Some prs" and c: "served u0 raw (H i @ [x]) = Some c'"
    and tcp: "tcp_inv sv" "session_log sv = session_log (sw_tcp w)" "heap sv = heap (sw_tcp w)"
  shows "server_inv u0 raw (H(i := H i @ [x])) (w\<lparr>sw_parsers := (sw_parsers w)(prs \<mapsto> c'), sw_tcp := sv\<rparr>)" (is "server_inv u0 raw ?H ?w'")
proof -
  have inv': "tcp_inv (sw_tcp w)" using inv by (simp add: server_inv_def)
  have ins: "sessions_in ?w' = sessions_in w" using tcp(2) by (simp add: sessions_in_def fun_eq_iff)
  have at': "parser_at ?w' j = parser_at w j" for j by (rule parser_at_cong) (simp_all add: ins)
  have issued: "issued (sw_tcp ?w') = issued (sw_tcp w)" using tcp(2) by simp
  have pok: "parsers_ok w" using inv by (simp add: server_inv_def)
  then have prs: "prs \<in> dom (sw_parsers w)" "\<And>j. parser_at w j = Some prs \<Longrightarrow> j = i" using at unfolding parsers_ok_def by blast+
  moreover have "prs < sw_fresh w" using pok prs(1) unfolding parsers_ok_def by blast
  ultimately have pk: "parsers_ok ?w'" using pok unfolding parsers_ok_def at' by auto
  have hold: "holders_ok w" using inv by (simp add: server_inv_def)
  have hk: "holders_ok ?w'" by (rule holders_okI) (use holder_https [OF hold] holder_nets [OF hold] tcp(2) in simp_all)
  have sk: "session_ok u0 raw ?H ?w' q" if q: "heap (sw_tcp ?w') q \<noteq> None" for q
  proof -
    have "heap (sw_tcp w) q \<noteq> None" using q tcp(3) by simp
    from session_parts [OF inv this] obtain s1 ip1 e1 ss1 where *: "sw_captured w q = Some (s1, ip1, e1)" "s1 < sw_fresh w"
      "sw_sessions w s1 = Some ss1" "ts_service ss1" "closure_ok w e1"
      "\<forall>ds. heap (sw_tcp w) q = Some ds \<and> ds_session ds = None \<longrightarrow> ts_close ss1 = None \<and> ts_data ss1 = None"
      "\<forall>j. sessions_in w j = Some q \<longrightarrow> ts_socket_id ss1 = j \<and> runs_handler u0 raw (H j) w s1 ss1 e1" by blast
    have "closure_ok ?w' e1" using *(5) by (cases e1) auto
    moreover have "runs_handler u0 raw (?H j) ?w' s1 ss1 e1" if j: "sessions_in w j = Some q" for j
    proof (cases e1)
      case (HttpEnter notify cbs)
      then obtain h hs prs1 c1 where r: "ts_close ss1 = Some (HttpClosed h)" "ts_data ss1 = Some (HttpData h)" "sw_https w h = Some hs"
        "hs_session hs = s1" "ts_user ss1 = int prs1" "sw_parsers w prs1 = Some c1" "served u0 raw (H j) = Some c1"
        using *(7) j by auto
      have at_j: "parser_at w j = Some prs1" using j *(1,3) HttpEnter r(5) by (simp add: parser_at_def)
      show ?thesis
      proof (cases "j = i")
        case True
        then show ?thesis using HttpEnter r at at_j c by auto
      next
        case False
        then have "prs1 \<noteq> prs" using at_j prs(2) by blast
        then show ?thesis using HttpEnter r False by auto
      qed
    qed (use *(7) j in auto)
    ultimately show ?thesis using * ins tcp(3) unfolding session_ok_def by auto
  qed
  have "i \<in> issued (sw_tcp w)"
    using at in_heap(2) [OF inv', of i] by (cases "sessions_in w i") (auto simp: parser_at_def)
  then have Hk: "(H(i := H i @ [x])) j = []" if "j \<notin> issued (sw_tcp ?w')" for j using that inv issued by (auto simp: server_inv_def)
  have uk: "q = r" if "heap (sw_tcp ?w') q \<noteq> None" "heap (sw_tcp ?w') r \<noteq> None" "sw_captured ?w' q = Some (s, ip1, e1)"
    "sw_captured ?w' r = Some (s, ip2, e2)" for q r s ip1 e1 ip2 e2
    using session_unique [OF inv, of q r] that tcp(3) by simp
  have tk: "tcp_inv (sw_tcp ?w')" using tcp(1) by simp
  show ?thesis by (rule server_invI; fact tk hk pk sk uk Hk)
qed

text \<open>A block of data: what the lambda does in terms of the handler.\<close>

lemma msgCallback_inv:
  assumes inv: "server_inv u0 raw H w" and p: "heap (sw_tcp w) p = Some ds" "ds_session ds = Some i"
  shows "(parser_at w i = None \<longrightarrow> (\<exists>k w'. msgCallback u0 raw tid taken p buffer w = Some (k, w') \<and> server_inv u0 raw (H(i := H i @ [(callbacks_at w p, buffer)])) w')) \<and>
    (\<forall>prs. parser_at w i = Some prs \<longrightarrow> (\<exists>c. served u0 raw (H i) = Some c \<and> sw_parsers w prs = Some c \<and>
       (case http_on_data u0 raw buffer (with_callbacks (callbacks_at w p) c) of
          None \<Rightarrow> msgCallback u0 raw tid taken p buffer w = None
        | Some (k, c') \<Rightarrow> \<exists>w'. msgCallback u0 raw tid taken p buffer w = Some (k, w') \<and>
            server_inv u0 raw (H(i := H i @ [(callbacks_at w p, buffer)])) w')))"
proof -
  have inv': "tcp_inv (sw_tcp w)" using inv by (simp add: server_inv_def)
  have i: "sessions_in w i = Some p" using in_heap(1) [OF inv'] p by blast
  have live: "heap (sw_tcp w) p \<noteq> None" using p by simp
  have issued: "i \<in> issued (sw_tcp w)" by (rule in_heap(2) [OF inv' i])
  from session_parts [OF inv live] obtain s ip e ss where s: "sw_captured w p = Some (s, ip, e)" "sw_sessions w s = Some ss" "ts_service ss"
    "ts_socket_id ss = i" "runs_handler u0 raw (H i) w s ss e" using i by metis
  show ?thesis
  proof (cases e)
    case (HttpEnter notify cbs)
    then obtain h hs prs c where r: "ts_data ss = Some (HttpData h)" "sw_https w h = Some hs" "hs_session hs = s"
      "ts_user ss = int prs" "sw_parsers w prs = Some c" "served u0 raw (H i) = Some c" using s(5) by auto
    have at: "parser_at w i = Some prs" using i s(1,2) HttpEnter r(4) by (simp add: parser_at_def)
    have cb: "callbacks_at w p = hs_callbacks hs" using s(1,2) r(1,2) by (simp add: callbacks_at_def)
    show ?thesis
    proof (cases "http_on_data u0 raw buffer (with_callbacks (hs_callbacks hs) c)")
      case None
      then have "msgCallback u0 raw tid taken p buffer w = None"
        using s(1,2) r by (simp add: msgCallback_def http_data_def)
      then show ?thesis using at r(5,6) cb None by auto
    next
      case (Some kc)
      obtain k c' where kc: "kc = (k, c')" by (cases kc)
      let ?w1 = "w\<lparr>sw_parsers := (sw_parsers w)(prs \<mapsto> c')\<rparr>"
      obtain sv where sv: "run_procs (\<lambda>b. session_send tid s b None) (sent_by (drop (length (http_out c)) (http_out c'))) ?w1 = Some (?w1\<lparr>sw_tcp := sv\<rparr>)"
        "tcp_inv sv" "session_log sv = session_log (sw_tcp w)" "heap sv = heap (sw_tcp w)"
        using sends_quiet [of ?w1 s ss tid "sent_by (drop (length (http_out c)) (http_out c'))"] inv' s(2-4) issued by auto
      have run: "msgCallback u0 raw tid taken p buffer w = Some (k, ?w1\<lparr>sw_tcp := sv\<rparr>)"
        using s(1,2) r Some kc sv(1) by (simp add: msgCallback_def http_data_def)
      have "served u0 raw (H i @ [(hs_callbacks hs, buffer)]) = Some c'" using r(6) Some kc by (simp add: serve_def)
      from data_frame [OF inv at this sv(2-4)] show ?thesis using run at r(5,6) cb Some kc by auto
    qed
  next
    case (NetEnter n t)
    have at: "parser_at w i = None" using i s(1,2) NetEnter by (simp add: parser_at_def)
    let ?x = "(callbacks_at w p, buffer)"
    have run: "msgCallback u0 raw tid taken p buffer w = Some (taken, log_user (NetOnMsg n buffer) w)"
      using s NetEnter by (simp add: msgCallback_def)
    have "server_inv u0 raw H (log_user (NetOnMsg n buffer) w)"
      using inv by (intro same_frame [OF inv]) (auto simp: log_user_def server_inv_def holders_ok_def)
    moreover have "server_inv u0 raw (H(i := H i @ [?x])) w1"
      if w1: "server_inv u0 raw H w1" "sessions_in w1 = sessions_in w" "sw_captured w1 = sw_captured w" "issued (sw_tcp w1) = issued (sw_tcp w)" for w1
    proof -
      have sk: "session_ok u0 raw (H(i := H i @ [?x])) w1 q" if q: "heap (sw_tcp w1) q \<noteq> None" for q
      proof -
        from session_parts [OF w1(1) q] obtain s1 ip1 e1 ss1 where *: "sw_captured w1 q = Some (s1, ip1, e1)" "s1 < sw_fresh w1"
          "sw_sessions w1 s1 = Some ss1" "ts_service ss1" "closure_ok w1 e1"
          "\<forall>ds. heap (sw_tcp w1) q = Some ds \<and> ds_session ds = None \<longrightarrow> ts_close ss1 = None \<and> ts_data ss1 = None"
          "\<forall>j. sessions_in w1 j = Some q \<longrightarrow> ts_socket_id ss1 = j \<and> runs_handler u0 raw (H j) w1 s1 ss1 e1" by blast
        have "runs_handler u0 raw ((H(i := H i @ [?x])) j) w1 s1 ss1 e1" if j: "sessions_in w1 j = Some q" for j
        proof (cases "j = i")
          case True
          then have "e1 = e" using j i w1(2,3) s(1) *(1) by simp
          then show ?thesis using *(7) j NetEnter by auto
        qed (use *(7) j in auto)
        then show ?thesis using * unfolding session_ok_def by auto
      qed
      have Hk: "(H(i := H i @ [?x])) j = []" if "j \<notin> issued (sw_tcp w1)" for j
        using that w1(1,4) issued by (auto simp: server_inv_def)
      have parts: "tcp_inv (sw_tcp w1)" "holders_ok w1" "parsers_ok w1" using w1(1) by (simp_all add: server_inv_def)
      show ?thesis by (rule server_invI; fact parts sk session_unique [OF w1(1)] Hk)
    qed
    ultimately show ?thesis using run at by (auto simp: log_user_def sessions_in_def fun_eq_iff)
  qed
qed

end
