(* ===== verification/Wrap_Props.thy ===== *)
theory Wrap_Props
  imports Wrap_Sessions Tcp_Session_Props Sha1_Stream
begin

text \<open>
  The properties of the sessions: each HTTP session has its own parser, which lives exactly as long as the session is in, and
  nothing but the handler itself can bring the server down.
\<close>

section \<open>All runs\<close>

lemma service_inv:
  assumes inv: "server_inv u0 raw H w" and quiet: "f (sw_tcp w) = Some sv" "tcp_inv sv" "session_log sv = session_log (sw_tcp w)"
    "heap sv = heap (sw_tcp w)"
  shows "\<exists>w'. on_service f w = Some w' \<and> server_inv u0 raw H w'"
proof -
  have hold: "holders_ok w" using inv by (simp add: server_inv_def)
  have "server_inv u0 raw H (w\<lparr>sw_tcp := sv\<rparr>)"
  proof (rule same_frame [OF inv])
    show "holders_ok (w\<lparr>sw_tcp := sv\<rparr>)"
      by (rule holders_okI) (use holder_https [OF hold] holder_nets [OF hold] quiet(3) in simp_all)
  qed (use quiet in simp_all)
  then show ?thesis using quiet(1) by (simp add: on_service_def)
qed

lemma http_call_inv:
  assumes inv: "server_inv u0 raw H w" and h: "sw_https w h = Some hs"
  shows "\<exists>w'. session_send tid (hs_session hs) b callback w = Some w' \<and> server_inv u0 raw H w'"
    "\<exists>w'. session_postShutdown tid (hs_session hs) w = Some w' \<and> server_inv u0 raw H w'"
    "\<exists>w'. session_postClose tid (hs_session hs) w = Some w' \<and> server_inv u0 raw H w'"
proof -
  have tcp: "tcp_inv (sw_tcp w)" and hold: "holders_ok w" using inv by (simp_all add: server_inv_def)
  obtain ss where ss: "sw_sessions w (hs_session hs) = Some ss" "ts_service ss" "ts_socket_id ss \<in> issued (sw_tcp w)"
    using holder_https [OF hold h] by blast
  from send_quiet [OF tcp ss(3), of tid b callback] show "\<exists>w'. session_send tid (hs_session hs) b callback w = Some w' \<and> server_inv u0 raw H w'"
    using service_inv [OF inv, of "send tid (ts_socket_id ss) b callback"] ss by (auto simp: session_send_def)
  from call_quiet [OF tcp ss(3), of tid PostShutdown] show "\<exists>w'. session_postShutdown tid (hs_session hs) w = Some w' \<and> server_inv u0 raw H w'"
    using service_inv [OF inv, of "shutdown tid (ts_socket_id ss)"] ss by (auto simp: session_postShutdown_def shutdown_def)
  from call_quiet [OF tcp ss(3), of tid PostDisConnect] show "\<exists>w'. session_postClose tid (hs_session hs) w = Some w' \<and> server_inv u0 raw H w'"
    using service_inv [OF inv, of "disConnect tid (ts_socket_id ss)"] ss by (auto simp: session_postClose_def disConnect_def)
qed

text \<open>A \<^verbatim>\<open>BaseNetSession\<close> that was never given a server dereferences its null pointer; one that was is never stuck.\<close>

lemma net_call_inv:
  assumes inv: "server_inv u0 raw H w" and n: "sw_nets w n = Some ns" "ns_server ns"
  shows "\<exists>w'. net_sendPacket tid n b callback w = Some w' \<and> server_inv u0 raw H w'"
    "\<exists>w'. net_postClose tid n w = Some w' \<and> server_inv u0 raw H w'"
proof -
  have tcp: "tcp_inv (sw_tcp w)" and hold: "holders_ok w" using inv by (simp_all add: server_inv_def)
  note i = holder_nets [OF hold n]
  from send_quiet [OF tcp i, of tid b callback] show "\<exists>w'. net_sendPacket tid n b callback w = Some w' \<and> server_inv u0 raw H w'"
    using service_inv [OF inv, of "send tid (ns_socket_id ns) b callback"] n by (auto simp: net_sendPacket_def)
  from call_quiet [OF tcp i, of tid PostDisConnect] show "\<exists>w'. net_postClose tid n w = Some w' \<and> server_inv u0 raw H w'"
    using service_inv [OF inv, of "disConnect tid (ns_socket_id ns)"] n by (auto simp: net_postClose_def disConnect_def)
qed

lemma service_absorb:
  assumes "server_inv u0 raw H w" "tcp_room (sw_tcp w)" "service_step (sw_tcp w) sv"
  shows "\<exists>w'. absorb tid sv w = Some w' \<and> server_inv u0 raw H w'"
proof -
  have tcp: "tcp_inv (sw_tcp w)" using assms(1) by (simp add: server_inv_def)
  then show ?thesis
    using absorb_inv [OF assms(1)] service_step_calm [OF assms(3)] tcp_step_inv [OF service_step_tcp [OF assms(3)] tcp assms(2)] by blast
qed

lemma server_run_inv: "server_run u0 raw H w \<Longrightarrow> server_inv u0 raw H w"
proof (induction rule: server_run.induct)
  case (start n)
  have "heap (startWorkerThread n new_tcp_service) = (\<lambda>_. None)" "session_log (startWorkerThread n new_tcp_service) = []"
    by (simp_all add: startWorkerThread_def new_tcp_service_def)
  then show ?case using tcp_start_inv [OF start]
    by (intro server_invI) (simp_all add: startWorkThread_def new_server_world_def holders_ok_def parsers_ok_def parser_at_def sessions_in_def)
next
  case (service H w sv tid w')
  then show ?case using service_absorb [of u0 raw H w sv tid] by auto
next
  case (add H w channel enter use_openssl ssl_ok r rand tid isUseSSL force ip w')
  then show ?case using addSession_inv [of u0 raw H w channel enter use_openssl ssl_ok r rand tid isUseSSL force ip] by auto
next
  case (data H w p ds i tid taken buffer k w')
  then show ?case using msgCallback_inv [of u0 raw H w p ds i tid taken buffer]
    by (cases "parser_at w i") (auto simp: fun_upd_def split: option.splits prod.splits)
next
  case (callbacks H w h cbs w')
  then obtain hs where hs: "sw_https w h = Some hs" "w' = w\<lparr>sw_https := (sw_https w)(h \<mapsto> hs\<lparr>hs_callbacks := cbs\<rparr>)\<rparr>"
    by (auto simp: set_http_callbacks_def bind_eq_Some_conv)
  have inv: "tcp_inv (sw_tcp w)" and hold: "holders_ok w" using callbacks by (simp_all add: server_inv_def)
  show ?case
  proof (rule same_frame [OF callbacks.IH])
    show "holders_ok w'"
    proof (rule holders_okI)
      fix h' hs' assume "sw_https w' h' = Some hs'"
      then obtain hs'' where "sw_https w h' = Some hs''" "hs_session hs' = hs_session hs''" using hs by (auto split: if_splits)
      then show "h' < sw_fresh w' \<and> hs_session hs' < sw_fresh w' \<and>
         (\<exists>ss. sw_sessions w' (hs_session hs') = Some ss \<and> ts_service ss \<and> ts_socket_id ss \<in> issued (sw_tcp w'))"
        using holder_https [OF hold] hs(2) by simp
    qed (use holder_nets [OF hold] hs(2) in simp)
  qed (use inv hs in \<open>auto split: if_splits\<close>)
next
  case (http_call H w h hs tid b callback w')
  then show ?case using http_call_inv(1) [of u0 raw H w h hs tid b callback] http_call_inv(2,3) [of u0 raw H w h hs tid] by auto
next
  case (net_new H w n i ip)
  have hold: "holders_ok w" and inv: "tcp_inv (sw_tcp w)" using net_new by (simp_all add: server_inv_def)
  show ?case
  proof (rule same_frame [OF net_new.IH])
    show "holders_ok (w\<lparr>sw_nets := (sw_nets w)(n \<mapsto> \<lparr>ns_server = False, ns_socket_id = i, ns_ip = ip\<rparr>)\<rparr>)"
      by (rule holders_okI) (use holder_https [OF hold] holder_nets [OF hold] in \<open>auto split: if_splits\<close>)
  qed (use inv in auto)
next
  case (net_call H w tid n b callback w')
  then obtain ns where "sw_nets w n = Some ns" "ns_server ns"
    by (auto simp: net_sendPacket_def net_postClose_def bind_eq_Some_conv split: if_splits)
  then show ?case using net_call_inv(1) [OF net_call.IH, of n ns tid b callback] net_call_inv(2) [OF net_call.IH, of n ns tid] net_call.hyps by auto
qed

section \<open>Properties\<close>

text \<open>
  C13. Isolation: whatever all threads do, an HTTP session that is in has a parser that belongs to no other session, whose state is what the
  handler computes alone from exactly the blocks received on that session since it entered; and every parser in the heap belongs to a
  session that is in, so none is used after it was deleted, deleted twice or left behind.
\<close>

theorem http_sessions_isolated:
  assumes "server_run u0 raw H w" "sessions_in w i = Some p" "sw_captured w p = Some (s, ip, HttpEnter notify cbs)"
  shows "(\<exists>prs c. parser_at w i = Some prs \<and> sw_parsers w prs = Some c \<and> served u0 raw (H i) = Some c \<and>
      {j. parser_at w j = Some prs} = {i}) \<and>
    dom (sw_parsers w) = {prs. \<exists>j. parser_at w j = Some prs}"
proof -
  have inv: "server_inv u0 raw H w" by (rule server_run_inv [OF assms(1)])
  then have tcp: "tcp_inv (sw_tcp w)" and parsers: "parsers_ok w" by (simp_all add: server_inv_def)
  have "heap (sw_tcp w) p \<noteq> None" using in_heap(1) [OF tcp] assms(2) by auto
  from session_parts [OF inv this] obtain ss where ss: "sw_sessions w s = Some ss" "runs_handler u0 raw (H i) w s ss (HttpEnter notify cbs)"
    using assms(2,3) by (metis option.inject prod.inject)
  then obtain prs c where r: "ts_user ss = int prs" "sw_parsers w prs = Some c" "served u0 raw (H i) = Some c" by auto
  have "parser_at w i = Some prs" using assms(2,3) ss(1) r(1) by (simp add: parser_at_def)
  moreover from this have "{j. parser_at w j = Some prs} = {i}" using parsers unfolding parsers_ok_def by blast
  ultimately show ?thesis using r parsers unfolding parsers_ok_def by blast
qed

text \<open>
  C14. No step of the server is stuck: the lambdas run for every event of the service, a block of data fails exactly when the
  handler fails an assertion on it, and what the user calls on a session is defined also after the connection has gone.
\<close>

theorem server_never_stuck:
  assumes "server_run u0 raw H w" "tcp_room (sw_tcp w)" "service_step (sw_tcp w) sv" "heap (sw_tcp w) p = Some ds" "ds_session ds = Some i"
    "sw_https w h = Some hs"
  shows "absorb tid sv w \<noteq> None \<and>
    (msgCallback u0 raw tid taken p buffer w = None) =
      (\<exists>prs c. parser_at w i = Some prs \<and> sw_parsers w prs = Some c \<and>
         http_on_data u0 raw buffer (with_callbacks (callbacks_at w p) c) = None) \<and>
    session_send tid (hs_session hs) b callback w \<noteq> None \<and> session_postShutdown tid (hs_session hs) w \<noteq> None \<and>
    session_postClose tid (hs_session hs) w \<noteq> None"
proof -
  have inv: "server_inv u0 raw H w" by (rule server_run_inv [OF assms(1)])
  note msg = msgCallback_inv [OF inv assms(4,5), of tid taken buffer]
  have "(msgCallback u0 raw tid taken p buffer w = None) =
      (\<exists>prs c. parser_at w i = Some prs \<and> sw_parsers w prs = Some c \<and>
         http_on_data u0 raw buffer (with_callbacks (callbacks_at w p) c) = None)"
  proof (cases "parser_at w i")
    case None
    then obtain k w' where "msgCallback u0 raw tid taken p buffer w = Some (k, w')" using msg by blast
    then show ?thesis using None by simp
  next
    case (Some prs)
    with msg obtain c where c: "sw_parsers w prs = Some c"
      "case http_on_data u0 raw buffer (with_callbacks (callbacks_at w p) c) of
          None \<Rightarrow> msgCallback u0 raw tid taken p buffer w = None
        | Some (k, c') \<Rightarrow> \<exists>w'. msgCallback u0 raw tid taken p buffer w = Some (k, w') \<and>
            server_inv u0 raw (H(i := H i @ [(callbacks_at w p, buffer)])) w'" by blast
    show ?thesis
    proof (cases "http_on_data u0 raw buffer (with_callbacks (callbacks_at w p) c)")
      case None
      then show ?thesis using Some c by simp
    next
      case (Some kc)
      then obtain k w' where "msgCallback u0 raw tid taken p buffer w = Some (k, w')" using c(2) by (cases kc) auto
      then show ?thesis using \<open>parser_at w i = Some prs\<close> c(1) Some by simp
    qed
  qed
  then show ?thesis using service_absorb [OF inv assms(2,3), of tid]
    http_call_inv(1) [OF inv assms(6), of tid b callback] http_call_inv(2,3) [OF inv assms(6), of tid] by auto
qed

text \<open>
  The close lambda leaves both objects of an HTTP session as they are: the \<^verbatim>\<open>TCPSession\<close> holds the lambdas that captured the \<^verbatim>\<open>HttpSession\<close>,
  which holds the \<^verbatim>\<open>TCPSession\<close>. Neither shared pointer reaches zero.
\<close>

lemma closed_session_cycle:
  assumes "server_run u0 raw H w" "sessions_in w i = Some p" "sw_captured w p = Some (s, ip, HttpEnter notify cbs)"
    "closeCallback p w = Some w'"
  shows "\<exists>ss h hs. sw_sessions w' s = Some ss \<and> ts_close ss = Some (HttpClosed h) \<and> ts_data ss = Some (HttpData h) \<and>
    sw_https w' h = Some hs \<and> hs_session hs = s"
proof -
  have inv: "server_inv u0 raw H w" by (rule server_run_inv [OF assms(1)])
  then have tcp: "tcp_inv (sw_tcp w)" by (simp add: server_inv_def)
  have "heap (sw_tcp w) p \<noteq> None" using in_heap(1) [OF tcp] assms(2) by auto
  from session_parts [OF inv this] obtain ss where ss: "sw_sessions w s = Some ss" "runs_handler u0 raw (H i) w s ss (HttpEnter notify cbs)"
    using assms(2,3) by (metis option.inject prod.inject)
  then obtain h where h: "ts_close ss = Some (HttpClosed h)" by auto
  have "sw_sessions w' = sw_sessions w \<and> sw_https w' = sw_https w"
    using assms(3,4) ss(1) h by (auto simp: closeCallback_def http_closed_def log_user_def Let_def bind_eq_Some_conv)
  then show ?thesis using ss by auto
qed

section \<open>A run\<close>

text \<open>The service of one loop with thread 7; the connection at address 5 is added, enters and is sent a request.\<close>

definition all_callbacks :: http_callbacks where
  "all_callbacks = \<lparr>cb_http = True, cb_ws = True, cb_close = True, cb_connected = True\<rparr>"

definition sample_world :: server_world where
  "sample_world = new_server_world\<lparr>sw_tcp := sample_service\<rparr>"

definition sample_world_entered :: server_world where
  "sample_world_entered = sample_world\<lparr>sw_tcp := sample_entered, sw_fresh := 3, sw_captured := [5 \<mapsto> (0, ''127.0.0.1'', HttpEnter True all_callbacks)],
     sw_sessions := [0 \<mapsto> \<lparr>ts_service = True, ts_socket_id = sample_id, ts_ip = ''127.0.0.1'', ts_user = 2, ts_close = Some (HttpClosed 1),
       ts_data = Some (HttpData 1)\<rparr>],
     sw_https := [1 \<mapsto> \<lparr>hs_session = 0, hs_user = -1, hs_callbacks = all_callbacks\<rparr>], sw_parsers := [Suc (Suc 0) \<mapsto> new_http_conn], sw_log := [UserEnter 1]\<rparr>"

lemma sample_world_run: "server_run u0 raw (\<lambda>_. []) sample_world"
proof -
  let ?w = "startWorkThread 1 new_server_world"
  have loop: "elem (mLoops (sw_tcp ?w)) 0 = Some new_event_loop" by (simp add: startWorkThread_def startWorkerThread_def new_server_world_def new_tcp_service_def)
  have sv: "sw_tcp ?w\<lparr>mLoops := put (mLoops (sw_tcp ?w)) 0 (tryInitThreadID 7 new_event_loop)\<rparr> = sample_service"
    by (simp add: sample_service_def Let_def startWorkThread_def new_server_world_def)
  have step: "service_step (sw_tcp ?w) sample_service" using service_step.intros(2) [OF loop, of 7] unfolding sv .
  have "absorb 7 sample_service ?w = Some sample_world"
    by (simp add: absorb_def sample_world_def sample_service_def startWorkThread_def startWorkerThread_def new_server_world_def new_tcp_service_def)
  moreover have "tcp_room (sw_tcp ?w)" using room_start(1) by (simp add: startWorkThread_def new_server_world_def)
  ultimately show ?thesis using server_run.service [OF server_run.start [of 1 u0 raw]] step by simp
qed

lemma sample_world_entered_run: "server_run u0 raw (\<lambda>_. []) sample_world_entered"
proof -
  have log: "session_log sample_service = []" by (simp add: sample_service_def startWorkerThread_def new_tcp_service_def)
  obtain ret where "addDataSocket False True Linked_Plain 0 7 False False 5 sample_service = Some (ret, sample_entered)"
    using sample_add(1) by auto
  then have "addSession False True Linked_Plain 0 7 (HttpEnter True all_callbacks) False False 5 ''127.0.0.1'' sample_world = Some sample_world_entered"
    using log sample_add(2)
    by (simp add: addSession_def absorb_def sample_world_def sample_world_entered_def new_server_world_def enterCallback_def on_session_def
        http_enter_def handleHttp_def log_user_def setIP_def setSocketID_def setUD_def setCloseCallback_def setDataCallback_def setService_def
        new_tcp_session_def Let_def)
  moreover have "heap (sw_tcp sample_world) 5 = None"
    by (simp add: sample_world_def sample_service_def startWorkerThread_def new_tcp_service_def)
  moreover have "tcp_room (sw_tcp sample_world)" using room_start(2) by (simp add: sample_world_def)
  ultimately show ?thesis using server_run.add [OF sample_world_run, where enter = "HttpEnter True all_callbacks"] by simp
qed

theorem http_sessions_isolated_witness:
  "(\<exists>prs c. parser_at sample_world_entered sample_id = Some prs \<and> sw_parsers sample_world_entered prs = Some c \<and>
      served url0 raw_sha1 [] = Some c \<and> {j. parser_at sample_world_entered j = Some prs} = {sample_id}) \<and>
    dom (sw_parsers sample_world_entered) = {prs. \<exists>j. parser_at sample_world_entered j = Some prs}"
proof (rule http_sessions_isolated [OF sample_world_entered_run])
  show "sessions_in sample_world_entered sample_id = Some 5"
    by (simp add: sessions_in_def sample_world_entered_def sample_add(2) session_of_def)
  show "sw_captured sample_world_entered 5 = Some (0, ''127.0.0.1'', HttpEnter True all_callbacks)" by (simp add: sample_world_entered_def)
qed

lemma sample_entered_room: "tcp_room sample_entered"
proof -
  have claim: "claimID (new_type_ids :: sock_ptr type_ids) = (99, \<lparr>mValues = replicate 100 None, mIds = [0..<99]\<rparr>)"
    by (simp add: claimID_def new_type_ids_def ids_increase_def ids_NUM_def butlast_conv_take take_map map_idI del: upt_rec_numeral)
  have "\<exists>sv. tcp_api 7 (Add_Socket False True Linked_Plain 0 False False 5) sample_service = Some sv \<and>
      mDataSockets sv = Some [\<lparr>mValues = (replicate 100 None)[99 := Some 5], mIds = [0..<99]\<rparr>] \<and> mIncIds sv = Some [1]"
    using claim
    by (simp add: sample_service_def startWorkerThread_def new_tcp_service_def addDataSocket_def helpAddChannel_def
        post_proc_def tryInitThreadID_def new_event_loop_def event_loop.defs isInLoopThread_def put_def enter_event_loop_def
        new_socket_def on_channel_enter_def MakeID_def int_ok_def set_socket_def ids_set_def Let_def
        del: upt_rec_numeral)
  then have t: "mDataSockets sample_entered = Some [\<lparr>mValues = (replicate 100 None)[99 := Some 5], mIds = [0..<99]\<rparr>]" "mIncIds sample_entered = Some [1]"
    using sample_add(1) by auto
  have "ids_used \<lparr>mValues = (replicate 100 None)[99 := Some (5 :: sock_ptr)], mIds = [0..<99]\<rparr> \<subseteq> {..<100}" by (auto simp: ids_used_def)
  from card_mono [OF _ this] show ?thesis using t by (simp add: tcp_room_def int_ok_def)
qed

theorem server_never_stuck_witness:
  "absorb 7 (the (tcp_api 7 Call_WakeupAll sample_entered)) sample_world_entered \<noteq> None \<and>
    (msgCallback url0 raw_sha1 7 0 5 ''GET'' sample_world_entered = None) =
      (\<exists>prs c. parser_at sample_world_entered sample_id = Some prs \<and> sw_parsers sample_world_entered prs = Some c \<and>
         http_on_data url0 raw_sha1 ''GET'' (with_callbacks (callbacks_at sample_world_entered 5) c) = None) \<and>
    session_send 7 0 ''x'' None sample_world_entered \<noteq> None \<and> session_postShutdown 7 0 sample_world_entered \<noteq> None \<and>
    session_postClose 7 0 sample_world_entered \<noteq> None"
proof -
  have inv: "tcp_inv sample_entered" by (rule tcp_reach_inv [OF sample_entered_reach])
  have w: "sw_tcp sample_world_entered = sample_entered" by (simp add: sample_world_entered_def)
  obtain sv where "tcp_api 7 Call_WakeupAll sample_entered = Some sv" using tcp_api_inv [OF inv sample_entered_room, of Call_WakeupAll 7] by auto
  then have step: "service_step (sw_tcp sample_world_entered) (the (tcp_api 7 Call_WakeupAll sample_entered))"
    using service_step.intros(1) [of sample_entered Call_WakeupAll 7 sv] by (simp add: w)
  have "sessions_in sample_world_entered sample_id = Some 5" by (simp add: sessions_in_def w sample_add(2) session_of_def)
  then obtain ds where ds: "heap (sw_tcp sample_world_entered) 5 = Some ds" "ds_session ds = Some sample_id"
    using in_heap(1) [of sample_world_entered sample_id 5] inv w by auto
  have h: "sw_https sample_world_entered 1 = Some \<lparr>hs_session = 0, hs_user = -1, hs_callbacks = all_callbacks\<rparr>"
    by (simp add: sample_world_entered_def)
  show ?thesis
    using server_never_stuck [OF sample_world_entered_run [of url0 raw_sha1] _ step ds h] sample_entered_room w by simp
qed

end
