(* ===== verification/Listen_Thread.thy ===== *)
theory Listen_Thread
  imports Tcp_Service
begin

text \<open>
  The accepting thread of \<^verbatim>\<open>src/net/TCPService.cpp\<close>: the object \<^verbatim>\<open>ListenThread\<close>, its loop over \<^verbatim>\<open>accept\<close> interleaved with the thread that
  closes it and with the peers that connect, and what a service does with an accepted descriptor. The kernel and OpenSSL are
  parameters: their answers are arguments. \<open>None\<close> is a null context given to OpenSSL.
\<close>

section \<open>The object\<close>

record listen_thread =
  lt_isIPV6 :: bool
  lt_ip :: string
  lt_port :: int
  lt_run :: bool
  lt_thread :: bool
  lt_callback :: bool
  lt_certificate :: string
  lt_privatekey :: string
  lt_ssl_ctx :: bool

definition new_listen_thread :: listen_thread where
  "new_listen_thread =
     \<lparr>lt_isIPV6 = False, lt_ip = [], lt_port = 0, lt_run = False, lt_thread = False, lt_callback = False, lt_certificate = [],
      lt_privatekey = [], lt_ssl_ctx = False\<rparr>"

definition startListen :: "bool \<Rightarrow> string \<Rightarrow> int \<Rightarrow> string option \<Rightarrow> string option \<Rightarrow> listen_thread \<Rightarrow> listen_thread" where
  "startListen isIPV6 ip port certificate privatekey lt =
     (if lt_thread lt then lt
      else
        let lt1 = lt\<lparr>lt_isIPV6 := isIPV6, lt_run := True, lt_ip := ip, lt_port := port, lt_callback := True\<rparr>;
            lt2 = (case certificate of None \<Rightarrow> lt1 | Some c \<Rightarrow> lt1\<lparr>lt_certificate := c\<rparr>);
            lt3 = (case privatekey of None \<Rightarrow> lt2 | Some k \<Rightarrow> lt2\<lparr>lt_privatekey := k\<rparr>)
        in lt3\<lparr>lt_thread := True\<rparr>)"

text \<open>The answers of OpenSSL: for the certificate, the key, and whether they match. A context it is given must not be null, except to be checked or freed.\<close>

definition initSSL :: "bool \<Rightarrow> bool \<Rightarrow> bool \<Rightarrow> listen_thread \<Rightarrow> listen_thread option" where
  "initSSL cert_ok key_ok match lt =
     (let lt1 = lt\<lparr>lt_ssl_ctx := False\<rparr>
      in if lt_certificate lt1 \<noteq> [] \<and> lt_privatekey lt1 \<noteq> [] then
           do {
             let lt2 = lt1\<lparr>lt_ssl_ctx := True\<rparr>;
             let lt3 = (if \<not> cert_ok then lt2\<lparr>lt_ssl_ctx := False\<rparr> else lt2);
             lt4 \<leftarrow> (if lt_ssl_ctx lt3 then Some (if \<not> key_ok then lt3\<lparr>lt_ssl_ctx := False\<rparr> else lt3) else None);
             Some (if \<not> (lt_ssl_ctx lt4 \<and> match) then lt4\<lparr>lt_ssl_ctx := False\<rparr> else lt4)
           }
         else Some lt1)"

definition destroySSL :: "listen_thread \<Rightarrow> listen_thread" where
  "destroySSL lt = (if lt_ssl_ctx lt then lt\<lparr>lt_ssl_ctx := False\<rparr> else lt)"

text \<open>What \<^verbatim>\<open>TcpService::startListen\<close> does with an accepted descriptor; \<open>ctx\<close> is whether the listening thread has a TLS context.\<close>

definition on_accept :: "bool \<Rightarrow> bool \<Rightarrow> bool \<Rightarrow> link_result \<Rightarrow> nat \<Rightarrow> int \<Rightarrow> sock_ptr \<Rightarrow> tcp_service \<Rightarrow> tcp_service option" where
  "on_accept use_openssl ctx ssl_ok r rand tid channel sv =
     (let sv1 = sv\<lparr>heap := (heap sv)(channel \<mapsto> new_socket)\<rparr>;
          ret1 = (if use_openssl \<and> ctx then ssl_ok else True)
      in do {
           (ret, sv2) \<leftarrow> (if ret1 then helpAddChannel r rand tid False channel sv1 else Some (ret1, sv1));
           if ret then Some sv2 else delete_channel True channel sv2
         })"

text \<open>It is the service's own way to add a connection.\<close>

lemma on_accept_add:
  "on_accept use_openssl ctx ssl_ok r rand tid channel sv =
   map_option snd (addDataSocket use_openssl ssl_ok r rand tid (use_openssl \<and> ctx) False channel sv)"
  by (cases "use_openssl \<and> ctx \<and> \<not> ssl_ok"; cases "helpAddChannel r rand tid False channel (sv\<lparr>heap := (heap sv)(channel \<mapsto> new_socket)\<rparr>)")
    (auto simp: on_accept_def addDataSocket_def Let_def)

section \<open>The loop and the thread that closes it\<close>

text \<open>
  Where the accepting thread is in \<^verbatim>\<open>runListen\<close>: at the test of the outer loop, in \<^verbatim>\<open>accept\<close>, with a descriptor before the second test of
  \<^verbatim>\<open>mRunListen\<close>, or past the loop; where the closing thread is in \<^verbatim>\<open>closeListenThread\<close>: before it, after it cleared the flag, after its
  connection, and after the join.
\<close>

datatype accept_place = Outer_Test | In_Accept | Accepted nat | Loop_Left

datatype close_place = Not_Closing | Flag_Cleared | Connect_Tried | Thread_Joined

record listen_state =
  l_run :: bool
  l_at :: accept_place
  l_closer :: close_place
  l_backlog :: "nat list"
  l_arrived :: "nat list"
  l_handed :: "nat list"
  l_dropped :: "nat list"

definition start_listening :: listen_state where
  "start_listening = \<lparr>l_run = True, l_at = Outer_Test, l_closer = Not_Closing, l_backlog = [], l_arrived = [], l_handed = [], l_dropped = []\<rparr>"

definition outer_test :: "listen_state \<Rightarrow> listen_state" where
  "outer_test s = (if l_run s then s\<lparr>l_at := In_Accept\<rparr> else s\<lparr>l_at := Loop_Left\<rparr>)"

text \<open>A failed \<^verbatim>\<open>accept\<close>, whatever the error, is tried again.\<close>

definition try_accept :: "bool \<Rightarrow> listen_state \<Rightarrow> listen_state" where
  "try_accept ok s =
     (case l_backlog s of
        fd # fds \<Rightarrow> if ok then s\<lparr>l_at := Accepted fd, l_backlog := fds\<rparr> else s
      | [] \<Rightarrow> s)"

definition hand_over :: "nat \<Rightarrow> listen_state \<Rightarrow> listen_state" where
  "hand_over fd s =
     (if l_run s then s\<lparr>l_at := Outer_Test, l_handed := l_handed s @ [fd]\<rparr>
      else s\<lparr>l_at := Outer_Test, l_dropped := l_dropped s @ [fd]\<rparr>)"

definition clear_flag :: "listen_state \<Rightarrow> listen_state" where
  "clear_flag s = s\<lparr>l_run := False, l_closer := Flag_Cleared\<rparr>"

definition arrive :: "nat \<Rightarrow> listen_state \<Rightarrow> listen_state" where
  "arrive fd s = s\<lparr>l_backlog := l_backlog s @ [fd], l_arrived := l_arrived s @ [fd]\<rparr>"

definition wake_connect :: "nat option \<Rightarrow> listen_state \<Rightarrow> listen_state" where
  "wake_connect r s = (case r of None \<Rightarrow> s | Some fd \<Rightarrow> arrive fd s)\<lparr>l_closer := Connect_Tried\<rparr>"

inductive listen_step :: "listen_state \<Rightarrow> listen_state \<Rightarrow> bool" where
  "l_at s = Outer_Test \<Longrightarrow> listen_step s (outer_test s)"
| "l_at s = In_Accept \<Longrightarrow> listen_step s (try_accept ok s)"
| "l_at s = Accepted fd \<Longrightarrow> listen_step s (hand_over fd s)"
| "l_at s \<noteq> Loop_Left \<Longrightarrow> listen_step s (arrive fd s)"
| "l_closer s = Not_Closing \<Longrightarrow> listen_step s (clear_flag s)"
| "l_closer s = Flag_Cleared \<Longrightarrow> listen_step s (wake_connect r s)"
| "l_closer s = Connect_Tried \<Longrightarrow> l_at s = Loop_Left \<Longrightarrow> listen_step s (s\<lparr>l_closer := Thread_Joined\<rparr>)"

inductive_cases listen_stepE: "listen_step s s'"

definition in_hand :: "listen_state \<Rightarrow> nat list" where
  "in_hand s = (case l_at s of Accepted fd \<Rightarrow> [fd] | _ \<Rightarrow> [])"

definition listen_inv :: "listen_state \<Rightarrow> bool" where
  "listen_inv s \<longleftrightarrow>
     l_arrived s = l_handed s @ l_dropped s @ in_hand s @ l_backlog s \<and>
     (l_run s \<longleftrightarrow> l_closer s = Not_Closing) \<and>
     length (l_dropped s) \<le> 1 \<and> (l_dropped s \<noteq> [] \<longrightarrow> \<not> l_run s \<and> l_at s \<in> {Outer_Test, Loop_Left}) \<and>
     (l_at s = Loop_Left \<longrightarrow> \<not> l_run s) \<and> (l_closer s = Thread_Joined \<longrightarrow> l_at s = Loop_Left)"

lemma listen_step_inv: "listen_step s s' \<Longrightarrow> listen_inv s \<Longrightarrow> listen_inv s'"
proof (induction rule: listen_step.induct)
  case (2 s ok)
  then show ?case by (cases "l_backlog s") (auto simp: listen_inv_def try_accept_def in_hand_def)
next
  case (6 s r)
  then show ?case
    by (cases r; cases "l_at s") (auto simp: listen_inv_def wake_connect_def arrive_def in_hand_def)
qed (auto simp: listen_inv_def outer_test_def hand_over_def clear_flag_def arrive_def in_hand_def split: accept_place.splits)

lemma start_listening_inv: "listen_inv start_listening"
  by (simp add: listen_inv_def start_listening_def in_hand_def)

text \<open>
  Every accepted descriptor is handed to the callback in the order of arrival and once, but for one at most: the one that is accepted
  after the flag was cleared, which is not closed either.
\<close>

theorem accepts_in_order:
  assumes "listen_step\<^sup>*\<^sup>* start_listening s"
  shows "l_arrived s = l_handed s @ l_dropped s @ in_hand s @ l_backlog s \<and> length (l_dropped s) \<le> 1 \<and> (l_run s \<longrightarrow> l_dropped s = [])"
proof -
  have "listen_inv s" using assms
  proof (induction rule: rtranclp_induct)
    case base
    then show ?case by (rule start_listening_inv)
  next
    case (step s s')
    then show ?case using listen_step_inv by blast
  qed
  then show ?thesis by (auto simp: listen_inv_def)
qed

text \<open>
  \<^verbatim>\<open>closeListenThread\<close> connects to wake the accepting thread. When that fails and no peer connects, the thread stays in \<^verbatim>\<open>accept\<close>, and the
  join waits for ever.
\<close>

lemma close_hangs:
  assumes "l_at s = In_Accept" "l_backlog s = []" "l_closer s = Connect_Tried" "listen_step s s'" "l_arrived s' = l_arrived s"
  shows "s' = s"
  using assms by (auto elim!: listen_stepE simp: try_accept_def arrive_def)

text \<open>A certificate that is refused leaves a null context, which is used for the key.\<close>

lemma refused_certificate_null:
  "lt_certificate lt \<noteq> [] \<Longrightarrow> lt_privatekey lt \<noteq> [] \<Longrightarrow> initSSL False key_ok match lt = None"
  by (simp add: initSSL_def)

text \<open>A second start without a certificate keeps the old one.\<close>

lemma certificate_kept: "lt_thread lt = False \<Longrightarrow> lt_certificate (startListen v6 ip port None None lt) = lt_certificate lt"
  by (simp add: startListen_def Let_def)

end
