(* ===== verification/Thread_Pool.thy ===== *)
theory Thread_Pool
  imports Prelude "HOL-Library.Multiset"
begin

text \<open>
  The pool of threads of \<^verbatim>\<open>src/utils/threadpool.c\<close>: worker threads that take messages off a stack under a lock, threads that push
  messages, and one that stops the pool. Every access to shared state without the lock is a step of its own. The stack is a library
  that is not in the repository: \<open>stack_lib\<close> has its operations, a popped message is a slot that is read later. A condition
  variable wakes a waiting thread for each signal if there is one; with \<open>spurious\<close> it may wake one at any time, as POSIX allows.
\<close>

section \<open>State\<close>

record ('st, 'v) stack_lib =
  sl_num :: "'st \<Rightarrow> nat"
  sl_push :: "'st \<Rightarrow> 'v \<Rightarrow> bool \<times> 'st"
  sl_popback :: "'st \<Rightarrow> nat option \<times> 'st"
  sl_read :: "'st \<Rightarrow> nat \<Rightarrow> 'v"

text \<open>
  Where a worker is in \<^verbatim>\<open>thread_pool_work\<close>. \<open>Popped\<close> and \<open>Ready\<close> are before and after its state is set; they hold the pointer it
  got and, for the proofs, the message that was popped.
\<close>

datatype 'v worker_place =
    Get_Index
  | At_Lock
  | Test_Loop
  | Before_Wait
  | Waiting
  | Relock
  | Test_Run
  | Popped "(nat \<times> 'v) option"
  | Ready "(nat \<times> 'v) option"
  | In_Callback
  | Signal_Exit
  | Exited

datatype stop_place = Not_Stopping | Stop_Signal nat | Stop_Join nat | Stopped

text \<open>
  \<open>pushers\<close> are the threads in \<^verbatim>\<open>thread_pool_pushmsg\<close> that saw the pool running and have not pushed yet, \<open>signallers\<close> those that have
  pushed and not signalled. \<open>pushed\<close> and \<open>handled\<close> record the messages: what was pushed, and for each call of the callback the message that was
  popped and the one it got.
\<close>

record ('st, 'v) thread_pool_s =
  is_run :: bool
  msg_list :: 'st
  msg_lock :: "nat option"
  work_thread_state :: "bool list"
  thread_index :: nat
  places :: "'v worker_place list"
  own_index :: "nat list"
  pushers :: nat
  signallers :: nat
  stopper :: stop_place
  pushed :: "'v list"
  handled :: "('v \<times> 'v) list"

text \<open>\<^verbatim>\<open>thread_pool_new\<close> and \<^verbatim>\<open>thread_pool_start\<close>: the allocations are assumed to succeed, the code does not test them.\<close>

definition thread_pool_new :: "'st \<Rightarrow> nat \<Rightarrow> ('st, 'v) thread_pool_s" where
  "thread_pool_new st thread_num =
     \<lparr>is_run = True, msg_list = st, msg_lock = None, work_thread_state = replicate thread_num False, thread_index = 0, places = [],
      own_index = [], pushers = 0, signallers = 0, stopper = Not_Stopping, pushed = [], handled = []\<rparr>"

definition thread_pool_start :: "('st, 'v) thread_pool_s \<Rightarrow> ('st, 'v) thread_pool_s" where
  "thread_pool_start s =
     s\<lparr>places := replicate (length (work_thread_state s)) Get_Index, own_index := replicate (length (work_thread_state s)) 0\<rparr>"

section \<open>Workers\<close>

definition go :: "nat \<Rightarrow> 'v worker_place \<Rightarrow> ('st, 'v) thread_pool_s \<Rightarrow> ('st, 'v) thread_pool_s" where
  "go i p s = s\<lparr>places := (places s)[i := p]\<rparr>"

definition enter_lock :: "nat \<Rightarrow> ('st, 'v) thread_pool_s \<Rightarrow> ('st, 'v) thread_pool_s option" where
  "enter_lock i s = (if msg_lock s = None then Some (go i Test_Loop (s\<lparr>msg_lock := Some i\<rparr>)) else None)"

text \<open>The pop, with the lock; the message is the one that the slot holds now.\<close>

definition pop_message :: "('st, 'v) stack_lib \<Rightarrow> nat \<Rightarrow> ('st, 'v) thread_pool_s \<Rightarrow> ('st, 'v) thread_pool_s" where
  "pop_message lib i s =
     (case sl_popback lib (msg_list s) of
        (r, st) \<Rightarrow> go i (Popped (map_option (\<lambda>a. (a, sl_read lib st a)) r)) (s\<lparr>msg_list := st, msg_lock := None\<rparr>))"

text \<open>The next step of worker \<open>i\<close>; \<open>None\<close> when it is blocked or has ended. An index outside the array of states is \<open>Some None\<close>.\<close>

definition set_state :: "nat \<Rightarrow> bool \<Rightarrow> ('st, 'v) thread_pool_s \<Rightarrow> ('st, 'v) thread_pool_s option" where
  "set_state i b s =
     (if own_index s ! i < length (work_thread_state s)
      then Some (s\<lparr>work_thread_state := (work_thread_state s)[own_index s ! i := b]\<rparr>) else None)"

definition worker_step :: "('st, 'v) stack_lib \<Rightarrow> nat \<Rightarrow> ('st, 'v) thread_pool_s \<Rightarrow> ('st, 'v) thread_pool_s option option" where
  "worker_step lib i s =
     (case places s ! i of
        Get_Index \<Rightarrow>
          Some (Some (go i At_Lock (s\<lparr>own_index := (own_index s)[i := thread_index s], thread_index := thread_index s + 1\<rparr>)))
      | At_Lock \<Rightarrow> map_option Some (enter_lock i s)
      | Test_Loop \<Rightarrow> Some (Some (if is_run s \<and> sl_num lib (msg_list s) = 0 then go i Before_Wait s else go i Test_Run s))
      | Before_Wait \<Rightarrow> Some (Some (go i Waiting (s\<lparr>msg_lock := None\<rparr>)))
      | Waiting \<Rightarrow> None
      | Relock \<Rightarrow> map_option Some (enter_lock i s)
      | Test_Run \<Rightarrow> Some (Some (if is_run s then pop_message lib i s else go i Signal_Exit (s\<lparr>msg_lock := None\<rparr>)))
      | Popped p \<Rightarrow> Some (map_option (go i (Ready p)) (set_state i True s))
      | Ready p \<Rightarrow>
          Some (Some (go i In_Callback
            (case p of None \<Rightarrow> s | Some (a, v) \<Rightarrow> s\<lparr>handled := handled s @ [(v, sl_read lib (msg_list s) a)]\<rparr>)))
      | In_Callback \<Rightarrow> Some (map_option (go i At_Lock) (set_state i False s))
      | Signal_Exit \<Rightarrow> None
      | Exited \<Rightarrow> None)"

text \<open>A signal wakes the waiting thread \<open>k\<close>, or nobody when none waits.\<close>

definition cond_signal :: "nat \<Rightarrow> ('st, 'v) thread_pool_s \<Rightarrow> ('st, 'v) thread_pool_s" where
  "cond_signal k s = (if k < length (places s) \<and> places s ! k = Waiting then go k Relock s else s)"

definition may_wake :: "nat \<Rightarrow> ('st, 'v) thread_pool_s \<Rightarrow> bool" where
  "may_wake k s \<longleftrightarrow> Waiting \<in> set (places s) \<longrightarrow> k < length (places s) \<and> places s ! k = Waiting"

section \<open>Pushing, stopping, waiting\<close>

text \<open>
  \<^verbatim>\<open>thread_pool_pushmsg\<close> is three steps: the test of \<^verbatim>\<open>is_run\<close>, the push with the lock and the signal. When the pool is stopped it
  does nothing. \<^verbatim>\<open>thread_pool_isbusy\<close> is read at one moment here.
\<close>

definition pushmsg_test :: "('st, 'v) thread_pool_s \<Rightarrow> ('st, 'v) thread_pool_s option" where
  "pushmsg_test s = (if is_run s then Some (s\<lparr>pushers := pushers s + 1\<rparr>) else None)"

definition thread_pool_pushmsg :: "('st, 'v) stack_lib \<Rightarrow> 'v \<Rightarrow> ('st, 'v) thread_pool_s \<Rightarrow> bool \<times> ('st, 'v) thread_pool_s" where
  "thread_pool_pushmsg lib v s =
     (case sl_push lib (msg_list s) v of
        (ok, st) \<Rightarrow> (ok, s\<lparr>msg_list := st, pushed := (if ok then pushed s @ [v] else pushed s), pushers := pushers s - 1,
                           signallers := signallers s + 1\<rparr>))"

definition thread_pool_isbusy :: "('st, 'v) stack_lib \<Rightarrow> ('st, 'v) thread_pool_s \<Rightarrow> bool" where
  "thread_pool_isbusy lib s \<longleftrightarrow> sl_num lib (msg_list s) > 0 \<or> list_ex id (work_thread_state s)"

definition stop_next :: "nat \<Rightarrow> ('st, 'v) thread_pool_s \<Rightarrow> ('st, 'v) thread_pool_s" where
  "stop_next j s = s\<lparr>stopper := (if j < length (places s) then Stop_Signal j else Stopped)\<rparr>"

definition in_flight :: "'v worker_place \<Rightarrow> 'v list" where
  "in_flight p = (case p of Popped (Some (a, v)) \<Rightarrow> [v] | Ready (Some (a, v)) \<Rightarrow> [v] | _ \<Rightarrow> [])"

definition all_in_flight :: "('st, 'v) thread_pool_s \<Rightarrow> 'v list" where
  "all_in_flight s = concat (map in_flight (places s))"

text \<open>
  All threads. With \<open>orderly\<close> nobody pushes while a worker is between taking a message and reading it.
\<close>

inductive pool_step :: "('st, 'v) stack_lib \<Rightarrow> bool \<Rightarrow> bool \<Rightarrow> ('st, 'v) thread_pool_s \<Rightarrow> ('st, 'v) thread_pool_s \<Rightarrow> bool"
  for lib spurious orderly where
  work: "i < length (places s) \<Longrightarrow> worker_step lib i s = Some (Some s') \<Longrightarrow> pool_step lib spurious orderly s s'"
| leave: "i < length (places s) \<Longrightarrow> places s ! i = Signal_Exit \<Longrightarrow> may_wake k s \<Longrightarrow> pool_step lib spurious orderly s (go i Exited (cond_signal k s))"
| wake: "spurious \<Longrightarrow> k < length (places s) \<Longrightarrow> places s ! k = Waiting \<Longrightarrow> pool_step lib spurious orderly s (go k Relock s)"
| push_test: "pushmsg_test s = Some s' \<Longrightarrow> pool_step lib spurious orderly s s'"
| push: "0 < pushers s \<Longrightarrow> msg_lock s = None \<Longrightarrow> orderly \<longrightarrow> all_in_flight s = [] \<Longrightarrow> pool_step lib spurious orderly s (snd (thread_pool_pushmsg lib v s))"
| push_signal: "0 < signallers s \<Longrightarrow> may_wake k s \<Longrightarrow> pool_step lib spurious orderly s (cond_signal k (s\<lparr>signallers := signallers s - 1\<rparr>))"
| stop_clear: "stopper s = Not_Stopping \<Longrightarrow> pool_step lib spurious orderly s (stop_next 0 (s\<lparr>is_run := False\<rparr>))"
| stop_signal: "stopper s = Stop_Signal j \<Longrightarrow> may_wake k s \<Longrightarrow> pool_step lib spurious orderly s (cond_signal k (s\<lparr>stopper := Stop_Join j\<rparr>))"
| stop_join: "stopper s = Stop_Join j \<Longrightarrow> places s ! j = Exited \<Longrightarrow> pool_step lib spurious orderly s (stop_next (j + 1) s)"

inductive_cases pool_stepE: "pool_step lib spurious orderly s s'"

definition threads_reach :: "('st, 'v) stack_lib \<Rightarrow> bool \<Rightarrow> bool \<Rightarrow> 'st \<Rightarrow> nat \<Rightarrow> ('st, 'v) thread_pool_s \<Rightarrow> bool" where
  "threads_reach lib spurious orderly st n s \<longleftrightarrow> (pool_step lib spurious orderly)\<^sup>*\<^sup>* (thread_pool_start (thread_pool_new st n)) s"

end
