(* ===== verification/Thread_Pool_Inv.thy ===== *)
theory Thread_Pool_Inv
  imports Thread_Pool
begin

text \<open>
  What holds of the thread pool however its threads interleave: the lock excludes, the indices of the workers are in bounds and
  distinct, and no message is lost or handled twice as long as nobody pushes while a worker is between taking a message and reading it.
\<close>

section \<open>The contract of the stack\<close>

text \<open>What a pop returned can be read until the next push.\<close>

definition stack_lib_ok :: "('st, 'v) stack_lib \<Rightarrow> ('st \<Rightarrow> 'v list) \<Rightarrow> bool" where
  "stack_lib_ok lib stk \<longleftrightarrow>
     (\<forall>s. sl_num lib s = length (stk s)) \<and>
     (\<forall>s v. stk (snd (sl_push lib s v)) = (if fst (sl_push lib s v) then stk s @ [v] else stk s)) \<and>
     (\<forall>s. stk s = [] \<longrightarrow> fst (sl_popback lib s) = None \<and> stk (snd (sl_popback lib s)) = []) \<and>
     (\<forall>s. stk s \<noteq> [] \<longrightarrow> (\<exists>a. fst (sl_popback lib s) = Some a \<and> sl_read lib (snd (sl_popback lib s)) a = last (stk s)) \<and>
        stk (snd (sl_popback lib s)) = butlast (stk s)) \<and>
     (\<forall>s a. sl_read lib (snd (sl_popback lib s)) a = sl_read lib s a)"

lemma stack_pop_law:
  assumes "stack_lib_ok lib stk" "sl_popback lib s = (r, s')"
  shows "stk s = [] \<Longrightarrow> r = None \<and> stk s' = []"
    "stk s \<noteq> [] \<Longrightarrow> \<exists>a. r = Some a \<and> sl_read lib s' a = last (stk s) \<and> stk s' = butlast (stk s)"
    "sl_read lib s' = sl_read lib s"
  using assms unfolding stack_lib_ok_def by (metis fst_conv snd_conv, metis fst_conv snd_conv, metis ext snd_conv)

lemma stack_push_law:
  assumes "stack_lib_ok lib stk" "sl_push lib s v = (ok, s')"
  shows "stk s' = (if ok then stk s @ [v] else stk s)"
  using assms unfolding stack_lib_ok_def by (metis fst_conv snd_conv)

section \<open>The invariant\<close>

definition holds_lock :: "'v worker_place \<Rightarrow> bool" where
  "holds_lock p \<longleftrightarrow> p = Test_Loop \<or> p = Before_Wait \<or> p = Test_Run"

definition lock_ok :: "'v worker_place list \<Rightarrow> nat option \<Rightarrow> bool" where
  "lock_ok ps l \<longleftrightarrow> (\<forall>i < length ps. holds_lock (ps ! i) \<longleftrightarrow> l = Some i) \<and> (\<forall>i. l = Some i \<longrightarrow> i < length ps)"

text \<open>The indices that were handed out: every worker that has one, and no two the same.\<close>

definition index_ok :: "'v worker_place list \<Rightarrow> nat list \<Rightarrow> nat \<Rightarrow> bool" where
  "index_ok ps ixs n \<longleftrightarrow>
     n + length (filter (\<lambda>p. p = Get_Index) ps) = length ps \<and>
     (\<forall>i < length ps. ps ! i \<noteq> Get_Index \<longrightarrow> ixs ! i < n) \<and>
     (\<forall>i < length ps. \<forall>j < length ps. ps ! i \<noteq> Get_Index \<and> ps ! j \<noteq> Get_Index \<and> ixs ! i = ixs ! j \<longrightarrow> i = j)"

definition pool_shape :: "('st, 'v) thread_pool_s \<Rightarrow> bool" where
  "pool_shape s \<longleftrightarrow>
     length (own_index s) = length (places s) \<and> length (work_thread_state s) = length (places s) \<and>
     index_ok (places s) (own_index s) (thread_index s) \<and> lock_ok (places s) (msg_lock s)"

definition conserved :: "('st \<Rightarrow> 'v list) \<Rightarrow> ('st, 'v) thread_pool_s \<Rightarrow> bool" where
  "conserved stk s \<longleftrightarrow>
     mset (pushed s) = mset (stk (msg_list s)) + mset (all_in_flight s) + mset (map fst (handled s))"

definition slot_ok :: "('st, 'v) stack_lib \<Rightarrow> 'st \<Rightarrow> 'v worker_place \<Rightarrow> bool" where
  "slot_ok lib st p = (case p of Popped (Some (a, v)) \<Rightarrow> sl_read lib st a = v | Ready (Some (a, v)) \<Rightarrow> sl_read lib st a = v | _ \<Rightarrow> True)"

definition pool_slots :: "('st, 'v) stack_lib \<Rightarrow> ('st, 'v) thread_pool_s \<Rightarrow> bool" where
  "pool_slots lib s \<longleftrightarrow> (\<forall>p \<in> set (places s). slot_ok lib (msg_list s) p) \<and> map fst (handled s) = map snd (handled s)"

lemma go_fields [simp]:
  "places (go i p s) = (places s)[i := p]" "is_run (go i p s) = is_run s" "msg_list (go i p s) = msg_list s"
  "msg_lock (go i p s) = msg_lock s" "work_thread_state (go i p s) = work_thread_state s" "thread_index (go i p s) = thread_index s"
  "own_index (go i p s) = own_index s" "pushed (go i p s) = pushed s" "handled (go i p s) = handled s"
  "pushers (go i p s) = pushers s" "signallers (go i p s) = signallers s" "stopper (go i p s) = stopper s"
  by (simp_all add: go_def)

lemma mset_concat_update:
  assumes "i < length xs"
  shows "mset (concat (map f (xs[i := y]))) + mset (f (xs ! i)) = mset (concat (map f xs)) + mset (f y)"
proof -
  have xs: "xs = take i xs @ xs ! i # drop (Suc i) xs" using assms by (simp add: id_take_nth_drop)
  have up: "xs[i := y] = take i xs @ y # drop (Suc i) xs" using assms by (simp add: upd_conv_take_nth_drop)
  have "mset (concat (map f xs)) = mset (concat (map f (take i xs))) + mset (f (xs ! i)) + mset (concat (map f (drop (Suc i) xs)))"
    by (subst xs) (simp del: append_take_drop_id)
  then show ?thesis unfolding up by simp
qed

lemma flight_go:
  assumes "i < length (places s)"
  shows "mset (all_in_flight (go i p s)) + mset (in_flight (places s ! i)) = mset (all_in_flight s) + mset (in_flight p)"
  using mset_concat_update [OF assms, of in_flight p] by (simp add: all_in_flight_def go_def)

subsection \<open>The lock and the indices\<close>

lemma lock_same:
  assumes "lock_ok ps l" "i < length ps" "holds_lock p = holds_lock (ps ! i)"
  shows "lock_ok (ps[i := p]) l"
  using assms by (auto simp: lock_ok_def nth_list_update)

lemma lock_taken:
  assumes "lock_ok ps None" "i < length ps" "holds_lock p"
  shows "lock_ok (ps[i := p]) (Some i)"
  using assms by (auto simp: lock_ok_def nth_list_update)

lemma lock_released:
  assumes "lock_ok ps l" "i < length ps" "holds_lock (ps ! i)" "\<not> holds_lock p"
  shows "lock_ok (ps[i := p]) None"
  using assms by (auto simp: lock_ok_def nth_list_update)

lemma length_filter_update:
  assumes "i < length xs"
  shows "length (filter P (xs[i := y])) + (if P (xs ! i) then 1 else 0) = length (filter P xs) + (if P y then 1 else 0)"
proof -
  have xs: "xs = take i xs @ xs ! i # drop (Suc i) xs" using assms by (simp add: id_take_nth_drop)
  have up: "xs[i := y] = take i xs @ y # drop (Suc i) xs" using assms by (simp add: upd_conv_take_nth_drop)
  have "length (filter P xs) = length (filter P (take i xs)) + (if P (xs ! i) then 1 else 0) + length (filter P (drop (Suc i) xs))"
    by (subst xs) (simp del: append_take_drop_id)
  then show ?thesis unfolding up by simp
qed

lemma index_go:
  assumes "index_ok ps ixs n" "i < length ps" "ps ! i \<noteq> Get_Index" "p \<noteq> Get_Index"
  shows "index_ok (ps[i := p]) ixs n"
  using assms length_filter_update [OF assms(2), of "\<lambda>q. q = Get_Index" p] by (auto simp: index_ok_def nth_list_update)

lemma index_given:
  assumes ok: "index_ok ps ixs n" "length ixs = length ps" and i: "i < length ps" "ps ! i = Get_Index"
  shows "index_ok (ps[i := At_Lock]) (ixs[i := n]) (n + 1)"
proof -
  have "Suc (length (filter (\<lambda>q. q = Get_Index) (ps[i := At_Lock]))) = length (filter (\<lambda>q. q = Get_Index) ps)"
    using length_filter_update [OF i(1), of "\<lambda>q. q = Get_Index" At_Lock] i(2) by simp
  then show ?thesis using ok i by (auto simp: index_ok_def nth_list_update less_Suc_eq)
qed

lemma index_bound:
  assumes "pool_shape s" "i < length (places s)" "places s ! i \<noteq> Get_Index"
  shows "own_index s ! i < length (work_thread_state s)"
  using assms unfolding pool_shape_def index_ok_def by (metis le_add1 order_less_le_trans)

lemma shape_go:
  assumes "pool_shape s" "i < length (places s)" "places s ! i \<noteq> Get_Index" "p \<noteq> Get_Index" "holds_lock p = holds_lock (places s ! i)"
  shows "pool_shape (go i p s)"
  using assms by (simp add: pool_shape_def lock_same index_go)

text \<open>Steps that change neither places nor indices.\<close>

lemma shape_cong:
  assumes "pool_shape s" "places s' = places s" "own_index s' = own_index s" "length (work_thread_state s') = length (work_thread_state s)"
    "thread_index s' = thread_index s" "msg_lock s' = msg_lock s"
  shows "pool_shape s'"
  using assms by (simp add: pool_shape_def)

subsection \<open>The steps\<close>

lemma worker_step_shape:
  assumes ok: "pool_shape s" and i: "i < length (places s)" and st: "worker_step lib i s = Some (Some s')"
  shows "pool_shape s'"
proof (cases "places s ! i")
  case Get_Index
  then show ?thesis using ok i st index_given [of "places s" "own_index s" "thread_index s" i]
    by (auto simp: worker_step_def pool_shape_def holds_lock_def intro!: lock_same)
next
  case At_Lock
  then show ?thesis using ok i st
    by (auto simp: worker_step_def pool_shape_def enter_lock_def holds_lock_def intro!: lock_taken index_go split: if_splits)
next
  case Test_Loop
  then show ?thesis using ok i st by (auto simp: worker_step_def holds_lock_def intro!: shape_go split: if_splits)
next
  case Before_Wait
  then show ?thesis using ok i st
    by (auto simp: worker_step_def pool_shape_def holds_lock_def intro!: lock_released index_go)
next
  case Waiting
  then show ?thesis using st by (simp add: worker_step_def)
next
  case Relock
  then show ?thesis using ok i st
    by (auto simp: worker_step_def pool_shape_def enter_lock_def holds_lock_def intro!: lock_taken index_go split: if_splits)
next
  case Test_Run
  then show ?thesis using ok i st
    by (auto simp: worker_step_def pop_message_def pool_shape_def holds_lock_def intro!: lock_released index_go split: if_splits prod.splits)
next
  case (Popped p)
  then show ?thesis using ok i st
    by (auto simp: worker_step_def set_state_def pool_shape_def holds_lock_def intro!: lock_same index_go split: if_splits)
next
  case (Ready p)
  then show ?thesis using ok i st
    by (auto simp: worker_step_def pool_shape_def holds_lock_def intro!: lock_same index_go split: option.splits)
next
  case In_Callback
  then show ?thesis using ok i st
    by (auto simp: worker_step_def set_state_def pool_shape_def holds_lock_def intro!: lock_same index_go split: if_splits)
next
  case Signal_Exit
  then show ?thesis using st by (simp add: worker_step_def)
next
  case Exited
  then show ?thesis using st by (simp add: worker_step_def)
qed

lemma shape_signal:
  assumes "pool_shape s"
  shows "pool_shape (cond_signal k s)"
  using assms by (auto simp: cond_signal_def holds_lock_def intro!: shape_go)

lemma pool_step_shape:
  assumes "pool_step lib spurious orderly s s'" "pool_shape s"
  shows "pool_shape s'"
  using assms
proof (cases rule: pool_step.cases)
  case (work i)
  then show ?thesis using worker_step_shape assms(2) by blast
next
  case (leave i k)
  have "pool_shape (cond_signal k s)" using shape_signal assms(2) .
  moreover have "places (cond_signal k s) ! i = Signal_Exit" "i < length (places (cond_signal k s))"
    using leave by (auto simp: cond_signal_def nth_list_update)
  ultimately show ?thesis using leave(1) by (auto simp: holds_lock_def intro!: shape_go)
next
  case (wake k)
  then show ?thesis using assms(2) by (auto simp: holds_lock_def intro!: shape_go)
qed (use assms(2) in \<open>auto simp: pushmsg_test_def thread_pool_pushmsg_def stop_next_def
       intro!: shape_signal elim: shape_cong split: if_splits prod.splits\<close>)

subsection \<open>The messages\<close>

lemma conserved_cong:
  assumes "conserved stk s" "mset (all_in_flight s') = mset (all_in_flight s)" "stk (msg_list s') = stk (msg_list s)"
    "pushed s' = pushed s" "handled s' = handled s"
  shows "conserved stk s'"
  using assms by (simp add: conserved_def)

lemma flight_same:
  assumes "i < length (places s)" "in_flight p = in_flight (places s ! i)"
  shows "mset (all_in_flight (go i p s)) = mset (all_in_flight s)"
  using flight_go [OF assms(1), of p] assms(2) by simp

lemma flight_places: "places s' = places s \<Longrightarrow> all_in_flight s' = all_in_flight s"
  by (simp add: all_in_flight_def)

lemma flight_fields [simp]:
  "all_in_flight (s\<lparr>msg_list := st\<rparr>) = all_in_flight s" "all_in_flight (s\<lparr>msg_lock := l\<rparr>) = all_in_flight s"
  "all_in_flight (s\<lparr>handled := h\<rparr>) = all_in_flight s"
  by (simp_all add: all_in_flight_def)

lemma conserved_go:
  assumes "conserved stk s" "i < length (places s)" "in_flight p = in_flight (places s ! i)"
  shows "conserved stk (go i p s)"
  using assms by (intro conserved_cong [OF assms(1)]) (simp_all add: flight_same)

lemma conserved_fields:
  assumes "conserved stk s" "places s' = places s" "msg_list s' = msg_list s" "pushed s' = pushed s" "handled s' = handled s"
  shows "conserved stk s'"
  using assms by (intro conserved_cong [OF assms(1)]) (simp_all add: flight_places [OF assms(2)])

lemma pop_conserved:
  assumes lib: "stack_lib_ok lib stk" and ok: "conserved stk s" and i: "i < length (places s)" "in_flight (places s ! i) = []"
  shows "conserved stk (pop_message lib i s)"
proof -
  obtain r st where pop: "sl_popback lib (msg_list s) = (r, st)" by fastforce
  show ?thesis
  proof (cases "stk (msg_list s) = []")
    case True
    then show ?thesis using stack_pop_law [OF lib pop] ok flight_go [of i "s\<lparr>msg_list := st, msg_lock := None\<rparr>" "Popped None"] i
      by (simp add: pop_message_def pop conserved_def in_flight_def)
  next
    case False
    then obtain a where a: "r = Some a" "sl_read lib st a = last (stk (msg_list s))" "stk st = butlast (stk (msg_list s))"
      using stack_pop_law(2) [OF lib pop] by blast
    have "mset (stk (msg_list s)) = add_mset (sl_read lib st a) (mset (stk st))"
      using False a by (metis append_butlast_last_id mset.simps(1) mset.simps(2) mset_append add_mset_add_single)
    then show ?thesis
      using ok flight_go [of i "s\<lparr>msg_list := st, msg_lock := None\<rparr>" "Popped (Some (a, sl_read lib st a))"] i a(1)
      by (simp add: pop_message_def pop conserved_def in_flight_def)
  qed
qed

lemma worker_step_conserved:
  assumes lib: "stack_lib_ok lib stk" and ok: "conserved stk s" and i: "i < length (places s)"
    and st: "worker_step lib i s = Some (Some s')"
  shows "conserved stk s'"
proof (cases "places s ! i")
  case Test_Run
  then show ?thesis using ok i st
    by (auto simp: worker_step_def in_flight_def intro!: conserved_go pop_conserved [OF lib] elim: conserved_fields split: if_splits)
next
  case (Ready p)
  show ?thesis
  proof (cases p)
    case None
    then show ?thesis using Ready ok i st by (auto simp: worker_step_def in_flight_def intro!: conserved_go)
  next
    case (Some q)
    then show ?thesis
      using Ready ok i st flight_go [of i "s\<lparr>handled := handled s @ [(snd q, sl_read lib (msg_list s) (fst q))]\<rparr>" In_Callback]
      by (cases q) (auto simp: worker_step_def in_flight_def conserved_def)
  qed
qed (use ok i st in \<open>auto simp: worker_step_def enter_lock_def set_state_def in_flight_def
       intro!: conserved_go elim: conserved_fields split: if_splits\<close>)

lemma conserved_signal:
  assumes "conserved stk s"
  shows "conserved stk (cond_signal k s)"
  using assms by (auto simp: cond_signal_def in_flight_def intro!: conserved_go)

lemma pool_step_conserved:
  assumes "stack_lib_ok lib stk" "pool_step lib spurious orderly s s'" "conserved stk s"
  shows "conserved stk s'"
  using assms(2)
proof (cases rule: pool_step.cases)
  case (work i)
  then show ?thesis using worker_step_conserved assms by blast
next
  case (leave i k)
  have "places (cond_signal k s) ! i = Signal_Exit" "i < length (places (cond_signal k s))"
    using leave by (auto simp: cond_signal_def nth_list_update)
  then show ?thesis using leave(1) conserved_signal assms(3) by (auto simp: in_flight_def intro!: conserved_go)
next
  case (wake k)
  then show ?thesis using assms(3) by (auto simp: in_flight_def intro!: conserved_go)
next
  case (push v)
  obtain ok st where p: "sl_push lib (msg_list s) v = (ok, st)" by fastforce
  then show ?thesis using push(1) assms(3) stack_push_law [OF assms(1) p]
    by (auto simp: thread_pool_pushmsg_def conserved_def all_in_flight_def)
qed (use assms(3) in \<open>auto simp: pushmsg_test_def stop_next_def intro!: conserved_signal elim: conserved_fields split: if_splits\<close>)

subsection \<open>The slots\<close>

lemma slots_cong:
  assumes "pool_slots lib s" "set (places s') \<subseteq> insert p (set (places s))" "slot_ok lib (msg_list s') p"
    "sl_read lib (msg_list s') = sl_read lib (msg_list s)" "handled s' = handled s"
  shows "pool_slots lib s'"
proof -
  have "slot_ok lib (msg_list s') q" if "slot_ok lib (msg_list s) q" for q
    using that assms(4) by (simp add: slot_ok_def split: worker_place.splits option.splits prod.splits)
  then show ?thesis using assms by (fastforce simp: pool_slots_def)
qed

lemma slots_go:
  assumes "pool_slots lib s" "slot_ok lib (msg_list s) p"
  shows "pool_slots lib (go i p s)"
  using assms by (intro slots_cong [OF assms(1), of _ p]) (simp_all add: set_update_subset_insert)

lemma slots_fields:
  assumes "pool_slots lib s" "places s' = places s" "msg_list s' = msg_list s" "handled s' = handled s"
  shows "pool_slots lib s'"
  using assms by (simp add: pool_slots_def)

lemma slot_at:
  assumes "pool_slots lib s" "i < length (places s)"
  shows "slot_ok lib (msg_list s) (places s ! i)"
  using assms by (simp add: pool_slots_def)

lemma pop_slots:
  assumes lib: "stack_lib_ok lib stk" and ok: "pool_slots lib s"
  shows "pool_slots lib (pop_message lib i s)"
proof -
  obtain r st where pop: "sl_popback lib (msg_list s) = (r, st)" by fastforce
  show ?thesis
    using stack_pop_law(3) [OF lib pop] set_update_subset_insert [of "places s" i "Popped (map_option (\<lambda>a. (a, sl_read lib st a)) r)"]
    by (intro slots_cong [OF ok, of _ "Popped (map_option (\<lambda>a. (a, sl_read lib st a)) r)"])
      (simp_all add: pop_message_def pop slot_ok_def split: option.splits)
qed

lemma worker_step_slots:
  assumes lib: "stack_lib_ok lib stk" and ok: "pool_slots lib s" and i: "i < length (places s)"
    and st: "worker_step lib i s = Some (Some s')"
  shows "pool_slots lib s'"
proof (cases "places s ! i")
  case Test_Run
  then show ?thesis using ok st
    by (auto simp: worker_step_def slot_ok_def intro!: slots_go pop_slots [OF lib] elim: slots_fields split: if_splits)
next
  case (Popped p)
  then show ?thesis using ok st slot_at [OF ok i]
    by (auto simp: worker_step_def slot_ok_def set_state_def intro!: slots_go elim: slots_fields split: if_splits option.splits)
next
  case (Ready p)
  show ?thesis
  proof (cases p)
    case None
    then show ?thesis using Ready ok st by (auto simp: worker_step_def slot_ok_def intro!: slots_go)
  next
    case (Some q)
    obtain a v where q: "q = (a, v)" by fastforce
    have "pool_slots lib (s\<lparr>handled := handled s @ [(v, sl_read lib (msg_list s) a)]\<rparr>)"
      using slot_at [OF ok i] Ready Some q ok by (simp add: pool_slots_def slot_ok_def)
    then show ?thesis using Ready Some q st by (auto simp: worker_step_def slot_ok_def intro!: slots_go)
  qed
qed (use ok i st in \<open>auto simp: worker_step_def enter_lock_def set_state_def slot_ok_def
       intro!: slots_go elim: slots_fields split: if_splits\<close>)

lemma slots_signal:
  assumes "pool_slots lib s"
  shows "pool_slots lib (cond_signal k s)"
  using assms by (auto simp: cond_signal_def slot_ok_def intro!: slots_go)

lemma slot_empty: "in_flight p = [] \<Longrightarrow> slot_ok lib st p"
  by (auto simp: in_flight_def slot_ok_def split: worker_place.splits option.splits)

lemma pool_step_slots:
  assumes "stack_lib_ok lib stk" "pool_step lib spurious True s s'" "pool_slots lib s"
  shows "pool_slots lib s'"
  using assms(2)
proof (cases rule: pool_step.cases)
  case (work i)
  then show ?thesis using worker_step_slots assms by blast
next
  case (leave i k)
  then show ?thesis using slots_signal assms(3) by (auto simp: slot_ok_def intro!: slots_go)
next
  case (wake k)
  then show ?thesis using assms(3) by (auto simp: slot_ok_def intro!: slots_go)
next
  case (push v)
  have "slot_ok lib st p" if "p \<in> set (places s)" for st p
    using that push by (intro slot_empty) (simp add: all_in_flight_def)
  then show ?thesis using push(1) assms(3) by (auto simp: thread_pool_pushmsg_def pool_slots_def split: prod.splits)
qed (use assms(3) in \<open>auto simp: pushmsg_test_def stop_next_def intro!: slots_signal elim: slots_fields split: if_splits\<close>)

section \<open>Every reachable state\<close>

lemma shape_start: "pool_shape (thread_pool_start (thread_pool_new st n))"
  by (auto simp: pool_shape_def thread_pool_start_def thread_pool_new_def index_ok_def lock_ok_def holds_lock_def)

lemma reach_shape:
  assumes "threads_reach lib spurious orderly st n s"
  shows "pool_shape s"
  using assms unfolding threads_reach_def by (induction rule: rtranclp_induct) (auto intro: shape_start pool_step_shape)

lemma reach_conserved:
  assumes "threads_reach lib spurious orderly st n s" "stack_lib_ok lib stk" "stk st = []"
  shows "conserved stk s"
  using assms unfolding threads_reach_def
proof (induction rule: rtranclp_induct)
  case base
  then show ?case by (auto simp: conserved_def thread_pool_start_def thread_pool_new_def all_in_flight_def in_flight_def)
qed (auto intro: pool_step_conserved)

lemma reach_slots:
  assumes "threads_reach lib spurious True st n s" "stack_lib_ok lib stk"
  shows "pool_slots lib s"
  using assms unfolding threads_reach_def
proof (induction rule: rtranclp_induct)
  case base
  then show ?case by (auto simp: pool_slots_def slot_ok_def thread_pool_start_def thread_pool_new_def)
qed (auto intro: pool_step_slots)

end
