(* ===== verification/Thread_Pool_Props.thy ===== *)
theory Thread_Pool_Props
  imports Thread_Pool_Inv
begin

text \<open>
  What the thread pool promises: a message that was pushed is handled once, the workers do not sleep while there is work, and the array
  of states is not overrun. Schedules of the threads that can be evaluated show what it does not promise: \<^verbatim>\<open>thread_pool_stop\<close> may hang,
  \<^verbatim>\<open>thread_pool_wait\<close> may return too early, and a push may overwrite a message that a worker has taken and not read.
\<close>

section \<open>A worker does not sleep while there is work\<close>

definition awake :: "'v worker_place \<Rightarrow> bool" where
  "awake p \<longleftrightarrow> p \<noteq> Waiting"

definition work_seen :: "('st, 'v) stack_lib \<Rightarrow> ('st, 'v) thread_pool_s \<Rightarrow> bool" where
  "work_seen lib s \<longleftrightarrow>
     (\<forall>p \<in> set (places s). p = Before_Wait \<longrightarrow> \<not> is_run s \<or> sl_num lib (msg_list s) = 0) \<and>
     (\<forall>p \<in> set (places s). p = Signal_Exit \<or> p = Exited \<longrightarrow> \<not> is_run s) \<and>
     (is_run s \<and> 0 < sl_num lib (msg_list s) \<longrightarrow> 0 < signallers s \<or> (\<exists>p \<in> set (places s). awake p))"

text \<open>A worker moves, while the stack only shrinks.\<close>

lemma work_seen_move:
  assumes seen: "work_seen lib s" and i: "i < length (places s)" and moved: "places s' = (places s)[i := p]"
    and same: "is_run s' = is_run s" "sl_num lib (msg_list s') \<le> sl_num lib (msg_list s)" "signallers s' = signallers s"
    and wait: "p = Before_Wait \<Longrightarrow> \<not> is_run s \<or> sl_num lib (msg_list s') = 0"
    and exit: "p = Signal_Exit \<or> p = Exited \<Longrightarrow> \<not> is_run s"
    and awake: "awake p \<or> \<not> is_run s \<or> sl_num lib (msg_list s') = 0"
  shows "work_seen lib s'"
proof -
  have sub: "q = p \<or> q \<in> set (places s)" if "q \<in> set (places s')" for q
    using that moved set_update_subset_insert [of "places s" i p] by auto
  have new: "p \<in> set (places s')" using i moved by (simp add: set_update_memI)
  have "q = Before_Wait \<longrightarrow> \<not> is_run s' \<or> sl_num lib (msg_list s') = 0" if "q \<in> set (places s')" for q
    using sub [OF that] seen wait same(1,2) unfolding work_seen_def by force
  moreover have "q = Signal_Exit \<or> q = Exited \<longrightarrow> \<not> is_run s'" if "q \<in> set (places s')" for q
    using sub [OF that] seen exit same(1) unfolding work_seen_def by blast
  moreover have "is_run s' \<and> 0 < sl_num lib (msg_list s') \<longrightarrow> 0 < signallers s' \<or> (\<exists>q \<in> set (places s'). awake q)"
    using awake new same(1) by auto
  ultimately show ?thesis by (simp add: work_seen_def)
qed

lemma work_seen_go:
  assumes "work_seen lib s" "i < length (places s)" "awake p" "p \<noteq> Before_Wait" "p \<noteq> Signal_Exit" "p \<noteq> Exited"
  shows "work_seen lib (go i p s)"
  using assms by (intro work_seen_move [OF assms(1,2), of _ p]) auto

lemma work_seen_fields:
  assumes "work_seen lib s" "places s' = places s" "is_run s' = is_run s" "msg_list s' = msg_list s" "signallers s' = signallers s"
  shows "work_seen lib s'"
  using assms by (simp add: work_seen_def)

lemma pop_num:
  assumes lib: "stack_lib_ok lib stk"
  shows "sl_num lib (snd (sl_popback lib st)) = sl_num lib st - 1"
proof -
  obtain r st' where pop: "sl_popback lib st = (r, st')" by fastforce
  have "sl_num lib x = length (stk x)" for x using lib by (simp add: stack_lib_ok_def)
  then show ?thesis using stack_pop_law(1,2) [OF lib pop] pop by (cases "stk st = []") auto
qed

lemma pop_seen:
  assumes lib: "stack_lib_ok lib stk" and seen: "work_seen lib s" and i: "i < length (places s)"
  shows "work_seen lib (pop_message lib i s)"
proof -
  obtain r st where pop: "sl_popback lib (msg_list s) = (r, st)" by fastforce
  have num: "sl_num lib st = sl_num lib (msg_list s) - 1" using pop_num [OF lib, of "msg_list s"] pop by simp
  show ?thesis
    by (rule work_seen_move [OF seen i, of _ "Popped (map_option (\<lambda>a. (a, sl_read lib st a)) r)"])
      (simp_all add: pop_message_def pop num awake_def)
qed

lemma worker_step_seen:
  assumes lib: "stack_lib_ok lib stk" and seen: "work_seen lib s" and i: "i < length (places s)"
    and st: "worker_step lib i s = Some (Some s')"
  shows "work_seen lib s'"
proof (cases "places s ! i")
  case Test_Loop
  have "?thesis" if "\<not> (is_run s \<and> sl_num lib (msg_list s) = 0)"
    using that Test_Loop seen i st by (auto simp: worker_step_def awake_def intro!: work_seen_go)
  moreover have "?thesis" if "is_run s \<and> sl_num lib (msg_list s) = 0"
    using that Test_Loop st by (intro work_seen_move [OF seen i, of _ Before_Wait]) (auto simp: worker_step_def)
  ultimately show ?thesis by blast
next
  case Before_Wait
  then have "Before_Wait \<in> set (places s)" using i by (metis nth_mem)
  then have "\<not> is_run s \<or> sl_num lib (msg_list s) = 0" using seen by (auto simp: work_seen_def)
  then show ?thesis using Before_Wait st by (intro work_seen_move [OF seen i, of _ Waiting]) (auto simp: worker_step_def)
next
  case Test_Run
  show ?thesis
  proof (cases "is_run s")
    case True
    then show ?thesis using Test_Run i st pop_seen [OF lib seen i] by (simp add: worker_step_def)
  next
    case False
    then show ?thesis using Test_Run st by (intro work_seen_move [OF seen i, of _ Signal_Exit]) (auto simp: worker_step_def)
  qed
qed (use seen i st in \<open>auto simp: worker_step_def enter_lock_def set_state_def awake_def
       intro!: work_seen_go elim: work_seen_fields split: if_splits option.splits\<close>)

text \<open>A signal that finds nobody waiting leaves every worker awake.\<close>

lemma signal_seen:
  assumes seen: "work_seen lib s" and places: "places s \<noteq> []" and k: "may_wake k s"
  shows "work_seen lib (cond_signal k (s\<lparr>signallers := n\<rparr>))"
proof (cases "Waiting \<in> set (places s)")
  case True
  then have k: "k < length (places s)" "places s ! k = Waiting" using k by (auto simp: may_wake_def)
  have "Relock \<in> set ((places s)[k := Relock])" using k(1) by (simp add: set_update_memI)
  moreover have "work_seen lib (go k Relock s)" using seen k(1) by (simp add: work_seen_go awake_def)
  ultimately show ?thesis using k by (auto simp: cond_signal_def go_def work_seen_def awake_def)
next
  case False
  then have "\<not> (k < length (places s) \<and> places s ! k = Waiting)" by (metis nth_mem)
  then have "cond_signal k (s\<lparr>signallers := n\<rparr>) = s\<lparr>signallers := n\<rparr>" by (auto simp: cond_signal_def)
  moreover have "\<exists>p \<in> set (places s). awake p" using False places by (metis awake_def list.set_sel(1))
  ultimately show ?thesis using seen by (simp add: work_seen_def)
qed

lemma worker_places:
  assumes "worker_step lib i s = Some (Some s')"
  shows "length (places s') = length (places s)"
  using assms
  by (cases "places s ! i")
    (auto simp: worker_step_def enter_lock_def set_state_def pop_message_def split: if_splits option.splits prod.splits)

lemma places_kept:
  assumes "pool_step lib spurious orderly s s'"
  shows "length (places s') = length (places s)"
  using assms
proof (cases rule: pool_step.cases)
  case (work i)
  then show ?thesis using worker_places by blast
qed (auto simp: cond_signal_def thread_pool_pushmsg_def pushmsg_test_def stop_next_def split: prod.splits if_splits)

lemma pool_step_seen:
  assumes lib: "stack_lib_ok lib stk" and step: "pool_step lib spurious orderly s s'" and seen: "work_seen lib s" and shape: "pool_shape s"
    and places: "places s \<noteq> []"
  shows "work_seen lib s'"
  using step
proof (cases rule: pool_step.cases)
  case (work i)
  then show ?thesis using worker_step_seen lib seen by blast
next
  case (leave i k)
  then have "Signal_Exit \<in> set (places s)" by (metis nth_mem)
  then have "\<not> is_run s" using seen by (auto simp: work_seen_def)
  then have "\<not> is_run s'" using leave(1) by (simp add: cond_signal_def)
  moreover have "q = Before_Wait \<or> q = Signal_Exit \<or> q = Exited \<longrightarrow> \<not> is_run s'" for q :: "'b worker_place"
    using calculation by blast
  ultimately show ?thesis by (simp add: work_seen_def)
next
  case (wake k)
  then show ?thesis using seen by (auto simp: awake_def intro!: work_seen_go)
next
  case (push v)
  have "lock_ok (places s) None" using shape push(3) by (simp add: pool_shape_def)
  then have "Before_Wait \<notin> set (places s)" by (auto simp: lock_ok_def holds_lock_def in_set_conv_nth)
  moreover obtain ok st where "sl_push lib (msg_list s) v = (ok, st)" by fastforce
  ultimately show ?thesis using push(1) seen by (auto simp: thread_pool_pushmsg_def work_seen_def)
next
  case (push_signal k)
  then show ?thesis using signal_seen [OF seen places] by simp
next
  case (stop_signal j k)
  then show ?thesis using signal_seen [of lib "s\<lparr>stopper := Stop_Join j\<rparr>" k "signallers s"] seen places
    by (simp add: may_wake_def work_seen_def)
next
  case push_test
  then have "s' = s\<lparr>pushers := pushers s + 1\<rparr>" by (simp add: pushmsg_test_def split: if_splits)
  then show ?thesis using seen by (simp add: work_seen_def)
next
  case stop_clear
  then show ?thesis by (simp add: stop_next_def work_seen_def)
next
  case (stop_join j)
  then show ?thesis using seen by (simp add: stop_next_def work_seen_def)
qed

lemma reach_places:
  assumes "threads_reach lib spurious orderly st n s"
  shows "length (places s) = n"
  using assms unfolding threads_reach_def
  by (induction rule: rtranclp_induct) (auto simp: thread_pool_start_def thread_pool_new_def places_kept)

lemma reach_seen:
  assumes lib: "stack_lib_ok lib stk" and empty: "stk st = []" and reach: "threads_reach lib spurious orderly st n s" and n: "0 < n"
  shows "work_seen lib s"
  using reach unfolding threads_reach_def
proof (induction rule: rtranclp_induct)
  case base
  have "sl_num lib st = 0" using lib empty by (simp add: stack_lib_ok_def)
  then show ?case by (auto simp: work_seen_def thread_pool_start_def thread_pool_new_def)
next
  case (step s s')
  then have "threads_reach lib spurious orderly st n s" by (simp add: threads_reach_def)
  then have "pool_shape s" "places s \<noteq> []" using reach_shape reach_places n by fastforce+
  then show ?case using pool_step_seen [OF lib step(2,3)] by blast
qed

section \<open>What the pool promises\<close>

text \<open>The array of states has an entry for every worker, so no write is outside it.\<close>

lemma worker_in_bounds:
  assumes "threads_reach lib spurious orderly st n s" "i < length (places s)"
  shows "worker_step lib i s \<noteq> Some None"
  using index_bound [OF reach_shape [OF assms(1)] assms(2)]
  by (auto simp: worker_step_def set_state_def split: worker_place.splits if_splits)

text \<open>At most one worker is between the lock and the unlock.\<close>

lemma workers_exclude:
  assumes "threads_reach lib spurious orderly st n s" "i < length (places s)" "j < length (places s)"
    "holds_lock (places s ! i)" "holds_lock (places s ! j)"
  shows "i = j"
  using reach_shape [OF assms(1)] assms(2-5) by (simp add: pool_shape_def lock_ok_def)

lemma worker_moves:
  assumes "pool_shape s" "i < length (places s)" "awake (places s ! i)" "places s ! i \<noteq> Signal_Exit" "places s ! i \<noteq> Exited"
    "msg_lock s = None \<or> holds_lock (places s ! i)"
  shows "\<exists>s'. worker_step lib i s = Some (Some s')"
proof -
  have free: "msg_lock s = None" if "places s ! i = At_Lock \<or> places s ! i = Relock"
    using that assms(6) by (auto simp: holds_lock_def)
  show ?thesis using assms(3-5) free index_bound [OF assms(1,2)]
    by (cases "places s ! i") (auto simp: worker_step_def enter_lock_def set_state_def awake_def)
qed

text \<open>
  C24. The workers of a running thread pool do not sleep while there is a message: one of them can take a step or a push has still to signal.
\<close>

theorem pool_push_wakes:
  assumes "stack_lib_ok lib stk" "stk st = []" "threads_reach lib spurious orderly st n s" "0 < n" "is_run s" "stk (msg_list s) \<noteq> []"
  shows "0 < signallers s \<or> (\<exists>i < n. \<exists>s'. worker_step lib i s = Some (Some s'))"
proof (cases "0 < signallers s")
  case False
  have seen: "work_seen lib s" by (rule reach_seen [OF assms(1-4)])
  have shape: "pool_shape s" by (rule reach_shape [OF assms(3)])
  have n: "length (places s) = n" by (rule reach_places [OF assms(3)])
  have run: "places s ! i \<noteq> Signal_Exit \<and> places s ! i \<noteq> Exited" if "i < n" for i
    using that seen assms(5) n by (metis nth_mem work_seen_def)
  have "0 < sl_num lib (msg_list s)" using assms(1,6) by (simp add: stack_lib_ok_def)
  then obtain i where i: "i < n" "awake (places s ! i)"
    using seen assms(5) False n unfolding work_seen_def by (metis in_set_conv_nth)
  show ?thesis
  proof (cases "msg_lock s")
    case None
    then show ?thesis using worker_moves [OF shape, of i lib] i run [OF i(1)] n by auto
  next
    case (Some j)
    then have j: "j < n" "holds_lock (places s ! j)" using shape n by (auto simp: pool_shape_def lock_ok_def)
    then have "awake (places s ! j)" by (auto simp: holds_lock_def awake_def)
    then show ?thesis using worker_moves [OF shape, of j lib] j run [OF j(1)] n by auto
  qed
qed simp

text \<open>
  Every message that was pushed is in the stack, with a worker, or was passed to the callback, and each once, as long as nobody
  pushes while a worker is between taking a message and reading it.
\<close>

lemma messages_balance:
  assumes "stack_lib_ok lib stk" "stk st = []" "threads_reach lib spurious True st n s"
  shows "mset (pushed s) = mset (stk (msg_list s)) + mset (all_in_flight s) + mset (map snd (handled s))"
proof -
  have "map fst (handled s) = map snd (handled s)" using reach_slots [OF assms(3,1)] unfolding pool_slots_def by blast
  then show ?thesis using reach_conserved [OF assms(3,1,2)] unfolding conserved_def by (simp only:)
qed

text \<open>When the pool has nothing left, the callback had every message.\<close>

lemma drained_handled:
  assumes "stack_lib_ok lib stk" "stk st = []" "threads_reach lib spurious True st n s" "stk (msg_list s) = []" "all_in_flight s = []"
  shows "mset (pushed s) = mset (map snd (handled s))"
  using messages_balance [OF assms(1-3)] assms(4,5) by simp

section \<open>Schedules\<close>

text \<open>A schedule of the threads, to evaluate runs; each of its actions is a step.\<close>

datatype 'v pool_action = Work nat | Test_Running | Push 'v | Signal nat | Clear_Run | Signal_Stop nat

fun pool_act :: "('st, 'v) stack_lib \<Rightarrow> bool \<Rightarrow> 'v pool_action \<Rightarrow> ('st, 'v) thread_pool_s \<Rightarrow> ('st, 'v) thread_pool_s option" where
  "pool_act lib orderly (Work i) s = (if i < length (places s) then Option.bind (worker_step lib i s) (\<lambda>x. x) else None)"
| "pool_act lib orderly Test_Running s = pushmsg_test s"
| "pool_act lib orderly (Push v) s =
     (if 0 < pushers s \<and> msg_lock s = None \<and> (orderly \<longrightarrow> all_in_flight s = []) then Some (snd (thread_pool_pushmsg lib v s)) else None)"
| "pool_act lib orderly (Signal k) s =
     (if 0 < signallers s \<and> may_wake k s then Some (cond_signal k (s\<lparr>signallers := signallers s - 1\<rparr>)) else None)"
| "pool_act lib orderly Clear_Run s = (if stopper s = Not_Stopping then Some (stop_next 0 (s\<lparr>is_run := False\<rparr>)) else None)"
| "pool_act lib orderly (Signal_Stop k) s =
     (case stopper s of Stop_Signal j \<Rightarrow> if may_wake k s then Some (cond_signal k (s\<lparr>stopper := Stop_Join j\<rparr>)) else None | _ \<Rightarrow> None)"

fun pool_schedule :: "('st, 'v) stack_lib \<Rightarrow> bool \<Rightarrow> 'v pool_action list \<Rightarrow> ('st, 'v) thread_pool_s \<Rightarrow> ('st, 'v) thread_pool_s option" where
  "pool_schedule lib orderly [] s = Some s"
| "pool_schedule lib orderly (a # as) s = Option.bind (pool_act lib orderly a s) (pool_schedule lib orderly as)"

lemma pool_act_step:
  assumes "pool_act lib orderly a s = Some s'"
  shows "pool_step lib spurious orderly s s'"
  using assms
  by (cases a) (auto intro: pool_step.intros simp del: One_nat_def split: if_splits stop_place.splits Option.bind_splits)

lemma pool_schedule_reach:
  assumes "pool_schedule lib orderly as (thread_pool_start (thread_pool_new st n)) = Some s"
  shows "threads_reach lib spurious orderly st n s"
proof -
  have "(pool_step lib spurious orderly)\<^sup>*\<^sup>* s0 s" if "pool_schedule lib orderly as s0 = Some s" for s0
    using that by (induction as arbitrary: s0) (auto split: Option.bind_splits intro: converse_rtranclp_into_rtranclp pool_act_step)
  then show ?thesis using assms by (simp add: threads_reach_def)
qed

text \<open>A stack over an array of slots: its contents, and the slots above them, which keep what was popped.\<close>

definition array_stack :: "('v list \<times> 'v list, 'v) stack_lib" where
  "array_stack =
     \<lparr>sl_num = \<lambda>(xs, ys). length xs,
      sl_push = \<lambda>(xs, ys) v. (case ys of [] \<Rightarrow> (False, xs, ys) | y # ys' \<Rightarrow> (True, xs @ [v], ys')),
      sl_popback = \<lambda>(xs, ys). (if xs = [] then (None, xs, ys) else (Some (length xs - 1), butlast xs, last xs # ys)),
      sl_read = \<lambda>(xs, ys) a. (xs @ ys) ! a\<rparr>"

lemma array_stack_ok: "stack_lib_ok array_stack fst"
proof -
  have slots: "butlast xs @ last xs # ys = xs @ ys" if "xs \<noteq> []" for xs ys :: "'v list"
    using that by (metis append_Cons append_Nil append_assoc append_butlast_last_id)
  have top: "(xs @ ys) ! (length xs - 1) = last xs" if "xs \<noteq> []" for xs ys :: "'v list"
    using that by (simp add: nth_append last_conv_nth)
  show ?thesis using top by (auto simp: stack_lib_ok_def array_stack_def slots split: list.splits)
qed

section \<open>Runs\<close>

lemmas schedule_simps = thread_pool_start_def thread_pool_new_def worker_step_def enter_lock_def set_state_def pop_message_def go_def
  pushmsg_test_def thread_pool_pushmsg_def cond_signal_def may_wake_def stop_next_def array_stack_def all_in_flight_def in_flight_def

text \<open>One worker waits, a message is pushed and the signal wakes the worker; then it takes the message and handles it.\<close>

definition pool_woken :: "'v \<Rightarrow> 'v \<Rightarrow> ('v list \<times> 'v list, 'v) thread_pool_s" where
  "pool_woken slot v = \<lparr>is_run = True, msg_list = ([v], []), msg_lock = None, work_thread_state = [False], thread_index = 1, places = [Relock],
     own_index = [0], pushers = 0, signallers = 0, stopper = Not_Stopping, pushed = [v], handled = []\<rparr>"

lemma pool_woken_run:
  "pool_schedule array_stack True [Work 0, Work 0, Work 0, Work 0, Test_Running, Push v, Signal 0]
     (thread_pool_start (thread_pool_new ([], [slot]) 1)) = Some (pool_woken slot v)"
  by (simp add: schedule_simps pool_woken_def)

theorem pool_push_wakes_witness:
  "0 < signallers (pool_woken 0 (7 :: nat)) \<or> (\<exists>i < 1. \<exists>s'. worker_step array_stack i (pool_woken 0 (7 :: nat)) = Some (Some s'))"
  by (rule pool_push_wakes [OF array_stack_ok _ pool_schedule_reach [OF pool_woken_run]]) (simp_all add: pool_woken_def)

definition pool_done :: "'v \<Rightarrow> 'v \<Rightarrow> ('v list \<times> 'v list, 'v) thread_pool_s" where
  "pool_done slot v =
     (pool_woken slot v)\<lparr>msg_list := ([], [v]), work_thread_state := [True], places := [In_Callback], handled := [(v, v)]\<rparr>"

lemma pool_done_run:
  "pool_schedule array_stack True [Work 0, Work 0, Work 0, Work 0, Test_Running, Push v, Signal 0, Work 0, Work 0, Work 0, Work 0, Work 0]
     (thread_pool_start (thread_pool_new ([], [slot]) 1)) = Some (pool_done slot v)"
  by (simp add: schedule_simps pool_woken_def pool_done_def)

lemma pool_done_fields:
  "fst (msg_list (pool_done slot v)) = []" "all_in_flight (pool_done slot v) = []" "pushed (pool_done slot v) = [v]"
  "handled (pool_done slot v) = [(v, v)]"
  by (simp_all add: pool_done_def pool_woken_def all_in_flight_def in_flight_def)

text \<open>
  \<^verbatim>\<open>thread_pool_stop\<close> can hang: it clears \<^verbatim>\<open>is_run\<close> without the lock, so its signal may come between the worker's test of
  \<^verbatim>\<open>is_run\<close> and its wait. Then the worker waits, the stopper joins it, and no thread has a step.
\<close>

lemma stop_may_hang:
  "\<exists>s. threads_reach array_stack False orderly ([], replicate c v) 1 s \<and> stopper s = Stop_Join 0 \<and> places s = [Waiting] \<and>
     \<not> (\<exists>s'. pool_step array_stack False orderly s s')"
proof -
  let ?s = "\<lparr>is_run = False, msg_list = ([], replicate c v), msg_lock = None, work_thread_state = [False], thread_index = 1,
    places = [Waiting], own_index = [0], pushers = 0, signallers = 0, stopper = Stop_Join 0, pushed = [], handled = []\<rparr>"
  have "pool_schedule array_stack orderly [Work 0, Work 0, Work 0, Clear_Run, Signal_Stop 0, Work 0]
      (thread_pool_start (thread_pool_new ([], replicate c v) 1)) = Some ?s"
    by (simp add: schedule_simps)
  then have "threads_reach array_stack False orderly ([], replicate c v) 1 ?s" by (rule pool_schedule_reach)
  moreover have "\<not> pool_step array_stack False orderly ?s s'" for s'
    by (rule notI, erule pool_step.cases) (auto simp: worker_step_def pushmsg_test_def)
  ultimately show ?thesis by (intro exI [of _ ?s]) simp
qed

text \<open>
  A push between the pop and the read of a worker takes the same slot: message 7 is lost and message 8 is handled twice.
\<close>

lemma message_overwritten:
  "\<exists>s. threads_reach array_stack False False ([], [0]) 1 s \<and> pushed s = [7, 8 :: nat] \<and> map snd (handled s) = [8, 8] \<and>
     fst (msg_list s) = [] \<and> all_in_flight s = []"
proof -
  let ?s = "\<lparr>is_run = True, msg_list = ([], [8 :: nat]), msg_lock = None, work_thread_state = [True], thread_index = 1,
    places = [In_Callback], own_index = [0], pushers = 0, signallers = 2, stopper = Not_Stopping, pushed = [7, 8],
    handled = [(7, 8), (8, 8)]\<rparr>"
  have "pool_schedule array_stack False
      [Test_Running, Test_Running, Push 7, Work 0, Work 0, Work 0, Work 0, Push 8, Work 0, Work 0, Work 0, Work 0, Work 0, Work 0, Work 0, Work 0]
      (thread_pool_start (thread_pool_new ([], [0]) 1)) = Some ?s"
    by (simp add: schedule_simps)
  then have "threads_reach array_stack False False ([], [0]) 1 ?s" by (rule pool_schedule_reach)
  then show ?thesis by (intro exI [of _ ?s]) (simp add: all_in_flight_def in_flight_def)
qed

text \<open>
  \<^verbatim>\<open>thread_pool_wait\<close> can return with a message not handled: a worker sets its state after it has left the lock.
\<close>

lemma wait_returns_early:
  "\<exists>s. threads_reach array_stack False True ([], [0]) 1 s \<and> \<not> thread_pool_isbusy array_stack s \<and> pushed s = [7 :: nat] \<and> handled s = []"
proof -
  let ?s = "\<lparr>is_run = True, msg_list = ([], [7 :: nat]), msg_lock = None, work_thread_state = [False], thread_index = 1,
    places = [Popped (Some (0, 7))], own_index = [0], pushers = 0, signallers = 1, stopper = Not_Stopping, pushed = [7], handled = []\<rparr>"
  have "pool_schedule array_stack True [Test_Running, Push 7, Work 0, Work 0, Work 0, Work 0] (thread_pool_start (thread_pool_new ([], [0]) 1))
      = Some ?s"
    by (simp add: schedule_simps)
  then have "threads_reach array_stack False True ([], [0]) 1 ?s" by (rule pool_schedule_reach)
  then show ?thesis by (intro exI [of _ ?s]) (simp add: thread_pool_isbusy_def array_stack_def)
qed

end
