(* ===== verification/Msgnet.thy ===== *)
theory Msgnet
  imports Thread_Pool_Props
begin

text \<open>
  The message network of \<^verbatim>\<open>src/utils/msgnet.c\<close> over the thread pool: modules register for message ids, a broadcast calls every module that is
  registered for its id, and a message to one module goes to that module. Registration is itself a message, handled by a module that the network
  creates. What is pushed and handled is the value of a message; the memory of messages and data is not modelled. A failed assertion, a read outside the table of ids and a read of a \<^verbatim>\<open>mgr\<close> that was never set are errors.
\<close>

section \<open>Modules and messages\<close>

type_synonym module_ptr = nat

text \<open>\<open>User h\<close> is a callback of the program. The \<^verbatim>\<open>mgr\<close> of a module is set when the module is registered: there is one network.\<close>

datatype handler = Register_Callback | P2p_Callback | User nat

record msg_module =
  mm_mgr :: bool
  mm_callback :: handler

text \<open>The node of an id is part of the table; the nodes that are added hang behind it.\<close>

record msgmodule_node =
  mn_module :: "module_ptr option"
  mn_next :: "module_ptr list"

datatype msg_data =
    Null_Data
  | Reg_Msg_Data module_ptr int
  | P2p_Msg_Data "module_ptr option" module_ptr int msg_data
  | User_Data nat

record msg_s =
  ms_id :: int
  ms_data :: msg_data
  ms_source :: "module_ptr option"

datatype net_error = Assert_Failed | Outside_Table | Bad_Pointer | Unset_Mgr | Wrong_Data

text \<open>A call of a callback of the program.\<close>

record net_call =
  nc_module :: module_ptr
  nc_id :: int
  nc_source :: "module_ptr option"
  nc_data :: msg_data

text \<open>\<open>mg_log\<close> records the calls.\<close>

record msgnet =
  mg_nodes :: "msgmodule_node list"
  mg_modules :: "module_ptr \<rightharpoonup> msg_module"
  mg_fresh :: module_ptr
  mg_log :: "net_call list"

definition MSG_ID_ARRAY_NUM :: int where "MSG_ID_ARRAY_NUM = 100"
definition MSGNET_REGISTERMODULE_MSG :: int where "MSGNET_REGISTERMODULE_MSG = 0"
definition MSGNET_P2P_MSG :: int where "MSGNET_P2P_MSG = 1"

lemmas msg_ids = MSG_ID_ARRAY_NUM_def MSGNET_REGISTERMODULE_MSG_def MSGNET_P2P_MSG_def

fun and_then :: "net_error + 'a \<Rightarrow> ('a \<Rightarrow> net_error + 'b) \<Rightarrow> net_error + 'b" where
  "and_then (Inl e) f = Inl e"
| "and_then (Inr x) f = f x"

section \<open>Registration\<close>

text \<open>
  The first part of \<^verbatim>\<open>_msgnet_insert_module\<close> sets \<^verbatim>\<open>mgr\<close>; the second reads the node of the id and writes it, with the new node
  behind it.
\<close>

definition claim_module :: "module_ptr \<Rightarrow> int \<Rightarrow> msgnet \<Rightarrow> net_error + msgnet" where
  "claim_module m msgid g =
     (if \<not> (0 \<le> msgid \<and> msgid < MSG_ID_ARRAY_NUM) then Inl Assert_Failed
      else case mg_modules g m of
        None \<Rightarrow> Inl Bad_Pointer
      | Some md \<Rightarrow> Inr (g\<lparr>mg_modules := (mg_modules g)(m \<mapsto> md\<lparr>mm_mgr := True\<rparr>)\<rparr>))"

definition inserted_node :: "module_ptr \<Rightarrow> msgmodule_node \<Rightarrow> msgmodule_node" where
  "inserted_node m node =
     (case mn_module node of
        None \<Rightarrow> \<lparr>mn_module = Some m, mn_next = []\<rparr>
      | Some _ \<Rightarrow> node\<lparr>mn_next := m # mn_next node\<rparr>)"

definition link_module :: "module_ptr \<Rightarrow> int \<Rightarrow> msgmodule_node \<Rightarrow> msgnet \<Rightarrow> msgnet" where
  "link_module m msgid node g = g\<lparr>mg_nodes := (mg_nodes g)[nat msgid := inserted_node m node]\<rparr>"

definition msgnet_insert_module :: "module_ptr \<Rightarrow> int \<Rightarrow> msgnet \<Rightarrow> net_error + msgnet" where
  "msgnet_insert_module m msgid g =
     and_then (claim_module m msgid g) (\<lambda>g1. Inr (link_module m msgid (mg_nodes g1 ! nat msgid) g1))"

lemmas insert_defs = msgnet_insert_module_def claim_module_def link_module_def inserted_node_def

definition register_module_callback :: "msg_data \<Rightarrow> msgnet \<Rightarrow> net_error + msgnet" where
  "register_module_callback data g =
     (case data of
        Null_Data \<Rightarrow> Inr g
      | Reg_Msg_Data m msgid \<Rightarrow>
          if msgid \<noteq> MSGNET_REGISTERMODULE_MSG \<and> msgid \<noteq> MSGNET_P2P_MSG then msgnet_insert_module m msgid g else Inl Assert_Failed
      | _ \<Rightarrow> Inl Wrong_Data)"

definition msgmodule_create :: "handler \<Rightarrow> msgnet \<Rightarrow> module_ptr \<times> msgnet" where
  "msgmodule_create callback g =
     (mg_fresh g, g\<lparr>mg_modules := (mg_modules g)(mg_fresh g \<mapsto> \<lparr>mm_mgr = False, mm_callback = callback\<rparr>), mg_fresh := mg_fresh g + 1\<rparr>)"

definition msgnet_create :: "net_error + msgnet" where
  "msgnet_create =
     (let g = \<lparr>mg_nodes = replicate (nat MSG_ID_ARRAY_NUM) \<lparr>mn_module = None, mn_next = []\<rparr>, mg_modules = (\<lambda>_. None), mg_fresh = 0, mg_log = []\<rparr>
      in case msgmodule_create Register_Callback g of (m, g1) \<Rightarrow>
         and_then (msgnet_insert_module m MSGNET_REGISTERMODULE_MSG g1) (\<lambda>g2.
           case msgmodule_create P2p_Callback g2 of (m2, g3) \<Rightarrow> msgnet_insert_module m2 MSGNET_P2P_MSG g3))"

section \<open>Handling a message\<close>

text \<open>A message to one module is a message of its own that the second module of the network unpacks; its size bounds the recursion.\<close>

fun call_module :: "int \<Rightarrow> module_ptr option \<Rightarrow> msg_data \<Rightarrow> module_ptr \<Rightarrow> msgnet \<Rightarrow> net_error + msgnet" where
  "call_module msgid source data m g =
     (case mg_modules g m of
        None \<Rightarrow> Inl Bad_Pointer
      | Some md \<Rightarrow>
          (case mm_callback md of
             User h \<Rightarrow> Inr (g\<lparr>mg_log := mg_log g @ [\<lparr>nc_module = m, nc_id = msgid, nc_source = source, nc_data = data\<rparr>]\<rparr>)
           | Register_Callback \<Rightarrow> register_module_callback data g
           | P2p_Callback \<Rightarrow>
               (case data of
                  Null_Data \<Rightarrow> Inr g
                | P2p_Msg_Data source' dest msgid' data' \<Rightarrow> call_module msgid' source' data' dest g
                | _ \<Rightarrow> Inl Wrong_Data)))"

declare call_module.simps [simp del]

fun call_modules :: "int \<Rightarrow> module_ptr option \<Rightarrow> msg_data \<Rightarrow> module_ptr list \<Rightarrow> msgnet \<Rightarrow> net_error + msgnet" where
  "call_modules msgid source data [] g = Inr g"
| "call_modules msgid source data (m # ms) g = and_then (call_module msgid source data m g) (call_modules msgid source data ms)"

text \<open>The modules of an id, in the order of the list.\<close>

definition node_modules :: "msgmodule_node \<Rightarrow> module_ptr list" where
  "node_modules node = (case mn_module node of None \<Rightarrow> [] | Some m \<Rightarrow> m # mn_next node)"

definition modules_at :: "msgnet \<Rightarrow> int \<Rightarrow> module_ptr list" where
  "modules_at g k = node_modules (mg_nodes g ! nat k)"

text \<open>
  The walk over the list of an id. The first node is part of the table and its pointer to the others is read after its module was called; the
  others are never written after they were linked. This is a handler that runs alone; \<open>net_worker_step\<close> is the same walk in steps.
\<close>

definition msgnet_msg_handler :: "msg_s \<Rightarrow> msgnet \<Rightarrow> net_error + msgnet" where
  "msgnet_msg_handler msg g =
     (if \<not> (0 \<le> ms_id msg \<and> ms_id msg < MSG_ID_ARRAY_NUM) then Inl Outside_Table
      else case mn_module (mg_nodes g ! nat (ms_id msg)) of
        None \<Rightarrow> Inr g
      | Some m \<Rightarrow>
          and_then (call_module (ms_id msg) (ms_source msg) (ms_data msg) m g) (\<lambda>g1.
            call_modules (ms_id msg) (ms_source msg) (ms_data msg) (mn_next (mg_nodes g1 ! nat (ms_id msg))) g1))"

fun net_run :: "msg_s list \<Rightarrow> msgnet \<Rightarrow> net_error + msgnet" where
  "net_run [] g = Inr g"
| "net_run (m # ms) g = and_then (msgnet_msg_handler m g) (net_run ms)"

section \<open>Workers\<close>

text \<open>
  The pool runs the handler in several workers at once and without a lock. Where a worker is: it has a message and is before the first node;
  it has called the module of the first node; it walks the other nodes; or it is in a registration, between reading the node of an id
  and writing it, and goes on afterwards.
\<close>

datatype net_worker =
    Idle
  | At_Head msg_s
  | After_Head msg_s
  | At_Rest msg_s "module_ptr list"
  | Inserting module_ptr int msgmodule_node net_worker

fun worker_msgs :: "net_worker \<Rightarrow> msg_s list" where
  "worker_msgs (At_Head msg) = [msg]"
| "worker_msgs (After_Head msg) = [msg]"
| "worker_msgs (At_Rest msg ms) = [msg]"
| "worker_msgs _ = []"

text \<open>
  \<open>nt_taken\<close> records the messages that workers took, \<open>nt_order\<close> those that took effect: a registration when it writes the node, another
  message when its worker reads the last it needs of the table.
\<close>

record net_threads =
  nt_net :: msgnet
  nt_workers :: "net_worker list"
  nt_taken :: "msg_s list"
  nt_order :: "msg_s list"

definition worker_to :: "nat \<Rightarrow> net_worker \<Rightarrow> net_threads \<Rightarrow> net_threads" where
  "worker_to i w s = s\<lparr>nt_workers := (nt_workers s)[i := w]\<rparr>"

definition take_effect :: "msg_s list \<Rightarrow> net_threads \<Rightarrow> net_threads" where
  "take_effect msgs s = s\<lparr>nt_order := nt_order s @ msgs\<rparr>"

text \<open>A module is called. A registration stops between the reads and the writes of the table.\<close>

definition visit_module :: "nat \<Rightarrow> msg_s \<Rightarrow> module_ptr \<Rightarrow> net_worker \<Rightarrow> net_threads \<Rightarrow> net_error + net_threads" where
  "visit_module i msg m after s =
     (case mg_modules (nt_net s) m of
        None \<Rightarrow> Inl Bad_Pointer
      | Some md \<Rightarrow>
          if mm_callback md = Register_Callback then
            (case ms_data msg of
               Null_Data \<Rightarrow> Inr (worker_to i after s)
             | Reg_Msg_Data m' k \<Rightarrow>
                 if k \<noteq> MSGNET_REGISTERMODULE_MSG \<and> k \<noteq> MSGNET_P2P_MSG then
                   and_then (claim_module m' k (nt_net s)) (\<lambda>g.
                     Inr (worker_to i (Inserting m' k (mg_nodes g ! nat k) after) (s\<lparr>nt_net := g\<rparr>)))
                 else Inl Assert_Failed
             | _ \<Rightarrow> Inl Wrong_Data)
          else
            and_then (call_module (ms_id msg) (ms_source msg) (ms_data msg) m (nt_net s)) (\<lambda>g.
              Inr (worker_to i after (s\<lparr>nt_net := g\<rparr>))))"

definition net_worker_step :: "nat \<Rightarrow> net_threads \<Rightarrow> net_error + net_threads" where
  "net_worker_step i s =
     (case nt_workers s ! i of
        Idle \<Rightarrow> Inr s
      | At_Head msg \<Rightarrow>
          if \<not> (0 \<le> ms_id msg \<and> ms_id msg < MSG_ID_ARRAY_NUM) then Inl Outside_Table
          else
            (case mn_module (mg_nodes (nt_net s) ! nat (ms_id msg)) of
               None \<Rightarrow> Inr (worker_to i Idle (take_effect [msg] s))
             | Some m \<Rightarrow> visit_module i msg m (After_Head msg) s)
      | After_Head msg \<Rightarrow>
          Inr (worker_to i (At_Rest msg (mn_next (mg_nodes (nt_net s) ! nat (ms_id msg))))
            (if ms_id msg = MSGNET_REGISTERMODULE_MSG then s else take_effect [msg] s))
      | At_Rest msg [] \<Rightarrow> Inr (worker_to i Idle s)
      | At_Rest msg (m # ms) \<Rightarrow> visit_module i msg m (At_Rest msg ms) s
      | Inserting m k node after \<Rightarrow>
          Inr (worker_to i after (take_effect (worker_msgs after) (s\<lparr>nt_net := link_module m k node (nt_net s)\<rparr>))))"

text \<open>The ids whose node a worker reads or writes in its next step.\<close>

fun touched :: "net_worker \<Rightarrow> int set" where
  "touched (At_Head msg) =
     insert (ms_id msg)
       (if ms_id msg = MSGNET_REGISTERMODULE_MSG then (case ms_data msg of Reg_Msg_Data m k \<Rightarrow> {k} | _ \<Rightarrow> {}) else {})"
| "touched (After_Head msg) = {ms_id msg}"
| "touched (Inserting m k node after) = {k}"
| "touched _ = {}"

text \<open>No other worker is in a registration for a node that the step of worker \<open>i\<close> touches.\<close>

definition undisturbed :: "nat \<Rightarrow> net_threads \<Rightarrow> bool" where
  "undisturbed i s \<longleftrightarrow>
     (\<forall>j < length (nt_workers s). j \<noteq> i \<longrightarrow>
        (case nt_workers s ! j of Inserting m k node after \<Rightarrow> k \<notin> touched (nt_workers s ! i) | _ \<Rightarrow> True))"

section \<open>Sending\<close>

text \<open>The message that is pushed; \<open>self\<close> is false for the null pointer, and then the network is that of the source.\<close>

definition mgr_of :: "module_ptr option \<Rightarrow> msgnet \<Rightarrow> net_error + unit" where
  "mgr_of p g =
     (case p of None \<Rightarrow> Inl Bad_Pointer
      | Some m \<Rightarrow> (case mg_modules g m of None \<Rightarrow> Inl Bad_Pointer | Some md \<Rightarrow> if mm_mgr md then Inr () else Inl Unset_Mgr))"

definition msgnet_broadcast :: "bool \<Rightarrow> int \<Rightarrow> module_ptr option \<Rightarrow> msg_data \<Rightarrow> msgnet \<Rightarrow> net_error + msg_s" where
  "msgnet_broadcast self msgid source data g =
     and_then (if self then Inr () else mgr_of source g) (\<lambda>_. Inr \<lparr>ms_id = msgid, ms_data = data, ms_source = source\<rparr>)"

definition msgnet_sendto :: "int \<Rightarrow> module_ptr option \<Rightarrow> module_ptr \<Rightarrow> msg_data \<Rightarrow> msgnet \<Rightarrow> net_error + msg_s" where
  "msgnet_sendto msgid source dest data g =
     and_then (mgr_of (Some dest) g) (\<lambda>_. msgnet_broadcast True MSGNET_P2P_MSG source (P2p_Msg_Data source dest msgid data) g)"

definition msgnet_send_register :: "bool \<Rightarrow> module_ptr \<Rightarrow> int \<Rightarrow> msgnet \<Rightarrow> net_error + msg_s" where
  "msgnet_send_register self m msgid g = msgnet_broadcast self MSGNET_REGISTERMODULE_MSG (Some m) (Reg_Msg_Data m msgid) g"

end
