(* ===== verification/Msgnet_Contract.thy ===== *)
theory Msgnet_Contract
  imports Msgnet
begin

text \<open>
  The contract of the message network: a table from message ids to the modules that registered, in the order they are called, and a log of the
  calls. A handler that runs alone follows it; \<open>Msgnet_Workers\<close> is about several at once.
\<close>

section \<open>The contract\<close>

definition register_after :: "module_ptr \<Rightarrow> module_ptr list \<Rightarrow> module_ptr list" where
  "register_after m ms = (case ms of [] \<Rightarrow> [m] | first # others \<Rightarrow> first # m # others)"

definition deliveries :: "(int \<Rightarrow> module_ptr list) \<Rightarrow> msg_s \<Rightarrow> net_call list" where
  "deliveries R msg =
     (if ms_id msg = MSGNET_REGISTERMODULE_MSG then []
      else if ms_id msg = MSGNET_P2P_MSG then
        (case ms_data msg of
           P2p_Msg_Data source dest msgid data \<Rightarrow> [\<lparr>nc_module = dest, nc_id = msgid, nc_source = source, nc_data = data\<rparr>]
         | _ \<Rightarrow> [])
      else map (\<lambda>m. \<lparr>nc_module = m, nc_id = ms_id msg, nc_source = ms_source msg, nc_data = ms_data msg\<rparr>) (R (ms_id msg)))"

definition registrations :: "msg_s \<Rightarrow> (int \<Rightarrow> module_ptr list) \<Rightarrow> int \<Rightarrow> module_ptr list" where
  "registrations msg R =
     (if ms_id msg = MSGNET_REGISTERMODULE_MSG
      then (case ms_data msg of Reg_Msg_Data m k \<Rightarrow> R(k := register_after m (R k)) | _ \<Rightarrow> R) else R)"

text \<open>The modules of the program: \<open>user_modules\<close> are those it created.\<close>

definition user_module :: "msgnet \<Rightarrow> module_ptr \<Rightarrow> bool" where
  "user_module g m \<longleftrightarrow> (\<exists>md h. mg_modules g m = Some md \<and> mm_callback md = User h)"

definition net_table :: "msgnet \<Rightarrow> int \<Rightarrow> module_ptr list" where
  "net_table g k = (if 2 \<le> k \<and> k < MSG_ID_ARRAY_NUM then modules_at g k else [])"

text \<open>What the program sends: ids of the table, and data of the right kind that names modules of the program.\<close>

definition net_msg_ok :: "msgnet \<Rightarrow> msg_s \<Rightarrow> bool" where
  "net_msg_ok g msg \<longleftrightarrow>
     0 \<le> ms_id msg \<and> ms_id msg < MSG_ID_ARRAY_NUM \<and>
     (ms_id msg = MSGNET_REGISTERMODULE_MSG \<longrightarrow>
        (\<exists>m k. ms_data msg = Reg_Msg_Data m k \<and> user_module g m \<and> 2 \<le> k \<and> k < MSG_ID_ARRAY_NUM)) \<and>
     (ms_id msg = MSGNET_P2P_MSG \<longrightarrow> (\<exists>source m k data. ms_data msg = P2p_Msg_Data source m k data \<and> user_module g m))"

definition net_inv :: "msgnet \<Rightarrow> bool" where
  "net_inv g \<longleftrightarrow>
     length (mg_nodes g) = 100 \<and> modules_at g 0 = [0] \<and> modules_at g 1 = [1] \<and>
     mg_modules g 0 = Some \<lparr>mm_mgr = True, mm_callback = Register_Callback\<rparr> \<and>
     mg_modules g 1 = Some \<lparr>mm_mgr = True, mm_callback = P2p_Callback\<rparr> \<and>
     (\<forall>k m. m \<in> set (net_table g k) \<longrightarrow> user_module g m) \<and> (\<forall>m. mg_modules g m \<noteq> None \<longrightarrow> m < mg_fresh g)"

section \<open>Registering\<close>

lemma node_list: "node_modules node = m # ms \<longleftrightarrow> mn_module node = Some m \<and> mn_next node = ms"
  by (auto simp: node_modules_def split: option.splits)

lemma node_empty: "node_modules node = [] \<longleftrightarrow> mn_module node = None"
  by (auto simp: node_modules_def split: option.splits)

lemma insert_node: "node_modules (inserted_node m node) = register_after m (node_modules node)"
  by (auto simp: inserted_node_def node_modules_def register_after_def split: option.splits)

text \<open>Both parts of a registration of a module of the program.\<close>

lemma user_not_own: "net_inv g \<Longrightarrow> user_module g m \<Longrightarrow> m \<noteq> 0 \<and> m \<noteq> 1"
  by (cases "m = 0"; cases "m = 1"; simp add: net_inv_def user_module_def)

lemma claim_ok:
  assumes inv: "net_inv g" and m: "user_module g m" and k: "2 \<le> k" "k < MSG_ID_ARRAY_NUM"
  shows "\<exists>g1. claim_module m k g = Inr g1 \<and> net_inv g1 \<and> mg_nodes g1 = mg_nodes g \<and> mg_log g1 = mg_log g \<and> user_module g1 = user_module g"
proof -
  obtain md h where md: "mg_modules g m = Some md" "mm_callback md = User h" using m by (auto simp: user_module_def)
  let ?g = "g\<lparr>mg_modules := (mg_modules g)(m \<mapsto> md\<lparr>mm_mgr := True\<rparr>)\<rparr>"
  have users: "user_module ?g = user_module g" using md by (auto simp: user_module_def fun_eq_iff)
  have at: "modules_at ?g = modules_at g" by (simp add: modules_at_def fun_eq_iff)
  then have table: "net_table ?g = net_table g" by (simp add: net_table_def fun_eq_iff)
  have "net_inv ?g" using inv user_not_own [OF inv m] md unfolding net_inv_def users at table by auto
  then show ?thesis using md k users by (auto simp: claim_module_def)
qed

lemma link_ok:
  assumes inv: "net_inv g" and m: "user_module g m" and k: "2 \<le> k" "k < MSG_ID_ARRAY_NUM"
  defines "g1 \<equiv> link_module m k (mg_nodes g ! nat k) g"
  shows "net_inv g1" "net_table g1 = (net_table g)(k := register_after m (net_table g k))" "mg_log g1 = mg_log g"
    "user_module g1 = user_module g" "nat j \<noteq> nat k \<Longrightarrow> mg_nodes g1 ! nat j = mg_nodes g ! nat j"
proof -
  have len: "length (mg_nodes g) = 100" using inv by (simp add: net_inv_def)
  have k100: "nat k < 100" "0 \<le> k" using k by (simp_all add: msg_ids)
  have at: "modules_at g1 j = (if nat j = nat k then register_after m (modules_at g k) else modules_at g j)" for j
    using k100 len by (simp add: modules_at_def g1_def link_module_def insert_node)
  show table: "net_table g1 = (net_table g)(k := register_after m (net_table g k))"
    using k by (auto simp: net_table_def at fun_eq_iff)
  show users: "user_module g1 = user_module g" by (simp add: g1_def link_module_def user_module_def fun_eq_iff)
  have "set (register_after m (net_table g k)) \<subseteq> insert m (set (net_table g k))" by (auto simp: register_after_def split: list.splits)
  then have "\<forall>j x. x \<in> set (net_table g1 j) \<longrightarrow> user_module g1 x"
    using inv m unfolding users table net_inv_def by (metis fun_upd_apply insertE subsetD)
  then show "net_inv g1" using inv at k by (auto simp: net_inv_def g1_def link_module_def)
  show "mg_log g1 = mg_log g" "nat j \<noteq> nat k \<Longrightarrow> mg_nodes g1 ! nat j = mg_nodes g ! nat j"
    by (simp_all add: g1_def link_module_def)
qed

section \<open>Handling one message\<close>

lemma call_user:
  assumes "user_module g m"
  shows "call_module msgid source data m g =
    Inr (g\<lparr>mg_log := mg_log g @ [\<lparr>nc_module = m, nc_id = msgid, nc_source = source, nc_data = data\<rparr>]\<rparr>)"
  using assms by (auto simp: user_module_def call_module.simps)

lemma user_module_log [simp]: "user_module (g\<lparr>mg_log := l\<rparr>) m = user_module g m"
  by (simp add: user_module_def)

lemma call_users:
  assumes "\<forall>m \<in> set ms. user_module g m"
  shows "call_modules msgid source data ms g =
    Inr (g\<lparr>mg_log := mg_log g @ map (\<lambda>m. \<lparr>nc_module = m, nc_id = msgid, nc_source = source, nc_data = data\<rparr>) ms\<rparr>)"
  using assms by (induction ms arbitrary: g) (auto simp: call_user)

lemma net_inv_log [simp]: "net_inv (g\<lparr>mg_log := l\<rparr>) = net_inv g"
  by (simp add: net_inv_def modules_at_def net_table_def)

lemma table_log [simp]: "net_table (g\<lparr>mg_log := l\<rparr>) = net_table g"
  by (simp add: net_table_def modules_at_def fun_eq_iff)

text \<open>The lists of the network's own two modules.\<close>

lemma own_nodes:
  assumes "net_inv g"
  shows "mn_module (mg_nodes g ! 0) = Some 0" "mn_next (mg_nodes g ! 0) = []" "mn_module (mg_nodes g ! Suc 0) = Some 1" "mn_next (mg_nodes g ! Suc 0) = []"
  using assms by (auto simp: net_inv_def modules_at_def node_list)

lemma handle_register:
  assumes inv: "net_inv g" and id: "ms_id msg = MSGNET_REGISTERMODULE_MSG" and ok: "net_msg_ok g msg"
  shows "\<exists>g'. msgnet_msg_handler msg g = Inr g' \<and> net_inv g' \<and> net_table g' = registrations msg (net_table g) \<and> mg_log g' = mg_log g \<and>
    (\<forall>m. user_module g' m = user_module g m)"
proof -
  obtain m k where data: "ms_data msg = Reg_Msg_Data m k" and m: "user_module g m" and k: "2 \<le> k" "k < MSG_ID_ARRAY_NUM"
    using ok id unfolding net_msg_ok_def by blast
  obtain g1 where g1: "claim_module m k g = Inr g1" "net_inv g1" "mg_nodes g1 = mg_nodes g" "mg_log g1 = mg_log g"
    "user_module g1 = user_module g" using claim_ok [OF inv m k] by blast
  define g2 where "g2 = link_module m k (mg_nodes g1 ! nat k) g1"
  note link = link_ok [OF g1(2) _ k, unfolded g1(5), OF m, folded g2_def]
  have table: "net_table g1 = net_table g" by (simp add: net_table_def modules_at_def g1(3) fun_eq_iff)
  have "msgnet_insert_module m k g = Inr g2" by (simp add: msgnet_insert_module_def g1(1) g2_def)
  moreover have "mg_modules g 0 = Some \<lparr>mm_mgr = True, mm_callback = Register_Callback\<rparr>" using inv by (simp add: net_inv_def)
  ultimately have "call_module 0 (ms_source msg) (ms_data msg) 0 g = Inr g2"
    using data k by (simp add: call_module.simps register_module_callback_def msg_ids)
  then have "msgnet_msg_handler msg g = Inr g2"
    using id own_nodes [OF inv] own_nodes [OF link(1)] by (simp add: msgnet_msg_handler_def msg_ids)
  then show ?thesis using link table g1(4) id data by (auto simp: registrations_def g1(5))
qed

lemma handle_p2p:
  assumes inv: "net_inv g" and id: "ms_id msg = MSGNET_P2P_MSG" and ok: "net_msg_ok g msg"
  shows "msgnet_msg_handler msg g = Inr (g\<lparr>mg_log := mg_log g @ deliveries R msg\<rparr>)"
proof -
  obtain source m k data where data: "ms_data msg = P2p_Msg_Data source m k data" and m: "user_module g m"
    using ok id unfolding net_msg_ok_def by blast
  have "call_module 1 (ms_source msg) (ms_data msg) 1 g = call_module k source data m g"
    using inv by (subst call_module.simps) (simp add: net_inv_def data)
  then show ?thesis using own_nodes [OF inv] id m data by (simp add: msgnet_msg_handler_def msg_ids call_user deliveries_def)
qed

lemma handle_user:
  assumes inv: "net_inv g" and id: "2 \<le> ms_id msg" and ok: "net_msg_ok g msg"
  shows "msgnet_msg_handler msg g = Inr (g\<lparr>mg_log := mg_log g @ deliveries (net_table g) msg\<rparr>)"
proof -
  have k: "ms_id msg < MSG_ID_ARRAY_NUM" using ok by (simp add: net_msg_ok_def)
  then have at: "modules_at g (ms_id msg) = net_table g (ms_id msg)" using id by (simp add: net_table_def)
  have "\<forall>m \<in> set (net_table g (ms_id msg)). user_module g m" using inv by (simp add: net_inv_def)
  moreover have "modules_at g (ms_id msg) = node_modules (mg_nodes g ! nat (ms_id msg))" by (simp add: modules_at_def)
  ultimately show ?thesis using id k
    by (cases "mn_module (mg_nodes g ! nat (ms_id msg))")
      (auto simp: msgnet_msg_handler_def at [symmetric] call_user call_users deliveries_def msg_ids node_modules_def)
qed

lemma handler_refines:
  assumes inv: "net_inv g" and ok: "net_msg_ok g msg"
  shows "\<exists>g'. msgnet_msg_handler msg g = Inr g' \<and> net_inv g' \<and> net_table g' = registrations msg (net_table g) \<and>
    mg_log g' = mg_log g @ deliveries (net_table g) msg \<and> (\<forall>m. user_module g' m = user_module g m)"
proof -
  have "0 \<le> ms_id msg" using ok by (simp add: net_msg_ok_def)
  then have "ms_id msg = 0 \<or> ms_id msg = 1 \<or> 2 \<le> ms_id msg" by linarith
  then consider "ms_id msg = MSGNET_REGISTERMODULE_MSG" | "ms_id msg = MSGNET_P2P_MSG" | "2 \<le> ms_id msg"
    unfolding msg_ids by blast
  then show ?thesis
  proof cases
    case 1
    then show ?thesis using handle_register [OF inv 1 ok] by (auto simp: deliveries_def)
  next
    case 2
    then show ?thesis using handle_p2p [OF inv 2 ok, of "net_table g"] inv by (simp add: registrations_def msg_ids)
  next
    case 3
    then show ?thesis using handle_user [OF inv 3 ok] inv by (simp add: registrations_def msg_ids)
  qed
qed

lemma net_msg_ok_cong:
  assumes "\<forall>m. user_module g' m = user_module g m"
  shows "net_msg_ok g' msg = net_msg_ok g msg"
  using assms by (simp add: net_msg_ok_def)

section \<open>A run\<close>

fun spec_run :: "msg_s list \<Rightarrow> (int \<Rightarrow> module_ptr list) \<times> net_call list \<Rightarrow> (int \<Rightarrow> module_ptr list) \<times> net_call list" where
  "spec_run [] a = a"
| "spec_run (msg # msgs) (R, calls) = spec_run msgs (registrations msg R, calls @ deliveries R msg)"

lemma net_run_spec:
  assumes "net_inv g" "\<forall>msg \<in> set msgs. net_msg_ok g msg"
  shows "\<exists>g'. net_run msgs g = Inr g' \<and> net_inv g' \<and> (net_table g', mg_log g') = spec_run msgs (net_table g, mg_log g) \<and>
    (\<forall>m. user_module g' m = user_module g m)"
  using assms
proof (induction msgs arbitrary: g)
  case (Cons msg msgs)
  obtain g1 where g1: "msgnet_msg_handler msg g = Inr g1" "net_inv g1" "net_table g1 = registrations msg (net_table g)"
    "mg_log g1 = mg_log g @ deliveries (net_table g) msg" "\<forall>m. user_module g1 m = user_module g m"
    using handler_refines [OF Cons.prems(1), of msg] Cons.prems(2) by auto
  have "\<forall>x \<in> set msgs. net_msg_ok g1 x" using Cons.prems(2) net_msg_ok_cong [OF g1(5)] by simp
  then show ?case using Cons.IH [OF g1(2)] g1(1,3,4,5) by simp
qed simp

section \<open>Creation\<close>

lemma msgnet_create_succeeds: "\<exists>g. msgnet_create = Inr g \<and> net_inv g \<and> net_table g = (\<lambda>_. []) \<and> mg_fresh g = 2 \<and> mg_log g = []"
  by (auto simp: msgnet_create_def msgmodule_create_def insert_defs Let_def msg_ids net_inv_def net_table_def modules_at_def
      node_modules_def nth_list_update fun_eq_iff)

lemma create_module_inv:
  assumes "net_inv g" "msgmodule_create (User h) g = (m, g')"
  shows "net_inv g' \<and> net_table g' = net_table g \<and> user_module g' m \<and> mg_log g' = mg_log g \<and> (\<forall>x. user_module g x \<longrightarrow> user_module g' x)"
proof -
  have g': "m = mg_fresh g" "g' = g\<lparr>mg_modules := (mg_modules g)(m \<mapsto> \<lparr>mm_mgr = False, mm_callback = User h\<rparr>), mg_fresh := mg_fresh g + 1\<rparr>"
    using assms(2) by (auto simp: msgmodule_create_def)
  have fresh: "mg_modules g m = None" using assms(1) g'(1) by (metis net_inv_def order_less_irrefl)
  then have users: "user_module g x \<longrightarrow> user_module g' x" for x by (auto simp: g'(2) user_module_def)
  have at: "modules_at g' = modules_at g" by (simp add: g'(2) modules_at_def fun_eq_iff)
  then have table: "net_table g' = net_table g" by (simp add: net_table_def fun_eq_iff)
  have "m \<noteq> 0" using assms(1) fresh by (cases "m = 0"; simp add: net_inv_def)
  moreover have "m \<noteq> 1" using assms(1) fresh by (cases "m = 1"; simp add: net_inv_def)
  moreover have "mg_modules g' x \<noteq> None \<longrightarrow> x < mg_fresh g'" for x using assms(1) g' by (auto simp: net_inv_def less_Suc_eq)
  ultimately have "net_inv g'" using assms(1) users at table by (auto simp: net_inv_def g'(2))
  then show ?thesis using users table by (simp add: g'(2) user_module_def)
qed

end
