(* ===== verification/Msgnet_Workers.thy ===== *)
theory Msgnet_Workers
  imports Msgnet_Contract
begin

text \<open>
  The handler of the message network in several workers at once. When no worker touches the node of an id while another is in a registration
  for it, the workers together do what the contract says for the messages in some order: that in which they took effect. Otherwise a
  registration can be lost.
\<close>

section \<open>Interleavings\<close>

text \<open>
  The steps: an idle worker takes a message that the program may send, the program makes a module, and a worker takes its next step, with
  \<open>orderly\<close> only when it is undisturbed.
\<close>

inductive net_step :: "bool \<Rightarrow> net_threads \<Rightarrow> net_threads \<Rightarrow> bool" for orderly where
  take_msg:
    "i < length (nt_workers s) \<Longrightarrow> nt_workers s ! i = Idle \<Longrightarrow> net_msg_ok (nt_net s) msg \<Longrightarrow>
     net_step orderly s (worker_to i (At_Head msg) (s\<lparr>nt_taken := nt_taken s @ [msg]\<rparr>))"
| create: "net_step orderly s (s\<lparr>nt_net := snd (msgmodule_create (User h) (nt_net s))\<rparr>)"
| work:
    "i < length (nt_workers s) \<Longrightarrow> nt_workers s ! i \<noteq> Idle \<Longrightarrow> (orderly \<longrightarrow> undisturbed i s) \<Longrightarrow>
     net_worker_step i s = Inr s' \<Longrightarrow> net_step orderly s s'"

definition start_workers :: "msgnet \<Rightarrow> nat \<Rightarrow> net_threads" where
  "start_workers g n = \<lparr>nt_net = g, nt_workers = replicate n Idle, nt_taken = [], nt_order = []\<rparr>"

definition net_reach :: "bool \<Rightarrow> msgnet \<Rightarrow> nat \<Rightarrow> net_threads \<Rightarrow> bool" where
  "net_reach orderly g n = (net_step orderly)\<^sup>*\<^sup>* (start_workers g n)"

section \<open>The contract for a sequence of messages\<close>

lemma spec_run_append: "spec_run (xs @ ys) a = spec_run ys (spec_run xs a)"
proof (induction xs arbitrary: a)
  case (Cons x xs)
  then show ?case by (cases a) simp
qed simp

lemma spec_run_calls: "spec_run msgs (R, calls) = (fst (spec_run msgs (R, [])), calls @ snd (spec_run msgs (R, [])))"
proof (induction msgs arbitrary: R calls)
  case (Cons m msgs)
  show ?case using Cons [of "registrations m R" "calls @ deliveries R m"] Cons [of "registrations m R" "deliveries R m"] by simp
qed simp

lemma spec_run_messages:
  assumes "\<forall>msg \<in> set msgs. ms_id msg \<noteq> MSGNET_REGISTERMODULE_MSG"
  shows "spec_run msgs (R, calls) = (R, calls @ concat (map (deliveries R) msgs))"
  using assms by (induction msgs arbitrary: calls) (simp_all add: registrations_def)

section \<open>The invariant\<close>

definition call_of :: "msg_s \<Rightarrow> module_ptr \<Rightarrow> net_call" where
  "call_of msg m = \<lparr>nc_module = m, nc_id = ms_id msg, nc_source = ms_source msg, nc_data = ms_data msg\<rparr>"

fun worker_ok :: "msgnet \<Rightarrow> net_worker \<Rightarrow> bool" where
  "worker_ok g Idle \<longleftrightarrow> True"
| "worker_ok g (At_Head msg) \<longleftrightarrow> net_msg_ok g msg"
| "worker_ok g (After_Head msg) \<longleftrightarrow> net_msg_ok g msg \<and> (2 \<le> ms_id msg \<longrightarrow> net_table g (ms_id msg) \<noteq> [])"
| "worker_ok g (At_Rest msg ms) \<longleftrightarrow> (\<forall>m \<in> set ms. user_module g m)"
| "worker_ok g (Inserting m k node after) \<longleftrightarrow>
     user_module g m \<and> 2 \<le> k \<and> k < MSG_ID_ARRAY_NUM \<and> node = mg_nodes g ! nat k \<and>
     (\<exists>msg. after = After_Head msg \<and> net_msg_ok g msg \<and> ms_id msg = MSGNET_REGISTERMODULE_MSG \<and> ms_data msg = Reg_Msg_Data m k)"

text \<open>Messages that were taken and have not taken effect; calls made before their message takes effect, and calls still to be made.\<close>

fun unordered :: "net_worker \<Rightarrow> msg_s list" where
  "unordered (At_Head msg) = [msg]"
| "unordered (After_Head msg) = (if ms_id msg = MSGNET_REGISTERMODULE_MSG then [] else [msg])"
| "unordered (Inserting m k node after) = worker_msgs after"
| "unordered _ = []"

fun early :: "msgnet \<Rightarrow> net_worker \<Rightarrow> net_call list" where
  "early g (After_Head msg) =
     (if ms_id msg = MSGNET_REGISTERMODULE_MSG then []
      else if ms_id msg = MSGNET_P2P_MSG then deliveries (net_table g) msg
      else [call_of msg (hd (net_table g (ms_id msg)))])"
| "early g _ = []"

fun late :: "net_worker \<Rightarrow> net_call list" where
  "late (At_Rest msg ms) = map (call_of msg) ms"
| "late _ = []"

definition inserting :: "net_worker \<Rightarrow> int option" where
  "inserting w = (case w of Inserting m k node after \<Rightarrow> Some k | _ \<Rightarrow> None)"

definition threads_inv :: "(int \<Rightarrow> module_ptr list) \<Rightarrow> net_call list \<Rightarrow> net_threads \<Rightarrow> bool" where
  "threads_inv R calls s \<longleftrightarrow>
     net_inv (nt_net s) \<and> (\<forall>w \<in> set (nt_workers s). worker_ok (nt_net s) w) \<and>
     (\<forall>i < length (nt_workers s). \<forall>j < length (nt_workers s). i \<noteq> j \<longrightarrow>
        inserting (nt_workers s ! i) \<noteq> None \<longrightarrow> inserting (nt_workers s ! i) \<noteq> inserting (nt_workers s ! j)) \<and>
     net_table (nt_net s) = fst (spec_run (nt_order s) (R, calls)) \<and>
     mset (mg_log (nt_net s)) + mset (concat (map late (nt_workers s))) =
       mset (snd (spec_run (nt_order s) (R, calls))) + mset (concat (map (early (nt_net s)) (nt_workers s))) \<and>
     mset (nt_taken s) = mset (nt_order s) + mset (concat (map unordered (nt_workers s)))"

lemma idle_nothing: "set ws \<subseteq> {Idle} \<Longrightarrow> f Idle = [] \<Longrightarrow> concat (map f ws) = []"
  by auto

lemma net_msg_ok_mono: "net_msg_ok g msg \<Longrightarrow> \<forall>m. user_module g m \<longrightarrow> user_module g' m \<Longrightarrow> net_msg_ok g' msg"
  by (auto simp: net_msg_ok_def)

text \<open>What a step of another worker may do to the table: it adds modules, and leaves the first module of an id and the nodes that are being written.\<close>

definition others_safe :: "msgnet \<Rightarrow> msgnet \<Rightarrow> bool" where
  "others_safe g g' \<longleftrightarrow>
     (\<forall>m. user_module g m \<longrightarrow> user_module g' m) \<and>
     (\<forall>k. net_table g k \<noteq> [] \<longrightarrow> net_table g' k \<noteq> [] \<and> hd (net_table g' k) = hd (net_table g k))"

lemma worker_ok_keep:
  assumes "worker_ok g w" "others_safe g g'" "\<forall>k. inserting w = Some k \<longrightarrow> mg_nodes g' ! nat k = mg_nodes g ! nat k"
  shows "worker_ok g' w"
  using assms by (cases w) (auto simp: others_safe_def inserting_def intro: net_msg_ok_mono)

lemma early_keep: "worker_ok g w \<Longrightarrow> others_safe g g' \<Longrightarrow> early g' w = early g w"
  by (cases w) (auto simp: others_safe_def deliveries_def net_msg_ok_def msg_ids)

text \<open>Worker \<open>i\<close> goes on; the messages \<open>new\<close> take effect.\<close>

lemma step_frame:
  assumes inv: "threads_inv R calls s" and i: "i < length (nt_workers s)"
    and ws: "nt_workers s' = (nt_workers s)[i := w']" and net: "net_inv (nt_net s')" "others_safe (nt_net s) (nt_net s')"
    and nodes: "\<And>j k. j < length (nt_workers s) \<Longrightarrow> j \<noteq> i \<Longrightarrow> inserting (nt_workers s ! j) = Some k \<Longrightarrow>
      mg_nodes (nt_net s') ! nat k = mg_nodes (nt_net s) ! nat k"
    and w': "worker_ok (nt_net s') w'"
    and clash: "\<And>j k. j < length (nt_workers s) \<Longrightarrow> j \<noteq> i \<Longrightarrow> inserting w' = Some k \<Longrightarrow> inserting (nt_workers s ! j) \<noteq> Some k"
    and order: "nt_order s' = nt_order s @ new" and table: "net_table (nt_net s') = fst (spec_run new (net_table (nt_net s), []))"
    and log: "mset (mg_log (nt_net s')) + mset (late w') + mset (early (nt_net s) (nt_workers s ! i)) =
      mset (mg_log (nt_net s)) + mset (late (nt_workers s ! i)) + mset (snd (spec_run new (net_table (nt_net s), []))) +
        mset (early (nt_net s') w')"
    and taken: "nt_taken s' = nt_taken s" "mset new + mset (unordered w') = mset (unordered (nt_workers s ! i))"
  shows "threads_inv R calls s'"
proof -
  let ?g = "nt_net s" and ?g' = "nt_net s'" and ?ws = "nt_workers s"
  have ok: "worker_ok ?g (?ws ! j)" if "j < length ?ws" for j using inv that by (auto simp: threads_inv_def)
  have "worker_ok ?g' w" if w: "w \<in> set (nt_workers s')" for w
  proof -
    obtain j where j: "j < length ?ws" "w = nt_workers s' ! j" using w ws by (auto simp: in_set_conv_nth)
    show ?thesis
    proof (cases "j = i")
      case True
      then show ?thesis using w' j ws by simp
    next
      case False
      then have "w = ?ws ! j" using j(2) ws by simp
      then show ?thesis using worker_ok_keep [OF ok [OF j(1)] net(2)] nodes [OF j(1) False] by simp
    qed
  qed
  moreover have "inserting (nt_workers s' ! a) \<noteq> inserting (nt_workers s' ! b)"
    if ab: "a < length (nt_workers s')" "b < length (nt_workers s')" "a \<noteq> b" "inserting (nt_workers s' ! a) \<noteq> None" for a b
  proof -
    have old: "inserting (?ws ! a) \<noteq> None \<longrightarrow> inserting (?ws ! a) \<noteq> inserting (?ws ! b)"
      using inv ab(1-3) ws by (simp add: threads_inv_def)
    show ?thesis using ab old clash [of b] clash [of a] i ws by (cases "a = i"; cases "b = i"; force)
  qed
  moreover have spec: "spec_run (nt_order s') (R, calls) =
      (net_table ?g', snd (spec_run (nt_order s) (R, calls)) @ snd (spec_run new (net_table ?g, [])))"
  proof -
    obtain c where c: "spec_run (nt_order s) (R, calls) = (net_table ?g, c)"
      using inv by (cases "spec_run (nt_order s) (R, calls)") (simp add: threads_inv_def)
    show ?thesis unfolding order spec_run_append c using spec_run_calls [of new "net_table ?g" c] table by simp
  qed
  moreover have "mset (mg_log ?g') + mset (concat (map late (nt_workers s'))) =
      mset (snd (spec_run (nt_order s') (R, calls))) + mset (concat (map (early ?g') (nt_workers s')))"
  proof -
    have keep: "map (early ?g) ?ws = map (early ?g') ?ws"
      by (rule nth_equalityI) (use early_keep [OF ok net(2)] in simp_all)
    have l: "mset (concat (map late (nt_workers s'))) + mset (late (?ws ! i)) = mset (concat (map late ?ws)) + mset (late w')"
      unfolding ws by (rule mset_concat_update [OF i])
    have e: "mset (concat (map (early ?g') (nt_workers s'))) + mset (early ?g (?ws ! i)) =
        mset (concat (map (early ?g) ?ws)) + mset (early ?g' w')"
      unfolding ws keep using mset_concat_update [OF i, of "early ?g'" w'] early_keep [OF ok [OF i] net(2)] by simp
    have old: "mset (mg_log ?g) + mset (concat (map late ?ws)) =
        mset (snd (spec_run (nt_order s) (R, calls))) + mset (concat (map (early ?g) ?ws))"
      using inv by (simp add: threads_inv_def)
    let ?L' = "mset (concat (map late (nt_workers s')))" and ?l = "mset (late (?ws ! i))" and ?e = "mset (early ?g (?ws ! i))"
    let ?C = "mset (snd (spec_run (nt_order s) (R, calls)))" and ?S = "mset (snd (spec_run new (net_table ?g, [])))"
    have "mset (mg_log ?g') + ?L' + (?l + ?e) = mset (mg_log ?g') + (?L' + ?l) + ?e" by (simp add: ac_simps)
    also have "\<dots> = (mset (mg_log ?g') + mset (late w') + ?e) + mset (concat (map late ?ws))" unfolding l by (simp add: ac_simps)
    also have "\<dots> = (mset (mg_log ?g) + mset (concat (map late ?ws))) + ?l + ?S + mset (early ?g' w')" unfolding log by (simp add: ac_simps)
    also have "\<dots> = (mset (concat (map (early ?g) ?ws)) + mset (early ?g' w')) + ?C + ?S + ?l" unfolding old by (simp add: ac_simps)
    also have "\<dots> = ?C + ?S + mset (concat (map (early ?g') (nt_workers s'))) + (?l + ?e)" unfolding e [symmetric] by (simp add: ac_simps)
    finally have "mset (mg_log ?g') + ?L' = ?C + ?S + mset (concat (map (early ?g') (nt_workers s')))" by simp
    then show ?thesis unfolding spec by simp
  qed
  moreover have "mset (nt_taken s') = mset (nt_order s') + mset (concat (map unordered (nt_workers s')))"
  proof -
    have u: "mset (concat (map unordered (nt_workers s'))) + mset (unordered (?ws ! i)) = mset (concat (map unordered ?ws)) + mset (unordered w')"
      unfolding ws by (rule mset_concat_update [OF i])
    have old: "mset (nt_taken s) = mset (nt_order s) + mset (concat (map unordered ?ws))" using inv by (simp add: threads_inv_def)
    have "mset (nt_taken s) + mset (unordered (?ws ! i)) =
        mset (nt_order s) + mset new + mset (concat (map unordered (nt_workers s'))) + mset (unordered (?ws ! i))"
      unfolding old using u taken(2) [symmetric] by (simp add: ac_simps)
    then show ?thesis using taken(1) order by simp
  qed
  ultimately show ?thesis unfolding threads_inv_def spec using net(1) by simp
qed

section \<open>The steps\<close>

lemma users_log [simp]: "user_module (g\<lparr>mg_log := l\<rparr>) = user_module g"
  by (simp add: fun_eq_iff)

lemma others_safe_log: "others_safe g (g\<lparr>mg_log := l\<rparr>)"
  by (simp add: others_safe_def)

lemma visit_user:
  assumes "user_module (nt_net s) m"
  shows "visit_module i msg m after s =
    Inr (worker_to i after (s\<lparr>nt_net := (nt_net s)\<lparr>mg_log := mg_log (nt_net s) @ [call_of msg m]\<rparr>\<rparr>))"
proof -
  obtain md h where "mg_modules (nt_net s) m = Some md" "mm_callback md = User h" using assms by (auto simp: user_module_def)
  then show ?thesis using call_user [OF assms] by (simp add: visit_module_def call_of_def)
qed

lemma visit_p2p:
  assumes inv: "net_inv (nt_net s)" and id: "ms_id msg = MSGNET_P2P_MSG" and ok: "net_msg_ok (nt_net s) msg"
  shows "visit_module i msg 1 after s =
    Inr (worker_to i after (s\<lparr>nt_net := (nt_net s)\<lparr>mg_log := mg_log (nt_net s) @ deliveries R msg\<rparr>\<rparr>))"
proof -
  obtain source m k data where data: "ms_data msg = P2p_Msg_Data source m k data" and m: "user_module (nt_net s) m"
    using ok id unfolding net_msg_ok_def by blast
  have own: "mg_modules (nt_net s) 1 = Some \<lparr>mm_mgr = True, mm_callback = P2p_Callback\<rparr>" using inv by (simp add: net_inv_def)
  then have "call_module 1 (ms_source msg) (ms_data msg) 1 (nt_net s) = call_module k source data m (nt_net s)"
    by (subst call_module.simps) (simp add: data)
  then show ?thesis using own id data m by (simp add: visit_module_def msg_ids call_user deliveries_def)
qed

text \<open>A worker before the first node of an id.\<close>

lemma head_inv:
  assumes inv: "threads_inv R calls s" and i: "i < length (nt_workers s)" and w: "nt_workers s ! i = At_Head msg" and quiet: "undisturbed i s"
  shows "\<exists>s'. net_worker_step i s = Inr s' \<and> threads_inv R calls s'"
proof -
  let ?g = "nt_net s"
  have g: "net_inv ?g" using inv by (simp add: threads_inv_def)
  have "worker_ok ?g (At_Head msg)" using inv i w by (metis nth_mem threads_inv_def)
  then have ok: "net_msg_ok ?g msg" by simp
  then have range: "0 \<le> ms_id msg" "ms_id msg < MSG_ID_ARRAY_NUM" by (simp_all add: net_msg_ok_def)
  then have "ms_id msg = 0 \<or> ms_id msg = 1 \<or> 2 \<le> ms_id msg" by linarith
  then consider "ms_id msg = MSGNET_REGISTERMODULE_MSG" | "ms_id msg = MSGNET_P2P_MSG" | "2 \<le> ms_id msg" unfolding msg_ids by blast
  then show ?thesis
  proof cases
    case 1
    then obtain m k where data: "ms_data msg = Reg_Msg_Data m k" and m: "user_module ?g m" and k: "2 \<le> k" "k < MSG_ID_ARRAY_NUM"
      using ok unfolding net_msg_ok_def by blast
    obtain g1 where g1: "claim_module m k ?g = Inr g1" "net_inv g1" "mg_nodes g1 = mg_nodes ?g" "mg_log g1 = mg_log ?g"
      "user_module g1 = user_module ?g" using claim_ok [OF g m k] by blast
    have table: "net_table g1 = net_table ?g" by (simp add: net_table_def modules_at_def g1(3) fun_eq_iff)
    have "mg_modules ?g 0 = Some \<lparr>mm_mgr = True, mm_callback = Register_Callback\<rparr>" using g by (simp add: net_inv_def)
    then have run: "net_worker_step i s =
        Inr (worker_to i (Inserting m k (mg_nodes g1 ! nat k) (After_Head msg)) (s\<lparr>nt_net := g1\<rparr>))"
      using 1 w range own_nodes [OF g] data k g1(1) by (simp add: net_worker_step_def visit_module_def msg_ids)
    have free: "inserting (nt_workers s ! j) \<noteq> Some k" if "j < length (nt_workers s)" "j \<noteq> i" for j
      using quiet that w 1 data by (auto simp: undisturbed_def inserting_def split: net_worker.splits)
    have "threads_inv R calls (worker_to i (Inserting m k (mg_nodes g1 ! nat k) (After_Head msg)) (s\<lparr>nt_net := g1\<rparr>))"
      by (rule step_frame [OF inv i, where new = "[]"])
        (use 1 data m k g1 table w free ok net_msg_ok_mono [OF ok, of g1] in
          \<open>auto simp: worker_to_def others_safe_def inserting_def\<close>)
    then show ?thesis using run by blast
  next
    case 2
    have run: "net_worker_step i s =
        Inr (worker_to i (After_Head msg) (s\<lparr>nt_net := ?g\<lparr>mg_log := mg_log ?g @ deliveries (net_table ?g) msg\<rparr>\<rparr>))"
      using 2 w range own_nodes [OF g] visit_p2p [OF g 2 ok] by (simp add: net_worker_step_def msg_ids)
    have "threads_inv R calls (worker_to i (After_Head msg) (s\<lparr>nt_net := ?g\<lparr>mg_log := mg_log ?g @ deliveries (net_table ?g) msg\<rparr>\<rparr>))"
      by (rule step_frame [OF inv i, where new = "[]"])
        (use 2 w g ok in \<open>auto simp: worker_to_def others_safe_log inserting_def msg_ids net_msg_ok_def\<close>)
    then show ?thesis using run by blast
  next
    case 3
    have at: "node_modules (mg_nodes ?g ! nat (ms_id msg)) = net_table ?g (ms_id msg)" using 3 range by (simp add: net_table_def modules_at_def)
    show ?thesis
    proof (cases "net_table ?g (ms_id msg)")
      case Nil
      then have "mn_module (mg_nodes ?g ! nat (ms_id msg)) = None" using at node_empty by simp
      then have run: "net_worker_step i s = Inr (worker_to i Idle (take_effect [msg] s))"
        using w range by (simp add: net_worker_step_def)
      have "threads_inv R calls (worker_to i Idle (take_effect [msg] s))"
        by (rule step_frame [OF inv i, where new = "[msg]"])
          (use 3 w g Nil in \<open>auto simp: worker_to_def take_effect_def others_safe_def inserting_def registrations_def deliveries_def msg_ids\<close>)
      then show ?thesis using run by blast
    next
      case (Cons m ms)
      then have "mn_module (mg_nodes ?g ! nat (ms_id msg)) = Some m" using at node_list by auto
      moreover have m: "user_module ?g m" using g Cons unfolding net_inv_def by (metis list.set_intros(1))
      ultimately have run: "net_worker_step i s =
          Inr (worker_to i (After_Head msg) (s\<lparr>nt_net := ?g\<lparr>mg_log := mg_log ?g @ [call_of msg m]\<rparr>\<rparr>))"
        using w range visit_user [OF m] by (simp add: net_worker_step_def)
      have "threads_inv R calls (worker_to i (After_Head msg) (s\<lparr>nt_net := ?g\<lparr>mg_log := mg_log ?g @ [call_of msg m]\<rparr>\<rparr>))"
        by (rule step_frame [OF inv i, where new = "[]"])
          (use 3 w g ok Cons in \<open>auto simp: worker_to_def others_safe_log inserting_def msg_ids net_msg_ok_def\<close>)
      then show ?thesis using run by blast
    qed
  qed
qed

text \<open>A worker after the first node: it reads where the others are.\<close>

lemma after_head_inv:
  assumes inv: "threads_inv R calls s" and i: "i < length (nt_workers s)" and w: "nt_workers s ! i = After_Head msg"
  shows "\<exists>s'. net_worker_step i s = Inr s' \<and> threads_inv R calls s'"
proof -
  let ?g = "nt_net s"
  have g: "net_inv ?g" using inv by (simp add: threads_inv_def)
  have "worker_ok ?g (After_Head msg)" using inv i w by (metis nth_mem threads_inv_def)
  then have ok: "net_msg_ok ?g msg" "2 \<le> ms_id msg \<longrightarrow> net_table ?g (ms_id msg) \<noteq> []" by simp_all
  then have range: "0 \<le> ms_id msg" "ms_id msg < MSG_ID_ARRAY_NUM" by (simp_all add: net_msg_ok_def)
  let ?s = "\<lambda>ms new. worker_to i (At_Rest msg ms) (take_effect new s)"
  have "ms_id msg = 0 \<or> ms_id msg = 1 \<or> 2 \<le> ms_id msg" using range by linarith
  then consider "ms_id msg = MSGNET_REGISTERMODULE_MSG" | "ms_id msg = MSGNET_P2P_MSG" | "2 \<le> ms_id msg" unfolding msg_ids by blast
  then show ?thesis
  proof cases
    case 1
    have run: "net_worker_step i s = Inr (?s [] [])"
      using 1 w own_nodes [OF g] by (simp add: net_worker_step_def msg_ids take_effect_def worker_to_def)
    have "threads_inv R calls (?s [] [])"
      by (rule step_frame [OF inv i, where new = "[]"]) (use 1 w g in \<open>auto simp: worker_to_def take_effect_def others_safe_def inserting_def\<close>)
    then show ?thesis using run by blast
  next
    case 2
    have run: "net_worker_step i s = Inr (?s [] [msg])" using 2 w own_nodes [OF g] by (simp add: net_worker_step_def msg_ids)
    have "threads_inv R calls (?s [] [msg])"
      by (rule step_frame [OF inv i, where new = "[msg]"])
        (use 2 w g in \<open>auto simp: worker_to_def take_effect_def others_safe_def inserting_def registrations_def msg_ids\<close>)
    then show ?thesis using run by blast
  next
    case 3
    have at: "node_modules (mg_nodes ?g ! nat (ms_id msg)) = net_table ?g (ms_id msg)" using 3 range by (simp add: net_table_def modules_at_def)
    obtain m ms where ms: "net_table ?g (ms_id msg) = m # ms" using ok(2) 3 by (cases "net_table ?g (ms_id msg)") auto
    then have "mn_next (mg_nodes ?g ! nat (ms_id msg)) = ms" using at node_list by auto
    then have run: "net_worker_step i s = Inr (?s ms [msg])" using 3 w by (simp add: net_worker_step_def msg_ids)
    have "\<forall>x \<in> set ms. user_module ?g x" using g ms unfolding net_inv_def by (metis list.set_intros(2))
    moreover have "deliveries (net_table ?g) msg = map (call_of msg) (m # ms)"
      using 3 ms by (simp add: deliveries_def msg_ids call_of_def)
    ultimately have "threads_inv R calls (?s ms [msg])"
      by (intro step_frame [OF inv i, where new = "[msg]"])
        (use 3 w g ms in \<open>auto simp: worker_to_def take_effect_def others_safe_def inserting_def registrations_def msg_ids\<close>)
    then show ?thesis using run by blast
  qed
qed

text \<open>A worker at the other nodes.\<close>

lemma rest_inv:
  assumes inv: "threads_inv R calls s" and i: "i < length (nt_workers s)" and w: "nt_workers s ! i = At_Rest msg ms"
  shows "\<exists>s'. net_worker_step i s = Inr s' \<and> threads_inv R calls s'"
proof -
  let ?g = "nt_net s"
  have g: "net_inv ?g" using inv by (simp add: threads_inv_def)
  have "worker_ok ?g (At_Rest msg ms)" using inv i w by (metis nth_mem threads_inv_def)
  then have users: "\<forall>m \<in> set ms. user_module ?g m" by simp
  show ?thesis
  proof (cases ms)
    case Nil
    have "threads_inv R calls (worker_to i Idle s)"
      by (rule step_frame [OF inv i, where new = "[]"]) (use Nil w g in \<open>auto simp: worker_to_def others_safe_def inserting_def\<close>)
    then show ?thesis using Nil w by (simp add: net_worker_step_def)
  next
    case (Cons m ms')
    let ?s = "worker_to i (At_Rest msg ms') (s\<lparr>nt_net := ?g\<lparr>mg_log := mg_log ?g @ [call_of msg m]\<rparr>\<rparr>)"
    have "net_worker_step i s = Inr ?s" using Cons w users visit_user [of s m] by (simp add: net_worker_step_def)
    moreover have "threads_inv R calls ?s"
      by (rule step_frame [OF inv i, where new = "[]"])
        (use Cons w g users in \<open>auto simp: worker_to_def others_safe_log inserting_def\<close>)
    ultimately show ?thesis by blast
  qed
qed

text \<open>A worker that writes the node of an id.\<close>

lemma insert_inv:
  assumes inv: "threads_inv R calls s" and i: "i < length (nt_workers s)" and w: "nt_workers s ! i = Inserting m k node after"
  shows "\<exists>s'. net_worker_step i s = Inr s' \<and> threads_inv R calls s'"
proof -
  let ?g = "nt_net s"
  have g: "net_inv ?g" using inv by (simp add: threads_inv_def)
  have "worker_ok ?g (Inserting m k node after)" using inv i w by (metis nth_mem threads_inv_def)
  then obtain msg where m: "user_module ?g m" and k: "2 \<le> k" "k < MSG_ID_ARRAY_NUM" and node: "node = mg_nodes ?g ! nat k"
    and msg: "after = After_Head msg" "net_msg_ok ?g msg" "ms_id msg = MSGNET_REGISTERMODULE_MSG" "ms_data msg = Reg_Msg_Data m k"
    by auto
  define g1 where "g1 = link_module m k node ?g"
  note link = link_ok [OF g m k, folded node, folded g1_def]
  let ?s = "worker_to i after (take_effect [msg] (s\<lparr>nt_net := g1\<rparr>))"
  have safe: "others_safe ?g g1" by (auto simp: others_safe_def link(2,4) register_after_def split: list.splits)
  have other: "mg_nodes g1 ! nat k' = mg_nodes ?g ! nat k'"
    if j: "j < length (nt_workers s)" "j \<noteq> i" "inserting (nt_workers s ! j) = Some k'" for j k'
  proof -
    have "inserting (nt_workers s ! j) \<noteq> None \<longrightarrow> inserting (nt_workers s ! j) \<noteq> inserting (nt_workers s ! i)"
      using inv i j(1,2) unfolding threads_inv_def by blast
    moreover have "worker_ok ?g (nt_workers s ! j)" using inv j(1) by (simp add: threads_inv_def)
    ultimately have "k' \<noteq> k" "2 \<le> k'" using j(3) w by (auto simp: inserting_def split: net_worker.splits)
    then show ?thesis using link(5) [of k'] k by simp
  qed
  have "net_worker_step i s = Inr ?s" using w msg(1) by (simp add: net_worker_step_def g1_def)
  moreover have "threads_inv R calls ?s"
    by (rule step_frame [OF inv i, where new = "[msg]"])
      (use link safe other w msg net_msg_ok_mono [OF msg(2), of g1] in
        \<open>auto simp: worker_to_def take_effect_def inserting_def registrations_def deliveries_def msg_ids\<close>)
  ultimately show ?thesis by blast
qed

lemma worker_inv:
  assumes "threads_inv R calls s" "i < length (nt_workers s)" "nt_workers s ! i \<noteq> Idle" "undisturbed i s"
  shows "\<exists>s'. net_worker_step i s = Inr s' \<and> threads_inv R calls s'"
  using assms head_inv after_head_inv rest_inv insert_inv by (cases "nt_workers s ! i") metis+

lemma net_step_inv:
  assumes step: "net_step True s s'" and inv: "threads_inv R calls s"
  shows "threads_inv R calls s'"
  using step
proof cases
  case (take_msg i msg)
  have "threads_inv R calls s" by (rule inv)
  then show ?thesis using take_msg mset_concat_update [OF take_msg(2), of late "At_Head msg"]
      mset_concat_update [OF take_msg(2), of "early (nt_net s)" "At_Head msg"] mset_concat_update [OF take_msg(2), of unordered "At_Head msg"]
    by (auto simp: threads_inv_def worker_to_def inserting_def nth_list_update dest!: set_update_subset_insert [THEN subsetD])
next
  case (create h)
  let ?g = "nt_net s"
  obtain m g' where g': "msgmodule_create (User h) ?g = (m, g')" by fastforce
  have g: "net_inv ?g" using inv by (simp add: threads_inv_def)
  have new: "net_inv g'" "net_table g' = net_table ?g" "mg_log g' = mg_log ?g" "\<forall>x. user_module ?g x \<longrightarrow> user_module g' x"
    using create_module_inv [OF g g'] by blast+
  have nodes: "mg_nodes g' = mg_nodes ?g" using g' by (auto simp: msgmodule_create_def)
  have safe: "others_safe ?g g'" using new by (simp add: others_safe_def)
  have ok: "\<forall>w \<in> set (nt_workers s). worker_ok ?g w" using inv by (simp add: threads_inv_def)
  then have "\<forall>w \<in> set (nt_workers s). worker_ok g' w" using worker_ok_keep [OF _ safe] nodes by simp
  moreover have "concat (map (early g') (nt_workers s)) = concat (map (early ?g) (nt_workers s))"
    by (rule arg_cong [where f = concat]) (use early_keep [OF _ safe] ok in simp)
  ultimately show ?thesis using inv new create g' by (simp add: threads_inv_def)
next
  case (work i)
  then show ?thesis using worker_inv [OF inv] by force
qed

lemma reach_inv:
  assumes "net_reach True g n s" "net_inv g"
  shows "threads_inv (net_table g) (mg_log g) s"
  using assms(1) unfolding net_reach_def
proof (induction rule: rtranclp_induct)
  case base
  have "concat (map f (replicate n Idle)) = []" if "f Idle = []" for f :: "net_worker \<Rightarrow> 'a list"
    using that by (induction n) auto
  then show ?case using assms(2) by (simp add: threads_inv_def start_workers_def inserting_def)
next
  case (step s s')
  then show ?case using net_step_inv by blast
qed

lemma reach_workers:
  assumes "net_reach orderly g n s"
  shows "length (nt_workers s) = n"
  using assms unfolding net_reach_def
proof (induction rule: rtranclp_induct)
  case base
  then show ?case by (simp add: start_workers_def)
next
  case (step s s')
  have visit: "length (nt_workers t') = length (nt_workers t)" if "visit_module i msg m after t = Inr t'" for i msg m after t t'
    using that by (auto simp: visit_module_def worker_to_def split: option.splits if_splits msg_data.splits elim!: and_then.elims)
  have "length (nt_workers s') = length (nt_workers s)" using step(2)
  proof cases
    case (work i)
    then show ?thesis using visit
      by (auto simp: net_worker_step_def worker_to_def take_effect_def split: net_worker.splits if_splits option.splits list.splits)
  qed (simp_all add: worker_to_def)
  then show ?case using step(3) by simp
qed

text \<open>Some worker that is not idle can always go on.\<close>

lemma undisturbed_iff:
  "undisturbed i s \<longleftrightarrow>
     (\<forall>j < length (nt_workers s). j \<noteq> i \<longrightarrow> (\<forall>k. inserting (nt_workers s ! j) = Some k \<longrightarrow> k \<notin> touched (nt_workers s ! i)))"
proof -
  have "(case w of Inserting m k node after \<Rightarrow> k \<notin> K | _ \<Rightarrow> True) \<longleftrightarrow> (\<forall>k. inserting w = Some k \<longrightarrow> k \<notin> K)" for w K
    by (cases w) (simp_all add: inserting_def)
  then show ?thesis by (simp add: undisturbed_def)
qed

lemma undisturbed_worker:
  assumes inv: "threads_inv R calls s" and busy: "i < length (nt_workers s)" "nt_workers s ! i \<noteq> Idle"
  shows "\<exists>j < length (nt_workers s). nt_workers s ! j \<noteq> Idle \<and> undisturbed j s"
proof (cases "\<exists>j < length (nt_workers s). inserting (nt_workers s ! j) \<noteq> None")
  case True
  then obtain j where len: "j < length (nt_workers s)" and ins: "inserting (nt_workers s ! j) \<noteq> None" by blast
  obtain m k node after where "nt_workers s ! j = Inserting m k node after"
    using ins by (cases "nt_workers s ! j") (simp_all add: inserting_def)
  note j = len this
  have "inserting (nt_workers s ! i') \<noteq> Some k" if "i' < length (nt_workers s)" "i' \<noteq> j" for i'
  proof -
    have "inserting (nt_workers s ! j) \<noteq> None \<longrightarrow> inserting (nt_workers s ! j) \<noteq> inserting (nt_workers s ! i')"
      using inv j(1) that unfolding threads_inv_def by blast
    then show ?thesis using j(2) by (auto simp: inserting_def)
  qed
  then have "undisturbed j s" using j(2) unfolding undisturbed_iff by fastforce
  then show ?thesis using j by auto
next
  case False
  then have "undisturbed i s" unfolding undisturbed_iff by auto
  then show ?thesis using busy by blast
qed

section \<open>Schedules\<close>

text \<open>A schedule of the workers, to evaluate runs; each of its actions is a step.\<close>

datatype net_action = Take_Msg nat msg_s | Step_Worker nat

fun net_act :: "bool \<Rightarrow> net_action \<Rightarrow> net_threads \<Rightarrow> net_threads option" where
  "net_act orderly (Take_Msg i msg) s =
     (if i < length (nt_workers s) \<and> nt_workers s ! i = Idle \<and> net_msg_ok (nt_net s) msg
      then Some (worker_to i (At_Head msg) (s\<lparr>nt_taken := nt_taken s @ [msg]\<rparr>)) else None)"
| "net_act orderly (Step_Worker i) s =
     (if i < length (nt_workers s) \<and> nt_workers s ! i \<noteq> Idle \<and> (orderly \<longrightarrow> undisturbed i s)
      then (case net_worker_step i s of Inl e \<Rightarrow> None | Inr s' \<Rightarrow> Some s') else None)"

fun net_schedule :: "bool \<Rightarrow> net_action list \<Rightarrow> net_threads \<Rightarrow> net_threads option" where
  "net_schedule orderly [] s = Some s"
| "net_schedule orderly (a # as) s = Option.bind (net_act orderly a s) (net_schedule orderly as)"

lemma net_act_step: "net_act orderly a s = Some s' \<Longrightarrow> net_step orderly s s'"
  by (cases a) (auto intro: net_step.intros split: if_splits sum.splits)

lemma net_schedule_reach:
  assumes "net_schedule orderly as (start_workers g n) = Some s"
  shows "net_reach orderly g n s"
proof -
  have "(net_step orderly)\<^sup>*\<^sup>* s0 s" if "net_schedule orderly as s0 = Some s" for s0
    using that by (induction as arbitrary: s0) (auto split: Option.bind_splits intro: converse_rtranclp_into_rtranclp net_act_step)
  then show ?thesis using assms by (simp add: net_reach_def)
qed

lemmas net_schedule_simps = start_workers_def net_worker_step_def visit_module_def claim_module_def link_module_def inserted_node_def
  worker_to_def take_effect_def undisturbed_def call_module.simps msg_ids net_msg_ok_def user_module_def All_less_Suc numeral_2_eq_2
  numeral_3_eq_3

end
