(* ===== verification/Msgnet_Props.thy ===== *)
theory Msgnet_Props
  imports Msgnet_Workers
begin

text \<open>
  The properties of the message network: its workers together follow the contract, and on the thread pool every message that was
  pushed is delivered whatever the order the workers take. Runs that evaluate, and what goes wrong.
\<close>

section \<open>Several workers\<close>

text \<open>
  C23. The message network refines its contract with any number of workers that run the handler at once, for messages that the program may send
  (ids of the table, data of the right kind that names modules of the program). In every state the table of modules is that of the
  contract for the messages that took effect, in their order: a registration puts the module second in the list of its id. When no worker is busy these are
  the messages that were taken, and the calls made are those of the contract: a broadcast calls the list of its id, a message to one
  module calls it. No step fails. This holds for the interleavings in which no worker touches the node of an id while another is between reading and writing it
  in a registration; the code has no lock that excludes the others (\<open>registration_lost\<close>).
\<close>

theorem net_refines_contract:
  assumes "net_inv g" "net_reach True g n s"
  shows "net_table (nt_net s) = fst (spec_run (nt_order s) (net_table g, mg_log g)) \<and>
    (set (nt_workers s) \<subseteq> {Idle} \<longrightarrow>
      mset (nt_order s) = mset (nt_taken s) \<and> mset (mg_log (nt_net s)) = mset (snd (spec_run (nt_order s) (net_table g, mg_log g)))) \<and>
    (\<forall>i < n. nt_workers s ! i \<noteq> Idle \<and> undisturbed i s \<longrightarrow> (\<exists>s'. net_worker_step i s = Inr s'))"
proof -
  have inv: "threads_inv (net_table g) (mg_log g) s" by (rule reach_inv [OF assms(2,1)])
  have "\<exists>s'. net_worker_step i s = Inr s'" if "i < n" "nt_workers s ! i \<noteq> Idle" "undisturbed i s" for i
    using worker_inv [OF inv, of i] that reach_workers [OF assms(2)] by blast
  moreover have "mset (nt_order s) = mset (nt_taken s) \<and> mset (mg_log (nt_net s)) = mset (snd (spec_run (nt_order s) (net_table g, mg_log g)))"
    if "set (nt_workers s) \<subseteq> {Idle}"
    using inv idle_nothing [OF that, of late] idle_nothing [OF that, of "early (nt_net s)"] idle_nothing [OF that, of unordered] by (simp add: threads_inv_def)
  ultimately show ?thesis using inv by (auto simp: threads_inv_def)
qed

section \<open>The network on the thread pool\<close>

lemma mset_concat_map_cong:
  assumes "mset xs = mset ys"
  shows "mset (concat (map f xs)) = mset (concat (map f ys))"
proof -
  have "mset (concat (map f zs)) = \<Sum>\<^sub># (image_mset (mset \<circ> f) (mset zs))" for zs
    by (induction zs) simp_all
  then show ?thesis using assms by simp
qed

text \<open>
  C22. Messages on the thread pool: when the pool has nothing left and the workers have handled what they took, the modules were called for exactly the
  messages that were pushed, each module of an id once for each message, whatever order the workers took and however their handlers
  overlapped. This is for runs in which nobody pushes while a worker is between taking a message off the stack and reading its slot (otherwise
  \<open>message_overwritten\<close>), and for messages that are no registrations, so that handlers only read the table.
\<close>

theorem pool_delivers_messages:
  assumes "stack_lib_ok lib stk" "stk st = []" "threads_reach lib spurious True st n s" "stk (msg_list s) = []" "all_in_flight s = []"
    and "net_inv g" "net_reach True g k t" "mset (nt_taken t) = mset (map snd (handled s))" "set (nt_workers t) \<subseteq> {Idle}"
    and "\<forall>msg \<in> set (pushed s). ms_id msg \<noteq> MSGNET_REGISTERMODULE_MSG"
  shows "mset (mg_log (nt_net t)) = mset (mg_log g) + mset (concat (map (deliveries (net_table g)) (pushed s)))"
proof -
  have inv: "threads_inv (net_table g) (mg_log g) t" by (rule reach_inv [OF assms(7,6)])
  have "mset (nt_order t) = mset (pushed s)"
    using inv idle_nothing [OF assms(9), of unordered] drained_handled [OF assms(1-5)] assms(8) by (simp add: threads_inv_def)
  moreover from this have "\<forall>msg \<in> set (nt_order t). ms_id msg \<noteq> MSGNET_REGISTERMODULE_MSG" using assms(10) by (metis set_mset_mset)
  ultimately show ?thesis
    using inv idle_nothing [OF assms(9), of late] idle_nothing [OF assms(9), of "early (nt_net t)"] spec_run_messages mset_concat_map_cong [of "nt_order t" "pushed s" "deliveries (net_table g)"]
    by (simp add: threads_inv_def)
qed

section \<open>Messages that fail\<close>

text \<open>A module that was never registered has no network: a message to it reads a pointer that was never set.\<close>

lemma sendto_unregistered:
  assumes "msgmodule_create (User h) g = (m, g')"
  shows "msgnet_sendto msgid source m data g' = Inl Unset_Mgr"
  using assms by (auto simp: msgmodule_create_def msgnet_sendto_def mgr_of_def)

text \<open>Neither the id of a broadcast nor that of a registration is tested when it is sent.\<close>

lemma broadcast_outside_table:
  "msgnet_broadcast True MSG_ID_ARRAY_NUM source data g = Inr msg \<Longrightarrow> msgnet_msg_handler msg g = Inl Outside_Table"
  by (auto simp: msgnet_broadcast_def msgnet_msg_handler_def)

section \<open>Runs\<close>

text \<open>A network with modules 2 and 3 of the program. They register for id 5; then come a broadcast and a message to module 3.\<close>

definition sample_net :: msgnet where
  "sample_net =
     \<lparr>mg_nodes = (replicate 100 \<lparr>mn_module = None, mn_next = []\<rparr>)[0 := \<lparr>mn_module = Some 0, mn_next = []\<rparr>, 1 := \<lparr>mn_module = Some 1, mn_next = []\<rparr>],
      mg_modules = [0 \<mapsto> \<lparr>mm_mgr = True, mm_callback = Register_Callback\<rparr>, 1 \<mapsto> \<lparr>mm_mgr = True, mm_callback = P2p_Callback\<rparr>,
        2 \<mapsto> \<lparr>mm_mgr = False, mm_callback = User 7\<rparr>, 3 \<mapsto> \<lparr>mm_mgr = False, mm_callback = User 8\<rparr>],
      mg_fresh = 4, mg_log = []\<rparr>"

lemma sample_net_made:
  "map_sum id (\<lambda>g. snd (msgmodule_create (User 8) (snd (msgmodule_create (User 7) g)))) msgnet_create = Inr sample_net"
  by (simp add: msgnet_create_def msgmodule_create_def insert_defs Let_def msg_ids sample_net_def numeral_2_eq_2 numeral_3_eq_3)

lemma sample_net_ok: "net_inv sample_net" "net_table sample_net = (\<lambda>_. [])" "mg_log sample_net = []" "user_module sample_net 2" "user_module sample_net 3"
proof -
  obtain g where g: "msgnet_create = Inr g" "net_inv g" "net_table g = (\<lambda>_. [])" "mg_log g = []" using msgnet_create_succeeds by blast
  obtain m1 g1 where g1: "msgmodule_create (User 7) g = (m1, g1)" by fastforce
  obtain m2 g2 where g2: "msgmodule_create (User 8) g1 = (m2, g2)" by fastforce
  have "g2 = sample_net" using sample_net_made unfolding g(1) by (simp add: g1 g2)
  then show "net_inv sample_net" "net_table sample_net = (\<lambda>_. [])" "mg_log sample_net = []"
    using create_module_inv [OF g(2) g1] create_module_inv [OF _ g2] g(3,4) by auto
qed (simp_all add: sample_net_def user_module_def)

definition sample_register :: "module_ptr \<Rightarrow> msg_s" where
  "sample_register m = \<lparr>ms_id = 0, ms_data = Reg_Msg_Data m 5, ms_source = Some m\<rparr>"

definition sample_broadcast :: msg_s where "sample_broadcast = \<lparr>ms_id = 5, ms_data = User_Data 1, ms_source = Some 2\<rparr>"

definition sample_p2p :: msg_s where
  "sample_p2p = \<lparr>ms_id = 1, ms_data = P2p_Msg_Data (Some 2) 3 9 (User_Data 4), ms_source = Some 2\<rparr>"

lemma sample_sent:
  "msgnet_send_register True m 5 g = Inr (sample_register m)" "msgnet_broadcast True 5 (Some 2) (User_Data 1) g = Inr sample_broadcast"
  "mgr_of (Some 3) g = Inr () \<Longrightarrow> msgnet_sendto 9 (Some 2) 3 (User_Data 4) g = Inr sample_p2p"
  by (simp_all add: msgnet_send_register_def msgnet_broadcast_def msgnet_sendto_def msg_ids sample_register_def sample_broadcast_def sample_p2p_def)

lemma sample_msgs_ok:
  "net_msg_ok sample_net (sample_register 2)" "net_msg_ok sample_net (sample_register 3)" "net_msg_ok sample_net sample_broadcast"
  "net_msg_ok sample_net sample_p2p"
  using sample_net_ok(4,5) by (simp_all add: net_msg_ok_def msg_ids sample_register_def sample_broadcast_def sample_p2p_def)

definition sample_calls :: "net_call list" where
  "sample_calls = [\<lparr>nc_module = 2, nc_id = 5, nc_source = Some 2, nc_data = User_Data 1\<rparr>,
     \<lparr>nc_module = 3, nc_id = 5, nc_source = Some 2, nc_data = User_Data 1\<rparr>,
     \<lparr>nc_module = 3, nc_id = 9, nc_source = Some 2, nc_data = User_Data 4\<rparr>]"

text \<open>Two workers: module 2 registers with the first while the second broadcasts; then a message to module 3.\<close>

definition sample_schedule :: "net_action list" where
  "sample_schedule =
     [Take_Msg 0 (sample_register 2), Step_Worker 0, Step_Worker 0, Take_Msg 1 sample_broadcast, Step_Worker 1, Step_Worker 0, Step_Worker 1,
      Step_Worker 0, Take_Msg 0 sample_p2p, Step_Worker 0, Step_Worker 1, Step_Worker 0, Step_Worker 0]"

lemma sample_schedule_run:
  "\<exists>s. net_schedule True sample_schedule (start_workers sample_net 2) = Some s \<and> nt_workers s = [Idle, Idle] \<and>
     nt_order s = [sample_register 2, sample_broadcast, sample_p2p] \<and> nt_taken s = [sample_register 2, sample_broadcast, sample_p2p] \<and>
     net_table (nt_net s) 5 = [2]"
  by (simp add: sample_schedule_def sample_net_def sample_register_def sample_broadcast_def sample_p2p_def net_schedule_simps
      net_table_def modules_at_def node_modules_def)

theorem net_refines_contract_witness:
  "\<exists>s. net_reach True sample_net 2 s \<and> nt_taken s = [sample_register 2, sample_broadcast, sample_p2p] \<and>
     mset (mg_log (nt_net s)) = mset (snd (spec_run [sample_register 2, sample_broadcast, sample_p2p] ((\<lambda>_. []), [])))"
proof -
  obtain s where s: "net_schedule True sample_schedule (start_workers sample_net 2) = Some s" "nt_workers s = [Idle, Idle]"
    "nt_order s = [sample_register 2, sample_broadcast, sample_p2p]" "nt_taken s = [sample_register 2, sample_broadcast, sample_p2p]"
    using sample_schedule_run by blast
  note reach = net_schedule_reach [OF s(1)]
  show ?thesis using net_refines_contract [OF sample_net_ok(1) reach] reach s(2-4) sample_net_ok(2,3) by auto
qed

text \<open>One worker handles a message that was sent to module 3.\<close>

lemma sample_p2p_run:
  "\<exists>t. net_schedule True [Take_Msg 0 sample_p2p, Step_Worker 0, Step_Worker 0, Step_Worker 0] (start_workers sample_net 1) = Some t \<and>
     nt_workers t = [Idle] \<and> nt_taken t = [sample_p2p]"
  by (simp add: sample_net_def sample_p2p_def net_schedule_simps)

theorem pool_delivers_messages_witness:
  "\<exists>t. net_reach True sample_net 1 t \<and> nt_taken t = [sample_p2p] \<and>
    mset (mg_log (nt_net t)) =
      mset (mg_log sample_net) + mset (concat (map (deliveries (net_table sample_net)) (pushed (pool_done sample_broadcast sample_p2p))))"
proof -
  obtain t where t: "net_schedule True [Take_Msg 0 sample_p2p, Step_Worker 0, Step_Worker 0, Step_Worker 0] (start_workers sample_net 1) = Some t"
    "nt_workers t = [Idle]" "nt_taken t = [sample_p2p]" using sample_p2p_run by blast
  note reach = net_schedule_reach [OF t(1)]
  show ?thesis
    using pool_delivers_messages [OF array_stack_ok _ pool_schedule_reach [OF pool_done_run [of sample_p2p sample_broadcast]] _ _ sample_net_ok(1) reach]
      reach t(2,3) by (auto simp: pool_done_fields sample_p2p_def msg_ids)
qed

text \<open>
  Two registrations for the same id at once: both workers find the node empty, and the second write replaces the first. Module 2 has
  registered and is in no list.
\<close>

lemma registration_lost:
  "\<exists>s. net_reach False sample_net 2 s \<and> nt_taken s = [sample_register 2, sample_register 3] \<and> nt_workers s = [Idle, Idle] \<and>
     net_table (nt_net s) 5 = [3]"
proof -
  have "\<exists>s. net_schedule False [Take_Msg 0 (sample_register 2), Take_Msg 1 (sample_register 3), Step_Worker 0, Step_Worker 1,
      Step_Worker 0, Step_Worker 1, Step_Worker 0, Step_Worker 1, Step_Worker 0, Step_Worker 1] (start_workers sample_net 2) = Some s \<and>
      nt_taken s = [sample_register 2, sample_register 3] \<and> nt_workers s = [Idle, Idle] \<and> net_table (nt_net s) 5 = [3]"
    by (simp add: sample_net_def sample_register_def net_schedule_simps net_table_def modules_at_def node_modules_def)
  then show ?thesis using net_schedule_reach by blast
qed

text \<open>
  The stack gives the newest message first: a broadcast that is sent after a registration may be handled before it, and the module that registered
  does not get it.
\<close>

lemma registration_overtaken:
  "\<exists>s. threads_reach array_stack False True ([], [slot, slot]) 1 s \<and> pushed s = [sample_register 2, sample_broadcast] \<and>
     fst (msg_list s) = [] \<and> all_in_flight s = [] \<and> (\<exists>g'. net_run (map snd (handled s)) sample_net = Inr g' \<and> mg_log g' = [])"
proof -
  let ?r = "sample_register 2" and ?b = sample_broadcast
  let ?s = "\<lparr>is_run = True, msg_list = ([], [?r, ?b]), msg_lock = None, work_thread_state = [True], thread_index = 1,
    places = [In_Callback], own_index = [0], pushers = 0, signallers = 2, stopper = Not_Stopping, pushed = [?r, ?b],
    handled = [(?b, ?b), (?r, ?r)]\<rparr>"
  have "pool_schedule array_stack True
      [Test_Running, Test_Running, Push ?r, Push ?b, Work 0, Work 0, Work 0, Work 0, Work 0, Work 0, Work 0, Work 0, Work 0, Work 0, Work 0, Work 0]
      (thread_pool_start (thread_pool_new ([], [slot, slot]) 1)) = Some ?s"
    by (simp add: schedule_simps)
  then have reach: "threads_reach array_stack False True ([], [slot, slot]) 1 ?s" by (rule pool_schedule_reach)
  have "spec_run [?b, ?r] ((\<lambda>_. []), []) = ((\<lambda>_. [])(5 := [2]), [])"
    by (simp add: registrations_def register_after_def deliveries_def msg_ids sample_register_def sample_broadcast_def)
  then have "\<exists>g'. net_run [?b, ?r] sample_net = Inr g' \<and> mg_log g' = []"
    using net_run_spec [OF sample_net_ok(1), of "[?b, ?r]"] sample_msgs_ok(1,3) sample_net_ok(2,3) by auto
  then show ?thesis using reach by (intro exI [of _ ?s]) (simp add: all_in_flight_def in_flight_def)
qed

end
