(* ===== verification/Spec2Isabelle.thy ===== *)
theory Spec2Isabelle
  imports Ox_Buffer Http_Url_Roundtrip Http_Header_Props Http_Body_Props Http_Parser_Props
    Http_Format Ox_Array Ox_FdSet Msg_Queue Rw_List Packet_Props Ws_Frame Base64 Data_Socket_Stream Data_Socket_Recv Tcp_Session_Props Http_Server_Props Connector_Props Multi_Pool_Props Json_Text Timeaction_Props Wrap_Props Listen_Thread Msgnet_Props
begin

text \<open>
  netxy is a network library in C and C++: an event loop with TCP services, an HTTP and WebSocket server, remote procedure
  calls, and utilities in C (buffers, queues, pools, timers). A connection (\<^verbatim>\<open>net/DataSocket.cpp\<close>) belongs to one event loop
  (\<^verbatim>\<open>net/EventLoop.cpp\<close>); a service (\<^verbatim>\<open>net/TCPService.cpp\<close>) runs several loops and names connections by session ids; the HTTP
  server (\<^verbatim>\<open>net/http\<close>) is the data callback of a connection and feeds its parser. Threads hand function objects to a loop, which
  runs them in its own thread. All paths below are under \<^verbatim>\<open>src/src\<close>.

  Conventions. A structure or class is a record with the names of its fields, a function is one definition with its name.
  \<open>None\<close> (\<open>Fault\<close> in the HTTP parser) is a failed assertion, an access outside a block, a null pointer or a dangling pointer used, an
  overflow of a signed integer or a loop that never ends; results and error codes of the code are values. Unsigned
  integers of the code are words or naturals with their wrap-around written out. What is not in the repository is a parameter:
  \<^verbatim>\<open>malloc\<close> (which may fail), the kernel, the TLS library, user callbacks, libox (stack, heap), the MessagePack, JSON and protobuf libraries.

  Common ground
  \<^item> \<open>Prelude\<close>, \<open>Bytes\<close>: integer types, blocks of memory, integers as bytes, shared collections of rewrite rules.
  \<^item> \<open>Interfaces\<close>: contracts as locales: \<open>byte_fifo\<close>, \<open>trap_automaton\<close>, \<open>element_store\<close>, \<open>registry\<close>, \<open>handoff\<close>, \<open>byte_sink\<close>, \<open>id_pool\<close>. The contract of
    the parser's callbacks (\<open>parser_client\<close>) and those of the RPC protocols (\<open>rpc_reader\<close>, \<open>rpc_codec\<close>) stand with their components. Each is
    interpreted on the definitions of the model.

  Event loop and connections
  \<^item> \<open>Event_Loop\<close> (\<^verbatim>\<open>net/EventLoop.cpp\<close>, Linux): \<open>loop_state\<close> holds the queues and flags; \<open>loop_step\<close> interleaves the loop thread with any number
    of producers, one step per access to shared state. No wake-up is lost, function objects run once and in order.
  \<^item> \<open>Data_Socket\<close> (\<^verbatim>\<open>net/DataSocket.cpp\<close>, Linux): every handler of a connection. \<open>Data_Socket_Calls\<close>: what a callback may call
    on its connection; \<open>Data_Socket_Stream\<close>: the bytes sent; \<open>Data_Socket_Recv\<close>: the bytes
    received; \<open>Data_Socket_Close\<close>: the disconnect callback is the last thing a connection does.
  \<^item> \<open>Type_Ids\<close> (\<^verbatim>\<open>utils/Typeids.h\<close>), \<open>Tcp_Service\<close> (\<^verbatim>\<open>net/TCPService.cpp\<close>): ids, loops, the function objects of one thread for another.
    \<open>Tcp_Sessions\<close>, \<open>Tcp_Session_Props\<close>: over all steps of all threads, while the tables have room (fewer than
    65500 ids in use in a loop), the lookup of an id is that of an abstract map, and the only step that fails is adding a connection that cannot be added.
  \<^item> \<open>Connector\<close>, \<open>Connector_Props\<close> (\<^verbatim>\<open>net/Connector.cpp\<close>): each request to connect is reported exactly once.
  \<^item> \<open>Timer_Mgr\<close> (\<^verbatim>\<open>timer\<close>): timers with the lifetime of their shared pointers; due timers run in order.
  \<^item> \<open>Listen_Thread\<close>: the accepting thread of \<^verbatim>\<open>net/TCPService.cpp\<close> beside the thread that closes it.
  \<^item> \<open>Wrap_Service\<close>, \<open>Wrap_Sessions\<close>, \<open>Wrap_Props\<close> (\<^verbatim>\<open>net/WrapTCPService.cpp\<close>, \<^verbatim>\<open>NetSession.cpp\<close>, the set-up in \<^verbatim>\<open>http/HttpServer.cpp\<close>): \<open>server_world\<close> puts the
    TCP service, the session objects and the handlers of \<open>Http_Server\<close> together; each session runs its own handler over its own blocks.

  HTTP and WebSocket
  \<^item> \<open>Http_Types\<close>: data, tables and character classes of \<^verbatim>\<open>net/http/http_parser.h\<close> and \<^verbatim>\<open>http_parser.c\<close>, with the widths of the bit fields.
  \<^item> \<open>Http_Url\<close>, \<open>Http_Url_Props\<close>, \<open>Http_Url_Roundtrip\<close>: \<^verbatim>\<open>parse_url_char\<close>, \<^verbatim>\<open>http_parse_host\<close>, \<^verbatim>\<open>http_parser_parse_url\<close>; bounds of the
    fields, the port, and that parsing undoes building a URL.
  \<^item> \<open>Http_Exec_Base\<close>, \<open>Http_Exec_Line\<close>, \<open>Http_Exec_Header\<close>, \<open>Http_Exec_Body\<close>, \<open>Http_Execute\<close>: \<^verbatim>\<open>http_parser_execute\<close>, one definition per
    case of its switch. The locals are a record; the macros that leave the function take the rest of the case as a continuation.
  \<^item> \<open>Http_Client\<close>: the contract of the callbacks and the invariants; \<open>Http_Safety\<close>: every case keeps them; \<open>Http_Method\<close>,
    \<open>Http_Header_Props\<close>, \<open>Http_Body_Props\<close>: methods, header values, lengths and bodies against reference definitions;
    \<open>Http_Parser_Props\<close>: the parser over any sequence of calls.
  \<^item> \<open>Http_Class\<close>, \<open>Http_Complete\<close> (\<^verbatim>\<open>net/http/HttpParser.cpp\<close>): the callbacks of the class, which interpret \<open>parser_client\<close>, and
    \<^verbatim>\<open>checkCompleted\<close>, \<^verbatim>\<open>tryParse\<close>; \<open>Http_Format\<close> (\<^verbatim>\<open>HttpFormat.h\<close>): the builders. The order in which the header map is iterated is a parameter.
  \<^item> \<open>Ws_Frame\<close> (\<^verbatim>\<open>WebSocketFormat.h\<close>), \<open>Http_Server\<close>, \<open>Http_Server_Props\<close> (\<^verbatim>\<open>HttpServer.cpp\<close>): frames, handshake and the data callback; messages
    survive any cutting of the stream. The handshake runs the models of SHA-1 and Base64.

  Remote procedure calls
  \<^item> \<open>Rpc_Values\<close>, \<open>Rpc_Service\<close> (\<^verbatim>\<open>rpc/RpcCommon.h\<close>, \<^verbatim>\<open>RpcService.h\<close>, \<^verbatim>\<open>MembeRrpc.h\<close>): typed values, function tables with ownership of the function
    objects, the service over a record of protocol operations. \<open>Rpc_Contract\<close>: what holds for every protocol with the laws of \<open>rpc_codec\<close>.
  \<^item> \<open>Msgpack_Rpc\<close>, \<open>Msgpack_Props\<close> (\<^verbatim>\<open>MsgpackRpc.h\<close>), \<open>Json_Rpc\<close>, \<open>Json_Props\<close>, \<open>Json_Text\<close> (\<^verbatim>\<open>JsonRpc.h\<close>): the two protocols keep the contract under
    the documented laws of their libraries (\<open>msgpack_laws\<close>, \<open>json_laws\<close>), each of which a concrete library is shown to satisfy.

  Utilities
  \<^item> \<open>Ox_Buffer\<close>, \<open>Ox_Array\<close>, \<open>Ox_FdSet\<close>, \<open>Rw_List\<close>, \<open>Msg_Queue\<close>: \<^verbatim>\<open>buffer.c\<close>, \<^verbatim>\<open>array.c\<close>, \<^verbatim>\<open>fdset.c\<close>, \<^verbatim>\<open>rwlist.c\<close>, \<^verbatim>\<open>MsgQueue.h\<close>, each a refinement of a byte stream,
    a list, a registry of descriptors, or a queue between two threads.
  \<^item> \<open>Type_Pool\<close>, \<open>Type_Pool_Inv\<close>, \<open>Type_Pool_Props\<close>, \<open>Multi_Pool\<close>, \<open>Multi_Pool_Props\<close>: \<^verbatim>\<open>typepool.c\<close> and \<^verbatim>\<open>multipool.c\<close> over byte memory; what a holder
    stored stays, and everything allocated is freed.
  \<^item> \<open>Timeaction\<close>, \<open>Timeaction_Inv\<close>, \<open>Timeaction_Props\<close>: \<^verbatim>\<open>timeaction.c\<close> as a finite map from numbers to timers.
  \<^item> \<open>Thread_Pool\<close>, \<open>Thread_Pool_Inv\<close>, \<open>Thread_Pool_Props\<close> (\<^verbatim>\<open>threadpool.c\<close>): workers, pushes and the stopping thread as interleaved steps over
    the stack of libox; no message is lost unless a slot is overwritten. \<open>Msgnet\<close>, \<open>Msgnet_Contract\<close>, \<open>Msgnet_Workers\<close>, \<open>Msgnet_Props\<close> (\<^verbatim>\<open>msgnet.c\<close>): modules, ids and
    messages; several workers run the handler in interleaved steps, and follow the contract unless two registrations of an id overlap.
  \<^item> \<open>Packet\<close>, \<open>Packet_Props\<close>, \<open>Base64\<close>: \<^verbatim>\<open>packet.h\<close> and \<^verbatim>\<open>base64.cpp\<close>, round trips and bounds.
  \<^item> \<open>Sha1\<close>, \<open>Sha1_Block\<close>, \<open>Sha1_Stream\<close>: \<^verbatim>\<open>SHA1.cpp\<close> against the standard. \<open>raw\<close> is the uninitialised object.

  Loops and fuel. The only fuel is that of \<^verbatim>\<open>goto reexecute\<close> on one byte in the HTTP parser: a callback could set \<^verbatim>\<open>parser->state\<close> and
  keep it going; for callbacks that respect the contract a rank on states shows that five passes are enough, and eight are
  given. Loops that end on their own are structural or have a measure. Loops whose end depends on a library, the kernel or a
  callback are partial functions, and that they end is proved: \<open>schedule\<close> of the timers, \<open>quickFlush\<close> and
  \<open>normalFlush\<close>, \<open>recv\<close>, \<open>transform_loop\<close> and \<open>pad_zeros\<close> of SHA-1, \<open>move_all\<close> of the list, \<open>delete_chain\<close> and \<open>scan_nodes\<close> of the pool, \<open>move_ids\<close> and \<open>ox_timer_mgr_schedule\<close> of the
  timer manager.

  Not modelled: the Windows branches; the creation of a connection's TLS objects, which only calls the
  TLS library; socket wrappers, system helpers and files, which are system calls; printing of SHA-1;
  the templates over protocol buffer objects, whose library is not in the repository; coroutines, MD5 (see the manifest), the etcd client and the examples, which are glue.
\<close>

end
